(* ===== verification/Prelude.thy ===== *)
theory Prelude
  imports Main "HOL-Library.Word"
begin

text \<open>
  Prelude of the development: the machine-integer types of the C sources, and the generic
  definitions and facts on lists, bytes and words that several components share, most of them
  declared for the simplifier.
\<close>

unbundle bit_operations_syntax

type_synonym u8 = "8 word"
type_synonym u16 = "16 word"
type_synonym u32 = "32 word"
type_synonym u64 = "64 word"

section \<open>Splitting a 16-bit word into bytes\<close>

definition hi8 :: "u16 \<Rightarrow> u8" where
  "hi8 w = ucast (drop_bit 8 w)"

definition lo8 :: "u16 \<Rightarrow> u8" where
  "lo8 w = ucast (w AND 0xFF)"

definition mk16 :: "u8 \<Rightarrow> u8 \<Rightarrow> u16" where
  "mk16 h l = (push_bit 8 (ucast h)) OR ucast l"

lemma low_byte_mask: "(0xFF :: 'a::len word) = mask 8"
  by (simp add: mask_eq_exp_minus_1)

lemma mk16_hi8_lo8 [simp]: "mk16 (hi8 w) (lo8 w) = w"
  unfolding mk16_def hi8_def lo8_def low_byte_mask
  by (rule bit_word_eqI) (auto simp: bit_simps)

lemma hi8_mk16 [simp]: "hi8 (mk16 h l) = h"
  unfolding mk16_def hi8_def
  by (rule bit_word_eqI) (auto simp: bit_simps dest: bit_imp_le_length)

lemma lo8_mk16 [simp]: "lo8 (mk16 h l) = l"
  unfolding mk16_def lo8_def low_byte_mask
  by (rule bit_word_eqI) (auto simp: bit_simps)

lemma mk16_inject [simp]: "mk16 h l = mk16 h' l' \<longleftrightarrow> h = h' \<and> l = l'"
  by (metis hi8_mk16 lo8_mk16)

text \<open>The top bit of a byte and the bits below it.\<close>

lemma bit_0x80: "bit (0x80 :: u8) i \<longleftrightarrow> i = 7"
proof -
  have "(0x80 :: u8) = push_bit 7 1" by simp
  then show ?thesis by (simp only: bit_push_bit_iff) (auto simp: bit_1_iff)
qed

lemma bit_0x7F: "bit (0x7F :: u8) i \<longleftrightarrow> i < 7"
proof -
  have "(0x7F :: u8) = mask 7" by (simp add: mask_eq_exp_minus_1)
  then show ?thesis by (simp only: bit_mask_iff) auto
qed

lemma top_bit_set: "bit (r OR (0x80 :: u8)) 7"
  by (simp only: bit_or_iff bit_0x80) simp

lemma top_bit_cleared:
  assumes "\<not> bit (r :: u8) 7"
  shows "(r OR 0x80) AND 0x7F = r" and "r AND NOT 0x80 = r"
proof -
  show "(r OR 0x80) AND 0x7F = r"
  proof (rule bit_word_eqI)
    fix i assume "i < LENGTH(8)"
    with assms show "bit ((r OR 0x80) AND 0x7F) i = bit r i"
      by (simp only: bit_or_iff bit_and_iff bit_0x80 bit_0x7F) (cases "i = 7", auto)
  qed
  show "r AND NOT 0x80 = r"
  proof (rule bit_word_eqI)
    fix i assume "i < LENGTH(8)"
    with assms show "bit (r AND NOT 0x80) i = bit r i"
      by (simp only: bit_and_iff word_not_simps bit_not_iff bit_0x80) auto
  qed
qed

section \<open>Error numbers\<close>

definition EIO :: int where "EIO = 5"
definition EAGAIN :: int where "EAGAIN = 11"
definition ENODEV :: int where "ENODEV = 19"
definition EINVAL :: int where "EINVAL = 22"
definition ETIMEDOUT :: int where "ETIMEDOUT = 116"

lemmas errnos = EIO_def EAGAIN_def ENODEV_def EINVAL_def ETIMEDOUT_def


section \<open>C strings\<close>

text \<open>
  A C string is the part of a byte array before its first NUL. \<open>strncpy dst src n\<close>
  copies at most \<open>n\<close> bytes of the string, pads with NULs up to \<open>n\<close> and leaves the
  rest of \<open>dst\<close> alone; it does not terminate a string of \<open>n\<close> or more bytes.
\<close>

definition cstr :: "u8 list \<Rightarrow> u8 list" where
  "cstr a = takeWhile (\<lambda>c. c \<noteq> 0) a"

definition strncpy :: "u8 list \<Rightarrow> u8 list \<Rightarrow> nat \<Rightarrow> u8 list" where
  "strncpy dst src n =
     (let s = take n (cstr src) in s @ replicate (n - length s) 0 @ drop n dst)"

text \<open>Decimal digits and their value.\<close>

definition is_digit :: "u8 \<Rightarrow> bool" where
  "is_digit b \<longleftrightarrow> 0x30 \<le> b \<and> b \<le> 0x39"

definition decimal :: "u8 list \<Rightarrow> nat" where
  "decimal ds = foldl (\<lambda>n d. 10 * n + unat (d - 0x30)) 0 ds"

lemma length_cstr_le: "length (cstr a) \<le> length a"
  by (simp add: cstr_def length_takeWhile_le)

lemma cstr_no_nul: "0 \<notin> set (cstr a)"
  by (auto simp: cstr_def dest: set_takeWhileD)

lemma cstr_append_nul [simp]: "0 \<notin> set s \<Longrightarrow> cstr (s @ 0 # xs) = s"
  by (induction s) (auto simp: cstr_def)

lemma cstr_take: "cstr (take n (cstr a)) = take n (cstr a)"
proof -
  have "\<forall>c \<in> set (take n (cstr a)). c \<noteq> 0"
    using cstr_no_nul [of a] by (metis in_set_takeD)
  then show ?thesis unfolding cstr_def [of "take n (cstr a)"] by (simp add: takeWhile_eq_all_conv)
qed

lemma length_strncpy [simp]: "n \<le> length dst \<Longrightarrow> length (strncpy dst src n) = length dst"
  by (simp add: strncpy_def Let_def)

lemma cstr_strncpy_terminated:
  assumes "n < length dst"
  shows "cstr ((strncpy dst src n)[n := 0]) = take n (cstr src)"
proof -
  let ?s = "take n (cstr src)"
  have nn: "0 \<notin> set ?s" using cstr_no_nul [of src] by (meson in_set_takeD)
  let ?p = "?s @ replicate (n - length ?s) 0"
  have "drop n dst = dst ! n # drop (Suc n) dst"
    using assms by (simp add: Cons_nth_drop_Suc)
  moreover have "length ?p = n" by simp
  ultimately have "(strncpy dst src n)[n := 0] = ?p @ 0 # drop (Suc n) dst"
    unfolding strncpy_def Let_def append_assoc [symmetric] by (metis list_update_length)
  also have "cstr \<dots> = ?s"
  proof (cases "n - length ?s")
    case 0
    with nn show ?thesis by simp
  next
    case (Suc k)
    then have "?p @ 0 # drop (Suc n) dst = ?s @ 0 # (replicate k 0 @ 0 # drop (Suc n) dst)"
      by (simp only: replicate_Suc append_assoc append_Cons append_Nil)
    with nn show ?thesis by (simp only: cstr_append_nul not_False_eq_True)
  qed
  finally show ?thesis .
qed


section \<open>Loops with an early return\<close>

text \<open>
  \<open>for (i = 0; i < n; i++) if (P(i)) return i;\<close> is \<open>find P [0..<n]\<close>.
\<close>

lemma find_upt_Some: "find P [0..<n] = Some i \<longleftrightarrow> i < n \<and> P i \<and> (\<forall>j<i. \<not> P j)"
  by (auto simp: find_Some_iff)

lemma find_upt_None: "find P [0..<n] = None \<longleftrightarrow> (\<forall>i<n. \<not> P i)"
  by (auto simp: find_None_iff)

section \<open>The bytes of a 32-bit word, least significant first\<close>

definition dec32 :: "u8 list \<Rightarrow> u32" where
  "dec32 bs = word_rcat (rev bs)"

definition enc32 :: "u32 \<Rightarrow> u8 list" where
  "enc32 v = map (\<lambda>i. ucast (drop_bit (8 * i) v)) [0..<4]"

lemma length_enc32 [simp]: "length (enc32 v) = 4"
  by (simp add: enc32_def)

lemma dec32_enc32 [simp]: "dec32 (enc32 v) = v"
proof (rule bit_word_eqI)
  fix n assume "n < LENGTH(32)"
  then have "n div 8 < 4" "n = 8 * (n div 8) + n mod 8" by auto
  then show "bit (dec32 (enc32 v)) n = bit v n"
    using \<open>n < LENGTH(32)\<close>
    by (simp add: dec32_def enc32_def word_rcat_def bit_word_of_int_iff
        bit_horner_sum_uint_exp_iff [where 'a = 8, simplified] bit_simps)
qed

end
