(* ===== verification/Zephyr_API.thy ===== *)
theory Zephyr_API
  imports Prelude
begin

text \<open>
  The Zephyr services the sources call and that are not part of the repository: the UART
  driver, the clock and the thread sleep. They are parameters of the model, collected in
  records over the type \<open>'w\<close> of the rest of the world; every operation takes and
  returns the world. What the code relies on is stated as locales over these records.
\<close>

section \<open>UART and time\<close>

text \<open>
  \<open>uart_poll_in\<close> returns the driver's status and the byte it wrote through its
  out-parameter (meaningful when the status is 0).
\<close>

record 'w uart_api =
  uart_poll_out :: "u8 \<Rightarrow> 'w \<Rightarrow> 'w"
  uart_poll_in :: "'w \<Rightarrow> int \<times> u8 \<times> 'w"
  uart_device_is_ready :: "'w \<Rightarrow> bool"
  k_uptime_get :: "'w \<Rightarrow> int \<times> 'w"
  k_msleep :: "int \<Rightarrow> 'w \<Rightarrow> 'w"

text \<open>
  Documented behaviour of the clock and of a UART with a finite amount of pending input:
  \<open>now\<close> is the uptime, \<open>pending\<close> the bytes still to be received. Reading the clock
  returns the uptime, time never runs backwards, a sleep of \<open>n\<close> milliseconds takes at
  least that long, and a poll that succeeds takes the first pending byte. Nothing is said
  of a poll that finds no byte.
\<close>

locale uart_input =
  fixes U :: "'w uart_api" and now :: "'w \<Rightarrow> int" and pending :: "'w \<Rightarrow> u8 list"
  assumes uptime: "k_uptime_get U w = (t, w') \<Longrightarrow> t = now w \<and> now w \<le> now w' \<and> pending w' = pending w"
    and sleep: "now w + n \<le> now (k_msleep U n w) \<and> pending (k_msleep U n w) = pending w"
    and poll_some: "pending w = b # bs \<Longrightarrow>
      \<exists>w'. uart_poll_in U w = (0, b, w') \<and> pending w' = bs \<and> now w \<le> now w'"

text \<open>
  The UART of Zephyr's documentation: a poll that finds no byte returns an error at once.
  The HTIF console of spike is not one: the comment before \<open>htif_transport_read\<close> says that
  its GETC blocks while its standard input has nothing.
\<close>

locale uart_clock = uart_input +
  assumes poll_none: "pending w = [] \<Longrightarrow>
      \<exists>r b w'. uart_poll_in U w = (r, b, w') \<and> r \<noteq> 0 \<and> pending w' = [] \<and> now w \<le> now w'"

text \<open>
  A bound on the time a call takes: reading the clock, or a byte that is pending, takes at
  most \<open>d\<close> milliseconds.
\<close>

locale uart_paced = uart_input +
  fixes d :: int
  assumes pace: "0 \<le> d"
    and uptime_pace: "k_uptime_get U w = (t, w') \<Longrightarrow> now w' \<le> now w + d"
    and poll_pace: "pending w \<noteq> [] \<Longrightarrow> uart_poll_in U w = (r, b, w') \<Longrightarrow> now w' \<le> now w + d"

text \<open>
  A world on which the laws hold: received bytes, transmitted bytes (last first) and the
  uptime in milliseconds.
\<close>

record uart_world =
  rx :: "u8 list"
  tx :: "u8 list"
  clock :: int

definition list_uart :: "uart_world uart_api" where
  "list_uart = \<lparr>
     uart_poll_out = (\<lambda>b w. w\<lparr>tx := b # tx w\<rparr>),
     uart_poll_in = (\<lambda>w. case rx w of [] \<Rightarrow> (- 1, 0, w) | b # bs \<Rightarrow> (0, b, w\<lparr>rx := bs\<rparr>)),
     uart_device_is_ready = (\<lambda>w. True),
     k_uptime_get = (\<lambda>w. (clock w, w)),
     k_msleep = (\<lambda>n w. w\<lparr>clock := clock w + max 0 n\<rparr>)\<rparr>"

interpretation list_uart: uart_clock list_uart clock rx
  by unfold_locales (auto simp: list_uart_def split: list.splits)

text \<open>
  A slow UART whose every poll takes a millisecond, and that has no answer for a poll
  without input: it hands back a byte nobody sent.
\<close>

definition slow_uart :: "uart_world uart_api" where
  "slow_uart = list_uart\<lparr>
     uart_poll_in := (\<lambda>w. case rx w of
        [] \<Rightarrow> (0, 0xFF, w\<lparr>clock := clock w + 1000\<rparr>)
      | b # bs \<Rightarrow> (0, b, w\<lparr>rx := bs, clock := clock w + 1\<rparr>))\<rparr>"

interpretation slow_uart: uart_paced slow_uart clock rx 1
  by unfold_locales (auto simp: slow_uart_def list_uart_def split: list.splits)

end
