(* ===== verification/Crc16.thy ===== *)
theory Crc16
  imports Prelude
begin

text \<open>
  CRC16-CCITT (polynomial 0x1021, initial value 0xFFFF, no reflection) as
  \<open>samples/micro_ros_multinode/src/transport_htif.c\<close> computes it, with the facts that
  make it an error-detecting code: every step is injective in the register and in the
  byte, so two messages of the same length that differ in exactly one byte never have
  the same checksum.
\<close>

text \<open>One iteration of the bit loop; \<open>(uint16_t)(crc << 1)\<close> drops the top bit.\<close>

definition crc_bit :: "u16 \<Rightarrow> u16" where
  "crc_bit crc = (if crc AND 0x8000 \<noteq> 0 then push_bit 1 crc XOR 0x1021 else push_bit 1 crc)"

fun crc_bits :: "nat \<Rightarrow> u16 \<Rightarrow> u16" where
  "crc_bits 0 crc = crc"
| "crc_bits (Suc n) crc = crc_bits n (crc_bit crc)"

definition crc_byte :: "u16 \<Rightarrow> u8 \<Rightarrow> u16" where
  "crc_byte crc b = crc_bits 8 (crc XOR push_bit 8 (ucast b))"

definition crc16_ccitt :: "u8 list \<Rightarrow> u16" where
  "crc16_ccitt data = foldl crc_byte 0xFFFF data"

section \<open>Injectivity\<close>

lemma crc_top_bit: "(crc :: u16) AND 0x8000 \<noteq> 0 \<longleftrightarrow> bit crc 15"
proof -
  have "(0x8000 :: u16) = 2 ^ 15" by simp
  then show ?thesis by (metis and_exp_eq_0_iff_not_bit)
qed

lemma bit_shift1: "bit (push_bit 1 (x :: u16)) n \<longleftrightarrow> 1 \<le> n \<and> n < 16 \<and> bit x (n - 1)"
  unfolding bit_push_bit_iff by auto

lemma crc_bit_low: "bit (crc_bit crc) 0 \<longleftrightarrow> bit crc 15"
  unfolding crc_bit_def crc_top_bit by (simp add: bit_xor_iff bit_shift1 del: push_bit_Suc One_nat_def)

lemma push_bit_1_inject:
  fixes x y :: u16
  assumes "push_bit 1 x = push_bit 1 y" and "bit x 15 = bit y 15"
  shows "x = y"
proof (rule bit_word_eqI)
  fix n assume n: "n < LENGTH(16)"
  show "bit x n = bit y n"
  proof (cases "n = 15")
    case True with assms(2) show ?thesis by simp
  next
    case False
    with n have "Suc n < 16" by simp
    moreover have "bit (push_bit 1 x) (Suc n) = bit (push_bit 1 y) (Suc n)"
      using assms(1) by simp
    ultimately show ?thesis unfolding bit_shift1 by simp
  qed
qed

lemma xor_right_inject [simp]: "(a :: 'a::len word) XOR c = b XOR c \<longleftrightarrow> a = b"
  by (metis bit.xor_self xor.assoc xor.right_neutral)

lemma xor_left_inject [simp]: "(c :: 'a::len word) XOR a = c XOR b \<longleftrightarrow> a = b"
  by (metis xor.commute xor_right_inject)

lemma crc_bit_inject [simp]: "crc_bit x = crc_bit y \<longleftrightarrow> x = y"
proof
  assume eq: "crc_bit x = crc_bit y"
  then have top: "bit x 15 = bit y 15" by (metis crc_bit_low)
  with eq have "push_bit 1 x = push_bit 1 y"
    by (cases "bit y 15") (simp_all add: crc_bit_def crc_top_bit)
  with top show "x = y" by (simp add: push_bit_1_inject)
qed simp

lemma crc_bits_inject [simp]: "crc_bits n x = crc_bits n y \<longleftrightarrow> x = y"
  by (induction n arbitrary: x y) auto

lemma crc_byte_inject_crc [simp]: "crc_byte x b = crc_byte y b \<longleftrightarrow> x = y"
  by (simp add: crc_byte_def)

lemma push_ucast_inject: "push_bit 8 (ucast b :: u16) = push_bit 8 (ucast c) \<longleftrightarrow> b = (c :: u8)"
proof
  assume eq: "push_bit 8 (ucast b :: u16) = push_bit 8 (ucast c)"
  have "hi8 (mk16 b 0) = hi8 (mk16 c 0)" using eq by (simp only: mk16_def)
  then show "b = c" by simp
qed simp

lemma crc_byte_inject_byte [simp]: "crc_byte x b = crc_byte x c \<longleftrightarrow> b = c"
  by (simp add: crc_byte_def push_ucast_inject)

lemma foldl_crc_inject [simp]: "foldl crc_byte x bs = foldl crc_byte y bs \<longleftrightarrow> x = y"
  by (induction bs arbitrary: x y) auto

lemma crc16_single_byte:
  "crc16_ccitt (xs @ b # ys) = crc16_ccitt (xs @ c # ys) \<longleftrightarrow> b = c"
  by (simp add: crc16_ccitt_def)

end
