(* ===== verification/Transport_Htif.thy ===== *)
theory Transport_Htif
  imports Zephyr_API Crc16
begin

text \<open>
  The HDLC-on-HTIF transport of \<open>samples/micro_ros_multinode/src/transport_htif.c\<close>:
  the byte-stuffing writer, the receive parser with its three states, the staging buffer
  and the read loop with its deadline. The fixed C arrays \<open>parse_accum\<close> and
  \<open>staged_payload\<close> are represented by the part of them that is in use (the first
  \<open>parse_len\<close>, respectively \<open>staged_len\<close>, bytes), so the two lengths are the
  lengths of the lists; the code never reads beyond them.
\<close>

section \<open>State and constants\<close>

definition FLAG :: u8 where "FLAG = 0x7E"
definition ESC :: u8 where "ESC = 0x7D"
definition ESC_XOR :: u8 where "ESC_XOR = 0x20"
definition MAX_PAYLOAD :: nat where "MAX_PAYLOAD = 1024"

datatype parser_state = PS_OUT_OF_FRAME | PS_IN_FRAME | PS_IN_FRAME_ESC

record htif_state =
  parse_state :: parser_state
  parse_accum :: "u8 list"
  staged_payload :: "u8 list"
  staged_off :: nat

definition htif_initial :: htif_state where
  "htif_initial = \<lparr>parse_state = PS_OUT_OF_FRAME, parse_accum = [],
                   staged_payload = [], staged_off = 0\<rparr>"

text \<open>\<open>sizeof(parse_accum)\<close>.\<close>

definition accum_size :: nat where
  "accum_size = MAX_PAYLOAD + 2"

lemmas htif_consts = FLAG_def ESC_def ESC_XOR_def MAX_PAYLOAD_def accum_size_def

section \<open>Receiving\<close>

text \<open>The closing flag of a frame: the CRC check over the accumulated bytes.\<close>

definition close_frame :: "htif_state \<Rightarrow> bool \<times> htif_state" where
  "close_frame st =
     (let acc = parse_accum st;
          plen = length acc - 2;
          good = (3 \<le> length acc \<and>
                  (push_bit 8 (ucast (acc ! plen)) OR ucast (acc ! (plen + 1))) =
                  crc16_ccitt (take plen acc));
          st' = (if good then st\<lparr>staged_payload := take plen acc, staged_off := 0\<rparr> else st)
      in (good, st'\<lparr>parse_accum := [], parse_state := PS_IN_FRAME\<rparr>))"

definition feed_parser :: "u8 \<Rightarrow> htif_state \<Rightarrow> bool \<times> htif_state" where
  "feed_parser raw st =
     (case parse_state st of
        PS_OUT_OF_FRAME \<Rightarrow>
          (if raw = FLAG then (False, st\<lparr>parse_accum := [], parse_state := PS_IN_FRAME\<rparr>)
           else (False, st))
      | PS_IN_FRAME \<Rightarrow>
          (if raw = FLAG then close_frame st
           else if raw = ESC then (False, st\<lparr>parse_state := PS_IN_FRAME_ESC\<rparr>)
           else if length (parse_accum st) < accum_size
           then (False, st\<lparr>parse_accum := parse_accum st @ [raw]\<rparr>)
           else (False, st\<lparr>parse_accum := [], parse_state := PS_OUT_OF_FRAME\<rparr>))
      | PS_IN_FRAME_ESC \<Rightarrow>
          (if length (parse_accum st) < accum_size
           then (False, st\<lparr>parse_accum := parse_accum st @ [raw XOR ESC_XOR],
                          parse_state := PS_IN_FRAME\<rparr>)
           else (False, st\<lparr>parse_accum := [], parse_state := PS_OUT_OF_FRAME\<rparr>)))"

definition htif_transport_open :: "'w uart_api \<Rightarrow> htif_state \<Rightarrow> 'w \<Rightarrow> bool \<times> htif_state" where
  "htif_transport_open U st w =
     (if \<not> uart_device_is_ready U w then (False, st)
      else (True, st\<lparr>parse_state := PS_OUT_OF_FRAME, parse_accum := [],
                    staged_payload := [], staged_off := 0\<rparr>))"

definition htif_transport_close :: "htif_state \<Rightarrow> bool \<times> htif_state" where
  "htif_transport_close st = (True, st)"

section \<open>Sending\<close>

definition emit_escaped :: "'w uart_api \<Rightarrow> u8 \<Rightarrow> 'w \<Rightarrow> 'w" where
  "emit_escaped U b w =
     (if b = FLAG \<or> b = ESC
      then uart_poll_out U (b XOR ESC_XOR) (uart_poll_out U ESC w)
      else uart_poll_out U b w)"

definition htif_transport_write :: "'w uart_api \<Rightarrow> u8 list \<Rightarrow> 'w \<Rightarrow> nat \<times> 'w" where
  "htif_transport_write U buf w =
     (let w1 = uart_poll_out U FLAG w;
          w2 = fold (emit_escaped U) buf w1;
          crc = crc16_ccitt buf;
          w3 = emit_escaped U (ucast (drop_bit 8 crc)) w2;
          w4 = emit_escaped U (ucast (crc AND 0xFF)) w3
      in (length buf, uart_poll_out U FLAG w4))"

section \<open>Reading\<close>

text \<open>
  \<open>while (staged_off < staged_len && out < len) buf[out++] = staged_payload[staged_off++];\<close>
  with \<open>room = len - out\<close>; the list is what the loop stores in \<open>buf\<close>.
\<close>

fun drain_staged :: "nat \<Rightarrow> htif_state \<Rightarrow> u8 list \<times> htif_state" where
  "drain_staged 0 st = ([], st)"
| "drain_staged (Suc room) st =
     (if staged_off st < length (staged_payload st) then
        (let b = staged_payload st ! staged_off st;
             (bs, st') = drain_staged room (st\<lparr>staged_off := staged_off st + 1\<rparr>)
         in (b # bs, st'))
      else ([], st))"

text \<open>
  The receive loop returns the bytes stored in \<open>buf\<close>, the parser state and the world;
  \<open>None\<close> stands for a loop that never returns.
\<close>

partial_function (option) read_loop ::
    "'w uart_api \<Rightarrow> int \<Rightarrow> nat \<Rightarrow> htif_state \<Rightarrow> 'w \<Rightarrow> (u8 list \<times> htif_state \<times> 'w) option" where
  "read_loop U deadline len st w =
     (case k_uptime_get U w of (t, w1) \<Rightarrow>
        if deadline \<le> t then Some ([], st, w1)
        else (case uart_poll_in U w1 of (rc, raw, w2) \<Rightarrow>
          if rc = 0 then
            (case feed_parser raw st of (staged, st') \<Rightarrow>
               if staged then (case drain_staged len st' of (bs, st'') \<Rightarrow> Some (bs, st'', w2))
               else read_loop U deadline len st' w2)
          else read_loop U deadline len st (k_msleep U 2 w2)))"

definition htif_transport_read ::
    "'w uart_api \<Rightarrow> nat \<Rightarrow> int \<Rightarrow> htif_state \<Rightarrow> 'w \<Rightarrow> (u8 list \<times> htif_state \<times> 'w) option" where
  "htif_transport_read U len timeout_ms st w =
     (case drain_staged len st of (bs, st1) \<Rightarrow>
        if 0 < length bs then Some (bs, st1, w)
        else (case k_uptime_get U w of (t, w1) \<Rightarrow> read_loop U (t + timeout_ms) len st1 w1))"

section \<open>The wire format\<close>

text \<open>Specification level: the byte sequence of a frame, and a run of the parser.\<close>

definition escape :: "u8 \<Rightarrow> u8 list" where
  "escape b = (if b = FLAG \<or> b = ESC then [ESC, b XOR ESC_XOR] else [b])"

definition stuff :: "u8 list \<Rightarrow> u8 list" where
  "stuff bs = concat (map escape bs)"

definition with_crc :: "u8 list \<Rightarrow> u8 list" where
  "with_crc buf = buf @ [hi8 (crc16_ccitt buf), lo8 (crc16_ccitt buf)]"

definition frame :: "u8 list \<Rightarrow> u8 list" where
  "frame buf = FLAG # stuff (with_crc buf) @ [FLAG]"

text \<open>Feeding a byte sequence; the payloads are those of the calls that returned true.\<close>

fun feed_bytes :: "u8 list \<Rightarrow> htif_state \<Rightarrow> u8 list list \<times> htif_state" where
  "feed_bytes [] st = ([], st)"
| "feed_bytes (b # bs) st =
     (case feed_parser b st of (staged, st1) \<Rightarrow>
      case feed_bytes bs st1 of (ps, st2) \<Rightarrow>
        (if staged then staged_payload st1 # ps else ps, st2))"

lemma stuff_simps [simp]:
  "stuff [] = []" "stuff (b # bs) = escape b @ stuff bs" "stuff (xs @ ys) = stuff xs @ stuff ys"
  by (simp_all add: stuff_def)

lemma feed_bytes_append:
  "feed_bytes (xs @ ys) st =
     (case feed_bytes xs st of (ps, st1) \<Rightarrow> case feed_bytes ys st1 of (qs, st2) \<Rightarrow> (ps @ qs, st2))"
  by (induction xs arbitrary: st) (auto split: prod.splits)

lemma fst_feed_append:
  "fst (feed_bytes (xs @ ys) st) =
     fst (feed_bytes xs st) @ fst (feed_bytes ys (snd (feed_bytes xs st)))"
  by (simp add: feed_bytes_append split: prod.split)

lemma snd_feed_Cons:
  "snd (feed_bytes (b # bs) st) = snd (feed_bytes bs (snd (feed_parser b st)))"
  by (simp split: prod.split)

lemma escape_neq [simp]:
  "FLAG XOR ESC_XOR \<noteq> FLAG" "ESC XOR ESC_XOR \<noteq> FLAG" "FLAG \<noteq> FLAG XOR ESC_XOR" "FLAG \<noteq> ESC XOR ESC_XOR"
  "ESC \<noteq> FLAG" "FLAG \<noteq> ESC"
  by (simp_all add: htif_consts)

lemma flag_notin_escape [simp]: "FLAG \<notin> set (escape b)"
  by (auto simp: escape_def)

lemma length_stuff_le: "length (stuff bs) \<le> 2 * length bs"
  by (induction bs) (simp_all add: escape_def)

lemma flag_notin_stuff [simp]: "FLAG \<notin> set (stuff bs)"
  by (auto simp: stuff_def)

lemma xor_cancel [simp]: "((x :: 'a::len word) XOR y) XOR y = x"
  by (simp add: xor.assoc)

section \<open>The parser reads what the writer sends\<close>

lemma emit_escaped_fold: "emit_escaped U b w = fold (uart_poll_out U) (escape b) w"
  by (simp add: emit_escaped_def escape_def)

lemma fold_emit_escaped: "fold (emit_escaped U) bs w = fold (uart_poll_out U) (stuff bs) w"
  by (induction bs arbitrary: w) (simp_all add: emit_escaped_fold)

lemma write_is_frame:
  "htif_transport_write U buf w = (length buf, fold (uart_poll_out U) (frame buf) w)"
  by (simp add: htif_transport_write_def Let_def frame_def with_crc_def fold_emit_escaped
      emit_escaped_fold hi8_def lo8_def)

lemma feed_escape:
  assumes "parse_state st = PS_IN_FRAME" and "length (parse_accum st) < accum_size"
  shows "feed_bytes (escape b) st = ([], st\<lparr>parse_accum := parse_accum st @ [b]\<rparr>)"
  using assms by (cases st) (auto simp: escape_def feed_parser_def)

lemma feed_stuff:
  assumes "parse_state st = PS_IN_FRAME" and "length (parse_accum st) + length bs \<le> accum_size"
  shows "feed_bytes (stuff bs) st = ([], st\<lparr>parse_accum := parse_accum st @ bs\<rparr>)"
  using assms
proof (induction bs arbitrary: st)
  case Nil
  then show ?case by simp
next
  case (Cons b bs)
  have "feed_bytes (stuff bs) (st\<lparr>parse_accum := parse_accum st @ [b]\<rparr>) =
      ([], st\<lparr>parse_accum := (parse_accum st @ [b]) @ bs\<rparr>)"
    using Cons.IH [of "st\<lparr>parse_accum := parse_accum st @ [b]\<rparr>"] Cons.prems by simp
  with Cons.prems show ?case by (simp add: feed_bytes_append feed_escape)
qed


lemma close_with_crc:
  assumes "parse_accum st = with_crc buf"
  shows "close_frame st =
    (if buf = [] then (False, st\<lparr>parse_accum := [], parse_state := PS_IN_FRAME\<rparr>)
     else (True, st\<lparr>staged_payload := buf, staged_off := 0, parse_accum := [],
                   parse_state := PS_IN_FRAME\<rparr>))"
proof -
  have "(push_bit 8 (ucast (hi8 (crc16_ccitt buf))) OR ucast (lo8 (crc16_ccitt buf))) =
      crc16_ccitt buf"
    by (rule mk16_hi8_lo8 [unfolded mk16_def])
  with assms show ?thesis
    by (cases buf) (auto simp: close_frame_def with_crc_def Let_def nth_append)
qed

text \<open>The state right after a frame: inside the next frame, nothing accumulated.\<close>

definition between_frames :: "htif_state \<Rightarrow> bool" where
  "between_frames st \<longleftrightarrow> parse_state st = PS_IN_FRAME \<and> parse_accum st = []"

definition delivered :: "u8 list \<Rightarrow> htif_state \<Rightarrow> htif_state" where
  "delivered buf st = st\<lparr>staged_payload := buf, staged_off := 0, parse_accum := [],
                        parse_state := PS_IN_FRAME\<rparr>"

lemma between_delivered [simp]: "between_frames (delivered buf st)"
  by (simp add: between_frames_def delivered_def)

lemma delivered_delivered [simp]: "delivered b (delivered a st) = delivered b st"
  by (simp add: delivered_def)

lemma feed_opening_flag:
  assumes "parse_state st = PS_OUT_OF_FRAME \<or> between_frames st"
  shows "feed_parser FLAG st = (False, st\<lparr>parse_accum := [], parse_state := PS_IN_FRAME\<rparr>)"
  using assms by (auto simp: feed_parser_def between_frames_def close_frame_def)

lemma feed_frame:
  assumes st: "parse_state st = PS_OUT_OF_FRAME \<or> between_frames st"
    and len: "1 \<le> length buf" "length buf \<le> MAX_PAYLOAD"
  shows "feed_bytes (frame buf) st = ([buf], delivered buf st)"
proof -
  let ?st0 = "st\<lparr>parse_accum := [], parse_state := PS_IN_FRAME\<rparr>"
  have "feed_bytes (stuff (with_crc buf)) ?st0 = ([], ?st0\<lparr>parse_accum := with_crc buf\<rparr>)"
    using len(2) by (subst feed_stuff) (simp_all add: with_crc_def accum_size_def)
  moreover have "buf \<noteq> []" using len(1) by auto
  then have "feed_parser FLAG (?st0\<lparr>parse_accum := with_crc buf\<rparr>) = (True, delivered buf st)"
    by (simp add: feed_parser_def close_with_crc delivered_def)
  ultimately show ?thesis
    using st by (simp add: frame_def feed_bytes_append feed_opening_flag delivered_def)
qed

lemma feed_noise:
  assumes "parse_state st = PS_OUT_OF_FRAME" and "FLAG \<notin> set noise"
  shows "feed_bytes noise st = ([], st)"
  using assms by (induction noise) (auto simp: feed_parser_def)

lemma feed_frames:
  assumes "between_frames st" and "\<forall>buf \<in> set bufs. 1 \<le> length buf \<and> length buf \<le> MAX_PAYLOAD"
  shows "fst (feed_bytes (concat (map frame bufs)) st) = bufs"
  using assms
proof (induction bufs arbitrary: st)
  case Nil
  then show ?case by simp
next
  case (Cons buf bufs)
  then have "feed_bytes (frame buf) st = ([buf], delivered buf st)"
    by (intro feed_frame) auto
  moreover have "fst (feed_bytes (concat (map frame bufs)) (delivered buf st)) = bufs"
    using Cons by simp
  ultimately show ?case by (simp add: fst_feed_append)
qed

lemma htif_roundtrip_fst:
  assumes "parse_state st = PS_OUT_OF_FRAME" and "FLAG \<notin> set noise"
    and "\<forall>buf \<in> set bufs. 1 \<le> length buf \<and> length buf \<le> MAX_PAYLOAD"
  shows "fst (feed_bytes (noise @ concat (map frame bufs)) st) = bufs"
proof (cases bufs)
  case Nil
  with assms show ?thesis by (simp add: feed_noise)
next
  case (Cons b bs)
  with assms have "feed_bytes (noise @ frame b) st = ([b], delivered b st)"
    by (simp add: feed_bytes_append feed_noise feed_frame)
  moreover have "fst (feed_bytes (concat (map frame bs)) (delivered b st)) = bs"
    using assms Cons by (intro feed_frames) auto
  ultimately show ?thesis
    using Cons fst_feed_append [of "noise @ frame b"] by simp
qed

text \<open>
  C1: Round trip of the framing. Whatever console bytes without a frame flag come first,
  the parser delivers exactly the payloads of a sequence of frames, in order and
  unchanged, when each has between 1 and MAX_PAYLOAD bytes; the bytes of a frame are
  exactly those that \<open>htif_transport_write\<close> puts on the UART.
\<close>

theorem htif_roundtrip:
  assumes "parse_state st = PS_OUT_OF_FRAME" and "FLAG \<notin> set noise"
    and "\<forall>buf \<in> set bufs. 1 \<le> length buf \<and> length buf \<le> MAX_PAYLOAD"
  shows "fst (feed_bytes (noise @ concat (map frame bufs)) st) = bufs \<and>
         snd (htif_transport_write U buf w) = fold (uart_poll_out U) (frame buf) w"
  using htif_roundtrip_fst [OF assms] by (simp add: write_is_frame)

lemma htif_roundtrip_witness:
  "fst (feed_bytes ([0x41, 0x7D] @ concat (map frame [[0x7E, 1], [0x7D]])) htif_initial) =
     [[0x7E, 1], [0x7D]] \<and>
   snd (htif_transport_write list_uart [1] \<lparr>rx = [], tx = [], clock = 0\<rparr>) =
     fold (uart_poll_out list_uart) (frame [1]) \<lparr>rx = [], tx = [], clock = 0\<rparr>"
  by (rule htif_roundtrip) (simp_all add: htif_initial_def htif_consts)


section \<open>Safety of the parser\<close>

definition htif_inv :: "htif_state \<Rightarrow> bool" where
  "htif_inv st \<longleftrightarrow> length (parse_accum st) \<le> accum_size \<and>
     length (staged_payload st) \<le> MAX_PAYLOAD \<and> staged_off st \<le> length (staged_payload st)"

lemma htif_inv_initial [simp]: "htif_inv htif_initial"
  by (simp add: htif_inv_def htif_initial_def)

lemma close_frame_inv: "htif_inv st \<Longrightarrow> htif_inv (snd (close_frame st))"
  by (auto simp: htif_inv_def close_frame_def Let_def accum_size_def)

lemma feed_parser_inv: "htif_inv st \<Longrightarrow> htif_inv (snd (feed_parser raw st))"
  using close_frame_inv [of st]
  by (auto simp: feed_parser_def htif_inv_def split: parser_state.split)

lemma feed_bytes_inv: "htif_inv st \<Longrightarrow> htif_inv (snd (feed_bytes bs st))"
  by (induction bs arbitrary: st) (simp_all add: snd_feed_Cons feed_parser_inv del: feed_bytes.simps(2))

text \<open>A frame that passes has the shape the writer gives it.\<close>

lemma close_frame_good:
  assumes "fst (close_frame st)"
  shows "parse_accum st = with_crc (staged_payload (snd (close_frame st)))"
proof -
  let ?a = "parse_accum st" and ?n = "length (parse_accum st) - 2"
  from assms have n: "3 \<le> length ?a"
    and crc: "mk16 (?a ! ?n) (?a ! (?n + 1)) = crc16_ccitt (take ?n ?a)"
    and st: "staged_payload (snd (close_frame st)) = take ?n ?a"
    by (auto simp: close_frame_def Let_def mk16_def split: if_splits)
  from n have "drop ?n ?a = [?a ! ?n, ?a ! (?n + 1)]"
    by (simp add: Cons_nth_drop_Suc [symmetric])
  moreover have "hi8 (crc16_ccitt (take ?n ?a)) = ?a ! ?n"
    and "lo8 (crc16_ccitt (take ?n ?a)) = ?a ! (?n + 1)"
    by (simp_all only: crc [symmetric] hi8_mk16 lo8_mk16)
  ultimately have "with_crc (take ?n ?a) = take ?n ?a @ drop ?n ?a"
    by (simp only: with_crc_def)
  with st show ?thesis by simp
qed

text \<open>
  C17: Memory safety of the receive parser. From boot, for every sequence of bytes that
  arrives on the console, the accumulator never exceeds its MAX_PAYLOAD + 2 bytes, the
  staging buffer never exceeds MAX_PAYLOAD bytes and the read offset stays within it.
\<close>

theorem parser_memory_safe:
  "length (parse_accum (snd (feed_bytes bs htif_initial))) \<le> MAX_PAYLOAD + 2 \<and>
   length (staged_payload (snd (feed_bytes bs htif_initial))) \<le> MAX_PAYLOAD \<and>
   staged_off (snd (feed_bytes bs htif_initial)) \<le> length (staged_payload (snd (feed_bytes bs htif_initial)))"
  using feed_bytes_inv [OF htif_inv_initial, of bs] by (simp add: htif_inv_def accum_size_def)

lemma feed_parser_true:
  assumes "fst (feed_parser raw st)"
  shows "raw = FLAG \<and> parse_state st = PS_IN_FRAME \<and> feed_parser raw st = close_frame st"
  using assms by (auto simp: feed_parser_def split: parser_state.splits if_splits)

text \<open>
  Only checked data is delivered. Whenever \<open>feed_parser\<close> reports a frame, the bytes
  accumulated for it are the payload it stages followed by the big-endian CRC of that
  payload, the payload is not empty, and the parser is ready for the next frame.
\<close>

theorem staged_is_checked:
  assumes "fst (feed_parser raw st)"
  shows "parse_accum st = with_crc (staged_payload (snd (feed_parser raw st))) \<and>
         staged_payload (snd (feed_parser raw st)) \<noteq> [] \<and>
         staged_off (snd (feed_parser raw st)) = 0 \<and> between_frames (snd (feed_parser raw st))"
proof -
  have eq: "feed_parser raw st = close_frame st" using feed_parser_true [OF assms] by blast
  with assms have good: "fst (close_frame st)" by simp
  then have acc: "parse_accum st = with_crc (staged_payload (snd (close_frame st)))"
    by (rule close_frame_good)
  moreover have "3 \<le> length (parse_accum st)"
    using good by (simp add: close_frame_def Let_def)
  ultimately have "staged_payload (snd (close_frame st)) \<noteq> []"
    by (auto simp: with_crc_def)
  with acc good show ?thesis
    unfolding eq by (auto simp: close_frame_def Let_def between_frames_def)
qed

definition checked_example :: htif_state where
  "checked_example = htif_initial\<lparr>parse_state := PS_IN_FRAME, parse_accum := with_crc [5, 6]\<rparr>"

lemma feed_checked_example: "feed_parser FLAG checked_example = (True, delivered [5, 6] checked_example)"
  by (simp add: feed_parser_def checked_example_def close_with_crc delivered_def)

lemma staged_is_checked_witness:
  "parse_accum checked_example = with_crc [5, 6]"
  using staged_is_checked [of FLAG checked_example]
  by (simp add: feed_checked_example delivered_def)

text \<open>
  A list with a checksum behind it that differs from such a list in one byte has no
  matching checksum: the CRC register is injective in every step.
\<close>

lemma with_crc_one_byte:
  assumes "with_crc p = xs @ b # ys" and "with_crc q = xs @ c # ys"
  shows "b = c"
proof -
  have l: "length p = length q" using arg_cong [OF assms(1), of length] arg_cong [OF assms(2), of length]
    by (simp add: with_crc_def)
  let ?n = "length xs"
  show ?thesis
  proof (cases "?n < length p")
    case True
    define zs where "zs = drop (Suc ?n) p"
    have p: "p = xs @ b # zs"
    proof -
      have "take ?n p = xs" using arg_cong [OF assms(1), of "take ?n"] True by (simp add: with_crc_def)
      moreover have "p ! ?n = b" using arg_cong [OF assms(1), of "\<lambda>l. l ! ?n"] True
        by (simp add: with_crc_def nth_append)
      ultimately show ?thesis unfolding zs_def using id_take_nth_drop [OF True] by simp
    qed
    have q: "q = xs @ c # zs \<and> crc16_ccitt p = crc16_ccitt q"
    proof -
      have "ys = zs @ [hi8 (crc16_ccitt p), lo8 (crc16_ccitt p)]"
        using assms(1) by (simp add: with_crc_def p)
      with assms(2) have "q @ [hi8 (crc16_ccitt q), lo8 (crc16_ccitt q)] =
          (xs @ c # zs) @ [hi8 (crc16_ccitt p), lo8 (crc16_ccitt p)]"
        by (simp only: with_crc_def append_assoc append_Cons append_Nil)
      moreover have "length q = length (xs @ c # zs)" using l p by simp
      ultimately have eq: "q = xs @ c # zs"
        and "[hi8 (crc16_ccitt q), lo8 (crc16_ccitt q)] = [hi8 (crc16_ccitt p), lo8 (crc16_ccitt p)]"
        using append_eq_append_conv by blast+
      then have "crc16_ccitt p = crc16_ccitt q" by (metis list.inject mk16_hi8_lo8)
      with eq show ?thesis ..
    qed
    then show ?thesis using p crc16_single_byte by metis
  next
    case False
    have "p = q"
      using arg_cong [OF assms(1), of "take (length p)"] arg_cong [OF assms(2), of "take (length p)"] False l
      by (simp add: with_crc_def)
    with assms show ?thesis by simp
  qed
qed

lemma feed_escaped_byte:
  assumes "parse_state st = PS_IN_FRAME" and "length (parse_accum st) < accum_size"
  shows "feed_bytes [ESC, d] st = ([], st\<lparr>parse_accum := parse_accum st @ [d XOR ESC_XOR]\<rparr>)"
  using assms by (cases st) (auto simp: feed_parser_def)

text \<open>
  C12: A corrupted byte is detected. Take the frame of a payload of at most MAX_PAYLOAD bytes
  as it is on the wire, and change one byte between its flags - of the payload or of the
  checksum - that is not an escape marker: a byte sent as itself to any other value but the
  flag and the escape, or the byte behind an escape to any other value at all. A receiver in
  step (out of frame, or right behind a frame) reports no frame for it and keeps what it had
  staged, and it is in step for the next frame, which it delivers. A byte that becomes, or
  was, a flag or an escape marker changes the length of the frame and is not covered.
\<close>

theorem corrupted_byte_rejected:
  assumes "parse_state st = PS_OUT_OF_FRAME \<or> between_frames st"
    and "length buf \<le> MAX_PAYLOAD" and "with_crc buf = xs @ b # ys"
    and "bad = (if b = FLAG \<or> b = ESC then [ESC, d] else [d])"
    and "if b = FLAG \<or> b = ESC then d \<noteq> b XOR ESC_XOR else d \<notin> {b, FLAG, ESC}"
    and "1 \<le> length buf2" and "length buf2 \<le> MAX_PAYLOAD"
  shows "frame buf = FLAG # stuff xs @ escape b @ stuff ys @ [FLAG] \<and>
    fst (feed_bytes (FLAG # stuff xs @ bad @ stuff ys @ [FLAG]) st) = [] \<and>
    staged_payload (snd (feed_bytes (FLAG # stuff xs @ bad @ stuff ys @ [FLAG]) st)) = staged_payload st \<and>
    fst (feed_bytes (FLAG # stuff xs @ bad @ stuff ys @ [FLAG] @ frame buf2) st) = [buf2]"
proof -
  define c where "c = (if b = FLAG \<or> b = ESC then d XOR ESC_XOR else d)"
  have "c \<noteq> b" using assms(5) by (auto simp: c_def split: if_splits) (metis xor_cancel)+
  have n: "length xs + 1 + length ys \<le> accum_size"
    using arg_cong [OF assms(3), of length] assms(2) by (simp add: with_crc_def accum_size_def)
  let ?s0 = "st\<lparr>parse_accum := [], parse_state := PS_IN_FRAME\<rparr>"
  let ?s1 = "?s0\<lparr>parse_accum := xs @ [c]\<rparr>"
  let ?s2 = "?s0\<lparr>parse_accum := xs @ c # ys\<rparr>"
  have o: "feed_bytes [FLAG] st = ([], ?s0)" using feed_opening_flag [OF assms(1)] by simp
  have x: "feed_bytes (stuff xs) ?s0 = ([], ?s0\<lparr>parse_accum := xs\<rparr>)"
    using n by (subst feed_stuff) simp_all
  have y: "feed_bytes bad (?s0\<lparr>parse_accum := xs\<rparr>) = ([], ?s1)"
  proof (cases "b = FLAG \<or> b = ESC")
    case True
    then show ?thesis using n assms(4) by (simp add: feed_escaped_byte c_def del: feed_bytes.simps)
  next
    case False
    then show ?thesis using n assms(4,5) by (simp add: c_def feed_parser_def)
  qed
  have z: "feed_bytes (stuff ys) ?s1 = ([], ?s2)"
    using n by (subst feed_stuff) simp_all
  have "\<not> fst (close_frame ?s2)"
  proof
    assume "fst (close_frame ?s2)"
    from close_frame_good [OF this] have "with_crc (staged_payload (snd (close_frame ?s2))) = xs @ c # ys"
      by simp
    from with_crc_one_byte [OF assms(3) this] \<open>c \<noteq> b\<close> show False by simp
  qed
  then have f: "feed_bytes [FLAG] ?s2 = ([], ?s0)"
    by (simp add: feed_parser_def) (auto simp: close_frame_def Let_def)
  have all: "feed_bytes (FLAG # stuff xs @ bad @ stuff ys @ [FLAG]) st = ([], ?s0)"
    using o x y z f feed_bytes_append [of "[FLAG]" "stuff xs @ bad @ stuff ys @ [FLAG]" st]
    by (simp add: feed_bytes_append del: feed_bytes.simps(2))
  have "fst (feed_bytes ((FLAG # stuff xs @ bad @ stuff ys @ [FLAG]) @ frame buf2) st) = [buf2]"
    using assms(6,7) feed_frame [of ?s0 buf2]
    by (simp only: fst_feed_append all) (simp add: between_frames_def)
  then show ?thesis
    using assms(3) by (simp add: all frame_def del: feed_bytes.simps(2))
qed

lemma corrupted_byte_rejected_witness:
  "fst (feed_bytes (FLAG # stuff [5] @ [ESC, 0x42] @ stuff [hi8 (crc16_ccitt [5, 0x7E]), lo8 (crc16_ccitt [5, 0x7E])] @
     [FLAG] @ frame [1, 2]) htif_initial) = [[1, 2]]"
  using corrupted_byte_rejected [of htif_initial "[5, 0x7E]" "[5]" "0x7E"
      "[hi8 (crc16_ccitt [5, 0x7E]), lo8 (crc16_ccitt [5, 0x7E])]" "[ESC, 0x42]" "0x42" "[1, 2]"]
  by (simp add: with_crc_def htif_consts htif_initial_def)

text \<open>
  A console byte can swallow a frame. The parser takes the byte after an escape as
  data whatever it is, so console output that ends in the escape byte (the character
  \<open>}\<close>) between two frames turns the next opening flag into data and the frame
  is lost: here the frame of [1, 2, 3] is not delivered, and the parser recovers only
  for the frame after it.
\<close>

theorem escape_noise_loses_frame:
  "fst (feed_bytes (frame [7] @ [ESC] @ frame [1, 2, 3] @ frame [4]) htif_initial) = [[7], [4]]"
  by code_simp

section \<open>The read call\<close>

lemma drain_staged_eq:
  assumes "staged_off st \<le> length (staged_payload st)"
  shows "drain_staged room st =
    (take room (drop (staged_off st) (staged_payload st)),
     st\<lparr>staged_off := min (staged_off st + room) (length (staged_payload st))\<rparr>)"
  using assms
proof (induction room st rule: drain_staged.induct)
  case (1 st)
  then show ?case by (cases st) simp
next
  case (2 room st)
  show ?case
  proof (cases "staged_off st < length (staged_payload st)")
    case True
    with "2.IH" [OF True refl] show ?thesis
      by (simp add: Cons_nth_drop_Suc [symmetric] min_def)
  next
    case False
    with "2.prems" show ?thesis by (cases st) simp
  qed
qed

text \<open>The bytes of the last frame that no read has returned yet.\<close>

definition unread :: "htif_state \<Rightarrow> u8 list" where
  "unread st = drop (staged_off st) (staged_payload st)"

text \<open>
  A frame is never lost to a short buffer. While a frame has unread bytes, a read with
  room for at least one byte returns the next ones at once, in order, without touching the
  UART or the clock, and leaves exactly the rest for the next read.
\<close>

theorem read_drains_staged:
  assumes "htif_inv st" and "unread st \<noteq> []" and "0 < len"
  shows "\<exists>st'. htif_transport_read U len timeout_ms st w = Some (take len (unread st), st', w) \<and>
           unread st' = drop len (unread st) \<and> htif_inv st'"
proof -
  have off: "staged_off st \<le> length (staged_payload st)"
    using assms(1) by (simp add: htif_inv_def)
  have ne: "0 < length (take len (unread st))" using assms(2,3) by simp
  let ?st' = "st\<lparr>staged_off := min (staged_off st + len) (length (staged_payload st))\<rparr>"
  have "drain_staged len st = (take len (unread st), ?st')"
    by (simp add: drain_staged_eq [OF off] unread_def)
  with ne have "htif_transport_read U len timeout_ms st w = Some (take len (unread st), ?st', w)"
    unfolding htif_transport_read_def by simp
  moreover have "unread ?st' = drop len (unread st)"
    by (simp add: unread_def add.commute min_def)
  moreover have "htif_inv ?st'" using assms(1) by (simp add: htif_inv_def)
  ultimately show ?thesis by blast
qed

lemma read_drains_staged_witness:
  "\<exists>st'. htif_transport_read list_uart 2 10 (delivered [1, 2, 3] htif_initial)
      \<lparr>rx = [], tx = [], clock = 0\<rparr> = Some (take 2 [1, 2, 3], st', \<lparr>rx = [], tx = [], clock = 0\<rparr>) \<and>
     unread st' = drop 2 [1, 2, 3] \<and> htif_inv st'"
  using read_drains_staged [of "delivered [1, 2, 3] htif_initial" 2 list_uart 10
      "\<lparr>rx = [], tx = [], clock = 0\<rparr>"]
  by (simp add: htif_inv_def unread_def delivered_def htif_initial_def htif_consts)

context uart_input begin

lemma uptime_step:
  obtains w' where "k_uptime_get U w = (now w, w')" "now w \<le> now w'" "pending w' = pending w"
  using uptime [of w] by (cases "k_uptime_get U w") auto

end

context uart_clock begin

lemma close_frame_staged:
  assumes "fst (feed_parser raw st)"
  shows "staged_payload (snd (feed_parser raw st)) \<noteq> []" and "staged_off (snd (feed_parser raw st)) = 0"
proof -
  have eq: "feed_parser raw st = close_frame st" using feed_parser_true [OF assms] by blast
  with assms have "3 \<le> length (parse_accum st)" by (simp add: close_frame_def Let_def)
  with assms show "staged_payload (snd (feed_parser raw st)) \<noteq> []" "staged_off (snd (feed_parser raw st)) = 0"
    unfolding eq by (auto simp: close_frame_def Let_def)
qed

text \<open>Each round either consumes a byte or lets time pass, so the loop ends.\<close>

lemma read_loop_returns:
  assumes "0 < len"
  shows "\<exists>bs st' w'. read_loop U deadline len st w = Some (bs, st', w') \<and>
    (bs = [] \<longrightarrow> deadline \<le> now w')"
proof (induction "(nat (deadline - now w), length (pending w))" arbitrary: st w
    rule: wf_induct_rule [OF wf_lex_prod [OF wf_less_than wf_less_than]])
  case (1 w st)
  obtain w1 where u: "k_uptime_get U w = (now w, w1)" "now w \<le> now w1" "pending w1 = pending w"
    by (rule uptime_step)
  show ?case
  proof (cases "deadline \<le> now w")
    case True
    with u show ?thesis by (subst read_loop.simps) simp
  next
    case False
    show ?thesis
    proof (cases "pending w1")
      case (Cons b bs)
      then obtain w2 where p: "uart_poll_in U w1 = (0, b, w2)" "pending w2 = bs" "now w1 \<le> now w2"
        using poll_some by blast
      obtain staged st' where f: "feed_parser b st = (staged, st')" by fastforce
      show ?thesis
      proof (cases staged)
        case True
        have "staged_payload st' \<noteq> []" "staged_off st' = 0"
          using close_frame_staged [of b st] f True by simp_all
        then have "fst (drain_staged len st') \<noteq> []"
          using assms by (simp add: drain_staged_eq)
        with True False u p f show ?thesis by (subst read_loop.simps) (auto split: prod.split)
      next
        case no: False
        have "length (pending w2) < length (pending w)"
          using p(2) u(3) Cons by (metis length_Cons lessI)
        then have "\<exists>bs st'' w'. read_loop U deadline len st' w2 = Some (bs, st'', w') \<and>
            (bs = [] \<longrightarrow> deadline \<le> now w')"
          using "1" [of w2 st'] p u Cons False by (cases "now w2 = now w") (auto simp: in_lex_prod)
        with no False u p f show ?thesis by (subst read_loop.simps) simp
      qed
    next
      case Nil
      then obtain rc b w2 where p: "uart_poll_in U w1 = (rc, b, w2)" "rc \<noteq> 0" "now w1 \<le> now w2"
        using poll_none by blast
      have "now w2 + 2 \<le> now (k_msleep U 2 w2)" using sleep by blast
      then have "\<exists>bs st'' w'. read_loop U deadline len st (k_msleep U 2 w2) = Some (bs, st'', w') \<and>
          (bs = [] \<longrightarrow> deadline \<le> now w')"
        using "1" [of "k_msleep U 2 w2" st] p u False by auto
      with False u p show ?thesis by (subst read_loop.simps) simp
    qed
  qed
qed

lemma read_returns:
  assumes "0 < len"
  shows "\<exists>bs st' w'. htif_transport_read U len timeout_ms st w = Some (bs, st', w') \<and>
    (bs = [] \<longrightarrow> now w + timeout_ms \<le> now w')"
proof -
  obtain w1 where u: "k_uptime_get U w = (now w, w1)" by (rule uptime_step)
  obtain bs st1 where d: "drain_staged len st = (bs, st1)" by fastforce
  show ?thesis
    using read_loop_returns [OF assms, of "now w + timeout_ms" st1 w1] u d
    by (simp add: htif_transport_read_def)
qed

end

text \<open>
  C14: A read with nothing to read times out. On a UART whose poll returns when there is
  nothing to read - Zephyr's serial drivers; spike's HTIF console does not, its GETC blocks,
  as the comment before the function says - with a clock that advances by at least the time
  slept and finitely many pending bytes, \<open>htif_transport_read\<close> returns for every buffer of
  at least one byte, timeout, parser state and input, and it comes back empty-handed only
  when the whole timeout has passed.
\<close>

theorem htif_read_returns:
  assumes "uart_clock U now pending" and "0 < len"
  shows "\<exists>bs st' w'. htif_transport_read U len timeout_ms st w = Some (bs, st', w') \<and>
    (bs = [] \<longrightarrow> now w + timeout_ms \<le> now w')"
  by (rule uart_clock.read_returns [OF assms])

lemma htif_read_returns_witness:
  "\<exists>bs st' w'. htif_transport_read list_uart 4 20 htif_initial
      \<lparr>rx = [1, 2], tx = [], clock = 0\<rparr> = Some (bs, st', w') \<and> (clock w' < 20 \<longrightarrow> bs \<noteq> [])"
  using htif_read_returns [OF list_uart.uart_clock_axioms, of 4 20 htif_initial
      "\<lparr>rx = [1, 2], tx = [], clock = 0\<rparr>"] by fastforce

section \<open>From sender to receiver\<close>

context uart_paced begin

text \<open>Two calls per byte: while they fit the time left, bytes that complete no frame are read on.\<close>

lemma read_loop_silent:
  assumes "feed_bytes bs st = ([], st1)" and "pending w = bs @ rest"
    and "now w + 2 * d * int (length bs) < deadline"
  shows "\<exists>w'. read_loop U deadline len st w = read_loop U deadline len st1 w' \<and>
           pending w' = rest \<and> now w' \<le> now w + 2 * d * int (length bs)"
  using assms
proof (induction bs arbitrary: st w)
  case Nil
  then show ?case by auto
next
  case (Cons b bs)
  obtain w1 where u: "k_uptime_get U w = (now w, w1)" "pending w1 = pending w"
    by (rule uptime_step)
  then have n1: "now w1 \<le> now w + d" using uptime_pace by blast
  from u Cons.prems(2) obtain w2 where p: "uart_poll_in U w1 = (0, b, w2)" "pending w2 = bs @ rest"
    using poll_some [of w1 b "bs @ rest"] by auto
  then have n2: "now w2 \<le> now w + 2 * d" using poll_pace [of w1 0 b w2] n1 u Cons.prems(2) by simp
  from Cons.prems(1) obtain st' where f: "feed_parser b st = (False, st')" "feed_bytes bs st' = ([], st1)"
    by (auto split: prod.splits if_splits)
  have t: "2 * d * int (length (b # bs)) = 2 * d + 2 * d * int (length bs)" by (simp add: algebra_simps)
  have "0 \<le> 2 * d * int (length (b # bs))" using pace by simp
  then have "now w < deadline" using Cons.prems(3) by linarith
  then have "read_loop U deadline len st w = read_loop U deadline len st' w2"
    using u p f by (subst read_loop.simps) simp
  moreover have "now w2 + 2 * d * int (length bs) < deadline" using Cons.prems(3) t n2 by linarith
  from Cons.IH [OF f(2) p(2) this] obtain w' where "read_loop U deadline len st' w2 = read_loop U deadline len st1 w'"
    "pending w' = rest" "now w' \<le> now w2 + 2 * d * int (length bs)" by blast
  ultimately show ?case using t n2 by (intro exI [of _ w']) auto
qed

lemma read_loop_staged:
  assumes "feed_parser b st = (True, st')" and "pending w = b # rest" and "now w < deadline"
  shows "\<exists>w'. read_loop U deadline len st w = (case drain_staged len st' of (bs, st'') \<Rightarrow>
           Some (bs, st'', w')) \<and> pending w' = rest"
proof -
  obtain w1 where u: "k_uptime_get U w = (now w, w1)" "pending w1 = pending w"
    by (rule uptime_step)
  with assms(2) obtain w2 where p: "uart_poll_in U w1 = (0, b, w2)" "pending w2 = rest"
    using poll_some [of w1 b rest] by auto
  have "read_loop U deadline len st w = (case drain_staged len st' of (bs, st'') \<Rightarrow> Some (bs, st'', w2))"
    using assms u p by (subst read_loop.simps) simp
  with p show ?thesis by blast
qed

end

lemma frame_split:
  assumes "parse_state st = PS_OUT_OF_FRAME" and "FLAG \<notin> set noise"
    and "1 \<le> length buf" "length buf \<le> MAX_PAYLOAD"
  obtains st1 where "feed_bytes (noise @ FLAG # stuff (with_crc buf)) st = ([], st1)"
    and "feed_parser FLAG st1 = (True, delivered buf st)"
proof -
  let ?st0 = "st\<lparr>parse_accum := [], parse_state := PS_IN_FRAME\<rparr>"
  let ?st1 = "?st0\<lparr>parse_accum := with_crc buf\<rparr>"
  have "feed_bytes (stuff (with_crc buf)) ?st0 = ([], ?st1)"
    using assms(4) by (subst feed_stuff) (simp_all add: with_crc_def accum_size_def)
  then have "feed_bytes (noise @ FLAG # stuff (with_crc buf)) st = ([], ?st1)"
    using assms by (simp add: feed_bytes_append feed_noise feed_opening_flag)
  moreover have "buf \<noteq> []" using assms(3) by auto
  then have "feed_parser FLAG ?st1 = (True, delivered buf st)"
    by (simp add: feed_parser_def close_with_crc delivered_def)
  ultimately show thesis by (rule that)
qed

text \<open>
  C6: End to end. Let the console hold unframed bytes without a flag, then what
  \<open>htif_transport_write\<close> sent for \<open>buf\<close> (1 to MAX_PAYLOAD bytes), then anything; let reading
  the clock or a pending byte take at most \<open>d\<close> milliseconds, and the timeout be longer than
  two such calls per byte and one more (any positive timeout if the clock does not advance
  meanwhile). Then a read by a receiver out of frame with nothing staged returns the first
  \<open>len\<close> bytes of \<open>buf\<close>, keeps the rest of it for the next read and leaves the bytes after the
  frame unread on the UART. It never polls an empty console, so it does not matter what such
  a poll does.
\<close>

theorem write_then_read:
  assumes "uart_paced U now pending d" and "parse_state st = PS_OUT_OF_FRAME" and "unread st = []"
    and "FLAG \<notin> set noise" and "1 \<le> length buf" and "length buf \<le> MAX_PAYLOAD"
    and "d + 2 * d * int (length (noise @ frame buf)) < timeout_ms" and "0 < timeout_ms"
    and "pending w = noise @ frame buf @ rest"
  shows "\<exists>st' w'. htif_transport_read U len timeout_ms st w = Some (take len buf, st', w') \<and>
           unread st' = drop len buf \<and> pending w' = rest"
proof -
  note paced = assms(1)
  then have inp: "uart_input U now pending" by (rule uart_paced.axioms(1))
  have d: "0 \<le> d" by (rule uart_paced.pace [OF paced])
  obtain w1 where u: "k_uptime_get U w = (now w, w1)" "pending w1 = pending w" "now w1 \<le> now w + d"
    using uart_input.uptime_step [OF inp] uart_paced.uptime_pace [OF paced] by metis
  have "drain_staged len st = ([], st)"
    using assms(3) by (cases len) (auto simp: unread_def)
  then have "htif_transport_read U len timeout_ms st w = read_loop U (now w + timeout_ms) len st w1"
    using u by (simp add: htif_transport_read_def)
  moreover obtain st1 where st1: "feed_bytes (noise @ FLAG # stuff (with_crc buf)) st = ([], st1)"
    "feed_parser FLAG st1 = (True, delivered buf st)"
    using assms(2,4-6) by (elim frame_split)
  let ?bs = "noise @ FLAG # stuff (with_crc buf)"
  have pd: "pending w1 = ?bs @ FLAG # rest"
    using u assms(9) by (simp add: frame_def)
  have "int (length (noise @ frame buf)) = int (length ?bs) + 1" by (simp add: frame_def)
  then have "2 * d * int (length (noise @ frame buf)) = 2 * d * int (length ?bs) + 2 * d"
    by (simp only: distrib_left mult_1_right)
  with u(3) d assms(7) have t: "now w1 + 2 * d * int (length ?bs) < now w + timeout_ms" by linarith
  from uart_paced.read_loop_silent [OF paced st1(1) pd t, of len]
  obtain w2 where w2: "read_loop U (now w + timeout_ms) len st w1 =
      read_loop U (now w + timeout_ms) len st1 w2" "pending w2 = FLAG # rest" "now w2 < now w + timeout_ms"
    using t by auto
  moreover from uart_paced.read_loop_staged [OF paced st1(2) w2(2) w2(3), of len]
  obtain w3 where "read_loop U (now w + timeout_ms) len st1 w2 =
      (case drain_staged len (delivered buf st) of (bs, st'') \<Rightarrow> Some (bs, st'', w3))" "pending w3 = rest"
    by auto
  ultimately show ?thesis
    by (simp add: drain_staged_eq delivered_def unread_def min_def)
qed

lemma write_then_read_witness:
  "\<exists>st' w'. htif_transport_read slow_uart 8 50 htif_initial
      \<lparr>rx = [0x41] @ frame [1, 2, 3] @ [0x42], tx = [], clock = 0\<rparr> = Some (take 8 [1, 2, 3], st', w') \<and>
     unread st' = drop 8 [1, 2, 3] \<and> rx w' = [0x42]"
proof -
  have "length (stuff (with_crc [1, 2, 3])) \<le> 10"
    using length_stuff_le [of "with_crc [1, 2, 3]"] by (simp add: with_crc_def del: stuff_simps)
  then have "1 + 2 * 1 * int (length ([0x41 :: u8] @ frame [1, 2, 3])) < 50"
    by (simp add: frame_def)
  then show ?thesis
    by (intro write_then_read [OF slow_uart.uart_paced_axioms])
      (simp_all add: htif_initial_def unread_def htif_consts)
qed

end
