(* ===== verification/Topic_Log.thy ===== *)
theory Topic_Log
  imports Transport_Htif
begin

text \<open>
  The topic log of \<open>lib/microros_local/src/broker.c\<close>: every successful WRITE_DATA
  emits one HDLC record on the console, with the CRC updated byte by byte while the
  record is sent. The mutex around the record only keeps other threads off the console;
  it has no effect on the bytes of the record and is not modelled.
\<close>

definition HDLC_FLAG :: u8 where "HDLC_FLAG = 0x7E"
definition HDLC_ESC :: u8 where "HDLC_ESC = 0x7D"
definition HDLC_XOR :: u8 where "HDLC_XOR = 0x20"

definition htif_emit_byte_atomic :: "'w uart_api \<Rightarrow> u8 \<Rightarrow> 'w \<Rightarrow> 'w" where
  "htif_emit_byte_atomic U b w = uart_poll_out U b w"

text \<open>The bit loop of the CRC, with its counter.\<close>

fun log_crc_loop :: "nat \<Rightarrow> u16 \<Rightarrow> u16" where
  "log_crc_loop 0 crc = crc"
| "log_crc_loop (Suc i) crc =
     log_crc_loop i (if crc AND 0x8000 \<noteq> 0 then push_bit 1 crc XOR 0x1021 else push_bit 1 crc)"

definition htif_emit_escaped :: "'w uart_api \<Rightarrow> u8 \<Rightarrow> u16 \<times> 'w \<Rightarrow> u16 \<times> 'w" where
  "htif_emit_escaped U b cw =
     (case cw of (crc, w) \<Rightarrow>
        (log_crc_loop 8 (crc XOR push_bit 8 (ucast b)),
         if b = HDLC_FLAG \<or> b = HDLC_ESC
         then htif_emit_byte_atomic U (b XOR HDLC_XOR) (htif_emit_byte_atomic U HDLC_ESC w)
         else htif_emit_byte_atomic U b w))"

definition htif_emit_crc_byte :: "'w uart_api \<Rightarrow> u8 \<Rightarrow> 'w \<Rightarrow> 'w" where
  "htif_emit_crc_byte U b w =
     (if b = HDLC_FLAG \<or> b = HDLC_ESC
      then htif_emit_byte_atomic U (b XOR HDLC_XOR) (htif_emit_byte_atomic U HDLC_ESC w)
      else htif_emit_byte_atomic U b w)"

text \<open>
  \<open>topic_name\<close> is the char array of the topic; \<open>quiet\<close> is the flag that
  \<open>broker_quiesce\<close> sets and \<open>dev\<close> says that the HTIF device pointer is not null.
\<close>

definition log_topic_emit ::
    "'w uart_api \<Rightarrow> bool \<Rightarrow> bool \<Rightarrow> u8 list \<Rightarrow> u8 list \<Rightarrow> 'w \<Rightarrow> 'w" where
  "log_topic_emit U quiet dev topic_name payload w =
     (if quiet then w
      else if \<not> dev then w
      else
        let name_len = length (cstr topic_name) in
        if 255 < name_len then w
        else
          let w1 = htif_emit_byte_atomic U HDLC_FLAG w;
              cw2 = htif_emit_escaped U (word_of_nat name_len) (0xFFFF, w1);
              cw3 = fold (htif_emit_escaped U) (take name_len topic_name) cw2;
              (crc, w4) = fold (htif_emit_escaped U) payload cw3;
              w5 = htif_emit_crc_byte U (ucast (drop_bit 8 crc)) w4;
              w6 = htif_emit_crc_byte U (ucast (crc AND 0xFF)) w5
          in htif_emit_byte_atomic U HDLC_FLAG w6)"

section \<open>The record is a frame of the transport\<close>

lemma log_crc_loop_eq: "log_crc_loop n crc = crc_bits n crc"
  by (induction n arbitrary: crc) (simp_all add: crc_bit_def)

lemma hdlc_consts: "HDLC_FLAG = FLAG" "HDLC_ESC = ESC" "HDLC_XOR = ESC_XOR"
  by (simp_all add: HDLC_FLAG_def HDLC_ESC_def HDLC_XOR_def htif_consts)

lemma htif_emit_escaped_eq:
  "htif_emit_escaped U b (crc, w) = (crc_byte crc b, fold (uart_poll_out U) (escape b) w)"
  by (simp add: htif_emit_escaped_def htif_emit_byte_atomic_def hdlc_consts log_crc_loop_eq
      crc_byte_def escape_def)

lemma fold_htif_emit_escaped:
  "fold (htif_emit_escaped U) bs (crc, w) =
     (foldl crc_byte crc bs, fold (uart_poll_out U) (stuff bs) w)"
  by (induction bs arbitrary: crc w) (simp_all add: htif_emit_escaped_eq)

lemma htif_emit_crc_byte_eq: "htif_emit_crc_byte U b w = fold (uart_poll_out U) (escape b) w"
  by (simp add: htif_emit_crc_byte_def htif_emit_byte_atomic_def hdlc_consts escape_def)

definition log_record :: "u8 list \<Rightarrow> u8 list \<Rightarrow> u8 list" where
  "log_record name payload = word_of_nat (length name) # name @ payload"

lemma take_cstr: "take (length (cstr a)) a = cstr a"
  unfolding cstr_def by (induction a) simp_all

lemma log_topic_emit_frame:
  assumes "\<not> quiet" and "dev" and "length (cstr name) \<le> 255"
  shows "log_topic_emit U quiet dev name payload w =
    fold (uart_poll_out U) (frame (log_record (cstr name) payload)) w"
proof -
  let ?r = "log_record (cstr name) payload"
  have "log_topic_emit U quiet dev name payload w =
      (case (crc16_ccitt ?r, fold (uart_poll_out U) (stuff ?r) (uart_poll_out U FLAG w)) of
        (crc, w4) \<Rightarrow> uart_poll_out U FLAG (fold (uart_poll_out U) (escape (lo8 crc))
          (fold (uart_poll_out U) (escape (hi8 crc)) w4)))"
    using assms
    by (simp only: log_topic_emit_def Let_def if_False take_cstr htif_emit_escaped_eq
        fold_htif_emit_escaped htif_emit_crc_byte_eq htif_emit_byte_atomic_def hdlc_consts
        log_record_def crc16_ccitt_def foldl_Cons foldl_append stuff_simps fold_append o_apply
        hi8_def lo8_def not_less [symmetric] simp_thms)
  then show ?thesis by (simp add: frame_def with_crc_def)
qed

text \<open>
  C11: The topic log speaks the transport's format. When the broker is not quiet and has its
  console, for a topic name of at most 255 characters, what \<open>log_topic_emit\<close> puts on the
  console is byte for byte the transport's frame of name length, name, payload, although its
  checksum is computed while the record is sent; and when the record has at most MAX_PAYLOAD
  bytes, a receiver that is out of frame decodes from it exactly that record, behind any
  unframed console output that contains no flag byte. (The mutex that keeps the other
  writers of the console out of a record is not modelled.)
\<close>

theorem topic_log_decodes:
  assumes "\<not> quiet" and "dev" and "length (cstr name) \<le> 255"
    and "length (cstr name) + length payload < MAX_PAYLOAD"
    and "parse_state st = PS_OUT_OF_FRAME" and "FLAG \<notin> set noise"
  shows "log_topic_emit U quiet dev name payload w =
      fold (uart_poll_out U) (frame (word_of_nat (length (cstr name)) # cstr name @ payload)) w \<and>
    fst (feed_bytes (noise @ frame (word_of_nat (length (cstr name)) # cstr name @ payload)) st) =
      [word_of_nat (length (cstr name)) # cstr name @ payload]"
proof -
  have "fst (feed_bytes (noise @ concat (map frame [log_record (cstr name) payload])) st) =
      [log_record (cstr name) payload]"
    using assms by (intro htif_roundtrip_fst) (auto simp: log_record_def)
  then show ?thesis
    using log_topic_emit_frame [OF assms(1-3), of U payload w] by (simp add: log_record_def)
qed

lemma topic_log_decodes_witness:
  "log_topic_emit list_uart False True [0x74, 0] [1, 0x7E] \<lparr>rx = [], tx = [], clock = 0\<rparr> =
       fold (uart_poll_out list_uart) (frame [1, 0x74, 1, 0x7E]) \<lparr>rx = [], tx = [], clock = 0\<rparr> \<and>
     fst (feed_bytes ([0x41] @ frame [1, 0x74, 1, 0x7E]) htif_initial) = [[1, 0x74, 1, 0x7E]]"
  using topic_log_decodes [of False True "[0x74, 0]" "[1, 0x7E]" htif_initial "[0x41]" list_uart
      "\<lparr>rx = [], tx = [], clock = 0\<rparr>"]
  by (simp add: cstr_def htif_initial_def htif_consts)

end
