(* ===== verification/Broker_Tables.thy ===== *)
theory Broker_Tables
  imports Prelude
begin

text \<open>
  The entity tables of \<open>lib/microros_local/src/broker.c\<close>: topics, datawriters and
  datareaders, fixed arrays searched linearly and keyed by the session index and the
  two-byte object id. \<open>NULL\<close> is \<open>None\<close>, a pointer into a table the index of the
  entry; a function that may change the table returns it.
\<close>

definition MAX_TOPICS :: nat where "MAX_TOPICS = 8"
definition MAX_DATAWRITERS :: nat where "MAX_DATAWRITERS = 8"
definition MAX_DATAREADERS :: nat where "MAX_DATAREADERS = 8"
definition MAX_TOPIC_NAME :: nat where "MAX_TOPIC_NAME = 64"

type_synonym object_id = "u8 \<times> u8"

text \<open>\<open>t_name\<close> is the whole char array of \<open>MAX_TOPIC_NAME\<close> bytes.\<close>

record topic_ent =
  t_used :: bool
  t_session_idx :: nat
  t_id :: object_id
  t_name :: "u8 list"

record ep_ent =
  e_used :: bool
  e_session_idx :: nat
  e_id :: object_id
  e_topic_id :: object_id

definition find_topic :: "topic_ent list \<Rightarrow> nat \<Rightarrow> object_id \<Rightarrow> nat option" where
  "find_topic topics session_idx oid =
     find (\<lambda>i. t_used (topics ! i) \<and> t_session_idx (topics ! i) = session_idx \<and>
               fst (t_id (topics ! i)) = fst oid \<and> snd (t_id (topics ! i)) = snd oid)
       [0..<MAX_TOPICS]"

definition alloc_topic ::
    "topic_ent list \<Rightarrow> nat \<Rightarrow> object_id \<Rightarrow> nat option \<times> topic_ent list" where
  "alloc_topic topics session_idx oid =
     (case find_topic topics session_idx oid of
        Some i \<Rightarrow> (Some i, topics)
      | None \<Rightarrow>
          (case find (\<lambda>i. \<not> t_used (topics ! i)) [0..<MAX_TOPICS] of
             Some i \<Rightarrow> (Some i, topics[i := (topics ! i)\<lparr>t_used := True,
                 t_session_idx := session_idx, t_id := oid, t_name := (t_name (topics ! i))[0 := 0]\<rparr>])
           | None \<Rightarrow> (None, topics)))"

definition find_ep :: "ep_ent list \<Rightarrow> nat \<Rightarrow> nat \<Rightarrow> object_id \<Rightarrow> nat option" where
  "find_ep table n session_idx oid =
     find (\<lambda>i. e_used (table ! i) \<and> e_session_idx (table ! i) = session_idx \<and>
               fst (e_id (table ! i)) = fst oid \<and> snd (e_id (table ! i)) = snd oid)
       [0..<n]"

definition alloc_ep ::
    "ep_ent list \<Rightarrow> nat \<Rightarrow> nat \<Rightarrow> object_id \<Rightarrow> nat option \<times> ep_ent list" where
  "alloc_ep table n session_idx oid =
     (case find_ep table n session_idx oid of
        Some i \<Rightarrow> (Some i, table)
      | None \<Rightarrow>
          (case find (\<lambda>i. \<not> e_used (table ! i)) [0..<n] of
             Some i \<Rightarrow> (Some i, table[i := (table ! i)\<lparr>e_used := True,
                 e_session_idx := session_idx, e_id := oid\<rparr>])
           | None \<Rightarrow> (None, table)))"

section \<open>The contract of a table\<close>

text \<open>
  A keyed table of \<open>n\<close> slots: \<open>lookup\<close> finds the first used slot with the key,
  \<open>alloc\<close> returns it or claims the first free slot.
\<close>

locale registry =
  fixes n :: nat and used :: "'e \<Rightarrow> bool" and key :: "'e \<Rightarrow> nat \<times> object_id"
    and lookup :: "'e list \<Rightarrow> nat \<times> object_id \<Rightarrow> nat option"
    and alloc :: "'e list \<Rightarrow> nat \<times> object_id \<Rightarrow> nat option \<times> 'e list"
  assumes lookup_Some: "lookup T k = Some i \<Longrightarrow> i < n \<and> used (T ! i) \<and> key (T ! i) = k"
    and lookup_None: "lookup T k = None \<Longrightarrow> i < n \<Longrightarrow> \<not> (used (T ! i) \<and> key (T ! i) = k)"
    and alloc_found: "lookup T k = Some i \<Longrightarrow> alloc T k = (Some i, T)"
    and alloc_new: "lookup T k = None \<Longrightarrow> \<exists>i<n. \<not> used (T ! i) \<Longrightarrow>
      \<exists>i e. i < n \<and> \<not> used (T ! i) \<and> alloc T k = (Some i, T[i := e]) \<and> used e \<and> key e = k"
    and alloc_full: "lookup T k = None \<Longrightarrow> \<forall>i<n. used (T ! i) \<Longrightarrow> alloc T k = (None, T)"
begin

text \<open>No two used slots share a key.\<close>

definition unique_keys :: "'e list \<Rightarrow> bool" where
  "unique_keys T \<longleftrightarrow> length T = n \<and>
     (\<forall>i<n. \<forall>j<n. used (T ! i) \<longrightarrow> used (T ! j) \<longrightarrow> key (T ! i) = key (T ! j) \<longrightarrow> i = j)"

lemma lookup_unique:
  assumes "unique_keys T" and "i < n" and "used (T ! i)" and "key (T ! i) = k"
  shows "lookup T k = Some i"
proof (cases "lookup T k")
  case None
  with assms show ?thesis using lookup_None by blast
next
  case (Some j)
  with assms lookup_Some [OF Some] show ?thesis by (auto simp: unique_keys_def)
qed

lemma alloc_cases:
  obtains (found) i where "lookup T k = Some i" "alloc T k = (Some i, T)"
  | (new) i e where "lookup T k = None" "i < n" "\<not> used (T ! i)" "alloc T k = (Some i, T[i := e])"
      "used e" "key e = k"
  | (full) "lookup T k = None" "\<forall>i<n. used (T ! i)" "alloc T k = (None, T)"
proof (cases "lookup T k")
  case (Some i)
  from found [OF Some alloc_found [OF Some]] show thesis .
next
  case None
  show thesis
  proof (cases "\<exists>i<n. \<not> used (T ! i)")
    case True
    from alloc_new [OF None this] show thesis using new [OF None] by blast
  next
    case False
    with alloc_full [OF None] None show thesis by (intro full) auto
  qed
qed

text \<open>An update that keeps the key of a used slot, or fills a free slot with a new key.\<close>

lemma unique_keys_update:
  assumes "unique_keys T" and "i < n" and "used e"
    and "\<And>j. j < n \<Longrightarrow> j \<noteq> i \<Longrightarrow> used (T ! j) \<Longrightarrow> key (T ! j) \<noteq> key e"
  shows "unique_keys (T[i := e])"
  unfolding unique_keys_def
proof (intro conjI allI impI)
  show "length (T[i := e]) = n" using assms(1) by (simp add: unique_keys_def)
  fix a b
  assume "a < n" "b < n" "used (T[i := e] ! a)" "used (T[i := e] ! b)"
    and eq: "key (T[i := e] ! a) = key (T[i := e] ! b)"
  with assms(1,2) have len: "i < length T" "a < n" "b < n"
    and u: "a \<noteq> i \<longrightarrow> used (T ! a)" "b \<noteq> i \<longrightarrow> used (T ! b)"
    by (auto simp: unique_keys_def)
  show "a = b"
  proof (cases "a = i \<or> b = i")
    case True
    have "key (T ! j) \<noteq> key e" if "j < n" "j \<noteq> i" "used (T ! j)" for j
      using assms(4) that .
    with True len u eq show ?thesis by (cases "a = i"; cases "b = i") auto
  next
    case False
    with len u eq assms(1) show ?thesis by (auto simp: unique_keys_def)
  qed
qed

lemma alloc_unique:
  assumes "unique_keys T"
  shows "unique_keys (snd (alloc T k))"
proof (cases rule: alloc_cases [of T k])
  case (new i e)
  with lookup_None [OF new(1)] assms show ?thesis
    by (auto intro!: unique_keys_update)
qed (use assms in simp_all)

text \<open>A stored entry with the same key is what lookups see next.\<close>

lemma alloc_store_lookup:
  assumes "unique_keys T" and "alloc T k = (Some i, T')" and "used e" and "key e = k"
  shows "lookup (T'[i := e]) k = Some i \<and> unique_keys (T'[i := e]) \<and> (T'[i := e]) ! i = e \<and>
     (\<forall>k'. k' \<noteq> k \<longrightarrow> lookup (T'[i := e]) k' = lookup T k') \<and>
     (\<forall>j. j \<noteq> i \<longrightarrow> T'[i := e] ! j = T ! j)"
proof -
  have i: "i < n" and T': "T' = T \<or> (\<exists>e'. T' = T[i := e'])"
    and others: "\<And>j. j < n \<Longrightarrow> j \<noteq> i \<Longrightarrow> used (T ! j) \<Longrightarrow> key (T ! j) \<noteq> k"
    and old: "used (T ! i) \<Longrightarrow> key (T ! i) = k"
  proof -
    show "i < n" "T' = T \<or> (\<exists>e'. T' = T[i := e'])" "used (T ! i) \<Longrightarrow> key (T ! i) = k"
      using assms(2) lookup_Some [of T k i] by (cases rule: alloc_cases [of T k]; auto)+
    show "key (T ! j) \<noteq> k" if "j < n" "j \<noteq> i" "used (T ! j)" for j
      using that assms(1,2) lookup_Some [of T k i] lookup_None [of T k j]
      by (cases rule: alloc_cases [of T k]) (auto simp: unique_keys_def)
  qed
  have eq: "T'[i := e] = T[i := e]" using T' by auto
  have len: "length T = n" using assms(1) by (simp add: unique_keys_def)
  have uq: "unique_keys (T[i := e])"
    using assms(1) i assms(3) others assms(4) by (intro unique_keys_update) auto
  have "lookup (T[i := e]) k' = lookup T k'" if "k' \<noteq> k" for k'
  proof (cases "lookup T k'")
    case (Some j)
    with lookup_Some [OF Some] old assms that have "j < n" "j \<noteq> i" "used (T ! j)" "key (T ! j) = k'"
      by auto
    with uq Some show ?thesis by (intro trans [OF lookup_unique]) simp_all
  next
    case None
    have "lookup (T[i := e]) k' \<noteq> Some j" for j
    proof
      assume "lookup (T[i := e]) k' = Some j"
      from lookup_Some [OF this] have "j < n" "used (T[i := e] ! j)" "key (T[i := e] ! j) = k'" by auto
      with lookup_None [OF None, of j] assms(4) that len show False by (cases "j = i") auto
    qed
    then show ?thesis using None by (cases "lookup (T[i := e]) k'") auto
  qed
  moreover have "lookup (T[i := e]) k = Some i"
    using uq i len assms(3,4) by (intro lookup_unique) simp_all
  ultimately show ?thesis using uq i len by (simp add: eq)
qed

end

section \<open>Both tables keep the contract\<close>

definition topic_key :: "topic_ent \<Rightarrow> nat \<times> object_id" where
  "topic_key t = (t_session_idx t, t_id t)"

definition ep_key :: "ep_ent \<Rightarrow> nat \<times> object_id" where
  "ep_key e = (e_session_idx e, e_id e)"

lemma key_eq_iff: "fst (p :: object_id) = fst q \<and> snd p = snd q \<longleftrightarrow> p = q"
  by (auto simp: prod_eq_iff)

lemma find_topic_key:
  "find_topic T s oid = find (\<lambda>i. t_used (T ! i) \<and> topic_key (T ! i) = (s, oid)) [0..<MAX_TOPICS]"
  by (simp add: find_topic_def topic_key_def key_eq_iff)

lemma find_ep_key:
  "find_ep T n s oid = find (\<lambda>i. e_used (T ! i) \<and> ep_key (T ! i) = (s, oid)) [0..<n]"
  by (simp add: find_ep_def ep_key_def key_eq_iff)

interpretation topics: registry MAX_TOPICS t_used topic_key
  "\<lambda>T (s, oid). find_topic T s oid" "\<lambda>T (s, oid). alloc_topic T s oid"
proof (unfold_locales, goal_cases)
  case (1 T k i)
  then show ?case by (cases k) (simp add: find_topic_key find_upt_Some)
next
  case (2 T k i)
  then show ?case by (cases k) (simp add: find_topic_key find_upt_None)
next
  case (4 T k)
  then obtain i where "find (\<lambda>i. \<not> t_used (T ! i)) [0..<MAX_TOPICS] = Some i"
    by (cases "find (\<lambda>i. \<not> t_used (T ! i)) [0..<MAX_TOPICS]") (auto simp: find_upt_None)
  moreover from this have "i < MAX_TOPICS \<and> \<not> t_used (T ! i)" by (simp add: find_upt_Some)
  ultimately show ?case using 4
    by (cases k) (auto simp: alloc_topic_def topic_key_def)
next
  case (5 T k)
  then have "find (\<lambda>i. \<not> t_used (T ! i)) [0..<MAX_TOPICS] = None" by (simp add: find_upt_None)
  with 5 show ?case by (cases k) (simp add: alloc_topic_def)
qed (auto simp: alloc_topic_def)

interpretation eps: registry n e_used ep_key
  "\<lambda>T (s, oid). find_ep T n s oid" "\<lambda>T (s, oid). alloc_ep T n s oid" for n
proof (unfold_locales, goal_cases)
  case (1 T k i)
  then show ?case by (cases k) (simp add: find_ep_key find_upt_Some)
next
  case (2 T k i)
  then show ?case by (cases k) (simp add: find_ep_key find_upt_None)
next
  case (4 T k)
  then obtain i where "find (\<lambda>i. \<not> e_used (T ! i)) [0..<n] = Some i"
    by (cases "find (\<lambda>i. \<not> e_used (T ! i)) [0..<n]") (auto simp: find_upt_None)
  moreover from this have "i < n \<and> \<not> e_used (T ! i)" by (simp add: find_upt_Some)
  ultimately show ?case using 4
    by (cases k) (auto simp: alloc_ep_def ep_key_def)
next
  case (5 T k)
  then have "find (\<lambda>i. \<not> e_used (T ! i)) [0..<n] = None" by (simp add: find_upt_None)
  with 5 show ?case by (cases k) (simp add: alloc_ep_def)
qed (auto simp: alloc_ep_def)

end
