(* ===== verification/Ucdr_API.thy ===== *)
theory Ucdr_API
  imports Prelude
begin

text \<open>
  Micro-CDR, the serialization library the broker calls (\<open>ucdr/microcdr.h\<close>, not part of
  the repository). A buffer is a cursor over a block of memory. The operations are
  parameters, collected in the record \<open>ucdr_api\<close> over an abstract buffer type \<open>'b\<close>; the
  locale \<open>ucdr\<close> states the documented behaviour the broker relies on: bytes are stored
  and read at the cursor, multi-byte integers are aligned to their size relative to the
  start of the buffer, an operation that does not fit fails and never moves the cursor
  beyond the end.
\<close>

datatype ucdr_endianness = UCDR_BIG_ENDIANNESS | UCDR_LITTLE_ENDIANNESS

text \<open>
  \<open>ucdr_mem\<close> is the memory under the buffer (the array given to \<open>ucdr_init_buffer\<close>).
  The deserializers take the old value of their out-parameter and return the success flag,
  the value afterwards and the buffer. The results of the serializers are ignored by the
  broker, so only the buffer is returned.
\<close>

record 'b ucdr_api =
  ucdr_init_buffer :: "u8 list \<Rightarrow> 'b"
  ucdr_mem :: "'b \<Rightarrow> u8 list"
  ucdr_buffer_length :: "'b \<Rightarrow> nat"
  ucdr_buffer_remaining :: "'b \<Rightarrow> nat"
  ucdr_serialize_uint8_t :: "u8 \<Rightarrow> 'b \<Rightarrow> 'b"
  ucdr_serialize_endian_uint16_t :: "ucdr_endianness \<Rightarrow> u16 \<Rightarrow> 'b \<Rightarrow> 'b"
  ucdr_serialize_array_uint8_t :: "u8 list \<Rightarrow> 'b \<Rightarrow> 'b"
  ucdr_deserialize_uint8_t :: "'b \<Rightarrow> u8 \<Rightarrow> bool \<times> u8 \<times> 'b"
  ucdr_deserialize_endian_uint16_t :: "ucdr_endianness \<Rightarrow> 'b \<Rightarrow> u16 \<Rightarrow> bool \<times> u16 \<times> 'b"
  ucdr_deserialize_uint32_t :: "'b \<Rightarrow> u32 \<Rightarrow> bool \<times> u32 \<times> 'b"
  ucdr_deserialize_array_uint8_t :: "nat \<Rightarrow> 'b \<Rightarrow> u8 list \<Rightarrow> bool \<times> u8 list \<times> 'b"

text \<open>The bytes written so far and the bytes still to be read (from \<open>ub->iterator\<close> on).\<close>

definition written :: "'b ucdr_api \<Rightarrow> 'b \<Rightarrow> u8 list" where
  "written C b = take (ucdr_buffer_length C b) (ucdr_mem C b)"

definition from_iterator :: "'b ucdr_api \<Rightarrow> 'b \<Rightarrow> u8 list" where
  "from_iterator C b = drop (ucdr_buffer_length C b) (ucdr_mem C b)"

fun enc16 :: "ucdr_endianness \<Rightarrow> u16 \<Rightarrow> u8 list" where
  "enc16 UCDR_BIG_ENDIANNESS v = [hi8 v, lo8 v]"
| "enc16 UCDR_LITTLE_ENDIANNESS v = [lo8 v, hi8 v]"

fun dec16 :: "ucdr_endianness \<Rightarrow> u8 \<Rightarrow> u8 \<Rightarrow> u16" where
  "dec16 UCDR_BIG_ENDIANNESS a b = mk16 a b"
| "dec16 UCDR_LITTLE_ENDIANNESS a b = mk16 b a"

definition pad_to :: "nat \<Rightarrow> nat \<Rightarrow> nat" where
  "pad_to a p = (a - p mod a) mod a"

lemma length_enc16 [simp]: "length (enc16 e v) = 2"
  by (cases e) simp_all

lemma dec16_enc16 [simp]: "dec16 e (enc16 e v ! 0) (enc16 e v ! 1) = v"
  by (cases e) simp_all

section \<open>Documented behaviour\<close>

text \<open>
  \<open>ok\<close> says that the buffer has no error recorded. Reading: \<open>rd C n al b r v b'\<close> is the
  contract of a deserializer of \<open>n\<close> bytes with alignment \<open>al\<close>.
\<close>

definition reads :: "'b ucdr_api \<Rightarrow> ('b \<Rightarrow> bool) \<Rightarrow> nat \<Rightarrow> nat \<Rightarrow> 'b \<Rightarrow> bool \<Rightarrow> u8 list \<Rightarrow> 'b \<Rightarrow> bool" where
  "reads C ok n al b r bs b' \<longleftrightarrow>
     (let p = ucdr_buffer_length C b + pad_to al (ucdr_buffer_length C b) in
      ucdr_mem C b' = ucdr_mem C b \<and> ucdr_buffer_length C b \<le> ucdr_buffer_length C b' \<and>
      ucdr_buffer_length C b' \<le> length (ucdr_mem C b) \<and>
      (r \<longrightarrow> p + n \<le> length (ucdr_mem C b)) \<and>
      (ok b \<and> p + n \<le> length (ucdr_mem C b) \<longrightarrow> r \<and> ok b') \<and>
      (r \<longrightarrow> ucdr_buffer_length C b' = p + n \<and> bs = take n (drop p (ucdr_mem C b))))"

definition writes :: "'b ucdr_api \<Rightarrow> ('b \<Rightarrow> bool) \<Rightarrow> nat \<Rightarrow> 'b \<Rightarrow> u8 list \<Rightarrow> 'b \<Rightarrow> bool" where
  "writes C ok al b bs b' \<longleftrightarrow>
     (let p = pad_to al (ucdr_buffer_length C b) in
      length (ucdr_mem C b') = length (ucdr_mem C b) \<and>
      ucdr_buffer_length C b' \<le> length (ucdr_mem C b) \<and>
      (ok b \<and> ucdr_buffer_length C b + p + length bs \<le> length (ucdr_mem C b) \<longrightarrow>
         ok b' \<and> ucdr_buffer_length C b' = ucdr_buffer_length C b + p + length bs \<and>
         (\<exists>fill. length fill = p \<and> written C b' = written C b @ fill @ bs)))"

locale ucdr =
  fixes C :: "'b ucdr_api" and ok :: "'b \<Rightarrow> bool"
  assumes init: "ucdr_mem C (ucdr_init_buffer C m) = m \<and>
      ucdr_buffer_length C (ucdr_init_buffer C m) = 0 \<and> ok (ucdr_init_buffer C m)"
    and remaining: "ucdr_buffer_remaining C b = length (ucdr_mem C b) - ucdr_buffer_length C b"
    and within: "ucdr_buffer_length C b \<le> length (ucdr_mem C b)"
    and ser8: "writes C ok 1 b [v] (ucdr_serialize_uint8_t C v b)"
    and ser16: "writes C ok 2 b (enc16 e w) (ucdr_serialize_endian_uint16_t C e w b)"
    and ser_arr: "writes C ok 1 b vs (ucdr_serialize_array_uint8_t C vs b)"
    and de8: "ucdr_deserialize_uint8_t C b v = (r, v', b') \<Longrightarrow> reads C ok 1 1 b r [v'] b'"
    and de16: "ucdr_deserialize_endian_uint16_t C e b w = (r, w', b') \<Longrightarrow>
      \<exists>x y. reads C ok 2 2 b r [x, y] b' \<and> (r \<longrightarrow> w' = dec16 e x y)"
    and de32: "ucdr_deserialize_uint32_t C b d = (r, d', b') \<Longrightarrow>
      \<exists>bs. reads C ok 4 4 b r bs b' \<and> (r \<longrightarrow> d' = dec32 bs)"
    and de_arr: "ucdr_deserialize_array_uint8_t C n b vs = (r, vs', b') \<Longrightarrow> reads C ok n 1 b r vs' b'"
    and de_arr_length: "ucdr_deserialize_array_uint8_t C n b vs = (r, vs', b') \<Longrightarrow> length vs = n \<Longrightarrow>
      length vs' = n"


section \<open>A buffer on which the laws hold\<close>

text \<open>The memory before and after the cursor, and the error flag.\<close>

datatype cdr = Cdr (before: "u8 list") (after: "u8 list") (err: bool)

fun cdr_put :: "nat \<Rightarrow> u8 list \<Rightarrow> cdr \<Rightarrow> cdr" where
  "cdr_put al bs (Cdr p q e) =
     (let k = pad_to al (length p) in
      if \<not> e \<and> k + length bs \<le> length q
      then Cdr (p @ take k q @ bs) (drop (k + length bs) q) e else Cdr p q True)"

fun cdr_get :: "nat \<Rightarrow> nat \<Rightarrow> cdr \<Rightarrow> bool \<times> u8 list \<times> cdr" where
  "cdr_get n al (Cdr p q e) =
     (let k = pad_to al (length p) in
      if \<not> e \<and> k + n \<le> length q
      then (True, take n (drop k q), Cdr (p @ take (k + n) q) (drop (k + n) q) e)
      else (False, [], Cdr p q True))"

definition cdr_mem :: "cdr \<Rightarrow> u8 list" where
  "cdr_mem b = before b @ after b"

definition list_ucdr :: "cdr ucdr_api" where
  "list_ucdr = \<lparr>
     ucdr_init_buffer = (\<lambda>m. Cdr [] m False),
     ucdr_mem = cdr_mem,
     ucdr_buffer_length = (\<lambda>b. length (before b)),
     ucdr_buffer_remaining = (\<lambda>b. length (after b)),
     ucdr_serialize_uint8_t = (\<lambda>v. cdr_put 1 [v]),
     ucdr_serialize_endian_uint16_t = (\<lambda>e w. cdr_put 2 (enc16 e w)),
     ucdr_serialize_array_uint8_t = cdr_put 1,
     ucdr_deserialize_uint8_t = (\<lambda>b v. case cdr_get 1 1 b of (r, bs, b') \<Rightarrow>
        (r, if r then bs ! 0 else v, b')),
     ucdr_deserialize_endian_uint16_t = (\<lambda>e b w. case cdr_get 2 2 b of (r, bs, b') \<Rightarrow>
        (r, if r then dec16 e (bs ! 0) (bs ! 1) else w, b')),
     ucdr_deserialize_uint32_t = (\<lambda>b d. case cdr_get 4 4 b of (r, bs, b') \<Rightarrow>
        (r, if r then dec32 bs else d, b')),
     ucdr_deserialize_array_uint8_t = (\<lambda>n b vs. case cdr_get n 1 b of (r, bs, b') \<Rightarrow>
        (r, if r then bs else vs, b'))\<rparr>"

lemma list_ucdr_views [simp]:
  "ucdr_mem list_ucdr b = before b @ after b" "ucdr_buffer_length list_ucdr b = length (before b)"
  by (simp_all add: list_ucdr_def cdr_mem_def)

lemma cdr_put_writes: "writes list_ucdr (\<lambda>b. \<not> err b) al b bs (cdr_put al bs b)"
  by (cases b) (auto simp: writes_def Let_def written_def intro!: exI [of _ "take _ _"])

lemma cdr_get_reads:
  assumes "cdr_get n al b = (r, bs, b')"
  shows "reads list_ucdr (\<lambda>b. \<not> err b) n al b r bs b'"
  using assms by (cases b) (auto simp: reads_def Let_def split: if_splits)

lemma cdr_get_length: "cdr_get n al b = (True, bs, b') \<Longrightarrow> length bs = n"
  by (cases b) (auto simp: Let_def split: if_splits)

lemma reads_False: "reads C ok n al b False bs b' \<Longrightarrow> reads C ok n al b False bs' b'"
  by (simp add: reads_def Let_def)

lemma list_length_2: "length bs = 2 \<Longrightarrow> bs = [bs ! 0, bs ! 1]"
  by (cases bs; cases "tl bs") auto

lemma list_length_1: "length bs = 1 \<Longrightarrow> bs = [bs ! 0]"
  by (cases bs) auto

interpretation list_ucdr: ucdr list_ucdr "\<lambda>b. \<not> err b"
proof (unfold_locales, goal_cases)
  case (1 m)
  show ?case by (simp add: list_ucdr_def cdr_mem_def)
next
  case (2 b)
  show ?case by (simp, simp add: list_ucdr_def)
next
  case (3 b)
  show ?case by simp
next
  case (4 b v)
  show ?case using cdr_put_writes [of 1 b "[v]"] by (simp add: list_ucdr_def)
next
  case (5 b e w)
  show ?case using cdr_put_writes [of 2 b "enc16 e w"] by (simp add: list_ucdr_def)
next
  case (6 b vs)
  show ?case using cdr_put_writes [of 1 b vs] by (simp add: list_ucdr_def)
next
  case (7 b v r v' b')
  obtain r0 bs b0 where g: "cdr_get 1 1 b = (r0, bs, b0)" by (cases "cdr_get 1 1 b")
  with 7 have eq: "r = r0" "b' = b0" "v' = (if r0 then bs ! 0 else v)"
    by (auto simp: list_ucdr_def)
  show ?case
  proof (cases r0)
    case True
    with g have "bs = [bs ! 0]" by (intro list_length_1 cdr_get_length) simp
    with cdr_get_reads [OF g] True eq show ?thesis by simp
  next
    case False
    with cdr_get_reads [OF g] eq show ?thesis by (auto intro: reads_False)
  qed
next
  case (8 e b w r w' b')
  obtain r0 bs b0 where g: "cdr_get 2 2 b = (r0, bs, b0)" by (cases "cdr_get 2 2 b")
  with 8 have eq: "r = r0" "b' = b0" "w' = (if r0 then dec16 e (bs ! 0) (bs ! 1) else w)"
    by (auto simp: list_ucdr_def)
  show ?case
  proof (cases r0)
    case True
    with g have "bs = [bs ! 0, bs ! 1]" by (intro list_length_2 cdr_get_length) simp
    with cdr_get_reads [OF g] True eq show ?thesis by (intro exI [of _ "bs ! 0"] exI [of _ "bs ! 1"]) simp
  next
    case False
    with cdr_get_reads [OF g] eq show ?thesis by (auto intro: reads_False)
  qed
next
  case (9 b d r d' b')
  obtain r0 bs b0 where g: "cdr_get 4 4 b = (r0, bs, b0)" by (cases "cdr_get 4 4 b")
  with 9 have "r = r0" "b' = b0" "d' = (if r0 then dec32 bs else d)"
    by (auto simp: list_ucdr_def)
  with cdr_get_reads [OF g] show ?case by (intro exI [of _ bs]) auto
next
  case (10 n b vs r vs' b')
  obtain r0 bs b0 where g: "cdr_get n 1 b = (r0, bs, b0)" by (cases "cdr_get n 1 b")
  with 10 have eq: "r = r0" "b' = b0" "vs' = (if r0 then bs else vs)"
    by (auto simp: list_ucdr_def)
  with cdr_get_reads [OF g] show ?case by (cases r0) (auto intro: reads_False)
next
  case (11 n b vs r vs' b')
  then show ?case
    using cdr_get_length [of n 1 b] by (auto simp: list_ucdr_def split: prod.splits if_splits)
qed

end
