(* ===== verification/Transport_Loopback.thy ===== *)
theory Transport_Loopback
  imports Prelude
begin

text \<open>
  The loopback transport of \<open>lib/microros_local\<close>: per-session queue pairs between
  the rmw client and the broker. The kernel's message queues and \<open>k_poll\<close> are
  parameters (record \<open>msgq_api\<close>); the locale \<open>msgq\<close> states their documented
  behaviour as seen by one thread: \<open>contents\<close> gives the messages in a queue, oldest
  first. A put or get is one step in which no other thread runs, so that a full queue stays full
  while a put waits; the theorems on the transport and the broker are about such sequences of steps.
\<close>

section \<open>Constants and types\<close>

definition LOOPBACK_MAX_SESSIONS :: nat where "LOOPBACK_MAX_SESSIONS = 4"
definition LOOPBACK_MTU :: nat where "LOOPBACK_MTU = 512"
definition LOOPBACK_DEPTH :: nat where "LOOPBACK_DEPTH = 32"

lemmas loopback_consts = LOOPBACK_MAX_SESSIONS_def LOOPBACK_MTU_def LOOPBACK_DEPTH_def

record loopback_slot =
  slot_len :: u16
  slot_data :: "u8 list"

text \<open>The eight queues that \<open>DEFINE_PAIR\<close> declares.\<close>

datatype qid = Rmw_to_broker nat | Broker_to_rmw nat

datatype k_timeout = K_NO_WAIT | K_MSEC int | K_FOREVER

text \<open>
  \<open>k_msgq_get\<close> takes the old value of its out-parameter; \<open>k_poll\<close> returns for every
  event whether its state is \<open>K_POLL_STATE_MSGQ_DATA_AVAILABLE\<close>. \<open>uninit_data\<close> is
  what an uninitialised \<open>LOOPBACK_MTU\<close>-byte array on the stack happens to hold.
\<close>

record 'w msgq_api =
  k_msgq_put :: "qid \<Rightarrow> loopback_slot \<Rightarrow> k_timeout \<Rightarrow> 'w \<Rightarrow> int \<times> 'w"
  k_msgq_get :: "qid \<Rightarrow> k_timeout \<Rightarrow> loopback_slot \<Rightarrow> 'w \<Rightarrow> int \<times> loopback_slot \<times> 'w"
  k_msgq_purge :: "qid \<Rightarrow> 'w \<Rightarrow> 'w"
  k_poll :: "qid list \<Rightarrow> k_timeout \<Rightarrow> 'w \<Rightarrow> int \<times> bool list \<times> 'w"
  uninit_data :: "'w \<Rightarrow> u8 list"

section \<open>The transport hooks\<close>

text \<open>A transport is \<open>None\<close> for a null pointer, else \<open>Some\<close> of its \<open>args\<close> field.\<close>

definition session_index_from :: "int option \<Rightarrow> int" where
  "session_index_from t =
     (case t of None \<Rightarrow> - 1
      | Some v \<Rightarrow> if v < 0 \<or> int LOOPBACK_MAX_SESSIONS \<le> v then - 1 else v)"

definition loopback_open :: "'w msgq_api \<Rightarrow> int option \<Rightarrow> 'w \<Rightarrow> bool \<times> 'w" where
  "loopback_open Q t w =
     (let idx = session_index_from t in
      if idx < 0 then (False, w)
      else (True, k_msgq_purge Q (Broker_to_rmw (nat idx))
                    (k_msgq_purge Q (Rmw_to_broker (nat idx)) w)))"

definition loopback_close :: "int option \<Rightarrow> 'w \<Rightarrow> bool \<times> 'w" where
  "loopback_close t w = (True, w)"

text \<open>\<open>buf\<close> is the caller's buffer of \<open>len\<close> bytes; the result is the returned length.\<close>

definition loopback_write :: "'w msgq_api \<Rightarrow> int option \<Rightarrow> u8 list \<Rightarrow> 'w \<Rightarrow> nat \<times> 'w" where
  "loopback_write Q t buf w =
     (let idx = session_index_from t; len = length buf in
      if idx < 0 \<or> LOOPBACK_MTU < len then (0, w)
      else
        let s = \<lparr>slot_len = word_of_nat len,
                 slot_data = buf @ drop len (uninit_data Q w)\<rparr>;
            (rc, w') = k_msgq_put Q (Rmw_to_broker (nat idx)) s (K_MSEC 50) w
        in if rc \<noteq> 0 then (0, w') else (len, w'))"

text \<open>The bytes copied to the caller's buffer; their number is the returned length.\<close>

definition loopback_read ::
    "'w msgq_api \<Rightarrow> int option \<Rightarrow> nat \<Rightarrow> int \<Rightarrow> 'w \<Rightarrow> u8 list \<times> 'w" where
  "loopback_read Q t len timeout_ms w =
     (let idx = session_index_from t in
      if idx < 0 then ([], w)
      else
        (case k_msgq_get Q (Broker_to_rmw (nat idx)) (K_MSEC timeout_ms)
                \<lparr>slot_len = 0, slot_data = uninit_data Q w\<rparr> w of
           (rc, s, w') \<Rightarrow>
             if rc \<noteq> 0 then ([], w')
             else let n = min (unat (slot_len s)) len in (take n (slot_data s), w')))"

section \<open>The broker's side\<close>

text \<open>
  The loop over the poll events: the first ready queue whose get succeeds. Results are the
  return code, the message, the session index and the world.
\<close>

fun recv_scan ::
    "'w msgq_api \<Rightarrow> bool list \<Rightarrow> nat list \<Rightarrow> loopback_slot \<Rightarrow> nat \<Rightarrow> 'w \<Rightarrow>
     int \<times> loopback_slot \<times> nat \<times> 'w" where
  "recv_scan Q ev [] out idx w = (- EAGAIN, out, idx, w)"
| "recv_scan Q ev (i # is) out idx w =
     (if \<not> ev ! i then recv_scan Q ev is out idx w
      else (case k_msgq_get Q (Rmw_to_broker i) K_NO_WAIT out w of
              (rc, out', w') \<Rightarrow>
                if rc = 0 then (0, out', i, w') else recv_scan Q ev is out' idx w'))"

definition loopback_broker_recv_any ::
    "'w msgq_api \<Rightarrow> k_timeout \<Rightarrow> loopback_slot \<Rightarrow> nat \<Rightarrow> 'w \<Rightarrow>
     int \<times> loopback_slot \<times> nat \<times> 'w" where
  "loopback_broker_recv_any Q to out idx w =
     (case k_poll Q (map Rmw_to_broker [0..<LOOPBACK_MAX_SESSIONS]) to w of
        (rc, ev, w') \<Rightarrow>
          if rc \<noteq> 0 then (rc, out, idx, w')
          else recv_scan Q ev [0..<LOOPBACK_MAX_SESSIONS] out idx w')"

definition loopback_broker_send :: "'w msgq_api \<Rightarrow> int \<Rightarrow> loopback_slot \<Rightarrow> 'w \<Rightarrow> int \<times> 'w" where
  "loopback_broker_send Q session_idx s w =
     (if session_idx < 0 \<or> int LOOPBACK_MAX_SESSIONS \<le> session_idx then (- EINVAL, w)
      else k_msgq_put Q (Broker_to_rmw (nat session_idx)) s (K_MSEC 50) w)"

section \<open>What the kernel promises\<close>

locale msgq =
  fixes Q :: "'w msgq_api" and contents :: "'w \<Rightarrow> qid \<Rightarrow> loopback_slot list"
  assumes depth: "length (contents w q) \<le> LOOPBACK_DEPTH"
    and put: "k_msgq_put Q q s t w = (r, w') \<Longrightarrow>
      (if r = 0 then contents w' = (contents w)(q := contents w q @ [s])
       else contents w' = contents w \<and> length (contents w q) = LOOPBACK_DEPTH)"
    and get_some: "contents w q = x # xs \<Longrightarrow>
      \<exists>w'. k_msgq_get Q q t old w = (0, x, w') \<and> contents w' = (contents w)(q := xs)"
    and get_none: "contents w q = [] \<Longrightarrow> t \<noteq> K_FOREVER \<Longrightarrow>
      \<exists>r w'. k_msgq_get Q q t old w = (r, old, w') \<and> r \<noteq> 0 \<and> contents w' = contents w"
    and purge: "contents (k_msgq_purge Q q w) = (contents w)(q := [])"
    and poll_ready: "\<exists>q \<in> set qs. contents w q \<noteq> [] \<Longrightarrow>
      \<exists>w'. k_poll Q qs t w = (0, map (\<lambda>q. contents w q \<noteq> []) qs, w') \<and> contents w' = contents w"
    and poll_idle: "\<forall>q \<in> set qs. contents w q = [] \<Longrightarrow> t \<noteq> K_FOREVER \<Longrightarrow>
      \<exists>r ev w'. k_poll Q qs t w = (r, ev, w') \<and> r \<noteq> 0 \<and> contents w' = contents w"
    and uninit: "length (uninit_data Q w) = LOOPBACK_MTU"

text \<open>A world on which the promises hold: the queues as lists.\<close>

type_synonym list_queues = "(qid \<Rightarrow> loopback_slot list)"

typedef queues = "{f :: list_queues. \<forall>q. length (f q) \<le> LOOPBACK_DEPTH}"
  morphisms contents_of Abs_queues
  by (rule exI [of _ "\<lambda>_. []"]) simp

setup_lifting type_definition_queues

lift_definition no_messages :: queues is "\<lambda>_. []" by simp

lift_definition set_queue :: "qid \<Rightarrow> loopback_slot list \<Rightarrow> queues \<Rightarrow> queues" is
  "\<lambda>q xs f. f(q := take LOOPBACK_DEPTH xs)"
  by simp

definition list_msgq :: "queues msgq_api" where
  "list_msgq = \<lparr>
     k_msgq_put = (\<lambda>q s t w. if length (contents_of w q) < LOOPBACK_DEPTH
                     then (0, set_queue q (contents_of w q @ [s]) w) else (- EAGAIN, w)),
     k_msgq_get = (\<lambda>q t old w. case contents_of w q of
                     [] \<Rightarrow> (- EAGAIN, old, w) | x # xs \<Rightarrow> (0, x, set_queue q xs w)),
     k_msgq_purge = (\<lambda>q w. set_queue q [] w),
     k_poll = (\<lambda>qs t w. if list_ex (\<lambda>q. contents_of w q \<noteq> []) qs
                 then (0, map (\<lambda>q. contents_of w q \<noteq> []) qs, w)
                 else (- EAGAIN, map (\<lambda>_. False) qs, w)),
     uninit_data = (\<lambda>w. replicate LOOPBACK_MTU 0xAA)\<rparr>"

lemma contents_set_queue:
  "contents_of (set_queue q xs w) = (contents_of w)(q := take LOOPBACK_DEPTH xs)"
  by (rule set_queue.rep_eq)

lemma contents_depth: "length (contents_of w q) \<le> LOOPBACK_DEPTH"
  using contents_of by blast

lemma contents_no_messages [simp]: "contents_of no_messages q = []"
  by (simp add: no_messages.rep_eq)

interpretation list_msgq: msgq list_msgq contents_of
proof (unfold_locales, goal_cases)
  case (1 w q)
  show ?case by (rule contents_depth)
next
  case (2 q s t w r w')
  with contents_depth [of w q] show ?case
    by (auto simp: list_msgq_def contents_set_queue EAGAIN_def split: if_splits)
next
  case (3 w q x xs t old)
  with contents_depth [of w q] show ?case
    by (auto simp: list_msgq_def contents_set_queue)
qed (auto simp: list_msgq_def contents_set_queue EAGAIN_def list_ex_iff)


section \<open>The transport as message channels\<close>

text \<open>
  Specification level: a queue holds messages, which are the first \<open>len\<close> bytes of its
  slots.
\<close>

definition slot_bytes :: "loopback_slot \<Rightarrow> u8 list" where
  "slot_bytes s = take (unat (slot_len s)) (slot_data s)"

definition valid_transport :: "int option \<Rightarrow> nat \<Rightarrow> bool" where
  "valid_transport t i \<longleftrightarrow> t = Some (int i) \<and> i < LOOPBACK_MAX_SESSIONS"

lemma session_index_valid: "valid_transport t i \<Longrightarrow> session_index_from t = int i"
  by (auto simp: valid_transport_def session_index_from_def)

lemma session_index_cases: "session_index_from t = - 1 \<or> (\<exists>i. valid_transport t i)"
  by (cases t) (auto simp: session_index_from_def valid_transport_def intro!: exI [of _ "nat _"])

lemma unat_mtu: "n \<le> LOOPBACK_MTU \<Longrightarrow> unat (word_of_nat n :: u16) = n"
  by (simp add: unat_of_nat LOOPBACK_MTU_def)

definition channel :: "('w \<Rightarrow> qid \<Rightarrow> loopback_slot list) \<Rightarrow> 'w \<Rightarrow> qid \<Rightarrow> u8 list list" where
  "channel contents w q = map slot_bytes (contents w q)"

lemma channel_same: "contents w' = contents w \<Longrightarrow> channel contents w' = channel contents w"
  by (rule ext) (simp add: channel_def)

lemma channel_upd:
  "contents w' = (contents w)(q := xs) \<Longrightarrow>
     channel contents w' = (channel contents w)(q := map slot_bytes xs)"
  by (rule ext) (simp add: channel_def)

context msgq begin

lemma write_cases:
  assumes "valid_transport t i" and "length buf \<le> LOOPBACK_MTU"
  obtains (sent) w' s where "loopback_write Q t buf w = (length buf, w')"
      "contents w' = (contents w)(Rmw_to_broker i := contents w (Rmw_to_broker i) @ [s])"
      "slot_bytes s = buf" "unat (slot_len s) = length buf"
  | (full) w' where "loopback_write Q t buf w = (0, w')" "contents w' = contents w"
      "length (contents w (Rmw_to_broker i)) = LOOPBACK_DEPTH"
proof -
  let ?s = "\<lparr>slot_len = word_of_nat (length buf), slot_data = buf @ drop (length buf) (uninit_data Q w)\<rparr>"
  have b: "slot_bytes ?s = buf" "unat (slot_len ?s) = length buf"
    using assms(2) by (simp_all add: slot_bytes_def unat_mtu)
  obtain r w' where p: "k_msgq_put Q (Rmw_to_broker i) ?s (K_MSEC 50) w = (r, w')" by fastforce
  from p assms have wr: "loopback_write Q t buf w = (if r \<noteq> 0 then 0 else length buf, w')"
    by (simp add: loopback_write_def session_index_valid)
  show thesis
  proof (cases "r = 0")
    case True
    with put [OF p] have "contents w' = (contents w)(Rmw_to_broker i := contents w (Rmw_to_broker i) @ [?s])"
      by simp
    with wr True b show thesis by (intro sent [of w' ?s]) simp_all
  next
    case False
    with put [OF p] have "contents w' = contents w" "length (contents w (Rmw_to_broker i)) = LOOPBACK_DEPTH"
      by simp_all
    with wr False show thesis by (intro full [of w']) simp_all
  qed
qed

lemma read_nonempty:
  assumes "valid_transport t i" and "channel contents w (Broker_to_rmw i) = m # ms"
  obtains w' where "loopback_read Q t len tmo w = (take len m, w')"
    "channel contents w' = (channel contents w)(Broker_to_rmw i := ms)"
proof -
  from assms(2) obtain x xs where c: "contents w (Broker_to_rmw i) = x # xs"
    and m: "m = slot_bytes x" "ms = map slot_bytes xs"
    by (auto simp: channel_def)
  from get_some [OF c] obtain w' where g: "k_msgq_get Q (Broker_to_rmw i) (K_MSEC tmo)
      \<lparr>slot_len = 0, slot_data = uninit_data Q w\<rparr> w = (0, x, w')"
    "contents w' = (contents w)(Broker_to_rmw i := xs)" by blast
  have "loopback_read Q t len tmo w = (take len m, w')"
    using assms(1) g(1) m(1)
    by (simp add: loopback_read_def session_index_valid slot_bytes_def min.commute)
  moreover have "channel contents w' = (channel contents w)(Broker_to_rmw i := ms)"
    using g(2) m(2) by (auto simp: channel_def)
  ultimately show thesis by (rule that)
qed

lemma send_cases:
  assumes "i < LOOPBACK_MAX_SESSIONS"
  obtains (sent) w' where "loopback_broker_send Q (int i) s w = (0, w')"
      "contents w' = (contents w)(Broker_to_rmw i := contents w (Broker_to_rmw i) @ [s])"
  | (full) r w' where "loopback_broker_send Q (int i) s w = (r, w')" "r \<noteq> 0" "contents w' = contents w"
      "length (contents w (Broker_to_rmw i)) = LOOPBACK_DEPTH"
proof -
  obtain r w' where p: "k_msgq_put Q (Broker_to_rmw i) s (K_MSEC 50) w = (r, w')" by fastforce
  with assms have sd: "loopback_broker_send Q (int i) s w = (r, w')"
    by (simp add: loopback_broker_send_def)
  show thesis
  proof (cases "r = 0")
    case True
    with put [OF p] sd show thesis by (intro sent [of w']) simp_all
  next
    case False
    with put [OF p] have "contents w' = contents w" "length (contents w (Broker_to_rmw i)) = LOOPBACK_DEPTH"
      by simp_all
    with sd False show thesis by (intro full [of r w'])
  qed
qed

lemma recv_scan_first:
  assumes "\<forall>j \<in> set is. ev ! j = (contents w (Rmw_to_broker j) \<noteq> [])"
    and "is = pre @ i # post" and "\<forall>j \<in> set pre. contents w (Rmw_to_broker j) = []"
    and "contents w (Rmw_to_broker i) = x # xs"
  shows "\<exists>w'. recv_scan Q ev is out idx w = (0, x, i, w') \<and>
           contents w' = (contents w)(Rmw_to_broker i := xs)"
  using assms
proof (induction pre arbitrary: "is")
  case Nil
  with get_some [OF Nil.prems(4), of K_NO_WAIT out] show ?case by force
next
  case (Cons j pre)
  then show ?case by auto
qed

lemma recv_any_first:
  assumes "i < LOOPBACK_MAX_SESSIONS" and "contents w (Rmw_to_broker i) = x # xs"
    and "\<forall>j < i. contents w (Rmw_to_broker j) = []"
  shows "\<exists>w'. loopback_broker_recv_any Q to out idx w = (0, x, i, w') \<and>
           contents w' = (contents w)(Rmw_to_broker i := xs)"
proof -
  let ?qs = "map Rmw_to_broker [0..<LOOPBACK_MAX_SESSIONS]"
  from assms have "\<exists>q \<in> set ?qs. contents w q \<noteq> []" by force
  from poll_ready [OF this, of to] obtain w1 where
    p: "k_poll Q ?qs to w = (0, map (\<lambda>q. contents w q \<noteq> []) ?qs, w1)" "contents w1 = contents w"
    by blast
  have "[0..<LOOPBACK_MAX_SESSIONS] = [0..<i] @ i # [Suc i..<LOOPBACK_MAX_SESSIONS]"
    using assms(1) upt_add_eq_append [of 0 i "LOOPBACK_MAX_SESSIONS - i"] by (simp add: upt_conv_Cons)
  from recv_scan_first [of _ "map (\<lambda>q. contents w q \<noteq> []) ?qs" w1, OF _ this] p(2) assms
  show ?thesis using p(1) by (simp add: loopback_broker_recv_any_def)
qed

end


section \<open>Properties of the transport\<close>

text \<open>
  A write is an enqueue on its own session's channel or nothing. With a valid session
  and a message within the MTU, \<open>loopback_write\<close> either returns the length and appends
  exactly that message to the session's queue towards the broker, or returns 0, changes no
  queue, and that queue held its full 32 messages.
\<close>

theorem loopback_write_refines_enqueue:
  assumes "msgq Q contents" and "valid_transport t i" and "length buf \<le> LOOPBACK_MTU"
  shows "case loopback_write Q t buf w of (n, w') \<Rightarrow>
    (n = length buf \<and> channel contents w' =
       (channel contents w)(Rmw_to_broker i := channel contents w (Rmw_to_broker i) @ [buf])) \<or>
    (n = 0 \<and> channel contents w' = channel contents w \<and>
       length (channel contents w (Rmw_to_broker i)) = LOOPBACK_DEPTH)"
proof (rule msgq.write_cases [OF assms, of w])
  fix w' s
  assume *: "loopback_write Q t buf w = (length buf, w')" "slot_bytes s = buf"
    "contents w' = (contents w)(Rmw_to_broker i := contents w (Rmw_to_broker i) @ [s])"
  show ?thesis using channel_upd [of contents w' w, OF *(3)] *(1,2) by (simp add: channel_def)
next
  fix w'
  assume *: "loopback_write Q t buf w = (0, w')" "contents w' = contents w"
    "length (contents w (Rmw_to_broker i)) = LOOPBACK_DEPTH"
  show ?thesis using channel_same [of contents w' w, OF *(2)] *(1,3) by (simp add: channel_def)
qed

lemma loopback_write_refines_enqueue_witness:
  "case loopback_write list_msgq (Some 2) [1, 2] no_messages of (n, w') \<Rightarrow>
    (n = length [1, 2 :: u8] \<and> channel contents_of w' =
       (channel contents_of no_messages)(Rmw_to_broker 2 :=
          channel contents_of no_messages (Rmw_to_broker 2) @ [[1, 2]])) \<or>
    (n = 0 \<and> channel contents_of w' = channel contents_of no_messages \<and>
       length (channel contents_of no_messages (Rmw_to_broker 2)) = LOOPBACK_DEPTH)"
  by (rule loopback_write_refines_enqueue [OF list_msgq.msgq_axioms])
    (simp_all add: valid_transport_def loopback_consts)

text \<open>
  Messages survive the client-to-broker queue. A message a client writes on session
  \<open>i\<close>, when its queue and those of the lower sessions are empty, is the next one the
  broker receives: with the same bytes, the same length, and the index of its session.
\<close>

theorem loopback_client_to_broker:
  assumes "msgq Q contents" and "valid_transport t i" and "length buf \<le> LOOPBACK_MTU"
    and "\<forall>j \<le> i. contents w (Rmw_to_broker j) = []"
  shows "\<exists>w1 s w2. loopback_write Q t buf w = (length buf, w1) \<and>
    loopback_broker_recv_any Q K_FOREVER out idx w1 = (0, s, i, w2) \<and>
    slot_bytes s = buf \<and> unat (slot_len s) = length buf \<and>
    channel contents w2 = channel contents w"
proof (rule msgq.write_cases [OF assms(1-3), of w])
  fix w1 s
  assume wr: "loopback_write Q t buf w = (length buf, w1)"
    and c: "contents w1 = (contents w)(Rmw_to_broker i := contents w (Rmw_to_broker i) @ [s])"
    and s: "slot_bytes s = buf" "unat (slot_len s) = length buf"
  have i: "i < LOOPBACK_MAX_SESSIONS" using assms(2) by (simp add: valid_transport_def)
  have c1: "contents w1 (Rmw_to_broker i) = [s]" "\<forall>j < i. contents w1 (Rmw_to_broker j) = []"
    using c assms(4) by simp_all
  from msgq.recv_any_first [OF assms(1) i c1, of K_FOREVER out idx] obtain w2 where
    r: "loopback_broker_recv_any Q K_FOREVER out idx w1 = (0, s, i, w2)"
    "contents w2 = (contents w1)(Rmw_to_broker i := [])" by blast
  have "contents w2 = contents w" using r(2) c assms(4) by auto
  then have "channel contents w2 = channel contents w" by (rule channel_same)
  with wr r(1) s show ?thesis by blast
next
  fix w'
  assume "length (contents w (Rmw_to_broker i)) = LOOPBACK_DEPTH"
  with assms(4) show ?thesis by (simp add: loopback_consts)
qed

definition tslot :: loopback_slot where
  "tslot = \<lparr>slot_len = 0, slot_data = []\<rparr>"

lemma loopback_client_to_broker_witness:
  "\<exists>w1 s w2. loopback_write list_msgq (Some 3) [1, 2, 3] no_messages = (length [1, 2, 3 :: u8], w1) \<and>
    loopback_broker_recv_any list_msgq K_FOREVER tslot 0 w1 = (0, s, 3, w2) \<and>
    slot_bytes s = [1, 2, 3] \<and> unat (slot_len s) = length [1, 2, 3 :: u8] \<and>
    channel contents_of w2 = channel contents_of no_messages"
  by (rule loopback_client_to_broker [OF list_msgq.msgq_axioms])
    (simp_all add: valid_transport_def loopback_consts)

text \<open>
  Replies survive the broker-to-client queue. A reply the broker sends to session
  \<open>i\<close> on an empty queue is what that client reads next; a reader with a shorter buffer
  gets the first \<open>len\<close> bytes and the rest of that message is gone, like a datagram.
\<close>

theorem loopback_broker_to_client:
  assumes "msgq Q contents" and "valid_transport t i" and "contents w (Broker_to_rmw i) = []"
  shows "\<exists>w1 w2. loopback_broker_send Q (int i) s w = (0, w1) \<and>
    loopback_read Q t len tmo w1 = (take len (slot_bytes s), w2) \<and>
    channel contents w2 = channel contents w"
proof -
  have i: "i < LOOPBACK_MAX_SESSIONS" using assms(2) by (simp add: valid_transport_def)
  show ?thesis
  proof (rule msgq.send_cases [OF assms(1) i, of s w])
    fix w1
    assume sd: "loopback_broker_send Q (int i) s w = (0, w1)"
      and c: "contents w1 = (contents w)(Broker_to_rmw i := contents w (Broker_to_rmw i) @ [s])"
    have "channel contents w1 (Broker_to_rmw i) = [slot_bytes s]"
      using c assms(3) by (simp add: channel_def)
    from msgq.read_nonempty [OF assms(1,2) this, of len tmo] obtain w2 where
      rd: "loopback_read Q t len tmo w1 = (take len (slot_bytes s), w2)"
      "channel contents w2 = (channel contents w1)(Broker_to_rmw i := [])" by blast
    have "channel contents w2 = channel contents w"
      using rd(2) channel_upd [of contents w1 w, OF c] assms(3) by (auto simp: channel_def)
    with sd rd(1) show ?thesis by blast
  next
    fix r w'
    assume "length (contents w (Broker_to_rmw i)) = LOOPBACK_DEPTH"
    with assms(3) show ?thesis by (simp add: loopback_consts)
  qed
qed

lemma loopback_broker_to_client_witness:
  "\<exists>w1 w2. loopback_broker_send list_msgq (int 1) \<lparr>slot_len = 2, slot_data = [7, 8, 9]\<rparr> no_messages = (0, w1) \<and>
    loopback_read list_msgq (Some 1) 1 5 w1 = (take 1 (slot_bytes \<lparr>slot_len = 2, slot_data = [7, 8, 9]\<rparr>), w2) \<and>
    channel contents_of w2 = channel contents_of no_messages"
  by (rule loopback_broker_to_client [OF list_msgq.msgq_axioms])
    (simp_all add: valid_transport_def loopback_consts)

text \<open>
  The broker always serves the lowest ready session. However often a higher session's
  queue was passed over, \<open>loopback_broker_recv_any\<close> takes the message of the lowest
  session that has one: the scan starts at session 0 on every call, so a session that keeps
  its queue filled starves every session above it.
\<close>

theorem recv_any_lowest_first:
  assumes "msgq Q contents" and "i < LOOPBACK_MAX_SESSIONS" and "contents w (Rmw_to_broker i) = x # xs"
    and "\<forall>j < i. contents w (Rmw_to_broker j) = []"
  shows "\<exists>w'. loopback_broker_recv_any Q to out idx w = (0, x, i, w') \<and>
           contents w' = (contents w)(Rmw_to_broker i := xs)"
  by (rule msgq.recv_any_first [OF assms])

lemma recv_any_lowest_first_witness:
  "\<exists>w'. loopback_broker_recv_any list_msgq K_FOREVER tslot 9
          (set_queue (Rmw_to_broker 1) [tslot] (set_queue (Rmw_to_broker 0) [tslot, tslot] no_messages)) =
          (0, tslot, 0, w') \<and>
        contents_of w' = (contents_of (set_queue (Rmw_to_broker 1) [tslot]
          (set_queue (Rmw_to_broker 0) [tslot, tslot] no_messages)))(Rmw_to_broker 0 := [tslot])"
  by (rule recv_any_lowest_first [OF list_msgq.msgq_axioms])
    (simp_all add: contents_set_queue loopback_consts)

text \<open>
  Session handles are checked. A transport without a valid session index is refused by
  every hook without touching a queue, and so is a message above the MTU.
\<close>

theorem loopback_rejects:
  "((\<nexists>i. valid_transport t i) \<longrightarrow>
      loopback_open Q t w = (False, w) \<and> loopback_write Q t buf w = (0, w) \<and>
      loopback_read Q t len tmo w = ([], w)) \<and>
   (LOOPBACK_MTU < length buf \<longrightarrow> loopback_write Q t buf w = (0, w)) \<and>
   (i < 0 \<or> int LOOPBACK_MAX_SESSIONS \<le> i \<longrightarrow> loopback_broker_send Q i s w = (- EINVAL, w))"
  using session_index_cases [of t]
  by (auto simp: loopback_open_def loopback_write_def loopback_read_def loopback_broker_send_def)

lemma loopback_rejects_witness:
  "loopback_open list_msgq (Some 4) no_messages = (False, no_messages) \<and>
   loopback_broker_send list_msgq 4 tslot no_messages = (- EINVAL, no_messages)"
proof -
  have "\<nexists>i. valid_transport (Some 4) i" by (auto simp: valid_transport_def loopback_consts)
  then show ?thesis
    using loopback_rejects [of "Some 4" list_msgq no_messages "[]" 0 0 4 tslot]
    by (simp add: loopback_consts)
qed

end
