(* ===== verification/Broker_Replies.thy ===== *)
theory Broker_Replies
  imports Broker_Tables Ucdr_API Transport_Loopback Topic_Log
begin

text \<open>
  The broker's state and its reply builders (\<open>lib/microros_local/src/broker.c\<close>): the
  per-session sequence counters, the message header, the submessage header and the five
  replies. Every builder writes into a fresh slot with Micro-CDR and queues the slot for
  the client; the specification gives the bytes of each reply.
\<close>

section \<open>Protocol constants\<close>

definition SUB_CREATE_CLIENT :: u8 where "SUB_CREATE_CLIENT = 0"
definition SUB_CREATE :: u8 where "SUB_CREATE = 1"
definition SUB_GET_INFO :: u8 where "SUB_GET_INFO = 2"
definition SUB_DELETE :: u8 where "SUB_DELETE = 3"
definition SUB_STATUS_AGENT :: u8 where "SUB_STATUS_AGENT = 4"
definition SUB_STATUS :: u8 where "SUB_STATUS = 5"
definition SUB_INFO :: u8 where "SUB_INFO = 6"
definition SUB_WRITE_DATA :: u8 where "SUB_WRITE_DATA = 7"
definition SUB_READ_DATA :: u8 where "SUB_READ_DATA = 8"
definition SUB_DATA :: u8 where "SUB_DATA = 9"
definition SUB_ACKNACK :: u8 where "SUB_ACKNACK = 10"
definition SUB_HEARTBEAT :: u8 where "SUB_HEARTBEAT = 11"

lemmas sub_ids = SUB_CREATE_CLIENT_def SUB_CREATE_def SUB_GET_INFO_def SUB_DELETE_def
  SUB_STATUS_AGENT_def SUB_STATUS_def SUB_INFO_def SUB_WRITE_DATA_def SUB_READ_DATA_def
  SUB_DATA_def SUB_ACKNACK_def SUB_HEARTBEAT_def

definition FLAG_ENDIANNESS :: u8 where "FLAG_ENDIANNESS = 0x01"
definition FLAG_FORMAT_DATA :: u8 where "FLAG_FORMAT_DATA = 0x00"
definition SESSION_NO_KEY :: u8 where "SESSION_NO_KEY = 0x80"
definition HEADER_NO_KEY :: nat where "HEADER_NO_KEY = 4"
definition STATUS_OK :: u8 where "STATUS_OK = 0x00"
definition STREAM_THRESH_REL :: u8 where "STREAM_THRESH_REL = 128"
definition XRCE_COOKIE :: "u8 list" where "XRCE_COOKIE = [0x58, 0x52, 0x43, 0x45]"
definition XRCE_VERSION :: "u8 list" where "XRCE_VERSION = [0x01, 0x00]"
definition XRCE_VENDOR_EPROSIMA :: "u8 list" where "XRCE_VENDOR_EPROSIMA = [0x01, 0x0F]"

lemmas xrce_consts = FLAG_ENDIANNESS_def FLAG_FORMAT_DATA_def SESSION_NO_KEY_def
  HEADER_NO_KEY_def STATUS_OK_def STREAM_THRESH_REL_def XRCE_COOKIE_def XRCE_VERSION_def
  XRCE_VENDOR_EPROSIMA_def

section \<open>State\<close>

record session_state =
  active :: bool
  session_id :: u8
  skey :: "u8 list"
  seq_none :: u16
  seq_be :: u16
  seq_rel :: u16

text \<open>
  The static variables of \<open>broker.c\<close>, with the world of the kernel services as the last
  field; \<open>htif_dev_for_log\<close> is whether the device pointer is not null. \<open>printk\<close> only
  logs and is left out.
\<close>

record 'w broker =
  sessions :: "session_state list"
  topics :: "topic_ent list"
  datawriters :: "ep_ent list"
  datareaders :: "ep_ent list"
  cur_session_idx :: nat
  cur_session_id :: u8
  cur_key :: "u8 list"
  cur_in_stream_id :: u8
  broker_quiet :: bool
  htif_dev_for_log :: bool
  world :: 'w

text \<open>
  The services; \<open>uninit16\<close> and \<open>uninit8\<close> are what the uninitialised locals of the handlers
  happen to hold: any value for each variable, each byte of an array and each state of the
  world in which the handler runs.
\<close>

record ('b, 'w) broker_env =
  cdr_api :: "'b ucdr_api"
  queue_api :: "'w msgq_api"
  uart :: "'w uart_api"
  uninit16 :: "string \<Rightarrow> 'w \<Rightarrow> u16"
  uninit8 :: "string \<Rightarrow> nat \<Rightarrow> 'w \<Rightarrow> u8"

definition uninit_bytes :: "('b, 'w) broker_env \<Rightarrow> string \<Rightarrow> nat \<Rightarrow> 'w broker \<Rightarrow> u8 list" where
  "uninit_bytes E x n B = map (\<lambda>i. uninit8 E x i (world B)) [0..<n]"

lemma length_uninit_bytes [simp]: "length (uninit_bytes E x n B) = n"
  by (simp add: uninit_bytes_def)

definition broker_quiesce :: "'w broker \<Rightarrow> 'w broker" where
  "broker_quiesce B = B\<lparr>broker_quiet := True\<rparr>"

section \<open>Helpers\<close>

text \<open>RISC-V is little-endian: the first byte of \<open>uint16_t test = 1\<close> is its low byte.\<close>

definition machine_endianness :: ucdr_endianness where
  "machine_endianness = UCDR_LITTLE_ENDIANNESS"

definition pick_endian_flag :: u8 where
  "pick_endian_flag = (if enc16 machine_endianness 1 ! 0 = 1 then FLAG_ENDIANNESS else 0)"

definition put_msg_header ::
    "'b ucdr_api \<Rightarrow> u8 \<Rightarrow> u8 \<Rightarrow> u16 \<Rightarrow> u8 list \<Rightarrow> 'b \<Rightarrow> 'b" where
  "put_msg_header C sid stream_id seq key ub =
     (let ub = ucdr_serialize_uint8_t C sid ub;
          ub = ucdr_serialize_uint8_t C stream_id ub;
          ub = ucdr_serialize_endian_uint16_t C UCDR_LITTLE_ENDIANNESS seq ub
      in if sid < SESSION_NO_KEY then ucdr_serialize_array_uint8_t C key ub else ub)"

text \<open>The counter before the increment, which wraps at 16 bits, and the new sessions.\<close>

definition next_seq_for :: "nat \<Rightarrow> u8 \<Rightarrow> session_state list \<Rightarrow> u16 \<times> session_state list" where
  "next_seq_for session_idx stream_id ss =
     (let s = ss ! session_idx in
      if stream_id = 0 then (seq_none s, ss[session_idx := s\<lparr>seq_none := seq_none s + 1\<rparr>])
      else if stream_id < STREAM_THRESH_REL
      then (seq_be s, ss[session_idx := s\<lparr>seq_be := seq_be s + 1\<rparr>])
      else (seq_rel s, ss[session_idx := s\<lparr>seq_rel := seq_rel s + 1\<rparr>]))"

function put_padding :: "'b ucdr_api \<Rightarrow> nat \<Rightarrow> 'b \<Rightarrow> 'b" where
  "put_padding C off ub =
     (if off mod 4 \<noteq> 0 then put_padding C (off + 1) (ucdr_serialize_uint8_t C 0 ub) else ub)"
  by pat_completeness auto
termination
proof (relation "measure (\<lambda>(C, off, ub). (4 - off mod 4) mod 4)", goal_cases)
  case (2 C off ub)
  have "off mod 4 < 4" by simp
  with 2 have "off mod 4 = 1 \<or> off mod 4 = 2 \<or> off mod 4 = 3" by linarith
  then show ?case by (auto simp: mod_Suc)
qed simp

declare put_padding.simps [simp del]

definition put_subheader :: "'b ucdr_api \<Rightarrow> u8 \<Rightarrow> u8 \<Rightarrow> u16 \<Rightarrow> 'b \<Rightarrow> 'b" where
  "put_subheader C i flags len ub =
     (let ub = put_padding C (ucdr_buffer_length C ub) ub;
          ub = ucdr_serialize_uint8_t C i ub;
          ub = ucdr_serialize_uint8_t C flags ub
      in ucdr_serialize_endian_uint16_t C UCDR_LITTLE_ENDIANNESS len ub)"

text \<open>
  The frame all builders share: \<open>struct loopback_slot s\<close> on the stack with a buffer
  over its data, the finished message handed to \<open>loopback_broker_send\<close>.
\<close>

definition fresh_buffer :: "('b, 'w) broker_env \<Rightarrow> 'w broker \<Rightarrow> 'b" where
  "fresh_buffer E B = ucdr_init_buffer (cdr_api E) (uninit_data (queue_api E) (world B))"

definition queue_reply :: "('b, 'w) broker_env \<Rightarrow> nat \<Rightarrow> 'b \<Rightarrow> 'w broker \<Rightarrow> 'w broker" where
  "queue_reply E session_idx ub B =
     (let s = \<lparr>slot_len = word_of_nat (ucdr_buffer_length (cdr_api E) ub),
               slot_data = ucdr_mem (cdr_api E) ub\<rparr>
      in B\<lparr>world := snd (loopback_broker_send (queue_api E) (int session_idx) s (world B))\<rparr>)"

section \<open>Reply builders\<close>

definition send_status_agent :: "('b, 'w) broker_env \<Rightarrow> u16 \<Rightarrow> u8 \<Rightarrow> 'w broker \<Rightarrow> 'w broker" where
  "send_status_agent E request_id status_value B =
     (let C = cdr_api E;
          (seq, ss) = next_seq_for (cur_session_idx B) 0 (sessions B);
          ub = put_msg_header C (cur_session_id B) 0 seq (cur_key B) (fresh_buffer E B);
          ub = put_subheader C SUB_STATUS_AGENT pick_endian_flag (2 + 4 + 2 + 2 + 1) ub;
          ub = ucdr_serialize_uint8_t C status_value ub;
          ub = ucdr_serialize_uint8_t C 0 ub;
          ub = ucdr_serialize_array_uint8_t C XRCE_COOKIE ub;
          ub = ucdr_serialize_array_uint8_t C XRCE_VERSION ub;
          ub = ucdr_serialize_array_uint8_t C XRCE_VENDOR_EPROSIMA ub;
          ub = ucdr_serialize_uint8_t C 0 ub
      in queue_reply E (cur_session_idx B) ub (B\<lparr>sessions := ss\<rparr>))"

definition oid_bytes :: "object_id \<Rightarrow> u8 list" where
  "oid_bytes oid = [fst oid, snd oid]"

definition send_status :: "('b, 'w) broker_env \<Rightarrow> u16 \<Rightarrow> object_id \<Rightarrow> u8 \<Rightarrow> 'w broker \<Rightarrow> 'w broker" where
  "send_status E related_request_id oid status_value B =
     (let C = cdr_api E;
          reply_stream = (if cur_in_stream_id B \<noteq> 0 then cur_in_stream_id B else 0x80);
          (seq, ss) = next_seq_for (cur_session_idx B) reply_stream (sessions B);
          ub = put_msg_header C (cur_session_id B) reply_stream seq (cur_key B) (fresh_buffer E B);
          ub = put_subheader C SUB_STATUS pick_endian_flag 6 ub;
          ub = ucdr_serialize_endian_uint16_t C UCDR_BIG_ENDIANNESS related_request_id ub;
          ub = ucdr_serialize_array_uint8_t C (oid_bytes oid) ub;
          ub = ucdr_serialize_uint8_t C status_value ub;
          ub = ucdr_serialize_uint8_t C 0 ub
      in queue_reply E (cur_session_idx B) ub (B\<lparr>sessions := ss\<rparr>))"

definition send_info :: "('b, 'w) broker_env \<Rightarrow> u16 \<Rightarrow> object_id \<Rightarrow> 'w broker \<Rightarrow> 'w broker" where
  "send_info E related_request_id oid B =
     (let C = cdr_api E;
          (seq, ss) = next_seq_for (cur_session_idx B) 0 (sessions B);
          ub = put_msg_header C (cur_session_id B) 0 seq (cur_key B) (fresh_buffer E B);
          flags = pick_endian_flag;
          ub = put_subheader C SUB_INFO flags 11 ub;
          ub = ucdr_serialize_endian_uint16_t C UCDR_BIG_ENDIANNESS related_request_id ub;
          ub = ucdr_serialize_array_uint8_t C (oid_bytes oid) ub;
          ub = ucdr_serialize_uint8_t C STATUS_OK ub;
          ub = ucdr_serialize_uint8_t C 0 ub;
          ub = ucdr_serialize_uint8_t C 0 ub;
          ub = ucdr_serialize_uint8_t C 1 ub;
          ub = ucdr_serialize_uint8_t C 0x0D ub;
          ub = ucdr_serialize_endian_uint16_t C
                 (if flags AND FLAG_ENDIANNESS \<noteq> 0 then UCDR_LITTLE_ENDIANNESS
                  else UCDR_BIG_ENDIANNESS) 1 ub
      in queue_reply E (cur_session_idx B) ub (B\<lparr>sessions := ss\<rparr>))"

definition send_data ::
    "('b, 'w) broker_env \<Rightarrow> nat \<Rightarrow> object_id \<Rightarrow> u8 list \<Rightarrow> 'w broker \<Rightarrow> 'w broker" where
  "send_data E target_session_idx dr_id payload B =
     (if LOOPBACK_MAX_SESSIONS \<le> target_session_idx \<or> \<not> active (sessions B ! target_session_idx)
      then B
      else
        let C = cdr_api E;
            target = sessions B ! target_session_idx;
            (seq, ss) = next_seq_for target_session_idx 0x80 (sessions B);
            ub = put_msg_header C (session_id target) 0x80 seq (skey target) (fresh_buffer E B);
            sub_payload_len = word_of_nat (4 + length payload);
            ub = put_subheader C SUB_DATA (pick_endian_flag OR FLAG_FORMAT_DATA) sub_payload_len ub;
            ub = ucdr_serialize_endian_uint16_t C UCDR_BIG_ENDIANNESS 0x0000 ub;
            ub = ucdr_serialize_array_uint8_t C (oid_bytes dr_id) ub;
            ub = ucdr_serialize_array_uint8_t C payload ub
        in queue_reply E target_session_idx ub (B\<lparr>sessions := ss\<rparr>))"

definition send_acknack :: "('b, 'w) broker_env \<Rightarrow> u16 \<Rightarrow> u8 \<Rightarrow> 'w broker \<Rightarrow> 'w broker" where
  "send_acknack E first_unacked reliable_stream_id B =
     (let C = cdr_api E;
          ub = put_msg_header C (cur_session_id B) 0 0 (cur_key B) (fresh_buffer E B);
          ub = put_subheader C SUB_ACKNACK pick_endian_flag 5 ub;
          ub = ucdr_serialize_endian_uint16_t C UCDR_LITTLE_ENDIANNESS first_unacked ub;
          ub = ucdr_serialize_uint8_t C 0 ub;
          ub = ucdr_serialize_uint8_t C 0 ub;
          ub = ucdr_serialize_uint8_t C reliable_stream_id ub
      in queue_reply E (cur_session_idx B) ub B)"

end
