(* ===== verification/Broker_Wire.thy ===== *)
theory Broker_Wire
  imports Broker_Replies
begin

text \<open>
  The replies of the broker on the wire. The specification works on an abstract broker
  whose world is the message channels and the console output; the locale
  \<open>broker_sys\<close> collects what the kernel services and Micro-CDR promise, and every reply
  builder refines a one-line specification: bump the sequence counter, post these bytes.
\<close>

section \<open>Bytes of the replies\<close>

definition header_bytes :: "u8 \<Rightarrow> u8 \<Rightarrow> u16 \<Rightarrow> u8 list \<Rightarrow> u8 list" where
  "header_bytes sid stream seq key =
     [sid, stream, lo8 seq, hi8 seq] @ (if sid < SESSION_NO_KEY then key else [])"

definition sub_bytes :: "u8 \<Rightarrow> u16 \<Rightarrow> u8 list" where
  "sub_bytes i len = [i, FLAG_ENDIANNESS, lo8 len, hi8 len]"

definition status_agent_bytes :: "u8 \<Rightarrow> u8 list" where
  "status_agent_bytes st =
     sub_bytes SUB_STATUS_AGENT 11 @ [st, 0] @ XRCE_COOKIE @ XRCE_VERSION @ XRCE_VENDOR_EPROSIMA @ [0]"

definition status_bytes :: "u16 \<Rightarrow> object_id \<Rightarrow> u8 \<Rightarrow> u8 list" where
  "status_bytes rid oid st =
     sub_bytes SUB_STATUS 6 @ [hi8 rid, lo8 rid] @ oid_bytes oid @ [st, 0]"

text \<open>INFO up to the alignment hole before its last field.\<close>

definition info_bytes :: "u16 \<Rightarrow> object_id \<Rightarrow> u8 list" where
  "info_bytes rid oid =
     sub_bytes SUB_INFO 11 @ [hi8 rid, lo8 rid] @ oid_bytes oid @ [STATUS_OK, 0, 0, 1, 0x0D]"

definition data_bytes :: "object_id \<Rightarrow> u8 list \<Rightarrow> u8 list" where
  "data_bytes dr_id payload =
     sub_bytes SUB_DATA (word_of_nat (4 + length payload)) @ [0, 0] @ oid_bytes dr_id @ payload"

definition acknack_bytes :: "u16 \<Rightarrow> u8 \<Rightarrow> u8 list" where
  "acknack_bytes first_unacked stream =
     sub_bytes SUB_ACKNACK 5 @ [lo8 first_unacked, hi8 first_unacked, 0, 0, stream]"

section \<open>Writing with Micro-CDR\<close>

text \<open>\<open>buf_has\<close>: an error-free buffer over \<open>N\<close> bytes in which \<open>xs\<close> has been written.\<close>

definition buf_has :: "'b ucdr_api \<Rightarrow> ('b \<Rightarrow> bool) \<Rightarrow> nat \<Rightarrow> 'b \<Rightarrow> u8 list \<Rightarrow> bool" where
  "buf_has C ok N b xs \<longleftrightarrow> ok b \<and> written C b = xs \<and> length (ucdr_mem C b) = N"

lemma pad_to_1 [simp]: "pad_to (Suc 0) n = 0"
  by (simp add: pad_to_def)

lemma pad_to_2_even: "even n \<Longrightarrow> pad_to 2 n = 0"
  by (simp add: pad_to_def)

lemma pad_to_2_odd: "odd n \<Longrightarrow> pad_to 2 n = 1"
  by (simp add: pad_to_def odd_iff_mod_2_eq_one)

context ucdr begin

lemma buf_len: "buf_has C ok N b xs \<Longrightarrow> ucdr_buffer_length C b = length xs"
  using within [of b] by (auto simp: buf_has_def written_def)

lemma buf_le: "buf_has C ok N b xs \<Longrightarrow> length xs \<le> N"
  using within [of b] buf_len [of N b xs] by (simp add: buf_has_def)

lemma buf_init: "length m = N \<Longrightarrow> buf_has C ok N (ucdr_init_buffer C m) []"
  using init [of m] by (simp add: buf_has_def written_def)

lemma buf_writes:
  assumes "writes C ok al b vs b'" and "buf_has C ok N b xs"
    and "length xs + pad_to al (length xs) + length vs \<le> N"
  shows "\<exists>fill. length fill = pad_to al (length xs) \<and> buf_has C ok N b' (xs @ fill @ vs)"
  using assms(1,3) buf_len [OF assms(2)] assms(2)
  by (auto simp: writes_def Let_def buf_has_def)

lemma buf_ser8:
  assumes "buf_has C ok N b xs" and "length xs + 1 \<le> N"
  shows "buf_has C ok N (ucdr_serialize_uint8_t C v b) (xs @ [v])"
  using buf_writes [OF ser8 assms(1)] assms(2) by simp

lemma buf_arr:
  assumes "buf_has C ok N b xs" and "length xs + length vs \<le> N"
  shows "buf_has C ok N (ucdr_serialize_array_uint8_t C vs b) (xs @ vs)"
  using buf_writes [OF ser_arr assms(1)] assms(2) by simp

lemma buf_ser16:
  assumes "buf_has C ok N b xs" and "even (length xs)" and "length xs + 2 \<le> N"
  shows "buf_has C ok N (ucdr_serialize_endian_uint16_t C e v b) (xs @ enc16 e v)"
  using buf_writes [OF ser16 assms(1)] assms(2,3) by (simp add: pad_to_2_even)

lemma buf_ser16_odd:
  assumes "buf_has C ok N b xs" and "odd (length xs)" and "length xs + 3 \<le> N"
  shows "\<exists>f. buf_has C ok N (ucdr_serialize_endian_uint16_t C e v b) (xs @ f # enc16 e v)"
proof -
  obtain fill where "length fill = 1"
    "buf_has C ok N (ucdr_serialize_endian_uint16_t C e v b) (xs @ fill @ enc16 e v)"
    using buf_writes [OF ser16 assms(1)] assms(2,3) by (auto simp: pad_to_2_odd)
  then show ?thesis by (cases fill) auto
qed

lemma buf_header:
  assumes "buf_has C ok N b []" and "8 \<le> N" and "length key = 4"
  shows "buf_has C ok N (put_msg_header C sid stream seq key b) (header_bytes sid stream seq key)"
proof -
  have "buf_has C ok N (ucdr_serialize_uint8_t C stream (ucdr_serialize_uint8_t C sid b)) [sid, stream]"
    using buf_ser8 [OF buf_ser8 [OF assms(1)]] assms(2) by simp
  from buf_ser16 [OF this, of UCDR_LITTLE_ENDIANNESS seq] assms(2)
  have h: "buf_has C ok N (ucdr_serialize_endian_uint16_t C UCDR_LITTLE_ENDIANNESS seq
      (ucdr_serialize_uint8_t C stream (ucdr_serialize_uint8_t C sid b)))
      [sid, stream, lo8 seq, hi8 seq]" by simp
  with buf_arr [OF h, of key] assms(2,3) show ?thesis
    by (simp add: put_msg_header_def Let_def header_bytes_def)
qed

lemma buf_subheader:
  assumes "buf_has C ok N b xs" and "length xs mod 4 = 0" and "length xs + 4 \<le> N"
  shows "buf_has C ok N (put_subheader C i FLAG_ENDIANNESS len b) (xs @ sub_bytes i len)"
proof -
  have "buf_has C ok N (ucdr_serialize_uint8_t C FLAG_ENDIANNESS (ucdr_serialize_uint8_t C i b))
      ((xs @ [i]) @ [FLAG_ENDIANNESS])"
    using buf_ser8 [OF buf_ser8 [OF assms(1)]] assms(3) by simp
  moreover have "even (length xs)" using assms(2) by presburger
  ultimately have "buf_has C ok N (ucdr_serialize_endian_uint16_t C UCDR_LITTLE_ENDIANNESS len
      (ucdr_serialize_uint8_t C FLAG_ENDIANNESS (ucdr_serialize_uint8_t C i b))) (xs @ sub_bytes i len)"
    using buf_ser16 [of N _ "(xs @ [i]) @ [FLAG_ENDIANNESS]" UCDR_LITTLE_ENDIANNESS len] assms(3)
    by (simp add: sub_bytes_def)
  then show ?thesis
    using buf_len [OF assms(1)] assms(2) by (simp add: put_subheader_def put_padding.simps)
qed

end

lemma length_header: "length key = 4 \<Longrightarrow> length (header_bytes sid stream seq key) = (if sid < SESSION_NO_KEY then 8 else 4)"
  by (simp add: header_bytes_def)

lemma pick_endian_flag_eq [simp]: "pick_endian_flag = FLAG_ENDIANNESS"
  by (simp add: pick_endian_flag_def machine_endianness_def lo8_def)


section \<open>The abstract broker\<close>

record chan_world =
  chans :: "qid \<Rightarrow> u8 list list"
  console :: "u8 list"

definition map_world :: "('w \<Rightarrow> 'v) \<Rightarrow> 'w broker \<Rightarrow> 'v broker" where
  "map_world f B = \<lparr>sessions = sessions B, topics = topics B, datawriters = datawriters B,
     datareaders = datareaders B, cur_session_idx = cur_session_idx B,
     cur_session_id = cur_session_id B, cur_key = cur_key B,
     cur_in_stream_id = cur_in_stream_id B, broker_quiet = broker_quiet B,
     htif_dev_for_log = htif_dev_for_log B, world = f (world B)\<rparr>"

lemma map_world_simps [simp]:
  "sessions (map_world f B) = sessions B" "topics (map_world f B) = topics B"
  "datawriters (map_world f B) = datawriters B" "datareaders (map_world f B) = datareaders B"
  "cur_session_idx (map_world f B) = cur_session_idx B"
  "cur_session_id (map_world f B) = cur_session_id B" "cur_key (map_world f B) = cur_key B"
  "cur_in_stream_id (map_world f B) = cur_in_stream_id B"
  "broker_quiet (map_world f B) = broker_quiet B"
  "htif_dev_for_log (map_world f B) = htif_dev_for_log B"
  "world (map_world f B) = f (world B)"
  by (simp_all add: map_world_def)

lemma map_world_upd [simp]:
  "map_world f (B\<lparr>sessions := ss\<rparr>) = (map_world f B)\<lparr>sessions := ss\<rparr>"
  "map_world f (B\<lparr>topics := ts\<rparr>) = (map_world f B)\<lparr>topics := ts\<rparr>"
  "map_world f (B\<lparr>datawriters := es\<rparr>) = (map_world f B)\<lparr>datawriters := es\<rparr>"
  "map_world f (B\<lparr>datareaders := es\<rparr>) = (map_world f B)\<lparr>datareaders := es\<rparr>"
  "map_world f (B\<lparr>cur_session_idx := i\<rparr>) = (map_world f B)\<lparr>cur_session_idx := i\<rparr>"
  "map_world f (B\<lparr>cur_session_id := x\<rparr>) = (map_world f B)\<lparr>cur_session_id := x\<rparr>"
  "map_world f (B\<lparr>cur_key := k\<rparr>) = (map_world f B)\<lparr>cur_key := k\<rparr>"
  "map_world f (B\<lparr>cur_in_stream_id := x\<rparr>) = (map_world f B)\<lparr>cur_in_stream_id := x\<rparr>"
  "map_world f (B\<lparr>broker_quiet := q\<rparr>) = (map_world f B)\<lparr>broker_quiet := q\<rparr>"
  "map_world f (B\<lparr>world := w\<rparr>) = (map_world f B)\<lparr>world := f w\<rparr>"
  by (simp_all add: map_world_def)

text \<open>Posting a message to a client: dropped when its queue is full.\<close>

definition post :: "nat \<Rightarrow> u8 list \<Rightarrow> chan_world \<Rightarrow> chan_world" where
  "post i m w =
     (if length (chans w (Broker_to_rmw i)) < LOOPBACK_DEPTH
      then w\<lparr>chans := (chans w)(Broker_to_rmw i := chans w (Broker_to_rmw i) @ [m])\<rparr> else w)"

definition post_reply :: "nat \<Rightarrow> u8 list \<Rightarrow> chan_world broker \<Rightarrow> chan_world broker" where
  "post_reply i m B = B\<lparr>world := post i m (world B)\<rparr>"

section \<open>The specification of the replies\<close>

definition spec_status_agent :: "u8 \<Rightarrow> chan_world broker \<Rightarrow> chan_world broker" where
  "spec_status_agent st B =
     (let i = cur_session_idx B; (seq, ss) = next_seq_for i 0 (sessions B)
      in post_reply i (header_bytes (cur_session_id B) 0 seq (cur_key B) @ status_agent_bytes st)
           (B\<lparr>sessions := ss\<rparr>))"

definition status_stream :: "'w broker \<Rightarrow> u8" where
  "status_stream B = (if cur_in_stream_id B \<noteq> 0 then cur_in_stream_id B else 0x80)"

definition spec_status :: "u16 \<Rightarrow> object_id \<Rightarrow> u8 \<Rightarrow> chan_world broker \<Rightarrow> chan_world broker" where
  "spec_status rid oid st B =
     (let i = cur_session_idx B; (seq, ss) = next_seq_for i (status_stream B) (sessions B)
      in post_reply i (header_bytes (cur_session_id B) (status_stream B) seq (cur_key B) @
             status_bytes rid oid st) (B\<lparr>sessions := ss\<rparr>))"

definition spec_acknack :: "u16 \<Rightarrow> u8 \<Rightarrow> chan_world broker \<Rightarrow> chan_world broker" where
  "spec_acknack first_unacked stream B =
     post_reply (cur_session_idx B)
       (header_bytes (cur_session_id B) 0 0 (cur_key B) @ acknack_bytes first_unacked stream) B"

definition data_message :: "session_state \<Rightarrow> u16 \<Rightarrow> object_id \<Rightarrow> u8 list \<Rightarrow> u8 list" where
  "data_message s seq dr_id payload =
     header_bytes (session_id s) 0x80 seq (skey s) @ data_bytes dr_id payload"

definition spec_data :: "nat \<Rightarrow> object_id \<Rightarrow> u8 list \<Rightarrow> chan_world broker \<Rightarrow> chan_world broker" where
  "spec_data i dr_id payload B =
     (if i < LOOPBACK_MAX_SESSIONS \<and> active (sessions B ! i)
      then (let (seq, ss) = next_seq_for i 0x80 (sessions B)
            in post_reply i (data_message (sessions B ! i) seq dr_id payload) (B\<lparr>sessions := ss\<rparr>))
      else B)"

section \<open>Well-formed brokers\<close>

definition sessions_wf :: "session_state list \<Rightarrow> bool" where
  "sessions_wf ss \<longleftrightarrow> length ss = LOOPBACK_MAX_SESSIONS \<and> (\<forall>s \<in> set ss. length (skey s) = 4)"

text \<open>What holds while a message of the session \<open>cur_session_idx\<close> is processed.\<close>

definition reply_wf :: "'w broker \<Rightarrow> bool" where
  "reply_wf B \<longleftrightarrow> sessions_wf (sessions B) \<and> length (cur_key B) = 4 \<and>
     cur_session_idx B < LOOPBACK_MAX_SESSIONS"

lemma sessions_wf_next:
  assumes "sessions_wf ss" and "i < LOOPBACK_MAX_SESSIONS"
  shows "sessions_wf (snd (next_seq_for i st ss))"
proof -
  have "length (skey (ss ! i)) = 4" using assms by (auto simp: sessions_wf_def)
  with assms(1) show ?thesis
    by (auto simp: sessions_wf_def next_seq_for_def Let_def dest!: set_update_subset_insert [THEN subsetD])
qed

section \<open>The services together\<close>

locale broker_sys =
  cdr: ucdr "cdr_api E" ok + mq: msgq "queue_api E" contents
  for E :: "('b, 'w) broker_env" and ok and contents +
  fixes printed :: "'w \<Rightarrow> u8 list"
  assumes uart_out: "contents (uart_poll_out (uart E) b w) = contents w \<and>
      printed (uart_poll_out (uart E) b w) = printed w @ [b]"
    and put_printed: "printed (snd (k_msgq_put (queue_api E) q s t w)) = printed w"
    and get_printed: "printed (snd (snd (k_msgq_get (queue_api E) q t s w))) = printed w"
    and poll_printed: "printed (snd (snd (k_poll (queue_api E) qs t w))) = printed w"

definition abs_world :: "('w \<Rightarrow> qid \<Rightarrow> loopback_slot list) \<Rightarrow> ('w \<Rightarrow> u8 list) \<Rightarrow> 'w \<Rightarrow> chan_world" where
  "abs_world contents printed w = \<lparr>chans = channel contents w, console = printed w\<rparr>"

definition abs_broker :: "('w \<Rightarrow> qid \<Rightarrow> loopback_slot list) \<Rightarrow> ('w \<Rightarrow> u8 list) \<Rightarrow> 'w broker \<Rightarrow> chan_world broker" where
  "abs_broker contents printed B = map_world (abs_world contents printed) B"

lemma abs_broker_simps [simp]:
  "sessions (abs_broker c p B) = sessions B" "topics (abs_broker c p B) = topics B"
  "datawriters (abs_broker c p B) = datawriters B" "datareaders (abs_broker c p B) = datareaders B"
  "cur_session_idx (abs_broker c p B) = cur_session_idx B"
  "cur_session_id (abs_broker c p B) = cur_session_id B" "cur_key (abs_broker c p B) = cur_key B"
  "cur_in_stream_id (abs_broker c p B) = cur_in_stream_id B"
  "broker_quiet (abs_broker c p B) = broker_quiet B"
  "htif_dev_for_log (abs_broker c p B) = htif_dev_for_log B"
  "world (abs_broker c p B) = abs_world c p (world B)"
  "status_stream (abs_broker c p B) = status_stream B"
  by (simp_all add: abs_broker_def status_stream_def)

lemma abs_broker_upd [simp]:
  "abs_broker c p (B\<lparr>sessions := ss\<rparr>) = (abs_broker c p B)\<lparr>sessions := ss\<rparr>"
  "abs_broker c p (B\<lparr>topics := ts\<rparr>) = (abs_broker c p B)\<lparr>topics := ts\<rparr>"
  "abs_broker c p (B\<lparr>datawriters := es\<rparr>) = (abs_broker c p B)\<lparr>datawriters := es\<rparr>"
  "abs_broker c p (B\<lparr>datareaders := es\<rparr>) = (abs_broker c p B)\<lparr>datareaders := es\<rparr>"
  "abs_broker c p (B\<lparr>cur_session_idx := i\<rparr>) = (abs_broker c p B)\<lparr>cur_session_idx := i\<rparr>"
  "abs_broker c p (B\<lparr>cur_session_id := x\<rparr>) = (abs_broker c p B)\<lparr>cur_session_id := x\<rparr>"
  "abs_broker c p (B\<lparr>cur_key := k\<rparr>) = (abs_broker c p B)\<lparr>cur_key := k\<rparr>"
  "abs_broker c p (B\<lparr>cur_in_stream_id := x\<rparr>) = (abs_broker c p B)\<lparr>cur_in_stream_id := x\<rparr>"
  by (simp_all add: abs_broker_def)

context broker_sys begin

lemma send_abs:
  assumes "i < LOOPBACK_MAX_SESSIONS"
  shows "abs_world contents printed (snd (loopback_broker_send (queue_api E) (int i) s w)) =
    post i (slot_bytes s) (abs_world contents printed w)"
proof (rule mq.send_cases [OF assms, of s w])
  have p: "printed (snd (loopback_broker_send (queue_api E) (int i) s w)) = printed w"
    using assms by (simp add: loopback_broker_send_def put_printed)
  {
    fix w'
    assume *: "loopback_broker_send (queue_api E) (int i) s w = (0, w')"
      "contents w' = (contents w)(Broker_to_rmw i := contents w (Broker_to_rmw i) @ [s])"
    have "length (contents w' (Broker_to_rmw i)) \<le> LOOPBACK_DEPTH" by (rule mq.depth)
    then have "length (contents w (Broker_to_rmw i)) < LOOPBACK_DEPTH" using *(2) by simp
    with * p channel_upd [of contents w' w, OF *(2)]
    show ?thesis by (simp add: abs_world_def post_def) (simp add: channel_def)
  next
    fix r w'
    assume *: "loopback_broker_send (queue_api E) (int i) s w = (r, w')" "contents w' = contents w"
      "length (contents w (Broker_to_rmw i)) = LOOPBACK_DEPTH"
    with p channel_same [of contents w' w, OF *(2)]
    show ?thesis by (simp add: abs_world_def post_def) (simp add: channel_def)
  }
qed

lemma queue_reply_abs:
  assumes "buf_has (cdr_api E) ok LOOPBACK_MTU ub xs" and "i < LOOPBACK_MAX_SESSIONS"
  shows "abs_broker contents printed (queue_reply E i ub B) =
    post_reply i xs (abs_broker contents printed B)"
proof -
  have "slot_bytes \<lparr>slot_len = word_of_nat (ucdr_buffer_length (cdr_api E) ub),
      slot_data = ucdr_mem (cdr_api E) ub\<rparr> = xs"
    using cdr.buf_len [OF assms(1)] cdr.buf_le [OF assms(1)] assms(1)
    by (simp add: slot_bytes_def unat_mtu) (simp add: buf_has_def written_def)
  then show ?thesis
    using assms(2) by (simp add: abs_broker_def queue_reply_def send_abs post_reply_def)
qed

lemma fresh_has: "buf_has (cdr_api E) ok LOOPBACK_MTU (fresh_buffer E B) []"
  unfolding fresh_buffer_def by (rule cdr.buf_init) (rule mq.uninit)

end


section \<open>The reply builders refine their specifications\<close>

lemma length_sub_bytes [simp]: "length (sub_bytes i len) = 4"
  by (simp add: sub_bytes_def)

lemma length_oid_bytes [simp]: "length (oid_bytes oid) = 2"
  by (simp add: oid_bytes_def)

lemma length_cookie [simp]:
  "length XRCE_COOKIE = 4" "length XRCE_VERSION = 2" "length XRCE_VENDOR_EPROSIMA = 2"
  by (simp_all add: xrce_consts)

context broker_sys begin

lemma start_message:
  assumes "length key = 4"
  shows "buf_has (cdr_api E) ok LOOPBACK_MTU
    (put_subheader (cdr_api E) i FLAG_ENDIANNESS len
      (put_msg_header (cdr_api E) sid st seq key (fresh_buffer E B)))
    (header_bytes sid st seq key @ sub_bytes i len)"
  using assms
  by (intro cdr.buf_subheader cdr.buf_header fresh_has)
    (simp_all add: length_header LOOPBACK_MTU_def)

lemmas builder_intros = cdr.buf_ser8 cdr.buf_arr cdr.buf_ser16 start_message

lemma send_status_abs:
  assumes "reply_wf B"
  shows "abs_broker contents printed (send_status E rid oid st B) =
    spec_status rid oid st (abs_broker contents printed B)"
proof -
  obtain seq ss where nx: "next_seq_for (cur_session_idx B) (status_stream B) (sessions B) = (seq, ss)"
    by fastforce
  let ?h = "header_bytes (cur_session_id B) (status_stream B) seq (cur_key B) @ sub_bytes SUB_STATUS 6"
  have key: "length (cur_key B) = 4" and i: "cur_session_idx B < LOOPBACK_MAX_SESSIONS"
    using assms by (simp_all add: reply_wf_def)
  let ?b = "ucdr_serialize_uint8_t (cdr_api E) 0 (ucdr_serialize_uint8_t (cdr_api E) st
      (ucdr_serialize_array_uint8_t (cdr_api E) (oid_bytes oid)
      (ucdr_serialize_endian_uint16_t (cdr_api E) UCDR_BIG_ENDIANNESS rid
        (put_subheader (cdr_api E) SUB_STATUS FLAG_ENDIANNESS 6
          (put_msg_header (cdr_api E) (cur_session_id B) (status_stream B) seq (cur_key B)
            (fresh_buffer E B))))))"
  have "buf_has (cdr_api E) ok LOOPBACK_MTU ?b
      ((((?h @ enc16 UCDR_BIG_ENDIANNESS rid) @ oid_bytes oid) @ [st]) @ [0])"
    using key by (intro builder_intros) (simp_all add: length_header LOOPBACK_MTU_def)
  from queue_reply_abs [OF this i, of "B\<lparr>sessions := ss\<rparr>"] nx show ?thesis
    by (simp add: send_status_def spec_status_def Let_def status_bytes_def
        status_stream_def [symmetric])
qed

lemma send_status_agent_abs:
  assumes "reply_wf B"
  shows "abs_broker contents printed (send_status_agent E rid st B) =
    spec_status_agent st (abs_broker contents printed B)"
proof -
  obtain seq ss where nx: "next_seq_for (cur_session_idx B) 0 (sessions B) = (seq, ss)"
    by fastforce
  let ?h = "header_bytes (cur_session_id B) 0 seq (cur_key B) @ sub_bytes SUB_STATUS_AGENT 11"
  have key: "length (cur_key B) = 4" and i: "cur_session_idx B < LOOPBACK_MAX_SESSIONS"
    using assms by (simp_all add: reply_wf_def)
  let ?b = "ucdr_serialize_uint8_t (cdr_api E) 0
      (ucdr_serialize_array_uint8_t (cdr_api E) XRCE_VENDOR_EPROSIMA
      (ucdr_serialize_array_uint8_t (cdr_api E) XRCE_VERSION
      (ucdr_serialize_array_uint8_t (cdr_api E) XRCE_COOKIE
      (ucdr_serialize_uint8_t (cdr_api E) 0 (ucdr_serialize_uint8_t (cdr_api E) st
        (put_subheader (cdr_api E) SUB_STATUS_AGENT FLAG_ENDIANNESS 11
          (put_msg_header (cdr_api E) (cur_session_id B) 0 seq (cur_key B) (fresh_buffer E B))))))))"
  have "buf_has (cdr_api E) ok LOOPBACK_MTU ?b
      ((((((?h @ [st]) @ [0]) @ XRCE_COOKIE) @ XRCE_VERSION) @ XRCE_VENDOR_EPROSIMA) @ [0])"
    using key by (intro builder_intros) (simp_all add: length_header LOOPBACK_MTU_def)
  from queue_reply_abs [OF this i, of "B\<lparr>sessions := ss\<rparr>"] nx show ?thesis
    by (simp add: send_status_agent_def spec_status_agent_def Let_def status_agent_bytes_def)
qed

lemma send_acknack_abs:
  assumes "reply_wf B"
  shows "abs_broker contents printed (send_acknack E first_unacked stream B) =
    spec_acknack first_unacked stream (abs_broker contents printed B)"
proof -
  let ?h = "header_bytes (cur_session_id B) 0 0 (cur_key B) @ sub_bytes SUB_ACKNACK 5"
  have key: "length (cur_key B) = 4" and i: "cur_session_idx B < LOOPBACK_MAX_SESSIONS"
    using assms by (simp_all add: reply_wf_def)
  let ?b = "ucdr_serialize_uint8_t (cdr_api E) stream (ucdr_serialize_uint8_t (cdr_api E) 0
      (ucdr_serialize_uint8_t (cdr_api E) 0
      (ucdr_serialize_endian_uint16_t (cdr_api E) UCDR_LITTLE_ENDIANNESS first_unacked
        (put_subheader (cdr_api E) SUB_ACKNACK FLAG_ENDIANNESS 5
          (put_msg_header (cdr_api E) (cur_session_id B) 0 0 (cur_key B) (fresh_buffer E B))))))"
  have "buf_has (cdr_api E) ok LOOPBACK_MTU ?b
      ((((?h @ enc16 UCDR_LITTLE_ENDIANNESS first_unacked) @ [0]) @ [0]) @ [stream])"
    using key by (intro builder_intros) (simp_all add: length_header LOOPBACK_MTU_def)
  from queue_reply_abs [OF this i, of B] show ?thesis
    by (simp add: send_acknack_def spec_acknack_def Let_def acknack_bytes_def)
qed

lemma send_data_abs:
  assumes "sessions_wf (sessions B)" and "length payload \<le> LOOPBACK_MTU - 16"
  shows "abs_broker contents printed (send_data E t dr_id payload B) =
    spec_data t dr_id payload (abs_broker contents printed B)"
proof (cases "t < LOOPBACK_MAX_SESSIONS \<and> active (sessions B ! t)")
  case False
  then show ?thesis by (auto simp: send_data_def spec_data_def)
next
  case True
  then have t: "t < LOOPBACK_MAX_SESSIONS" by simp
  obtain seq ss where nx: "next_seq_for t 0x80 (sessions B) = (seq, ss)" by fastforce
  let ?s = "sessions B ! t" and ?len = "word_of_nat (4 + length payload) :: u16"
  have key: "length (skey ?s) = 4" using assms(1) t by (simp add: sessions_wf_def)
  let ?h = "header_bytes (session_id ?s) 0x80 seq (skey ?s) @ sub_bytes SUB_DATA ?len"
  let ?b = "ucdr_serialize_array_uint8_t (cdr_api E) payload
      (ucdr_serialize_array_uint8_t (cdr_api E) (oid_bytes dr_id)
      (ucdr_serialize_endian_uint16_t (cdr_api E) UCDR_BIG_ENDIANNESS 0
        (put_subheader (cdr_api E) SUB_DATA FLAG_ENDIANNESS ?len
          (put_msg_header (cdr_api E) (session_id ?s) 0x80 seq (skey ?s) (fresh_buffer E B)))))"
  have "buf_has (cdr_api E) ok LOOPBACK_MTU ?b
      (((?h @ enc16 UCDR_BIG_ENDIANNESS 0) @ oid_bytes dr_id) @ payload)"
    using key assms(2) by (intro builder_intros) (simp_all add: length_header LOOPBACK_MTU_def)
  from queue_reply_abs [OF this t, of "B\<lparr>sessions := ss\<rparr>"] nx True show ?thesis
    by (simp add: send_data_def spec_data_def Let_def data_message_def data_bytes_def 
        FLAG_FORMAT_DATA_def hi8_def lo8_def)
qed

lemma send_info_abs:
  assumes "reply_wf B"
  shows "\<exists>f seq ss. next_seq_for (cur_session_idx B) 0 (sessions B) = (seq, ss) \<and>
    abs_broker contents printed (send_info E rid oid B) =
    post_reply (cur_session_idx B)
      (header_bytes (cur_session_id B) 0 seq (cur_key B) @ info_bytes rid oid @ [f, 1, 0])
      ((abs_broker contents printed B)\<lparr>sessions := ss\<rparr>)"
proof -
  obtain seq ss where nx: "next_seq_for (cur_session_idx B) 0 (sessions B) = (seq, ss)"
    by fastforce
  let ?h = "header_bytes (cur_session_id B) 0 seq (cur_key B) @ sub_bytes SUB_INFO 11"
  have key: "length (cur_key B) = 4" and i: "cur_session_idx B < LOOPBACK_MAX_SESSIONS"
    using assms by (simp_all add: reply_wf_def)
  let ?b = "ucdr_serialize_uint8_t (cdr_api E) 0x0D (ucdr_serialize_uint8_t (cdr_api E) 1
      (ucdr_serialize_uint8_t (cdr_api E) 0 (ucdr_serialize_uint8_t (cdr_api E) 0
      (ucdr_serialize_uint8_t (cdr_api E) STATUS_OK
      (ucdr_serialize_array_uint8_t (cdr_api E) (oid_bytes oid)
      (ucdr_serialize_endian_uint16_t (cdr_api E) UCDR_BIG_ENDIANNESS rid
        (put_subheader (cdr_api E) SUB_INFO FLAG_ENDIANNESS 11
          (put_msg_header (cdr_api E) (cur_session_id B) 0 seq (cur_key B)
            (fresh_buffer E B)))))))))"
  let ?xs = "((((((?h @ enc16 UCDR_BIG_ENDIANNESS rid) @ oid_bytes oid) @ [STATUS_OK]) @ [0]) @ [0]) @ [1]) @ [0x0D]"
  have b: "buf_has (cdr_api E) ok LOOPBACK_MTU ?b ?xs"
    using key by (intro builder_intros) (simp_all add: length_header LOOPBACK_MTU_def)
  have "odd (length ?xs)" "length ?xs + 3 \<le> LOOPBACK_MTU"
    using key by (simp_all add: length_header LOOPBACK_MTU_def)
  from cdr.buf_ser16_odd [OF b this, of UCDR_LITTLE_ENDIANNESS 1] obtain f where
    "buf_has (cdr_api E) ok LOOPBACK_MTU
      (ucdr_serialize_endian_uint16_t (cdr_api E) UCDR_LITTLE_ENDIANNESS 1 ?b)
      (?xs @ f # enc16 UCDR_LITTLE_ENDIANNESS 1)" by blast
  from queue_reply_abs [OF this i, of "B\<lparr>sessions := ss\<rparr>"] nx show ?thesis
    by (intro exI [of _ f] exI [of _ seq] exI [of _ ss])
      (simp add: send_info_def Let_def info_bytes_def FLAG_ENDIANNESS_def
        hi8_def lo8_def)
qed

end

end
