(* ===== verification/Broker.thy ===== *)
theory Broker
  imports Broker_Wire
begin

text \<open>
  The inbound side of the broker (\<open>lib/microros_local/src/broker.c\<close>): parsing with
  Micro-CDR, the handler of every submessage, the submessage loop and the iteration of the
  broker thread. Every function that reads from a buffer returns the advanced buffer.
\<close>

section \<open>Parsing\<close>

record base_request =
  br_request_id :: u16
  br_object_id :: object_id

definition read_base_request :: "'b ucdr_api \<Rightarrow> 'b \<Rightarrow> base_request \<times> 'b" where
  "read_base_request C ub =
     (let (r1, rid, ub) = ucdr_deserialize_endian_uint16_t C UCDR_BIG_ENDIANNESS ub 0;
          (r2, oid, ub) = ucdr_deserialize_array_uint8_t C 2 ub [0, 0]
      in (\<lparr>br_request_id = rid, br_object_id = (oid ! 0, oid ! 1)\<rparr>, ub))"

text \<open>
  The loops that discard \<open>n\<close> bytes and stop at the first failure; the flag says that
  all were read.
\<close>

fun skip_bytes :: "'b ucdr_api \<Rightarrow> nat \<Rightarrow> 'b \<Rightarrow> bool \<times> 'b" where
  "skip_bytes C 0 ub = (True, ub)"
| "skip_bytes C (Suc n) ub =
     (case ucdr_deserialize_uint8_t C ub 0 of (r, junk, ub') \<Rightarrow>
        if r then skip_bytes C n ub' else (False, ub'))"

fun cdr_string_loop :: "'b ucdr_api \<Rightarrow> nat \<Rightarrow> nat \<Rightarrow> nat \<Rightarrow> u8 list \<Rightarrow> 'b \<Rightarrow> bool \<times> u8 list \<times> 'b" where
  "cdr_string_loop C 0 i copy dst ub = (True, dst, ub)"
| "cdr_string_loop C (Suc n) i copy dst ub =
     (case ucdr_deserialize_uint8_t C ub 0 of (r, c, ub') \<Rightarrow>
        if \<not> r then (False, dst, ub')
        else cdr_string_loop C n (i + 1) copy (if i < copy then dst[i := c] else dst) ub')"

definition read_cdr_string :: "'b ucdr_api \<Rightarrow> 'b \<Rightarrow> u8 list \<Rightarrow> nat \<Rightarrow> bool \<times> u8 list \<times> 'b" where
  "read_cdr_string C ub dst dst_size =
     (case ucdr_deserialize_uint32_t C ub 0 of (r, l, ub) \<Rightarrow>
        if \<not> r then (False, dst, ub)
        else
          let len = unat l in
          if len = 0 \<or> ucdr_buffer_remaining C ub < len then (False, dst, ub)
          else
            let copy = (if len - 1 < dst_size - 1 then len - 1 else dst_size - 1) in
            (case cdr_string_loop C len 0 copy dst ub of (r, dst, ub) \<Rightarrow>
               if \<not> r then (False, dst, ub) else (True, dst[copy := 0], ub)))"

text \<open>The opened blob, or \<open>None\<close> where the code returns false.\<close>

definition open_binary_repr :: "'b ucdr_api \<Rightarrow> 'b \<Rightarrow> 'b option \<times> 'b" where
  "open_binary_repr C ub =
     (case ucdr_deserialize_uint8_t C ub 0 of (r, format, ub) \<Rightarrow>
        if \<not> r then (None, ub)
        else if format \<noteq> 0x03 then (None, ub)
        else (case ucdr_deserialize_uint32_t C ub 0 of (r, blob_size, ub) \<Rightarrow>
          if \<not> r then (None, ub)
          else if ucdr_buffer_remaining C ub < unat blob_size then (None, ub)
          else
            let out_blob = ucdr_init_buffer C (take (unat blob_size) (from_iterator C ub)) in
            (case skip_bytes C (unat blob_size) ub of (r, ub) \<Rightarrow>
               if \<not> r then (None, ub) else (Some out_blob, ub))))"

section \<open>Handlers\<close>

definition handle_create_client ::
    "('b, 'w) broker_env \<Rightarrow> 'b \<Rightarrow> u8 \<Rightarrow> 'w broker \<Rightarrow> 'b \<times> 'w broker" where
  "handle_create_client E ub session_id_masked B =
     (let C = cdr_api E;
          (r1, cookie, ub) = ucdr_deserialize_array_uint8_t C 4 ub (uninit_bytes E ''cookie'' 4 B);
          (r2, version, ub) = ucdr_deserialize_array_uint8_t C 2 ub (uninit_bytes E ''version'' 2 B);
          (r3, vendor, ub) = ucdr_deserialize_array_uint8_t C 2 ub (uninit_bytes E ''vendor'' 2 B);
          (r4, client_key, ub) = ucdr_deserialize_array_uint8_t C 4 ub (uninit_bytes E ''client_key'' 4 B);
          (r5, real_session_id, ub) = ucdr_deserialize_uint8_t C ub session_id_masked;
          s = \<lparr>active = True, session_id = real_session_id, skey = client_key,
               seq_none = 0, seq_be = 0, seq_rel = 0\<rparr>;
          B = B\<lparr>sessions := (sessions B)[cur_session_idx B := s],
                cur_session_id := real_session_id, cur_key := client_key\<rparr>
      in (ub, send_status_agent E 0 STATUS_OK B))"

definition OBJK_TOPIC :: u8 where "OBJK_TOPIC = 0x02"
definition OBJK_DATAWRITER :: u8 where "OBJK_DATAWRITER = 0x05"
definition OBJK_DATAREADER :: u8 where "OBJK_DATAREADER = 0x06"

lemmas objk_consts = OBJK_TOPIC_def OBJK_DATAWRITER_def OBJK_DATAREADER_def

definition obj_kind :: "object_id \<Rightarrow> u8" where
  "obj_kind oid = snd oid AND 0x0F"

text \<open>\<open>strncpy(t->name, name, MAX_TOPIC_NAME - 1)\<close> and the terminating NUL.\<close>

definition set_topic_name :: "u8 list \<Rightarrow> topic_ent \<Rightarrow> topic_ent" where
  "set_topic_name name t =
     t\<lparr>t_name := (strncpy (t_name t) name (MAX_TOPIC_NAME - 1))[MAX_TOPIC_NAME - 1 := 0]\<rparr>"

text \<open>The case \<open>OBJK_TOPIC\<close> of the switch.\<close>

definition create_topic :: "('b, 'w) broker_env \<Rightarrow> object_id \<Rightarrow> 'b \<Rightarrow> 'w broker \<Rightarrow> 'b \<times> 'w broker" where
  "create_topic E oid ub B =
     (case open_binary_repr (cdr_api E) ub of
        (None, ub) \<Rightarrow> (ub, B)
      | (Some blob, ub) \<Rightarrow>
          (case read_cdr_string (cdr_api E) blob (uninit_bytes E ''name'' MAX_TOPIC_NAME B) MAX_TOPIC_NAME of
             (r, name, blob') \<Rightarrow>
               if r then
                 (case alloc_topic (topics B) (cur_session_idx B) oid of
                    (Some i, ts) \<Rightarrow> (ub, B\<lparr>topics := ts[i := set_topic_name name (ts ! i)]\<rparr>)
                  | (None, ts) \<Rightarrow> (ub, B))
               else (ub, B)))"

text \<open>The cases \<open>OBJK_DATAWRITER\<close> and \<open>OBJK_DATAREADER\<close>.\<close>

definition create_endpoint :: "('b, 'w) broker_env \<Rightarrow> object_id \<Rightarrow> 'b \<Rightarrow> 'w broker \<Rightarrow> 'b \<times> 'w broker" where
  "create_endpoint E oid ub B =
     (case open_binary_repr (cdr_api E) ub of
        (None, ub) \<Rightarrow> (ub, B)
      | (Some blob, ub) \<Rightarrow>
          (case ucdr_deserialize_array_uint8_t (cdr_api E) 2 blob (uninit_bytes E ''topic_id'' 2 B) of
             (r, topic_id, blob') \<Rightarrow>
               if r then
                 let tid = (topic_id ! 0, topic_id ! 1) in
                 if obj_kind oid = OBJK_DATAWRITER then
                   (case alloc_ep (datawriters B) MAX_DATAWRITERS (cur_session_idx B) oid of
                      (Some i, es) \<Rightarrow> (ub, B\<lparr>datawriters := es[i := (es ! i)\<lparr>e_topic_id := tid\<rparr>]\<rparr>)
                    | (None, es) \<Rightarrow> (ub, B))
                 else
                   (case alloc_ep (datareaders B) MAX_DATAREADERS (cur_session_idx B) oid of
                      (Some i, es) \<Rightarrow> (ub, B\<lparr>datareaders := es[i := (es ! i)\<lparr>e_topic_id := tid\<rparr>]\<rparr>)
                    | (None, es) \<Rightarrow> (ub, B))
               else (ub, B)))"

definition handle_create :: "('b, 'w) broker_env \<Rightarrow> 'b \<Rightarrow> 'w broker \<Rightarrow> 'b \<times> 'w broker" where
  "handle_create E ub B =
     (case read_base_request (cdr_api E) ub of (b, ub) \<Rightarrow>
      case ucdr_deserialize_uint8_t (cdr_api E) ub 0 of (r, kind, ub) \<Rightarrow>
      let oid = br_object_id b;
          (ub, B) =
            (if r then
               if obj_kind oid = OBJK_TOPIC then create_topic E oid ub B
               else if obj_kind oid = OBJK_DATAWRITER \<or> obj_kind oid = OBJK_DATAREADER
               then create_endpoint E oid ub B
               else (ub, B)
             else (ub, B))
      in (ub, send_status E (br_request_id b) oid STATUS_OK B))"

definition handle_get_info :: "('b, 'w) broker_env \<Rightarrow> 'b \<Rightarrow> 'w broker \<Rightarrow> 'b \<times> 'w broker" where
  "handle_get_info E ub B =
     (case read_base_request (cdr_api E) ub of (b, ub) \<Rightarrow>
        (ub, send_info E (br_request_id b) (br_object_id b) B))"

definition handle_delete :: "('b, 'w) broker_env \<Rightarrow> 'b \<Rightarrow> 'w broker \<Rightarrow> 'b \<times> 'w broker" where
  "handle_delete E ub B =
     (case read_base_request (cdr_api E) ub of (b, ub) \<Rightarrow>
        (ub, send_status E (br_request_id b) (br_object_id b) STATUS_OK B))"

text \<open>One round of the fan-out loop; \<open>strcmp\<close> is 0 exactly on equal C strings.\<close>

definition fanout_one ::
    "('b, 'w) broker_env \<Rightarrow> u8 list \<Rightarrow> u8 list \<Rightarrow> nat \<Rightarrow> 'w broker \<Rightarrow> 'w broker" where
  "fanout_one E src_name payload i B =
     (let dr = datareaders B ! i in
      if \<not> e_used dr then B
      else (case find_topic (topics B) (e_session_idx dr) (e_topic_id dr) of
              None \<Rightarrow> B
            | Some t \<Rightarrow>
                if cstr (t_name (topics B ! t)) = cstr src_name
                then send_data E (e_session_idx dr) (e_id dr) payload B else B))"

definition handle_write_data :: "('b, 'w) broker_env \<Rightarrow> 'b \<Rightarrow> u16 \<Rightarrow> 'w broker \<Rightarrow> 'b \<times> 'w broker" where
  "handle_write_data E ub len B =
     (case read_base_request (cdr_api E) ub of (b, ub) \<Rightarrow>
      if len < 4 then (ub, B)
      else
        let payload_len = unat (len - 4) in
        if ucdr_buffer_remaining (cdr_api E) ub < payload_len then (ub, B)
        else
          let payload = take payload_len (from_iterator (cdr_api E) ub) in
          (case find_ep (datawriters B) MAX_DATAWRITERS (cur_session_idx B) (br_object_id b) of
             None \<Rightarrow> (ub, B)
           | Some dw \<Rightarrow>
               (case find_topic (topics B) (cur_session_idx B) (e_topic_id (datawriters B ! dw)) of
                  None \<Rightarrow> (ub, B)
                | Some src \<Rightarrow>
                    let src_name = t_name (topics B ! src);
                        B = B\<lparr>world := log_topic_emit (uart E) (broker_quiet B)
                                (htif_dev_for_log B) src_name payload (world B)\<rparr>;
                        B = fold (fanout_one E src_name payload) [0..<MAX_DATAREADERS] B
                    in (snd (skip_bytes (cdr_api E) payload_len ub), B))))"

definition handle_heartbeat :: "('b, 'w) broker_env \<Rightarrow> 'b \<Rightarrow> 'w broker \<Rightarrow> 'b \<times> 'w broker" where
  "handle_heartbeat E ub B =
     (let C = cdr_api E;
          (r1, first, ub) = ucdr_deserialize_endian_uint16_t C UCDR_LITTLE_ENDIANNESS ub
            (uninit16 E ''first'' (world B));
          (r2, last, ub) = ucdr_deserialize_endian_uint16_t C UCDR_LITTLE_ENDIANNESS ub
            (uninit16 E ''last'' (world B));
          (r3, hb_stream, ub) = ucdr_deserialize_uint8_t C ub (uninit8 E ''hb_stream'' 0 (world B))
      in (ub, send_acknack E (last + 1) hb_stream B))"

section \<open>The broker loop\<close>

text \<open>The switch over the submessage id.\<close>

definition dispatch ::
    "('b, 'w) broker_env \<Rightarrow> u8 \<Rightarrow> u8 \<Rightarrow> u16 \<Rightarrow> 'b \<Rightarrow> 'w broker \<Rightarrow> 'b \<times> 'w broker" where
  "dispatch E sid sub_id sub_len ub B =
     (if sub_id = SUB_CREATE_CLIENT then handle_create_client E ub sid B
      else if sub_id = SUB_CREATE then handle_create E ub B
      else if sub_id = SUB_GET_INFO then handle_get_info E ub B
      else if sub_id = SUB_DELETE then handle_delete E ub B
      else if sub_id = SUB_WRITE_DATA then handle_write_data E ub sub_len B
      else if sub_id = SUB_HEARTBEAT then handle_heartbeat E ub B
      else (ub, B))"

text \<open>\<open>while (off % 4 != 0)\<close>: read a padding byte, give up on the message if that fails.\<close>

function skip_padding :: "'b ucdr_api \<Rightarrow> nat \<Rightarrow> 'b \<Rightarrow> bool \<times> 'b" where
  "skip_padding C off ub =
     (if off mod 4 \<noteq> 0 then
        (case ucdr_deserialize_uint8_t C ub 0 of (r, pad, ub') \<Rightarrow>
           if r then skip_padding C (off + 1) ub' else (False, ub'))
      else (True, ub))"
  by pat_completeness auto
termination
proof (relation "measure (\<lambda>(C, off, ub). (4 - off mod 4) mod 4)", goal_cases)
  case (2 C off ub)
  have "off mod 4 < 4" by simp
  with 2 have "off mod 4 = 1 \<or> off mod 4 = 2 \<or> off mod 4 = 3" by linarith
  then show ?case by (auto simp: mod_Suc)
qed simp

declare skip_padding.simps [simp del]

text \<open>
  One round of \<open>while (ucdr_buffer_remaining(&ub) >= 4)\<close>: \<open>None\<close> for a \<open>break\<close> or a
  jump to \<open>next_msg\<close> before the switch; after the switch the flag says whether the loop
  goes on.
\<close>

definition submessage_step ::
    "('b, 'w) broker_env \<Rightarrow> u8 \<Rightarrow> 'b \<Rightarrow> 'w broker \<Rightarrow> (bool \<times> 'b \<times> 'w broker) option" where
  "submessage_step E sid ub B =
     (let C = cdr_api E in
      case skip_padding C (ucdr_buffer_length C ub) ub of (r, ub) \<Rightarrow>
      if \<not> r then None else
      case ucdr_deserialize_uint8_t C ub 0 of (r, sub_id, ub) \<Rightarrow>
      if \<not> r then None else
      case ucdr_deserialize_uint8_t C ub 0 of (r, sub_flags, ub) \<Rightarrow>
      if \<not> r then None else
      case ucdr_deserialize_endian_uint16_t C UCDR_LITTLE_ENDIANNESS ub 0 of (r, sub_len, ub) \<Rightarrow>
      if \<not> r then None else
      if ucdr_buffer_remaining C ub < unat sub_len then None else
      let start = ucdr_buffer_length C ub in
      case dispatch E sid sub_id sub_len ub B of (ub, B) \<Rightarrow>
      let consumed = ucdr_buffer_length C ub - start in
      if consumed < unat sub_len
      then (case skip_bytes C (unat sub_len - consumed) ub of (r, ub) \<Rightarrow> Some (r, ub, B))
      else Some (True, ub, B))"

text \<open>The loop with fuel; \<open>None\<close> means that the fuel ran out.\<close>

fun submessage_loop ::
    "nat \<Rightarrow> ('b, 'w) broker_env \<Rightarrow> u8 \<Rightarrow> 'b \<Rightarrow> 'w broker \<Rightarrow> 'w broker option" where
  "submessage_loop 0 E sid ub B = None"
| "submessage_loop (Suc fuel) E sid ub B =
     (if ucdr_buffer_remaining (cdr_api E) ub < 4 then Some B
      else (case submessage_step E sid ub B of
              None \<Rightarrow> Some B
            | Some (go_on, ub', B') \<Rightarrow>
                if go_on then submessage_loop fuel E sid ub' B' else Some B'))"

text \<open>The body of the thread for a received message.\<close>

definition process_message ::
    "nat \<Rightarrow> ('b, 'w) broker_env \<Rightarrow> loopback_slot \<Rightarrow> nat \<Rightarrow> 'w broker \<Rightarrow> 'w broker option" where
  "process_message fuel E msg session_idx B =
     (if broker_quiet B then Some B
      else if unat (slot_len msg) < HEADER_NO_KEY then Some B
      else
        let C = cdr_api E;
            ub = ucdr_init_buffer C (take (unat (slot_len msg)) (slot_data msg));
            (r1, sid, ub) = ucdr_deserialize_uint8_t C ub (uninit8 E ''session_id'' 0 (world B));
            (r2, stream_id, ub) = ucdr_deserialize_uint8_t C ub (uninit8 E ''stream_id'' 0 (world B));
            (r3, seq_num, ub) =
              ucdr_deserialize_endian_uint16_t C UCDR_LITTLE_ENDIANNESS ub (uninit16 E ''seq_num'' (world B));
            (key, ub) =
              (if sid < SESSION_NO_KEY
               then (case ucdr_deserialize_array_uint8_t C 4 ub [0, 0, 0, 0] of (r, k, ub) \<Rightarrow> (k, ub))
               else ([0, 0, 0, 0], ub));
            B = B\<lparr>cur_session_idx := session_idx, cur_session_id := sid,
                  cur_in_stream_id := stream_id, cur_key := key\<rparr>;
            B = (if STREAM_THRESH_REL \<le> stream_id then send_acknack E (seq_num + 1) stream_id B else B)
        in submessage_loop fuel E sid ub B)"

text \<open>One round of the thread's endless loop.\<close>

definition broker_thread_round :: "nat \<Rightarrow> ('b, 'w) broker_env \<Rightarrow> 'w broker \<Rightarrow> 'w broker option" where
  "broker_thread_round fuel E B =
     (case loopback_broker_recv_any (queue_api E) K_FOREVER \<lparr>slot_len = 0, slot_data = []\<rparr> 0 (world B) of
        (rc, msg, session_idx, w) \<Rightarrow>
          if rc \<noteq> 0 then Some (B\<lparr>world := w\<rparr>)
          else process_message fuel E msg session_idx (B\<lparr>world := w\<rparr>))"

section \<open>Start-up\<close>

definition zero_session :: session_state where
  "zero_session = \<lparr>active = False, session_id = 0, skey = [0, 0, 0, 0],
     seq_none = 0, seq_be = 0, seq_rel = 0\<rparr>"

definition zero_topic :: topic_ent where
  "zero_topic = \<lparr>t_used = False, t_session_idx = 0, t_id = (0, 0),
     t_name = replicate MAX_TOPIC_NAME 0\<rparr>"

definition zero_ep :: ep_ent where
  "zero_ep = \<lparr>e_used = False, e_session_idx = 0, e_id = (0, 0), e_topic_id = (0, 0)\<rparr>"

text \<open>The \<open>memset\<close>s and the device lookup; starting the thread is the kernel's part.\<close>

definition broker_start_pinned :: "('b, 'w) broker_env \<Rightarrow> 'w broker \<Rightarrow> 'w broker" where
  "broker_start_pinned E B =
     B\<lparr>sessions := replicate LOOPBACK_MAX_SESSIONS zero_session,
       topics := replicate MAX_TOPICS zero_topic,
       datawriters := replicate MAX_DATAWRITERS zero_ep,
       datareaders := replicate MAX_DATAREADERS zero_ep,
       htif_dev_for_log := uart_device_is_ready (uart E) (world B)\<rparr>"

end
