(* ===== verification/Broker_Safety.thy ===== *)
theory Broker_Safety
  imports Broker
begin

text \<open>
  Safety and termination of the broker: the invariant of its tables and sessions, kept by
  every handler and so in every reachable state, and the progress argument that makes the
  submessage loop end on every input.
\<close>

section \<open>The invariant\<close>

definition topic_ok :: "topic_ent \<Rightarrow> bool" where
  "topic_ok t \<longleftrightarrow> length (t_name t) = MAX_TOPIC_NAME \<and> t_name t ! (MAX_TOPIC_NAME - 1) = 0 \<and>
     t_session_idx t < LOOPBACK_MAX_SESSIONS"

definition ep_ok :: "ep_ent \<Rightarrow> bool" where
  "ep_ok e \<longleftrightarrow> e_session_idx e < LOOPBACK_MAX_SESSIONS"

definition tables_wf :: "'w broker \<Rightarrow> bool" where
  "tables_wf B \<longleftrightarrow>
     topics.unique_keys (topics B) \<and> (\<forall>t \<in> set (topics B). topic_ok t) \<and>
     eps.unique_keys MAX_DATAWRITERS (datawriters B) \<and> (\<forall>e \<in> set (datawriters B). ep_ok e) \<and>
     eps.unique_keys MAX_DATAREADERS (datareaders B) \<and> (\<forall>e \<in> set (datareaders B). ep_ok e)"

definition broker_inv :: "'w broker \<Rightarrow> bool" where
  "broker_inv B \<longleftrightarrow> reply_wf B \<and> tables_wf B"

lemma broker_inv_world [simp]: "broker_inv (B\<lparr>world := w\<rparr>) = broker_inv B"
  by (simp add: broker_inv_def reply_wf_def tables_wf_def)

text \<open>Replies only touch the counters of a session and the world.\<close>

lemma next_seq_inv:
  assumes "broker_inv B" and "i < LOOPBACK_MAX_SESSIONS" and "next_seq_for i st (sessions B) = (seq, ss)"
  shows "broker_inv (B\<lparr>sessions := ss\<rparr>)"
  using assms sessions_wf_next [of "sessions B" i st]
  by (simp add: broker_inv_def reply_wf_def tables_wf_def)

lemma queue_reply_inv [simp]: "broker_inv (queue_reply E i ub B) = broker_inv B"
  by (simp add: queue_reply_def Let_def)

lemma inv_cur: "broker_inv B \<Longrightarrow> cur_session_idx B < LOOPBACK_MAX_SESSIONS"
  by (simp add: broker_inv_def reply_wf_def)

lemma send_status_inv: "broker_inv B \<Longrightarrow> broker_inv (send_status E rid oid st B)"
  unfolding send_status_def Let_def
  by (auto split: prod.splits intro: next_seq_inv inv_cur)

lemma send_status_agent_inv: "broker_inv B \<Longrightarrow> broker_inv (send_status_agent E rid st B)"
  unfolding send_status_agent_def Let_def
  by (auto split: prod.splits intro: next_seq_inv inv_cur)

lemma send_info_inv: "broker_inv B \<Longrightarrow> broker_inv (send_info E rid oid B)"
  unfolding send_info_def Let_def
  by (auto split: prod.splits intro: next_seq_inv inv_cur)

lemma send_acknack_inv: "broker_inv B \<Longrightarrow> broker_inv (send_acknack E fu st B)"
  by (simp add: send_acknack_def Let_def)

lemma send_data_inv: "broker_inv B \<Longrightarrow> broker_inv (send_data E t dr payload B)"
  unfolding send_data_def Let_def
  by (cases "t < LOOPBACK_MAX_SESSIONS") (auto split: prod.splits intro: next_seq_inv)

lemmas reply_invs = send_status_inv send_status_agent_inv send_info_inv send_acknack_inv send_data_inv

section \<open>Handlers keep the invariant\<close>

lemma set_topic_name_ok:
  assumes "length (t_name t) = MAX_TOPIC_NAME" and "t_session_idx t < LOOPBACK_MAX_SESSIONS"
  shows "topic_ok (set_topic_name name t)"
  using assms by (simp add: topic_ok_def set_topic_name_def MAX_TOPIC_NAME_def)

lemma topic_key_set_name [simp]:
  "topic_key (set_topic_name name t) = topic_key t" "t_used (set_topic_name name t) = t_used t"
  by (simp_all add: topic_key_def set_topic_name_def)

lemma ep_key_set_topic [simp]:
  "ep_key (e\<lparr>e_topic_id := tid\<rparr>) = ep_key e" "ep_ok (e\<lparr>e_topic_id := tid\<rparr>) = ep_ok e"
  by (simp_all add: ep_key_def ep_ok_def)

text \<open>The entry an allocation returns, and what it leaves of the others.\<close>

lemma alloc_topic_entry:
  assumes "alloc_topic T s oid = (Some i, T')" and "length T = MAX_TOPICS"
  shows "i < MAX_TOPICS \<and> t_used (T' ! i) \<and> topic_key (T' ! i) = (s, oid) \<and>
    length (t_name (T' ! i)) = length (t_name (T ! i)) \<and>
    (\<forall>t \<in> set T'. t \<in> set T \<or> t = T' ! i)"
proof (cases "find_topic T s oid")
  case (Some j)
  then have "j < MAX_TOPICS" "t_used (T ! j)" "topic_key (T ! j) = (s, oid)"
    by (auto simp: find_topic_key find_upt_Some)
  with Some assms show ?thesis by (auto simp: alloc_topic_def)
next
  case None
  then obtain j where j: "find (\<lambda>i. \<not> t_used (T ! i)) [0..<MAX_TOPICS] = Some j" "i = j"
    and T': "T' = T[j := (T ! j)\<lparr>t_used := True, t_session_idx := s, t_id := oid,
        t_name := (t_name (T ! j))[0 := 0]\<rparr>]"
    using assms(1) by (auto simp: alloc_topic_def split: option.splits)
  then have "j < MAX_TOPICS" by (simp add: find_upt_Some)
  with assms(2) show ?thesis
    unfolding j(2) T' by (auto simp: topic_key_def dest: set_update_subset_insert [THEN subsetD])
qed

lemma alloc_ep_entry:
  assumes "alloc_ep T n s oid = (Some i, T')" and "length T = n"
  shows "i < n \<and> e_used (T' ! i) \<and> ep_key (T' ! i) = (s, oid) \<and>
    (\<forall>e \<in> set T'. e \<in> set T \<or> e = T' ! i)"
proof (cases "find_ep T n s oid")
  case (Some j)
  then have "j < n" "e_used (T ! j)" "ep_key (T ! j) = (s, oid)"
    by (auto simp: find_ep_key find_upt_Some)
  with Some assms show ?thesis by (auto simp: alloc_ep_def)
next
  case None
  then obtain j where j: "find (\<lambda>i. \<not> e_used (T ! i)) [0..<n] = Some j" "i = j"
    and T': "T' = T[j := (T ! j)\<lparr>e_used := True, e_session_idx := s, e_id := oid\<rparr>]"
    using assms(1) by (auto simp: alloc_ep_def split: option.splits)
  then have "j < n" by (simp add: find_upt_Some)
  with assms(2) show ?thesis
    unfolding j(2) T' by (auto simp: ep_key_def dest: set_update_subset_insert [THEN subsetD])
qed

text \<open>Registering a topic or an endpoint, the way the handlers do it.\<close>

lemma register_topic:
  assumes "topics.unique_keys T" and "\<forall>t \<in> set T. topic_ok t" and "s < LOOPBACK_MAX_SESSIONS"
    and "alloc_topic T s oid = (Some i, T')"
  shows "topics.unique_keys (T'[i := set_topic_name name (T' ! i)]) \<and>
    (\<forall>t \<in> set (T'[i := set_topic_name name (T' ! i)]). topic_ok t) \<and>
    find_topic (T'[i := set_topic_name name (T' ! i)]) s oid = Some i \<and>
    (\<forall>s' oid'. (s', oid') \<noteq> (s, oid) \<longrightarrow>
       find_topic (T'[i := set_topic_name name (T' ! i)]) s' oid' = find_topic T s' oid') \<and>
    (\<forall>j. j \<noteq> i \<longrightarrow> T'[i := set_topic_name name (T' ! i)] ! j = T ! j) \<and>
    i < length T' \<and> length (t_name (T' ! i)) = MAX_TOPIC_NAME"
proof -
  have len: "length T = MAX_TOPICS" using assms(1) by (simp add: topics.unique_keys_def)
  note e = alloc_topic_entry [OF assms(4) len]
  have "topic_ok (T ! i)" using e len assms(2) by simp
  then have nl: "length (t_name (T' ! i)) = MAX_TOPIC_NAME" using e by (simp add: topic_ok_def)
  have ok: "topic_ok (set_topic_name name (T' ! i))"
    using nl e assms(3) by (intro set_topic_name_ok) (auto simp: topic_key_def)
  let ?e = "set_topic_name name (T' ! i)"
  have lenT': "length T' = MAX_TOPICS"
    using assms(4) len by (auto simp: alloc_topic_def split: option.splits)
  have st: "topics.unique_keys (T'[i := ?e]) \<and> find_topic (T'[i := ?e]) s oid = Some i \<and>
      (\<forall>s' oid'. (s', oid') \<noteq> (s, oid) \<longrightarrow> find_topic (T'[i := ?e]) s' oid' = find_topic T s' oid') \<and>
      (\<forall>j. j \<noteq> i \<longrightarrow> T'[i := ?e] ! j = T ! j)"
    using topics.alloc_store_lookup [OF assms(1), of "(s, oid)" i T' ?e] assms(4) e by auto
  have "\<forall>t \<in> set (T'[i := ?e]). topic_ok t"
  proof
    fix t assume "t \<in> set (T'[i := ?e])"
    then obtain j where "j < MAX_TOPICS" "t = T'[i := ?e] ! j"
      using lenT' by (auto simp: in_set_conv_nth)
    with st ok assms(2) len lenT' e show "topic_ok t" by (cases "j = i") auto
  qed
  with st nl e lenT' show ?thesis by auto
qed

lemma register_ep:
  assumes "eps.unique_keys n T" and "\<forall>e \<in> set T. ep_ok e" and "s < LOOPBACK_MAX_SESSIONS"
    and "alloc_ep T n s oid = (Some i, T')"
  shows "eps.unique_keys n (T'[i := (T' ! i)\<lparr>e_topic_id := tid\<rparr>]) \<and>
    (\<forall>e \<in> set (T'[i := (T' ! i)\<lparr>e_topic_id := tid\<rparr>]). ep_ok e) \<and>
    find_ep (T'[i := (T' ! i)\<lparr>e_topic_id := tid\<rparr>]) n s oid = Some i \<and>
    (\<forall>s' oid'. (s', oid') \<noteq> (s, oid) \<longrightarrow>
       find_ep (T'[i := (T' ! i)\<lparr>e_topic_id := tid\<rparr>]) n s' oid' = find_ep T n s' oid') \<and>
    (\<forall>j. j \<noteq> i \<longrightarrow> T'[i := (T' ! i)\<lparr>e_topic_id := tid\<rparr>] ! j = T ! j) \<and>
    i < length T'"
proof -
  let ?e = "(T' ! i)\<lparr>e_topic_id := tid\<rparr>"
  have len: "length T = n" using assms(1) by (simp add: eps.unique_keys_def)
  note e = alloc_ep_entry [OF assms(4) len]
  have lenT': "length T' = n"
    using assms(4) len by (auto simp: alloc_ep_def split: option.splits)
  have ok: "ep_ok ?e" using e assms(3) by (auto simp: ep_ok_def ep_key_def)
  have st: "eps.unique_keys n (T'[i := ?e]) \<and> find_ep (T'[i := ?e]) n s oid = Some i \<and>
      (\<forall>s' oid'. (s', oid') \<noteq> (s, oid) \<longrightarrow> find_ep (T'[i := ?e]) n s' oid' = find_ep T n s' oid') \<and>
      (\<forall>j. j \<noteq> i \<longrightarrow> T'[i := ?e] ! j = T ! j)"
    using eps.alloc_store_lookup [OF assms(1), of "(s, oid)" i T' ?e] assms(4) e by auto
  have "\<forall>x \<in> set (T'[i := ?e]). ep_ok x"
  proof
    fix x assume "x \<in> set (T'[i := ?e])"
    then obtain j where "j < n" "x = T'[i := ?e] ! j"
      using lenT' by (auto simp: in_set_conv_nth)
    with st ok assms(2) len lenT' e show "ep_ok x" by (cases "j = i") auto
  qed
  with st e lenT' show ?thesis by auto
qed


text \<open>A handler keeps the memory of the message and only moves its cursor forward.\<close>

definition adv :: "'b ucdr_api \<Rightarrow> 'b \<Rightarrow> 'b \<Rightarrow> bool" where
  "adv C b b' \<longleftrightarrow> ucdr_mem C b' = ucdr_mem C b \<and> ucdr_buffer_length C b \<le> ucdr_buffer_length C b'"

lemma adv_refl [simp]: "adv C b b"
  by (simp add: adv_def)

lemma adv_trans: "adv C a b \<Longrightarrow> adv C b c \<Longrightarrow> adv C a c"
  by (simp add: adv_def)

lemma reads_adv: "reads C ok n al b r bs b' \<Longrightarrow> adv C b b'"
  by (simp add: reads_def adv_def Let_def)

context ucdr begin

lemma de_adv:
  "ucdr_deserialize_uint8_t C b v = (r, v', b') \<Longrightarrow> adv C b b'"
  "ucdr_deserialize_endian_uint16_t C e b u = (r, u', b') \<Longrightarrow> adv C b b'"
  "ucdr_deserialize_uint32_t C b d = (r, d', b') \<Longrightarrow> adv C b b'"
  "ucdr_deserialize_array_uint8_t C n b vs = (r, vs', b') \<Longrightarrow> adv C b b'"
proof -
  show "ucdr_deserialize_uint8_t C b v = (r, v', b') \<Longrightarrow> adv C b b'"
    by (rule reads_adv [OF de8])
  show "ucdr_deserialize_endian_uint16_t C e b u = (r, u', b') \<Longrightarrow> adv C b b'"
    using de16 [of e b u r u' b'] by (blast intro: reads_adv)
  show "ucdr_deserialize_uint32_t C b d = (r, d', b') \<Longrightarrow> adv C b b'"
    using de32 [of b d r d' b'] by (blast intro: reads_adv)
  show "ucdr_deserialize_array_uint8_t C n b vs = (r, vs', b') \<Longrightarrow> adv C b b'"
    using de_arr [of n b vs r vs' b'] by (blast intro: reads_adv)
qed

lemma read_base_request_adv: "read_base_request C ub = (b, ub') \<Longrightarrow> adv C ub ub'"
  by (auto simp: read_base_request_def Let_def split: prod.splits dest!: de_adv intro: adv_trans)

lemma skip_bytes_adv: "skip_bytes C n ub = (r, ub') \<Longrightarrow> adv C ub ub'"
proof (induction n arbitrary: ub)
  case (Suc n)
  then show ?case by (auto split: prod.splits if_splits dest!: de_adv intro: adv_trans)
qed simp

lemma skip_padding_adv': "skip_padding D off ub = (r, ub') \<Longrightarrow> D = C \<Longrightarrow> adv C ub ub'"
proof (induction D off ub rule: skip_padding.induct)
  case (1 D off ub)
  from "1.prems"(2) have D: "D = C" .
  show ?case
  proof (cases "off mod 4 = 0")
    case True
    with "1.prems" show ?thesis by (simp add: skip_padding.simps)
  next
    case False
    obtain r1 x ub1 where d: "ucdr_deserialize_uint8_t C ub 0 = (r1, x, ub1)"
      by (cases "ucdr_deserialize_uint8_t C ub 0")
    with "1.prems" D False have "if r1 then skip_padding C (off + 1) ub1 = (r, ub') else ub' = ub1"
      by (subst (asm) skip_padding.simps) (auto split: if_splits)
    with "1.IH" [of r1 "(x, ub1)"] D False d de_adv(1) [OF d] show ?thesis
      by (cases r1) (auto intro: adv_trans)
  qed
qed

lemmas skip_padding_adv = skip_padding_adv' [OF _ refl]

lemma open_binary_repr_adv: "open_binary_repr C ub = (r, ub') \<Longrightarrow> adv C ub ub'"
  by (auto simp: open_binary_repr_def Let_def split: prod.splits if_splits
      dest!: de_adv skip_bytes_adv intro: adv_trans)

end


text \<open>
  Every handler keeps the memory, moves forward and keeps the invariant, which is stated
  once for the whole switch.
\<close>

definition safe_result :: "'b ucdr_api \<Rightarrow> 'b \<Rightarrow> 'b \<times> 'w broker \<Rightarrow> bool" where
  "safe_result C ub res \<longleftrightarrow> adv C ub (fst res) \<and> broker_inv (snd res)"

lemma safe_if:
  "safe_result C ub x \<Longrightarrow> safe_result C ub y \<Longrightarrow> safe_result C ub (if c then x else y)"
  by simp

lemma set_session_inv:
  assumes "broker_inv B" and "length key = 4"
  shows "broker_inv (B\<lparr>sessions := (sessions B)[cur_session_idx B := s\<lparr>skey := key\<rparr>],
    cur_session_id := sid, cur_key := key\<rparr>)"
  using assms
  by (auto simp: broker_inv_def reply_wf_def sessions_wf_def tables_wf_def
      dest: set_update_subset_insert [THEN subsetD])

lemma set_topics_inv:
  assumes "broker_inv B" and "alloc_topic (topics B) (cur_session_idx B) oid = (Some i, ts)"
  shows "broker_inv (B\<lparr>topics := ts[i := set_topic_name name (ts ! i)]\<rparr>)"
  using register_topic [of "topics B" "cur_session_idx B" oid i ts name] assms
  by (simp add: broker_inv_def reply_wf_def tables_wf_def)

lemma set_writers_inv:
  assumes "broker_inv B"
    and "alloc_ep (datawriters B) MAX_DATAWRITERS (cur_session_idx B) oid = (Some i, es)"
  shows "broker_inv (B\<lparr>datawriters := es[i := (es ! i)\<lparr>e_topic_id := tid\<rparr>]\<rparr>)"
  using register_ep [of MAX_DATAWRITERS "datawriters B" "cur_session_idx B" oid i es tid] assms
  by (simp add: broker_inv_def reply_wf_def tables_wf_def)

lemma set_readers_inv:
  assumes "broker_inv B"
    and "alloc_ep (datareaders B) MAX_DATAREADERS (cur_session_idx B) oid = (Some i, es)"
  shows "broker_inv (B\<lparr>datareaders := es[i := (es ! i)\<lparr>e_topic_id := tid\<rparr>]\<rparr>)"
  using register_ep [of MAX_DATAREADERS "datareaders B" "cur_session_idx B" oid i es tid] assms
  by (simp add: broker_inv_def reply_wf_def tables_wf_def)

lemma fanout_inv: "broker_inv B \<Longrightarrow> broker_inv (fold (fanout_one E src payload) is B)"
proof (induction "is" arbitrary: B)
  case (Cons i "is")
  then have "broker_inv (fanout_one E src payload i B)"
    by (auto simp: fanout_one_def Let_def send_data_inv split: option.splits)
  with Cons.IH show ?case by simp
qed simp

context ucdr begin

lemma handle_create_client_safe:
  assumes "broker_inv B" and "cdr_api E = C"
  shows "safe_result C ub (handle_create_client E ub sid B)"
proof -
  obtain r1 x1 b1 where 1: "ucdr_deserialize_array_uint8_t C 4 ub (uninit_bytes E ''cookie'' 4 B) = (r1, x1, b1)"
    by (metis prod.exhaust)
  obtain r2 x2 b2 where 2: "ucdr_deserialize_array_uint8_t C 2 b1 (uninit_bytes E ''version'' 2 B) = (r2, x2, b2)"
    by (metis prod.exhaust)
  obtain r3 x3 b3 where 3: "ucdr_deserialize_array_uint8_t C 2 b2 (uninit_bytes E ''vendor'' 2 B) = (r3, x3, b3)"
    by (metis prod.exhaust)
  obtain r4 x4 b4 where 4: "ucdr_deserialize_array_uint8_t C 4 b3 (uninit_bytes E ''client_key'' 4 B) = (r4, x4, b4)"
    by (metis prod.exhaust)
  obtain r5 x5 b5 where 5: "ucdr_deserialize_uint8_t C b4 sid = (r5, x5, b5)"
    by (metis prod.exhaust)
  have "adv C ub b5"
    using de_adv(4) [OF 1] de_adv(4) [OF 2] de_adv(4) [OF 3] de_adv(4) [OF 4] de_adv(1) [OF 5]
    by (blast intro: adv_trans)
  moreover have "length x4 = 4" by (rule de_arr_length [OF 4]) simp
  from set_session_inv [OF assms(1) this, where s = "\<lparr>active = True, session_id = x5, skey = x4,
      seq_none = 0, seq_be = 0, seq_rel = 0\<rparr>" and sid = x5]
  have "broker_inv (B\<lparr>sessions := (sessions B)[cur_session_idx B := \<lparr>active = True,
      session_id = x5, skey = x4, seq_none = 0, seq_be = 0, seq_rel = 0\<rparr>],
      cur_session_id := x5, cur_key := x4\<rparr>)" by simp
  ultimately show ?thesis
    by (simp add: assms(2) safe_result_def handle_create_client_def 1 2 3 4 5 send_status_agent_inv)
qed

lemma create_topic_safe:
  assumes "broker_inv B" and "cdr_api E = C"
  shows "safe_result C ub (create_topic E oid ub B)"
  unfolding create_topic_def assms(2) using assms(1)
  by (auto simp: safe_result_def intro: set_topics_inv
      dest: open_binary_repr_adv split: prod.splits option.splits)

lemma create_endpoint_safe:
  assumes "broker_inv B" and "cdr_api E = C"
  shows "safe_result C ub (create_endpoint E oid ub B)"
  unfolding create_endpoint_def assms(2) using assms(1)
  by (auto simp: safe_result_def Let_def intro: set_writers_inv set_readers_inv
      dest: open_binary_repr_adv split: prod.splits option.splits)

lemma handle_create_safe:
  assumes "broker_inv B" and "cdr_api E = C"
  shows "safe_result C ub (handle_create E ub B)"
proof -
  obtain b ub1 where 1: "read_base_request C ub = (b, ub1)" by fastforce
  obtain r k ub2 where 2: "ucdr_deserialize_uint8_t C ub1 0 = (r, k, ub2)" by (metis prod.exhaust)
  have a: "adv C ub ub2"
    using read_base_request_adv [OF 1] de_adv(1) [OF 2] by (rule adv_trans)
  have "safe_result C ub2 (if r then
               if obj_kind (br_object_id b) = OBJK_TOPIC then create_topic E (br_object_id b) ub2 B
               else if obj_kind (br_object_id b) = OBJK_DATAWRITER \<or> obj_kind (br_object_id b) = OBJK_DATAREADER
               then create_endpoint E (br_object_id b) ub2 B
               else (ub2, B)
             else (ub2, B))" (is "safe_result C ub2 ?res")
    using create_topic_safe [OF assms] create_endpoint_safe [OF assms] assms(1)
    by (auto simp: safe_result_def)
  moreover obtain ub3 B3 where res: "?res = (ub3, B3)" by fastforce
  ultimately have "adv C ub ub3" "broker_inv B3"
    using a by (auto simp: safe_result_def intro: adv_trans)
  moreover have "handle_create E ub B = (ub3, send_status E (br_request_id b) (br_object_id b) STATUS_OK B3)"
    by (simp only: handle_create_def assms(2) 1 2 Let_def res prod.case)
  ultimately show ?thesis by (simp add: safe_result_def send_status_inv)
qed

lemma handle_write_data_safe:
  assumes "broker_inv B" and "cdr_api E = C"
  shows "safe_result C ub (handle_write_data E ub len B)"
proof -
  obtain b ub1 where 1: "read_base_request C ub = (b, ub1)" by fastforce
  have a: "adv C ub ub1" by (rule read_base_request_adv [OF 1])
  obtain r ub2 where 2: "skip_bytes C (unat (len - 4)) ub1 = (r, ub2)" by fastforce
  have a2: "adv C ub ub2" by (rule adv_trans [OF a skip_bytes_adv [OF 2]])
  show ?thesis
    unfolding handle_write_data_def assms(2) 1 2 using assms(1) a a2
    by (simp add: 2 safe_result_def Let_def fanout_inv split: option.split)
qed

lemma handle_heartbeat_safe:
  assumes "broker_inv B" and "cdr_api E = C"
  shows "safe_result C ub (handle_heartbeat E ub B)"
  unfolding handle_heartbeat_def assms(2) Let_def using assms(1)
  by (auto simp: safe_result_def send_acknack_inv split: prod.split
      dest!: de_adv intro: adv_trans)

lemma dispatch_safe:
  assumes "broker_inv B" and "cdr_api E = C"
  shows "safe_result C ub (dispatch E sid sub_id sub_len ub B)"
proof -
  have "safe_result C ub (handle_get_info E ub B)" "safe_result C ub (handle_delete E ub B)"
    using assms(1) read_base_request_adv
    by (auto simp: handle_get_info_def handle_delete_def assms(2) safe_result_def
        send_info_inv send_status_inv split: prod.split)
  moreover have "safe_result C ub (ub, B)" using assms(1) by (simp add: safe_result_def)
  ultimately show ?thesis
    using handle_create_client_safe [OF assms, of ub sid] handle_create_safe [OF assms, of ub]
      handle_write_data_safe [OF assms, of ub sub_len] handle_heartbeat_safe [OF assms, of ub]
    unfolding dispatch_def by (intro safe_if)
qed


section \<open>Every message is processed\<close>

lemma de8_progress:
  assumes "ucdr_deserialize_uint8_t C b v = (True, v', b')"
  shows "ucdr_mem C b' = ucdr_mem C b \<and> ucdr_buffer_length C b' = ucdr_buffer_length C b + 1"
  using de8 [OF assms] by (simp add: reads_def Let_def)

lemma de16_progress:
  assumes "ucdr_deserialize_endian_uint16_t C e b v = (True, v', b')"
  shows "ucdr_mem C b' = ucdr_mem C b \<and> ucdr_buffer_length C b + 2 \<le> ucdr_buffer_length C b'"
  using de16 [OF assms] by (auto simp: reads_def Let_def)

text \<open>A round that goes on has consumed at least the four bytes of a submessage header.\<close>

lemma submessage_step_safe:
  assumes "broker_inv B" and "cdr_api E = C" and "submessage_step E sid ub B = Some (go_on, ub', B')"
  shows "ucdr_mem C ub' = ucdr_mem C ub \<and> ucdr_buffer_length C ub + 4 \<le> ucdr_buffer_length C ub' \<and>
    broker_inv B'"
proof -
  obtain r0 ub0 where 0: "skip_padding C (ucdr_buffer_length C ub) ub = (r0, ub0)" by fastforce
  obtain r1 x1 ub1 where 1: "ucdr_deserialize_uint8_t C ub0 0 = (r1, x1, ub1)" by (metis prod.exhaust)
  obtain r2 x2 ub2 where 2: "ucdr_deserialize_uint8_t C ub1 0 = (r2, x2, ub2)" by (metis prod.exhaust)
  obtain r3 x3 ub3 where 3: "ucdr_deserialize_endian_uint16_t C UCDR_LITTLE_ENDIANNESS ub2 0 = (r3, x3, ub3)"
    by (metis prod.exhaust)
  obtain ub4 B4 where 4: "dispatch E sid x1 x3 ub3 B = (ub4, B4)" by fastforce
  let ?n = "unat x3 - (ucdr_buffer_length C ub4 - ucdr_buffer_length C ub3)"
  obtain r5 ub5 where 5: "skip_bytes C ?n ub4 = (r5, ub5)" by fastforce
  note step = assms(3) [unfolded submessage_step_def Let_def assms(2) 0 1 2 3 4 5 prod.case]
  from step have r: "r0" "r1" "r2" "r3" "B' = B4" "ub' = ub4 \<or> ub' = ub5"
    by (auto simp: 4 5 split: if_splits)
  have "ucdr_mem C ub3 = ucdr_mem C ub \<and> ucdr_buffer_length C ub + 4 \<le> ucdr_buffer_length C ub3"
    using skip_padding_adv [OF 0] de8_progress [of ub0 0 x1 ub1] de8_progress [of ub1 0 x2 ub2]
      de16_progress [of UCDR_LITTLE_ENDIANNESS ub2 0 x3 ub3] r(1-4) 1 2 3 by (auto simp: adv_def)
  moreover have "adv C ub3 ub4" "broker_inv B4"
    using dispatch_safe [OF assms(1,2), of ub3 sid x1 x3] 4 by (simp_all add: safe_result_def)
  moreover have "adv C ub4 ub'"
    using r(6) skip_bytes_adv [OF 5] by auto
  ultimately show ?thesis using r(5) by (auto simp: adv_def)
qed

lemma submessage_loop_returns:
  assumes "broker_inv B" and "cdr_api E = C"
    and "length (ucdr_mem C ub) - ucdr_buffer_length C ub < 4 * fuel"
  shows "\<exists>B'. submessage_loop fuel E sid ub B = Some B' \<and> broker_inv B'"
  using assms
proof (induction fuel arbitrary: ub B)
  case (Suc fuel)
  show ?case
  proof (cases "submessage_step E sid ub B")
    case None
    with Suc.prems show ?thesis by simp
  next
    case (Some res)
    then obtain go_on ub' B' where s: "submessage_step E sid ub B = Some (go_on, ub', B')"
      by (cases res) auto
    from submessage_step_safe [OF Suc.prems(1,2) s]
    have p: "ucdr_mem C ub' = ucdr_mem C ub" "ucdr_buffer_length C ub + 4 \<le> ucdr_buffer_length C ub'"
      "broker_inv B'" by simp_all
    with Suc.prems(3) within [of ub'] have "length (ucdr_mem C ub') - ucdr_buffer_length C ub' < 4 * fuel"
      by auto
    with Suc.IH [OF p(3) Suc.prems(2) this] s p(3) Suc.prems(1) show ?thesis by simp
  qed
qed simp

lemma submessage_loop_fuel:
  assumes "submessage_loop fuel E sid ub B = Some B'" and "fuel \<le> fuel'"
  shows "submessage_loop fuel' E sid ub B = Some B'"
  using assms
proof (induction fuel arbitrary: fuel' ub B)
  case (Suc fuel)
  then show ?case
    by (cases fuel') (auto split: option.splits if_splits)
qed simp

lemma process_message_safe:
  assumes "broker_inv B" and "cdr_api E = C" and "i < LOOPBACK_MAX_SESSIONS"
    and "unat (slot_len msg) < 4 * fuel"
  shows "\<exists>B'. process_message fuel E msg i B = Some B' \<and> broker_inv B'"
proof (cases "broker_quiet B \<or> unat (slot_len msg) < HEADER_NO_KEY")
  case True
  with assms(1) show ?thesis by (auto simp: process_message_def)
next
  case False
  let ?m = "take (unat (slot_len msg)) (slot_data msg)"
  let ?ub = "ucdr_init_buffer C ?m"
  obtain r1 sid b1 where 1: "ucdr_deserialize_uint8_t C ?ub (uninit8 E ''session_id'' 0 (world B)) = (r1, sid, b1)"
    by (metis prod.exhaust)
  obtain r2 st b2 where 2: "ucdr_deserialize_uint8_t C b1 (uninit8 E ''stream_id'' 0 (world B)) = (r2, st, b2)"
    by (metis prod.exhaust)
  obtain r3 seq b3 where 3: "ucdr_deserialize_endian_uint16_t C UCDR_LITTLE_ENDIANNESS b2 (uninit16 E ''seq_num'' (world B)) =
      (r3, seq, b3)" by (metis prod.exhaust)
  obtain r4 k b4 where 4: "ucdr_deserialize_array_uint8_t C 4 b3 [0, 0, 0, 0] = (r4, k, b4)"
    by (metis prod.exhaust)
  have k: "length k = 4" by (rule de_arr_length [OF 4]) simp
  have a: "adv C ?ub b3"
    using de_adv(1) [OF 1] de_adv(1) [OF 2] de_adv(2) [OF 3] by (blast intro: adv_trans)
  define b5 where "b5 = (if sid < SESSION_NO_KEY then b4 else b3)"
  define key where "key = (if sid < SESSION_NO_KEY then k else [0, 0, 0, 0])"
  let ?B = "B\<lparr>cur_session_idx := i, cur_session_id := sid, cur_in_stream_id := st, cur_key := key\<rparr>"
  let ?B' = "if STREAM_THRESH_REL \<le> st then send_acknack E (seq + 1) st ?B else ?B"
  have "adv C ?ub b5" using a de_adv(4) [OF 4] by (auto simp: b5_def intro: adv_trans)
  then have "length (ucdr_mem C b5) - ucdr_buffer_length C b5 < 4 * fuel"
    using assms(4) init [of ?m] by (auto simp: adv_def)
  moreover have "broker_inv ?B" using assms(1,3) k
    by (simp add: key_def broker_inv_def reply_wf_def tables_wf_def)
  then have "broker_inv ?B'" by (simp add: send_acknack_inv)
  ultimately have "\<exists>B'. submessage_loop fuel E sid b5 ?B' = Some B' \<and> broker_inv B'"
    using submessage_loop_returns [OF _ assms(2)] by blast
  moreover have "process_message fuel E msg i B = submessage_loop fuel E sid b5 ?B'"
    using False by (auto simp: process_message_def assms(2) 1 2 3 4 Let_def b5_def key_def)
  ultimately show ?thesis by simp
qed

text \<open>One round per four bytes of the message, and one more, is fuel enough; more changes nothing.\<close>

lemma process_message_returns:
  assumes "broker_inv B" and "cdr_api E = C" and "i < LOOPBACK_MAX_SESSIONS"
  shows "\<exists>B'. (\<forall>fuel \<ge> unat (slot_len msg) div 4 + 1. process_message fuel E msg i B = Some B') \<and>
    broker_inv B'"
proof -
  define n where "n = unat (slot_len msg) div 4 + 1"
  have "unat (slot_len msg) < 4 * n" by (simp add: n_def)
  from process_message_safe [OF assms this] obtain B' where
    B': "process_message n E msg i B = Some B'" "broker_inv B'" by blast
  have "process_message fuel E msg i B = Some B'" if "n \<le> fuel" for fuel
    using B'(1) that
    by (auto simp: process_message_def Let_def intro: submessage_loop_fuel split: prod.splits if_splits)
  with B'(2) show ?thesis unfolding n_def by blast
qed

end

end
