(* ===== verification/Broker_Run.thy ===== *)
theory Broker_Run
  imports Broker_Safety
begin

text \<open>
  The running broker: its reachable states under any behaviour of the other threads, a
  concrete environment on which every promise about the services holds, and the
  invariant and termination properties of the thread.
\<close>

section \<open>A concrete environment\<close>

text \<open>The queues as lists next to a UART whose output is recorded.\<close>

type_synonym sim_world = "queues \<times> uart_world"

definition sim_msgq :: "sim_world msgq_api" where
  "sim_msgq = \<lparr>
     k_msgq_put = (\<lambda>q s t w. case k_msgq_put list_msgq q s t (fst w) of (r, w') \<Rightarrow> (r, (w', snd w))),
     k_msgq_get = (\<lambda>q t old w. case k_msgq_get list_msgq q t old (fst w) of
                     (r, s, w') \<Rightarrow> (r, s, (w', snd w))),
     k_msgq_purge = (\<lambda>q w. (k_msgq_purge list_msgq q (fst w), snd w)),
     k_poll = (\<lambda>qs t w. case k_poll list_msgq qs t (fst w) of (r, ev, w') \<Rightarrow> (r, ev, (w', snd w))),
     uninit_data = (\<lambda>w. uninit_data list_msgq (fst w))\<rparr>"

definition sim_uart :: "sim_world uart_api" where
  "sim_uart = \<lparr>
     uart_poll_out = (\<lambda>b w. (fst w, uart_poll_out list_uart b (snd w))),
     uart_poll_in = (\<lambda>w. case uart_poll_in list_uart (snd w) of (r, b, u) \<Rightarrow> (r, b, (fst w, u))),
     uart_device_is_ready = (\<lambda>w. True),
     k_uptime_get = (\<lambda>w. (clock (snd w), w)),
     k_msleep = (\<lambda>n w. (fst w, k_msleep list_uart n (snd w)))\<rparr>"

definition sim_env :: "(cdr, sim_world) broker_env" where
  "sim_env = \<lparr>cdr_api = list_ucdr, queue_api = sim_msgq, uart = sim_uart, uninit16 = (\<lambda>x w. 0xBEEF), uninit8 = (\<lambda>x i w. 0xEE)\<rparr>"

definition sim_contents :: "sim_world \<Rightarrow> qid \<Rightarrow> loopback_slot list" where
  "sim_contents w = contents_of (fst w)"

definition sim_printed :: "sim_world \<Rightarrow> u8 list" where
  "sim_printed w = rev (tx (snd w))"

interpretation sim: broker_sys sim_env "\<lambda>b. \<not> err b" sim_contents sim_printed
proof (unfold_locales, goal_cases)
  case (1 m) show ?case using list_ucdr.init [of m] by (simp add: sim_env_def del: list_ucdr_views)
next
  case (2 b) show ?case using list_ucdr.remaining by (simp add: sim_env_def)
next
  case (3 b) show ?case using list_ucdr.within [of b] by (simp add: sim_env_def)
next
  case (4 b v) show ?case using list_ucdr.ser8 by (simp add: sim_env_def)
next
  case (5 b e w) show ?case using list_ucdr.ser16 by (simp add: sim_env_def)
next
  case (6 b vs) show ?case using list_ucdr.ser_arr by (simp add: sim_env_def)
next
  case (7 b v r v' b') then show ?case using list_ucdr.de8 by (simp add: sim_env_def)
next
  case (8 e b w r w' b') then show ?case using list_ucdr.de16 by (simp add: sim_env_def)
next
  case (9 b d r d' b') then show ?case using list_ucdr.de32 by (simp add: sim_env_def)
next
  case (10 n b vs r vs' b') then show ?case using list_ucdr.de_arr by (simp add: sim_env_def)
next
  case (11 n b vs r vs' b') then show ?case using list_ucdr.de_arr_length by (simp add: sim_env_def)
next
  case (12 w q) show ?case using list_msgq.depth by (simp add: sim_contents_def)
next
  case (13 q s t w r w')
  then show ?case using list_msgq.put [of q s t "fst w" r "fst w'"]
    by (auto simp: sim_env_def sim_msgq_def sim_contents_def split: prod.splits)
next
  case (14 w q x xs t old)
  then show ?case using list_msgq.get_some [of "fst w" q x xs t old]
    by (auto simp: sim_env_def sim_msgq_def sim_contents_def split: prod.splits)
next
  case (15 w q t old)
  then show ?case using list_msgq.get_none [of "fst w" q t old]
    by (auto simp: sim_env_def sim_msgq_def sim_contents_def split: prod.splits)
next
  case (16 q w) show ?case using list_msgq.purge
    by (simp add: sim_env_def sim_msgq_def sim_contents_def)
next
  case (17 qs w t)
  then show ?case using list_msgq.poll_ready [of qs "fst w" t]
    by (auto simp: sim_env_def sim_msgq_def sim_contents_def split: prod.splits)
next
  case (18 qs w t)
  then show ?case using list_msgq.poll_idle [of qs "fst w" t]
    by (auto simp: sim_env_def sim_msgq_def sim_contents_def split: prod.splits)
next
  case (19 w) show ?case using list_msgq.uninit by (simp add: sim_env_def sim_msgq_def)
qed (auto simp: sim_env_def sim_msgq_def sim_uart_def list_uart_def sim_contents_def sim_printed_def
    split: prod.splits)

section \<open>Reachable states\<close>

text \<open>
  Static storage is zero when the program starts. The fuel of a message is one round per
  four bytes of the longest length a slot can carry.
\<close>

definition broker_boot :: "'w \<Rightarrow> 'w broker" where
  "broker_boot w = \<lparr>sessions = replicate LOOPBACK_MAX_SESSIONS zero_session,
     topics = replicate MAX_TOPICS zero_topic, datawriters = replicate MAX_DATAWRITERS zero_ep,
     datareaders = replicate MAX_DATAREADERS zero_ep, cur_session_idx = 0, cur_session_id = 0,
     cur_key = [0, 0, 0, 0], cur_in_stream_id = 0, broker_quiet = False,
     htif_dev_for_log = False, world = w\<rparr>"

definition message_fuel :: nat where
  "message_fuel = 16384"

text \<open>
  The steps: the start, a round of the thread, the quiet flag set by another thread, and
  anything the other threads and the hardware do to the world.
\<close>

inductive broker_step :: "('b, 'w) broker_env \<Rightarrow> 'w broker \<Rightarrow> 'w broker \<Rightarrow> bool" for E where
  start: "broker_step E B (broker_start_pinned E B)"
| round: "broker_thread_round message_fuel E B = Some B' \<Longrightarrow> broker_step E B B'"
| quiesce: "broker_step E B (broker_quiesce B)"
| environment: "broker_step E B (B\<lparr>world := w\<rparr>)"

inductive broker_reachable :: "('b, 'w) broker_env \<Rightarrow> 'w broker \<Rightarrow> bool" for E where
  boot: "broker_reachable E (broker_boot w)"
| step: "broker_reachable E B \<Longrightarrow> broker_step E B B' \<Longrightarrow> broker_reachable E B'"

lemma empty_tables:
  "topics.unique_keys (replicate MAX_TOPICS zero_topic)"
  "eps.unique_keys n (replicate n zero_ep)"
  by (simp_all add: topics.unique_keys_def eps.unique_keys_def zero_topic_def zero_ep_def)

lemma zero_ok: "topic_ok zero_topic" "ep_ok zero_ep" "sessions_wf (replicate LOOPBACK_MAX_SESSIONS zero_session)"
  by (simp_all add: topic_ok_def ep_ok_def sessions_wf_def zero_topic_def zero_ep_def
      zero_session_def loopback_consts MAX_TOPIC_NAME_def)

lemma boot_inv: "broker_inv (broker_boot w)"
  using zero_ok empty_tables
  by (simp add: broker_boot_def broker_inv_def reply_wf_def tables_wf_def loopback_consts)

lemma start_inv: "broker_inv B \<Longrightarrow> broker_inv (broker_start_pinned E B)"
  using zero_ok empty_tables
  by (simp add: broker_start_pinned_def broker_inv_def reply_wf_def tables_wf_def)

lemma recv_scan_index:
  "recv_scan Q ev is out idx w = (0, m, i, w') \<Longrightarrow> i \<in> set is"
  by (induction "is" arbitrary: out w)
    (auto simp: EAGAIN_def split: if_splits prod.splits)

lemma recv_any_index:
  "loopback_broker_recv_any Q to out idx w = (0, m, i, w') \<Longrightarrow> i < LOOPBACK_MAX_SESSIONS"
  by (auto simp: loopback_broker_recv_any_def split: prod.splits if_splits dest!: recv_scan_index)

lemma round_safe:
  assumes "ucdr (cdr_api E) ok" and "broker_inv B" and "message_fuel \<le> fuel"
  shows "\<exists>B'. broker_thread_round fuel E B = Some B' \<and> broker_inv B'"
proof -
  obtain rc m i w' where r: "loopback_broker_recv_any (queue_api E) K_FOREVER
      \<lparr>slot_len = 0, slot_data = []\<rparr> 0 (world B) = (rc, m, i, w')" by (metis prod.exhaust)
  show ?thesis
  proof (cases "rc = 0")
    case True
    have "i < LOOPBACK_MAX_SESSIONS" using r True by (auto dest: recv_any_index)
    moreover have "unat (slot_len m) < 4 * fuel"
      using unsigned_less [of "slot_len m", where ?'a = nat] assms(3) by (simp add: message_fuel_def)
    ultimately show ?thesis
      using ucdr.process_message_safe [OF assms(1), of "B\<lparr>world := w'\<rparr>" E i m fuel] assms(2) r True
      by (simp add: broker_thread_round_def)
  next
    case False
    with r assms(2) show ?thesis by (simp add: broker_thread_round_def)
  qed
qed

lemma step_inv:
  assumes "ucdr (cdr_api E) ok" and "broker_inv B" and "broker_step E B B'"
  shows "broker_inv B'"
  using assms(3)
proof cases
  case round
  with round_safe [OF assms(1,2) order_refl] show ?thesis by auto
next
  case quiesce
  with assms(2) show ?thesis
    by (simp add: broker_quiesce_def broker_inv_def reply_wf_def tables_wf_def)
qed (use assms(2) start_inv in auto)

lemma reachable_inv:
  assumes "ucdr (cdr_api E) ok" and "broker_reachable E B"
  shows "broker_inv B"
  using assms(2) by induction (auto intro: boot_inv step_inv [OF assms(1)])

section \<open>Properties of every run\<close>

text \<open>
  C2: The broker's tables stay well-formed in every run. Whatever bytes the clients send and
  whatever the other threads do, in every reachable state no two used entries of a table
  share session and object id, every name in the topic table is NUL-terminated inside its
  64 bytes, every session index is in range and every session key has four bytes.
\<close>

theorem broker_tables_invariant:
  assumes "ucdr (cdr_api E) ok" and "broker_reachable E B"
  shows "length (topics B) = MAX_TOPICS \<and> length (datawriters B) = MAX_DATAWRITERS \<and>
    length (datareaders B) = MAX_DATAREADERS \<and> length (sessions B) = LOOPBACK_MAX_SESSIONS \<and>
    (\<forall>i < MAX_TOPICS. \<forall>j < MAX_TOPICS. t_used (topics B ! i) \<longrightarrow> t_used (topics B ! j) \<longrightarrow>
       topic_key (topics B ! i) = topic_key (topics B ! j) \<longrightarrow> i = j) \<and>
    (\<forall>T \<in> {datawriters B, datareaders B}. \<forall>i < length T. \<forall>j < length T.
       e_used (T ! i) \<longrightarrow> e_used (T ! j) \<longrightarrow> ep_key (T ! i) = ep_key (T ! j) \<longrightarrow> i = j) \<and>
    (\<forall>t \<in> set (topics B). 0 \<in> set (t_name t) \<and> length (t_name t) = MAX_TOPIC_NAME \<and>
       t_session_idx t < LOOPBACK_MAX_SESSIONS) \<and>
    (\<forall>e \<in> set (datawriters B) \<union> set (datareaders B). e_session_idx e < LOOPBACK_MAX_SESSIONS) \<and>
    (\<forall>s \<in> set (sessions B). length (skey s) = 4) \<and> length (cur_key B) = 4 \<and>
    cur_session_idx B < LOOPBACK_MAX_SESSIONS"
proof -
  have "0 \<in> set (t_name t)" if "topic_ok t" for t
    using that nth_mem [of "MAX_TOPIC_NAME - 1" "t_name t"] by (simp add: topic_ok_def MAX_TOPIC_NAME_def)
  with reachable_inv [OF assms] show ?thesis
    by (auto simp: broker_inv_def tables_wf_def reply_wf_def sessions_wf_def
        topics.unique_keys_def eps.unique_keys_def topic_ok_def ep_ok_def)
qed

lemma sim_reachable: "broker_reachable sim_env (broker_start_pinned sim_env (broker_boot w))"
  by (rule broker_reachable.step [OF broker_reachable.boot broker_step.start])

lemma broker_tables_invariant_witness:
  "length (topics (broker_start_pinned sim_env (broker_boot (no_messages, \<lparr>rx = [], tx = [], clock = 0\<rparr>)))) =
    MAX_TOPICS"
  using broker_tables_invariant [OF sim.cdr.ucdr_axioms sim_reachable] by blast

text \<open>
  C15: The broker thread processes every message in bounded time. In every reachable state,
  for whatever message the thread takes off its queues, the round returns after at most one
  turn of the submessage loop per four bytes of the message's length and one more: with that
  fuel, and with any larger one, the round has the same result, which is reachable again.
  (Every turn that goes on has consumed a four-byte submessage header. The receive itself
  blocks until a message is there; it is the queue interface's call and taken as returning.)
\<close>

theorem broker_round_returns:
  assumes "ucdr (cdr_api E) ok" and "broker_reachable E B"
    and "loopback_broker_recv_any (queue_api E) K_FOREVER \<lparr>slot_len = 0, slot_data = []\<rparr> 0 (world B) =
      (rc, m, i, w)"
  shows "\<exists>B'. (\<forall>fuel \<ge> unat (slot_len m) div 4 + 1. broker_thread_round fuel E B = Some B') \<and>
    broker_reachable E B'"
proof -
  note inv = reachable_inv [OF assms(1,2)]
  have "\<exists>B'. \<forall>fuel \<ge> unat (slot_len m) div 4 + 1. broker_thread_round fuel E B = Some B'"
  proof (cases "rc = 0")
    case True
    have "i < LOOPBACK_MAX_SESSIONS" using assms(3) True by (auto dest: recv_any_index)
    moreover have "broker_inv (B\<lparr>world := w\<rparr>)"
      using inv by (simp add: broker_inv_def reply_wf_def tables_wf_def)
    ultimately show ?thesis
      using ucdr.process_message_returns [OF assms(1), of "B\<lparr>world := w\<rparr>" E i m] assms(3) True
      by (simp add: broker_thread_round_def) blast
  next
    case False
    with assms(3) show ?thesis by (simp add: broker_thread_round_def)
  qed
  then obtain B' where B': "\<forall>fuel \<ge> unat (slot_len m) div 4 + 1. broker_thread_round fuel E B = Some B'" ..
  have "unat (slot_len m) div 4 + 1 \<le> message_fuel"
    using unsigned_less [of "slot_len m", where ?'a = nat] by (simp add: message_fuel_def)
  with B' have "broker_thread_round message_fuel E B = Some B'" by blast
  then have "broker_reachable E B'"
    by (rule broker_reachable.step [OF assms(2) broker_step.round])
  with B' show ?thesis by blast
qed

text \<open>A CREATE_CLIENT of session 2 is waiting; the round answers it.\<close>

definition hello_slot :: loopback_slot where
  "hello_slot = \<lparr>slot_len = 24,
     slot_data = [0x80, 0, 0, 0, 0, 1, 16, 0, 0x58, 0x52, 0x43, 0x45, 1, 0, 1, 15, 9, 8, 7, 6, 0x81, 0, 0, 2]\<rparr>"

definition hello_broker :: "sim_world broker" where
  "hello_broker = (broker_start_pinned sim_env (broker_boot (no_messages, \<lparr>rx = [], tx = [], clock = 0\<rparr>)))
     \<lparr>world := (set_queue (Rmw_to_broker 2) [hello_slot] no_messages, \<lparr>rx = [], tx = [], clock = 0\<rparr>)\<rparr>"

lemma hello_reachable: "broker_reachable sim_env hello_broker"
  unfolding hello_broker_def by (rule broker_reachable.step [OF sim_reachable broker_step.environment])

lemma broker_round_returns_witness:
  "\<exists>w B'. loopback_broker_recv_any (queue_api sim_env) K_FOREVER \<lparr>slot_len = 0, slot_data = []\<rparr> 0 (world hello_broker) =
      (0, hello_slot, 2, w) \<and>
    broker_thread_round 7 sim_env hello_broker = Some B' \<and> broker_reachable sim_env B'"
proof -
  have "sim_contents (world hello_broker) (Rmw_to_broker 2) = [hello_slot]"
    "\<forall>j < 2. sim_contents (world hello_broker) (Rmw_to_broker j) = []"
    by (simp_all add: hello_broker_def sim_contents_def contents_set_queue loopback_consts)
  from msgq.recv_any_first [OF sim.broker_sys_axioms [unfolded broker_sys_def, THEN conjunct2, THEN conjunct1] _ this, of K_FOREVER
      "\<lparr>slot_len = 0, slot_data = []\<rparr>" 0] obtain w where
    r: "loopback_broker_recv_any (queue_api sim_env) K_FOREVER \<lparr>slot_len = 0, slot_data = []\<rparr> 0 (world hello_broker) =
      (0, hello_slot, 2, w)" by (auto simp: loopback_consts)
  from broker_round_returns [OF sim.cdr.ucdr_axioms hello_reachable r] show ?thesis
    using r by (auto simp: hello_slot_def)
qed

end
