(* ===== verification/Broker_Parse.thy ===== *)
theory Broker_Parse
  imports Broker_Safety
begin

text \<open>
  What the broker's parsing functions return on well-formed input. \<open>src C ok b p bs\<close>
  says that the buffer \<open>b\<close> is error-free, stands at offset \<open>p\<close> and has exactly the
  bytes \<open>bs\<close> ahead; each lemma turns such a fact into the next one.
\<close>

definition src :: "'b ucdr_api \<Rightarrow> ('b \<Rightarrow> bool) \<Rightarrow> 'b \<Rightarrow> nat \<Rightarrow> u8 list \<Rightarrow> bool" where
  "src C ok b p bs \<longleftrightarrow> ok b \<and> ucdr_buffer_length C b = p \<and> from_iterator C b = bs"

context ucdr begin

lemma src_init: "src C ok (ucdr_init_buffer C m) 0 m"
  using init [of m] by (simp add: src_def from_iterator_def)

lemma src_reads:
  assumes "src C ok b p (fill @ xs @ bs)" and "length fill = pad_to al p" and "length xs = n"
    and "reads C ok n al b r ys b'"
  shows "r \<and> ys = xs \<and> src C ok b' (p + pad_to al p + n) bs"
proof -
  have m: "drop p (ucdr_mem C b) = fill @ xs @ bs" "ok b" "ucdr_buffer_length C b = p" "p \<le> length (ucdr_mem C b)"
    using assms(1) within [of b] by (auto simp: src_def from_iterator_def)
  have len: "length (ucdr_mem C b) = p + (length fill + (n + length bs))"
    using arg_cong [OF m(1), of length] m(4) assms(3) by simp
  have fits: "p + pad_to al p + n \<le> length (ucdr_mem C b)" using len assms(2) by simp
  have r: "r" "ok b'" "ucdr_mem C b' = ucdr_mem C b" "ucdr_buffer_length C b' = p + pad_to al p + n"
    "ys = take n (drop (p + pad_to al p) (ucdr_mem C b))"
    using assms(4) m fits by (auto simp: reads_def Let_def)
  have d: "drop (pad_to al p + p) (ucdr_mem C b) = xs @ bs"
    using m(1) assms(2) by (simp add: drop_drop [symmetric] del: drop_drop)
  have "drop (n + (pad_to al p + p)) (ucdr_mem C b) = bs"
    using d assms(3) by (simp add: drop_drop [symmetric] del: drop_drop)
  with r d assms(3) show ?thesis by (simp add: src_def from_iterator_def add.commute add.left_commute)
qed

lemma src_remaining: "src C ok b p bs \<Longrightarrow> ucdr_buffer_remaining C b = length bs"
  using remaining [of b] by (auto simp: src_def from_iterator_def)

lemma src_de8:
  assumes "src C ok b p (x # bs)"
  obtains b' where "ucdr_deserialize_uint8_t C b v = (True, x, b')" "src C ok b' (Suc p) bs"
proof -
  obtain r v' b' where d: "ucdr_deserialize_uint8_t C b v = (r, v', b')" by (metis prod.exhaust)
  from src_reads [of b p "[]" "[x]" bs 1 1, OF _ _ _ de8 [OF d]] assms
  have "r \<and> v' = x \<and> src C ok b' (Suc p) bs" by (simp add: pad_to_def)
  with d that show thesis by simp
qed

lemma src_arr:
  assumes "src C ok b p (xs @ bs)" and "length xs = n"
  obtains b' where "ucdr_deserialize_array_uint8_t C n b vs = (True, xs, b')" "src C ok b' (p + n) bs"
proof -
  obtain r v' b' where d: "ucdr_deserialize_array_uint8_t C n b vs = (r, v', b')" by (metis prod.exhaust)
  from src_reads [of b p "[]" xs bs 1 n, OF _ _ _ de_arr [OF d]] assms
  have "r \<and> v' = xs \<and> src C ok b' (p + n) bs" by (simp add: pad_to_def)
  with d that show thesis by simp
qed

lemma src_de16:
  assumes "src C ok b p (x # y # bs)" and "even p"
  obtains b' where "ucdr_deserialize_endian_uint16_t C e b v = (True, dec16 e x y, b')"
    "src C ok b' (p + 2) bs"
proof -
  obtain r v' b' where d: "ucdr_deserialize_endian_uint16_t C e b v = (r, v', b')" by (metis prod.exhaust)
  from de16 [OF d] obtain x' y' where rd: "reads C ok 2 2 b r [x', y'] b'" "r \<longrightarrow> v' = dec16 e x' y'" by blast
  from src_reads [of b p "[]" "[x, y]" bs 2 2, OF _ _ _ rd(1)] assms
  have "r \<and> x' = x \<and> y' = y \<and> src C ok b' (p + 2) bs" by (simp add: pad_to_2_even)
  with d rd(2) that show thesis by simp
qed

lemma src_de32:
  assumes "src C ok b p (fill @ enc32 d @ bs)" and "length fill = pad_to 4 p"
  obtains b' where "ucdr_deserialize_uint32_t C b v = (True, d, b')" "src C ok b' (p + pad_to 4 p + 4) bs"
proof -
  obtain r v' b' where g: "ucdr_deserialize_uint32_t C b v = (r, v', b')" by (metis prod.exhaust)
  from de32 [OF g] obtain xs where rd: "reads C ok 4 4 b r xs b'" "r \<longrightarrow> v' = dec32 xs" by blast
  from src_reads [OF assms _ rd(1)] have "r \<and> xs = enc32 d \<and> src C ok b' (p + pad_to 4 p + 4) bs"
    by simp
  with g rd(2) that show thesis by simp
qed

lemma src_skip:
  assumes "src C ok b p (xs @ bs)"
  obtains b' where "skip_bytes C (length xs) b = (True, b')" "src C ok b' (p + length xs) bs"
  using assms
proof (induction xs arbitrary: b p thesis)
  case (Cons x xs)
  from Cons.prems(2) obtain b1 where d: "ucdr_deserialize_uint8_t C b 0 = (True, x, b1)"
    and s: "src C ok b1 (Suc p) (xs @ bs)" by (metis append_Cons src_de8)
  from Cons.IH [OF _ s] obtain b' where "skip_bytes C (length xs) b1 = (True, b')"
    "src C ok b' (Suc p + length xs) bs" by metis
  with d Cons.prems(1) show ?case by simp
qed simp

lemma src_base_request:
  assumes "src C ok b p (x # y # o1 # o2 # bs)" and "even p"
  obtains b' where "read_base_request C b = (\<lparr>br_request_id = mk16 x y, br_object_id = (o1, o2)\<rparr>, b')"
    "src C ok b' (p + 4) bs"
proof -
  from assms obtain b1 where 1: "ucdr_deserialize_endian_uint16_t C UCDR_BIG_ENDIANNESS b 0 = (True, mk16 x y, b1)"
    "src C ok b1 (p + 2) ([o1, o2] @ bs)" by (metis src_de16 dec16.simps(1) append_Cons append_Nil)
  from 1(2) obtain b2 where 2: "ucdr_deserialize_array_uint8_t C 2 b1 [0, 0] = (True, [o1, o2], b2)"
    "src C ok b2 (p + 2 + 2) bs" by (rule src_arr [where n = 2 and vs = "[0, 0]"]) simp_all
  have "src C ok b2 (p + 4) bs" using 2(2) by (simp add: numeral_eq_Suc)
  with 1(1) 2(1) show thesis by (intro that [of b2]) (simp_all add: read_base_request_def)
qed

lemma src_open_binary:
  assumes "src C ok b p (0x03 # fill @ enc32 n @ blob @ bs)" and "length fill = pad_to 4 (Suc p)"
    and "length blob = unat n"
  obtains b' where "open_binary_repr C b = (Some (ucdr_init_buffer C blob), b')"
    "src C ok b' (Suc p + pad_to 4 (Suc p) + 4 + length blob) bs"
proof -
  from assms(1) obtain b1 where 1: "ucdr_deserialize_uint8_t C b 0 = (True, 0x03, b1)"
    "src C ok b1 (Suc p) (fill @ enc32 n @ blob @ bs)" by (rule src_de8)
  from 1(2) assms(2) obtain b2 where 2: "ucdr_deserialize_uint32_t C b1 0 = (True, n, b2)"
    "src C ok b2 (Suc p + pad_to 4 (Suc p) + 4) (blob @ bs)" by (rule src_de32)
  from 2(2) obtain b3 where 3: "skip_bytes C (length blob) b2 = (True, b3)"
    "src C ok b3 (Suc p + pad_to 4 (Suc p) + 4 + length blob) bs" by (rule src_skip)
  have "take (unat n) (from_iterator C b2) = blob" "ucdr_buffer_remaining C b2 = length blob + length bs"
    using 2(2) src_remaining [OF 2(2)] assms(3) by (simp_all add: src_def)
  with 1(1) 2(1) 3 assms(3) show thesis
    by (intro that [of b3]) (simp_all add: open_binary_repr_def Let_def)
qed

text \<open>The string loop stores the first \<open>copy\<close> bytes and reads past the others.\<close>

lemma src_string_loop:
  assumes "src C ok b p (xs @ bs)" and "copy \<le> length dst" and "length xs = n"
    and "take (min (length ys) copy) dst = take copy ys"
  obtains dst' :: "u8 list" and b' where
    "cdr_string_loop C n (length ys) copy dst b = (True, dst', b')"
    "length dst' = length dst" "take (min (length ys + n) copy) dst' = take copy (ys @ xs)"
    "src C ok b' (p + n) bs"
  using assms
proof (induction n arbitrary: thesis b p xs dst ys)
  case (Suc n)
  from Suc.prems(4) obtain x xs' where xs: "xs = x # xs'" "length xs' = n"
    by (auto simp: length_Suc_conv)
  from Suc.prems(2) xs obtain b1 where d: "ucdr_deserialize_uint8_t C b 0 = (True, x, b1)"
    and s: "src C ok b1 (Suc p) (xs' @ bs)" by (metis append_Cons src_de8)
  let ?dst = "if length ys < copy then dst[length ys := x] else dst"
  have t: "take (min (length (ys @ [x])) copy) ?dst = take copy (ys @ [x])"
  proof (cases "length ys < copy")
    case True
    with Suc.prems(3,5) show ?thesis
      by (simp add: take_update_swap take_Suc_conv_app_nth min_def)
  next
    case False
    with Suc.prems(5) show ?thesis by simp
  qed
  have c: "copy \<le> length ?dst" using Suc.prems(3) by simp
  from Suc.IH [OF _ s c xs(2) t] obtain dst' b' where
    "cdr_string_loop C n (length (ys @ [x])) copy ?dst b1 = (True, dst', b')"
    "length dst' = length ?dst" "take (min (length (ys @ [x]) + n) copy) dst' = take copy ((ys @ [x]) @ xs')"
    "src C ok b' (Suc p + n) bs" by metis
  with d xs Suc.prems(1) [of dst' b'] show ?case by simp
qed simp

text \<open>A string with its NUL, truncated to the size of the destination.\<close>

lemma src_cdr_string:
  assumes "src C ok b 0 (enc32 (word_of_nat (length s + 1)) @ s @ [0])" and "0 \<notin> set s"
    and "length dst = N" and "0 < N" and "length s + 1 < 2 ^ 32"
  obtains dst' b' where "read_cdr_string C b dst N = (True, dst', b')"
    "length dst' = N" "cstr dst' = take (N - 1) s"
proof -
  let ?copy = "if length s < N - 1 then length s else N - 1"
  define l :: u32 where "l = word_of_nat (length s + 1)"
  from src_de32 [of b 0 "[]" l "s @ [0]"] assms(1) obtain b1 where
    1: "ucdr_deserialize_uint32_t C b 0 = (True, l, b1)"
    "src C ok b1 4 ((s @ [0]) @ [])" by (auto simp: pad_to_def l_def)
  have len: "unat l = length s + 1"
    unfolding l_def
    using assms(5) by (intro of_nat_inverse [OF refl]) simp
  have c: "?copy \<le> length dst" using assms(3,4) by auto
  obtain dst' b' where
    2: "cdr_string_loop C (length s + 1) 0 ?copy dst b1 = (True, dst', b')"
    "length dst' = length dst" "take (min (length s + 1) ?copy) dst' = take ?copy (s @ [0])"
    by (rule src_string_loop [OF 1(2) c, where n = "length s + 1" and ys = "[]", unfolded list.size(3)
          append_Nil add_0]) simp_all
  have "take ?copy dst' = take (N - 1) s"
    using 2(3) by (simp add: min_def split: if_splits)
  moreover have "dst'[?copy := 0] = take ?copy dst' @ 0 # drop (Suc ?copy) dst'"
    using 2(2) assms(3,4) by (intro upd_conv_take_nth_drop) auto
  moreover have "0 \<notin> set (take (N - 1) s)" using assms(2) by (meson in_set_takeD)
  ultimately have "cstr (dst'[?copy := 0]) = take (N - 1) s" by (simp only: cstr_append_nul not_False_eq_True)
  moreover have "read_cdr_string C b dst N = (True, dst'[?copy := 0], b')"
  proof -
    have "\<not> (length s + 1 = 0 \<or> ucdr_buffer_remaining C b1 < length s + 1)"
      using src_remaining [OF 1(2)] by simp
    then show ?thesis
      by (simp only: read_cdr_string_def Let_def len 1(1) 2(1) prod.case if_False not_True_eq_False
          add_diff_cancel_right')
  qed
  moreover have "length (dst'[?copy := 0]) = N" using 2(2) assms(3) by simp
  ultimately show thesis by (rule that [rotated -1])
qed

end

end
