(* ===== verification/Broker_Protocol.thy ===== *)
theory Broker_Protocol
  imports Broker_Parse Broker_Run
begin

text \<open>
  What the broker does for its clients, as properties of its handlers: registration of
  topics and endpoints, the fan-out of samples to the subscribers of a topic, the
  acknowledgement of reliable streams, and the isolation of sessions from each other.
  Message contents are given by the bytes on the wire.
\<close>

section \<open>CREATE\<close>

text \<open>
  The body of a CREATE submessage with a binary representation; \<open>x\<close> and \<open>y\<close> are
  the bytes of the alignment hole before the 32-bit size.
\<close>

definition create_bytes :: "u16 \<Rightarrow> object_id \<Rightarrow> u8 \<Rightarrow> u8 \<Rightarrow> u8 \<Rightarrow> u8 list \<Rightarrow> u8 list" where
  "create_bytes rid oid kind x y blob =
     [hi8 rid, lo8 rid, fst oid, snd oid, kind, 0x03, x, y] @ enc32 (word_of_nat (length blob)) @ blob"

definition topic_blob :: "u8 list \<Rightarrow> u8 list" where
  "topic_blob name = enc32 (word_of_nat (length name + 1)) @ name @ [0]"

lemma mk16_hi_lo: "mk16 (hi8 v) (lo8 v) = v"
  by simp

context ucdr begin

lemma create_prefix:
  assumes "src C ok ub p (create_bytes rid oid kind x y blob @ rest)" and "p mod 4 = 0"
    and "length blob < 2 ^ 32"
  obtains ub1 ub2 ub3 where
    "read_base_request C ub = (\<lparr>br_request_id = rid, br_object_id = oid\<rparr>, ub1)"
    "ucdr_deserialize_uint8_t C ub1 0 = (True, kind, ub2)"
    "open_binary_repr C ub2 = (Some (ucdr_init_buffer C blob), ub3)"
    "src C ok ub3 (p + 12 + length blob) rest"
proof -
  have even: "even p" using assms(2) by presburger
  from assms(1) have "src C ok ub p (hi8 rid # lo8 rid # fst oid # snd oid #
      (kind # 0x03 # [x, y] @ enc32 (word_of_nat (length blob)) @ blob @ rest))"
    by (simp add: create_bytes_def)
  from src_base_request [OF this even] obtain ub1 where
    1: "read_base_request C ub = (\<lparr>br_request_id = mk16 (hi8 rid) (lo8 rid), br_object_id = (fst oid, snd oid)\<rparr>, ub1)"
    "src C ok ub1 (p + 4) (kind # 0x03 # [x, y] @ enc32 (word_of_nat (length blob)) @ blob @ rest)" .
  from 1(2) obtain ub2 where 2: "ucdr_deserialize_uint8_t C ub1 0 = (True, kind, ub2)"
    "src C ok ub2 (Suc (p + 4)) (0x03 # [x, y] @ enc32 (word_of_nat (length blob)) @ blob @ rest)"
    by (rule src_de8)
  have "(p + 6) mod 4 = 2" using assms(2) by presburger
  then have pad: "pad_to 4 (Suc (Suc (p + 4))) = 2" by (simp add: pad_to_def add.commute)
  have f: "length [x, y] = pad_to 4 (Suc (Suc (p + 4)))" unfolding pad by simp
  have n: "unat (word_of_nat (length blob) :: u32) = length blob"
    using assms(3) by (intro of_nat_inverse [OF refl]) simp
  obtain ub3 where 3: "open_binary_repr C ub2 = (Some (ucdr_init_buffer C blob), ub3)"
    "src C ok ub3 (Suc (Suc (p + 4)) + pad_to 4 (Suc (Suc (p + 4))) + 4 + length blob) rest"
    by (rule src_open_binary [OF 2(2) f n [symmetric]])
  have "src C ok ub3 (p + 12 + length blob) rest"
    using 3(2) unfolding pad by (simp add: numeral_eq_Suc)
  with 1(1) 2(1) 3(1) show thesis by (intro that [of ub1 ub2 ub3]) simp_all
qed

lemma create_topic_room:
  assumes "cdr_api E = C" and "open_binary_repr C ub = (Some (ucdr_init_buffer C (topic_blob name)), ub')"
    and "0 \<notin> set name" and "length name + 1 < 2 ^ 32" and "broker_inv B"
    and "alloc_topic (topics B) (cur_session_idx B) oid = (Some i, ts)"
  shows "\<exists>t. create_topic E oid ub B = (ub', B\<lparr>topics := ts[i := t]\<rparr>) \<and>
    cstr (t_name t) = take 63 name \<and> (\<exists>buf. t = set_topic_name buf (ts ! i))"
proof -
  have s: "src C ok (ucdr_init_buffer C (topic_blob name)) 0 (enc32 (word_of_nat (length name + 1)) @ name @ [0])"
    using src_init [of "topic_blob name"] by (simp only: topic_blob_def)
  obtain buf b' where 1: "read_cdr_string C (ucdr_init_buffer C (topic_blob name))
      (uninit_bytes E ''name'' MAX_TOPIC_NAME B) MAX_TOPIC_NAME = (True, buf, b')"
    and buf: "cstr buf = take (MAX_TOPIC_NAME - 1) name"
    by (rule src_cdr_string [OF s assms(3) _ _ assms(4), of "uninit_bytes E ''name'' MAX_TOPIC_NAME B" MAX_TOPIC_NAME])
      (simp_all add: MAX_TOPIC_NAME_def)
  have "length (t_name (ts ! i)) = MAX_TOPIC_NAME"
    using register_topic [of "topics B" "cur_session_idx B" oid i ts] assms(5,6)
    by (simp add: broker_inv_def tables_wf_def reply_wf_def)
  then have "cstr (t_name (set_topic_name buf (ts ! i))) = take 63 name"
    using buf by (simp add: set_topic_name_def cstr_strncpy_terminated MAX_TOPIC_NAME_def)
  moreover have "create_topic E oid ub B = (ub', B\<lparr>topics := ts[i := set_topic_name buf (ts ! i)]\<rparr>)"
    by (simp add: create_topic_def assms(1,2,6) 1)
  ultimately show ?thesis by blast
qed

lemma create_endpoint_room:
  assumes "cdr_api E = C" and "open_binary_repr C ub = (Some (ucdr_init_buffer C (fst tid # snd tid # tail)), ub')"
  shows "create_endpoint E oid ub B =
    (if obj_kind oid = OBJK_DATAWRITER then
       (case alloc_ep (datawriters B) MAX_DATAWRITERS (cur_session_idx B) oid of
          (Some i, es) \<Rightarrow> (ub', B\<lparr>datawriters := es[i := (es ! i)\<lparr>e_topic_id := tid\<rparr>]\<rparr>)
        | (None, es) \<Rightarrow> (ub', B))
     else
       (case alloc_ep (datareaders B) MAX_DATAREADERS (cur_session_idx B) oid of
          (Some i, es) \<Rightarrow> (ub', B\<lparr>datareaders := es[i := (es ! i)\<lparr>e_topic_id := tid\<rparr>]\<rparr>)
        | (None, es) \<Rightarrow> (ub', B)))"
proof -
  obtain b' where "ucdr_deserialize_array_uint8_t C 2 (ucdr_init_buffer C (fst tid # snd tid # tail))
      (uninit_bytes E ''topic_id'' 2 B) = (True, [fst tid, snd tid], b')"
    using src_arr [of "ucdr_init_buffer C (fst tid # snd tid # tail)" 0 "[fst tid, snd tid]" tail 2]
      src_init [of "fst tid # snd tid # tail"] by auto
  then show ?thesis by (simp add: create_endpoint_def assms)
qed

end

lemma reply_only_sessions:
  "topics (send_status E rid oid st B) = topics B \<and>
   datawriters (send_status E rid oid st B) = datawriters B \<and>
   datareaders (send_status E rid oid st B) = datareaders B"
  by (simp add: send_status_def queue_reply_def Let_def split: prod.split)

lemma kinds_differ: "OBJK_TOPIC \<noteq> OBJK_DATAWRITER" "OBJK_TOPIC \<noteq> OBJK_DATAREADER"
  "OBJK_DATAWRITER \<noteq> OBJK_DATAREADER"
  by (simp_all add: objk_consts)

lemma alloc_topic_room:
  assumes "find_topic T s oid \<noteq> None \<or> (\<exists>i < MAX_TOPICS. \<not> t_used (T ! i))"
  obtains i ts where "alloc_topic T s oid = (Some i, ts)"
  using assms topics.alloc_cases [of T "(s, oid)" thesis] by force

lemma alloc_ep_room:
  assumes "find_ep T n s oid \<noteq> None \<or> (\<exists>i < n. \<not> e_used (T ! i))"
  obtains i ts where "alloc_ep T n s oid = (Some i, ts)"
  using assms eps.alloc_cases [of T n "(s, oid)" thesis] by force

text \<open>
  C16: CREATE registers a topic. On a well-formed CREATE of a topic, when the object is known
  already or the table has room, the broker's next lookup of that object in that session
  finds an entry with the name from the wire, cut to 63 bytes; every other lookup answers as
  before, every other entry, the datawriters and the datareaders are untouched.
\<close>

theorem create_registers_topic:
  assumes "ucdr (cdr_api E) ok" and "broker_inv B"
    and "src (cdr_api E) ok ub p (create_bytes rid oid kind x y (topic_blob name) @ rest)"
    and "p mod 4 = 0" and "obj_kind oid = OBJK_TOPIC"
    and "0 \<notin> set name" and "length name + 5 < 2 ^ 32"
    and "find_topic (topics B) (cur_session_idx B) oid \<noteq> None \<or> (\<exists>i < MAX_TOPICS. \<not> t_used (topics B ! i))"
  shows "\<exists>i. let B' = snd (handle_create E ub B) in
    find_topic (topics B') (cur_session_idx B) oid = Some i \<and>
    cstr (t_name (topics B' ! i)) = take 63 name \<and>
    (\<forall>s o'. (s, o') \<noteq> (cur_session_idx B, oid) \<longrightarrow> find_topic (topics B') s o' = find_topic (topics B) s o') \<and>
    (\<forall>j. j \<noteq> i \<longrightarrow> topics B' ! j = topics B ! j) \<and>
    datawriters B' = datawriters B \<and> datareaders B' = datareaders B"
proof -
  have "length (topic_blob name) < 2 ^ 32" using assms(7) by (simp add: topic_blob_def)
  from ucdr.create_prefix [OF assms(1,3,4) this] obtain ub1 ub2 ub3 where
    1: "read_base_request (cdr_api E) ub = (\<lparr>br_request_id = rid, br_object_id = oid\<rparr>, ub1)"
    "ucdr_deserialize_uint8_t (cdr_api E) ub1 0 = (True, kind, ub2)"
    "open_binary_repr (cdr_api E) ub2 = (Some (ucdr_init_buffer (cdr_api E) (topic_blob name)), ub3)" by blast
  obtain i ts where al: "alloc_topic (topics B) (cur_session_idx B) oid = (Some i, ts)"
    using alloc_topic_room [OF assms(8)] .
  from ucdr.create_topic_room [OF assms(1) refl 1(3) assms(6) _ assms(2) al] assms(7) obtain t buf where
    t: "create_topic E oid ub2 B = (ub3, B\<lparr>topics := ts[i := t]\<rparr>)" "cstr (t_name t) = take 63 name"
    "t = set_topic_name buf (ts ! i)" by auto
  have "handle_create E ub B = (ub3, send_status E rid oid STATUS_OK (B\<lparr>topics := ts[i := t]\<rparr>))"
    by (simp add: handle_create_def 1(1,2) assms(5) t(1))
  moreover have "find_topic (ts[i := t]) (cur_session_idx B) oid = Some i \<and>
      (\<forall>s o'. (s, o') \<noteq> (cur_session_idx B, oid) \<longrightarrow> find_topic (ts[i := t]) s o' = find_topic (topics B) s o') \<and>
      (\<forall>j. j \<noteq> i \<longrightarrow> ts[i := t] ! j = topics B ! j) \<and> i < length ts"
    using register_topic [of "topics B" "cur_session_idx B" oid i ts buf] al assms(2)
    unfolding t(3) by (simp add: broker_inv_def tables_wf_def reply_wf_def)
  ultimately show ?thesis using t(2)
    by (intro exI [of _ i]) (simp add: reply_only_sessions)
qed

text \<open>A concrete broker after its start, and a buffer that stands at offset 8.\<close>

definition test_broker :: "sim_world broker" where
  "test_broker = broker_start_pinned sim_env (broker_boot (no_messages, \<lparr>rx = [], tx = [], clock = 0\<rparr>))"

definition test_buffer :: "u8 list \<Rightarrow> cdr" where
  "test_buffer bs = Cdr (replicate 8 0) bs False"

lemma test_broker_inv: "broker_inv test_broker"
  unfolding test_broker_def by (rule reachable_inv [OF sim.cdr.ucdr_axioms sim_reachable])

lemma test_src: "src (cdr_api sim_env) (\<lambda>b. \<not> err b) (test_buffer bs) 8 bs"
  by (simp add: test_buffer_def src_def from_iterator_def sim_env_def)

lemma test_broker_free: "\<not> t_used (topics test_broker ! 0)" "\<not> e_used (datareaders test_broker ! 0)"
  "cur_session_idx test_broker = 0"
  by (simp_all add: test_broker_def broker_start_pinned_def broker_boot_def MAX_TOPICS_def
      MAX_DATAREADERS_def zero_topic_def zero_ep_def)

lemma create_registers_topic_witness:
  "\<exists>i. let B' = snd (handle_create sim_env
        (test_buffer (create_bytes 1 (0, 0x12) 2 0 0 (topic_blob [0x72, 0x74]) @ [])) test_broker) in
    find_topic (topics B') (cur_session_idx test_broker) (0, 0x12) = Some i \<and>
    cstr (t_name (topics B' ! i)) = [0x72, 0x74]"
proof -
  have "\<exists>i<MAX_TOPICS. \<not> t_used (topics test_broker ! i)"
    using test_broker_free(1) by (intro exI [of _ 0]) (simp add: MAX_TOPICS_def)
  then show ?thesis
    using create_registers_topic [OF sim.cdr.ucdr_axioms test_broker_inv test_src _ _ _ _ disjI2,
        where rid = 1 and oid = "(0, 0x12)" and kind = 2 and x = 0 and y = 0 and
          name = "[0x72, 0x74]" and rest = "[]"]
    by (auto simp: Let_def obj_kind_def OBJK_TOPIC_def)
qed

text \<open>
  CREATE connects a datareader to its topic. On a well-formed CREATE of a datareader,
  when it is known already or the table has room, the next lookup of that reader in its
  session finds an entry that refers to the topic id from the wire, every other lookup
  answers as before, and the topics, the datawriters and all other readers are untouched.
\<close>

theorem create_registers_reader:
  assumes "ucdr (cdr_api E) ok" and "broker_inv B"
    and "src (cdr_api E) ok ub p (create_bytes rid oid kind x y (fst tid # snd tid # tail) @ rest)"
    and "p mod 4 = 0" and "obj_kind oid = OBJK_DATAREADER" and "length tail + 2 < 2 ^ 32"
    and "find_ep (datareaders B) MAX_DATAREADERS (cur_session_idx B) oid \<noteq> None \<or>
      (\<exists>i < MAX_DATAREADERS. \<not> e_used (datareaders B ! i))"
  shows "\<exists>i. let B' = snd (handle_create E ub B) in
    find_ep (datareaders B') MAX_DATAREADERS (cur_session_idx B) oid = Some i \<and>
    e_topic_id (datareaders B' ! i) = tid \<and>
    (\<forall>s o'. (s, o') \<noteq> (cur_session_idx B, oid) \<longrightarrow>
       find_ep (datareaders B') MAX_DATAREADERS s o' = find_ep (datareaders B) MAX_DATAREADERS s o') \<and>
    (\<forall>j. j \<noteq> i \<longrightarrow> datareaders B' ! j = datareaders B ! j) \<and>
    topics B' = topics B \<and> datawriters B' = datawriters B"
proof -
  have "length (fst tid # snd tid # tail) < 2 ^ 32" using assms(6) by simp
  from ucdr.create_prefix [OF assms(1,3,4) this] obtain ub1 ub2 ub3 where
    1: "read_base_request (cdr_api E) ub = (\<lparr>br_request_id = rid, br_object_id = oid\<rparr>, ub1)"
    "ucdr_deserialize_uint8_t (cdr_api E) ub1 0 = (True, kind, ub2)"
    "open_binary_repr (cdr_api E) ub2 = (Some (ucdr_init_buffer (cdr_api E) (fst tid # snd tid # tail)), ub3)"
    by blast
  obtain i es where al: "alloc_ep (datareaders B) MAX_DATAREADERS (cur_session_idx B) oid = (Some i, es)"
    using alloc_ep_room [OF assms(7)] .
  let ?es = "es[i := (es ! i)\<lparr>e_topic_id := tid\<rparr>]"
  have "create_endpoint E oid ub2 B = (ub3, B\<lparr>datareaders := ?es\<rparr>)"
    using ucdr.create_endpoint_room [OF assms(1) refl 1(3)] al assms(5) kinds_differ by simp
  then have "handle_create E ub B = (ub3, send_status E rid oid STATUS_OK (B\<lparr>datareaders := ?es\<rparr>))"
    using kinds_differ assms(5) by (simp add: handle_create_def 1(1,2))
  moreover have "find_ep ?es MAX_DATAREADERS (cur_session_idx B) oid = Some i \<and>
      (\<forall>s o'. (s, o') \<noteq> (cur_session_idx B, oid) \<longrightarrow>
         find_ep ?es MAX_DATAREADERS s o' = find_ep (datareaders B) MAX_DATAREADERS s o') \<and>
      (\<forall>j. j \<noteq> i \<longrightarrow> ?es ! j = datareaders B ! j) \<and> i < length es"
    using register_ep [of MAX_DATAREADERS "datareaders B" "cur_session_idx B" oid i es tid] al assms(2)
    by (simp add: broker_inv_def tables_wf_def reply_wf_def)
  ultimately show ?thesis by (intro exI [of _ i]) (simp add: reply_only_sessions)
qed

lemma create_registers_reader_witness:
  "\<exists>i. let B' = snd (handle_create sim_env
        (test_buffer (create_bytes 1 (0, 0x16) 6 0 0 [0, 0x12] @ [])) test_broker) in
    find_ep (datareaders B') MAX_DATAREADERS (cur_session_idx test_broker) (0, 0x16) = Some i \<and>
    e_topic_id (datareaders B' ! i) = (0, 0x12)"
proof -
  have "\<exists>i<MAX_DATAREADERS. \<not> e_used (datareaders test_broker ! i)"
    using test_broker_free(2) by (intro exI [of _ 0]) (simp add: MAX_DATAREADERS_def)
  then show ?thesis
    using create_registers_reader [OF sim.cdr.ucdr_axioms test_broker_inv test_src _ _ _ disjI2,
        where rid = 1 and oid = "(0, 0x16)" and kind = 6 and x = 0 and y = 0 and
          tid = "(0, 0x12)" and tail = "[]" and rest = "[]"]
    by (auto simp: Let_def obj_kind_def OBJK_DATAREADER_def)
qed

text \<open>
  A failed registration is reported as a success. CREATE of an unknown topic with every
  slot of the table in use registers nothing, yet the only effect is the same STATUS with
  \<open>STATUS_OK\<close> the client gets after a registration.
\<close>

theorem create_full_reports_ok:
  assumes "ucdr (cdr_api E) ok" and "p mod 4 = 0"
    and "src (cdr_api E) ok ub p (create_bytes rid oid kind x y (topic_blob name) @ rest)"
    and "obj_kind oid = OBJK_TOPIC" and "length name + 5 < 2 ^ 32"
    and "find_topic (topics B) (cur_session_idx B) oid = None" and "\<forall>i < MAX_TOPICS. t_used (topics B ! i)"
  shows "snd (handle_create E ub B) = send_status E rid oid STATUS_OK B \<and>
    find_topic (topics (snd (handle_create E ub B))) (cur_session_idx B) oid = None"
proof -
  have "length (topic_blob name) < 2 ^ 32" using assms(5) by (simp add: topic_blob_def)
  from ucdr.create_prefix [OF assms(1,3,2) this] obtain ub1 ub2 ub3 where
    1: "read_base_request (cdr_api E) ub = (\<lparr>br_request_id = rid, br_object_id = oid\<rparr>, ub1)"
    "ucdr_deserialize_uint8_t (cdr_api E) ub1 0 = (True, kind, ub2)"
    "open_binary_repr (cdr_api E) ub2 = (Some (ucdr_init_buffer (cdr_api E) (topic_blob name)), ub3)" by blast
  have "alloc_topic (topics B) (cur_session_idx B) oid = (None, topics B)"
    using topics.alloc_full [of "topics B" "(cur_session_idx B, oid)"] assms(6,7) by simp
  then have "snd (create_topic E oid ub2 B) = B"
    by (simp add: create_topic_def 1(3) split: prod.split)
  then obtain ub4 where "create_topic E oid ub2 B = (ub4, B)" by (cases "create_topic E oid ub2 B") simp
  then have "snd (handle_create E ub B) = send_status E rid oid STATUS_OK B"
    by (simp add: handle_create_def 1(1,2) assms(4))
  then show ?thesis using assms(6) by (simp add: reply_only_sessions)
qed

definition full_broker :: "sim_world broker" where
  "full_broker = test_broker\<lparr>topics := replicate MAX_TOPICS (zero_topic\<lparr>t_used := True\<rparr>)\<rparr>"

lemma create_full_reports_ok_witness:
  "snd (handle_create sim_env
      (test_buffer (create_bytes 1 (0, 0x12) 2 0 0 (topic_blob [0x72, 0x74]) @ [])) full_broker) =
     send_status sim_env 1 (0, 0x12) STATUS_OK full_broker"
proof -
  have "find_topic (topics full_broker) (cur_session_idx full_broker) (0, 0x12) = None"
    by (simp add: full_broker_def find_topic_key find_upt_None zero_topic_def topic_key_def)
  moreover have "\<forall>i < MAX_TOPICS. t_used (topics full_broker ! i)" by (simp add: full_broker_def)
  ultimately show ?thesis
    using create_full_reports_ok [OF sim.cdr.ucdr_axioms _ test_src, where rid = 1 and oid = "(0, 0x12)"
        and kind = 2 and x = 0 and y = 0 and name = "[0x72, 0x74]" and rest = "[]" and B = full_broker]
    by (simp add: obj_kind_def OBJK_TOPIC_def)
qed

text \<open>
  DELETE deletes nothing. Its only effect is a STATUS with \<open>STATUS_OK\<close>: the topic,
  datawriter or datareader it names is still found afterwards and keeps its slot.
\<close>

theorem delete_keeps_entries:
  assumes "ucdr (cdr_api E) ok" and "even p"
    and "src (cdr_api E) ok ub p (hi8 rid # lo8 rid # fst oid # snd oid # rest)"
  shows "snd (handle_delete E ub B) = send_status E rid oid STATUS_OK B \<and>
    topics (snd (handle_delete E ub B)) = topics B \<and>
    datawriters (snd (handle_delete E ub B)) = datawriters B \<and>
    datareaders (snd (handle_delete E ub B)) = datareaders B"
proof -
  from ucdr.src_base_request [OF assms(1,3,2)]
  obtain ub1 where "read_base_request (cdr_api E) ub = (\<lparr>br_request_id = mk16 (hi8 rid) (lo8 rid),
      br_object_id = (fst oid, snd oid)\<rparr>, ub1)" by blast
  then have "snd (handle_delete E ub B) = send_status E rid oid STATUS_OK B"
    by (simp add: handle_delete_def)
  then show ?thesis by (simp add: reply_only_sessions)
qed

lemma delete_keeps_entries_witness:
  "topics (snd (handle_delete sim_env (test_buffer [0, 5, 0, 0x12]) full_broker)) = topics full_broker"
proof -
  have "hi8 5 = 0" "lo8 5 = 5" by (simp_all add: hi8_def lo8_def)
  then show ?thesis
    using delete_keeps_entries [OF sim.cdr.ucdr_axioms _ test_src, where rid = 5 and oid = "(0, 0x12)"
        and rest = "[]" and B = full_broker] by (simp add: reply_only_sessions)
qed

section \<open>Sessions\<close>

text \<open>
  CREATE_CLIENT opens the session. On a complete request the broker marks the session of
  the current queue active with the client's key and session id, restarts its three sequence
  counters, and answers with STATUS_AGENT under the new id, as the first message of the
  stream; no other session changes.
\<close>

theorem create_client_opens_session:
  assumes "broker_sys E ok contents printed" and "reply_wf B"
    and "src (cdr_api E) ok ub p (cookie @ version @ vendor @ key @ sid # rest)"
    and "length cookie = 4" and "length version = 2" and "length vendor = 2" and "length key = 4"
  shows "\<exists>ub' B'. handle_create_client E ub masked B = (ub', B') \<and>
    src (cdr_api E) ok ub' (p + 13) rest \<and>
    abs_broker contents printed B' =
      post_reply (cur_session_idx B) (header_bytes sid 0 0 key @ status_agent_bytes STATUS_OK)
        ((abs_broker contents printed B)\<lparr>cur_session_id := sid, cur_key := key,
           sessions := (sessions B)[cur_session_idx B := \<lparr>active = True, session_id = sid,
             skey = key, seq_none = 1, seq_be = 0, seq_rel = 0\<rparr>]\<rparr>)"
proof -
  have u: "ucdr (cdr_api E) ok" using assms(1) by (simp add: broker_sys_def)
  let ?C = "cdr_api E"
  from ucdr.src_arr [OF u assms(3,4)] obtain b1 where
    1: "ucdr_deserialize_array_uint8_t ?C 4 ub (uninit_bytes E ''cookie'' 4 B) = (True, cookie, b1)"
    "src ?C ok b1 (p + 4) (version @ vendor @ key @ sid # rest)" by metis
  from ucdr.src_arr [OF u 1(2) assms(5)] obtain b2 where
    2: "ucdr_deserialize_array_uint8_t ?C 2 b1 (uninit_bytes E ''version'' 2 B) = (True, version, b2)"
    "src ?C ok b2 (p + 4 + 2) (vendor @ key @ sid # rest)" by metis
  from ucdr.src_arr [OF u 2(2) assms(6)] obtain b3 where
    3: "ucdr_deserialize_array_uint8_t ?C 2 b2 (uninit_bytes E ''vendor'' 2 B) = (True, vendor, b3)"
    "src ?C ok b3 (p + 4 + 2 + 2) (key @ sid # rest)" by metis
  from ucdr.src_arr [OF u 3(2) assms(7)] obtain b4 where
    4: "ucdr_deserialize_array_uint8_t ?C 4 b3 (uninit_bytes E ''client_key'' 4 B) = (True, key, b4)"
    "src ?C ok b4 (p + 4 + 2 + 2 + 4) (sid # rest)" by metis
  from ucdr.src_de8 [OF u 4(2)] obtain b5 where
    5: "ucdr_deserialize_uint8_t ?C b4 masked = (True, sid, b5)"
    "src ?C ok b5 (Suc (p + 4 + 2 + 2 + 4)) rest" by metis
  let ?i = "cur_session_idx B"
  let ?s = "\<lparr>active = True, session_id = sid, skey = key, seq_none = 0, seq_be = 0, seq_rel = 0\<rparr>"
  let ?B = "B\<lparr>sessions := (sessions B)[?i := ?s], cur_session_id := sid, cur_key := key\<rparr>"
  have i: "?i < LOOPBACK_MAX_SESSIONS" "?i < length (sessions B)"
    using assms(2) by (simp_all add: reply_wf_def sessions_wf_def)
  have "reply_wf ?B" using assms(2,7)
    by (auto simp: reply_wf_def sessions_wf_def dest: set_update_subset_insert [THEN subsetD])
  from broker_sys.send_status_agent_abs [OF assms(1) this, of 0 STATUS_OK]
  have "abs_broker contents printed (send_status_agent E 0 STATUS_OK ?B) =
      spec_status_agent STATUS_OK (abs_broker contents printed ?B)" .
  also have "\<dots> = post_reply ?i (header_bytes sid 0 0 key @ status_agent_bytes STATUS_OK)
        ((abs_broker contents printed B)\<lparr>cur_session_id := sid, cur_key := key,
           sessions := (sessions B)[?i := ?s\<lparr>seq_none := 1\<rparr>]\<rparr>)"
    using i by (simp add: spec_status_agent_def Let_def next_seq_for_def)
  finally have a: "abs_broker contents printed (send_status_agent E 0 STATUS_OK ?B) = \<dots>" .
  have "src ?C ok b5 (p + 13) rest" using 5(2) by (simp add: numeral_eq_Suc)
  moreover have "handle_create_client E ub masked B = (b5, send_status_agent E 0 STATUS_OK ?B)"
    by (simp add: handle_create_client_def 1(1) 2(1) 3(1) 4(1) 5(1))
  ultimately show ?thesis using a by (intro exI conjI) auto
qed

lemma create_client_opens_session_witness:
  "\<exists>ub' B'. handle_create_client sim_env
      (test_buffer ([0x58, 0x52, 0x43, 0x45] @ [1, 0] @ [1, 15] @ [9, 8, 7, 6] @ 0x81 # [])) 0x80 test_broker = (ub', B') \<and>
    src (cdr_api sim_env) (\<lambda>b. \<not> err b) ub' (8 + 13) [] \<and>
    abs_broker sim_contents sim_printed B' =
      post_reply (cur_session_idx test_broker) (header_bytes 0x81 0 0 [9, 8, 7, 6] @ status_agent_bytes STATUS_OK)
        ((abs_broker sim_contents sim_printed test_broker)\<lparr>cur_session_id := 0x81, cur_key := [9, 8, 7, 6],
           sessions := (sessions test_broker)[cur_session_idx test_broker := \<lparr>active = True, session_id = 0x81,
             skey = [9, 8, 7, 6], seq_none = 1, seq_be = 0, seq_rel = 0\<rparr>]\<rparr>)"
  using test_broker_inv
  by (intro create_client_opens_session [OF sim.broker_sys_axioms _ test_src])
    (simp_all add: broker_inv_def)

end
