(* ===== verification/Broker_Fanout.thy ===== *)
theory Broker_Fanout
  imports Broker_Protocol
begin

text \<open>
  WRITE_DATA: the fan-out of a sample to the datareaders of the same topic name in every
  session. The specification is a fold of the one-line DATA specification over the list of
  subscribers, and from it the messages every session receives.
\<close>

section \<open>Specification\<close>

definition topic_name_of :: "'w broker \<Rightarrow> nat \<Rightarrow> object_id \<Rightarrow> u8 list option" where
  "topic_name_of B s tid = map_option (\<lambda>t. cstr (t_name (topics B ! t))) (find_topic (topics B) s tid)"

definition subscribers :: "'w broker \<Rightarrow> u8 list \<Rightarrow> ep_ent list" where
  "subscribers B name =
     filter (\<lambda>dr. e_used dr \<and> topic_name_of B (e_session_idx dr) (e_topic_id dr) = Some name) (datareaders B)"

definition log_bytes :: "'w broker \<Rightarrow> u8 list \<Rightarrow> u8 list \<Rightarrow> u8 list" where
  "log_bytes B name payload =
     (if broker_quiet B \<or> \<not> htif_dev_for_log B then [] else frame (log_record name payload))"

definition print :: "u8 list \<Rightarrow> chan_world broker \<Rightarrow> chan_world broker" where
  "print bs B = B\<lparr>world := (world B)\<lparr>console := console (world B) @ bs\<rparr>\<rparr>"

definition spec_write :: "u8 list \<Rightarrow> u8 list \<Rightarrow> chan_world broker \<Rightarrow> chan_world broker" where
  "spec_write name payload B =
     fold (\<lambda>dr. spec_data (e_session_idx dr) (e_id dr) payload) (subscribers B name)
       (print (log_bytes B name payload) B)"

text \<open>The DATA messages one session gets for its readers, numbered consecutively.\<close>

fun data_stream :: "session_state \<Rightarrow> u8 list \<Rightarrow> ep_ent list \<Rightarrow> u8 list list" where
  "data_stream s payload [] = []"
| "data_stream s payload (dr # drs) =
     data_message s (seq_rel s) (e_id dr) payload # data_stream (s\<lparr>seq_rel := seq_rel s + 1\<rparr>) payload drs"

section \<open>The loop refines the specification\<close>

lemma send_data_frame:
  "topics (send_data E t d payload B) = topics B" "datareaders (send_data E t d payload B) = datareaders B"
  by (simp_all add: send_data_def queue_reply_def Let_def split: prod.split)

lemma send_data_sessions_wf:
  "sessions_wf (sessions B) \<Longrightarrow> sessions_wf (sessions (send_data E t d payload B))"
  using sessions_wf_next [of "sessions B" t "0x80"]
  by (cases "t < LOOPBACK_MAX_SESSIONS")
    (auto simp: send_data_def queue_reply_def Let_def split: prod.split)

lemma fanout_one_eq:
  "fanout_one E name payload i B =
     (let dr = datareaders B ! i in
      if e_used dr \<and> topic_name_of B (e_session_idx dr) (e_topic_id dr) = Some (cstr name)
      then send_data E (e_session_idx dr) (e_id dr) payload B else B)"
  by (auto simp: fanout_one_def Let_def topic_name_of_def split: option.split)

lemma topic_name_of_abs [simp]: "topic_name_of (abs_broker c p B) = topic_name_of B"
  by (intro ext) (simp add: topic_name_of_def)

lemma subscribers_abs [simp]: "subscribers (abs_broker c p B) = subscribers B"
  by (intro ext) (simp add: subscribers_def)

context broker_sys begin

lemma fanout_abs:
  assumes "sessions_wf (sessions B)" and "length payload \<le> LOOPBACK_MTU - 16"
  shows "abs_broker contents printed (fold (fanout_one E name payload) is B) =
    fold (\<lambda>dr. spec_data (e_session_idx dr) (e_id dr) payload)
      (filter (\<lambda>dr. e_used dr \<and> topic_name_of B (e_session_idx dr) (e_topic_id dr) = Some (cstr name))
        (map ((!) (datareaders B)) is))
      (abs_broker contents printed B)"
  using assms(1)
proof (induction "is" arbitrary: B)
  case (Cons i "is")
  let ?dr = "datareaders B ! i"
  let ?B = "fanout_one E name payload i B"
  have "topics ?B = topics B" "datareaders ?B = datareaders B" "sessions_wf (sessions ?B)"
    using Cons.prems send_data_sessions_wf [OF Cons.prems, of E]
    by (simp_all add: fanout_one_eq Let_def send_data_frame)
  moreover from this have "topic_name_of ?B = topic_name_of B"
    by (intro ext) (simp add: topic_name_of_def)
  ultimately show ?case
    using Cons.IH [of ?B] send_data_abs [OF Cons.prems assms(2)]
    by (simp add: fanout_one_eq Let_def)
qed simp

lemma print_abs:
  "abs_world contents printed (fold (uart_poll_out (uart E)) bs w) =
     (abs_world contents printed w)\<lparr>console := printed w @ bs\<rparr>"
proof (induction bs arbitrary: w)
  case (Cons b bs)
  have "channel contents (uart_poll_out (uart E) b w) = channel contents w"
    using uart_out [of b w] by (intro channel_same) simp
  with Cons show ?case using uart_out [of b w] by (simp add: abs_world_def)
qed (simp add: abs_world_def)

lemma log_abs:
  assumes "length (cstr name) \<le> 255"
  shows "abs_broker contents printed (B\<lparr>world := log_topic_emit (uart E) (broker_quiet B)
      (htif_dev_for_log B) name payload (world B)\<rparr>) =
    print (log_bytes B (cstr name) payload) (abs_broker contents printed B)"
proof (cases "broker_quiet B \<or> \<not> htif_dev_for_log B")
  case True
  then show ?thesis
    by (auto simp: log_bytes_def print_def log_topic_emit_def abs_broker_def abs_world_def map_world_def)
next
  case False
  then show ?thesis
    using log_topic_emit_frame [of "broker_quiet B" "htif_dev_for_log B" name "uart E" payload "world B"]
      assms by (simp add: log_bytes_def print_def abs_broker_def print_abs)
      (simp add: abs_world_def)
qed

lemma handle_write_data_abs:
  assumes "broker_inv B" and "src (cdr_api E) ok ub p (hi8 rid # lo8 rid # fst oid # snd oid # payload @ rest)"
    and "even p" and "length payload \<le> LOOPBACK_MTU - 16"
    and "find_ep (datawriters B) MAX_DATAWRITERS (cur_session_idx B) oid = Some dw"
    and "topic_name_of B (cur_session_idx B) (e_topic_id (datawriters B ! dw)) = Some name"
  shows "\<exists>ub' B'. handle_write_data E ub (word_of_nat (length payload + 4)) B = (ub', B') \<and>
    src (cdr_api E) ok ub' (p + 4 + length payload) rest \<and>
    abs_broker contents printed B' = spec_write name payload (abs_broker contents printed B)"
proof -
  let ?C = "cdr_api E"
  from cdr.src_base_request [OF assms(2,3)] obtain ub1 where
    1: "read_base_request ?C ub = (\<lparr>br_request_id = rid, br_object_id = oid\<rparr>, ub1)"
    "src ?C ok ub1 (p + 4) (payload @ rest)" by (metis mk16_hi_lo prod.collapse)
  have len: "unat (word_of_nat (length payload) :: u16) = length payload"
    using assms(4) by (intro of_nat_inverse [OF refl]) (simp add: LOOPBACK_MTU_def)
  have ge: "\<not> (word_of_nat (length payload + 4) :: u16) < 4"
  proof -
    have "unat (word_of_nat (length payload + 4) :: u16) = length payload + 4"
      using assms(4) by (intro of_nat_inverse [OF refl]) (simp add: LOOPBACK_MTU_def)
    then show ?thesis by (simp only: word_less_nat_alt) simp
  qed
  from assms(6) obtain t where t: "find_topic (topics B) (cur_session_idx B) (e_topic_id (datawriters B ! dw)) = Some t"
    "cstr (t_name (topics B ! t)) = name" by (auto simp: topic_name_of_def)
  have "topic_ok (topics B ! t)"
    using t(1) assms(1) by (auto simp: broker_inv_def tables_wf_def find_topic_key find_upt_Some
        topics.unique_keys_def)
  then have "length name \<le> 255"
    using length_cstr_le [of "t_name (topics B ! t)"] t(2) by (simp add: topic_ok_def MAX_TOPIC_NAME_def)
  note lg = log_abs [of "t_name (topics B ! t)", unfolded t(2), OF this, of B payload]
  let ?B = "B\<lparr>world := log_topic_emit (uart E) (broker_quiet B) (htif_dev_for_log B)
      (t_name (topics B ! t)) payload (world B)\<rparr>"
  from cdr.src_skip [OF 1(2)] obtain ub2 where
    2: "skip_bytes ?C (length payload) ub1 = (True, ub2)" "src ?C ok ub2 (p + 4 + length payload) rest" by metis
  have take: "take (length payload) (from_iterator ?C ub1) = payload"
    "\<not> ucdr_buffer_remaining ?C ub1 < length payload"
    using 1(2) cdr.src_remaining [OF 1(2)] by (simp_all add: src_def)
  have sub: "(word_of_nat (length payload + 4) :: u16) - 4 = word_of_nat (length payload)" by simp
  have "handle_write_data E ub (word_of_nat (length payload + 4)) B =
      (ub2, fold (fanout_one E (t_name (topics B ! t)) payload) [0..<MAX_DATAREADERS] ?B)"
    by (simp only: handle_write_data_def 1(1) prod.case ge if_False Let_def sub len take
        base_request.simps assms(5) option.case t(1) 2(1) snd_conv)
  moreover have "length (datareaders B) = MAX_DATAREADERS" "sessions_wf (sessions ?B)"
    using assms(1) by (simp_all add: broker_inv_def tables_wf_def eps.unique_keys_def reply_wf_def)
  then have "map ((!) (datareaders ?B)) [0..<MAX_DATAREADERS] = datareaders B"
    using map_nth [of "datareaders B"] by simp
  moreover have "topic_name_of ?B = topic_name_of B" by (intro ext) (simp add: topic_name_of_def)
  ultimately show ?thesis
    using fanout_abs [OF \<open>sessions_wf (sessions ?B)\<close> assms(4),
        of "t_name (topics B ! t)" "[0..<MAX_DATAREADERS]"] 2(2) lg
    by (simp add: t(2) spec_write_def subscribers_def)
      (simp add: log_bytes_def)
qed

end

section \<open>What the subscribers receive\<close>

lemma spec_data_step:
  assumes "j < LOOPBACK_MAX_SESSIONS" and "length (sessions S) = LOOPBACK_MAX_SESSIONS"
  shows "length (sessions (spec_data i d payload S)) = LOOPBACK_MAX_SESSIONS"
    and "sessions (spec_data i d payload S) ! j =
      (if i = j \<and> active (sessions S ! j) then (sessions S ! j)\<lparr>seq_rel := seq_rel (sessions S ! j) + 1\<rparr>
       else sessions S ! j)"
    and "length (chans (world S) (Broker_to_rmw j)) < LOOPBACK_DEPTH \<or> i \<noteq> j \<Longrightarrow>
      chans (world (spec_data i d payload S)) (Broker_to_rmw j) = chans (world S) (Broker_to_rmw j) @
      (if i = j \<and> active (sessions S ! j)
       then [data_message (sessions S ! j) (seq_rel (sessions S ! j)) d payload] else [])"
  using assms
  by (auto simp: spec_data_def post_reply_def post_def next_seq_for_def STREAM_THRESH_REL_def Let_def
      nth_list_update)

lemma spec_data_fold_channel:
  assumes "j < LOOPBACK_MAX_SESSIONS" and "length (sessions S) = LOOPBACK_MAX_SESSIONS"
    and "length (chans (world S) (Broker_to_rmw j)) +
      length (filter (\<lambda>dr. e_session_idx dr = j) drs) \<le> LOOPBACK_DEPTH"
  shows "chans (world (fold (\<lambda>dr. spec_data (e_session_idx dr) (e_id dr) payload) drs S)) (Broker_to_rmw j) =
    chans (world S) (Broker_to_rmw j) @
    (if active (sessions S ! j)
     then data_stream (sessions S ! j) payload (filter (\<lambda>dr. e_session_idx dr = j) drs) else [])"
  using assms(2,3)
proof (induction drs arbitrary: S)
  case (Cons dr drs)
  let ?i = "e_session_idx dr"
  let ?S = "spec_data ?i (e_id dr) payload S"
  have room: "length (chans (world S) (Broker_to_rmw j)) < LOOPBACK_DEPTH \<or> ?i \<noteq> j"
    using Cons.prems(2) by auto
  note st = spec_data_step [OF assms(1) Cons.prems(1), of ?i "e_id dr" payload]
  have "length (chans (world ?S) (Broker_to_rmw j)) +
      length (filter (\<lambda>dr. e_session_idx dr = j) drs) \<le> LOOPBACK_DEPTH"
    using st(3) [OF room] Cons.prems(2) by (auto split: if_splits)
  from Cons.IH [OF st(1) this] st(2) st(3) [OF room] show ?case by auto
qed simp

text \<open>
  C3: A sample is fanned out to every reader of the topic. For a broker whose tables are
  well-formed and a well-formed WRITE_DATA, at an even offset, from a registered writer with
  a known topic, carrying at most 496 bytes (LOOPBACK_MTU - 16: what fits a slot behind the
  header of a reader whose session has a client key), the concrete handler - parsing, topic
  log, loop over the reader table, serialization of every DATA message and queueing - does
  what the specification says in one fold: it appends the log frame to the console (unless
  quiet) and posts one DATA message, with the unchanged payload, to each used reader whose
  topic has the writer's topic name and whose session is active, in table order, and leaves
  the rest of the message to the next submessage. A sample of 497 to 500 bytes, which only a
  session without a key can send, is not covered. The queues, console and buffers are those
  of any world with the laws of \<open>broker_sys\<close>.
\<close>

theorem write_data_refines_spec:
  assumes "broker_sys E ok contents printed" and "broker_inv B"
    and "src (cdr_api E) ok ub p (hi8 rid # lo8 rid # fst oid # snd oid # payload @ rest)"
    and "even p" and "length payload \<le> LOOPBACK_MTU - 16"
    and "find_ep (datawriters B) MAX_DATAWRITERS (cur_session_idx B) oid = Some dw"
    and "topic_name_of B (cur_session_idx B) (e_topic_id (datawriters B ! dw)) = Some name"
  shows "\<exists>ub' B'. handle_write_data E ub (word_of_nat (length payload + 4)) B = (ub', B') \<and>
    src (cdr_api E) ok ub' (p + 4 + length payload) rest \<and>
    abs_broker contents printed B' = spec_write name payload (abs_broker contents printed B)"
  by (rule broker_sys.handle_write_data_abs [OF assms])

text \<open>
  A broker with the topic \<open>rt\<close> registered by sessions 0 and 1, a writer in session 0 and
  readers in both; both sessions are active.
\<close>

definition pubsub_broker :: "sim_world broker" where
  "pubsub_broker = test_broker\<lparr>
     sessions := map (\<lambda>i. zero_session\<lparr>active := i < 2, session_id := 0x81\<rparr>) [0..<4],
     topics := (topics test_broker)[
       0 := \<lparr>t_used = True, t_session_idx = 0, t_id = (0, 0x12), t_name = 0x72 # 0x74 # replicate 62 0\<rparr>,
       1 := \<lparr>t_used = True, t_session_idx = 1, t_id = (0, 0x22), t_name = 0x72 # 0x74 # replicate 62 0\<rparr>],
     datawriters := (datawriters test_broker)[
       0 := \<lparr>e_used = True, e_session_idx = 0, e_id = (0, 0x15), e_topic_id = (0, 0x12)\<rparr>],
     datareaders := (datareaders test_broker)[
       0 := \<lparr>e_used = True, e_session_idx = 0, e_id = (0, 0x16), e_topic_id = (0, 0x12)\<rparr>,
       1 := \<lparr>e_used = True, e_session_idx = 1, e_id = (0, 0x26), e_topic_id = (0, 0x22)\<rparr>]\<rparr>"

lemma test_tables: "topics test_broker = replicate 8 zero_topic" "datawriters test_broker = replicate 8 zero_ep"
  "datareaders test_broker = replicate 8 zero_ep" "cur_session_idx test_broker = 0"
  "cur_key test_broker = [0, 0, 0, 0]"
  by (simp_all add: test_broker_def broker_start_pinned_def broker_boot_def MAX_TOPICS_def
      MAX_DATAREADERS_def MAX_DATAWRITERS_def)

lemma pubsub_unique:
  "topics.unique_keys (topics pubsub_broker)" "eps.unique_keys MAX_DATAWRITERS (datawriters pubsub_broker)"
  "eps.unique_keys MAX_DATAREADERS (datareaders pubsub_broker)"
  unfolding topics.unique_keys_def eps.unique_keys_def
  by (simp_all add: pubsub_broker_def test_tables MAX_TOPICS_def
      MAX_DATAREADERS_def MAX_DATAWRITERS_def nth_list_update zero_topic_def zero_ep_def
      topic_key_def ep_key_def)

lemma pubsub_inv: "broker_inv pubsub_broker"
proof -
  have "\<forall>t \<in> set (topics pubsub_broker). topic_ok t"
    by (simp add: pubsub_broker_def test_tables topic_ok_def zero_topic_def MAX_TOPIC_NAME_def
        loopback_consts numeral_eq_Suc)
  moreover have "\<forall>e \<in> set (datawriters pubsub_broker) \<union> set (datareaders pubsub_broker). ep_ok e"
    by (simp add: pubsub_broker_def test_tables ep_ok_def zero_ep_def loopback_consts numeral_eq_Suc)
  ultimately show ?thesis
    using pubsub_unique
    by (simp add: broker_inv_def tables_wf_def reply_wf_def)
      (simp add: pubsub_broker_def test_tables sessions_wf_def zero_session_def loopback_consts)
qed

lemma pubsub_lookup:
  "find_ep (datawriters pubsub_broker) MAX_DATAWRITERS (cur_session_idx pubsub_broker) (0, 0x15) = Some 0"
  "topic_name_of pubsub_broker (cur_session_idx pubsub_broker) (e_topic_id (datawriters pubsub_broker ! 0)) = Some [0x72, 0x74]"
  by (simp_all add: pubsub_broker_def test_tables topic_name_of_def find_topic_key find_ep_key
      MAX_TOPICS_def MAX_DATAWRITERS_def upt_rec topic_key_def ep_key_def cstr_def)

lemma write_data_refines_spec_witness:
  "\<exists>ub' B'. handle_write_data sim_env (test_buffer (hi8 1 # lo8 1 # 0 # 0x15 # [42, 43] @ []))
      (word_of_nat (length [42, 43 :: u8] + 4)) pubsub_broker = (ub', B') \<and>
    src (cdr_api sim_env) (\<lambda>b. \<not> err b) ub' (8 + 4 + length [42, 43 :: u8]) [] \<and>
    abs_broker sim_contents sim_printed B' =
      spec_write [0x72, 0x74] [42, 43] (abs_broker sim_contents sim_printed pubsub_broker)"
  by (rule write_data_refines_spec [OF sim.broker_sys_axioms pubsub_inv _ _ _ pubsub_lookup(1)
        pubsub_lookup(2), of _ _ 1])
    (use test_src [of "hi8 1 # lo8 1 # 0 # 0x15 # [42, 43]"] in \<open>simp_all add: LOOPBACK_MTU_def\<close>)

text \<open>
  C7: Every subscribed session receives the sample, once per reader and in order. Under the
  hypotheses of C3 (well-formed tables and message at an even offset, a registered writer
  with a known topic, a sample of at most 496 bytes, a world with the laws of
  \<open>broker_sys\<close>), and when the queue of a session has room for its readers of the topic, then
  after the WRITE_DATA the queue holds, behind what was there, exactly one DATA message per
  reader with the payload as published and consecutive sequence numbers of that session's
  reliable stream; an inactive session, and an active one without a reader of the topic, gets
  nothing.
\<close>

theorem write_data_delivers:
  assumes "broker_sys E ok contents printed" and "broker_inv B"
    and "src (cdr_api E) ok ub p (hi8 rid # lo8 rid # fst oid # snd oid # payload @ rest)"
    and "even p" and "length payload \<le> LOOPBACK_MTU - 16"
    and "find_ep (datawriters B) MAX_DATAWRITERS (cur_session_idx B) oid = Some dw"
    and "topic_name_of B (cur_session_idx B) (e_topic_id (datawriters B ! dw)) = Some name"
    and "j < LOOPBACK_MAX_SESSIONS"
    and "length (contents (world B) (Broker_to_rmw j)) +
      length (filter (\<lambda>dr. e_session_idx dr = j) (subscribers B name)) \<le> LOOPBACK_DEPTH"
  shows "channel contents (world (snd (handle_write_data E ub (word_of_nat (length payload + 4)) B)))
      (Broker_to_rmw j) =
    channel contents (world B) (Broker_to_rmw j) @
    (if active (sessions B ! j)
     then data_stream (sessions B ! j) payload (filter (\<lambda>dr. e_session_idx dr = j) (subscribers B name))
     else [])"
proof -
  obtain ub' B' where h: "handle_write_data E ub (word_of_nat (length payload + 4)) B = (ub', B')"
    and a: "abs_broker contents printed B' = spec_write name payload (abs_broker contents printed B)"
    using broker_sys.handle_write_data_abs [OF assms(1-7)] by blast
  let ?S = "print (log_bytes B name payload) (abs_broker contents printed B)"
  have "chans (world (abs_broker contents printed B')) (Broker_to_rmw j) =
      chans (world (fold (\<lambda>dr. spec_data (e_session_idx dr) (e_id dr) payload) (subscribers B name) ?S))
        (Broker_to_rmw j)"
    by (simp add: a spec_write_def) (simp add: log_bytes_def)
  also have "\<dots> = chans (world ?S) (Broker_to_rmw j) @
      (if active (sessions ?S ! j)
       then data_stream (sessions ?S ! j) payload (filter (\<lambda>dr. e_session_idx dr = j) (subscribers B name)) else [])"
    using assms(2,9) by (intro spec_data_fold_channel [OF assms(8)])
      (simp_all add: print_def abs_world_def channel_def broker_inv_def reply_wf_def sessions_wf_def)
  finally show ?thesis
    unfolding h by (simp add: print_def abs_world_def)
qed

lemma replicate_8: "replicate 8 x = [x, x, x, x, x, x, x, x]"
  by (simp add: numeral_eq_Suc)

lemma pubsub_subscribers: "subscribers pubsub_broker [0x72, 0x74] =
    [\<lparr>e_used = True, e_session_idx = 0, e_id = (0, 0x16), e_topic_id = (0, 0x12)\<rparr>,
     \<lparr>e_used = True, e_session_idx = 1, e_id = (0, 0x26), e_topic_id = (0, 0x22)\<rparr>]"
  by (simp add: pubsub_broker_def test_tables replicate_8 subscribers_def topic_name_of_def
      find_topic_key MAX_TOPICS_def upt_rec topic_key_def zero_ep_def cstr_def)

lemma write_data_delivers_witness:
  "channel sim_contents (world (snd (handle_write_data sim_env
      (test_buffer (hi8 1 # lo8 1 # 0 # 0x15 # [42, 43] @ []))
      (word_of_nat (length [42, 43 :: u8] + 4)) pubsub_broker))) (Broker_to_rmw 1) =
    [data_message (sessions pubsub_broker ! 1) 0 (0, 0x26) [42, 43]]"
proof -
  have w: "sim_contents (world pubsub_broker) q = []" for q
    by (simp add: pubsub_broker_def test_broker_def broker_start_pinned_def broker_boot_def sim_contents_def)
  have s: "active (sessions pubsub_broker ! 1)" "seq_rel (sessions pubsub_broker ! 1) = 0"
    by (simp_all add: pubsub_broker_def zero_session_def)
  show ?thesis
    using write_data_delivers [OF sim.broker_sys_axioms pubsub_inv _ _ _ pubsub_lookup(1)
        pubsub_lookup(2), of "test_buffer (hi8 1 # lo8 1 # 0 # 0x15 # [42, 43] @ [])" 8 1 "[42, 43]" "[]" 1]
      test_src [of "hi8 1 # lo8 1 # 0 # 0x15 # [42, 43]"] w s
    by (simp add: LOOPBACK_MTU_def loopback_consts pubsub_subscribers channel_def)
qed

text \<open>
  Writes without a registered writer go nowhere. WRITE_DATA naming an object that is no
  datawriter of the session, one whose topic is unknown, or one with a length below the
  four bytes of its header changes nothing at all.
\<close>

theorem write_data_unregistered:
  assumes "find_ep (datawriters B) MAX_DATAWRITERS (cur_session_idx B)
      (br_object_id (fst (read_base_request (cdr_api E) ub))) = None \<or>
    (\<exists>dw. find_ep (datawriters B) MAX_DATAWRITERS (cur_session_idx B)
        (br_object_id (fst (read_base_request (cdr_api E) ub))) = Some dw \<and>
      topic_name_of B (cur_session_idx B) (e_topic_id (datawriters B ! dw)) = None) \<or> len < 4"
  shows "snd (handle_write_data E ub len B) = B"
  using assms
  by (auto simp: handle_write_data_def Let_def topic_name_of_def split: prod.split option.splits)

lemma write_data_unregistered_witness:
  "snd (handle_write_data sim_env (test_buffer [0, 1, 0, 0x15, 42]) 5 test_broker) = test_broker"
  by (rule write_data_unregistered)
    (simp add: test_tables find_ep_key find_upt_None MAX_DATAWRITERS_def zero_ep_def)

end
