(* ===== verification/Broker_Sessions.thy ===== *)
theory Broker_Sessions
  imports Broker_Fanout
begin

text \<open>
  Properties of whole messages and of the sessions: the header and the acknowledgement of
  reliable streams, the replies on the wire, the isolation of the sessions from each other
  and the broker after \<open>broker_quiesce\<close>.
\<close>

section \<open>The message header\<close>

definition set_current :: "nat \<Rightarrow> u8 \<Rightarrow> u8 \<Rightarrow> u8 list \<Rightarrow> 'w broker \<Rightarrow> 'w broker" where
  "set_current i sid st key B =
     B\<lparr>cur_session_idx := i, cur_session_id := sid, cur_in_stream_id := st, cur_key := key\<rparr>"

context ucdr begin

lemma process_message_header:
  assumes "cdr_api E = C" and "\<not> broker_quiet B"
    and "slot_bytes msg = header_bytes sid st seq key @ rest" and "length key = 4"
  obtains ub where "process_message fuel E msg i B = submessage_loop fuel E sid ub
      (let B = set_current i sid st (if sid < SESSION_NO_KEY then key else [0, 0, 0, 0]) B
       in if STREAM_THRESH_REL \<le> st then send_acknack E (seq + 1) st B else B)"
    and "src C ok ub (if sid < SESSION_NO_KEY then 8 else 4) rest"
proof -
  have "length (slot_bytes msg) \<ge> 4" using assms(3) by (simp add: header_bytes_def)
  then have len: "\<not> unat (slot_len msg) < HEADER_NO_KEY"
    by (simp add: slot_bytes_def HEADER_NO_KEY_def)
  let ?key = "if sid < SESSION_NO_KEY then key else []"
  have "src C ok (ucdr_init_buffer C (slot_bytes msg)) 0 (sid # st # lo8 seq # hi8 seq # ?key @ rest)"
    using src_init [of "slot_bytes msg"] assms(3) by (simp add: header_bytes_def)
  from src_de8 [OF this] obtain b1 where
    1: "ucdr_deserialize_uint8_t C (ucdr_init_buffer C (slot_bytes msg)) (uninit8 E ''session_id'' 0 (world B)) = (True, sid, b1)"
    "src C ok b1 (Suc 0) (st # lo8 seq # hi8 seq # ?key @ rest)" .
  from src_de8 [OF 1(2), of "uninit8 E ''stream_id'' 0 (world B)"] obtain b2 where
    2: "ucdr_deserialize_uint8_t C b1 (uninit8 E ''stream_id'' 0 (world B)) = (True, st, b2)"
    "src C ok b2 (Suc (Suc 0)) (lo8 seq # hi8 seq # ?key @ rest)" by auto
  from src_de16 [OF 2(2), of UCDR_LITTLE_ENDIANNESS "uninit16 E ''seq_num'' (world B)"] obtain b3 where
    3: "ucdr_deserialize_endian_uint16_t C UCDR_LITTLE_ENDIANNESS b2 (uninit16 E ''seq_num'' (world B)) = (True, seq, b3)"
    and s3: "src C ok b3 (Suc (Suc 0) + 2) (?key @ rest)" by auto
  have 4: "src C ok b3 4 (?key @ rest)" using s3 by (simp add: numeral_eq_Suc)
  show thesis
  proof (cases "sid < SESSION_NO_KEY")
    case True
    with 4 have "src C ok b3 4 (key @ rest)" by simp
    from src_arr [OF this assms(4), of "[0, 0, 0, 0]"] obtain b4 where
      5: "ucdr_deserialize_array_uint8_t C 4 b3 [0, 0, 0, 0] = (True, key, b4)"
      and "src C ok b4 8 rest" by auto
    with True assms(2) len 1(1) 2(1) 3 show thesis
      by (intro that [of b4]) (simp_all add: process_message_def assms(1) slot_bytes_def set_current_def Let_def)
  next
    case False
    with 3 4 assms(2) len 1(1) 2(1) show thesis
      by (intro that [of b3]) (simp_all add: process_message_def assms(1) slot_bytes_def set_current_def Let_def)
  qed
qed

end

context ucdr begin

text \<open>The same for any message that is long enough, with whatever the header yields.\<close>

lemma process_message_start:
  assumes "cdr_api E = C" and "\<not> (broker_quiet B \<or> unat (slot_len msg) < HEADER_NO_KEY)"
  shows "\<exists>ub sid st seq key. length key = 4 \<and> process_message fuel E msg i B = submessage_loop fuel E sid ub
      (let B = set_current i sid st key B
       in if STREAM_THRESH_REL \<le> st then send_acknack E seq st B else B)"
proof -
  let ?ub = "ucdr_init_buffer C (take (unat (slot_len msg)) (slot_data msg))"
  obtain r1 sid b1 where 1: "ucdr_deserialize_uint8_t C ?ub (uninit8 E ''session_id'' 0 (world B)) = (r1, sid, b1)"
    by (metis prod.exhaust)
  obtain r2 st b2 where 2: "ucdr_deserialize_uint8_t C b1 (uninit8 E ''stream_id'' 0 (world B)) = (r2, st, b2)"
    by (metis prod.exhaust)
  obtain r3 seq b3 where 3: "ucdr_deserialize_endian_uint16_t C UCDR_LITTLE_ENDIANNESS b2 (uninit16 E ''seq_num'' (world B)) =
      (r3, seq, b3)" by (metis prod.exhaust)
  obtain r4 k b4 where 4: "ucdr_deserialize_array_uint8_t C 4 b3 [0, 0, 0, 0] = (r4, k, b4)"
    by (metis prod.exhaust)
  define key where "key = (if sid < SESSION_NO_KEY then k else [0, 0, 0, 0])"
  have "length key = 4" using de_arr_length [OF 4] by (simp add: key_def)
  moreover have "process_message fuel E msg i B =
      submessage_loop fuel E sid (if sid < SESSION_NO_KEY then b4 else b3)
      (let B = set_current i sid st key B
       in if STREAM_THRESH_REL \<le> st then send_acknack E (seq + 1) st B else B)"
    using assms(2) by (simp add: process_message_def assms(1) 1 2 3 4 set_current_def key_def Let_def)
  ultimately show ?thesis by blast
qed

end

context broker_sys begin

lemma recv_scan_printed:
  "recv_scan (queue_api E) ev is out idx w = (rc, m, i, w') \<Longrightarrow> printed w' = printed w"
proof (induction "is" arbitrary: out w)
  case (Cons k "is")
  then show ?case
    using get_printed [of "Rmw_to_broker k" K_NO_WAIT out w]
    by (auto split: if_splits prod.splits)
qed simp

lemma recv_any_printed:
  "loopback_broker_recv_any (queue_api E) to out idx w = (rc, m, i, w') \<Longrightarrow> printed w' = printed w"
  using poll_printed [of "map Rmw_to_broker [0..<LOOPBACK_MAX_SESSIONS]" to w]
  by (auto simp: loopback_broker_recv_any_def split: if_splits prod.splits dest!: recv_scan_printed)

end

lemma set_current_wf:
  assumes "broker_inv B" and "i < LOOPBACK_MAX_SESSIONS" and "length key = 4"
  shows "broker_inv (set_current i sid st key B)"
  using assms by (simp add: set_current_def broker_inv_def reply_wf_def tables_wf_def)

lemma set_current_abs [simp]:
  "abs_broker c p (set_current i sid st key B) = set_current i sid st key (abs_broker c p B)"
  by (simp add: set_current_def)

text \<open>
  C13: Reliable messages are acknowledged before anything else. For a message with a complete
  header on a stream from 128 up, the first thing the broker does is post an ACKNACK for the
  next sequence number (which wraps to 0 after 65535) to the session the message came from,
  under the message's session id and key; then it processes the submessages. On the other
  streams nothing is posted. In both cases the submessage loop starts right behind the header.
\<close>

theorem reliable_messages_acknowledged:
  assumes "broker_sys E ok contents printed" and "broker_inv B" and "\<not> broker_quiet B"
    and "i < LOOPBACK_MAX_SESSIONS"
    and "slot_bytes msg = header_bytes sid st seq key @ rest" and "length key = 4"
  shows "\<exists>ub B'. process_message fuel E msg i B = submessage_loop fuel E sid ub B' \<and>
    src (cdr_api E) ok ub (if sid < SESSION_NO_KEY then 8 else 4) rest \<and>
    abs_broker contents printed B' =
      (let A = set_current i sid st (if sid < SESSION_NO_KEY then key else [0, 0, 0, 0])
                 (abs_broker contents printed B)
       in if STREAM_THRESH_REL \<le> st then spec_acknack (seq + 1) st A else A)"
proof -
  have u: "ucdr (cdr_api E) ok" using assms(1) by (simp add: broker_sys_def)
  let ?key = "if sid < SESSION_NO_KEY then key else [0, 0, 0, 0]"
  from ucdr.process_message_header [OF u refl assms(3,5,6), of fuel i] obtain ub where
    p: "process_message fuel E msg i B = submessage_loop fuel E sid ub
      (let B = set_current i sid st ?key B
       in if STREAM_THRESH_REL \<le> st then send_acknack E (seq + 1) st B else B)"
    "src (cdr_api E) ok ub (if sid < SESSION_NO_KEY then 8 else 4) rest" by blast
  have "reply_wf (set_current i sid st ?key B)"
    using set_current_wf [OF assms(2,4), of ?key] assms(6) by (simp add: broker_inv_def)
  then have "abs_broker contents printed
      (let B = set_current i sid st ?key B
       in if STREAM_THRESH_REL \<le> st then send_acknack E (seq + 1) st B else B) =
      (let A = set_current i sid st ?key (abs_broker contents printed B)
       in if STREAM_THRESH_REL \<le> st then spec_acknack (seq + 1) st A else A)"
    using broker_sys.send_acknack_abs [OF assms(1)] by (simp add: Let_def)
  with p show ?thesis by blast
qed

definition test_slot :: "u8 list \<Rightarrow> loopback_slot" where
  "test_slot bs = \<lparr>slot_len = word_of_nat (length bs), slot_data = bs\<rparr>"

lemma reliable_messages_acknowledged_witness:
  "\<exists>ub B'. process_message message_fuel sim_env (test_slot (header_bytes 0x81 0x80 0xFFFF [1, 2, 3, 4] @ [])) 2 test_broker =
      submessage_loop message_fuel sim_env 0x81 ub B' \<and>
    src (cdr_api sim_env) (\<lambda>b. \<not> err b) ub (if 0x81 < SESSION_NO_KEY then 8 else 4) [] \<and>
    abs_broker sim_contents sim_printed B' =
      (let A = set_current 2 0x81 0x80 (if 0x81 < SESSION_NO_KEY then [1, 2, 3, 4] else [0, 0, 0, 0])
                 (abs_broker sim_contents sim_printed test_broker)
       in if STREAM_THRESH_REL \<le> 0x80 then spec_acknack (0xFFFF + 1) 0x80 A else A)"
proof (rule reliable_messages_acknowledged [OF sim.broker_sys_axioms test_broker_inv])
  show "\<not> broker_quiet test_broker"
    by (simp add: test_broker_def broker_start_pinned_def broker_boot_def)
  show "slot_bytes (test_slot (header_bytes 0x81 0x80 0xFFFF [1, 2, 3, 4] @ [])) =
      header_bytes 0x81 0x80 0xFFFF [1, 2, 3, 4] @ []"
    by (simp add: slot_bytes_def test_slot_def header_bytes_def SESSION_NO_KEY_def)
qed (simp_all add: loopback_consts)

text \<open>
  A STATUS reply on the wire. When the reply queue has room, \<open>send_status\<close> queues
  exactly the protocol's bytes: header with the sender's session id, the stream of the
  request (128 for the stream 0), the next sequence number of that stream and the key; STATUS
  submessage with the request id in network order, the object id and the status. It bumps
  that stream's counter, modulo 65536, and touches no other queue.
\<close>

theorem status_on_the_wire:
  assumes "broker_sys E ok contents printed" and "reply_wf B"
    and "length (contents (world B) (Broker_to_rmw (cur_session_idx B))) < LOOPBACK_DEPTH"
  shows "channel contents (world (send_status E rid oid st B)) =
      (channel contents (world B))(Broker_to_rmw (cur_session_idx B) :=
         channel contents (world B) (Broker_to_rmw (cur_session_idx B)) @
         [header_bytes (cur_session_id B) (status_stream B)
            (fst (next_seq_for (cur_session_idx B) (status_stream B) (sessions B))) (cur_key B) @
          [SUB_STATUS, 0x01, 6, 0, hi8 rid, lo8 rid, fst oid, snd oid, st, 0]]) \<and>
    sessions (send_status E rid oid st B) =
      snd (next_seq_for (cur_session_idx B) (status_stream B) (sessions B))"
proof -
  obtain seq ss where nx: "next_seq_for (cur_session_idx B) (status_stream B) (sessions B) = (seq, ss)"
    by fastforce
  note a = broker_sys.send_status_abs [OF assms(1,2), of rid oid st]
  from arg_cong [OF a, of "\<lambda>B. chans (world B)"] arg_cong [OF a, of sessions] assms(3) show ?thesis
    by (simp add: spec_status_def nx Let_def post_reply_def post_def abs_world_def channel_def status_bytes_def
        sub_bytes_def oid_bytes_def FLAG_ENDIANNESS_def hi8_def lo8_def)
qed

lemma status_on_the_wire_witness:
  "sessions (send_status sim_env 1 (0, 0x12) STATUS_OK test_broker) =
    snd (next_seq_for (cur_session_idx test_broker) (status_stream test_broker) (sessions test_broker))"
  by (rule status_on_the_wire [OF sim.broker_sys_axioms, THEN conjunct2])
    (use test_broker_inv in \<open>simp_all add: broker_inv_def test_broker_def broker_start_pinned_def
      broker_boot_def sim_contents_def loopback_consts\<close>)

text \<open>
  The INFO reply is one byte longer than it says. Its submessage header announces 11
  bytes, but Micro-CDR aligns the last 16-bit field, so 12 bytes follow the header: one byte
  of whatever the buffer held, then the low and the high byte of the constant 1.
\<close>

theorem info_length_mismatch:
  assumes "broker_sys E ok contents printed" and "reply_wf B"
    and "length (contents (world B) (Broker_to_rmw (cur_session_idx B))) < LOOPBACK_DEPTH"
  shows "\<exists>seq body. channel contents (world (send_info E rid oid B)) (Broker_to_rmw (cur_session_idx B)) =
      channel contents (world B) (Broker_to_rmw (cur_session_idx B)) @
      [header_bytes (cur_session_id B) 0 seq (cur_key B) @ [SUB_INFO, 0x01, 11, 0] @ body] \<and>
    length body = 12"
proof -
  from broker_sys.send_info_abs [OF assms(1,2), of rid oid] obtain f seq ss where
    a: "abs_broker contents printed (send_info E rid oid B) =
      post_reply (cur_session_idx B) (header_bytes (cur_session_id B) 0 seq (cur_key B) @ info_bytes rid oid @ [f, 1, 0])
        ((abs_broker contents printed B)\<lparr>sessions := ss\<rparr>)" by blast
  let ?body = "[hi8 rid, lo8 rid] @ oid_bytes oid @ [STATUS_OK, 0, 0, 1, 0x0D] @ [f, 1, 0]"
  have "length ?body = 12" by simp
  moreover have "header_bytes (cur_session_id B) 0 seq (cur_key B) @ info_bytes rid oid @ [f, 1, 0] =
      header_bytes (cur_session_id B) 0 seq (cur_key B) @ [SUB_INFO, 0x01, 11, 0] @ ?body"
    by (simp add: info_bytes_def sub_bytes_def FLAG_ENDIANNESS_def hi8_def lo8_def)
  moreover from arg_cong [OF a, of "\<lambda>X. chans (world X) (Broker_to_rmw (cur_session_idx B))"] assms(3)
  have "channel contents (world (send_info E rid oid B)) (Broker_to_rmw (cur_session_idx B)) =
      channel contents (world B) (Broker_to_rmw (cur_session_idx B)) @
      [header_bytes (cur_session_id B) 0 seq (cur_key B) @ info_bytes rid oid @ [f, 1, 0]]"
    by (simp add: post_reply_def post_def abs_world_def channel_def)
  ultimately show ?thesis by (intro exI [of _ seq] exI [of _ ?body]) simp
qed

lemma info_length_mismatch_witness:
  "\<exists>seq body. channel sim_contents (world (send_info sim_env 1 (0, 1) test_broker))
      (Broker_to_rmw (cur_session_idx test_broker)) =
    channel sim_contents (world test_broker) (Broker_to_rmw (cur_session_idx test_broker)) @
      [header_bytes (cur_session_id test_broker) 0 seq (cur_key test_broker) @ [SUB_INFO, 0x01, 11, 0] @ body] \<and>
    length body = 12"
  by (rule info_length_mismatch [OF sim.broker_sys_axioms])
    (use test_broker_inv in \<open>simp_all add: broker_inv_def test_broker_def broker_start_pinned_def
      broker_boot_def sim_contents_def loopback_consts\<close>)

section \<open>Isolation of the sessions\<close>

text \<open>
  What a message of the session \<open>i\<close> leaves alone: of every other session the activity, the
  id, the key and all sequence counters but the one of the reliable stream, on which it may
  receive samples, and every registered topic, datawriter and datareader.
\<close>

definition same_session :: "session_state \<Rightarrow> session_state \<Rightarrow> bool" where
  "same_session s s' \<longleftrightarrow> s\<lparr>seq_rel := 0\<rparr> = s'\<lparr>seq_rel := 0\<rparr>"

definition topic_entry :: "topic_ent list \<Rightarrow> nat \<Rightarrow> object_id \<Rightarrow> topic_ent option" where
  "topic_entry T s oid = map_option ((!) T) (find_topic T s oid)"

definition ep_entry :: "nat \<Rightarrow> ep_ent list \<Rightarrow> nat \<Rightarrow> object_id \<Rightarrow> ep_ent option" where
  "ep_entry n T s oid = map_option ((!) T) (find_ep T n s oid)"

definition isolated :: "nat \<Rightarrow> 'w broker \<Rightarrow> 'w broker \<Rightarrow> bool" where
  "isolated i B B' \<longleftrightarrow> (\<forall>j. j \<noteq> i \<longrightarrow>
     same_session (sessions B ! j) (sessions B' ! j) \<and>
     topic_entry (topics B') j = topic_entry (topics B) j \<and>
     ep_entry MAX_DATAWRITERS (datawriters B') j = ep_entry MAX_DATAWRITERS (datawriters B) j \<and>
     ep_entry MAX_DATAREADERS (datareaders B') j = ep_entry MAX_DATAREADERS (datareaders B) j) \<and>
   cur_session_idx B' = cur_session_idx B"

lemma isolated_refl [simp]: "isolated i B B"
  by (simp add: isolated_def same_session_def)

lemma isolated_trans: "isolated i A B \<Longrightarrow> isolated i B C \<Longrightarrow> isolated i A C"
  by (simp add: isolated_def same_session_def)

text \<open>Replies to the current session and samples to any session.\<close>

lemma isolated_sessions:
  assumes "\<forall>j. j \<noteq> i \<longrightarrow> same_session (sessions B ! j) (ss ! j)"
  shows "isolated i B (B\<lparr>sessions := ss\<rparr>)" "isolated i B (B\<lparr>sessions := ss, world := w\<rparr>)"
  using assms by (simp_all add: isolated_def same_session_def)

lemma isolated_world [simp]: "isolated i B (B\<lparr>world := w\<rparr>)"
  by (simp add: isolated_def same_session_def)

lemma next_seq_same:
  assumes "next_seq_for i st ss = (seq, ss')"
  shows "\<forall>j. j \<noteq> i \<longrightarrow> same_session (ss ! j) (ss' ! j)"
    and "st = 0x80 \<Longrightarrow> \<forall>j. same_session (ss ! j) (ss' ! j)"
proof -
  show "\<forall>j. j \<noteq> i \<longrightarrow> same_session (ss ! j) (ss' ! j)"
    using assms by (auto simp: next_seq_for_def Let_def same_session_def split: if_splits)
  assume "st = 0x80"
  with assms have ss': "ss' = ss[i := (ss ! i)\<lparr>seq_rel := seq_rel (ss ! i) + 1\<rparr>]"
    by (auto simp: next_seq_for_def Let_def STREAM_THRESH_REL_def)
  show "\<forall>j. same_session (ss ! j) (ss' ! j)"
    unfolding ss' same_session_def by (cases "i < length ss") (auto simp: nth_list_update list_update_beyond)
qed

lemma replies_isolated:
  assumes "cur_session_idx B = i"
  shows "isolated i B (send_status E rid oid st B)" "isolated i B (send_status_agent E rid st B)"
    "isolated i B (send_info E rid oid B)" "isolated i B (send_acknack E fu strm B)"
  using assms next_seq_same(1) [of i _ "sessions B"]
  by (auto simp: send_status_def send_status_agent_def send_info_def send_acknack_def queue_reply_def
      Let_def isolated_sessions same_session_def split: prod.split)

lemma send_data_isolated: "isolated i B (send_data E t d payload B)"
  using next_seq_same(2) [of t "0x80" "sessions B"]
  by (auto simp: send_data_def queue_reply_def Let_def isolated_sessions split: prod.split)

lemma fanout_isolated: "isolated i B (fold (fanout_one E name payload) is B)"
proof (induction "is" arbitrary: B)
  case (Cons k "is")
  have "isolated i B (fanout_one E name payload k B)"
    by (simp add: fanout_one_eq Let_def send_data_isolated)
  with Cons.IH show ?case by (auto intro: isolated_trans)
qed simp

lemma register_topic_isolated:
  assumes "broker_inv B" and "cur_session_idx B = i"
    and "alloc_topic (topics B) i oid = (Some k, ts)"
  shows "isolated i B (B\<lparr>topics := ts[k := set_topic_name name (ts ! k)]\<rparr>)"
proof -
  let ?ts = "ts[k := set_topic_name name (ts ! k)]"
  have r: "find_topic ?ts i oid = Some k" "\<forall>s o'. (s, o') \<noteq> (i, oid) \<longrightarrow> find_topic ?ts s o' = find_topic (topics B) s o'"
    "\<forall>j. j \<noteq> k \<longrightarrow> ?ts ! j = topics B ! j"
    using register_topic [of "topics B" i oid k ts name] assms
    by (auto simp: broker_inv_def tables_wf_def reply_wf_def)
  have "topic_entry ?ts j o' = topic_entry (topics B) j o'" if "j \<noteq> i" for j o'
  proof (cases "find_topic ?ts j o'")
    case None
    with r(2) [rule_format, of j o'] that show ?thesis by (simp add: topic_entry_def)
  next
    case (Some m)
    with r(1) that have "m \<noteq> k"
      by (auto simp: find_topic_key find_upt_Some)
    with Some r(2) [rule_format, of j o'] r(3) that show ?thesis by (simp add: topic_entry_def)
  qed
  then show ?thesis by (auto simp: isolated_def same_session_def)
qed

lemma register_ep_entry:
  assumes "eps.unique_keys n T" and "\<forall>e \<in> set T. ep_ok e" and "i < LOOPBACK_MAX_SESSIONS"
    and "alloc_ep T n i oid = (Some k, es)" and "j \<noteq> i"
  shows "ep_entry n (es[k := (es ! k)\<lparr>e_topic_id := tid\<rparr>]) j = ep_entry n T j"
proof
  fix o'
  let ?es = "es[k := (es ! k)\<lparr>e_topic_id := tid\<rparr>]"
  have r: "find_ep ?es n i oid = Some k" "\<forall>s o'. (s, o') \<noteq> (i, oid) \<longrightarrow> find_ep ?es n s o' = find_ep T n s o'"
    "\<forall>j. j \<noteq> k \<longrightarrow> ?es ! j = T ! j"
    using register_ep [OF assms(1-4)] by auto
  show "ep_entry n ?es j o' = ep_entry n T j o'"
  proof (cases "find_ep ?es n j o'")
    case None
    with r(2) [rule_format, of j o'] assms(5) show ?thesis by (simp add: ep_entry_def)
  next
    case (Some m)
    with r(1) assms(5) have "m \<noteq> k" by (auto simp: find_ep_key find_upt_Some)
    with Some r(2) [rule_format, of j o'] r(3) assms(5) show ?thesis by (simp add: ep_entry_def)
  qed
qed

lemma create_isolated:
  assumes "broker_inv B" and "cur_session_idx B = i"
  shows "isolated i B (snd (create_topic E oid ub B))" "isolated i B (snd (create_endpoint E oid ub B))"
proof -
  show "isolated i B (snd (create_topic E oid ub B))"
    using register_topic_isolated [OF assms] assms(2)
    by (auto simp: create_topic_def split: option.split prod.split)
  have "isolated i B (B\<lparr>datawriters := es[k := (es ! k)\<lparr>e_topic_id := tid\<rparr>]\<rparr>)"
    if "alloc_ep (datawriters B) MAX_DATAWRITERS i oid = (Some k, es)" for k es tid
    using that assms register_ep_entry [of MAX_DATAWRITERS "datawriters B" i oid k es]
    by (auto simp: isolated_def same_session_def broker_inv_def tables_wf_def reply_wf_def)
  moreover have "isolated i B (B\<lparr>datareaders := es[k := (es ! k)\<lparr>e_topic_id := tid\<rparr>]\<rparr>)"
    if "alloc_ep (datareaders B) MAX_DATAREADERS i oid = (Some k, es)" for k es tid
    using that assms register_ep_entry [of MAX_DATAREADERS "datareaders B" i oid k es]
    by (auto simp: isolated_def same_session_def broker_inv_def tables_wf_def reply_wf_def)
  ultimately show "isolated i B (snd (create_endpoint E oid ub B))"
    using assms(2) by (auto simp: create_endpoint_def Let_def split: option.split prod.split)
qed

context ucdr begin

lemma dispatch_isolated:
  assumes "broker_inv B" and "cdr_api E = C" and "cur_session_idx B = i"
  shows "isolated i B (snd (dispatch E sid sub_id len ub B))"
proof -
  have 1: "isolated i B (snd (handle_create_client E ub sid B))"
  proof -
    have c: "isolated i B (send_status_agent E 0 STATUS_OK
        (B\<lparr>sessions := (sessions B)[i := s], cur_session_id := x, cur_key := k\<rparr>))" for s x k
    proof (rule isolated_trans)
      show "isolated i B (B\<lparr>sessions := (sessions B)[i := s], cur_session_id := x, cur_key := k\<rparr>)"
        using assms(3) by (simp add: isolated_def same_session_def)
      show "isolated i (B\<lparr>sessions := (sessions B)[i := s], cur_session_id := x, cur_key := k\<rparr>)
          (send_status_agent E 0 STATUS_OK
            (B\<lparr>sessions := (sessions B)[i := s], cur_session_id := x, cur_key := k\<rparr>))"
        using assms(3) by (intro replies_isolated) simp
    qed
    show ?thesis
      unfolding handle_create_client_def Let_def using c assms(3) by (simp split: prod.split)
  qed
  have 2: "isolated i B (snd (handle_create E ub B))"
  proof -
    obtain b ub1 where r1: "read_base_request C ub = (b, ub1)" by fastforce
    obtain r k ub2 where r2: "ucdr_deserialize_uint8_t C ub1 0 = (r, k, ub2)" by (metis prod.exhaust)
    let ?res = "if r then
               if obj_kind (br_object_id b) = OBJK_TOPIC then create_topic E (br_object_id b) ub2 B
               else if obj_kind (br_object_id b) = OBJK_DATAWRITER \<or> obj_kind (br_object_id b) = OBJK_DATAREADER
               then create_endpoint E (br_object_id b) ub2 B
               else (ub2, B)
             else (ub2, B)"
    obtain ub3 B3 where res: "?res = (ub3, B3)" by fastforce
    have "isolated i B (snd ?res)" using create_isolated [OF assms(1,3), of E] by simp
    then have i3: "isolated i B B3" by (simp only: res snd_conv)
    then have "cur_session_idx B3 = i" using assms(3) by (simp add: isolated_def)
    then have "isolated i B (send_status E (br_request_id b) (br_object_id b) STATUS_OK B3)"
      using i3 replies_isolated(1) isolated_trans by blast
    then show ?thesis
      by (simp only: handle_create_def assms(2) r1 r2 Let_def res prod.case snd_conv)
  qed
  have 3: "isolated i B (snd (handle_write_data E ub len B))"
    using isolated_trans [OF isolated_world fanout_isolated]
    by (auto simp: handle_write_data_def Let_def split: prod.split option.split)
  have 4: "isolated i B (snd (handle_get_info E ub B))" "isolated i B (snd (handle_delete E ub B))"
    "isolated i B (snd (handle_heartbeat E ub B))"
    using replies_isolated [OF assms(3), where E = E]
    by (simp_all add: handle_get_info_def handle_delete_def handle_heartbeat_def Let_def split: prod.split)
  from 1 2 3 4 show ?thesis unfolding dispatch_def by simp
qed

lemma step_isolated:
  assumes "broker_inv B" and "cdr_api E = C" and "cur_session_idx B = i"
    and "submessage_step E sid ub B = Some (go_on, ub', B')"
  shows "isolated i B B'"
proof -
  have "\<exists>sub_id len ub. B' = snd (dispatch E sid sub_id len ub B)"
    using assms(4) unfolding submessage_step_def Let_def
    by (auto split: prod.splits if_splits) (metis snd_conv)+
  then show ?thesis using dispatch_isolated [OF assms(1-3)] by auto
qed

lemma loop_isolated:
  assumes "broker_inv B" and "cdr_api E = C" and "cur_session_idx B = i"
    and "submessage_loop fuel E sid ub B = Some B'"
  shows "isolated i B B'"
  using assms
proof (induction fuel arbitrary: ub B)
  case (Suc fuel)
  show ?case
  proof (cases "submessage_step E sid ub B")
    case None
    with Suc.prems(4) show ?thesis by (simp split: if_splits)
  next
    case (Some res)
    then obtain go_on ub1 B1 where s: "submessage_step E sid ub B = Some (go_on, ub1, B1)"
      by (cases res) auto
    have i1: "isolated i B B1" by (rule step_isolated [OF Suc.prems(1-3) s])
    then have "cur_session_idx B1 = i" using Suc.prems(3) by (simp add: isolated_def)
    moreover have "broker_inv B1" using submessage_step_safe [OF Suc.prems(1,2) s] by simp
    ultimately have "submessage_loop fuel E sid ub1 B1 = Some B' \<Longrightarrow> isolated i B1 B'"
      using Suc.IH Suc.prems(2) by blast
    with Suc.prems(4) s i1 show ?thesis
      by (auto split: if_splits intro: isolated_trans)
  qed
qed simp

end

lemma process_message_isolated:
  assumes "ucdr (cdr_api E) ok" and "broker_inv B" and "i < LOOPBACK_MAX_SESSIONS"
    and "process_message fuel E msg i B = Some B'"
  shows "B' = B \<or> (\<exists>sid st key. isolated i (set_current i sid st key B) B')"
proof (cases "broker_quiet B \<or> unat (slot_len msg) < HEADER_NO_KEY")
  case True
  with assms(4) show ?thesis by (auto simp: process_message_def split: if_splits)
next
  case False
  then obtain ub sid st seq key where k: "length key = 4"
    and p: "process_message fuel E msg i B = submessage_loop fuel E sid ub
      (let B = set_current i sid st key B
       in if STREAM_THRESH_REL \<le> st then send_acknack E seq st B else B)"
    using ucdr.process_message_start [OF assms(1) refl] by metis
  let ?B0 = "set_current i sid st key B"
  let ?B1 = "if STREAM_THRESH_REL \<le> st then send_acknack E seq st ?B0 else ?B0"
  have inv: "broker_inv ?B1" "cur_session_idx ?B0 = i"
    using set_current_wf [OF assms(2,3) k] by (simp_all add: send_acknack_inv set_current_def)
  have "isolated i ?B0 ?B1" using replies_isolated(4) [OF inv(2), where E = E] by simp
  moreover from this inv(2) have "cur_session_idx ?B1 = i" by (simp add: isolated_def)
  then have "isolated i ?B1 B'"
    using ucdr.loop_isolated [OF assms(1) inv(1) refl] assms(4) p by (simp add: Let_def)
  ultimately show ?thesis using isolated_trans by blast
qed

text \<open>
  C5: A client cannot touch what belongs to the other sessions. Whatever bytes a message of
  session \<open>i\<close> carries, well-formed or not, a broker with well-formed tables finishes it (with
  one turn of the submessage loop per four bytes and one more), and afterwards every other
  session is still as active as before, with the same id, key and counters except that of its
  reliable stream (on which it may have been sent samples), and every topic, datawriter and
  datareader registered by another session is found with the same contents. Any behaviour of
  the serialization library within the laws of the locale \<open>ucdr\<close> and any content of the
  uninitialised locals is allowed.
\<close>

theorem messages_isolated:
  assumes "ucdr (cdr_api E) ok" and "broker_inv B" and "i < LOOPBACK_MAX_SESSIONS" and "j \<noteq> i"
  shows "\<exists>B'. (\<forall>fuel \<ge> unat (slot_len msg) div 4 + 1. process_message fuel E msg i B = Some B') \<and>
    active (sessions B' ! j) = active (sessions B ! j) \<and>
    session_id (sessions B' ! j) = session_id (sessions B ! j) \<and>
    skey (sessions B' ! j) = skey (sessions B ! j) \<and>
    seq_none (sessions B' ! j) = seq_none (sessions B ! j) \<and>
    seq_be (sessions B' ! j) = seq_be (sessions B ! j) \<and>
    topic_entry (topics B') j = topic_entry (topics B) j \<and>
    ep_entry MAX_DATAWRITERS (datawriters B') j = ep_entry MAX_DATAWRITERS (datawriters B) j \<and>
    ep_entry MAX_DATAREADERS (datareaders B') j = ep_entry MAX_DATAREADERS (datareaders B) j"
proof -
  from ucdr.process_message_returns [OF assms(1,2) refl assms(3)] obtain B' where
    B': "\<forall>fuel \<ge> unat (slot_len msg) div 4 + 1. process_message fuel E msg i B = Some B'" by blast
  then have "process_message (unat (slot_len msg) div 4 + 1) E msg i B = Some B'" by blast
  from process_message_isolated [OF assms(1-3) this]
  have "same_session (sessions B ! j) (sessions B' ! j) \<and>
    topic_entry (topics B') j = topic_entry (topics B) j \<and>
    ep_entry MAX_DATAWRITERS (datawriters B') j = ep_entry MAX_DATAWRITERS (datawriters B) j \<and>
    ep_entry MAX_DATAREADERS (datareaders B') j = ep_entry MAX_DATAREADERS (datareaders B) j"
    using assms(4) by (auto simp: isolated_def set_current_def same_session_def)
  moreover from this have "active (sessions B' ! j) = active (sessions B ! j) \<and>
    session_id (sessions B' ! j) = session_id (sessions B ! j) \<and>
    skey (sessions B' ! j) = skey (sessions B ! j) \<and>
    seq_none (sessions B' ! j) = seq_none (sessions B ! j) \<and>
    seq_be (sessions B' ! j) = seq_be (sessions B ! j)"
    by (cases "sessions B ! j"; cases "sessions B' ! j") (simp add: same_session_def)
  ultimately show ?thesis using B' by blast
qed

lemma messages_isolated_witness:
  "\<exists>B'. process_message 4 sim_env (test_slot [0x81, 0x80, 0, 0, 3, 1, 4, 0, 0, 1, 0, 0x22]) 0 pubsub_broker = Some B' \<and>
    topic_entry (topics B') 1 = topic_entry (topics pubsub_broker) 1"
proof -
  have "0 < LOOPBACK_MAX_SESSIONS" by (simp add: loopback_consts)
  from messages_isolated [OF sim.cdr.ucdr_axioms pubsub_inv this, of 1
      "test_slot [0x81, 0x80, 0, 0, 3, 1, 4, 0, 0, 1, 0, 0x22]"]
  show ?thesis by (auto simp: test_slot_def)
qed

section \<open>Shutting down\<close>

text \<open>
  After \<open>broker_quiesce\<close> the broker only drains. A round of the quiesced broker takes the
  oldest message of the lowest session that has one off its queue and drops it: no table,
  session or counter changes, no reply is queued and nothing is printed.
\<close>

theorem quiesced_broker_drops:
  assumes "broker_sys E ok contents printed" and "i < LOOPBACK_MAX_SESSIONS"
    and "contents (world B) (Rmw_to_broker i) = x # xs"
    and "\<forall>j < i. contents (world B) (Rmw_to_broker j) = []"
  shows "\<exists>w. broker_thread_round fuel E (broker_quiesce B) = Some ((broker_quiesce B)\<lparr>world := w\<rparr>) \<and>
    contents w = (contents (world B))(Rmw_to_broker i := xs) \<and> printed w = printed (world B)"
proof -
  have mq: "msgq (queue_api E) contents" using assms(1) by (simp add: broker_sys_def)
  from msgq.recv_any_first [OF mq assms(2-4), of K_FOREVER "\<lparr>slot_len = 0, slot_data = []\<rparr>" 0]
  obtain w where r: "loopback_broker_recv_any (queue_api E) K_FOREVER \<lparr>slot_len = 0, slot_data = []\<rparr> 0 (world B) =
      (0, x, i, w)" "contents w = (contents (world B))(Rmw_to_broker i := xs)" by blast
  have "printed w = printed (world B)"
    using broker_sys.recv_any_printed [OF assms(1) r(1)] .
  with r show ?thesis
    by (intro exI [of _ w]) (simp add: broker_thread_round_def process_message_def broker_quiesce_def)
qed

definition waiting_broker :: "sim_world broker" where
  "waiting_broker = test_broker\<lparr>world := (set_queue (Rmw_to_broker 1) [tslot] no_messages, \<lparr>rx = [], tx = [], clock = 0\<rparr>)\<rparr>"

lemma quiesced_broker_drops_witness:
  "\<exists>w. broker_thread_round 3 sim_env (broker_quiesce waiting_broker) = Some ((broker_quiesce waiting_broker)\<lparr>world := w\<rparr>) \<and>
    sim_contents w = (sim_contents (world waiting_broker))(Rmw_to_broker 1 := []) \<and>
    sim_printed w = sim_printed (world waiting_broker)"
  by (rule quiesced_broker_drops [OF sim.broker_sys_axioms])
    (simp_all add: waiting_broker_def sim_contents_def contents_set_queue loopback_consts)

end
