(* ===== verification/I2c_API.thy ===== *)
theory I2c_API
  imports Prelude
begin

text \<open>
  The I2C bus driver, the GPIO expander chip behind it and the clock, as the board code of
  \<open>samples/riskybird\<close> and \<open>samples/rose_flight_controller\<close> uses them: parameters of
  the model, in the record \<open>i2c_api\<close>. The locale \<open>ads7128_chip\<close> states what the data
  sheet of the ADS7128 promises about its register commands, with \<open>regs\<close> its register
  file; \<open>i2c_clock\<close> what Zephyr promises about time.
\<close>

text \<open>
  \<open>i2c_read n d a\<close> reads \<open>n\<close> bytes from the device \<open>a\<close> into a buffer holding
  \<open>d\<close>; \<open>i2c_write_read a out n d\<close> writes \<open>out\<close> and reads without a stop.
\<close>

record 'w i2c_api =
  i2c_write :: "u8 list \<Rightarrow> u8 \<Rightarrow> 'w \<Rightarrow> int \<times> 'w"
  i2c_read :: "nat \<Rightarrow> u8 list \<Rightarrow> u8 \<Rightarrow> 'w \<Rightarrow> int \<times> u8 list \<times> 'w"
  i2c_write_read :: "u8 \<Rightarrow> u8 list \<Rightarrow> nat \<Rightarrow> u8 list \<Rightarrow> 'w \<Rightarrow> int \<times> u8 list \<times> 'w"
  i2c_is_ready :: "'w \<Rightarrow> bool"
  i2c_msleep :: "int \<Rightarrow> 'w \<Rightarrow> 'w"
  i2c_uptime :: "'w \<Rightarrow> int \<times> 'w"

definition ADS7128_I2C_ADDR :: u8 where "ADS7128_I2C_ADDR = 0x17"
definition ADS7128_CMD_REG_WRITE :: u8 where "ADS7128_CMD_REG_WRITE = 0x08"
definition ADS7128_CMD_REG_READ :: u8 where "ADS7128_CMD_REG_READ = 0x10"

text \<open>
  A register write takes effect when the chip acknowledged it; when the transfer failed it
  may or may not have. A register read is a write of the register address and then a read
  of one byte. No other traffic on the bus touches the registers.
\<close>

locale ads7128_bus =
  fixes I :: "'w i2c_api" and regs :: "'w \<Rightarrow> u8 \<Rightarrow> u8" and sel :: "'w \<Rightarrow> u8"
  assumes chip_write: "i2c_write I [ADS7128_CMD_REG_WRITE, r, v] ADS7128_I2C_ADDR w = (rc, w') \<Longrightarrow>
      regs w' = (regs w)(r := v) \<or> (rc \<noteq> 0 \<and> regs w' = regs w)"
    and chip_select: "i2c_write I [ADS7128_CMD_REG_READ, r] ADS7128_I2C_ADDR w = (rc, w') \<Longrightarrow>
      regs w' = regs w \<and> (rc = 0 \<longrightarrow> sel w' = r)"
    and chip_read: "i2c_read I (Suc 0) d ADS7128_I2C_ADDR w = (rc, d', w') \<Longrightarrow>
      regs w' = regs w \<and> (rc = 0 \<longrightarrow> d' = [regs w (sel w)])"
    and other_write: "a \<noteq> ADS7128_I2C_ADDR \<or> bs = [] \<Longrightarrow> i2c_write I bs a w = (rc, w') \<Longrightarrow> regs w' = regs w"
    and other_write_read: "a \<noteq> ADS7128_I2C_ADDR \<Longrightarrow> i2c_write_read I a bs n d w = (rc, d', w') \<Longrightarrow>
      regs w' = regs w"
    and sleep_regs: "regs (i2c_msleep I ms w) = regs w"
    and uptime_regs: "i2c_uptime I w = (t, w') \<Longrightarrow> regs w' = regs w"

text \<open>A chip on which a write whose transfer failed had no effect.\<close>

locale ads7128_chip = ads7128_bus +
  assumes failed_write: "i2c_write I [ADS7128_CMD_REG_WRITE, r, v] ADS7128_I2C_ADDR w = (rc, w') \<Longrightarrow>
      rc \<noteq> 0 \<Longrightarrow> regs w' = regs w"

locale i2c_clock =
  fixes I :: "'w i2c_api" and now :: "'w \<Rightarrow> int"
  assumes uptime_now: "i2c_uptime I w = (t, w') \<Longrightarrow> t = now w \<and> now w \<le> now w'"
    and sleep_now: "now w + ms \<le> now (i2c_msleep I ms w)"
    and write_now: "i2c_write I bs a w = (rc, w') \<Longrightarrow> now w \<le> now w'"
    and write_read_now: "i2c_write_read I a bs n d w = (rc, d', w') \<Longrightarrow> now w \<le> now w'"

section \<open>A bus on which the laws hold\<close>

text \<open>
  The chip with its register file, a list that says which of the next transfers fail, the
  sensors on the bus as a map from address to their registers, and the uptime.
\<close>

record bus_world =
  chip_regs :: "u8 \<Rightarrow> u8"
  chip_sel :: u8
  fails :: "bool list"
  sensors :: "u8 \<Rightarrow> (u8 list \<Rightarrow> u8) option"
  bus_clock :: int

definition next_fails :: "bus_world \<Rightarrow> bool \<times> bus_world" where
  "next_fails w = (fails w \<noteq> [] \<and> hd (fails w), w\<lparr>fails := tl (fails w)\<rparr>)"

definition sim_write :: "u8 list \<Rightarrow> u8 \<Rightarrow> bus_world \<Rightarrow> int \<times> bus_world" where
  "sim_write bs a w =
     (case next_fails w of (f, w) \<Rightarrow>
        if f then (- EIO, w)
        else if a = ADS7128_I2C_ADDR then
          (if length bs = 3 \<and> bs ! 0 = ADS7128_CMD_REG_WRITE
           then (0, w\<lparr>chip_regs := (chip_regs w)(bs ! 1 := bs ! 2)\<rparr>)
           else if length bs = 2 \<and> bs ! 0 = ADS7128_CMD_REG_READ then (0, w\<lparr>chip_sel := bs ! 1\<rparr>)
           else (0, w))
        else if sensors w a = None then (- EIO, w) else (0, w))"

definition sim_read :: "nat \<Rightarrow> u8 list \<Rightarrow> u8 \<Rightarrow> bus_world \<Rightarrow> int \<times> u8 list \<times> bus_world" where
  "sim_read n d a w =
     (case next_fails w of (f, w) \<Rightarrow>
        if f \<or> a \<noteq> ADS7128_I2C_ADDR then (- EIO, d, w)
        else (0, replicate n (chip_regs w (chip_sel w)), w))"

definition sim_write_read ::
    "u8 \<Rightarrow> u8 list \<Rightarrow> nat \<Rightarrow> u8 list \<Rightarrow> bus_world \<Rightarrow> int \<times> u8 list \<times> bus_world" where
  "sim_write_read a bs n d w =
     (case next_fails w of (f, w) \<Rightarrow>
        case sensors w a of
          None \<Rightarrow> (- EIO, d, w)
        | Some s \<Rightarrow> if f then (- EIO, d, w) else (0, replicate n (s bs), w))"

definition sim_i2c :: "bus_world i2c_api" where
  "sim_i2c = \<lparr>i2c_write = sim_write, i2c_read = sim_read, i2c_write_read = sim_write_read,
     i2c_is_ready = (\<lambda>w. True), i2c_msleep = (\<lambda>n w. w\<lparr>bus_clock := bus_clock w + max 0 n\<rparr>),
     i2c_uptime = (\<lambda>w. (bus_clock w, w))\<rparr>"

lemmas sim_i2c_defs = sim_i2c_def sim_write_def sim_read_def sim_write_read_def next_fails_def

interpretation sim_chip: ads7128_chip sim_i2c chip_regs chip_sel
  by unfold_locales
    (auto simp: sim_i2c_defs ADS7128_CMD_REG_WRITE_def ADS7128_CMD_REG_READ_def EIO_def
      split: if_splits option.splits)

interpretation sim_clock: i2c_clock sim_i2c bus_clock
  by unfold_locales (auto simp: sim_i2c_defs split: if_splits option.splits)

end
