(* ===== verification/Ads7128.thy ===== *)
theory Ads7128
  imports I2c_API
begin

text \<open>
  The GPIO expander drivers: \<open>samples/riskybird/ads7128_test/src/main.c\<close> (the same
  functions are in \<open>sensor_bringup/src/main.c\<close>) and the power-up hook of
  \<open>samples/rose_flight_controller/src/main.cpp\<close>. A register is read and written by
  I2C commands; a channel is configured and driven by read-modify-write of its bit.
\<close>

definition SYSTEM_STATUS_ADDRESS :: u8 where "SYSTEM_STATUS_ADDRESS = 0x00"
definition GENERAL_CFG_ADDRESS :: u8 where "GENERAL_CFG_ADDRESS = 0x01"
definition DATA_CFG_ADDRESS :: u8 where "DATA_CFG_ADDRESS = 0x02"
definition OSR_CFG_ADDRESS :: u8 where "OSR_CFG_ADDRESS = 0x03"
definition OPMODE_CFG_ADDRESS :: u8 where "OPMODE_CFG_ADDRESS = 0x04"
definition PIN_CFG_ADDRESS :: u8 where "PIN_CFG_ADDRESS = 0x05"
definition GPIO_CFG_ADDRESS :: u8 where "GPIO_CFG_ADDRESS = 0x07"
definition GPO_DRIVE_CFG_ADDRESS :: u8 where "GPO_DRIVE_CFG_ADDRESS = 0x09"
definition GPO_VALUE_ADDRESS :: u8 where "GPO_VALUE_ADDRESS = 0x0B"

lemmas ads7128_addresses = PIN_CFG_ADDRESS_def GPIO_CFG_ADDRESS_def GPO_DRIVE_CFG_ADDRESS_def
  GPO_VALUE_ADDRESS_def

section \<open>Registers and channels\<close>

text \<open>The status, the byte behind the out-parameter (\<open>old\<close> when nothing is read), the world.\<close>

definition ads7128_read_reg :: "'w i2c_api \<Rightarrow> u8 \<Rightarrow> u8 \<Rightarrow> 'w \<Rightarrow> int \<times> u8 \<times> 'w" where
  "ads7128_read_reg I reg_addr old w =
     (case i2c_write I [ADS7128_CMD_REG_READ, reg_addr] ADS7128_I2C_ADDR w of (ret, w) \<Rightarrow>
        if ret \<noteq> 0 then (ret, old, w)
        else (case i2c_read I 1 [old] ADS7128_I2C_ADDR w of (ret, d, w) \<Rightarrow> (ret, d ! 0, w)))"

definition ads7128_write_reg :: "'w i2c_api \<Rightarrow> u8 \<Rightarrow> u8 \<Rightarrow> 'w \<Rightarrow> int \<times> 'w" where
  "ads7128_write_reg I reg_addr data w =
     i2c_write I [ADS7128_CMD_REG_WRITE, reg_addr, data] ADS7128_I2C_ADDR w"

text \<open>The mask \<open>1 << channel\<close> as a byte.\<close>

definition channel_bit :: "u8 \<Rightarrow> u8" where
  "channel_bit channel = push_bit (unat channel) 1"

definition ads7128_config_gpio_output :: "'w i2c_api \<Rightarrow> u8 \<Rightarrow> 'w \<Rightarrow> int \<times> 'w" where
  "ads7128_config_gpio_output I channel w =
     (if 7 < channel then (- EINVAL, w)
      else case ads7128_read_reg I PIN_CFG_ADDRESS 0 w of (ret, pin_cfg, w) \<Rightarrow>
      if ret \<noteq> 0 then (ret, w)
      else case ads7128_write_reg I PIN_CFG_ADDRESS (pin_cfg OR channel_bit channel) w of (ret, w) \<Rightarrow>
      if ret \<noteq> 0 then (ret, w)
      else case ads7128_read_reg I GPIO_CFG_ADDRESS 0 w of (ret, gpio_cfg, w) \<Rightarrow>
      if ret \<noteq> 0 then (ret, w)
      else case ads7128_write_reg I GPIO_CFG_ADDRESS (gpio_cfg OR channel_bit channel) w of (ret, w) \<Rightarrow>
      if ret \<noteq> 0 then (ret, w)
      else case ads7128_read_reg I GPO_DRIVE_CFG_ADDRESS 0 w of (ret, gpo_drive_cfg, w) \<Rightarrow>
      if ret \<noteq> 0 then (ret, w)
      else ads7128_write_reg I GPO_DRIVE_CFG_ADDRESS (gpo_drive_cfg OR channel_bit channel) w)"

definition ads7128_write_gpio :: "'w i2c_api \<Rightarrow> u8 \<Rightarrow> u8 \<Rightarrow> 'w \<Rightarrow> int \<times> 'w" where
  "ads7128_write_gpio I channel value w =
     (if 7 < channel then (- EINVAL, w)
      else case ads7128_read_reg I GPO_VALUE_ADDRESS 0 w of (ret, gpo_value, w) \<Rightarrow>
      if ret \<noteq> 0 then (ret, w)
      else ads7128_write_reg I GPO_VALUE_ADDRESS
             (if value \<noteq> 0 then gpo_value OR channel_bit channel
              else gpo_value AND NOT (channel_bit channel)) w)"

definition ads7128_read_gpio :: "'w i2c_api \<Rightarrow> u8 \<Rightarrow> u8 \<Rightarrow> 'w \<Rightarrow> int \<times> u8 \<times> 'w" where
  "ads7128_read_gpio I channel old w =
     (if 7 < channel then (- EINVAL, old, w)
      else case ads7128_read_reg I GPO_VALUE_ADDRESS 0 w of (ret, gpo_value, w) \<Rightarrow>
      if ret \<noteq> 0 then (ret, old, w)
      else (0, drop_bit (unat channel) gpo_value AND 0x01, w))"

section \<open>The connection test\<close>

text \<open>The registers of the tests 2 to 6, read one after the other until one fails.\<close>

definition test_registers :: "u8 list" where
  "test_registers = [GENERAL_CFG_ADDRESS, DATA_CFG_ADDRESS, OSR_CFG_ADDRESS, OPMODE_CFG_ADDRESS,
     PIN_CFG_ADDRESS]"

fun read_tests :: "'w i2c_api \<Rightarrow> u8 list \<Rightarrow> u8 \<Rightarrow> 'w \<Rightarrow> bool \<times> 'w" where
  "read_tests I [] reg_data w = (True, w)"
| "read_tests I (r # rs) reg_data w =
     (case ads7128_read_reg I r reg_data w of (ret, reg_data', w') \<Rightarrow>
        if ret \<noteq> 0 then (False, w') else read_tests I rs reg_data' w')"

text \<open>The debug dump: four reads whose results are only printed.\<close>

definition dump_config :: "'w i2c_api \<Rightarrow> 'w \<Rightarrow> 'w" where
  "dump_config I w =
     fold (\<lambda>r w. snd (snd (ads7128_read_reg I r 0 w)))
       [PIN_CFG_ADDRESS, GPIO_CFG_ADDRESS, GPO_DRIVE_CFG_ADDRESS, GPO_VALUE_ADDRESS] w"

text \<open>\<open>main\<close> up to the toggle loop: the exit status, 0 for reaching the loop.\<close>

definition ads7128_test_setup :: "'w i2c_api \<Rightarrow> 'w \<Rightarrow> int \<times> 'w" where
  "ads7128_test_setup I w =
     (if \<not> i2c_is_ready I w then (1, w)
      else
        let (ret, reg_data, w) = ads7128_read_reg I SYSTEM_STATUS_ADDRESS 0 w;
            w = dump_config I w;
            (ret, w) = i2c_write I [] ADS7128_I2C_ADDR w
        in if ret \<noteq> 0 then (1, w)
           else case read_tests I test_registers reg_data w of (ok, w) \<Rightarrow>
           if \<not> ok then (1, w)
           else case ads7128_config_gpio_output I 1 w of (ret, w) \<Rightarrow>
           if ret \<noteq> 0 then (1, w) else (0, dump_config I w))"

text \<open>A round of the toggle loop: the new \<open>gpio_state\<close>, what was read back, the world.\<close>

definition toggle_round :: "'w i2c_api \<Rightarrow> u8 \<Rightarrow> 'w \<Rightarrow> u8 \<times> u8 option \<times> 'w" where
  "toggle_round I gpio_state w =
     (let gpio_state = (if gpio_state = 0 then 1 else 0) in
      case ads7128_write_gpio I 1 gpio_state w of (ret, w) \<Rightarrow>
      if ret \<noteq> 0 then (gpio_state, None, i2c_msleep I 5000 w)
      else case ads7128_read_gpio I 1 0 w of (ret, read_back, w) \<Rightarrow>
        (gpio_state, if ret = 0 then Some read_back else None, i2c_msleep I 5000 w))"

section \<open>Powering the down-facing sensor\<close>

definition VL53L1X_XSHUT_CH :: u8 where "VL53L1X_XSHUT_CH = 6"

definition ads7128_set_bit :: "'w i2c_api \<Rightarrow> u8 \<Rightarrow> u8 \<Rightarrow> 'w \<Rightarrow> int \<times> 'w" where
  "ads7128_set_bit I reg ch w =
     (case ads7128_read_reg I reg 0 w of (rc, v, w) \<Rightarrow>
        if rc \<noteq> 0 then (rc, w) else ads7128_write_reg I reg (v OR channel_bit ch) w)"

definition ads7128_clr_bit :: "'w i2c_api \<Rightarrow> u8 \<Rightarrow> u8 \<Rightarrow> 'w \<Rightarrow> int \<times> 'w" where
  "ads7128_clr_bit I reg ch w =
     (case ads7128_read_reg I reg 0 w of (rc, v, w) \<Rightarrow>
        if rc \<noteq> 0 then (rc, w) else ads7128_write_reg I reg (v AND NOT (channel_bit ch)) w)"

text \<open>
  The hook runs all its steps even after a failure and always returns 0. The three calls in
  the first expression are evaluated from left to right (C++ leaves the order open).
\<close>

definition board_sensor_init :: "'w i2c_api \<Rightarrow> 'w \<Rightarrow> int \<times> 'w" where
  "board_sensor_init I w =
     (if \<not> i2c_is_ready I w then (0, w)
      else
        let (rc1, w) = ads7128_set_bit I PIN_CFG_ADDRESS VL53L1X_XSHUT_CH w;
            (rc2, w) = ads7128_set_bit I GPIO_CFG_ADDRESS VL53L1X_XSHUT_CH w;
            (rc3, w) = ads7128_set_bit I GPO_DRIVE_CFG_ADDRESS VL53L1X_XSHUT_CH w;
            (rc4, w) = ads7128_clr_bit I GPO_VALUE_ADDRESS VL53L1X_XSHUT_CH w;
            w = i2c_msleep I 5 w;
            (rc5, w) = ads7128_set_bit I GPO_VALUE_ADDRESS VL53L1X_XSHUT_CH w;
            rc = rc1 OR rc2 OR rc3 OR rc4 OR rc5
        in if rc \<noteq> 0 then (0, w) else (0, i2c_msleep I 10 w))"

section \<open>Effect on the registers\<close>

lemma bit_channel_bit: "bit (channel_bit ch) i \<longleftrightarrow> i < 8 \<and> i = unat ch"
  by (auto simp: channel_bit_def bit_simps)

lemma channel_le: "\<not> 7 < (ch :: u8) \<Longrightarrow> unat ch < 8"
  by (simp add: word_less_nat_alt)

text \<open>The driver set one bit in each of a list of registers.\<close>

definition set_in :: "u8 \<Rightarrow> u8 list \<Rightarrow> (u8 \<Rightarrow> u8) \<Rightarrow> u8 \<Rightarrow> u8" where
  "set_in ch rs f = fold (\<lambda>r f. f(r := f r OR channel_bit ch)) rs f"

definition output_registers :: "u8 list" where
  "output_registers = [PIN_CFG_ADDRESS, GPIO_CFG_ADDRESS, GPO_DRIVE_CFG_ADDRESS]"

lemma set_in_simps [simp]:
  "set_in ch [] f = f" "set_in ch (r # rs) f = set_in ch rs (f(r := f r OR channel_bit ch))"
  by (simp_all add: set_in_def)

lemma set_in_bit:
  "distinct rs \<Longrightarrow> bit (set_in ch rs f r) i \<longleftrightarrow> bit (f r) i \<or> (r \<in> set rs \<and> i < 8 \<and> i = unat ch)"
  by (induction rs arbitrary: f) (auto simp: bit_or_iff bit_channel_bit)

lemma distinct_output_registers: "distinct output_registers"
  by (simp add: output_registers_def ads7128_addresses)

context ads7128_bus begin

lemma read_reg_regs:
  assumes "ads7128_read_reg I r old w = (rc, v, w')"
  shows "regs w' = regs w \<and> (rc = 0 \<longrightarrow> v = regs w r)"
  using assms
  by (auto simp: ads7128_read_reg_def split: prod.splits if_splits dest!: chip_select chip_read)

lemma write_reg_any:
  assumes "ads7128_write_reg I r v w = (rc, w')"
  shows "regs w' = (regs w)(r := v) \<or> (rc \<noteq> 0 \<and> regs w' = regs w)"
  using assms chip_write by (simp add: ads7128_write_reg_def)

lemma set_bit_other:
  assumes "ads7128_set_bit I r ch w = (rc, w')" and "r \<noteq> q"
  shows "regs w' q = regs w q"
  using assms unfolding ads7128_set_bit_def
  by (auto split: prod.splits if_splits dest!: read_reg_regs write_reg_any)

end

context ads7128_chip begin

lemma write_reg_regs:
  assumes "ads7128_write_reg I r v w = (rc, w')"
  shows "regs w' = (if rc = 0 then (regs w)(r := v) else regs w)"
  using assms chip_write failed_write unfolding ads7128_write_reg_def by fastforce

lemma set_bit_regs:
  assumes "ads7128_set_bit I r ch w = (rc, w')"
  shows "regs w' = (if rc = 0 then set_in ch [r] (regs w) else regs w)"
  using assms unfolding ads7128_set_bit_def
  by (auto split: prod.splits if_splits dest!: read_reg_regs write_reg_regs)

lemma clr_bit_regs:
  assumes "ads7128_clr_bit I r ch w = (rc, w')"
  shows "regs w' = (if rc = 0 then (regs w)(r := regs w r AND NOT (channel_bit ch)) else regs w)"
  using assms unfolding ads7128_clr_bit_def
  by (auto split: prod.splits if_splits dest!: read_reg_regs write_reg_regs)

end

lemma config_as_set_bits:
  "ads7128_config_gpio_output I ch w =
     (if 7 < ch then (- EINVAL, w)
      else case ads7128_set_bit I PIN_CFG_ADDRESS ch w of (ret, w) \<Rightarrow> if ret \<noteq> 0 then (ret, w)
      else case ads7128_set_bit I GPIO_CFG_ADDRESS ch w of (ret, w) \<Rightarrow> if ret \<noteq> 0 then (ret, w)
      else ads7128_set_bit I GPO_DRIVE_CFG_ADDRESS ch w)"
  by (auto simp: ads7128_config_gpio_output_def ads7128_set_bit_def split: prod.split)

context ads7128_chip begin

lemma config_regs:
  assumes "ads7128_config_gpio_output I ch w = (rc, w')"
  shows "\<exists>n. regs w' = set_in ch (take n output_registers) (regs w) \<and> (if rc = 0 then n = 3 else n < 3)"
proof (cases "7 < ch")
  case True
  with assms show ?thesis by (auto simp: ads7128_config_gpio_output_def EINVAL_def intro: exI [of _ 0])
next
  case False
  obtain rc1 w1 where 1: "ads7128_set_bit I PIN_CFG_ADDRESS ch w = (rc1, w1)" by fastforce
  obtain rc2 w2 where 2: "ads7128_set_bit I GPIO_CFG_ADDRESS ch w1 = (rc2, w2)" by fastforce
  obtain rc3 w3 where 3: "ads7128_set_bit I GPO_DRIVE_CFG_ADDRESS ch w2 = (rc3, w3)" by fastforce
  note r = set_bit_regs [OF 1] set_bit_regs [OF 2] set_bit_regs [OF 3]
  have c: "ads7128_config_gpio_output I ch w =
      (if rc1 \<noteq> 0 then (rc1, w1) else if rc2 \<noteq> 0 then (rc2, w2) else (rc3, w3))"
    using False by (simp add: config_as_set_bits 1 2 3)
  show ?thesis
  proof (cases "rc1 = 0 \<and> rc2 = 0")
    case True
    then show ?thesis
      using c assms r by (cases "rc3 = 0") (auto simp: output_registers_def intro: exI [of _ 3] exI [of _ 2])
  next
    case False
    then show ?thesis
      using c assms r by (cases "rc1 = 0") (auto simp: output_registers_def intro: exI [of _ 0] exI [of _ 1])
  qed
qed

lemma write_gpio_regs:
  assumes "ads7128_write_gpio I ch v w = (rc, w')"
  shows "regs w' = (if rc = 0 then (regs w)(GPO_VALUE_ADDRESS :=
      if v \<noteq> 0 then regs w GPO_VALUE_ADDRESS OR channel_bit ch
      else regs w GPO_VALUE_ADDRESS AND NOT (channel_bit ch)) else regs w)"
  using assms unfolding ads7128_write_gpio_def
  by (auto simp: EINVAL_def split: prod.splits if_splits dest!: read_reg_regs write_reg_regs)

lemma read_gpio_regs:
  assumes "ads7128_read_gpio I ch old w = (rc, v, w')"
  shows "regs w' = regs w \<and> (rc = 0 \<longrightarrow> v = drop_bit (unat ch) (regs w GPO_VALUE_ADDRESS) AND 1)"
  using assms unfolding ads7128_read_gpio_def
  by (auto simp: EINVAL_def split: prod.splits if_splits dest!: read_reg_regs)

end

section \<open>Properties\<close>

text \<open>
  Configuring an output is exact, also when the bus fails half-way. For any pattern of
  failing transfers, \<open>ads7128_config_gpio_output\<close> has set the channel's bit in a prefix of
  the pin, direction and drive registers, in this order, and nothing else: no other bit and
  no other register changes. It returns 0 exactly when all three are done, and refuses
  channels above 7 without any traffic.
\<close>

theorem config_gpio_output_exact:
  assumes "ads7128_chip I regs sel" and "ads7128_config_gpio_output I ch w = (rc, w')"
  shows "\<exists>n. (\<forall>r i. bit (regs w' r) i \<longleftrightarrow>
      bit (regs w r) i \<or> (r \<in> set (take n output_registers) \<and> i = unat ch \<and> i < 8)) \<and>
    (if rc = 0 then n = 3 else n < 3) \<and> (7 < ch \<longrightarrow> rc = - EINVAL \<and> w' = w)"
proof -
  from ads7128_chip.config_regs [OF assms] obtain n where
    n: "regs w' = set_in ch (take n output_registers) (regs w)" "if rc = 0 then n = 3 else n < 3" by blast
  have "7 < ch \<longrightarrow> rc = - EINVAL \<and> w' = w"
  proof
    assume "7 < ch"
    then have "ads7128_config_gpio_output I ch w = (- EINVAL, w)"
      by (simp add: ads7128_config_gpio_output_def)
    with assms(2) show "rc = - EINVAL \<and> w' = w" by simp
  qed
  with n show ?thesis
    using set_in_bit [of "take n output_registers" ch "regs w"] distinct_output_registers
    by (intro exI [of _ n]) auto
qed

definition test_bus :: bus_world where
  "test_bus = \<lparr>chip_regs = (\<lambda>r. 0x41), chip_sel = 0, fails = [False, False, False, True],
     sensors = (\<lambda>a. None), bus_clock = 0\<rparr>"

lemma config_gpio_output_exact_witness:
  "case ads7128_config_gpio_output sim_i2c 3 test_bus of (rc, w') \<Rightarrow>
     \<exists>n. (\<forall>r i. bit (chip_regs w' r) i \<longleftrightarrow>
        bit (chip_regs test_bus r) i \<or> (r \<in> set (take n output_registers) \<and> i = unat (3 :: u8) \<and> i < 8)) \<and>
      (if rc = 0 then n = 3 else n < 3) \<and> (7 < (3 :: u8) \<longrightarrow> rc = - EINVAL \<and> w' = test_bus)"
proof -
  obtain rc w' where c: "ads7128_config_gpio_output sim_i2c 3 test_bus = (rc, w')" by fastforce
  show ?thesis unfolding c prod.case
    by (rule config_gpio_output_exact [OF sim_chip.ads7128_chip_axioms c])
qed

text \<open>
  What is driven is what is read back. When \<open>ads7128_write_gpio\<close> returns 0, exactly the
  channel's bit of the output register has the given value, the other seven outputs and all
  other registers are as before, and a following \<open>ads7128_read_gpio\<close> that returns 0 yields
  1 or 0 accordingly; when it fails, no output has changed.
\<close>

theorem gpio_write_read:
  assumes "ads7128_chip I regs sel" and "ads7128_write_gpio I ch v w = (rc, w1)" and "ch \<le> 7"
    and "ads7128_read_gpio I ch old w1 = (rc2, b, w2)"
  shows "if rc = 0 then
      (\<forall>i < 8. bit (regs w2 GPO_VALUE_ADDRESS) i = (if i = unat ch then v \<noteq> 0 else bit (regs w GPO_VALUE_ADDRESS) i)) \<and>
      (\<forall>r. r \<noteq> GPO_VALUE_ADDRESS \<longrightarrow> regs w2 r = regs w r) \<and>
      (rc2 = 0 \<longrightarrow> b = (if v \<noteq> 0 then 1 else 0))
    else regs w2 = regs w"
proof -
  note r1 = ads7128_chip.write_gpio_regs [OF assms(1,2)]
  note r2 = ads7128_chip.read_gpio_regs [OF assms(1,4)]
  have c: "unat ch < 8" using assms(3) by (simp add: word_le_nat_alt)
  show ?thesis
  proof (cases "rc = 0")
    case True
    have bits: "\<forall>i < 8. bit (regs w1 GPO_VALUE_ADDRESS) i =
        (if i = unat ch then v \<noteq> 0 else bit (regs w GPO_VALUE_ADDRESS) i)"
      using r1 True by (auto simp: bit_or_iff bit_and_iff bit_not_iff bit_channel_bit)
    moreover have "drop_bit (unat ch) (regs w1 GPO_VALUE_ADDRESS) AND 1 = (if v \<noteq> 0 then 1 else 0)"
      using bits c by (auto simp: and_one_eq even_drop_bit_iff_not_bit mod2_eq_if)
    ultimately show ?thesis using r1 r2 True by simp
  next
    case False
    with r1 r2 show ?thesis by simp
  qed
qed

lemma gpio_write_read_witness:
  "case ads7128_write_gpio sim_i2c 1 1 (test_bus\<lparr>fails := []\<rparr>) of (rc, w1) \<Rightarrow>
   case ads7128_read_gpio sim_i2c 1 0 w1 of (rc2, b, w2) \<Rightarrow> rc = 0 \<and> rc2 = 0 \<and> b = 1"
proof -
  obtain rc w1 where 1: "ads7128_write_gpio sim_i2c 1 1 (test_bus\<lparr>fails := []\<rparr>) = (rc, w1)" by fastforce
  obtain rc2 b w2 where 2: "ads7128_read_gpio sim_i2c 1 0 w1 = (rc2, b, w2)" by (metis prod.exhaust)
  have "rc = 0" "fails w1 = []" using 1
    by (auto simp: ads7128_write_gpio_def ads7128_read_reg_def ads7128_write_reg_def sim_i2c_defs test_bus_def)
  moreover from this(2) have "rc2 = 0" using 2
    by (auto simp: ads7128_read_gpio_def ads7128_read_reg_def ads7128_write_reg_def sim_i2c_defs)
  ultimately show ?thesis
    using gpio_write_read [OF sim_chip.ads7128_chip_axioms 1 _ 2] 1 2 by simp
qed

text \<open>
  The power-up hook pulses the sensor's shutdown line. When none of its steps fails, the
  hook of the flight controller holds the line (channel 6 of the expander) low for 5 ms and
  then drives it high as a push-pull output: at the end bit 6 is set in the pin, direction,
  drive and value registers, no other bit of any register has changed, and the hook returns 0.
\<close>

theorem board_sensor_init_pulses:
  assumes "ads7128_chip I regs sel" and "i2c_is_ready I w"
    and "ads7128_set_bit I PIN_CFG_ADDRESS VL53L1X_XSHUT_CH w = (0, w1)"
    and "ads7128_set_bit I GPIO_CFG_ADDRESS VL53L1X_XSHUT_CH w1 = (0, w2)"
    and "ads7128_set_bit I GPO_DRIVE_CFG_ADDRESS VL53L1X_XSHUT_CH w2 = (0, w3)"
    and "ads7128_clr_bit I GPO_VALUE_ADDRESS VL53L1X_XSHUT_CH w3 = (0, w4)"
    and "ads7128_set_bit I GPO_VALUE_ADDRESS VL53L1X_XSHUT_CH (i2c_msleep I 5 w4) = (0, w5)"
  shows "board_sensor_init I w = (0, i2c_msleep I 10 w5) \<and>
    \<not> bit (regs w4 GPO_VALUE_ADDRESS) 6 \<and>
    (\<forall>r i. bit (regs (i2c_msleep I 10 w5) r) i \<longleftrightarrow> bit (regs w r) i \<or>
       (i = 6 \<and> r \<in> {PIN_CFG_ADDRESS, GPIO_CFG_ADDRESS, GPO_DRIVE_CFG_ADDRESS, GPO_VALUE_ADDRESS}))"
proof -
  note set = ads7128_chip.set_bit_regs [OF assms(1)] and clr = ads7128_chip.clr_bit_regs [OF assms(1)]
  note sl = ads7128_bus.sleep_regs [OF ads7128_chip.axioms(1) [OF assms(1)]]
  have r4: "regs w4 = (set_in 6 output_registers (regs w))(GPO_VALUE_ADDRESS :=
      regs w GPO_VALUE_ADDRESS AND NOT (channel_bit 6))"
    using set [OF assms(3)] set [OF assms(4)] set [OF assms(5)] clr [OF assms(6)]
    by (simp add: output_registers_def VL53L1X_XSHUT_CH_def ads7128_addresses)
  have r5: "regs (i2c_msleep I 10 w5) = set_in 6 [GPO_VALUE_ADDRESS] (regs w4)"
    using set [OF assms(7)] by (simp add: sl VL53L1X_XSHUT_CH_def)
  have low: "\<not> bit (regs w4 GPO_VALUE_ADDRESS) 6"
    by (simp add: r4 bit_and_iff bit_not_iff bit_channel_bit)
  have "bit (regs (i2c_msleep I 10 w5) r) i \<longleftrightarrow> bit (regs w r) i \<or>
       (i = 6 \<and> r \<in> {PIN_CFG_ADDRESS, GPIO_CFG_ADDRESS, GPO_DRIVE_CFG_ADDRESS, GPO_VALUE_ADDRESS})" for r i
  proof (cases "r = GPO_VALUE_ADDRESS")
    case True
    show ?thesis unfolding r5 True r4
      using bit_imp_le_length [of "regs w GPO_VALUE_ADDRESS" i]
      by (auto simp: bit_or_iff bit_and_iff bit_not_iff bit_channel_bit)
  next
    case False
    then show ?thesis unfolding r5 r4
      using set_in_bit [OF distinct_output_registers, of 6 "regs w" r i]
      by (auto simp: output_registers_def)
  qed
  moreover have "board_sensor_init I w = (0, i2c_msleep I 10 w5)"
    by (simp add: board_sensor_init_def assms(2-7))
  ultimately show ?thesis using low by blast
qed

lemma sim_set_bit:
  assumes "fails w = []"
  shows "ads7128_set_bit sim_i2c r ch w =
      (0, w\<lparr>chip_sel := r, chip_regs := (chip_regs w)(r := chip_regs w r OR channel_bit ch), fails := []\<rparr>)"
    and "ads7128_clr_bit sim_i2c r ch w =
      (0, w\<lparr>chip_sel := r, chip_regs := (chip_regs w)(r := chip_regs w r AND NOT (channel_bit ch)), fails := []\<rparr>)"
  using assms
  by (simp_all add: ads7128_set_bit_def ads7128_clr_bit_def ads7128_read_reg_def ads7128_write_reg_def
      sim_i2c_defs ADS7128_CMD_REG_WRITE_def ADS7128_CMD_REG_READ_def)

lemma board_sensor_init_pulses_witness:
  "\<exists>(w4 :: bus_world) w5. board_sensor_init sim_i2c (test_bus\<lparr>fails := []\<rparr>) = (0, i2c_msleep sim_i2c 10 w5) \<and>
    \<not> bit (chip_regs w4 GPO_VALUE_ADDRESS) 6 \<and>
    (\<forall>r i. bit (chip_regs (i2c_msleep sim_i2c 10 w5) r) i \<longleftrightarrow> bit (chip_regs (test_bus\<lparr>fails := []\<rparr>) r) i \<or>
       (i = 6 \<and> r \<in> {PIN_CFG_ADDRESS, GPIO_CFG_ADDRESS, GPO_DRIVE_CFG_ADDRESS, GPO_VALUE_ADDRESS}))"
proof -
  let ?w = "test_bus\<lparr>fails := []\<rparr>"
  obtain w1 where 1: "ads7128_set_bit sim_i2c PIN_CFG_ADDRESS VL53L1X_XSHUT_CH ?w = (0, w1)" "fails w1 = []"
    using sim_set_bit [of ?w] by simp
  obtain w2 where 2: "ads7128_set_bit sim_i2c GPIO_CFG_ADDRESS VL53L1X_XSHUT_CH w1 = (0, w2)" "fails w2 = []"
    using sim_set_bit [OF 1(2)] by simp
  obtain w3 where 3: "ads7128_set_bit sim_i2c GPO_DRIVE_CFG_ADDRESS VL53L1X_XSHUT_CH w2 = (0, w3)" "fails w3 = []"
    using sim_set_bit [OF 2(2)] by simp
  obtain w4 where 4: "ads7128_clr_bit sim_i2c GPO_VALUE_ADDRESS VL53L1X_XSHUT_CH w3 = (0, w4)" "fails w4 = []"
    using sim_set_bit [OF 3(2)] by simp
  have "fails (i2c_msleep sim_i2c 5 w4) = []" using 4(2) by (simp add: sim_i2c_def)
  then obtain w5 where 5: "ads7128_set_bit sim_i2c GPO_VALUE_ADDRESS VL53L1X_XSHUT_CH (i2c_msleep sim_i2c 5 w4) = (0, w5)"
    using sim_set_bit [of "i2c_msleep sim_i2c 5 w4"] by simp
  have "i2c_is_ready sim_i2c ?w" by (simp add: sim_i2c_def)
  from board_sensor_init_pulses [OF sim_chip.ads7128_chip_axioms this 1(1) 2(1) 3(1) 4(1) 5]
  show ?thesis by blast
qed

end
