(* ===== verification/Vl53l5_Bringup.thy ===== *)
theory Vl53l5_Bringup
  imports Ads7128
begin

text \<open>
  The four time-of-flight sensors of \<open>samples/riskybird/vl35l5cx_test/src/main.c\<close>: they
  share the power-on address, so the program enables one at a time through the GPIO
  expander, gives it its own address and later samples the sensors one by one. The static
  variable \<open>ads7128_gpo_shadow\<close> is threaded through in front of the world.
\<close>

definition VL53L5_SENSOR_COUNT :: nat where "VL53L5_SENSOR_COUNT = 4"
definition VL53L5_DEFAULT_ADDR_7BIT :: u8 where "VL53L5_DEFAULT_ADDR_7BIT = 0x29"
definition VL53L5_BASE_NEW_ADDR_7BIT :: u8 where "VL53L5_BASE_NEW_ADDR_7BIT = 0x31"
definition vl53l5_en_channels :: "u8 list" where "vl53l5_en_channels = [1, 2, 3, 4]"

lemmas vl53l5_consts = VL53L5_SENSOR_COUNT_def VL53L5_DEFAULT_ADDR_7BIT_def
  VL53L5_BASE_NEW_ADDR_7BIT_def vl53l5_en_channels_def

section \<open>The expander with a shadow of its outputs\<close>

text \<open>The same register sequence as \<open>ads7128_config_gpio_output\<close>.\<close>

definition ads7128_config_gpio_output_pushpull :: "'w i2c_api \<Rightarrow> u8 \<Rightarrow> 'w \<Rightarrow> int \<times> 'w" where
  "ads7128_config_gpio_output_pushpull I channel w =
     (case ads7128_config_gpio_output I channel w of (ret, w) \<Rightarrow> if ret \<noteq> 0 then (ret, w) else (0, w))"

definition ads7128_write_gpio_shadow :: "'w i2c_api \<Rightarrow> u8 \<Rightarrow> u8 \<Rightarrow> u8 \<times> 'w \<Rightarrow> int \<times> u8 \<times> 'w" where
  "ads7128_write_gpio_shadow I channel value sw =
     (case sw of (shadow, w) \<Rightarrow>
        if 7 < channel then (- EINVAL, shadow, w)
        else
          let shadow = (if value \<noteq> 0 then shadow OR channel_bit channel
                        else shadow AND NOT (channel_bit channel)) in
          case ads7128_write_reg I GPO_VALUE_ADDRESS shadow w of (ret, w) \<Rightarrow> (ret, shadow, w))"

text \<open>The configuration loop: stops at the first channel that fails.\<close>

fun config_loop :: "'w i2c_api \<Rightarrow> u8 list \<Rightarrow> 'w \<Rightarrow> int \<times> 'w" where
  "config_loop I [] w = (0, w)"
| "config_loop I (ch # chs) w =
     (case ads7128_config_gpio_output_pushpull I ch w of (ret, w') \<Rightarrow>
        if ret \<noteq> 0 then (ret, w') else config_loop I chs w')"

definition ads7128_force_low_set :: "'w i2c_api \<Rightarrow> u8 \<times> 'w \<Rightarrow> int \<times> u8 \<times> 'w" where
  "ads7128_force_low_set I sw =
     (case sw of (shadow, w) \<Rightarrow>
      case config_loop I [1, 2, 3, 4, 6] w of (ret, w) \<Rightarrow>
      if ret \<noteq> 0 then (ret, shadow, w)
      else case ads7128_write_reg I GPO_VALUE_ADDRESS 0 w of (ret, w) \<Rightarrow>
      if ret \<noteq> 0 then (ret, 0, w) else (0, 0, i2c_msleep I 20 w))"

section \<open>The sensor's registers\<close>

definition vl53l5cx_write_reg8 :: "'w i2c_api \<Rightarrow> u8 \<Rightarrow> u16 \<Rightarrow> u8 \<Rightarrow> 'w \<Rightarrow> int \<times> 'w" where
  "vl53l5cx_write_reg8 I addr7 reg value w = i2c_write I [hi8 reg, lo8 reg, value] addr7 w"

definition vl53l5cx_read_reg8 :: "'w i2c_api \<Rightarrow> u8 \<Rightarrow> u16 \<Rightarrow> u8 \<Rightarrow> 'w \<Rightarrow> int \<times> u8 \<times> 'w" where
  "vl53l5cx_read_reg8 I addr7 reg old w =
     (case i2c_write_read I addr7 [hi8 reg, lo8 reg] 1 [old] w of (ret, d, w) \<Rightarrow> (ret, d ! 0, w))"

text \<open>Returns the status, the id written through \<open>out_id\<close> (or its old value) and the world.\<close>

definition vl53l5cx_probe_id :: "'w i2c_api \<Rightarrow> u8 \<Rightarrow> u16 \<Rightarrow> 'w \<Rightarrow> int \<times> u16 \<times> 'w" where
  "vl53l5cx_probe_id I addr7 old_id w =
     (case vl53l5cx_write_reg8 I addr7 0x7FFF 0x00 w of (ret, w) \<Rightarrow>
      if ret \<noteq> 0 then (ret, old_id, w)
      else case vl53l5cx_read_reg8 I addr7 0x0000 0 w of (ret, dev_id, w) \<Rightarrow>
      if ret \<noteq> 0 then (ret, old_id, snd (vl53l5cx_write_reg8 I addr7 0x7FFF 0x02 w))
      else case vl53l5cx_read_reg8 I addr7 0x0001 0 w of (ret, rev_id, w) \<Rightarrow>
      case vl53l5cx_write_reg8 I addr7 0x7FFF 0x02 w of (_, w) \<Rightarrow>
      if ret \<noteq> 0 then (ret, old_id, w)
      else (if dev_id \<noteq> 0xF0 then - ENODEV else 0, mk16 dev_id rev_id, w))"

definition vl53l5cx_readdress_bootstrap :: "'w i2c_api \<Rightarrow> u8 \<Rightarrow> u8 \<Rightarrow> 'w \<Rightarrow> int \<times> 'w" where
  "vl53l5cx_readdress_bootstrap I old_addr7 new_addr7 w =
     (case vl53l5cx_write_reg8 I old_addr7 0x7FFF 0x00 w of (ret, w) \<Rightarrow>
      if ret \<noteq> 0 then (ret, w)
      else case vl53l5cx_write_reg8 I old_addr7 0x0004 new_addr7 (i2c_msleep I 2 w) of (ret, w) \<Rightarrow>
      if ret \<noteq> 0 then (ret, w)
      else case vl53l5cx_write_reg8 I new_addr7 0x7FFF 0x02 (i2c_msleep I 2 w) of (ret, w) \<Rightarrow>
      if ret \<noteq> 0 then (0, snd (vl53l5cx_write_reg8 I old_addr7 0x7FFF 0x02 w)) else (0, w))"

section \<open>One sensor at a time\<close>

definition enable_one_sensor :: "'w i2c_api \<Rightarrow> u8 \<Rightarrow> u8 \<times> 'w \<Rightarrow> int \<times> u8 \<times> 'w" where
  "enable_one_sensor I en_channel sw =
     (case ads7128_force_low_set I sw of (ret, sw) \<Rightarrow>
      if ret \<noteq> 0 then (ret, sw)
      else case ads7128_write_gpio_shadow I en_channel 1 sw of (ret, shadow, w) \<Rightarrow>
      if ret \<noteq> 0 then (ret, shadow, w) else (0, shadow, i2c_msleep I 100 w))"

text \<open>The do-while loop: \<open>None\<close> would be a loop that never ends.\<close>

partial_function (option) ack_loop ::
    "'w i2c_api \<Rightarrow> u8 \<Rightarrow> u8 \<Rightarrow> int \<Rightarrow> int \<Rightarrow> 'w \<Rightarrow> (int \<times> 'w) option" where
  "ack_loop I addr_a addr_b start timeout_ms w =
     (case vl53l5cx_probe_id I addr_a 0 w of (ret_a, id_a, w) \<Rightarrow>
      case vl53l5cx_probe_id I addr_b id_a w of (ret_b, id_b, w) \<Rightarrow>
      if ret_a = 0 \<or> ret_b = 0 then Some (0, w)
      else case i2c_uptime I (i2c_msleep I 10 w) of (t, w) \<Rightarrow>
      if t - start < timeout_ms then ack_loop I addr_a addr_b start timeout_ms w
      else Some (- ETIMEDOUT, w))"

declare ack_loop.simps [code]

definition wait_for_any_ack :: "'w i2c_api \<Rightarrow> u8 \<Rightarrow> u8 \<Rightarrow> u32 \<Rightarrow> 'w \<Rightarrow> (int \<times> 'w) option" where
  "wait_for_any_ack I addr_a addr_b timeout_ms w =
     (case i2c_uptime I w of (start, w) \<Rightarrow> ack_loop I addr_a addr_b start (uint timeout_ms) w)"

text \<open>At most \<open>n\<close> attempts; the status of the last one.\<close>

fun bootstrap_attempts :: "'w i2c_api \<Rightarrow> nat \<Rightarrow> u8 \<Rightarrow> int \<Rightarrow> 'w \<Rightarrow> int \<times> 'w" where
  "bootstrap_attempts I 0 new_addr7 ret w = (ret, w)"
| "bootstrap_attempts I (Suc n) new_addr7 ret w =
     (case vl53l5cx_readdress_bootstrap I VL53L5_DEFAULT_ADDR_7BIT new_addr7 w of (ret, w) \<Rightarrow>
        if ret = 0 then (0, w) else bootstrap_attempts I n new_addr7 ret (i2c_msleep I 50 w))"

definition program_one_sensor_address ::
    "'w i2c_api \<Rightarrow> nat \<Rightarrow> u8 \<Rightarrow> u8 \<times> 'w \<Rightarrow> (int \<times> u8 \<times> 'w) option" where
  "program_one_sensor_address I sensor_idx new_addr7 sw =
     (case enable_one_sensor I (vl53l5_en_channels ! sensor_idx) sw of (ret, shadow, w) \<Rightarrow>
      if ret \<noteq> 0 then Some (ret, shadow, w)
      else case wait_for_any_ack I VL53L5_DEFAULT_ADDR_7BIT new_addr7 500 w of
        None \<Rightarrow> None
      | Some (_, w) \<Rightarrow> Some
         (case vl53l5cx_probe_id I new_addr7 0 w of (ret, id0, w) \<Rightarrow>
          if ret = 0 then (0, shadow, w)
          else case vl53l5cx_probe_id I VL53L5_DEFAULT_ADDR_7BIT id0 w of (ret, id0, w) \<Rightarrow>
          if ret \<noteq> 0 then (- ENODEV, shadow, w)
          else case bootstrap_attempts I 5 new_addr7 0 w of (ret, w) \<Rightarrow>
          if ret \<noteq> 0 then (ret, shadow, w)
          else case vl53l5cx_probe_id I new_addr7 id0 (i2c_msleep I 10 w) of (ret, id0, w) \<Rightarrow>
          (0, shadow, w)))"

section \<open>The program\<close>

text \<open>
  The sensor driver (\<open>vl53l5cx_reinit\<close> and the Zephyr sensor calls on the device of sensor
  \<open>i\<close>) is not part of the repository.
\<close>

record 'w tof_api =
  tof_ready :: "nat \<Rightarrow> 'w \<Rightarrow> bool"
  tof_reinit :: "nat \<Rightarrow> 'w \<Rightarrow> int \<times> 'w"
  tof_fetch :: "nat \<Rightarrow> 'w \<Rightarrow> int \<times> 'w"
  tof_distance :: "nat \<Rightarrow> 'w \<Rightarrow> int \<times> int \<times> 'w"
  tof_get_grid :: "nat \<Rightarrow> 'w \<Rightarrow> int \<times> 'w"

fun program_all :: "'w i2c_api \<Rightarrow> nat list \<Rightarrow> u8 \<times> 'w \<Rightarrow> (bool \<times> u8 \<times> 'w) option" where
  "program_all I [] sw = Some (True, sw)"
| "program_all I (i # is) sw =
     (case program_one_sensor_address I i (VL53L5_BASE_NEW_ADDR_7BIT + word_of_nat i) sw of
        None \<Rightarrow> None
      | Some (ret, sw') \<Rightarrow> if ret \<noteq> 0 then Some (False, sw') else program_all I is sw')"

fun init_all :: "'w i2c_api \<Rightarrow> 'w tof_api \<Rightarrow> nat list \<Rightarrow> u8 \<times> 'w \<Rightarrow> bool \<times> u8 \<times> 'w" where
  "init_all I T [] sw = (True, sw)"
| "init_all I T (i # is) sw =
     (case enable_one_sensor I (vl53l5_en_channels ! i) sw of (ret, shadow, w) \<Rightarrow>
        if ret \<noteq> 0 then (False, shadow, w)
        else case tof_reinit T i w of (ret, w') \<Rightarrow>
          if ret \<noteq> 0 then (False, shadow, w') else init_all I T is (shadow, w'))"

text \<open>\<open>main\<close> up to its endless loop: exit status 1, or 0 for reaching the loop.\<close>

definition tof_setup :: "'w i2c_api \<Rightarrow> 'w tof_api \<Rightarrow> u8 \<times> 'w \<Rightarrow> (int \<times> u8 \<times> 'w) option" where
  "tof_setup I T sw =
     (if \<not> i2c_is_ready I (snd sw) then Some (1, sw)
      else case ads7128_force_low_set I sw of (ret, sw) \<Rightarrow>
      if ret \<noteq> 0 then Some (1, sw)
      else if \<exists>i \<in> set [0..<VL53L5_SENSOR_COUNT]. \<not> tof_ready T i (snd sw) then Some (1, sw)
      else case program_all I [0..<VL53L5_SENSOR_COUNT] sw of
        None \<Rightarrow> None
      | Some (ok, sw) \<Rightarrow>
          if \<not> ok then Some (1, sw)
          else case init_all I T [0..<VL53L5_SENSOR_COUNT] sw of (ok, sw) \<Rightarrow>
          if \<not> ok then Some (1, sw) else Some (0, sw))"

text \<open>One sensor of the sampling loop: the distance in case it was read.\<close>

definition sample_one :: "'w i2c_api \<Rightarrow> 'w tof_api \<Rightarrow> nat \<Rightarrow> u8 \<times> 'w \<Rightarrow> bool \<times> int option \<times> u8 \<times> 'w" where
  "sample_one I T i sw =
     (case enable_one_sensor I (vl53l5_en_channels ! i) sw of (ret, shadow, w) \<Rightarrow>
      if ret \<noteq> 0 then (False, None, shadow, w)
      else case tof_fetch T i w of (ret, w) \<Rightarrow>
      let (ret, w) = (if ret = 0 then (0, w)
             else case tof_reinit T i w of (ret, w) \<Rightarrow> if ret \<noteq> 0 then (ret, w) else tof_fetch T i w)
      in if ret \<noteq> 0 then (True, None, shadow, w)
         else case tof_distance T i w of (ret, dist, w) \<Rightarrow>
         if ret \<noteq> 0 then (True, None, shadow, w)
         else (True, Some dist, shadow, snd (tof_get_grid T i w)))"

fun sample_all :: "'w i2c_api \<Rightarrow> 'w tof_api \<Rightarrow> nat list \<Rightarrow> u8 \<times> 'w \<Rightarrow> bool \<times> u8 \<times> 'w" where
  "sample_all I T [] sw = (True, sw)"
| "sample_all I T (i # is) sw =
     (case sample_one I T i sw of (go_on, d, sw') \<Rightarrow>
        if \<not> go_on then (False, sw') else sample_all I T is sw')"

text \<open>A round of the loop; \<open>False\<close> when \<open>main\<close> returns 1.\<close>

definition sample_round :: "'w i2c_api \<Rightarrow> 'w tof_api \<Rightarrow> u8 \<times> 'w \<Rightarrow> bool \<times> u8 \<times> 'w" where
  "sample_round I T sw =
     (case sample_all I T [0..<VL53L5_SENSOR_COUNT] sw of (go_on, shadow, w) \<Rightarrow>
        if \<not> go_on then (False, shadow, w) else (True, shadow, i2c_msleep I 500 w))"

section \<open>The enable lines are exclusive\<close>

text \<open>All outputs low, or exactly one sensor's enable high.\<close>

definition exclusive :: "u8 \<Rightarrow> bool" where
  "exclusive gpo \<longleftrightarrow> gpo = 0 \<or> gpo \<in> channel_bit ` set vl53l5_en_channels"

text \<open>The board: the expander, and sensor drivers that leave the expander alone.\<close>

locale tof_board = ads7128_bus I regs sel for I :: "'w i2c_api" and regs and sel +
  fixes T :: "'w tof_api"
  assumes reinit_regs: "tof_reinit T i w = (r, w') \<Longrightarrow> regs w' = regs w"
    and fetch_regs: "tof_fetch T i w = (r, w') \<Longrightarrow> regs w' = regs w"
    and distance_regs: "tof_distance T i w = (r, d, w') \<Longrightarrow> regs w' = regs w"
    and grid_regs: "tof_get_grid T i w = (r, w') \<Longrightarrow> regs w' = regs w"

definition gpo :: "('w \<Rightarrow> u8 \<Rightarrow> u8) \<Rightarrow> 'w \<Rightarrow> u8" where
  "gpo regs w = regs w GPO_VALUE_ADDRESS"

context ads7128_bus begin

lemma config_gpo:
  assumes "ads7128_config_gpio_output I ch w = (rc, w')"
  shows "gpo regs w' = gpo regs w"
proof -
  obtain rc1 w1 where 1: "ads7128_set_bit I PIN_CFG_ADDRESS ch w = (rc1, w1)" by fastforce
  obtain rc2 w2 where 2: "ads7128_set_bit I GPIO_CFG_ADDRESS ch w1 = (rc2, w2)" by fastforce
  obtain rc3 w3 where 3: "ads7128_set_bit I GPO_DRIVE_CFG_ADDRESS ch w2 = (rc3, w3)" by fastforce
  have "PIN_CFG_ADDRESS \<noteq> GPO_VALUE_ADDRESS" "GPIO_CFG_ADDRESS \<noteq> GPO_VALUE_ADDRESS"
    "GPO_DRIVE_CFG_ADDRESS \<noteq> GPO_VALUE_ADDRESS" by (simp_all add: ads7128_addresses)
  then have "gpo regs w1 = gpo regs w" "gpo regs w2 = gpo regs w1" "gpo regs w3 = gpo regs w2"
    using set_bit_other [OF 1] set_bit_other [OF 2] set_bit_other [OF 3] by (simp_all add: gpo_def)
  with assms show ?thesis by (auto simp: config_as_set_bits 1 2 3 split: if_splits)
qed

lemma config_pushpull_gpo:
  "ads7128_config_gpio_output_pushpull I ch w = (rc, w') \<Longrightarrow> gpo regs w' = gpo regs w"
  using config_gpo [of ch w]
  by (auto simp: ads7128_config_gpio_output_pushpull_def split: prod.splits if_splits)

lemma config_loop_gpo: "config_loop I chs w = (rc, w') \<Longrightarrow> gpo regs w' = gpo regs w"
  by (induction chs arbitrary: w) (auto split: prod.splits if_splits dest!: config_pushpull_gpo)

lemma force_low_gpo:
  assumes "ads7128_force_low_set I (shadow, w) = (rc, shadow', w')"
  shows "if rc = 0 then shadow' = 0 \<and> gpo regs w' = 0 else gpo regs w' = gpo regs w \<or> gpo regs w' = 0"
proof -
  obtain rc1 w1 where 1: "config_loop I [1, 2, 3, 4, 6] w = (rc1, w1)" by fastforce
  obtain rc2 w2 where 2: "ads7128_write_reg I GPO_VALUE_ADDRESS 0 w1 = (rc2, w2)" by fastforce
  show ?thesis
    using assms config_loop_gpo [OF 1] write_reg_any [OF 2]
    by (auto simp: ads7128_force_low_set_def 1 2 gpo_def sleep_regs
        simp del: config_loop.simps split: if_splits)
qed

lemma enable_gpo:
  assumes "enable_one_sensor I ch (shadow, w) = (rc, shadow', w')"
  shows "if rc = 0 then gpo regs w' = channel_bit ch \<and> shadow' = channel_bit ch
    else gpo regs w' = gpo regs w \<or> gpo regs w' = 0 \<or> gpo regs w' = channel_bit ch"
proof -
  obtain rc1 s1 w1 where 1: "ads7128_force_low_set I (shadow, w) = (rc1, s1, w1)" by (metis prod.exhaust)
  obtain rc2 w2 where 2: "ads7128_write_reg I GPO_VALUE_ADDRESS (channel_bit ch) w1 = (rc2, w2)" by fastforce
  show ?thesis
    using assms force_low_gpo [OF 1] write_reg_any [OF 2]
    by (cases "rc1 = 0") (auto simp: enable_one_sensor_def ads7128_write_gpio_shadow_def 1 2 gpo_def
        sleep_regs EINVAL_def Let_def split: if_splits)
qed

lemma reg8_gpo:
  assumes "a \<noteq> ADS7128_I2C_ADDR"
  shows "vl53l5cx_write_reg8 I a r v w = (rc, w') \<Longrightarrow> gpo regs w' = gpo regs w"
    and "vl53l5cx_read_reg8 I a r old w = (rc, d, w') \<Longrightarrow> gpo regs w' = gpo regs w"
  using other_write [of a] other_write_read [OF assms] assms
  by (auto simp: vl53l5cx_write_reg8_def vl53l5cx_read_reg8_def gpo_def split: prod.splits)

lemma probe_gpo:
  assumes "a \<noteq> ADS7128_I2C_ADDR" and "vl53l5cx_probe_id I a old w = (rc, d, w')"
  shows "gpo regs w' = gpo regs w"
proof -
  obtain r1 w1 where 1: "vl53l5cx_write_reg8 I a 0x7FFF 0 w = (r1, w1)" by fastforce
  obtain r2 d2 w2 where 2: "vl53l5cx_read_reg8 I a 0 0 w1 = (r2, d2, w2)" by (metis prod.exhaust)
  obtain r3 w3 where 3: "vl53l5cx_write_reg8 I a 0x7FFF 2 w2 = (r3, w3)" by fastforce
  obtain r4 d4 w4 where 4: "vl53l5cx_read_reg8 I a 1 0 w2 = (r4, d4, w4)" by (metis prod.exhaust)
  obtain r5 w5 where 5: "vl53l5cx_write_reg8 I a 0x7FFF 2 w4 = (r5, w5)" by fastforce
  note g = reg8_gpo(1) [OF assms(1) 1] reg8_gpo(2) [OF assms(1) 2] reg8_gpo(1) [OF assms(1) 3]
    reg8_gpo(2) [OF assms(1) 4] reg8_gpo(1) [OF assms(1) 5]
  show ?thesis
    using assms(2) g by (auto simp: vl53l5cx_probe_id_def 1 2 3 4 5 split: if_splits)
qed

lemma bootstrap_gpo:
  assumes "a \<noteq> ADS7128_I2C_ADDR" and "b \<noteq> ADS7128_I2C_ADDR"
    and "vl53l5cx_readdress_bootstrap I a b w = (rc, w')"
  shows "gpo regs w' = gpo regs w"
proof -
  have s: "gpo regs (i2c_msleep I n w) = gpo regs w" for n w by (simp add: gpo_def sleep_regs)
  obtain r1 w1 where 1: "vl53l5cx_write_reg8 I a 0x7FFF 0 w = (r1, w1)" by fastforce
  obtain r2 w2 where 2: "vl53l5cx_write_reg8 I a 4 b (i2c_msleep I 2 w1) = (r2, w2)" by fastforce
  obtain r3 w3 where 3: "vl53l5cx_write_reg8 I b 0x7FFF 2 (i2c_msleep I 2 w2) = (r3, w3)" by fastforce
  obtain r4 w4 where 4: "vl53l5cx_write_reg8 I a 0x7FFF 2 w3 = (r4, w4)" by fastforce
  show ?thesis
    using assms(3) reg8_gpo(1) [OF assms(1) 1] reg8_gpo(1) [OF assms(1) 2] reg8_gpo(1) [OF assms(2) 3]
      reg8_gpo(1) [OF assms(1) 4]
    by (auto simp: vl53l5cx_readdress_bootstrap_def 1 2 3 4 s split: if_splits)
qed

lemma attempts_gpo:
  assumes "b \<noteq> ADS7128_I2C_ADDR" and "bootstrap_attempts I n b ret w = (rc, w')"
  shows "gpo regs w' = gpo regs w"
  using assms(2)
proof (induction n arbitrary: ret w)
  case (Suc n)
  have d: "VL53L5_DEFAULT_ADDR_7BIT \<noteq> ADS7128_I2C_ADDR"
    by (simp add: vl53l5_consts ADS7128_I2C_ADDR_def)
  obtain r1 w1 where 1: "vl53l5cx_readdress_bootstrap I VL53L5_DEFAULT_ADDR_7BIT b w = (r1, w1)" by fastforce
  have "gpo regs (i2c_msleep I 50 w1) = gpo regs w1" by (simp add: gpo_def sleep_regs)
  with Suc.IH [of r1 "i2c_msleep I 50 w1"] Suc.prems bootstrap_gpo [OF d assms(1) 1] show ?case
    by (auto simp: 1 split: if_splits)
qed simp

lemma ack_loop_gpo:
  assumes "a \<noteq> ADS7128_I2C_ADDR" and "b \<noteq> ADS7128_I2C_ADDR"
    and "ack_loop I a b start tmo w = Some (rc, w')"
  shows "gpo regs w' = gpo regs w"
proof -
  let ?P = "\<lambda>J a b (start :: int) (tmo :: int) w (y :: int \<times> 'w).
    J = I \<longrightarrow> a \<noteq> ADS7128_I2C_ADDR \<longrightarrow> b \<noteq> ADS7128_I2C_ADDR \<longrightarrow> gpo regs (snd y) = gpo regs w"
  have "?P I a b start tmo w (rc, w')"
  proof (rule ack_loop.raw_induct [where P = ?P, OF _ assms(3)], intro impI)
    fix f J a b start tmo w y
    assume IH: "\<And>J a b start tmo w y. f J a b start tmo w = Some y \<Longrightarrow> ?P J a b start tmo w y"
      and body: "(case vl53l5cx_probe_id J a 0 w of (ret_a, id_a, w) \<Rightarrow>
        case vl53l5cx_probe_id J b id_a w of (ret_b, id_b, w) \<Rightarrow>
        if ret_a = 0 \<or> ret_b = 0 then Some (0, w)
        else case i2c_uptime J (i2c_msleep J 10 w) of (t, w) \<Rightarrow>
        if t - start < tmo then f J a b start tmo w else Some (- ETIMEDOUT, w)) = Some y"
      and J: "J = I" and ab: "a \<noteq> ADS7128_I2C_ADDR" "b \<noteq> ADS7128_I2C_ADDR"
    obtain r1 d1 w1 where p1: "vl53l5cx_probe_id I a 0 w = (r1, d1, w1)" by (metis prod.exhaust)
    obtain r2 d2 w2 where p2: "vl53l5cx_probe_id I b d1 w1 = (r2, d2, w2)" by (metis prod.exhaust)
    obtain t w3 where p3: "i2c_uptime I (i2c_msleep I 10 w2) = (t, w3)" by fastforce
    have "gpo regs w3 = gpo regs w2" using uptime_regs [OF p3] by (simp add: gpo_def sleep_regs)
    then show "gpo regs (snd y) = gpo regs w"
      using body IH [of I a b start tmo w3 y] J ab probe_gpo [OF ab(1) p1] probe_gpo [OF ab(2) p2]
      by (auto simp: p1 p2 p3 split: if_splits)
  qed
  with assms(1,2) show ?thesis by simp
qed

lemma wait_gpo:
  assumes "a \<noteq> ADS7128_I2C_ADDR" and "b \<noteq> ADS7128_I2C_ADDR"
    and "wait_for_any_ack I a b tmo w = Some (rc, w')"
  shows "gpo regs w' = gpo regs w"
  using assms(3) ack_loop_gpo [OF assms(1,2)] uptime_regs
  by (auto simp: wait_for_any_ack_def gpo_def split: prod.splits)

lemma program_gpo:
  assumes "new \<noteq> ADS7128_I2C_ADDR"
    and "program_one_sensor_address I i new (shadow, w) = Some (rc, shadow', w')"
  shows "gpo regs w' \<in> {gpo regs w, 0, channel_bit (vl53l5_en_channels ! i)}"
proof -
  have d: "VL53L5_DEFAULT_ADDR_7BIT \<noteq> ADS7128_I2C_ADDR"
    by (simp add: vl53l5_consts ADS7128_I2C_ADDR_def)
  obtain r1 s1 w1 where 1: "enable_one_sensor I (vl53l5_en_channels ! i) (shadow, w) = (r1, s1, w1)"
    by (metis prod.exhaust)
  have e: "gpo regs w1 \<in> {gpo regs w, 0, channel_bit (vl53l5_en_channels ! i)}"
    using enable_gpo [OF 1] by (auto split: if_splits)
  show ?thesis
  proof (cases "r1 = 0")
    case False
    with assms(2) e show ?thesis by (simp add: program_one_sensor_address_def 1)
  next
    case True
    then obtain r2 w2 where 2: "wait_for_any_ack I VL53L5_DEFAULT_ADDR_7BIT new 500 w1 = Some (r2, w2)"
      using assms(2) by (auto simp: program_one_sensor_address_def 1 split: option.splits)
    obtain r3 d3 w3 where 3: "vl53l5cx_probe_id I new 0 w2 = (r3, d3, w3)" by (metis prod.exhaust)
    obtain r4 d4 w4 where 4: "vl53l5cx_probe_id I VL53L5_DEFAULT_ADDR_7BIT d3 w3 = (r4, d4, w4)"
      by (metis prod.exhaust)
    obtain r5 w5 where 5: "bootstrap_attempts I 5 new 0 w4 = (r5, w5)" by fastforce
    obtain r6 d6 w6 where 6: "vl53l5cx_probe_id I new d4 (i2c_msleep I 10 w5) = (r6, d6, w6)"
      by (metis prod.exhaust)
    have "gpo regs (i2c_msleep I 10 w5) = gpo regs w5" by (simp add: gpo_def sleep_regs)
    then have g: "gpo regs w2 = gpo regs w1" "gpo regs w3 = gpo regs w1" "gpo regs w4 = gpo regs w1"
      "gpo regs w5 = gpo regs w1" "gpo regs w6 = gpo regs w1"
      using wait_gpo [OF d assms(1) 2] probe_gpo [OF assms(1) 3] probe_gpo [OF d 4]
        attempts_gpo [OF assms(1) 5] probe_gpo [OF assms(1) 6] by simp_all
    have "w' \<in> {w3, w4, w5, w6}"
      using assms(2) True by (auto simp: program_one_sensor_address_def 1 2 3 4 5 6 split: if_splits)
    with g e show ?thesis by auto
  qed
qed

end

lemma exclusive_simps: "exclusive 0" "i < 4 \<Longrightarrow> exclusive (channel_bit (vl53l5_en_channels ! i))"
  by (auto simp: exclusive_def vl53l5_en_channels_def less_Suc_eq numeral_eq_Suc)

context tof_board begin

lemma program_all_exclusive:
  assumes "program_all I is sw = Some (ok, shadow', w')" and "\<forall>i \<in> set is. i < 4"
    and "exclusive (gpo regs (snd sw))"
  shows "exclusive (gpo regs w')"
  using assms
proof (induction "is" arbitrary: sw)
  case (Cons i "is")
  let ?a = "VL53L5_BASE_NEW_ADDR_7BIT + word_of_nat i"
  have i: "i = 0 \<or> i = 1 \<or> i = 2 \<or> i = 3" using Cons.prems(2) by auto
  then have a: "?a \<noteq> ADS7128_I2C_ADDR" by (auto simp: vl53l5_consts ADS7128_I2C_ADDR_def)
  obtain s w where sw: "sw = (s, w)" by (cases sw)
  obtain r s1 w1 where p: "program_one_sensor_address I i ?a (s, w) = Some (r, s1, w1)"
    using Cons.prems(1) sw by (auto split: option.splits)
  have "exclusive (gpo regs w1)"
    using program_gpo [OF a p] Cons.prems(3) sw exclusive_simps(1) exclusive_simps(2) [of i] i by auto
  with Cons.IH [of "(s1, w1)"] Cons.prems p sw show ?case by (auto split: if_splits)
qed simp

lemma enable_exclusive:
  assumes "enable_one_sensor I (vl53l5_en_channels ! i) sw = (rc, s', w')" and "i < 4"
    and "exclusive (gpo regs (snd sw))"
  shows "exclusive (gpo regs w')"
  using enable_gpo [of "vl53l5_en_channels ! i" "fst sw" "snd sw" rc s' w'] assms exclusive_simps(1) exclusive_simps(2) [of i]
  by (auto split: if_splits)

lemma init_all_exclusive:
  assumes "init_all I T is sw = (ok, shadow', w')" and "\<forall>i \<in> set is. i < 4"
    and "exclusive (gpo regs (snd sw))"
  shows "exclusive (gpo regs w')"
  using assms
proof (induction "is" arbitrary: sw)
  case (Cons i "is")
  obtain r1 s1 w1 where 1: "enable_one_sensor I (vl53l5_en_channels ! i) sw = (r1, s1, w1)"
    by (metis prod.exhaust)
  obtain r2 w2 where 2: "tof_reinit T i w1 = (r2, w2)" by fastforce
  have "exclusive (gpo regs w1)" using enable_exclusive [OF 1] Cons.prems by simp
  moreover have "gpo regs w2 = gpo regs w1" using reinit_regs [OF 2] by (simp add: gpo_def)
  ultimately show ?case
    using Cons.IH [of "(s1, w2)"] Cons.prems by (auto simp: 1 2 split: if_splits)
qed simp

lemma sample_one_exclusive:
  assumes "sample_one I T i sw = (go_on, d, s', w')" and "i < 4" and "exclusive (gpo regs (snd sw))"
  shows "exclusive (gpo regs w')"
proof -
  obtain r1 s1 w1 where 1: "enable_one_sensor I (vl53l5_en_channels ! i) sw = (r1, s1, w1)"
    by (metis prod.exhaust)
  have e: "exclusive (gpo regs w1)" by (rule enable_exclusive [OF 1 assms(2,3)])
  obtain r2 w2 where 2: "tof_fetch T i w1 = (r2, w2)" by fastforce
  obtain r3 w3 where 3: "tof_reinit T i w2 = (r3, w3)" by fastforce
  obtain r4 w4 where 4: "tof_fetch T i w3 = (r4, w4)" by fastforce
  have g: "regs w2 = regs w1" "regs w3 = regs w1" "regs w4 = regs w1"
    using fetch_regs [OF 2] reinit_regs [OF 3] fetch_regs [OF 4] by simp_all
  have dist: "regs (snd (snd (tof_distance T i v))) = regs v" for v
    using distance_regs [of i v] by (cases "tof_distance T i v") auto
  have grid: "regs (snd (tof_get_grid T i v)) = regs v" for v
    using grid_regs [of i v] by (cases "tof_get_grid T i v") auto
  have "regs w' = regs w1"
    using assms(1) g dist grid unfolding sample_one_def
    by (auto simp: 1 2 3 4 Let_def split: if_splits prod.splits) (metis snd_conv)+
  with e show ?thesis by (simp add: gpo_def)
qed

lemma sample_all_exclusive:
  assumes "sample_all I T is sw = (go_on, s', w')" and "\<forall>i \<in> set is. i < 4"
    and "exclusive (gpo regs (snd sw))"
  shows "exclusive (gpo regs w')"
  using assms
proof (induction "is" arbitrary: sw)
  case (Cons i "is")
  obtain g d s1 w1 where 1: "sample_one I T i sw = (g, d, s1, w1)" by (metis prod.exhaust)
  have "exclusive (gpo regs w1)" using sample_one_exclusive [OF 1] Cons.prems by simp
  with Cons.IH [of "(s1, w1)"] Cons.prems show ?case by (auto simp: 1 split: if_splits)
qed simp

lemma enable_sensor_gpo:
  "enable_one_sensor I ch sw = (0, s', w') \<Longrightarrow> s' = channel_bit ch \<and> gpo regs w' = channel_bit ch"
  using enable_gpo [of ch "fst sw" "snd sw" 0 s' w'] by simp

lemma sample_one_enabled:
  assumes "sample_one I T i sw = (True, d, s', w')"
  shows "s' = channel_bit (vl53l5_en_channels ! i) \<and> gpo regs w' = channel_bit (vl53l5_en_channels ! i)"
proof -
  obtain r1 s1 w1 where 1: "enable_one_sensor I (vl53l5_en_channels ! i) sw = (r1, s1, w1)"
    by (metis prod.exhaust)
  have r1: "r1 = 0" using assms by (auto simp: sample_one_def 1 split: if_splits)
  obtain r2 w2 where 2: "tof_fetch T i w1 = (r2, w2)" by fastforce
  obtain r3 w3 where 3: "tof_reinit T i w2 = (r3, w3)" by fastforce
  obtain r4 w4 where 4: "tof_fetch T i w3 = (r4, w4)" by fastforce
  have g: "regs w2 = regs w1" "regs w3 = regs w1" "regs w4 = regs w1"
    using fetch_regs [OF 2] reinit_regs [OF 3] fetch_regs [OF 4] by simp_all
  have dist: "regs (snd (snd (tof_distance T i v))) = regs v" for v
    using distance_regs [of i v] by (cases "tof_distance T i v") auto
  have grid: "regs (snd (tof_get_grid T i v)) = regs v" for v
    using grid_regs [of i v] by (cases "tof_get_grid T i v") auto
  have "regs w' = regs w1 \<and> s' = s1"
    using assms(1) g dist grid unfolding sample_one_def
    by (auto simp: 1 2 3 4 r1 Let_def split: if_splits prod.splits) (metis snd_conv)+
  with enable_sensor_gpo [OF 1 [unfolded r1]] show ?thesis by (simp add: gpo_def)
qed

lemma setup_exclusive:
  assumes "tof_setup I T sw = Some (rc, s', w')"
  shows "exclusive (gpo regs w') \<or> (rc = 1 \<and> gpo regs w' = gpo regs (snd sw))"
proof (cases "i2c_is_ready I (snd sw)")
  case True
  obtain r0 s0 w0 where 0: "ads7128_force_low_set I sw = (r0, s0, w0)" by (metis prod.exhaust)
  have e: "if r0 = 0 then exclusive (gpo regs w0) else exclusive (gpo regs w0) \<or> gpo regs w0 = gpo regs (snd sw)"
    using force_low_gpo [of "fst sw" "snd sw" r0 s0 w0] 0 exclusive_simps(1) by (auto split: if_splits)
  have lt: "\<forall>i \<in> set [0..<VL53L5_SENSOR_COUNT]. i < 4" by (simp add: vl53l5_consts)
  show ?thesis
  proof (cases "r0 \<noteq> 0 \<or> (\<exists>i \<in> set [0..<VL53L5_SENSOR_COUNT]. \<not> tof_ready T i w0)")
    case True
    with assms e \<open>i2c_is_ready I (snd sw)\<close> show ?thesis
      by (auto simp: tof_setup_def 0 split: if_splits)
  next
    case False
    obtain ok s1 w1 where 1: "program_all I [0..<VL53L5_SENSOR_COUNT] (s0, w0) = Some (ok, s1, w1)"
      using assms False \<open>i2c_is_ready I (snd sw)\<close>
      by (auto simp: tof_setup_def 0 split: if_splits option.splits)
    have e1: "exclusive (gpo regs w1)" using program_all_exclusive [OF 1 lt] e False by simp
    obtain ok2 s2 w2 where 2: "init_all I T [0..<VL53L5_SENSOR_COUNT] (s1, w1) = (ok2, s2, w2)"
      by (metis prod.exhaust)
    have e2: "exclusive (gpo regs w2)" using init_all_exclusive [OF 2 lt] e1 by simp
    from assms False \<open>i2c_is_ready I (snd sw)\<close> e1 e2 show ?thesis
      by (auto simp: tof_setup_def 0 1 2 split: if_splits)
  qed
next
  case False
  with assms show ?thesis by (auto simp: tof_setup_def)
qed

lemma round_exclusive:
  assumes "sample_round I T sw = (ok, s', w')" and "exclusive (gpo regs (snd sw))"
  shows "exclusive (gpo regs w')"
proof -
  obtain g s1 w1 where 1: "sample_all I T [0..<VL53L5_SENSOR_COUNT] sw = (g, s1, w1)"
    by (metis prod.exhaust)
  have "exclusive (gpo regs w1)"
    by (rule sample_all_exclusive [OF 1 _ assms(2)]) (simp add: vl53l5_consts)
  with assms(1) show ?thesis by (auto simp: sample_round_def 1 gpo_def sleep_regs split: if_splits)
qed

end

section \<open>The wait ends\<close>

context i2c_clock begin

lemma reg8_now:
  "vl53l5cx_write_reg8 I a r v w = (rc, w') \<Longrightarrow> now w \<le> now w'"
  "vl53l5cx_read_reg8 I a r old w = (rc, d, w') \<Longrightarrow> now w \<le> now w'"
  using write_now write_read_now
  by (auto simp: vl53l5cx_write_reg8_def vl53l5cx_read_reg8_def split: prod.splits)

lemma probe_now:
  assumes "vl53l5cx_probe_id I a old w = (rc, d, w')"
  shows "now w \<le> now w'"
proof -
  obtain r1 w1 where 1: "vl53l5cx_write_reg8 I a 0x7FFF 0 w = (r1, w1)" by fastforce
  obtain r2 d2 w2 where 2: "vl53l5cx_read_reg8 I a 0 0 w1 = (r2, d2, w2)" by (metis prod.exhaust)
  obtain r3 w3 where 3: "vl53l5cx_write_reg8 I a 0x7FFF 2 w2 = (r3, w3)" by fastforce
  obtain r4 d4 w4 where 4: "vl53l5cx_read_reg8 I a 1 0 w2 = (r4, d4, w4)" by (metis prod.exhaust)
  obtain r5 w5 where 5: "vl53l5cx_write_reg8 I a 0x7FFF 2 w4 = (r5, w5)" by fastforce
  note g = reg8_now(1) [OF 1] reg8_now(2) [OF 2] reg8_now(1) [OF 3] reg8_now(2) [OF 4] reg8_now(1) [OF 5]
  show ?thesis
    using assms g by (auto simp: vl53l5cx_probe_id_def 1 2 3 4 5 split: if_splits)
qed

lemma ack_loop_ends:
  "\<exists>rc w'. ack_loop I a b start tmo w = Some (rc, w') \<and>
     (rc = 0 \<or> rc = - ETIMEDOUT \<and> start + tmo \<le> now w')"
proof (induction "nat (start + tmo - now w)" arbitrary: w rule: less_induct)
  case less
  obtain r1 d1 w1 where 1: "vl53l5cx_probe_id I a 0 w = (r1, d1, w1)" by (metis prod.exhaust)
  obtain r2 d2 w2 where 2: "vl53l5cx_probe_id I b d1 w1 = (r2, d2, w2)" by (metis prod.exhaust)
  obtain t w3 where 3: "i2c_uptime I (i2c_msleep I 10 w2) = (t, w3)" by fastforce
  note t = uptime_now [OF 3] and later = probe_now [OF 1] probe_now [OF 2] sleep_now [of w2 10]
  show ?case
  proof (cases "r1 = 0 \<or> r2 = 0 \<or> \<not> t - start < tmo")
    case True
    with t show ?thesis by (subst ack_loop.simps) (auto simp: 1 2 3)
  next
    case False
    then have "nat (start + tmo - now w3) < nat (start + tmo - now w)" using t later by linarith
    from less.hyps [OF this] False show ?thesis by (subst ack_loop.simps) (simp add: 1 2 3)
  qed
qed

lemma wait_ends:
  "\<exists>rc w'. wait_for_any_ack I a b tmo w = Some (rc, w') \<and>
     (rc = 0 \<or> rc = - ETIMEDOUT \<and> now w + uint tmo \<le> now w')"
proof -
  obtain s w1 where 1: "i2c_uptime I w = (s, w1)" by fastforce
  with uptime_now [OF 1] ack_loop_ends [of a b s "uint tmo" w1] show ?thesis
    by (auto simp: wait_for_any_ack_def)
qed

lemma program_one_ends: "program_one_sensor_address I i new sw \<noteq> None"
proof -
  obtain r1 s1 w1 where 1: "enable_one_sensor I (vl53l5_en_channels ! i) sw = (r1, s1, w1)"
    by (metis prod.exhaust)
  moreover obtain r2 w2 where "wait_for_any_ack I VL53L5_DEFAULT_ADDR_7BIT new 500 w1 = Some (r2, w2)"
    using wait_ends [of VL53L5_DEFAULT_ADDR_7BIT new 500 w1] by blast
  ultimately show ?thesis by (simp add: program_one_sensor_address_def del: not_None_eq)
qed

lemma program_all_ends: "program_all I is sw \<noteq> None"
proof (induction "is" arbitrary: sw)
  case (Cons i "is")
  obtain y where "program_one_sensor_address I i (VL53L5_BASE_NEW_ADDR_7BIT + word_of_nat i) sw = Some y"
    using program_one_ends by blast
  with Cons.IH show ?case by (cases y) auto
qed simp

lemma setup_ends: "tof_setup I T sw \<noteq> None"
proof -
  obtain r0 sw0 where 0: "ads7128_force_low_set I sw = (r0, sw0)" by (metis prod.exhaust)
  with program_all_ends [of "[0..<VL53L5_SENSOR_COUNT]" sw0] show ?thesis
    by (auto simp: tof_setup_def split: option.splits prod.splits)
qed

end

section \<open>The main loop\<close>

text \<open>The states at the top of the endless loop of \<open>main\<close>.\<close>

inductive tof_reachable :: "'w i2c_api \<Rightarrow> 'w tof_api \<Rightarrow> u8 \<times> 'w \<Rightarrow> bool" for I T where
  booted: "tof_setup I T sw = Some (0, sw') \<Longrightarrow> tof_reachable I T sw'"
| sampled: "tof_reachable I T sw \<Longrightarrow> sample_round I T sw = (True, sw') \<Longrightarrow> tof_reachable I T sw'"

context tof_board begin

lemma init_all_last:
  "init_all I T is sw = (True, s', w') \<Longrightarrow> is \<noteq> [] \<Longrightarrow>
     s' = channel_bit (vl53l5_en_channels ! last is) \<and> gpo regs w' = channel_bit (vl53l5_en_channels ! last is)"
proof (induction "is" arbitrary: sw)
  case (Cons i "is")
  obtain r1 s1 w1 where 1: "enable_one_sensor I (vl53l5_en_channels ! i) sw = (r1, s1, w1)"
    by (metis prod.exhaust)
  obtain r2 w2 where 2: "tof_reinit T i w1 = (r2, w2)" by fastforce
  have "r1 = 0" "r2 = 0" using Cons.prems by (auto simp: 1 2 split: if_splits)
  with enable_sensor_gpo [of "vl53l5_en_channels ! i" sw s1 w1] 1 reinit_regs [OF 2] Cons show ?case
    by (cases "is = []") (auto simp: 2 gpo_def)
qed simp

lemma sample_all_last:
  "sample_all I T is sw = (True, s', w') \<Longrightarrow> is \<noteq> [] \<Longrightarrow>
     s' = channel_bit (vl53l5_en_channels ! last is) \<and> gpo regs w' = channel_bit (vl53l5_en_channels ! last is)"
proof (induction "is" arbitrary: sw)
  case (Cons i "is")
  obtain g d s1 w1 where 1: "sample_one I T i sw = (g, d, s1, w1)" by (metis prod.exhaust)
  then have "g" using Cons.prems by (auto split: if_splits)
  with sample_one_enabled [of i sw d s1 w1] 1 Cons show ?case
    by (cases "is = []") auto
qed simp

lemma last_channel: "channel_bit (vl53l5_en_channels ! last [0..<VL53L5_SENSOR_COUNT]) = 0x10"
  by (simp add: vl53l5_consts channel_bit_def)

lemma reachable_gpo:
  assumes "tof_reachable I T sw"
  shows "fst sw = 0x10 \<and> gpo regs (snd sw) = 0x10"
  using assms
proof cases
  case (booted sw0)
  then obtain s1 w1 where "init_all I T [0..<VL53L5_SENSOR_COUNT] (s1, w1) = (True, sw)"
    by (auto simp: tof_setup_def split: if_splits option.splits prod.splits)
  with init_all_last [of _ "(s1, w1)" "fst sw" "snd sw"] last_channel show ?thesis
    by (simp add: VL53L5_SENSOR_COUNT_def)
next
  case (sampled sw0)
  then obtain w1 where "sample_all I T [0..<VL53L5_SENSOR_COUNT] sw0 = (True, fst sw, w1)"
    and "snd sw = i2c_msleep I 500 w1"
    by (auto simp: sample_round_def split: if_splits prod.splits)
  with sample_all_last [of "[0..<VL53L5_SENSOR_COUNT]" sw0 "fst sw" w1] last_channel show ?thesis
    by (simp add: VL53L5_SENSOR_COUNT_def gpo_def sleep_regs)
qed

end

definition sim_tof :: "bus_world tof_api" where
  "sim_tof = \<lparr>tof_ready = (\<lambda>i w. True), tof_reinit = (\<lambda>i w. (0, w)), tof_fetch = (\<lambda>i w. (0, w)),
     tof_distance = (\<lambda>i w. (0, 100 * int i, w)), tof_get_grid = (\<lambda>i w. (0, w))\<rparr>"

interpretation sim_board: tof_board sim_i2c chip_regs chip_sel sim_tof
  by unfold_locales (auto simp: sim_tof_def)

text \<open>A sensor that reports the device id, at each address of the list.\<close>

definition vl53l5_regs :: "u8 list \<Rightarrow> u8" where
  "vl53l5_regs bs = (if bs = [0, 0] then 0xF0 else 0x02)"

definition tof_world :: "u8 list \<Rightarrow> bus_world" where
  "tof_world as = \<lparr>chip_regs = (\<lambda>_. 0), chip_sel = 0, fails = [],
     sensors = (\<lambda>a. if a \<in> set as then Some vl53l5_regs else None), bus_clock = 0\<rparr>"

text \<open>
  C8: Two sensors are never left enabled together. Whatever the expander's outputs were
  before - a warm reset does not clear them - and whatever transfers fail, with or without
  effect, the setup ends, and then the outputs enable at most one of the sensors that share
  the power-on address and nothing else, unless setup gave up before it could write them at
  all, with the outputs as they were; and at the end of every round of the loop that the
  program can reach, completed or given up, again at most one sensor is enabled. The sensor
  drivers are any that leave the expander alone, and time does not run backwards.
\<close>

theorem sensors_enabled_exclusively:
  assumes "tof_board I regs sel T" and "i2c_clock I now"
  shows "(\<exists>rc s' w'. tof_setup I T sw = Some (rc, s', w') \<and>
      (exclusive (gpo regs w') \<or> (rc = 1 \<and> gpo regs w' = gpo regs (snd sw)))) \<and>
    (tof_reachable I T sw \<longrightarrow> (\<forall>ok s' w'. sample_round I T sw = (ok, s', w') \<longrightarrow> exclusive (gpo regs w')))"
proof -
  obtain rc s' w' where s: "tof_setup I T sw = Some (rc, s', w')"
    using i2c_clock.setup_ends [OF assms(2), of T sw] by (metis not_None_eq prod.exhaust)
  have "exclusive (gpo regs w2)" if "tof_reachable I T sw" and "sample_round I T sw = (ok, s2, w2)" for ok s2 w2
  proof (rule tof_board.round_exclusive [OF assms(1) that(2)])
    show "exclusive (gpo regs (snd sw))"
      using tof_board.reachable_gpo [OF assms(1) that(1)] exclusive_simps(2) [of 3]
      by (simp add: vl53l5_consts channel_bit_def)
  qed
  with s tof_board.setup_exclusive [OF assms(1) s] show ?thesis by blast
qed

text \<open>After a warm reset two sensors are still enabled, and the sixth transfer fails.\<close>

definition warm_world :: bus_world where
  "warm_world = (tof_world [0x29])\<lparr>chip_regs := (\<lambda>_. 0)(GPO_VALUE_ADDRESS := 0x06),
     fails := [False, False, False, False, False, True]\<rparr>"

lemma sensors_enabled_exclusively_witness:
  "\<exists>rc s' w'. tof_setup sim_i2c sim_tof (0, warm_world) = Some (rc, s', w') \<and>
      (exclusive (gpo chip_regs w') \<or> (rc = 1 \<and> gpo chip_regs w' = 0x06))"
  using sensors_enabled_exclusively [OF sim_board.tof_board_axioms sim_clock.i2c_clock_axioms, of "(0, warm_world)"]
  by (simp add: gpo_def warm_world_def)

text \<open>Where the sensors already have their addresses, the setup succeeds.\<close>

lemma tof_setup_succeeds:
  "case tof_setup sim_i2c sim_tof (0, tof_world [0x31, 0x32, 0x33, 0x34]) of
     None \<Rightarrow> False | Some (rc, s, w) \<Rightarrow> rc = 0"
  by code_simp

text \<open>
  At the top of the main loop only the last sensor is enabled and the shadow variable
  agrees with the chip; and a sensor is sampled with its own enable line high and no other.
\<close>

theorem sampled_sensor_alone_enabled:
  assumes "tof_board I regs sel T" and "tof_reachable I T (s, w)"
  shows "s = 0x10 \<and> gpo regs w = 0x10 \<and>
    (\<forall>i d s' w'. sample_one I T i (s, w) = (True, d, s', w') \<longrightarrow>
       s' = channel_bit (vl53l5_en_channels ! i) \<and> gpo regs w' = s')"
  using tof_board.reachable_gpo [OF assms] tof_board.sample_one_enabled [OF assms(1)] by fastforce

lemma sampled_sensor_alone_enabled_witness:
  "\<exists>s w. tof_setup sim_i2c sim_tof (0, tof_world [0x31, 0x32, 0x33, 0x34]) = Some (0, s, w) \<and>
     s = 0x10 \<and> gpo chip_regs w = 0x10"
proof -
  obtain s w where b: "tof_setup sim_i2c sim_tof (0, tof_world [0x31, 0x32, 0x33, 0x34]) = Some (0, s, w)"
    using tof_setup_succeeds by (auto split: option.splits)
  show ?thesis
    using sampled_sensor_alone_enabled [OF sim_board.tof_board_axioms tof_reachable.booted [OF b]] b
    by blast
qed

text \<open>
  Waiting for a sensor to acknowledge ends: with 0 when one of the two addresses answered,
  and otherwise with \<open>-ETIMEDOUT\<close> once the timeout is over.
\<close>

theorem wait_for_any_ack_ends:
  assumes "i2c_clock I now"
  shows "\<exists>rc w'. wait_for_any_ack I a b tmo w = Some (rc, w') \<and>
     (rc = 0 \<or> rc = - ETIMEDOUT \<and> now w + uint tmo \<le> now w')"
  by (rule i2c_clock.wait_ends [OF assms])

lemma wait_for_any_ack_ends_witness:
  "\<exists>rc w'. wait_for_any_ack sim_i2c 0x29 0x31 500 (tof_world []) = Some (rc, w') \<and>
     (rc = 0 \<or> rc = - ETIMEDOUT \<and> bus_clock (tof_world []) + uint (500 :: u32) \<le> bus_clock w')"
  by (rule wait_for_any_ack_ends [OF sim_clock.i2c_clock_axioms])

text \<open>
  Readdressing is reported as successful although it failed. On a bus where the sensor
  keeps the power-on address, \<open>program_one_sensor_address\<close> returns 0, because the
  result of the last probe at the new address is not looked at.
\<close>

theorem readdress_failure_unnoticed:
  "case program_one_sensor_address sim_i2c 0 0x31 (0, tof_world [0x29]) of
     None \<Rightarrow> False
   | Some (rc, s, w) \<Rightarrow> rc = 0 \<and> fst (vl53l5cx_probe_id sim_i2c 0x31 0 w) \<noteq> 0"
  by code_simp

end
