(* ===== verification/Pmw3901.thy ===== *)
theory Pmw3901
  imports Prelude
begin

text \<open>
  The optical-flow sensor driver: \<open>samples/riskybird/pmw3901_test/src/pmw3901.c\<close>, its test
  program, and the copy of the driver in \<open>samples/riskybird/sensor_bringup\<close>. The SPI
  controller, the GPIO pins and the clock are a parameter, the record \<open>pmw_api\<close>; the driver
  ignores the status of every SPI and pin call, so none is kept. The locale \<open>pmw_chip\<close>
  states what the sensor's data sheet says of its serial interface.
\<close>

datatype pmw_pin = CS_GPIO | RESET_GPIO | LED_GPIO

text \<open>\<open>pin_present\<close>: the pin's \<open>port\<close> in the configuration is not \<open>NULL\<close>.\<close>

record 'w pmw_api =
  spi_is_ready :: "'w \<Rightarrow> bool"
  pin_present :: "pmw_pin \<Rightarrow> bool"
  pin_is_ready :: "pmw_pin \<Rightarrow> 'w \<Rightarrow> bool"
  pin_configure_inactive :: "pmw_pin \<Rightarrow> 'w \<Rightarrow> 'w"
  pin_set :: "pmw_pin \<Rightarrow> bool \<Rightarrow> 'w \<Rightarrow> 'w"
  spi_write :: "u8 list \<Rightarrow> 'w \<Rightarrow> 'w"
  spi_transceive :: "u8 list \<Rightarrow> u8 list \<Rightarrow> 'w \<Rightarrow> u8 list \<times> 'w"
  spi_read :: "u8 list \<Rightarrow> 'w \<Rightarrow> u8 list \<times> 'w"
  pmw_busy_wait :: "int \<Rightarrow> 'w \<Rightarrow> 'w"
  pmw_msleep :: "int \<Rightarrow> 'w \<Rightarrow> 'w"
  pmw_uptime :: "'w \<Rightarrow> int \<times> 'w"

section \<open>The driver\<close>

definition cs_deassert :: "'w pmw_api \<Rightarrow> 'w \<Rightarrow> 'w" where
  "cs_deassert P w = pin_set P CS_GPIO False w"

definition cs_assert :: "'w pmw_api \<Rightarrow> 'w \<Rightarrow> 'w" where
  "cs_assert P w = pin_set P CS_GPIO True w"

definition busy_wait_us :: "'w pmw_api \<Rightarrow> int \<Rightarrow> 'w \<Rightarrow> 'w" where
  "busy_wait_us P n w = pmw_busy_wait P n w"

definition pmw3901_register_read :: "'w pmw_api \<Rightarrow> u8 \<Rightarrow> 'w \<Rightarrow> u8 \<times> 'w" where
  "pmw3901_register_read P reg w =
     (let w = busy_wait_us P 50 (cs_assert P w);
          w = busy_wait_us P 500 (spi_write P [reg AND NOT 0x80] w)
      in case spi_transceive P [0] [0] w of (data, w) \<Rightarrow>
         (data ! 0, pmw_msleep P 1 (cs_deassert P (busy_wait_us P 50 w))))"

definition pmw3901_register_write :: "'w pmw_api \<Rightarrow> u8 \<Rightarrow> u8 \<Rightarrow> 'w \<Rightarrow> int \<times> 'w" where
  "pmw3901_register_write P reg value w =
     (let w = busy_wait_us P 50 (cs_assert P w);
          w = busy_wait_us P 50 (spi_write P [reg OR 0x80, value] w)
      in (0, pmw_msleep P 1 (cs_deassert P w)))"

text \<open>The calls of \<open>init_registers\<close> before and after its pause.\<close>

definition init_table_1 :: "(u8 \<times> u8) list" where
  "init_table_1 =
    [(0x7F, 0x00), (0x61, 0xAD), (0x7F, 0x03), (0x40, 0x00), (0x7F, 0x05), (0x41, 0xB3),
     (0x43, 0xF1), (0x45, 0x14), (0x5B, 0x32), (0x5F, 0x34), (0x7B, 0x08), (0x7F, 0x06),
     (0x44, 0x1B), (0x40, 0xBF), (0x4E, 0x3F), (0x7F, 0x08), (0x65, 0x20), (0x6A, 0x18),
     (0x7F, 0x09), (0x4F, 0xAF), (0x5F, 0x40), (0x48, 0x80), (0x49, 0x80), (0x57, 0x77),
     (0x60, 0x78), (0x61, 0x78), (0x62, 0x08), (0x63, 0x50), (0x7F, 0x0A), (0x45, 0x60),
     (0x7F, 0x00), (0x4D, 0x11), (0x55, 0x80), (0x74, 0x1F), (0x75, 0x1F), (0x4A, 0x78),
     (0x4B, 0x78), (0x44, 0x08), (0x45, 0x50), (0x64, 0xFF), (0x65, 0x1F), (0x7F, 0x14),
     (0x65, 0x67), (0x66, 0x08), (0x63, 0x70), (0x7F, 0x15), (0x48, 0x48), (0x7F, 0x07),
     (0x41, 0x0D), (0x43, 0x14), (0x4B, 0x0E), (0x45, 0x0F), (0x44, 0x42), (0x4C, 0x80),
     (0x7F, 0x10), (0x5B, 0x02), (0x7F, 0x07), (0x40, 0x41), (0x70, 0x00)]"

definition init_table_2 :: "(u8 \<times> u8) list" where
  "init_table_2 =
    [(0x32, 0x44), (0x7F, 0x07), (0x40, 0x40), (0x7F, 0x06), (0x62, 0xF0), (0x63, 0x00),
     (0x7F, 0x0D), (0x48, 0xC0), (0x6F, 0xD5), (0x7F, 0x00), (0x5B, 0xA0), (0x4E, 0xA8),
     (0x5A, 0x50), (0x40, 0x80), (0x7F, 0x00), (0x5A, 0x10), (0x54, 0x00)]"

fun write_table :: "'w pmw_api \<Rightarrow> (u8 \<times> u8) list \<Rightarrow> 'w \<Rightarrow> 'w" where
  "write_table P [] w = w"
| "write_table P ((reg, value) # rest) w = write_table P rest (snd (pmw3901_register_write P reg value w))"

definition init_registers :: "'w pmw_api \<Rightarrow> 'w \<Rightarrow> 'w" where
  "init_registers P w = write_table P init_table_2 (pmw_msleep P 10 (write_table P init_table_1 w))"

text \<open>The reads whose result is dropped.\<close>

fun read_and_drop :: "'w pmw_api \<Rightarrow> u8 list \<Rightarrow> 'w \<Rightarrow> 'w" where
  "read_and_drop P [] w = w"
| "read_and_drop P (r # rs) w = read_and_drop P rs (snd (pmw3901_register_read P r w))"

text \<open>Asserts and releases the optional reset pin; \<open>None\<close> when it is not ready.\<close>

definition pmw3901_reset :: "'w pmw_api \<Rightarrow> 'w \<Rightarrow> 'w option" where
  "pmw3901_reset P w =
     (if \<not> pin_present P RESET_GPIO then Some w
      else if \<not> pin_is_ready P RESET_GPIO w then None
      else let w = pin_configure_inactive P RESET_GPIO w;
               w = pmw_msleep P 10 (pin_set P RESET_GPIO True w)
           in Some (pmw_msleep P 10 (pin_set P RESET_GPIO False w)))"

definition cs_toggle :: "'w pmw_api \<Rightarrow> 'w \<Rightarrow> 'w" where
  "cs_toggle P w =
     (let w = pmw_msleep P 2 (cs_deassert P w);
          w = pmw_msleep P 2 (cs_assert P w);
          w = pmw_msleep P 2 (cs_deassert P w)
      in pmw_msleep P 2 (cs_assert P w))"

text \<open>What follows the identification of the chip.\<close>

definition pmw3901_configure :: "'w pmw_api \<Rightarrow> 'w \<Rightarrow> int \<times> int option \<times> 'w" where
  "pmw3901_configure P w =
     (let w = pmw_msleep P 5 (snd (pmw3901_register_write P 0x3A 0x5A w));
          w = pmw_msleep P 1 (read_and_drop P [0x02, 0x03, 0x04, 0x05, 0x06] w);
          w = read_and_drop P [0x00, 0x5F] (init_registers P w)
      in case pmw_uptime P w of (t, w) \<Rightarrow> (0, Some (t * 1000), w))"

text \<open>Returns the status, \<open>data->last_read_time_us\<close> if it was set, and the world.\<close>

definition pmw3901_init :: "'w pmw_api \<Rightarrow> 'w \<Rightarrow> int \<times> int option \<times> 'w" where
  "pmw3901_init P w =
     (if \<not> spi_is_ready P w then (- ENODEV, None, w)
      else if \<not> pin_is_ready P CS_GPIO w then (- ENODEV, None, w)
      else let w = pin_configure_inactive P CS_GPIO w in
      case pmw3901_reset P w of
        None \<Rightarrow> (- ENODEV, None, w)
      | Some w \<Rightarrow>
          let w = (if pin_present P LED_GPIO \<and> pin_is_ready P LED_GPIO w
                   then pin_configure_inactive P LED_GPIO w else w);
              w = cs_toggle P (pmw_msleep P 40 w)
          in case pmw3901_register_read P 0x00 w of (chip_id, w) \<Rightarrow>
             case pmw3901_register_read P 0x5F w of (inv_chip_id, w) \<Rightarrow>
             if chip_id = 0x49 \<or> inv_chip_id = 0xB6 then pmw3901_configure P w
             else (- ENODEV, None, w))"

section \<open>Motion\<close>

text \<open>The packed structure, on a little-endian processor; \<open>int16_t\<close> is a 16-bit word.\<close>

record motionBurst =
  motion :: u8
  observation :: u8
  deltaX :: u16
  deltaY :: u16
  squal :: u8
  rawDataSum :: u8
  maxRawData :: u8
  minRawData :: u8
  shutter :: u16

definition motionBurst_of_bytes :: "u8 list \<Rightarrow> motionBurst" where
  "motionBurst_of_bytes b =
     \<lparr>motion = b ! 0, observation = b ! 1, deltaX = mk16 (b ! 3) (b ! 2), deltaY = mk16 (b ! 5) (b ! 4),
      squal = b ! 6, rawDataSum = b ! 7, maxRawData = b ! 8, minRawData = b ! 9,
      shutter = mk16 (b ! 11) (b ! 10)\<rparr>"

definition real_shutter :: "u16 \<Rightarrow> u16" where
  "real_shutter s = (drop_bit 8 s AND 0x0FF) OR push_bit 8 (s AND 0x0FF)"

definition motionOccured :: "motionBurst \<Rightarrow> bool" where
  "motionOccured m = bit (motion m) 7"

definition pmw3901_read_motion_burst :: "'w pmw_api \<Rightarrow> 'w \<Rightarrow> int \<times> motionBurst \<times> 'w" where
  "pmw3901_read_motion_burst P w =
     (let w = pmw_msleep P 1 (cs_assert P w);
          w = pmw_msleep P 1 (spi_write P [0x16] w)
      in case spi_read P (replicate 12 0) w of (rx_buffer, w) \<Rightarrow>
         let m = motionBurst_of_bytes rx_buffer
         in (0, m\<lparr>shutter := real_shutter (shutter m)\<rparr>, pmw_msleep P 1 (cs_deassert P w)))"

text \<open>
  The C code leaves the order of the two reads of an expression open; here the left one comes
  first. \<open>int\<close> arithmetic, then the conversion to \<open>int16_t\<close>.
\<close>

definition negated_count :: "u8 \<Rightarrow> u8 \<Rightarrow> u16" where
  "negated_count h l = word_of_int (- 1 * or (push_bit 8 (uint h)) (uint l))"

definition pmw3901_read_motion_count :: "'w pmw_api \<Rightarrow> 'w \<Rightarrow> int \<times> u16 \<times> u16 \<times> 'w" where
  "pmw3901_read_motion_count P w =
     (case pmw3901_register_read P 0x02 w of (_, w) \<Rightarrow>
      case pmw3901_register_read P 0x04 w of (yh, w) \<Rightarrow>
      case pmw3901_register_read P 0x03 w of (yl, w) \<Rightarrow>
      case pmw3901_register_read P 0x06 w of (xh, w) \<Rightarrow>
      case pmw3901_register_read P 0x05 w of (xl, w) \<Rightarrow>
      (0, negated_count xh xl, negated_count yh yl, w))"

section \<open>The sensor's serial interface\<close>

text \<open>
  \<open>cs w\<close>: the sensor is selected; \<open>sel w\<close>: the register addressed last; \<open>writes w\<close>: the
  register writes the sensor has taken, in order; \<open>val w r\<close>: what register \<open>r\<close> reads as.
  A frame whose first byte has its top bit set writes, one without addresses a register to
  read; reading register 2 latches the motion registers 3 to 6, and nothing else does.
\<close>

definition motion_latch :: "u8 set" where "motion_latch = {3, 4, 5, 6}"

locale pmw_chip =
  fixes P :: "'w pmw_api" and cs :: "'w \<Rightarrow> bool" and sel :: "'w \<Rightarrow> u8"
    and writes :: "'w \<Rightarrow> (u8 \<times> u8) list" and val :: "'w \<Rightarrow> u8 \<Rightarrow> u8"
  assumes cs_set: "cs (pin_set P CS_GPIO b w) = b"
    and cs_configure: "\<not> cs (pin_configure_inactive P CS_GPIO w)"
    and cs_other: "pin \<noteq> CS_GPIO \<Longrightarrow> cs (pin_set P pin b w) = cs w"
      "pin \<noteq> CS_GPIO \<Longrightarrow> cs (pin_configure_inactive P pin w) = cs w"
    and cs_keep: "cs (spi_write P bs w) = cs w" "cs (snd (spi_transceive P tx rx w)) = cs w"
      "cs (pmw_busy_wait P n w) = cs w" "cs (pmw_msleep P n w) = cs w" "cs (snd (pmw_uptime P w)) = cs w"
    and reg_write: "cs w \<Longrightarrow> bit a 7 \<Longrightarrow> writes (spi_write P [a, v] w) = writes w @ [(a AND 0x7F, v)]"
    and reg_select: "cs w \<Longrightarrow> \<not> bit a 7 \<Longrightarrow> writes (spi_write P [a] w) = writes w \<and> sel (spi_write P [a] w) = a"
    and reg_answer: "cs w \<Longrightarrow> fst (spi_transceive P [t] [d] w) = [val w (sel w)]"
    and writes_keep: "writes (pin_set P pin b w) = writes w" "writes (pin_configure_inactive P pin w) = writes w"
      "writes (snd (spi_transceive P tx rx w)) = writes w" "writes (pmw_busy_wait P n w) = writes w"
      "writes (pmw_msleep P n w) = writes w" "writes (snd (pmw_uptime P w)) = writes w"
    and sel_keep: "sel (pmw_busy_wait P n w) = sel w"
    and latch_keep: "r \<in> motion_latch \<Longrightarrow> val (pin_set P pin b w) r = val w r"
      "r \<in> motion_latch \<Longrightarrow> val (spi_write P [a] w) r = val w r"
      "r \<in> motion_latch \<Longrightarrow> cs w \<Longrightarrow> sel w \<noteq> 2 \<Longrightarrow> val (snd (spi_transceive P tx rx w)) r = val w r"
      "r \<in> motion_latch \<Longrightarrow> val (pmw_busy_wait P n w) r = val w r"
      "r \<in> motion_latch \<Longrightarrow> val (pmw_msleep P n w) r = val w r"
begin

lemmas keeps = cs_set cs_configure cs_keep writes_keep sel_keep latch_keep

lemma register_write:
  assumes "\<not> bit reg 7" and "pmw3901_register_write P reg v w = (rc, w')"
  shows "rc = 0 \<and> \<not> cs w' \<and> writes w' = writes w @ [(reg, v)]"
proof -
  show ?thesis
    using assms(2) by (auto simp: pmw3901_register_write_def cs_deassert_def cs_assert_def
        busy_wait_us_def Let_def keeps reg_write [OF _ top_bit_set] top_bit_cleared(1) [OF assms(1)])
qed

lemma table_writes:
  assumes "\<forall>(r, v) \<in> set t. \<not> bit r 7" and "\<not> cs w"
  shows "\<not> cs (write_table P t w) \<and> writes (write_table P t w) = writes w @ t"
  using assms
proof (induction t arbitrary: w)
  case (Cons e t)
  obtain r v where e: "e = (r, v)" by fastforce
  obtain rc w1 where 1: "pmw3901_register_write P r v w = (rc, w1)" by fastforce
  with register_write [OF _ 1] Cons.IH [of w1] Cons.prems e show ?case by auto
qed simp

lemma tables_low: "\<forall>(r, v) \<in> set (init_table_1 @ init_table_2). \<not> bit r 7"
  by (simp add: init_table_1_def init_table_2_def bit_simps)

lemma init_registers_writes:
  assumes "\<not> cs w"
  shows "\<not> cs (init_registers P w) \<and> writes (init_registers P w) = writes w @ init_table_1 @ init_table_2"
proof -
  have low: "\<forall>(r, v) \<in> set init_table_1. \<not> bit r 7" "\<forall>(r, v) \<in> set init_table_2. \<not> bit r 7"
    using tables_low by auto
  show ?thesis
    using table_writes [OF low(1) assms] table_writes [OF low(2), of "pmw_msleep P 10 (write_table P init_table_1 w)"]
    by (simp add: init_registers_def keeps)
qed

lemma register_read:
  assumes "\<not> bit reg 7" and "pmw3901_register_read P reg w = (d, w')"
  shows "\<not> cs w' \<and> writes w' = writes w \<and> (reg \<in> motion_latch \<longrightarrow> d = val w reg) \<and>
    (reg \<noteq> 2 \<longrightarrow> (\<forall>r \<in> motion_latch. val w' r = val w r))"
proof -
  note a = top_bit_cleared(2) [OF assms(1)]
  define w1 where "w1 = busy_wait_us P 50 (cs_assert P w)"
  define w2 where "w2 = busy_wait_us P 500 (spi_write P [reg] w1)"
  obtain x w3 where 3: "spi_transceive P [0] [0] w2 = (x, w3)" by fastforce
  have c1: "cs w1" "writes w1 = writes w" by (simp_all add: w1_def busy_wait_us_def cs_assert_def keeps)
  note s = reg_select [OF c1(1) assms(1)]
  have c2: "cs w2" "writes w2 = writes w" "sel w2 = reg"
    using c1 s by (simp_all add: w2_def busy_wait_us_def keeps)
  have v1: "\<forall>r \<in> motion_latch. val w2 r = val w r"
    by (simp add: w2_def w1_def busy_wait_us_def cs_assert_def keeps)
  have x: "x = [val w2 reg]" using reg_answer [OF c2(1), of 0 0] 3 c2(3) by simp
  have w3: "writes w3 = writes w" "cs w3" using writes_keep(3) [of "[0]" "[0]" w2] cs_keep(2) [of "[0]" "[0]" w2]
      3 c2 by simp_all
  have v3: "reg \<noteq> 2 \<longrightarrow> (\<forall>r \<in> motion_latch. val w3 r = val w r)"
    using latch_keep(3) [OF _ c2(1), of _ "[0]" "[0]"] 3 c2(3) v1 by auto
  have "(d, w') = (x ! 0, pmw_msleep P 1 (cs_deassert P (busy_wait_us P 50 w3)))"
    using assms(2) unfolding pmw3901_register_read_def Let_def a w1_def [symmetric] w2_def [symmetric] 3
    by simp
  with x w3 v1 v3 show ?thesis by (auto simp: cs_deassert_def busy_wait_us_def keeps)
qed

lemma dropped_reads:
  assumes "\<forall>r \<in> set rs. \<not> bit r 7" and "\<not> cs w"
  shows "\<not> cs (read_and_drop P rs w) \<and> writes (read_and_drop P rs w) = writes w"
  using assms
proof (induction rs arbitrary: w)
  case (Cons r rs)
  obtain d w1 where 1: "pmw3901_register_read P r w = (d, w1)" by fastforce
  with register_read [OF _ 1] Cons.IH [of w1] Cons.prems show ?case by auto
qed simp

lemma reset_writes: "pmw3901_reset P w = Some w' \<Longrightarrow> writes w' = writes w"
  by (auto simp: pmw3901_reset_def Let_def keeps split: if_splits)

lemma toggle_writes: "writes (cs_toggle P w) = writes w"
  by (simp add: cs_toggle_def cs_deassert_def cs_assert_def Let_def keeps)

lemma configure_writes:
  assumes "pmw3901_configure P w = (rc, t, w')"
  shows "rc = 0 \<and> t \<noteq> None \<and> \<not> cs w' \<and>
    writes w' = writes w @ (0x3A, 0x5A) # init_table_1 @ init_table_2"
proof -
  have low: "\<not> bit (0x3A :: u8) 7" "\<forall>r \<in> set [2, 3, 4, 5, 6 :: u8]. \<not> bit r 7"
    "\<forall>r \<in> set [0, 0x5F :: u8]. \<not> bit r 7"
    by (simp_all add: bit_simps)
  obtain r5 w5 where 5: "pmw3901_register_write P 0x3A 0x5A w = (r5, w5)" by fastforce
  define w6 where "w6 = pmw_msleep P 5 w5"
  define w7 where "w7 = pmw_msleep P 1 (read_and_drop P [0x02, 0x03, 0x04, 0x05, 0x06] w6)"
  define w8 where "w8 = read_and_drop P [0x00, 0x5F] (init_registers P w7)"
  obtain u w9 where 9: "pmw_uptime P w8 = (u, w9)" by fastforce
  have w6: "\<not> cs w6" "writes w6 = writes w @ [(0x3A, 0x5A)]"
    using register_write [OF low(1) 5] by (simp_all add: w6_def keeps)
  have w7: "\<not> cs w7" "writes w7 = writes w6"
    using dropped_reads [OF low(2) w6(1)] by (simp_all add: w7_def keeps del: read_and_drop.simps)
  have w8: "\<not> cs w8" "writes w8 = writes w7 @ init_table_1 @ init_table_2"
    using dropped_reads [OF low(3), of "init_registers P w7"] init_registers_writes [OF w7(1)]
    by (simp_all add: w8_def del: read_and_drop.simps)
  have w9: "\<not> cs w9" "writes w9 = writes w8"
    using w8 cs_keep(5) [of w8] writes_keep(6) [of w8] 9 by simp_all
  have "(rc, t, w') = (0, Some (u * 1000), w9)"
    using assms unfolding pmw3901_configure_def Let_def 5 snd_conv w6_def [symmetric] w7_def [symmetric]
      w8_def [symmetric] 9 by simp
  with w6 w7 w8 w9 show ?thesis by simp
qed

lemma init_writes:
  assumes "pmw3901_init P w = (rc, t, w')"
  shows "(rc = 0 \<and> t \<noteq> None \<and> \<not> cs w' \<and> writes w' = writes w @ (0x3A, 0x5A) # init_table_1 @ init_table_2) \<or>
    (rc = - ENODEV \<and> t = None \<and> writes w' = writes w)"
proof (cases "spi_is_ready P w \<and> pin_is_ready P CS_GPIO w")
  case False
  with assms show ?thesis by (cases "spi_is_ready P w") (auto simp: pmw3901_init_def)
next
  case True
  define w0 where "w0 = pin_configure_inactive P CS_GPIO w"
  have w0: "writes w0 = writes w" by (simp add: w0_def keeps)
  show ?thesis
  proof (cases "pmw3901_reset P w0")
    case None
    with assms True w0 show ?thesis by (auto simp: pmw3901_init_def Let_def simp flip: w0_def)
  next
    case (Some w1)
    define w2 where "w2 = cs_toggle P (pmw_msleep P 40
      (if pin_present P LED_GPIO \<and> pin_is_ready P LED_GPIO w1 then pin_configure_inactive P LED_GPIO w1 else w1))"
    have w2: "writes w2 = writes w" using reset_writes [OF Some] w0 by (simp add: w2_def toggle_writes keeps)
    obtain c1 w3 where 3: "pmw3901_register_read P 0 w2 = (c1, w3)" by fastforce
    obtain c2 w4 where 4: "pmw3901_register_read P 0x5F w3 = (c2, w4)" by fastforce
    have low: "\<not> bit (0 :: u8) 7" "\<not> bit (0x5F :: u8) 7" by (simp_all add: bit_simps)
    have w4: "writes w4 = writes w"
      using register_read [OF low(1) 3] register_read [OF low(2) 4] w2 by simp_all
    have "(rc, t, w') = (if c1 = 0x49 \<or> c2 = 0xB6 then pmw3901_configure P w4 else (- ENODEV, None, w4))"
      using assms True Some unfolding pmw3901_init_def Let_def w0_def [symmetric]
      by (simp add: 3 4 flip: w2_def)
    then show ?thesis
      using configure_writes [of w4 rc t w'] w4 by (cases "c1 = 0x49 \<or> c2 = 0xB6") auto
  qed
qed

lemma motion_count_latched:
  assumes "pmw3901_register_read P 0x02 w = (d, w2)" and "pmw3901_read_motion_count P w = (rc, dx, dy, w')"
  shows "rc = 0 \<and> dx = negated_count (val w2 6) (val w2 5) \<and> dy = negated_count (val w2 4) (val w2 3) \<and> \<not> cs w'"
proof -
  obtain yh w4 where 4: "pmw3901_register_read P 4 w2 = (yh, w4)" by fastforce
  obtain yl w3 where 3: "pmw3901_register_read P 3 w4 = (yl, w3)" by fastforce
  obtain xh w6 where 6: "pmw3901_register_read P 6 w3 = (xh, w6)" by fastforce
  obtain xl w5 where 5: "pmw3901_register_read P 5 w6 = (xl, w5)" by fastforce
  have low: "\<not> bit (3 :: u8) 7" "\<not> bit (4 :: u8) 7" "\<not> bit (5 :: u8) 7" "\<not> bit (6 :: u8) 7"
    by (simp_all add: bit_simps)
  show ?thesis
    using assms(2) register_read [OF low(2) 4] register_read [OF low(1) 3] register_read [OF low(4) 6]
      register_read [OF low(3) 5]
    by (simp add: pmw3901_read_motion_count_def assms(1) 3 4 5 6 motion_latch_def)
qed

end

section \<open>A sensor on which the laws hold\<close>

record pmw_world =
  cs_line :: bool
  addressed :: u8
  reg_values :: "u8 \<Rightarrow> u8"
  taken :: "(u8 \<times> u8) list"
  burst :: "u8 list"
  pmw_clock :: int

definition sim_spi_write :: "u8 list \<Rightarrow> pmw_world \<Rightarrow> pmw_world" where
  "sim_spi_write bs w =
     (if \<not> cs_line w then w
      else if length bs = 2 \<and> bit (bs ! 0) 7 then w\<lparr>taken := taken w @ [(bs ! 0 AND 0x7F, bs ! 1)]\<rparr>
      else if length bs = 1 \<and> \<not> bit (bs ! 0) 7 then w\<lparr>addressed := bs ! 0\<rparr>
      else w)"

definition sim_pmw :: "pmw_world pmw_api" where
  "sim_pmw = \<lparr>spi_is_ready = (\<lambda>w. True), pin_present = (\<lambda>p. True), pin_is_ready = (\<lambda>p w. True),
     pin_configure_inactive = (\<lambda>p w. if p = CS_GPIO then w\<lparr>cs_line := False\<rparr> else w),
     pin_set = (\<lambda>p b w. if p = CS_GPIO then w\<lparr>cs_line := b\<rparr> else w),
     spi_write = sim_spi_write,
     spi_transceive = (\<lambda>tx rx w. (if cs_line w then [reg_values w (addressed w)] else rx, w)),
     spi_read = (\<lambda>rx w. (burst w, w)),
     pmw_busy_wait = (\<lambda>n w. w), pmw_msleep = (\<lambda>n w. w\<lparr>pmw_clock := pmw_clock w + n\<rparr>),
     pmw_uptime = (\<lambda>w. (pmw_clock w, w))\<rparr>"

interpretation sim_pmw: pmw_chip sim_pmw cs_line addressed taken reg_values
  by unfold_locales (auto simp: sim_pmw_def sim_spi_write_def)

definition pmw_bench :: pmw_world where
  "pmw_bench = \<lparr>cs_line = False, addressed = 0, reg_values = (\<lambda>r. if r = 0 then 0x49 else r), taken = [],
     burst = [0x80, 0, 0x34, 0x12, 0xFF, 0xFF, 7, 0, 0, 0, 0x0A, 0x0B], pmw_clock = 0\<rparr>"

section \<open>Properties\<close>

text \<open>
  \<open>pmw3901_init\<close> configures an identified sensor completely, and no other one. With
  status 0 the sensor has taken the power-on reset and then exactly the register table of
  \<open>init_registers\<close>, in order, and is deselected; with \<open>-ENODEV\<close> it has taken no write.
\<close>

theorem pmw_init_all_or_nothing:
  assumes "pmw_chip P cs sel writes val" and "pmw3901_init P w = (rc, t, w')"
  shows "(rc = 0 \<and> t \<noteq> None \<and> \<not> cs w' \<and> writes w' = writes w @ (0x3A, 0x5A) # init_table_1 @ init_table_2) \<or>
    (rc = - ENODEV \<and> t = None \<and> writes w' = writes w)"
  by (rule pmw_chip.init_writes [OF assms])

lemma pmw_init_all_or_nothing_witness:
  "case pmw3901_init sim_pmw pmw_bench of (rc, t, w') \<Rightarrow>
     (rc = 0 \<and> t \<noteq> None \<and> \<not> cs_line w' \<and>
      taken w' = taken pmw_bench @ (0x3A, 0x5A) # init_table_1 @ init_table_2) \<or>
     (rc = - ENODEV \<and> t = None \<and> taken w' = taken pmw_bench)"
proof -
  obtain rc t w' where i: "pmw3901_init sim_pmw pmw_bench = (rc, t, w')" by (metis prod.exhaust)
  show ?thesis unfolding i prod.case
    by (rule pmw_init_all_or_nothing [OF sim_pmw.pmw_chip_axioms i])
qed

lemma negated_count: "negated_count h l = - mk16 h l"
proof -
  have "word_of_int (or (push_bit 8 (uint h)) (uint l)) = mk16 h l"
    unfolding mk16_def by (rule bit_word_eqI) (auto simp: bit_simps)
  then show ?thesis by (simp add: negated_count_def flip: wi_hom_neg)
qed

text \<open>
  The motion count is the negation, in 16 bits, of the two big-endian counts that reading
  the motion register latched, and the sensor is deselected afterwards.
\<close>

theorem motion_count_negates_latch:
  assumes "pmw_chip P cs sel writes val" and "pmw3901_register_read P 0x02 w = (d, w2)"
    and "pmw3901_read_motion_count P w = (rc, dx, dy, w')"
  shows "rc = 0 \<and> dx = - mk16 (val w2 6) (val w2 5) \<and> dy = - mk16 (val w2 4) (val w2 3) \<and> \<not> cs w'"
  using pmw_chip.motion_count_latched [OF assms] by (simp add: negated_count)

lemma motion_count_negates_latch_witness:
  "case pmw3901_register_read sim_pmw 0x02 pmw_bench of (d, w2) \<Rightarrow>
   case pmw3901_read_motion_count sim_pmw pmw_bench of (rc, dx, dy, w') \<Rightarrow>
     rc = 0 \<and> dx = - mk16 (reg_values w2 6) (reg_values w2 5) \<and>
     dy = - mk16 (reg_values w2 4) (reg_values w2 3) \<and> \<not> cs_line w'"
proof -
  obtain d w2 where 1: "pmw3901_register_read sim_pmw 0x02 pmw_bench = (d, w2)" by fastforce
  obtain rc dx dy w' where 2: "pmw3901_read_motion_count sim_pmw pmw_bench = (rc, dx, dy, w')"
    by (metis prod.exhaust)
  show ?thesis unfolding 1 2 prod.case
    by (rule motion_count_negates_latch [OF sim_pmw.pmw_chip_axioms 1 2])
qed

lemma real_shutter: "real_shutter (mk16 h l) = mk16 l h"
  unfolding real_shutter_def mk16_def low_byte_mask
  by (rule bit_word_eqI) (auto simp: bit_simps dest: bit_imp_le_length)

text \<open>
  Decoding of a motion burst: the deltas are the little-endian words of the buffer, not
  negated (unlike the motion count), the shutter is its big-endian word.
\<close>

theorem motion_burst_decodes:
  assumes "\<forall>v. fst (spi_read P (replicate 12 0) v) = b"
  shows "\<exists>m w'. pmw3901_read_motion_burst P w = (0, m, w') \<and>
    deltaX m = mk16 (b ! 3) (b ! 2) \<and> deltaY m = mk16 (b ! 5) (b ! 4) \<and> squal m = b ! 6 \<and>
    shutter m = mk16 (b ! 10) (b ! 11) \<and> (motionOccured m \<longleftrightarrow> bit (b ! 0) 7)"
proof -
  define v where "v = pmw_msleep P 1 (spi_write P [0x16] (pmw_msleep P 1 (cs_assert P w)))"
  obtain w1 where "spi_read P (replicate 12 0) v = (b, w1)" using assms by (metis prod.collapse)
  then show ?thesis
    unfolding pmw3901_read_motion_burst_def Let_def v_def [symmetric]
    by (simp add: motionBurst_of_bytes_def motionOccured_def real_shutter)
qed

lemma motion_burst_decodes_witness:
  "\<exists>m w'. pmw3901_read_motion_burst (sim_pmw\<lparr>spi_read := \<lambda>rx w. (burst pmw_bench, w)\<rparr>) pmw_bench = (0, m, w') \<and>
    deltaX m = mk16 0x12 0x34 \<and> deltaY m = mk16 0xFF 0xFF \<and> squal m = 7 \<and>
    shutter m = mk16 0x0A 0x0B \<and> (motionOccured m \<longleftrightarrow> bit (0x80 :: u8) 7)"
  using motion_burst_decodes [of "sim_pmw\<lparr>spi_read := \<lambda>rx w. (burst pmw_bench, w)\<rparr>" "burst pmw_bench" pmw_bench]
  by (simp add: pmw_bench_def)

text \<open>
  Half an identity is enough: a sensor whose identification register reads 0 is accepted
  and configured when only the inverse identification matches. The identification read again
  after the configuration is not compared with anything.
\<close>

theorem init_accepts_half_identity:
  "fst (pmw3901_init sim_pmw (pmw_bench\<lparr>reg_values := (\<lambda>r. if r = 0x5F then 0xB6 else 0)\<rparr>)) = 0"
  by code_simp

end
