(* ===== verification/Sensor_Bringup.thy ===== *)
theory Sensor_Bringup
  imports Ads7128 Pmw3901
begin

text \<open>
  The sensor bring-up program of \<open>samples/riskybird/sensor_bringup\<close>, with its own copies of the
  expander and optical-flow drivers, the two I2C scanner programs, and the expander program
  \<open>riskybird/i2c_expander\<close>. The I2C bus, the SPI side and the ToF sensor's driver are
  parameters over one world.
\<close>

section \<open>The copied optical-flow driver\<close>

text \<open>Registers are accessed as in the test program's driver.\<close>

definition bringup_register_read :: "'w pmw_api \<Rightarrow> u8 \<Rightarrow> 'w \<Rightarrow> u8 \<times> 'w" where
  "bringup_register_read P reg w =
     (let w = busy_wait_us P 500 (spi_write P [reg AND NOT 0x80] (busy_wait_us P 50 (cs_assert P w)))
      in case spi_transceive P [0] [0] w of (data, w) \<Rightarrow>
         (data ! 0, pmw_msleep P 1 (cs_deassert P (busy_wait_us P 50 w))))"

definition bringup_register_write :: "'w pmw_api \<Rightarrow> u8 \<Rightarrow> u8 \<Rightarrow> 'w \<Rightarrow> int \<times> 'w" where
  "bringup_register_write P reg value w =
     (let w = spi_write P [reg OR 0x80, value] (busy_wait_us P 50 (cs_assert P w))
      in (0, pmw_msleep P 1 (cs_deassert P (busy_wait_us P 50 w))))"

definition bringup_table_1 :: "(u8 \<times> u8) list" where
  "bringup_table_1 =
    [(0x7F, 0x00), (0x61, 0xAD), (0x7F, 0x03), (0x40, 0x00), (0x7F, 0x05), (0x41, 0xB3),
     (0x43, 0xF1), (0x45, 0x14), (0x5B, 0x32), (0x5F, 0x34), (0x7B, 0x08), (0x7F, 0x06),
     (0x44, 0x1B), (0x40, 0xBF), (0x4E, 0x3F), (0x7F, 0x08), (0x65, 0x20), (0x6A, 0x18),
     (0x7F, 0x09), (0x4F, 0xAF), (0x5F, 0x40), (0x48, 0x80), (0x49, 0x80), (0x57, 0x77),
     (0x60, 0x78), (0x61, 0x78), (0x62, 0x08), (0x63, 0x50), (0x7F, 0x0A), (0x45, 0x60),
     (0x7F, 0x00), (0x4D, 0x11), (0x55, 0x80), (0x74, 0x1F), (0x75, 0x1F), (0x4A, 0x78),
     (0x4B, 0x78), (0x44, 0x08), (0x45, 0x50), (0x64, 0xFF), (0x65, 0x1F), (0x7F, 0x14),
     (0x65, 0x67), (0x66, 0x08), (0x63, 0x70), (0x7F, 0x15), (0x48, 0x48), (0x7F, 0x07),
     (0x41, 0x0D), (0x43, 0x14), (0x4B, 0x0E), (0x45, 0x0F), (0x44, 0x42), (0x4C, 0x80),
     (0x7F, 0x10), (0x5B, 0x02), (0x7F, 0x07), (0x40, 0x41), (0x70, 0x00)]"

definition bringup_table_2 :: "(u8 \<times> u8) list" where
  "bringup_table_2 =
    [(0x32, 0x44), (0x7F, 0x07), (0x40, 0x40), (0x7F, 0x06), (0x62, 0xF0), (0x63, 0x00),
     (0x7F, 0x0D), (0x48, 0xC0), (0x6F, 0xD5), (0x7F, 0x00), (0x5B, 0xA0), (0x4E, 0xA8),
     (0x5A, 0x50), (0x40, 0x80), (0x7F, 0x00), (0x5A, 0x10), (0x54, 0x00)]"

fun bringup_write_table :: "'w pmw_api \<Rightarrow> (u8 \<times> u8) list \<Rightarrow> 'w \<Rightarrow> 'w" where
  "bringup_write_table P [] w = w"
| "bringup_write_table P ((reg, value) # rest) w =
     bringup_write_table P rest (snd (bringup_register_write P reg value w))"

definition bringup_init_registers :: "'w pmw_api \<Rightarrow> 'w \<Rightarrow> 'w" where
  "bringup_init_registers P w =
     bringup_write_table P bringup_table_2 (pmw_msleep P 10 (bringup_write_table P bringup_table_1 w))"

text \<open>Without the LED pin, the motion reads and the second identification.\<close>

definition bringup_pmw3901_init :: "'w pmw_api \<Rightarrow> 'w \<Rightarrow> int \<times> int option \<times> 'w" where
  "bringup_pmw3901_init P w =
     (if \<not> spi_is_ready P w then (- ENODEV, None, w)
      else if \<not> pin_is_ready P CS_GPIO w then (- ENODEV, None, w)
      else let w = pin_configure_inactive P CS_GPIO w in
      case pmw3901_reset P w of
        None \<Rightarrow> (- ENODEV, None, w)
      | Some w \<Rightarrow>
          case bringup_register_read P 0x00 (cs_toggle P (pmw_msleep P 40 w)) of (chip_id, w) \<Rightarrow>
          case bringup_register_read P 0x5F w of (inv_chip_id, w) \<Rightarrow>
          if chip_id = 0x49 \<or> inv_chip_id = 0xB6 then
            let w = pmw_msleep P 5 (snd (bringup_register_write P 0x3A 0x5A w));
                w = bringup_init_registers P w
            in case pmw_uptime P w of (t, w) \<Rightarrow> (0, Some (t * 1000), w)
          else (- ENODEV, None, w))"

definition bringup_read_motion_burst :: "'w pmw_api \<Rightarrow> 'w \<Rightarrow> int \<times> motionBurst \<times> 'w" where
  "bringup_read_motion_burst P w =
     (case spi_read P (replicate 12 0) (pmw_msleep P 1 (spi_write P [0x16] (pmw_msleep P 1 (cs_assert P w)))) of
        (rx_buffer, w) \<Rightarrow>
          let m = motionBurst_of_bytes rx_buffer; w = pmw_msleep P 1 (cs_deassert P w)
          in (0, m\<lparr>shutter := real_shutter (shutter m)\<rparr>, w))"

section \<open>Scanning the bus\<close>

text \<open>The addresses \<open>addr\<close> to \<open>0x77\<close> in order; the ones reported as found.\<close>

fun scan_from :: "'w i2c_api \<Rightarrow> u8 list \<Rightarrow> 'w \<Rightarrow> u8 list \<times> 'w" where
  "scan_from I [] w = ([], w)"
| "scan_from I (addr # rest) w =
     (case i2c_write I [] addr w of (ret, w) \<Rightarrow>
      case scan_from I rest (i2c_msleep I 10 w) of (found, w) \<Rightarrow>
      (if ret = 0 then addr # found else found, w))"

definition scan_addresses :: "u8 list" where
  "scan_addresses = map word_of_nat [0x03..<Suc 0x77]"

text \<open>\<open>i2c_scan\<close>: what it prints, the addresses found, is its result.\<close>

definition i2c_scan :: "'w i2c_api \<Rightarrow> 'w \<Rightarrow> u8 list \<times> 'w" where
  "i2c_scan I w = scan_from I scan_addresses w"

text \<open>\<open>main\<close> of the two scanner programs.\<close>

definition riskybird_i2c_scanner :: "'w i2c_api \<Rightarrow> 'w \<Rightarrow> int \<times> u8 list \<times> 'w" where
  "riskybird_i2c_scanner I w =
     (if \<not> i2c_is_ready I w then (1, [], w)
      else case scan_from I scan_addresses w of (found, w) \<Rightarrow> (0, found, w))"

definition samples_i2c_scanner :: "'w i2c_api \<Rightarrow> 'w \<Rightarrow> int \<times> u8 list \<times> 'w" where
  "samples_i2c_scanner I w =
     (if \<not> i2c_is_ready I w then (1, [], w)
      else case scan_from I scan_addresses w of (found, w) \<Rightarrow> (0, found, w))"

section \<open>Readdressing the ToF sensor\<close>

definition VL53L1X_OLD_ADDR :: u8 where "VL53L1X_OLD_ADDR = 0x29"
definition VL53L1X_NEW_ADDR :: u8 where "VL53L1X_NEW_ADDR = 0x30"
definition VL53L1X_I2C_SLAVE_ADDR_REG :: u16 where "VL53L1X_I2C_SLAVE_ADDR_REG = 0x01"

text \<open>At most \<open>n\<close> probes; the outcome is only printed.\<close>

fun probe_attempts :: "'w i2c_api \<Rightarrow> nat \<Rightarrow> u8 \<Rightarrow> 'w \<Rightarrow> 'w" where
  "probe_attempts I 0 addr w = w"
| "probe_attempts I (Suc n) addr w =
     (case i2c_write I [] addr w of (ret, w) \<Rightarrow>
        if ret = 0 then w else probe_attempts I n addr (i2c_msleep I 10 w))"

definition vl53l1x_change_address :: "'w i2c_api \<Rightarrow> u8 \<Rightarrow> u8 \<Rightarrow> 'w \<Rightarrow> int \<times> 'w" where
  "vl53l1x_change_address I old_addr new_addr w =
     (case ads7128_read_reg I GPO_VALUE_ADDRESS 0 w of (ret, gpo_value, w) \<Rightarrow>
      if ret \<noteq> 0 then (ret, w)
      else if \<not> bit gpo_value 6 then (- EINVAL, w)
      else let w = probe_attempts I 5 old_addr (i2c_msleep I 50 w);
               hi = hi8 VL53L1X_I2C_SLAVE_ADDR_REG; lo = lo8 VL53L1X_I2C_SLAVE_ADDR_REG
      in case i2c_write I [hi, lo, new_addr] old_addr w of (ret, w) \<Rightarrow>
         if ret \<noteq> 0 then (ret, w)
         else case i2c_write_read I old_addr [hi, lo] 1 [0] (i2c_msleep I 10 w) of (_, _, w) \<Rightarrow>
         case i2c_write_read I new_addr [hi, lo] 1 [0] w of (_, _, w) \<Rightarrow>
         (0, w))"

section \<open>The bring-up program\<close>

text \<open>The ToF sensor's driver: \<open>vl53l1x_reinit\<close> and the Zephyr sensor calls.\<close>

record 'w range_api =
  range_reinit :: "'w \<Rightarrow> int \<times> 'w"
  range_fetch :: "'w \<Rightarrow> int \<times> 'w"
  range_distance :: "'w \<Rightarrow> int \<times> int \<times> 'w"

text \<open>
  \<open>nodes\<close>: the devicetree has the SPI and GPIO nodes. The outcome of the initialisation is
  printed only.
\<close>

definition bringup_flow_start :: "'w pmw_api \<Rightarrow> bool \<Rightarrow> 'w \<Rightarrow> 'w" where
  "bringup_flow_start P nodes w =
     (if \<not> nodes then w
      else if \<not> spi_is_ready P w \<or> \<not> pin_is_ready P CS_GPIO w then w
      else snd (snd (bringup_pmw3901_init P w)))"

text \<open>The loops over the outputs stop at the first failure.\<close>

fun configure_outputs :: "'w i2c_api \<Rightarrow> u8 list \<Rightarrow> 'w \<Rightarrow> int \<times> 'w" where
  "configure_outputs I [] w = (0, w)"
| "configure_outputs I (ch # chs) w =
     (case ads7128_config_gpio_output I ch w of (ret, w') \<Rightarrow>
        if ret \<noteq> 0 then (ret, w') else configure_outputs I chs w')"

fun clear_outputs :: "'w i2c_api \<Rightarrow> u8 list \<Rightarrow> 'w \<Rightarrow> int \<times> 'w" where
  "clear_outputs I [] w = (0, w)"
| "clear_outputs I (ch # chs) w =
     (case ads7128_write_gpio I ch 0 w of (ret, w') \<Rightarrow>
        if ret \<noteq> 0 then (ret, w') else clear_outputs I chs w')"

text \<open>The readdressing and the checks after it, which only print.\<close>

definition bringup_readdress :: "'w i2c_api \<Rightarrow> 'w \<Rightarrow> 'w" where
  "bringup_readdress I w =
     (case vl53l1x_change_address I VL53L1X_OLD_ADDR VL53L1X_NEW_ADDR (i2c_msleep I 100 w) of (ret, w) \<Rightarrow>
      case i2c_write I [] VL53L1X_NEW_ADDR (i2c_msleep I 100 w) of (ret, w) \<Rightarrow>
      let w = (if ret \<noteq> 0 then snd (i2c_write I [] VL53L1X_OLD_ADDR w) else w)
      in snd (i2c_write I [] VL53L1X_NEW_ADDR (i2c_msleep I 50 w)))"

text \<open>
  \<open>main\<close> up to its loop: exit status 1, or 0 for reaching the loop, with \<open>pmw_ok\<close>, which is
  computed from \<open>ret\<close>, the status of the last \<open>ads7128_write_gpio\<close>.
\<close>

definition bringup_setup ::
    "'w i2c_api \<Rightarrow> 'w pmw_api \<Rightarrow> 'w range_api \<Rightarrow> bool \<Rightarrow> 'w \<Rightarrow> int \<times> bool \<times> 'w" where
  "bringup_setup I P R nodes w =
     (let w = bringup_flow_start P nodes w in
      if \<not> i2c_is_ready I w then (1, False, w)
      else case configure_outputs I [1, 2, 3, 4, 6] w of (ret, w) \<Rightarrow>
      if ret \<noteq> 0 then (1, False, w)
      else case clear_outputs I [1, 2, 3, 4, 6] w of (ret, w) \<Rightarrow>
      if ret \<noteq> 0 then (1, False, w)
      else case i2c_scan I (i2c_msleep I 100 w) of (_, w) \<Rightarrow>
      case ads7128_write_gpio I 6 1 w of (ret, w) \<Rightarrow>
      if ret \<noteq> 0 then (1, False, w)
      else case i2c_scan I (i2c_msleep I 100 w) of (_, w) \<Rightarrow>
      case range_reinit R (bringup_readdress I w) of (ret, w) \<Rightarrow>
      if ret \<noteq> 0 then (1, False, w)
      else case ads7128_write_gpio I 1 1 w of (ret, w) \<Rightarrow>
      if ret \<noteq> 0 then (1, False, w)
      else case i2c_scan I (i2c_msleep I 100 w) of (_, w) \<Rightarrow>
      (0, ret = 0, w))"

text \<open>
  A round of the loop: whether \<open>main\<close> returns 1, the error count, what is printed (the
  distance, and the motion burst where there is one), the world.
\<close>

definition bringup_round ::
    "'w i2c_api \<Rightarrow> 'w pmw_api \<Rightarrow> 'w range_api \<Rightarrow> bool \<Rightarrow> nat \<times> 'w \<Rightarrow>
       bool \<times> nat \<times> (int \<times> motionBurst option) option \<times> 'w" where
  "bringup_round I P R pmw_ok ew =
     (case ew of (errors, w) \<Rightarrow>
      case range_fetch R w of (ret, w) \<Rightarrow>
      if ret < 0 then
        (if errors + 1 = 10 then (True, errors + 1, None, w)
         else (False, errors + 1, None, i2c_msleep I 500 w))
      else case range_distance R w of (ret, d, w) \<Rightarrow>
        if ret < 0 then (False, 0, None, i2c_msleep I 500 w)
        else if \<not> pmw_ok then (False, 0, Some (d, None), i2c_msleep I 500 w)
        else case bringup_read_motion_burst P w of (ret, m, w) \<Rightarrow>
          (False, 0, Some (d, if ret = 0 then Some m else None), i2c_msleep I 500 w))"

section \<open>The expander program\<close>

text \<open>\<open>riskybird/i2c_expander\<close>: register accesses without command byte.\<close>

definition expander_write_reg :: "'w i2c_api \<Rightarrow> u8 \<Rightarrow> u8 \<Rightarrow> 'w \<Rightarrow> int \<times> 'w" where
  "expander_write_reg I reg value w = i2c_write I [reg, value] ADS7128_I2C_ADDR w"

definition expander_read_reg :: "'w i2c_api \<Rightarrow> u8 \<Rightarrow> u8 \<Rightarrow> 'w \<Rightarrow> int \<times> u8 \<times> 'w" where
  "expander_read_reg I reg old w =
     (case i2c_write I [reg] ADS7128_I2C_ADDR w of (ret, w) \<Rightarrow>
        if ret < 0 then (ret, old, w)
        else case i2c_read I 1 [old] ADS7128_I2C_ADDR w of (ret, d, w) \<Rightarrow> (ret, d ! 0, w))"

definition ads7128_xshut_on :: "'w i2c_api \<Rightarrow> 'w \<Rightarrow> int \<times> 'w" where
  "ads7128_xshut_on I w =
     (case expander_read_reg I 0x21 0 w of (ret, data, w) \<Rightarrow>
        if ret < 0 then (ret, w) else expander_write_reg I 0x21 (data OR push_bit 6 1) w)"

text \<open>At most \<open>n\<close> milliseconds for the bus to become ready.\<close>

fun await_bus :: "'w i2c_api \<Rightarrow> nat \<Rightarrow> 'w \<Rightarrow> 'w" where
  "await_bus I 0 w = w"
| "await_bus I (Suc n) w = (if i2c_is_ready I w then w else await_bus I n (i2c_msleep I 1 w))"

definition enable_tof_xshut_init :: "'w i2c_api \<Rightarrow> 'w \<Rightarrow> int \<times> 'w" where
  "enable_tof_xshut_init I w =
     (let w = await_bus I 25 w in
      if \<not> i2c_is_ready I w then (- ENODEV, w)
      else case expander_write_reg I 0x20 (push_bit 6 1) w of (ret, w) \<Rightarrow>
      if ret < 0 then (- EIO, w)
      else case expander_write_reg I 0x21 0 w of (ret, w) \<Rightarrow>
      if ret < 0 then (- EIO, w)
      else case ads7128_xshut_on I (i2c_msleep I 10 w) of (ret, w) \<Rightarrow>
      if ret < 0 then (- EIO, w) else (0, i2c_msleep I 2000 w))"

section \<open>Properties\<close>

text \<open>
  A bus that is working: \<open>acks w\<close> are the addresses that acknowledge an empty write, and
  neither such a write nor a pause changes them.
\<close>

locale probed_bus =
  fixes I :: "'w i2c_api" and acks :: "'w \<Rightarrow> u8 \<Rightarrow> bool" and working :: "'w \<Rightarrow> bool"
  assumes probe: "working w \<Longrightarrow> i2c_write I [] a w = (rc, w') \<Longrightarrow>
      (rc = 0 \<longleftrightarrow> acks w a) \<and> working w' \<and> acks w' = acks w"
    and pause: "working w \<Longrightarrow> working (i2c_msleep I n w) \<and> acks (i2c_msleep I n w) = acks w"
begin

lemma scan_from_acks:
  "working w \<Longrightarrow> scan_from I as w = (found, w') \<Longrightarrow>
     found = [a \<leftarrow> as. acks w a] \<and> working w' \<and> acks w' = acks w"
proof (induction as arbitrary: w found w')
  case (Cons a as)
  obtain rc w1 where 1: "i2c_write I [] a w = (rc, w1)" by fastforce
  obtain fs w2 where 2: "scan_from I as (i2c_msleep I 10 w1) = (fs, w2)" by fastforce
  note p = probe [OF Cons.prems(1) 1]
  with pause [of w1 10] Cons.IH [OF _ 2] Cons.prems(2) show ?case by (auto simp: 1 2)
qed simp

end

definition sim_acks :: "bus_world \<Rightarrow> u8 \<Rightarrow> bool" where
  "sim_acks w a \<longleftrightarrow> a = ADS7128_I2C_ADDR \<or> sensors w a \<noteq> None"

interpretation sim_probe: probed_bus sim_i2c sim_acks "\<lambda>w. fails w = []"
  by unfold_locales (auto simp: sim_i2c_defs sim_acks_def EIO_def split: if_splits)

lemma scan_addresses: "set scan_addresses = {0x03..0x77}"
proof (intro set_eqI iffI)
  fix a :: u8
  assume "a \<in> set scan_addresses"
  then have "a \<in> word_of_nat ` {3..<Suc 0x77}" by (simp only: scan_addresses_def set_map set_upt)
  then obtain n where "a = word_of_nat n" "3 \<le> n" "n < 0x78" by (elim imageE) simp
  then show "a \<in> {0x03..0x77}" by (simp add: word_le_nat_alt unat_of_nat)
next
  fix a :: u8
  assume "a \<in> {0x03..0x77}"
  then have "unat a \<in> {3..<0x78}" by (simp add: word_le_nat_alt)
  then have "word_of_nat (unat a) \<in> set scan_addresses"
    by (simp only: scan_addresses_def set_map set_upt) (intro imageI, simp)
  then show "a \<in> set scan_addresses" by simp
qed

text \<open>
  The scan reports exactly the devices that acknowledge at the addresses 0x03 to 0x77, in
  ascending order of the probes, and so do the two scanner programs.
\<close>

theorem scan_reports_devices:
  assumes "probed_bus I acks working" and "working w" and "i2c_scan I w = (found, w')"
  shows "found = [a \<leftarrow> scan_addresses. acks w a] \<and> set found = {a \<in> {0x03..0x77}. acks w a} \<and>
    (i2c_is_ready I w \<longrightarrow> riskybird_i2c_scanner I w = (0, found, w') \<and>
      samples_i2c_scanner I w = (0, found, w'))"
  using probed_bus.scan_from_acks [OF assms(1,2) assms(3) [unfolded i2c_scan_def]] scan_addresses assms(3)
  by (auto simp: i2c_scan_def riskybird_i2c_scanner_def samples_i2c_scanner_def)

definition scan_world :: bus_world where
  "scan_world = \<lparr>chip_regs = (\<lambda>_. 0), chip_sel = 0, fails = [],
     sensors = [0x29 \<mapsto> (\<lambda>_. 0), 0x02 \<mapsto> (\<lambda>_. 0)], bus_clock = 0\<rparr>"

lemma scan_reports_devices_witness:
  "\<exists>found w'. i2c_scan sim_i2c scan_world = (found, w') \<and>
     set found = {a \<in> {0x03..0x77}. sim_acks scan_world a}"
proof -
  obtain found w' where s: "i2c_scan sim_i2c scan_world = (found, w')" by fastforce
  have "fails scan_world = []" by (simp add: scan_world_def)
  from scan_reports_devices [OF sim_probe.probed_bus_axioms this s] s show ?thesis by blast
qed

lemma copied_tables: "bringup_table_1 = init_table_1" "bringup_table_2 = init_table_2"
  by (simp_all add: bringup_table_1_def init_table_1_def bringup_table_2_def init_table_2_def)

lemma copied_write: "bringup_register_write P r v w = pmw3901_register_write P r v w"
  by (simp add: bringup_register_write_def pmw3901_register_write_def Let_def)

lemma copied_write_table: "bringup_write_table P t w = write_table P t w"
  by (induction t arbitrary: w) (auto simp: copied_write)

text \<open>
  The two copies of the optical-flow driver put the same bytes on the bus: register
  writes, register reads, the whole register table and the motion burst agree on every SPI
  controller.
\<close>

theorem copied_driver_agrees:
  "bringup_register_read P r w = pmw3901_register_read P r w \<and>
   bringup_register_write P r v w = pmw3901_register_write P r v w \<and>
   bringup_init_registers P w = init_registers P w \<and>
   bringup_read_motion_burst P w = pmw3901_read_motion_burst P w"
  by (simp add: bringup_register_read_def pmw3901_register_read_def Let_def copied_write
      bringup_init_registers_def init_registers_def copied_tables copied_write_table
      bringup_read_motion_burst_def pmw3901_read_motion_burst_def)

context ads7128_chip begin

lemma probe_attempts_regs: "regs (probe_attempts I n a w) = regs w"
proof (induction n arbitrary: w)
  case (Suc n)
  obtain rc w1 where "i2c_write I [] a w = (rc, w1)" by fastforce
  with Suc.IH other_write [of a "[]" w rc w1] show ?case by (simp add: sleep_regs)
qed simp

lemma change_address_regs:
  assumes "old \<noteq> ADS7128_I2C_ADDR" and "new \<noteq> ADS7128_I2C_ADDR"
    and "vl53l1x_change_address I old new w = (rc, w')"
  shows "regs w' = regs w \<and> (rc = 0 \<longrightarrow> bit (regs w GPO_VALUE_ADDRESS) 6)"
proof -
  obtain r1 d1 w1 where 1: "ads7128_read_reg I GPO_VALUE_ADDRESS 0 w = (r1, d1, w1)" by (metis prod.exhaust)
  note g = read_reg_regs [OF 1]
  show ?thesis
  proof (cases "r1 = 0 \<and> bit d1 6")
    case False
    with assms(3) g show ?thesis by (auto simp: vl53l1x_change_address_def 1 EINVAL_def split: if_splits)
  next
    case True
    define w2 where "w2 = probe_attempts I 5 old (i2c_msleep I 50 w1)"
    obtain r3 w3 where 3: "i2c_write I [hi8 VL53L1X_I2C_SLAVE_ADDR_REG, lo8 VL53L1X_I2C_SLAVE_ADDR_REG, new] old w2 = (r3, w3)"
      by fastforce
    obtain r4 d4 w4 where 4: "i2c_write_read I old [hi8 VL53L1X_I2C_SLAVE_ADDR_REG, lo8 VL53L1X_I2C_SLAVE_ADDR_REG]
        1 [0] (i2c_msleep I 10 w3) = (r4, d4, w4)" by (metis prod.exhaust)
    obtain r5 d5 w5 where 5: "i2c_write_read I new [hi8 VL53L1X_I2C_SLAVE_ADDR_REG, lo8 VL53L1X_I2C_SLAVE_ADDR_REG]
        1 [0] w4 = (r5, d5, w5)" by (metis prod.exhaust)
    have "regs w2 = regs w" using g by (simp add: w2_def probe_attempts_regs sleep_regs)
    moreover have "regs w3 = regs w2" using other_write [OF _ 3] assms(1) by simp
    moreover have "regs w4 = regs w3" "regs w5 = regs w4"
      using other_write_read [OF assms(1) 4] other_write_read [OF assms(2) 5] by (simp_all add: sleep_regs)
    moreover have "w' = w3 \<or> w' = w5"
      using assms(3) True unfolding vl53l1x_change_address_def 1 Let_def
      by (simp add: 3 4 5 flip: w2_def del: One_nat_def split: if_splits)
    ultimately show ?thesis using g True by auto
  qed
qed

end

text \<open>
  The ToF sensor is readdressed only when it is powered: status 0 implies that the enable
  line of the sensor was high in the expander's output register, and no attempt at
  readdressing changes an expander register.
\<close>

theorem readdress_needs_power:
  assumes "ads7128_chip I regs sel" and "old \<noteq> ADS7128_I2C_ADDR" and "new \<noteq> ADS7128_I2C_ADDR"
    and "vl53l1x_change_address I old new w = (rc, w')"
  shows "regs w' = regs w \<and> (rc = 0 \<longrightarrow> bit (regs w GPO_VALUE_ADDRESS) 6)"
  by (rule ads7128_chip.change_address_regs [OF assms])

lemma readdress_needs_power_witness:
  "\<exists>rc w'. vl53l1x_change_address sim_i2c VL53L1X_OLD_ADDR VL53L1X_NEW_ADDR scan_world = (rc, w') \<and>
     chip_regs w' = chip_regs scan_world \<and> (rc = 0 \<longrightarrow> bit (chip_regs scan_world GPO_VALUE_ADDRESS) 6)"
proof -
  obtain rc w' where c: "vl53l1x_change_address sim_i2c VL53L1X_OLD_ADDR VL53L1X_NEW_ADDR scan_world = (rc, w')"
    by fastforce
  have "VL53L1X_OLD_ADDR \<noteq> ADS7128_I2C_ADDR" "VL53L1X_NEW_ADDR \<noteq> ADS7128_I2C_ADDR"
    by (simp_all add: VL53L1X_OLD_ADDR_def VL53L1X_NEW_ADDR_def ADS7128_I2C_ADDR_def)
  from readdress_needs_power [OF sim_chip.ads7128_chip_axioms this c] c show ?thesis by blast
qed

text \<open>A board whose SPI side is dead and whose ToF sensor answers.\<close>

definition dead_spi :: "bus_world pmw_api" where
  "dead_spi = \<lparr>spi_is_ready = (\<lambda>w. False), pin_present = (\<lambda>p. False), pin_is_ready = (\<lambda>p w. False),
     pin_configure_inactive = (\<lambda>p w. w), pin_set = (\<lambda>p b w. w), spi_write = (\<lambda>bs w. w),
     spi_transceive = (\<lambda>tx rx w. (rx, w)), spi_read = (\<lambda>rx w. (rx, w)), pmw_busy_wait = (\<lambda>n w. w),
     pmw_msleep = (\<lambda>n w. w), pmw_uptime = (\<lambda>w. (0, w))\<rparr>"

definition sim_range :: "bus_world range_api" where
  "sim_range = \<lparr>range_reinit = (\<lambda>w. (0, w)), range_fetch = (\<lambda>w. (0, w)), range_distance = (\<lambda>w. (0, 42, w))\<rparr>"

text \<open>
  \<open>pmw_ok\<close> does not say whether the optical-flow sensor works: it is true whenever
  \<open>main\<close> reaches its loop, because it is computed from the status of the last expander write.
\<close>

theorem pmw_ok_always_true:
  assumes "bringup_setup I P R nodes w = (0, pmw_ok, w')"
  shows "pmw_ok"
  using assms unfolding bringup_setup_def Let_def by (auto split: if_splits prod.splits)

lemma pmw_ok_always_true_witness:
  "case bringup_setup sim_i2c dead_spi sim_range True scan_world of
     (status, pmw_ok, w') \<Rightarrow> status = 0 \<and> pmw_ok \<and> \<not> spi_is_ready dead_spi w'"
proof -
  have s: "fst (bringup_setup sim_i2c dead_spi sim_range True scan_world) = 0" by code_simp
  obtain ok w' where r: "bringup_setup sim_i2c dead_spi sim_range True scan_world = (0, ok, w')"
    using s by (metis prod.collapse)
  show ?thesis unfolding r prod.case using pmw_ok_always_true [OF r] by (simp add: dead_spi_def)
qed

end
