(* ===== verification/Motors.thy ===== *)
theory Motors
  imports Prelude
begin

text \<open>
  The motor programs: \<open>riskybird/motor_1\<close> to \<open>motor_4\<close> and
  \<open>samples/riskybird/actuator_bringup\<close>. The PWM driver and the UART are a parameter, the record
  \<open>pwm_api\<close>; the locale \<open>pwm_driver\<close> says what Zephyr promises of \<open>pwm_set\<close>, with
  \<open>pulse w ch\<close> the pulse width that channel \<open>ch\<close> puts out. The static variables of
  \<open>motor_4\<close> are the record \<open>motor_state\<close>.
\<close>

record 'w pwm_api =
  pwm_is_ready :: "nat \<Rightarrow> 'w \<Rightarrow> bool"
  pwm_set :: "nat \<Rightarrow> u32 \<Rightarrow> u32 \<Rightarrow> 'w \<Rightarrow> int \<times> 'w"
  motor_uart_ready :: "'w \<Rightarrow> bool"
  motor_poll_in :: "'w \<Rightarrow> u8 option \<times> 'w"
  motor_msleep :: "int \<Rightarrow> 'w \<Rightarrow> 'w"

definition MOTOR_PERIOD_NSEC :: u32 where "MOTOR_PERIOD_NSEC = 50 * 1000"

section \<open>The throttle of four motors\<close>

definition THROTTLE_BUF_LEN :: nat where "THROTTLE_BUF_LEN = 4"

record motor_state =
  throttle_pct :: u8
  throttle_buf :: "u8 list"
  throttle_buf_len :: nat

definition motor_boot :: motor_state where
  "motor_boot = \<lparr>throttle_pct = 10, throttle_buf = replicate THROTTLE_BUF_LEN 0, throttle_buf_len = 0\<rparr>"

text \<open>The channels in order, up to the first failure.\<close>

fun set_channels :: "'w pwm_api \<Rightarrow> nat list \<Rightarrow> u32 \<Rightarrow> u32 \<Rightarrow> 'w \<Rightarrow> int \<times> 'w" where
  "set_channels A [] period pulse w = (0, w)"
| "set_channels A (ch # chs) period pulse w =
     (case pwm_set A ch period pulse w of (ret, w') \<Rightarrow>
        if ret \<noteq> 0 then (ret, w') else set_channels A chs period pulse w')"

definition set_throttle :: "'w pwm_api \<Rightarrow> u8 \<Rightarrow> motor_state \<times> 'w \<Rightarrow> int \<times> motor_state \<times> 'w" where
  "set_throttle A pct sw =
     (case sw of (s, w) \<Rightarrow>
        let pulse = (MOTOR_PERIOD_NSEC * ucast pct) div 100 in
        case set_channels A [0, 1, 2, 3] MOTOR_PERIOD_NSEC pulse w of (ret, w) \<Rightarrow>
        if ret \<noteq> 0 then (ret, s, w) else (0, s\<lparr>throttle_pct := pct\<rparr>, w))"

text \<open>\<open>strtoul\<close> in base 10, on a string whose first characters are digits.\<close>

definition strtoul10 :: "u8 list \<Rightarrow> nat" where
  "strtoul10 str = decimal (takeWhile is_digit (cstr str))"

definition apply_throttle_number :: "'w pwm_api \<Rightarrow> motor_state \<times> 'w \<Rightarrow> motor_state \<times> 'w" where
  "apply_throttle_number A sw =
     (case sw of (s, w) \<Rightarrow>
        if throttle_buf_len s = 0 then (s, w)
        else let s = s\<lparr>throttle_buf := (throttle_buf s)[throttle_buf_len s := 0]\<rparr>;
                 val = strtoul10 (throttle_buf s);
                 val = (if 100 < val then 100 else val)
             in case set_throttle A (word_of_nat val) (s, w) of (_, s, w) \<Rightarrow> (s\<lparr>throttle_buf_len := 0\<rparr>, w))"

definition start_bytes :: "u8 list" where "start_bytes = [0x73, 0x53]"
definition stop_bytes :: "u8 list" where "stop_bytes = [0x78, 0x58, 0x20, 0x71, 0x51]"

definition process_uart_byte :: "'w pwm_api \<Rightarrow> u8 \<Rightarrow> motor_state \<times> 'w \<Rightarrow> motor_state \<times> 'w" where
  "process_uart_byte A byte sw =
     (if is_digit byte then
        (case sw of (s, w) \<Rightarrow>
           if throttle_buf_len s < THROTTLE_BUF_LEN - 1
           then (s\<lparr>throttle_buf := (throttle_buf s)[throttle_buf_len s := byte],
                   throttle_buf_len := throttle_buf_len s + 1\<rparr>, w)
           else (s, w))
      else let sw = apply_throttle_number A sw in
        if byte \<in> set start_bytes then snd (set_throttle A (throttle_pct (fst sw)) sw)
        else if byte \<in> set stop_bytes then snd (set_throttle A 0 sw)
        else sw)"

text \<open>\<open>main\<close> up to its loop: \<open>None\<close> when it returns.\<close>

definition motor_setup :: "'w pwm_api \<Rightarrow> 'w \<Rightarrow> (motor_state \<times> 'w) option" where
  "motor_setup A w =
     (if \<exists>ch \<in> set [0, 1, 2, 3]. \<not> pwm_is_ready A ch w then None
      else if \<not> motor_uart_ready A w then None
      else Some (snd (set_throttle A 0 (motor_boot, w))))"

definition motor_round :: "'w pwm_api \<Rightarrow> motor_state \<times> 'w \<Rightarrow> motor_state \<times> 'w" where
  "motor_round A sw =
     (case sw of (s, w) \<Rightarrow>
        case motor_poll_in A w of (c, w) \<Rightarrow>
        case (case c of None \<Rightarrow> (s, w) | Some byte \<Rightarrow> process_uart_byte A byte (s, w)) of (s, w) \<Rightarrow>
        (s, motor_msleep A 10 w))"

section \<open>The programs at a fixed throttle\<close>

text \<open>\<open>True\<close> when \<open>main\<close> reaches its loop, which only sleeps.\<close>

definition motor_1_main :: "'w pwm_api \<Rightarrow> 'w \<Rightarrow> bool \<times> 'w" where
  "motor_1_main A w =
     (if \<not> pwm_is_ready A 0 w then (False, w)
      else case pwm_set A 0 MOTOR_PERIOD_NSEC MOTOR_PERIOD_NSEC w of (ret, w) \<Rightarrow> (ret = 0, w))"

definition MOTOR_PULSE_NSEC :: u32 where "MOTOR_PULSE_NSEC = (MOTOR_PERIOD_NSEC * 95) div 100"

definition motor_2_main :: "'w pwm_api \<Rightarrow> 'w \<Rightarrow> bool \<times> 'w" where
  "motor_2_main A w =
     (if \<not> pwm_is_ready A 0 w \<or> \<not> pwm_is_ready A 1 w then (False, w)
      else case set_channels A [0, 1] MOTOR_PERIOD_NSEC MOTOR_PULSE_NSEC w of (ret, w) \<Rightarrow> (ret = 0, w))"

definition motor_3_main :: "'w pwm_api \<Rightarrow> 'w \<Rightarrow> bool \<times> 'w" where
  "motor_3_main A w =
     (if \<not> pwm_is_ready A 0 w \<or> \<not> pwm_is_ready A 1 w \<or> \<not> pwm_is_ready A 2 w then (False, w)
      else case set_channels A [0, 1, 2] MOTOR_PERIOD_NSEC MOTOR_PULSE_NSEC w of (ret, w) \<Rightarrow> (ret = 0, w))"

section \<open>Spinning one motor after the other\<close>

definition PWM_PERIOD_NS :: u32 where "PWM_PERIOD_NS = 50000"
definition SPIN_DUTY_PCT :: u32 where "SPIN_DUTY_PCT = 10"

definition spin_pulse :: u32 where
  "spin_pulse = ucast ((ucast PWM_PERIOD_NS * ucast SPIN_DUTY_PCT :: u64) div 100)"

text \<open>Every status is ignored or printed.\<close>

fun all_off :: "'w pwm_api \<Rightarrow> nat list \<Rightarrow> 'w \<Rightarrow> 'w" where
  "all_off A [] w = w"
| "all_off A (ch # chs) w = all_off A chs (snd (pwm_set A ch PWM_PERIOD_NS 0 w))"

fun spin_each :: "'w pwm_api \<Rightarrow> nat list \<Rightarrow> 'w \<Rightarrow> 'w" where
  "spin_each A [] w = w"
| "spin_each A (ch # chs) w =
     (let w = motor_msleep A 1000 (snd (pwm_set A ch PWM_PERIOD_NS spin_pulse w));
          w = motor_msleep A 400 (snd (pwm_set A ch PWM_PERIOD_NS 0 w))
      in spin_each A chs w)"

definition actuator_main :: "'w pwm_api \<Rightarrow> 'w \<Rightarrow> int \<times> 'w" where
  "actuator_main A w =
     (if \<not> pwm_is_ready A 0 w then (1, w)
      else (0, spin_each A [0, 1, 2, 3] (motor_msleep A 300 (all_off A [0, 1, 2, 3] w))))"

section \<open>The PWM driver\<close>

locale pwm_driver =
  fixes A :: "'w pwm_api" and pulse :: "'w \<Rightarrow> nat \<Rightarrow> u32"
  assumes pwm_set_pulse: "pwm_set A ch period p w = (rc, w') \<Longrightarrow>
      pulse w' = (if rc = 0 then (pulse w)(ch := p) else pulse w)"
    and poll_pulse: "motor_poll_in A w = (c, w') \<Longrightarrow> pulse w' = pulse w"
    and sleep_pulse: "pulse (motor_msleep A n w) = pulse w"
begin

text \<open>The channels set before the first failure.\<close>

lemma set_channels_pulse:
  assumes "distinct chs" and "set_channels A chs period p w = (rc, w')"
  shows "\<exists>k. pulse w' = (\<lambda>ch. if ch \<in> set (take k chs) then p else pulse w ch) \<and>
    (if rc = 0 then k = length chs else k < length chs)"
  using assms
proof (induction chs arbitrary: w)
  case (Cons ch chs)
  obtain r1 w1 where 1: "pwm_set A ch period p w = (r1, w1)" by fastforce
  show ?case
  proof (cases "r1 = 0")
    case False
    with Cons.prems pwm_set_pulse [OF 1] show ?thesis by (intro exI [of _ 0]) (auto simp: 1)
  next
    case True
    with Cons 1 obtain k where k: "pulse w' = (\<lambda>c. if c \<in> set (take k chs) then p else pulse w1 c)"
      "if rc = 0 then k = length chs else k < length chs" by auto
    show ?thesis
      using k pwm_set_pulse [OF 1] True Cons.prems(1)
      by (intro exI [of _ "Suc k"]) (auto simp: fun_eq_iff split: if_splits dest: in_set_takeD)
  qed
qed auto

lemma set_channels_works:
  assumes "\<forall>ch period p w. fst (pwm_set A ch period p w) = 0"
  shows "fst (set_channels A chs period p w) = 0"
proof (induction chs arbitrary: w)
  case (Cons ch chs)
  obtain r1 w1 where 1: "pwm_set A ch period p w = (r1, w1)" by fastforce
  with assms have "r1 = 0" by (metis fst_conv)
  with Cons.IH [of w1] 1 show ?case by simp
qed simp

lemma all_off_pulse:
  assumes "\<forall>ch period p w. fst (pwm_set A ch period p w) = 0"
  shows "pulse (all_off A chs w) = (\<lambda>ch. if ch \<in> set chs then 0 else pulse w ch)"
proof (induction chs arbitrary: w)
  case (Cons ch chs)
  obtain r1 w1 where 1: "pwm_set A ch PWM_PERIOD_NS 0 w = (r1, w1)" by fastforce
  have "r1 = 0" by (metis 1 assms fst_conv)
  with Cons.IH [of w1] pwm_set_pulse [OF 1] show ?case by (auto simp: 1)
qed simp

lemma spin_each_pulse:
  assumes "\<forall>ch period p w. fst (pwm_set A ch period p w) = 0"
  shows "pulse (spin_each A chs w) = (\<lambda>ch. if ch \<in> set chs then 0 else pulse w ch)"
proof (induction chs arbitrary: w)
  case (Cons ch chs)
  obtain r1 w1 where 1: "pwm_set A ch PWM_PERIOD_NS spin_pulse w = (r1, w1)" by fastforce
  obtain r2 w2 where 2: "pwm_set A ch PWM_PERIOD_NS 0 (motor_msleep A 1000 w1) = (r2, w2)" by fastforce
  have "r1 = 0" "r2 = 0" by (metis 1 2 assms fst_conv)+
  with Cons.IH [of "motor_msleep A 400 w2"] pwm_set_pulse [OF 1] pwm_set_pulse [OF 2] show ?case
    by (auto simp: 1 2 Let_def sleep_pulse)
qed simp

end

section \<open>The driver's laws hold on a bench\<close>

record pwm_world =
  pulses :: "nat \<Rightarrow> u32"
  broken :: "nat list"
  typed :: "u8 list"

definition sim_pwm :: "pwm_world pwm_api" where
  "sim_pwm = \<lparr>pwm_is_ready = (\<lambda>ch w. True),
     pwm_set = (\<lambda>ch period p w. if ch \<in> set (broken w) then (- EIO, w) else (0, w\<lparr>pulses := (pulses w)(ch := p)\<rparr>)),
     motor_uart_ready = (\<lambda>w. True),
     motor_poll_in = (\<lambda>w. case typed w of [] \<Rightarrow> (None, w) | b # bs \<Rightarrow> (Some b, w\<lparr>typed := bs\<rparr>)),
     motor_msleep = (\<lambda>n w. w)\<rparr>"

interpretation sim_pwm: pwm_driver sim_pwm pulses
  by unfold_locales (auto simp: sim_pwm_def EIO_def split: if_splits list.splits)

definition bench :: "nat list \<Rightarrow> pwm_world" where
  "bench bad = \<lparr>pulses = (\<lambda>_. 5000), broken = bad, typed = [0x34, 0x32, 0x0D]\<rparr>"

section \<open>The states of the throttle program\<close>

definition motor_ok :: "motor_state \<Rightarrow> bool" where
  "motor_ok s \<longleftrightarrow> length (throttle_buf s) = THROTTLE_BUF_LEN \<and> throttle_buf_len s < THROTTLE_BUF_LEN \<and>
     (\<forall>i < throttle_buf_len s. is_digit (throttle_buf s ! i)) \<and> throttle_pct s \<le> 100"

inductive motor_reachable :: "'w pwm_api \<Rightarrow> motor_state \<times> 'w \<Rightarrow> bool" for A where
  booted: "motor_setup A w = Some sw \<Longrightarrow> motor_reachable A sw"
| polled: "motor_reachable A sw \<Longrightarrow> motor_reachable A (motor_round A sw)"

lemma set_throttle_state:
  assumes "set_throttle A pct (s, w) = (rc, s', w')"
  shows "s' = (if rc = 0 then s\<lparr>throttle_pct := pct\<rparr> else s)"
  using assms by (auto simp: set_throttle_def Let_def split: prod.splits if_splits)

lemma set_throttle_ok:
  "motor_ok (fst sw) \<Longrightarrow> pct \<le> 100 \<Longrightarrow> motor_ok (fst (snd (set_throttle A pct sw)))"
  using set_throttle_state [of A pct "fst sw" "snd sw"]
  by (cases "set_throttle A pct sw") (auto simp: motor_ok_def)

lemma clamped_le: "(word_of_nat (if 100 < n then 100 else n) :: u8) \<le> 100"
  by (simp add: word_le_nat_alt unat_of_nat)

lemma apply_throttle_ok: "motor_ok (fst sw) \<Longrightarrow> motor_ok (fst (apply_throttle_number A sw))"
proof (cases sw)
  case (Pair s w)
  assume ok: "motor_ok (fst sw)"
  show ?thesis
  proof (cases "throttle_buf_len s = 0")
    case False
    define s1 where "s1 = s\<lparr>throttle_buf := (throttle_buf s)[throttle_buf_len s := 0]\<rparr>"
    define v where "v = (if 100 < strtoul10 (throttle_buf s1) then 100 else strtoul10 (throttle_buf s1))"
    obtain rc s2 w2 where 2: "set_throttle A (word_of_nat v) (s1, w) = (rc, s2, w2)" by (metis prod.exhaust)
    have "motor_ok s1" using ok Pair by (auto simp: motor_ok_def s1_def nth_list_update)
    then have "motor_ok s2"
      using set_throttle_ok [of "(s1, w)" "word_of_nat v" A] clamped_le [of "strtoul10 (throttle_buf s1)"] 2
      by (simp add: v_def)
    moreover have "apply_throttle_number A sw = (s2\<lparr>throttle_buf_len := 0\<rparr>, w2)"
      using False unfolding apply_throttle_number_def Pair prod.case Let_def s1_def [symmetric] v_def [symmetric] 2
      by simp
    ultimately show ?thesis by (auto simp: motor_ok_def)
  qed (use ok Pair in \<open>simp add: apply_throttle_number_def\<close>)
qed

lemma process_byte_ok: "motor_ok (fst sw) \<Longrightarrow> motor_ok (fst (process_uart_byte A b sw))"
proof (cases "is_digit b")
  case True
  then show "motor_ok (fst sw) \<Longrightarrow> ?thesis"
    by (cases sw) (auto simp: process_uart_byte_def motor_ok_def THROTTLE_BUF_LEN_def nth_list_update less_Suc_eq)
next
  case False
  assume ok: "motor_ok (fst sw)"
  have a: "motor_ok (fst (apply_throttle_number A sw))" by (rule apply_throttle_ok [OF ok])
  then have "throttle_pct (fst (apply_throttle_number A sw)) \<le> 100" by (simp add: motor_ok_def)
  with a False show ?thesis by (auto simp: process_uart_byte_def Let_def intro: set_throttle_ok)
qed

lemma setup_ok: "motor_setup A w = Some sw \<Longrightarrow> motor_ok (fst sw)"
proof -
  assume "motor_setup A w = Some sw"
  then have "sw = snd (set_throttle A 0 (motor_boot, w))"
    by (auto simp: motor_setup_def split: if_splits)
  moreover have "motor_ok motor_boot" by (simp add: motor_ok_def motor_boot_def THROTTLE_BUF_LEN_def)
  ultimately show ?thesis using set_throttle_ok [of "(motor_boot, w)" 0 A] by simp
qed

text \<open>
  Whatever is typed and whichever PWM call fails, the digit buffer is never overrun, it
  holds only digits, and the throttle stays a percentage.
\<close>

theorem motor_states_ok:
  assumes "motor_reachable A sw"
  shows "motor_ok (fst sw)"
  using assms
proof induction
  case (polled sw)
  then show ?case
    by (auto simp: motor_round_def split: prod.splits option.splits)
      (metis fst_conv process_byte_ok)+
qed (rule setup_ok)

lemma motor_states_ok_witness:
  "\<exists>sw. motor_setup sim_pwm (bench []) = Some sw \<and> motor_ok (fst (motor_round sim_pwm sw))"
proof -
  obtain sw where b: "motor_setup sim_pwm (bench []) = Some sw"
    by (auto simp: motor_setup_def sim_pwm_def)
  with motor_states_ok [OF motor_reachable.polled [OF motor_reachable.booted [OF b]]] show ?thesis by blast
qed

section \<open>What the typed commands do\<close>

lemma duty_pulse: "unat ((MOTOR_PERIOD_NSEC * ucast (pct :: u8)) div 100) = 500 * unat pct"
proof -
  have "unat pct < 2 ^ LENGTH(8)" by (rule unsigned_less)
  moreover from this have "unat (ucast pct :: u32) = unat pct"
    by (simp add: unsigned_ucast_eq take_bit_nat_eq_self)
  ultimately have "unat (MOTOR_PERIOD_NSEC * ucast pct) = 50000 * unat pct"
    by (simp add: MOTOR_PERIOD_NSEC_def unat_word_ariths)
  then show ?thesis by (simp add: unat_div)
qed

text \<open>
  The pulse a throttle sets is that percentage of the 20 kHz period, computed without
  overflow: with status 0 all four motors get 500 ns for every percent and no other channel
  changes; with another status the recorded throttle stays as it was.
\<close>

theorem throttle_sets_duty:
  assumes "pwm_driver A pulse" and "set_throttle A pct (s, w) = (rc, s', w')"
  shows "if rc = 0 then throttle_pct s' = pct \<and> (\<forall>ch < 4. unat (pulse w' ch) = 500 * unat pct) \<and>
      (\<forall>ch \<ge> 4. pulse w' ch = pulse w ch)
    else s' = s"
proof -
  define p where "p = (MOTOR_PERIOD_NSEC * ucast pct) div 100"
  obtain r w1 where 1: "set_channels A [0, 1, 2, 3] MOTOR_PERIOD_NSEC p w = (r, w1)" by fastforce
  have r: "rc = r" "w' = w1" "s' = (if r = 0 then s\<lparr>throttle_pct := pct\<rparr> else s)"
    using assms(2) unfolding set_throttle_def Let_def prod.case p_def [symmetric] 1 by (auto split: if_splits)
  obtain k where k: "pulse w1 = (\<lambda>ch. if ch \<in> set (take k [0, 1, 2, 3]) then p else pulse w ch)"
    "if r = 0 then k = length [0, 1, 2, 3 :: nat] else k < length [0, 1, 2, 3 :: nat]"
    using pwm_driver.set_channels_pulse [OF assms(1) _ 1] by auto
  have "unat p = 500 * unat pct" unfolding p_def by (rule duty_pulse)
  with k r show ?thesis by (auto simp: less_Suc_eq numeral_eq_Suc)
qed

lemma throttle_sets_duty_witness:
  "case set_throttle sim_pwm 42 (motor_boot, bench []) of (rc, s', w') \<Rightarrow>
     rc = 0 \<and> throttle_pct s' = 42 \<and> (\<forall>ch < 4. unat (pulses w' ch) = 500 * unat (42 :: u8))"
proof -
  obtain rc s' w' where t: "set_throttle sim_pwm 42 (motor_boot, bench []) = (rc, s', w')" by (metis prod.exhaust)
  have "rc = 0" using t by (auto simp: set_throttle_def Let_def sim_pwm_def bench_def)
  with throttle_sets_duty [OF sim_pwm.pwm_driver_axioms t] t show ?thesis by simp
qed

text \<open>A sequence of bytes from the UART.\<close>

definition type_bytes :: "'w pwm_api \<Rightarrow> u8 list \<Rightarrow> motor_state \<times> 'w \<Rightarrow> motor_state \<times> 'w" where
  "type_bytes A bs sw = fold (process_uart_byte A) bs sw"

lemma type_digits:
  assumes "\<forall>d \<in> set ds. is_digit d" and "motor_ok s"
  shows "\<exists>s'. type_bytes A ds (s, w) = (s', w) \<and> motor_ok s' \<and> throttle_pct s' = throttle_pct s \<and>
    take (throttle_buf_len s') (throttle_buf s') = take 3 (take (throttle_buf_len s) (throttle_buf s) @ ds)"
  using assms
proof (induction ds arbitrary: s)
  case Nil
  then show ?case by (auto simp: type_bytes_def motor_ok_def THROTTLE_BUF_LEN_def)
next
  case (Cons d ds)
  have ok: "length (throttle_buf s) = 4" "throttle_buf_len s < 4"
    using Cons.prems(2) by (simp_all add: motor_ok_def THROTTLE_BUF_LEN_def)
  obtain s1 where 1: "process_uart_byte A d (s, w) = (s1, w)" "throttle_pct s1 = throttle_pct s"
    "take (throttle_buf_len s1) (throttle_buf s1) = take 3 (take (throttle_buf_len s) (throttle_buf s) @ [d])"
    using Cons.prems(1) ok
    by (cases "throttle_buf_len s = 3")
      (auto simp: process_uart_byte_def THROTTLE_BUF_LEN_def take_Suc_conv_app_nth)
  have "motor_ok s1" using process_byte_ok [of "(s, w)" A d] 1(1) Cons.prems(2) by simp
  with Cons.IH [of s1] Cons.prems(1) obtain s' where
    "type_bytes A ds (s1, w) = (s', w)" "motor_ok s'" "throttle_pct s' = throttle_pct s1"
    "take (throttle_buf_len s') (throttle_buf s') = take 3 (take (throttle_buf_len s1) (throttle_buf s1) @ ds)"
    by auto
  with 1 ok show ?case by (cases "3 - throttle_buf_len s") (auto simp: type_bytes_def)
qed

lemma strtoul_digits:
  assumes "n < length buf" and "\<forall>i < n. is_digit (buf ! i)"
  shows "strtoul10 (buf[n := 0]) = decimal (take n buf)"
proof -
  have b: "buf[n := 0] = take n buf @ 0 # drop (Suc n) buf" using assms(1) by (simp add: upd_conv_take_nth_drop)
  have d: "\<forall>x \<in> set (take n buf). is_digit x" using assms by (auto simp: in_set_conv_nth)
  then have "0 \<notin> set (take n buf)" by (auto simp: is_digit_def)
  then have "cstr (buf[n := 0]) = take n buf" unfolding b by simp
  moreover have "takeWhile is_digit (take n buf) = take n buf" using d by (simp add: takeWhile_eq_all_conv)
  ultimately show ?thesis unfolding strtoul10_def by (simp only:)
qed

lemma decimal_throttle:
  assumes "pwm_driver A pulse" and "\<forall>ch period p w. fst (pwm_set A ch period p w) = 0"
    and "motor_ok s" and "0 < throttle_buf_len s"
  shows "\<exists>s' w'. apply_throttle_number A (s, w) = (s', w') \<and> throttle_buf_len s' = 0 \<and>
    throttle_pct s' = word_of_nat (min 100 (decimal (take (throttle_buf_len s) (throttle_buf s)))) \<and>
    (\<forall>ch < 4. unat (pulse w' ch) = 500 * min 100 (decimal (take (throttle_buf_len s) (throttle_buf s))))"
proof -
  define s1 where "s1 = s\<lparr>throttle_buf := (throttle_buf s)[throttle_buf_len s := 0]\<rparr>"
  define v where "v = min 100 (decimal (take (throttle_buf_len s) (throttle_buf s)))"
  have "strtoul10 (throttle_buf s1) = decimal (take (throttle_buf_len s) (throttle_buf s))"
    using assms(3) by (auto simp: s1_def motor_ok_def intro!: strtoul_digits)
  then have v: "(if 100 < strtoul10 (throttle_buf s1) then 100 else strtoul10 (throttle_buf s1)) = v"
    by (simp add: v_def min_def)
  obtain rc s2 w2 where 2: "set_throttle A (word_of_nat v) (s1, w) = (rc, s2, w2)" by (metis prod.exhaust)
  have rc: "rc = 0"
    using 2 pwm_driver.set_channels_works [OF assms(1,2)]
    by (auto simp: set_throttle_def Let_def simp del: set_channels.simps split: if_splits prod.splits)
      (metis fst_conv)+
  have "unat (word_of_nat v :: u8) = v" by (simp add: v_def unat_of_nat min_def)
  with throttle_sets_duty [OF assms(1) 2] rc
  have "throttle_pct s2 = word_of_nat v" "\<forall>ch < 4. unat (pulse w2 ch) = 500 * v" by simp_all
  moreover have "apply_throttle_number A (s, w) = (s2\<lparr>throttle_buf_len := 0\<rparr>, w2)"
    using assms(4) unfolding apply_throttle_number_def prod.case Let_def s1_def [symmetric] v 2 by simp
  ultimately show ?thesis unfolding v_def by auto
qed

text \<open>
  A number typed and ended by a line break sets the throttle to it. When the PWM driver
  works, any non-empty sequence of digits followed by carriage return drives all four motors
  at the number its first three digits denote, or at 100 percent where that is more.
\<close>

theorem typed_number_sets_throttle:
  assumes "pwm_driver A pulse" and "\<forall>ch period p w. fst (pwm_set A ch period p w) = 0"
    and "motor_ok s" and "throttle_buf_len s = 0" and "\<forall>d \<in> set ds. is_digit d" and "ds \<noteq> []"
  shows "\<exists>s' w'. type_bytes A (ds @ [0x0D]) (s, w) = (s', w') \<and> throttle_buf_len s' = 0 \<and>
    throttle_pct s' = word_of_nat (min 100 (decimal (take 3 ds))) \<and>
    (\<forall>ch < 4. unat (pulse w' ch) = 500 * min 100 (decimal (take 3 ds)))"
proof -
  obtain s1 where 1: "type_bytes A ds (s, w) = (s1, w)" "motor_ok s1"
    "take (throttle_buf_len s1) (throttle_buf s1) = take 3 ds"
    using type_digits [OF assms(5,3), of A w] assms(4) by auto
  have "0 < throttle_buf_len s1" using 1(3) assms(6) by (cases ds) (auto intro!: gr0I)
  from decimal_throttle [OF assms(1,2) 1(2) this, of w] obtain s' w' where
    "apply_throttle_number A (s1, w) = (s', w')" "throttle_buf_len s' = 0"
    "throttle_pct s' = word_of_nat (min 100 (decimal (take 3 ds)))"
    "\<forall>ch < 4. unat (pulse w' ch) = 500 * min 100 (decimal (take 3 ds))"
    unfolding 1(3) by blast
  then show ?thesis
    using 1(1) by (auto simp: type_bytes_def process_uart_byte_def is_digit_def start_bytes_def stop_bytes_def)
qed

definition good_pwm :: "pwm_world pwm_api" where
  "good_pwm = sim_pwm\<lparr>pwm_set := \<lambda>ch period p w. (0, w\<lparr>pulses := (pulses w)(ch := p)\<rparr>)\<rparr>"

interpretation good_pwm: pwm_driver good_pwm pulses
  by unfold_locales (auto simp: good_pwm_def sim_pwm_def split: list.splits)

lemma typed_number_sets_throttle_witness:
  "\<exists>s' w'. type_bytes good_pwm ([0x34, 0x32] @ [0x0D]) (motor_boot, bench []) = (s', w') \<and>
    throttle_buf_len s' = 0 \<and> throttle_pct s' = word_of_nat (min 100 (decimal (take 3 [0x34, 0x32]))) \<and>
    (\<forall>ch < 4. unat (pulses w' ch) = 500 * min 100 (decimal (take 3 [0x34, 0x32])))"
  by (rule typed_number_sets_throttle [OF good_pwm.pwm_driver_axioms])
    (simp_all add: good_pwm_def motor_ok_def motor_boot_def THROTTLE_BUF_LEN_def is_digit_def)

text \<open>
  After the boot the start command does not start the motors. The initial throttle of 10
  percent is overwritten by the \<open>set_throttle(0)\<close> of \<open>main\<close>, and by every stop command, so
  that a start command drives the motors at 0 percent.
\<close>

theorem start_command_starts_nothing:
  assumes "pwm_driver A pulse" and "\<forall>ch period p w. fst (pwm_set A ch period p w) = 0"
    and "motor_setup A w = Some sw" and "b \<in> set start_bytes"
  shows "\<forall>ch < 4. pulse (snd (process_uart_byte A b sw)) ch = 0"
proof -
  obtain rc s1 w1 where 1: "set_throttle A 0 (motor_boot, w) = (rc, s1, w1)" by (metis prod.exhaust)
  have works: "fst (set_throttle A p sw) = 0" for p sw
    using pwm_driver.set_channels_works [OF assms(1,2)]
    by (cases sw) (auto simp: set_throttle_def Let_def simp del: set_channels.simps split: if_splits prod.splits,
      (metis fst_conv)+)
  have "rc = 0" using works [of 0 "(motor_boot, w)"] 1 by simp
  then have s1: "throttle_pct s1 = 0" "throttle_buf_len s1 = 0"
    using set_throttle_state [OF 1] by (simp_all add: motor_boot_def)
  have sw: "sw = (s1, w1)" using assms(3) by (auto simp: motor_setup_def 1 split: if_splits)
  obtain rc2 s2 w2 where 2: "set_throttle A 0 (s1, w1) = (rc2, s2, w2)" by (metis prod.exhaust)
  have "rc2 = 0" using works [of 0 "(s1, w1)"] 2 by simp
  with throttle_sets_duty [OF assms(1) 2] have "\<forall>ch < 4. pulse w2 ch = 0" by (simp add: unat_eq_0)
  moreover have "\<not> is_digit b" using assms(4) by (auto simp: start_bytes_def is_digit_def)
  ultimately show ?thesis
    using assms(4) s1 sw 2 by (simp add: process_uart_byte_def apply_throttle_number_def)
qed

lemma start_command_starts_nothing_witness:
  "\<exists>sw. motor_setup good_pwm (bench []) = Some sw \<and>
     (\<forall>ch < 4. pulses (snd (process_uart_byte good_pwm 0x73 sw)) ch = 0)"
proof -
  obtain sw where b: "motor_setup good_pwm (bench []) = Some sw"
    by (auto simp: motor_setup_def good_pwm_def sim_pwm_def)
  have "\<forall>ch period p w. fst (pwm_set good_pwm ch period p w) = 0" "(0x73 :: u8) \<in> set start_bytes"
    by (simp_all add: good_pwm_def start_bytes_def)
  from start_command_starts_nothing [OF good_pwm.pwm_driver_axioms this(1) b this(2)] b show ?thesis by blast
qed

text \<open>
  The stop command gives up at the first PWM channel that fails: with the first channel
  broken, the three other motors keep running.
\<close>

theorem stop_leaves_motors_running:
  "case process_uart_byte sim_pwm 0x78 (motor_boot, bench [0]) of
     (s, w) \<Rightarrow> pulses w 1 = 5000 \<and> pulses w 2 = 5000 \<and> pulses w 3 = 5000"
  by code_simp

text \<open>
  The actuator test ends with every motor off, on every working PWM driver, whatever the
  motors were doing before.
\<close>

theorem actuator_test_ends_off:
  assumes "pwm_driver A pulse" and "\<forall>ch period p w. fst (pwm_set A ch period p w) = 0"
    and "actuator_main A w = (0, w')"
  shows "\<forall>ch < 4. pulse w' ch = 0"
proof -
  have "w' = spin_each A [0, 1, 2, 3] (motor_msleep A 300 (all_off A [0, 1, 2, 3] w))"
    using assms(3) by (simp only: actuator_main_def split: if_splits) simp_all
  then show ?thesis
    using pwm_driver.spin_each_pulse [OF assms(1,2)] by (simp only:) (auto simp: less_Suc_eq numeral_eq_Suc)
qed

lemma actuator_test_ends_off_witness:
  "\<forall>ch < 4. pulses (snd (actuator_main good_pwm (bench []))) ch = 0"
proof -
  have "\<forall>ch period p w. fst (pwm_set good_pwm ch period p w) = 0" by (simp add: good_pwm_def)
  moreover have "actuator_main good_pwm (bench []) = (0, snd (actuator_main good_pwm (bench [])))"
    by (simp add: actuator_main_def good_pwm_def sim_pwm_def)
  ultimately show ?thesis by (rule actuator_test_ends_off [OF good_pwm.pwm_driver_axioms])
qed

end
