(* ===== verification/Rose_API.thy ===== *)
theory Rose_API
  imports Prelude
begin

text \<open>
  What the RoSE drone programs (\<open>samples/rose_flight_controller\<close>,
  \<open>samples/rose_nav_controller\<close>) get from outside their own sources: single-precision
  arithmetic, the Zephyr sensors, the bridge to the simulator, the PWM motors, the clock, the
  state estimator behind the interface \<open>IStateEstimator\<close>, and the TinyMPC solver. They are
  one record, a parameter of the models. \<open>f_lit m k\<close> is the float nearest to the decimal
  literal \<open>m * 10 ^ (- k)\<close>.
\<close>

datatype rose_dev = ACCEL | GYRO | FLOW | TOF | TOF_FRONT | TOF_RIGHT | TOF_BACK | TOF_LEFT

datatype rose_chan = ACCEL_XYZ | GYRO_XYZ | FLOW_VX | FLOW_VY | DISTANCE | TOF_ZONE_CENTER

record 'f float_api =
  f_lit :: "int \<Rightarrow> nat \<Rightarrow> 'f"
  f_add :: "'f \<Rightarrow> 'f \<Rightarrow> 'f"
  f_sub :: "'f \<Rightarrow> 'f \<Rightarrow> 'f"
  f_mul :: "'f \<Rightarrow> 'f \<Rightarrow> 'f"
  f_div :: "'f \<Rightarrow> 'f \<Rightarrow> 'f"
  f_less :: "'f \<Rightarrow> 'f \<Rightarrow> bool"
  f_eq :: "'f \<Rightarrow> 'f \<Rightarrow> bool"
  f_of_int :: "int \<Rightarrow> 'f"
  f_to_u32 :: "'f \<Rightarrow> u32"
  f_bits :: "'f \<Rightarrow> u32"

text \<open>
  \<open>channel_get\<close> returns the status and the converted values; the programs use the values
  whatever the status. \<open>mpc_solve\<close> sets the initial state, clears the duals and solves.
  \<open>HAVE_FLOW\<close> and \<open>HAVE_TOF\<close> are the devicetree's.
\<close>

record ('f, 'e, 'm, 'w) rose_api = "'f float_api" +
  HAVE_FLOW :: bool
  HAVE_TOF :: bool
  dev_ready :: "rose_dev \<Rightarrow> 'w \<Rightarrow> bool"
  sample_fetch :: "rose_dev \<Rightarrow> 'w \<Rightarrow> int \<times> 'w"
  channel_get :: "rose_dev \<Rightarrow> rose_chan \<Rightarrow> 'w \<Rightarrow> int \<times> 'f list \<times> 'w"
  uptime_ms :: "'w \<Rightarrow> int \<times> 'w"
  cycle_get_64 :: "'w \<Rightarrow> u64 \<times> 'w"
  rose_tx :: "u32 \<Rightarrow> 'w \<Rightarrow> 'w"
  pwm_period :: "nat \<Rightarrow> u32"
  pwm_set_pulse :: "nat \<Rightarrow> u32 \<Rightarrow> 'w \<Rightarrow> 'w"
  est_init :: "'f \<Rightarrow> 'f \<Rightarrow> 'f \<Rightarrow> 'e \<Rightarrow> 'e"
  est_update :: "'f list \<Rightarrow> 'f list \<Rightarrow> 'f list \<Rightarrow> bool \<Rightarrow> 'f \<Rightarrow> bool \<Rightarrow> 'f \<Rightarrow> 'e \<Rightarrow> 'e"
  est_fuse_walls :: "'f \<Rightarrow> 'f \<Rightarrow> 'f \<Rightarrow> 'f \<Rightarrow> 'f \<Rightarrow> 'e \<Rightarrow> 'e"
  est_get_state :: "'e \<Rightarrow> 'f list"
  mpc_solve :: "'f list \<Rightarrow> 'm \<Rightarrow> 'f list \<times> 'm"

text \<open>The two comparisons that keep a value between two others.\<close>

definition f_clamp :: "('f, 'z) float_api_scheme \<Rightarrow> 'f \<Rightarrow> 'f \<Rightarrow> 'f \<Rightarrow> 'f" where
  "f_clamp F lo hi x =
     (let x = (if f_less F x lo then lo else x) in if f_less F hi x then hi else x)"

text \<open>
  What is used of the order of floats: comparison is irreflexive and asymmetric, and rounding
  a literal is monotone. Nothing is said of values that are not numbers.
\<close>

locale float_order =
  fixes F :: "('f, 'z) float_api_scheme"
  assumes less_irrefl: "\<not> f_less F x x"
    and less_asym: "f_less F x y \<Longrightarrow> \<not> f_less F y x"
    and lit_mono: "m \<le> n \<Longrightarrow> \<not> f_less F (f_lit F n k) (f_lit F m k)"
begin

lemma clamp_bounds:
  assumes "m \<le> n"
  shows "\<not> f_less F (f_clamp F (f_lit F m k) (f_lit F n k) x) (f_lit F m k)"
    and "\<not> f_less F (f_lit F n k) (f_clamp F (f_lit F m k) (f_lit F n k) x)"
  using assms less_irrefl lit_mono by (auto simp: f_clamp_def Let_def)

lemma clamp_id:
  "\<not> f_less F x lo \<Longrightarrow> \<not> f_less F hi x \<Longrightarrow> f_clamp F lo hi x = x"
  by (simp add: f_clamp_def)

end

section \<open>Fixed-point numbers\<close>

text \<open>
  An instance to run the models on: millionths, with \<open>None\<close> for the values that are not
  numbers; sensors that read from lists, and a log of the words sent over the bridge.
\<close>

record rose_world =
  next_fetch :: "rose_dev \<Rightarrow> int list"
  reading :: "rose_dev \<Rightarrow> rose_chan \<Rightarrow> int option list"
  sent_words :: "u32 list"
  rose_clock :: int

definition lift2 :: "(int \<Rightarrow> int \<Rightarrow> int) \<Rightarrow> int option \<Rightarrow> int option \<Rightarrow> int option" where
  "lift2 f a b = (case (a, b) of (Some x, Some y) \<Rightarrow> Some (f x y) | _ \<Rightarrow> None)"

definition sim_rose :: "(int option, int, unit, rose_world) rose_api" where
  "sim_rose = \<lparr>f_lit = (\<lambda>m k. Some (m * 10 ^ (6 - k))), f_add = lift2 (+), f_sub = lift2 (-),
     f_mul = lift2 (\<lambda>x y. x * y div 1000000), f_div = lift2 (\<lambda>x y. x * 1000000 div y),
     f_less = (\<lambda>a b. case (a, b) of (Some x, Some y) \<Rightarrow> x < y | _ \<Rightarrow> False),
     f_eq = (\<lambda>a b. case (a, b) of (Some x, Some y) \<Rightarrow> x = y | _ \<Rightarrow> False),
     f_of_int = (\<lambda>n. Some (n * 1000000)),
     f_to_u32 = (\<lambda>a. case a of Some x \<Rightarrow> word_of_int (x div 1000000) | None \<Rightarrow> 0),
     f_bits = (\<lambda>a. case a of Some x \<Rightarrow> word_of_int x | None \<Rightarrow> 0x7FC00000),
     HAVE_FLOW = True, HAVE_TOF = True, dev_ready = (\<lambda>d w. True),
     sample_fetch = (\<lambda>d w. case next_fetch w d of [] \<Rightarrow> (0, w)
        | r # rs \<Rightarrow> (r, w\<lparr>next_fetch := (next_fetch w)(d := rs)\<rparr>)),
     channel_get = (\<lambda>d c w. (0, reading w d c, w)),
     uptime_ms = (\<lambda>w. (rose_clock w, w\<lparr>rose_clock := rose_clock w + 5\<rparr>)),
     cycle_get_64 = (\<lambda>w. (word_of_int (rose_clock w), w)),
     rose_tx = (\<lambda>x w. w\<lparr>sent_words := sent_words w @ [x]\<rparr>),
     pwm_period = (\<lambda>i. 50000), pwm_set_pulse = (\<lambda>i p w. w),
     est_init = (\<lambda>x y z e. e), est_update = (\<lambda>a g fl fv h tv dt e. e + 1),
     est_fuse_walls = (\<lambda>f b l r m e. e), est_get_state = (\<lambda>e. replicate 12 (Some (e * 1000))),
     mpc_solve = (\<lambda>x m. (take 4 x, m))\<rparr>"

interpretation sim_order: float_order sim_rose
  by unfold_locales (auto simp: sim_rose_def mult_right_mono not_less split: option.splits)

end
