(* ===== verification/Rose_Flight.thy ===== *)
theory Rose_Flight
  imports Rose_API
begin

text \<open>
  The flight controller \<open>samples/rose_flight_controller/src/main.cpp\<close>: the sensor read with its
  zero-order hold of the ToF height, the control solve, the two actuator outputs, the
  single-loop build and the threaded build. The latter is a step relation on the shared
  buffers, the semaphores and the program counters of the three threads; a section under a
  mutex is one step.
\<close>

definition NSTATES :: nat where "NSTATES = 12"
definition NACTIONS :: nat where "NACTIONS = 4"
definition CTRL_ITERS :: nat where "CTRL_ITERS = 5000"
definition TOF_FETCH_PERIOD_MS :: int where "TOF_FETCH_PERIOD_MS = 33"
definition ROSE_CMD_CONTROL :: u32 where "ROSE_CMD_CONTROL = 0x20"

definition CTRL_DT :: "('f, 'z) float_api_scheme \<Rightarrow> 'f" where "CTRL_DT A = f_lit A 5 3"
definition START_Z :: "('f, 'z) float_api_scheme \<Rightarrow> 'f" where "START_Z A = f_lit A 9 1"
definition TARGET_Z :: "('f, 'z) float_api_scheme \<Rightarrow> 'f" where "TARGET_Z A = f_lit A 10 1"

record 'f sensor_frame =
  accel :: "'f list"
  gyro :: "'f list"
  flow :: "'f list"
  height :: 'f
  flow_valid :: bool
  tof_valid :: bool

text \<open>The static variables of \<open>read_sensor_frame\<close>.\<close>

record 'f tof_hold =
  tof_next_ms :: int
  tof_last_h :: 'f
  tof_have :: bool

definition tof_hold_0 :: "('f, 'z) float_api_scheme \<Rightarrow> 'f tof_hold" where
  "tof_hold_0 A = \<lparr>tof_next_ms = 0, tof_last_h = START_Z A, tof_have = False\<rparr>"

section \<open>Reading the sensors\<close>

text \<open>The flow sample: a value that is not a number (not equal to itself) is a dropout.\<close>

definition read_flow :: "('f, 'e, 'm, 'w) rose_api \<Rightarrow> 'w \<Rightarrow> 'f list \<times> bool \<times> 'w" where
  "read_flow A w =
     (if \<not> HAVE_FLOW A then ([f_lit A 0 1, f_lit A 0 1], True, w)
      else case channel_get A FLOW FLOW_VX w of (_, vx, w) \<Rightarrow>
      case channel_get A FLOW FLOW_VY w of (_, vy, w) \<Rightarrow>
      if \<not> f_eq A (vx ! 0) (vx ! 0) \<or> \<not> f_eq A (vy ! 0) (vy ! 0)
      then ([f_lit A 0 1, f_lit A 0 1], False, w)
      else ([vx ! 0, vy ! 0], True, w))"

text \<open>The height: \<open>h\<close> are the static variables; returns the height, its validity, and \<open>h\<close>.\<close>

definition read_tof :: "('f, 'e, 'm, 'w) rose_api \<Rightarrow> 'f tof_hold \<Rightarrow> 'w \<Rightarrow> 'f \<times> bool \<times> 'f tof_hold \<times> 'w" where
  "read_tof A h w =
     (if \<not> HAVE_TOF A then (START_Z A, False, h, w)
      else case uptime_ms A w of (now_ms, w) \<Rightarrow>
      let (h, w) =
        (if now_ms < tof_next_ms h then (h, w)
         else let h = h\<lparr>tof_next_ms := now_ms + TOF_FETCH_PERIOD_MS\<rparr> in
           case sample_fetch A TOF w of (rc, w) \<Rightarrow>
           if rc \<noteq> 0 then (h, w)
           else case channel_get A TOF DISTANCE w of (_, d, w) \<Rightarrow>
             (h\<lparr>tof_last_h := d ! 0, tof_have := True\<rparr>, w))
      in (if tof_have h then tof_last_h h else START_Z A, tof_have h, h, w))"

definition read_sensor_frame ::
    "('f, 'e, 'm, 'w) rose_api \<Rightarrow> 'f tof_hold \<Rightarrow> 'w \<Rightarrow> 'f sensor_frame option \<times> 'f tof_hold \<times> 'w" where
  "read_sensor_frame A h w =
     (case sample_fetch A ACCEL w of (rc_a, w) \<Rightarrow>
      case sample_fetch A GYRO w of (rc_g, w) \<Rightarrow>
      let w = (if HAVE_FLOW A then snd (sample_fetch A FLOW w) else w) in
      if rc_a < 0 \<or> rc_g < 0 then (None, h, w)
      else case channel_get A ACCEL ACCEL_XYZ w of (_, av, w) \<Rightarrow>
      case channel_get A GYRO GYRO_XYZ w of (_, gv, w) \<Rightarrow>
      case read_flow A w of (fl, fv, w) \<Rightarrow>
      case read_tof A h w of (z, zv, h, w) \<Rightarrow>
      (Some \<lparr>accel = take 3 av, gyro = take 3 gv, flow = fl, height = z, flow_valid = fv, tof_valid = zv\<rparr>, h, w))"

section \<open>Control and actuation\<close>

definition g_setpoint :: "('f, 'z) float_api_scheme \<Rightarrow> 'f list" where
  "g_setpoint A = (replicate NSTATES (f_lit A 0 1))[2 := TARGET_Z A]"

text \<open>The x and y errors are dropped.\<close>

definition control_error :: "('f, 'z) float_api_scheme \<Rightarrow> 'f list \<Rightarrow> 'f list" where
  "control_error A state =
     (map2 (f_sub A) (take NSTATES state) (g_setpoint A))[0 := f_lit A 0 1, 1 := f_lit A 0 1]"

definition solve_control :: "('f, 'e, 'm, 'w) rose_api \<Rightarrow> 'f list \<Rightarrow> 'm \<Rightarrow> 'f list \<times> 'm" where
  "solve_control A state m =
     (case mpc_solve A (control_error A state) m of (u, m) \<Rightarrow> (take NACTIONS u, m))"

text \<open>The bridge: a command word, the payload length, and the bits of the thrusts.\<close>

fun tx_words :: "('f, 'e, 'm, 'w) rose_api \<Rightarrow> u32 list \<Rightarrow> 'w \<Rightarrow> 'w" where
  "tx_words A [] w = w"
| "tx_words A (x # xs) w = tx_words A xs (rose_tx A x w)"

definition send_control :: "('f, 'e, 'm, 'w) rose_api \<Rightarrow> 'f list \<Rightarrow> 'w \<Rightarrow> 'w" where
  "send_control A u w =
     tx_words A (ROSE_CMD_CONTROL # word_of_nat (NACTIONS * 4) # map (f_bits A) (take NACTIONS u)) w"

text \<open>The motors: the duty is the thrust plus the hover offset, between 0 and 1.\<close>

definition motor_duty :: "('f, 'z) float_api_scheme \<Rightarrow> 'f \<Rightarrow> 'f" where
  "motor_duty A t = f_clamp A (f_lit A 0 1) (f_lit A 10 1) (f_add A t (f_lit A 583 3))"

fun drive_motors :: "('f, 'e, 'm, 'w) rose_api \<Rightarrow> nat \<Rightarrow> 'f list \<Rightarrow> 'w \<Rightarrow> 'w" where
  "drive_motors A i [] w = w"
| "drive_motors A i (t # ts) w =
     drive_motors A (Suc i) ts
       (pwm_set_pulse A i (f_to_u32 A (f_mul A (f_of_int A (uint (pwm_period A i))) (motor_duty A t))) w)"

definition send_control_pwm :: "('f, 'e, 'm, 'w) rose_api \<Rightarrow> 'f list \<Rightarrow> 'w \<Rightarrow> 'w" where
  "send_control_pwm A u w = drive_motors A 0 (take NACTIONS u) w"

definition update_estimate :: "('f, 'e, 'm, 'w) rose_api \<Rightarrow> 'f sensor_frame \<Rightarrow> 'e \<Rightarrow> 'e" where
  "update_estimate A f e =
     est_update A (accel f) (gyro f) (flow f) (flow_valid f) (height f) (tof_valid f) (CTRL_DT A) e"

section \<open>The single-loop build\<close>

fun single_loop ::
    "('f, 'e, 'm, 'w) rose_api \<Rightarrow> nat \<Rightarrow> 'f tof_hold \<times> 'e \<times> 'm \<times> 'w \<Rightarrow> 'f tof_hold \<times> 'e \<times> 'm \<times> 'w" where
  "single_loop A 0 x = x"
| "single_loop A (Suc k) (h, e, m, w) =
     (case read_sensor_frame A h w of
        (None, h, w) \<Rightarrow> single_loop A k (h, e, m, w)
      | (Some f, h, w) \<Rightarrow>
          let e = update_estimate A f e in
          case solve_control A (est_get_state A e) m of (u, m) \<Rightarrow>
            single_loop A k (h, e, m, send_control A u w))"

text \<open>\<open>main\<close> of the single-loop build, without the printing.\<close>

definition flight_main :: "('f, 'e, 'm, 'w) rose_api \<Rightarrow> 'e \<Rightarrow> 'm \<Rightarrow> 'w \<Rightarrow> int \<times> 'f tof_hold \<times> 'e \<times> 'm \<times> 'w" where
  "flight_main A e m w =
     (if \<not> dev_ready A ACCEL w \<or> \<not> dev_ready A GYRO w then (- 1, tof_hold_0 A, e, m, w)
      else (0, single_loop A CTRL_ITERS
        (tof_hold_0 A, est_init A (f_lit A 0 1) (f_lit A 0 1) (START_Z A) e, m, w)))"

section \<open>Properties\<close>

text \<open>
  Once the ToF sensor has been read, every later frame claims a valid height, also when no
  new sample was taken, or none can be taken any more: the height is the last one read.
\<close>

theorem tof_valid_forever:
  assumes "HAVE_TOF A" and "tof_have h" and "read_sensor_frame A h w = (Some f, h', w')"
  shows "tof_valid f \<and> tof_have h' \<and> height f = tof_last_h h' \<and>
    (tof_next_ms h' = tof_next_ms h \<longrightarrow> height f = tof_last_h h)"
  using assms by (auto simp: read_sensor_frame_def read_tof_def Let_def TOF_FETCH_PERIOD_MS_def
      split: prod.splits if_splits)

text \<open>The bench: the ToF answers the first fetch only.\<close>

definition tof_bench :: rose_world where
  "tof_bench = \<lparr>next_fetch = (\<lambda>d. if d = TOF then [0, - EIO] else []),
     reading = (\<lambda>d c. if c = DISTANCE then [Some 1500000] else if c = FLOW_VX then [None] else [Some 1, Some 2, Some 3]),
     sent_words = [], rose_clock = 100\<rparr>"

lemma tof_valid_forever_witness:
  "case read_sensor_frame sim_rose (\<lparr>tof_next_ms = 0, tof_last_h = Some 7, tof_have = True\<rparr>)
      (tof_bench\<lparr>next_fetch := (\<lambda>d. if d = TOF then [- EIO] else [])\<rparr>) of
     (fo, h', w') \<Rightarrow> fo \<noteq> None \<and> tof_valid (the fo) \<and> height (the fo) = Some 7"
proof -
  let ?h = "\<lparr>tof_next_ms = 0, tof_last_h = Some 7 :: int option, tof_have = True\<rparr>"
  let ?w = "tof_bench\<lparr>next_fetch := (\<lambda>d. if d = TOF then [- EIO] else [])\<rparr>"
  obtain fo h' w' where r: "read_sensor_frame sim_rose ?h ?w = (fo, h', w')" by (metis prod.exhaust)
  have "fo \<noteq> None" "tof_last_h h' = Some 7" using r
    by (auto simp: read_sensor_frame_def read_flow_def read_tof_def sim_rose_def tof_bench_def Let_def EIO_def
        TOF_FETCH_PERIOD_MS_def)
  then obtain f where f: "fo = Some f" by blast
  have "HAVE_TOF sim_rose" "tof_have ?h" by (simp_all add: sim_rose_def)
  from tof_valid_forever [OF this r [unfolded f]] f \<open>tof_last_h h' = Some 7\<close> show ?thesis
    unfolding r by simp
qed

text \<open>A frame's flow: valid numbers, or marked invalid and zero.\<close>

definition flow_clean :: "('f, 'z) float_api_scheme \<Rightarrow> 'f sensor_frame \<Rightarrow> bool" where
  "flow_clean A f \<longleftrightarrow>
     (if flow_valid f then \<forall>x \<in> set (flow f). f_eq A x x else flow f = [f_lit A 0 1, f_lit A 0 1])"

text \<open>
  No flow sample that is not a number reaches the estimator as valid: in every frame read
  the flow is marked invalid and replaced by zero when one of its components is a dropout. And
  no frame is produced, nor is the ToF state touched, when the IMU fails.
\<close>

theorem frames_have_clean_flow:
  assumes "HAVE_FLOW A" and "read_sensor_frame A h w = (fo, h', w')"
  shows "(\<forall>f. fo = Some f \<longrightarrow> flow_clean A f) \<and> (fo = None \<longrightarrow> h' = h)"
  using assms by (auto simp: read_sensor_frame_def read_flow_def flow_clean_def Let_def
      split: prod.splits if_splits)

lemma frames_have_clean_flow_witness:
  "case read_sensor_frame sim_rose (tof_hold_0 sim_rose) tof_bench of
     (fo, h', w') \<Rightarrow> fo \<noteq> None \<and> flow_clean sim_rose (the fo) \<and> \<not> flow_valid (the fo)"
proof -
  obtain fo h' w' where r: "read_sensor_frame sim_rose (tof_hold_0 sim_rose) tof_bench = (fo, h', w')"
    by (metis prod.exhaust)
  have "fo \<noteq> None" "\<not> flow_valid (the fo)" using r
    by (auto simp: read_sensor_frame_def read_flow_def read_tof_def sim_rose_def tof_bench_def Let_def EIO_def
        split: prod.splits)
  moreover have "HAVE_FLOW sim_rose" by (simp add: sim_rose_def)
  ultimately show ?thesis using frames_have_clean_flow [OF _ r] unfolding r by auto
qed

text \<open>
  A motor's duty is never below 0 nor above 1, whatever the solver returns.
\<close>

theorem motor_duty_bounded:
  assumes "float_order A"
  shows "\<not> f_less A (motor_duty A t) (f_lit A 0 1) \<and> \<not> f_less A (f_lit A 10 1) (motor_duty A t)"
  using float_order.clamp_bounds [OF assms, of 0 10 1] by (simp add: motor_duty_def)

lemma motor_duty_bounded_witness:
  "\<not> f_less sim_rose (motor_duty sim_rose (Some 900000)) (f_lit sim_rose 0 1) \<and>
   \<not> f_less sim_rose (f_lit sim_rose 10 1) (motor_duty sim_rose (Some 900000))"
  by (rule motor_duty_bounded [OF sim_order.float_order_axioms])

end
