(* ===== verification/Rose_Pipeline.thy ===== *)
theory Rose_Pipeline
  imports Rose_Flight
begin

text \<open>
  The threaded build of the flight controller: the sensor IO, estimator and control threads of
  \<open>samples/rose_flight_controller/src/main.cpp\<close> with their semaphores and latest-value
  buffers. Each thread is a function on the shared state that is \<open>None\<close> where the thread
  blocks; \<open>flight_step\<close> lets any thread that does not block take the next step, which covers
  every schedule, whatever the priorities. A section that holds a mutex is one step. The calls
  into the drivers and the solver are functions, so they return: the stall that a comment of
  the source reports for the lockstep co-simulation, where the guest waits for the
  synchronizer's grant in a driver call, is outside the model. The proofs show that the state
  at the end is the one a reference loop computes, and that the hand-off by semaphores always
  leaves exactly one of the three threads able to run.
\<close>

text \<open>
  Program counters. The number is the count of iterations the IO loop has still to do,
  counting the current one; the other arguments are the thread's local variables.
\<close>

datatype 'f io_pc = IO_READ nat | IO_PUT nat "'f sensor_frame" | IO_GIVE nat | IO_TAKE nat
  | IO_GET nat | IO_SEND nat "'f list" | IO_DONE

datatype 'f est_pc = EST_TAKE | EST_GET | EST_RUN "'f sensor_frame" | EST_PUT "'f list" | EST_GIVE

datatype 'f ctrl_pc = CTRL_TAKE | CTRL_TICK | CTRL_GET | CTRL_SOLVE "'f list" | CTRL_PUT "'f list" | CTRL_GIVE

record ('f, 'e, 'm, 'w) pipeline =
  io_pc :: "'f io_pc"
  est_pc :: "'f est_pc"
  ctrl_pc :: "'f ctrl_pc"
  sem_sample :: nat
  sem_state :: nat
  sem_done :: nat
  g_frame :: "'f sensor_frame option"
  g_state :: "'f list"
  g_ctrl :: "'f list"
  tick :: u32
  hold :: "'f tof_hold"
  estimator :: 'e
  mpc :: 'm
  keepalive_spin :: u32
  world :: 'w

text \<open>\<open>k_sem_give\<close> and \<open>k_sem_take\<close> of a semaphore with limit 1.\<close>

definition sem_give :: "nat \<Rightarrow> nat" where "sem_give n = min 1 (n + 1)"

definition sem_take :: "nat \<Rightarrow> nat option" where
  "sem_take n = (if n = 0 then None else Some (n - 1))"

section \<open>The threads\<close>

text \<open>\<open>io_block\<close>\<close>

definition io_block :: "('f, 'e, 'm, 'w) rose_api \<Rightarrow> ('f, 'e, 'm, 'w) pipeline \<Rightarrow> ('f, 'e, 'm, 'w) pipeline option" where
  "io_block A s =
     (case io_pc s of
        IO_READ 0 \<Rightarrow> Some (s\<lparr>io_pc := IO_DONE\<rparr>)
      | IO_READ (Suc k) \<Rightarrow>
          (case read_sensor_frame A (hold s) (world s) of
             (None, h, w) \<Rightarrow> Some (s\<lparr>io_pc := IO_READ k, hold := h, world := w\<rparr>)
           | (Some f, h, w) \<Rightarrow> Some (s\<lparr>io_pc := IO_PUT (Suc k) f, hold := h, world := w\<rparr>))
      | IO_PUT k f \<Rightarrow> Some (s\<lparr>io_pc := IO_GIVE k, g_frame := Some f\<rparr>)
      | IO_GIVE k \<Rightarrow> Some (s\<lparr>io_pc := IO_TAKE k, sem_sample := sem_give (sem_sample s)\<rparr>)
      | IO_TAKE k \<Rightarrow> map_option (\<lambda>n. s\<lparr>io_pc := IO_GET k, sem_done := n\<rparr>) (sem_take (sem_done s))
      | IO_GET k \<Rightarrow> Some (s\<lparr>io_pc := IO_SEND k (g_ctrl s)\<rparr>)
      | IO_SEND k u \<Rightarrow> Some (s\<lparr>io_pc := IO_READ (k - 1), world := send_control A u (world s)\<rparr>)
      | IO_DONE \<Rightarrow> None)"

text \<open>\<open>est_block\<close>; the frame buffer is written before the thread is triggered.\<close>

definition est_block :: "('f, 'e, 'm, 'w) rose_api \<Rightarrow> ('f, 'e, 'm, 'w) pipeline \<Rightarrow> ('f, 'e, 'm, 'w) pipeline option" where
  "est_block A s =
     (case est_pc s of
        EST_TAKE \<Rightarrow> map_option (\<lambda>n. s\<lparr>est_pc := EST_GET, sem_sample := n\<rparr>) (sem_take (sem_sample s))
      | EST_GET \<Rightarrow> map_option (\<lambda>f. s\<lparr>est_pc := EST_RUN f\<rparr>) (g_frame s)
      | EST_RUN f \<Rightarrow>
          (let e = update_estimate A f (estimator s)
           in Some (s\<lparr>est_pc := EST_PUT (est_get_state A e), estimator := e\<rparr>))
      | EST_PUT st \<Rightarrow> Some (s\<lparr>est_pc := EST_GIVE, g_state := st\<rparr>)
      | EST_GIVE \<Rightarrow> Some (s\<lparr>est_pc := EST_TAKE, sem_state := sem_give (sem_state s)\<rparr>))"

text \<open>The test \<open>tick % ROSE_CTRL_DIV == 0\<close>.\<close>

definition control_due :: "u32 \<Rightarrow> u32 \<Rightarrow> bool" where
  "control_due d t \<longleftrightarrow> t mod d = 0"

text \<open>\<open>ctrl_block\<close>; \<open>d\<close> is \<open>ROSE_CTRL_DIV\<close>.\<close>

definition ctrl_block ::
    "('f, 'e, 'm, 'w) rose_api \<Rightarrow> u32 \<Rightarrow> ('f, 'e, 'm, 'w) pipeline \<Rightarrow> ('f, 'e, 'm, 'w) pipeline option" where
  "ctrl_block A d s =
     (case ctrl_pc s of
        CTRL_TAKE \<Rightarrow> map_option (\<lambda>n. s\<lparr>ctrl_pc := CTRL_TICK, sem_state := n\<rparr>) (sem_take (sem_state s))
      | CTRL_TICK \<Rightarrow>
          (let t = tick s + 1
           in Some (s\<lparr>tick := t, ctrl_pc := if control_due d t then CTRL_GET else CTRL_GIVE\<rparr>))
      | CTRL_GET \<Rightarrow> Some (s\<lparr>ctrl_pc := CTRL_SOLVE (g_state s)\<rparr>)
      | CTRL_SOLVE st \<Rightarrow>
          (case solve_control A st (mpc s) of (u, m) \<Rightarrow> Some (s\<lparr>ctrl_pc := CTRL_PUT u, mpc := m\<rparr>))
      | CTRL_PUT u \<Rightarrow> Some (s\<lparr>ctrl_pc := CTRL_GIVE, g_ctrl := u\<rparr>)
      | CTRL_GIVE \<Rightarrow> Some (s\<lparr>ctrl_pc := CTRL_TAKE, sem_done := sem_give (sem_done s)\<rparr>))"

text \<open>\<open>keepalive_block\<close>: one turn of its endless loop.\<close>

definition keepalive_block :: "('f, 'e, 'm, 'w) pipeline \<Rightarrow> ('f, 'e, 'm, 'w) pipeline" where
  "keepalive_block s = s\<lparr>keepalive_spin := keepalive_spin s + 1\<rparr>"

inductive flight_step ::
    "('f, 'e, 'm, 'w) rose_api \<Rightarrow> u32 \<Rightarrow> ('f, 'e, 'm, 'w) pipeline \<Rightarrow> ('f, 'e, 'm, 'w) pipeline \<Rightarrow> bool"
  for A d where
  io_runs: "io_block A s = Some s' \<Longrightarrow> flight_step A d s s'"
| est_runs: "est_block A s = Some s' \<Longrightarrow> flight_step A d s s'"
| ctrl_runs: "ctrl_block A d s = Some s' \<Longrightarrow> flight_step A d s s'"
| keepalive_runs: "flight_step A d s (keepalive_block s)"

text \<open>\<open>main\<close> after the initialisation of estimator and solver: \<open>n\<close> iterations.\<close>

definition pipeline_boot :: "('f, 'e, 'm, 'w) rose_api \<Rightarrow> nat \<Rightarrow> 'e \<Rightarrow> 'm \<Rightarrow> 'w \<Rightarrow> ('f, 'e, 'm, 'w) pipeline" where
  "pipeline_boot A n e m w =
     \<lparr>io_pc = IO_READ n, est_pc = EST_TAKE, ctrl_pc = CTRL_TAKE, sem_sample = 0, sem_state = 0, sem_done = 0,
      g_frame = None, g_state = replicate NSTATES (f_lit A 0 1), g_ctrl = replicate NACTIONS (f_lit A 0 1),
      tick = 0, hold = tof_hold_0 A, estimator = e, mpc = m, keepalive_spin = 0, world = w\<rparr>"

inductive flight_reachable ::
    "('f, 'e, 'm, 'w) rose_api \<Rightarrow> u32 \<Rightarrow> ('f, 'e, 'm, 'w) pipeline \<Rightarrow> ('f, 'e, 'm, 'w) pipeline \<Rightarrow> bool"
  for A d s0 where
  start: "flight_reachable A d s0 s0"
| step: "flight_reachable A d s0 s \<Longrightarrow> flight_step A d s s' \<Longrightarrow> flight_reachable A d s0 s'"

section \<open>The reference loop\<close>

text \<open>
  What one iteration means, without threads: the estimate is updated with the frame, every
  \<open>d\<close>-th tick solves for new thrusts, and the thrusts are sent.
\<close>

record ('f, 'e, 'm, 'w) flight_view =
  v_hold :: "'f tof_hold"
  v_est :: 'e
  v_mpc :: 'm
  v_ctrl :: "'f list"
  v_tick :: u32
  v_world :: 'w

definition ref_send :: "('f, 'e, 'm, 'w) rose_api \<Rightarrow> 'f list \<Rightarrow> ('f, 'e, 'm, 'w) flight_view \<Rightarrow> ('f, 'e, 'm, 'w) flight_view" where
  "ref_send A u v = v\<lparr>v_world := send_control A u (v_world v)\<rparr>"

definition ref_solve :: "('f, 'e, 'm, 'w) rose_api \<Rightarrow> 'f list \<Rightarrow> ('f, 'e, 'm, 'w) flight_view \<Rightarrow> ('f, 'e, 'm, 'w) flight_view" where
  "ref_solve A st v = (case solve_control A st (v_mpc v) of (u, m) \<Rightarrow> v\<lparr>v_mpc := m, v_ctrl := u\<rparr>)"

definition ref_control :: "('f, 'e, 'm, 'w) rose_api \<Rightarrow> u32 \<Rightarrow> 'f list \<Rightarrow> ('f, 'e, 'm, 'w) flight_view \<Rightarrow> ('f, 'e, 'm, 'w) flight_view" where
  "ref_control A d st v =
     (let v = v\<lparr>v_tick := v_tick v + 1\<rparr> in if control_due d (v_tick v) then ref_solve A st v else v)"

definition ref_estimate :: "('f, 'e, 'm, 'w) rose_api \<Rightarrow> 'f sensor_frame \<Rightarrow> ('f, 'e, 'm, 'w) flight_view \<Rightarrow> ('f, 'e, 'm, 'w) flight_view" where
  "ref_estimate A f v = v\<lparr>v_est := update_estimate A f (v_est v)\<rparr>"

text \<open>From the control step on, and from the new frame on.\<close>

definition ref_act :: "('f, 'e, 'm, 'w) rose_api \<Rightarrow> ('f, 'e, 'm, 'w) flight_view \<Rightarrow> ('f, 'e, 'm, 'w) flight_view" where
  "ref_act A v = ref_send A (v_ctrl v) v"

definition ref_frame :: "('f, 'e, 'm, 'w) rose_api \<Rightarrow> u32 \<Rightarrow> 'f sensor_frame \<Rightarrow> ('f, 'e, 'm, 'w) flight_view \<Rightarrow> ('f, 'e, 'm, 'w) flight_view" where
  "ref_frame A d f v =
     (let v = ref_estimate A f v in ref_act A (ref_control A d (est_get_state A (v_est v)) v))"

fun ref_loop :: "('f, 'e, 'm, 'w) rose_api \<Rightarrow> u32 \<Rightarrow> nat \<Rightarrow> ('f, 'e, 'm, 'w) flight_view \<Rightarrow> ('f, 'e, 'm, 'w) flight_view" where
  "ref_loop A d 0 v = v"
| "ref_loop A d (Suc k) v =
     (case read_sensor_frame A (v_hold v) (v_world v) of (fo, h, w) \<Rightarrow>
      let v = v\<lparr>v_hold := h, v_world := w\<rparr>
      in ref_loop A d k (case fo of None \<Rightarrow> v | Some f \<Rightarrow> ref_frame A d f v))"

text \<open>What is visible of a state of the threads.\<close>

definition view :: "('f, 'e, 'm, 'w) pipeline \<Rightarrow> ('f, 'e, 'm, 'w) flight_view" where
  "view s = \<lparr>v_hold = hold s, v_est = estimator s, v_mpc = mpc s, v_ctrl = g_ctrl s, v_tick = tick s, v_world = world s\<rparr>"

section \<open>One token\<close>

text \<open>
  The number of places that hold the right to run: pending semaphores and threads in the
  middle of their work. It is 1 while the IO thread waits for the result and 0 otherwise, and
  the frame buffer has been written once the estimator is triggered.
\<close>

definition tokens :: "('f, 'e, 'm, 'w) pipeline \<Rightarrow> nat" where
  "tokens s = sem_sample s + sem_state s + sem_done s +
     of_bool (est_pc s \<noteq> EST_TAKE) + of_bool (ctrl_pc s \<noteq> CTRL_TAKE)"

definition pipeline_inv :: "('f, 'e, 'm, 'w) pipeline \<Rightarrow> bool" where
  "pipeline_inv s \<longleftrightarrow>
     (case io_pc s of
        IO_TAKE k \<Rightarrow> 0 < k \<and> tokens s = 1 \<and> g_frame s \<noteq> None
      | IO_GIVE k \<Rightarrow> 0 < k \<and> tokens s = 0 \<and> g_frame s \<noteq> None
      | IO_PUT k f \<Rightarrow> 0 < k \<and> tokens s = 0
      | IO_GET k \<Rightarrow> 0 < k \<and> tokens s = 0
      | IO_SEND k u \<Rightarrow> 0 < k \<and> tokens s = 0
      | _ \<Rightarrow> tokens s = 0)"

lemmas pipeline_defs = pipeline_inv_def tokens_def sem_give_def sem_take_def of_bool_def

lemmas pc_splits = io_pc.splits est_pc.splits ctrl_pc.splits

lemma io_block_inv:
  assumes "pipeline_inv s" and "io_block A s = Some s'"
  shows "pipeline_inv s'"
proof (cases "io_pc s")
  case (IO_READ k)
  then show ?thesis
    using assms by (cases k; cases "read_sensor_frame A (hold s) (world s)"; cases "fst (read_sensor_frame A (hold s) (world s))")
      (auto simp: io_block_def pipeline_defs)
qed (use assms in \<open>auto simp: io_block_def pipeline_defs split: if_splits\<close>)

lemma est_block_inv:
  assumes "pipeline_inv s" and "est_block A s = Some s'"
  shows "pipeline_inv s'"
  using assms by (cases "io_pc s"; cases "est_pc s") (auto simp: est_block_def pipeline_defs Let_def split: if_splits)

lemma ctrl_block_inv:
  assumes "pipeline_inv s" and "ctrl_block A d s = Some s'"
  shows "pipeline_inv s'"
  using assms by (cases "io_pc s"; cases "ctrl_pc s")
    (auto simp: ctrl_block_def pipeline_defs Let_def split: if_splits prod.splits)

lemma keepalive_inv [simp]: "pipeline_inv (keepalive_block s) = pipeline_inv s"
  by (simp add: keepalive_block_def pipeline_inv_def tokens_def cong: io_pc.case_cong)

lemma flight_step_inv: "flight_step A d s s' \<Longrightarrow> pipeline_inv s \<Longrightarrow> pipeline_inv s'"
  by (auto elim!: flight_step.cases intro: io_block_inv est_block_inv ctrl_block_inv)

lemma flight_boot_inv: "pipeline_inv (pipeline_boot A n e m w)"
  by (simp add: pipeline_boot_def pipeline_defs)

lemma flight_reachable_inv: "flight_reachable A d s0 s \<Longrightarrow> pipeline_inv s0 \<Longrightarrow> pipeline_inv s"
  by (induction rule: flight_reachable.induct) (auto intro: flight_step_inv)

section \<open>The result is the reference loop's\<close>

text \<open>What the work of the current iteration comes to, while the IO thread waits for it.\<close>

definition pending :: "('f, 'e, 'm, 'w) rose_api \<Rightarrow> u32 \<Rightarrow> ('f, 'e, 'm, 'w) pipeline \<Rightarrow> ('f, 'e, 'm, 'w) flight_view" where
  "pending A d s =
     (if sem_done s \<noteq> 0 then ref_act A (view s)
      else case ctrl_pc s of
        CTRL_TICK \<Rightarrow> ref_act A (ref_control A d (g_state s) (view s))
      | CTRL_GET \<Rightarrow> ref_act A (ref_solve A (g_state s) (view s))
      | CTRL_SOLVE st \<Rightarrow> ref_act A (ref_solve A st (view s))
      | CTRL_PUT u \<Rightarrow> ref_act A (view s\<lparr>v_ctrl := u\<rparr>)
      | CTRL_GIVE \<Rightarrow> ref_act A (view s)
      | CTRL_TAKE \<Rightarrow>
          (if sem_state s \<noteq> 0 then ref_act A (ref_control A d (g_state s) (view s))
           else case est_pc s of
             EST_PUT st \<Rightarrow> ref_act A (ref_control A d st (view s))
           | EST_GIVE \<Rightarrow> ref_act A (ref_control A d (g_state s) (view s))
           | EST_RUN f \<Rightarrow> ref_frame A d f (view s)
           | _ \<Rightarrow> ref_frame A d (the (g_frame s)) (view s)))"

text \<open>The state the threads will end in.\<close>

definition finish :: "('f, 'e, 'm, 'w) rose_api \<Rightarrow> u32 \<Rightarrow> ('f, 'e, 'm, 'w) pipeline \<Rightarrow> ('f, 'e, 'm, 'w) flight_view" where
  "finish A d s =
     (case io_pc s of
        IO_READ k \<Rightarrow> ref_loop A d k (view s)
      | IO_PUT k f \<Rightarrow> ref_loop A d (k - 1) (ref_frame A d f (view s))
      | IO_GIVE k \<Rightarrow> ref_loop A d (k - 1) (ref_frame A d (the (g_frame s)) (view s))
      | IO_TAKE k \<Rightarrow> ref_loop A d (k - 1) (pending A d s)
      | IO_GET k \<Rightarrow> ref_loop A d (k - 1) (ref_act A (view s))
      | IO_SEND k u \<Rightarrow> ref_loop A d (k - 1) (ref_send A u (view s))
      | IO_DONE \<Rightarrow> view s)"

lemmas ref_defs = ref_frame_def ref_estimate_def ref_act_def ref_send_def ref_control_def ref_solve_def view_def Let_def

lemma io_block_finish:
  assumes "pipeline_inv s" and "io_block A s = Some s'"
  shows "finish A d s' = finish A d s"
proof (cases "io_pc s")
  case (IO_READ k)
  then show ?thesis
    using assms by (cases k; cases "read_sensor_frame A (hold s) (world s)"; cases "fst (read_sensor_frame A (hold s) (world s))")
      (auto simp: io_block_def finish_def view_def Let_def)
next
  case (IO_GIVE k)
  then show ?thesis
    using assms by (auto simp: io_block_def pipeline_defs finish_def pending_def view_def split: if_splits)
next
  case (IO_TAKE k)
  then show ?thesis
    using assms by (auto simp: io_block_def pipeline_defs finish_def pending_def view_def split: if_splits)
qed (use assms in \<open>auto simp: io_block_def finish_def ref_defs\<close>)

lemma est_block_waits:
  assumes "pipeline_inv s" and "est_block A s = Some s'"
  shows "\<exists>k. io_pc s = IO_TAKE k \<and> 0 < k \<and> g_frame s \<noteq> None \<and> sem_done s = 0 \<and> sem_state s = 0 \<and> ctrl_pc s = CTRL_TAKE \<and>
    (if est_pc s = EST_TAKE then sem_sample s = 1 else sem_sample s = 0)"
  using assms by (cases "io_pc s"; cases "est_pc s")
    (auto simp: est_block_def pipeline_defs Let_def split: if_splits)

lemma est_block_finish:
  assumes "pipeline_inv s" and "est_block A s = Some s'"
  shows "finish A d s' = finish A d s"
proof -
  obtain k where k: "io_pc s = IO_TAKE k" "0 < k" "g_frame s \<noteq> None" "sem_done s = 0" "sem_state s = 0"
    "ctrl_pc s = CTRL_TAKE" using est_block_waits [OF assms] by blast
  show ?thesis
    using assms(2) k by (cases "est_pc s")
      (auto simp: est_block_def finish_def pending_def sem_take_def sem_give_def view_def ref_frame_def
        ref_estimate_def Let_def split: if_splits)
qed

lemma ctrl_block_waits:
  assumes "pipeline_inv s" and "ctrl_block A d s = Some s'"
  shows "\<exists>k. io_pc s = IO_TAKE k \<and> 0 < k \<and> sem_done s = 0 \<and> sem_sample s = 0 \<and> est_pc s = EST_TAKE \<and>
    (if ctrl_pc s = CTRL_TAKE then sem_state s = 1 else sem_state s = 0)"
  using assms by (cases "io_pc s"; cases "ctrl_pc s")
    (auto simp: ctrl_block_def pipeline_defs Let_def split: if_splits prod.splits)

lemma ctrl_block_finish:
  assumes "pipeline_inv s" and "ctrl_block A d s = Some s'"
  shows "finish A d s' = finish A d s"
proof -
  obtain k where k: "io_pc s = IO_TAKE k" "0 < k" "sem_done s = 0" "sem_sample s = 0" "est_pc s = EST_TAKE"
    "if ctrl_pc s = CTRL_TAKE then sem_state s = 1 else sem_state s = 0"
    using ctrl_block_waits [OF assms] by blast
  show ?thesis
    using assms(2) k by (cases "ctrl_pc s")
      (auto simp: ctrl_block_def finish_def pending_def sem_take_def sem_give_def view_def ref_control_def
        ref_solve_def Let_def split: if_splits prod.splits)
qed

lemma keepalive_finish [simp]: "finish A d (keepalive_block s) = finish A d s"
  by (simp add: keepalive_block_def finish_def pending_def view_def cong: io_pc.case_cong est_pc.case_cong ctrl_pc.case_cong)

lemma step_finish: "flight_step A d s s' \<Longrightarrow> pipeline_inv s \<Longrightarrow> finish A d s' = finish A d s"
  by (auto elim!: flight_step.cases simp: io_block_finish est_block_finish ctrl_block_finish)

lemma reachable_finish:
  "flight_reachable A d s0 s \<Longrightarrow> pipeline_inv s0 \<Longrightarrow> finish A d s = finish A d s0"
  by (induction rule: flight_reachable.induct) (auto simp: step_finish dest: flight_reachable_inv)

section \<open>Progress\<close>

lemma some_block_runs:
  assumes "pipeline_inv s" and "io_pc s \<noteq> IO_DONE"
  shows "io_block A s \<noteq> None \<or> est_block A s \<noteq> None \<or> ctrl_block A d s \<noteq> None"
proof (cases "io_block A s")
  case None
  then obtain k where k: "io_pc s = IO_TAKE k" "sem_done s = 0"
    using assms(2) by (auto simp: io_block_def sem_take_def split: io_pc.splits nat.splits prod.splits option.splits if_splits)
  have t: "sem_sample s + sem_state s + of_bool (est_pc s \<noteq> EST_TAKE) + of_bool (ctrl_pc s \<noteq> CTRL_TAKE) = 1"
    "g_frame s \<noteq> None" using assms(1) k by (simp_all add: pipeline_inv_def tokens_def)
  show ?thesis
  proof (cases "est_pc s \<noteq> EST_TAKE \<or> sem_sample s \<noteq> 0")
    case True
    then have "est_block A s \<noteq> None"
      using t(2) by (cases "est_pc s") (auto simp: est_block_def sem_take_def Let_def)
    then show ?thesis by blast
  next
    case False
    then have "ctrl_pc s \<noteq> CTRL_TAKE \<or> sem_state s \<noteq> 0" using t by (auto simp: of_bool_def split: if_splits)
    then have "ctrl_block A d s \<noteq> None"
      by (cases "ctrl_pc s") (simp_all add: ctrl_block_def sem_take_def Let_def split: prod.splits)
    then show ?thesis by blast
  qed
qed simp

text \<open>At most one of the three threads is not blocked.\<close>

lemma one_block_runs:
  assumes "pipeline_inv s"
  shows "est_block A s \<noteq> None \<Longrightarrow> io_block A s = None \<and> ctrl_block A d s = None"
    and "ctrl_block A d s \<noteq> None \<Longrightarrow> io_block A s = None \<and> est_block A s = None"
proof -
  have io: "io_block A s = None" if "io_pc s = IO_TAKE k" "sem_done s = 0" for k
    using that by (simp add: io_block_def sem_take_def)
  show "est_block A s \<noteq> None \<Longrightarrow> io_block A s = None \<and> ctrl_block A d s = None"
    using est_block_waits [OF assms, of A] io by (force simp: ctrl_block_def sem_take_def)
  show "ctrl_block A d s \<noteq> None \<Longrightarrow> io_block A s = None \<and> est_block A s = None"
    using ctrl_block_waits [OF assms, of A d] io by (force simp: est_block_def sem_take_def)
qed

text \<open>The steps that are left at most.\<close>

definition rank :: "('f, 'e, 'm, 'w) pipeline \<Rightarrow> nat" where
  "rank s = (case io_pc s of
     IO_READ k \<Rightarrow> 20 * k + 1
   | IO_PUT k f \<Rightarrow> 20 * k
   | IO_GIVE k \<Rightarrow> 20 * k - 1
   | IO_TAKE k \<Rightarrow> 20 * k -
       (if sem_done s \<noteq> 0 then 13
        else case ctrl_pc s of CTRL_TICK \<Rightarrow> 8 | CTRL_GET \<Rightarrow> 9 | CTRL_SOLVE st \<Rightarrow> 10 | CTRL_PUT u \<Rightarrow> 11
          | CTRL_GIVE \<Rightarrow> 12
          | CTRL_TAKE \<Rightarrow> if sem_state s \<noteq> 0 then 7
            else case est_pc s of EST_TAKE \<Rightarrow> 2 | EST_GET \<Rightarrow> 3 | EST_RUN f \<Rightarrow> 4 | EST_PUT st \<Rightarrow> 5 | EST_GIVE \<Rightarrow> 6)
   | IO_GET k \<Rightarrow> 20 * k - 14
   | IO_SEND k u \<Rightarrow> 20 * k - 15
   | IO_DONE \<Rightarrow> 0)"

lemma io_block_rank:
  assumes "pipeline_inv s" and "io_block A s = Some s'"
  shows "rank s' < rank s"
proof (cases "io_pc s")
  case (IO_READ k)
  then show ?thesis
    using assms by (cases k; cases "read_sensor_frame A (hold s) (world s)"; cases "fst (read_sensor_frame A (hold s) (world s))")
      (auto simp: io_block_def rank_def)
next
  case (IO_GIVE k)
  then show ?thesis using assms by (auto simp: io_block_def rank_def pipeline_defs split: if_splits)
qed (use assms in \<open>auto simp: io_block_def rank_def pipeline_inv_def sem_take_def split: if_splits\<close>)

lemma est_block_rank:
  assumes "pipeline_inv s" and "est_block A s = Some s'"
  shows "rank s' < rank s"
proof -
  obtain k where k: "io_pc s = IO_TAKE k" "0 < k" "g_frame s \<noteq> None" "sem_done s = 0" "sem_state s = 0"
    "ctrl_pc s = CTRL_TAKE" using est_block_waits [OF assms] by blast
  show ?thesis
    using assms(2) k by (cases "est_pc s")
      (auto simp: est_block_def rank_def sem_take_def sem_give_def Let_def split: if_splits)
qed

lemma ctrl_block_rank:
  assumes "pipeline_inv s" and "ctrl_block A d s = Some s'"
  shows "rank s' < rank s"
proof -
  obtain k where k: "io_pc s = IO_TAKE k" "0 < k" "sem_done s = 0" "sem_sample s = 0" "est_pc s = EST_TAKE"
    "if ctrl_pc s = CTRL_TAKE then sem_state s = 1 else sem_state s = 0"
    using ctrl_block_waits [OF assms] by blast
  show ?thesis
    using assms(2) k by (cases "ctrl_pc s")
      (auto simp: ctrl_block_def rank_def sem_take_def sem_give_def Let_def split: if_splits prod.splits)
qed

lemma keepalive_rank [simp]: "rank (keepalive_block s) = rank s"
  by (simp add: keepalive_block_def rank_def cong: io_pc.case_cong est_pc.case_cong ctrl_pc.case_cong)

text \<open>A run with the number of steps the three threads have taken in it.\<close>

inductive flight_run ::
    "('f, 'e, 'm, 'w) rose_api \<Rightarrow> u32 \<Rightarrow> ('f, 'e, 'm, 'w) pipeline \<Rightarrow> nat \<Rightarrow> ('f, 'e, 'm, 'w) pipeline \<Rightarrow> bool"
  for A d s0 where
  run_start: "flight_run A d s0 0 s0"
| run_block: "flight_run A d s0 j s \<Longrightarrow>
    io_block A s = Some s' \<or> est_block A s = Some s' \<or> ctrl_block A d s = Some s' \<Longrightarrow> flight_run A d s0 (Suc j) s'"
| run_keepalive: "flight_run A d s0 j s \<Longrightarrow> flight_run A d s0 j (keepalive_block s)"

lemma run_reachable: "flight_run A d s0 j s \<Longrightarrow> flight_reachable A d s0 s"
  by (induction rule: flight_run.induct) (auto intro: flight_reachable.intros flight_step.intros)

lemma reachable_run: "flight_reachable A d s0 s \<Longrightarrow> \<exists>j. flight_run A d s0 j s"
  by (induction rule: flight_reachable.induct) (auto elim!: flight_step.cases intro: flight_run.intros)

lemma run_rank:
  "flight_run A d s0 j s \<Longrightarrow> pipeline_inv s0 \<Longrightarrow> j + rank s \<le> rank s0"
proof (induction rule: flight_run.induct)
  case (run_block j s s')
  have "pipeline_inv s" by (rule flight_reachable_inv [OF run_reachable [OF run_block.hyps(1)] run_block.prems])
  with run_block.hyps(2) have "rank s' < rank s" by (auto intro: io_block_rank est_block_rank ctrl_block_rank)
  with run_block.IH run_block.prems show ?case by simp
qed simp_all

lemma finishes_from:
  "pipeline_inv s \<Longrightarrow> flight_reachable A d s0 s \<Longrightarrow> \<exists>s'. flight_reachable A d s0 s' \<and> io_pc s' = IO_DONE"
proof (induction "rank s" arbitrary: s rule: less_induct)
  case less
  show ?case
  proof (cases "io_pc s = IO_DONE")
    case False
    then obtain t where t: "flight_step A d s t" "rank t < rank s"
      using some_block_runs [OF less.prems(1) False, of A d] less.prems(1)
      by (blast intro: flight_step.intros io_block_rank est_block_rank ctrl_block_rank)
    show ?thesis
      by (rule less.hyps [OF t(2) flight_step_inv [OF t(1) less.prems(1)] flight_reachable.step])
        (fact less.prems(2), fact t(1))
  qed (use less.prems in blast)
qed

lemma pipeline_finishes:
  "\<exists>s. flight_reachable A d (pipeline_boot A n e m w) s \<and> io_pc s = IO_DONE"
  by (rule finishes_from [OF flight_boot_inv flight_reachable.start])

definition flight_bench :: rose_world where
  "flight_bench = \<lparr>next_fetch = (\<lambda>d. if d = GYRO then [0, - EIO] else []), reading = (\<lambda>d c. [Some 1, Some 2, Some 3]),
     sent_words = [], rose_clock = 0\<rparr>"

section \<open>Properties\<close>

text \<open>
  C4: The threaded controller computes what the reference loop does, on every schedule: when
  the IO thread is done, sensors, estimator, solver, thrusts, tick count and everything sent
  are as after the same number of iterations of the loop without threads.
\<close>

theorem threads_refine_reference:
  assumes "flight_reachable A d (pipeline_boot A n e m w) s" and "io_pc s = IO_DONE"
  shows "view s = ref_loop A d n (view (pipeline_boot A n e m w))"
  using reachable_finish [OF assms(1) flight_boot_inv] assms(2)
  by (simp add: finish_def pipeline_boot_def)

lemma threads_refine_reference_witness:
  "\<exists>s. io_pc s = IO_DONE \<and>
     view s = ref_loop sim_rose 4 3 (view (pipeline_boot sim_rose 3 0 () flight_bench))"
proof -
  obtain s where s: "flight_reachable sim_rose 4 (pipeline_boot sim_rose 3 0 () flight_bench) s" "io_pc s = IO_DONE"
    using pipeline_finishes [of sim_rose 4 3 0 "()" flight_bench] by blast
  with threads_refine_reference [OF s] show ?thesis by blast
qed

lemma ref_loop_single:
  "case ref_loop A 1 n v of v' \<Rightarrow> (v_hold v', v_est v', v_mpc v', v_world v') =
     single_loop A n (v_hold v, v_est v, v_mpc v, v_world v)"
proof (induction n arbitrary: v)
  case (Suc n)
  obtain fo h w where r: "read_sensor_frame A (v_hold v) (v_world v) = (fo, h, w)" by (metis prod.exhaust)
  show ?case
  proof (cases fo)
    case None
    with r Suc.IH [of "v\<lparr>v_hold := h, v_world := w\<rparr>"] show ?thesis by simp
  next
    case (Some f)
    obtain u m where u: "solve_control A (est_get_state A (update_estimate A f (v_est v))) (v_mpc v) = (u, m)"
      by fastforce
    have "control_due 1 t" for t by (simp add: control_due_def)
    with r Some u show ?thesis
      using Suc.IH [of "ref_frame A 1 f (v\<lparr>v_hold := h, v_world := w\<rparr>)"]
      by (simp add: ref_frame_def ref_estimate_def ref_act_def ref_send_def ref_control_def ref_solve_def Let_def)
  qed
qed simp

text \<open>
  With \<open>ROSE_CTRL_DIV\<close> 1 the threaded build and the single-loop build agree: the same
  commands are sent, and the sensors, the estimator and the solver end in the same state.
\<close>

theorem threads_agree_with_single_loop:
  assumes "flight_reachable A 1 (pipeline_boot A n e m w) s" and "io_pc s = IO_DONE"
  shows "(hold s, estimator s, mpc s, world s) = single_loop A n (tof_hold_0 A, e, m, w)"
proof -
  have "finish A 1 s = finish A 1 (pipeline_boot A n e m w)" by (rule reachable_finish [OF assms(1) flight_boot_inv])
  then have v: "ref_loop A 1 n (view (pipeline_boot A n e m w)) = view s"
    using assms(2) by (simp add: finish_def pipeline_boot_def)
  show ?thesis
    using ref_loop_single [of A n "view (pipeline_boot A n e m w)"] unfolding v
    by (simp add: view_def pipeline_boot_def)
qed

lemma threads_agree_with_single_loop_witness:
  "\<exists>s. flight_reachable sim_rose 1 (pipeline_boot sim_rose 2 0 () flight_bench) s \<and> io_pc s = IO_DONE \<and>
     (hold s, estimator s, mpc s, world s) = single_loop sim_rose 2 (tof_hold_0 sim_rose, 0, (), flight_bench)"
proof -
  obtain s where s: "flight_reachable sim_rose 1 (pipeline_boot sim_rose 2 0 () flight_bench) s" "io_pc s = IO_DONE"
    using pipeline_finishes [of sim_rose 1 2 0 "()" flight_bench] by blast
  with threads_agree_with_single_loop [OF s] show ?thesis by blast
qed

text \<open>
  C10: The hand-off by semaphores never blocks the three threads. On every schedule of the IO,
  estimator and control threads, the keep-alive thread spinning in between, in every state
  where the IO thread is not done exactly one of the three can take its next step - the
  others wait for a semaphore - and the three together take at most 20 steps per iteration of
  the IO loop and one more. The calls into the drivers and the solver are taken to return and
  a section under a mutex is one step: the stall that main.cpp:254-260 reports for the
  lockstep co-simulation is a driver call of the IO thread that does not return, which this
  does not exclude; it excludes that the threads' own hand-off is the cause.
\<close>

theorem handoff_never_blocks:
  assumes "flight_run A d (pipeline_boot A n e m w) j s"
  shows "j \<le> 20 * n + 1 \<and> (io_pc s \<noteq> IO_DONE \<longrightarrow>
    of_bool (io_block A s \<noteq> None) + of_bool (est_block A s \<noteq> None) + of_bool (ctrl_block A d s \<noteq> None) = (1 :: nat))"
proof -
  have "j \<le> 20 * n + 1" using run_rank [OF assms flight_boot_inv] by (simp add: pipeline_boot_def rank_def)
  have "pipeline_inv s" by (rule flight_reachable_inv [OF run_reachable [OF assms] flight_boot_inv])
  from some_block_runs [OF this, of A d] one_block_runs [OF this, of A d] \<open>j \<le> 20 * n + 1\<close>
  show ?thesis by (cases "io_pc s = IO_DONE") (auto simp: of_bool_def)
qed

lemma handoff_never_blocks_witness:
  "\<exists>j s. flight_run sim_rose 4 (pipeline_boot sim_rose 3 0 () flight_bench) j s \<and> j \<le> 61 \<and> io_pc s = IO_DONE"
proof -
  obtain s where s: "flight_reachable sim_rose 4 (pipeline_boot sim_rose 3 0 () flight_bench) s" "io_pc s = IO_DONE"
    using pipeline_finishes [of sim_rose 4 3 0 "()" flight_bench] by blast
  from reachable_run [OF s(1)] obtain j where
    r: "flight_run sim_rose 4 (pipeline_boot sim_rose 3 0 () flight_bench) j s" ..
  from handoff_never_blocks [OF r] r s(2) show ?thesis by auto
qed

end
