(* ===== verification/Rose_Nav.thy ===== *)
theory Rose_Nav
  imports Rose_Flight
begin

text \<open>
  The navigation controller \<open>samples/rose_nav_controller/src/main.cpp\<close>: the sensor read with the
  four horizontal range sensors, the three ways to build the reference, the clamped actuator
  output with its staleness record, the camera and the vision network, and the single loop.
  The build options are parameters: the navigation mode, and whether the walls are present.
  The threads are in the theory on the vision handshake.
\<close>

datatype nav_mode = WAYPOINT | VELOCITY | DRONET

definition NAV_CTRL_ITERS :: nat where "NAV_CTRL_ITERS = 6000"
definition SETTLE_ITERS :: int where "SETTLE_ITERS = 600"
definition RAMP_ITERS :: int where "RAMP_ITERS = 1000"
definition CRUISE_RAMP_ITERS :: int where "CRUISE_RAMP_ITERS = 200"
definition VISION_DIV :: nat where "VISION_DIV = 100"

definition TOF_MAX_RANGE :: "('f, 'z) float_api_scheme \<Rightarrow> 'f" where "TOF_MAX_RANGE A = f_lit A 40 1"
definition WAYPOINT_X :: "('f, 'z) float_api_scheme \<Rightarrow> 'f" where "WAYPOINT_X A = f_lit A 10 1"
definition CRUISE_VX :: "('f, 'z) float_api_scheme \<Rightarrow> 'f" where "CRUISE_VX A = f_lit A 4 1"
definition DRONET_CRUISE_VX :: "('f, 'z) float_api_scheme \<Rightarrow> 'f" where "DRONET_CRUISE_VX A = f_lit A 4 1"
definition DRONET_YAW_GAIN :: "('f, 'z) float_api_scheme \<Rightarrow> 'f" where "DRONET_YAW_GAIN A = f_lit A 10 1"

definition DRONET_STEER_SCALE :: "('f, 'z) float_api_scheme \<Rightarrow> 'f" where
  "DRONET_STEER_SCALE A = f_lit A 2902903275954441761 22"
definition DRONET_COLLISION_SCALE :: "('f, 'z) float_api_scheme \<Rightarrow> 'f" where
  "DRONET_COLLISION_SCALE A = f_lit A 3767134401741929 18"

text \<open>
  The camera driver, the preprocessing library and the generated network.
  \<open>cam_dequeue\<close>: status, whether a buffer came back, and what is then in \<open>g_cam_frame\<close>.
\<close>

record ('f, 'e, 'm, 'w) nav_api = "('f, 'e, 'm, 'w) rose_api" +
  cam_ready :: "'w \<Rightarrow> bool"
  cam_enqueue :: "'w \<Rightarrow> int \<times> 'w"
  cam_dequeue :: "'w \<Rightarrow> int \<times> bool \<times> u8 list \<times> 'w"
  cam_format :: "'w \<Rightarrow> u16 \<times> u16 \<times> 'w"
  rgb_to_dronet :: "u8 list \<Rightarrow> u16 \<Rightarrow> u16 \<Rightarrow> int \<times> u8 list"
  run_model_dronet :: "u8 list \<Rightarrow> u8 list"
  gt_state :: "'w \<Rightarrow> 'f list \<times> 'w"

section \<open>Sensors\<close>

record 'f nav_frame = "'f sensor_frame" +
  df :: 'f
  db :: 'f
  dl :: 'f
  dr :: 'f

definition read_dist :: "('f, 'e, 'm, 'w, 'z) rose_api_scheme \<Rightarrow> rose_dev \<Rightarrow> 'w \<Rightarrow> 'f \<times> 'w" where
  "read_dist A dev w =
     (case channel_get A dev TOF_ZONE_CENTER w of (rc, v, w) \<Rightarrow>
        if rc < 0 then (TOF_MAX_RANGE A, w) else (v ! 0, w))"

text \<open>Without walls the distances of the frame are not set, and not read either.\<close>

definition read_walls ::
    "('f, 'e, 'm, 'w, 'z) rose_api_scheme \<Rightarrow> bool \<Rightarrow> 'w \<Rightarrow> 'f \<times> 'f \<times> 'f \<times> 'f \<times> 'w" where
  "read_walls A walls w =
     (if \<not> walls then (f_lit A 0 1, f_lit A 0 1, f_lit A 0 1, f_lit A 0 1, w)
      else case read_dist A TOF_FRONT w of (f, w) \<Rightarrow>
      case read_dist A TOF_BACK w of (b, w) \<Rightarrow>
      case read_dist A TOF_LEFT w of (l, w) \<Rightarrow>
      case read_dist A TOF_RIGHT w of (r, w) \<Rightarrow> (f, b, l, r, w))"

fun fetch_all :: "('f, 'e, 'm, 'w, 'z) rose_api_scheme \<Rightarrow> rose_dev list \<Rightarrow> 'w \<Rightarrow> 'w" where
  "fetch_all A [] w = w"
| "fetch_all A (d # ds) w = fetch_all A ds (snd (sample_fetch A d w))"

definition nav_flow :: "('f, 'e, 'm, 'w, 'z) rose_api_scheme \<Rightarrow> 'w \<Rightarrow> 'f list \<times> bool \<times> 'w" where
  "nav_flow A w =
     (if \<not> HAVE_FLOW A then ([f_lit A 0 1, f_lit A 0 1], True, w)
      else case channel_get A FLOW FLOW_VX w of (_, vx, w) \<Rightarrow>
      case channel_get A FLOW FLOW_VY w of (_, vy, w) \<Rightarrow>
      if \<not> f_eq A (vx ! 0) (vx ! 0) \<or> \<not> f_eq A (vy ! 0) (vy ! 0)
      then ([f_lit A 0 1, f_lit A 0 1], False, w)
      else ([vx ! 0, vy ! 0], True, w))"

definition read_nav_frame ::
    "('f, 'e, 'm, 'w, 'z) rose_api_scheme \<Rightarrow> bool \<Rightarrow> 'w \<Rightarrow> 'f nav_frame option \<times> 'w" where
  "read_nav_frame A walls w =
     (case sample_fetch A ACCEL w of (rc_a, w) \<Rightarrow>
      case sample_fetch A GYRO w of (rc_g, w) \<Rightarrow>
      let w = (if HAVE_FLOW A then snd (sample_fetch A FLOW w) else w) in
      case (if HAVE_TOF A then sample_fetch A TOF w else (1, w)) of (rc_t, w) \<Rightarrow>
      let zv = (HAVE_TOF A \<and> rc_t = 0);
          w = (if walls then fetch_all A [TOF_FRONT, TOF_RIGHT, TOF_BACK, TOF_LEFT] w else w) in
      if rc_a < 0 \<or> rc_g < 0 then (None, w)
      else case channel_get A ACCEL ACCEL_XYZ w of (_, av, w) \<Rightarrow>
      case channel_get A GYRO GYRO_XYZ w of (_, gv, w) \<Rightarrow>
      case nav_flow A w of (fl, fv, w) \<Rightarrow>
      case (if zv then case channel_get A TOF DISTANCE w of (_, z, w) \<Rightarrow> (z ! 0, w) else (START_Z A, w)) of (z, w) \<Rightarrow>
      case read_walls A walls w of (d_f, d_b, d_l, d_r, w) \<Rightarrow>
      (Some \<lparr>accel = take 3 av, gyro = take 3 gv, flow = fl, height = z, flow_valid = fv, tof_valid = zv,
         df = d_f, db = d_b, dl = d_l, dr = d_r\<rparr>, w))"

definition run_estimator :: "('f, 'e, 'm, 'w, 'z) rose_api_scheme \<Rightarrow> bool \<Rightarrow> 'f nav_frame \<Rightarrow> 'e \<Rightarrow> 'f list \<times> 'e" where
  "run_estimator A walls f e =
     (let e = est_update A (accel f) (gyro f) (flow f) (flow_valid f) (height f) (tof_valid f) (CTRL_DT A) e;
          e = (if walls then est_fuse_walls A (df f) (db f) (dl f) (dr f) (TOF_MAX_RANGE A) e else e)
      in (est_get_state A e, e))"

section \<open>The reference\<close>

text \<open>The ramp from 0 to 1 that starts after the settling time.\<close>

definition ramp :: "('f, 'z) float_api_scheme \<Rightarrow> int \<Rightarrow> int \<Rightarrow> 'f" where
  "ramp A iter n =
     (let fr = f_div A (f_of_int A (iter - SETTLE_ITERS)) (f_of_int A n)
      in if f_less A (f_lit A 10 1) fr then f_lit A 10 1 else fr)"

definition dronet_vx :: "('f, 'z) float_api_scheme \<Rightarrow> int \<Rightarrow> 'f \<Rightarrow> 'f" where
  "dronet_vx A iter collision =
     (let vx = f_mul A (f_sub A (f_lit A 10 1) collision) (DRONET_CRUISE_VX A);
          vx = (if f_less A vx (f_lit A 0 1) then f_lit A 0 1 else vx)
      in if iter \<le> SETTLE_ITERS then f_lit A 0 1 else vx)"

text \<open>The setpoint and the logged command.\<close>

definition nav_setpoint ::
    "('f, 'z) float_api_scheme \<Rightarrow> nav_mode \<Rightarrow> 'f \<Rightarrow> int \<Rightarrow> 'f \<Rightarrow> 'f \<Rightarrow> 'f list \<times> 'f" where
  "nav_setpoint A mode target iter steer collision =
     (let sp = (replicate NSTATES (f_lit A 0 1))[2 := target] in
      case mode of
        DRONET \<Rightarrow>
          (let vx = dronet_vx A iter collision
           in (sp[5 := f_mul A steer (DRONET_YAW_GAIN A), 6 := vx], vx))
      | VELOCITY \<Rightarrow>
          (let vx = (if SETTLE_ITERS < iter then f_mul A (CRUISE_VX A) (ramp A iter CRUISE_RAMP_ITERS) else f_lit A 0 1)
           in (sp[6 := vx], vx))
      | WAYPOINT \<Rightarrow>
          (let sx = (if SETTLE_ITERS < iter then f_mul A (WAYPOINT_X A) (ramp A iter RAMP_ITERS) else f_lit A 0 1)
           in (sp[0 := sx], sx)))"

text \<open>Which position errors are regulated.\<close>

definition nav_error ::
    "('f, 'z) float_api_scheme \<Rightarrow> nav_mode \<Rightarrow> bool \<Rightarrow> 'f list \<Rightarrow> 'f list \<Rightarrow> 'f list" where
  "nav_error A mode walls state sp =
     (let err = map2 (f_sub A) (take NSTATES state) sp in
      if mode = WAYPOINT then (if \<not> walls then err[0 := f_lit A 0 1, 1 := f_lit A 0 1] else err)
      else let err = err[0 := f_lit A 0 1] in if \<not> walls then err[1 := f_lit A 0 1] else err)"

definition solve_nav ::
    "('f, 'e, 'm, 'w, 'z) rose_api_scheme \<Rightarrow> nav_mode \<Rightarrow> bool \<Rightarrow> 'f \<Rightarrow> int \<Rightarrow> 'f list \<Rightarrow> 'f \<Rightarrow> 'f \<Rightarrow> 'm \<Rightarrow>
       'f list \<times> 'f \<times> 'm" where
  "solve_nav A mode walls target iter state steer collision m =
     (case nav_setpoint A mode target iter steer collision of (sp, logcmd) \<Rightarrow>
      case mpc_solve A (nav_error A mode walls state sp) m of (u, m) \<Rightarrow> (take NACTIONS u, logcmd, m))"

section \<open>Actuation\<close>

text \<open>The staleness record.\<close>

record send_track =
  g_last_send :: u64
  g_max_send_gap :: u64
  g_send_n :: u32

definition track_send_gap :: "u64 \<Rightarrow> send_track \<Rightarrow> send_track" where
  "track_send_gap now t =
     (let t = (if g_last_send t \<noteq> 0 \<and> g_max_send_gap t < now - g_last_send t
               then t\<lparr>g_max_send_gap := now - g_last_send t\<rparr> else t)
      in t\<lparr>g_last_send := now, g_send_n := g_send_n t + 1\<rparr>)"

definition clamp_thrust :: "('f, 'z) float_api_scheme \<Rightarrow> 'f \<Rightarrow> 'f" where
  "clamp_thrust A u = f_clamp A (f_lit A (- 583) 3) (f_lit A 417 3) u"

fun nav_tx :: "('f, 'e, 'm, 'w, 'z) rose_api_scheme \<Rightarrow> u32 list \<Rightarrow> 'w \<Rightarrow> 'w" where
  "nav_tx A [] w = w"
| "nav_tx A (x # xs) w = nav_tx A xs (rose_tx A x w)"

definition nav_send_control ::
    "('f, 'e, 'm, 'w, 'z) rose_api_scheme \<Rightarrow> 'f list \<Rightarrow> send_track \<times> 'w \<Rightarrow> send_track \<times> 'w" where
  "nav_send_control A u tw =
     (case tw of (t, w) \<Rightarrow>
      let w = nav_tx A (ROSE_CMD_CONTROL # word_of_nat (NACTIONS * 4) #
            map (\<lambda>x. f_bits A (clamp_thrust A x)) (take NACTIONS u)) w
      in case cycle_get_64 A w of (now, w) \<Rightarrow> (track_send_gap now t, w))"

section \<open>Vision\<close>

text \<open>The buffers \<open>g_cam_frame\<close>, \<open>g_cam_w\<close>, \<open>g_cam_h\<close> and \<open>g_cam_out\<close>.\<close>

record cam_buffers =
  g_cam_frame :: "u8 list"
  g_cam_w :: u16
  g_cam_h :: u16
  g_cam_out :: "u8 list"

definition capture_frame ::
    "('f, 'e, 'm, 'w, 'z) nav_api_scheme \<Rightarrow> cam_buffers \<times> 'w \<Rightarrow> bool \<times> cam_buffers \<times> 'w" where
  "capture_frame A bw =
     (case bw of (b, w) \<Rightarrow>
      case cam_enqueue A w of (rc, w) \<Rightarrow>
      if rc \<noteq> 0 then (False, b, w)
      else case cam_dequeue A w of (rc, got, img, w) \<Rightarrow>
      let b = b\<lparr>g_cam_frame := img\<rparr> in
      if rc \<noteq> 0 \<or> \<not> got then (False, b, w)
      else case cam_format A w of (x, y, w) \<Rightarrow> (True, b\<lparr>g_cam_w := x, g_cam_h := y\<rparr>, w))"

definition vision_infer :: "('f, 'e, 'm, 'w, 'z) nav_api_scheme \<Rightarrow> cam_buffers \<Rightarrow> cam_buffers" where
  "vision_infer A b =
     (case rgb_to_dronet A (g_cam_frame b) (g_cam_w b) (g_cam_h b) of (rc, tensor) \<Rightarrow>
        if rc \<noteq> 0 then b else b\<lparr>g_cam_out := run_model_dronet A tensor\<rparr>)"

record 'f vision_cmd =
  steer :: 'f
  collision :: 'f
  valid :: bool

definition vision_cmd_0 :: "('f, 'z) float_api_scheme \<Rightarrow> 'f vision_cmd" where
  "vision_cmd_0 A = \<lparr>steer = f_lit A 0 1, collision = f_lit A 5 1, valid = False\<rparr>"

text \<open>The network's two outputs, scaled; \<open>int8_t\<close> is a byte read as signed.\<close>

definition vision_result :: "('f, 'z) float_api_scheme \<Rightarrow> u8 list \<Rightarrow> 'f vision_cmd" where
  "vision_result A out =
     \<lparr>steer = f_mul A (f_of_int A (sint (out ! 0))) (DRONET_STEER_SCALE A),
      collision = f_mul A (f_of_int A (sint (out ! 1))) (DRONET_COLLISION_SCALE A), valid = True\<rparr>"

section \<open>The single loop\<close>

record ('f, 'e, 'm, 'w) nav_state =
  n_est :: 'e
  n_mpc :: 'm
  n_track :: send_track
  n_cam :: cam_buffers
  n_vision :: "'f vision_cmd"
  n_state :: "'f list"
  n_world :: 'w

text \<open>The inline inference of the single loop.\<close>

definition nav_vision ::
    "('f, 'e, 'm, 'w, 'z) nav_api_scheme \<Rightarrow> nav_mode \<Rightarrow> bool \<Rightarrow> nat \<Rightarrow> ('f, 'e, 'm, 'w) nav_state \<Rightarrow> ('f, 'e, 'm, 'w) nav_state" where
  "nav_vision A mode cam iter s =
     (if mode \<noteq> DRONET \<or> \<not> cam \<or> iter mod VISION_DIV \<noteq> 0 then s
      else case capture_frame A (n_cam s, n_world s) of (ok, b, w) \<Rightarrow>
        if \<not> ok then s\<lparr>n_cam := b, n_world := w\<rparr>
        else let b = vision_infer A b
             in s\<lparr>n_cam := b, n_world := w, n_vision := vision_result A (g_cam_out b)\<rparr>)"

text \<open>The ZOH'd command; without the network the neutral one.\<close>

definition nav_command ::
    "('f, 'z) float_api_scheme \<Rightarrow> nav_mode \<Rightarrow> 'f vision_cmd \<Rightarrow> 'f \<times> 'f" where
  "nav_command A mode v = (if mode = DRONET then (steer v, collision v) else (f_lit A 0 1, f_lit A 5 1))"

text \<open>One iteration; \<open>gt\<close> is \<open>ROSE_GT_STATE\<close>, which takes the state from the simulator.\<close>

definition nav_iteration ::
    "('f, 'e, 'm, 'w, 'z) nav_api_scheme \<Rightarrow> nav_mode \<Rightarrow> bool \<Rightarrow> bool \<Rightarrow> bool \<Rightarrow> 'f \<Rightarrow> nat \<Rightarrow>
       ('f, 'e, 'm, 'w) nav_state \<Rightarrow> ('f, 'e, 'm, 'w) nav_state" where
  "nav_iteration A mode gt walls cam target iter s =
     (case (if gt then case gt_state A (n_world s) of (got, w) \<Rightarrow>
               Some (s\<lparr>n_state := take NSTATES got @ drop (length (take NSTATES got)) (n_state s), n_world := w\<rparr>)
            else case read_nav_frame A walls (n_world s) of
               (None, w) \<Rightarrow> None
             | (Some f, w) \<Rightarrow>
                 (case run_estimator A walls f (n_est s) of (st, e) \<Rightarrow>
                    Some (s\<lparr>n_state := st, n_est := e, n_world := w\<rparr>))) of
        None \<Rightarrow> s\<lparr>n_world := snd (read_nav_frame A walls (n_world s))\<rparr>
      | Some s \<Rightarrow>
          let s = nav_vision A mode cam iter s in
          case nav_command A mode (n_vision s) of (st, co) \<Rightarrow>
          case solve_nav A mode walls target (int iter) (n_state s) st co (n_mpc s) of (u, logcmd, m) \<Rightarrow>
          case nav_send_control A u (n_track s, n_world s) of (t, w) \<Rightarrow>
          s\<lparr>n_mpc := m, n_track := t, n_world := w\<rparr>)"

fun nav_loop ::
    "('f, 'e, 'm, 'w, 'z) nav_api_scheme \<Rightarrow> nav_mode \<Rightarrow> bool \<Rightarrow> bool \<Rightarrow> bool \<Rightarrow> 'f \<Rightarrow> nat list \<Rightarrow>
       ('f, 'e, 'm, 'w) nav_state \<Rightarrow> ('f, 'e, 'm, 'w) nav_state" where
  "nav_loop A mode gt walls cam target [] s = s"
| "nav_loop A mode gt walls cam target (i # is) s =
     nav_loop A mode gt walls cam target is (nav_iteration A mode gt walls cam target i s)"

section \<open>Start-up\<close>

text \<open>At most \<open>n\<close> fetches for the first height.\<close>

fun first_height :: "('f, 'e, 'm, 'w, 'z) rose_api_scheme \<Rightarrow> nat \<Rightarrow> 'w \<Rightarrow> 'f \<times> 'w" where
  "first_height A 0 w = (START_Z A, w)"
| "first_height A (Suc n) w =
     (case sample_fetch A TOF w of (rc, w) \<Rightarrow>
        if rc \<noteq> 0 then first_height A n w
        else case channel_get A TOF DISTANCE w of (rc, z, w) \<Rightarrow> (if rc = 0 then z ! 0 else START_Z A, w))"

text \<open>\<open>main\<close> up to the loop: \<open>None\<close> for -1, else the walls flag, the target height, the estimator.\<close>

definition nav_start ::
    "('f, 'e, 'm, 'w, 'z) rose_api_scheme \<Rightarrow> 'e \<Rightarrow> 'w \<Rightarrow> (bool \<times> 'f \<times> 'e \<times> 'w) option" where
  "nav_start A e w =
     (if \<not> dev_ready A ACCEL w \<or> \<not> dev_ready A GYRO w then None
      else let walls = (dev_ready A TOF_FRONT w \<and> dev_ready A TOF_RIGHT w \<and>
                 dev_ready A TOF_BACK w \<and> dev_ready A TOF_LEFT w)
      in case (if HAVE_TOF A \<and> dev_ready A TOF w then first_height A 12 w else (START_Z A, w)) of (z, w) \<Rightarrow>
         Some (walls, z, est_init A (f_lit A 0 1) (f_lit A 0 1) z e, w))"

definition nav_main ::
    "('f, 'e, 'm, 'w, 'z) nav_api_scheme \<Rightarrow> nav_mode \<Rightarrow> bool \<Rightarrow> ('f, 'e, 'm, 'w) nav_state \<Rightarrow> int \<times> ('f, 'e, 'm, 'w) nav_state" where
  "nav_main A mode gt s =
     (case nav_start A (n_est s) (n_world s) of
        None \<Rightarrow> (- 1, s)
      | Some (walls, z, e, w) \<Rightarrow>
          (0, nav_loop A mode gt walls (cam_ready A w) z [0..<NAV_CTRL_ITERS] (s\<lparr>n_est := e, n_world := w\<rparr>)))"

section \<open>Properties\<close>

text \<open>The vision commands never reverse the vehicle.\<close>

lemma dronet_vx_nonneg: "float_order A \<Longrightarrow> \<not> f_less A (dronet_vx A iter co) (f_lit A 0 1)"
  by (simp add: dronet_vx_def Let_def float_order.less_irrefl)

text \<open>
  During the settling time every mode commands a hover: the logged command is 0 and, apart
  from the yaw in the vision mode, so is every setpoint but the altitude. Afterwards the vision
  mode never commands a negative forward speed.
\<close>

theorem settles_in_hover:
  assumes "float_order A" and "nav_setpoint A mode target iter st co = (sp, logcmd)"
  shows "(iter \<le> SETTLE_ITERS \<longrightarrow> logcmd = f_lit A 0 1 \<and> sp ! 2 = target \<and>
      (\<forall>i < NSTATES. i \<noteq> 2 \<longrightarrow> (mode = DRONET \<longrightarrow> i \<noteq> 5) \<longrightarrow> sp ! i = f_lit A 0 1)) \<and>
    (mode = DRONET \<longrightarrow> \<not> f_less A (sp ! 6) (f_lit A 0 1))"
proof -
  have "sp ! 6 = logcmd" if "mode = DRONET" using assms(2) that by (auto simp: nav_setpoint_def Let_def NSTATES_def)
  moreover have "logcmd = dronet_vx A iter co" if "mode = DRONET"
    using assms(2) that by (auto simp: nav_setpoint_def Let_def)
  moreover have "iter \<le> SETTLE_ITERS \<longrightarrow> logcmd = f_lit A 0 1 \<and> sp ! 2 = target \<and>
      (\<forall>i < NSTATES. i \<noteq> 2 \<longrightarrow> (mode = DRONET \<longrightarrow> i \<noteq> 5) \<longrightarrow> sp ! i = f_lit A 0 1)"
    using assms(2) by (cases mode) (auto simp: nav_setpoint_def dronet_vx_def Let_def NSTATES_def nth_list_update)
  ultimately show ?thesis using dronet_vx_nonneg [OF assms(1)] by auto
qed

lemma settles_in_hover_witness:
  "case nav_setpoint sim_rose DRONET (Some 1500000) 700 (Some 0) (Some 2000000) of
     (sp, logcmd) \<Rightarrow> \<not> f_less sim_rose (sp ! 6) (f_lit sim_rose 0 1)"
proof -
  obtain sp logcmd where n: "nav_setpoint sim_rose DRONET (Some 1500000) 700 (Some 0) (Some 2000000) = (sp, logcmd)"
    by fastforce
  from settles_in_hover [OF sim_order.float_order_axioms n] show ?thesis unfolding n by simp
qed

text \<open>
  Position is regulated only where it is observed: without walls the x and y errors the
  solver sees are zero in every mode, with walls the y error is the state's minus the
  setpoint's, and outside the waypoint mode the x error is zero.
\<close>

theorem unobserved_position_free:
  assumes "length state = NSTATES" and "length sp = NSTATES"
  shows "(\<not> walls \<longrightarrow> nav_error A mode walls state sp ! 0 = f_lit A 0 1 \<and> nav_error A mode walls state sp ! 1 = f_lit A 0 1) \<and>
    (walls \<longrightarrow> nav_error A mode walls state sp ! 1 = f_sub A (state ! 1) (sp ! 1)) \<and>
    (mode \<noteq> WAYPOINT \<longrightarrow> nav_error A mode walls state sp ! 0 = f_lit A 0 1) \<and>
    (\<forall>i < NSTATES. 2 \<le> i \<longrightarrow> nav_error A mode walls state sp ! i = f_sub A (state ! i) (sp ! i))"
  using assms by (auto simp: nav_error_def Let_def NSTATES_def nth_list_update)

lemma unobserved_position_free_witness:
  "nav_error sim_rose VELOCITY False (replicate NSTATES (Some 5)) (replicate NSTATES (Some 3)) ! 1 = f_lit sim_rose 0 1"
  using unobserved_position_free [of "replicate NSTATES (Some 5)" "replicate NSTATES (Some 3)" False sim_rose VELOCITY]
  by simp

text \<open>
  No thrust outside the solver's box is sent: a command carries the four thrusts, each
  neither below -0.583 nor above 0.417, and a thrust inside the box is sent unchanged.
\<close>

theorem sent_thrusts_in_box:
  assumes "float_order A"
  shows "\<not> f_less A (clamp_thrust A x) (f_lit A (- 583) 3) \<and> \<not> f_less A (f_lit A 417 3) (clamp_thrust A x) \<and>
    (\<not> f_less A x (f_lit A (- 583) 3) \<and> \<not> f_less A (f_lit A 417 3) x \<longrightarrow> clamp_thrust A x = x)"
  using float_order.clamp_bounds [OF assms, of "- 583" 417 3 x] float_order.clamp_id [OF assms]
  by (simp add: clamp_thrust_def)

lemma sent_thrusts_in_box_witness:
  "\<not> f_less sim_rose (clamp_thrust sim_rose (Some (- 9000000))) (f_lit sim_rose (- 583) 3)"
  using sent_thrusts_in_box [OF sim_order.float_order_axioms] by blast

text \<open>The gaps between consecutive sends, and their maximum.\<close>

fun gaps :: "u64 list \<Rightarrow> u64 list" where
  "gaps (a # b # ts) = (b - a) # gaps (b # ts)"
| "gaps ts = []"

definition track_0 :: send_track where
  "track_0 = \<lparr>g_last_send = 0, g_max_send_gap = 0, g_send_n = 0\<rparr>"

lemma gaps_snoc: "ts \<noteq> [] \<Longrightarrow> gaps (ts @ [b]) = gaps ts @ [b - last ts]"
  by (induction ts rule: gaps.induct) auto

lemma track_fold:
  assumes "0 \<notin> set ts"
  shows "fold track_send_gap ts track_0 =
    \<lparr>g_last_send = (if ts = [] then 0 else last ts), g_max_send_gap = Max (set (0 # gaps ts)),
     g_send_n = word_of_nat (length ts)\<rparr>"
  using assms
proof (induction ts rule: rev_induct)
  case Nil
  show ?case by (simp add: track_0_def)
next
  case (snoc b ts)
  show ?case
  proof (cases "ts = []")
    case True
    then show ?thesis by (simp add: track_send_gap_def track_0_def)
  next
    case False
    then have "last ts \<noteq> 0" using snoc.prems by (metis last_in_set in_set_conv_decomp append_Cons append_assoc)
    define M where "M = Max (set (0 # gaps ts))"
    have "set (0 # gaps (ts @ [b])) = insert (b - last ts) (set (0 # gaps ts))"
      using False by (auto simp: gaps_snoc)
    then have M: "Max (set (0 # gaps (ts @ [b]))) = max (b - last ts) M"
      unfolding M_def by (simp only: Max_insert finite_set set_empty list.distinct not_False_eq_True)
    have IH: "fold track_send_gap ts track_0 =
      \<lparr>g_last_send = last ts, g_max_send_gap = M, g_send_n = word_of_nat (length ts)\<rparr>"
      using snoc False unfolding M_def by simp
    show ?thesis
      unfolding M fold_append comp_apply IH using \<open>last ts \<noteq> 0\<close>
      by (auto simp: track_send_gap_def Let_def max_def)
  qed
qed

text \<open>
  The staleness record is right: after sends at any non-zero times it holds the largest
  difference of consecutive send times and the number of sends modulo 2^32.
\<close>

theorem send_gap_is_maximum:
  assumes "0 \<notin> set ts"
  shows "g_max_send_gap (fold track_send_gap ts track_0) = Max (set (0 # gaps ts)) \<and>
    g_send_n (fold track_send_gap ts track_0) = word_of_nat (length ts)"
  using track_fold [OF assms] by simp

lemma send_gap_is_maximum_witness:
  "g_max_send_gap (fold track_send_gap [10, 15, 40, 41] track_0) = 25"
  using send_gap_is_maximum [of "[10, 15, 40, 41]"] by simp

end
