(* ===== verification/Nav_Threads.thy ===== *)
theory Nav_Threads
  imports Rose_Nav
begin

text \<open>
  The threads of the navigation controller (\<open>ROSE_THREADED\<close>): the periodic control task, the
  vision task and the timer that paces the control task. A step relation interleaves them in
  every way. The camera buffers are shared without a lock, the flag \<open>vision_busy\<close> and the
  semaphore \<open>sem_vision\<close> hand them over; the theorems show that the handover is safe, and
  that the count of overruns is not what it claims to be.
\<close>

text \<open>
  Program counters of \<open>ctrl_block\<close>: the number is \<open>iter\<close>. \<open>N_CHECK\<close> reads
  \<open>vision_busy\<close>; in \<open>N_CAPTURE\<close> the camera writes the buffers.
\<close>

datatype 'f nav_pc = N_TICK nat | N_POLL nat | N_READ nat | N_CHECK nat "'f nav_frame" | N_CAPTURE nat "'f nav_frame"
  | N_BUSY nat "'f nav_frame" | N_GIVE nat "'f nav_frame" | N_EST nat "'f nav_frame" | N_VISION nat "'f list"
  | N_SOLVE nat "'f list" 'f 'f | N_SEND nat "'f list" | N_DONE

datatype 'f vision_pc = V_TAKE | V_INFER | V_STORE | V_RELEASE

record ('f, 'e, 'm, 'w) nav_threads =
  nav_pc :: "'f nav_pc"
  vision_pc :: "'f vision_pc"
  sem_tick :: nat
  sem_vision :: nat
  vision_busy :: bool
  cam :: cam_buffers
  vision :: "'f vision_cmd"
  track :: send_track
  overruns :: u32
  t_est :: 'e
  t_mpc :: 'm
  t_world :: 'w

definition sem_up :: "nat \<Rightarrow> nat" where "sem_up n = min 1 (n + 1)"

section \<open>The tasks\<close>

text \<open>
  \<open>ctrl_block\<close>. The parameters are the mode, the walls, whether there is a camera, the target
  altitude and the number of iterations. \<open>None\<close> where the task blocks or has ended.
\<close>

definition nav_ctrl_block ::
    "('f, 'e, 'm, 'w, 'z) nav_api_scheme \<Rightarrow> nav_mode \<Rightarrow> bool \<Rightarrow> bool \<Rightarrow> 'f \<Rightarrow> nat \<Rightarrow>
       ('f, 'e, 'm, 'w) nav_threads \<Rightarrow> ('f, 'e, 'm, 'w) nav_threads option" where
  "nav_ctrl_block A mode walls have_cam target iters s =
     (case nav_pc s of
        N_TICK i \<Rightarrow>
          (if iters \<le> i then Some (s\<lparr>nav_pc := N_DONE\<rparr>)
           else if sem_tick s = 0 then None
           else Some (s\<lparr>nav_pc := N_POLL i, sem_tick := sem_tick s - 1\<rparr>))
      | N_POLL i \<Rightarrow>
          (if sem_tick s = 0 then Some (s\<lparr>nav_pc := N_READ i\<rparr>)
           else Some (s\<lparr>nav_pc := N_READ i, sem_tick := sem_tick s - 1, overruns := overruns s + 1\<rparr>))
      | N_READ i \<Rightarrow>
          (case read_nav_frame A walls (t_world s) of
             (None, w) \<Rightarrow> Some (s\<lparr>nav_pc := N_TICK (Suc i), t_world := w\<rparr>)
           | (Some f, w) \<Rightarrow> Some (s\<lparr>nav_pc := N_CHECK i f, t_world := w\<rparr>))
      | N_CHECK i f \<Rightarrow>
          (if mode = DRONET \<and> have_cam \<and> i mod VISION_DIV = 0 \<and> \<not> vision_busy s
           then Some (s\<lparr>nav_pc := N_CAPTURE i f\<rparr>) else Some (s\<lparr>nav_pc := N_EST i f\<rparr>))
      | N_CAPTURE i f \<Rightarrow>
          (case capture_frame A (cam s, t_world s) of (ok, b, w) \<Rightarrow>
             Some (s\<lparr>nav_pc := if ok then N_BUSY i f else N_EST i f, cam := b, t_world := w\<rparr>))
      | N_BUSY i f \<Rightarrow> Some (s\<lparr>nav_pc := N_GIVE i f, vision_busy := True\<rparr>)
      | N_GIVE i f \<Rightarrow> Some (s\<lparr>nav_pc := N_EST i f, sem_vision := sem_up (sem_vision s)\<rparr>)
      | N_EST i f \<Rightarrow>
          (case run_estimator A walls f (t_est s) of (st, e) \<Rightarrow> Some (s\<lparr>nav_pc := N_VISION i st, t_est := e\<rparr>))
      | N_VISION i st \<Rightarrow>
          (case nav_command A mode (vision s) of (sr, co) \<Rightarrow> Some (s\<lparr>nav_pc := N_SOLVE i st sr co\<rparr>))
      | N_SOLVE i st sr co \<Rightarrow>
          (case solve_nav A mode walls target (int i) st sr co (t_mpc s) of (u, logcmd, m) \<Rightarrow>
             Some (s\<lparr>nav_pc := N_SEND i u, t_mpc := m\<rparr>))
      | N_SEND i u \<Rightarrow>
          (case nav_send_control A u (track s, t_world s) of (t, w) \<Rightarrow>
             Some (s\<lparr>nav_pc := N_TICK (Suc i), track := t, t_world := w\<rparr>))
      | N_DONE \<Rightarrow> None)"

text \<open>\<open>vision_block\<close>; storing the result is one step, under \<open>mtx_vision\<close>.\<close>

definition vision_block ::
    "('f, 'e, 'm, 'w, 'z) nav_api_scheme \<Rightarrow> ('f, 'e, 'm, 'w) nav_threads \<Rightarrow> ('f, 'e, 'm, 'w) nav_threads option" where
  "vision_block A s =
     (case vision_pc s of
        V_TAKE \<Rightarrow>
          (if sem_vision s = 0 then None
           else Some (s\<lparr>vision_pc := V_INFER, sem_vision := sem_vision s - 1\<rparr>))
      | V_INFER \<Rightarrow> Some (s\<lparr>vision_pc := V_STORE, cam := vision_infer A (cam s)\<rparr>)
      | V_STORE \<Rightarrow> Some (s\<lparr>vision_pc := V_RELEASE, vision := vision_result A (g_cam_out (cam s))\<rparr>)
      | V_RELEASE \<Rightarrow> Some (s\<lparr>vision_pc := V_TAKE, vision_busy := False\<rparr>))"

text \<open>\<open>ctrl_timer_fn\<close>\<close>

definition ctrl_timer_fn :: "('f, 'e, 'm, 'w) nav_threads \<Rightarrow> ('f, 'e, 'm, 'w) nav_threads" where
  "ctrl_timer_fn s = s\<lparr>sem_tick := sem_up (sem_tick s)\<rparr>"

text \<open>
  \<open>when\<close> says in which states the timer may expire. The number counts the expiries.
\<close>

inductive nav_reachable ::
    "('f, 'e, 'm, 'w, 'z) nav_api_scheme \<Rightarrow> nav_mode \<Rightarrow> bool \<Rightarrow> bool \<Rightarrow> 'f \<Rightarrow> nat \<Rightarrow>
      (('f, 'e, 'm, 'w) nav_threads \<Rightarrow> bool) \<Rightarrow> ('f, 'e, 'm, 'w) nav_threads \<Rightarrow> nat \<Rightarrow> ('f, 'e, 'm, 'w) nav_threads \<Rightarrow> bool"
  for A mode walls have_cam target iters timer_ok s0 where
  begin_run: "nav_reachable A mode walls have_cam target iters timer_ok s0 0 s0"
| ctrl_runs: "nav_reachable A mode walls have_cam target iters timer_ok s0 n s \<Longrightarrow>
    nav_ctrl_block A mode walls have_cam target iters s = Some s' \<Longrightarrow>
    nav_reachable A mode walls have_cam target iters timer_ok s0 n s'"
| vision_runs: "nav_reachable A mode walls have_cam target iters timer_ok s0 n s \<Longrightarrow> vision_block A s = Some s' \<Longrightarrow>
    nav_reachable A mode walls have_cam target iters timer_ok s0 n s'"
| timer_expires: "nav_reachable A mode walls have_cam target iters timer_ok s0 n s \<Longrightarrow> timer_ok s \<Longrightarrow>
    nav_reachable A mode walls have_cam target iters timer_ok s0 (Suc n) (ctrl_timer_fn s)"

definition nav_boot ::
    "('f, 'e, 'm, 'w, 'z) nav_api_scheme \<Rightarrow> 'e \<Rightarrow> 'm \<Rightarrow> 'w \<Rightarrow> ('f, 'e, 'm, 'w) nav_threads" where
  "nav_boot A e m w =
     \<lparr>nav_pc = N_TICK 0, vision_pc = V_TAKE, sem_tick = 0, sem_vision = 0, vision_busy = False,
      cam = \<lparr>g_cam_frame = [], g_cam_w = 0, g_cam_h = 0, g_cam_out = [0, 0]\<rparr>, vision = vision_cmd_0 A,
      track = track_0, overruns = 0, t_est = e, t_mpc = m, t_world = w\<rparr>"

text \<open>The timer does not expire between the two \<open>k_sem_take\<close> calls.\<close>

definition not_polling :: "('f, 'e, 'm, 'w) nav_threads \<Rightarrow> bool" where
  "not_polling s \<longleftrightarrow> (\<forall>i. nav_pc s \<noteq> N_POLL i)"

text \<open>
  A schedule of the timer (\<open>True\<close>) and the control task (\<open>False\<close>), as far as it is possible.
\<close>

fun nav_schedule ::
    "('f, 'e, 'm, 'w, 'z) nav_api_scheme \<Rightarrow> nav_mode \<Rightarrow> bool \<Rightarrow> bool \<Rightarrow> 'f \<Rightarrow> nat \<Rightarrow> bool list \<Rightarrow>
       ('f, 'e, 'm, 'w) nav_threads \<Rightarrow> ('f, 'e, 'm, 'w) nav_threads option" where
  "nav_schedule A mode walls have_cam target iters [] s = Some s"
| "nav_schedule A mode walls have_cam target iters (b # bs) s =
     (if b then
        (case nav_pc s of N_POLL i \<Rightarrow> None
         | _ \<Rightarrow> nav_schedule A mode walls have_cam target iters bs (ctrl_timer_fn s))
      else case nav_ctrl_block A mode walls have_cam target iters s of None \<Rightarrow> None
         | Some s \<Rightarrow> nav_schedule A mode walls have_cam target iters bs s)"

lemma nav_schedule_reachable:
  "nav_schedule A mode walls have_cam target iters bs s = Some s' \<Longrightarrow>
   nav_reachable A mode walls have_cam target iters not_polling s0 n s \<Longrightarrow>
   nav_reachable A mode walls have_cam target iters not_polling s0 (n + length (filter id bs)) s'"
proof (induction bs arbitrary: s n)
  case (Cons b bs)
  show ?case
  proof (cases b)
    case True
    then have np: "not_polling s" "nav_schedule A mode walls have_cam target iters bs (ctrl_timer_fn s) = Some s'"
      using Cons.prems(1) by (auto simp: not_polling_def split: nav_pc.splits)
    from Cons.IH [OF np(2) timer_expires [OF Cons.prems(2) np(1)]] True show ?thesis by simp
  next
    case False
    then obtain s1 where "nav_ctrl_block A mode walls have_cam target iters s = Some s1"
      "nav_schedule A mode walls have_cam target iters bs s1 = Some s'"
      using Cons.prems(1) by (auto split: option.splits)
    with Cons.IH [OF _ ctrl_runs [OF Cons.prems(2)]] False show ?thesis by simp
  qed
qed simp

definition sim_nav :: "(int option, int, unit, rose_world) nav_api" where
  "sim_nav = rose_api.extend sim_rose
     (nav_api.fields (\<lambda>w. True) (\<lambda>w. (0, w)) (\<lambda>w. (0, True, [1, 2, 3], w)) (\<lambda>w. (320, 240, w))
       (\<lambda>img x y. (0, img)) (\<lambda>t. [7, 0xF9]) (\<lambda>w. ([], w)))"

text \<open>The accelerometer fails, so that an iteration ends early.\<close>

definition nav_bench :: rose_world where
  "nav_bench = \<lparr>next_fetch = (\<lambda>d. if d = ACCEL then [- EIO] else []), reading = (\<lambda>d c. [Some 1, Some 2, Some 3]),
     sent_words = [], rose_clock = 0\<rparr>"

section \<open>The camera buffers\<close>

text \<open>The control task is writing the buffers or about to give them away.\<close>

fun ctrl_holds :: "'f nav_pc \<Rightarrow> bool" where
  "ctrl_holds (N_CAPTURE i f) = True"
| "ctrl_holds (N_BUSY i f) = True"
| "ctrl_holds (N_GIVE i f) = True"
| "ctrl_holds pc = False"

definition handover_inv :: "('f, 'e, 'm, 'w) nav_threads \<Rightarrow> bool" where
  "handover_inv s \<longleftrightarrow>
     sem_vision s + of_bool (vision_pc s \<noteq> V_TAKE) + of_bool (ctrl_holds (nav_pc s)) \<le> 1 \<and>
     (sem_vision s \<noteq> 0 \<or> vision_pc s \<noteq> V_TAKE \<longrightarrow> vision_busy s) \<and>
     (case nav_pc s of N_CAPTURE i f \<Rightarrow> \<not> vision_busy s | N_BUSY i f \<Rightarrow> \<not> vision_busy s | N_GIVE i f \<Rightarrow> vision_busy s | _ \<Rightarrow> True)"

lemmas handover_defs = handover_inv_def of_bool_def sem_up_def

lemma ctrl_handover:
  assumes "handover_inv s" and "nav_ctrl_block A mode walls have_cam target iters s = Some s'"
  shows "handover_inv s'"
  using assms
  by (cases "nav_pc s")
    (auto simp: nav_ctrl_block_def handover_defs split: if_splits prod.splits option.splits)

lemma vision_handover: "handover_inv s \<Longrightarrow> vision_block A s = Some s' \<Longrightarrow> handover_inv s'"
  by (cases "vision_pc s"; cases "nav_pc s") (auto simp: vision_block_def handover_defs split: if_splits)

lemma timer_handover: "handover_inv s \<Longrightarrow> handover_inv (ctrl_timer_fn s)"
  by (cases "nav_pc s") (simp_all add: ctrl_timer_fn_def handover_inv_def)

lemma reachable_handover:
  assumes "nav_reachable A mode walls have_cam target iters ok s0 n s" and "handover_inv s0"
  shows "handover_inv s"
  using assms(1)
  by (induction rule: nav_reachable.induct)
    (auto intro: assms(2) ctrl_handover vision_handover timer_handover)

lemma boot_handover: "handover_inv (nav_boot A e m w)"
  by (simp add: nav_boot_def handover_inv_def)

text \<open>
  C9: The camera never writes the buffers while the vision task works on them. In every
  interleaving: while the control task captures a frame the vision task is waiting with no
  request pending, and while the vision task is at work the busy flag is set, so that the
  control task starts no capture.
\<close>

theorem frame_handover_exclusive:
  assumes "nav_reachable A mode walls have_cam target iters ok (nav_boot A e m w) n s"
  shows "(\<forall>i f. nav_pc s = N_CAPTURE i f \<longrightarrow> vision_pc s = V_TAKE \<and> sem_vision s = 0) \<and>
    (vision_pc s \<noteq> V_TAKE \<or> sem_vision s \<noteq> 0 \<longrightarrow> vision_busy s \<and> sem_vision s \<le> 1 \<and>
      (\<forall>i f s'. nav_pc s = N_CHECK i f \<longrightarrow> nav_ctrl_block A mode walls have_cam target iters s = Some s' \<longrightarrow>
        nav_pc s' = N_EST i f))"
  using reachable_handover [OF assms boot_handover]
  by (auto simp: handover_inv_def nav_ctrl_block_def)

lemma frame_handover_exclusive_witness:
  "\<exists>n s i f. nav_reachable sim_nav DRONET False True (Some 0) 10 not_polling
     (nav_boot sim_nav 0 () (nav_bench\<lparr>next_fetch := (\<lambda>d. [])\<rparr>)) n s \<and>
     nav_pc s = N_CAPTURE i f \<and> vision_pc s = V_TAKE \<and> sem_vision s = 0"
proof -
  let ?b = "nav_boot sim_nav 0 () (nav_bench\<lparr>next_fetch := (\<lambda>d. [])\<rparr>)"
  let ?run = "nav_schedule sim_nav DRONET False True (Some 0) 10 [True, False, False, False, False] ?b"
  have "case ?run of None \<Rightarrow> False | Some s \<Rightarrow> \<exists>i f. nav_pc s = N_CAPTURE i f"
    by (simp add: nav_ctrl_block_def ctrl_timer_fn_def nav_boot_def sem_up_def read_nav_frame_def Let_def
        sim_nav_def sim_rose_def rose_api.extend_def nav_api.fields_def nav_bench_def nav_flow_def read_walls_def)
  then obtain s i f where s: "?run = Some s" "nav_pc s = N_CAPTURE i f" by (auto split: option.splits)
  have r: "nav_reachable sim_nav DRONET False True (Some 0) 10 not_polling ?b (0 + length (filter id [True, False, False, False, False])) s"
    by (rule nav_schedule_reachable [OF s(1) begin_run])
  with frame_handover_exclusive [OF r] s(2) show ?thesis by blast
qed

section \<open>Overruns\<close>

definition no_overrun :: "('f, 'e, 'm, 'w) nav_threads \<Rightarrow> bool" where
  "no_overrun s \<longleftrightarrow> overruns s = 0 \<and> sem_tick s \<le> 1 \<and> (\<forall>i. nav_pc s = N_POLL i \<longrightarrow> sem_tick s = 0)"

lemma ctrl_no_overrun:
  assumes "no_overrun s" and "nav_ctrl_block A mode walls have_cam target iters s = Some s'"
  shows "no_overrun s'"
  using assms
  by (cases "nav_pc s")
    (auto simp: nav_ctrl_block_def no_overrun_def split: if_splits prod.splits option.splits)

lemma vision_no_overrun: "no_overrun s \<Longrightarrow> vision_block A s = Some s' \<Longrightarrow> no_overrun s'"
  by (cases "vision_pc s") (auto simp: vision_block_def no_overrun_def split: if_splits)

lemma timer_no_overrun: "no_overrun s \<Longrightarrow> not_polling s \<Longrightarrow> no_overrun (ctrl_timer_fn s)"
  by (simp add: ctrl_timer_fn_def no_overrun_def not_polling_def sem_up_def)

text \<open>
  The overrun counter does not count overruns. However many periods an iteration takes,
  the counter stays 0 as long as the timer never expires between the two calls of
  \<open>k_sem_take\<close>: the semaphore holds at most one tick, and the first call consumes it.
\<close>

theorem overruns_not_counted:
  assumes "nav_reachable A mode walls have_cam target iters not_polling (nav_boot A e m w) n s"
  shows "overruns s = 0"
proof -
  have "no_overrun (nav_boot A e m w)" by (simp add: nav_boot_def no_overrun_def)
  from assms this have "no_overrun s"
    by (induction rule: nav_reachable.induct)
      (auto intro: ctrl_no_overrun vision_no_overrun timer_no_overrun)
  then show ?thesis by (simp add: no_overrun_def)
qed

text \<open>Five expiries, of which the first iteration takes four; the second iteration has begun.\<close>

lemma overruns_not_counted_witness:
  "\<exists>s. nav_reachable sim_nav WAYPOINT False False (Some 0) 10 not_polling (nav_boot sim_nav 0 () nav_bench) 5 s \<and>
     nav_pc s = N_READ 1 \<and> overruns s = 0"
proof -
  let ?run = "nav_schedule sim_nav WAYPOINT False False (Some 0) 10
    [True, False, False, True, True, True, True, False, False, False] (nav_boot sim_nav 0 () nav_bench)"
  have "case ?run of None \<Rightarrow> False | Some s \<Rightarrow> nav_pc s = N_READ 1"
    by (simp add: nav_ctrl_block_def ctrl_timer_fn_def nav_boot_def sem_up_def read_nav_frame_def Let_def
        sim_nav_def sim_rose_def rose_api.extend_def nav_api.fields_def nav_bench_def EIO_def)
  then obtain s where s: "?run = Some s" "nav_pc s = N_READ 1" by (auto split: option.splits)
  have "nav_reachable sim_nav WAYPOINT False False (Some 0) 10 not_polling (nav_boot sim_nav 0 () nav_bench) 5 s"
    using nav_schedule_reachable [OF s(1) begin_run] by (simp add: eval_nat_numeral)
  with overruns_not_counted [OF this] s(2) show ?thesis by blast
qed

end
