(* ===== verification/Matlib_Cpu.thy ===== *)
theory Matlib_Cpu
  imports Rose_API
begin

text \<open>
  The scalar kernels of the matrix library under TinyMPC,
  \<open>samples/tinympc_fp16_bench/tinympc/external/matlib/include/matlib_cpu.h\<close>, in its
  single-precision configuration, where \<open>tinytype\<close> and \<open>tinytype_acc\<close> are both \<open>float\<close>. A pointer
  is the list of the elements from it on; a kernel returns the new contents behind its destination
  pointer, which the callers never alias with a source of another shape. Sizes are natural numbers.
\<close>

text \<open>The float operations the library uses beyond the comparisons and the four operations.\<close>

record 'f mat_float = "'f float_api" +
  f_neg :: "'f \<Rightarrow> 'f"
  f_sqrt :: "'f \<Rightarrow> 'f"
  MATLIB_FLOAT_MIN :: 'f
  MATLIB_FLOAT_MAX :: 'f

abbreviation f_zero :: "('f, 'z) float_api_scheme \<Rightarrow> 'f" where
  "f_zero F \<equiv> f_lit F 0 0"

text \<open>What the order of floats promises where a chain of comparisons is followed; \<open>f_eq x x\<close>
  says that \<open>x\<close> is a number.\<close>

locale float_chain = float_order F for F :: "('f, 'z) float_api_scheme" +
  assumes less_trans: "f_less F x y \<Longrightarrow> f_less F y z \<Longrightarrow> f_less F x z"
    and not_less_trans: "f_less F r t \<Longrightarrow> \<not> f_less F r x \<Longrightarrow> f_eq F x x \<Longrightarrow> f_less F x t"

interpretation sim_chain: float_chain sim_rose
  by unfold_locales (auto simp: sim_rose_def split: option.splits)

section \<open>Loops\<close>

definition loop2 :: "nat \<Rightarrow> nat \<Rightarrow> (nat \<Rightarrow> nat \<Rightarrow> 's \<Rightarrow> 's) \<Rightarrow> 's \<Rightarrow> 's" where
  "loop2 n m f s = fold (\<lambda>i. fold (f i) [0..<m]) [0..<n] s"

lemma loop2_flat: "loop2 n m (\<lambda>i j. h (i * m + j)) s = fold h [0..<n * m] s"
proof (induction n)
  case 0
  show ?case by (simp add: loop2_def)
next
  case (Suc n)
  have "[0..<Suc n * m] = [0..<n * m] @ map (\<lambda>j. n * m + j) [0..<m]"
    by (rule nth_equalityI) (auto simp: nth_append)
  moreover have "loop2 (Suc n) m (\<lambda>i j. h (i * m + j)) s =
      fold (\<lambda>j. h (n * m + j)) [0..<m] (loop2 n m (\<lambda>i j. h (i * m + j)) s)"
    by (simp add: loop2_def)
  ultimately show ?case using Suc by (simp add: fold_map comp_def)
qed

lemma fold_update:
  "k \<le> length b \<Longrightarrow> fold (\<lambda>i b. b[i := g i]) [0..<k] b = map g [0..<k] @ drop k b"
proof (induction k)
  case (Suc k)
  then show ?case by (auto simp: list_update_append Cons_nth_drop_Suc[symmetric])
qed simp

lemma loop2_update:
  "n * m \<le> length b \<Longrightarrow>
   loop2 n m (\<lambda>i j b. b[i * m + j := g (i * m + j)]) b = map g [0..<n * m] @ drop (n * m) b"
  using loop2_flat[of n m "\<lambda>k b. b[k := g k]" b] by (simp add: fold_update)

lemma map_nth_upt: "k \<le> length a \<Longrightarrow> map (\<lambda>i. f (a ! i)) [0..<k] = map f (take k a)"
  by (rule nth_equalityI) auto

lemma map2_nth_upt:
  "k \<le> length a \<Longrightarrow> k \<le> length b \<Longrightarrow>
   map (\<lambda>i. f (a ! i) (b ! i)) [0..<k] = map2 f (take k a) (take k b)"
  by (rule nth_equalityI) auto

section \<open>The kernels\<close>

definition maxcoeff_cpu :: "('f, 'z) mat_float_scheme \<Rightarrow> 'f list \<Rightarrow> nat \<Rightarrow> nat \<Rightarrow> 'f" where
  "maxcoeff_cpu F a n m =
     loop2 n m (\<lambda>i j mx. if f_less F mx (a ! (i * m + j)) then a ! (i * m + j) else mx) (MATLIB_FLOAT_MIN F)"

definition mincoeff_cpu :: "('f, 'z) mat_float_scheme \<Rightarrow> 'f list \<Rightarrow> nat \<Rightarrow> nat \<Rightarrow> 'f" where
  "mincoeff_cpu F a n m =
     loop2 n m (\<lambda>i j mn. if f_less F (a ! (i * m + j)) mn then a ! (i * m + j) else mn) (MATLIB_FLOAT_MAX F)"

definition matneg_cpu :: "('f, 'z) mat_float_scheme \<Rightarrow> 'f list \<Rightarrow> 'f list \<Rightarrow> nat \<Rightarrow> nat \<Rightarrow> 'f list" where
  "matneg_cpu F a b n m = loop2 n m (\<lambda>i j b. b[i * m + j := f_neg F (a ! (i * m + j))]) b"

definition cpu_abs :: "('f, 'z) mat_float_scheme \<Rightarrow> 'f \<Rightarrow> 'f" where
  "cpu_abs F v = (if f_less F v (f_zero F) then f_neg F v else v)"

definition cwiseabs_cpu :: "('f, 'z) mat_float_scheme \<Rightarrow> 'f list \<Rightarrow> 'f list \<Rightarrow> nat \<Rightarrow> nat \<Rightarrow> 'f list" where
  "cwiseabs_cpu F a b n m = loop2 n m (\<lambda>i j b. b[i * m + j := cpu_abs F (a ! (i * m + j))]) b"

definition cpu_min :: "('f, 'z) mat_float_scheme \<Rightarrow> 'f \<Rightarrow> 'f \<Rightarrow> 'f" where
  "cpu_min F x y = (if f_less F x y then x else y)"

definition cpu_max :: "('f, 'z) mat_float_scheme \<Rightarrow> 'f \<Rightarrow> 'f \<Rightarrow> 'f" where
  "cpu_max F x y = (if f_less F y x then x else y)"

definition cwisemin_cpu ::
    "('f, 'z) mat_float_scheme \<Rightarrow> 'f list \<Rightarrow> 'f list \<Rightarrow> 'f list \<Rightarrow> nat \<Rightarrow> nat \<Rightarrow> 'f list" where
  "cwisemin_cpu F a b c n m =
     loop2 n m (\<lambda>i j c. c[i * m + j := cpu_min F (a ! (i * m + j)) (b ! (i * m + j))]) c"

definition cwisemax_cpu ::
    "('f, 'z) mat_float_scheme \<Rightarrow> 'f list \<Rightarrow> 'f list \<Rightarrow> 'f list \<Rightarrow> nat \<Rightarrow> nat \<Rightarrow> 'f list" where
  "cwisemax_cpu F a b c n m =
     loop2 n m (\<lambda>i j c. c[i * m + j := cpu_max F (a ! (i * m + j)) (b ! (i * m + j))]) c"

definition cwisemul_cpu ::
    "('f, 'z) mat_float_scheme \<Rightarrow> 'f list \<Rightarrow> 'f list \<Rightarrow> 'f list \<Rightarrow> nat \<Rightarrow> nat \<Rightarrow> 'f list" where
  "cwisemul_cpu F a b c n m =
     loop2 n m (\<lambda>i j c. c[i * m + j := f_mul F (a ! (i * m + j)) (b ! (i * m + j))]) c"

definition matmul_cpu ::
    "('f, 'z) mat_float_scheme \<Rightarrow> 'f list \<Rightarrow> 'f list \<Rightarrow> 'f list \<Rightarrow> nat \<Rightarrow> nat \<Rightarrow> nat \<Rightarrow> 'f list" where
  "matmul_cpu F a b c n m l =
     loop2 n m (\<lambda>i j c. c[i * m + j :=
       fold (\<lambda>k acc. f_add F acc (f_mul F (a ! (i * l + k)) (b ! (j * l + k)))) [0..<l] (f_zero F)]) c"

definition matvec_cpu ::
    "('f, 'z) mat_float_scheme \<Rightarrow> 'f list \<Rightarrow> 'f list \<Rightarrow> 'f list \<Rightarrow> nat \<Rightarrow> nat \<Rightarrow> 'f list" where
  "matvec_cpu F a b c n m =
     fold (\<lambda>i c. c[i :=
       fold (\<lambda>j acc. f_add F acc (f_mul F (a ! (i * m + j)) (b ! j))) [0..<m] (f_zero F)]) [0..<n] c"

definition matvec_transpose_cpu ::
    "('f, 'z) mat_float_scheme \<Rightarrow> 'f list \<Rightarrow> 'f list \<Rightarrow> 'f list \<Rightarrow> nat \<Rightarrow> nat \<Rightarrow> 'f list" where
  "matvec_transpose_cpu F a b c n m =
     fold (\<lambda>i c. c[i :=
       fold (\<lambda>j acc. f_add F acc (f_mul F (a ! (j * m + i)) (b ! j))) [0..<n] (f_zero F)]) [0..<m] c"

definition matmulf_cpu ::
    "('f, 'z) mat_float_scheme \<Rightarrow> 'f list \<Rightarrow> 'f list \<Rightarrow> 'f \<Rightarrow> nat \<Rightarrow> nat \<Rightarrow> 'f list" where
  "matmulf_cpu F a b f n m = loop2 n m (\<lambda>i j b. b[i * m + j := f_mul F f (a ! (i * m + j))]) b"

definition matsub_cpu ::
    "('f, 'z) mat_float_scheme \<Rightarrow> 'f list \<Rightarrow> 'f list \<Rightarrow> 'f list \<Rightarrow> nat \<Rightarrow> nat \<Rightarrow> 'f list" where
  "matsub_cpu F a b c n m =
     loop2 n m (\<lambda>i j c. c[i * m + j := f_sub F (a ! (i * m + j)) (b ! (i * m + j))]) c"

definition matadd_cpu ::
    "('f, 'z) mat_float_scheme \<Rightarrow> 'f list \<Rightarrow> 'f list \<Rightarrow> 'f list \<Rightarrow> nat \<Rightarrow> nat \<Rightarrow> 'f list" where
  "matadd_cpu F a b c n m =
     loop2 n m (\<lambda>i j c. c[i * m + j := f_add F (a ! (i * m + j)) (b ! (i * m + j))]) c"

definition transpose_cpu :: "'f list \<Rightarrow> 'f list \<Rightarrow> nat \<Rightarrow> nat \<Rightarrow> 'f list" where
  "transpose_cpu a b n m = loop2 n m (\<lambda>i j b. b[j * n + i := a ! (i * m + j)]) b"

definition matcopy_cpu :: "'f list \<Rightarrow> 'f list \<Rightarrow> nat \<Rightarrow> nat \<Rightarrow> 'f list" where
  "matcopy_cpu a b n m = loop2 n m (\<lambda>i j b. b[i * m + j := a ! (i * m + j)]) b"

definition matset_cpu :: "'f list \<Rightarrow> 'f \<Rightarrow> nat \<Rightarrow> nat \<Rightarrow> 'f list" where
  "matset_cpu a f n m = loop2 n m (\<lambda>i j a. a[i * m + j := f]) a"

text \<open>The second loop variable of \<open>matsetv_cpu\<close> counts the elements copied.\<close>

definition matsetv_cpu :: "'f list \<Rightarrow> 'f list \<Rightarrow> nat \<Rightarrow> nat \<Rightarrow> 'f list" where
  "matsetv_cpu a f n m = fst (loop2 n m (\<lambda>i j (a, k). (a[i * m + j := f ! k], k + 1)) (a, 0))"

definition matnorm_cpu :: "('f, 'z) mat_float_scheme \<Rightarrow> 'f list \<Rightarrow> nat \<Rightarrow> nat \<Rightarrow> 'f" where
  "matnorm_cpu F a n m =
     f_sqrt F (loop2 n m (\<lambda>i j sum. f_add F sum (f_mul F (a ! (i * m + j)) (a ! (i * m + j)))) (f_zero F))"

section \<open>What they compute\<close>

lemma matneg_cpu_eq:
  "n * m \<le> length a \<Longrightarrow> n * m \<le> length b \<Longrightarrow>
   matneg_cpu F a b n m = map (f_neg F) (take (n * m) a) @ drop (n * m) b"
  by (simp add: matneg_cpu_def loop2_update[where g = "\<lambda>k. f_neg F (a ! k)"] map_nth_upt)

lemma cwiseabs_cpu_eq:
  "n * m \<le> length a \<Longrightarrow> n * m \<le> length b \<Longrightarrow>
   cwiseabs_cpu F a b n m = map (cpu_abs F) (take (n * m) a) @ drop (n * m) b"
  by (simp add: cwiseabs_cpu_def loop2_update[where g = "\<lambda>k. cpu_abs F (a ! k)"] map_nth_upt)

lemma matmulf_cpu_eq:
  "n * m \<le> length a \<Longrightarrow> n * m \<le> length b \<Longrightarrow>
   matmulf_cpu F a b f n m = map (f_mul F f) (take (n * m) a) @ drop (n * m) b"
  by (simp add: matmulf_cpu_def loop2_update[where g = "\<lambda>k. f_mul F f (a ! k)"] map_nth_upt)

lemma matcopy_cpu_eq:
  "n * m \<le> length a \<Longrightarrow> n * m \<le> length b \<Longrightarrow>
   matcopy_cpu a b n m = take (n * m) a @ drop (n * m) b"
  using map_nth_upt[of "n * m" a "\<lambda>x. x"]
  by (simp add: matcopy_cpu_def loop2_update[where g = "\<lambda>k. a ! k"])

lemma matset_cpu_eq:
  "n * m \<le> length a \<Longrightarrow> matset_cpu a f n m = replicate (n * m) f @ drop (n * m) a"
  by (simp add: matset_cpu_def loop2_update[where g = "\<lambda>k. f"] map_replicate_const)

lemmas cwise_defs = cwisemin_cpu_def cwisemax_cpu_def cwisemul_cpu_def matsub_cpu_def matadd_cpu_def

lemma cwise_cpu_eq:
  assumes "n * m \<le> length a" "n * m \<le> length b" "n * m \<le> length c"
  shows "cwisemin_cpu F a b c n m = map2 (cpu_min F) (take (n * m) a) (take (n * m) b) @ drop (n * m) c"
    and "cwisemax_cpu F a b c n m = map2 (cpu_max F) (take (n * m) a) (take (n * m) b) @ drop (n * m) c"
    and "cwisemul_cpu F a b c n m = map2 (f_mul F) (take (n * m) a) (take (n * m) b) @ drop (n * m) c"
    and "matsub_cpu F a b c n m = map2 (f_sub F) (take (n * m) a) (take (n * m) b) @ drop (n * m) c"
    and "matadd_cpu F a b c n m = map2 (f_add F) (take (n * m) a) (take (n * m) b) @ drop (n * m) c"
proof -
  have upd: "loop2 n m (\<lambda>i j c. c[i * m + j := f (a ! (i * m + j)) (b ! (i * m + j))]) c =
      map2 f (take (n * m) a) (take (n * m) b) @ drop (n * m) c" for f
    using loop2_update[OF assms(3), of "\<lambda>k. f (a ! k) (b ! k)"] map2_nth_upt[OF assms(1,2), of f] by simp
  show "cwisemin_cpu F a b c n m = map2 (cpu_min F) (take (n * m) a) (take (n * m) b) @ drop (n * m) c"
    and "cwisemax_cpu F a b c n m = map2 (cpu_max F) (take (n * m) a) (take (n * m) b) @ drop (n * m) c"
    and "cwisemul_cpu F a b c n m = map2 (f_mul F) (take (n * m) a) (take (n * m) b) @ drop (n * m) c"
    and "matsub_cpu F a b c n m = map2 (f_sub F) (take (n * m) a) (take (n * m) b) @ drop (n * m) c"
    and "matadd_cpu F a b c n m = map2 (f_add F) (take (n * m) a) (take (n * m) b) @ drop (n * m) c"
    by (simp_all add: cwise_defs upd)
qed

lemma matsetv_fold:
  "k \<le> length a \<Longrightarrow>
   fold (\<lambda>i (a, c). (a[i := f ! c], c + 1)) [0..<k] (a, 0) = (map ((!) f) [0..<k] @ drop k a, k)"
proof (induction k)
  case (Suc k)
  then show ?case by (auto simp: list_update_append Cons_nth_drop_Suc[symmetric])
qed simp

lemma matsetv_cpu_eq:
  "n * m \<le> length a \<Longrightarrow> n * m \<le> length f \<Longrightarrow>
   matsetv_cpu a f n m = take (n * m) f @ drop (n * m) a"
  using loop2_flat[of n m "\<lambda>i (a, c). (a[i := f ! c], c + 1)" "(a, 0)"] matsetv_fold[of "n * m" a f]
    map_nth_upt[of "n * m" f "\<lambda>x. x"]
  by (simp add: matsetv_cpu_def)

text \<open>The sequential dot product of the first \<open>k\<close> elements.\<close>

definition dot_seq :: "('f, 'z) float_api_scheme \<Rightarrow> nat \<Rightarrow> 'f list \<Rightarrow> 'f list \<Rightarrow> 'f" where
  "dot_seq F k a b = fold (\<lambda>j acc. f_add F acc (f_mul F (a ! j) (b ! j))) [0..<k] (f_zero F)"

lemma matvec_cpu_eq:
  assumes "n * m \<le> length a" "n \<le> length c"
  shows "matvec_cpu F a b c n m = map (\<lambda>i. dot_seq F m (drop (i * m) a) b) [0..<n] @ drop n c"
proof -
  have "fold (\<lambda>j acc. f_add F acc (f_mul F (a ! (i * m + j)) (b ! j))) [0..<m] (f_zero F) =
      dot_seq F m (drop (i * m) a) b" if "i < n" for i
  proof -
    have "i * m \<le> length a" using that assms(1) by (meson less_imp_le_nat mult_le_mono1 order_trans)
    then show ?thesis by (simp add: dot_seq_def)
  qed
  then have "fold (\<lambda>j acc. f_add F acc (f_mul F (a ! (i * m + j)) (b ! j))) [0..<m] (f_zero F) =
      dot_seq F m (drop (i * m) a) b" if "i \<in> set [0..<n]" for i using that by simp
  then have "matvec_cpu F a b c n m =
      fold (\<lambda>i c. c[i := dot_seq F m (drop (i * m) a) b]) [0..<n] c"
    unfolding matvec_cpu_def by (intro List.fold_cong) auto
  then show ?thesis using fold_update[OF assms(2)] by simp
qed


lemma loop2_cong:
  assumes "\<And>i j s. i < n \<Longrightarrow> j < m \<Longrightarrow> f i j s = g i j s"
  shows "loop2 n m f s = loop2 n m g s"
  using assms unfolding loop2_def by (intro List.fold_cong ext) (auto intro!: List.fold_cong)

lemma row_le: "(i::nat) < n \<Longrightarrow> i * m \<le> n * m"
  by (simp add: mult_le_mono1)

lemma matmul_cpu_eq:
  assumes "n * l \<le> length a" "m * l \<le> length b" "n * m \<le> length c"
  shows "matmul_cpu F a b c n m l =
    map (\<lambda>k. dot_seq F l (drop (k div m * l) a) (drop (k mod m * l) b)) [0..<n * m] @ drop (n * m) c"
proof -
  have "matmul_cpu F a b c n m l =
      loop2 n m (\<lambda>i j c. c[i * m + j :=
        dot_seq F l (drop ((i * m + j) div m * l) a) (drop ((i * m + j) mod m * l) b)]) c"
    unfolding matmul_cpu_def
  proof (rule loop2_cong)
    fix i j and s :: "'a list"
    assume ij: "i < n" "j < m"
    then have "i * l \<le> length a" "j * l \<le> length b"
      using row_le[of i n l] row_le[of j m l] assms by linarith+
    then show "s[i * m + j := fold (\<lambda>k acc. f_add F acc (f_mul F (a ! (i * l + k)) (b ! (j * l + k))))
          [0..<l] (f_zero F)] =
        s[i * m + j := dot_seq F l (drop ((i * m + j) div m * l) a) (drop ((i * m + j) mod m * l) b)]"
      using ij by (simp add: dot_seq_def)
  qed
  then show ?thesis
    using loop2_update[OF assms(3),
        of "\<lambda>k. dot_seq F l (drop (k div m * l) a) (drop (k mod m * l) b)"] by simp
qed

section \<open>Transposition\<close>

text \<open>A loop in which what is written depends on the position only.\<close>

lemma fold_writes_length [simp]: "length (fold (\<lambda>p b. b[p := h p]) ps b) = length b"
  by (induction ps arbitrary: b) auto

lemma fold_writes:
  "p < length b \<Longrightarrow> fold (\<lambda>p b. b[p := h p]) ps b ! p = (if p \<in> set ps then h p else b ! p)"
  by (induction ps arbitrary: b) (auto simp: nth_list_update)

lemma fold_concat_map: "fold f (concat (map g xs)) s = fold (\<lambda>x. fold f (g x)) xs s"
  by (induction xs arbitrary: s) auto

lemma loop2_writes:
  assumes "\<And>i j. i < n \<Longrightarrow> j < m \<Longrightarrow> g i j = h (pos i j)" "p < length b"
  shows "loop2 n m (\<lambda>i j b. b[pos i j := g i j]) b ! p =
    (if \<exists>i<n. \<exists>j<m. p = pos i j then h p else b ! p)"
proof -
  have "loop2 n m (\<lambda>i j b. b[pos i j := g i j]) b = loop2 n m (\<lambda>i j b. b[pos i j := h (pos i j)]) b"
    by (rule loop2_cong) (simp add: assms(1))
  also have "\<dots> = fold (\<lambda>p b. b[p := h p]) (concat (map (\<lambda>i. map (pos i) [0..<m]) [0..<n])) b"
    by (simp add: loop2_def fold_concat_map fold_map comp_def)
  finally have "loop2 n m (\<lambda>i j b. b[pos i j := g i j]) b =
      fold (\<lambda>p b. b[p := h p]) (concat (map (\<lambda>i. map (pos i) [0..<m]) [0..<n])) b" .
  moreover have "p \<in> set (concat (map (\<lambda>i. map (pos i) [0..<m]) [0..<n])) \<longleftrightarrow> (\<exists>i<n. \<exists>j<m. p = pos i j)"
    by fastforce
  ultimately show ?thesis using fold_writes[OF assms(2)] by simp
qed

lemma loop2_writes_length: "length (loop2 n m (\<lambda>i j b. b[pos i j := g i j]) b) = length b"
proof -
  have "fold (\<lambda>j b. b[pos i j := g i j]) js b = fold (\<lambda>(p, v) b. b[p := v]) (map (\<lambda>j. (pos i j, g i j)) js) b"
    for i js and b :: "'a list" by (induction js arbitrary: b) auto
  moreover have "length (fold (\<lambda>(p, v) b. b[p := v]) ps b) = length b" for ps and b :: "'a list"
    by (induction ps arbitrary: b) auto
  ultimately have "length (fold (\<lambda>i. fold (\<lambda>j b. b[pos i j := g i j]) [0..<m]) is b) = length b" for "is"
    by (induction "is" arbitrary: b) auto
  then show ?thesis by (simp add: loop2_def)
qed

text \<open>The transposed matrix as a list: \<open>m\<close> rows of length \<open>n\<close>.\<close>

definition transposed :: "'f list \<Rightarrow> nat \<Rightarrow> nat \<Rightarrow> 'f list" where
  "transposed a n m = map (\<lambda>k. a ! (k mod n * m + k div n)) [0..<n * m]"

lemma transpose_pos:
  assumes "i < (n::nat)" "j < m" shows "j * n + i < n * m"
proof -
  have "j * n + i < Suc j * n" using assms by simp
  also have "\<dots> \<le> m * n" using assms by (intro mult_le_mono1) simp
  finally show ?thesis by (simp add: mult.commute)
qed

lemma transpose_pos_ex: "(\<exists>i<n. \<exists>j<m. p = j * n + i) \<longleftrightarrow> p < n * (m::nat)"
proof
  assume p: "p < n * m"
  then have "0 < n" by (cases n) auto
  moreover have "p div n < m" using p by (simp add: less_mult_imp_div_less mult.commute)
  ultimately show "\<exists>i<n. \<exists>j<m. p = j * n + i"
    by (intro exI[of _ "p mod n"] exI[of _ "p div n"] conjI) auto
qed (auto simp: transpose_pos)

lemma transpose_cpu_eq:
  assumes "n * m \<le> length b"
  shows "transpose_cpu a b n m = transposed a n m @ drop (n * m) b"
proof (rule nth_equalityI)
  show "length (transpose_cpu a b n m) = length (transposed a n m @ drop (n * m) b)"
    using assms by (simp add: transpose_cpu_def loop2_writes_length transposed_def)
  fix p assume "p < length (transpose_cpu a b n m)"
  then have p: "p < length b" by (simp add: transpose_cpu_def loop2_writes_length)
  have "transpose_cpu a b n m ! p = (if p < n * m then a ! (p mod n * m + p div n) else b ! p)"
    unfolding transpose_cpu_def
    by (subst loop2_writes[where h = "\<lambda>p. a ! (p mod n * m + p div n)", OF _ p])
      (auto simp: transpose_pos_ex)
  then show "transpose_cpu a b n m ! p = (transposed a n m @ drop (n * m) b) ! p"
    using p assms by (simp add: nth_append transposed_def)
qed

text \<open>Transposing back gives the matrix again.\<close>

lemma transposed_transposed:
  assumes "length a = n * m"
  shows "transposed (transposed a n m) m n = a"
proof (rule nth_equalityI)
  show "length (transposed (transposed a n m) m n) = length a"
    using assms by (simp add: transposed_def mult.commute)
  fix p assume "p < length (transposed (transposed a n m) m n)"
  then have p: "p < m * n" by (simp add: transposed_def)
  then have "0 < m" "0 < n" by (auto intro: gr0I)
  have "p div m < n" using p by (simp add: less_mult_imp_div_less mult.commute)
  moreover from this have "(p mod m) * n + p div m < n * m"
    using transpose_pos[of "p div m" n "p mod m" m] \<open>0 < m\<close> by simp
  ultimately show "transposed (transposed a n m) m n ! p = a ! p"
    using p \<open>0 < m\<close> by (simp add: transposed_def mult.commute add.commute)
qed

end
