(* ===== verification/Matlib_Rvv.thy ===== *)
theory Matlib_Rvv
  imports Matlib_Cpu
begin

text \<open>
  The vector kernels of the matrix library,
  \<open>samples/tinympc_fp16_bench/tinympc/external/matlib/include/matlib_rvv.h\<close>, over the macros of
  \<open>matlib_lmul.h\<close> in the single-precision configuration, and the kernels of \<open>matlib_rva.h\<close> that call
  them. The RISC-V vector unit is a parameter: how many elements \<open>vsetvl\<close> grants, the lane operations
  that are instructions of their own, the reductions, and \<open>vtail\<close>, what an instruction makes of the
  lanes behind the vector length. The intrinsics of the macros carry no policy suffix and are
  tail-agnostic: the specification lets the unit keep those lanes or overwrite them.
\<close>

record 'f rvv_api =
  vsetvlmax :: nat
  vsetvl :: "nat \<Rightarrow> nat"
  vfmin :: "'f \<Rightarrow> 'f \<Rightarrow> 'f"
  vfmax :: "'f \<Rightarrow> 'f \<Rightarrow> 'f"
  vfabs :: "'f \<Rightarrow> 'f"
  vfmacc :: "'f \<Rightarrow> 'f \<Rightarrow> 'f \<Rightarrow> 'f"
  vfredmax :: "'f list \<Rightarrow> 'f \<Rightarrow> 'f"
  vfredmin :: "'f list \<Rightarrow> 'f \<Rightarrow> 'f"
  vfredusum :: "'f list \<Rightarrow> 'f \<Rightarrow> 'f"
  vtail :: "'f \<Rightarrow> 'f"

text \<open>
  Loads, strided loads and stores; a vector is the list of its active lanes. An access that
  reaches past the end of the array is undefined behaviour, the value \<open>None\<close>; so is the store
  of a single element.
\<close>

definition mfl_vle :: "'f list \<Rightarrow> nat \<Rightarrow> 'f list option" where
  "mfl_vle p vl = (if vl \<le> length p then Some (take vl p) else None)"

definition mfl_vlse :: "'f list \<Rightarrow> nat \<Rightarrow> nat \<Rightarrow> 'f list option" where
  "mfl_vlse p stride vl =
     (if vl = 0 \<or> (vl - 1) * stride < length p then Some (map (\<lambda>i. p ! (i * stride)) [0..<vl]) else None)"

definition mfl_vse :: "'f list \<Rightarrow> nat \<Rightarrow> 'f list \<Rightarrow> 'f list option" where
  "mfl_vse p l v = (if l + length v \<le> length p then Some (take l p @ v @ drop (l + length v) p) else None)"

definition store_at :: "'f list \<Rightarrow> nat \<Rightarrow> 'f \<Rightarrow> 'f list option" where
  "store_at c i x = (if i < length c then Some (c[i := x]) else None)"

lemma mfl_vle_Some [simp]: "vl \<le> length p \<Longrightarrow> mfl_vle p vl = Some (take vl p)"
  by (simp add: mfl_vle_def)

lemma store_at_Some [simp]: "i < length c \<Longrightarrow> store_at c i x = Some (c[i := x])"
  by (simp add: store_at_def)

text \<open>The accumulator is a whole register: the lanes behind \<open>vl\<close> are the tail.\<close>

definition mfl_vfmacc_vv :: "'f rvv_api \<Rightarrow> 'f list \<Rightarrow> 'f list \<Rightarrow> 'f list \<Rightarrow> nat \<Rightarrow> 'f list" where
  "mfl_vfmacc_vv V d a b vl =
     map2 (\<lambda>x (y, z). vfmacc V x y z) (take vl d) (zip a b) @ map (vtail V) (drop vl d)"

text \<open>
  The loop of all kernels, with the remaining count \<open>k\<close> and the position \<open>l\<close>: \<open>None\<close> where a
  pass leaves the arrays, or where the loop does not end.
\<close>

partial_function (option) strip_mine ::
    "(nat \<Rightarrow> nat) \<Rightarrow> (nat \<Rightarrow> nat \<Rightarrow> 's \<Rightarrow> 's option) \<Rightarrow> nat \<Rightarrow> nat \<Rightarrow> 's \<Rightarrow> 's option" where
  "strip_mine sv body k l s =
     (if k = 0 then Some s
      else Option.bind (body l (sv k) s) (strip_mine sv body (k - sv k) (l + sv k)))"

declare strip_mine.simps [code]

section \<open>The kernels\<close>

definition maxcoeff_rvv ::
    "'f rvv_api \<Rightarrow> ('f, 'z) mat_float_scheme \<Rightarrow> 'f list \<Rightarrow> nat \<Rightarrow> nat \<Rightarrow> 'f option" where
  "maxcoeff_rvv V F a n m =
     strip_mine (vsetvl V) (\<lambda>l vl mx. map_option (\<lambda>v. vfredmax V v mx) (mfl_vle (drop l a) vl)) (m * n) 0 (MATLIB_FLOAT_MIN F)"

definition mincoeff_rvv ::
    "'f rvv_api \<Rightarrow> ('f, 'z) mat_float_scheme \<Rightarrow> 'f list \<Rightarrow> nat \<Rightarrow> nat \<Rightarrow> 'f option" where
  "mincoeff_rvv V F a n m =
     strip_mine (vsetvl V) (\<lambda>l vl mn. map_option (\<lambda>v. vfredmin V v mn) (mfl_vle (drop l a) vl)) (m * n) 0 (MATLIB_FLOAT_MAX F)"

definition matneg_rvv ::
    "'f rvv_api \<Rightarrow> ('f, 'z) mat_float_scheme \<Rightarrow> 'f list \<Rightarrow> 'f list \<Rightarrow> nat \<Rightarrow> nat \<Rightarrow> 'f list option" where
  "matneg_rvv V F a b n m =
     strip_mine (vsetvl V) (\<lambda>l vl b. Option.bind (map_option (map (f_neg F)) (mfl_vle (drop l a) vl)) (mfl_vse b l)) (m * n) 0 b"

definition matnorm_rvv ::
    "'f rvv_api \<Rightarrow> ('f, 'z) mat_float_scheme \<Rightarrow> 'f list \<Rightarrow> nat \<Rightarrow> nat \<Rightarrow> 'f option" where
  "matnorm_rvv V F a n m =
     map_option (\<lambda>s. f_sqrt F (vfredusum V s (f_zero F)))
       (strip_mine (vsetvl V)
         (\<lambda>l vl s. map_option (\<lambda>v. mfl_vfmacc_vv V s v v vl) (mfl_vle (drop l a) vl))
         (m * n) 0 (replicate (vsetvlmax V) (f_zero F)))"

definition cwiseabs_rvv :: "'f rvv_api \<Rightarrow> 'f list \<Rightarrow> 'f list \<Rightarrow> nat \<Rightarrow> nat \<Rightarrow> 'f list option" where
  "cwiseabs_rvv V a b n m =
     strip_mine (vsetvl V) (\<lambda>l vl b. Option.bind (map_option (map (vfabs V)) (mfl_vle (drop l a) vl)) (mfl_vse b l)) (m * n) 0 b"

text \<open>An operation on two loaded vectors, and the body the five two-operand kernels share.\<close>

definition lanes2 :: "('f list \<Rightarrow> 'f list \<Rightarrow> 'g) \<Rightarrow> 'f list option \<Rightarrow> 'f list option \<Rightarrow> 'g option" where
  "lanes2 f x y = Option.bind x (\<lambda>v. map_option (f v) y)"

lemma lanes2_Some [simp]: "lanes2 f (Some v) (Some w) = Some (f v w)"
  by (simp add: lanes2_def)

definition lanewise ::
    "'f rvv_api \<Rightarrow> ('f \<Rightarrow> 'f \<Rightarrow> 'f) \<Rightarrow> 'f list \<Rightarrow> 'f list \<Rightarrow> 'f list \<Rightarrow> nat \<Rightarrow> nat \<Rightarrow> 'f list option" where
  "lanewise V f a b c n m =
     strip_mine (vsetvl V)
       (\<lambda>l vl c. Option.bind (lanes2 (map2 f) (mfl_vle (drop l a) vl) (mfl_vle (drop l b) vl)) (mfl_vse c l))
       (m * n) 0 c"

definition cwisemin_rvv ::
    "'f rvv_api \<Rightarrow> 'f list \<Rightarrow> 'f list \<Rightarrow> 'f list \<Rightarrow> nat \<Rightarrow> nat \<Rightarrow> 'f list option" where
  "cwisemin_rvv V a b c n m = lanewise V (vfmin V) a b c n m"

definition cwisemul_rvv ::
    "'f rvv_api \<Rightarrow> ('f, 'z) mat_float_scheme \<Rightarrow> 'f list \<Rightarrow> 'f list \<Rightarrow> 'f list \<Rightarrow> nat \<Rightarrow> nat \<Rightarrow>
      'f list option" where
  "cwisemul_rvv V F a b c n m = lanewise V (f_mul F) a b c n m"

definition cwisemax_rvv ::
    "'f rvv_api \<Rightarrow> 'f list \<Rightarrow> 'f list \<Rightarrow> 'f list \<Rightarrow> nat \<Rightarrow> nat \<Rightarrow> 'f list option" where
  "cwisemax_rvv V a b c n m = lanewise V (vfmax V) a b c n m"

text \<open>The dot products: the lanes add up partial sums, one reduction adds the lanes.\<close>

definition dot_rvv ::
    "'f rvv_api \<Rightarrow> ('f, 'z) mat_float_scheme \<Rightarrow> nat \<Rightarrow> (nat \<Rightarrow> nat \<Rightarrow> 'f list option) \<Rightarrow> 'f list \<Rightarrow> 'f option" where
  "dot_rvv V F k load_a b =
     map_option (\<lambda>s. vfredusum V s (f_zero F))
       (strip_mine (vsetvl V)
         (\<lambda>l vl s. lanes2 (\<lambda>v w. mfl_vfmacc_vv V s v w vl) (load_a l vl) (mfl_vle (drop l b) vl))
         k 0 (replicate (vsetvlmax V) (f_zero F)))"

text \<open>The same loop over any two loads, for the tiled products.\<close>

definition dot_loads ::
    "'f rvv_api \<Rightarrow> ('f, 'z) mat_float_scheme \<Rightarrow> nat \<Rightarrow> (nat \<Rightarrow> nat \<Rightarrow> 'f list option) \<Rightarrow>
      (nat \<Rightarrow> nat \<Rightarrow> 'f list option) \<Rightarrow> 'f option" where
  "dot_loads V F k load_a load_b =
     map_option (\<lambda>s. vfredusum V s (f_zero F))
       (strip_mine (vsetvl V) (\<lambda>l vl s. lanes2 (\<lambda>v w. mfl_vfmacc_vv V s v w vl) (load_a l vl) (load_b l vl))
         k 0 (replicate (vsetvlmax V) (f_zero F)))"

definition matmul_rvv ::
    "'f rvv_api \<Rightarrow> ('f, 'z) mat_float_scheme \<Rightarrow> 'f list \<Rightarrow> 'f list \<Rightarrow> 'f list \<Rightarrow> nat \<Rightarrow> nat \<Rightarrow> nat \<Rightarrow>
      'f list option" where
  "matmul_rvv V F a b c n m k =
     loop2 n m (\<lambda>i j r. Option.bind r (\<lambda>c. Option.bind
       (dot_rvv V F k (\<lambda>l vl. mfl_vle (drop (i * k + l) a) vl) (drop (j * k) b)) (store_at c (i * m + j)))) (Some c)"

definition matvec_rvv ::
    "'f rvv_api \<Rightarrow> ('f, 'z) mat_float_scheme \<Rightarrow> 'f list \<Rightarrow> 'f list \<Rightarrow> 'f list \<Rightarrow> nat \<Rightarrow> nat \<Rightarrow>
      'f list option" where
  "matvec_rvv V F a b c n m =
     fold (\<lambda>i r. Option.bind r (\<lambda>c. Option.bind
       (dot_rvv V F m (\<lambda>l vl. mfl_vle (drop (i * m + l) a) vl) b) (store_at c i))) [0..<n] (Some c)"

definition matvec_transpose_rvv ::
    "'f rvv_api \<Rightarrow> ('f, 'z) mat_float_scheme \<Rightarrow> 'f list \<Rightarrow> 'f list \<Rightarrow> 'f list \<Rightarrow> nat \<Rightarrow> nat \<Rightarrow>
      'f list option" where
  "matvec_transpose_rvv V F a b c n m =
     fold (\<lambda>i r. Option.bind r (\<lambda>c. Option.bind
       (dot_rvv V F n (\<lambda>l vl. mfl_vlse (drop (i + m * l) a) m vl) b) (store_at c i))) [0..<m] (Some c)"

definition matmulf_rvv ::
    "'f rvv_api \<Rightarrow> ('f, 'z) mat_float_scheme \<Rightarrow> 'f list \<Rightarrow> 'f list \<Rightarrow> 'f \<Rightarrow> nat \<Rightarrow> nat \<Rightarrow>
      'f list option" where
  "matmulf_rvv V F a b f n m =
     strip_mine (vsetvl V)
       (\<lambda>l vl b. Option.bind (map_option (map (\<lambda>x. f_mul F x f)) (mfl_vle (drop l a) vl)) (mfl_vse b l))
       (m * n) 0 b"

definition matsub_rvv ::
    "'f rvv_api \<Rightarrow> ('f, 'z) mat_float_scheme \<Rightarrow> 'f list \<Rightarrow> 'f list \<Rightarrow> 'f list \<Rightarrow> nat \<Rightarrow> nat \<Rightarrow>
      'f list option" where
  "matsub_rvv V F a b c n m = lanewise V (f_sub F) a b c n m"

definition matadd_rvv ::
    "'f rvv_api \<Rightarrow> ('f, 'z) mat_float_scheme \<Rightarrow> 'f list \<Rightarrow> 'f list \<Rightarrow> 'f list \<Rightarrow> nat \<Rightarrow> nat \<Rightarrow>
      'f list option" where
  "matadd_rvv V F a b c n m = lanewise V (f_add F) a b c n m"

definition transpose_rvv ::
    "'f rvv_api \<Rightarrow> 'f list \<Rightarrow> 'f list \<Rightarrow> nat \<Rightarrow> nat \<Rightarrow> 'f list option" where
  "transpose_rvv V a b n m =
     fold (\<lambda>j r. Option.bind r (\<lambda>b. strip_mine (vsetvl V)
       (\<lambda>l vl b. Option.bind (mfl_vlse (drop (l * m + j) a) m vl) (mfl_vse b (j * n + l))) n 0 b)) [0..<m] (Some b)"

definition matcopy_rvv :: "'f rvv_api \<Rightarrow> 'f list \<Rightarrow> 'f list \<Rightarrow> nat \<Rightarrow> nat \<Rightarrow> 'f list option" where
  "matcopy_rvv V a b n m =
     strip_mine (vsetvl V) (\<lambda>l vl b. Option.bind (mfl_vle (drop l a) vl) (mfl_vse b l)) (n * m) 0 b"

definition matset_rvv :: "'f rvv_api \<Rightarrow> 'f list \<Rightarrow> 'f \<Rightarrow> nat \<Rightarrow> nat \<Rightarrow> 'f list option" where
  "matset_rvv V a f n m = strip_mine (vsetvl V) (\<lambda>l vl a. mfl_vse a l (replicate vl f)) (m * n) 0 a"

definition matsetv_rvv :: "'f rvv_api \<Rightarrow> 'f list \<Rightarrow> 'f list \<Rightarrow> nat \<Rightarrow> nat \<Rightarrow> 'f list option" where
  "matsetv_rvv V a f n m =
     strip_mine (vsetvl V) (\<lambda>l vl a. Option.bind (mfl_vle (drop l f) vl) (mfl_vse a l)) (m * n) 0 a"


section \<open>The vector unit\<close>

text \<open>
  The specification's promises on \<open>vsetvl\<close>: it grants at least one element when one is asked for,
  at most what is asked for and at most the register's capacity.
\<close>

locale rvv_laws =
  fixes V :: "'f rvv_api"
  assumes vsetvl_pos: "0 < k \<Longrightarrow> 0 < vsetvl V k"
    and vsetvl_le: "vsetvl V k \<le> k"
    and vsetvl_max: "vsetvl V k \<le> vsetvlmax V"
begin

text \<open>The loop ends, and what every pass keeps holds at the end.\<close>

lemma strip_mine_inv:
  assumes start: "P l s"
    and pass: "\<And>l vl s. P l s \<Longrightarrow> 0 < vl \<Longrightarrow> vl \<le> vsetvlmax V \<Longrightarrow> l + vl \<le> N \<Longrightarrow>
      \<exists>s'. body l vl s = Some s' \<and> P (l + vl) s'"
    and all: "l + k = N"
  shows "\<exists>s'. strip_mine (vsetvl V) body k l s = Some s' \<and> P N s'"
  using start all
proof (induction k arbitrary: l s rule: less_induct)
  case (less k)
  show ?case
  proof (cases "k = 0")
    case True
    then show ?thesis using less.prems by (simp add: strip_mine.simps)
  next
    case False
    then have pos: "0 < vsetvl V k" by (simp add: vsetvl_pos)
    obtain t where t: "body l (vsetvl V k) s = Some t" "P (l + vsetvl V k) t"
      using pass[OF less.prems(1) pos vsetvl_max] vsetvl_le[of k] less.prems(2) by auto
    then show ?thesis
      using less.IH[of "k - vsetvl V k" "l + vsetvl V k" t] False pos less.prems(2) vsetvl_le[of k]
      by (simp add: strip_mine.simps[of _ _ k])
  qed
qed

lemma strip_mine_stores:
  assumes len: "k \<le> length (g k)" "k \<le> length b"
    and vec: "\<And>l vl. 0 < vl \<Longrightarrow> l + vl \<le> k \<Longrightarrow> v l vl = Some (take vl (drop l (g k)))"
  shows "strip_mine (vsetvl V) (\<lambda>l vl b. Option.bind (v l vl) (mfl_vse b l)) k 0 b = Some (take k (g k) @ drop k b)"
proof -
  have "\<exists>s'. strip_mine (vsetvl V) (\<lambda>l vl b. Option.bind (v l vl) (mfl_vse b l)) k 0 b = Some s' \<and>
      k \<le> k \<and> s' = take k (g k) @ drop k b"
  proof (rule strip_mine_inv[where P = "\<lambda>l s. l \<le> k \<and> s = take l (g k) @ drop l b"])
    fix l vl s
    assume s: "l \<le> k \<and> s = take l (g k) @ drop l b" and "0 < vl" "l + vl \<le> k"
    then show "\<exists>s'. Option.bind (v l vl) (mfl_vse s l) = Some s' \<and> l + vl \<le> k \<and>
        s' = take (l + vl) (g k) @ drop (l + vl) b"
      using vec[of vl l] len by (simp add: mfl_vse_def take_add add.commute)
  qed simp_all
  then show ?thesis by simp
qed

lemma matneg_rvv_eq:
  "n * m \<le> length a \<Longrightarrow> n * m \<le> length b \<Longrightarrow> matneg_rvv V F a b n m = Some (matneg_cpu F a b n m)"
  using strip_mine_stores[of "m * n" "\<lambda>_. map (f_neg F) a" b "\<lambda>l vl. map_option (map (f_neg F)) (mfl_vle (drop l a) vl)"]
  by (simp add: matneg_rvv_def matneg_cpu_eq take_map drop_map mult.commute)

lemma matcopy_rvv_eq:
  "n * m \<le> length a \<Longrightarrow> n * m \<le> length b \<Longrightarrow> matcopy_rvv V a b n m = Some (matcopy_cpu a b n m)"
  using strip_mine_stores[of "n * m" "\<lambda>_. a" b "\<lambda>l vl. mfl_vle (drop l a) vl"]
  by (simp add: matcopy_rvv_def matcopy_cpu_eq)

lemma matsetv_rvv_eq:
  "n * m \<le> length a \<Longrightarrow> n * m \<le> length f \<Longrightarrow> matsetv_rvv V a f n m = Some (matsetv_cpu a f n m)"
  using strip_mine_stores[of "m * n" "\<lambda>_. f" a "\<lambda>l vl. mfl_vle (drop l f) vl"]
  by (simp add: matsetv_rvv_def matsetv_cpu_eq mult.commute)

lemma matset_rvv_eq:
  "n * m \<le> length a \<Longrightarrow> matset_rvv V a f n m = Some (matset_cpu a f n m)"
  using strip_mine_stores[of "m * n" "\<lambda>k. replicate k f" a "\<lambda>l vl. Some (replicate vl f)"]
  by (simp add: matset_rvv_def matset_cpu_eq mult.commute)

lemma lanewise_eq:
  "n * m \<le> length a \<Longrightarrow> n * m \<le> length b \<Longrightarrow> n * m \<le> length c \<Longrightarrow>
   lanewise V f a b c n m = Some (map2 f (take (n * m) a) (take (n * m) b) @ drop (n * m) c)"
  using strip_mine_stores[of "m * n" "\<lambda>_. map2 f a b" c
      "\<lambda>l vl. lanes2 (map2 f) (mfl_vle (drop l a) vl) (mfl_vle (drop l b) vl)"]
  by (simp add: lanewise_def take_map drop_map take_zip drop_zip mult.commute)

lemma lanewise_kernels_eq:
  assumes "n * m \<le> length a" "n * m \<le> length b" "n * m \<le> length c"
  shows "matadd_rvv V F a b c n m = Some (matadd_cpu F a b c n m)"
    and "matsub_rvv V F a b c n m = Some (matsub_cpu F a b c n m)"
    and "cwisemul_rvv V F a b c n m = Some (cwisemul_cpu F a b c n m)"
  using assms by (simp_all add: matadd_rvv_def matsub_rvv_def cwisemul_rvv_def lanewise_eq cwise_cpu_eq)

lemma matmulf_rvv_eq:
  assumes "n * m \<le> length a" "n * m \<le> length b" "\<And>x y. f_mul F x y = f_mul F y x"
  shows "matmulf_rvv V F a b f n m = Some (matmulf_cpu F a b f n m)"
proof -
  have "(\<lambda>x. f_mul F x f) = f_mul F f" using assms(3) by auto
  then show ?thesis
    using assms(1,2) strip_mine_stores[of "m * n" "\<lambda>_. map (f_mul F f) a" b
        "\<lambda>l vl. map_option (map (f_mul F f)) (mfl_vle (drop l a) vl)"]
    by (simp add: matmulf_rvv_def matmulf_cpu_eq take_map drop_map mult.commute)
qed

text \<open>The strided load from a column.\<close>

lemma column_lanes:
  assumes "n * m \<le> length a" "i < m" "0 < vl" "l + vl \<le> n"
  shows "mfl_vlse (drop (l * m + i) a) m vl = Some (take vl (drop l (map (\<lambda>j. a ! (j * m + i)) [0..<n])))"
proof -
  have "(vl - 1) * m + (l * m + i) < length a"
  proof -
    have "(vl - 1) * m + (l * m + i) = (l + vl - 1) * m + i" using assms(3) by (simp add: algebra_simps)
    also have "\<dots> < n * m" using transpose_pos[of i m "l + vl - 1" n] assms(2-4) by (simp add: mult.commute)
    finally show ?thesis using assms(1) by simp
  qed
  moreover have "map (\<lambda>p. drop (l * m + i) a ! (p * m)) [0..<vl] =
      take vl (drop l (map (\<lambda>j. a ! (j * m + i)) [0..<n]))"
  proof (rule nth_equalityI)
    show "length (map (\<lambda>p. drop (l * m + i) a ! (p * m)) [0..<vl]) =
        length (take vl (drop l (map (\<lambda>j. a ! (j * m + i)) [0..<n])))"
      using assms by simp
    fix p assume "p < length (map (\<lambda>p. drop (l * m + i) a ! (p * m)) [0..<vl])"
    then have p: "p < vl" by simp
    have "l * m + i < n * m" using transpose_pos[of i m l n] assms by (simp add: mult.commute)
    then show "map (\<lambda>p. drop (l * m + i) a ! (p * m)) [0..<vl] ! p =
        take vl (drop l (map (\<lambda>j. a ! (j * m + i)) [0..<n])) ! p"
      using p assms by (simp add: algebra_simps)
  qed
  ultimately show ?thesis by (simp add: mfl_vlse_def less_diff_conv)
qed

lemma transpose_lanes:
  assumes len: "n * m \<le> length a" and j: "j < m" and l: "l + vl \<le> n" "0 < vl"
  shows "mfl_vlse (drop (l * m + j) a) m vl = Some (take vl (drop (j * n + l) (transposed a n m)))"
proof -
  have all: "j * n + n \<le> n * m" using j by (metis Suc_leI add.commute mult.commute mult_Suc mult_le_mono1)
  have "take vl (drop l (map (\<lambda>i. a ! (i * m + j)) [0..<n])) = take vl (drop (j * n + l) (transposed a n m))"
  proof (rule nth_equalityI)
    show "length (take vl (drop l (map (\<lambda>i. a ! (i * m + j)) [0..<n]))) =
        length (take vl (drop (j * n + l) (transposed a n m)))"
      using l all by (simp add: transposed_def)
    fix i assume "i < length (take vl (drop l (map (\<lambda>i. a ! (i * m + j)) [0..<n])))"
    then have i: "i < vl" by simp
    have "transposed a n m ! (j * n + (l + i)) = a ! ((l + i) * m + j)"
      using i l all by (simp add: transposed_def)
    then show "take vl (drop l (map (\<lambda>i. a ! (i * m + j)) [0..<n])) ! i =
        take vl (drop (j * n + l) (transposed a n m)) ! i"
      using i l all by (simp add: transposed_def add.assoc)
  qed
  then show ?thesis using column_lanes[OF len j l(2,1)] by simp
qed

lemma transpose_row:
  assumes len: "n * m \<le> length a" "n * m \<le> length b" and j: "j < m"
  shows "strip_mine (vsetvl V) (\<lambda>l vl b. Option.bind (mfl_vlse (drop (l * m + j) a) m vl) (mfl_vse b (j * n + l))) n 0
      (take (j * n) (transposed a n m) @ drop (j * n) b) =
    Some (take (Suc j * n) (transposed a n m) @ drop (Suc j * n) b)"
proof -
  let ?T = "transposed a n m"
  let ?P = "\<lambda>l s. l \<le> n \<and> s = take (j * n + l) ?T @ drop (j * n + l) b"
  have all: "j * n + n \<le> n * m" using j by (metis Suc_leI add.commute mult.commute mult_Suc mult_le_mono1)
  have T: "length ?T = n * m" by (simp add: transposed_def)
  have "\<exists>s'. strip_mine (vsetvl V)
      (\<lambda>l vl b. Option.bind (mfl_vlse (drop (l * m + j) a) m vl) (mfl_vse b (j * n + l)))
      n 0 (take (j * n) ?T @ drop (j * n) b) = Some s' \<and> ?P n s'"
  proof (rule strip_mine_inv[where P = ?P])
    fix l vl s
    assume s: "?P l s" and vl: "0 < vl" "l + vl \<le> n"
    have "mfl_vse s (j * n + l) (take vl (drop (j * n + l) ?T)) =
        Some (take (j * n + l + vl) ?T @ drop (j * n + l + vl) b)"
      using s vl all T len(2) take_add[of "j * n + l" vl ?T]
      by (simp add: mfl_vse_def add.commute)
    then show "\<exists>s'. Option.bind (mfl_vlse (drop (l * m + j) a) m vl) (mfl_vse s (j * n + l)) = Some s' \<and> ?P (l + vl) s'"
      using vl by (simp add: add.assoc transpose_lanes[OF len(1) j vl(2) vl(1)])
  qed simp_all
  then show ?thesis by (simp add: add.commute)
qed

lemma transpose_rvv_eq:
  assumes len: "n * m \<le> length a" "n * m \<le> length b"
  shows "transpose_rvv V a b n m = Some (transpose_cpu a b n m)"
proof -
  let ?row = "\<lambda>j b. strip_mine (vsetvl V)
      (\<lambda>l vl b. Option.bind (mfl_vlse (drop (l * m + j) a) m vl) (mfl_vse b (j * n + l))) n 0 b"
  have "fold (\<lambda>j r. Option.bind r (?row j)) [0..<k] (Some b) =
      Some (take (k * n) (transposed a n m) @ drop (k * n) b)" if "k \<le> m" for k
    using that
  proof (induction k)
    case (Suc k)
    then show ?case using transpose_row[OF len, of k] by simp
  qed simp
  from this[of m] show ?thesis
    by (simp add: transpose_rvv_def transpose_cpu_eq[OF len(2)] mult.commute transposed_def)
qed

end

section \<open>Comparisons\<close>

text \<open>
  The instructions that compare: they agree with the comparisons of the scalar code wherever the
  operands are ordered. Zeros of different signs and values that are not numbers are left open:
  there the instructions follow the standard's minimum and maximum, and the scalar code does not.
\<close>

definition comparable :: "('f, 'z) float_api_scheme \<Rightarrow> 'f \<Rightarrow> 'f \<Rightarrow> bool" where
  "comparable F x y \<longleftrightarrow> f_less F x y \<or> f_less F y x \<or> x = y"

locale rvv_order = rvv_laws V + float_order F
  for V :: "'f rvv_api" and F :: "('f, 'z) mat_float_scheme" +
  assumes vfmin_ordered: "comparable F x y \<Longrightarrow> vfmin V x y = cpu_min F x y"
    and vfmax_ordered: "comparable F x y \<Longrightarrow> vfmax V x y = cpu_max F x y"
    and vfabs_ordered: "comparable F x (f_zero F) \<Longrightarrow> vfabs V x = cpu_abs F x"
    and vfredmax_fold: "vfredmax V xs x = fold (\<lambda>y mx. vfmax V y mx) xs x"
    and vfredmin_fold: "vfredmin V xs x = fold (\<lambda>y mn. vfmin V y mn) xs x"
begin

lemma cwiseabs_rvv_eq:
  assumes "n * m \<le> length a" "n * m \<le> length b" "\<And>x. x \<in> set (take (n * m) a) \<Longrightarrow> comparable F x (f_zero F)"
  shows "cwiseabs_rvv V a b n m = Some (cwiseabs_cpu F a b n m)"
proof -
  have "map (vfabs V) (take (n * m) a) = map (cpu_abs F) (take (n * m) a)"
    using assms(3) vfabs_ordered by simp
  then show ?thesis
    using assms(1,2) strip_mine_stores[of "m * n" "\<lambda>_. map (vfabs V) a" b
        "\<lambda>l vl. map_option (map (vfabs V)) (mfl_vle (drop l a) vl)"]
    by (simp add: cwiseabs_rvv_def cwiseabs_cpu_eq take_map drop_map mult.commute)
qed

lemma cwise_order_eq:
  assumes len: "n * m \<le> length a" "n * m \<le> length b" "n * m \<le> length c"
    and ord: "\<And>x y. (x, y) \<in> set (zip (take (n * m) a) (take (n * m) b)) \<Longrightarrow> comparable F x y"
  shows "cwisemin_rvv V a b c n m = Some (cwisemin_cpu F a b c n m)"
    and "cwisemax_rvv V a b c n m = Some (cwisemax_cpu F a b c n m)"
proof -
  have "map2 (vfmin V) (take (n * m) a) (take (n * m) b) = map2 (cpu_min F) (take (n * m) a) (take (n * m) b)"
    "map2 (vfmax V) (take (n * m) a) (take (n * m) b) = map2 (cpu_max F) (take (n * m) a) (take (n * m) b)"
    using ord vfmin_ordered vfmax_ordered by auto
  then show "cwisemin_rvv V a b c n m = Some (cwisemin_cpu F a b c n m)"
    and "cwisemax_rvv V a b c n m = Some (cwisemax_cpu F a b c n m)"
    using len by (simp_all add: cwisemin_rvv_def cwisemax_rvv_def lanewise_eq cwise_cpu_eq)
qed

lemma strip_mine_fold:
  "strip_mine (vsetvl V) (\<lambda>l vl s. map_option (\<lambda>v. fold f v s) (mfl_vle (drop l a) vl)) k 0 s =
   Some (fold f (take k a) s)" if "k \<le> length a"
proof -
  have "\<exists>s'. strip_mine (vsetvl V) (\<lambda>l vl s. map_option (\<lambda>v. fold f v s) (mfl_vle (drop l a) vl)) k 0 s = Some s' \<and>
      s' = fold f (take k a) s"
    by (rule strip_mine_inv) (use that in \<open>auto simp: take_add\<close>)
  then show ?thesis by simp
qed

lemma fold_ordered:
  assumes "\<And>x y. x \<in> insert s (set xs) \<Longrightarrow> y \<in> insert s (set xs) \<Longrightarrow> comparable F x y"
    and "\<And>x y. comparable F x y \<Longrightarrow> g x y = h x y" and "\<And>x y. h x y = x \<or> h x y = y"
  shows "fold g xs s = fold h xs s"
  using assms(1)
proof (induction xs arbitrary: s)
  case (Cons x xs)
  have "g x s = h x s" using Cons.prems assms(2) by simp
  moreover have "h x s \<in> insert s (set (x # xs))" using assms(3)[of x s] by auto
  ultimately show ?case using Cons.IH[of "h x s"] Cons.prems by (auto intro!: Cons.IH)
qed simp

lemma maxcoeff_rvv_eq:
  assumes "n * m \<le> length a"
    and "\<And>x y. x \<in> insert (MATLIB_FLOAT_MIN F) (set (take (n * m) a)) \<Longrightarrow>
      y \<in> insert (MATLIB_FLOAT_MIN F) (set (take (n * m) a)) \<Longrightarrow> comparable F x y"
  shows "maxcoeff_rvv V F a n m = Some (maxcoeff_cpu F a n m)"
proof -
  have cpu: "maxcoeff_cpu F a n m = fold (cpu_max F) (take (n * m) a) (MATLIB_FLOAT_MIN F)"
    using loop2_flat[of n m "\<lambda>k. cpu_max F (a ! k)" "MATLIB_FLOAT_MIN F"] assms(1)
    by (simp add: maxcoeff_cpu_def cpu_max_def[abs_def] fold_map comp_def
        map_nth_upt[symmetric, of "n * m" a "\<lambda>x. x", simplified])
  have "maxcoeff_rvv V F a n m = Some (fold (vfmax V) (take (m * n) a) (MATLIB_FLOAT_MIN F))"
    using strip_mine_fold[of "m * n" a "vfmax V"] assms(1)
    by (simp add: maxcoeff_rvv_def vfredmax_fold mult.commute)
  moreover have "fold (vfmax V) (take (n * m) a) (MATLIB_FLOAT_MIN F) =
      fold (cpu_max F) (take (n * m) a) (MATLIB_FLOAT_MIN F)"
    by (rule fold_ordered) (use assms(2) vfmax_ordered in \<open>auto simp: cpu_max_def\<close>)
  ultimately show ?thesis using cpu by (simp add: mult.commute)
qed

end

section \<open>Dot products\<close>

text \<open>
  The order of the additions differs: the scalar code adds from left to right, the vector code adds
  up lanes. They agree where addition is exact, on a unit that keeps the tail lanes.
\<close>

locale rvv_exact = rvv_laws V
  for V :: "'f rvv_api" and F :: "('f, 'z) mat_float_scheme" +
  assumes add_assoc: "f_add F (f_add F x y) z = f_add F x (f_add F y z)"
    and add_comm: "f_add F x y = f_add F y x"
    and add_zero: "f_add F x (f_zero F) = x"
    and vfmacc_exact: "vfmacc V s x y = f_add F s (f_mul F x y)"
    and vfredusum_exact: "vfredusum V xs x = fold (f_add F) xs x"
    and tail_kept: "vtail V x = x"
begin

definition lane_sum :: "'f list \<Rightarrow> 'f" where
  "lane_sum xs = foldr (f_add F) xs (f_zero F)"

lemma add_left: "f_add F x (f_add F y z) = f_add F y (f_add F x z)"
  by (metis add_assoc add_comm)

lemma zero_add: "f_add F (f_zero F) x = x"
  by (metis add_comm add_zero)

lemma lane_sum_simps [simp]:
  "lane_sum [] = f_zero F" "lane_sum (x # xs) = f_add F x (lane_sum xs)"
  by (simp_all add: lane_sum_def)

lemma fold_add: "fold (f_add F) xs x = f_add F (lane_sum xs) x"
  by (induction xs arbitrary: x) (simp_all add: zero_add add_assoc add_left)

lemma lane_sum_append: "lane_sum (xs @ ys) = f_add F (lane_sum xs) (lane_sum ys)"
  by (induction xs) (simp_all add: add_assoc zero_add)

lemma lane_sum_zeros: "lane_sum (replicate k (f_zero F)) = f_zero F"
  by (induction k) (simp_all add: add_zero)

lemma lane_sum_macc:
  "length d = length a \<Longrightarrow> length a = length b \<Longrightarrow>
   lane_sum (map2 (\<lambda>x (y, z). vfmacc V x y z) d (zip a b)) =
   f_add F (lane_sum d) (lane_sum (map2 (f_mul F) a b))"
  by (induction d a b rule: list_induct3) (simp_all add: add_zero vfmacc_exact add_assoc add_left)

lemma lane_sum_vfmacc:
  assumes "length a = vl" "length b = vl" "vl \<le> length d"
  shows "lane_sum (mfl_vfmacc_vv V d a b vl) = f_add F (lane_sum d) (lane_sum (map2 (f_mul F) a b))"
proof -
  have "map (vtail V) (drop vl d) = drop vl d" by (simp add: tail_kept map_idI)
  moreover have "lane_sum d = f_add F (lane_sum (take vl d)) (lane_sum (drop vl d))"
    using lane_sum_append[of "take vl d" "drop vl d"] by simp
  ultimately show ?thesis
    using lane_sum_macc[of "take vl d" a b] assms
    by (simp add: mfl_vfmacc_vv_def lane_sum_append add_assoc add_comm[of "lane_sum (drop vl d)"])
qed

lemma dot_seq_sum:
  assumes "k \<le> length a" "k \<le> length b"
  shows "dot_seq F k a b = lane_sum (map2 (f_mul F) (take k a) (take k b))"
proof -
  have "dot_seq F k a b = fold (\<lambda>x acc. f_add F acc x) (map2 (f_mul F) (take k a) (take k b)) (f_zero F)"
    by (simp add: dot_seq_def map2_nth_upt[OF assms, symmetric] fold_map comp_def)
  also have "(\<lambda>x acc. f_add F acc x) = f_add F" using add_comm by auto
  finally show ?thesis by (simp add: fold_add add_zero)
qed

lemma dot_loads_exact:
  assumes len: "k \<le> length a" "k \<le> length b"
    and load: "\<And>l vl. 0 < vl \<Longrightarrow> l + vl \<le> k \<Longrightarrow>
      load_a l vl = Some (take vl (drop l a)) \<and> load_b l vl = Some (take vl (drop l b))"
  shows "dot_loads V F k load_a load_b = Some (dot_seq F k a b)"
proof -
  let ?P = "\<lambda>l s. l \<le> k \<and> length s = vsetvlmax V \<and>
      lane_sum s = lane_sum (map2 (f_mul F) (take l a) (take l b))"
  let ?body = "\<lambda>l vl s. lanes2 (\<lambda>v w. mfl_vfmacc_vv V s v w vl) (load_a l vl) (load_b l vl)"
  have "\<exists>s. strip_mine (vsetvl V) ?body k 0 (replicate (vsetvlmax V) (f_zero F)) = Some s \<and> ?P k s"
  proof (rule strip_mine_inv[where P = ?P])
    fix l vl s
    assume s: "?P l s" and vl: "0 < vl" "vl \<le> vsetvlmax V" "l + vl \<le> k"
    let ?v = "take vl (drop l a)" and ?w = "take vl (drop l b)"
    have lanes: "length ?v = vl" "length ?w = vl" using vl len by simp_all
    have split: "map2 (f_mul F) (take (l + vl) a) (take (l + vl) b) =
        map2 (f_mul F) (take l a) (take l b) @ map2 (f_mul F) ?v ?w"
      using vl len by (simp add: take_add)
    have "length (mfl_vfmacc_vv V s ?v ?w vl) = vsetvlmax V"
      using s vl lanes by (simp add: mfl_vfmacc_vv_def)
    moreover have "lane_sum (mfl_vfmacc_vv V s ?v ?w vl) =
        lane_sum (map2 (f_mul F) (take (l + vl) a) (take (l + vl) b))"
      using s vl lane_sum_vfmacc[OF lanes, of s] by (simp add: split lane_sum_append)
    ultimately show "\<exists>s'. ?body l vl s = Some s' \<and> ?P (l + vl) s'"
      using vl load[of vl l] by simp
  qed (simp_all add: lane_sum_zeros)
  then obtain s where "strip_mine (vsetvl V) ?body k 0 (replicate (vsetvlmax V) (f_zero F)) = Some s" "?P k s" by blast
  then show ?thesis by (simp add: dot_loads_def vfredusum_exact fold_add add_zero dot_seq_sum[OF len])
qed

lemma dot_rvv_exact:
  assumes "k \<le> length a" "k \<le> length b" "\<And>l vl. 0 < vl \<Longrightarrow> l + vl \<le> k \<Longrightarrow> load_a l vl = Some (take vl (drop l a))"
  shows "dot_rvv V F k load_a b = Some (dot_seq F k a b)"
proof -
  have "dot_rvv V F k load_a b = dot_loads V F k load_a (\<lambda>l vl. mfl_vle (drop l b) vl)"
    by (simp add: dot_rvv_def dot_loads_def)
  then show ?thesis using dot_loads_exact[OF assms(1,2)] assms by simp
qed

end

text \<open>Loops over rows in which every row returns and is stored inside the result.\<close>

lemma fold_bind_Some:
  "(\<And>i. i \<in> set is \<Longrightarrow> d i = Some (g i) \<and> pos i < length c) \<Longrightarrow>
   fold (\<lambda>i r. Option.bind r (\<lambda>c. Option.bind (d i) (store_at c (pos i)))) is (Some c) =
   Some (fold (\<lambda>i c. c[pos i := g i]) is c)"
  by (induction "is" arbitrary: c) auto

lemma length_fold_update: "length (fold (\<lambda>i c. c[pos i := g i]) is c) = length c"
  by (induction "is" arbitrary: c) simp_all

lemma loop2_bind_Some:
  assumes "\<And>i j. i < n \<Longrightarrow> j < m \<Longrightarrow> d i j = Some (g i j) \<and> pos i j < length c"
  shows "loop2 n m (\<lambda>i j r. Option.bind r (\<lambda>c. Option.bind (d i j) (store_at c (pos i j)))) (Some c) =
    Some (loop2 n m (\<lambda>i j c. c[pos i j := g i j]) c)"
proof -
  have "fold (\<lambda>i. fold (\<lambda>j r. Option.bind r (\<lambda>c. Option.bind (d i j) (store_at c (pos i j)))) [0..<m])
      is (Some c') = Some (fold (\<lambda>i. fold (\<lambda>j c. c[pos i j := g i j]) [0..<m]) is c')"
    if "set is \<subseteq> {0..<n}" "length c' = length c" for "is" c'
    using that
  proof (induction "is" arbitrary: c')
    case (Cons i "is")
    have "fold (\<lambda>j r. Option.bind r (\<lambda>c. Option.bind (d i j) (store_at c (pos i j)))) [0..<m] (Some c') =
        Some (fold (\<lambda>j c. c[pos i j := g i j]) [0..<m] c')"
      by (rule fold_bind_Some) (use Cons.prems assms in auto)
    then show ?case using Cons by (simp add: length_fold_update)
  qed simp
  from this[of "[0..<n]" c] show ?thesis by (simp add: loop2_def)
qed

context rvv_exact
begin

lemma matvec_rvv_exact:
  assumes "n * m \<le> length a" "m \<le> length b" "n \<le> length c"
  shows "matvec_rvv V F a b c n m = Some (matvec_cpu F a b c n m)"
proof -
  have row: "dot_rvv V F m (\<lambda>l vl. mfl_vle (drop (i * m + l) a) vl) b = Some (dot_seq F m (drop (i * m) a) b)"
    and seq: "dot_seq F m (drop (i * m) a) b =
      fold (\<lambda>j acc. f_add F acc (f_mul F (a ! (i * m + j)) (b ! j))) [0..<m] (f_zero F)"
    if "i < n" for i
  proof -
    have "Suc i * m \<le> n * m" using that by (intro mult_le_mono1) simp
    then have "m \<le> length (drop (i * m) a)" "i * m \<le> length a" using assms(1) by simp_all
    then show "dot_rvv V F m (\<lambda>l vl. mfl_vle (drop (i * m + l) a) vl) b = Some (dot_seq F m (drop (i * m) a) b)"
      using assms(2) by (intro dot_rvv_exact) (auto simp: add.commute)
    show "dot_seq F m (drop (i * m) a) b =
        fold (\<lambda>j acc. f_add F acc (f_mul F (a ! (i * m + j)) (b ! j))) [0..<m] (f_zero F)"
      using \<open>i * m \<le> length a\<close> by (simp add: dot_seq_def)
  qed
  show ?thesis
    unfolding matvec_rvv_def matvec_cpu_def
    by (subst fold_bind_Some[where g = "\<lambda>i. dot_seq F m (drop (i * m) a) b"])
      (use assms(3) in \<open>auto simp: row seq intro!: List.fold_cong\<close>)
qed

lemma matmul_rvv_exact:
  assumes "n * k \<le> length a" "m * k \<le> length b" "n * m \<le> length c"
  shows "matmul_rvv V F a b c n m k = Some (matmul_cpu F a b c n m k)"
proof -
  have "dot_rvv V F k (\<lambda>l vl. mfl_vle (drop (i * k + l) a) vl) (drop (j * k) b) =
      Some (fold (\<lambda>l acc. f_add F acc (f_mul F (a ! (i * k + l)) (b ! (j * k + l)))) [0..<k] (f_zero F)) \<and>
      i * m + j < length c"
    if "i < n" "j < m" for i j
  proof -
    have "Suc i * k \<le> n * k" "Suc j * k \<le> m * k" using that by (intro mult_le_mono1, simp)+
    then have le: "k \<le> length (drop (i * k) a)" "i * k \<le> length a"
      "k \<le> length (drop (j * k) b)" "j * k \<le> length b" using assms by simp_all
    have "dot_rvv V F k (\<lambda>l vl. mfl_vle (drop (i * k + l) a) vl) (drop (j * k) b) =
        Some (dot_seq F k (drop (i * k) a) (drop (j * k) b))"
      using le by (intro dot_rvv_exact) (auto simp: add.commute)
    moreover have "i * m + j < n * m" using transpose_pos[of j m i n] that by (simp add: mult.commute)
    ultimately show ?thesis using le assms(3) by (simp add: dot_seq_def)
  qed
  then show ?thesis unfolding matmul_rvv_def matmul_cpu_def by (rule loop2_bind_Some)
qed

lemma matvec_transpose_rvv_exact:
  assumes "n * m \<le> length a" "n \<le> length b" "m \<le> length c"
  shows "matvec_transpose_rvv V F a b c n m = Some (matvec_transpose_cpu F a b c n m)"
proof -
  let ?col = "\<lambda>i. map (\<lambda>j. a ! (j * m + i)) [0..<n]"
  have row: "dot_rvv V F n (\<lambda>l vl. mfl_vlse (drop (i + m * l) a) m vl) b = Some (dot_seq F n (?col i) b)"
    if "i < m" for i
    by (rule dot_rvv_exact)
      (use assms that column_lanes[of n m a i] in \<open>simp_all add: add.commute[of i] mult.commute[of m]\<close>)
  have seq: "dot_seq F n (?col i) b =
      fold (\<lambda>j acc. f_add F acc (f_mul F (a ! (j * m + i)) (b ! j))) [0..<n] (f_zero F)" for i
    unfolding dot_seq_def by (rule List.fold_cong) auto
  show ?thesis
    unfolding matvec_transpose_rvv_def matvec_transpose_cpu_def
    by (subst fold_bind_Some[where g = "\<lambda>i. dot_seq F n (?col i) b"])
      (use assms(3) in \<open>auto simp: row seq intro!: List.fold_cong\<close>)
qed

end

section \<open>The kernels of \<open>matlib_rva.h\<close>\<close>

text \<open>Every kernel takes rows of pointers and passes the first one on.\<close>

definition maxcoeff_rva ::
    "'f rvv_api \<Rightarrow> ('f, 'z) mat_float_scheme \<Rightarrow> 'f list \<Rightarrow> nat \<Rightarrow> nat \<Rightarrow> 'f option" where
  "maxcoeff_rva V F a n m = maxcoeff_rvv V F a n m"

definition matneg_rva ::
    "'f rvv_api \<Rightarrow> ('f, 'z) mat_float_scheme \<Rightarrow> 'f list \<Rightarrow> 'f list \<Rightarrow> nat \<Rightarrow> nat \<Rightarrow> 'f list option" where
  "matneg_rva V F a b n m = matneg_rvv V F a b n m"

definition matsub_rva ::
    "'f rvv_api \<Rightarrow> ('f, 'z) mat_float_scheme \<Rightarrow> 'f list \<Rightarrow> 'f list \<Rightarrow> 'f list \<Rightarrow> nat \<Rightarrow> nat \<Rightarrow>
      'f list option" where
  "matsub_rva V F a b c n m = matsub_rvv V F a b c n m"

definition matadd_rva ::
    "'f rvv_api \<Rightarrow> ('f, 'z) mat_float_scheme \<Rightarrow> 'f list \<Rightarrow> 'f list \<Rightarrow> 'f list \<Rightarrow> nat \<Rightarrow> nat \<Rightarrow>
      'f list option" where
  "matadd_rva V F a b c n m = matsub_rvv V F a b c n m"

definition mincoeff_rva ::
    "'f rvv_api \<Rightarrow> ('f, 'z) mat_float_scheme \<Rightarrow> 'f list \<Rightarrow> nat \<Rightarrow> nat \<Rightarrow> 'f option" where
  "mincoeff_rva V F a n m = mincoeff_rvv V F a n m"

definition cwiseabs_rva ::
    "'f rvv_api \<Rightarrow> 'f list \<Rightarrow> 'f list \<Rightarrow> nat \<Rightarrow> nat \<Rightarrow> 'f list option" where
  "cwiseabs_rva V a b n m = cwiseabs_rvv V a b n m"

definition cwisemin_rva ::
    "'f rvv_api \<Rightarrow> 'f list \<Rightarrow> 'f list \<Rightarrow> 'f list \<Rightarrow> nat \<Rightarrow> nat \<Rightarrow> 'f list option" where
  "cwisemin_rva V a b c n m = cwisemin_rvv V a b c n m"

definition cwisemax_rva ::
    "'f rvv_api \<Rightarrow> 'f list \<Rightarrow> 'f list \<Rightarrow> 'f list \<Rightarrow> nat \<Rightarrow> nat \<Rightarrow> 'f list option" where
  "cwisemax_rva V a b c n m = cwisemax_rvv V a b c n m"

definition cwisemul_rva ::
    "'f rvv_api \<Rightarrow> ('f, 'z) mat_float_scheme \<Rightarrow> 'f list \<Rightarrow> 'f list \<Rightarrow> 'f list \<Rightarrow> 
      nat \<Rightarrow> nat \<Rightarrow> 'f list option" where
  "cwisemul_rva V F a b c n m = cwisemul_rvv V F a b c n m"

definition matmul_rva ::
    "'f rvv_api \<Rightarrow> ('f, 'z) mat_float_scheme \<Rightarrow> 'f list \<Rightarrow> 'f list \<Rightarrow> 'f list \<Rightarrow> 
      nat \<Rightarrow> nat \<Rightarrow> nat \<Rightarrow> 'f list option" where
  "matmul_rva V F a b c n m k = matmul_rvv V F a b c n m k"

definition matvec_rva ::
    "'f rvv_api \<Rightarrow> ('f, 'z) mat_float_scheme \<Rightarrow> 'f list \<Rightarrow> 'f list \<Rightarrow> 'f list \<Rightarrow> 
      nat \<Rightarrow> nat \<Rightarrow> 'f list option" where
  "matvec_rva V F a b c n m = matvec_rvv V F a b c n m"

definition matvec_transpose_rva ::
    "'f rvv_api \<Rightarrow> ('f, 'z) mat_float_scheme \<Rightarrow> 'f list \<Rightarrow> 'f list \<Rightarrow> 'f list \<Rightarrow> 
      nat \<Rightarrow> nat \<Rightarrow> 'f list option" where
  "matvec_transpose_rva V F a b c n m = matvec_transpose_rvv V F a b c n m"

definition matmulf_rva ::
    "'f rvv_api \<Rightarrow> ('f, 'z) mat_float_scheme \<Rightarrow> 'f list \<Rightarrow> 'f list \<Rightarrow> 'f \<Rightarrow> 
      nat \<Rightarrow> nat \<Rightarrow> 'f list option" where
  "matmulf_rva V F a b f n m = matmulf_rvv V F a b f n m"

definition transpose_rva ::
    "'f rvv_api \<Rightarrow> 'f list \<Rightarrow> 'f list \<Rightarrow> nat \<Rightarrow> nat \<Rightarrow> 'f list option" where
  "transpose_rva V a b n m = transpose_rvv V a b n m"

definition matcopy_rva ::
    "'f rvv_api \<Rightarrow> 'f list \<Rightarrow> 'f list \<Rightarrow> nat \<Rightarrow> nat \<Rightarrow> 'f list option" where
  "matcopy_rva V a b n m = matcopy_rvv V a b n m"

definition matset_rva ::
    "'f rvv_api \<Rightarrow> 'f list \<Rightarrow> 'f \<Rightarrow> nat \<Rightarrow> nat \<Rightarrow> 'f list option" where
  "matset_rva V a f n m = matset_rvv V a f n m"

definition matsetv_rva ::
    "'f rvv_api \<Rightarrow> 'f list \<Rightarrow> 'f list \<Rightarrow> nat \<Rightarrow> nat \<Rightarrow> 'f list option" where
  "matsetv_rva V a f n m = matsetv_rvv V a f n m"

definition matnorm_rva ::
    "'f rvv_api \<Rightarrow> ('f, 'z) mat_float_scheme \<Rightarrow> 'f list \<Rightarrow> nat \<Rightarrow> nat \<Rightarrow> 'f option" where
  "matnorm_rva V F a n m = matnorm_rvv V F a n m"

section \<open>A unit to run the models on\<close>

text \<open>Four lanes over the fixed-point numbers, with the tail as a parameter.\<close>

definition sim_mat :: "int option mat_float" where
  "sim_mat = \<lparr>f_lit = f_lit sim_rose, f_add = f_add sim_rose, f_sub = f_sub sim_rose, f_mul = f_mul sim_rose,
     f_div = f_div sim_rose, f_less = f_less sim_rose, f_eq = f_eq sim_rose, f_of_int = f_of_int sim_rose,
     f_to_u32 = f_to_u32 sim_rose, f_bits = f_bits sim_rose,
     f_neg = map_option uminus, f_sqrt = map_option (\<lambda>x. int (nat x)),
     MATLIB_FLOAT_MIN = Some 1, MATLIB_FLOAT_MAX = Some (10 ^ 12)\<rparr>"

definition sim_rvv :: "(int option \<Rightarrow> int option) \<Rightarrow> int option rvv_api" where
  "sim_rvv tail = \<lparr>vsetvlmax = 4, vsetvl = min 4, vfmin = cpu_min sim_mat, vfmax = cpu_max sim_mat,
     vfabs = map_option abs, vfmacc = (\<lambda>s x y. f_add sim_mat s (f_mul sim_mat x y)),
     vfredmax = fold (cpu_max sim_mat), vfredmin = fold (cpu_min sim_mat),
     vfredusum = fold (f_add sim_mat), vtail = tail\<rparr>"

lemmas sim_mat_simps = sim_mat_def sim_rose_def lift2_def

interpretation sim_mat_chain: float_chain sim_mat
  by unfold_locales (auto simp: sim_mat_simps mult_right_mono not_less split: option.splits)

interpretation sim_unit: rvv_order "sim_rvv tail" sim_mat
proof unfold_locales
  show "comparable sim_mat x (f_zero sim_mat) \<Longrightarrow> vfabs (sim_rvv tail) x = cpu_abs sim_mat x" for x
    by (cases x) (auto simp: sim_rvv_def cpu_abs_def comparable_def sim_mat_simps)
qed (auto simp: sim_rvv_def min_def)

interpretation sim_unit_exact: rvv_exact "sim_rvv (\<lambda>x. x)" sim_mat
  by unfold_locales (auto simp: sim_rvv_def sim_mat_simps min_def split: option.splits)

lemma sim_mul_comm: "f_mul sim_mat x y = f_mul sim_mat y x"
  by (auto simp: sim_mat_simps mult.commute split: option.split)

section \<open>Vector and scalar kernels\<close>

text \<open>
  On every vector unit, however many elements it grants per pass, the vector kernels that need
  no comparison return, and write exactly what the scalar kernels write: sums, differences, products,
  negations, scaling, copies, fills and transposes of matrices that fit their arrays.
\<close>
theorem vector_kernels_agree:
  assumes "rvv_laws V" "\<And>x y. f_mul F x y = f_mul F y x"
    and "n * m \<le> length a" "n * m \<le> length b" "n * m \<le> length c"
  shows "matadd_rvv V F a b c n m = Some (matadd_cpu F a b c n m) \<and>
    matsub_rvv V F a b c n m = Some (matsub_cpu F a b c n m) \<and>
    cwisemul_rvv V F a b c n m = Some (cwisemul_cpu F a b c n m) \<and>
    matneg_rvv V F a c n m = Some (matneg_cpu F a c n m) \<and>
    matmulf_rvv V F a c f n m = Some (matmulf_cpu F a c f n m) \<and>
    matcopy_rvv V a c n m = Some (matcopy_cpu a c n m) \<and>
    matset_rvv V c f n m = Some (matset_cpu c f n m) \<and>
    matsetv_rvv V c a n m = Some (matsetv_cpu c a n m) \<and>
    transpose_rvv V a c n m = Some (transpose_cpu a c n m)"
  using assms
  by (simp add: rvv_laws.lanewise_kernels_eq rvv_laws.matneg_rvv_eq rvv_laws.matmulf_rvv_eq
      rvv_laws.matcopy_rvv_eq rvv_laws.matset_rvv_eq rvv_laws.matsetv_rvv_eq rvv_laws.transpose_rvv_eq)

theorem vector_kernels_agree_witness:
  "matadd_rvv (sim_rvv (\<lambda>x. None)) sim_mat [Some 1, Some 2, Some 3, Some 4, Some 5, Some 6]
      [Some 6, Some 5, Some 4, Some 3, Some 2, Some 1] (replicate 6 None) 2 3 = Some (replicate 6 (Some 7)) \<and>
   transpose_rvv (sim_rvv (\<lambda>x. None)) [Some 1, Some 2, Some 3, Some 4, Some 5, Some 6] (replicate 6 None) 2 3 =
     Some [Some 1, Some 4, Some 2, Some 5, Some 3, Some 6]"
proof -
  have cpu: "matadd_cpu sim_mat [Some 1, Some 2, Some 3, Some 4, Some 5, Some 6]
      [Some 6, Some 5, Some 4, Some 3, Some 2, Some 1] (replicate 6 None) 2 3 = replicate 6 (Some 7)"
    "transpose_cpu [Some 1, Some 2, Some 3, Some 4, Some 5, Some (6::int)] (replicate 6 None) 2 3 =
      [Some 1, Some 4, Some 2, Some 5, Some 3, Some 6]" by code_simp+
  show ?thesis
    using vector_kernels_agree[OF sim_unit.rvv_laws_axioms[of "\<lambda>x. None"] sim_mul_comm, where n = 2 and m = 3
        and a = "[Some 1, Some 2, Some 3, Some 4, Some 5, Some 6]"
        and b = "[Some 6, Some 5, Some 4, Some 3, Some 2, Some 1]" and c = "replicate 6 None"]
    by (simp add: cpu)
qed

text \<open>
  Where the operands are ordered - no value that is not a number, no zeros of opposite sign - the
  vector minimum, maximum, absolute value and largest coefficient are those of the scalar kernels.
\<close>
theorem vector_comparisons_agree:
  assumes "rvv_order V F"
    and len: "n * m \<le> length a" "n * m \<le> length b" "n * m \<le> length c"
    and ord: "\<And>x y. x \<in> {f_zero F, MATLIB_FLOAT_MIN F} \<union> set a \<union> set b \<Longrightarrow>
      y \<in> {f_zero F, MATLIB_FLOAT_MIN F} \<union> set a \<union> set b \<Longrightarrow> comparable F x y"
  shows "cwisemin_rvv V a b c n m = Some (cwisemin_cpu F a b c n m) \<and>
    cwisemax_rvv V a b c n m = Some (cwisemax_cpu F a b c n m) \<and>
    cwiseabs_rvv V a c n m = Some (cwiseabs_cpu F a c n m) \<and>
    maxcoeff_rvv V F a n m = Some (maxcoeff_cpu F a n m)"
proof (intro conjI)
  have pair: "comparable F x y" if "(x, y) \<in> set (zip (take (n * m) a) (take (n * m) b))" for x y
    using that by (intro ord) (auto dest: set_zip_leftD set_zip_rightD in_set_takeD)
  show "cwisemin_rvv V a b c n m = Some (cwisemin_cpu F a b c n m)"
    and "cwisemax_rvv V a b c n m = Some (cwisemax_cpu F a b c n m)"
    using rvv_order.cwise_order_eq[OF assms(1) len pair] by blast+
  show "cwiseabs_rvv V a c n m = Some (cwiseabs_cpu F a c n m)"
    by (rule rvv_order.cwiseabs_rvv_eq[OF assms(1) len(1) len(3)]) (blast intro: ord dest: in_set_takeD)
  show "maxcoeff_rvv V F a n m = Some (maxcoeff_cpu F a n m)"
    by (rule rvv_order.maxcoeff_rvv_eq[OF assms(1) len(1)]) (blast intro: ord dest: in_set_takeD)+
qed

theorem vector_comparisons_agree_witness:
  "cwisemax_rvv (sim_rvv (\<lambda>x. None)) [Some 1, Some (- 2)] [Some (- 3), Some 4] [None, None] 1 2 =
     Some [Some 1, Some 4] \<and>
   maxcoeff_rvv (sim_rvv (\<lambda>x. None)) sim_mat [Some 1, Some (- 2)] 1 2 = Some (Some 1)"
proof -
  have cpu: "cwisemax_cpu sim_mat [Some 1, Some (- 2)] [Some (- 3), Some 4] [None, None] 1 2 = [Some 1, Some 4]"
    "maxcoeff_cpu sim_mat [Some 1, Some (- 2)] 1 2 = Some 1" by code_simp+
  have ord: "comparable sim_mat x y"
    if "x \<in> {f_zero sim_mat, MATLIB_FLOAT_MIN sim_mat} \<union> set [Some 1, Some (- 2)] \<union> set [Some (- 3), Some 4]"
      "y \<in> {f_zero sim_mat, MATLIB_FLOAT_MIN sim_mat} \<union> set [Some 1, Some (- 2)] \<union> set [Some (- 3), Some 4]"
    for x y using that by (auto simp: comparable_def sim_mat_simps)
  show ?thesis
    using vector_comparisons_agree[OF sim_unit.rvv_order_axioms[of "\<lambda>x. None"], where n = 1 and m = 2
        and a = "[Some 1, Some (- 2)]" and b = "[Some (- 3), Some 4]" and c = "[None, None]", OF _ _ _ ord]
    by (simp add: cpu del: One_nat_def)
qed

text \<open>
  Where addition is exact, and on a unit that keeps the lanes behind the vector length, the vector
  dot products are those of the scalar kernels: product of two matrices, of a matrix and a vector, and
  of a transposed matrix and a vector.
\<close>
theorem vector_products_exact:
  assumes "rvv_exact V F"
  shows "(n * k \<le> length a \<and> m * k \<le> length b \<and> n * m \<le> length c \<longrightarrow>
      matmul_rvv V F a b c n m k = Some (matmul_cpu F a b c n m k)) \<and>
    (n * m \<le> length a \<and> m \<le> length b \<and> n \<le> length c \<longrightarrow> matvec_rvv V F a b c n m = Some (matvec_cpu F a b c n m)) \<and>
    (n * m \<le> length a \<and> n \<le> length b \<and> m \<le> length c \<longrightarrow>
      matvec_transpose_rvv V F a b c n m = Some (matvec_transpose_cpu F a b c n m))"
  using rvv_exact.matmul_rvv_exact[OF assms] rvv_exact.matvec_rvv_exact[OF assms]
    rvv_exact.matvec_transpose_rvv_exact[OF assms] by blast

theorem vector_products_exact_witness:
  "matvec_rvv (sim_rvv (\<lambda>x. x)) sim_mat (map Some [1000000, 2000000, 3000000, 4000000, 5000000, 6000000])
     (map Some [1, 10, 100]) [None, None] 2 3 = Some [Some 321, Some 654]"
proof -
  have cpu: "matvec_cpu sim_mat (map Some [1000000, 2000000, 3000000, 4000000, 5000000, 6000000])
     (map Some [1, 10, 100]) [None, None] 2 3 = [Some 321, Some 654]" by code_simp
  show ?thesis
    using vector_products_exact[OF sim_unit_exact.rvv_exact_axioms, of 2 0 _ 3] cpu by simp
qed

text \<open>
  The dot products read lanes their additions do not cover. On a vector unit that overwrites the
  lanes behind the vector length, as its specification allows, the product of a 1 x 2 matrix with a
  vector is what the unit left in those lanes, although the scalar kernel computes 3.
\<close>
theorem products_read_tail_lanes:
  "matvec_rvv (sim_rvv (\<lambda>x. None)) sim_mat [Some 1000000, Some 2000000] [Some 1, Some 1] [Some 0] 1 2 = Some [None] \<and>
   matvec_cpu sim_mat [Some 1000000, Some 2000000] [Some 1, Some 1] [Some 0] 1 2 = [Some 3]"
  by code_simp

text \<open>
  The addition of \<open>matlib_rva.h\<close> subtracts: on every vector unit the kernel writes the
  differences of the elements.
\<close>
theorem matadd_rva_subtracts:
  assumes "rvv_laws V" "n * m \<le> length a" "n * m \<le> length b" "n * m \<le> length c"
  shows "matadd_rva V F a b c n m = Some (map2 (f_sub F) (take (n * m) a) (take (n * m) b) @ drop (n * m) c)"
  using assms by (simp add: matadd_rva_def rvv_laws.lanewise_kernels_eq cwise_cpu_eq)

theorem matadd_rva_subtracts_witness:
  "matadd_rva (sim_rvv (\<lambda>x. None)) sim_mat [Some 5] [Some 3] [None] 1 1 = Some [Some 2]"
  using matadd_rva_subtracts[OF sim_unit.rvv_laws_axioms, of 1 1 "[Some 5]" "[Some 3]" "[None]" "\<lambda>x. None" sim_mat]
  by (simp add: sim_mat_simps)

text \<open>
  The largest coefficient is never below \<open>MATLIB_FLOAT_MIN\<close>, the smallest positive normal number:
  of a matrix of negative numbers \<open>maxcoeff\<close> returns that constant, which is no coefficient of it.
\<close>
theorem maxcoeff_of_negatives:
  assumes "n * m \<le> length a" "\<And>x. x \<in> set a \<Longrightarrow> \<not> f_less F (MATLIB_FLOAT_MIN F) x"
  shows "maxcoeff_cpu F a n m = MATLIB_FLOAT_MIN F"
proof -
  have "fold (\<lambda>k mx. if f_less F mx (a ! k) then a ! k else mx) ks (MATLIB_FLOAT_MIN F) = MATLIB_FLOAT_MIN F"
    if "set ks \<subseteq> {0..<n * m}" for ks
    using that
  proof (induction ks)
    case (Cons k ks)
    then have "a ! k \<in> set a" using assms(1) by auto
    then show ?case using Cons assms(2) by simp
  qed simp
  from this[of "[0..<n * m]"] show ?thesis
    using loop2_flat[of n m "\<lambda>k mx. if f_less F mx (a ! k) then a ! k else mx"]
    by (simp add: maxcoeff_cpu_def)
qed

theorem maxcoeff_of_negatives_witness:
  "maxcoeff_cpu sim_mat [Some (- 3), Some (- 2)] 1 2 = Some 1"
proof -
  have "\<not> f_less sim_mat (MATLIB_FLOAT_MIN sim_mat) x" if "x \<in> set [Some (- 3), Some (- 2)]" for x
    using that by (auto simp: sim_mat_simps)
  moreover have "MATLIB_FLOAT_MIN sim_mat = Some 1" by (simp add: sim_mat_def)
  ultimately show ?thesis
    using maxcoeff_of_negatives[of 1 2 "[Some (- 3), Some (- 2)]" sim_mat] by simp
qed

end
