(* ===== verification/Tinympc_Types.thy ===== *)
theory Tinympc_Types
  imports Matlib_Rvv
begin

text \<open>
  The data of the TinyMPC solver,
  \<open>samples/tinympc_fp16_bench/tinympc/external/admm/include/types_rvv.hpp\<close>: the matrix structs with
  their tables of column or row pointers, and the solver's cache, settings and workspace.
\<close>

definition NSTATES :: nat where "NSTATES = 12"
definition NINPUTS :: nat where "NINPUTS = 4"
definition NHORIZON :: nat where "NHORIZON = 10"

lemmas tiny_dims = NSTATES_def NINPUTS_def NHORIZON_def

section \<open>Matrices and their pointer tables\<close>

text \<open>A pointer into \<open>data\<close> is its offset. The field \<open>array\<close> always equals \<open>vector\<close>.\<close>

record 'f tiny_matrix =
  mdata :: "'f list"
  mvector :: "nat list"
  mrows :: nat
  mcols :: nat
  mouter :: nat
  minner :: nat

definition init_col_major_layout :: "nat list \<Rightarrow> nat \<Rightarrow> nat \<Rightarrow> nat list" where
  "init_col_major_layout vec outer inner = fold (\<lambda>i v. v[i := i * inner]) [0..<outer] vec"

definition init_row_major_layout :: "nat list \<Rightarrow> nat \<Rightarrow> nat \<Rightarrow> nat list" where
  "init_row_major_layout vec outer inner = fold (\<lambda>i v. v[i := i * inner]) [0..<outer] vec"

definition init_VectorNx :: "'f tiny_matrix \<Rightarrow> 'f tiny_matrix" where
  "init_VectorNx M = M\<lparr>mrows := NSTATES, mcols := 1, mouter := 1, minner := NSTATES,
     mvector := init_col_major_layout (mvector M) 1 NSTATES\<rparr>"

definition init_VectorNu :: "'f tiny_matrix \<Rightarrow> 'f tiny_matrix" where
  "init_VectorNu M = M\<lparr>mrows := NINPUTS, mcols := 1, mouter := 1, minner := NINPUTS,
     mvector := init_col_major_layout (mvector M) 1 NINPUTS\<rparr>"

definition init_MatrixNxNx :: "'f tiny_matrix \<Rightarrow> 'f tiny_matrix" where
  "init_MatrixNxNx M = M\<lparr>mrows := NSTATES, mcols := NSTATES, mouter := NSTATES, minner := NSTATES,
     mvector := init_row_major_layout (mvector M) NSTATES NSTATES\<rparr>"

definition init_MatrixNxNu :: "'f tiny_matrix \<Rightarrow> 'f tiny_matrix" where
  "init_MatrixNxNu M = M\<lparr>mrows := NSTATES, mcols := NINPUTS, mouter := NSTATES, minner := NINPUTS,
     mvector := init_row_major_layout (mvector M) NSTATES NINPUTS\<rparr>"

definition init_MatrixNuNx :: "'f tiny_matrix \<Rightarrow> 'f tiny_matrix" where
  "init_MatrixNuNx M = M\<lparr>mrows := NINPUTS, mcols := NSTATES, mouter := NINPUTS, minner := NSTATES,
     mvector := init_row_major_layout (mvector M) NINPUTS NSTATES\<rparr>"

definition init_MatrixNuNu :: "'f tiny_matrix \<Rightarrow> 'f tiny_matrix" where
  "init_MatrixNuNu M = M\<lparr>mrows := NINPUTS, mcols := NINPUTS, mouter := NINPUTS, minner := NINPUTS,
     mvector := init_row_major_layout (mvector M) NINPUTS NINPUTS\<rparr>"

definition init_MatrixNxNh :: "'f tiny_matrix \<Rightarrow> 'f tiny_matrix" where
  "init_MatrixNxNh M = M\<lparr>mrows := NSTATES, mcols := NHORIZON, mouter := NHORIZON, minner := NSTATES,
     mvector := init_col_major_layout (mvector M) NHORIZON NSTATES\<rparr>"

definition init_MatrixNuNhm1 :: "'f tiny_matrix \<Rightarrow> 'f tiny_matrix" where
  "init_MatrixNuNhm1 M = M\<lparr>mrows := NINPUTS, mcols := NHORIZON - 1, mouter := NHORIZON - 1, minner := NINPUTS,
     mvector := init_col_major_layout (mvector M) (NHORIZON - 1) NINPUTS\<rparr>"

lemma layout_table:
  "length vec = outer \<Longrightarrow> init_col_major_layout vec outer inner = map (\<lambda>i. i * inner) [0..<outer]"
  "length vec = outer \<Longrightarrow> init_row_major_layout vec outer inner = map (\<lambda>i. i * inner) [0..<outer]"
  by (simp_all add: init_col_major_layout_def init_row_major_layout_def fold_update)

text \<open>The pointers of a table cut the array into consecutive pieces, from its start to its end.\<close>

definition layout_ok :: "'f tiny_matrix \<Rightarrow> bool" where
  "layout_ok M \<longleftrightarrow> mvector M = map (\<lambda>i. i * minner M) [0..<mouter M] \<and>
     length (mdata M) = mouter M * minner M"

lemmas tiny_init_defs = init_VectorNx_def init_VectorNu_def init_MatrixNxNx_def init_MatrixNxNu_def
  init_MatrixNuNx_def init_MatrixNuNu_def init_MatrixNxNh_def init_MatrixNuNhm1_def

text \<open>The template class, with its options read as the storage order, and its constructor.\<close>

definition Matrix_layout :: "bool \<Rightarrow> nat \<Rightarrow> nat \<Rightarrow> 'f tiny_matrix \<Rightarrow> 'f tiny_matrix" where
  "Matrix_layout row_major rs cs M =
     (let outer = (if row_major then rs else cs); inner = (if row_major then cs else rs) in
      M\<lparr>mrows := rs, mcols := cs, mouter := outer, minner := inner,
        mvector := fold (\<lambda>i v. v[i := i * inner]) [0..<outer] (mvector M)\<rparr>)"

definition Matrix_new :: "('f, 'z) mat_float_scheme \<Rightarrow> bool \<Rightarrow> nat \<Rightarrow> nat \<Rightarrow> 'f tiny_matrix \<Rightarrow> 'f tiny_matrix" where
  "Matrix_new F row_major rs cs M =
     (let M = Matrix_layout row_major rs cs M in
      M\<lparr>mdata := fold (\<lambda>i d. d[i := f_zero F]) [0..<mouter M * minner M] (mdata M)\<rparr>)"

lemma Matrix_new_ok:
  assumes "length (mdata M) = rs * cs" "length (mvector M) = (if row_major then rs else cs)"
  shows "layout_ok (Matrix_new F row_major rs cs M) \<and>
    mdata (Matrix_new F row_major rs cs M) = replicate (rs * cs) (f_zero F)"
  using assms
  by (auto simp: Matrix_new_def Matrix_layout_def Let_def layout_ok_def fold_update mult.commute map_replicate_const)

lemma layout_pieces:
  assumes "layout_ok M" "i < mouter M"
  shows "mvector M ! i + minner M \<le> length (mdata M)"
    and "Suc i < mouter M \<Longrightarrow> mvector M ! Suc i = mvector M ! i + minner M"
    and "Suc i = mouter M \<Longrightarrow> mvector M ! i + minner M = length (mdata M)"
proof -
  have "Suc i * minner M \<le> mouter M * minner M" using assms(2) by (intro mult_le_mono1) simp
  then show "mvector M ! i + minner M \<le> length (mdata M)"
    and "Suc i < mouter M \<Longrightarrow> mvector M ! Suc i = mvector M ! i + minner M"
    using assms by (auto simp: layout_ok_def add.commute)
  show "mvector M ! i + minner M = length (mdata M)" if "Suc i = mouter M"
    using assms unfolding layout_ok_def that[symmetric] by (auto simp: nth_append add.commute)
qed

lemma init_layouts:
  "length (mdata M) = NSTATES \<Longrightarrow> length (mvector M) = 1 \<Longrightarrow> layout_ok (init_VectorNx M)"
  "length (mdata M) = NINPUTS \<Longrightarrow> length (mvector M) = 1 \<Longrightarrow> layout_ok (init_VectorNu M)"
  "length (mdata M) = NSTATES * NSTATES \<Longrightarrow> length (mvector M) = NSTATES \<Longrightarrow> layout_ok (init_MatrixNxNx M)"
  "length (mdata M) = NSTATES * NINPUTS \<Longrightarrow> length (mvector M) = NSTATES \<Longrightarrow> layout_ok (init_MatrixNxNu M)"
  "length (mdata M) = NINPUTS * NSTATES \<Longrightarrow> length (mvector M) = NINPUTS \<Longrightarrow> layout_ok (init_MatrixNuNx M)"
  "length (mdata M) = NINPUTS * NINPUTS \<Longrightarrow> length (mvector M) = NINPUTS \<Longrightarrow> layout_ok (init_MatrixNuNu M)"
  "length (mdata M) = NSTATES * NHORIZON \<Longrightarrow> length (mvector M) = NHORIZON \<Longrightarrow> layout_ok (init_MatrixNxNh M)"
  "length (mdata M) = NINPUTS * (NHORIZON - 1) \<Longrightarrow> length (mvector M) = NHORIZON - 1 \<Longrightarrow>
     layout_ok (init_MatrixNuNhm1 M)"
  by (simp_all add: layout_ok_def tiny_init_defs layout_table mult.commute)

text \<open>
  The column pointers of the trajectory matrices stay inside their arrays. After its
  initialisation every pointer of a state or input trajectory has a whole column behind it, and the
  column of a step ends where the column of the next step begins.
\<close>
theorem trajectory_columns_in_bounds:
  assumes "length (mdata X) = NSTATES * NHORIZON" "length (mvector X) = NHORIZON"
    and "length (mdata U) = NINPUTS * (NHORIZON - 1)" "length (mvector U) = NHORIZON - 1"
  shows "(\<forall>i<NHORIZON. mvector (init_MatrixNxNh X) ! i + NSTATES \<le> length (mdata (init_MatrixNxNh X))) \<and>
    (\<forall>i<NHORIZON - 1. mvector (init_MatrixNxNh X) ! Suc i = mvector (init_MatrixNxNh X) ! i + NSTATES) \<and>
    (\<forall>i<NHORIZON - 1. mvector (init_MatrixNuNhm1 U) ! i + NINPUTS \<le> length (mdata (init_MatrixNuNhm1 U)))"
proof -
  let ?X = "init_MatrixNxNh X" and ?U = "init_MatrixNuNhm1 U"
  have "layout_ok ?X" "layout_ok ?U" using assms by (simp_all add: init_layouts)
  moreover have "mouter ?X = NHORIZON" "minner ?X = NSTATES" "mouter ?U = NHORIZON - 1" "minner ?U = NINPUTS"
    by (simp_all add: tiny_init_defs)
  ultimately show ?thesis using layout_pieces[of ?X] layout_pieces[of ?U] by simp
qed

theorem trajectory_columns_in_bounds_witness:
  "mvector (init_MatrixNxNh \<lparr>mdata = replicate 120 (0::int), mvector = replicate 10 0, mrows = 0, mcols = 0,
     mouter = 0, minner = 0\<rparr>) ! 9 + 12 \<le> 120"
  using trajectory_columns_in_bounds[of "\<lparr>mdata = replicate 120 (0::int), mvector = replicate 10 0, mrows = 0,
      mcols = 0, mouter = 0, minner = 0\<rparr>" "\<lparr>mdata = replicate 36 (0::int), mvector = replicate 9 0, mrows = 0,
      mcols = 0, mouter = 0, minner = 0\<rparr>"]
  by (simp add: tiny_dims) (simp add: init_MatrixNxNh_def)

section \<open>Cache, settings and workspace\<close>

text \<open>
  The fields of the solver's structs are given as their \<open>data\<close>: after the initialisation the
  tables are as above, so that \<open>vector[i]\<close> is the data from \<open>i\<close> times the inner dimension on.
  The scalar copies of the data pointers, the bit pattern of \<open>rho\<close> (used with half precision
  only) and the fields \<open>Qf\<close>, \<open>Uref\<close> and \<open>Qu\<close>, which the solver never uses, are left out.
\<close>

record 'f tiny_cache =
  c_rho :: 'f
  c_Kinf :: "'f list"
  c_KinfT :: "'f list"
  c_Pinf :: "'f list"
  c_PinfT :: "'f list"
  c_Quu_inv :: "'f list"
  c_AmBKt :: "'f list"
  c_AmBKtT :: "'f list"
  c_coeff_d2p :: "'f list"

record 'f tiny_settings =
  abs_pri_tol :: 'f
  abs_dua_tol :: 'f
  max_iter :: nat
  check_termination :: nat
  en_state_bound :: bool
  en_input_bound :: bool

record 'f tiny_work =
  w_x :: "'f list"
  w_u :: "'f list"
  w_q :: "'f list"
  w_r :: "'f list"
  w_p :: "'f list"
  w_d :: "'f list"
  w_v :: "'f list"
  w_vnew :: "'f list"
  w_z :: "'f list"
  w_znew :: "'f list"
  w_g :: "'f list"
  w_y :: "'f list"
  w_primal_residual_state :: 'f
  w_primal_residual_input :: 'f
  w_dual_residual_state :: 'f
  w_dual_residual_input :: 'f
  w_status :: int
  w_iter :: nat
  w_Q :: "'f list"
  w_R :: "'f list"
  w_Adyn :: "'f list"
  w_AdynT :: "'f list"
  w_Bdyn :: "'f list"
  w_BdynT :: "'f list"
  w_u_min :: "'f list"
  w_u_max :: "'f list"
  w_x_min :: "'f list"
  w_x_max :: "'f list"
  w_Xref :: "'f list"
  w_u1 :: "'f list"
  w_u2 :: "'f list"
  w_x1 :: "'f list"
  w_x2 :: "'f list"
  w_x3 :: "'f list"
  w_m1 :: "'f list"
  w_m2 :: "'f list"
  w_s1 :: "'f list"
  w_s2 :: "'f list"

end
