(* ===== verification/Tinympc.thy ===== *)
theory Tinympc
  imports Tinympc_Types "HOL-Library.Monad_Syntax"
begin

text \<open>
  The ADMM solver of TinyMPC, \<open>samples/tinympc_fp16_bench/tinympc/external/admm\<close>
  (\<open>include/admm_rvv.hpp\<close>, \<open>src/admm_rvv.cpp\<close>), in the configuration of the controllers:
  \<open>USE_MATVEC\<close>, single precision, no checksum trace. The kernels it calls are a record, so that
  the solver is one model over the scalar and over the vector library. A kernel may not return:
  the solver is in the option monad.
\<close>

record 'f matlib =
  k_maxcoeff :: "'f list \<Rightarrow> nat \<Rightarrow> nat \<Rightarrow> 'f option"
  k_matneg :: "'f list \<Rightarrow> 'f list \<Rightarrow> nat \<Rightarrow> nat \<Rightarrow> 'f list option"
  k_cwiseabs :: "'f list \<Rightarrow> 'f list \<Rightarrow> nat \<Rightarrow> nat \<Rightarrow> 'f list option"
  k_cwisemin :: "'f list \<Rightarrow> 'f list \<Rightarrow> 'f list \<Rightarrow> nat \<Rightarrow> nat \<Rightarrow> 'f list option"
  k_cwisemax :: "'f list \<Rightarrow> 'f list \<Rightarrow> 'f list \<Rightarrow> nat \<Rightarrow> nat \<Rightarrow> 'f list option"
  k_cwisemul :: "'f list \<Rightarrow> 'f list \<Rightarrow> 'f list \<Rightarrow> nat \<Rightarrow> nat \<Rightarrow> 'f list option"
  k_matvec :: "'f list \<Rightarrow> 'f list \<Rightarrow> 'f list \<Rightarrow> nat \<Rightarrow> nat \<Rightarrow> 'f list option"
  k_matmulf :: "'f list \<Rightarrow> 'f list \<Rightarrow> 'f \<Rightarrow> nat \<Rightarrow> nat \<Rightarrow> 'f list option"
  k_matsub :: "'f list \<Rightarrow> 'f list \<Rightarrow> 'f list \<Rightarrow> nat \<Rightarrow> nat \<Rightarrow> 'f list option"
  k_matadd :: "'f list \<Rightarrow> 'f list \<Rightarrow> 'f list \<Rightarrow> nat \<Rightarrow> nat \<Rightarrow> 'f list option"
  k_transpose :: "'f list \<Rightarrow> 'f list \<Rightarrow> nat \<Rightarrow> nat \<Rightarrow> 'f list option"
  k_matset :: "'f list \<Rightarrow> 'f \<Rightarrow> nat \<Rightarrow> nat \<Rightarrow> 'f list option"
  k_matsetv :: "'f list \<Rightarrow> 'f list \<Rightarrow> nat \<Rightarrow> nat \<Rightarrow> 'f list option"

definition cpu_kernels :: "('f, 'z) mat_float_scheme \<Rightarrow> 'f matlib" where
  "cpu_kernels F = \<lparr>
     k_maxcoeff = (\<lambda>a n m. Some (maxcoeff_cpu F a n m)),
     k_matneg = (\<lambda>a b n m. Some (matneg_cpu F a b n m)),
     k_cwiseabs = (\<lambda>a b n m. Some (cwiseabs_cpu F a b n m)),
     k_cwisemin = (\<lambda>a b c n m. Some (cwisemin_cpu F a b c n m)),
     k_cwisemax = (\<lambda>a b c n m. Some (cwisemax_cpu F a b c n m)),
     k_cwisemul = (\<lambda>a b c n m. Some (cwisemul_cpu F a b c n m)),
     k_matvec = (\<lambda>a b c n m. Some (matvec_cpu F a b c n m)),
     k_matmulf = (\<lambda>a b f n m. Some (matmulf_cpu F a b f n m)),
     k_matsub = (\<lambda>a b c n m. Some (matsub_cpu F a b c n m)),
     k_matadd = (\<lambda>a b c n m. Some (matadd_cpu F a b c n m)),
     k_transpose = (\<lambda>a b n m. Some (transpose_cpu a b n m)),
     k_matset = (\<lambda>a f n m. Some (matset_cpu a f n m)),
     k_matsetv = (\<lambda>a f n m. Some (matsetv_cpu a f n m))\<rparr>"

definition rvv_kernels :: "'f rvv_api \<Rightarrow> ('f, 'z) mat_float_scheme \<Rightarrow> 'f matlib" where
  "rvv_kernels V F = \<lparr>
     k_maxcoeff = maxcoeff_rvv V F, k_matneg = matneg_rvv V F, k_cwiseabs = cwiseabs_rvv V,
     k_cwisemin = cwisemin_rvv V, k_cwisemax = cwisemax_rvv V, k_cwisemul = cwisemul_rvv V F,
     k_matvec = matvec_rvv V F, k_matmulf = matmulf_rvv V F, k_matsub = matsub_rvv V F,
     k_matadd = matadd_rvv V F, k_transpose = transpose_rvv V, k_matset = matset_rvv V,
     k_matsetv = matsetv_rvv V\<rparr>"

text \<open>The pointer to a column, and a kernel that writes from there.\<close>

definition vec :: "nat \<Rightarrow> nat \<Rightarrow> 'f list \<Rightarrow> 'f list" where
  "vec inner i M = drop (i * inner) M"

definition into_vec :: "nat \<Rightarrow> nat \<Rightarrow> ('f list \<Rightarrow> 'f list option) \<Rightarrow> 'f list \<Rightarrow> 'f list option" where
  "into_vec inner i k M = map_option (\<lambda>r. take (i * inner) M @ r) (k (vec inner i M))"

section \<open>Passes over the horizon\<close>

definition forward_pass_1 :: "'f matlib \<Rightarrow> 'f tiny_cache \<Rightarrow> nat \<Rightarrow> 'f tiny_work \<Rightarrow> 'f tiny_work option" where
  "forward_pass_1 K C i W = do {
     u1 \<leftarrow> k_matvec K (c_Kinf C) (vec NSTATES i (w_x W)) (w_u1 W) NINPUTS NSTATES;
     u2 \<leftarrow> k_matadd K u1 (vec NINPUTS i (w_d W)) (w_u2 W) 1 NINPUTS;
     u \<leftarrow> into_vec NINPUTS i (\<lambda>p. k_matneg K u2 p 1 NINPUTS) (w_u W);
     Some (W\<lparr>w_u1 := u1, w_u2 := u2, w_u := u\<rparr>) }"

definition forward_pass_2 :: "'f matlib \<Rightarrow> nat \<Rightarrow> 'f tiny_work \<Rightarrow> 'f tiny_work option" where
  "forward_pass_2 K i W = do {
     x1 \<leftarrow> k_matvec K (w_Adyn W) (vec NSTATES i (w_x W)) (w_x1 W) NSTATES NSTATES;
     x2 \<leftarrow> k_matvec K (w_Bdyn W) (vec NINPUTS i (w_u W)) (w_x2 W) NSTATES NINPUTS;
     x \<leftarrow> into_vec NSTATES (i + 1) (\<lambda>p. k_matadd K x1 x2 p 1 NSTATES) (w_x W);
     Some (W\<lparr>w_x1 := x1, w_x2 := x2, w_x := x\<rparr>) }"

definition backward_pass_1 :: "'f matlib \<Rightarrow> 'f tiny_cache \<Rightarrow> nat \<Rightarrow> 'f tiny_work \<Rightarrow> 'f tiny_work option" where
  "backward_pass_1 K C i W = do {
     u1 \<leftarrow> k_matvec K (w_BdynT W) (vec NSTATES (i + 1) (w_p W)) (w_u1 W) NINPUTS NSTATES;
     u2 \<leftarrow> k_matadd K (vec NINPUTS i (w_r W)) u1 (w_u2 W) 1 NINPUTS;
     d \<leftarrow> into_vec NINPUTS i (\<lambda>p. k_matvec K (c_Quu_inv C) u2 p NINPUTS NINPUTS) (w_d W);
     Some (W\<lparr>w_u1 := u1, w_u2 := u2, w_d := d\<rparr>) }"

definition backward_pass_2 :: "'f matlib \<Rightarrow> 'f tiny_cache \<Rightarrow> nat \<Rightarrow> 'f tiny_work \<Rightarrow> 'f tiny_work option" where
  "backward_pass_2 K C i W = do {
     x1 \<leftarrow> k_matvec K (c_AmBKt C) (vec NSTATES (i + 1) (w_p W)) (w_x1 W) NSTATES NSTATES;
     x2 \<leftarrow> k_matvec K (c_KinfT C) (vec NINPUTS i (w_r W)) (w_x2 W) NSTATES NINPUTS;
     x3 \<leftarrow> k_matsub K x1 x2 (w_x3 W) 1 NSTATES;
     p \<leftarrow> into_vec NSTATES i (\<lambda>p. k_matadd K x3 (vec NSTATES i (w_q W)) p 1 NSTATES) (w_p W);
     Some (W\<lparr>w_x1 := x1, w_x2 := x2, w_x3 := x3, w_p := p\<rparr>) }"

fun forward_steps :: "'f matlib \<Rightarrow> 'f tiny_cache \<Rightarrow> nat list \<Rightarrow> 'f tiny_work \<Rightarrow> 'f tiny_work option" where
  "forward_steps K C [] W = Some W"
| "forward_steps K C (i # is) W = do {
     W \<leftarrow> forward_pass_1 K C i W;
     W \<leftarrow> forward_pass_2 K i W;
     forward_steps K C is W }"

definition forward_pass :: "'f matlib \<Rightarrow> 'f tiny_cache \<Rightarrow> 'f tiny_work \<Rightarrow> 'f tiny_work option" where
  "forward_pass K C W = forward_steps K C [0..<NHORIZON - 1] W"

fun backward_steps :: "'f matlib \<Rightarrow> 'f tiny_cache \<Rightarrow> nat list \<Rightarrow> 'f tiny_work \<Rightarrow> 'f tiny_work option" where
  "backward_steps K C [] W = Some W"
| "backward_steps K C (i # is) W = do {
     W \<leftarrow> backward_pass_1 K C i W;
     W \<leftarrow> backward_pass_2 K C i W;
     backward_steps K C is W }"

definition backward_pass :: "'f matlib \<Rightarrow> 'f tiny_cache \<Rightarrow> 'f tiny_work \<Rightarrow> 'f tiny_work option" where
  "backward_pass K C W = backward_steps K C (rev [0..<NHORIZON - 1]) W"

definition update_primal :: "'f matlib \<Rightarrow> 'f tiny_cache \<Rightarrow> 'f tiny_work \<Rightarrow> 'f tiny_work option" where
  "update_primal K C W = do { W \<leftarrow> backward_pass K C W; forward_pass K C W }"

section \<open>Slack, duals and costs\<close>

definition update_slack_1 :: "'f matlib \<Rightarrow> 'f tiny_settings \<Rightarrow> 'f tiny_work \<Rightarrow> 'f tiny_work option" where
  "update_slack_1 K S W = do {
     znew \<leftarrow> k_matadd K (w_u W) (w_y W) (w_znew W) (NHORIZON - 1) NINPUTS;
     if en_input_bound S then do {
       m1 \<leftarrow> k_cwisemax K (w_u_min W) znew (w_m1 W) (NHORIZON - 1) NINPUTS;
       znew \<leftarrow> k_cwisemin K (w_u_max W) m1 znew (NHORIZON - 1) NINPUTS;
       Some (W\<lparr>w_m1 := m1, w_znew := znew\<rparr>) }
     else Some (W\<lparr>w_znew := znew\<rparr>) }"

definition update_slack_2 :: "'f matlib \<Rightarrow> 'f tiny_settings \<Rightarrow> 'f tiny_work \<Rightarrow> 'f tiny_work option" where
  "update_slack_2 K S W = do {
     vnew \<leftarrow> k_matadd K (w_x W) (w_g W) (w_vnew W) NHORIZON NSTATES;
     if en_state_bound S then do {
       s1 \<leftarrow> k_cwisemax K (w_x_min W) vnew (w_s1 W) NHORIZON NSTATES;
       vnew \<leftarrow> k_cwisemin K (w_x_max W) s1 vnew NHORIZON NSTATES;
       Some (W\<lparr>w_s1 := s1, w_vnew := vnew\<rparr>) }
     else Some (W\<lparr>w_vnew := vnew\<rparr>) }"

definition update_slack :: "'f matlib \<Rightarrow> 'f tiny_settings \<Rightarrow> 'f tiny_work \<Rightarrow> 'f tiny_work option" where
  "update_slack K S W = do { W \<leftarrow> update_slack_1 K S W; update_slack_2 K S W }"

definition update_dual_1 :: "'f matlib \<Rightarrow> 'f tiny_work \<Rightarrow> 'f tiny_work option" where
  "update_dual_1 K W = do {
     m1 \<leftarrow> k_matadd K (w_y W) (w_u W) (w_m1 W) (NHORIZON - 1) NINPUTS;
     y \<leftarrow> k_matsub K m1 (w_znew W) (w_y W) (NHORIZON - 1) NINPUTS;
     s1 \<leftarrow> k_matadd K (w_g W) (w_x W) (w_s1 W) NHORIZON NSTATES;
     g \<leftarrow> k_matsub K s1 (w_vnew W) (w_g W) NHORIZON NSTATES;
     Some (W\<lparr>w_m1 := m1, w_y := y, w_s1 := s1, w_g := g\<rparr>) }"

definition update_dual :: "'f matlib \<Rightarrow> 'f tiny_work \<Rightarrow> 'f tiny_work option" where
  "update_dual K W = update_dual_1 K W"

definition update_linear_cost_1 ::
    "'f matlib \<Rightarrow> ('f, 'z) mat_float_scheme \<Rightarrow> 'f tiny_cache \<Rightarrow> 'f tiny_work \<Rightarrow> 'f tiny_work option" where
  "update_linear_cost_1 K F C W = do {
     m1 \<leftarrow> k_matsub K (w_znew W) (w_y W) (w_m1 W) (NHORIZON - 1) NINPUTS;
     r \<leftarrow> k_matmulf K m1 (w_r W) (f_neg F (c_rho C)) (NHORIZON - 1) NINPUTS;
     Some (W\<lparr>w_m1 := m1, w_r := r\<rparr>) }"

definition update_linear_cost_2 :: "'f matlib \<Rightarrow> nat \<Rightarrow> 'f tiny_work \<Rightarrow> 'f tiny_work option" where
  "update_linear_cost_2 K i W = do {
     x1 \<leftarrow> k_cwisemul K (vec NSTATES i (w_Xref W)) (w_Q W) (w_x1 W) 1 NSTATES;
     q \<leftarrow> into_vec NSTATES i (\<lambda>p. k_matneg K x1 p 1 NSTATES) (w_q W);
     Some (W\<lparr>w_x1 := x1, w_q := q\<rparr>) }"

fun linear_cost_steps :: "'f matlib \<Rightarrow> nat list \<Rightarrow> 'f tiny_work \<Rightarrow> 'f tiny_work option" where
  "linear_cost_steps K [] W = Some W"
| "linear_cost_steps K (i # is) W = do { W \<leftarrow> update_linear_cost_2 K i W; linear_cost_steps K is W }"

definition update_linear_cost_3 :: "'f matlib \<Rightarrow> 'f tiny_cache \<Rightarrow> 'f tiny_work \<Rightarrow> 'f tiny_work option" where
  "update_linear_cost_3 K C W = do {
     s1 \<leftarrow> k_matsub K (w_vnew W) (w_g W) (w_s1 W) NHORIZON NSTATES;
     s2 \<leftarrow> k_matmulf K s1 (w_s2 W) (c_rho C) NHORIZON NSTATES;
     s1 \<leftarrow> k_matsub K (w_q W) s2 s1 NHORIZON NSTATES;
     q \<leftarrow> k_matsetv K (w_q W) s1 NHORIZON NSTATES;
     Some (W\<lparr>w_s1 := s1, w_s2 := s2, w_q := q\<rparr>) }"

definition update_linear_cost_4 :: "'f matlib \<Rightarrow> 'f tiny_cache \<Rightarrow> 'f tiny_work \<Rightarrow> 'f tiny_work option" where
  "update_linear_cost_4 K C W = do {
     x1 \<leftarrow> k_matsub K (vec NSTATES (NHORIZON - 1) (w_vnew W)) (vec NSTATES (NHORIZON - 1) (w_g W)) (w_x1 W) 1 NSTATES;
     x2 \<leftarrow> k_matmulf K x1 (w_x2 W) (c_rho C) 1 NSTATES;
     x1 \<leftarrow> k_matvec K (c_PinfT C) (vec NSTATES (NHORIZON - 1) (w_Xref W)) x1 NSTATES NSTATES;
     x3 \<leftarrow> k_matadd K x1 x2 (w_x3 W) 1 NSTATES;
     p \<leftarrow> into_vec NSTATES (NHORIZON - 1) (\<lambda>p. k_matneg K x3 p 1 NSTATES) (w_p W);
     Some (W\<lparr>w_x1 := x1, w_x2 := x2, w_x3 := x3, w_p := p\<rparr>) }"

definition update_linear_cost ::
    "'f matlib \<Rightarrow> ('f, 'z) mat_float_scheme \<Rightarrow> 'f tiny_cache \<Rightarrow> 'f tiny_work \<Rightarrow> 'f tiny_work option" where
  "update_linear_cost K F C W = do {
     W \<leftarrow> update_linear_cost_1 K F C W;
     W \<leftarrow> linear_cost_steps K [0..<NHORIZON] W;
     W \<leftarrow> update_linear_cost_3 K C W;
     update_linear_cost_4 K C W }"

section \<open>Residuals and the solver\<close>

definition primal_residual_state :: "'f matlib \<Rightarrow> 'f tiny_work \<Rightarrow> 'f tiny_work option" where
  "primal_residual_state K W = do {
     s1 \<leftarrow> k_matsub K (w_x W) (w_vnew W) (w_s1 W) NHORIZON NSTATES;
     s2 \<leftarrow> k_cwiseabs K s1 (w_s2 W) NHORIZON NSTATES;
     r \<leftarrow> k_maxcoeff K s2 NHORIZON NSTATES;
     Some (W\<lparr>w_s1 := s1, w_s2 := s2, w_primal_residual_state := r\<rparr>) }"

definition dual_residual_state ::
    "'f matlib \<Rightarrow> ('f, 'z) mat_float_scheme \<Rightarrow> 'f tiny_cache \<Rightarrow> 'f tiny_work \<Rightarrow> 'f tiny_work option" where
  "dual_residual_state K F C W = do {
     s1 \<leftarrow> k_matsub K (w_v W) (w_vnew W) (w_s1 W) NHORIZON NSTATES;
     s2 \<leftarrow> k_cwiseabs K s1 (w_s2 W) NHORIZON NSTATES;
     r \<leftarrow> k_maxcoeff K s2 NHORIZON NSTATES;
     Some (W\<lparr>w_s1 := s1, w_s2 := s2, w_dual_residual_state := f_mul F r (c_rho C)\<rparr>) }"

definition primal_residual_input :: "'f matlib \<Rightarrow> 'f tiny_work \<Rightarrow> 'f tiny_work option" where
  "primal_residual_input K W = do {
     m1 \<leftarrow> k_matsub K (w_u W) (w_znew W) (w_m1 W) (NHORIZON - 1) NINPUTS;
     m2 \<leftarrow> k_cwiseabs K m1 (w_m2 W) (NHORIZON - 1) NINPUTS;
     r \<leftarrow> k_maxcoeff K m2 (NHORIZON - 1) NINPUTS;
     Some (W\<lparr>w_m1 := m1, w_m2 := m2, w_primal_residual_input := r\<rparr>) }"

definition dual_residual_input ::
    "'f matlib \<Rightarrow> ('f, 'z) mat_float_scheme \<Rightarrow> 'f tiny_cache \<Rightarrow> 'f tiny_work \<Rightarrow> 'f tiny_work option" where
  "dual_residual_input K F C W = do {
     m1 \<leftarrow> k_matsub K (w_z W) (w_znew W) (w_m1 W) (NHORIZON - 1) NINPUTS;
     m2 \<leftarrow> k_cwiseabs K m1 (w_m2 W) (NHORIZON - 1) NINPUTS;
     r \<leftarrow> k_maxcoeff K m2 (NHORIZON - 1) NINPUTS;
     Some (W\<lparr>w_m1 := m1, w_m2 := m2, w_dual_residual_input := f_mul F r (c_rho C)\<rparr>) }"

definition residuals ::
    "'f matlib \<Rightarrow> ('f, 'z) mat_float_scheme \<Rightarrow> 'f tiny_cache \<Rightarrow> 'f tiny_work \<Rightarrow> 'f tiny_work option" where
  "residuals K F C W = do {
     W \<leftarrow> primal_residual_state K W;
     W \<leftarrow> dual_residual_state K F C W;
     W \<leftarrow> primal_residual_input K W;
     dual_residual_input K F C W }"

definition residuals_small :: "('f, 'z) mat_float_scheme \<Rightarrow> 'f tiny_settings \<Rightarrow> 'f tiny_work \<Rightarrow> bool" where
  "residuals_small F S W \<longleftrightarrow>
     f_less F (w_primal_residual_state W) (abs_pri_tol S) \<and>
     f_less F (w_primal_residual_input W) (abs_pri_tol S) \<and>
     f_less F (w_dual_residual_state W) (abs_dua_tol S) \<and>
     f_less F (w_dual_residual_input W) (abs_dua_tol S)"

text \<open>One pass of the main loop up to the test: the flag says whether the pass ends the solve.
  With \<open>check_termination\<close> 0 the division traps; the model has no value then.\<close>

definition admm_pass ::
    "'f matlib \<Rightarrow> ('f, 'z) mat_float_scheme \<Rightarrow> 'f tiny_cache \<Rightarrow> 'f tiny_settings \<Rightarrow> nat \<Rightarrow> 'f tiny_work \<Rightarrow>
      (bool \<times> 'f tiny_work) option" where
  "admm_pass K F C S i W = do {
     W \<leftarrow> update_primal K C (W\<lparr>w_iter := i + 1\<rparr>);
     W \<leftarrow> update_slack K S W;
     W \<leftarrow> update_dual K W;
     W \<leftarrow> update_linear_cost K F C W;
     if check_termination S = 0 then None
     else if w_iter W mod check_termination S = 0 then do {
       W \<leftarrow> residuals K F C W;
       if residuals_small F S W then Some (True, W\<lparr>w_status := 1\<rparr>) else Some (False, W) }
     else Some (False, W) }"

definition save_slack :: "'f matlib \<Rightarrow> 'f tiny_work \<Rightarrow> 'f tiny_work option" where
  "save_slack K W = do {
     v \<leftarrow> k_matsetv K (w_v W) (w_vnew W) NHORIZON NSTATES;
     z \<leftarrow> k_matsetv K (w_z W) (w_znew W) (NHORIZON - 1) NINPUTS;
     Some (W\<lparr>w_v := v, w_z := z\<rparr>) }"

fun admm_loop ::
    "'f matlib \<Rightarrow> ('f, 'z) mat_float_scheme \<Rightarrow> 'f tiny_cache \<Rightarrow> 'f tiny_settings \<Rightarrow> nat list \<Rightarrow> 'f tiny_work \<Rightarrow>
      (int \<times> 'f tiny_work) option" where
  "admm_loop K F C S [] W = Some (1, W)"
| "admm_loop K F C S (i # is) W = do {
     (solved, W) \<leftarrow> admm_pass K F C S i W;
     if solved then Some (0, W)
     else do { W \<leftarrow> save_slack K W; admm_loop K F C S is W } }"

definition tiny_solve ::
    "'f matlib \<Rightarrow> ('f, 'z) mat_float_scheme \<Rightarrow> 'f tiny_cache \<Rightarrow> 'f tiny_settings \<Rightarrow> 'f tiny_work \<Rightarrow>
      (int \<times> 'f tiny_work) option" where
  "tiny_solve K F C S W = do {
     W \<leftarrow> forward_pass K C (W\<lparr>w_status := 11, w_iter := 1\<rparr>);
     W \<leftarrow> update_slack K S W;
     W \<leftarrow> update_dual K W;
     W \<leftarrow> update_linear_cost K F C W;
     admm_loop K F C S [0..<max_iter S] W }"

end
