(* ===== verification/Tinympc_Steps.thy ===== *)
theory Tinympc_Steps
  imports Tinympc
begin

text \<open>
  What a kernel library promises the solver, that both libraries keep it, and what every step of
  the solver computes under the promise: the steps return, keep the sizes of all arrays, and change
  the named fields only.
\<close>

section \<open>The contract of the kernels\<close>

text \<open>The kernels in closed form, over the dot product, the lane comparisons and the reduction
  of a library.\<close>

definition abs_kernels ::
    "('f, 'z) mat_float_scheme \<Rightarrow> (nat \<Rightarrow> 'f list \<Rightarrow> 'f list \<Rightarrow> 'f) \<Rightarrow> ('f \<Rightarrow> 'f \<Rightarrow> 'f) \<Rightarrow> ('f \<Rightarrow> 'f \<Rightarrow> 'f) \<Rightarrow>
      ('f \<Rightarrow> 'f) \<Rightarrow> ('f list \<Rightarrow> 'f) \<Rightarrow> 'f matlib" where
  "abs_kernels F dotp vmin vmax vab maxc = \<lparr>
     k_maxcoeff = (\<lambda>a n m. Some (maxc (take (n * m) a))),
     k_matneg = (\<lambda>a b n m. Some (map (f_neg F) (take (n * m) a) @ drop (n * m) b)),
     k_cwiseabs = (\<lambda>a b n m. Some (map vab (take (n * m) a) @ drop (n * m) b)),
     k_cwisemin = (\<lambda>a b c n m. Some (map2 vmin (take (n * m) a) (take (n * m) b) @ drop (n * m) c)),
     k_cwisemax = (\<lambda>a b c n m. Some (map2 vmax (take (n * m) a) (take (n * m) b) @ drop (n * m) c)),
     k_cwisemul = (\<lambda>a b c n m. Some (map2 (f_mul F) (take (n * m) a) (take (n * m) b) @ drop (n * m) c)),
     k_matvec = (\<lambda>a b c n m. Some (map (\<lambda>i. dotp m (drop (i * m) a) b) [0..<n] @ drop n c)),
     k_matmulf = (\<lambda>a b f n m. Some (map (f_mul F f) (take (n * m) a) @ drop (n * m) b)),
     k_matsub = (\<lambda>a b c n m. Some (map2 (f_sub F) (take (n * m) a) (take (n * m) b) @ drop (n * m) c)),
     k_matadd = (\<lambda>a b c n m. Some (map2 (f_add F) (take (n * m) a) (take (n * m) b) @ drop (n * m) c)),
     k_transpose = (\<lambda>a b n m. Some (transposed a n m @ drop (n * m) b)),
     k_matset = (\<lambda>a f n m. Some (replicate (n * m) f @ drop (n * m) a)),
     k_matsetv = (\<lambda>a f n m. Some (take (n * m) f @ drop (n * m) a))\<rparr>"

text \<open>Two libraries agree when their kernels do on matrices that fit their arrays.\<close>

definition kernels_agree :: "'f matlib \<Rightarrow> 'f matlib \<Rightarrow> bool" where
  "kernels_agree K A \<longleftrightarrow>
     (\<forall>a n m. n * m \<le> length a \<longrightarrow> k_maxcoeff K a n m = k_maxcoeff A a n m \<and>
        (\<forall>f. k_matset K a f n m = k_matset A a f n m) \<and>
        (\<forall>b. n * m \<le> length b \<longrightarrow>
           k_matneg K a b n m = k_matneg A a b n m \<and> k_cwiseabs K a b n m = k_cwiseabs A a b n m \<and>
           (\<forall>f. k_matmulf K a b f n m = k_matmulf A a b f n m) \<and>
           k_transpose K a b n m = k_transpose A a b n m \<and> k_matsetv K a b n m = k_matsetv A a b n m \<and>
           (\<forall>c. n * m \<le> length c \<longrightarrow>
              k_cwisemin K a b c n m = k_cwisemin A a b c n m \<and>
              k_cwisemax K a b c n m = k_cwisemax A a b c n m \<and>
              k_cwisemul K a b c n m = k_cwisemul A a b c n m \<and>
              k_matsub K a b c n m = k_matsub A a b c n m \<and>
              k_matadd K a b c n m = k_matadd A a b c n m)) \<and>
        (\<forall>b c. m \<le> length b \<and> n \<le> length c \<longrightarrow> k_matvec K a b c n m = k_matvec A a b c n m))"

locale matlib_laws =
  fixes K :: "'f matlib" and F :: "('f, 'z) mat_float_scheme" and dotp vmin vmax vab maxc
  assumes agree: "kernels_agree K (abs_kernels F dotp vmin vmax vab maxc)"
begin

lemma kernel_eqs:
  shows "n * m \<le> length a \<Longrightarrow> k_maxcoeff K a n m = Some (maxc (take (n * m) a))"
    and "n * m \<le> length a \<Longrightarrow> k_matset K a f n m = Some (replicate (n * m) f @ drop (n * m) a)"
    and "n * m \<le> length a \<Longrightarrow> n * m \<le> length b \<Longrightarrow>
      k_matneg K a b n m = Some (map (f_neg F) (take (n * m) a) @ drop (n * m) b)"
    and "n * m \<le> length a \<Longrightarrow> n * m \<le> length b \<Longrightarrow>
      k_cwiseabs K a b n m = Some (map vab (take (n * m) a) @ drop (n * m) b)"
    and "n * m \<le> length a \<Longrightarrow> n * m \<le> length b \<Longrightarrow>
      k_matmulf K a b f n m = Some (map (f_mul F f) (take (n * m) a) @ drop (n * m) b)"
    and "n * m \<le> length a \<Longrightarrow> n * m \<le> length b \<Longrightarrow>
      k_transpose K a b n m = Some (transposed a n m @ drop (n * m) b)"
    and "n * m \<le> length a \<Longrightarrow> n * m \<le> length b \<Longrightarrow>
      k_matsetv K a b n m = Some (take (n * m) b @ drop (n * m) a)"
    and "n * m \<le> length a \<Longrightarrow> n * m \<le> length b \<Longrightarrow> n * m \<le> length c \<Longrightarrow>
      k_cwisemin K a b c n m = Some (map2 vmin (take (n * m) a) (take (n * m) b) @ drop (n * m) c)"
    and "n * m \<le> length a \<Longrightarrow> n * m \<le> length b \<Longrightarrow> n * m \<le> length c \<Longrightarrow>
      k_cwisemax K a b c n m = Some (map2 vmax (take (n * m) a) (take (n * m) b) @ drop (n * m) c)"
    and "n * m \<le> length a \<Longrightarrow> n * m \<le> length b \<Longrightarrow> n * m \<le> length c \<Longrightarrow>
      k_cwisemul K a b c n m = Some (map2 (f_mul F) (take (n * m) a) (take (n * m) b) @ drop (n * m) c)"
    and "n * m \<le> length a \<Longrightarrow> n * m \<le> length b \<Longrightarrow> n * m \<le> length c \<Longrightarrow>
      k_matsub K a b c n m = Some (map2 (f_sub F) (take (n * m) a) (take (n * m) b) @ drop (n * m) c)"
    and "n * m \<le> length a \<Longrightarrow> n * m \<le> length b \<Longrightarrow> n * m \<le> length c \<Longrightarrow>
      k_matadd K a b c n m = Some (map2 (f_add F) (take (n * m) a) (take (n * m) b) @ drop (n * m) c)"
    and "n * m \<le> length a \<Longrightarrow> m \<le> length b \<Longrightarrow> n \<le> length c \<Longrightarrow>
      k_matvec K a b c n m = Some (map (\<lambda>i. dotp m (drop (i * m) a) b) [0..<n] @ drop n c)"
  using agree by (simp_all add: kernels_agree_def abs_kernels_def)

end

section \<open>Both libraries keep it\<close>

definition cpu_maxc :: "('f, 'z) mat_float_scheme \<Rightarrow> 'f list \<Rightarrow> 'f" where
  "cpu_maxc F xs = fold (cpu_max F) xs (MATLIB_FLOAT_MIN F)"

lemma maxcoeff_cpu_fold:
  "n * m \<le> length a \<Longrightarrow> maxcoeff_cpu F a n m = cpu_maxc F (take (n * m) a)"
  using loop2_flat[of n m "\<lambda>k. cpu_max F (a ! k)" "MATLIB_FLOAT_MIN F"]
  by (simp add: maxcoeff_cpu_def cpu_maxc_def cpu_max_def[abs_def] fold_map comp_def
      map_nth_upt[symmetric, of "n * m" a "\<lambda>x. x", simplified])

definition cpu_abs_kernels :: "('f, 'z) mat_float_scheme \<Rightarrow> 'f matlib" where
  "cpu_abs_kernels F = abs_kernels F (dot_seq F) (cpu_min F) (cpu_max F) (cpu_abs F) (cpu_maxc F)"

lemma cpu_kernels_agree: "kernels_agree (cpu_kernels F) (cpu_abs_kernels F)"
  unfolding kernels_agree_def
  by (simp add: cpu_kernels_def cpu_abs_kernels_def abs_kernels_def maxcoeff_cpu_fold matset_cpu_eq
      matneg_cpu_eq cwiseabs_cpu_eq matmulf_cpu_eq transpose_cpu_eq matsetv_cpu_eq cwise_cpu_eq matvec_cpu_eq)


lemma dot_seq_take: "dot_seq F k (take k a) (take k b) = dot_seq F k a b"
  unfolding dot_seq_def by (rule List.fold_cong) auto

text \<open>The same for the vector library: its dot product and its reduction are functions of the
  elements in range, because the loops return and stay inside the arrays.\<close>

definition rvv_dot :: "'f rvv_api \<Rightarrow> ('f, 'z) mat_float_scheme \<Rightarrow> nat \<Rightarrow> 'f list \<Rightarrow> 'f list \<Rightarrow> 'f" where
  "rvv_dot V F k a b = the (dot_rvv V F k (\<lambda>l vl. mfl_vle (drop l a) vl) b)"

definition rvv_maxc :: "'f rvv_api \<Rightarrow> ('f, 'z) mat_float_scheme \<Rightarrow> 'f list \<Rightarrow> 'f" where
  "rvv_maxc V F xs = the (strip_mine (vsetvl V) (\<lambda>l vl mx. map_option (\<lambda>v. vfredmax V v mx) (mfl_vle (drop l xs) vl))
     (length xs) 0 (MATLIB_FLOAT_MIN F))"

definition rvv_abs_kernels :: "'f rvv_api \<Rightarrow> ('f, 'z) mat_float_scheme \<Rightarrow> 'f matlib" where
  "rvv_abs_kernels V F = abs_kernels F (rvv_dot V F) (vfmin V) (vfmax V) (vfabs V) (rvv_maxc V F)"

context rvv_laws
begin

lemma strip_mine_returns:
  assumes "\<And>l' vl s. 0 < vl \<Longrightarrow> l' + vl \<le> l + k \<Longrightarrow> body l' vl s \<noteq> None"
  shows "\<exists>s'. strip_mine (vsetvl V) body k l s = Some s'"
  using strip_mine_inv[of "\<lambda>_ _. True" l s "l + k" body k] assms by auto

lemma strip_mine_cong:
  "(\<And>l' vl s. 0 < vl \<Longrightarrow> l' + vl \<le> l + k \<Longrightarrow> body l' vl s = body' l' vl s) \<Longrightarrow>
   strip_mine (vsetvl V) body k l s = strip_mine (vsetvl V) body' k l s"
proof (induction k arbitrary: l s rule: less_induct)
  case (less k)
  show ?case
  proof (cases "k = 0")
    case False
    have "body l (vsetvl V k) s = body' l (vsetvl V k) s"
      using less.prems[of "vsetvl V k" l] vsetvl_pos[of k] vsetvl_le[of k] False by simp
    moreover have "strip_mine (vsetvl V) body (k - vsetvl V k) (l + vsetvl V k) t =
        strip_mine (vsetvl V) body' (k - vsetvl V k) (l + vsetvl V k) t" for t
      using less.IH[of "k - vsetvl V k" "l + vsetvl V k"] less.prems vsetvl_pos[of k] vsetvl_le[of k] False
      by simp
    ultimately show ?thesis by (cases "body' l (vsetvl V k) s") (simp_all add: strip_mine.simps[of _ _ k])
  qed (simp add: strip_mine.simps)
qed

lemma rvv_dot_Some:
  assumes "k \<le> length a" "k \<le> length b"
  shows "dot_rvv V F k (\<lambda>l vl. mfl_vle (drop l a) vl) b = Some (rvv_dot V F k a b)"
proof -
  obtain s where "strip_mine (vsetvl V)
      (\<lambda>l vl s. lanes2 (\<lambda>v w. mfl_vfmacc_vv V s v w vl) (mfl_vle (drop l a) vl) (mfl_vle (drop l b) vl))
      k 0 (replicate (vsetvlmax V) (f_zero F)) = Some s"
    using strip_mine_returns[of 0 k "\<lambda>l vl s. lanes2 (\<lambda>v w. mfl_vfmacc_vv V s v w vl) (mfl_vle (drop l a) vl)
        (mfl_vle (drop l b) vl)" "replicate (vsetvlmax V) (f_zero F)"] assms by auto
  then show ?thesis by (simp add: rvv_dot_def dot_rvv_def)
qed

lemma mfl_vle_take: "vl \<le> j \<Longrightarrow> mfl_vle (take j p) vl = mfl_vle p vl"
  by (auto simp: mfl_vle_def min_def)

lemma rvv_dot_take: "rvv_dot V F k (take k a) (take k b) = rvv_dot V F k a b"
proof -
  have "dot_rvv V F k (\<lambda>l vl. mfl_vle (drop l (take k a)) vl) (take k b) =
      dot_rvv V F k (\<lambda>l vl. mfl_vle (drop l a) vl) b"
    unfolding dot_rvv_def
    by (intro arg_cong[where f = "map_option _"] strip_mine_cong) (simp add: drop_take mfl_vle_take)
  then show ?thesis by (simp add: rvv_dot_def)
qed

lemma maxcoeff_rvv_Some:
  assumes "n * m \<le> length a"
  shows "maxcoeff_rvv V F a n m = Some (rvv_maxc V F (take (n * m) a))"
proof -
  let ?body = "\<lambda>a l vl mx. map_option (\<lambda>v. vfredmax V v mx) (mfl_vle (drop l a) vl)"
  have "strip_mine (vsetvl V) (?body a) (m * n) 0 (MATLIB_FLOAT_MIN F) =
      strip_mine (vsetvl V) (?body (take (n * m) a)) (m * n) 0 (MATLIB_FLOAT_MIN F)"
    by (rule strip_mine_cong) (simp add: drop_take mfl_vle_take mult.commute)
  moreover have "length (take (n * m) a) = m * n" using assms by (simp add: mult.commute)
  moreover obtain r where "strip_mine (vsetvl V) (?body (take (n * m) a)) (m * n) 0 (MATLIB_FLOAT_MIN F) = Some r"
    using strip_mine_returns[of 0 "m * n" "?body (take (n * m) a)" "MATLIB_FLOAT_MIN F"] assms
    by (auto simp: mult.commute)
  ultimately show ?thesis by (simp add: maxcoeff_rvv_def rvv_maxc_def)
qed

lemma matvec_rvv_Some:
  assumes "n * m \<le> length a" "m \<le> length b" "n \<le> length c"
  shows "matvec_rvv V F a b c n m = Some (map (\<lambda>i. rvv_dot V F m (drop (i * m) a) b) [0..<n] @ drop n c)"
proof -
  have "dot_rvv V F m (\<lambda>l vl. mfl_vle (drop (i * m + l) a) vl) b = Some (rvv_dot V F m (drop (i * m) a) b)"
    if "i < n" for i
  proof -
    have "Suc i * m \<le> n * m" using that by (intro mult_le_mono1) simp
    then have "m \<le> length (drop (i * m) a)" using assms(1) by simp
    from rvv_dot_Some[OF this assms(2)] show ?thesis by (simp add: add.commute)
  qed
  then show ?thesis
    unfolding matvec_rvv_def
    by (subst fold_bind_Some[where g = "\<lambda>i. rvv_dot V F m (drop (i * m) a) b"])
      (use assms(3) in \<open>auto simp: fold_update\<close>)
qed

lemma rvv_kernels_agree:
  assumes "\<And>x y. f_mul F x y = f_mul F y x"
  shows "kernels_agree (rvv_kernels V F) (rvv_abs_kernels V F)"
proof -
  have "cwiseabs_rvv V a b n m = Some (map (vfabs V) (take (n * m) a) @ drop (n * m) b)"
    if "n * m \<le> length a" "n * m \<le> length b" for a b n m
    using that strip_mine_stores[of "m * n" "\<lambda>_. map (vfabs V) a" b
        "\<lambda>l vl. map_option (map (vfabs V)) (mfl_vle (drop l a) vl)"]
    by (simp add: cwiseabs_rvv_def take_map drop_map mult.commute)
  then show ?thesis
    unfolding kernels_agree_def
    by (simp add: rvv_kernels_def rvv_abs_kernels_def abs_kernels_def maxcoeff_rvv_Some matset_rvv_eq
        matset_cpu_eq matneg_rvv_eq matneg_cpu_eq matmulf_rvv_eq[OF _ _ assms] matmulf_cpu_eq
        transpose_rvv_eq transpose_cpu_eq matsetv_rvv_eq matsetv_cpu_eq lanewise_kernels_eq cwise_cpu_eq
        cwisemin_rvv_def cwisemax_rvv_def lanewise_eq matvec_rvv_Some)
qed

end

section \<open>Sizes\<close>

definition cache_shape :: "'f tiny_cache \<Rightarrow> bool" where
  "cache_shape C \<longleftrightarrow> length (c_Kinf C) = NINPUTS * NSTATES \<and> length (c_KinfT C) = NSTATES * NINPUTS \<and>
     length (c_Pinf C) = NSTATES * NSTATES \<and> length (c_PinfT C) = NSTATES * NSTATES \<and>
     length (c_Quu_inv C) = NINPUTS * NINPUTS \<and> length (c_AmBKt C) = NSTATES * NSTATES \<and>
     length (c_AmBKtT C) = NSTATES * NSTATES \<and> length (c_coeff_d2p C) = NSTATES * NINPUTS"

definition work_shape :: "'f tiny_work \<Rightarrow> bool" where
  "work_shape W \<longleftrightarrow>
     (\<forall>M \<in> {w_x W, w_q W, w_p W, w_v W, w_vnew W, w_g W, w_x_min W, w_x_max W, w_Xref W, w_s1 W, w_s2 W}.
        length M = NHORIZON * NSTATES) \<and>
     (\<forall>M \<in> {w_u W, w_r W, w_d W, w_z W, w_znew W, w_y W, w_u_min W, w_u_max W, w_m1 W, w_m2 W}.
        length M = (NHORIZON - 1) * NINPUTS) \<and>
     (\<forall>M \<in> {w_Q W, w_x1 W, w_x2 W, w_x3 W}. length M = NSTATES) \<and>
     (\<forall>M \<in> {w_R W, w_u1 W, w_u2 W}. length M = NINPUTS) \<and>
     length (w_Adyn W) = NSTATES * NSTATES \<and> length (w_AdynT W) = NSTATES * NSTATES \<and>
     length (w_Bdyn W) = NSTATES * NINPUTS \<and> length (w_BdynT W) = NINPUTS * NSTATES"

text \<open>Column \<open>i\<close> of a trajectory, replacing it, and products.\<close>

definition slice :: "nat \<Rightarrow> nat \<Rightarrow> 'f list \<Rightarrow> 'f list" where
  "slice inner i M = take inner (drop (i * inner) M)"

definition put_slice :: "nat \<Rightarrow> nat \<Rightarrow> 'f list \<Rightarrow> 'f list \<Rightarrow> 'f list" where
  "put_slice inner i v M = take (i * inner) M @ v @ drop (i * inner + inner) M"

lemma slice_length: "Suc i * inner \<le> length M \<Longrightarrow> length (slice inner i M) = inner"
  by (simp add: slice_def)

lemma put_slice_length [simp]:
  "Suc i * inner \<le> length M \<Longrightarrow> length v = inner \<Longrightarrow> length (put_slice inner i v M) = length M"
  by (simp add: put_slice_def)

lemma slice_put_same:
  "Suc i * inner \<le> length M \<Longrightarrow> length v = inner \<Longrightarrow> slice inner i (put_slice inner i v M) = v"
  by (simp add: slice_def put_slice_def)

lemma slice_append: "Suc j * inner \<le> length A \<Longrightarrow> slice inner j (A @ B) = slice inner j A"
  by (simp add: slice_def)

lemma slice_take: "Suc j * inner \<le> k \<Longrightarrow> slice inner j (take k M) = slice inner j M"
  by (simp add: slice_def drop_take min_def)

lemma slice_put_other:
  assumes "Suc i * inner \<le> length M" "length v = inner" "i \<noteq> j"
  shows "slice inner j (put_slice inner i v M) = slice inner j M"
proof (cases "j < i")
  case True
  then have le: "Suc j * inner \<le> i * inner" by (intro mult_le_mono1) simp
  then have "Suc j * inner \<le> length (take (i * inner) M)" using assms(1) by simp
  then show ?thesis using le by (simp only: put_slice_def slice_append slice_take)
next
  case False
  then have "Suc i * inner \<le> j * inner" using assms(3) by (intro mult_le_mono1) simp
  then obtain k where k: "j * inner = i * inner + (inner + k)" by (auto simp: le_iff_add)
  then show ?thesis using assms by (simp add: slice_def put_slice_def ac_simps)
qed

text \<open>Parts of the workspace that many steps leave alone.\<close>

definition problem where
  "problem W = (w_Q W, w_R W, w_Adyn W, w_AdynT W, w_Bdyn W, w_BdynT W, w_u_min W, w_u_max W,
     w_x_min W, w_x_max W, w_Xref W)"

definition trajectory where "trajectory W = (w_x W, w_u W)"

definition slacks where "slacks W = (w_vnew W, w_znew W)"

definition progress_of where "progress_of W = (w_iter W, w_status W)"

lemmas view_defs = problem_def trajectory_def slacks_def progress_of_def

section \<open>The steps\<close>

definition mat_vec :: "(nat \<Rightarrow> 'f list \<Rightarrow> 'f list \<Rightarrow> 'f) \<Rightarrow> nat \<Rightarrow> nat \<Rightarrow> 'f list \<Rightarrow> 'f list \<Rightarrow> 'f list" where
  "mat_vec dotp n m a b = map (\<lambda>i. dotp m (slice m i a) b) [0..<n]"

lemma mat_vec_length [simp]: "length (mat_vec dotp n m a b) = n"
  by (simp add: mat_vec_def)

locale tiny_kernels = matlib_laws K F dotp vmin vmax vab maxc
  for K :: "'f matlib" and F :: "('f, 'z) mat_float_scheme" and dotp vmin vmax vab maxc +
  assumes dotp_take: "dotp k (take k a) (take k b) = dotp k a b"
begin

abbreviation MV where "MV \<equiv> mat_vec dotp"
abbreviation ADD where "ADD \<equiv> map2 (f_add F)"
abbreviation SUB where "SUB \<equiv> map2 (f_sub F)"
abbreviation NEG where "NEG \<equiv> map (f_neg F)"

lemma matvec_eq:
  assumes "n * m \<le> length a" "m \<le> length b" "n \<le> length c"
  shows "k_matvec K a b c n m = Some (MV n m a (take m b) @ drop n c)"
proof -
  have "dotp m (drop (i * m) a) b = dotp m (slice m i a) (take m b)" for i
    using dotp_take[of m "drop (i * m) a" b] dotp_take[of m "slice m i a" "take m b"]
    by (simp add: slice_def)
  then show ?thesis using kernel_eqs(13)[OF assms] by (simp add: mat_vec_def)
qed

lemma into_vec_put:
  "k (vec inner i M) = Some (v @ drop inner (vec inner i M)) \<Longrightarrow>
   into_vec inner i k M = Some (put_slice inner i v M)"
  by (simp add: into_vec_def put_slice_def vec_def add.commute)

lemmas shape_defs = work_shape_def cache_shape_def tiny_dims

lemma forward_pass_1_eq:
  assumes "cache_shape C" "work_shape W" "i < NHORIZON - 1"
  defines "U1 \<equiv> MV NINPUTS NSTATES (c_Kinf C) (slice NSTATES i (w_x W))"
  defines "U2 \<equiv> ADD U1 (slice NINPUTS i (w_d W))"
  shows "forward_pass_1 K C i W =
    Some (W\<lparr>w_u1 := U1, w_u2 := U2, w_u := put_slice NINPUTS i (NEG U2) (w_u W)\<rparr>)"
proof -
  have 1: "k_matvec K (c_Kinf C) (vec NSTATES i (w_x W)) (w_u1 W) NINPUTS NSTATES = Some U1"
    using assms by (subst matvec_eq) (auto simp: shape_defs vec_def slice_def)
  have len: "length U1 = NINPUTS" "length U2 = NINPUTS"
    using assms by (auto simp: shape_defs slice_def)
  have 2: "k_matadd K U1 (vec NINPUTS i (w_d W)) (w_u2 W) 1 NINPUTS = Some U2"
    using assms len by (subst kernel_eqs) (auto simp: shape_defs vec_def slice_def)
  have 3: "into_vec NINPUTS i (\<lambda>p. k_matneg K U2 p 1 NINPUTS) (w_u W) =
      Some (put_slice NINPUTS i (NEG U2) (w_u W))"
    using assms(2,3) len by (intro into_vec_put) (subst kernel_eqs, auto simp: shape_defs vec_def)
  show ?thesis by (simp add: forward_pass_1_def 1 2 3 del: One_nat_def)
qed

lemma forward_pass_2_eq:
  assumes "work_shape W" "i < NHORIZON - 1"
  defines "X1 \<equiv> MV NSTATES NSTATES (w_Adyn W) (slice NSTATES i (w_x W))"
  defines "X2 \<equiv> MV NSTATES NINPUTS (w_Bdyn W) (slice NINPUTS i (w_u W))"
  shows "forward_pass_2 K i W =
    Some (W\<lparr>w_x1 := X1, w_x2 := X2, w_x := put_slice NSTATES (i + 1) (ADD X1 X2) (w_x W)\<rparr>)"
proof -
  have 1: "k_matvec K (w_Adyn W) (vec NSTATES i (w_x W)) (w_x1 W) NSTATES NSTATES = Some X1"
    using assms by (subst matvec_eq) (auto simp: shape_defs vec_def slice_def)
  have 2: "k_matvec K (w_Bdyn W) (vec NINPUTS i (w_u W)) (w_x2 W) NSTATES NINPUTS = Some X2"
    using assms by (subst matvec_eq) (auto simp: shape_defs vec_def slice_def)
  have len: "length X1 = NSTATES" "length X2 = NSTATES" using assms by auto
  have 3: "into_vec NSTATES (i + 1) (\<lambda>p. k_matadd K X1 X2 p 1 NSTATES) (w_x W) =
      Some (put_slice NSTATES (i + 1) (ADD X1 X2) (w_x W))"
    using assms(1,2) len by (intro into_vec_put) (subst kernel_eqs, auto simp: shape_defs vec_def)
  show ?thesis using 3 by (simp add: forward_pass_2_def 1 2 del: One_nat_def)
qed

lemma backward_pass_1_eq:
  assumes "cache_shape C" "work_shape W" "i < NHORIZON - 1"
  defines "U1 \<equiv> MV NINPUTS NSTATES (w_BdynT W) (slice NSTATES (i + 1) (w_p W))"
  defines "U2 \<equiv> ADD (slice NINPUTS i (w_r W)) U1"
  shows "backward_pass_1 K C i W = Some (W\<lparr>w_u1 := U1, w_u2 := U2,
    w_d := put_slice NINPUTS i (MV NINPUTS NINPUTS (c_Quu_inv C) U2) (w_d W)\<rparr>)"
proof -
  have 1: "k_matvec K (w_BdynT W) (vec NSTATES (i + 1) (w_p W)) (w_u1 W) NINPUTS NSTATES = Some U1"
    using assms by (subst matvec_eq) (auto simp: shape_defs vec_def slice_def)
  have len: "length U1 = NINPUTS" "length U2 = NINPUTS"
    using assms by (auto simp: shape_defs slice_def)
  have 2: "k_matadd K (vec NINPUTS i (w_r W)) U1 (w_u2 W) 1 NINPUTS = Some U2"
    using assms len by (subst kernel_eqs) (auto simp: shape_defs vec_def slice_def)
  have 3: "into_vec NINPUTS i (\<lambda>p. k_matvec K (c_Quu_inv C) U2 p NINPUTS NINPUTS) (w_d W) =
      Some (put_slice NINPUTS i (MV NINPUTS NINPUTS (c_Quu_inv C) U2) (w_d W))"
    using assms(1-3) len by (intro into_vec_put) (subst matvec_eq, auto simp: shape_defs vec_def)
  show ?thesis using 1 by (simp add: backward_pass_1_def 2 3 del: One_nat_def)
qed

lemma backward_pass_2_eq:
  assumes "cache_shape C" "work_shape W" "i < NHORIZON - 1"
  defines "X1 \<equiv> MV NSTATES NSTATES (c_AmBKt C) (slice NSTATES (i + 1) (w_p W))"
  defines "X2 \<equiv> MV NSTATES NINPUTS (c_KinfT C) (slice NINPUTS i (w_r W))"
  shows "backward_pass_2 K C i W = Some (W\<lparr>w_x1 := X1, w_x2 := X2, w_x3 := SUB X1 X2,
    w_p := put_slice NSTATES i (ADD (SUB X1 X2) (slice NSTATES i (w_q W))) (w_p W)\<rparr>)"
proof -
  have 1: "k_matvec K (c_AmBKt C) (vec NSTATES (i + 1) (w_p W)) (w_x1 W) NSTATES NSTATES = Some X1"
    using assms by (subst matvec_eq) (auto simp: shape_defs vec_def slice_def)
  have 2: "k_matvec K (c_KinfT C) (vec NINPUTS i (w_r W)) (w_x2 W) NSTATES NINPUTS = Some X2"
    using assms by (subst matvec_eq) (auto simp: shape_defs vec_def slice_def)
  have len: "length X1 = NSTATES" "length X2 = NSTATES" using assms by auto
  have 3: "k_matsub K X1 X2 (w_x3 W) 1 NSTATES = Some (SUB X1 X2)"
    using assms len by (subst kernel_eqs) (auto simp: shape_defs)
  have 4: "into_vec NSTATES i (\<lambda>p. k_matadd K (SUB X1 X2) (vec NSTATES i (w_q W)) p 1 NSTATES) (w_p W) =
      Some (put_slice NSTATES i (ADD (SUB X1 X2) (slice NSTATES i (w_q W))) (w_p W))"
    using assms(1-3) len by (intro into_vec_put) (subst kernel_eqs, auto simp: shape_defs vec_def slice_def)
  show ?thesis using 1 by (simp add: backward_pass_2_def 2 3 4 del: One_nat_def)
qed

text \<open>The projected inputs and states.\<close>

definition projected :: "bool \<Rightarrow> 'f list \<Rightarrow> 'f list \<Rightarrow> 'f list \<Rightarrow> 'f list" where
  "projected en lo hi z = (if en then map2 vmin hi (map2 vmax lo z) else z)"

lemma update_slack_eq:
  assumes "work_shape W"
  defines "Z \<equiv> ADD (w_u W) (w_y W)" and "Y \<equiv> ADD (w_x W) (w_g W)"
  shows "update_slack K S W = Some (W\<lparr>
    w_m1 := (if en_input_bound S then map2 vmax (w_u_min W) Z else w_m1 W),
    w_znew := projected (en_input_bound S) (w_u_min W) (w_u_max W) Z,
    w_s1 := (if en_state_bound S then map2 vmax (w_x_min W) Y else w_s1 W),
    w_vnew := projected (en_state_bound S) (w_x_min W) (w_x_max W) Y\<rparr>)"
  using assms
  by (simp add: update_slack_def update_slack_1_def update_slack_2_def projected_def shape_defs kernel_eqs)

lemma update_dual_eq:
  assumes "work_shape W"
  shows "update_dual K W = Some (W\<lparr>
    w_m1 := ADD (w_y W) (w_u W), w_y := SUB (ADD (w_y W) (w_u W)) (w_znew W),
    w_s1 := ADD (w_g W) (w_x W), w_g := SUB (ADD (w_g W) (w_x W)) (w_vnew W)\<rparr>)"
  using assms by (simp add: update_dual_def update_dual_1_def shape_defs kernel_eqs)

lemma save_slack_eq:
  assumes "work_shape W"
  shows "save_slack K W = Some (W\<lparr>w_v := w_vnew W, w_z := w_znew W\<rparr>)"
  using assms by (simp add: save_slack_def shape_defs kernel_eqs)

text \<open>The linear costs.\<close>

lemma update_linear_cost_1_eq:
  assumes "work_shape W"
  shows "update_linear_cost_1 K F C W = Some (W\<lparr>w_m1 := SUB (w_znew W) (w_y W),
    w_r := map (f_mul F (f_neg F (c_rho C))) (SUB (w_znew W) (w_y W))\<rparr>)"
  using assms by (simp add: update_linear_cost_1_def shape_defs kernel_eqs)

lemma update_linear_cost_2_eq:
  assumes "work_shape W" "i < NHORIZON"
  defines "X1 \<equiv> map2 (f_mul F) (slice NSTATES i (w_Xref W)) (w_Q W)"
  shows "update_linear_cost_2 K i W = Some (W\<lparr>w_x1 := X1, w_q := put_slice NSTATES i (NEG X1) (w_q W)\<rparr>)"
proof -
  have 1: "k_cwisemul K (vec NSTATES i (w_Xref W)) (w_Q W) (w_x1 W) 1 NSTATES = Some X1"
    using assms by (subst kernel_eqs) (auto simp: shape_defs vec_def slice_def)
  have len: "length X1 = NSTATES" using assms by (auto simp: shape_defs slice_def)
  have 2: "into_vec NSTATES i (\<lambda>p. k_matneg K X1 p 1 NSTATES) (w_q W) =
      Some (put_slice NSTATES i (NEG X1) (w_q W))"
    using assms(1,2) len by (intro into_vec_put) (subst kernel_eqs, auto simp: shape_defs vec_def)
  show ?thesis by (simp add: update_linear_cost_2_def 1 2 del: One_nat_def)
qed

lemma update_linear_cost_3_eq:
  fixes C :: "'f tiny_cache"
  assumes "work_shape W"
  defines "S2 \<equiv> map (f_mul F (c_rho C)) (SUB (w_vnew W) (w_g W))"
  shows "update_linear_cost_3 K C W = Some (W\<lparr>w_s1 := SUB (w_q W) S2, w_s2 := S2, w_q := SUB (w_q W) S2\<rparr>)"
  using assms by (simp add: update_linear_cost_3_def shape_defs kernel_eqs)

lemma update_linear_cost_4_eq:
  assumes C: "cache_shape C" and W: "work_shape W"
  defines "D \<equiv> SUB (slice NSTATES (NHORIZON - 1) (w_vnew W)) (slice NSTATES (NHORIZON - 1) (w_g W))"
  defines "X1 \<equiv> MV NSTATES NSTATES (c_PinfT C) (slice NSTATES (NHORIZON - 1) (w_Xref W))"
  defines "X2 \<equiv> map (f_mul F (c_rho C)) D"
  shows "update_linear_cost_4 K C W = Some (W\<lparr>w_x1 := X1, w_x2 := X2, w_x3 := ADD X1 X2,
    w_p := put_slice NSTATES (NHORIZON - 1) (NEG (ADD X1 X2)) (w_p W)\<rparr>)"
proof -
  let ?last = "NHORIZON - 1"
  have len: "length D = NSTATES" "length X1 = NSTATES" "length X2 = NSTATES"
    using W by (auto simp: D_def X1_def X2_def shape_defs slice_def)
  have a: "k_matsub K (vec NSTATES ?last (w_vnew W)) (vec NSTATES ?last (w_g W)) (w_x1 W) 1 NSTATES = Some D"
    using W unfolding D_def by (subst kernel_eqs) (auto simp: shape_defs vec_def slice_def)
  have b: "k_matmulf K D (w_x2 W) (c_rho C) 1 NSTATES = Some X2"
    using W len unfolding X2_def by (subst kernel_eqs) (auto simp: shape_defs)
  have c: "k_matvec K (c_PinfT C) (vec NSTATES ?last (w_Xref W)) D NSTATES NSTATES = Some X1"
    using C W len unfolding X1_def by (subst matvec_eq) (auto simp: shape_defs vec_def slice_def)
  have d: "k_matadd K X1 X2 (w_x3 W) 1 NSTATES = Some (ADD X1 X2)"
    using W len by (subst kernel_eqs) (auto simp: shape_defs)
  have e: "into_vec NSTATES ?last (\<lambda>p. k_matneg K (ADD X1 X2) p 1 NSTATES) (w_p W) =
      Some (put_slice NSTATES ?last (NEG (ADD X1 X2)) (w_p W))"
    using W len by (intro into_vec_put) (subst kernel_eqs, auto simp: shape_defs vec_def)
  show ?thesis using a b c d e by (simp add: update_linear_cost_4_def del: One_nat_def)
qed

lemma linear_cost_steps_ok:
  "work_shape W \<Longrightarrow> set is \<subseteq> {0..<NHORIZON} \<Longrightarrow>
   \<exists>x1 q. linear_cost_steps K is W = Some (W\<lparr>w_x1 := x1, w_q := q\<rparr>) \<and>
     length x1 = NSTATES \<and> length q = NHORIZON * NSTATES"
proof (induction "is" arbitrary: W)
  case Nil
  have "linear_cost_steps K [] W = Some (W\<lparr>w_x1 := w_x1 W, w_q := w_q W\<rparr>)" by simp
  moreover have "length (w_x1 W) = NSTATES" "length (w_q W) = NHORIZON * NSTATES"
    using Nil by (simp_all add: work_shape_def)
  ultimately show ?case by blast
next
  case (Cons i "is")
  have i: "i < NHORIZON" using Cons.prems by simp
  let ?x1 = "map2 (f_mul F) (slice NSTATES i (w_Xref W)) (w_Q W)"
  let ?q = "put_slice NSTATES i (NEG ?x1) (w_q W)"
  have step: "update_linear_cost_2 K i W = Some (W\<lparr>w_x1 := ?x1, w_q := ?q\<rparr>)"
    by (rule update_linear_cost_2_eq[OF Cons.prems(1) i])
  have len: "length ?x1 = NSTATES" using Cons.prems(1) i by (auto simp: shape_defs slice_def)
  have "length ?q = NHORIZON * NSTATES"
    using Cons.prems(1) i len by (subst put_slice_length) (auto simp: shape_defs)
  then have "work_shape (W\<lparr>w_x1 := ?x1, w_q := ?q\<rparr>)"
    using Cons.prems(1) len by (simp add: work_shape_def)
  from Cons.IH[OF this] Cons.prems(2) step show ?case by auto
qed

lemma update_linear_cost_ok:
  assumes C: "cache_shape C" and W: "work_shape W"
  shows "\<exists>W'. update_linear_cost K F C W = Some W' \<and> work_shape W' \<and> problem W' = problem W \<and>
    trajectory W' = trajectory W \<and> slacks W' = slacks W \<and> progress_of W' = progress_of W \<and>
    w_y W' = w_y W \<and> w_g W' = w_g W \<and> w_v W' = w_v W \<and> w_z W' = w_z W"
proof -
  let ?m1 = "SUB (w_znew W) (w_y W)"
  let ?W1 = "W\<lparr>w_m1 := ?m1, w_r := map (f_mul F (f_neg F (c_rho C))) ?m1\<rparr>"
  have W1: "work_shape ?W1" using W by (simp add: shape_defs)
  then obtain x1 q where 2: "linear_cost_steps K [0..<NHORIZON] ?W1 = Some (?W1\<lparr>w_x1 := x1, w_q := q\<rparr>)"
    and len: "length x1 = NSTATES" "length q = NHORIZON * NSTATES"
    using linear_cost_steps_ok[of ?W1 "[0..<NHORIZON]"] by auto
  let ?W2 = "?W1\<lparr>w_x1 := x1, w_q := q\<rparr>"
  have W2: "work_shape ?W2" using W1 len by (simp add: work_shape_def)
  let ?s2 = "map (f_mul F (c_rho C)) (SUB (w_vnew ?W2) (w_g ?W2))"
  let ?W3 = "?W2\<lparr>w_s1 := SUB (w_q ?W2) ?s2, w_s2 := ?s2, w_q := SUB (w_q ?W2) ?s2\<rparr>"
  have W3: "work_shape ?W3" using W len by (simp add: shape_defs)
  show ?thesis
    unfolding update_linear_cost_def update_linear_cost_1_eq[OF W] Option.bind_lunit 2
      update_linear_cost_3_eq[OF W2] update_linear_cost_4_eq[OF C W3]
    using W len by (simp add: shape_defs put_slice_def slice_def view_defs)
qed

text \<open>The residuals are the largest absolute differences.\<close>

definition gap :: "'f list \<Rightarrow> 'f list \<Rightarrow> 'f" where
  "gap a b = maxc (map vab (SUB a b))"

lemma residuals_ok:
  assumes "work_shape W"
  shows "\<exists>W'. residuals K F C W = Some W' \<and> work_shape W' \<and> problem W' = problem W \<and>
    trajectory W' = trajectory W \<and> slacks W' = slacks W \<and> progress_of W' = progress_of W \<and>
    w_primal_residual_state W' = gap (w_x W) (w_vnew W) \<and>
    w_primal_residual_input W' = gap (w_u W) (w_znew W) \<and>
    w_dual_residual_state W' = f_mul F (gap (w_v W) (w_vnew W)) (c_rho C) \<and>
    w_dual_residual_input W' = f_mul F (gap (w_z W) (w_znew W)) (c_rho C) \<and>
    w_v W' = w_v W \<and> w_z W' = w_z W"
  using assms
  by (simp add: residuals_def primal_residual_state_def dual_residual_state_def primal_residual_input_def
      dual_residual_input_def shape_defs kernel_eqs gap_def view_defs)

end

end
