(* ===== verification/Tinympc_Solve.thy ===== *)
theory Tinympc_Solve
  imports Tinympc_Steps
begin

text \<open>
  The solver as a whole: the passes over the horizon, one pass of the main loop, and the loop.
  Then the theorems on the solver over the scalar kernels, and on the two libraries side by side.
\<close>

context tiny_kernels
begin

section \<open>The roll-out\<close>

definition control_law :: "'f tiny_cache \<Rightarrow> 'f tiny_work \<Rightarrow> nat \<Rightarrow> bool" where
  "control_law C W i \<longleftrightarrow> slice NINPUTS i (w_u W) =
     NEG (ADD (MV NINPUTS NSTATES (c_Kinf C) (slice NSTATES i (w_x W))) (slice NINPUTS i (w_d W)))"

definition dynamics :: "'f tiny_work \<Rightarrow> nat \<Rightarrow> bool" where
  "dynamics W i \<longleftrightarrow> slice NSTATES (i + 1) (w_x W) =
     ADD (MV NSTATES NSTATES (w_Adyn W) (slice NSTATES i (w_x W)))
         (MV NSTATES NINPUTS (w_Bdyn W) (slice NINPUTS i (w_u W)))"

definition other_vars where
  "other_vars W = (problem W, slacks W, progress_of W, w_y W, w_g W, w_v W, w_z W)"

lemma forward_steps_append:
  "forward_steps K C (is @ js) W = Option.bind (forward_steps K C is W) (forward_steps K C js)"
  by (induction "is" arbitrary: W) (auto split: bind_splits)

lemma backward_steps_append:
  "backward_steps K C (is @ js) W = Option.bind (backward_steps K C is W) (backward_steps K C js)"
  by (induction "is" arbitrary: W) (auto split: bind_splits)

lemma forward_step_ok:
  assumes C: "cache_shape C" and W: "work_shape W" and k: "k < NHORIZON - 1"
    and prev: "\<forall>i<k. control_law C W i \<and> dynamics W i"
  shows "\<exists>W'. Option.bind (forward_pass_1 K C k W) (forward_pass_2 K k) = Some W' \<and> work_shape W' \<and>
    other_vars W' = other_vars W \<and> w_d W' = w_d W \<and> slice NSTATES 0 (w_x W') = slice NSTATES 0 (w_x W) \<and>
    (\<forall>i<Suc k. control_law C W' i \<and> dynamics W' i)"
proof -
  let ?U1 = "MV NINPUTS NSTATES (c_Kinf C) (slice NSTATES k (w_x W))"
  let ?U2 = "ADD ?U1 (slice NINPUTS k (w_d W))"
  let ?W1 = "W\<lparr>w_u1 := ?U1, w_u2 := ?U2, w_u := put_slice NINPUTS k (NEG ?U2) (w_u W)\<rparr>"
  have 1: "forward_pass_1 K C k W = Some ?W1" by (rule forward_pass_1_eq[OF C W k])
  have U2: "length ?U2 = NINPUTS" using W k by (auto simp: shape_defs slice_def)
  have u: "Suc k * NINPUTS \<le> length (w_u W)" and x: "Suc (k + 1) * NSTATES \<le> length (w_x W)"
    using W k by (auto simp: shape_defs)
  have W1: "work_shape ?W1" using W U2 u by (auto simp: work_shape_def)
  let ?X1 = "MV NSTATES NSTATES (w_Adyn ?W1) (slice NSTATES k (w_x ?W1))"
  let ?X2 = "MV NSTATES NINPUTS (w_Bdyn ?W1) (slice NINPUTS k (w_u ?W1))"
  let ?W2 = "?W1\<lparr>w_x1 := ?X1, w_x2 := ?X2, w_x := put_slice NSTATES (k + 1) (ADD ?X1 ?X2) (w_x ?W1)\<rparr>"
  have 2: "forward_pass_2 K k ?W1 = Some ?W2" by (rule forward_pass_2_eq[OF W1 k])
  have X: "length (ADD ?X1 ?X2) = NSTATES" by simp
  have W2: "work_shape ?W2" using W1 X x by (auto simp: work_shape_def)
  have xs: "slice NSTATES j (w_x ?W2) = slice NSTATES j (w_x W)" if "j \<noteq> k + 1" for j
    using slice_put_other[OF x X] that by simp
  have us: "slice NINPUTS j (w_u ?W2) = slice NINPUTS j (w_u W)" if "j \<noteq> k" for j
    using slice_put_other[OF u] U2 that by simp
  have "control_law C ?W2 k" unfolding control_law_def
    using xs[of k] slice_put_same[OF u, of "NEG ?U2"] U2 by simp
  moreover have "dynamics ?W2 k" unfolding dynamics_def
    using xs[of k] slice_put_same[OF x X] by simp
  moreover have "control_law C ?W2 i" "dynamics ?W2 i" if "i < k" for i
    using prev that xs[of i] xs[of "i + 1"] us[of i] by (simp_all add: control_law_def dynamics_def)
  ultimately have "\<forall>i<Suc k. control_law C ?W2 i \<and> dynamics ?W2 i" by (auto simp: less_Suc_eq)
  moreover have "slice NSTATES 0 (w_x ?W2) = slice NSTATES 0 (w_x W)" by (rule xs) simp
  moreover have "other_vars ?W2 = other_vars W" "w_d ?W2 = w_d W" by (simp_all add: other_vars_def view_defs)
  ultimately show ?thesis using 1 2 W2 by (intro exI[of _ ?W2]) (simp only: Option.bind_lunit)
qed

lemma forward_steps_ok:
  assumes "cache_shape C" "work_shape W" "k \<le> NHORIZON - 1"
  shows "\<exists>W'. forward_steps K C [0..<k] W = Some W' \<and> work_shape W' \<and> other_vars W' = other_vars W \<and>
    w_d W' = w_d W \<and> slice NSTATES 0 (w_x W') = slice NSTATES 0 (w_x W) \<and>
    (\<forall>i<k. control_law C W' i \<and> dynamics W' i)"
  using assms(3)
proof (induction k)
  case 0
  show ?case using assms(2) by simp
next
  case (Suc k)
  then obtain W1 where 1: "forward_steps K C [0..<k] W = Some W1" "work_shape W1"
    "other_vars W1 = other_vars W" "w_d W1 = w_d W"
    "slice NSTATES 0 (w_x W1) = slice NSTATES 0 (w_x W)" "\<forall>i<k. control_law C W1 i \<and> dynamics W1 i"
    by auto
  obtain W2 where 2: "Option.bind (forward_pass_1 K C k W1) (forward_pass_2 K k) = Some W2" "work_shape W2"
    "other_vars W2 = other_vars W1" "w_d W2 = w_d W1"
    "slice NSTATES 0 (w_x W2) = slice NSTATES 0 (w_x W1)" "\<forall>i<Suc k. control_law C W2 i \<and> dynamics W2 i"
    using forward_step_ok[OF assms(1) 1(2) _ 1(6)] Suc.prems by auto
  have "forward_steps K C [0..<Suc k] W = Some W2"
    using 1(1) 2(1) by (auto simp: forward_steps_append Option.bind_eq_Some_conv)
  then show ?case using 1 2 by metis
qed

lemma backward_steps_ok:
  assumes C: "cache_shape C"
  shows "work_shape W \<Longrightarrow> set is \<subseteq> {0..<NHORIZON - 1} \<Longrightarrow>
    \<exists>W'. backward_steps K C is W = Some W' \<and> work_shape W' \<and> other_vars W' = other_vars W \<and>
      trajectory W' = trajectory W"
proof (induction "is" arbitrary: W)
  case (Cons i "is")
  have i: "i < NHORIZON - 1" using Cons.prems by simp
  let ?U1 = "MV NINPUTS NSTATES (w_BdynT W) (slice NSTATES (i + 1) (w_p W))"
  let ?U2 = "ADD (slice NINPUTS i (w_r W)) ?U1"
  let ?W1 = "W\<lparr>w_u1 := ?U1, w_u2 := ?U2,
    w_d := put_slice NINPUTS i (MV NINPUTS NINPUTS (c_Quu_inv C) ?U2) (w_d W)\<rparr>"
  have 1: "backward_pass_1 K C i W = Some ?W1" by (rule backward_pass_1_eq[OF C Cons.prems(1) i])
  have W1: "work_shape ?W1" using Cons.prems(1) i by (auto simp: shape_defs slice_def)
  let ?X1 = "MV NSTATES NSTATES (c_AmBKt C) (slice NSTATES (i + 1) (w_p ?W1))"
  let ?X2 = "MV NSTATES NINPUTS (c_KinfT C) (slice NINPUTS i (w_r ?W1))"
  let ?W2 = "?W1\<lparr>w_x1 := ?X1, w_x2 := ?X2, w_x3 := SUB ?X1 ?X2,
    w_p := put_slice NSTATES i (ADD (SUB ?X1 ?X2) (slice NSTATES i (w_q ?W1))) (w_p ?W1)\<rparr>"
  have 2: "backward_pass_2 K C i ?W1 = Some ?W2" by (rule backward_pass_2_eq[OF C W1 i])
  have W2: "work_shape ?W2" using W1 i by (auto simp: shape_defs slice_def)
  have "other_vars ?W2 = other_vars W" "trajectory ?W2 = trajectory W"
    by (simp_all add: other_vars_def view_defs)
  moreover have "backward_steps K C (i # is) W = backward_steps K C is ?W2"
    by (simp only: backward_steps.simps 1 2 Option.bind_lunit)
  ultimately show ?case using Cons.IH[OF W2] Cons.prems(2) by auto
qed auto

lemma update_primal_ok:
  assumes "cache_shape C" "work_shape W"
  shows "\<exists>W'. update_primal K C W = Some W' \<and> work_shape W' \<and> other_vars W' = other_vars W \<and>
    slice NSTATES 0 (w_x W') = slice NSTATES 0 (w_x W) \<and>
    (\<forall>i<NHORIZON - 1. control_law C W' i \<and> dynamics W' i)"
proof -
  obtain W1 where 1: "backward_pass K C W = Some W1" "work_shape W1" "other_vars W1 = other_vars W"
    "trajectory W1 = trajectory W"
    using backward_steps_ok[OF assms, of "rev [0..<NHORIZON - 1]"] by (auto simp: backward_pass_def)
  obtain W2 where "forward_pass K C W1 = Some W2" "work_shape W2" "other_vars W2 = other_vars W1"
    "slice NSTATES 0 (w_x W2) = slice NSTATES 0 (w_x W1)" "\<forall>i<NHORIZON - 1. control_law C W2 i \<and> dynamics W2 i"
    using forward_steps_ok[OF assms(1) 1(2)] by (auto simp: forward_pass_def)
  then show ?thesis using 1 by (auto simp: update_primal_def trajectory_def)
qed

section \<open>One pass of the loop\<close>

text \<open>What holds behind the dual update of every pass: the states are the roll-out of the inputs,
  and the slacks are in their boxes.\<close>

definition pass_done :: "'f tiny_settings \<Rightarrow> 'f tiny_work \<Rightarrow> 'f tiny_work \<Rightarrow> bool" where
  "pass_done S W0 W \<longleftrightarrow> work_shape W \<and> problem W = problem W0 \<and>
     slice NSTATES 0 (w_x W) = slice NSTATES 0 (w_x W0) \<and> (\<forall>i<NHORIZON - 1. dynamics W i) \<and>
     (\<exists>Z. length Z = (NHORIZON - 1) * NINPUTS \<and>
        w_znew W = projected (en_input_bound S) (w_u_min W0) (w_u_max W0) Z) \<and>
     (\<exists>Y. length Y = NHORIZON * NSTATES \<and>
        w_vnew W = projected (en_state_bound S) (w_x_min W0) (w_x_max W0) Y)"

lemma pass_done_cong:
  "pass_done S W0 W \<Longrightarrow> work_shape W' \<Longrightarrow> problem W' = problem W \<Longrightarrow> trajectory W' = trajectory W \<Longrightarrow>
   slacks W' = slacks W \<Longrightarrow> pass_done S W0 W'"
  by (simp add: pass_done_def view_defs dynamics_def)

lemma update_slack_ok:
  assumes "work_shape W" "problem W = problem W0" "slice NSTATES 0 (w_x W) = slice NSTATES 0 (w_x W0)"
    and "\<forall>i<NHORIZON - 1. dynamics W i"
  shows "\<exists>W'. update_slack K S W = Some W' \<and> pass_done S W0 W' \<and> progress_of W' = progress_of W \<and>
    w_v W' = w_v W \<and> w_z W' = w_z W"
proof -
  let ?Z = "ADD (w_u W) (w_y W)" and ?Y = "ADD (w_x W) (w_g W)"
  have len: "length ?Z = (NHORIZON - 1) * NINPUTS" "length ?Y = NHORIZON * NSTATES"
    using assms(1) by (simp_all add: work_shape_def)
  obtain W' where W': "update_slack K S W = Some W'" and
    parts: "problem W' = problem W" "trajectory W' = trajectory W" "progress_of W' = progress_of W"
      "w_v W' = w_v W" "w_z W' = w_z W" "work_shape W'"
      "w_znew W' = projected (en_input_bound S) (w_u_min W) (w_u_max W) ?Z"
      "w_vnew W' = projected (en_state_bound S) (w_x_min W) (w_x_max W) ?Y"
    using update_slack_eq[OF assms(1), of S] assms(1) len
    by (simp add: view_defs work_shape_def projected_def)
  have "w_znew W' = projected (en_input_bound S) (w_u_min W0) (w_u_max W0) ?Z"
    "w_vnew W' = projected (en_state_bound S) (w_x_min W0) (w_x_max W0) ?Y"
    using parts assms(2) by (simp_all add: view_defs)
  then have "\<exists>Z. length Z = (NHORIZON - 1) * NINPUTS \<and>
      w_znew W' = projected (en_input_bound S) (w_u_min W0) (w_u_max W0) Z"
    "\<exists>Y. length Y = NHORIZON * NSTATES \<and>
      w_vnew W' = projected (en_state_bound S) (w_x_min W0) (w_x_max W0) Y" using len by blast+
  then have "pass_done S W0 W'"
    unfolding pass_done_def using assms parts(1-6) by (simp add: view_defs dynamics_def)
  then show ?thesis using W' parts by blast
qed

lemma update_dual_ok:
  assumes "work_shape W"
  shows "\<exists>W'. update_dual K W = Some W' \<and> work_shape W' \<and> problem W' = problem W \<and>
    trajectory W' = trajectory W \<and> slacks W' = slacks W \<and> progress_of W' = progress_of W \<and>
    w_v W' = w_v W \<and> w_z W' = w_z W"
  using update_dual_eq[OF assms] assms by (simp add: view_defs work_shape_def)

text \<open>The three updates that follow the roll-out.\<close>

definition updates :: "'f tiny_cache \<Rightarrow> 'f tiny_settings \<Rightarrow> 'f tiny_work \<Rightarrow> 'f tiny_work option" where
  "updates C S W = Option.bind (update_slack K S W)
     (\<lambda>W. Option.bind (update_dual K W) (update_linear_cost K F C))"

lemma updates_ok:
  assumes C: "cache_shape C" and W: "work_shape W" "problem W = problem W0"
    "slice NSTATES 0 (w_x W) = slice NSTATES 0 (w_x W0)" "\<forall>i<NHORIZON - 1. dynamics W i"
  shows "\<exists>W'. updates C S W = Some W' \<and> pass_done S W0 W' \<and> progress_of W' = progress_of W"
proof -
  obtain W1 where 1: "update_slack K S W = Some W1" "pass_done S W0 W1" "progress_of W1 = progress_of W"
    using update_slack_ok[OF W] by blast
  then have "work_shape W1" by (simp add: pass_done_def)
  then obtain W2 where 2: "update_dual K W1 = Some W2" "work_shape W2" "problem W2 = problem W1"
    "trajectory W2 = trajectory W1" "slacks W2 = slacks W1" "progress_of W2 = progress_of W1"
    using update_dual_ok by blast
  obtain W3 where 3: "update_linear_cost K F C W2 = Some W3" "work_shape W3" "problem W3 = problem W2"
    "trajectory W3 = trajectory W2" "slacks W3 = slacks W2" "progress_of W3 = progress_of W2"
    using update_linear_cost_ok[OF C 2(2)] by blast
  have "updates C S W = Some W3" by (simp only: updates_def 1(1) 2(1) 3(1) Option.bind_lunit)
  moreover have "pass_done S W0 W3"
    by (rule pass_done_cong[OF pass_done_cong[OF 1(2) 2(2-5)] 3(2-5)])
  ultimately show ?thesis using 1(3) 2(6) 3(6) by simp
qed

text \<open>What a pass that ends the solve has tested.\<close>

definition converged :: "'f tiny_cache \<Rightarrow> 'f tiny_settings \<Rightarrow> 'f tiny_work \<Rightarrow> bool" where
  "converged C S W \<longleftrightarrow>
     f_less F (gap (w_x W) (w_vnew W)) (abs_pri_tol S) \<and> f_less F (gap (w_u W) (w_znew W)) (abs_pri_tol S) \<and>
     f_less F (f_mul F (gap (w_v W) (w_vnew W)) (c_rho C)) (abs_dua_tol S) \<and>
     f_less F (f_mul F (gap (w_z W) (w_znew W)) (c_rho C)) (abs_dua_tol S)"

lemma admm_pass_ok:
  assumes C: "cache_shape C" and W: "work_shape W" "problem W = problem W0"
    "slice NSTATES 0 (w_x W) = slice NSTATES 0 (w_x W0)" and c: "0 < check_termination S"
  shows "\<exists>b W'. admm_pass K F C S i W = Some (b, W') \<and> pass_done S W0 W' \<and> w_iter W' = i + 1 \<and>
    (b \<longrightarrow> converged C S W' \<and> w_status W' = 1 \<and> (i + 1) mod check_termination S = 0) \<and>
    (\<not> b \<longrightarrow> w_status W' = w_status W \<and> ((i + 1) mod check_termination S = 0 \<longrightarrow> \<not> converged C S W'))"
proof -
  let ?W = "W\<lparr>w_iter := i + 1\<rparr>"
  have "work_shape ?W" using W(1) by (simp add: work_shape_def)
  then obtain W1 where 1: "update_primal K C ?W = Some W1" "work_shape W1" "other_vars W1 = other_vars ?W"
    "slice NSTATES 0 (w_x W1) = slice NSTATES 0 (w_x ?W)" "\<forall>i<NHORIZON - 1. control_law C W1 i \<and> dynamics W1 i"
    using update_primal_ok[OF C, of ?W] by blast
  have p1: "problem W1 = problem W0" "progress_of W1 = progress_of ?W"
    using 1(3) W(2) by (simp_all add: other_vars_def view_defs)
  obtain W2 where 2: "updates C S W1 = Some W2" "pass_done S W0 W2" "progress_of W2 = progress_of W1"
    using updates_ok[OF C 1(2) p1(1), of S] 1(4,5) W(3) by auto
  have it: "w_iter W2 = i + 1" "w_status W2 = w_status W" using 2(3) p1(2) by (simp_all add: progress_of_def)
  have "work_shape W2" using 2(2) by (simp add: pass_done_def)
  then obtain W3 where 3: "residuals K F C W2 = Some W3" "work_shape W3" "problem W3 = problem W2"
    "trajectory W3 = trajectory W2" "slacks W3 = slacks W2" "progress_of W3 = progress_of W2"
    and small: "residuals_small F S W3 = converged C S W3"
    using residuals_ok[of W2 C] by (auto simp: residuals_small_def converged_def view_defs)
  let ?b = "residuals_small F S W3"
  obtain Wa Wb where u: "update_slack K S W1 = Some Wa" "update_dual K Wa = Some Wb"
    "update_linear_cost K F C Wb = Some W2"
    using 2(1) by (auto simp: updates_def Option.bind_eq_Some_conv)
  have eq: "admm_pass K F C S i W = (if (i + 1) mod check_termination S = 0
      then Some (?b, if ?b then W3\<lparr>w_status := 1\<rparr> else W3) else Some (False, W2))"
    unfolding admm_pass_def 1(1) u Option.bind_lunit it(1) 3(1) using c by simp
  have done3: "pass_done S W0 W3" by (rule pass_done_cong[OF 2(2) 3(2-5)])
  have done4: "pass_done S W0 (W3\<lparr>w_status := 1\<rparr>)"
    by (rule pass_done_cong[OF done3]) (use 3(2) in \<open>simp_all add: work_shape_def view_defs\<close>)
  have "converged C S (W3\<lparr>w_status := 1\<rparr>) = converged C S W3" by (simp add: converged_def)
  then show ?thesis
    using eq 2(2) done3 done4 3(6) it small by (auto simp: progress_of_def)
qed

section \<open>The loop\<close>

lemma admm_loop_ok:
  assumes C: "cache_shape C" and c: "0 < check_termination S"
  shows "pass_done S W0 W \<Longrightarrow> \<exists>rc W'. admm_loop K F C S is W = Some (rc, W') \<and> pass_done S W0 W' \<and>
    (rc = 0 \<and> w_status W' = 1 \<and> converged C S W' \<and>
       (\<exists>i\<in>set is. w_iter W' = i + 1 \<and> (i + 1) mod check_termination S = 0) \<or>
     rc = 1 \<and> w_status W' = w_status W \<and> w_iter W' = last (w_iter W # map Suc is))"
proof (induction "is" arbitrary: W)
  case (Cons i "is")
  have W: "work_shape W" "problem W = problem W0" "slice NSTATES 0 (w_x W) = slice NSTATES 0 (w_x W0)"
    using Cons.prems by (simp_all add: pass_done_def)
  obtain b W1 where 1: "admm_pass K F C S i W = Some (b, W1)" "pass_done S W0 W1" "w_iter W1 = i + 1"
    "b \<longrightarrow> converged C S W1 \<and> w_status W1 = 1 \<and> (i + 1) mod check_termination S = 0"
    "\<not> b \<longrightarrow> w_status W1 = w_status W"
    using admm_pass_ok[OF C W c, of i] by (elim exE conjE) (rule that, assumption+, simp)
  show ?case
  proof (cases b)
    case True
    then show ?thesis using 1 by simp
  next
    case False
    let ?W2 = "W1\<lparr>w_v := w_vnew W1, w_z := w_znew W1\<rparr>"
    have shape: "work_shape W1" using 1(2) by (simp add: pass_done_def)
    then have "work_shape ?W2" by (simp add: work_shape_def)
    then have next_done: "pass_done S W0 ?W2" by (rule pass_done_cong[OF 1(2)]) (simp_all add: view_defs)
    obtain rc W' where 2: "admm_loop K F C S is ?W2 = Some (rc, W')" "pass_done S W0 W'"
      "rc = 0 \<and> w_status W' = 1 \<and> converged C S W' \<and>
         (\<exists>i\<in>set is. w_iter W' = i + 1 \<and> (i + 1) mod check_termination S = 0) \<or>
       rc = 1 \<and> w_status W' = w_status ?W2 \<and> w_iter W' = last (w_iter ?W2 # map Suc is)"
      using Cons.IH[OF next_done] by (elim exE conjE) (rule that)
    have "admm_loop K F C S (i # is) W = Some (rc, W')"
      using 1(1) 2(1) False save_slack_eq[OF shape] by simp
    then show ?thesis using 2(2,3) 1(3,5) False by auto
  qed
qed simp

lemma tiny_solve_ok:
  assumes C: "cache_shape C" and W: "work_shape W" and c: "0 < check_termination S"
  shows "\<exists>rc W'. tiny_solve K F C S W = Some (rc, W') \<and> pass_done S W W' \<and>
    (rc = 0 \<and> w_status W' = 1 \<and> converged C S W' \<and> 0 < w_iter W' \<and> w_iter W' \<le> max_iter S \<and>
       w_iter W' mod check_termination S = 0 \<or>
     rc = 1 \<and> w_status W' = 11 \<and> w_iter W' = max 1 (max_iter S))"
proof -
  let ?W = "W\<lparr>w_status := 11, w_iter := 1\<rparr>"
  have "work_shape ?W" using W by (simp add: work_shape_def)
  then obtain W1 where 1: "forward_pass K C ?W = Some W1" "work_shape W1" "other_vars W1 = other_vars ?W"
    "slice NSTATES 0 (w_x W1) = slice NSTATES 0 (w_x ?W)" "\<forall>i<NHORIZON - 1. control_law C W1 i \<and> dynamics W1 i"
    using forward_steps_ok[OF C, of ?W "NHORIZON - 1"] by (auto simp: forward_pass_def)
  have p1: "problem W1 = problem W" "progress_of W1 = (1, 11)"
    using 1(3) by (simp_all add: other_vars_def view_defs)
  obtain W2 where 2: "updates C S W1 = Some W2" "pass_done S W W2" "progress_of W2 = progress_of W1"
    using updates_ok[OF C 1(2) p1(1), of S] 1(4,5) by auto
  obtain Wa Wb where u: "update_slack K S W1 = Some Wa" "update_dual K Wa = Some Wb"
    "update_linear_cost K F C Wb = Some W2"
    using 2(1) by (auto simp: updates_def Option.bind_eq_Some_conv)
  obtain rc W' where 3: "admm_loop K F C S [0..<max_iter S] W2 = Some (rc, W')" "pass_done S W W'"
    "rc = 0 \<and> w_status W' = 1 \<and> converged C S W' \<and>
       (\<exists>i\<in>set [0..<max_iter S]. w_iter W' = i + 1 \<and> (i + 1) mod check_termination S = 0) \<or>
     rc = 1 \<and> w_status W' = w_status W2 \<and> w_iter W' = last (w_iter W2 # map Suc [0..<max_iter S])"
    using admm_loop_ok[OF C c 2(2), of "[0..<max_iter S]"] by (elim exE conjE) (rule that)
  have "tiny_solve K F C S W = Some (rc, W')"
    unfolding tiny_solve_def 1(1) u Option.bind_lunit by (rule 3(1))
  moreover have "w_iter W2 = 1" "w_status W2 = 11" using 2(3) p1(2) by (simp_all add: progress_of_def)
  moreover have "last (1 # map Suc [0..<max_iter S]) = max 1 (max_iter S)" by (cases "max_iter S") auto
  ultimately show ?thesis using 3(2,3) by auto
qed

end

end
