(* ===== verification/Tinympc_Order.thy ===== *)
theory Tinympc_Order
  imports Tinympc_Solve
begin

text \<open>
  The solver under the order of floats: what the projections and the residual test promise, for
  the two libraries.
\<close>

section \<open>Comparisons\<close>

text \<open>
  A projection does not leave its interval, and what lies below a bound on the largest of some
  values lies below it itself, if it is a number.
\<close>

locale tiny_order = tiny_kernels K F dotp vmin vmax vab maxc
  for K :: "'f matlib" and F :: "('f, 'z) mat_float_scheme" and dotp vmin vmax vab maxc +
  assumes min_le: "\<not> f_less F a (vmin a b)"
    and min_ge: "\<not> f_less F a l \<Longrightarrow> \<not> f_less F b l \<Longrightarrow> \<not> f_less F (vmin a b) l"
    and max_ge: "\<not> f_less F (vmax a b) a"
    and maxc_bounds: "f_less F (maxc xs) t \<Longrightarrow> x \<in> set xs \<Longrightarrow> f_eq F x x \<Longrightarrow> f_less F x t"
begin

lemma projected_in_box:
  assumes "length lo = n" "length hi = n" "length Z = n" "j < n"
  shows "\<not> f_less F (hi ! j) (projected True lo hi Z ! j)"
    and "\<not> f_less F (hi ! j) (lo ! j) \<Longrightarrow> \<not> f_less F (projected True lo hi Z ! j) (lo ! j)"
  using assms by (simp_all add: projected_def min_le min_ge max_ge)

lemma gap_bounds:
  assumes "f_less F (gap a b) t" "length a = n" "length b = n" "j < n"
    and "f_eq F (vab (f_sub F (a ! j) (b ! j))) (vab (f_sub F (a ! j) (b ! j)))"
  shows "f_less F (vab (f_sub F (a ! j) (b ! j))) t"
proof (rule maxc_bounds)
  show "f_less F (maxc (map vab (SUB a b))) t" using assms(1) by (simp add: gap_def)
  show "vab (f_sub F (a ! j) (b ! j)) \<in> set (map vab (SUB a b))"
    using assms(2-4) by (force simp: in_set_conv_nth)
qed (rule assms(5))

text \<open>The slack inputs and states of a solve are in their boxes.\<close>

lemma slacks_in_box:
  assumes "pass_done S W0 W" "work_shape W0"
  shows "en_input_bound S \<Longrightarrow> j < (NHORIZON - 1) * NINPUTS \<Longrightarrow>
      \<not> f_less F (w_u_max W0 ! j) (w_znew W ! j) \<and>
      (\<not> f_less F (w_u_max W0 ! j) (w_u_min W0 ! j) \<longrightarrow> \<not> f_less F (w_znew W ! j) (w_u_min W0 ! j))"
    and "en_state_bound S \<Longrightarrow> j < NHORIZON * NSTATES \<Longrightarrow>
      \<not> f_less F (w_x_max W0 ! j) (w_vnew W ! j) \<and>
      (\<not> f_less F (w_x_max W0 ! j) (w_x_min W0 ! j) \<longrightarrow> \<not> f_less F (w_vnew W ! j) (w_x_min W0 ! j))"
proof -
  have u: "length (w_u_min W0) = (NHORIZON - 1) * NINPUTS" "length (w_u_max W0) = (NHORIZON - 1) * NINPUTS"
    and x: "length (w_x_min W0) = NHORIZON * NSTATES" "length (w_x_max W0) = NHORIZON * NSTATES"
    using assms(2) by (simp_all add: work_shape_def)
  obtain Z Y where Z: "length Z = (NHORIZON - 1) * NINPUTS"
      "w_znew W = projected (en_input_bound S) (w_u_min W0) (w_u_max W0) Z"
    and Y: "length Y = NHORIZON * NSTATES"
      "w_vnew W = projected (en_state_bound S) (w_x_min W0) (w_x_max W0) Y"
    using assms(1) unfolding pass_done_def by blast
  show "\<not> f_less F (w_u_max W0 ! j) (w_znew W ! j) \<and>
      (\<not> f_less F (w_u_max W0 ! j) (w_u_min W0 ! j) \<longrightarrow> \<not> f_less F (w_znew W ! j) (w_u_min W0 ! j))"
    if "en_input_bound S" "j < (NHORIZON - 1) * NINPUTS"
    using projected_in_box[OF u Z(1) that(2)] Z(2) that(1) by simp
  show "\<not> f_less F (w_x_max W0 ! j) (w_vnew W ! j) \<and>
      (\<not> f_less F (w_x_max W0 ! j) (w_x_min W0 ! j) \<longrightarrow> \<not> f_less F (w_vnew W ! j) (w_x_min W0 ! j))"
    if "en_state_bound S" "j < NHORIZON * NSTATES"
    using projected_in_box[OF x Y(1) that(2)] Y(2) that(1) by simp
qed

end

section \<open>The scalar library\<close>

interpretation cpu_solver: tiny_kernels "cpu_kernels F" F "dot_seq F" "cpu_min F" "cpu_max F" "cpu_abs F" "cpu_maxc F"
  by unfold_locales (rule cpu_kernels_agree[unfolded cpu_abs_kernels_def] dot_seq_take)+

locale mat_order = float_chain F for F :: "('f, 'z) mat_float_scheme"
begin

lemma cpu_fold_mono:
  "fold (cpu_max F) xs m = m \<or> f_less F m (fold (cpu_max F) xs m)"
proof (induction xs arbitrary: m)
  case (Cons x xs)
  have "cpu_max F x m = m \<or> f_less F m (cpu_max F x m)" by (simp add: cpu_max_def)
  then show ?case using Cons[of "cpu_max F x m"] unfolding fold_simps by (metis less_trans)
qed simp

lemma cpu_fold_bounds:
  "f_less F (fold (cpu_max F) xs m) t \<Longrightarrow> x \<in> set xs \<Longrightarrow> f_eq F x x \<Longrightarrow> f_less F x t"
proof (induction xs arbitrary: m)
  case (Cons y xs)
  show ?case
  proof (cases "x \<in> set xs")
    case True
    then show ?thesis using Cons.IH[of "cpu_max F y m"] Cons.prems by simp
  next
    case False
    then have x: "x = y" using Cons.prems(2) by simp
    let ?m = "cpu_max F y m"
    have "f_less F ?m t"
      using cpu_fold_mono[of xs ?m] Cons.prems(1) unfolding fold_simps by (metis less_trans)
    moreover have "\<not> f_less F ?m x" using x less_irrefl by (auto simp: cpu_max_def)
    ultimately show ?thesis using not_less_trans[of ?m t x] Cons.prems(3) by blast
  qed
qed simp

end

sublocale mat_order \<subseteq> cpu_order: tiny_order "cpu_kernels F" F "dot_seq F" "cpu_min F" "cpu_max F" "cpu_abs F" "cpu_maxc F"
proof unfold_locales
  show "\<not> f_less F a (cpu_min F a b)" for a b using less_irrefl by (auto simp: cpu_min_def)
  show "\<not> f_less F a l \<Longrightarrow> \<not> f_less F b l \<Longrightarrow> \<not> f_less F (cpu_min F a b) l" for a b l
    by (simp add: cpu_min_def)
  show "\<not> f_less F (cpu_max F a b) a" for a b using less_irrefl by (auto simp: cpu_max_def)
  show "f_less F (cpu_maxc F xs) t \<Longrightarrow> x \<in> set xs \<Longrightarrow> f_eq F x x \<Longrightarrow> f_less F x t" for xs t x
    unfolding cpu_maxc_def by (rule cpu_fold_bounds)
qed

interpretation sim_mat_order: mat_order sim_mat
  by unfold_locales

text \<open>
  What IEEE arithmetic says of values that are not numbers, that is, not equal to themselves: they are neither
  less nor greater than anything, a difference with one of them is none, and numbers are comparable.
\<close>

locale nan_order = mat_order F for F :: "('f, 'z) mat_float_scheme" +
  assumes less_numbers: "f_less F x y \<Longrightarrow> f_eq F x x \<and> f_eq F y y"
    and sub_numbers: "f_eq F (f_sub F x y) (f_sub F x y) \<Longrightarrow> f_eq F x x \<and> f_eq F y y"
    and numbers_compare: "f_eq F x x \<Longrightarrow> f_eq F y y \<Longrightarrow> f_less F x y \<or> f_eq F x y \<or> f_less F y x"
    and lit_number: "f_eq F (f_lit F n k) (f_lit F n k)"
begin

definition at_most :: "'f \<Rightarrow> 'f \<Rightarrow> bool" where "at_most x y \<longleftrightarrow> f_less F x y \<or> f_eq F x y"

lemma not_above: "f_eq F x x \<Longrightarrow> f_eq F y y \<Longrightarrow> \<not> f_less F y x \<Longrightarrow> at_most x y"
  using numbers_compare by (auto simp: at_most_def)

lemma distance_number:
  assumes "f_eq F (cpu_abs F (f_sub F x y)) (cpu_abs F (f_sub F x y))"
  shows "f_eq F x x \<and> f_eq F y y"
proof (cases "f_less F (f_sub F x y) (f_zero F)")
  case True
  then show ?thesis by (intro sub_numbers conjunct1[OF less_numbers])
next
  case False
  then show ?thesis using assms by (intro sub_numbers) (simp add: cpu_abs_def)
qed

end

interpretation sim_nan_order: nan_order sim_mat
  by unfold_locales (auto simp: sim_mat_simps split: option.splits)

section \<open>The vector library\<close>

lemma rvv_tiny_kernels:
  assumes "rvv_laws V" "\<And>x y. f_mul F x y = f_mul F y x"
  shows "tiny_kernels (rvv_kernels V F) F (rvv_dot V F) (vfmin V) (vfmax V) (vfabs V) (rvv_maxc V F)"
proof unfold_locales
  show "kernels_agree (rvv_kernels V F)
      (abs_kernels F (rvv_dot V F) (vfmin V) (vfmax V) (vfabs V) (rvv_maxc V F))"
    using rvv_laws.rvv_kernels_agree[OF assms] by (simp add: rvv_abs_kernels_def)
  show "rvv_dot V F k (take k a) (take k b) = rvv_dot V F k a b" for k a b
    by (rule rvv_laws.rvv_dot_take[OF assms(1)])
qed

interpretation sim_rvv_solver: tiny_kernels "rvv_kernels (sim_rvv tail) sim_mat" sim_mat "rvv_dot (sim_rvv tail) sim_mat"
    "vfmin (sim_rvv tail)" "vfmax (sim_rvv tail)" "vfabs (sim_rvv tail)" "rvv_maxc (sim_rvv tail) sim_mat"
  by (rule rvv_tiny_kernels[OF sim_unit.rvv_laws_axioms sim_mul_comm])

end
