(* ===== verification/Tinympc_Pair.thy ===== *)
theory Tinympc_Pair
  imports Tinympc_Order
begin

text \<open>
  Two kernel libraries under the solver: where their kernels compute the same functions of the
  elements in range, the solver computes the same workspace over both.
\<close>

locale tiny_pair =
  left: tiny_kernels K F dotp vmin vmax vab maxc + right: tiny_kernels K' F dotp vmin vmax vab maxc
  for K K' :: "'f matlib" and F :: "('f, 'z) mat_float_scheme" and dotp vmin vmax vab maxc
begin

text \<open>The steps return, with the sizes kept, and with the same result.\<close>

lemma forward_pass_1_agree:
  assumes "cache_shape C" "work_shape W" "i < NHORIZON - 1"
  shows "forward_pass_1 K' C i W = forward_pass_1 K C i W" "\<exists>W'. forward_pass_1 K C i W = Some W' \<and> work_shape W'"
  unfolding left.forward_pass_1_eq[OF assms] right.forward_pass_1_eq[OF assms]
  using assms(2,3) by (auto simp: left.shape_defs slice_def)

lemma forward_pass_2_agree:
  assumes "work_shape W" "i < NHORIZON - 1"
  shows "forward_pass_2 K' i W = forward_pass_2 K i W"
  unfolding left.forward_pass_2_eq[OF assms] right.forward_pass_2_eq[OF assms] ..

lemma backward_pass_1_agree:
  assumes "cache_shape C" "work_shape W" "i < NHORIZON - 1"
  shows "backward_pass_1 K' C i W = backward_pass_1 K C i W" "\<exists>W'. backward_pass_1 K C i W = Some W' \<and> work_shape W'"
  unfolding left.backward_pass_1_eq[OF assms] right.backward_pass_1_eq[OF assms]
  using assms(2,3) by (auto simp: left.shape_defs slice_def)

lemma backward_pass_2_agree:
  assumes "cache_shape C" "work_shape W" "i < NHORIZON - 1"
  shows "backward_pass_2 K' C i W = backward_pass_2 K C i W" "\<exists>W'. backward_pass_2 K C i W = Some W' \<and> work_shape W'"
  unfolding left.backward_pass_2_eq[OF assms] right.backward_pass_2_eq[OF assms]
  using assms(2,3) by (auto simp: left.shape_defs slice_def)

lemma update_linear_cost_2_agree:
  assumes "work_shape W" "i < NHORIZON"
  shows "update_linear_cost_2 K' i W = update_linear_cost_2 K i W"
    "\<exists>W'. update_linear_cost_2 K i W = Some W' \<and> work_shape W'"
  unfolding left.update_linear_cost_2_eq[OF assms] right.update_linear_cost_2_eq[OF assms]
  using assms by (auto simp: left.shape_defs slice_def)

section \<open>The passes over the horizon\<close>

lemma forward_steps_agree:
  assumes C: "cache_shape C" and W: "work_shape W"
  shows "k \<le> NHORIZON - 1 \<Longrightarrow> forward_steps K' C [0..<k] W = forward_steps K C [0..<k] W"
proof (induction k)
  case (Suc k)
  then have k: "k < NHORIZON - 1" by simp
  obtain W1 where 1: "forward_steps K C [0..<k] W = Some W1" "work_shape W1"
    using left.forward_steps_ok[OF C W, of k] k by auto
  obtain W2 where 2: "forward_pass_1 K C k W1 = Some W2" "work_shape W2"
    using forward_pass_1_agree(2)[OF C 1(2) k] by blast
  have "forward_steps K' C [k] W1 = forward_steps K C [k] W1"
    using forward_pass_1_agree(1)[OF C 1(2) k] forward_pass_2_agree[OF 2(2) k] 2(1)
    by (cases "forward_pass_2 K k W2") simp_all
  moreover have "forward_steps K' C [0..<k] W = Some W1" using Suc 1(1) by simp
  ultimately show ?case
    by (simp only: upt_Suc_append[OF le0] left.forward_steps_append right.forward_steps_append 1(1)
        Option.bind_lunit)
qed simp

lemma backward_steps_agree:
  assumes C: "cache_shape C"
  shows "work_shape W \<Longrightarrow> set is \<subseteq> {0..<NHORIZON - 1} \<Longrightarrow> backward_steps K' C is W = backward_steps K C is W"
proof (induction "is" arbitrary: W)
  case (Cons i "is")
  then have i: "i < NHORIZON - 1" by simp
  obtain W1 where 1: "backward_pass_1 K C i W = Some W1" "work_shape W1"
    using backward_pass_1_agree(2)[OF C Cons.prems(1) i] by blast
  obtain W2 where 2: "backward_pass_2 K C i W1 = Some W2" "work_shape W2"
    using backward_pass_2_agree(2)[OF C 1(2) i] by blast
  have "backward_steps K' C is W2 = backward_steps K C is W2" using Cons.IH[OF 2(2)] Cons.prems(2) by simp
  then show ?case
    using backward_pass_1_agree(1)[OF C Cons.prems(1) i] backward_pass_2_agree(1)[OF C 1(2) i] 1(1) 2(1) by simp
qed simp

lemma update_primal_agree:
  assumes "cache_shape C" "work_shape W"
  shows "update_primal K' C W = update_primal K C W"
proof -
  obtain W1 where 1: "backward_pass K C W = Some W1" "work_shape W1"
    using left.backward_steps_ok[OF assms, of "rev [0..<NHORIZON - 1]"] by (auto simp: backward_pass_def)
  have "backward_pass K' C W = Some W1"
    using backward_steps_agree[OF assms, of "rev [0..<NHORIZON - 1]"] 1(1) by (simp add: backward_pass_def)
  then show ?thesis
    using 1(1) forward_steps_agree[OF assms(1) 1(2), of "NHORIZON - 1"]
    by (simp add: update_primal_def forward_pass_def)
qed

lemma linear_cost_steps_agree:
  "work_shape W \<Longrightarrow> set is \<subseteq> {0..<NHORIZON} \<Longrightarrow> linear_cost_steps K' is W = linear_cost_steps K is W"
proof (induction "is" arbitrary: W)
  case (Cons i "is")
  then have i: "i < NHORIZON" by simp
  obtain W1 where 1: "update_linear_cost_2 K i W = Some W1" "work_shape W1"
    using update_linear_cost_2_agree(2)[OF Cons.prems(1) i] by blast
  have "linear_cost_steps K' is W1 = linear_cost_steps K is W1" using Cons.IH[OF 1(2)] Cons.prems(2) by simp
  then show ?case using update_linear_cost_2_agree(1)[OF Cons.prems(1) i] 1(1) by simp
qed simp

section \<open>Slack, duals and costs\<close>

lemma update_linear_cost_agree:
  assumes C: "cache_shape C" and W: "work_shape W"
  shows "update_linear_cost K' F C W = update_linear_cost K F C W"
proof -
  obtain W1 where 1: "update_linear_cost_1 K F C W = Some W1" "work_shape W1"
    "update_linear_cost_1 K' F C W = Some W1"
    using left.update_linear_cost_1_eq[OF W, of C] right.update_linear_cost_1_eq[OF W, of C] W
    by (simp add: left.shape_defs)
  obtain x1 q where 2: "linear_cost_steps K [0..<NHORIZON] W1 = Some (W1\<lparr>w_x1 := x1, w_q := q\<rparr>)"
    and len: "length x1 = NSTATES" "length q = NHORIZON * NSTATES"
    using left.linear_cost_steps_ok[OF 1(2), of "[0..<NHORIZON]"] by auto
  let ?W2 = "W1\<lparr>w_x1 := x1, w_q := q\<rparr>"
  have steps: "linear_cost_steps K' [0..<NHORIZON] W1 = Some ?W2"
    using linear_cost_steps_agree[OF 1(2), of "[0..<NHORIZON]"] 2 by simp
  have W2: "work_shape ?W2" using 1(2) len by (simp add: work_shape_def)
  obtain W3 where 3: "update_linear_cost_3 K C ?W2 = Some W3" "work_shape W3" "update_linear_cost_3 K' C ?W2 = Some W3"
    unfolding left.update_linear_cost_3_eq[OF W2] right.update_linear_cost_3_eq[OF W2]
    using W2 by (simp add: left.shape_defs)
  have "update_linear_cost_4 K' C W3 = update_linear_cost_4 K C W3"
    unfolding left.update_linear_cost_4_eq[OF C 3(2)] right.update_linear_cost_4_eq[OF C 3(2)] ..
  then show ?thesis unfolding update_linear_cost_def 1(1,3) 2 steps 3(1,3) Option.bind_lunit .
qed

lemma residuals_agree:
  assumes "work_shape W"
  shows "residuals K' F C W = residuals K F C W"
  using assms
  by (simp add: residuals_def primal_residual_state_def dual_residual_state_def primal_residual_input_def
      dual_residual_input_def left.shape_defs left.kernel_eqs right.kernel_eqs)

lemma update_agree:
  assumes "work_shape W"
  shows "update_slack K' S W = update_slack K S W" and "update_dual K' W = update_dual K W"
    and "save_slack K' W = save_slack K W"
  unfolding left.update_slack_eq[OF assms] right.update_slack_eq[OF assms] left.update_dual_eq[OF assms]
    right.update_dual_eq[OF assms] left.save_slack_eq[OF assms] right.save_slack_eq[OF assms] by (rule refl)+

lemma update_slack_shape:
  assumes "work_shape W"
  shows "\<exists>W'. update_slack K S W = Some W' \<and> work_shape W'"
  unfolding left.update_slack_eq[OF assms] using assms by (simp add: left.shape_defs left.projected_def)

section \<open>The solver\<close>

text \<open>Behind the roll-out, the two libraries take the same steps.\<close>

lemma updates_agree:
  assumes C: "cache_shape C" and W: "work_shape W"
  shows "\<exists>Wa Wb W'. update_slack K S W = Some Wa \<and> update_slack K' S W = Some Wa \<and>
    update_dual K Wa = Some Wb \<and> update_dual K' Wa = Some Wb \<and>
    update_linear_cost K F C Wb = Some W' \<and> update_linear_cost K' F C Wb = Some W' \<and> work_shape W'"
proof -
  obtain Wa where a: "update_slack K S W = Some Wa" "work_shape Wa" using update_slack_shape[OF W] by blast
  obtain Wb where b: "update_dual K Wa = Some Wb" "work_shape Wb" using left.update_dual_ok[OF a(2)] by blast
  obtain W' where c: "update_linear_cost K F C Wb = Some W'" "work_shape W'"
    using left.update_linear_cost_ok[OF C b(2)] by blast
  show ?thesis
    using a(1) b(1) c update_agree(1)[OF W, of S] update_agree(2)[OF a(2)] update_linear_cost_agree[OF C b(2)]
    by simp
qed

lemma admm_pass_agree:
  assumes C: "cache_shape C" and W: "work_shape W"
  shows "admm_pass K' F C S i W = admm_pass K F C S i W"
proof -
  let ?W = "W\<lparr>w_iter := i + 1\<rparr>"
  have s: "work_shape ?W" using W by (simp add: work_shape_def)
  obtain W1 where 1: "update_primal K C ?W = Some W1" "work_shape W1"
    using left.update_primal_ok[OF C s] by blast
  have primal: "update_primal K' C ?W = Some W1" using update_primal_agree[OF C s] 1(1) by simp
  obtain Wa Wb W2 where 2: "update_slack K S W1 = Some Wa" "update_slack K' S W1 = Some Wa"
    "update_dual K Wa = Some Wb" "update_dual K' Wa = Some Wb"
    "update_linear_cost K F C Wb = Some W2" "update_linear_cost K' F C Wb = Some W2" "work_shape W2"
    using updates_agree[OF C 1(2), of S] by blast
  show ?thesis
    unfolding admm_pass_def 1(1) primal 2(1-6) Option.bind_lunit residuals_agree[OF 2(7)] ..
qed

lemma admm_loop_agree:
  assumes C: "cache_shape C" and c: "0 < check_termination S"
  shows "work_shape W \<Longrightarrow> admm_loop K' F C S is W = admm_loop K F C S is W"
proof (induction "is" arbitrary: W)
  case (Cons i "is")
  obtain b W1 where 1: "admm_pass K F C S i W = Some (b, W1)" "left.pass_done S W W1"
    using left.admm_pass_ok[OF C Cons.prems refl refl c, of i] by blast
  have W1: "work_shape W1" using 1(2) by (simp add: left.pass_done_def)
  then have "work_shape (W1\<lparr>w_v := w_vnew W1, w_z := w_znew W1\<rparr>)" by (simp add: work_shape_def)
  from Cons.IH[OF this] show ?case
    using 1(1) admm_pass_agree[OF C Cons.prems, of S i] update_agree(3)[OF W1] left.save_slack_eq[OF W1]
    by simp
qed simp

lemma tiny_solve_agree:
  assumes C: "cache_shape C" and W: "work_shape W" and c: "0 < check_termination S"
  shows "tiny_solve K' F C S W = tiny_solve K F C S W"
proof -
  let ?W = "W\<lparr>w_status := 11, w_iter := 1\<rparr>"
  have s: "work_shape ?W" using W by (simp add: work_shape_def)
  obtain W1 where 1: "forward_pass K C ?W = Some W1" "work_shape W1"
    using left.forward_steps_ok[OF C s, of "NHORIZON - 1"] by (auto simp: forward_pass_def)
  have fwd: "forward_pass K' C ?W = Some W1"
    using forward_steps_agree[OF C s, of "NHORIZON - 1"] 1(1) by (simp add: forward_pass_def)
  obtain Wa Wb W2 where 2: "update_slack K S W1 = Some Wa" "update_slack K' S W1 = Some Wa"
    "update_dual K Wa = Some Wb" "update_dual K' Wa = Some Wb"
    "update_linear_cost K F C Wb = Some W2" "update_linear_cost K' F C Wb = Some W2" "work_shape W2"
    using updates_agree[OF C 1(2), of S] by blast
  show ?thesis
    unfolding tiny_solve_def 1(1) fwd 2(1-6) Option.bind_lunit by (rule admm_loop_agree[OF C c 2(7)])
qed

end

section \<open>The two libraries\<close>

text \<open>The closed forms are a library too; running the solver over them takes fewer steps.\<close>

interpretation cpu_closed: tiny_kernels "cpu_abs_kernels F" F "dot_seq F" "cpu_min F" "cpu_max F" "cpu_abs F" "cpu_maxc F"
proof unfold_locales
  show "kernels_agree (cpu_abs_kernels F)
      (abs_kernels F (dot_seq F) (cpu_min F) (cpu_max F) (cpu_abs F) (cpu_maxc F))"
    by (simp add: kernels_agree_def cpu_abs_kernels_def)
qed (rule dot_seq_take)

interpretation cpu_pair: tiny_pair "cpu_kernels F" "cpu_abs_kernels F" F "dot_seq F" "cpu_min F" "cpu_max F"
    "cpu_abs F" "cpu_maxc F"
  by unfold_locales

text \<open>Exact numbers: every two are ordered, and no rounding.\<close>

definition exact_unit :: "'f rvv_api \<Rightarrow> ('f, 'z) mat_float_scheme \<Rightarrow> bool" where
  "exact_unit V F \<longleftrightarrow> rvv_exact V F \<and> rvv_order V F \<and> (\<forall>x y. comparable F x y) \<and>
     (\<forall>x y. f_mul F x y = f_mul F y x)"

lemma rvv_cpu_agree:
  assumes "exact_unit V F"
  shows "kernels_agree (rvv_kernels V F) (cpu_kernels F)"
proof -
  have L: "rvv_laws V" using assms by (simp add: exact_unit_def rvv_exact_def)
  have R: "rvv_order V F" and E: "rvv_exact V F" and o: "\<And>x y. comparable F x y"
    and c: "\<And>x y. f_mul F x y = f_mul F y x"
    using assms by (simp_all add: exact_unit_def)
  show ?thesis
    unfolding kernels_agree_def rvv_kernels_def cpu_kernels_def matlib.simps
    by (intro allI impI conjI; (elim conjE)?)
      (rule rvv_order.maxcoeff_rvv_eq[OF R _ o] rvv_order.cwiseabs_rvv_eq[OF R _ _ o]
        rvv_order.cwise_order_eq[OF R _ _ _ o] rvv_laws.matset_rvv_eq[OF L] rvv_laws.matneg_rvv_eq[OF L]
        rvv_laws.matmulf_rvv_eq[OF L _ _ c] rvv_laws.transpose_rvv_eq[OF L] rvv_laws.matsetv_rvv_eq[OF L]
        rvv_laws.lanewise_kernels_eq[OF L] rvv_exact.matvec_rvv_exact[OF E]; assumption)+
qed

lemma kernels_agree_trans: "kernels_agree K A \<Longrightarrow> kernels_agree A B \<Longrightarrow> kernels_agree K B"
  unfolding kernels_agree_def by presburger

lemma rvv_cpu_pair:
  assumes "exact_unit V F"
  shows "tiny_pair (cpu_kernels F) (rvv_kernels V F) F (dot_seq F) (cpu_min F) (cpu_max F) (cpu_abs F) (cpu_maxc F)"
proof -
  have "kernels_agree (rvv_kernels V F) (abs_kernels F (dot_seq F) (cpu_min F) (cpu_max F) (cpu_abs F) (cpu_maxc F))"
    using kernels_agree_trans[OF rvv_cpu_agree[OF assms] cpu_kernels_agree] by (simp add: cpu_abs_kernels_def)
  then have "tiny_kernels (rvv_kernels V F) F (dot_seq F) (cpu_min F) (cpu_max F) (cpu_abs F) (cpu_maxc F)"
    by unfold_locales (simp_all add: dot_seq_take)
  then show ?thesis
    by (rule tiny_pair.intro[OF cpu_solver.tiny_kernels_axioms])
qed

text \<open>Integers in millionths as exact numbers.\<close>

definition int_mat :: "int mat_float" where
  "int_mat = \<lparr>f_lit = (\<lambda>m k. m * 10 ^ (6 - k)), f_add = (+), f_sub = (-), f_mul = (\<lambda>x y. x * y div 1000000),
     f_div = (\<lambda>x y. x * 1000000 div y), f_less = (<), f_eq = (=), f_of_int = (\<lambda>n. n * 1000000),
     f_to_u32 = (\<lambda>x. word_of_int (x div 1000000)), f_bits = word_of_int, f_neg = uminus, f_sqrt = (\<lambda>x. int (nat x)),
     MATLIB_FLOAT_MIN = 1, MATLIB_FLOAT_MAX = 10 ^ 12\<rparr>"

definition int_rvv :: "int rvv_api" where
  "int_rvv = \<lparr>vsetvlmax = 4, vsetvl = min 4, vfmin = cpu_min int_mat, vfmax = cpu_max int_mat, vfabs = abs,
     vfmacc = (\<lambda>s x y. s + x * y div 1000000), vfredmax = fold (cpu_max int_mat),
     vfredmin = fold (cpu_min int_mat), vfredusum = fold (+), vtail = (\<lambda>x. x)\<rparr>"

lemma int_exact: "exact_unit int_rvv int_mat"
proof -
  have "rvv_exact int_rvv int_mat"
    by unfold_locales (auto simp: int_rvv_def int_mat_def)
  moreover have "rvv_order int_rvv int_mat"
    by unfold_locales (auto simp: int_rvv_def int_mat_def cpu_abs_def mult_right_mono not_less)
  ultimately show ?thesis by (auto simp: exact_unit_def comparable_def int_mat_def mult.commute)
qed

interpretation int_pair: tiny_pair "cpu_kernels int_mat" "rvv_kernels int_rvv int_mat" int_mat "dot_seq int_mat"
    "cpu_min int_mat" "cpu_max int_mat" "cpu_abs int_mat" "cpu_maxc int_mat"
  by (rule rvv_cpu_pair[OF int_exact])

end
