(* ===== verification/Tinympc_Problem.thy ===== *)
theory Tinympc_Problem
  imports Tinympc_Pair Rose_Flight
begin

text \<open>
  The solver in its programs: the default settings (\<open>tiny_init\<close> of \<open>admm_rvv.cpp\<close>), the problem the
  flight and navigation controllers load (\<open>mpc_init\<close>) and the solve of their control blocks, and the
  benchmark \<open>samples/tinympc_fp16_bench/src/main.cpp\<close>. The numbers of the problem (a header of
  constants) are a parameter. The pointer tables \<open>tiny_init\<close> sets up are those of the types' theory.
\<close>

record 'f problem_data =
  rho_value :: 'f
  Kinf_data :: "'f list"
  Pinf_data :: "'f list"
  Quu_inv_data :: "'f list"
  AmBKt_data :: "'f list"
  coeff_d2p_data :: "'f list"
  Adyn_data :: "'f list"
  Bdyn_data :: "'f list"
  Q_data :: "'f list"
  R_data :: "'f list"

record 'f tiny_solver =
  sv_cache :: "'f tiny_cache"
  sv_settings :: "'f tiny_settings"
  sv_work :: "'f tiny_work"

abbreviation "nst \<equiv> Tinympc_Types.NSTATES"

section \<open>Initialisation\<close>

definition tiny_init :: "('f, 'z) mat_float_scheme \<Rightarrow> 'f tiny_solver \<Rightarrow> 'f tiny_solver" where
  "tiny_init F s = s\<lparr>
     sv_settings := \<lparr>abs_pri_tol = f_lit F 1 3, abs_dua_tol = f_lit F 1 3, max_iter = 10,
       check_termination = 1, en_state_bound = True, en_input_bound = True\<rparr>,
     sv_work := (sv_work s)\<lparr>w_status := 0, w_iter := 0, w_primal_residual_state := f_zero F,
       w_primal_residual_input := f_zero F, w_dual_residual_state := f_zero F,
       w_dual_residual_input := f_zero F\<rparr>\<rparr>"

definition load_cache :: "'f matlib \<Rightarrow> 'f problem_data \<Rightarrow> 'f tiny_cache \<Rightarrow> 'f tiny_cache option" where
  "load_cache K P C = do {
     Kinf \<leftarrow> k_matsetv K (c_Kinf C) (Kinf_data P) NINPUTS nst;
     KinfT \<leftarrow> k_transpose K Kinf (c_KinfT C) NINPUTS nst;
     Pinf \<leftarrow> k_matsetv K (c_Pinf C) (Pinf_data P) nst nst;
     PinfT \<leftarrow> k_transpose K Pinf (c_PinfT C) nst nst;
     Quu_inv \<leftarrow> k_matsetv K (c_Quu_inv C) (Quu_inv_data P) NINPUTS NINPUTS;
     AmBKt \<leftarrow> k_matsetv K (c_AmBKt C) (AmBKt_data P) nst nst;
     AmBKtT \<leftarrow> k_transpose K AmBKt (c_AmBKtT C) nst nst;
     coeff_d2p \<leftarrow> k_matsetv K (c_coeff_d2p C) (coeff_d2p_data P) nst NINPUTS;
     Some (C\<lparr>c_Kinf := Kinf, c_KinfT := KinfT, c_Pinf := Pinf, c_PinfT := PinfT, c_Quu_inv := Quu_inv,
       c_AmBKt := AmBKt, c_AmBKtT := AmBKtT, c_coeff_d2p := coeff_d2p\<rparr>) }"

definition load_model :: "'f matlib \<Rightarrow> 'f problem_data \<Rightarrow> 'f tiny_work \<Rightarrow> 'f tiny_work option" where
  "load_model K P W = do {
     Adyn \<leftarrow> k_matsetv K (w_Adyn W) (Adyn_data P) nst nst;
     AdynT \<leftarrow> k_transpose K Adyn (w_AdynT W) nst nst;
     Bdyn \<leftarrow> k_matsetv K (w_Bdyn W) (Bdyn_data P) nst NINPUTS;
     BdynT \<leftarrow> k_transpose K Bdyn (w_BdynT W) nst NINPUTS;
     Q \<leftarrow> k_matsetv K (w_Q W) (Q_data P) 1 nst;
     R \<leftarrow> k_matsetv K (w_R W) (R_data P) 1 NINPUTS;
     Some (W\<lparr>w_Adyn := Adyn, w_AdynT := AdynT, w_Bdyn := Bdyn, w_BdynT := BdynT, w_Q := Q, w_R := R\<rparr>) }"

definition load_bounds ::
    "'f matlib \<Rightarrow> ('f, 'z) mat_float_scheme \<Rightarrow> 'f tiny_work \<Rightarrow> 'f tiny_work option" where
  "load_bounds K F W = do {
     u_min \<leftarrow> k_matset K (w_u_min W) (f_lit F (- 583) 3) (NHORIZON - 1) NINPUTS;
     u_max \<leftarrow> k_matset K (w_u_max W) (f_lit F 417 3) (NHORIZON - 1) NINPUTS;
     x_min \<leftarrow> k_matset K (w_x_min W) (f_lit F (- 5) 0) NHORIZON nst;
     x_max \<leftarrow> k_matset K (w_x_max W) (f_lit F 5 0) NHORIZON nst;
     Some (W\<lparr>w_u_min := u_min, w_u_max := u_max, w_x_min := x_min, w_x_max := x_max\<rparr>) }"

fun load_reference ::
    "'f matlib \<Rightarrow> ('f, 'z) mat_float_scheme \<Rightarrow> nat list \<Rightarrow> 'f list \<Rightarrow> 'f list option" where
  "load_reference K F [] M = Some M"
| "load_reference K F (j # js) M = do {
     M \<leftarrow> into_vec nst j (\<lambda>p. k_matsetv K p (replicate nst (f_zero F)) 1 nst) M;
     load_reference K F js M }"

definition mpc_init ::
    "'f matlib \<Rightarrow> ('f, 'z) mat_float_scheme \<Rightarrow> 'f problem_data \<Rightarrow> 'f tiny_solver \<Rightarrow> 'f tiny_solver option" where
  "mpc_init K F P s = (let s = tiny_init F s in do {
     C \<leftarrow> load_cache K P (sv_cache s\<lparr>c_rho := rho_value P\<rparr>);
     W \<leftarrow> load_model K P (sv_work s);
     W \<leftarrow> load_bounds K F W;
     Xref \<leftarrow> load_reference K F [0..<NHORIZON] (w_Xref W);
     Some (s\<lparr>sv_cache := C, sv_work := W\<lparr>w_Xref := Xref\<rparr>\<rparr>) })"

text \<open>The navigation controller's \<open>mpc_init\<close> has the same statements.\<close>

definition nav_mpc_init ::
    "'f matlib \<Rightarrow> ('f, 'z) mat_float_scheme \<Rightarrow> 'f problem_data \<Rightarrow> 'f tiny_solver \<Rightarrow> 'f tiny_solver option" where
  "nav_mpc_init K F P s = mpc_init K F P s"

text \<open>The benchmark's problem: a fixed \<open>rho\<close>, no terminal cost, and a test that is never due.\<close>

definition load_problem ::
    "'f matlib \<Rightarrow> ('f, 'z) mat_float_scheme \<Rightarrow> 'f problem_data \<Rightarrow> 'f tiny_solver \<Rightarrow> 'f tiny_solver option" where
  "load_problem K F P s = (let s = tiny_init F s in do {
     C \<leftarrow> load_cache K P (sv_cache s\<lparr>c_rho := f_lit F 63 0\<rparr>);
     W \<leftarrow> load_model K P (sv_work s);
     W \<leftarrow> load_bounds K F W;
     Xref \<leftarrow> load_reference K F [0..<NHORIZON] (w_Xref W);
     Pinf \<leftarrow> k_matset K (c_Pinf C) (f_zero F) nst nst;
     PinfT \<leftarrow> k_matset K (c_PinfT C) (f_zero F) nst nst;
     Some (s\<lparr>sv_cache := C\<lparr>c_Pinf := Pinf, c_PinfT := PinfT\<rparr>, sv_work := W\<lparr>w_Xref := Xref\<rparr>,
       sv_settings := (sv_settings s)\<lparr>max_iter := 10, check_termination := 11, en_state_bound := True,
         en_input_bound := True\<rparr>\<rparr>) })"

section \<open>A solve\<close>

text \<open>The initial state goes into the first column, the duals are cleared, and the solver runs.\<close>

definition mpc_run ::
    "'f matlib \<Rightarrow> ('f, 'z) mat_float_scheme \<Rightarrow> 'f list \<Rightarrow> 'f tiny_solver \<Rightarrow> (int \<times> 'f tiny_solver) option" where
  "mpc_run K F state s = (let W = sv_work s in do {
     x \<leftarrow> into_vec nst 0 (\<lambda>p. k_matsetv K p state 1 nst) (w_x W);
     y \<leftarrow> k_matset K (w_y W) (f_zero F) (NHORIZON - 1) NINPUTS;
     g \<leftarrow> k_matset K (w_g W) (f_zero F) NHORIZON nst;
     (rc, W) \<leftarrow> tiny_solve K F (sv_cache s) (sv_settings s) (W\<lparr>w_x := x, w_y := y, w_g := g\<rparr>);
     Some (rc, s\<lparr>sv_work := W\<rparr>) })"

text \<open>The control block's solve, which does not look at the solver's result.\<close>

definition mpc_control ::
    "'f matlib \<Rightarrow> ('f, 'z) mat_float_scheme \<Rightarrow> 'f list \<Rightarrow> 'f tiny_solver \<Rightarrow> ('f list \<times> 'f tiny_solver) option" where
  "mpc_control K F err s = do {
     (rc, s) \<leftarrow> mpc_run K F err s;
     Some (map (\<lambda>i. vec NINPUTS 0 (w_u (sv_work s)) ! i) [0..<NACTIONS], s) }"

text \<open>The benchmark's \<open>main\<close>: the iterations and the status of every run, without the cycle counts.\<close>

definition NRUNS :: nat where "NRUNS = 32"

definition bench_state :: "('f, 'z) mat_float_scheme \<Rightarrow> 'f list" where
  "bench_state F = [f_lit F 5 1, f_lit F 5 1, f_lit F 1 0] @ replicate 9 (f_zero F)"

fun bench_runs ::
    "'f matlib \<Rightarrow> ('f, 'z) mat_float_scheme \<Rightarrow> nat \<Rightarrow> 'f tiny_solver \<Rightarrow> (nat \<times> int) list \<Rightarrow>
      ((nat \<times> int) list \<times> 'f tiny_solver) option" where
  "bench_runs K F 0 s log = Some (log, s)"
| "bench_runs K F (Suc n) s log = do {
     (rc, s) \<leftarrow> mpc_run K F (bench_state F) s;
     bench_runs K F n s (log @ [(w_iter (sv_work s), w_status (sv_work s))]) }"

definition bench_main ::
    "'f matlib \<Rightarrow> ('f, 'z) mat_float_scheme \<Rightarrow> 'f problem_data \<Rightarrow> 'f tiny_solver \<Rightarrow>
      ((nat \<times> int) list \<times> 'f tiny_solver) option" where
  "bench_main K F P s = do {
     s \<leftarrow> load_problem K F P s;
     bench_runs K F NRUNS s [] }"

section \<open>What the programs keep\<close>

definition data_shape :: "'f problem_data \<Rightarrow> bool" where
  "data_shape P \<longleftrightarrow> length (Kinf_data P) = NINPUTS * nst \<and> length (Pinf_data P) = nst * nst \<and>
     length (Quu_inv_data P) = NINPUTS * NINPUTS \<and> length (AmBKt_data P) = nst * nst \<and>
     length (coeff_d2p_data P) = nst * NINPUTS \<and> length (Adyn_data P) = nst * nst \<and>
     length (Bdyn_data P) = nst * NINPUTS \<and> length (Q_data P) = nst \<and> length (R_data P) = NINPUTS"

definition solver_shape :: "'f tiny_solver \<Rightarrow> bool" where
  "solver_shape s \<longleftrightarrow> cache_shape (sv_cache s) \<and> work_shape (sv_work s)"

text \<open>The loaded problem: the matrices, their transposes, the boxes and the reference.\<close>

definition problem_loaded :: "('f, 'z) mat_float_scheme \<Rightarrow> 'f problem_data \<Rightarrow> 'f tiny_work \<Rightarrow> bool" where
  "problem_loaded F P W \<longleftrightarrow> w_Adyn W = Adyn_data P \<and> w_AdynT W = transposed (Adyn_data P) nst nst \<and>
     w_Bdyn W = Bdyn_data P \<and> w_BdynT W = transposed (Bdyn_data P) nst NINPUTS \<and>
     w_Q W = Q_data P \<and> w_R W = R_data P \<and>
     w_u_min W = replicate ((NHORIZON - 1) * NINPUTS) (f_lit F (- 583) 3) \<and>
     w_u_max W = replicate ((NHORIZON - 1) * NINPUTS) (f_lit F 417 3) \<and>
     w_x_min W = replicate (NHORIZON * nst) (f_lit F (- 5) 0) \<and>
     w_x_max W = replicate (NHORIZON * nst) (f_lit F 5 0) \<and>
     w_Xref W = replicate (NHORIZON * nst) (f_zero F)"

definition cache_loaded :: "'f problem_data \<Rightarrow> 'f tiny_cache \<Rightarrow> bool" where
  "cache_loaded P C \<longleftrightarrow> c_Kinf C = Kinf_data P \<and> c_KinfT C = transposed (Kinf_data P) NINPUTS nst \<and>
     c_Quu_inv C = Quu_inv_data P \<and> c_AmBKt C = AmBKt_data P \<and>
     c_AmBKtT C = transposed (AmBKt_data P) nst nst \<and> c_coeff_d2p C = coeff_d2p_data P"

context tiny_kernels
begin

lemma load_cache_eq:
  assumes "cache_shape C" "data_shape P"
  shows "load_cache K P C = Some (C\<lparr>c_Kinf := Kinf_data P, c_KinfT := transposed (Kinf_data P) NINPUTS nst,
    c_Pinf := Pinf_data P, c_PinfT := transposed (Pinf_data P) nst nst, c_Quu_inv := Quu_inv_data P,
    c_AmBKt := AmBKt_data P, c_AmBKtT := transposed (AmBKt_data P) nst nst, c_coeff_d2p := coeff_d2p_data P\<rparr>)"
  using assms by (simp add: load_cache_def cache_shape_def data_shape_def kernel_eqs)

lemma load_model_eq:
  assumes "work_shape W" "data_shape P"
  shows "load_model K P W = Some (W\<lparr>w_Adyn := Adyn_data P, w_AdynT := transposed (Adyn_data P) nst nst,
    w_Bdyn := Bdyn_data P, w_BdynT := transposed (Bdyn_data P) nst NINPUTS, w_Q := Q_data P, w_R := R_data P\<rparr>)"
  using assms by (simp add: load_model_def work_shape_def data_shape_def kernel_eqs mult.commute)

lemma load_bounds_eq:
  assumes "work_shape W"
  shows "load_bounds K F W = Some (W\<lparr>
    w_u_min := replicate ((NHORIZON - 1) * NINPUTS) (f_lit F (- 583) 3),
    w_u_max := replicate ((NHORIZON - 1) * NINPUTS) (f_lit F 417 3),
    w_x_min := replicate (NHORIZON * nst) (f_lit F (- 5) 0), w_x_max := replicate (NHORIZON * nst) (f_lit F 5 0)\<rparr>)"
  using assms by (simp add: load_bounds_def work_shape_def kernel_eqs)

lemma load_reference_append:
  "load_reference K F (is @ js) M = Option.bind (load_reference K F is M) (load_reference K F js)"
  by (induction "is" arbitrary: M) (auto split: bind_splits)

lemma load_reference_eq:
  "k * nst \<le> length M \<Longrightarrow>
   load_reference K F [0..<k] M = Some (replicate (k * nst) (f_zero F) @ drop (k * nst) M)"
proof (induction k)
  case (Suc k)
  let ?Z = "replicate nst (f_zero F)"
  let ?M = "replicate (k * nst) (f_zero F) @ drop (k * nst) M"
  have IH: "load_reference K F [0..<k] M = Some ?M" using Suc by simp
  have "into_vec nst k (\<lambda>p. k_matsetv K p ?Z 1 nst) ?M = Some (put_slice nst k ?Z ?M)"
    using Suc.prems by (intro into_vec_put) (subst kernel_eqs, auto simp: vec_def)
  also have "put_slice nst k ?Z ?M = replicate (Suc k * nst) (f_zero F) @ drop (Suc k * nst) M"
    by (simp add: put_slice_def replicate_add[symmetric] append_assoc[symmetric] add.commute del: append_assoc)
  finally have step: "into_vec nst k (\<lambda>p. k_matsetv K p ?Z 1 nst) ?M =
      Some (replicate (Suc k * nst) (f_zero F) @ drop (Suc k * nst) M)" .
  have "load_reference K F [0..<Suc k] M = load_reference K F [k] ?M"
    by (simp only: upt_Suc_append[OF le0] load_reference_append IH Option.bind_lunit)
  also have "\<dots> = Some (replicate (Suc k * nst) (f_zero F) @ drop (Suc k * nst) M)"
    by (simp only: load_reference.simps step Option.bind_lunit)
  finally show ?case .
qed simp

text \<open>Loading keeps the sizes and fills every matrix of the problem.\<close>

lemma loaded:
  assumes "work_shape W" "data_shape P"
  shows "\<exists>W' W'' Xref. load_model K P W = Some W' \<and> load_bounds K F W' = Some W'' \<and>
    load_reference K F [0..<NHORIZON] (w_Xref W'') = Some Xref \<and>
    work_shape (W''\<lparr>w_Xref := Xref\<rparr>) \<and> problem_loaded F P (W''\<lparr>w_Xref := Xref\<rparr>)"
proof -
  let ?W' = "W\<lparr>w_Adyn := Adyn_data P, w_AdynT := transposed (Adyn_data P) nst nst,
    w_Bdyn := Bdyn_data P, w_BdynT := transposed (Bdyn_data P) nst NINPUTS, w_Q := Q_data P, w_R := R_data P\<rparr>"
  let ?W'' = "?W'\<lparr>w_u_min := replicate ((NHORIZON - 1) * NINPUTS) (f_lit F (- 583) 3),
    w_u_max := replicate ((NHORIZON - 1) * NINPUTS) (f_lit F 417 3),
    w_x_min := replicate (NHORIZON * nst) (f_lit F (- 5) 0), w_x_max := replicate (NHORIZON * nst) (f_lit F 5 0)\<rparr>"
  have len: "length (transposed a n m) = m * n" for a :: "'f list" and n m by (simp add: transposed_def)
  have W': "work_shape ?W'" using assms by (simp add: work_shape_def data_shape_def len)
  have X: "length (w_Xref W) = NHORIZON * nst" using assms(1) by (simp add: work_shape_def)
  then have "load_reference K F [0..<NHORIZON] (w_Xref ?W'') = Some (replicate (NHORIZON * nst) (f_zero F))"
    by (subst load_reference_eq) simp_all
  moreover have "work_shape (?W''\<lparr>w_Xref := replicate (NHORIZON * nst) (f_zero F)\<rparr>)"
    using W' by (simp add: work_shape_def)
  moreover have "problem_loaded F P (?W''\<lparr>w_Xref := replicate (NHORIZON * nst) (f_zero F)\<rparr>)"
    by (simp add: problem_loaded_def)
  ultimately show ?thesis using load_model_eq[OF assms] load_bounds_eq[OF W'] by blast
qed

lemma tiny_init_shape:
  "solver_shape s \<Longrightarrow> cache_shape (sv_cache (tiny_init F s)) \<and> work_shape (sv_work (tiny_init F s))"
  by (simp add: solver_shape_def tiny_init_def work_shape_def)

lemma mpc_init_ok:
  assumes "solver_shape s" "data_shape P"
  shows "\<exists>s'. mpc_init K F P s = Some s' \<and> solver_shape s' \<and> problem_loaded F P (sv_work s') \<and>
    cache_loaded P (sv_cache s') \<and> c_rho (sv_cache s') = rho_value P \<and>
    sv_settings s' = sv_settings (tiny_init F s)"
proof -
  let ?s = "tiny_init F s"
  have sh: "cache_shape (sv_cache ?s\<lparr>c_rho := rho_value P\<rparr>)" "work_shape (sv_work ?s)"
    using tiny_init_shape[OF assms(1)] by (simp_all add: cache_shape_def)
  obtain W' W'' Xref where 1: "load_model K P (sv_work ?s) = Some W'" "load_bounds K F W' = Some W''"
    "load_reference K F [0..<NHORIZON] (w_Xref W'') = Some Xref"
    "work_shape (W''\<lparr>w_Xref := Xref\<rparr>)" "problem_loaded F P (W''\<lparr>w_Xref := Xref\<rparr>)"
    using loaded[OF sh(2) assms(2)] by blast
  have "mpc_init K F P s = Some (?s\<lparr>sv_cache := the (load_cache K P (sv_cache ?s\<lparr>c_rho := rho_value P\<rparr>)),
      sv_work := W''\<lparr>w_Xref := Xref\<rparr>\<rparr>)"
    unfolding mpc_init_def Let_def load_cache_eq[OF sh(1) assms(2)] 1(1-3) Option.bind_lunit by simp
  moreover have "length (transposed a n m) = m * n" for a :: "'f list" and n m by (simp add: transposed_def)
  ultimately show ?thesis
    using 1(4,5) load_cache_eq[OF sh(1) assms(2)] assms(2)
    by (simp add: solver_shape_def cache_shape_def data_shape_def cache_loaded_def mult.commute)
qed

lemma load_problem_ok:
  assumes "solver_shape s" "data_shape P"
  shows "\<exists>s'. load_problem K F P s = Some s' \<and> solver_shape s' \<and> problem_loaded F P (sv_work s') \<and>
    max_iter (sv_settings s') = 10 \<and> check_termination (sv_settings s') = 11"
proof -
  let ?s = "tiny_init F s"
  have sh: "cache_shape (sv_cache ?s\<lparr>c_rho := f_lit F 63 0\<rparr>)" "work_shape (sv_work ?s)"
    using tiny_init_shape[OF assms(1)] by (simp_all add: cache_shape_def)
  obtain W' W'' Xref where 1: "load_model K P (sv_work ?s) = Some W'" "load_bounds K F W' = Some W''"
    "load_reference K F [0..<NHORIZON] (w_Xref W'') = Some Xref"
    "work_shape (W''\<lparr>w_Xref := Xref\<rparr>)" "problem_loaded F P (W''\<lparr>w_Xref := Xref\<rparr>)"
    using loaded[OF sh(2) assms(2)] by blast
  let ?C = "(the (load_cache K P (sv_cache ?s\<lparr>c_rho := f_lit F 63 0\<rparr>)))
    \<lparr>c_Pinf := replicate (nst * nst) (f_zero F), c_PinfT := replicate (nst * nst) (f_zero F)\<rparr>"
  have len: "length (transposed a n m) = m * n" for a :: "'f list" and n m by (simp add: transposed_def)
  have "load_problem K F P s = Some (?s\<lparr>sv_cache := ?C, sv_work := W''\<lparr>w_Xref := Xref\<rparr>,
      sv_settings := (sv_settings ?s)\<lparr>max_iter := 10, check_termination := 11, en_state_bound := True,
         en_input_bound := True\<rparr>\<rparr>)"
    unfolding load_problem_def Let_def load_cache_eq[OF sh(1) assms(2)] 1(1-3) Option.bind_lunit
    using assms(2) by (simp add: kernel_eqs len data_shape_def)
  moreover have "cache_shape ?C"
    unfolding load_cache_eq[OF sh(1) assms(2)]
    using assms(2) by (simp add: len data_shape_def cache_shape_def mult.commute)
  ultimately show ?thesis using 1(4,5) by (auto simp: solver_shape_def)
qed

text \<open>A run starts at the given state.\<close>

lemma mpc_run_eq:
  assumes s: "solver_shape s" and e: "length state = nst"
  defines "W \<equiv> (sv_work s)\<lparr>w_x := put_slice nst 0 state (w_x (sv_work s)),
    w_y := replicate ((NHORIZON - 1) * NINPUTS) (f_zero F), w_g := replicate (NHORIZON * nst) (f_zero F)\<rparr>"
  shows "work_shape W" and "slice nst 0 (w_x W) = state" and "problem W = problem (sv_work s)"
    and "mpc_run K F state s = Option.bind (tiny_solve K F (sv_cache s) (sv_settings s) W)
      (\<lambda>(rc, W). Some (rc, s\<lparr>sv_work := W\<rparr>))"
proof -
  have W: "work_shape (sv_work s)" using s by (simp add: solver_shape_def)
  then have x: "Suc 0 * nst \<le> length (w_x (sv_work s))" by (auto simp: shape_defs)
  show "work_shape W" using W e x by (simp add: W_def work_shape_def)
  show "slice nst 0 (w_x W) = state" using slice_put_same[OF x e] by (simp add: W_def)
  show "problem W = problem (sv_work s)" by (simp add: W_def problem_def)
  have 1: "into_vec nst 0 (\<lambda>p. k_matsetv K p state 1 nst) (w_x (sv_work s)) =
      Some (put_slice nst 0 state (w_x (sv_work s)))"
    using e x by (intro into_vec_put) (subst kernel_eqs, auto simp: vec_def)
  have 2: "k_matset K (w_y (sv_work s)) (f_zero F) (NHORIZON - 1) NINPUTS =
      Some (replicate ((NHORIZON - 1) * NINPUTS) (f_zero F))"
    "k_matset K (w_g (sv_work s)) (f_zero F) NHORIZON nst = Some (replicate (NHORIZON * nst) (f_zero F))"
    using W by (simp_all add: work_shape_def kernel_eqs)
  show "mpc_run K F state s = Option.bind (tiny_solve K F (sv_cache s) (sv_settings s) W)
      (\<lambda>(rc, W). Some (rc, s\<lparr>sv_work := W\<rparr>))"
    unfolding mpc_run_def Let_def 1 2 Option.bind_lunit W_def by simp
qed

lemma mpc_run_ok:
  assumes s: "solver_shape s" "problem_loaded F P (sv_work s)" and e: "length state = nst"
    and c: "0 < check_termination (sv_settings s)"
  shows "\<exists>rc s'. mpc_run K F state s = Some (rc, s') \<and> solver_shape s' \<and> problem_loaded F P (sv_work s') \<and>
    sv_cache s' = sv_cache s \<and> sv_settings s' = sv_settings s \<and>
    slice nst 0 (w_x (sv_work s')) = state \<and>
    (\<exists>W. problem W = problem (sv_work s) \<and> work_shape W \<and> pass_done (sv_settings s) W (sv_work s')) \<and>
    (rc = 0 \<and> w_status (sv_work s') = 1 \<and> converged (sv_cache s) (sv_settings s) (sv_work s') \<and>
       0 < w_iter (sv_work s') \<and> w_iter (sv_work s') \<le> max_iter (sv_settings s) \<and>
       w_iter (sv_work s') mod check_termination (sv_settings s) = 0 \<or>
     rc = 1 \<and> w_status (sv_work s') = 11 \<and> w_iter (sv_work s') = max 1 (max_iter (sv_settings s)))"
proof -
  let ?C = "sv_cache s" and ?S = "sv_settings s"
  define W where "W = (sv_work s)\<lparr>w_x := put_slice nst 0 state (w_x (sv_work s)),
    w_y := replicate ((NHORIZON - 1) * NINPUTS) (f_zero F), w_g := replicate (NHORIZON * nst) (f_zero F)\<rparr>"
  note run = mpc_run_eq[OF s(1) e, folded W_def]
  have C: "cache_shape ?C" using s(1) by (simp add: solver_shape_def)
  obtain rc W' where 1: "tiny_solve K F ?C ?S W = Some (rc, W')" "pass_done ?S W W'"
    "rc = 0 \<and> w_status W' = 1 \<and> converged ?C ?S W' \<and> 0 < w_iter W' \<and> w_iter W' \<le> max_iter ?S \<and>
       w_iter W' mod check_termination ?S = 0 \<or>
     rc = 1 \<and> w_status W' = 11 \<and> w_iter W' = max 1 (max_iter ?S)"
    using tiny_solve_ok[OF C run(1) c] by (elim exE conjE) (rule that)
  have eq: "mpc_run K F state s = Some (rc, s\<lparr>sv_work := W'\<rparr>)" unfolding run(4) 1(1) by simp
  have prob: "problem W' = problem (sv_work s)" and W': "work_shape W'"
    and x0: "slice nst 0 (w_x W') = state"
    using 1(2) run(2,3) by (simp_all add: pass_done_def)
  have "problem_loaded F P W'" using s(2) prob by (simp add: problem_loaded_def problem_def)
  moreover have "solver_shape (s\<lparr>sv_work := W'\<rparr>)" using C W' by (simp add: solver_shape_def)
  ultimately show ?thesis using eq x0 1(2,3) run(1,3) by (intro exI[of _ rc] exI[of _ "s\<lparr>sv_work := W'\<rparr>"]) auto
qed

end

end
