(* ===== verification/Tinympc_Ready.thy ===== *)
theory Tinympc_Ready
  imports Tinympc_Problem
begin

text \<open>
  What the programs around the solver rely on: a solver that is ready to solve, what initialisation and
  a run keep of that, and a small problem in fixed-point numbers to run the models on.
\<close>

section \<open>Ready to solve\<close>

definition mpc_ready :: "('f, 'z) mat_float_scheme \<Rightarrow> 'f problem_data \<Rightarrow> 'f tiny_solver \<Rightarrow> bool" where
  "mpc_ready F P s \<longleftrightarrow> solver_shape s \<and> problem_loaded F P (sv_work s) \<and> cache_loaded P (sv_cache s) \<and>
     c_rho (sv_cache s) = rho_value P \<and> sv_settings s = sv_settings (tiny_init F s)"

lemma tiny_init_settings:
  "sv_settings (tiny_init F s) = sv_settings (tiny_init F s')"
  "check_termination (sv_settings (tiny_init F s)) = 1" "max_iter (sv_settings (tiny_init F s)) = 10"
  "en_input_bound (sv_settings (tiny_init F s))" "en_state_bound (sv_settings (tiny_init F s))"
  "abs_pri_tol (sv_settings (tiny_init F s)) = f_lit F 1 3"
  by (simp_all add: tiny_init_def)

lemma ready_settings:
  assumes "mpc_ready F P s"
  shows "check_termination (sv_settings s) = 1" "max_iter (sv_settings s) = 10" "en_input_bound (sv_settings s)"
    "en_state_bound (sv_settings s)" "abs_pri_tol (sv_settings s) = f_lit F 1 3"
  using assms tiny_init_settings unfolding mpc_ready_def by metis+

context tiny_kernels
begin

lemma mpc_init_ready:
  assumes "solver_shape s" "data_shape P"
  shows "\<exists>s'. mpc_init K F P s = Some s' \<and> mpc_ready F P s'"
  using mpc_init_ok[OF assms] tiny_init_settings(1) unfolding mpc_ready_def by metis

lemma mpc_run_ready:
  assumes "mpc_ready F P s" "length state = nst"
  shows "\<exists>rc s'. mpc_run K F state s = Some (rc, s') \<and> mpc_ready F P s' \<and>
    slice nst 0 (w_x (sv_work s')) = state \<and>
    (\<exists>W. problem W = problem (sv_work s) \<and> work_shape W \<and> pass_done (sv_settings s) W (sv_work s')) \<and>
    0 < w_iter (sv_work s') \<and> w_iter (sv_work s') \<le> 10 \<and>
    (rc = 0 \<and> w_status (sv_work s') = 1 \<and> converged (sv_cache s) (sv_settings s) (sv_work s') \<or>
     rc = 1 \<and> w_status (sv_work s') = 11 \<and> w_iter (sv_work s') = 10)"
proof -
  have r: "solver_shape s" "problem_loaded F P (sv_work s)" "0 < check_termination (sv_settings s)"
    using assms(1) ready_settings(1)[OF assms(1)] by (simp_all add: mpc_ready_def)
  obtain rc s' where 1: "mpc_run K F state s = Some (rc, s')" "solver_shape s'"
    "problem_loaded F P (sv_work s')" "sv_cache s' = sv_cache s" "sv_settings s' = sv_settings s"
    "slice nst 0 (w_x (sv_work s')) = state"
    "\<exists>W. problem W = problem (sv_work s) \<and> work_shape W \<and> pass_done (sv_settings s) W (sv_work s')"
    "rc = 0 \<and> w_status (sv_work s') = 1 \<and> converged (sv_cache s) (sv_settings s) (sv_work s') \<and>
       0 < w_iter (sv_work s') \<and> w_iter (sv_work s') \<le> max_iter (sv_settings s) \<and>
       w_iter (sv_work s') mod check_termination (sv_settings s) = 0 \<or>
     rc = 1 \<and> w_status (sv_work s') = 11 \<and> w_iter (sv_work s') = max 1 (max_iter (sv_settings s))"
    using mpc_run_ok[OF r(1,2) assms(2) r(3)] by (elim exE conjE) (rule that, (assumption | blast)+)
  have "mpc_ready F P s'"
    using assms(1) 1(2-5) tiny_init_settings(1)[of F s s'] by (simp add: mpc_ready_def)
  moreover have "0 < w_iter (sv_work s') \<and> w_iter (sv_work s') \<le> 10 \<and>
    (rc = 0 \<and> w_status (sv_work s') = 1 \<and> converged (sv_cache s) (sv_settings s) (sv_work s') \<or>
     rc = 1 \<and> w_status (sv_work s') = 11 \<and> w_iter (sv_work s') = 10)"
    using 1(8) unfolding ready_settings(2)[OF assms(1)] by auto
  ultimately show ?thesis using 1(1,6,7) by (intro exI[of _ rc] exI[of _ s'] conjI) blast+
qed

lemma run_rolls_out:
  assumes "mpc_ready F P s" "length state = nst" "mpc_run K F state s = Some (rc, s')"
  shows "slice nst 0 (w_x (sv_work s')) = state" and "i < NHORIZON - 1 \<Longrightarrow>
    slice nst (i + 1) (w_x (sv_work s')) =
      ADD (MV nst nst (Adyn_data P) (slice nst i (w_x (sv_work s'))))
        (MV nst NINPUTS (Bdyn_data P) (slice NINPUTS i (w_u (sv_work s'))))"
proof -
  obtain W where 1: "slice nst 0 (w_x (sv_work s')) = state" "problem W = problem (sv_work s)"
    "pass_done (sv_settings s) W (sv_work s')"
    using mpc_run_ready[OF assms(1,2)] assms(3) by auto
  have "w_Adyn W = Adyn_data P" "w_Bdyn W = Bdyn_data P"
    using 1(2) assms(1) by (simp_all add: mpc_ready_def problem_loaded_def problem_def)
  then have "w_Adyn (sv_work s') = Adyn_data P" "w_Bdyn (sv_work s') = Bdyn_data P"
    using 1(3) by (simp_all add: pass_done_def problem_def)
  then show "i < NHORIZON - 1 \<Longrightarrow> slice nst (i + 1) (w_x (sv_work s')) =
      ADD (MV nst nst (Adyn_data P) (slice nst i (w_x (sv_work s'))))
        (MV nst NINPUTS (Bdyn_data P) (slice NINPUTS i (w_u (sv_work s'))))"
    using 1(3) by (simp add: pass_done_def dynamics_def)
  show "slice nst 0 (w_x (sv_work s')) = state" by (rule 1(1))
qed

text \<open>A run whose test is never due takes all its iterations.\<close>

lemma bench_runs_ten:
  "solver_shape s \<Longrightarrow> problem_loaded F P (sv_work s) \<Longrightarrow> max_iter (sv_settings s) = 10 \<Longrightarrow>
   check_termination (sv_settings s) = 11 \<Longrightarrow>
   \<exists>s'. bench_runs K F n s log = Some (log @ replicate n (10, 11), s')"
proof (induction n arbitrary: s log)
  case (Suc n)
  have len: "length (bench_state F) = nst" by (simp add: bench_state_def tiny_dims)
  obtain rc s' where 1: "mpc_run K F (bench_state F) s = Some (rc, s')" "solver_shape s'"
    "problem_loaded F P (sv_work s')" "sv_settings s' = sv_settings s" and
    "rc = 0 \<and> 0 < w_iter (sv_work s') \<and> w_iter (sv_work s') \<le> 10 \<and> w_iter (sv_work s') mod 11 = 0 \<or>
     rc = 1 \<and> w_status (sv_work s') = 11 \<and> w_iter (sv_work s') = 10"
    using mpc_run_ok[OF Suc.prems(1,2) len] Suc.prems(3,4) by auto
  then have "w_status (sv_work s') = 11 \<and> w_iter (sv_work s') = 10" by auto
  moreover obtain s'' where "bench_runs K F n s' (log @ [(10, 11)]) = Some ((log @ [(10, 11)]) @ replicate n (10, 11), s'')"
    using Suc.IH[OF 1(2,3)] Suc.prems(3,4) 1(4) by metis
  ultimately show ?case using 1(1) by simp
qed simp

end

context tiny_order
begin

text \<open>A run that reports success leaves every input near its box.\<close>

lemma run_near_box:
  assumes "\<not> f_less F (f_lit F 417 3) (f_lit F (- 583) 3)" "mpc_ready F P s" "length state = nst"
    and "mpc_run K F state s = Some (rc, s')" "w_status (sv_work s') = 1" "j < (NHORIZON - 1) * NINPUTS"
  defines "z \<equiv> w_znew (sv_work s') ! j" and "d \<equiv> vab (f_sub F (w_u (sv_work s') ! j) (w_znew (sv_work s') ! j))"
  shows "\<not> f_less F (f_lit F 417 3) z" "\<not> f_less F z (f_lit F (- 583) 3)" "f_eq F d d \<Longrightarrow> f_less F d (f_lit F 1 3)"
proof -
  obtain W where 1: "problem W = problem (sv_work s)" "work_shape W" "pass_done (sv_settings s) W (sv_work s')"
    and conv: "converged (sv_cache s) (sv_settings s) (sv_work s')"
    using mpc_run_ready[OF assms(2,3)] assms(4,5) by auto
  have W: "w_u_max W ! j = f_lit F 417 3" "w_u_min W ! j = f_lit F (- 583) 3"
    using 1(1) assms(2,6) by (simp_all add: mpc_ready_def problem_loaded_def problem_def)
  let ?z = "w_znew (sv_work s') ! j"
  have z: "\<not> f_less F (f_lit F 417 3) ?z" "\<not> f_less F ?z (f_lit F (- 583) 3)"
    using slacks_in_box(1)[OF 1(3,2) ready_settings(3)[OF assms(2)] assms(6)] assms(1) unfolding W by blast+
  have "f_less F (gap (w_u (sv_work s')) (w_znew (sv_work s'))) (f_lit F 1 3)"
    using conv ready_settings(5)[OF assms(2)] by (simp add: converged_def)
  moreover have "length (w_u (sv_work s')) = (NHORIZON - 1) * NINPUTS"
    "length (w_znew (sv_work s')) = (NHORIZON - 1) * NINPUTS"
    using 1(3) by (simp_all add: pass_done_def work_shape_def)
  ultimately have "f_eq F d d \<Longrightarrow> f_less F d (f_lit F 1 3)" unfolding d_def using gap_bounds assms(6) by blast
  then show "\<not> f_less F (f_lit F 417 3) z" "\<not> f_less F z (f_lit F (- 583) 3)" "f_eq F d d \<Longrightarrow> f_less F d (f_lit F 1 3)"
    using z by (simp_all add: z_def)
qed

end

context tiny_pair
begin

lemma mpc_run_agree:
  assumes s: "solver_shape s" and e: "length state = nst" and c: "0 < check_termination (sv_settings s)"
  shows "mpc_run K' F state s = mpc_run K F state s" "mpc_control K' F state s = mpc_control K F state s"
proof -
  have "cache_shape (sv_cache s)" using s by (simp add: solver_shape_def)
  from tiny_solve_agree[OF this left.mpc_run_eq(1)[OF s e] c]
  show "mpc_run K' F state s = mpc_run K F state s"
    unfolding left.mpc_run_eq(4)[OF s e] right.mpc_run_eq(4)[OF s e] by simp
  then show "mpc_control K' F state s = mpc_control K F state s" by (simp add: mpc_control_def)
qed

end

context nan_order
begin

lemma control_near_box:
  assumes "mpc_ready F P s" "length err = nst" "mpc_control (cpu_kernels F) F err s = Some (u, s')" "w_status (sv_work s') = 1"
    and "i < NACTIONS"
  defines "z \<equiv> w_znew (sv_work s') ! i" and "d \<equiv> cpu_abs F (f_sub F (u ! i) (w_znew (sv_work s') ! i))"
  shows "f_eq F d d \<Longrightarrow> at_most (f_lit F (- 583) 3) z \<and> at_most z (f_lit F 417 3) \<and> f_less F d (f_lit F 1 3)"
proof -
  assume number: "f_eq F d d"
  obtain rc where r: "mpc_run (cpu_kernels F) F err s = Some (rc, s')"
    and u: "u = map (\<lambda>i. vec NINPUTS 0 (w_u (sv_work s')) ! i) [0..<NACTIONS]"
    using assms(3) by (auto simp: mpc_control_def Option.bind_eq_Some_conv)
  have i: "i < (NHORIZON - 1) * NINPUTS" using assms(5) by (simp add: tiny_dims NACTIONS_def)
  have box: "\<not> f_less F (f_lit F 417 3) (f_lit F (- 583) 3)" using lit_mono[of "- 583" 417 3] by simp
  have ui: "u ! i = w_u (sv_work s') ! i" using u assms(5) by (simp add: vec_def)
  note n = cpu_order.run_near_box[OF box assms(1,2) r assms(4) i]
  have z: "f_eq F z z" unfolding z_def by (rule conjunct2[OF distance_number[OF number[unfolded d_def]]])
  show "at_most (f_lit F (- 583) 3) z \<and> at_most z (f_lit F 417 3) \<and> f_less F d (f_lit F 1 3)"
    using not_above[OF lit_number z] not_above[OF z lit_number] n number unfolding z_def d_def ui by blast
qed

end

section \<open>A problem to run the solver on\<close>

definition sim_problem :: "int option problem_data" where
  "sim_problem = \<lparr>rho_value = Some 1000000, Kinf_data = replicate 48 (Some 0), Pinf_data = replicate 144 (Some 0),
     Quu_inv_data = replicate 16 (Some 0), AmBKt_data = replicate 144 (Some 0), coeff_d2p_data = replicate 48 (Some 0),
     Adyn_data = replicate 144 (Some 0), Bdyn_data = replicate 48 (Some 0), Q_data = replicate 12 (Some 0),
     R_data = replicate 4 (Some 0)\<rparr>"

definition sim_cache :: "int option tiny_cache" where
  "sim_cache = \<lparr>c_rho = Some 1000000, c_Kinf = replicate 48 (Some 0), c_KinfT = replicate 48 (Some 0),
     c_Pinf = replicate 144 (Some 0), c_PinfT = replicate 144 (Some 0), c_Quu_inv = replicate 16 (Some 0),
     c_AmBKt = replicate 144 (Some 0), c_AmBKtT = replicate 144 (Some 0), c_coeff_d2p = replicate 48 (Some 0)\<rparr>"

definition sim_work :: "int option tiny_work" where
  "sim_work = (let X = replicate 120 (Some 0); U = replicate 36 (Some 0); x = replicate 12 (Some 0);
       u = replicate 4 (Some 0) in
     \<lparr>w_x = X, w_u = U, w_q = X, w_r = U, w_p = X, w_d = U, w_v = X, w_vnew = X, w_z = U, w_znew = U, w_g = X,
      w_y = U, w_primal_residual_state = Some 0, w_primal_residual_input = Some 0,
      w_dual_residual_state = Some 0, w_dual_residual_input = Some 0, w_status = 0, w_iter = 0, w_Q = x, w_R = u,
      w_Adyn = replicate 144 (Some 0), w_AdynT = replicate 144 (Some 0), w_Bdyn = replicate 48 (Some 0),
      w_BdynT = replicate 48 (Some 0), w_u_min = replicate 36 (Some (- 583000)), w_u_max = replicate 36 (Some 417000),
      w_x_min = replicate 120 (Some (- 5000000)), w_x_max = replicate 120 (Some 5000000), w_Xref = X, w_u1 = u,
      w_u2 = u, w_x1 = x, w_x2 = x, w_x3 = x, w_m1 = U, w_m2 = U, w_s1 = X, w_s2 = X\<rparr>)"

definition sim_solver :: "int option tiny_solver" where
  "sim_solver = tiny_init sim_mat \<lparr>sv_cache = sim_cache, sv_settings = \<lparr>abs_pri_tol = Some 0, abs_dua_tol = Some 0,
     max_iter = 0, check_termination = 0, en_state_bound = False, en_input_bound = False\<rparr>, sv_work = sim_work\<rparr>"

lemma sim_shapes: "data_shape sim_problem" "solver_shape sim_solver"
  by (simp_all add: data_shape_def sim_problem_def solver_shape_def sim_solver_def tiny_init_def sim_cache_def
      sim_work_def cache_shape_def work_shape_def tiny_dims Let_def)

lemma transposed_replicate: "transposed (replicate (n * m) x) n m = replicate (n * m) x"
proof -
  have "(p mod n) * m + p div n < n * m" if "p < n * m" for p
  proof -
    have "0 < n" using that by (cases n) auto
    moreover have "p div n < m" using that by (simp add: less_mult_imp_div_less mult.commute)
    ultimately show ?thesis using transpose_pos[of "p div n" m "p mod n" n] by (simp add: mult.commute)
  qed
  then show ?thesis by (auto simp: transposed_def intro!: nth_equalityI)
qed

lemma sim_ready: "mpc_ready sim_mat sim_problem sim_solver"
  unfolding mpc_ready_def
proof (intro conjI)
  show "solver_shape sim_solver" by (rule sim_shapes)
  show "problem_loaded sim_mat sim_problem (sv_work sim_solver)"
    using transposed_replicate[of 12 12 "Some (0::int)"] transposed_replicate[of 12 4 "Some (0::int)"]
    by (simp add: problem_loaded_def sim_problem_def sim_solver_def tiny_init_def sim_work_def Let_def tiny_dims
        sim_mat_simps)
  show "cache_loaded sim_problem (sv_cache sim_solver)"
    using transposed_replicate[of 12 12 "Some (0::int)"] transposed_replicate[of 4 12 "Some (0::int)"]
    by (simp add: cache_loaded_def sim_problem_def sim_solver_def tiny_init_def sim_cache_def tiny_dims)
  show "c_rho (sv_cache sim_solver) = rho_value sim_problem"
    by (simp add: sim_solver_def tiny_init_def sim_cache_def sim_problem_def)
  show "sv_settings sim_solver = sv_settings (tiny_init sim_mat sim_solver)"
    by (simp add: sim_solver_def tiny_init_def)
qed

end
