(* ===== verification/Tinympc_Results.thy ===== *)
theory Tinympc_Results
  imports Tinympc_Ready
begin

text \<open>
  What the solver promises its programs: it stays ready, its trajectory obeys the model, a solved plan is
  near the box, runs end, and the vector kernels plan what the scalar ones plan.
\<close>

text \<open>
  After its initialisation the solver stays ready: \<open>mpc_init\<close> loads the problem, and from then on
  every solve of the control block returns four thrusts and leaves the sizes of all arrays, the model,
  the boxes, the reference, the gains and the settings as the initialisation set them.
\<close>
theorem mpc_stays_ready:
  assumes "solver_shape s0" "data_shape P"
  shows "(\<exists>s. mpc_init (cpu_kernels F) F P s0 = Some s \<and> mpc_ready F P s) \<and>
    (\<forall>s err. mpc_ready F P s \<longrightarrow> length err = nst \<longrightarrow>
      (\<exists>u s'. mpc_control (cpu_kernels F) F err s = Some (u, s') \<and> length u = NACTIONS \<and> mpc_ready F P s'))"
proof -
  have "\<exists>u s'. mpc_control (cpu_kernels F) F err s = Some (u, s') \<and> length u = NACTIONS \<and> mpc_ready F P s'"
    if "mpc_ready F P s" "length err = nst" for s err
    using cpu_solver.mpc_run_ready[OF that] by (auto simp: mpc_control_def)
  then show ?thesis using cpu_solver.mpc_init_ready[OF assms] by blast
qed

theorem mpc_stays_ready_witness:
  "\<exists>u s. mpc_control (cpu_kernels sim_mat) sim_mat (replicate 12 None) sim_solver = Some (u, s) \<and> length u = 4 \<and>
     mpc_ready sim_mat sim_problem s"
  using conjunct2[OF mpc_stays_ready[OF sim_shapes(2,1), of sim_mat], rule_format, OF sim_ready,
      of "replicate 12 None"]
  by (simp add: tiny_dims NACTIONS_def)

text \<open>
  C28: Every predicted trajectory is a roll-out of the model: it starts at the state the solver is given,
  and each later state is the model's matrices applied to the state and the input before it, whether
  or not the solver converged.
\<close>
theorem trajectory_obeys_model:
  assumes "mpc_ready F P s" "length state = nst" "mpc_run (cpu_kernels F) F state s = Some (rc, s')"
  shows "slice nst 0 (w_x (sv_work s')) = state \<and>
    (\<forall>i < NHORIZON - 1. slice nst (i + 1) (w_x (sv_work s')) =
       map2 (f_add F) (mat_vec (dot_seq F) nst nst (Adyn_data P) (slice nst i (w_x (sv_work s'))))
         (mat_vec (dot_seq F) nst NINPUTS (Bdyn_data P) (slice NINPUTS i (w_u (sv_work s')))))"
  using cpu_solver.run_rolls_out[OF assms] by simp

theorem trajectory_obeys_model_witness:
  "\<exists>rc s'. mpc_run (cpu_kernels sim_mat) sim_mat (replicate 12 (Some 1000000)) sim_solver = Some (rc, s') \<and>
     slice 12 9 (w_x (sv_work s')) =
       map2 (f_add sim_mat) (mat_vec (dot_seq sim_mat) 12 12 (Adyn_data sim_problem) (slice 12 8 (w_x (sv_work s'))))
         (mat_vec (dot_seq sim_mat) 12 4 (Bdyn_data sim_problem) (slice 4 8 (w_u (sv_work s'))))"
proof -
  have len: "length (replicate 12 (Some 1000000)) = nst" by (simp add: tiny_dims)
  obtain rc s' where r: "mpc_run (cpu_kernels sim_mat) sim_mat (replicate 12 (Some 1000000)) sim_solver = Some (rc, s')"
    using cpu_solver.mpc_run_ready[OF sim_ready len] by blast
  have "(8::nat) < NHORIZON - 1" by (simp add: tiny_dims)
  from conjunct2[OF trajectory_obeys_model[OF sim_ready len r], rule_format, OF this] r show ?thesis
    by (simp add: tiny_dims)
qed

text \<open>
  C27: A solution the scalar kernels report is near the input box: when the status is 1 after a solve of the
  control block, the solver's slack for every thrust it hands out is at least -0.583 and at most 0.417, and the thrust
  differs from it by less than the primal tolerance, one thousandth, provided that this difference is a number. Without
  that the claim fails: a run on values that are not numbers is reported as solved too. Of the floats it is assumed
  that less is an order, that literals are numbers and ordered by their values, that numbers are comparable, and that a
  difference with a value that is not a number is none.
\<close>
theorem solved_thrusts_near_box:
  assumes "nan_order F" "mpc_ready F P s" "length err = nst"
    and "mpc_control (cpu_kernels F) F err s = Some (u, s')" "w_status (sv_work s') = 1" "i < NACTIONS"
    and "f_eq F (cpu_abs F (f_sub F (u ! i) (w_znew (sv_work s') ! i))) (cpu_abs F (f_sub F (u ! i) (w_znew (sv_work s') ! i)))"
  shows "(f_less F (f_lit F (- 583) 3) (w_znew (sv_work s') ! i) \<or> f_eq F (f_lit F (- 583) 3) (w_znew (sv_work s') ! i)) \<and>
    (f_less F (w_znew (sv_work s') ! i) (f_lit F 417 3) \<or> f_eq F (w_znew (sv_work s') ! i) (f_lit F 417 3)) \<and>
    f_less F (cpu_abs F (f_sub F (u ! i) (w_znew (sv_work s') ! i))) (f_lit F 1 3)"
  using nan_order.control_near_box[OF assms] by (simp add: nan_order.at_most_def[OF assms(1)])

text \<open>Two solves of the simulated problem, computed over the closed forms of the kernels.\<close>

lemma sim_control_closed:
  "length err = nst \<Longrightarrow>
   mpc_control (cpu_kernels sim_mat) sim_mat err sim_solver = mpc_control (cpu_abs_kernels sim_mat) sim_mat err sim_solver"
  using cpu_pair.mpc_run_agree(2)[of sim_solver err sim_mat] sim_shapes(2)
  by (simp add: sim_solver_def tiny_init_def)

lemma sim_solves:
  "map_option (\<lambda>(u, s). (u, w_status (sv_work s), take 4 (w_znew (sv_work s))))
     (mpc_control (cpu_abs_kernels sim_mat) sim_mat (replicate 12 (Some 0)) sim_solver) =
   Some (replicate 4 (Some 0), 1, replicate 4 (Some 0))"
  by code_simp

lemma sim_solves_nan:
  "map_option (\<lambda>(u, s). (u, w_status (sv_work s)))
     (mpc_control (cpu_abs_kernels sim_mat) sim_mat (None # replicate 11 (Some 0)) sim_solver) =
   Some (replicate 4 None, 1)"
  by code_simp

theorem solved_thrusts_near_box_witness:
  "\<exists>u s'. mpc_control (cpu_kernels sim_mat) sim_mat (replicate 12 (Some 0)) sim_solver = Some (u, s') \<and>
     f_less sim_mat (cpu_abs sim_mat (f_sub sim_mat (u ! 3) (w_znew (sv_work s') ! 3))) (f_lit sim_mat 1 3)"
proof -
  have len: "length (replicate 12 (Some (0::int))) = nst" by (simp add: tiny_dims)
  obtain u s' where r: "mpc_control (cpu_kernels sim_mat) sim_mat (replicate 12 (Some 0)) sim_solver = Some (u, s')"
    and u: "u = replicate 4 (Some 0)" "w_status (sv_work s') = 1" "take 4 (w_znew (sv_work s')) = replicate 4 (Some 0)"
    using sim_solves sim_control_closed[OF len] by auto
  have i: "3 < NACTIONS" by (simp add: NACTIONS_def)
  have "w_znew (sv_work s') ! 3 = take 4 (w_znew (sv_work s')) ! 3" by simp
  then have z: "w_znew (sv_work s') ! 3 = Some 0" "u ! 3 = Some 0" using u(1,3) by simp_all
  have "f_eq sim_mat (cpu_abs sim_mat (f_sub sim_mat (u ! 3) (w_znew (sv_work s') ! 3)))
      (cpu_abs sim_mat (f_sub sim_mat (u ! 3) (w_znew (sv_work s') ! 3)))"
    unfolding z by code_simp
  from solved_thrusts_near_box[OF sim_nan_order.nan_order_axioms sim_ready len r u(2) i this] r show ?thesis by blast
qed

text \<open>
  A run on values that are not numbers is reported as solved: with one component of the state not a
  number, every thrust the control block gets is not a number, and the solver's status is 1, the one of
  a solution. The comparisons behind the residuals are all false, and so the residual test passes.
\<close>
theorem nan_reported_solved:
  "map_option (\<lambda>(u, s). (u, w_status (sv_work s)))
     (mpc_control (cpu_kernels sim_mat) sim_mat (None # replicate 11 (Some 0)) sim_solver) =
   Some (replicate 4 None, 1)"
  using sim_solves_nan sim_control_closed[of "None # replicate 11 (Some 0)"] by (simp add: tiny_dims)

text \<open>
  C33: On every vector unit, whatever it grants per pass and leaves in the tail lanes, a solve of the
  controllers returns within ten iterations; the result is 0 exactly when the status is set to 1, and
  otherwise all ten iterations are used.
\<close>
theorem vector_solve_returns:
  assumes "rvv_laws V" "\<And>x y. f_mul F x y = f_mul F y x" "mpc_ready F P s" "length state = nst"
  shows "\<exists>rc s'. mpc_run (rvv_kernels V F) F state s = Some (rc, s') \<and> mpc_ready F P s' \<and>
    0 < w_iter (sv_work s') \<and> w_iter (sv_work s') \<le> 10 \<and>
    (rc = 0 \<and> w_status (sv_work s') = 1 \<or> rc = 1 \<and> w_status (sv_work s') = 11 \<and> w_iter (sv_work s') = 10)"
  using tiny_kernels.mpc_run_ready[OF rvv_tiny_kernels[OF assms(1,2)] assms(3,4)] by blast

theorem vector_solve_returns_witness:
  "\<exists>rc s'. mpc_run (rvv_kernels (sim_rvv (\<lambda>x. None)) sim_mat) sim_mat (replicate 12 (Some 7)) sim_solver = Some (rc, s') \<and>
     w_iter (sv_work s') \<le> 10"
  using vector_solve_returns[OF sim_unit.rvv_laws_axioms[of "\<lambda>x. None"] sim_mul_comm sim_ready,
      of "replicate 12 (Some 7)"]
  by (auto simp: tiny_dims)

text \<open>
  The benchmark times ten whole iterations: its residual test is never due, so that on every vector
  unit each of its 32 runs returns after ten iterations, with the status of an unsolved problem.
\<close>
theorem benchmark_runs_ten:
  assumes "rvv_laws V" "\<And>x y. f_mul F x y = f_mul F y x" "solver_shape s0" "data_shape P"
  shows "\<exists>s'. bench_main (rvv_kernels V F) F P s0 = Some (replicate NRUNS (10, 11), s')"
proof -
  note K = rvv_tiny_kernels[OF assms(1,2)]
  obtain s where 1: "load_problem (rvv_kernels V F) F P s0 = Some s" "solver_shape s"
    "problem_loaded F P (sv_work s)" "max_iter (sv_settings s) = 10" "check_termination (sv_settings s) = 11"
    using tiny_kernels.load_problem_ok[OF K assms(3,4)] by blast
  show ?thesis using tiny_kernels.bench_runs_ten[OF K 1(2-5), of NRUNS "[]"] 1(1) by (simp add: bench_main_def)
qed

theorem benchmark_runs_ten_witness:
  "\<exists>s'. bench_main (rvv_kernels (sim_rvv (\<lambda>x. None)) sim_mat) sim_mat sim_problem sim_solver =
     Some (replicate 32 (10, 11), s')"
  using benchmark_runs_ten[OF sim_unit.rvv_laws_axioms[of "\<lambda>x. None"] sim_mul_comm sim_shapes(2,1)]
  by (simp add: NRUNS_def)

text \<open>
  C29: The vector build and the scalar build compute the same solution: on exact numbers, a vector unit
  that keeps its tail lanes takes the solver to the same result, iteration count and workspace as the
  scalar kernels.
\<close>
theorem vector_solver_agrees:
  assumes "exact_unit V F" "cache_shape C" "work_shape W" "0 < check_termination S"
  shows "tiny_solve (rvv_kernels V F) F C S W = tiny_solve (cpu_kernels F) F C S W"
  by (rule tiny_pair.tiny_solve_agree[OF rvv_cpu_pair[OF assms(1)] assms(2-4)])

definition int_cache :: "int tiny_cache" where
  "int_cache = \<lparr>c_rho = 1000000, c_Kinf = replicate 48 5, c_KinfT = replicate 48 5,
     c_Pinf = replicate 144 7, c_PinfT = replicate 144 7, c_Quu_inv = replicate 16 1, c_AmBKt = replicate 144 2,
     c_AmBKtT = replicate 144 2, c_coeff_d2p = replicate 48 0\<rparr>"

definition int_work :: "int tiny_work" where
  "int_work = (let X = replicate 120 3; U = replicate 36 4; x = replicate 12 1; u = replicate 4 1 in
     \<lparr>w_x = X, w_u = U, w_q = X, w_r = U, w_p = X, w_d = U, w_v = X, w_vnew = X, w_z = U, w_znew = U, w_g = X,
      w_y = U, w_primal_residual_state = 0, w_primal_residual_input = 0,
      w_dual_residual_state = 0, w_dual_residual_input = 0, w_status = 0, w_iter = 0, w_Q = x, w_R = u,
      w_Adyn = replicate 144 6, w_AdynT = replicate 144 6, w_Bdyn = replicate 48 8,
      w_BdynT = replicate 48 8, w_u_min = replicate 36 (- 583000), w_u_max = replicate 36 417000,
      w_x_min = replicate 120 (- 5000000), w_x_max = replicate 120 5000000, w_Xref = X, w_u1 = u,
      w_u2 = u, w_x1 = x, w_x2 = x, w_x3 = x, w_m1 = U, w_m2 = U, w_s1 = X, w_s2 = X\<rparr>)"

theorem vector_solver_agrees_witness:
  "tiny_solve (rvv_kernels int_rvv int_mat) int_mat int_cache
      \<lparr>abs_pri_tol = 1000, abs_dua_tol = 1000, max_iter = 10, check_termination = 1, en_state_bound = True,
        en_input_bound = True\<rparr> int_work =
   tiny_solve (cpu_kernels int_mat) int_mat int_cache
      \<lparr>abs_pri_tol = 1000, abs_dua_tol = 1000, max_iter = 10, check_termination = 1, en_state_bound = True,
        en_input_bound = True\<rparr> int_work"
proof (rule vector_solver_agrees[OF int_exact])
  show "cache_shape int_cache" by (simp add: cache_shape_def int_cache_def tiny_dims)
  show "work_shape int_work" by (simp add: work_shape_def int_work_def tiny_dims Let_def)
qed simp

end
