(* ===== verification/Est_Mahony.thy ===== *)
theory Est_Mahony
  imports Complex_Main Matlib_Cpu
begin

text \<open>
  The attitude filter of the estimators, \<open>samples/rose_flight_controller/src/attitude_mahony.hpp\<close>.
  Expressions keep the source's order of operations. The theorems are about the filter over exact
  real numbers: what the formulas compute, with rounding left aside.
\<close>

section \<open>Arithmetic\<close>

record 'f est_float = "'f mat_float" +
  f_abs :: "'f \<Rightarrow> 'f"
  f_sin :: "'f \<Rightarrow> 'f"
  f_cos :: "'f \<Rightarrow> 'f"

text \<open>Sums and products read from left to right; \<open>a >= b\<close> is false on values that are not numbers.\<close>

definition f_ge :: "('f, 'z) float_api_scheme \<Rightarrow> 'f \<Rightarrow> 'f \<Rightarrow> bool" where
  "f_ge F a b \<longleftrightarrow> f_less F b a \<or> f_eq F a b"

definition sum3 :: "('f, 'z) float_api_scheme \<Rightarrow> 'f \<Rightarrow> 'f \<Rightarrow> 'f \<Rightarrow> 'f" where
  "sum3 F a b c = f_add F (f_add F a b) c"

definition dot3 :: "('f, 'z) float_api_scheme \<Rightarrow> 'f \<Rightarrow> 'f \<Rightarrow> 'f \<Rightarrow> 'f \<Rightarrow> 'f \<Rightarrow> 'f \<Rightarrow> 'f" where
  "dot3 F a b c x y z = sum3 F (f_mul F a x) (f_mul F b y) (f_mul F c z)"

text \<open>The products \<open>a x + b y - c z\<close> and \<open>a x - b y + c z\<close>.\<close>

definition ppm :: "('f, 'z) float_api_scheme \<Rightarrow> 'f \<Rightarrow> 'f \<Rightarrow> 'f \<Rightarrow> 'f \<Rightarrow> 'f \<Rightarrow> 'f \<Rightarrow> 'f" where
  "ppm F a x b y c z = f_sub F (f_add F (f_mul F a x) (f_mul F b y)) (f_mul F c z)"

definition pmp :: "('f, 'z) float_api_scheme \<Rightarrow> 'f \<Rightarrow> 'f \<Rightarrow> 'f \<Rightarrow> 'f \<Rightarrow> 'f \<Rightarrow> 'f \<Rightarrow> 'f" where
  "pmp F a x b y c z = f_add F (f_sub F (f_mul F a x) (f_mul F b y)) (f_mul F c z)"

definition mul_sub :: "('f, 'z) float_api_scheme \<Rightarrow> 'f \<Rightarrow> 'f \<Rightarrow> 'f \<Rightarrow> 'f \<Rightarrow> 'f" where
  "mul_sub F a x b y = f_sub F (f_mul F a x) (f_mul F b y)"

definition mul_add :: "('f, 'z) float_api_scheme \<Rightarrow> 'f \<Rightarrow> 'f \<Rightarrow> 'f \<Rightarrow> 'f \<Rightarrow> 'f" where
  "mul_add F a x b y = f_add F (f_mul F a x) (f_mul F b y)"

section \<open>The filter\<close>

record 'f mahony =
  qw :: 'f
  qx :: 'f
  qy :: 'f
  qz :: 'f
  kp :: 'f

definition mahony_init :: "('f, 'z) est_float_scheme \<Rightarrow> 'f mahony" where
  "mahony_init F = \<lparr>qw = f_lit F 1 0, qx = f_zero F, qy = f_zero F, qz = f_zero F, kp = f_lit F 5 1\<rparr>"

definition set_yaw :: "('f, 'z) est_float_scheme \<Rightarrow> 'f \<Rightarrow> 'f mahony \<Rightarrow> 'f mahony" where
  "set_yaw F psi m = m\<lparr>qw := f_cos F (f_mul F (f_lit F 5 1) psi), qx := f_zero F, qy := f_zero F,
     qz := f_sin F (f_mul F (f_lit F 5 1) psi)\<rparr>"

text \<open>The body rate with the gated gravity trim.\<close>

definition trimmed_rate :: "('f, 'z) est_float_scheme \<Rightarrow> 'f list \<Rightarrow> 'f list \<Rightarrow> 'f mahony \<Rightarrow> 'f \<times> 'f \<times> 'f" where
  "trimmed_rate F accel gyro m =
     (let wx = gyro ! 0; wy = gyro ! 1; wz = gyro ! 2;
          amag = f_sqrt F (dot3 F (accel ! 0) (accel ! 1) (accel ! 2) (accel ! 0) (accel ! 1) (accel ! 2)) in
      if f_less F (f_lit F 1 3) amag then
        let gate = f_sub F (f_lit F 1 0)
          (f_div F (f_abs F (f_sub F amag (f_lit F 981 2))) (f_mul F (f_lit F 5 1) (f_lit F 981 2))) in
        if f_less F (f_zero F) gate then
          let ax = f_div F (accel ! 0) amag; ay = f_div F (accel ! 1) amag; az = f_div F (accel ! 2) amag;
              vux = f_mul F (f_lit F 2 0) (mul_sub F (qx m) (qz m) (qw m) (qy m));
              vuy = f_mul F (f_lit F 2 0) (mul_add F (qy m) (qz m) (qw m) (qx m));
              vuz = f_sub F (f_lit F 1 0) (f_mul F (f_lit F 2 0) (mul_add F (qx m) (qx m) (qy m) (qy m)));
              ex = mul_sub F ay vuz az vuy; ey = mul_sub F az vux ax vuz; ez = mul_sub F ax vuy ay vux;
              k = f_mul F (kp m) gate in
          (f_add F wx (f_mul F k ex), f_add F wy (f_mul F k ey), f_add F wz (f_mul F k ez))
        else (wx, wy, wz)
      else (wx, wy, wz))"

text \<open>The derivative of a quaternion under a body rate, a step along it, and the normalisation.
  The lead predictions of the estimators repeat the same statements.\<close>

definition quat_step ::
    "('f, 'z) est_float_scheme \<Rightarrow> 'f \<Rightarrow> 'f \<Rightarrow> 'f \<Rightarrow> 'f \<Rightarrow> 'f mahony \<Rightarrow> 'f \<times> 'f \<times> 'f \<times> 'f" where
  "quat_step F wx wy wz h m =
     (let pw = qw m; px = qx m; py = qy m; pz = qz m;
          dw = f_mul F (f_lit F (- 5) 1) (dot3 F px py pz wx wy wz);
          dx = f_mul F (f_lit F 5 1) (ppm F pw wx py wz pz wy);
          dy = f_mul F (f_lit F 5 1) (pmp F pw wy px wz pz wx);
          dz = f_mul F (f_lit F 5 1) (ppm F pw wz px wy py wx);
          pw = f_add F pw (f_mul F dw h); px = f_add F px (f_mul F dx h);
          py = f_add F py (f_mul F dy h); pz = f_add F pz (f_mul F dz h);
          n = f_sqrt F (f_add F (sum3 F (f_mul F pw pw) (f_mul F px px) (f_mul F py py)) (f_mul F pz pz)) in
      if f_less F (f_lit F 1 9) n then (f_div F pw n, f_div F px n, f_div F py n, f_div F pz n)
      else (pw, px, py, pz))"

definition mahony_update :: "('f, 'z) est_float_scheme \<Rightarrow> 'f list \<Rightarrow> 'f list \<Rightarrow> 'f \<Rightarrow> 'f mahony \<Rightarrow> 'f mahony" where
  "mahony_update F accel gyro dt m =
     (case trimmed_rate F accel gyro m of (wx, wy, wz) \<Rightarrow>
      case quat_step F wx wy wz dt m of (w, x, y, z) \<Rightarrow> m\<lparr>qw := w, qx := x, qy := y, qz := z\<rparr>)"

definition rot :: "('f, 'z) est_float_scheme \<Rightarrow> 'f mahony \<Rightarrow> 'f list" where
  "rot F m =
     (let w = qw m; x = qx m; y = qy m; z = qz m; one = f_lit F 1 0; two = f_lit F 2 0 in
      [f_sub F one (f_mul F two (mul_add F y y z z)), f_mul F two (mul_sub F x y w z), f_mul F two (mul_add F x z w y),
       f_mul F two (mul_add F x y w z), f_sub F one (f_mul F two (mul_add F x x z z)), f_mul F two (mul_sub F y z w x),
       f_mul F two (mul_sub F x z w y), f_mul F two (mul_add F y z w x), f_sub F one (f_mul F two (mul_add F x x y y))])"

text \<open>The divisor of the Rodrigues parameters, kept away from zero.\<close>

definition safe_w :: "('f, 'z) est_float_scheme \<Rightarrow> 'f \<Rightarrow> 'f" where
  "safe_w F w =
     (if f_less F (f_abs F w) (f_lit F 1 9)
      then if f_ge F w (f_zero F) then f_lit F 1 9 else f_lit F (- 1) 9
      else w)"

definition rodrigues :: "('f, 'z) est_float_scheme \<Rightarrow> 'f mahony \<Rightarrow> 'f list" where
  "rodrigues F m = (let w = safe_w F (qw m) in [f_div F (qx m) w, f_div F (qy m) w, f_div F (qz m) w])"

section \<open>Real numbers\<close>

definition real_float :: "real est_float" where
  "real_float = \<lparr>f_lit = (\<lambda>m k. real_of_int m / 10 ^ k), f_add = (+), f_sub = (-), f_mul = (*), f_div = (/),
     f_less = (<), f_eq = (=), f_of_int = real_of_int, f_to_u32 = (\<lambda>x. word_of_int \<lfloor>x\<rfloor>), f_bits = (\<lambda>x. 0),
     f_neg = uminus, f_sqrt = sqrt, MATLIB_FLOAT_MIN = 1 / 2 ^ 126, MATLIB_FLOAT_MAX = 2 ^ 128,
     f_abs = abs, f_sin = sin, f_cos = cos\<rparr>"

lemma real_ops [simp]:
  "f_lit real_float m k = real_of_int m / 10 ^ k" "f_add real_float a b = a + b" "f_sub real_float a b = a - b"
  "f_mul real_float a b = a * b" "f_div real_float a b = a / b" "f_less real_float a b \<longleftrightarrow> a < b"
  "f_eq real_float a b \<longleftrightarrow> a = b" "f_sqrt real_float a = sqrt a" "f_abs real_float a = \<bar>a\<bar>"
  "f_sin real_float a = sin a" "f_cos real_float a = cos a" "f_neg real_float a = - a"
  by (simp_all add: real_float_def)

interpretation real_chain: float_chain real_float
  by unfold_locales (auto simp: divide_right_mono not_less)

lemmas arith_defs = f_ge_def sum3_def dot3_def ppm_def pmp_def mul_sub_def mul_add_def

abbreviation norm4 :: "real \<Rightarrow> real \<Rightarrow> real \<Rightarrow> real \<Rightarrow> real" where
  "norm4 w x y z \<equiv> w * w + x * x + y * y + z * z"

text \<open>A step along the derivative is orthogonal to the quaternion, so that it never shortens it.\<close>

lemma step_norm:
  fixes w x y z a b c h :: real
  shows "norm4 (w + - (1/2) * (x*a + y*b + z*c) * h) (x + 1/2 * (w*a + y*c - z*b) * h)
      (y + 1/2 * (w*b - x*c + z*a) * h) (z + 1/2 * (w*c + x*b - y*a) * h) =
    norm4 w x y z * (1 + (a*a + b*b + c*c) * (h * h) / 4)"
  by (simp add: field_simps)

lemma normalised:
  fixes w x y z :: real
  assumes "norm4 w x y z > 0"
  defines "n \<equiv> sqrt (norm4 w x y z)"
  shows "norm4 (w / n) (x / n) (y / n) (z / n) = 1"
proof -
  have "n * n = norm4 w x y z" using assms by simp
  then have "norm4 (w / n) (x / n) (y / n) (z / n) = norm4 w x y z / norm4 w x y z"
    by (simp add: add_divide_distrib[symmetric])
  then show ?thesis using assms(1) by simp
qed

definition unit_quat :: "real mahony \<Rightarrow> bool" where
  "unit_quat m \<longleftrightarrow> norm4 (qw m) (qx m) (qy m) (qz m) = 1"

lemma quat_step_unit:
  assumes "unit_quat m" "quat_step real_float wx wy wz h m = (w, x, y, z)"
  shows "norm4 w x y z = 1"
proof -
  let ?k = "1 + (wx*wx + wy*wy + wz*wz) * (h * h) / 4"
  define W where "W = qw m + - (1/2) * (qx m * wx + qy m * wy + qz m * wz) * h"
  define X where "X = qx m + 1/2 * (qw m * wx + qy m * wz - qz m * wy) * h"
  define Y where "Y = qy m + 1/2 * (qw m * wy - qx m * wz + qz m * wx) * h"
  define Z where "Z = qz m + 1/2 * (qw m * wz + qx m * wy - qy m * wx) * h"
  have k: "norm4 W X Y Z = ?k"
    using step_norm[of "qw m" "qx m" wx "qy m" wy "qz m" wz h] assms(1)
    by (simp add: unit_quat_def W_def X_def Y_def Z_def)
  have "0 \<le> (wx*wx + wy*wy + wz*wz) * (h * h) / 4" by simp
  then have ge: "1 \<le> norm4 W X Y Z" unfolding k by linarith
  then have "1 \<le> sqrt (norm4 W X Y Z)" by simp
  moreover have "1 / 10 ^ 9 < (1::real)" by simp
  ultimately have big: "1 / 10 ^ 9 < sqrt (norm4 W X Y Z)" by linarith
  have "(w, x, y, z) = (W / sqrt (norm4 W X Y Z), X / sqrt (norm4 W X Y Z), Y / sqrt (norm4 W X Y Z),
      Z / sqrt (norm4 W X Y Z))"
    using assms(2) big by (simp add: quat_step_def Let_def arith_defs W_def X_def Y_def Z_def)
  then show ?thesis using normalised[of W X Y Z] ge by simp
qed

lemma mahony_update_unit: "unit_quat m \<Longrightarrow> unit_quat (mahony_update real_float accel gyro dt m)"
  using quat_step_unit[of m] by (auto simp: mahony_update_def unit_quat_def split: prod.splits)

lemma mahony_init_unit: "unit_quat (mahony_init real_float)"
  by (simp add: unit_quat_def mahony_init_def)

lemma set_yaw_unit: "unit_quat (set_yaw real_float psi m)"
  using sin_cos_squared_add[of "psi / 2"]
  by (simp add: unit_quat_def set_yaw_def power2_eq_square add.commute)

text \<open>
  C32: The attitude stays a rotation, computed over the real numbers: the filter starts at a unit quaternion, the heading
  calibration sets one, and every update of a unit quaternion, by any real rates, accelerations and time step, gives one
  again. This is the filter's algebra: floats keep the norm up to rounding and as long as nothing overflows, and neither
  is modelled.
\<close>
theorem attitude_stays_unit:
  assumes "unit_quat m"
  shows "unit_quat (mahony_init real_float) \<and> unit_quat (set_yaw real_float psi m) \<and>
    unit_quat (mahony_update real_float accel gyro dt m)"
  using assms by (simp add: mahony_init_unit set_yaw_unit mahony_update_unit)

theorem attitude_stays_unit_witness:
  "unit_quat (mahony_update real_float [1, 2, 9] [1, 0, 3] (1 / 200) (mahony_init real_float))"
  using attitude_stays_unit[OF mahony_init_unit] by blast

lemma turn_back:
  fixes x y z a b c :: real
  assumes xyz: "x = r0 * a + r1 * b + r2 * c" "y = r3 * a + r4 * b + r5 * c" "z = r6 * a + r7 * b + r8 * c"
    and abc: "r0 * x + r3 * y + r6 * z = a" "r1 * x + r4 * y + r7 * z = b" "r2 * x + r5 * y + r8 * z = c"
  shows "x * x + y * y + z * z = a * a + b * b + c * c"
proof -
  have "x * x + y * y + z * z =
      x * (r0 * a + r1 * b + r2 * c) + y * (r3 * a + r4 * b + r5 * c) + z * (r6 * a + r7 * b + r8 * c)"
    using xyz by simp
  also have "\<dots> = a * (r0 * x + r3 * y + r6 * z) + b * (r1 * x + r4 * y + r7 * z) + c * (r2 * x + r5 * y + r8 * z)"
    by (simp add: algebra_simps)
  finally show ?thesis unfolding abc .
qed

definition apply_rot :: "real list \<Rightarrow> real \<Rightarrow> real \<Rightarrow> real \<Rightarrow> real \<times> real \<times> real" where
  "apply_rot R a b c = (R ! 0 * a + R ! 1 * b + R ! 2 * c, R ! 3 * a + R ! 4 * b + R ! 5 * c,
     R ! 6 * a + R ! 7 * b + R ! 8 * c)"

text \<open>
  The matrix \<open>rot\<close> fills in is the rotation of the quaternion: for a unit quaternion it keeps the
  length of every vector, and the transposed matrix takes the result back, so that accelerations and
  flow velocities are turned and never scaled.
\<close>
theorem rot_is_rotation:
  assumes "unit_quat m" "apply_rot (rot real_float m) a b c = (x, y, z)"
  shows "x * x + y * y + z * z = a * a + b * b + c * c \<and>
    (let R = rot real_float m in
       (R ! 0 * x + R ! 3 * y + R ! 6 * z, R ! 1 * x + R ! 4 * y + R ! 7 * z, R ! 2 * x + R ! 5 * y + R ! 8 * z) =
       (a, b, c))"
proof -
  define w i j k where q: "w = qw m" "i = qx m" "j = qy m" "k = qz m"
  have u: "w * w + i * i + j * j + k * k = 1" using assms(1) by (simp add: unit_quat_def q)
  have R: "rot real_float m =
      [1 - 2 * (j*j + k*k), 2 * (i*j - w*k), 2 * (i*k + w*j),
       2 * (i*j + w*k), 1 - 2 * (i*i + k*k), 2 * (j*k - w*i),
       2 * (i*k - w*j), 2 * (j*k + w*i), 1 - 2 * (i*i + j*j)]"
    by (simp add: rot_def Let_def arith_defs q)
  have x: "x = (1 - 2 * (j*j + k*k)) * a + 2 * (i*j - w*k) * b + 2 * (i*k + w*j) * c"
    and y: "y = 2 * (i*j + w*k) * a + (1 - 2 * (i*i + k*k)) * b + 2 * (j*k - w*i) * c"
    and z: "z = 2 * (i*k - w*j) * a + 2 * (j*k + w*i) * b + (1 - 2 * (i*i + j*j)) * c"
    using assms(2) by (simp_all add: apply_rot_def R)
  have a: "(1 - 2 * (j*j + k*k)) * x + 2 * (i*j + w*k) * y + 2 * (i*k - w*j) * z = a"
    unfolding x y z using u by algebra
  have b: "2 * (i*j - w*k) * x + (1 - 2 * (i*i + k*k)) * y + 2 * (j*k + w*i) * z = b"
    unfolding x y z using u by algebra
  have c: "2 * (i*k + w*j) * x + 2 * (j*k - w*i) * y + (1 - 2 * (i*i + j*j)) * z = c"
    unfolding x y z using u by algebra
  show ?thesis using turn_back[OF x y z a b c] a b c by (simp add: R Let_def)
qed

theorem rot_is_rotation_witness:
  "apply_rot (rot real_float \<lparr>qw = 3 / 5, qx = 0, qy = 0, qz = 4 / 5, kp = 1\<rparr>) 1 2 3 = (- 55 / 25, 10 / 25, 3) \<and>
   (- 55 / 25) * (- 55 / 25) + 10 / 25 * (10 / 25) + 3 * 3 = 1 * 1 + 2 * 2 + 3 * (3::real)"
proof -
  let ?m = "\<lparr>qw = 3 / 5, qx = 0, qy = 0, qz = 4 / 5, kp = 1\<rparr> :: real mahony"
  have u: "unit_quat ?m" by (simp add: unit_quat_def)
  have r: "apply_rot (rot real_float ?m) 1 2 3 = (- 55 / 25, 10 / 25, 3)"
    by (simp add: apply_rot_def rot_def Let_def arith_defs)
  show ?thesis using conjunct1[OF rot_is_rotation[OF u r]] r by simp
qed

text \<open>
  The gravity trim is gated and has the true up direction as its fixed point: the rates are the
  gyroscope's when the acceleration is more than half of gravity away from gravity, and also when it
  points along the up direction the attitude predicts, whatever its magnitude.
\<close>
theorem trim_only_near_gravity:
  defines "mag accel \<equiv> sqrt (accel ! 0 * accel ! 0 + accel ! 1 * accel ! 1 + accel ! 2 * accel ! 2)"
  shows "(4.905 \<le> \<bar>mag accel - 9.81\<bar> \<longrightarrow>
      trimmed_rate real_float accel gyro m = (gyro ! 0, gyro ! 1, gyro ! 2)) \<and>
    (accel = map (\<lambda>v. s * v) (drop 6 (rot real_float m)) \<longrightarrow>
      trimmed_rate real_float accel gyro m = (gyro ! 0, gyro ! 1, gyro ! 2))"
proof (intro conjI impI)
  assume "4.905 \<le> \<bar>mag accel - 9.81\<bar>"
  then have "\<not> 0 < 1 - \<bar>mag accel - 981 / 10 ^ 2\<bar> / (5 / 10 * (981 / 10 ^ 2))" by (simp add: field_simps)
  then show "trimmed_rate real_float accel gyro m = (gyro ! 0, gyro ! 1, gyro ! 2)"
    by (simp add: trimmed_rate_def Let_def arith_defs mag_def)
next
  assume a: "accel = map (\<lambda>v. s * v) (drop 6 (rot real_float m))"
  define u v t where "u = 2 * (qx m * qz m - qw m * qy m)" and "v = 2 * (qy m * qz m + qw m * qx m)"
    and "t = 1 - 2 * (qx m * qx m + qy m * qy m)"
  have "accel = [s * u, s * v, s * t]"
    by (simp add: a rot_def Let_def arith_defs u_def v_def t_def)
  then show "trimmed_rate real_float accel gyro m = (gyro ! 0, gyro ! 1, gyro ! 2)"
    by (simp add: trimmed_rate_def Let_def arith_defs) (simp add: u_def v_def t_def algebra_simps)
qed

theorem trim_only_near_gravity_witness:
  "trimmed_rate real_float [0, 0, 30] [1, 2, 3] (mahony_init real_float) = (1, 2, 3) \<and>
   trimmed_rate real_float [0, 0, 9] [1, 2, 3] (mahony_init real_float) = (1, 2, 3)"
proof
  have "4.905 \<le> \<bar>sqrt ([0, 0, 30] ! 0 * [0, 0, 30] ! 0 + [0, 0, 30] ! 1 * [0, 0, 30] ! 1 + [0, 0, 30] ! 2 * [0, 0, 30 :: real] ! 2) - 9.81\<bar>"
    by (simp add: real_sqrt_mult_self)
  from trim_only_near_gravity[of "[0, 0, 30]" "[1, 2, 3]" "mahony_init real_float" 0, THEN conjunct1, rule_format, OF this]
  show "trimmed_rate real_float [0, 0, 30] [1, 2, 3] (mahony_init real_float) = (1, 2, 3)" by simp
  have "[0, 0, 9] = map (\<lambda>v. 9 * v) (drop 6 (rot real_float (mahony_init real_float)))"
    by (simp add: rot_def mahony_init_def Let_def arith_defs)
  from trim_only_near_gravity[of "[0, 0, 9]" "[1, 2, 3]" "mahony_init real_float" 9, THEN conjunct2, rule_format, OF this]
  show "trimmed_rate real_float [0, 0, 9] [1, 2, 3] (mahony_init real_float) = (1, 2, 3)" by simp
qed

end
