(* ===== verification/Est_Kalman.thy ===== *)
theory Est_Kalman
  imports Est_Mahony
begin

text \<open>
  The Kalman filter of one axis, \<open>Kf3\<close> of \<open>samples/rose_flight_controller/src/estimator_ekf.hpp\<close>:
  position, velocity and accelerometer bias with the upper triangle of their covariance. Over the real
  numbers the updates are the textbook ones on the whole matrix, and they keep the covariance positive.
\<close>

record 'f kf3 =
  k_p :: 'f
  k_v :: 'f
  k_ba :: 'f
  P00 :: 'f
  P01 :: 'f
  P02 :: 'f
  P11 :: 'f
  P12 :: 'f
  P22 :: 'f
  sigma_a2 :: 'f
  sigma_ba2 :: 'f

definition kf_init :: "('f, 'z) est_float_scheme \<Rightarrow> 'f \<Rightarrow> 'f \<Rightarrow> 'f \<Rightarrow> 'f \<Rightarrow> 'f kf3" where
  "kf_init F p0 sigma_a sigma_ba p22_0 = \<lparr>k_p = p0, k_v = f_zero F, k_ba = f_zero F,
     P00 = f_lit F 1 2, P01 = f_zero F, P02 = f_zero F, P11 = f_lit F 1 2, P12 = f_zero F, P22 = p22_0,
     sigma_a2 = f_mul F sigma_a sigma_a, sigma_ba2 = f_mul F sigma_ba sigma_ba\<rparr>"

definition kf_predict :: "('f, 'z) est_float_scheme \<Rightarrow> 'f \<Rightarrow> 'f \<Rightarrow> 'f kf3 \<Rightarrow> 'f kf3" where
  "kf_predict F a_meas dt k =
     (let h2 = f_mul F (f_mul F (f_lit F 5 1) dt) dt;
          a = f_sub F a_meas (k_ba k);
          p = f_add F (k_p k) (f_add F (f_mul F (k_v k) dt) (f_mul F h2 a));
          v = f_add F (k_v k) (f_mul F a dt);
          a00 = f_sub F (f_add F (P00 k) (f_mul F dt (P01 k))) (f_mul F h2 (P02 k));
          a01 = f_sub F (f_add F (P01 k) (f_mul F dt (P11 k))) (f_mul F h2 (P12 k));
          a02 = f_sub F (f_add F (P02 k) (f_mul F dt (P12 k))) (f_mul F h2 (P22 k));
          a11 = f_sub F (P11 k) (f_mul F dt (P12 k));
          a12 = f_sub F (P12 k) (f_mul F dt (P22 k));
          a22 = P22 k;
          np00 = f_sub F (f_add F a00 (f_mul F a01 dt)) (f_mul F a02 h2);
          np01 = f_sub F a01 (f_mul F a02 dt);
          np02 = a02;
          np11 = f_sub F a11 (f_mul F a12 dt);
          np12 = a12;
          np22 = a22;
          dt2 = f_mul F dt dt; dt3 = f_mul F dt2 dt; dt4 = f_mul F dt2 dt2 in
      k\<lparr>k_p := p, k_v := v,
        P00 := f_add F np00 (f_mul F (f_mul F (sigma_a2 k) dt4) (f_lit F 25 2)),
        P01 := f_add F np01 (f_mul F (f_mul F (sigma_a2 k) dt3) (f_lit F 5 1)),
        P02 := np02,
        P11 := f_add F np11 (f_mul F (sigma_a2 k) dt2),
        P12 := np12,
        P22 := f_add F np22 (f_mul F (sigma_ba2 k) dt2)\<rparr>)"

definition gated :: "('f, 'z) est_float_scheme \<Rightarrow> 'f \<Rightarrow> 'f \<Rightarrow> 'f \<Rightarrow> bool" where
  "gated F resid S gate \<longleftrightarrow> f_less F (f_zero F) gate \<and> f_less F (f_mul F gate S) (f_mul F resid resid)"

definition update_pos :: "('f, 'z) est_float_scheme \<Rightarrow> 'f \<Rightarrow> 'f \<Rightarrow> 'f \<Rightarrow> 'f kf3 \<Rightarrow> bool \<times> 'f kf3" where
  "update_pos F meas r gate k =
     (let S = f_add F (P00 k) r; resid = f_sub F meas (k_p k) in
      if gated F resid S gate then (False, k)
      else
        let K0 = f_div F (P00 k) S; K1 = f_div F (P01 k) S; K2 = f_div F (P02 k) S in
        (True, k\<lparr>k_p := f_add F (k_p k) (f_mul F K0 resid), k_v := f_add F (k_v k) (f_mul F K1 resid),
           k_ba := f_add F (k_ba k) (f_mul F K2 resid),
           P00 := f_sub F (P00 k) (f_mul F K0 (P00 k)), P01 := f_sub F (P01 k) (f_mul F K0 (P01 k)),
           P02 := f_sub F (P02 k) (f_mul F K0 (P02 k)), P11 := f_sub F (P11 k) (f_mul F K1 (P01 k)),
           P12 := f_sub F (P12 k) (f_mul F K1 (P02 k)), P22 := f_sub F (P22 k) (f_mul F K2 (P02 k))\<rparr>))"

definition update_vel :: "('f, 'z) est_float_scheme \<Rightarrow> 'f \<Rightarrow> 'f \<Rightarrow> 'f \<Rightarrow> 'f kf3 \<Rightarrow> bool \<times> 'f kf3" where
  "update_vel F meas r gate k =
     (let S = f_add F (P11 k) r; resid = f_sub F meas (k_v k) in
      if gated F resid S gate then (False, k)
      else
        let K0 = f_div F (P01 k) S; K1 = f_div F (P11 k) S; K2 = f_div F (P12 k) S in
        (True, k\<lparr>k_p := f_add F (k_p k) (f_mul F K0 resid), k_v := f_add F (k_v k) (f_mul F K1 resid),
           k_ba := f_add F (k_ba k) (f_mul F K2 resid),
           P00 := f_sub F (P00 k) (f_mul F K0 (P01 k)), P01 := f_sub F (P01 k) (f_mul F K0 (P11 k)),
           P02 := f_sub F (P02 k) (f_mul F K0 (P12 k)), P11 := f_sub F (P11 k) (f_mul F K1 (P11 k)),
           P12 := f_sub F (P12 k) (f_mul F K1 (P12 k)), P22 := f_sub F (P22 k) (f_mul F K2 (P12 k))\<rparr>))"

section \<open>The whole matrix\<close>

text \<open>The covariance as a function of two indices, and the updates of the theory of Kalman filters.\<close>

definition cov :: "real kf3 \<Rightarrow> nat \<Rightarrow> nat \<Rightarrow> real" where
  "cov k i j = [[P00 k, P01 k, P02 k], [P01 k, P11 k, P12 k], [P02 k, P12 k, P22 k]] ! i ! j"

definition mat3 :: "(nat \<Rightarrow> nat \<Rightarrow> real) \<Rightarrow> (nat \<Rightarrow> nat \<Rightarrow> real) \<Rightarrow> nat \<Rightarrow> nat \<Rightarrow> real" where
  "mat3 A B i j = (\<Sum>l<3. A i l * B l j)"

definition flip :: "(nat \<Rightarrow> nat \<Rightarrow> real) \<Rightarrow> nat \<Rightarrow> nat \<Rightarrow> real" where
  "flip A i j = A j i"

text \<open>The transition: constant acceleration over a step, less the bias.\<close>

definition trans :: "real \<Rightarrow> nat \<Rightarrow> nat \<Rightarrow> real" where
  "trans dt i j = [[1, dt, - (dt * dt / 2)], [0, 1, - dt], [0, 0, 1]] ! i ! j"

definition noise :: "real \<Rightarrow> real \<Rightarrow> real \<Rightarrow> nat \<Rightarrow> nat \<Rightarrow> real" where
  "noise sa sb dt i j = [[sa * (dt * dt / 2) * (dt * dt / 2), sa * (dt * dt / 2) * dt, 0],
     [sa * (dt * dt / 2) * dt, sa * dt * dt, 0], [0, 0, sb * dt * dt]] ! i ! j"

definition gain :: "real kf3 \<Rightarrow> nat \<Rightarrow> real \<Rightarrow> nat \<Rightarrow> real" where
  "gain k h r i = cov k i h / (cov k h h + r)"

definition state3 :: "real kf3 \<Rightarrow> nat \<Rightarrow> real" where
  "state3 k i = [k_p k, k_v k, k_ba k] ! i"

lemma sum3_unfold: "(\<Sum>l<3. f l) = f 0 + f 1 + f (2::nat)" for f :: "nat \<Rightarrow> real"
  by (simp add: numeral_3_eq_3 numeral_2_eq_2)

lemma less3: "i < 3 \<longleftrightarrow> i = 0 \<or> i = 1 \<or> i = (2::nat)" by auto

text \<open>
  C30: The prediction of an axis is the textbook one: over real numbers the new covariance is
  \<open>F P F\<^sup>T + Q\<close> for the transition of constant acceleration and the noise of the acceleration and of its
  bias, although the code computes the upper triangle only, and the new state is the transition of the
  state driven by the measured acceleration.
\<close>
theorem predict_is_kalman:
  assumes "i < 3" "j < 3"
  shows "cov (kf_predict real_float a dt k) i j =
      mat3 (mat3 (trans dt) (cov k)) (flip (trans dt)) i j + noise (sigma_a2 k) (sigma_ba2 k) dt i j \<and>
    state3 (kf_predict real_float a dt k) i =
      (\<Sum>l<3. trans dt i l * state3 k l) + [dt * dt / 2, dt, 0] ! i * a"
proof
  show "cov (kf_predict real_float a dt k) i j =
      mat3 (mat3 (trans dt) (cov k)) (flip (trans dt)) i j + noise (sigma_a2 k) (sigma_ba2 k) dt i j"
    using assms unfolding less3
    by (elim disjE; simp add: cov_def kf_predict_def Let_def arith_defs mat3_def flip_def trans_def noise_def
        sum3_unfold field_simps)
  show "state3 (kf_predict real_float a dt k) i =
      (\<Sum>l<3. trans dt i l * state3 k l) + [dt * dt / 2, dt, 0] ! i * a"
    using assms(1) unfolding less3
    by (elim disjE; simp add: state3_def kf_predict_def Let_def trans_def sum3_unfold field_simps)
qed

theorem predict_is_kalman_witness:
  "cov (kf_predict real_float 3 2 (kf_init real_float 1 2 1 4)) 0 1 =
     mat3 (mat3 (trans 2) (cov (kf_init real_float 1 2 1 4))) (flip (trans 2)) 0 1 + noise 4 1 2 0 1"
  using predict_is_kalman[of 0 1 3 2 "kf_init real_float 1 2 1 4"] by (simp add: kf_init_def)

text \<open>
  C31: The corrections of an axis are the textbook ones and gated: over real numbers a position or a
  velocity measurement is rejected, with the filter unchanged, exactly when the gate is on and the
  squared innovation exceeds it times the innovation's variance; an accepted one adds the gain times the
  innovation to the state, and leaves \<open>(I - K H) P\<close> as covariance.
\<close>
theorem update_is_kalman:
  assumes "i < 3" "j < 3"
  shows "(let (ok, k') = update_pos real_float meas r gate k; resid = meas - k_p k in
      (ok \<longleftrightarrow> gate \<le> 0 \<or> resid * resid \<le> gate * (P00 k + r)) \<and>
      (if ok then cov k' i j = cov k i j - gain k 0 r i * cov k 0 j \<and>
         state3 k' i = state3 k i + gain k 0 r i * resid else k' = k)) \<and>
    (let (ok, k') = update_vel real_float meas r gate k; resid = meas - k_v k in
      (ok \<longleftrightarrow> gate \<le> 0 \<or> resid * resid \<le> gate * (P11 k + r)) \<and>
      (if ok then cov k' i j = cov k i j - gain k 1 r i * cov k 1 j \<and>
         state3 k' i = state3 k i + gain k 1 r i * resid else k' = k))"
  using assms unfolding less3
  by (elim disjE; simp add: update_pos_def update_vel_def gated_def Let_def cov_def gain_def state3_def not_less)

theorem update_is_kalman_witness:
  "fst (update_pos real_float 5 1 9 (kf_init real_float 1 2 1 4)) = False \<and>
   cov (snd (update_pos real_float (3 / 2) 1 9 (kf_init real_float 1 2 1 4))) 0 0 =
     1 / 100 - gain (kf_init real_float 1 2 1 4) 0 1 0 * (1 / 100)"
  using update_is_kalman[of 0 0 5 1 9 "kf_init real_float 1 2 1 4"]
    update_is_kalman[of 0 0 "3 / 2" 1 9 "kf_init real_float 1 2 1 4"]
  by (simp add: kf_init_def cov_def Let_def split: prod.splits)

section \<open>Positive covariances\<close>

definition quad :: "real kf3 \<Rightarrow> real \<Rightarrow> real \<Rightarrow> real \<Rightarrow> real" where
  "quad k a b c = P00 k * a * a + P11 k * b * b + P22 k * c * c +
     2 * (P01 k * a * b + P02 k * a * c + P12 k * b * c)"

definition psd :: "real kf3 \<Rightarrow> bool" where
  "psd k \<longleftrightarrow> (\<forall>a b c. 0 \<le> quad k a b c) \<and> 0 \<le> sigma_a2 k \<and> 0 \<le> sigma_ba2 k"

lemma quad_predict:
  "quad (kf_predict real_float a_meas dt k) a b c =
   quad k a (dt * a + b) (- (dt * dt / 2) * a - dt * b + c) +
     sigma_a2 k * (((dt * dt / 2) * a + dt * b) * ((dt * dt / 2) * a + dt * b)) + sigma_ba2 k * ((dt * c) * (dt * c))"
  by (simp add: quad_def kf_predict_def Let_def field_simps)

lemma predict_psd: "psd k \<Longrightarrow> psd (kf_predict real_float a_meas dt k)"
  unfolding psd_def quad_predict
  by (simp add: kf_predict_def Let_def del: mult_zero_left mult_zero_right)

text \<open>The correction by a scalar measurement of variance \<open>r\<close>, for the row \<open>y\<close> of the measured component.\<close>

lemma corrected_nonneg:
  fixes q y s r :: real
  assumes "\<And>t. 0 \<le> q - 2 * t * y + t * t * s" "0 < r" "0 \<le> s"
  shows "0 \<le> q - y * y / (s + r)"
proof -
  define S where "S = s + r"
  have S: "0 < S" "s \<le> S" using assms(2,3) by (simp_all add: S_def)
  have "0 \<le> q - 2 * (y / S) * y + (y / S) * (y / S) * s" by (rule assms(1))
  moreover have "(y / S) * (y / S) * s \<le> (y / S) * (y / S) * S" using S(2) by (rule mult_left_mono) simp
  moreover have "q - 2 * (y / S) * y + (y / S) * (y / S) * S = q - y * y / S" using S(1) by (simp add: field_simps)
  ultimately show ?thesis unfolding S_def[symmetric] by linarith
qed

text \<open>A correction along the row \<open>(u, v, w)\<close>, with the inverse \<open>i\<close> of the innovation's variance.\<close>

lemma quad_correct:
  assumes "P00 k' = P00 k - u * i * u" "P01 k' = P01 k - u * i * v" "P02 k' = P02 k - u * i * w"
    "P11 k' = P11 k - v * i * v" "P12 k' = P12 k - v * i * w" "P22 k' = P22 k - w * i * w"
  shows "quad k' a b c = quad k a b c - (u * a + v * b + w * c) * (u * a + v * b + w * c) / (1 / i)"
  by (simp add: quad_def assms algebra_simps)

lemma quad_shift:
  "quad k (a - t) b c = quad k a b c - 2 * t * (P00 k * a + P01 k * b + P02 k * c) + t * t * P00 k"
  "quad k a (b - t) c = quad k a b c - 2 * t * (P01 k * a + P11 k * b + P12 k * c) + t * t * P11 k"
  by (simp_all add: quad_def algebra_simps)

lemma psd_diag:
  assumes "psd k"
  shows "0 \<le> P00 k" "0 \<le> P11 k" "0 \<le> P22 k"
proof -
  have "0 \<le> quad k 1 0 0" "0 \<le> quad k 0 1 0" "0 \<le> quad k 0 0 1" using assms unfolding psd_def by blast+
  then show "0 \<le> P00 k" "0 \<le> P11 k" "0 \<le> P22 k" by (simp_all add: quad_def)
qed

lemma update_pos_psd:
  assumes "psd k" "0 < r" "update_pos real_float meas r gate k = (ok, k')"
  shows "psd k'"
proof (cases "gated real_float (meas - k_p k) (P00 k + r) gate")
  case False
  have k': "k' = snd (update_pos real_float meas r gate k)" using assms(3) by simp
  have "quad k' a b c = quad k a b c - (P00 k * a + P01 k * b + P02 k * c) * (P00 k * a + P01 k * b + P02 k * c)
      / (1 / (1 / (P00 k + r)))" for a b c
    by (rule quad_correct) (use False in \<open>simp_all add: k' update_pos_def Let_def\<close>)
  moreover have "0 \<le> quad k a b c - (P00 k * a + P01 k * b + P02 k * c) * (P00 k * a + P01 k * b + P02 k * c) / (P00 k + r)"
    for a b c
    by (rule corrected_nonneg) (use assms(1,2) psd_diag[OF assms(1)] in \<open>simp_all add: quad_shift(1)[symmetric] psd_def\<close>)
  moreover have "sigma_a2 k' = sigma_a2 k" "sigma_ba2 k' = sigma_ba2 k"
    using False by (simp_all add: k' update_pos_def Let_def)
  ultimately show ?thesis using assms(1) by (simp add: psd_def)
qed (use assms in \<open>auto simp: update_pos_def Let_def\<close>)

lemma update_vel_psd:
  assumes "psd k" "0 < r" "update_vel real_float meas r gate k = (ok, k')"
  shows "psd k'"
proof (cases "gated real_float (meas - k_v k) (P11 k + r) gate")
  case False
  have k': "k' = snd (update_vel real_float meas r gate k)" using assms(3) by simp
  have "quad k' a b c = quad k a b c - (P01 k * a + P11 k * b + P12 k * c) * (P01 k * a + P11 k * b + P12 k * c)
      / (1 / (1 / (P11 k + r)))" for a b c
    by (rule quad_correct) (use False in \<open>simp_all add: k' update_vel_def Let_def\<close>)
  moreover have "0 \<le> quad k a b c - (P01 k * a + P11 k * b + P12 k * c) * (P01 k * a + P11 k * b + P12 k * c) / (P11 k + r)"
    for a b c
    by (rule corrected_nonneg) (use assms(1,2) psd_diag[OF assms(1)] in \<open>simp_all add: quad_shift(2)[symmetric] psd_def\<close>)
  moreover have "sigma_a2 k' = sigma_a2 k" "sigma_ba2 k' = sigma_ba2 k"
    using False by (simp_all add: k' update_vel_def Let_def)
  ultimately show ?thesis using assms(1) by (simp add: psd_def)
qed (use assms in \<open>auto simp: update_vel_def Let_def\<close>)

lemma init_psd: "0 \<le> p22 \<Longrightarrow> psd (kf_init real_float p0 sa sb p22)"
  by (simp add: psd_def kf_init_def quad_def mult.assoc)

text \<open>
  A correction is a weighted mean and never loses certainty: with a covariance that is positive
  semidefinite and a positive measurement variance, an accepted position lies between the predicted and
  the measured one, and its variance is at most the predicted one's and at most the measurement's.
\<close>
theorem position_correction_bounds:
  assumes "psd k" "0 < r" "update_pos real_float meas r gate k = (True, k')"
  shows "min (k_p k) meas \<le> k_p k' \<and> k_p k' \<le> max (k_p k) meas \<and> 0 \<le> P00 k' \<and> P00 k' \<le> P00 k \<and> P00 k' \<le> r"
proof -
  define s where "s = P00 k"
  define K where "K = s / (s + r)"
  have s: "0 \<le> s" using psd_diag(1)[OF assms(1)] by (simp add: s_def)
  have K: "0 \<le> K" "K \<le> 1" using s assms(2) by (simp_all add: K_def)
  have k': "k_p k' = k_p k + K * (meas - k_p k)" "P00 k' = s - K * s"
    using assms(3) by (auto simp: update_pos_def Let_def s_def K_def split: if_splits)
  have var: "s - K * s = s * r / (s + r)" using s assms(2) by (simp add: K_def field_simps)
  have "s * r / (s + r) \<le> r" "s * r / (s + r) \<le> s"
    using s assms(2) by (simp_all add: field_simps)
  moreover have "k_p k' = (1 - K) * k_p k + K * meas" by (simp add: k'(1) algebra_simps)
  moreover have "min (k_p k) meas \<le> (1 - K) * k_p k + K * meas" "(1 - K) * k_p k + K * meas \<le> max (k_p k) meas"
  proof -
    have "(1 - K) * min (k_p k) meas + K * min (k_p k) meas \<le> (1 - K) * k_p k + K * meas"
      using K by (intro add_mono mult_left_mono) simp_all
    then show "min (k_p k) meas \<le> (1 - K) * k_p k + K * meas" by (simp add: algebra_simps)
    have "(1 - K) * k_p k + K * meas \<le> (1 - K) * max (k_p k) meas + K * max (k_p k) meas"
      using K by (intro add_mono mult_left_mono) simp_all
    then show "(1 - K) * k_p k + K * meas \<le> max (k_p k) meas" by (simp add: algebra_simps)
  qed
  moreover have "0 \<le> s * r / (s + r)" using s assms(2) by simp
  ultimately show ?thesis using k'(2) var by (simp add: s_def)
qed

theorem position_correction_bounds_witness:
  "k_p (snd (update_pos real_float 2 1 0 (kf_init real_float 1 2 1 4))) \<le> 2 \<and>
   P00 (snd (update_pos real_float 2 1 0 (kf_init real_float 1 2 1 4))) \<le> 1 / 100"
proof -
  let ?k = "kf_init real_float 1 2 1 4"
  obtain ok k' where r: "update_pos real_float 2 1 0 ?k = (ok, k')" by (metis prod.exhaust)
  have ok using r by (auto simp: update_pos_def gated_def Let_def)
  then have "update_pos real_float 2 1 0 ?k = (True, k')" using r by simp
  from position_correction_bounds[OF init_psd _ this] r show ?thesis by (simp add: kf_init_def)
qed

end
