(* ===== verification/Est_Filters.thy ===== *)
theory Est_Filters
  imports Est_Kalman
begin

text \<open>
  The two estimators behind \<open>IStateEstimator\<close>, \<open>estimator_complementary.cpp\<close> and
  \<open>estimator_ekf.cpp\<close> of \<open>samples/rose_flight_controller/src\<close>, and the choice between them.
\<close>

definition GRAVITY :: "('f, 'z) est_float_scheme \<Rightarrow> 'f" where "GRAVITY F = f_lit F 981 2"

text \<open>Rows of the rotation matrix applied to three and to two components.\<close>

definition row3 :: "('f, 'z) est_float_scheme \<Rightarrow> 'f list \<Rightarrow> nat \<Rightarrow> 'f list \<Rightarrow> 'f" where
  "row3 F R i v = dot3 F (R ! (3 * i)) (R ! (3 * i + 1)) (R ! (3 * i + 2)) (v ! 0) (v ! 1) (v ! 2)"

definition row2 :: "('f, 'z) est_float_scheme \<Rightarrow> 'f list \<Rightarrow> nat \<Rightarrow> 'f list \<Rightarrow> 'f" where
  "row2 F R i v = mul_add F (R ! (3 * i)) (v ! 0) (R ! (3 * i + 1)) (v ! 1)"

section \<open>The complementary filter\<close>

record 'f compl_est =
  c_att :: "'f mahony"
  c_x :: 'f
  c_y :: 'f
  c_z :: 'f
  c_vx :: 'f
  c_vy :: 'f
  c_vz :: 'f
  c_g :: "'f list"
  c_aw :: "'f list"
  c_dt_last :: 'f
  flow_gain :: 'f
  z_gain :: 'f
  vz_gain :: 'f
  lead :: 'f
  lead_att :: 'f

definition compl_init :: "('f, 'z) est_float_scheme \<Rightarrow> 'f \<Rightarrow> 'f \<Rightarrow> 'f \<Rightarrow> 'f compl_est" where
  "compl_init F x0 y0 z0 = \<lparr>c_att = mahony_init F, c_x = x0, c_y = y0, c_z = z0,
     c_vx = f_zero F, c_vy = f_zero F, c_vz = f_zero F, c_g = [f_zero F, f_zero F, f_zero F],
     c_aw = [f_zero F, f_zero F, f_zero F], c_dt_last = f_zero F, flow_gain = f_lit F 1 0,
     z_gain = f_lit F 5 1, vz_gain = f_lit F 3 1, lead = f_lit F 1 0, lead_att = f_lit F 5 1\<rparr>"

definition world_accel :: "('f, 'z) est_float_scheme \<Rightarrow> 'f list \<Rightarrow> 'f list \<Rightarrow> 'f list" where
  "world_accel F R accel = [row3 F R 0 accel, row3 F R 1 accel, f_sub F (row3 F R 2 accel) (GRAVITY F)]"

definition compl_update ::
    "('f, 'z) est_float_scheme \<Rightarrow> 'f list \<Rightarrow> 'f list \<Rightarrow> 'f list \<Rightarrow> bool \<Rightarrow> 'f \<Rightarrow> bool \<Rightarrow> 'f \<Rightarrow> 'f compl_est \<Rightarrow>
      'f compl_est" where
  "compl_update F accel gyro flow flow_valid height tof_valid dt e =
     (let att = mahony_update F accel gyro dt (c_att e);
          R = rot F att; a = world_accel F R accel;
          vx = f_add F (c_vx e) (f_mul F (a ! 0) dt); vy = f_add F (c_vy e) (f_mul F (a ! 1) dt);
          vz = f_add F (c_vz e) (f_mul F (a ! 2) dt);
          (vx, vy) = (if flow_valid then
             let vfx = row2 F R 0 flow; vfy = row2 F R 1 flow; g = flow_gain e;
                 keep = f_sub F (f_lit F 1 0) g in
             (f_add F (f_mul F keep vx) (f_mul F g vfx), f_add F (f_mul F keep vy) (f_mul F g vfy))
           else (vx, vy));
          x = f_add F (c_x e) (f_mul F vx dt); y = f_add F (c_y e) (f_mul F vy dt);
          z = f_add F (c_z e) (f_mul F vz dt);
          (z, vz) = (if tof_valid then
             let rz = f_sub F height z in (f_add F z (f_mul F (z_gain e) rz), f_add F vz (f_mul F (vz_gain e) rz))
           else (z, vz)) in
      e\<lparr>c_att := att, c_x := x, c_y := y, c_z := z, c_vx := vx, c_vy := vy, c_vz := vz,
        c_g := take 3 gyro, c_aw := a, c_dt_last := dt\<rparr>)"

definition compl_get_state :: "('f, 'z) est_float_scheme \<Rightarrow> 'f compl_est \<Rightarrow> 'f list" where
  "compl_get_state F e =
     (let h = f_mul F (lead e) (c_dt_last e); ha = f_mul F (lead_att e) (c_dt_last e); g = c_g e in
      case quat_step F (g ! 0) (g ! 1) (g ! 2) ha (c_att e) of (pw, px, py, pz) \<Rightarrow>
      let q = safe_w F pw in
      [f_add F (c_x e) (f_mul F (c_vx e) h), f_add F (c_y e) (f_mul F (c_vy e) h), f_add F (c_z e) (f_mul F (c_vz e) h),
       f_div F px q, f_div F py q, f_div F pz q,
       f_add F (c_vx e) (f_mul F (c_aw e ! 0) h), f_add F (c_vy e) (f_mul F (c_aw e ! 1) h),
       f_add F (c_vz e) (f_mul F (c_aw e ! 2) h), g ! 0, g ! 1, g ! 2])"

section \<open>The Kalman estimator\<close>

record 'f ekf =
  e_att :: "'f mahony"
  e_kx :: "'f kf3"
  e_ky :: "'f kf3"
  e_kz :: "'f kf3"
  e_g :: "'f list"
  e_aw :: "'f list"
  e_dt_last :: 'f
  r_flow :: 'f
  r_tof :: 'f
  flow_gate :: 'f
  tof_gate :: 'f
  r_wall :: 'f
  delay_steps :: 'f

definition ekf_init :: "('f, 'z) est_float_scheme \<Rightarrow> 'f \<Rightarrow> 'f \<Rightarrow> 'f \<Rightarrow> 'f ekf" where
  "ekf_init F x0 y0 z0 =
     (let kf = (\<lambda>p. kf_init F p (f_lit F 2 0) (f_lit F 5 2) (f_lit F 25 2)) in
      \<lparr>e_att = mahony_init F, e_kx = kf x0, e_ky = kf y0, e_kz = kf z0,
       e_g = [f_zero F, f_zero F, f_zero F], e_aw = [f_zero F, f_zero F, f_zero F], e_dt_last = f_zero F,
       r_flow = f_lit F 9 4, r_tof = f_lit F 1 4, flow_gate = f_lit F 9 0, tof_gate = f_lit F 25 0,
       r_wall = f_lit F 4 3, delay_steps = f_lit F 1 0\<rparr>)"

definition ekf_update ::
    "('f, 'z) est_float_scheme \<Rightarrow> 'f list \<Rightarrow> 'f list \<Rightarrow> 'f list \<Rightarrow> bool \<Rightarrow> 'f \<Rightarrow> bool \<Rightarrow> 'f \<Rightarrow> 'f ekf \<Rightarrow> 'f ekf" where
  "ekf_update F accel gyro flow flow_valid height tof_valid dt e =
     (let att = mahony_update F accel gyro dt (e_att e);
          R = rot F att; a = world_accel F R accel;
          kx = kf_predict F (a ! 0) dt (e_kx e); ky = kf_predict F (a ! 1) dt (e_ky e);
          kz = kf_predict F (a ! 2) dt (e_kz e);
          (kx, ky) = (if flow_valid
             then (snd (update_vel F (row2 F R 0 flow) (r_flow e) (flow_gate e) kx),
                   snd (update_vel F (row2 F R 1 flow) (r_flow e) (flow_gate e) ky))
             else (kx, ky));
          kz = (if tof_valid then snd (update_pos F height (r_tof e) (tof_gate e) kz) else kz) in
      e\<lparr>e_att := att, e_kx := kx, e_ky := ky, e_kz := kz, e_g := take 3 gyro, e_aw := a, e_dt_last := dt\<rparr>)"

definition ekf_fuse_walls ::
    "('f, 'z) est_float_scheme \<Rightarrow> 'f \<Rightarrow> 'f \<Rightarrow> 'f \<Rightarrow> 'f \<Rightarrow> 'f \<Rightarrow> 'f ekf \<Rightarrow> 'f ekf" where
  "ekf_fuse_walls F d_front d_back d_left d_right rmax e =
     (let lim = f_mul F (f_lit F 95 2) rmax;
          e = (if f_less F d_left lim \<and> f_less F d_right lim
            then e\<lparr>e_ky := snd (update_pos F (f_mul F (f_lit F 5 1) (f_sub F d_right d_left)) (r_wall e) (f_zero F) (e_ky e))\<rparr>
            else e) in
      if f_less F d_front lim \<and> f_less F d_back lim
      then e\<lparr>e_kx := snd (update_pos F (f_mul F (f_lit F 5 1) (f_sub F d_back d_front)) (r_wall e) (f_zero F) (e_kx e))\<rparr>
      else e)"

definition ekf_get_state :: "('f, 'z) est_float_scheme \<Rightarrow> 'f ekf \<Rightarrow> 'f list" where
  "ekf_get_state F e =
     (let h = f_mul F (delay_steps e) (e_dt_last e); g = e_g e in
      case quat_step F (g ! 0) (g ! 1) (g ! 2) h (e_att e) of (pw, px, py, pz) \<Rightarrow>
      let q = safe_w F pw; R = rot F (e_att e);
          cax = f_sub F (e_aw e ! 0) (k_ba (e_kx e)); cay = f_sub F (e_aw e ! 1) (k_ba (e_ky e));
          caz = f_sub F (e_aw e ! 2) (k_ba (e_kz e));
          pos = (\<lambda>k ca. f_add F (f_add F (k_p k) (f_mul F (k_v k) h)) (f_mul F (f_mul F (f_mul F (f_lit F 5 1) ca) h) h)) in
      [pos (e_kx e) cax, pos (e_ky e) cay, pos (e_kz e) caz, f_div F px q, f_div F py q, f_div F pz q,
       f_add F (k_v (e_kx e)) (f_mul F cax h), f_add F (k_v (e_ky e)) (f_mul F cay h),
       f_add F (k_v (e_kz e)) (f_mul F caz h), row3 F R 0 g, row3 F R 1 g, row3 F R 2 g])"

section \<open>The interface\<close>

datatype 'f estimator = Complementary "'f compl_est" | Ekf "'f ekf"

text \<open>The virtual methods; wall distances are ignored by the complementary filter.\<close>

fun estimator_init :: "('f, 'z) est_float_scheme \<Rightarrow> 'f \<Rightarrow> 'f \<Rightarrow> 'f \<Rightarrow> 'f estimator \<Rightarrow> 'f estimator" where
  "estimator_init F x y z (Complementary e) = Complementary (compl_init F x y z)"
| "estimator_init F x y z (Ekf e) = Ekf (ekf_init F x y z)"

fun set_init_yaw :: "('f, 'z) est_float_scheme \<Rightarrow> 'f \<Rightarrow> 'f estimator \<Rightarrow> 'f estimator" where
  "set_init_yaw F psi (Complementary e) = Complementary (e\<lparr>c_att := set_yaw F psi (c_att e)\<rparr>)"
| "set_init_yaw F psi (Ekf e) = Ekf (e\<lparr>e_att := set_yaw F psi (e_att e)\<rparr>)"

fun estimator_update ::
    "('f, 'z) est_float_scheme \<Rightarrow> 'f list \<Rightarrow> 'f list \<Rightarrow> 'f list \<Rightarrow> bool \<Rightarrow> 'f \<Rightarrow> bool \<Rightarrow> 'f \<Rightarrow> 'f estimator \<Rightarrow>
      'f estimator" where
  "estimator_update F a g fl fv h tv dt (Complementary e) = Complementary (compl_update F a g fl fv h tv dt e)"
| "estimator_update F a g fl fv h tv dt (Ekf e) = Ekf (ekf_update F a g fl fv h tv dt e)"

fun estimator_fuse_walls ::
    "('f, 'z) est_float_scheme \<Rightarrow> 'f \<Rightarrow> 'f \<Rightarrow> 'f \<Rightarrow> 'f \<Rightarrow> 'f \<Rightarrow> 'f estimator \<Rightarrow> 'f estimator" where
  "estimator_fuse_walls F f b l r m (Complementary e) = Complementary e"
| "estimator_fuse_walls F f b l r m (Ekf e) = Ekf (ekf_fuse_walls F f b l r m e)"

fun estimator_get_state :: "('f, 'z) est_float_scheme \<Rightarrow> 'f estimator \<Rightarrow> 'f list" where
  "estimator_get_state F (Complementary e) = compl_get_state F e"
| "estimator_get_state F (Ekf e) = ekf_get_state F e"

text \<open>\<open>ROSE_USE_EKF\<close> selects the static instance.\<close>

definition active_estimator :: "bool \<Rightarrow> 'f compl_est \<Rightarrow> 'f ekf \<Rightarrow> 'f estimator" where
  "active_estimator use_ekf c e = (if use_ekf then Ekf e else Complementary c)"

lemma estimator_state_length [simp]: "length (estimator_get_state F e) = 12"
  by (cases e) (simp_all add: compl_get_state_def ekf_get_state_def Let_def split: prod.splits)

section \<open>Invariants\<close>

definition ekf_ok :: "real ekf \<Rightarrow> bool" where
  "ekf_ok e \<longleftrightarrow> unit_quat (e_att e) \<and> psd (e_kx e) \<and> psd (e_ky e) \<and> psd (e_kz e) \<and>
     0 < r_flow e \<and> 0 < r_tof e \<and> 0 < r_wall e"

fun estimator_ok :: "real estimator \<Rightarrow> bool" where
  "estimator_ok (Complementary e) = unit_quat (c_att e)"
| "estimator_ok (Ekf e) = ekf_ok e"

lemma corrected_psd:
  "psd k \<Longrightarrow> 0 < r \<Longrightarrow> psd (snd (update_pos real_float m r g k))"
  "psd k \<Longrightarrow> 0 < r \<Longrightarrow> psd (snd (update_vel real_float m r g k))"
  by (metis prod.collapse update_pos_psd, metis prod.collapse update_vel_psd)

lemma ekf_update_ok: "ekf_ok e \<Longrightarrow> ekf_ok (ekf_update real_float a g fl fv h tv dt e)"
  by (simp add: ekf_ok_def ekf_update_def Let_def mahony_update_unit predict_psd corrected_psd)

lemma ekf_fuse_walls_ok: "ekf_ok e \<Longrightarrow> ekf_ok (ekf_fuse_walls real_float f b l r m e)"
  by (simp add: ekf_ok_def ekf_fuse_walls_def Let_def corrected_psd)

lemma ekf_init_ok: "ekf_ok (ekf_init real_float x y z)"
  by (simp add: ekf_ok_def ekf_init_def Let_def mahony_init_unit init_psd)

lemma estimator_update_ok: "estimator_ok e \<Longrightarrow> estimator_ok (estimator_update real_float a g fl fv h tv dt e)"
  by (cases e) (simp_all add: compl_update_def Let_def mahony_update_unit ekf_update_ok split: prod.splits)

text \<open>
  The estimators stay consistent: initialisation gives a unit attitude and positive semidefinite
  covariances on every axis, and the heading calibration, every update, with or without flow and height,
  and the fusion of wall distances keep them, whatever the sensors deliver.
\<close>
theorem estimator_stays_ok:
  assumes "estimator_ok e"
  shows "estimator_ok (estimator_init real_float x y z e) \<and> estimator_ok (set_init_yaw real_float psi e) \<and>
    estimator_ok (estimator_update real_float a g fl fv h tv dt e) \<and>
    estimator_ok (estimator_fuse_walls real_float f b l r m e)"
proof (cases e)
  case (Complementary c)
  then show ?thesis
    using assms by (simp add: compl_init_def mahony_init_unit set_yaw_unit compl_update_def Let_def
        mahony_update_unit split: prod.splits)
next
  case (Ekf k)
  have "ekf_ok (ekf_init real_float x y z)" by (rule ekf_init_ok)
  moreover have "ekf_ok (k\<lparr>e_att := set_yaw real_float psi (e_att k)\<rparr>)"
    using assms Ekf by (simp add: ekf_ok_def set_yaw_unit)
  ultimately show ?thesis using assms Ekf by (simp add: ekf_update_ok ekf_fuse_walls_ok)
qed

theorem estimator_stays_ok_witness:
  "estimator_ok (estimator_update real_float [0, 1, 9] [1, 0, 0] [1, 1] True 2 True (1 / 200)
     (Ekf (ekf_init real_float 0 0 1)))"
  using estimator_stays_ok[of "Ekf (ekf_init real_float 0 0 1)"]
  by (simp add: ekf_init_ok)

section \<open>Behaviour\<close>

definition level :: "real mahony \<Rightarrow> bool" where
  "level m \<longleftrightarrow> qw m = 1 \<and> qx m = 0 \<and> qy m = 0 \<and> qz m = 0"

abbreviation hover_accel :: "real list" where "hover_accel \<equiv> [0, 0, 981 / 100]"

lemma level_update: "level m \<Longrightarrow> level (mahony_update real_float hover_accel [0, 0, 0] dt m)"
  by (simp add: level_def mahony_update_def trimmed_rate_def quat_step_def Let_def arith_defs)

lemma level_rot: "level m \<Longrightarrow> rot real_float m = [1, 0, 0, 0, 1, 0, 0, 0, 1]"
  by (simp add: level_def rot_def Let_def arith_defs)

lemma level_step: "level m \<Longrightarrow> quat_step real_float 0 0 0 h m = (1, 0, 0, 0)"
  by (simp add: level_def quat_step_def Let_def arith_defs)

lemma level_accel: "world_accel real_float [1, 0, 0, 0, 1, 0, 0, 0, 1] hover_accel = [0, 0, 0]"
  by (simp add: world_accel_def row3_def arith_defs GRAVITY_def)

definition resting :: "real \<Rightarrow> real kf3 \<Rightarrow> bool" where
  "resting p k \<longleftrightarrow> k_p k = p \<and> k_v k = 0 \<and> k_ba k = 0"

lemma resting_steps:
  "resting p k \<Longrightarrow> resting p (kf_predict real_float 0 dt k)"
  "resting p k \<Longrightarrow> resting p (snd (update_pos real_float p r g k))"
  "resting p k \<Longrightarrow> resting p (snd (update_vel real_float 0 r g k))"
  by (simp_all add: resting_def kf_predict_def update_pos_def update_vel_def Let_def)

text \<open>An estimator at rest in a level hover at a position.\<close>

fun hovering :: "real \<Rightarrow> real \<Rightarrow> real \<Rightarrow> real estimator \<Rightarrow> bool" where
  "hovering x y z (Complementary e) \<longleftrightarrow> level (c_att e) \<and> c_x e = x \<and> c_y e = y \<and> c_z e = z \<and>
     c_vx e = 0 \<and> c_vy e = 0 \<and> c_vz e = 0 \<and> c_g e = [0, 0, 0] \<and> c_aw e = [0, 0, 0]"
| "hovering x y z (Ekf e) \<longleftrightarrow> level (e_att e) \<and> resting x (e_kx e) \<and> resting y (e_ky e) \<and> resting z (e_kz e) \<and>
     e_g e = [0, 0, 0] \<and> e_aw e = [0, 0, 0]"

lemma hovering_update:
  "hovering x y z e \<Longrightarrow> hovering x y z (estimator_update real_float hover_accel [0, 0, 0] [0, 0] fv z tv dt e)"
  by (cases e)
    (simp_all add: compl_update_def ekf_update_def Let_def level_update level_rot level_accel row2_def arith_defs
      resting_steps take_Cons')

lemma hovering_init: "hovering x y z (estimator_init real_float x y z e)"
  by (cases e)
    (simp_all add: compl_init_def ekf_init_def Let_def mahony_init_def level_def resting_def kf_init_def)

lemma hovering_state:
  "hovering x y z e \<Longrightarrow> estimator_get_state real_float e = [x, y, z, 0, 0, 0, 0, 0, 0, 0, 0, 0]"
  by (cases e)
    (simp_all add: compl_get_state_def ekf_get_state_def Let_def level_step level_rot safe_w_def row3_def arith_defs
      resting_def)

text \<open>
  A level hover is a fixed point of both estimators: from the takeoff pose, with the accelerometer
  reading gravity, no rotation, no flow and the takeoff height, the state reported after any number of
  updates of any lengths, with or without flow and height samples, is the takeoff pose at rest.
\<close>
theorem hover_is_fixed_point:
  "estimator_get_state real_float
     (fold (\<lambda>(fv, tv, dt). estimator_update real_float hover_accel [0, 0, 0] [0, 0] fv z tv dt) steps
       (estimator_init real_float x y z e)) = [x, y, z, 0, 0, 0, 0, 0, 0, 0, 0, 0]"
proof -
  have "hovering x y z (fold (\<lambda>(fv, tv, dt). estimator_update real_float hover_accel [0, 0, 0] [0, 0] fv z tv dt) steps e')"
    if "hovering x y z e'" for e'
    using that by (induction steps arbitrary: e') (auto simp: hovering_update)
  then show ?thesis by (intro hovering_state) (simp add: hovering_init)
qed

text \<open>
  The complementary filter follows its measurements: over real numbers, with the gains of its
  initialisation, a valid flow sets the horizontal velocity to the flow turned into the world frame, and
  a height sample halves the distance between the dead-reckoned altitude and the measured one.
\<close>
theorem complementary_follows:
  assumes "flow_gain e = 1" "z_gain e = 1 / 2"
  shows "(let e' = compl_update real_float a g fl True h True dt e; R = rot real_float (c_att e');
        predicted = c_z e + (c_vz e + world_accel real_float R a ! 2 * dt) * dt in
      c_vx e' = row2 real_float R 0 fl \<and> c_vy e' = row2 real_float R 1 fl \<and>
      c_z e' - h = (predicted - h) / 2)"
  using assms by (simp add: compl_update_def Let_def field_simps)

theorem complementary_follows_witness:
  "c_z (compl_update real_float hover_accel [0, 0, 0] [1, 2] True 3 True 1 (compl_init real_float 0 0 1)) = 2"
proof -
  let ?e = "compl_init real_float 0 0 1"
  have "level (c_att ?e)" by (simp add: compl_init_def mahony_init_def level_def)
  then have R: "rot real_float (c_att (compl_update real_float hover_accel [0, 0, 0] [1, 2] True 3 True 1 ?e)) =
      [1, 0, 0, 0, 1, 0, 0, 0, 1]"
    using level_rot[OF level_update[of "c_att ?e" 1]] by (simp add: compl_update_def Let_def)
  have "flow_gain ?e = 1" "z_gain ?e = 1 / 2" by (simp_all add: compl_init_def)
  from complementary_follows[OF this, of hover_accel "[0, 0, 0]" "[1, 2]" 3 1] show ?thesis
    unfolding R Let_def level_accel by (simp add: compl_init_def)
qed

text \<open>
  Walls anchor an axis only in pairs: an axis whose facing walls are not both nearer than 95 per
  cent of the sensor's range is left as it was, and one whose walls are near is corrected by half of
  the difference of the two distances; height, attitude and the other axis do not change.
\<close>
theorem walls_fused_in_pairs:
  "(let e' = ekf_fuse_walls real_float f b l r m e; lim = 95 / 100 * m in
     e_ky e' = (if l < lim \<and> r < lim
       then snd (update_pos real_float ((r - l) / 2) (r_wall e) 0 (e_ky e)) else e_ky e) \<and>
     e_kx e' = (if f < lim \<and> b < lim
       then snd (update_pos real_float ((b - f) / 2) (r_wall e) 0 (e_kx e)) else e_kx e) \<and>
     e_kz e' = e_kz e \<and> e_att e' = e_att e)"
  by (simp add: ekf_fuse_walls_def Let_def)

end
