(* ===== verification/Tinympc_Flight.thy ===== *)
theory Tinympc_Flight
  imports Tinympc_Ready Est_Filters
begin

text \<open>
  The flight controller with the modelled solver and the modelled estimators in the place of their
  interfaces: the solver's workspace is the state the control block carries from solve to solve, the
  estimator that of the estimation block.
\<close>

definition with_solver ::
    "('f, 'e, 'm, 'w) rose_api \<Rightarrow> 'f matlib \<Rightarrow> ('f, 'z) mat_float_scheme \<Rightarrow> ('f, 'e, 'f tiny_solver, 'w) rose_api" where
  "with_solver A K F = \<lparr>f_lit = f_lit A, f_add = f_add A, f_sub = f_sub A, f_mul = f_mul A, f_div = f_div A,
     f_less = f_less A, f_eq = f_eq A, f_of_int = f_of_int A, f_to_u32 = f_to_u32 A, f_bits = f_bits A,
     HAVE_FLOW = HAVE_FLOW A, HAVE_TOF = HAVE_TOF A, dev_ready = dev_ready A, sample_fetch = sample_fetch A,
     channel_get = channel_get A, uptime_ms = uptime_ms A, cycle_get_64 = cycle_get_64 A, rose_tx = rose_tx A,
     pwm_period = pwm_period A, pwm_set_pulse = pwm_set_pulse A, est_init = est_init A, est_update = est_update A,
     est_fuse_walls = est_fuse_walls A, est_get_state = est_get_state A,
     mpc_solve = (\<lambda>err s. case mpc_control K F err s of Some r \<Rightarrow> r | None \<Rightarrow> ([], s))\<rparr>"

definition with_estimator ::
    "('f, 'e, 'm, 'w) rose_api \<Rightarrow> ('f, 'z) est_float_scheme \<Rightarrow> ('f, 'f estimator, 'm, 'w) rose_api" where
  "with_estimator A F = \<lparr>f_lit = f_lit A, f_add = f_add A, f_sub = f_sub A, f_mul = f_mul A, f_div = f_div A,
     f_less = f_less A, f_eq = f_eq A, f_of_int = f_of_int A, f_to_u32 = f_to_u32 A, f_bits = f_bits A,
     HAVE_FLOW = HAVE_FLOW A, HAVE_TOF = HAVE_TOF A, dev_ready = dev_ready A, sample_fetch = sample_fetch A,
     channel_get = channel_get A, uptime_ms = uptime_ms A, cycle_get_64 = cycle_get_64 A, rose_tx = rose_tx A,
     pwm_period = pwm_period A, pwm_set_pulse = pwm_set_pulse A, est_init = estimator_init F,
     est_update = estimator_update F, est_fuse_walls = estimator_fuse_walls F,
     est_get_state = estimator_get_state F, mpc_solve = mpc_solve A\<rparr>"

lemma with_solver_simps [simp]:
  "est_get_state (with_solver A K F) = est_get_state A"
  "est_update (with_solver A K F) = est_update A"
  "est_get_state (with_estimator B E) = estimator_get_state E"
  "est_update (with_estimator B E) = estimator_update E"
  "mpc_solve (with_solver A K F) err s = (case mpc_control K F err s of Some r \<Rightarrow> r | None \<Rightarrow> ([], s))"
  by (simp_all add: with_solver_def with_estimator_def)

lemma control_error_length [simp]: "length st = nst \<Longrightarrow> length (control_error A st) = nst"
  by (simp add: control_error_def g_setpoint_def tiny_dims Rose_Flight.NSTATES_def)

context tiny_kernels
begin

lemma solve_control_ready:
  assumes "mpc_ready F P s" "length st = nst"
  shows "\<exists>u s'. solve_control (with_solver A K F) st s = (u, s') \<and> length u = NACTIONS \<and> mpc_ready F P s' \<and>
    slice nst 0 (w_x (sv_work s')) = control_error (with_solver A K F) st"
proof -
  let ?err = "control_error (with_solver A K F) st"
  obtain rc s' where 1: "mpc_run K F ?err s = Some (rc, s')" "mpc_ready F P s'"
    "slice nst 0 (w_x (sv_work s')) = ?err"
    using mpc_run_ready[OF assms(1), of ?err] assms(2) by auto
  then show ?thesis by (simp add: solve_control_def mpc_control_def)
qed

lemma single_loop_ready:
  assumes "\<And>e. length (est_get_state A e) = nst"
  shows "mpc_ready F P s \<Longrightarrow> single_loop (with_solver A K F) k (h, e, s, w) = (h', e', s', w') \<Longrightarrow> mpc_ready F P s'"
proof (induction k arbitrary: h e s w)
  case (Suc k)
  obtain fo h1 w1 where r: "read_sensor_frame (with_solver A K F) h w = (fo, h1, w1)" by (metis prod.exhaust)
  show ?case
  proof (cases fo)
    case None
    then show ?thesis using Suc r by simp
  next
    case (Some f)
    let ?e = "update_estimate (with_solver A K F) f e"
    obtain u s1 where "solve_control (with_solver A K F) (est_get_state A ?e) s = (u, s1)" "mpc_ready F P s1"
      using solve_control_ready[OF Suc.prems(1) assms] by blast
    then show ?thesis using Suc r Some by (simp add: Let_def)
  qed
qed simp

end

text \<open>
  The control loop of the flight controller never loses its solver: over any number of iterations, with
  any sensors, either estimator and any vector unit, the solver stays ready, so that the solve after them
  returns four thrusts computed from a trajectory that starts at the control error of the estimate.
\<close>
theorem flight_solver_stays_ready:
  fixes A :: "('f, 'e, 'm, 'w) rose_api"
  assumes "rvv_laws V" "\<And>x y. f_mul F x y = f_mul F y x" "mpc_ready F P s"
  defines "A' \<equiv> with_solver (with_estimator A F) (rvv_kernels V F) F"
  assumes "single_loop A' k (h, e, s, w) = (h', e', s', w')"
  shows "\<exists>u s''. solve_control A' (est_get_state A' e') s' = (u, s'') \<and> length u = NACTIONS \<and>
    mpc_ready F P s'' \<and> slice nst 0 (w_x (sv_work s'')) = control_error A' (est_get_state A' e')"
proof -
  have len: "length (estimator_get_state F e) = nst" for e :: "'f estimator" by (simp add: tiny_dims)
  have "mpc_ready F P s'"
    using tiny_kernels.single_loop_ready[OF rvv_tiny_kernels[OF assms(1,2)] _ assms(3), of "with_estimator A F"]
      assms(5) len unfolding A'_def by simp
  then show ?thesis
    using tiny_kernels.solve_control_ready[OF rvv_tiny_kernels[OF assms(1,2)] _ len, of P s' "with_estimator A F" e']
    unfolding A'_def by simp
qed

text \<open>Fixed-point numbers with the functions of the estimators, to run the loop on.\<close>

definition sim_est :: "int option est_float" where
  "sim_est = \<lparr>f_lit = f_lit sim_mat, f_add = f_add sim_mat, f_sub = f_sub sim_mat, f_mul = f_mul sim_mat,
     f_div = f_div sim_mat, f_less = f_less sim_mat, f_eq = f_eq sim_mat, f_of_int = f_of_int sim_mat,
     f_to_u32 = f_to_u32 sim_mat, f_bits = f_bits sim_mat, f_neg = f_neg sim_mat, f_sqrt = f_sqrt sim_mat,
     MATLIB_FLOAT_MIN = MATLIB_FLOAT_MIN sim_mat, MATLIB_FLOAT_MAX = MATLIB_FLOAT_MAX sim_mat,
     f_abs = map_option abs, f_sin = id, f_cos = id\<rparr>"

lemma sim_est_ready: "mpc_ready sim_est sim_problem sim_solver"
  using sim_ready
  by (simp add: mpc_ready_def problem_loaded_def tiny_init_def sim_est_def)

theorem flight_solver_stays_ready_witness:
  "\<exists>h e s w u s'. single_loop (with_solver (with_estimator sim_rose sim_est) (rvv_kernels (sim_rvv (\<lambda>x. None)) sim_est) sim_est)
       3 (tof_hold_0 sim_rose, Ekf (ekf_init sim_est (Some 0) (Some 0) (Some 0)), sim_solver, tof_bench) = (h, e, s, w) \<and>
     solve_control (with_solver (with_estimator sim_rose sim_est) (rvv_kernels (sim_rvv (\<lambda>x. None)) sim_est) sim_est)
       (estimator_get_state sim_est e) s = (u, s') \<and> length u = 4"
proof -
  let ?A = "with_solver (with_estimator sim_rose sim_est) (rvv_kernels (sim_rvv (\<lambda>x. None)) sim_est) sim_est"
  let ?e = "Ekf (ekf_init sim_est (Some 0) (Some 0) (Some 0))"
  obtain h e s w where l: "single_loop ?A 3 (tof_hold_0 sim_rose, ?e, sim_solver, tof_bench) = (h, e, s, w)"
    by (metis prod.exhaust)
  have "f_mul sim_est x y = f_mul sim_est y x" for x y using sim_mul_comm by (simp add: sim_est_def)
  from flight_solver_stays_ready[OF sim_unit.rvv_laws_axioms this sim_est_ready l] l
  show ?thesis by (auto simp: NACTIONS_def)
qed

text \<open>
  The control loop keeps its estimator consistent: over real numbers, from a unit attitude and
  positive semidefinite covariances, any number of iterations with any sensor readings, dropouts and
  failed reads ends with them.
\<close>
theorem flight_estimator_stays_ok:
  assumes "estimator_ok e"
  shows "estimator_ok (fst (snd (single_loop (with_solver (with_estimator A real_float) K real_float) k (h, e, s, w))))"
  using assms
proof (induction k arbitrary: h e s w)
  case (Suc k)
  let ?A = "with_solver (with_estimator A real_float) K real_float"
  obtain fo h1 w1 where r: "read_sensor_frame ?A h w = (fo, h1, w1)" by (metis prod.exhaust)
  show ?case
  proof (cases fo)
    case None
    then show ?thesis using Suc r by simp
  next
    case (Some f)
    let ?e = "update_estimate ?A f e"
    have "estimator_ok ?e" using estimator_update_ok[OF Suc.prems(1)] by (simp add: update_estimate_def)
    moreover obtain u s1 where "solve_control ?A (est_get_state ?A ?e) s = (u, s1)" by (metis prod.exhaust)
    ultimately show ?thesis using Suc.IH r Some by (simp add: Let_def)
  qed
qed simp

text \<open>Constant readings in real numbers.\<close>

definition real_rose :: "(real, unit, unit, unit) rose_api" where
  "real_rose = \<lparr>f_lit = f_lit real_float, f_add = (+), f_sub = (-), f_mul = (*), f_div = (/), f_less = (<),
     f_eq = (=), f_of_int = real_of_int, f_to_u32 = f_to_u32 real_float, f_bits = f_bits real_float,
     HAVE_FLOW = True, HAVE_TOF = True, dev_ready = (\<lambda>d w. True), sample_fetch = (\<lambda>d w. (0, w)),
     channel_get = (\<lambda>d c w. (0, [1, 2, 10], w)), uptime_ms = (\<lambda>w. (0, w)), cycle_get_64 = (\<lambda>w. (0, w)),
     rose_tx = (\<lambda>x w. w), pwm_period = (\<lambda>i. 0), pwm_set_pulse = (\<lambda>i p w. w), est_init = (\<lambda>x y z e. e),
     est_update = (\<lambda>a g fl fv h tv dt e. e), est_fuse_walls = (\<lambda>f b l r m e. e),
     est_get_state = (\<lambda>e. []), mpc_solve = (\<lambda>x m. (x, m))\<rparr>"

theorem flight_estimator_stays_ok_witness:
  "\<forall>s. estimator_ok (fst (snd (single_loop
     (with_solver (with_estimator real_rose real_float) (cpu_kernels real_float) real_float) 200
     (tof_hold_0 real_rose, Ekf (ekf_init real_float 0 0 1), s, ()))))"
  by (intro allI flight_estimator_stays_ok) (simp add: ekf_init_ok)

end
