(* ===== verification/Attitude.thy ===== *)
theory Attitude
  imports Est_Mahony
begin

text \<open>
  The sample \<open>samples/flight_controller\<close>: \<open>attitude_estimator.c\<close> with its complementary filter, its
  thread, its start and stop, and \<open>main.c\<close>. The sensors and the clock are the operations of the drone
  programs' interface; sleeping and logging are left out. The mutex makes each access to the estimate
  one step.
\<close>

definition EALREADY :: int where "EALREADY = 120"

record 'f att_float = "'f est_float" +
  f_atan2 :: "'f \<Rightarrow> 'f \<Rightarrow> 'f"

record 'f attitude =
  roll :: 'f
  pitch :: 'f
  yaw :: 'f

definition COMPLEMENTARY_FILTER_ALPHA :: "('f, 'z) att_float_scheme \<Rightarrow> 'f" where
  "COMPLEMENTARY_FILTER_ALPHA F = f_lit F 98 2"

definition complementary_filter ::
    "('f, 'z) att_float_scheme \<Rightarrow> 'f list \<Rightarrow> 'f list \<Rightarrow> 'f \<Rightarrow> 'f attitude \<Rightarrow> 'f attitude" where
  "complementary_filter F accel gyro dt a =
     (let accel_roll = f_atan2 F (accel ! 1) (accel ! 2);
          accel_pitch = f_atan2 F (f_neg F (accel ! 0))
            (f_sqrt F (mul_add F (accel ! 1) (accel ! 1) (accel ! 2) (accel ! 2)));
          gyro_roll = f_add F (roll a) (f_mul F (gyro ! 0) dt);
          gyro_pitch = f_add F (pitch a) (f_mul F (gyro ! 1) dt);
          gyro_yaw = f_add F (yaw a) (f_mul F (gyro ! 2) dt);
          alpha = COMPLEMENTARY_FILTER_ALPHA F; rest = f_sub F (f_lit F 1 0) alpha in
      \<lparr>roll = mul_add F alpha gyro_roll rest accel_roll,
       pitch = mul_add F alpha gyro_pitch rest accel_pitch, yaw = gyro_yaw\<rparr>)"

text \<open>One pass of the thread: \<open>last_time\<close> moves on whether or not the sensors can be read.\<close>

definition read_imu :: "('f, 'e, 'm, 'w) rose_api \<Rightarrow> 'w \<Rightarrow> ('f list \<times> 'f list) option \<times> 'w" where
  "read_imu A w =
     (case sample_fetch A ACCEL w of (ret, w) \<Rightarrow> if ret < 0 then (None, w) else
      case channel_get A ACCEL ACCEL_XYZ w of (ret, accel, w) \<Rightarrow> if ret < 0 then (None, w) else
      case sample_fetch A GYRO w of (ret, w) \<Rightarrow> if ret < 0 then (None, w) else
      case channel_get A GYRO GYRO_XYZ w of (ret, gyro, w) \<Rightarrow> if ret < 0 then (None, w) else
      (Some (take 3 accel, take 3 gyro), w))"

definition estimator_pass ::
    "('f, 'e, 'm, 'w) rose_api \<Rightarrow> ('f, 'z) att_float_scheme \<Rightarrow> int \<times> 'f attitude \<times> 'w \<Rightarrow> int \<times> 'f attitude \<times> 'w" where
  "estimator_pass A F = (\<lambda>(last_time, a, w).
     case uptime_ms A w of (current_time, w) \<Rightarrow>
     let dt = f_div F (f_of_int F (current_time - last_time)) (f_lit F 1000 0) in
     case read_imu A w of
       (None, w) \<Rightarrow> (current_time, a, w)
     | (Some (accel, gyro), w) \<Rightarrow> (current_time, complementary_filter F accel gyro dt a, w))"

definition attitude_estimator_thread ::
    "('f, 'e, 'm, 'w) rose_api \<Rightarrow> ('f, 'z) att_float_scheme \<Rightarrow> nat \<Rightarrow> 'f attitude \<Rightarrow> 'w \<Rightarrow> int \<times> 'f attitude \<times> 'w" where
  "attitude_estimator_thread A F passes a w =
     (case uptime_ms A w of (t, w) \<Rightarrow> (estimator_pass A F ^^ passes) (t, a, w))"

section \<open>Start and stop\<close>

record 'f att_module =
  estimator_running :: bool
  thread_alive :: bool
  mutex_ready :: bool
  current_attitude :: "'f attitude"

definition attitude_estimator_init ::
    "('f, 'e, 'm, 'w) rose_api \<Rightarrow> 'w \<Rightarrow> 'f att_module \<Rightarrow> int \<times> 'f att_module" where
  "attitude_estimator_init A w m =
     (if \<not> dev_ready A ACCEL w then (- ENODEV, m)
      else if \<not> dev_ready A GYRO w then (- ENODEV, m)
      else (0, m\<lparr>mutex_ready := True\<rparr>))"

text \<open>\<open>wanted\<close> is whether the caller's pointer is set.\<close>

definition attitude_estimator_get :: "bool \<Rightarrow> 'f att_module \<Rightarrow> int \<times> 'f attitude option" where
  "attitude_estimator_get wanted m = (if \<not> wanted then (- EINVAL, None) else (0, Some (current_attitude m)))"

definition attitude_estimator_start :: "'f att_module \<Rightarrow> int \<times> 'f att_module" where
  "attitude_estimator_start m =
     (if estimator_running m then (- EALREADY, m)
      else (0, m\<lparr>estimator_running := True, thread_alive := True\<rparr>))"

text \<open>Stopping waits for the thread, which leaves its loop when it sees the flag.\<close>

definition attitude_estimator_stop :: "'f att_module \<Rightarrow> int \<times> 'f att_module" where
  "attitude_estimator_stop m =
     (if \<not> estimator_running m then (- EALREADY, m)
      else (0, m\<lparr>estimator_running := False, thread_alive := False\<rparr>))"

definition attitude_main :: "('f, 'e, 'm, 'w) rose_api \<Rightarrow> 'w \<Rightarrow> 'f att_module \<Rightarrow> int \<times> 'f att_module" where
  "attitude_main A w m =
     (case attitude_estimator_init A w m of (ret, m) \<Rightarrow> if ret < 0 then (ret, m)
      else attitude_estimator_start m)"

lemma starts_and_stops:
  assumes "estimator_running m = thread_alive m"
  shows "estimator_running (snd (attitude_estimator_start m)) = thread_alive (snd (attitude_estimator_start m))"
    and "estimator_running (snd (attitude_estimator_stop m)) = thread_alive (snd (attitude_estimator_stop m))"
    and "fst (attitude_estimator_start m) = 0 \<longleftrightarrow> \<not> thread_alive m"
    and "fst (attitude_estimator_stop m) = 0 \<longleftrightarrow> thread_alive m"
  using assms by (simp_all add: attitude_estimator_start_def attitude_estimator_stop_def EALREADY_def)

section \<open>What the filter integrates\<close>

text \<open>Real numbers, with any angle function.\<close>

definition real_att :: "(real \<Rightarrow> real \<Rightarrow> real) \<Rightarrow> real att_float" where
  "real_att angle = \<lparr>f_lit = f_lit real_float, f_add = (+), f_sub = (-), f_mul = (*), f_div = (/), f_less = (<),
     f_eq = (=), f_of_int = real_of_int, f_to_u32 = f_to_u32 real_float, f_bits = f_bits real_float,
     f_neg = uminus, f_sqrt = sqrt, MATLIB_FLOAT_MIN = MATLIB_FLOAT_MIN real_float,
     MATLIB_FLOAT_MAX = MATLIB_FLOAT_MAX real_float, f_abs = abs, f_sin = sin, f_cos = cos, f_atan2 = angle\<rparr>"

text \<open>A bench: the clock and whether the sensors can be read are a list, one entry for each pass;
  the gyroscope turns at a constant rate.\<close>

type_synonym imu_trace = "(int \<times> bool) list"

definition bench_imu :: "real list \<Rightarrow> real list \<Rightarrow> (real, unit, unit, imu_trace) rose_api" where
  "bench_imu accel gyro = \<lparr>f_lit = f_lit real_float, f_add = (+), f_sub = (-), f_mul = (*), f_div = (/), f_less = (<),
     f_eq = (=), f_of_int = real_of_int, f_to_u32 = f_to_u32 real_float, f_bits = f_bits real_float,
     HAVE_FLOW = False, HAVE_TOF = False, dev_ready = (\<lambda>d w. True),
     sample_fetch = (\<lambda>d w. if d = ACCEL \<and> \<not> snd (hd w) then (- 5, tl w) else (0, w)),
     channel_get = (\<lambda>d c w. if d = GYRO then (0, gyro, tl w) else (0, accel, w)),
     uptime_ms = (\<lambda>w. (fst (hd w), w)), cycle_get_64 = (\<lambda>w. (0, w)), rose_tx = (\<lambda>x w. w),
     pwm_period = (\<lambda>i. 0), pwm_set_pulse = (\<lambda>i p w. w), est_init = (\<lambda>x y z e. e),
     est_update = (\<lambda>a g fl fv h tv dt e. e), est_fuse_walls = (\<lambda>f b l r m e. e),
     est_get_state = (\<lambda>e. []), mpc_solve = (\<lambda>x m. (x, m))\<rparr>"

text \<open>The time the successful passes stand for: each the time since the pass before it.\<close>

fun observed_ms :: "int \<Rightarrow> imu_trace \<Rightarrow> int" where
  "observed_ms t0 [] = 0"
| "observed_ms t0 ((t, ok) # tr) = (if ok then t - t0 else 0) + observed_ms t tr"

lemma pass_on_bench:
  assumes "length gyro = 3"
  shows "estimator_pass (bench_imu accel gyro) (real_att angle) (t0, a, (t, ok) # tr) =
    (t, if ok then complementary_filter (real_att angle) (take 3 accel) gyro (real_of_int (t - t0) / 1000) a else a, tr)"
  using assms by (simp add: estimator_pass_def read_imu_def bench_imu_def real_att_def)

lemma pass_yaw:
  "yaw (complementary_filter (real_att angle) accel gyro dt a) = yaw a + gyro ! 2 * dt"
  by (simp add: complementary_filter_def Let_def real_att_def)

lemma passes_yaw:
  assumes "length gyro = 3"
  shows "yaw (fst (snd ((estimator_pass (bench_imu accel gyro) (real_att angle) ^^ length tr) (t0, a, tr)))) =
    yaw a + gyro ! 2 * real_of_int (observed_ms t0 tr) / 1000"
proof (induction tr arbitrary: t0 a)
  case (Cons x tr)
  obtain t ok where x: "x = (t, ok)" by (cases x)
  show ?case
    unfolding x length_Cons funpow_Suc_right comp_apply pass_on_bench[OF assms] Cons.IH
    by (simp add: pass_yaw field_simps)
qed simp

text \<open>
  A failed read loses its time: over real numbers and at a constant turn rate, the heading after any
  passes of the thread has grown by the rate times the time between successful passes and the passes
  just before them; the time up to a pass whose sensor read fails is never integrated, because the pass
  has already moved \<open>last_time\<close> on.
\<close>
theorem heading_integrates_observed_time:
  assumes "length gyro = 3"
  shows "yaw (fst (snd (attitude_estimator_thread (bench_imu accel gyro) (real_att angle) (length tr) a tr))) =
    yaw a + gyro ! 2 * real_of_int (observed_ms (fst (hd tr)) tr) / 1000"
  using passes_yaw[OF assms] by (simp add: attitude_estimator_thread_def bench_imu_def)

theorem heading_integrates_observed_time_witness:
  "yaw (fst (snd (attitude_estimator_thread (bench_imu [0, 0, 10] [0, 0, 2]) (real_att (\<lambda>y x. 0)) 3
     \<lparr>roll = 0, pitch = 0, yaw = 0\<rparr> [(0, True), (1000, False), (2000, True)]))) = 2"
  using heading_integrates_observed_time[of "[0, 0, 2]" "[0, 0, 10]" "\<lambda>y x. 0"
      "[(0, True), (1000, False), (2000, True)]" "\<lparr>roll = 0, pitch = 0, yaw = 0\<rparr>"]
  by (simp add: numeral_3_eq_3)

text \<open>
  The blended angles lie between the integrated gyroscope and the accelerometer's angle.
\<close>
theorem attitude_blend_bounds:
  "(let a' = complementary_filter (real_att angle) accel gyro dt a; g = roll a + gyro ! 0 * dt;
        acc = angle (accel ! 1) (accel ! 2) in
    min g acc \<le> roll a' \<and> roll a' \<le> max g acc)"
  by (auto simp: complementary_filter_def Let_def real_att_def COMPLEMENTARY_FILTER_ALPHA_def mul_add_def
      min_def max_def field_simps)

end
