(* ===== verification/Rose_Bridge.thy ===== *)
theory Rose_Bridge
  imports Rose_Nav
begin

text \<open>
  The bridge's request and response layer, and the camera, the range and the state channels that the
  fused-vision programs (\<open>samples/rose_fused_nav\<close>, \<open>samples/rose_fused_mpc\<close>) and
  \<open>samples/rose/drone_control\<close> read through it.
\<close>

section \<open>The driver\<close>

text \<open>
  \<open>rose_rx ch\<close>: status and word. \<open>rose_recv_reqrsp ch n\<close>: how many words came, and the words in
  the caller's buffer. \<open>to_half\<close> and \<open>of_half\<close> convert to \<open>_Float16\<close> and back, \<open>half_bits\<close> are
  its bits. The words of a DMA buffer are read after the wait. The network keeps a state between calls, so that running it is an operation on the world.
\<close>

record ('f, 'h, 'e, 'm, 'w) bridge_api = "('f, 'e, 'm, 'w) nav_api" +
  rose_ready :: "'w \<Rightarrow> bool"
  rose_request :: "u32 \<Rightarrow> u32 \<Rightarrow> 'w \<Rightarrow> 'w"
  rose_rx :: "nat \<Rightarrow> 'w \<Rightarrow> int \<times> u32 \<times> 'w"
  rose_recv_reqrsp :: "nat \<Rightarrow> nat \<Rightarrow> 'w \<Rightarrow> int \<times> u32 list \<times> 'w"
  rose_dma_arm :: "nat \<Rightarrow> nat \<Rightarrow> 'w \<Rightarrow> 'w"
  rose_dma_wait :: "nat \<Rightarrow> 'w \<Rightarrow> int \<times> 'w"
  rose_dma_buffer :: "nat \<Rightarrow> 'w \<Rightarrow> u32 list"
  sys_read32 :: "u32 \<Rightarrow> 'w \<Rightarrow> u32"
  f_of_bits :: "u32 \<Rightarrow> 'f"
  to_half :: "'f \<Rightarrow> 'h"
  of_half :: "'h \<Rightarrow> 'f"
  half_bits :: "'h \<Rightarrow> u16"
  run_model_fused_full :: "u8 list \<Rightarrow> u8 list \<Rightarrow> 'h list \<Rightarrow> 'w \<Rightarrow> 'h list \<times> 'w"
  est_set_yaw :: "'f \<Rightarrow> 'e \<Rightarrow> 'e"

text \<open>Words laid out in memory, least significant byte first.\<close>

definition words_bytes :: "u32 list \<Rightarrow> u8 list" where
  "words_bytes ws = concat (map enc32 ws)"

lemma length_words_bytes [simp]: "length (words_bytes ws) = 4 * length ws"
  by (induction ws) (simp_all add: words_bytes_def)

lemma words_bytes_append [simp]: "words_bytes (xs @ ys) = words_bytes xs @ words_bytes ys"
  by (simp add: words_bytes_def)

lemma words_bytes_singleton: "words_bytes [x] = enc32 x"
  by (simp add: words_bytes_def)

text \<open>Storing a word at a word index of a byte buffer.\<close>

definition store_word :: "nat \<Rightarrow> u32 \<Rightarrow> u8 list \<Rightarrow> u8 list" where
  "store_word k x b = take (4 * k) b @ enc32 x @ drop (4 * k + 4) b"

lemma length_store_word [simp]: "4 * k + 4 \<le> length b \<Longrightarrow> length (store_word k x b) = length b"
  by (simp add: store_word_def)

lemma store_word_next:
  "length p = 4 * k \<Longrightarrow> store_word k x (p @ enc32 y @ q) = p @ enc32 x @ q"
  by (simp add: store_word_def)

section \<open>Channels of the fused programs\<close>

definition FRONT_ELEMS :: nat where "FRONT_ELEMS = 5400"
definition FRONT_WORDS :: nat where "FRONT_WORDS = FRONT_ELEMS div 4"
definition TOF_ELEMS :: nat where "TOF_ELEMS = 256"
definition TOF_WORDS :: nat where "TOF_WORDS = 64"
definition LOWDIM_ELEMS :: nat where "LOWDIM_ELEMS = 21"
definition CMD_CAM_REQ :: u32 where "CMD_CAM_REQ = 0x11"
definition CMD_TOF_CROSS :: u32 where "CMD_TOF_CROSS = 0x41"
definition CMD_LOWDIM :: u32 where "CMD_LOWDIM = 0x42"
definition CAM_CH :: nat where "CAM_CH = 1"
definition TOF_CROSS_CH :: nat where "TOF_CROSS_CH = 1"
definition LOWDIM_CH :: nat where "LOWDIM_CH = 2"

text \<open>The camera behind the video driver; the driver writes the static buffer.\<close>

definition capture_front ::
    "('f, 'h, 'e, 'm, 'w, 'z) bridge_api_scheme \<Rightarrow> u8 list \<Rightarrow> 'w \<Rightarrow> bool \<times> u8 list \<times> 'w" where
  "capture_front A front w =
     (case cam_enqueue A w of (rc, w) \<Rightarrow> if rc \<noteq> 0 then (False, front, w) else
      case cam_dequeue A w of (rc, got, img, w) \<Rightarrow> (rc = 0 \<and> got, img, w))"

text \<open>The range cross: on a short answer the old bytes stay.\<close>

definition read_tof_cross ::
    "('f, 'h, 'e, 'm, 'w, 'z) bridge_api_scheme \<Rightarrow> u8 list \<Rightarrow> 'w \<Rightarrow> bool \<times> u8 list \<times> 'w" where
  "read_tof_cross A tof w =
     (case rose_recv_reqrsp A TOF_CROSS_CH TOF_WORDS (rose_request A CMD_TOF_CROSS 0 w) of (got, raw, w) \<Rightarrow>
      if got < int TOF_WORDS then (False, tof, w)
      else (True, take TOF_ELEMS (words_bytes raw), w))"

text \<open>The low-dimensional inputs as floats.\<close>

definition recv_lowdim ::
    "('f, 'h, 'e, 'm, 'w, 'z) bridge_api_scheme \<Rightarrow> 'w \<Rightarrow> 'f list option \<times> 'w" where
  "recv_lowdim A w =
     (case rose_recv_reqrsp A LOWDIM_CH LOWDIM_ELEMS (rose_request A CMD_LOWDIM 0 w) of (got, raw, w) \<Rightarrow>
      if got < int LOWDIM_ELEMS then (None, w)
      else (Some (map (f_of_bits A) (take LOWDIM_ELEMS raw)), w))"

section \<open>The camera in rows\<close>

text \<open>
  \<open>FMPC_CAM_REQRSP\<close>: one request, then rows of \<open>[header][num_bytes][data]\<close> until the frame is
  full. \<open>cam_row\<close> reads the words of one row; words beyond the frame are counted and dropped.
\<close>

fun cam_row ::
    "('f, 'h, 'e, 'm, 'w, 'z) bridge_api_scheme \<Rightarrow> nat \<Rightarrow> nat \<Rightarrow> u8 list \<Rightarrow> 'w \<Rightarrow> bool \<times> nat \<times> u8 list \<times> 'w" where
  "cam_row A 0 taken b w = (True, taken, b, w)"
| "cam_row A (Suc n) taken b w =
     (case rose_rx A CAM_CH w of (rc, x, w) \<Rightarrow>
      if rc \<noteq> 0 then (False, taken, b, w)
      else cam_row A n (taken + 1) (if taken < FRONT_WORDS then store_word taken x b else b) w)"

definition cam_row_words :: "u32 \<Rightarrow> nat" where
  "cam_row_words num_bytes = min 4096 (unat num_bytes div 4)"

text \<open>\<open>left\<close> is how many of the 256 rows may still be read; the first row's framing is echoed.\<close>

fun cam_rows ::
    "('f, 'h, 'e, 'm, 'w, 'z) bridge_api_scheme \<Rightarrow> nat \<Rightarrow> bool \<Rightarrow> nat \<Rightarrow> u8 list \<Rightarrow> 'w \<Rightarrow> bool \<times> u8 list \<times> 'w" where
  "cam_rows A 0 first taken b w = (FRONT_WORDS \<le> taken, b, w)"
| "cam_rows A (Suc left) first taken b w =
     (if FRONT_WORDS \<le> taken then (True, b, w)
      else case rose_rx A CAM_CH w of (rc, header, w) \<Rightarrow> if rc \<noteq> 0 then (False, b, w)
      else case rose_rx A CAM_CH w of (rc, num_bytes, w) \<Rightarrow> if rc \<noteq> 0 then (False, b, w)
      else let w = (if first then nav_tx A [0x22, 8, header, num_bytes] w else w)
      in case cam_row A (cam_row_words num_bytes) taken b w of (ok, taken, b, w) \<Rightarrow>
         if \<not> ok then (False, b, w) else cam_rows A left False taken b w)"

definition fmpc_capture_rows ::
    "('f, 'h, 'e, 'm, 'w, 'z) bridge_api_scheme \<Rightarrow> u8 list \<Rightarrow> 'w \<Rightarrow> bool \<times> u8 list \<times> 'w" where
  "fmpc_capture_rows A front w = cam_rows A 256 True 0 front (rose_request A CMD_CAM_REQ 0 w)"

text \<open>The frame buffer keeps its size whatever the bridge delivers.\<close>

lemma cam_row_length:
  "cam_row A n taken b w = (ok, taken', b', w') \<Longrightarrow> length b = FRONT_ELEMS \<Longrightarrow> length b' = FRONT_ELEMS"
proof (induction n arbitrary: taken b w)
  case (Suc n)
  obtain rc x w1 where "rose_rx A CAM_CH w = (rc, x, w1)" by (metis prod.exhaust)
  with Suc show ?case by (auto simp: FRONT_WORDS_def FRONT_ELEMS_def split: if_splits)
qed simp

lemma cam_rows_length:
  "cam_rows A left first taken b w = (ok, b', w') \<Longrightarrow> length b = FRONT_ELEMS \<Longrightarrow> length b' = FRONT_ELEMS"
  by (induction left arbitrary: first taken b w)
    (auto simp: Let_def split: prod.splits if_splits dest: cam_row_length)

text \<open>
  Every word is stored inside the frame buffer: whatever row lengths and words the bridge delivers,
  capturing a frame in rows leaves a buffer of 5400 bytes.
\<close>
theorem row_capture_memory_safe:
  assumes "length front = FRONT_ELEMS"
  shows "length (fst (snd (fmpc_capture_rows A front w))) = FRONT_ELEMS"
  using cam_rows_length assms unfolding fmpc_capture_rows_def by (metis prod.exhaust fst_conv snd_conv)

section \<open>A frame served in rows is read back\<close>

text \<open>A channel that delivers its words in order; sending does not touch it.\<close>

locale row_channel =
  fixes A :: "('f, 'h, 'e, 'm, 'w, 'z) bridge_api_scheme" and incoming :: "'w \<Rightarrow> u32 list"
  assumes rx_word: "incoming w = x # xs \<Longrightarrow> \<exists>w'. rose_rx A CAM_CH w = (0, x, w') \<and> incoming w' = xs"
    and tx_keeps: "incoming (rose_tx A x w) = incoming w"
begin

lemma nav_tx_keeps [simp]: "incoming (nav_tx A xs w) = incoming w"
  by (induction xs arbitrary: w) (simp_all add: tx_keeps)

text \<open>\<open>filled\<close> are the words stored so far.\<close>

lemma unat_word_bytes: "n \<le> 4096 \<Longrightarrow> unat (word_of_nat (4 * n) :: u32) = 4 * n"
  by (simp add: unat_of_nat del: of_nat_mult)

lemma cam_row_reads:
  "incoming w = data @ rest \<Longrightarrow> length filled + length data \<le> FRONT_WORDS \<Longrightarrow>
   length b = FRONT_ELEMS \<Longrightarrow> take (4 * length filled) b = words_bytes filled \<Longrightarrow>
   \<exists>b' w'. cam_row A (length data) (length filled) b w = (True, length (filled @ data), b', w') \<and>
     incoming w' = rest \<and> length b' = FRONT_ELEMS \<and>
     take (4 * length (filled @ data)) b' = words_bytes (filled @ data)"
proof (induction data arbitrary: filled b w)
  case (Cons x data)
  obtain w1 where w1: "rose_rx A CAM_CH w = (0, x, w1)" "incoming w1 = data @ rest"
    using rx_word[of w x "data @ rest"] Cons.prems(1) by auto
  let ?b = "store_word (length filled) x b"
  have le: "4 * length filled + 4 \<le> length b"
    using Cons.prems(2,3) by (simp add: FRONT_WORDS_def FRONT_ELEMS_def)
  have "take (4 * length (filled @ [x])) ?b = words_bytes (filled @ [x])"
    using le Cons.prems(4) length_words_bytes[of filled] by (simp add: store_word_def words_bytes_singleton)
  with Cons.IH[of w1 "filled @ [x]" ?b] Cons.prems(2,3) le w1 show ?case by simp
qed simp

lemma cam_rows_read:
  assumes "incoming w = concat (map (\<lambda>(h, d). h # word_of_nat (4 * length d) # d) rows) @ rest"
    and "\<forall>(h, d) \<in> set rows. d \<noteq> [] \<and> length d \<le> 4096"
    and "length filled + length (concat (map snd rows)) = FRONT_WORDS"
    and "length rows \<le> left" "length b = FRONT_ELEMS" "take (4 * length filled) b = words_bytes filled"
  shows "\<exists>w'. cam_rows A left first (length filled) b w = (True, words_bytes (filled @ concat (map snd rows)), w') \<and>
    incoming w' = rest"
  using assms
proof (induction rows arbitrary: left first filled b w)
  case Nil
  then have "b = words_bytes filled" by (simp add: FRONT_WORDS_def FRONT_ELEMS_def)
  then show ?case using Nil by (cases left) simp_all
next
  case (Cons r rows)
  obtain h d where r: "r = (h, d)" by (cases r)
  obtain l where l: "left = Suc l" using Cons.prems(4) by (cases left) simp_all
  have d: "d \<noteq> []" "length d \<le> 4096" using Cons.prems(2) r by auto
  let ?n = "word_of_nat (4 * length d) :: u32"
  let ?tail = "concat (map (\<lambda>(h, d). h # word_of_nat (4 * length d) # d) rows) @ rest"
  have n: "cam_row_words ?n = length d"
    using d(2) unat_word_bytes[OF d(2)] by (simp add: cam_row_words_def del: of_nat_mult)
  have short: "\<not> FRONT_WORDS \<le> length filled" using Cons.prems(3) r d(1) by (simp add: length_greater_0_conv[symmetric] del: length_greater_0_conv)
  obtain w1 where w1: "rose_rx A CAM_CH w = (0, h, w1)" "incoming w1 = ?n # d @ ?tail"
    using rx_word[of w] Cons.prems(1) r by fastforce
  obtain w2 where w2: "rose_rx A CAM_CH w1 = (0, ?n, w2)" "incoming w2 = d @ ?tail"
    using rx_word[OF w1(2)] by auto
  let ?w = "if first then nav_tx A [0x22, 8, h, ?n] w2 else w2"
  have "incoming ?w = d @ ?tail" using w2(2) by (simp add: tx_keeps)
  then obtain b' w' where c: "cam_row A (length d) (length filled) b ?w = (True, length (filled @ d), b', w')"
    "incoming w' = ?tail" "length b' = FRONT_ELEMS" "take (4 * length (filled @ d)) b' = words_bytes (filled @ d)"
    using cam_row_reads[of ?w d ?tail filled b] Cons.prems(3,5,6) r by auto
  have "\<exists>w''. cam_rows A l False (length (filled @ d)) b' w' =
      (True, words_bytes ((filled @ d) @ concat (map snd rows)), w'') \<and> incoming w'' = rest"
    using Cons.prems r l c by (intro Cons.IH) auto
  moreover have "cam_rows A left first (length filled) b w = cam_rows A l False (length (filled @ d)) b' w'"
    using l w1(1) w2(1) n short c(1) by (simp add: Let_def del: nav_tx.simps of_nat_mult split del: if_split)
  ultimately show ?case using r by simp
qed

end

text \<open>
  C36: A frame served in rows is what the program reads. However the 1350 words are cut into at most 256
  rows of one to 4096 words, over a channel that delivers in order the capture succeeds, the buffer
  holds the rows' words one after the other, whatever it held before, and nothing is left unread.
\<close>
theorem frame_in_rows_read_back:
  assumes "row_channel A incoming"
    and "incoming (rose_request A CMD_CAM_REQ 0 w) = concat (map (\<lambda>(h, d). h # word_of_nat (4 * length d) # d) rows) @ rest"
    and "\<forall>(h, d) \<in> set rows. d \<noteq> [] \<and> length d \<le> 4096" and "length rows \<le> 256"
    and "length (concat (map snd rows)) = FRONT_WORDS" and "length front = FRONT_ELEMS"
  shows "\<exists>w'. fmpc_capture_rows A front w = (True, words_bytes (concat (map snd rows)), w') \<and> incoming w' = rest"
  using row_channel.cam_rows_read[OF assms(1,2,3), of "[]" 256 front True] assms(4-)
  by (simp add: fmpc_capture_rows_def words_bytes_def)

section \<open>A simulated bridge\<close>

text \<open>
  Words wait in one queue and are sent to another, requests are logged. \<open>camera\<close> says whether the
  camera works, \<open>decode\<close> reads the bits of a float; halves are floats, and the network's answer is
  fixed.
\<close>

record bridge_world =
  waiting :: "u32 list"
  sent :: "u32 list"
  asked :: "u32 list"

definition sim_bridge ::
    "('f, 'z) float_api_scheme \<Rightarrow> (u32 \<Rightarrow> 'f) \<Rightarrow> bool \<Rightarrow> ('f, 'f, unit, unit, bridge_world) bridge_api" where
  "sim_bridge F decode camera = \<lparr>f_lit = f_lit F, f_add = f_add F, f_sub = f_sub F, f_mul = f_mul F, f_div = f_div F,
     f_less = f_less F, f_eq = f_eq F, f_of_int = f_of_int F, f_to_u32 = f_to_u32 F, f_bits = f_bits F,
     HAVE_FLOW = True, HAVE_TOF = True, dev_ready = (\<lambda>d w. True), sample_fetch = (\<lambda>d w. (0, w)),
     channel_get = (\<lambda>d c w. (0, map (\<lambda>n. f_lit F n 0) [1, 2, 10], w)),
     uptime_ms = (\<lambda>w. (0, w)), cycle_get_64 = (\<lambda>w. (1, w)),
     rose_tx = (\<lambda>x w. w\<lparr>sent := sent w @ [x]\<rparr>), pwm_period = (\<lambda>i. 0), pwm_set_pulse = (\<lambda>i p w. w),
     est_init = (\<lambda>x y z e. e), est_update = (\<lambda>a g fl fv h tv dt e. e), est_fuse_walls = (\<lambda>f b l r m e. e),
     est_get_state = (\<lambda>e. replicate 12 (f_lit F 0 0)), mpc_solve = (\<lambda>x m. (take 4 x, m)),
     cam_ready = (\<lambda>w. True), cam_enqueue = (\<lambda>w. if camera then (0, w\<lparr>asked := asked w @ [0x11]\<rparr>) else (5, w)),
     cam_dequeue = (\<lambda>w. (0, True, replicate FRONT_ELEMS 7, w)), cam_format = (\<lambda>w. (90, 60, w)),
     rgb_to_dronet = (\<lambda>img x y. (0, img)), run_model_dronet = (\<lambda>t. t), gt_state = (\<lambda>w. ([], w)),
     rose_ready = (\<lambda>w. True), rose_request = (\<lambda>c n w. w\<lparr>asked := asked w @ [c]\<rparr>),
     rose_rx = (\<lambda>ch w. case waiting w of [] \<Rightarrow> (- 11, 0, w) | x # xs \<Rightarrow> (0, x, w\<lparr>waiting := xs\<rparr>)),
     rose_recv_reqrsp = (\<lambda>ch n w. (int (length (take n (waiting w))), take n (waiting w), w\<lparr>waiting := drop n (waiting w)\<rparr>)),
     rose_dma_arm = (\<lambda>ch n w. w), rose_dma_wait = (\<lambda>ch w. (0, w)), rose_dma_buffer = (\<lambda>ch w. waiting w),
     sys_read32 = (\<lambda>a w. 0), f_of_bits = decode, to_half = id, of_half = id, half_bits = (\<lambda>x. 0),
     run_model_fused_full = (\<lambda>front tof low w. ([f_lit F 5 1, f_lit F 1 0], w)), est_set_yaw = (\<lambda>psi e. e)\<rparr>"

text \<open>The one in fixed-point numbers.\<close>

definition fixed_bridge :: "bool \<Rightarrow> (int option, int option, unit, unit, bridge_world) bridge_api" where
  "fixed_bridge camera = sim_bridge sim_rose (\<lambda>x. Some (sint x)) camera"

interpretation sim_channel: row_channel "sim_bridge F decode camera" waiting
  by unfold_locales (auto simp: sim_bridge_def)

theorem row_capture_memory_safe_witness:
  "length (fst (snd (fmpc_capture_rows (fixed_bridge True) (replicate FRONT_ELEMS 0)
     \<lparr>waiting = [1, 20000, 3, 4], sent = [], asked = []\<rparr>))) = FRONT_ELEMS"
  by (rule row_capture_memory_safe) simp

lemma concat_replicate_replicate: "concat (replicate n (replicate m x)) = replicate (n * m) x"
  by (induction n) (simp_all add: replicate_add)

text \<open>27 rows of 50 words, and a word that is not of the frame.\<close>

theorem frame_in_rows_read_back_witness:
  "\<exists>w'. fmpc_capture_rows (fixed_bridge True) (replicate FRONT_ELEMS 0)
      \<lparr>waiting = concat (replicate 27 (0x11 # 200 # replicate 50 9)) @ [42], sent = [], asked = []\<rparr> =
      (True, words_bytes (replicate 1350 9), w') \<and> waiting w' = [42]"
proof -
  let ?rows = "replicate 27 (0x11 :: u32, replicate 50 (9 :: u32))"
  have "concat (map snd ?rows) = replicate 1350 9"
    using concat_replicate_replicate[of 27 50 "9 :: u32"] by simp
  then show ?thesis
    using frame_in_rows_read_back[OF sim_channel.row_channel_axioms[of sim_rose "\<lambda>x. Some (sint x)" True, folded fixed_bridge_def],
        of
        "\<lparr>waiting = concat (replicate 27 (0x11 # 200 # replicate 50 9)) @ [42], sent = [], asked = []\<rparr>" ?rows "[42]"
        "replicate FRONT_ELEMS 0"]
    by (simp add: FRONT_WORDS_def FRONT_ELEMS_def fixed_bridge_def sim_bridge_def)
qed

end
