(* ===== verification/Fused_Mpc.thy ===== *)
theory Fused_Mpc
  imports Rose_Bridge Attitude Est_Filters
begin

text \<open>
  The fused-vision controller \<open>samples/rose_fused_mpc/src/main.cpp\<close> built with \<open>ROSE_FUSED_NAV\<close>: the
  network's inputs, the command it leaves, the reference that follows the nose, the single loop
  and the timer-driven task. Without that option the file's branches are those of the navigation
  controller. \<open>A\<close> is the outside of the program, \<open>F\<close> its float arithmetic.
\<close>

text \<open>The build options beside it.\<close>

record fused_build =
  CAM_REQRSP :: bool
  VISION_DBG :: bool
  GT_STATE :: bool

definition FUSED_VISION_DIV :: nat where "FUSED_VISION_DIV = 10"
definition CRUISE_SCALE :: "('f, 'z) float_api_scheme \<Rightarrow> 'f" where "CRUISE_SCALE F = f_lit F 15 1"
definition VX_MAX :: "('f, 'z) float_api_scheme \<Rightarrow> 'f" where "VX_MAX F = f_lit F 16 1"
definition TBG_FLOOR :: "('f, 'z) float_api_scheme \<Rightarrow> 'f" where "TBG_FLOOR F = f_lit F 35 2"
definition ALIGN_FULL :: "('f, 'z) float_api_scheme \<Rightarrow> 'f" where "ALIGN_FULL F = f_lit F 44 2"
definition START_YAW :: "('f, 'z) float_api_scheme \<Rightarrow> 'f" where "START_YAW F = f_lit F 0 1"

section \<open>The network\<close>

text \<open>The buffers and the command held between runs.\<close>

record ('f, 'h) fused_cmd =
  fmpc_front :: "u8 list"
  fmpc_tof :: "u8 list"
  fmpc_lowf :: "'f list"
  fmpc_out :: "'h list"
  g_fwd :: 'f
  g_yr :: 'f
  g_misalign :: 'f
  g_vision_valid :: bool

definition fmpc_capture_dma ::
    "('f, 'h, 'e, 'm, 'w, 'z) bridge_api_scheme \<Rightarrow> bool \<Rightarrow> u8 list \<Rightarrow> 'w \<Rightarrow> bool \<times> u8 list \<times> 'w" where
  "fmpc_capture_dma A dbg front w =
     (case capture_front A front w of (ok, front, w) \<Rightarrow>
        (ok, front, if ok \<and> dbg then nav_tx A [0x24, 8, sys_read32 A 0x2018 w, sys_read32 A 0x2000 w] w else w))"

definition fmpc_capture_front ::
    "('f, 'h, 'e, 'm, 'w, 'z) bridge_api_scheme \<Rightarrow> fused_build \<Rightarrow> u8 list \<Rightarrow> 'w \<Rightarrow> bool \<times> u8 list \<times> 'w" where
  "fmpc_capture_front A B front w =
     (if CAM_REQRSP B then fmpc_capture_rows A front w else fmpc_capture_dma A (VISION_DBG B) front w)"

text \<open>The low-dimensional inputs and the bearing of the gate.\<close>

definition fmpc_read_lowdim ::
    "('f, 'h, 'e, 'm, 'w, 'z) bridge_api_scheme \<Rightarrow> ('f, 'y) att_float_scheme \<Rightarrow> ('f, 'h) fused_cmd \<Rightarrow> 'w \<Rightarrow>
       bool \<times> ('f, 'h) fused_cmd \<times> 'w" where
  "fmpc_read_lowdim A F c w =
     (case recv_lowdim A w of
        (None, w) \<Rightarrow> (False, c, w)
      | (Some low, w) \<Rightarrow> (True, c\<lparr>fmpc_lowf := low, g_misalign := f_atan2 F (low ! 13) (low ! 12)\<rparr>, w))"

text \<open>The attitude quaternion of Rodrigues parameters, scalar first.\<close>

definition rodrigues_quat :: "('f, 'y) att_float_scheme \<Rightarrow> 'f \<Rightarrow> 'f \<Rightarrow> 'f \<Rightarrow> 'f list" where
  "rodrigues_quat F r1 r2 r3 =
     (let n = f_sqrt F (f_add F (f_add F (f_add F (f_lit F 1 0) (f_mul F r1 r1)) (f_mul F r2 r2)) (f_mul F r3 r3))
      in [f_div F (f_lit F 1 0) n, f_div F r1 n, f_div F r2 n, f_div F r3 n])"

text \<open>\<open>put_at k xs ys\<close> overwrites \<open>ys\<close> from index \<open>k\<close>.\<close>

definition put_at :: "nat \<Rightarrow> 'a list \<Rightarrow> 'a list \<Rightarrow> 'a list" where
  "put_at k xs ys = take k ys @ xs @ drop (k + length xs) ys"

text \<open>The order-sensitive hash of the debug output.\<close>

definition fnv1a :: "u8 list \<Rightarrow> u32" where
  "fnv1a bs = foldl (\<lambda>h b. (h XOR ucast b) * 16777619) 2166136261 bs"

definition half_bytes :: "u16 \<Rightarrow> u8 list" where "half_bytes x = [lo8 x, hi8 x]"

definition fmpc_run_model ::
    "('f, 'h, 'e, 'm, 'w, 'z) bridge_api_scheme \<Rightarrow> ('f, 'y) att_float_scheme \<Rightarrow> bool \<Rightarrow> 'f list \<Rightarrow> ('f, 'h) fused_cmd \<Rightarrow> 'w \<Rightarrow>
       ('f, 'h) fused_cmd \<times> 'w" where
  "fmpc_run_model A F dbg state c w =
     (let lowf = put_at 5 (rodrigues_quat F (state ! 3) (state ! 4) (state ! 5)) (fmpc_lowf c);
          low16 = map (to_half A) lowf in
      case run_model_fused_full A (fmpc_front c) (fmpc_tof c) low16 w of (out, w) \<Rightarrow>
      let c = c\<lparr>fmpc_lowf := lowf, fmpc_out := out, g_yr := of_half A (out ! 0), g_fwd := of_half A (out ! 1),
                g_vision_valid := True\<rparr>;
          w = (if dbg then nav_tx A [0x21, 20, fnv1a (fmpc_front c), fnv1a (fmpc_tof c),
                 fnv1a (concat (map (half_bytes \<circ> half_bits A) low16)),
                 ucast (half_bits A (out ! 0)), ucast (half_bits A (out ! 1))] w else w)
      in (c, w))"

text \<open>The run of every tenth iteration: the first input that cannot be read skips it.\<close>

definition fused_vision ::
    "('f, 'h, 'e, 'm, 'w, 'z) bridge_api_scheme \<Rightarrow> ('f, 'y) att_float_scheme \<Rightarrow> fused_build \<Rightarrow> nat \<Rightarrow> 'f list \<Rightarrow> ('f, 'h) fused_cmd \<Rightarrow> 'w \<Rightarrow>
       ('f, 'h) fused_cmd \<times> 'w" where
  "fused_vision A F B iter state c w =
     (if iter mod FUSED_VISION_DIV \<noteq> 0 then (c, w) else
      case fmpc_capture_front A B (fmpc_front c) w of (ok, front, w) \<Rightarrow>
      let c = c\<lparr>fmpc_front := front\<rparr> in if \<not> ok then (c, w) else
      case read_tof_cross A (fmpc_tof c) w of (ok, tof, w) \<Rightarrow>
      let c = c\<lparr>fmpc_tof := tof\<rparr> in if \<not> ok then (c, w) else
      case fmpc_read_lowdim A F c w of (ok, c, w) \<Rightarrow>
      if \<not> ok then (c, w) else fmpc_run_model A F (VISION_DBG B) state c w)"

section \<open>The reference\<close>

text \<open>The commanded forward speed: scaled, limited, and reduced while the gate is not ahead.\<close>

definition align_gate :: "('f, 'y) att_float_scheme \<Rightarrow> 'f \<Rightarrow> 'f" where
  "align_gate F misalign =
     (let align = f_sub F (f_lit F 1 0) (f_div F (f_abs F misalign) (ALIGN_FULL F));
          align = (if f_less F align (f_zero F) then f_zero F else align)
      in f_add F (TBG_FLOOR F) (f_mul F (f_mul F (f_sub F (f_lit F 1 0) (TBG_FLOOR F)) align) align))"

definition fused_vx :: "('f, 'y) att_float_scheme \<Rightarrow> int \<Rightarrow> ('f, 'h) fused_cmd \<Rightarrow> 'f" where
  "fused_vx F iter c =
     (let vx = (if SETTLE_ITERS < iter then f_mul F (g_fwd c) (CRUISE_SCALE F) else f_zero F);
          vx = (if f_less F vx (f_zero F) then f_zero F else vx);
          vx = (if f_less F (VX_MAX F) vx then VX_MAX F else vx)
      in f_mul F vx (align_gate F (g_misalign c)))"

definition fused_yr :: "('f, 'y) att_float_scheme \<Rightarrow> int \<Rightarrow> ('f, 'h) fused_cmd \<Rightarrow> 'f" where
  "fused_yr F iter c = (if SETTLE_ITERS < iter then g_yr c else f_zero F)"

text \<open>The heading of Rodrigues parameters; here the code multiplies by the inverse of the norm.\<close>

definition heading :: "('f, 'y) att_float_scheme \<Rightarrow> 'f \<Rightarrow> 'f \<Rightarrow> 'f \<Rightarrow> 'f" where
  "heading F r1 r2 r3 =
     (let qni = f_div F (f_lit F 1 0)
            (f_sqrt F (f_add F (f_add F (f_add F (f_lit F 1 0) (f_mul F r1 r1)) (f_mul F r2 r2)) (f_mul F r3 r3)));
          qw = qni; qx = f_mul F r1 qni; qy = f_mul F r2 qni; qz = f_mul F r3 qni
      in f_atan2 F (f_mul F (f_lit F 2 0) (mul_add F qw qz qx qy))
           (f_sub F (f_lit F 1 0) (f_mul F (f_lit F 2 0) (mul_add F qy qy qz qz))))"

text \<open>The world velocity in the frame of the nose: forward and lateral.\<close>

definition nose_velocity :: "('f, 'y) att_float_scheme \<Rightarrow> 'f list \<Rightarrow> 'f \<times> 'f" where
  "nose_velocity F state =
     (let yaw = heading F (state ! 3) (state ! 4) (state ! 5); cy = f_cos F yaw; sy = f_sin F yaw
      in (mul_add F cy (state ! 6) sy (state ! 7), mul_add F (f_neg F sy) (state ! 6) cy (state ! 7)))"

definition fused_setpoint :: "('f, 'y) att_float_scheme \<Rightarrow> 'f \<Rightarrow> int \<Rightarrow> 'f list \<Rightarrow> ('f, 'h) fused_cmd \<Rightarrow> 'f list" where
  "fused_setpoint F target iter state c =
     (replicate NSTATES (f_zero F))[2 := target, 5 := state ! 5, 11 := fused_yr F iter c]"

definition fused_error :: "('f, 'y) att_float_scheme \<Rightarrow> 'f \<Rightarrow> int \<Rightarrow> 'f list \<Rightarrow> ('f, 'h) fused_cmd \<Rightarrow> 'f list" where
  "fused_error F target iter state c =
     (case nose_velocity F state of (vfwd, vlat) \<Rightarrow>
      (map2 (f_sub F) (take NSTATES state) (fused_setpoint F target iter state c))
        [0 := f_zero F, 1 := f_zero F, 6 := f_sub F vfwd (fused_vx F iter c), 7 := vlat])"

definition solve_fused ::
    "('f, 'h, 'e, 'm, 'w, 'z) bridge_api_scheme \<Rightarrow> ('f, 'y) att_float_scheme \<Rightarrow> 'f \<Rightarrow> int \<Rightarrow> 'f list \<Rightarrow> ('f, 'h) fused_cmd \<Rightarrow> 'm \<Rightarrow>
       'f list \<times> 'm" where
  "solve_fused A F target iter state c m =
     (case mpc_solve A (fused_error F target iter state c) m of (u, m) \<Rightarrow> (take NACTIONS u, m))"

section \<open>The loop\<close>

record ('f, 'h, 'e, 'm, 'w) fused_state =
  x_est :: 'e
  x_mpc :: 'm
  x_track :: send_track
  x_cmd :: "('f, 'h) fused_cmd"
  x_state :: "'f list"
  x_world :: 'w

text \<open>The state of this iteration, \<open>None\<close> where the sensors cannot be read.\<close>

definition fused_observe ::
    "('f, 'h, 'e, 'm, 'w, 'z) bridge_api_scheme \<Rightarrow> bool \<Rightarrow> bool \<Rightarrow> ('f, 'h, 'e, 'm, 'w) fused_state \<Rightarrow>
       bool \<times> ('f, 'h, 'e, 'm, 'w) fused_state" where
  "fused_observe A gt walls s =
     (if gt then case gt_state A (x_world s) of (got, w) \<Rightarrow>
        (True, s\<lparr>x_state := take NSTATES got @ drop (length (take NSTATES got)) (x_state s), x_world := w\<rparr>)
      else case read_nav_frame A walls (x_world s) of
        (None, w) \<Rightarrow> (False, s\<lparr>x_world := w\<rparr>)
      | (Some f, w) \<Rightarrow> (case run_estimator A walls f (x_est s) of (st, e) \<Rightarrow>
          (True, s\<lparr>x_state := st, x_est := e, x_world := w\<rparr>)))"

definition fused_actuate ::
    "('f, 'h, 'e, 'm, 'w, 'z) bridge_api_scheme \<Rightarrow> ('f, 'y) att_float_scheme \<Rightarrow> 'f \<Rightarrow> nat \<Rightarrow> ('f, 'h, 'e, 'm, 'w) fused_state \<Rightarrow>
       ('f, 'h, 'e, 'm, 'w) fused_state" where
  "fused_actuate A F target iter s =
     (case solve_fused A F target (int iter) (x_state s) (x_cmd s) (x_mpc s) of (u, m) \<Rightarrow>
      case nav_send_control A u (x_track s, x_world s) of (t, w) \<Rightarrow> s\<lparr>x_mpc := m, x_track := t, x_world := w\<rparr>)"

definition fused_iteration ::
    "('f, 'h, 'e, 'm, 'w, 'z) bridge_api_scheme \<Rightarrow> ('f, 'y) att_float_scheme \<Rightarrow> fused_build \<Rightarrow> bool \<Rightarrow> 'f \<Rightarrow> nat \<Rightarrow>
       ('f, 'h, 'e, 'm, 'w) fused_state \<Rightarrow> ('f, 'h, 'e, 'm, 'w) fused_state" where
  "fused_iteration A F B walls target iter s =
     (case fused_observe A (GT_STATE B) walls s of (ok, s) \<Rightarrow>
      if \<not> ok then s
      else case fused_vision A F B iter (x_state s) (x_cmd s) (x_world s) of (c, w) \<Rightarrow>
        fused_actuate A F target iter (s\<lparr>x_cmd := c, x_world := w\<rparr>))"

text \<open>One period of \<open>ctrl_block\<close>, the task of the threaded build.\<close>

definition fused_period ::
    "('f, 'h, 'e, 'm, 'w, 'z) bridge_api_scheme \<Rightarrow> ('f, 'y) att_float_scheme \<Rightarrow> bool \<Rightarrow> 'f \<Rightarrow> nat \<Rightarrow>
       ('f, 'h, 'e, 'm, 'w) fused_state \<Rightarrow> ('f, 'h, 'e, 'm, 'w) fused_state" where
  "fused_period A F walls target iter s =
     (case fused_observe A False walls s of (ok, s) \<Rightarrow> if \<not> ok then s else fused_actuate A F target iter s)"

text \<open>\<open>main\<close> up to the loop; \<open>None\<close> for -1.\<close>

definition fused_start ::
    "('f, 'h, 'e, 'm, 'w, 'z) bridge_api_scheme \<Rightarrow> 'e \<Rightarrow> 'w \<Rightarrow> (bool \<times> 'f \<times> 'e \<times> 'w) option" where
  "fused_start A e w =
     (if \<not> dev_ready A ACCEL w \<or> \<not> dev_ready A GYRO w then None
      else let walls = (dev_ready A TOF_FRONT w \<and> dev_ready A TOF_RIGHT w \<and>
                 dev_ready A TOF_BACK w \<and> dev_ready A TOF_LEFT w)
      in case (if HAVE_TOF A \<and> dev_ready A TOF w then first_height A 12 w else (START_Z A, w)) of (z, w) \<Rightarrow>
         let e = est_set_yaw A (START_YAW A) (est_init A (f_lit A 0 1) (f_lit A 0 1) z e) in
         if \<not> cam_ready A w then None else Some (walls, TARGET_Z A, e, w))"

definition fused_main ::
    "('f, 'h, 'e, 'm, 'w, 'z) bridge_api_scheme \<Rightarrow> ('f, 'y) att_float_scheme \<Rightarrow> fused_build \<Rightarrow> bool \<Rightarrow>
       ('f, 'h, 'e, 'm, 'w) fused_state \<Rightarrow> int \<times> ('f, 'h, 'e, 'm, 'w) fused_state" where
  "fused_main A F B threaded s =
     (case fused_start A (x_est s) (x_world s) of
        None \<Rightarrow> (- 1, s)
      | Some (walls, target, e, w) \<Rightarrow>
          (0, fold (if threaded then fused_period A F walls target else fused_iteration A F B walls target)
               [0..<NAV_CTRL_ITERS] (s\<lparr>x_est := e, x_world := w\<rparr>)))"

end
