(* ===== verification/Fused_Flight.thy ===== *)
theory Fused_Flight
  imports Fused_Mpc
begin

text \<open>
  What the fused-vision controller computes, over real numbers: the attitude the network is given, the
  heading, the velocity error that follows the nose, the limits of the forward command, and what the
  command is when the camera is dead and in the threaded build.
\<close>

section \<open>Attitude\<close>

lemma real_att_ops [simp]:
  "f_lit (real_att an) m k = real_of_int m / 10 ^ k" "f_add (real_att an) a b = a + b"
  "f_sub (real_att an) a b = a - b" "f_mul (real_att an) a b = a * b" "f_div (real_att an) a b = a / b"
  "f_less (real_att an) a b \<longleftrightarrow> a < b" "f_sqrt (real_att an) a = sqrt a" "f_abs (real_att an) a = \<bar>a\<bar>"
  "f_sin (real_att an) a = sin a" "f_cos (real_att an) a = cos a" "f_neg (real_att an) a = - a"
  "f_atan2 (real_att an) a b = an a b"
  by (simp_all add: real_att_def real_float_def)

text \<open>The angle of the vector \<open>(x, y)\<close>, as \<open>atan2f(y, x)\<close> gives it.\<close>

definition real_angle :: "real \<Rightarrow> real \<Rightarrow> real" where
  "real_angle y x = Arg (Complex x y)"

lemma real_angle_polar:
  "x = sqrt (x * x + y * y) * cos (real_angle y x)" "y = sqrt (x * x + y * y) * sin (real_angle y x)"
proof -
  have "rcis (cmod (Complex x y)) (Arg (Complex x y)) = Complex x y" by (rule rcis_cmod_Arg)
  then show "x = sqrt (x * x + y * y) * cos (real_angle y x)" "y = sqrt (x * x + y * y) * sin (real_angle y x)"
    by (simp_all add: rcis_def cis.ctr real_angle_def complex_eq_iff cmod_def power2_eq_square)
qed

text \<open>The norm of the Rodrigues parameters of a unit quaternion.\<close>

lemma rodrigues_norm:
  fixes w x y z :: real
  assumes "norm4 w x y z = 1" "w \<noteq> 0"
  shows "sqrt (1 + x / w * (x / w) + y / w * (y / w) + z / w * (z / w)) = 1 / \<bar>w\<bar>"
proof -
  have "1 + x / w * (x / w) + y / w * (y / w) + z / w * (z / w) = norm4 w x y z / (w * w)"
    using assms(2) by (simp add: add_divide_distrib)
  then show ?thesis by (simp add: assms(1) real_sqrt_divide)
qed

lemma rodrigues_real:
  assumes "1 / 10 ^ 9 \<le> \<bar>qw m\<bar>"
  shows "rodrigues real_float m = [qx m / qw m, qy m / qw m, qz m / qw m]"
  using assms by (simp add: rodrigues_def safe_w_def Let_def f_ge_def)

lemma rodrigues_parts:
  assumes "unit_quat m" "1 / 10 ^ 9 \<le> \<bar>qw m\<bar>" "rodrigues real_float m = [r1, r2, r3]"
  shows "qw m \<noteq> 0" "r1 * qw m = qx m" "r2 * qw m = qy m" "r3 * qw m = qz m"
    and "sqrt (1 + r1 * r1 + r2 * r2 + r3 * r3) = 1 / \<bar>qw m\<bar>"
proof -
  show w: "qw m \<noteq> 0" using assms(2) by auto
  have r: "r1 = qx m / qw m" "r2 = qy m / qw m" "r3 = qz m / qw m"
    using assms(3) by (simp_all add: rodrigues_real[OF assms(2)])
  show "r1 * qw m = qx m" "r2 * qw m = qy m" "r3 * qw m = qz m" using w by (simp_all add: r)
  show "sqrt (1 + r1 * r1 + r2 * r2 + r3 * r3) = 1 / \<bar>qw m\<bar>"
    using rodrigues_norm[OF _ w, of "qx m" "qy m" "qz m"] assms(1) by (simp add: unit_quat_def r)
qed

text \<open>
  The network sees the estimator's attitude: from the Rodrigues parameters of a unit quaternion that is
  not a half turn the program rebuilds that quaternion, up to the sign, which is the same rotation.
\<close>
theorem model_sees_attitude:
  assumes "unit_quat m" "1 / 10 ^ 9 \<le> \<bar>qw m\<bar>" "rodrigues real_float m = [r1, r2, r3]"
  shows "rodrigues_quat (real_att an) r1 r2 r3 = map (\<lambda>v. sgn (qw m) * v) [qw m, qx m, qy m, qz m]"
proof -
  note e = rodrigues_parts[OF assms]
  show ?thesis using e by (simp add: rodrigues_quat_def Let_def sgn_real_def abs_if)
qed

theorem model_sees_attitude_witness:
  "rodrigues_quat (real_att real_angle) 0 0 (4 / 3) = [3 / 5, 0, 0, 4 / 5]"
  using model_sees_attitude[of "\<lparr>qw = 3 / 5, qx = 0, qy = 0, qz = 4 / 5, kp = 1\<rparr>" 0 0 "4 / 3" real_angle]
  by (simp add: unit_quat_def rodrigues_def safe_w_def Let_def f_ge_def)

lemma heading_is_nose:
  assumes "unit_quat m" "1 / 10 ^ 9 \<le> \<bar>qw m\<bar>" "rodrigues real_float m = [r1, r2, r3]"
  shows "heading (real_att an) r1 r2 r3 = an (rot real_float m ! 3) (rot real_float m ! 0)"
proof -
  note e = rodrigues_parts[OF assms]
  define q where "q = \<bar>qw m\<bar>"
  have qq: "q * q = qw m * qw m" by (simp add: q_def)
  have p: "q * (r3 * q) = qw m * qz m" "r1 * q * (r2 * q) = qx m * qy m"
    "r2 * q * (r2 * q) = qy m * qy m" "r3 * q * (r3 * q) = qz m * qz m"
    using qq e(2-4) by algebra+
  have "heading (real_att an) r1 r2 r3 = an (2 * (q * (r3 * q) + r1 * q * (r2 * q))) (1 - 2 * (r2 * q * (r2 * q) + r3 * q * (r3 * q)))"
    by (simp add: heading_def Let_def arith_defs e(5) q_def)
  also have "\<dots> = an (rot real_float m ! 3) (rot real_float m ! 0)"
    unfolding p by (simp add: rot_def Let_def arith_defs add.commute)
  finally show ?thesis .
qed

section \<open>The velocity error\<close>

text \<open>
  C34: The velocity feedback is turned into the frame of the nose. Over real numbers, with the angle of the nose computed
  exactly, for a unit quaternion that is no half turn and any velocity: the forward speed is the velocity's component along
  the nose's horizontal direction and the lateral speed the one to its left, and together they have the length of the
  horizontal velocity; the forward error is the forward speed minus the command, the lateral error the
  lateral speed, and neither the position nor the yaw angle is regulated. So a vehicle that flies where its nose points
  has no lateral error.
\<close>
theorem nose_flight_has_no_sideslip:
  assumes "unit_quat m" "1 / 10 ^ 9 \<le> \<bar>qw m\<bar>" "rodrigues real_float m = take 3 (drop 3 state)" "length state = 12"
    and "nose_velocity (real_att real_angle) state = (vfwd, vlat)"
  defines "F \<equiv> real_att real_angle" and "a \<equiv> rot real_float m ! 0" and "b \<equiv> rot real_float m ! 3"
  shows "sqrt (a * a + b * b) * vfwd = a * state ! 6 + b * state ! 7 \<and>
    sqrt (a * a + b * b) * vlat = a * state ! 7 - b * state ! 6 \<and>
    vfwd * vfwd + vlat * vlat = state ! 6 * state ! 6 + state ! 7 * state ! 7 \<and>
    fused_error F target iter state c ! 6 = vfwd - fused_vx F iter c \<and> fused_error F target iter state c ! 7 = vlat \<and>
    map ((!) (fused_error F target iter state c)) [0, 1, 5] = [0, 0, 0] \<and>
    (state ! 6 = speed * a \<and> state ! 7 = speed * b \<longrightarrow> vfwd = speed * sqrt (a * a + b * b) \<and> vlat = 0)"
proof -
  obtain r1 r2 r3 where r: "take 3 (drop 3 state) = [r1, r2, r3]" "state ! 3 = r1" "state ! 4 = r2" "state ! 5 = r3"
    using assms(4) by (auto simp: numeral_eq_Suc length_Suc_conv)
  define psi where "psi = heading F r1 r2 r3"
  define g where "g = sqrt (a * a + b * b)"
  have psi: "psi = real_angle b a"
    using heading_is_nose[OF assms(1,2), of r1 r2 r3 real_angle] assms(3) r(1) by (simp add: psi_def F_def a_def b_def)
  have ab: "a = g * cos psi" "b = g * sin psi" unfolding psi g_def by (rule real_angle_polar)+
  have one: "cos psi * cos psi + sin psi * sin psi = 1"
    using sin_cos_squared_add[of psi] by (simp add: power2_eq_square add.commute)
  have v: "vfwd = cos psi * state ! 6 + sin psi * state ! 7" "vlat = cos psi * state ! 7 - sin psi * state ! 6"
    using assms(5) r by (simp_all add: nose_velocity_def Let_def psi_def F_def mul_add_def)
  have 1: "g * vfwd = a * state ! 6 + b * state ! 7" "g * vlat = a * state ! 7 - b * state ! 6"
    unfolding v by (simp_all add: ab algebra_simps)
  have "vfwd * vfwd + vlat * vlat = (cos psi * cos psi + sin psi * sin psi) * (state ! 6 * state ! 6 + state ! 7 * state ! 7)"
    unfolding v by algebra
  then have 2: "vfwd * vfwd + vlat * vlat = state ! 6 * state ! 6 + state ! 7 * state ! 7" unfolding one by simp
  have "vfwd = speed * g \<and> vlat = 0" if "state ! 6 = speed * a" "state ! 7 = speed * b"
  proof -
    have "vfwd = speed * g * (cos psi * cos psi + sin psi * sin psi)" unfolding v that ab by algebra
    moreover have "vlat = 0" unfolding v that ab by (simp add: algebra_simps)
    ultimately show ?thesis unfolding one by simp
  qed
  then show ?thesis
    using 1 2 assms(4,5) by (simp add: g_def fused_error_def fused_setpoint_def NSTATES_def F_def)
qed

definition real_bridge :: "bool \<Rightarrow> (real, real, unit, unit, bridge_world) bridge_api" where
  "real_bridge camera = sim_bridge real_float (\<lambda>x. of_int (sint x)) camera"

text \<open>The state of the program at its start, with the buffers cleared.\<close>

definition sim_fused :: "(real, real, unit, unit, bridge_world) fused_state" where
  "sim_fused = \<lparr>x_est = (), x_mpc = (), x_track = track_0,
     x_cmd = \<lparr>fmpc_front = replicate FRONT_ELEMS 0, fmpc_tof = replicate TOF_ELEMS 0, fmpc_lowf = replicate LOWDIM_ELEMS 0,
       fmpc_out = [0, 0], g_fwd = 0, g_yr = 0, g_misalign = 0, g_vision_valid = False\<rparr>,
     x_state = replicate 12 0, x_world = \<lparr>waiting = [], sent = [], asked = []\<rparr>\<rparr>"

theorem nose_flight_has_no_sideslip_witness:
  "\<exists>vfwd vlat. nose_velocity (real_att real_angle) [1, 2, 3, 0, 0, 0, 2, 5, 0, 0, 0, 0] = (vfwd, vlat) \<and> vfwd = 2 \<and> vlat = 5"
proof -
  let ?s = "[1, 2, 3, 0, 0, 0, 2, 5, 0, 0, 0, 0] :: real list"
  have m: "unit_quat (mahony_init real_float)" "1 / 10 ^ 9 \<le> \<bar>qw (mahony_init real_float)\<bar>"
    "rodrigues real_float (mahony_init real_float) = take 3 (drop 3 ?s)" "length ?s = 12"
    by (simp_all add: unit_quat_def rodrigues_def safe_w_def Let_def f_ge_def mahony_init_def)
  obtain vfwd vlat where v: "nose_velocity (real_att real_angle) ?s = (vfwd, vlat)" by (metis prod.exhaust)
  have "rot real_float (mahony_init real_float) ! 0 = 1" "rot real_float (mahony_init real_float) ! 3 = 0"
    by (simp_all add: rot_def mahony_init_def Let_def arith_defs)
  moreover note nose_flight_has_no_sideslip[OF m v, of 0 0 "x_cmd sim_fused" 0]
  ultimately have "vfwd = 2" "vlat = 5" by simp_all
  then show ?thesis using v by blast
qed

section \<open>The command\<close>

text \<open>The gate on a misaligned heading lets between 35 and 100 percent of the speed through.\<close>

lemma align_gate_bounds: "7 / 20 \<le> align_gate (real_att an) x" "align_gate (real_att an) x \<le> 1"
proof -
  define al where "al = (if 1 - \<bar>x\<bar> / (44 / 100) < 0 then 0 else 1 - \<bar>x\<bar> / (44 / 100 :: real))"
  have g: "align_gate (real_att an) x = 35 / 100 + (1 - 35 / 100) * al * al"
    by (simp add: align_gate_def Let_def TBG_FLOOR_def ALIGN_FULL_def al_def)
  have al: "0 \<le> al" "al \<le> 1" by (simp_all add: al_def)
  have "al * al \<le> 1" using al mult_mono[of al 1 al 1] by simp
  then show "7 / 20 \<le> align_gate (real_att an) x" "align_gate (real_att an) x \<le> 1" using al by (simp_all add: g)
qed

lemma align_gate_aligned: "align_gate (real_att an) 0 = 1"
  by (simp add: align_gate_def Let_def TBG_FLOOR_def)

text \<open>
  The forward command is limited: whatever the network puts out, the vehicle is told to hover through
  the settling time, and never to fly backwards or faster than 1.6 metres a second. After it, the
  command is at least 35 percent of the limited speed, and all of it when the gate is straight ahead.
\<close>
theorem forward_command_limited:
  fixes c :: "(real, 'h) fused_cmd" and an :: "real \<Rightarrow> real \<Rightarrow> real"
  defines "F \<equiv> real_att an" and "limited \<equiv> min (8 / 5) (max 0 (3 / 2 * g_fwd c))"
  shows "0 \<le> fused_vx F iter c \<and> fused_vx F iter c \<le> 8 / 5 \<and>
    (if iter \<le> SETTLE_ITERS then fused_vx F iter c = 0 \<and> fused_yr F iter c = 0
     else 7 / 20 * limited \<le> fused_vx F iter c \<and> fused_vx F iter c \<le> limited \<and>
       fused_vx F iter (c\<lparr>g_misalign := 0\<rparr>) = limited \<and> fused_yr F iter c = g_yr c)"
proof -
  have v: "fused_vx F iter c' = (if SETTLE_ITERS < iter then min (8 / 5) (max 0 (3 / 2 * g_fwd c')) else 0) *
      align_gate F (g_misalign c')" for c' :: "(real, 'h) fused_cmd"
    by (auto simp: fused_vx_def Let_def F_def CRUISE_SCALE_def VX_MAX_def min_def max_def)
  have l: "0 \<le> limited" "limited \<le> 8 / 5" by (simp_all add: limited_def)
  note g = align_gate_bounds[of an "g_misalign c", folded F_def]
  have "limited * align_gate F (g_misalign c) \<le> limited" "7 / 20 * limited \<le> limited * align_gate F (g_misalign c)"
    using mult_left_mono[OF g(2) l(1)] mult_left_mono[OF g(1) l(1)] by (simp_all add: mult.commute)
  moreover have "0 \<le> limited * align_gate F (g_misalign c)" using l g by simp
  ultimately show ?thesis
    using l align_gate_aligned[of an, folded F_def] unfolding v limited_def
    by (simp add: fused_yr_def F_def)
qed

lemma observe_keeps_command: "x_cmd (snd (fused_observe A gt walls s)) = x_cmd s"
  by (auto simp: fused_observe_def split: prod.splits option.splits)

lemma actuate_keeps_command: "x_cmd (fused_actuate A F target iter s) = x_cmd s"
  by (auto simp: fused_actuate_def split: prod.splits)

lemma period_keeps_command: "x_cmd (fused_period A F walls target iter s) = x_cmd s"
  using observe_keeps_command[of A False walls s] by (auto simp: fused_period_def actuate_keeps_command split: prod.splits)

text \<open>
  The threaded build never runs the network. However many periods its control task runs, the command is
  the one it starts with; it starts with zero, so that the vehicle is told to hover for ever, whatever
  the camera sees.
\<close>
theorem threaded_build_hovers:
  fixes s :: "(real, 'h, 'e, 'm, 'w) fused_state"
  assumes "g_fwd (x_cmd s) = 0" "g_yr (x_cmd s) = 0"
  shows "(let s' = fold (fused_period A (real_att an) walls target) iters s in
    x_cmd s' = x_cmd s \<and> fused_vx (real_att an) iter (x_cmd s') = 0 \<and> fused_yr (real_att an) iter (x_cmd s') = 0)"
proof -
  have "x_cmd (fold (fused_period A (real_att an) walls target) iters s) = x_cmd s"
    by (induction iters arbitrary: s) (simp_all add: period_keeps_command)
  then show ?thesis using assms by (simp add: Let_def fused_vx_def fused_yr_def VX_MAX_def)
qed

theorem threaded_build_hovers_witness:
  "fused_vx (real_att real_angle) 5000 (x_cmd (fold (fused_period (real_bridge True) (real_att real_angle) True 1) [0..<6000] sim_fused)) = 0"
proof -
  have z: "g_fwd (x_cmd sim_fused) = 0" "g_yr (x_cmd sim_fused) = 0" by (simp_all add: sim_fused_def)
  show ?thesis
    using threaded_build_hovers[OF z, of "real_bridge True" real_angle True 1 "[0..<6000]" 5000] unfolding Let_def by blast
qed

text \<open>
  A dead camera freezes the command. From the moment the driver refuses the buffer, the command of the
  last successful run stays in force, in every later iteration: the program goes on at the last speed
  and yaw rate, and the flag that says whether a command was ever computed stays what it was.
\<close>
theorem dead_camera_holds_command:
  assumes "\<And>w. fst (cam_enqueue A w) \<noteq> 0" "\<not> CAM_REQRSP B"
  shows "x_cmd (fold (fused_iteration A F B walls target) iters s) = x_cmd s"
proof -
  have "x_cmd (fused_iteration A F B walls target iter s) = x_cmd s" for iter s
  proof -
    obtain ok s1 where o: "fused_observe A (GT_STATE B) walls s = (ok, s1)" by (metis prod.exhaust)
    have k: "x_cmd s1 = x_cmd s" using observe_keeps_command[of A "GT_STATE B" walls s] o by simp
    obtain rc w where "cam_enqueue A (x_world s1) = (rc, w)" "rc \<noteq> 0" using assms(1) by (metis prod.exhaust fst_conv)
    then have "fst (fused_vision A F B iter (x_state s1) (x_cmd s1) (x_world s1)) = x_cmd s1"
      using assms(2) by (simp add: fused_vision_def fmpc_capture_front_def fmpc_capture_dma_def capture_front_def)
    then show ?thesis using o k by (auto simp: fused_iteration_def actuate_keeps_command split: prod.splits)
  qed
  then show ?thesis by (induction iters arbitrary: s) simp_all
qed

theorem dead_camera_holds_command_witness:
  "x_cmd (fold (fused_iteration (real_bridge False) (real_att real_angle)
      \<lparr>CAM_REQRSP = False, VISION_DBG = True, GT_STATE = False\<rparr> True 1) [0..<6000] sim_fused) = x_cmd sim_fused"
  by (rule dead_camera_holds_command) (simp_all add: real_bridge_def sim_bridge_def)

end
