(* ===== verification/Bridge_Programs.thy ===== *)
theory Bridge_Programs
  imports Rose_Bridge Tinympc_Ready
begin

text \<open>
  Three programs on the bridge: the fused-vision loop without an inner controller
  (\<open>samples/rose_fused_nav/src/main.cpp\<close>), the controller on the simulator's state
  (\<open>samples/rose/drone_control/src/main.cpp\<close>) with the modelled solver, and the tests of the
  transport (\<open>samples/rose/selftest\<close>, \<open>dma\<close>, \<open>reqrsp\<close>, \<open>protocol\<close> with \<open>common/rose_check.h\<close>).
\<close>

section \<open>The fused-vision loop\<close>

definition FUSED_ITERS :: nat where "FUSED_ITERS = 200"
definition ROSE_CMD_ACTION :: u32 where "ROSE_CMD_ACTION = 0x20"

record ('h, 'w) fused_nav =
  g_front :: "u8 list"
  g_input1 :: "u8 list"
  g_input2 :: "'h list"
  g_output :: "'h list"
  fn_world :: 'w

definition read_lowdim ::
    "('f, 'h, 'e, 'm, 'w, 'z) bridge_api_scheme \<Rightarrow> 'h list \<Rightarrow> 'w \<Rightarrow> bool \<times> 'h list \<times> 'w" where
  "read_lowdim A old w =
     (case recv_lowdim A w of (None, w) \<Rightarrow> (False, old, w) | (Some low, w) \<Rightarrow> (True, map (to_half A) low, w))"

text \<open>\<open>n\<close> is \<open>MODEL_OUTPUT_SIZE\<close>, the generated model's.\<close>

definition action_frame :: "('f, 'h, 'e, 'm, 'w, 'z) bridge_api_scheme \<Rightarrow> nat \<Rightarrow> 'h list \<Rightarrow> u32 list" where
  "action_frame A n out =
     ROSE_CMD_ACTION # word_of_nat (n * 4) # map (\<lambda>i. f_bits A (of_half A (out ! i))) [0..<n]"

definition send_action :: "('f, 'h, 'e, 'm, 'w, 'z) bridge_api_scheme \<Rightarrow> nat \<Rightarrow> 'h list \<Rightarrow> 'w \<Rightarrow> 'w" where
  "send_action A n out w = nav_tx A (action_frame A n out) w"

text \<open>All three inputs are read, whichever of them fails.\<close>

definition fused_nav_iteration ::
    "('f, 'h, 'e, 'm, 'w, 'z) bridge_api_scheme \<Rightarrow> nat \<Rightarrow> ('h, 'w) fused_nav \<Rightarrow> ('h, 'w) fused_nav" where
  "fused_nav_iteration A n s =
     (case capture_front A (g_front s) (fn_world s) of (ok0, front, w) \<Rightarrow>
      case read_tof_cross A (g_input1 s) w of (ok1, in1, w) \<Rightarrow>
      case read_lowdim A (g_input2 s) w of (ok2, in2, w) \<Rightarrow>
      let s = s\<lparr>g_front := front, g_input1 := in1, g_input2 := in2, fn_world := w\<rparr> in
      if \<not> (ok0 \<and> ok1 \<and> ok2) then s
      else case run_model_fused_full A front in1 in2 w of (out, w) \<Rightarrow>
        s\<lparr>g_output := out, fn_world := send_action A n out w\<rparr>)"

definition fused_nav_main ::
    "('f, 'h, 'e, 'm, 'w, 'z) bridge_api_scheme \<Rightarrow> nat \<Rightarrow> ('h, 'w) fused_nav \<Rightarrow> int \<times> ('h, 'w) fused_nav" where
  "fused_nav_main A n s =
     (if \<not> rose_ready A (fn_world s) then (- 1, s)
      else if \<not> cam_ready A (fn_world s) then (- 1, s)
      else (0, (fused_nav_iteration A n ^^ FUSED_ITERS) s))"

text \<open>All three inputs of the next iteration come whole.\<close>

definition inputs_read :: "('f, 'h, 'e, 'm, 'w, 'z) bridge_api_scheme \<Rightarrow> ('h, 'w) fused_nav \<Rightarrow> bool" where
  "inputs_read A s =
     (case capture_front A (g_front s) (fn_world s) of (ok0, front, w) \<Rightarrow>
      case read_tof_cross A (g_input1 s) w of (ok1, in1, w) \<Rightarrow>
      case read_lowdim A (g_input2 s) w of (ok2, in2, w) \<Rightarrow> ok0 \<and> ok1 \<and> ok2)"

text \<open>
  A bridge that keeps the words the program sends itself and the commands that are asked for through the drivers. The
  camera's driver asks for frames, with as many requests as it likes.
\<close>

definition CMD_FRAME :: u32 where "CMD_FRAME = 0x11"

locale bridge_log =
  fixes A :: "('f, 'h, 'e, 'm, 'w, 'z) bridge_api_scheme" and out :: "'w \<Rightarrow> u32 list" and requests :: "'w \<Rightarrow> u32 list"
  assumes log_tx: "out (rose_tx A x w) = out w @ [x]" "requests (rose_tx A x w) = requests w"
    and log_request: "out (rose_request A c k w) = out w" "requests (rose_request A c k w) = requests w @ [c]"
    and log_recv: "rose_recv_reqrsp A ch m w = (got, raw, w') \<Longrightarrow> out w' = out w \<and> requests w' = requests w"
    and log_cam: "cam_enqueue A w = (rc, w') \<Longrightarrow> out w' = out w \<and> (\<exists>j. requests w' = requests w @ replicate j CMD_FRAME)"
      "cam_dequeue A w = (rc, b, img, w') \<Longrightarrow> out w' = out w \<and> (\<exists>j. requests w' = requests w @ replicate j CMD_FRAME)"
    and log_model: "run_model_fused_full A i0 i1 i2 w = (res, w') \<Longrightarrow> out w' = out w \<and> requests w' = requests w"
begin

lemma nav_tx_log: "out (nav_tx A xs w) = out w @ xs \<and> requests (nav_tx A xs w) = requests w"
  by (induction xs arbitrary: w) (simp_all add: log_tx)

lemma capture_log:
  assumes "capture_front A front w = (ok, img, w')"
  shows "out w' = out w \<and> (\<exists>j. requests w' = requests w @ replicate j CMD_FRAME)"
proof -
  obtain rc w1 where e: "cam_enqueue A w = (rc, w1)" by (metis prod.exhaust)
  obtain rc2 b img2 w2 where d: "cam_dequeue A w1 = (rc2, b, img2, w2)" by (metis prod.exhaust)
  obtain i j where "requests w1 = requests w @ replicate i CMD_FRAME" "requests w2 = requests w1 @ replicate j CMD_FRAME"
    using log_cam(1)[OF e] log_cam(2)[OF d] by blast
  then have "requests w2 = requests w @ replicate (i + j) CMD_FRAME" "requests w1 = requests w @ replicate i CMD_FRAME"
    by (simp_all add: replicate_add)
  moreover have "w' = w1 \<or> w' = w2" using assms e d by (auto simp: capture_front_def split: if_splits)
  moreover have "out w1 = out w" "out w2 = out w1" using log_cam(1)[OF e] log_cam(2)[OF d] by simp_all
  ultimately show ?thesis by metis
qed

lemma tof_log: "read_tof_cross A tof w = (ok, t, w') \<Longrightarrow> out w' = out w \<and> requests w' = requests w @ [CMD_TOF_CROSS]"
  using log_recv log_request by (auto simp: read_tof_cross_def split: prod.splits if_splits)

lemma lowdim_log: "recv_lowdim A w = (low, w') \<Longrightarrow> out w' = out w \<and> requests w' = requests w @ [CMD_LOWDIM]"
  using log_recv log_request by (auto simp: recv_lowdim_def split: prod.splits if_splits)

lemma iteration_log:
  "out (fn_world (fused_nav_iteration A n s)) = out (fn_world s) @
     (if inputs_read A s then action_frame A n (g_output (fused_nav_iteration A n s)) else []) \<and>
   (\<exists>j. requests (fn_world (fused_nav_iteration A n s)) = requests (fn_world s) @ replicate j CMD_FRAME @ [CMD_TOF_CROSS, CMD_LOWDIM])"
proof -
  obtain ok0 front w0 where c: "capture_front A (g_front s) (fn_world s) = (ok0, front, w0)" by (metis prod.exhaust)
  obtain ok1 in1 w1 where t: "read_tof_cross A (g_input1 s) w0 = (ok1, in1, w1)" by (metis prod.exhaust)
  obtain low w2 where l: "recv_lowdim A w1 = (low, w2)" by (metis prod.exhaust)
  obtain j where "requests w0 = requests (fn_world s) @ replicate j CMD_FRAME" using capture_log[OF c] by blast
  then have k: "out w2 = out (fn_world s)" "requests w2 = requests (fn_world s) @ replicate j CMD_FRAME @ [CMD_TOF_CROSS, CMD_LOWDIM]"
    using capture_log[OF c] tof_log[OF t] lowdim_log[OF l] by simp_all
  obtain ok2 in2 where r: "read_lowdim A (g_input2 s) w1 = (ok2, in2, w2)"
    using l by (cases "read_lowdim A (g_input2 s) w1") (auto simp: read_lowdim_def split: option.splits)
  obtain res w3 where m: "run_model_fused_full A front in1 in2 w2 = (res, w3)" by (metis prod.exhaust)
  then have "out w3 = out w2" "requests w3 = requests w2" using log_model by blast+
  then show ?thesis
    using k nav_tx_log[of "action_frame A n res" w3] c t r m
    by (auto simp: fused_nav_iteration_def Let_def send_action_def inputs_read_def)
qed

end


interpretation sim_log: bridge_log "sim_bridge F decode camera" sent asked
proof unfold_locales
  fix w w' rc
  assume "cam_enqueue (sim_bridge F decode camera) w = (rc, w')"
  then show "sent w' = sent w \<and> (\<exists>j. asked w' = asked w @ replicate j CMD_FRAME)"
    by (cases camera) (auto simp: sim_bridge_def CMD_FRAME_def intro: exI[of _ 0] exI[of _ 1])
qed (auto simp: sim_bridge_def intro: exI[of _ 0])


section \<open>The controller on the simulator's state\<close>

definition ROSE_CMD_STATE :: u32 where "ROSE_CMD_STATE = 0x12"
definition ROSE_STATE_CH :: nat where "ROSE_STATE_CH = 2"

text \<open>The state that was asked for, if all of it came.\<close>

definition recv_state ::
    "('f, 'h, 'e, 'm, 'w, 'z) bridge_api_scheme \<Rightarrow> 'w \<Rightarrow> 'f list option \<times> 'w" where
  "recv_state A w =
     (case rose_recv_reqrsp A ROSE_STATE_CH nst (rose_request A ROSE_CMD_STATE 0 w) of (n, raw, w) \<Rightarrow>
      if n < int nst then (None, w) else (Some (map (\<lambda>i. f_of_bits A (raw ! i)) [0..<nst]), w))"

definition control_frame :: "('f, 'h, 'e, 'm, 'w, 'z) bridge_api_scheme \<Rightarrow> 'f list \<Rightarrow> u32 list" where
  "control_frame A u = ROSE_CMD_CONTROL # word_of_nat (NACTIONS * 4) # map (\<lambda>i. f_bits A (u ! i)) [0..<NACTIONS]"

definition drone_send_control ::
    "('f, 'h, 'e, 'm, 'w, 'z) bridge_api_scheme \<Rightarrow> 'f list \<Rightarrow> 'w \<Rightarrow> 'w" where
  "drone_send_control A u w = nav_tx A (control_frame A u) w"

text \<open>One pass of the loop; \<open>None\<close> where the solver reads or writes outside its buffers.\<close>

definition rose_drone_pass ::
    "('f, 'h, 'e, 'm, 'w, 'z) bridge_api_scheme \<Rightarrow> 'f matlib \<Rightarrow> ('f, 'y) mat_float_scheme \<Rightarrow> 'f tiny_solver \<times> 'w \<Rightarrow>
       ('f tiny_solver \<times> 'w) option" where
  "rose_drone_pass A K F sw =
     (case sw of (s, w) \<Rightarrow> case recv_state A w of
        (None, w) \<Rightarrow> Some (s, w)
      | (Some state, w) \<Rightarrow> do {
          (u, s) \<leftarrow> mpc_control K F state s;
          Some (s, drone_send_control A u w) })"

fun rose_drone_loop ::
    "('f, 'h, 'e, 'm, 'w, 'z) bridge_api_scheme \<Rightarrow> 'f matlib \<Rightarrow> ('f, 'y) mat_float_scheme \<Rightarrow> nat \<Rightarrow> 'f tiny_solver \<times> 'w \<Rightarrow>
       ('f tiny_solver \<times> 'w) option" where
  "rose_drone_loop A K F 0 sw = Some sw"
| "rose_drone_loop A K F (Suc k) sw = Option.bind (rose_drone_pass A K F sw) (rose_drone_loop A K F k)"

definition rose_drone_main ::
    "('f, 'h, 'e, 'm, 'w, 'z) bridge_api_scheme \<Rightarrow> 'f matlib \<Rightarrow> ('f, 'y) mat_float_scheme \<Rightarrow> 'f problem_data \<Rightarrow> nat \<Rightarrow>
       'f tiny_solver \<times> 'w \<Rightarrow> (int \<times> 'f tiny_solver \<times> 'w) option" where
  "rose_drone_main A K F P k sw =
     (if \<not> rose_ready A (snd sw) then Some (- 1, sw)
      else do { s \<leftarrow> mpc_init K F P (fst sw); sw \<leftarrow> rose_drone_loop A K F k (s, snd sw); Some (0, sw) })"

context bridge_log
begin

lemma recv_state_log:
  "recv_state A w = (st, w') \<Longrightarrow> out w' = out w \<and> requests w' = requests w @ [ROSE_CMD_STATE] \<and>
     (st = Some x \<longrightarrow> length x = nst)"
  using log_recv log_request by (auto simp: recv_state_def split: prod.splits if_splits)

lemma drone_pass_log:
  assumes solves: "\<And>err. length err = nst \<Longrightarrow> \<exists>u s'. mpc_control K F err s = Some (u, s') \<and> P s'" and "P s"
  shows "\<exists>s' w' us. rose_drone_pass A K F (s, w) = Some (s', w') \<and> P s' \<and> length us \<le> 1 \<and>
    out w' = out w @ concat (map (control_frame A) us) \<and> requests w' = requests w @ [ROSE_CMD_STATE]"
proof -
  obtain st w1 where r: "recv_state A w = (st, w1)" by (metis prod.exhaust)
  show ?thesis
  proof (cases st)
    case None
    then show ?thesis using r recv_state_log[OF r] assms(2)
      by (intro exI[of _ s] exI[of _ w1] exI[of _ "[]"]) (simp add: rose_drone_pass_def)
  next
    case (Some x)
    then have "length x = nst" using recv_state_log[OF r] by simp
    then obtain u s' where u: "mpc_control K F x s = Some (u, s')" "P s'" using solves by blast
    show ?thesis using r recv_state_log[OF r] Some u nav_tx_log[of "control_frame A u" w1]
      by (intro exI[of _ s'] exI[of _ "drone_send_control A u w1"] exI[of _ "[u]"])
        (simp add: rose_drone_pass_def drone_send_control_def)
  qed
qed

lemma drone_loop_log:
  assumes "\<And>s err. P s \<Longrightarrow> length err = nst \<Longrightarrow> \<exists>u s'. mpc_control K F err s = Some (u, s') \<and> P s'"
  shows "P s \<Longrightarrow> \<exists>s' w' us. rose_drone_loop A K F k (s, w) = Some (s', w') \<and> P s' \<and> length us \<le> k \<and>
    out w' = out w @ concat (map (control_frame A) us) \<and> requests w' = requests w @ replicate k ROSE_CMD_STATE"
proof (induction k arbitrary: s w)
  case 0
  then show ?case by simp
next
  case (Suc k)
  obtain s1 w1 us1 where 1: "rose_drone_pass A K F (s, w) = Some (s1, w1)" "P s1" "length us1 \<le> 1"
    "out w1 = out w @ concat (map (control_frame A) us1)" "requests w1 = requests w @ [ROSE_CMD_STATE]"
    using drone_pass_log[where P = P, OF assms] Suc.prems by blast
  obtain s2 w2 us2 where 2: "rose_drone_loop A K F k (s1, w1) = Some (s2, w2)" "P s2" "length us2 \<le> k"
    "out w2 = out w1 @ concat (map (control_frame A) us2)" "requests w2 = requests w1 @ replicate k ROSE_CMD_STATE"
    using Suc.IH[OF 1(2)] by blast
  show ?case using 1 2 by (intro exI[of _ s2] exI[of _ w2] exI[of _ "us1 @ us2"]) simp
qed

end

text \<open>
  The controller on the simulator's state runs for ever. On every vector unit, from its initialisation
  on, the loop never reads or writes outside the solver's buffers, keeps the solver ready, asks for the
  state once a pass, and sends nothing but whole control frames of six words, at most one a pass.
\<close>
theorem simulator_loop_runs:
  fixes A :: "('f, 'h, 'e, 'm, 'w, 'z) bridge_api_scheme"
  assumes "rvv_laws V" "\<And>x y. f_mul F x y = f_mul F y x" "bridge_log A out requests"
    and "solver_shape s" "data_shape P" "rose_ready A w"
  shows "\<exists>s' w' us. rose_drone_main A (rvv_kernels V F) F P k (s, w) = Some (0, s', w') \<and> mpc_ready F P s' \<and>
    requests w' = requests w @ replicate k ROSE_CMD_STATE \<and>
    length us \<le> k \<and> out w' = out w @ concat (map (control_frame A) us) \<and> (\<forall>u. length (control_frame A u) = 6)"
proof -
  note K = rvv_tiny_kernels[OF assms(1,2)]
  have solves: "\<exists>u s'. mpc_control (rvv_kernels V F) F err s = Some (u, s') \<and> mpc_ready F P s'"
    if "mpc_ready F P s" "length err = nst" for s err
    using tiny_kernels.mpc_run_ready[OF K that] by (auto simp: mpc_control_def)
  obtain s1 where s1: "mpc_init (rvv_kernels V F) F P s = Some s1" "mpc_ready F P s1"
    using tiny_kernels.mpc_init_ready[OF K assms(4,5)] by blast
  obtain s' w' us where l: "rose_drone_loop A (rvv_kernels V F) F k (s1, w) = Some (s', w')" "mpc_ready F P s'"
    "length us \<le> k" "out w' = out w @ concat (map (control_frame A) us)"
    "requests w' = requests w @ replicate k ROSE_CMD_STATE"
    using bridge_log.drone_loop_log[OF assms(3), where P = "mpc_ready F P" and K = "rvv_kernels V F" and F = F
        and s = s1 and k = k and w = w] solves s1(2) by blast
  have "length (control_frame A u) = 6" for u by (simp add: control_frame_def NACTIONS_def)
  then show ?thesis
    using l s1(1) assms(6) by (intro exI[of _ s'] exI[of _ w'] exI[of _ us]) (simp add: rose_drone_main_def)
qed

theorem simulator_loop_runs_witness:
  "\<exists>s' w'. rose_drone_main (fixed_bridge True) (rvv_kernels (sim_rvv (\<lambda>x. None)) sim_mat) sim_mat sim_problem 5
       (sim_solver, \<lparr>waiting = replicate 30 0, sent = [], asked = []\<rparr>) = Some (0, s', w') \<and> asked w' = replicate 5 0x12"
  using simulator_loop_runs[OF sim_unit.rvv_laws_axioms[of "\<lambda>x. None"] sim_mul_comm
      sim_log.bridge_log_axioms[of sim_rose "\<lambda>x. Some (sint x)" True, folded fixed_bridge_def] sim_shapes(2,1),
      where w = "\<lparr>waiting = replicate 30 0, sent = [], asked = []\<rparr>" and k = 5]
  by (auto simp: fixed_bridge_def sim_bridge_def ROSE_CMD_STATE_def)

section \<open>The transport tests\<close>

definition ROSE_PATTERN_BASE :: u32 where "ROSE_PATTERN_BASE = 0xC0DE0000"
definition ROSE_PATTERN_LEN :: nat where "ROSE_PATTERN_LEN = 16"
definition ROSE_TEST_CMD_DMA :: u32 where "ROSE_TEST_CMD_DMA = 0x11"
definition ROSE_TEST_CMD_REQRSP :: u32 where "ROSE_TEST_CMD_REQRSP = 0x12"
definition ROSE_TEST_REQRSP_CH :: nat where "ROSE_TEST_REQRSP_CH = 2"
definition ROSE_TEST_DMA_CH :: nat where "ROSE_TEST_DMA_CH = 0"

definition rose_check_pattern :: "u32 list \<Rightarrow> int \<Rightarrow> u32 \<Rightarrow> bool" where
  "rose_check_pattern buf n base =
     (0 < n \<and> (\<forall>i \<in> set [0..<nat n]. buf ! i = base + word_of_nat i))"

definition test_dma :: "('f, 'h, 'e, 'm, 'w, 'z) bridge_api_scheme \<Rightarrow> 'w \<Rightarrow> bool \<times> 'w" where
  "test_dma A w =
     (let w = nav_tx A [ROSE_TEST_CMD_DMA, 0] (rose_dma_arm A ROSE_TEST_DMA_CH (ROSE_PATTERN_LEN * 4) w) in
      case rose_dma_wait A ROSE_TEST_DMA_CH w of (rc, w) \<Rightarrow>
      if rc \<noteq> 0 then (False, w)
      else (rose_check_pattern (rose_dma_buffer A ROSE_TEST_DMA_CH w) (int ROSE_PATTERN_LEN) ROSE_PATTERN_BASE, w))"

definition test_reqrsp :: "('f, 'h, 'e, 'm, 'w, 'z) bridge_api_scheme \<Rightarrow> 'w \<Rightarrow> bool \<times> 'w" where
  "test_reqrsp A w =
     (case rose_recv_reqrsp A ROSE_TEST_REQRSP_CH ROSE_PATTERN_LEN (rose_request A ROSE_TEST_CMD_REQRSP 0 w) of (n, buf, w) \<Rightarrow>
      (rose_check_pattern buf n ROSE_PATTERN_BASE, w))"

definition selftest_main :: "('f, 'h, 'e, 'm, 'w, 'z) bridge_api_scheme \<Rightarrow> 'w \<Rightarrow> int \<times> 'w" where
  "selftest_main A w =
     (if \<not> rose_ready A w then (1, w)
      else case test_dma A w of (dma_ok, w) \<Rightarrow> case test_reqrsp A w of (reqrsp_ok, w) \<Rightarrow>
      (if dma_ok \<and> reqrsp_ok then 0 else 1, w))"

definition dma_main :: "('f, 'h, 'e, 'm, 'w, 'z) bridge_api_scheme \<Rightarrow> 'w \<Rightarrow> int \<times> 'w" where
  "dma_main A w =
     (if \<not> rose_ready A w then (1, w) else case test_dma A w of (ok, w) \<Rightarrow> (if ok then 0 else 1, w))"

definition protocol_main :: "('f, 'h, 'e, 'm, 'w, 'z) bridge_api_scheme \<Rightarrow> 'w \<Rightarrow> int \<times> 'w" where
  "protocol_main A w =
     (if \<not> rose_ready A w then (1, w) else case test_reqrsp A w of (ok, w) \<Rightarrow> (if ok then 0 else 1, w))"

text \<open>The words read one by one, whatever their status.\<close>

fun rx_words :: "('f, 'h, 'e, 'm, 'w, 'z) bridge_api_scheme \<Rightarrow> nat \<Rightarrow> nat \<Rightarrow> 'w \<Rightarrow> u32 list \<times> 'w" where
  "rx_words A ch 0 w = ([], w)"
| "rx_words A ch (Suc n) w =
     (case rose_rx A ch w of (_, x, w) \<Rightarrow> case rx_words A ch n w of (xs, w) \<Rightarrow> (x # xs, w))"

definition reqrsp_main :: "('f, 'h, 'e, 'm, 'w, 'z) bridge_api_scheme \<Rightarrow> 'w \<Rightarrow> int \<times> 'w" where
  "reqrsp_main A w =
     (if \<not> rose_ready A w then (1, w)
      else let w = nav_tx A [ROSE_TEST_CMD_REQRSP, 0] w in
      case rose_rx A ROSE_TEST_REQRSP_CH w of (_, header, w) \<Rightarrow>
      case rose_rx A ROSE_TEST_REQRSP_CH w of (_, num_bytes, w) \<Rightarrow>
      let n = min ROSE_PATTERN_LEN (unat num_bytes div 4) in
      case rx_words A ROSE_TEST_REQRSP_CH n w of (buf, w) \<Rightarrow>
      (if rose_check_pattern buf (int n) ROSE_PATTERN_BASE then 0 else 1, w))"

text \<open>
  The transport test accepts a truncated answer. A response of \<open>n\<close> words passes exactly when it is not
  empty and its words are the first \<open>n\<close> of the ramp: a bridge that loses fifteen of the sixteen words
  is reported as working.
\<close>
theorem truncated_pattern_passes:
  assumes "rose_ready A w"
    and "rose_recv_reqrsp A ROSE_TEST_REQRSP_CH ROSE_PATTERN_LEN (rose_request A ROSE_TEST_CMD_REQRSP 0 w) = (int n, buf, w')"
    and "length buf = n"
  shows "protocol_main A w = (if 0 < n \<and> buf = map (\<lambda>i. ROSE_PATTERN_BASE + word_of_nat i) [0..<n] then 0 else 1, w')"
proof -
  let ?ramp = "map (\<lambda>i. ROSE_PATTERN_BASE + word_of_nat i) [0..<n] :: u32 list"
  have "(\<forall>i \<in> set [0..<nat (int n)]. buf ! i = ROSE_PATTERN_BASE + word_of_nat i) \<longleftrightarrow> (\<forall>i < n. buf ! i = ?ramp ! i)"
    by (simp add: Ball_def)
  also have "\<dots> \<longleftrightarrow> buf = ?ramp" using assms(3) by (subst list_eq_iff_nth_eq) simp
  finally have "rose_check_pattern buf (int n) ROSE_PATTERN_BASE \<longleftrightarrow> 0 < n \<and> buf = ?ramp"
    by (simp only: rose_check_pattern_def of_nat_0_less_iff)
  then show ?thesis using assms(1,2) by (simp add: protocol_main_def test_reqrsp_def)
qed

theorem truncated_pattern_passes_witness:
  "fst (protocol_main (fixed_bridge True) \<lparr>waiting = [0xC0DE0000], sent = [], asked = []\<rparr>) = 0"
  using truncated_pattern_passes[of "fixed_bridge True" "\<lparr>waiting = [0xC0DE0000], sent = [], asked = []\<rparr>" 1 "[0xC0DE0000]"]
  by (simp add: fixed_bridge_def sim_bridge_def ROSE_PATTERN_LEN_def ROSE_PATTERN_BASE_def)

end
