(* ===== verification/Drone_Uart.thy ===== *)
theory Drone_Uart
  imports Prelude "HOL-Library.Sublist"
begin

text \<open>
  The four-drone solver server \<open>samples/drone_control/src/main_mt_binary.cpp\<close>: what \<open>main\<close> does with
  each byte of the serial line, and the responses. \<open>main_test_binary.cpp\<close>, the echo server for the
  host's side, follows. \<open>Drone_Threads\<close> has the threads. Polling the line again
  while it has no byte is not a step.
\<close>

section \<open>Data\<close>

definition NUM_DRONES :: nat where "NUM_DRONES = 4"
definition N_STATES :: nat where "N_STATES = 12"
definition N_ACTIONS :: nat where "N_ACTIONS = 4"
definition HEADER :: "u8 list" where "HEADER = [0xDE, 0xAD, 0xBE, 0xEF]"

lemma header_table [simp]: "length HEADER = 4" "HEADER ! 0 = 0xDE" "HEADER ! 1 = 0xAD" "HEADER ! 2 = 0xBE" "HEADER ! 3 = 0xEF"
  by (simp_all add: HEADER_def)

text \<open>
  Where \<open>main\<close> stands: matching the header, reading the count, skipping the data of an oversized
  packet (bytes left), reading float \<open>j\<close> of drone \<open>id\<close> of \<open>n\<close> (bytes so far), or about to set the
  flag of drone \<open>id\<close>.
\<close>

datatype main_pc = M_SYNC nat | M_COUNT | M_SKIP nat | M_BODY nat nat nat "u8 list" | M_SET nat nat

text \<open>\<open>drone_tasks\<close>: the observations as 32-bit patterns and the flags.\<close>

record drone_tasks =
  obs :: "nat \<Rightarrow> u32 list"
  new_state :: "nat \<Rightarrow> bool"

definition sync_next :: "nat \<Rightarrow> u8 \<Rightarrow> nat" where
  "sync_next k rx = (if rx = HEADER ! k then k + 1 else if rx = HEADER ! 0 then 1 else 0)"

definition main_byte :: "u8 \<Rightarrow> main_pc \<times> drone_tasks \<Rightarrow> main_pc \<times> drone_tasks" where
  "main_byte rx pt = (case pt of (pc, t) \<Rightarrow>
     (case pc of
        M_SYNC k \<Rightarrow> (if sync_next k rx = 4 then M_COUNT else M_SYNC (sync_next k rx), t)
      | M_COUNT \<Rightarrow>
          (if NUM_DRONES < unat rx then M_SKIP (unat rx * N_STATES * 4)
           else if unat rx = 0 then M_SYNC 0 else M_BODY (unat rx) 0 0 [], t)
      | M_SKIP m \<Rightarrow> (if m \<le> 1 then M_SYNC 0 else M_SKIP (m - 1), t)
      | M_BODY n i j pv \<Rightarrow>
          (if length pv < 3 then (M_BODY n i j (pv @ [rx]), t)
           else (if j + 1 < N_STATES then M_BODY n i (j + 1) [] else M_SET n i,
                 t\<lparr>obs := (obs t)(i := (obs t i)[j := dec32 (pv @ [rx])])\<rparr>))
      | M_SET n i \<Rightarrow> (pc, t)))"

text \<open>\<open>atomic_set\<close>, the step of \<open>main\<close> that takes no byte.\<close>

definition main_set :: "main_pc \<times> drone_tasks \<Rightarrow> main_pc \<times> drone_tasks" where
  "main_set pt = (case pt of
     (M_SET n i, t) \<Rightarrow>
       (if i + 1 < n then M_BODY n (i + 1) 0 [] else M_SYNC 0, t\<lparr>new_state := (new_state t)(i := True)\<rparr>)
   | _ \<Rightarrow> pt)"

text \<open>\<open>main\<close> on the bytes of the line, with nobody else running.\<close>

definition main_feed :: "u8 list \<Rightarrow> main_pc \<times> drone_tasks \<Rightarrow> main_pc \<times> drone_tasks" where
  "main_feed bs pt = fold (\<lambda>b pt. main_set (main_byte b pt)) bs pt"

text \<open>\<open>send_response\<close>: header, drone, four floats, nanoseconds; 25 bytes.\<close>

definition response :: "nat \<Rightarrow> u32 list \<Rightarrow> u32 \<Rightarrow> u8 list" where
  "response i u ns = HEADER @ word_of_nat i # concat (map (\<lambda>j. enc32 (u ! j)) [0..<N_ACTIONS]) @ enc32 ns"

lemma length_response [simp]: "length (response i u ns) = 25"
  by (simp add: response_def N_ACTIONS_def eval_nat_numeral)

section \<open>Finding the header\<close>

text \<open>The matched length is that of the only prefix of the header the line ends with.\<close>

definition ends_with_prefix :: "u8 list \<Rightarrow> nat \<Rightarrow> bool" where
  "ends_with_prefix xs k \<longleftrightarrow>
     (if k = 0 then \<forall>l \<in> {1, 2, 3}. \<not> suffix (take l HEADER) xs else k < 4 \<and> suffix (take k HEADER) xs)"

lemma header_takes:
  "take (Suc 0) HEADER = [0xDE]" "take 2 HEADER = [0xDE, 0xAD]" "take 3 HEADER = [0xDE, 0xAD, 0xBE]"
  by (simp_all add: HEADER_def)

lemma suffix_snoc_iff: "suffix (ys @ [y]) (xs @ [x]) \<longleftrightarrow> y = x \<and> suffix ys xs"
  by auto

lemma suffix_two:
  "suffix [a] (xs @ [x]) \<longleftrightarrow> a = x" "suffix [a, b] (xs @ [x]) \<longleftrightarrow> b = x \<and> suffix [a] xs"
  "suffix [a, b, c] (xs @ [x]) \<longleftrightarrow> c = x \<and> suffix [a, b] xs"
  "suffix [a, b, c, d] (xs @ [x]) \<longleftrightarrow> d = x \<and> suffix [a, b, c] xs"
  using suffix_snoc_iff[of "[]" a] suffix_snoc_iff[of "[a]" b] suffix_snoc_iff[of "[a, b]" c]
    suffix_snoc_iff[of "[a, b, c]" d] by simp_all

lemma suffix_header: "suffix HEADER (xs @ [x]) \<longleftrightarrow> x = 0xEF \<and> suffix [0xDE, 0xAD, 0xBE] xs"
  unfolding HEADER_def suffix_two by auto

lemma suffix_last: "suffix ys xs \<Longrightarrow> ys \<noteq> [] \<Longrightarrow> last xs = last ys"
  by (metis suffix_def last_appendR)

lemma prefixes_exclusive:
  "suffix [0xDE] xs \<Longrightarrow> \<not> suffix [0xDE, 0xAD :: u8] xs" "suffix [0xDE] xs \<Longrightarrow> \<not> suffix [0xDE, 0xAD, 0xBE :: u8] xs"
  "suffix [0xDE, 0xAD] xs \<Longrightarrow> \<not> suffix [0xDE, 0xAD, 0xBE :: u8] xs"
  using suffix_last[of "[0xDE :: u8]" xs] suffix_last[of "[0xDE, 0xAD :: u8]" xs] suffix_last[of "[0xDE, 0xAD, 0xBE :: u8]" xs]
  by auto

lemma prefix_cases:
  "ends_with_prefix xs 0 \<longleftrightarrow> \<not> suffix [0xDE] xs \<and> \<not> suffix [0xDE, 0xAD] xs \<and> \<not> suffix [0xDE, 0xAD, 0xBE] xs"
  "ends_with_prefix xs (Suc 0) \<longleftrightarrow> suffix [0xDE] xs" "ends_with_prefix xs 2 \<longleftrightarrow> suffix [0xDE, 0xAD] xs"
  "ends_with_prefix xs 3 \<longleftrightarrow> suffix [0xDE, 0xAD, 0xBE] xs"
  by (simp_all add: ends_with_prefix_def header_takes)

lemma sync_values:
  "sync_next 0 x = (if x = 0xDE then Suc 0 else 0)"
  "sync_next (Suc 0) x = (if x = 0xAD then 2 else if x = 0xDE then Suc 0 else 0)"
  "sync_next 2 x = (if x = 0xBE then 3 else if x = 0xDE then Suc 0 else 0)"
  "sync_next 3 x = (if x = 0xEF then 4 else if x = 0xDE then Suc 0 else 0)"
  using header_table(3) by (simp_all add: sync_next_def)

lemma sync_next_ok:
  assumes "ends_with_prefix xs k"
  shows "if suffix HEADER (xs @ [x]) then sync_next k x = 4 else ends_with_prefix (xs @ [x]) (sync_next k x)"
proof -
  have "k = 0 \<or> k = Suc 0 \<or> k = 2 \<or> k = 3" using assms by (auto simp: ends_with_prefix_def split: if_splits)
  then show ?thesis
    unfolding suffix_header using assms prefixes_exclusive[of xs]
    by (elim disjE; hypsubst; cases "x = 0xDE"; cases "x = 0xAD"; cases "x = 0xBE"; cases "x = 0xEF";
        auto simp: sync_values prefix_cases suffix_two)
qed

text \<open>No header ends within the noise or across its end.\<close>

definition quiet_before_header :: "u8 list \<Rightarrow> bool" where
  "quiet_before_header noise \<longleftrightarrow>
     (\<forall>k \<in> set [0..<length noise + 4]. \<not> prefix (rev HEADER) (rev (take k (noise @ HEADER))))"

lemma quiet_prefix:
  assumes "quiet_before_header noise" "noise @ HEADER = p @ q" "q \<noteq> []"
  shows "\<not> suffix HEADER p"
proof -
  have "length p < length noise + 4" using arg_cong[OF assms(2), of length] assms(3) by (simp add: length_greater_0_conv[symmetric] del: length_greater_0_conv)
  then have "\<not> prefix (rev HEADER) (rev (take (length p) (noise @ HEADER)))"
    using assms(1) unfolding quiet_before_header_def by (metis atLeastLessThan_iff set_upt zero_le)
  then show ?thesis unfolding assms(2) by (simp add: suffix_to_prefix)
qed

text \<open>
  The parser synchronises on every header. Whatever bytes come first, as long as no header ends
  earlier, the byte that completes the first header on the line is the one after which \<open>main\<close> reads a
  count, and the noise before it changes no observation and no flag.
\<close>
theorem sync_finds_header:
  assumes "quiet_before_header noise"
  shows "main_feed (noise @ HEADER) (M_SYNC 0, t) = (M_COUNT, t)"
proof -
  have step: "\<exists>k. main_feed ys (M_SYNC 0, t) = (M_SYNC k, t) \<and> ends_with_prefix ys k" if "\<forall>p. prefix p ys \<longrightarrow> \<not> suffix HEADER p" for ys
    using that
  proof (induction ys rule: rev_induct)
    case Nil
    then show ?case by (auto simp: main_feed_def ends_with_prefix_def HEADER_def)
  next
    case (snoc y ys)
    then obtain k where k: "main_feed ys (M_SYNC 0, t) = (M_SYNC k, t)" "ends_with_prefix ys k" by auto
    have "\<not> suffix HEADER (ys @ [y])" using snoc.prems by blast
    then have e: "ends_with_prefix (ys @ [y]) (sync_next k y)" using sync_next_ok[OF k(2), of y] by simp
    then have "sync_next k y \<noteq> 4" by (auto simp: ends_with_prefix_def)
    then show ?case using k(1) e by (simp add: main_feed_def main_byte_def main_set_def)
  qed
  let ?ys = "noise @ butlast HEADER"
  have split: "noise @ HEADER = ?ys @ [0xEF]" by (simp add: HEADER_def)
  have "\<forall>p. prefix p ?ys \<longrightarrow> \<not> suffix HEADER p"
    using quiet_prefix[OF assms] unfolding split prefix_def by (metis append_assoc snoc_eq_iff_butlast)
  then obtain k where k: "main_feed ?ys (M_SYNC 0, t) = (M_SYNC k, t)" "ends_with_prefix ?ys k" using step by blast
  have "suffix HEADER (?ys @ [0xEF])" unfolding split[symmetric] by (rule suffixI[OF refl])
  then have "sync_next k 0xEF = 4" using sync_next_ok[OF k(2), of "0xEF"] by simp
  then show ?thesis using k(1) unfolding split by (simp add: main_feed_def main_byte_def main_set_def)
qed

theorem sync_finds_header_witness:
  "main_feed [0xDE, 0xAD, 0xDE, 0xDE, 0xAD, 0xBE, 0xEF] (M_SYNC 0, \<lparr>obs = (\<lambda>k. []), new_state = (\<lambda>k. False)\<rparr>) =
     (M_COUNT, \<lparr>obs = (\<lambda>k. []), new_state = (\<lambda>k. False)\<rparr>)"
proof -
  have "quiet_before_header [0xDE, 0xAD, 0xDE]"
    by (simp add: quiet_before_header_def HEADER_def upt_conv_Cons)
  from sync_finds_header[OF this] show ?thesis by (simp add: HEADER_def)
qed

section \<open>Packets\<close>

lemma main_feed_append: "main_feed (xs @ ys) pt = main_feed ys (main_feed xs pt)"
  by (simp add: main_feed_def)

definition floats_bytes :: "u32 list \<Rightarrow> u8 list" where
  "floats_bytes v = concat (map enc32 v)"

lemma enc32_four: obtains a b c d where "enc32 v = [a, b, c, d]"
  by (rule that) (simp add: enc32_def upt_conv_Cons)

text \<open>One float, and what is left to read after it.\<close>

definition after_float :: "nat \<Rightarrow> nat \<Rightarrow> nat \<Rightarrow> drone_tasks \<Rightarrow> main_pc \<times> drone_tasks" where
  "after_float n i j t = (if j + 1 < N_STATES then (M_BODY n i (j + 1) [], t) else main_set (M_SET n i, t))"

lemma feed_float:
  "main_feed (enc32 v) (M_BODY n i j [], t) = after_float n i j (t\<lparr>obs := (obs t)(i := (obs t i)[j := v])\<rparr>)"
proof -
  obtain a b c d where e: "enc32 v = [a, b, c, d]" by (rule enc32_four)
  have "dec32 [a, b, c, d] = v" using dec32_enc32[of v] unfolding e .
  then show ?thesis unfolding e by (simp add: main_feed_def main_byte_def main_set_def after_float_def)
qed

lemma feed_floats:
  "j < N_STATES \<Longrightarrow> length v = N_STATES - j \<Longrightarrow> length (obs t i) = N_STATES \<Longrightarrow>
   main_feed (floats_bytes v) (M_BODY n i j [], t) =
     main_set (M_SET n i, t\<lparr>obs := (obs t)(i := take j (obs t i) @ v)\<rparr>)"
proof (induction v arbitrary: j t)
  case Nil
  then show ?case by simp
next
  case (Cons x v)
  let ?t = "t\<lparr>obs := (obs t)(i := (obs t i)[j := x])\<rparr>"
  have f: "main_feed (floats_bytes (x # v)) (M_BODY n i j [], t) = main_feed (floats_bytes v) (after_float n i j ?t)"
    by (simp add: floats_bytes_def main_feed_append feed_float)
  have tk: "take (Suc j) ((obs t i)[j := x]) = take j (obs t i) @ [x]"
    using Cons.prems by (simp add: take_Suc_conv_app_nth)
  show ?case
  proof (cases "j + 1 < N_STATES")
    case True
    have u: "((obs t)(i := (obs t i)[j := x]))(i := ys) = (obs t)(i := ys)" for ys by simp
    show ?thesis using True Cons.IH[of "j + 1" ?t] Cons.prems f tk by (simp add: after_float_def u fun_upd_same del: fun_upd_apply)
  next
    case False
    have v: "v = []" using False Cons.prems by (cases v) auto
    have j: "Suc j = N_STATES" using False Cons.prems by auto
    have "(obs t i)[j := x] = take j (obs t i) @ [x]" using tk Cons.prems j by simp
    then show ?thesis using f False v by (simp add: after_float_def floats_bytes_def main_feed_def del: fun_upd_apply)
  qed
qed

lemma feed_drones:
  "vs \<noteq> [] \<Longrightarrow> i + length vs = n \<Longrightarrow> \<forall>v \<in> set vs. length v = N_STATES \<Longrightarrow> \<forall>k < n. length (obs t k) = N_STATES \<Longrightarrow>
   main_feed (concat (map floats_bytes vs)) (M_BODY n i 0 [], t) =
     (M_SYNC 0, \<lparr>obs = (\<lambda>k. if i \<le> k \<and> k < n then vs ! (k - i) else obs t k),
        new_state = (\<lambda>k. i \<le> k \<and> k < n \<or> new_state t k)\<rparr>)"
proof (induction vs arbitrary: i t)
  case (Cons v vs)
  let ?t = "\<lparr>obs = (obs t)(i := v), new_state = (new_state t)(i := True)\<rparr>"
  have t: "t\<lparr>obs := (obs t)(i := v), new_state := (new_state t)(i := True)\<rparr> = ?t" by (cases t) simp
  have f: "main_feed (concat (map floats_bytes (v # vs))) (M_BODY n i 0 [], t) =
      main_feed (concat (map floats_bytes vs)) (if i + 1 < n then M_BODY n (i + 1) 0 [] else M_SYNC 0, ?t)"
    using Cons.prems feed_floats[of 0 v t i n] t by (simp add: main_feed_append main_set_def N_STATES_def)
  show ?case
  proof (cases vs)
    case Nil
    then have "\<not> i + 1 < n" using Cons.prems by simp
    then show ?thesis using f Nil Cons.prems by (simp add: main_feed_def fun_eq_iff) (auto simp: le_Suc_eq)
  next
    case (Cons v' vs')
    then have "i + 1 < n" using Cons.prems by simp
    then show ?thesis
      using f Cons Cons.IH[of "i + 1" ?t] Cons.prems by (simp add: fun_eq_iff) (auto simp: nth_Cons')
  qed
qed simp

lemma feed_skip: "0 < m \<Longrightarrow> length bs = m \<Longrightarrow> main_feed bs (M_SKIP m, t) = (M_SYNC 0, t)"
proof (induction bs arbitrary: m)
  case (Cons b bs)
  show ?case
  proof (cases "m \<le> 1")
    case True
    then have "bs = []" using Cons.prems by (cases bs) auto
    then show ?thesis using True by (simp add: main_feed_def main_byte_def main_set_def)
  next
    case False
    then show ?thesis using Cons.IH[of "m - 1"] Cons.prems by (simp add: main_feed_def main_byte_def main_set_def)
  qed
qed simp

text \<open>
  C23: Packets are stored and oversized packets skipped. After any noise and a header, the count and the
  floats of up to four drones replace these drones' observations and raise their flags; a count above
  four makes \<open>main\<close> skip exactly the data announced, with nothing stored. Either way it looks for the
  next header from there.
\<close>
theorem packets_stored:
  assumes "quiet_before_header noise"
    and "\<forall>v \<in> set vs. length v = N_STATES" "length vs < 256" "\<forall>k. length (obs t k) = N_STATES"
  shows "main_feed (noise @ HEADER @ [word_of_nat (length vs)] @ concat (map floats_bytes vs)) (M_SYNC 0, t) =
    (M_SYNC 0, if length vs \<le> NUM_DRONES
       then \<lparr>obs = (\<lambda>k. if k < length vs then vs ! k else obs t k), new_state = (\<lambda>k. k < length vs \<or> new_state t k)\<rparr>
       else t)"
proof -
  let ?n = "word_of_nat (length vs) :: u8"
  have n: "unat ?n = length vs" using assms(3) by (simp add: unat_of_nat)
  have "length (concat (map floats_bytes vs)) = length vs * N_STATES * 4"
    using assms(2) by (induction vs) (simp_all add: floats_bytes_def length_concat comp_def sum_list_triv)
  then have skip: "main_feed (concat (map floats_bytes vs)) (M_SKIP (length vs * N_STATES * 4), t) = (M_SYNC 0, t)"
    if "NUM_DRONES < length vs" using that by (intro feed_skip) (auto simp: N_STATES_def NUM_DRONES_def)
  have "main_feed (noise @ HEADER @ [?n] @ concat (map floats_bytes vs)) (M_SYNC 0, t) =
      main_feed (concat (map floats_bytes vs)) (main_set (main_byte ?n (M_COUNT, t)))"
    using sync_finds_header[OF assms(1)] by (simp add: main_feed_append[of "noise @ HEADER", simplified]) (simp add: main_feed_def)
  also have "\<dots> = (M_SYNC 0, if length vs \<le> NUM_DRONES
       then \<lparr>obs = (\<lambda>k. if k < length vs then vs ! k else obs t k), new_state = (\<lambda>k. k < length vs \<or> new_state t k)\<rparr>
       else t)"
  proof (cases "vs = []")
    case True
    then show ?thesis by (simp add: main_byte_def main_set_def main_feed_def NUM_DRONES_def)
  next
    case False
    then show ?thesis
      using n skip feed_drones[of vs 0 "length vs" t] assms(2,4) by (simp add: main_byte_def main_set_def cong: if_cong)
  qed
  finally show ?thesis .
qed

theorem packets_stored_witness:
  "main_feed ([0xDE, 0xAD, 0xDE] @ HEADER @ [2] @ floats_bytes (replicate 12 7) @ floats_bytes (replicate 12 9))
     (M_SYNC 0, \<lparr>obs = (\<lambda>k. replicate 12 0), new_state = (\<lambda>k. False)\<rparr>) =
   (M_SYNC 0, \<lparr>obs = (\<lambda>k. if k < 2 then [replicate 12 7, replicate 12 9] ! k else replicate 12 0),
      new_state = (\<lambda>k. k < 2)\<rparr>)"
proof -
  have "quiet_before_header [0xDE, 0xAD, 0xDE]"
    by (simp add: quiet_before_header_def HEADER_def upt_conv_Cons)
  from packets_stored[OF this, of "[replicate 12 7, replicate 12 9]" "\<lparr>obs = (\<lambda>k. replicate 12 0), new_state = (\<lambda>k. False)\<rparr>"]
  show ?thesis by (simp add: N_STATES_def NUM_DRONES_def numeral_2_eq_2 cong: if_cong)
qed

section \<open>The echo server\<close>

text \<open>\<open>main_test_binary.cpp\<close>: the same framing, fixed answers. \<open>T_SKIP n m\<close> has \<open>m\<close> bytes left to skip.\<close>

datatype test_pc = T_SYNC nat | T_COUNT | T_SKIP nat nat

definition test_actions :: "u32 list" where
  "test_actions = [0, 0x3F800000, 0x40000000, 0x40400000, 0]"

definition test_replies :: "nat \<Rightarrow> u8 list" where
  "test_replies n = concat (map (\<lambda>i. HEADER @ word_of_nat i # concat (map (\<lambda>j. enc32 (test_actions ! j)) [0..<5])) [0..<n])"

definition test_byte :: "u8 \<Rightarrow> test_pc \<times> u8 list \<Rightarrow> test_pc \<times> u8 list" where
  "test_byte rx po = (case po of (pc, sent) \<Rightarrow>
     (case pc of
        T_SYNC k \<Rightarrow> (if sync_next k rx = 4 then T_COUNT else T_SYNC (sync_next k rx), sent)
      | T_COUNT \<Rightarrow> if unat rx = 0 then (T_SYNC 0, sent @ test_replies 0) else (T_SKIP (unat rx) (unat rx * 12 * 4), sent)
      | T_SKIP n m \<Rightarrow> if m \<le> 1 then (T_SYNC 0, sent @ test_replies n) else (T_SKIP n (m - 1), sent)))"

lemma test_reply_format:
  "HEADER @ word_of_nat i # concat (map (\<lambda>j. enc32 (test_actions ! j)) [0..<5]) =
   response i [0, 0x3F800000, 0x40000000, 0x40400000] 0"
  by (simp add: response_def test_actions_def N_ACTIONS_def upt_conv_Cons)

lemma test_skip:
  "0 < m \<Longrightarrow> length bs = m \<Longrightarrow> fold test_byte bs (T_SKIP n m, sent) = (T_SYNC 0, sent @ test_replies n)"
proof (induction bs arbitrary: m)
  case (Cons b bs)
  show ?case
  proof (cases "m \<le> 1")
    case True
    then have "bs = []" using Cons.prems by (cases bs) auto
    then show ?thesis using True by (simp add: test_byte_def)
  next
    case False
    then show ?thesis using Cons.IH[of "m - 1"] Cons.prems by (simp add: test_byte_def)
  qed
qed simp

text \<open>
  The echo server speaks the real server's format: after a count and that many observations it answers
  one response a drone, in order, each of the 25 bytes \<open>send_response\<close> sends for the thrusts 0, 1, 2
  and 3 and a time of 0, and is ready for the next header.
\<close>
theorem echo_answers_every_drone:
  assumes "n < 256" "length data = n * 48"
  shows "fold test_byte (word_of_nat n # data) (T_COUNT, sent) =
    (T_SYNC 0, sent @ concat (map (\<lambda>i. response i [0, 0x3F800000, 0x40000000, 0x40400000] 0) [0..<n]))"
proof -
  have "unat (word_of_nat n :: u8) = n" using assms(1) by (simp add: unat_of_nat)
  then show ?thesis
    using assms(2) test_skip[of "48 * n" data n sent]
    by (cases "n = 0") (simp_all add: test_byte_def test_replies_def test_reply_format)
qed

theorem echo_answers_every_drone_witness:
  "length (snd (fold test_byte (2 # replicate 96 0) (T_COUNT, []))) = 50"
  using echo_answers_every_drone[of 2 "replicate 96 0" "[]"] by (simp add: upt_conv_Cons)

end
