(* ===== verification/Drone_Threads.thy ===== *)
theory Drone_Threads
  imports Drone_Uart
begin

text \<open>
  The five threads of \<open>samples/drone_control/src/main_mt_binary.cpp\<close> as a step relation: \<open>main\<close>, which
  stores observations, and four workers, which copy theirs, solve and answer. Observations are shared
  without a lock: every float that is stored or copied is a step of its own. The solver and the clock
  are a parameter and a choice; a worker starts in its loop, its solver initialised.
\<close>

text \<open>
  Where a worker stands: polling its flag, copying (floats copied so far), solving, waiting for the
  line with a response to send, or sending what is left of one.
\<close>

datatype worker_pc = W_POLL | W_COPY nat | W_SOLVE | W_LOCK "u8 list" | W_SEND "u8 list"

text \<open>
  \<open>current\<close> are the workers' local copies; \<open>uart_mutex\<close> is who holds the line. \<open>posted\<close> is not in
  the program: it counts the observations stored for a drone.
\<close>

record 'm server =
  incoming :: "u8 list"
  main_pc :: main_pc
  tasks :: drone_tasks
  worker_pc :: "nat \<Rightarrow> worker_pc"
  current :: "nat \<Rightarrow> u32 list"
  solver :: "nat \<Rightarrow> 'm"
  uart_mutex :: "nat option"
  uart_out :: "u8 list"
  posted :: "nat \<Rightarrow> nat"

section \<open>Steps\<close>

text \<open>\<open>main\<close>: \<open>None\<close> while the line has no byte for it.\<close>

definition main_step :: "'m server \<Rightarrow> 'm server option" where
  "main_step s =
     (case main_pc s of
        M_SET n i \<Rightarrow> (case main_set (M_SET n i, tasks s) of (pc, t) \<Rightarrow>
          Some (s\<lparr>main_pc := pc, tasks := t, posted := (posted s)(i := posted s i + 1)\<rparr>))
      | pc \<Rightarrow> (case incoming s of
          [] \<Rightarrow> None
        | b # bs \<Rightarrow> (case main_byte b (pc, tasks s) of (pc, t) \<Rightarrow>
            Some (s\<lparr>incoming := bs, main_pc := pc, tasks := t\<rparr>))))"

text \<open>A worker: \<open>solve\<close> gives the four thrusts as bits, \<open>ns\<close> is the time measured. \<open>None\<close> while it waits.\<close>

definition drone_worker ::
    "(u32 list \<Rightarrow> 'm \<Rightarrow> u32 list \<times> 'm) \<Rightarrow> u32 \<Rightarrow> nat \<Rightarrow> 'm server \<Rightarrow> 'm server option" where
  "drone_worker solve ns i s =
     (case worker_pc s i of
        W_POLL \<Rightarrow>
          if new_state (tasks s) i
          then Some (s\<lparr>tasks := (tasks s)\<lparr>new_state := (new_state (tasks s))(i := False)\<rparr>,
                 worker_pc := (worker_pc s)(i := W_COPY 0)\<rparr>)
          else None
      | W_COPY k \<Rightarrow>
          if k < N_STATES
          then Some (s\<lparr>current := (current s)(i := (current s i)[k := obs (tasks s) i ! k]),
                 worker_pc := (worker_pc s)(i := W_COPY (k + 1))\<rparr>)
          else Some (s\<lparr>worker_pc := (worker_pc s)(i := W_SOLVE)\<rparr>)
      | W_SOLVE \<Rightarrow>
          (case solve (current s i) (solver s i) of (u, m) \<Rightarrow>
             Some (s\<lparr>solver := (solver s)(i := m), worker_pc := (worker_pc s)(i := W_LOCK (response i u ns))\<rparr>))
      | W_LOCK r \<Rightarrow>
          if uart_mutex s = None
          then Some (s\<lparr>uart_mutex := Some i, worker_pc := (worker_pc s)(i := W_SEND r)\<rparr>) else None
      | W_SEND [] \<Rightarrow> Some (s\<lparr>uart_mutex := None, worker_pc := (worker_pc s)(i := W_POLL)\<rparr>)
      | W_SEND (b # bs) \<Rightarrow>
          Some (s\<lparr>uart_out := uart_out s @ [b], worker_pc := (worker_pc s)(i := W_SEND bs)\<rparr>))"

definition server_boot :: "u8 list \<Rightarrow> (nat \<Rightarrow> u32 list) \<Rightarrow> (nat \<Rightarrow> 'm) \<Rightarrow> 'm server" where
  "server_boot bs cur m =
     \<lparr>incoming = bs, main_pc = M_SYNC 0,
      tasks = \<lparr>obs = (\<lambda>i. replicate N_STATES 0), new_state = (\<lambda>i. False)\<rparr>,
      worker_pc = (\<lambda>i. W_POLL), current = cur, solver = m, uart_mutex = None, uart_out = [], posted = (\<lambda>i. 0)\<rparr>"

inductive server_reachable ::
    "(u32 list \<Rightarrow> 'm \<Rightarrow> u32 list \<times> 'm) \<Rightarrow> 'm server \<Rightarrow> 'm server \<Rightarrow> bool"
  for solve s0 where
  server_start: "server_reachable solve s0 s0"
| main_runs: "server_reachable solve s0 s \<Longrightarrow> main_step s = Some s' \<Longrightarrow> server_reachable solve s0 s'"
| worker_runs: "server_reachable solve s0 s \<Longrightarrow> i < NUM_DRONES \<Longrightarrow> drone_worker solve ns i s = Some s' \<Longrightarrow>
    server_reachable solve s0 s'"

text \<open>A schedule: \<open>None\<close> for \<open>main\<close>, \<open>Some i\<close> for worker \<open>i\<close>, who measures 0 nanoseconds.\<close>

fun server_run ::
    "(u32 list \<Rightarrow> 'm \<Rightarrow> u32 list \<times> 'm) \<Rightarrow> nat option list \<Rightarrow> 'm server \<Rightarrow> 'm server option" where
  "server_run solve [] s = Some s"
| "server_run solve (c # cs) s =
     Option.bind (case c of None \<Rightarrow> main_step s | Some i \<Rightarrow> if i < NUM_DRONES then drone_worker solve 0 i s else None)
       (server_run solve cs)"

lemma server_run_reachable:
  "server_run solve cs s = Some s' \<Longrightarrow> server_reachable solve s0 s \<Longrightarrow> server_reachable solve s0 s'"
proof (induction cs arbitrary: s)
  case (Cons c cs)
  then show ?case
    by (auto simp: bind_eq_Some_conv split: option.splits if_splits intro: main_runs worker_runs)
qed simp

section \<open>Invariant\<close>

text \<open>\<open>main\<close> has stored part of a new observation of drone \<open>i\<close>.\<close>

fun storing :: "nat \<Rightarrow> main_pc \<Rightarrow> bool" where
  "storing i (M_BODY n k j pv) = (k = i \<and> 0 < j)"
| "storing i (M_SET n k) = (k = i)"
| "storing i pc = False"

text \<open>What a worker that is not polling has copied of the observation.\<close>

fun copied :: "worker_pc \<Rightarrow> nat" where
  "copied (W_COPY k) = k"
| "copied pc = N_STATES"

definition fresh :: "'m server \<Rightarrow> nat \<Rightarrow> bool" where
  "fresh s i \<longleftrightarrow> take (copied (worker_pc s i)) (current s i) = take (copied (worker_pc s i)) (obs (tasks s) i)"

fun line_holder :: "worker_pc \<Rightarrow> bool" where
  "line_holder (W_SEND r) = True"
| "line_holder pc = False"

text \<open>A response somebody computed from some observation.\<close>

definition answers :: "(u32 list \<Rightarrow> 'm \<Rightarrow> u32 list \<times> 'm) \<Rightarrow> nat \<Rightarrow> u32 list \<Rightarrow> u8 list \<Rightarrow> bool" where
  "answers solve i x r \<longleftrightarrow> (\<exists>m ns. r = response i (fst (solve x m)) ns)"

text \<open>The line: whole responses, then the part of the holder's that is out.\<close>

definition line_ok :: "(u32 list \<Rightarrow> 'm \<Rightarrow> u32 list \<times> 'm) \<Rightarrow> 'm server \<Rightarrow> bool" where
  "line_ok solve s \<longleftrightarrow> (\<exists>rs part.
     uart_out s = concat rs @ part \<and> (\<forall>r \<in> set rs. \<exists>i < NUM_DRONES. \<exists>x. answers solve i x r) \<and>
     (case uart_mutex s of
        None \<Rightarrow> part = []
      | Some i \<Rightarrow> i < NUM_DRONES \<and> (\<exists>rest. worker_pc s i = W_SEND rest \<and> answers solve i (current s i) (part @ rest))))"

definition server_inv :: "(u32 list \<Rightarrow> 'm \<Rightarrow> u32 list \<times> 'm) \<Rightarrow> 'm server \<Rightarrow> bool" where
  "server_inv solve s \<longleftrightarrow>
     (\<forall>i. length (obs (tasks s) i) = N_STATES \<and> length (current s i) = N_STATES \<and> copied (worker_pc s i) \<le> N_STATES) \<and>
     (\<forall>i. 0 < posted s i \<longrightarrow> \<not> storing i (main_pc s) \<longrightarrow> new_state (tasks s) i \<or> fresh s i) \<and>
     (\<forall>i r. worker_pc s i = W_LOCK r \<longrightarrow> answers solve i (current s i) r) \<and>
     (\<forall>i. line_holder (worker_pc s i) \<longleftrightarrow> uart_mutex s = Some i) \<and>
     line_ok solve s"

lemma boot_inv_server:
  assumes "\<And>i. length (cur i) = N_STATES"
  shows "server_inv solve (server_boot bs cur m)"
  using assms by (auto simp: server_inv_def server_boot_def line_ok_def intro!: exI[of _ "[]"])

lemma main_byte_storing:
  assumes "main_byte b (pc, t) = (pc', t')" "\<And>n i. pc \<noteq> M_SET n i"
  shows "new_state t' = new_state t" "length (obs t' i) = length (obs t i)"
    and "\<not> storing i pc' \<Longrightarrow> \<not> storing i pc \<and> obs t' i = obs t i"
  using assms by (cases pc; auto simp: main_byte_def split: if_splits)+

lemma main_step_cases:
  assumes "main_step s = Some s'"
  obtains n i where "main_pc s = M_SET n i" "\<And>k. \<not> storing k (main_pc s')" "obs (tasks s') = obs (tasks s)"
      "new_state (tasks s') = (new_state (tasks s))(i := True)"
    "worker_pc s' = worker_pc s" "current s' = current s" "uart_mutex s' = uart_mutex s" "uart_out s' = uart_out s"
    "\<And>k. k \<noteq> i \<Longrightarrow> posted s' k = posted s k"
  | b where "main_byte b (main_pc s, tasks s) = (main_pc s', tasks s')" "\<And>n i. main_pc s \<noteq> M_SET n i"
    "worker_pc s' = worker_pc s" "current s' = current s" "uart_mutex s' = uart_mutex s" "uart_out s' = uart_out s"
    "posted s' = posted s"
proof (cases "\<exists>n i. main_pc s = M_SET n i")
  case True
  then obtain n i where "main_pc s = M_SET n i" by blast
  then show ?thesis using assms by (intro that(1)[of n i]) (auto simp: main_step_def main_set_def split: if_splits)
next
  case False
  then obtain b bs where "incoming s = b # bs" using assms by (cases "main_pc s"; cases "incoming s") (auto simp: main_step_def)
  then show ?thesis using assms False
    by (intro that(2)[of b]) (cases "main_pc s"; auto simp: main_step_def split: prod.splits)+
qed

lemma line_ok_cong:
  "uart_out s' = uart_out s \<Longrightarrow> uart_mutex s' = uart_mutex s \<Longrightarrow> worker_pc s' = worker_pc s \<Longrightarrow> current s' = current s \<Longrightarrow>
   line_ok solve s' \<longleftrightarrow> line_ok solve s"
  by (simp only: line_ok_def)

lemma main_step_inv_server:
  assumes "main_step s = Some s'" "server_inv solve s"
  shows "server_inv solve s'"
  using assms(1)
proof (cases rule: main_step_cases)
  case (1 n i)
  then show ?thesis using assms(2) line_ok_cong[of s' s] by (auto simp: server_inv_def fresh_def)
next
  case (2 b)
  note k = main_byte_storing[OF 2(1,2)]
  have "new_state (tasks s') j \<or> fresh s' j" if "0 < posted s j" "\<not> storing j (main_pc s')" for j
    using assms(2) that k(1) k(3)[OF that(2)] 2(3,4) by (auto simp: server_inv_def fresh_def)
  then show ?thesis using assms(2) 2(3-) k(2) line_ok_cong[of s' s] by (auto simp: server_inv_def)
qed

text \<open>The parts of a worker's step that concern the others.\<close>

lemma worker_keeps_others:
  assumes "drone_worker solve ns i s = Some s'"
  shows "obs (tasks s') = obs (tasks s)" "main_pc s' = main_pc s" "posted s' = posted s"
    and "k \<noteq> i \<Longrightarrow> worker_pc s' k = worker_pc s k \<and> current s' k = current s k \<and> new_state (tasks s') k = new_state (tasks s) k"
  using assms by (auto simp: drone_worker_def split: worker_pc.splits if_splits list.splits prod.splits)

lemma worker_fresh:
  assumes "drone_worker solve ns i s = Some s'" "server_inv solve s"
  shows "length (current s' i) = N_STATES \<and> copied (worker_pc s' i) \<le> N_STATES \<and>
    (new_state (tasks s) i \<or> fresh s i \<longrightarrow> new_state (tasks s') i \<or> fresh s' i) \<and>
    (\<forall>r. worker_pc s' i = W_LOCK r \<longrightarrow> answers solve i (current s' i) r)"
proof -
  have l: "length (obs (tasks s) i) = N_STATES" "length (current s i) = N_STATES" "copied (worker_pc s i) \<le> N_STATES"
    using assms(2) by (auto simp: server_inv_def)
  show ?thesis
  proof (cases "worker_pc s i")
    case (W_COPY k)
    then show ?thesis using assms(1) l
      by (auto simp: drone_worker_def fresh_def take_Suc_conv_app_nth answers_def split: if_splits)
  next
    case (W_SEND r)
    then show ?thesis using assms(1) l
      by (cases r) (auto simp: drone_worker_def fresh_def answers_def)
  next
    case W_SOLVE
    obtain u m where u: "solve (current s i) (solver s i) = (u, m)" by (metis prod.exhaust)
    then have "answers solve i (current s i) (response i u ns)" unfolding answers_def by (metis fst_conv)
    then show ?thesis using assms(1) l W_SOLVE u by (auto simp: drone_worker_def fresh_def)
  qed (use assms(1) l in \<open>auto simp: drone_worker_def fresh_def answers_def split: if_splits prod.splits\<close>)
qed

lemma worker_line:
  assumes "drone_worker solve ns i s = Some s'" "server_inv solve s" "i < NUM_DRONES"
  shows "(\<forall>k. line_holder (worker_pc s' k) \<longleftrightarrow> uart_mutex s' = Some k) \<and> line_ok solve s'"
proof -
  have h: "\<And>k. line_holder (worker_pc s k) \<longleftrightarrow> uart_mutex s = Some k" using assms(2) by (simp add: server_inv_def)
  obtain rs part where line: "uart_out s = concat rs @ part" "\<forall>r \<in> set rs. \<exists>i < NUM_DRONES. \<exists>x. answers solve i x r"
    "case uart_mutex s of None \<Rightarrow> part = []
      | Some i \<Rightarrow> i < NUM_DRONES \<and> (\<exists>rest. worker_pc s i = W_SEND rest \<and> answers solve i (current s i) (part @ rest))"
    using assms(2) unfolding server_inv_def line_ok_def by blast
  show ?thesis
  proof (cases "worker_pc s i")
    case (W_SEND r)
    then have m: "uart_mutex s = Some i" using h[of i] by simp
    then have a: "answers solve i (current s i) (part @ r)" using line(3) W_SEND by auto
    show ?thesis
    proof (cases r)
      case Nil
      have "line_ok solve s'" unfolding line_ok_def
        using assms(1,3) W_SEND Nil a line(1,2)
        by (intro exI[of _ "rs @ [part]"] exI[of _ "[]"]) (auto simp: drone_worker_def)
      then show ?thesis using assms(1) W_SEND Nil m h by (auto simp: drone_worker_def split: if_splits)
    next
      case (Cons b bs)
      have "line_ok solve s'" unfolding line_ok_def
        using assms(1,3) W_SEND Cons a line(1,2) m
        by (intro exI[of _ rs] exI[of _ "part @ [b]"]) (auto simp: drone_worker_def)
      then show ?thesis using assms(1) W_SEND Cons m h by (auto simp: drone_worker_def split: if_splits)
    qed
  next
    case (W_LOCK r)
    then have m: "uart_mutex s = None" "answers solve i (current s i) r"
      using assms(1,2) by (auto simp: drone_worker_def server_inv_def split: if_splits)
    have "line_ok solve s'" unfolding line_ok_def
      using assms(1,3) W_LOCK m line
      by (intro exI[of _ rs] exI[of _ "[]"]) (auto simp: drone_worker_def)
    then show ?thesis using assms(1) W_LOCK m h by (auto simp: drone_worker_def split: if_splits)
  next
    case W_POLL
    then have m: "uart_mutex s \<noteq> Some i" using h[of i] by simp
    have "line_ok solve s'" unfolding line_ok_def
      using assms(1) W_POLL line h[of i]
      by (intro exI[of _ rs] exI[of _ part]) (auto simp: drone_worker_def split: if_splits option.splits)
    moreover have "line_holder (worker_pc s' k) \<longleftrightarrow> uart_mutex s' = Some k" for k
      using assms(1) W_POLL h[of k] m by (cases "k = i") (auto simp: drone_worker_def split: if_splits)
    ultimately show ?thesis by blast
  next
    case (W_COPY k)
    then have m: "uart_mutex s \<noteq> Some i" using h[of i] by simp
    have "line_ok solve s'" unfolding line_ok_def
      using assms(1) W_COPY line h[of i]
      by (intro exI[of _ rs] exI[of _ part]) (auto simp: drone_worker_def split: if_splits option.splits)
    moreover have "line_holder (worker_pc s' k) \<longleftrightarrow> uart_mutex s' = Some k" for k
      using assms(1) W_COPY h[of k] m by (cases "k = i") (auto simp: drone_worker_def split: if_splits)
    ultimately show ?thesis by blast
  next
    case W_SOLVE
    then have m: "uart_mutex s \<noteq> Some i" using h[of i] by simp
    have "line_ok solve s'" unfolding line_ok_def
      using assms(1) W_SOLVE line h[of i]
      by (intro exI[of _ rs] exI[of _ part]) (auto simp: drone_worker_def split: prod.splits option.splits)
    moreover have "line_holder (worker_pc s' k) \<longleftrightarrow> uart_mutex s' = Some k" for k
      using assms(1) W_SOLVE h[of k] m by (cases "k = i") (auto simp: drone_worker_def split: prod.splits if_splits)
    ultimately show ?thesis by blast
  qed
qed

lemma worker_inv_server:
  assumes "drone_worker solve ns i s = Some s'" "server_inv solve s" "i < NUM_DRONES"
  shows "server_inv solve s'"
proof -
  note o = worker_keeps_others[OF assms(1)] and f = worker_fresh[OF assms(1,2)] and l = worker_line[OF assms]
  have other: "fresh s' k \<longleftrightarrow> fresh s k" if "k \<noteq> i" for k using o(1) o(4)[OF that] by (simp add: fresh_def)
  have "length (obs (tasks s') k) = N_STATES \<and> length (current s' k) = N_STATES \<and> copied (worker_pc s' k) \<le> N_STATES" for k
    using assms(2) o(1) o(4)[of k] f by (cases "k = i") (auto simp: server_inv_def)
  moreover have "new_state (tasks s') k \<or> fresh s' k" if "0 < posted s' k" "\<not> storing k (main_pc s')" for k
    using assms(2) o(2,3) o(4)[of k] other[of k] f that by (cases "k = i") (auto simp: server_inv_def)
  moreover have "answers solve k (current s' k) r" if "worker_pc s' k = W_LOCK r" for k r
    using assms(2) o(4)[of k] f that by (cases "k = i") (auto simp: server_inv_def)
  ultimately show ?thesis using l unfolding server_inv_def by blast
qed

lemma server_reachable_inv:
  assumes "server_reachable solve (server_boot bs cur m) s" "\<And>i. length (cur i) = N_STATES"
  shows "server_inv solve s"
  using assms(1)
  by induction (auto simp: boot_inv_server assms(2) intro: main_step_inv_server worker_inv_server)

section \<open>What the host sees\<close>

text \<open>
  Responses never interleave. In every schedule, what is on the line is a sequence of whole 25-byte
  responses, each from one of the four drones and computed by the solver from an observation, followed
  by a prefix of one more, and the prefix is empty unless some worker holds the line.
\<close>
theorem responses_never_interleave:
  assumes "server_reachable solve (server_boot bs cur m0) s" "\<forall>i. length (cur i) = N_STATES"
  shows "\<exists>rs part. uart_out s = concat rs @ part \<and>
    (\<forall>r \<in> set rs. length r = 25 \<and> (\<exists>i < NUM_DRONES. \<exists>x m ns. r = response i (fst (solve x m)) ns)) \<and>
    (uart_mutex s = None \<longrightarrow> part = []) \<and>
    (\<forall>i. uart_mutex s = Some i \<longrightarrow> i < NUM_DRONES \<and>
       (\<exists>m ns. prefix part (response i (fst (solve (current s i) m)) ns)))"
proof -
  have "line_ok solve s" using server_reachable_inv[OF assms(1)] assms(2) by (simp add: server_inv_def)
  then obtain rs part where l: "uart_out s = concat rs @ part" "\<forall>r \<in> set rs. \<exists>i < NUM_DRONES. \<exists>x. answers solve i x r"
    "case uart_mutex s of None \<Rightarrow> part = []
      | Some i \<Rightarrow> i < NUM_DRONES \<and> (\<exists>rest. worker_pc s i = W_SEND rest \<and> answers solve i (current s i) (part @ rest))"
    unfolding line_ok_def by blast
  have "\<exists>m ns. prefix part (response i (fst (solve (current s i) m)) ns)" if "uart_mutex s = Some i" for i
    using l(3) that by (auto simp: answers_def) (metis prefixI)
  then show ?thesis using l by (intro exI[of _ rs] exI[of _ part]) (fastforce simp: answers_def split: option.splits)
qed

text \<open>
  A drone left alone is flown on its latest observation. Once an observation of drone \<open>i\<close> is stored and
  while no further one is coming in, the worker either has its flag up, or has copied nothing but this
  observation, and all of it when it is past the copy.
\<close>
theorem quiet_drone_has_latest:
  assumes "server_reachable solve (server_boot bs cur m0) s" "\<forall>i. length (cur i) = N_STATES"
    and "0 < posted s i" "\<not> storing i (main_pc s)" "\<not> new_state (tasks s) i"
  shows "case worker_pc s i of
      W_COPY k \<Rightarrow> take k (current s i) = take k (obs (tasks s) i)
    | _ \<Rightarrow> current s i = obs (tasks s) i"
proof -
  have inv: "server_inv solve s" using server_reachable_inv[OF assms(1)] assms(2) by simp
  then have "fresh s i" "length (obs (tasks s) i) = N_STATES" "length (current s i) = N_STATES"
    using assms(3-5) by (auto simp: server_inv_def)
  then show ?thesis by (auto simp: fresh_def split: worker_pc.splits)
qed

section \<open>Termination\<close>

definition workers_move ::
    "(u32 list \<Rightarrow> 'm \<Rightarrow> u32 list \<times> 'm) \<Rightarrow> 'm server \<Rightarrow> 'm server \<Rightarrow> bool" where
  "workers_move solve s s' \<longleftrightarrow> (\<exists>i < NUM_DRONES. \<exists>ns. drone_worker solve ns i s = Some s')"

text \<open>The steps a worker has left before it polls again, and those a raised flag will cost it.\<close>

fun pc_rank :: "worker_pc \<Rightarrow> nat" where
  "pc_rank W_POLL = 0"
| "pc_rank (W_COPY k) = 29 + (12 - k)"
| "pc_rank W_SOLVE = 28"
| "pc_rank (W_LOCK r) = 2 + length r"
| "pc_rank (W_SEND r) = 1 + length r"

definition worker_rank :: "'m server \<Rightarrow> nat \<Rightarrow> nat" where
  "worker_rank s i = (if new_state (tasks s) i then 42 else 0) + pc_rank (worker_pc s i)"

definition server_rank :: "'m server \<Rightarrow> nat" where
  "server_rank s = (\<Sum>i < NUM_DRONES. worker_rank s i)"

lemma worker_lowers_rank:
  assumes "drone_worker solve ns i s = Some s'" "i < NUM_DRONES"
  shows "server_rank s' < server_rank s"
proof -
  have "worker_rank s' i < worker_rank s i"
    using assms(1) by (auto simp: drone_worker_def worker_rank_def N_STATES_def
        split: worker_pc.splits if_splits list.splits prod.splits)
  moreover have "worker_rank s' k = worker_rank s k" if "k \<noteq> i" for k
    using worker_keeps_others(4)[OF assms(1) that] by (simp add: worker_rank_def)
  ultimately show ?thesis unfolding server_rank_def using assms(2) by (intro sum_strict_mono_ex1) (auto simp: le_less, metis)
qed

lemma rank_bound:
  assumes "server_inv solve s"
  shows "server_rank s \<le> 332"
proof -
  have "pc_rank (worker_pc s i) \<le> 41" if "i < NUM_DRONES" for i
  proof (cases "worker_pc s i")
    case (W_LOCK r)
    then have "answers solve i (current s i) r" using assms by (simp add: server_inv_def)
    then have "length r = 25" by (auto simp: answers_def)
    then show ?thesis using W_LOCK by simp
  next
    case (W_SEND r)
    then have "uart_mutex s = Some i" using assms by (metis line_holder.simps(1) server_inv_def)
    then obtain part where "answers solve i (current s i) (part @ r)"
      using assms W_SEND by (auto simp: server_inv_def line_ok_def)
    then have "length (part @ r) = 25" unfolding answers_def by (metis length_response)
    then show ?thesis using W_SEND by simp
  qed (auto simp: N_STATES_def)
  then have "worker_rank s i \<le> 83" if "i < NUM_DRONES" for i using that by (fastforce simp: worker_rank_def intro: le_trans)
  then have "server_rank s \<le> of_nat (card {..<NUM_DRONES}) * 83" unfolding server_rank_def by (intro sum_bounded_above) auto
  then show ?thesis by (simp add: NUM_DRONES_def)
qed

lemma nobody_moves:
  assumes "server_inv solve s" "\<nexists>s'. workers_move solve s s'"
  shows "uart_mutex s = None" "i < NUM_DRONES \<Longrightarrow> worker_pc s i = W_POLL \<and> \<not> new_state (tasks s) i"
proof -
  have stuck: "drone_worker solve 0 i s = None" if "i < NUM_DRONES" for i
    using assms(2) that unfolding workers_move_def by (metis not_Some_eq)
  show m: "uart_mutex s = None"
  proof (rule ccontr)
    assume "uart_mutex s \<noteq> None"
    then obtain i r where "i < NUM_DRONES" "worker_pc s i = W_SEND r"
      using assms(1) by (auto simp: server_inv_def line_ok_def)
    then show False using stuck[of i] by (auto simp: drone_worker_def split: list.splits)
  qed
  show "worker_pc s i = W_POLL \<and> \<not> new_state (tasks s) i" if "i < NUM_DRONES"
    using stuck[OF that] m by (auto simp: drone_worker_def split: worker_pc.splits if_splits list.splits prod.splits)
qed

section \<open>Concrete runs\<close>

definition packet :: "u32 \<Rightarrow> u8 list" where "packet x = HEADER @ [1] @ floats_bytes (replicate 12 x)"

definition echo_solver :: "u32 list \<Rightarrow> unit \<Rightarrow> u32 list \<times> unit" where "echo_solver x m = (take 4 x, m)"

definition one_drone :: "u32 list \<Rightarrow> unit server" where
  "one_drone xs = server_boot (concat (map packet xs)) (\<lambda>i. replicate 12 0) (\<lambda>i. ())"

lemma one_drone_reachable:
  "server_run echo_solver cs (one_drone xs) = Some s \<Longrightarrow>
   server_reachable echo_solver (server_boot (concat (map packet xs)) (\<lambda>i. replicate 12 0) (\<lambda>i. ())) s"
  using server_run_reachable[OF _ server_start] unfolding one_drone_def .

lemma server_run_append:
  "server_run solve (cs @ ds) s = Option.bind (server_run solve cs s) (server_run solve ds)"
proof (induction cs arbitrary: s)
  case (Cons c cs)
  then have "server_run solve (cs @ ds) = (\<lambda>s. Option.bind (server_run solve cs s) (server_run solve ds))" by blast
  then show ?case by simp
qed simp

lemma server_run_workers:
  "server_run solve (map Some ws) s = Some s' \<Longrightarrow> (workers_move solve ^^ length ws) s s'"
proof (induction ws arbitrary: s)
  case (Cons i ws)
  then obtain t where "workers_move solve s t" "server_run solve (map Some ws) t = Some s'"
    by (auto simp: workers_move_def bind_eq_Some_conv split: if_splits)
  then show ?case using Cons.IH by (simp only: list.size add_Suc_right add_0_right) (meson relpowp_Suc_I2)
qed simp

text \<open>One observation, and the 42 steps that answer it.\<close>

lemma one_packet_run:
  "map_option (\<lambda>s. (map (worker_pc s) [0..<4], map (new_state (tasks s)) [0..<4], uart_mutex s, current s 0, posted s 0,
       main_pc s)) (server_run echo_solver (replicate 54 None @ replicate 42 (Some 0)) (one_drone [1])) =
   Some (replicate 4 W_POLL, replicate 4 False, None, replicate 12 1, 1, M_SYNC 0)"
  by code_simp

lemma one_packet_states:
  obtains s t where "server_reachable echo_solver (server_boot (concat (map packet [1])) (\<lambda>i. replicate 12 0) (\<lambda>i. ())) s"
    "(workers_move echo_solver ^^ 42) s t"
    "server_reachable echo_solver (server_boot (concat (map packet [1])) (\<lambda>i. replicate 12 0) (\<lambda>i. ())) t"
    "\<And>i. i < 4 \<Longrightarrow> worker_pc t i = W_POLL \<and> \<not> new_state (tasks t) i" "uart_mutex t = None" "current t 0 = replicate 12 1"
    "posted t 0 = 1" "main_pc t = M_SYNC 0"
proof -
  obtain t where t: "server_run echo_solver (replicate 54 None @ replicate 42 (Some 0)) (one_drone [1]) = Some t"
    "map (worker_pc t) [0..<4] = replicate 4 W_POLL" "map (new_state (tasks t)) [0..<4] = replicate 4 False"
    "uart_mutex t = None" "current t 0 = replicate 12 1" "posted t 0 = 1" "main_pc t = M_SYNC 0"
    using one_packet_run by (auto simp del: replicate.simps upt.simps)
  obtain s where s: "server_run echo_solver (replicate 54 None) (one_drone [1]) = Some s"
    "server_run echo_solver (map Some (replicate 42 0)) s = Some t"
    using t(1) unfolding server_run_append map_replicate by (auto simp: bind_eq_Some_conv)
  have "worker_pc t i = W_POLL \<and> \<not> new_state (tasks t) i" if "i < 4" for i
    using arg_cong[OF t(2), of "\<lambda>xs. xs ! i"] arg_cong[OF t(3), of "\<lambda>xs. xs ! i"] that by simp
  then show ?thesis
    using that[OF one_drone_reachable[OF s(1)] _ one_drone_reachable[OF t(1)]] server_run_workers[OF s(2)] t(4-) by simp
qed

theorem responses_never_interleave_witness:
  "\<exists>s rs. uart_out (s :: unit server) = concat rs \<and> current s 0 = replicate 12 1 \<and> list_all (\<lambda>r. length r = 25) rs"
proof -
  obtain t where t: "server_reachable echo_solver (server_boot (concat (map packet [1])) (\<lambda>i. replicate 12 0) (\<lambda>i. ())) t"
    "uart_mutex t = None" "current t 0 = replicate 12 1"
    by (rule one_packet_states)
  obtain rs part where "uart_out t = concat rs @ part" "part = []" "list_all (\<lambda>r. length r = 25) rs"
    using responses_never_interleave[OF t(1)] t(2) by (auto simp: N_STATES_def list_all_iff simp del: replicate.simps)
  then show ?thesis using t(3) by (intro exI[of _ t] exI[of _ rs]) simp
qed

theorem quiet_drone_has_latest_witness:
  "\<exists>s. worker_pc s 0 = W_POLL \<and> current s 0 = replicate 12 1 \<and> obs (tasks (s :: unit server)) 0 = replicate 12 1"
proof -
  obtain t where t: "server_reachable echo_solver (server_boot (concat (map packet [1])) (\<lambda>i. replicate 12 0) (\<lambda>i. ())) t"
    "worker_pc t 0 = W_POLL" "\<not> new_state (tasks t) 0" "current t 0 = replicate 12 1" "posted t 0 = 1" "main_pc t = M_SYNC 0"
    by (rule one_packet_states) auto
  show ?thesis using quiet_drone_has_latest[OF t(1), of 0] t(2-) by (auto simp: N_STATES_def)
qed

text \<open>The worker copies while \<open>main\<close> stores the next observation.\<close>

lemma torn_run:
  "map_option (\<lambda>s. (worker_pc s 0, current s 0))
     (server_run echo_solver (replicate 54 None @ replicate 7 (Some 0) @ replicate 53 None @ replicate 7 (Some 0)) (one_drone [1, 2])) =
   Some (W_SOLVE, replicate 6 1 @ replicate 6 2)"
  by code_simp

text \<open>
  Observations can be torn. The flag is lowered before the copy and nothing keeps \<open>main\<close> from storing
  meanwhile: when the host sends two observations, all ones and all twos, there is a schedule in which the
  worker solves for six ones followed by six twos, a state the host never sent.
\<close>
theorem torn_observation:
  "\<exists>s. server_reachable echo_solver (server_boot (packet 1 @ packet 2) (\<lambda>i. replicate 12 0) (\<lambda>i. ())) s \<and>
     worker_pc s 0 = W_SOLVE \<and> current s 0 = replicate 6 1 @ replicate 6 2"
  using torn_run one_drone_reachable[of _ "[1, 2]"] by (auto simp del: replicate.simps upt.simps simp: map_option_eq_Some)

end
