(* ===== verification/Drone_Control.thy ===== *)
theory Drone_Control
  imports Prelude
begin

text \<open>
  What the threaded drone servers of \<open>samples/drone_control\<close> are compared with: one drone's controller on its
  own, which solves for one observation after the other, and the messages of one sender among all on a line.
\<close>

fun controller :: "('x \<Rightarrow> 'm \<Rightarrow> 'u \<times> 'm) \<Rightarrow> 'm \<Rightarrow> 'x list \<Rightarrow> 'u list \<times> 'm" where
  "controller solve m [] = ([], m)"
| "controller solve m (x # xs) =
     (case solve x m of (u, m) \<Rightarrow> case controller solve m xs of (us, m) \<Rightarrow> (u # us, m))"

lemma controller_snoc:
  "controller solve m (xs @ [x]) =
     (case controller solve m xs of (us, m') \<Rightarrow> case solve x m' of (u, m'') \<Rightarrow> (us @ [u], m''))"
  by (induction xs arbitrary: m) (auto split: prod.splits)

lemma length_controller [simp]: "length (fst (controller solve m xs)) = length xs"
  by (induction xs arbitrary: m) (simp_all add: case_prod_beta')

definition of_drone :: "'k \<Rightarrow> ('k \<times> 'a) list \<Rightarrow> 'a list" where
  "of_drone i rs = map snd (filter (\<lambda>r. fst r = i) rs)"

lemma of_drone_simps [simp]:
  "of_drone i [] = []" "of_drone i (rs @ rs') = of_drone i rs @ of_drone i rs'"
  "of_drone i [(k, r)] = (if k = i then [r] else [])"
  by (simp_all add: of_drone_def)

lemma of_drone_member: "r \<in> set rs \<Longrightarrow> snd r \<in> set (of_drone (fst r) rs)"
  by (auto simp: of_drone_def)

end
