(* ===== verification/Drone_Log.thy ===== *)
theory Drone_Log
  imports Drone_Threads Drone_Control
begin

text \<open>
  The four-drone server of \<open>Drone_Threads\<close> compared with four controllers on their own: which bytes of the line
  each float a drone solved for came from, and which response answers which observation. With it, a host that
  stops sending is answered.
\<close>

section \<open>What main has stored\<close>

definition boot_tasks :: drone_tasks where
  "boot_tasks = \<lparr>obs = (\<lambda>i. replicate N_STATES 0), new_state = (\<lambda>i. False)\<rparr>"

text \<open>Drone \<open>i\<close>'s observation once \<open>main\<close> alone has read the first \<open>k\<close> bytes of the line.\<close>

definition stored_at :: "u8 list \<Rightarrow> nat \<Rightarrow> nat \<Rightarrow> u32 list" where
  "stored_at bs k i = obs (snd (main_feed (take k bs) (M_SYNC 0, boot_tasks))) i"

definition main_read :: "u8 list \<Rightarrow> 'm server \<Rightarrow> nat \<Rightarrow> bool" where
  "main_read bs s k \<longleftrightarrow> k \<le> length bs \<and> incoming s = drop k bs \<and>
     fst (main_set (main_pc s, tasks s)) = fst (main_feed (take k bs) (M_SYNC 0, boot_tasks)) \<and>
     obs (tasks s) = stored_at bs k"

lemma main_set_obs: "obs (snd (main_set pt)) = obs (snd pt)"
  by (cases pt; cases "fst pt") (simp_all add: main_set_def)

lemma main_set_pc: "fst (main_set (pc, t)) = fst (main_set (pc, t'))"
  by (cases pc) (simp_all add: main_set_def)

lemma main_set_none: "\<nexists>n i. pc = M_SET n i \<Longrightarrow> main_set (pc, t) = (pc, t)"
  by (cases pc) (simp_all add: main_set_def)

lemma main_set_once: "fst (main_set (fst (main_set pt), t)) = fst (main_set pt)"
  by (cases pt; cases "fst pt") (simp_all add: main_set_def)

text \<open>\<open>main\<close> never looks at the flags.\<close>

lemma main_byte_flags:
  "obs t = obs t' \<Longrightarrow> fst (main_byte b (pc, t)) = fst (main_byte b (pc, t')) \<and>
     obs (snd (main_byte b (pc, t))) = obs (snd (main_byte b (pc, t')))"
  by (cases pc) (simp_all add: main_byte_def)

lemma main_step_read:
  assumes "main_step s = Some s'" "main_read bs s k"
  shows "\<exists>k' \<ge> k. main_read bs s' k'"
proof (cases "\<exists>n i. main_pc s = M_SET n i")
  case True
  then obtain n i where pc: "main_pc s = M_SET n i" by blast
  have "main_pc s' = fst (main_set (main_pc s, tasks s))" "obs (tasks s') = obs (tasks s)" "incoming s' = incoming s"
    using assms(1) pc main_set_obs[of "(main_pc s, tasks s)"] by (auto simp: main_step_def split: prod.splits)
  then have "main_read bs s' k"
    using assms(2) main_set_once[of "(main_pc s, tasks s)" "tasks s'"] by (simp add: main_read_def)
  then show ?thesis by blast
next
  case False
  then have s: "main_set (main_pc s, tasks s) = (main_pc s, tasks s)" by (intro main_set_none)
  obtain b cs where b: "incoming s = b # cs" "main_byte b (main_pc s, tasks s) = (main_pc s', tasks s')" "incoming s' = cs"
    using assms(1) False by (cases "main_pc s"; cases "incoming s") (auto simp: main_step_def split: prod.splits)
  obtain pc t where f: "main_feed (take k bs) (M_SYNC 0, boot_tasks) = (pc, t)" by (metis prod.exhaust)
  have k: "k < length bs" "bs ! k = b" "drop (Suc k) bs = cs"
    using assms(2) b(1) by (auto simp: main_read_def) (metis drop_all list.distinct(1) not_le, metis nth_via_drop, metis list.sel(3) tl_drop drop_Suc)
  then have "main_feed (take (Suc k) bs) (M_SYNC 0, boot_tasks) = main_set (main_byte b (pc, t))"
    using f by (simp add: take_Suc_conv_app_nth main_feed_append) (simp add: main_feed_def)
  moreover have "pc = main_pc s" "obs t = obs (tasks s)" using assms(2) s f by (auto simp: main_read_def stored_at_def)
  moreover note main_byte_flags[of t "tasks s" b "main_pc s"]
  ultimately have "main_read bs s' (Suc k)"
    using b k main_set_obs[of "main_byte b (pc, t)"] main_set_pc[of "main_pc s'" "tasks s'"]
    unfolding main_read_def stored_at_def by (metis Suc_leI fst_conv prod.collapse snd_conv)
  then show ?thesis by (intro exI[of _ "Suc k"]) simp
qed

section \<open>The log\<close>

text \<open>The responses of a drone that has solved for \<open>xs\<close> in the times \<open>ts\<close>.\<close>

definition responses :: "(u32 list \<Rightarrow> 'm \<Rightarrow> u32 list \<times> 'm) \<Rightarrow> 'm \<Rightarrow> nat \<Rightarrow> u32 list list \<Rightarrow> u32 list \<Rightarrow> u8 list list" where
  "responses solve m i xs ts = map2 (response i) (fst (controller solve m xs)) ts"

lemma responses_snoc:
  assumes "length ts = length xs" "controller solve m xs = (us, m')"
  shows "responses solve m i (xs @ [x]) (ts @ [t]) = responses solve m i xs ts @ [response i (fst (solve x m')) t]"
  using assms length_controller[of solve m xs] by (simp add: responses_def controller_snoc split: prod.splits)

text \<open>What of its responses a worker has not sent yet: \<open>part\<close> is what the holder of the line has sent.\<close>

fun unsent :: "u8 list \<Rightarrow> worker_pc \<Rightarrow> u8 list list" where
  "unsent part (W_LOCK r) = [r]"
| "unsent part (W_SEND r) = [part @ r]"
| "unsent part pc = []"

text \<open>The worker still has the observation it solved for last, or how much of the next one it has.\<close>

fun keeps_copy :: "worker_pc \<Rightarrow> bool" where
  "keeps_copy (W_COPY k) = False"
| "keeps_copy W_SOLVE = False"
| "keeps_copy pc = True"

fun copying :: "worker_pc \<Rightarrow> nat" where
  "copying (W_COPY k) = k"
| "copying W_SOLVE = N_STATES"
| "copying pc = 0"

text \<open>
  The floats \<open>fs\<close> were copied when \<open>main\<close> had read so many bytes as \<open>ks\<close> says: float \<open>l\<close> is the one that drone
  \<open>i\<close>'s observation then held at its place.
\<close>

definition copied_at :: "u8 list \<Rightarrow> nat \<Rightarrow> nat list \<Rightarrow> u32 list \<Rightarrow> bool" where
  "copied_at bs i ks fs \<longleftrightarrow> sorted ks \<and> fs = map (\<lambda>l. stored_at bs (ks ! l) i ! (l mod N_STATES)) [0..<length ks]"

definition drone_log ::
    "(u32 list \<Rightarrow> 'm \<Rightarrow> u32 list \<times> 'm) \<Rightarrow> 'm \<Rightarrow> u8 list \<Rightarrow> nat \<Rightarrow> (nat \<times> u8 list) list \<Rightarrow> u8 list \<Rightarrow> nat \<Rightarrow> 'm server \<Rightarrow>
      u32 list list \<Rightarrow> u32 list \<Rightarrow> nat list \<Rightarrow> bool" where
  "drone_log solve m bs i rs part n s xs ts ks \<longleftrightarrow>
     length ts = length xs \<and> list_all (\<lambda>x. length x = N_STATES) xs \<and> solver s i = snd (controller solve m xs) \<and>
     responses solve m i xs ts = of_drone i rs @ unsent part (worker_pc s i) \<and>
     (keeps_copy (worker_pc s i) \<longrightarrow> xs \<noteq> [] \<longrightarrow> last xs = current s i) \<and>
     (keeps_copy (worker_pc s i) \<longrightarrow> 0 < posted s i \<longrightarrow> xs \<noteq> [] \<or> new_state (tasks s) i) \<and>
     copied_at bs i ks (concat xs @ take (copying (worker_pc s i)) (current s i)) \<and> (\<forall>k \<in> set ks. k \<le> n)"

definition fleet_log ::
    "(u32 list \<Rightarrow> 'm \<Rightarrow> u32 list \<times> 'm) \<Rightarrow> (nat \<Rightarrow> 'm) \<Rightarrow> u8 list \<Rightarrow> 'm server \<Rightarrow> (nat \<times> u8 list) list \<Rightarrow> u8 list \<Rightarrow> nat \<Rightarrow>
      (nat \<Rightarrow> u32 list list) \<Rightarrow> (nat \<Rightarrow> u32 list) \<Rightarrow> (nat \<Rightarrow> nat list) \<Rightarrow> bool" where
  "fleet_log solve m bs s rs part n xs ts ks \<longleftrightarrow>
     main_read bs s n \<and>
     uart_out s = concat (map snd rs) @ part \<and> (uart_mutex s = None \<longrightarrow> part = []) \<and> list_all (\<lambda>r. fst r < NUM_DRONES) rs \<and>
     (\<forall>i. drone_log solve (m i) bs i rs part n s (xs i) (ts i) (ks i))"

lemma concat_length: "list_all (\<lambda>x. length x = n) xs \<Longrightarrow> length (concat xs) = n * length xs"
  by (induction xs) simp_all

lemma copied_at_more:
  assumes "copied_at bs i ks fs" "\<forall>k \<in> set ks. k \<le> n" "f = stored_at bs n i ! (length ks mod N_STATES)"
  shows "copied_at bs i (ks @ [n]) (fs @ [f])"
  using assms by (auto simp: copied_at_def sorted_append nth_append)

lemma drone_log_other:
  assumes "drone_log solve m bs k rs part n s xs ts ks" "worker_pc s' k = worker_pc s k" "solver s' k = solver s k" "current s' k = current s k"
    and "new_state (tasks s) k \<longrightarrow> new_state (tasks s') k" "posted s' k = posted s k \<or> new_state (tasks s') k"
    and "of_drone k rs' = of_drone k rs" "line_holder (worker_pc s k) \<Longrightarrow> part' = part" "n \<le> n'"
  shows "drone_log solve m bs k rs' part' n' s' xs ts ks"
  using assms by (cases "worker_pc s k") (auto simp: drone_log_def)

lemma main_step_flags:
  assumes "main_step s = Some s'"
  shows "(new_state (tasks s) k \<longrightarrow> new_state (tasks s') k) \<and> (posted s' k = posted s k \<or> new_state (tasks s') k)"
  using assms
proof (cases rule: main_step_cases)
  case (1 n i)
  then show ?thesis by (cases "k = i") auto
next
  case (2 b)
  then show ?thesis using main_byte_storing(1)[OF 2(1,2)] by simp
qed

lemma main_step_log:
  assumes "main_step s = Some s'" "fleet_log solve m bs s rs part n xs ts ks"
  shows "\<exists>n. fleet_log solve m bs s' rs part n xs ts ks"
proof -
  have s: "solver s' = solver s" "worker_pc s' = worker_pc s" "current s' = current s" "uart_out s' = uart_out s" "uart_mutex s' = uart_mutex s"
    using assms(1) by (auto simp: main_step_def split: main_pc.splits list.splits prod.splits)
  have "main_read bs s n" using assms(2) by (simp add: fleet_log_def)
  then obtain n' where n: "n \<le> n'" "main_read bs s' n'" using main_step_read[OF assms(1)] by blast
  have "drone_log solve (m i) bs i rs part n' s' (xs i) (ts i) (ks i)" for i
  proof (rule drone_log_other[OF _ _ _ _ _ _ refl refl n(1)])
    show "drone_log solve (m i) bs i rs part n s (xs i) (ts i) (ks i)" using assms(2) by (simp add: fleet_log_def)
  qed (use s main_step_flags[OF assms(1), of i] in simp_all)
  then show ?thesis using assms(2) n s by (intro exI[of _ n']) (simp add: fleet_log_def)
qed

lemma boot_log: "fleet_log solve m bs (server_boot bs cur m) [] [] 0 (\<lambda>i. []) (\<lambda>i. []) (\<lambda>i. [])"
  by (simp add: fleet_log_def drone_log_def server_boot_def responses_def main_read_def main_feed_def main_set_def
      stored_at_def boot_tasks_def copied_at_def fun_eq_iff)

text \<open>The kinds of step of a worker.\<close>

lemma worker_kinds:
  assumes "drone_worker solve ns i s = Some s'"
  obtains
    (takes) "worker_pc s i = W_POLL" "worker_pc s' i = W_COPY 0"
      "solver s' = solver s" "uart_out s' = uart_out s" "uart_mutex s' = uart_mutex s"
  | (copies) k where "worker_pc s i = W_COPY k" "worker_pc s' i = W_COPY (Suc k)" "current s' i = (current s i)[k := obs (tasks s) i ! k]" "k < N_STATES"
      "solver s' = solver s" "uart_out s' = uart_out s" "uart_mutex s' = uart_mutex s"
  | (copied) k where "worker_pc s i = W_COPY k" "N_STATES \<le> k" "worker_pc s' i = W_SOLVE" "current s' = current s"
      "solver s' = solver s" "uart_out s' = uart_out s" "uart_mutex s' = uart_mutex s"
  | (solves) u m where "worker_pc s i = W_SOLVE" "solve (current s i) (solver s i) = (u, m)"
      "worker_pc s' i = W_LOCK (response i u ns)" "current s' = current s" "solver s' = (solver s)(i := m)" "uart_out s' = uart_out s" "uart_mutex s' = uart_mutex s"
  | (locks) r where "worker_pc s i = W_LOCK r" "uart_mutex s = None" "worker_pc s' i = W_SEND r" "current s' = current s" "solver s' = solver s"
      "uart_out s' = uart_out s" "uart_mutex s' = Some i" "tasks s' = tasks s"
  | (ends) "worker_pc s i = W_SEND []" "worker_pc s' i = W_POLL" "current s' = current s" "solver s' = solver s" "uart_out s' = uart_out s" "uart_mutex s' = None" "tasks s' = tasks s"
  | (sends) b bs where "worker_pc s i = W_SEND (b # bs)" "worker_pc s' i = W_SEND bs" "current s' = current s" "solver s' = solver s"
      "uart_out s' = uart_out s @ [b]" "uart_mutex s' = uart_mutex s" "tasks s' = tasks s"
  using assms by (auto simp: drone_worker_def split: worker_pc.splits if_splits list.splits prod.splits)

lemma worker_step_log:
  assumes "drone_worker solve ns i s = Some s'" "server_inv solve s" "i < NUM_DRONES" "fleet_log solve m bs s rs part n xs ts ks"
  shows "\<exists>rs part n xs ts ks. fleet_log solve m bs s' rs part n xs ts ks"
proof -
  have holder: "line_holder (worker_pc s k) \<longleftrightarrow> uart_mutex s = Some k" for k using assms(2) by (simp add: server_inv_def)
  have cur: "length (current s i) = N_STATES" using assms(2) by (simp add: server_inv_def)
  have log: "uart_out s = concat (map snd rs) @ part" "uart_mutex s = None \<longrightarrow> part = []" "list_all (\<lambda>r. fst r < NUM_DRONES) rs"
    "\<And>k. drone_log solve (m k) bs k rs part n s (xs k) (ts k) (ks k)" using assms(4) by (simp_all add: fleet_log_def)
  have read: "main_read bs s n" using assms(4) by (simp add: fleet_log_def)
  moreover have "incoming s' = incoming s"
    using assms(1) by (auto simp: drone_worker_def split: worker_pc.splits if_splits list.splits prod.splits)
  moreover have "fst (main_set (main_pc s, tasks s')) = fst (main_set (main_pc s, tasks s))" by (rule main_set_pc)
  ultimately have read: "main_read bs s n" "main_read bs s' n"
    using worker_keeps_others(1,2)[OF assms(1)] by (simp_all add: main_read_def)
  have pc: "worker_pc s' k = worker_pc s k" "current s' k = current s k" if "k \<noteq> i" for k using worker_keeps_others(4)[OF assms(1) that] by simp_all
  have own: "drone_log solve (m i) bs i rs part n s (xs i) (ts i) (ks i)" by (rule log(4))
  have other: "drone_log solve (m k) bs k rs' part' n s' (xs k) (ts k) (ks k)"
    if "k \<noteq> i" "solver s' k = solver s k" "of_drone k rs' = of_drone k rs" "uart_mutex s = Some k \<Longrightarrow> part' = part" for k rs' part'
    using drone_log_other[OF log(4) pc(1)[OF that(1)] that(2) pc(2)[OF that(1)] _ _ that(3)] that(4) holder
      worker_keeps_others(3,4)[OF assms(1)] that(1) by (metis order_refl)
  show ?thesis
    using assms(1)
  proof (cases rule: worker_kinds)
    case takes
    then have "drone_log solve (m i) bs i rs part n s' (xs i) (ts i) (ks i)" using own by (auto simp: drone_log_def)
    then have "drone_log solve (m k) bs k rs part n s' (xs k) (ts k) (ks k)" for k using other[of k rs part] takes(3) by (cases "k = i") auto
    then show ?thesis using takes log read by (intro exI[of _ rs] exI[of _ part] exI[of _ n] exI[of _ xs] exI[of _ ts] exI[of _ ks]) (simp add: fleet_log_def)
  next
    case (copies j)
    let ?ks = "ks(i := ks i @ [n])"
    have at: "copied_at bs i (ks i) (concat (xs i) @ take j (current s i))" and n: "\<forall>k \<in> set (ks i). k \<le> n" and
      xs: "list_all (\<lambda>x. length x = N_STATES) (xs i)" using own copies(1) by (simp_all add: drone_log_def)
    have "length (ks i) = length (concat (xs i)) + j"
      using arg_cong[OF at[unfolded copied_at_def, THEN conjunct2], of length] copies(4) cur by simp
    moreover have "length (concat (xs i)) = N_STATES * length (xs i)"
      using concat_length[OF xs] .
    ultimately have "length (ks i) mod N_STATES = j" using copies(4) by simp
    then have "copied_at bs i (?ks i) (concat (xs i) @ take (Suc j) (current s' i))"
      using copied_at_more[OF at n, of "obs (tasks s) i ! j"] read copies(3,4) cur by (simp add: main_read_def take_Suc_conv_app_nth)
    then have "drone_log solve (m i) bs i rs part n s' (xs i) (ts i) (?ks i)"
      using own copies n by (auto simp: drone_log_def)
    then have "drone_log solve (m k) bs k rs part n s' (xs k) (ts k) (?ks k)" for k using other[of k rs part] copies(5) by (cases "k = i") auto
    then show ?thesis using copies log read by (intro exI[of _ rs] exI[of _ part] exI[of _ n] exI[of _ xs] exI[of _ ts] exI[of _ ?ks]) (simp add: fleet_log_def)
  next
    case (copied j)
    then have "drone_log solve (m i) bs i rs part n s' (xs i) (ts i) (ks i)" using own cur by (auto simp: drone_log_def)
    then have "drone_log solve (m k) bs k rs part n s' (xs k) (ts k) (ks k)" for k using other[of k rs part] copied(5) by (cases "k = i") auto
    then show ?thesis using copied log read by (intro exI[of _ rs] exI[of _ part] exI[of _ n] exI[of _ xs] exI[of _ ts] exI[of _ ks]) (simp add: fleet_log_def)
  next
    case (solves u m')
    obtain us where c: "controller solve (m i) (xs i) = (us, solver s i)"
      using own by (cases "controller solve (m i) (xs i)") (simp add: drone_log_def)
    let ?xs = "xs(i := xs i @ [current s i])" and ?ts = "ts(i := ts i @ [ns])"
    have "drone_log solve (m i) bs i rs part n s' (?xs i) (?ts i) (ks i)"
      using own solves responses_snoc[OF _ c, of "ts i" i "current s i" ns] c cur
      by (simp add: drone_log_def controller_snoc)
    then have "drone_log solve (m k) bs k rs part n s' (?xs k) (?ts k) (ks k)" for k
      using other[of k rs part] solves(5) by (cases "k = i") auto
    then show ?thesis using solves log read by (intro exI[of _ rs] exI[of _ part] exI[of _ n] exI[of _ ?xs] exI[of _ ?ts] exI[of _ ks]) (simp add: fleet_log_def)
  next
    case (locks r)
    then have "drone_log solve (m i) bs i rs part n s' (xs i) (ts i) (ks i)" using own log(2) worker_keeps_others(3)[OF assms(1)] by (simp add: drone_log_def)
    then have "drone_log solve (m k) bs k rs part n s' (xs k) (ts k) (ks k)" for k using other[of k rs part] locks(5) by (cases "k = i") auto
    then show ?thesis using locks log read by (intro exI[of _ rs] exI[of _ part] exI[of _ n] exI[of _ xs] exI[of _ ts] exI[of _ ks]) (simp add: fleet_log_def)
  next
    case ends
    then have mine: "uart_mutex s = Some i" using holder[of i] by simp
    let ?rs = "rs @ [(i, part)]"
    have "drone_log solve (m i) bs i ?rs [] n s' (xs i) (ts i) (ks i)" using own ends worker_keeps_others(3)[OF assms(1)] by (simp add: drone_log_def)
    then have "drone_log solve (m k) bs k ?rs [] n s' (xs k) (ts k) (ks k)" for k
      using other[of k ?rs "[]"] ends(4) mine by (cases "k = i") auto
    then show ?thesis using ends log read assms(3)
      by (intro exI[of _ ?rs] exI[of _ "[]"] exI[of _ n] exI[of _ xs] exI[of _ ts] exI[of _ ks]) (simp add: fleet_log_def)
  next
    case (sends b cs)
    then have mine: "uart_mutex s = Some i" using holder[of i] by simp
    have "drone_log solve (m i) bs i rs (part @ [b]) n s' (xs i) (ts i) (ks i)" using own sends worker_keeps_others(3)[OF assms(1)] by (simp add: drone_log_def)
    then have "drone_log solve (m k) bs k rs (part @ [b]) n s' (xs k) (ts k) (ks k)" for k
      using other[of k rs "part @ [b]"] sends(4) mine by (cases "k = i") auto
    then show ?thesis using sends log read mine
      by (intro exI[of _ rs] exI[of _ "part @ [b]"] exI[of _ n] exI[of _ xs] exI[of _ ts] exI[of _ ks]) (simp add: fleet_log_def)
  qed
qed

lemma reachable_log:
  assumes "server_reachable solve (server_boot bs cur m) s" "\<And>i. length (cur i) = N_STATES"
  shows "\<exists>rs part n xs ts ks. fleet_log solve m bs s rs part n xs ts ks"
  using assms(1)
proof induction
  case server_start
  then show ?case using boot_log by blast
next
  case (main_runs s s')
  then show ?case using main_step_log[OF main_runs(2)] by metis
next
  case (worker_runs s i ns s')
  then show ?case using worker_step_log[OF worker_runs(3) server_reachable_inv[OF worker_runs(1) assms(2)] worker_runs(2)] by blast
qed

section \<open>A host that stops sending\<close>

lemma workers_settle:
  assumes "server_reachable solve (server_boot bs cur m0) s" "\<forall>i. length (cur i) = N_STATES" "(workers_move solve ^^ n) s s'"
  shows "server_reachable solve (server_boot bs cur m0) s'" "n \<le> 332"
proof -
  have run: "server_reachable solve (server_boot bs cur m0) s' \<and> server_rank s' + n \<le> server_rank s"
    using assms(3)
  proof (induction n arbitrary: s')
    case 0
    then show ?case using assms(1) by simp
  next
    case (Suc n)
    then obtain t where t: "(workers_move solve ^^ n) s t" "workers_move solve t s'" by auto
    then obtain i ns where i: "i < NUM_DRONES" "drone_worker solve ns i t = Some s'" by (auto simp: workers_move_def)
    show ?case using Suc.IH[OF t(1)] worker_lowers_rank[OF i(2,1)] worker_runs[OF _ i] by fastforce
  qed
  then show "server_reachable solve (server_boot bs cur m0) s'" by simp
  have "server_rank s \<le> 332" using server_reachable_inv[OF assms(1)] assms(2) rank_bound by blast
  then show "n \<le> 332" using run by simp
qed



end
