(* ===== verification/Arrays.thy ===== *)
theory Arrays
  imports Prelude "HOL-Library.Monad_Syntax"
begin

text \<open>
  Arrays and counting loops of the C sources: reads and writes that end in \<open>None\<close> outside the array,
  loops whose body may end so, and \<open>overlay\<close>, which says what a loop of writes has changed.
\<close>

section \<open>Access\<close>

definition fetch :: "nat \<Rightarrow> 'a list \<Rightarrow> 'a option" where
  "fetch p xs = (if p < length xs then Some (xs ! p) else None)"

definition store :: "nat \<Rightarrow> 'a \<Rightarrow> 'a list \<Rightarrow> 'a list option" where
  "store p v xs = (if p < length xs then Some (xs[p := v]) else None)"

text \<open>\<open>memcpy\<close> and \<open>memset\<close>: a range read, a range written.\<close>

definition fetch_range :: "nat \<Rightarrow> nat \<Rightarrow> 'a list \<Rightarrow> 'a list option" where
  "fetch_range p n xs = (if p + n \<le> length xs then Some (take n (drop p xs)) else None)"

definition store_range :: "nat \<Rightarrow> 'a list \<Rightarrow> 'a list \<Rightarrow> 'a list option" where
  "store_range p ys xs = (if p + length ys \<le> length xs then Some (take p xs @ ys @ drop (p + length ys) xs) else None)"

lemma fetch_Some [simp]: "p < length xs \<Longrightarrow> fetch p xs = Some (xs ! p)"
  by (simp add: fetch_def)

lemma fetch_range_Some [simp]: "p + n \<le> length xs \<Longrightarrow> fetch_range p n xs = Some (take n (drop p xs))"
  by (simp add: fetch_range_def)

lemma store_range_append:
  "Option.bind (store_range p ys xs) (store_range (p + length ys) zs) = store_range p (ys @ zs) xs"
  by (auto simp: store_range_def add.commute add.left_commute)

section \<open>Loops\<close>

text \<open>The body on each index in turn.\<close>

fun steps_from :: "(nat \<Rightarrow> 's \<Rightarrow> 's option) \<Rightarrow> nat list \<Rightarrow> 's \<Rightarrow> 's option" where
  "steps_from f [] st = Some st"
| "steps_from f (k # ks) st = Option.bind (f k st) (steps_from f ks)"

abbreviation for_range :: "nat \<Rightarrow> (nat \<Rightarrow> 's \<Rightarrow> 's option) \<Rightarrow> 's \<Rightarrow> 's option" where
  "for_range n f \<equiv> steps_from f [0..<n]"

lemma steps_from_append:
  "steps_from f (ks @ js) st = Option.bind (steps_from f ks st) (steps_from f js)"
  by (induction ks arbitrary: st) (auto split: bind_splits)

lemma steps_from_one: "steps_from f [n] = f n"
proof
  show "steps_from f [n] st = f n st" for st by (cases "f n st") simp_all
qed

lemma for_range_Suc: "for_range (Suc n) f st = Option.bind (for_range n f st) (f n)"
  by (simp add: steps_from_append steps_from_one)

lemma steps_from_map: "steps_from f (map h ks) st = steps_from (\<lambda>k. f (h k)) ks st"
  by (induction ks arbitrary: st) (auto split: bind_splits)

lemma steps_from_cong: "(\<And>k. k \<in> set ks \<Longrightarrow> f k = g k) \<Longrightarrow> steps_from f ks st = steps_from g ks st"
  by (induction ks arbitrary: st) (auto split: bind_splits)

lemma steps_from_inv:
  assumes "J 0 st" "\<And>k st. k < n \<Longrightarrow> J k st \<Longrightarrow> \<exists>st'. f k st = Some st' \<and> J (Suc k) st'"
  shows "\<exists>st'. for_range n f st = Some st' \<and> J n st'"
  using assms(2)
proof (induction n)
  case (Suc n)
  then obtain st1 where 1: "for_range n f st = Some st1" "J n st1" by auto
  then obtain st2 where "f n st1 = Some st2" "J (Suc n) st2" using Suc.prems by blast
  then show ?case using 1 by (auto simp: steps_from_append)
qed (use assms(1) in simp)

lemma for_range_sum:
  fixes g :: "nat \<Rightarrow> 'a :: comm_monoid_add"
  assumes "\<And>i s. i < n \<Longrightarrow> f i s = Some (s + g i)"
  shows "for_range n f s = Some (s + (\<Sum>i < n. g i))"
  using assms by (induction n) (simp_all add: for_range_Suc add.assoc del: upt_Suc)

section \<open>Indices\<close>

lemma index_less: "i < n \<Longrightarrow> j < m \<Longrightarrow> i * m + j < n * (m :: nat)"
proof -
  assume "i < n" "j < m"
  then have "i * m + j < Suc i * m" by simp
  also have "\<dots> \<le> n * m" using \<open>i < n\<close> by (intro mult_le_mono1) simp
  finally show ?thesis .
qed

lemma index_div: "j < m \<Longrightarrow> (i * m + j) div m = (i :: nat)" by simp

lemma index_mod: "j < m \<Longrightarrow> (i * m + j) mod m = (j :: nat)" by simp

lemma points_union: "(\<Union>j < m. {b + j}) = {b..<b + (m :: nat)}"
proof (intro equalityI subsetI)
  show "p \<in> (\<Union>j < m. {b + j})" if "p \<in> {b..<b + m}" for p
    using that by (intro UN_I[of "p - b"]) auto
qed auto

lemma block_union: "(\<Union>i < n. {b + i * m..<b + i * m + m}) = {b..<b + n * (m :: nat)}"
  by (induction n) (auto simp: lessThan_Suc)

lemma sum_blocks:
  fixes f :: "nat \<Rightarrow> 'a :: comm_monoid_add"
  shows "(\<Sum>k < n * m. f k) = (\<Sum>i < n. \<Sum>j < m. f (i * m + j))"
proof -
  have "sum f {i * m..<i * m + m} = (\<Sum>j < m. f (i * m + j))" for i
    using sum.shift_bounds_nat_ivl[of f 0 "i * m" m] by (simp add: lessThan_atLeast0 add.commute)
  then show ?thesis using sum.nat_group[of f m n] by simp
qed

text \<open>The values of a loop variable that starts at 0 and goes up by \<open>t\<close> below \<open>n\<close>.\<close>

definition starts :: "nat \<Rightarrow> nat \<Rightarrow> nat list" where
  "starts t n = map (\<lambda>x. x * t) [0..<(n + t - 1) div t]"

lemma starts_iff: "0 < t \<Longrightarrow> (x :: nat) < (n + t - 1) div t \<longleftrightarrow> x * t < n"
proof -
  assume "0 < t"
  then have "Suc x \<le> (n + t - 1) div t \<longleftrightarrow> Suc x * t \<le> n + t - 1" by (rule less_eq_div_iff_mult_less_eq)
  then show ?thesis using \<open>0 < t\<close> by (simp add: Suc_le_eq) linarith
qed

lemma set_starts: "0 < t \<Longrightarrow> set (starts t n) = {x * t |x. x * t < n}"
  unfolding starts_def using starts_iff[of t _ n] by (auto simp del: One_nat_def)

section \<open>What a loop of writes changes\<close>

text \<open>\<open>c\<close> with new values at the positions of \<open>S\<close>.\<close>

definition overlay :: "'a list \<Rightarrow> nat set \<Rightarrow> (nat \<Rightarrow> 'a) \<Rightarrow> 'a list" where
  "overlay c S g = map (\<lambda>p. if p \<in> S then g p else c ! p) [0..<length c]"

lemma length_overlay [simp]: "length (overlay c S g) = length c" by (simp add: overlay_def)

lemma nth_overlay: "p < length c \<Longrightarrow> overlay c S g ! p = (if p \<in> S then g p else c ! p)"
  by (simp add: overlay_def)

lemma overlay_empty: "overlay c {} g = c"
  by (simp add: overlay_def map_nth)

lemma overlay_eqI:
  "length d = length c \<Longrightarrow> (\<And>p. p < length c \<Longrightarrow> d ! p = (if p \<in> S then g p else c ! p)) \<Longrightarrow> d = overlay c S g"
  by (auto simp: nth_overlay intro: nth_equalityI)

lemma overlay_overlay: "overlay (overlay c S g) S h = overlay c S h"
  by (rule overlay_eqI) (auto simp: nth_overlay)

lemma overlay_union: "overlay (overlay c S g) T g = overlay c (S \<union> T) g"
  by (rule overlay_eqI) (auto simp: nth_overlay)

lemma overlay_cong: "(\<And>p. p \<in> S \<Longrightarrow> p < length c \<Longrightarrow> g p = h p) \<Longrightarrow> overlay c S g = overlay c S h"
  by (rule overlay_eqI) (auto simp: nth_overlay)

lemma store_overlay: "p < length c \<Longrightarrow> v = g p \<Longrightarrow> store p v c = Some (overlay c {p} g)"
  unfolding store_def by (auto intro!: overlay_eqI simp: nth_list_update)

lemma store_range_overlay:
  assumes "p + length ys \<le> length c" "\<And>j. j < length ys \<Longrightarrow> ys ! j = g (p + j)"
  shows "store_range p ys c = Some (overlay c {p..<p + length ys} g)"
proof -
  have "(take p c @ ys @ drop (p + length ys) c) ! q = (if q \<in> {p..<p + length ys} then g q else c ! q)"
    if "q < length c" for q
    using that assms by (auto simp: nth_append min_def)
  then have "take p c @ ys @ drop (p + length ys) c = overlay c {p..<p + length ys} g"
    using assms(1) by (intro overlay_eqI) auto
  then show ?thesis using assms(1) by (simp add: store_range_def)
qed

lemma for_range_overlay:
  assumes "\<And>i c. i < n \<Longrightarrow> length c = L \<Longrightarrow> f i c = Some (overlay c (S i) g)" "length c = L"
  shows "for_range n f c = Some (overlay c (\<Union>i < n. S i) g)"
  using assms
proof (induction n)
  case (Suc n)
  then have "for_range (Suc n) f c = Some (overlay (overlay c (\<Union>i < n. S i) g) (S n) g)"
    by (simp add: for_range_Suc del: upt_Suc)
  then show ?case by (simp add: overlay_union lessThan_Suc Un_commute del: upt_Suc)
qed (simp add: overlay_empty)

end
