(* ===== verification/Closed_Loop.thy ===== *)
theory Closed_Loop
  imports Tinympc_Ready Arrays
begin

text \<open>
  The two closed-loop simulations of \<open>samples/drone_control/src\<close>: the solver flown on its own model, to a
  hovering point (\<open>main_hover.cpp\<close>) and along a trajectory (\<open>main_tracking.cpp\<close>). The numbers of the
  problem and of the trajectory are headers of constants, and a parameter; \<open>norm\<close> is the library's
  \<open>matnorm\<close>. The contents of uninitialised local vectors are arguments.
\<close>

section \<open>Set-up\<close>

text \<open>The hovering program leaves out two of the transposes.\<close>

definition hover_cache :: "'f matlib \<Rightarrow> 'f problem_data \<Rightarrow> 'f tiny_cache \<Rightarrow> 'f tiny_cache option" where
  "hover_cache K P C = do {
     Kinf \<leftarrow> k_matsetv K (c_Kinf C) (Kinf_data P) NINPUTS nst;
     KinfT \<leftarrow> k_transpose K Kinf (c_KinfT C) NINPUTS nst;
     Pinf \<leftarrow> k_matsetv K (c_Pinf C) (Pinf_data P) nst nst;
     PinfT \<leftarrow> k_transpose K Pinf (c_PinfT C) nst nst;
     Quu_inv \<leftarrow> k_matsetv K (c_Quu_inv C) (Quu_inv_data P) NINPUTS NINPUTS;
     AmBKt \<leftarrow> k_matsetv K (c_AmBKt C) (AmBKt_data P) nst nst;
     coeff_d2p \<leftarrow> k_matsetv K (c_coeff_d2p C) (coeff_d2p_data P) nst NINPUTS;
     Some (C\<lparr>c_Kinf := Kinf, c_KinfT := KinfT, c_Pinf := Pinf, c_PinfT := PinfT, c_Quu_inv := Quu_inv,
       c_AmBKt := AmBKt, c_coeff_d2p := coeff_d2p\<rparr>) }"

definition hover_model :: "'f matlib \<Rightarrow> 'f problem_data \<Rightarrow> 'f tiny_work \<Rightarrow> 'f tiny_work option" where
  "hover_model K P W = do {
     Adyn \<leftarrow> k_matsetv K (w_Adyn W) (Adyn_data P) nst nst;
     Bdyn \<leftarrow> k_matsetv K (w_Bdyn W) (Bdyn_data P) nst NINPUTS;
     BdynT \<leftarrow> k_transpose K Bdyn (w_BdynT W) nst NINPUTS;
     Q \<leftarrow> k_matsetv K (w_Q W) (Q_data P) 1 nst;
     R \<leftarrow> k_matsetv K (w_R W) (R_data P) 1 NINPUTS;
     Some (W\<lparr>w_Adyn := Adyn, w_Bdyn := Bdyn, w_BdynT := BdynT, w_Q := Q, w_R := R\<rparr>) }"

text \<open>The rows of the reference, each from its source; \<open>None\<close> where the source ends.\<close>

fun load_rows :: "'f matlib \<Rightarrow> (nat \<Rightarrow> 'f list option) \<Rightarrow> nat list \<Rightarrow> 'f list \<Rightarrow> 'f list option" where
  "load_rows K row [] M = Some M"
| "load_rows K row (j # js) M = do {
     r \<leftarrow> row j;
     M \<leftarrow> into_vec nst j (\<lambda>p. k_matsetv K p r 1 nst) M;
     load_rows K row js M }"

definition hover_row :: "('f, 'z) mat_float_scheme \<Rightarrow> 'f list" where
  "hover_row F = [f_zero F, f_zero F, f_lit F 5 1] @ replicate 9 (f_zero F)"

definition track_row :: "'f list \<Rightarrow> nat \<Rightarrow> 'f list option" where
  "track_row X i = (if Suc i * nst \<le> length X then Some (slice nst i X) else None)"

definition sim_settings :: "('f, 'z) mat_float_scheme \<Rightarrow> nat \<Rightarrow> 'f tiny_settings" where
  "sim_settings F n = \<lparr>abs_pri_tol = f_lit F 1 3, abs_dua_tol = f_lit F 1 3, max_iter = n, check_termination = 1,
     en_state_bound = True, en_input_bound = True\<rparr>"

definition hover_x0 :: "('f, 'z) mat_float_scheme \<Rightarrow> 'f list" where
  "hover_x0 F = [f_lit F (- 364893626) 10, f_lit F 370428882 10, f_lit F 225366379 9, f_lit F (- 192755080) 9,
     f_lit F (- 191678221) 9, f_lit F (- 221354598) 11, f_lit F 962340916 9, f_lit F (- 409749891) 9,
     f_lit F (- 378764621) 9, f_lit F 750158432 10, f_lit F (- 663581815) 9, f_lit F 671744046 9]"

text \<open>The solver, the simulated state, two temporaries, and the errors printed.\<close>

record 'f plant =
  p_solver :: "'f tiny_solver"
  p_x0 :: "'f list"
  p_v1 :: "'f list"
  p_v2 :: "'f list"
  p_errors :: "'f list"

definition hover_init ::
    "'f matlib \<Rightarrow> ('f, 'z) mat_float_scheme \<Rightarrow> 'f problem_data \<Rightarrow> 'f plant \<Rightarrow> 'f plant option" where
  "hover_init K F P st = (let s = tiny_init F (p_solver st) in do {
     C \<leftarrow> hover_cache K P (sv_cache s\<lparr>c_rho := rho_value P\<rparr>);
     W \<leftarrow> hover_model K P (sv_work s);
     W \<leftarrow> load_bounds K F W;
     Xref \<leftarrow> load_rows K (\<lambda>j. Some (hover_row F)) [0..<NHORIZON] (w_Xref W);
     x0 \<leftarrow> k_matsetv K (p_x0 st) (hover_x0 F) 1 nst;
     Some (st\<lparr>p_solver := s\<lparr>sv_cache := C, sv_work := W\<lparr>w_Xref := Xref\<rparr>, sv_settings := sim_settings F 10\<rparr>, p_x0 := x0\<rparr>) })"

definition track_init ::
    "'f matlib \<Rightarrow> ('f, 'z) mat_float_scheme \<Rightarrow> 'f problem_data \<Rightarrow> 'f list \<Rightarrow> 'f plant \<Rightarrow> 'f plant option" where
  "track_init K F P X st = (let s = tiny_init F (p_solver st) in do {
     C \<leftarrow> load_cache K P (sv_cache s\<lparr>c_rho := rho_value P\<rparr>);
     W \<leftarrow> load_model K P (sv_work s);
     W \<leftarrow> load_bounds K F W;
     Xref \<leftarrow> load_rows K (track_row X) [0..<NHORIZON] (w_Xref W);
     first \<leftarrow> track_row X 0;
     x0 \<leftarrow> k_matsetv K (p_x0 st) first 1 nst;
     Some (st\<lparr>p_solver := s\<lparr>sv_cache := C, sv_work := W\<lparr>w_Xref := Xref\<rparr>, sv_settings := sim_settings F 100\<rparr>, p_x0 := x0\<rparr>) })"

section \<open>The loops\<close>

text \<open>The plant: the model on the state and the first input of the plan.\<close>

definition plant_step :: "'f matlib \<Rightarrow> 'f plant \<Rightarrow> 'f plant option" where
  "plant_step K st = (let W = sv_work (p_solver st) in do {
     v1 \<leftarrow> k_matvec K (w_Adyn W) (p_x0 st) (p_v1 st) nst nst;
     v2 \<leftarrow> k_matvec K (w_Bdyn W) (vec NINPUTS 0 (w_u W)) (p_v2 st) nst NINPUTS;
     x0 \<leftarrow> k_matadd K v1 v2 (p_x0 st) 1 nst;
     Some (st\<lparr>p_x0 := x0, p_v1 := v1, p_v2 := v2\<rparr>) })"

text \<open>The printed distance from the second reference row.\<close>

definition report_error ::
    "'f matlib \<Rightarrow> ('f list \<Rightarrow> nat \<Rightarrow> nat \<Rightarrow> 'f option) \<Rightarrow> 'f plant \<Rightarrow> 'f plant option" where
  "report_error K norm st = do {
     v1 \<leftarrow> k_matsub K (p_x0 st) (vec nst 1 (w_Xref (sv_work (p_solver st)))) (p_v1 st) 1 nst;
     e \<leftarrow> norm v1 1 nst;
     Some (st\<lparr>p_v1 := v1, p_errors := p_errors st @ [e]\<rparr>) }"

definition solve_step :: "'f matlib \<Rightarrow> ('f, 'z) mat_float_scheme \<Rightarrow> 'f plant \<Rightarrow> 'f plant option" where
  "solve_step K F st = do {
     (rc, s) \<leftarrow> mpc_run K F (p_x0 st) (p_solver st);
     Some (st\<lparr>p_solver := s\<rparr>) }"

definition hover_step ::
    "'f matlib \<Rightarrow> ('f, 'z) mat_float_scheme \<Rightarrow> ('f list \<Rightarrow> nat \<Rightarrow> nat \<Rightarrow> 'f option) \<Rightarrow> 'f plant \<Rightarrow> 'f plant option" where
  "hover_step K F norm st = do {
     st \<leftarrow> solve_step K F st;
     st \<leftarrow> plant_step K st;
     report_error K norm st }"

text \<open>The trajectory moves one row a step; its rows go in between two assignments of the solve.\<close>

definition track_step ::
    "'f matlib \<Rightarrow> ('f, 'z) mat_float_scheme \<Rightarrow> ('f list \<Rightarrow> nat \<Rightarrow> nat \<Rightarrow> 'f option) \<Rightarrow> 'f list \<Rightarrow> nat \<Rightarrow> 'f plant \<Rightarrow>
      'f plant option" where
  "track_step K F norm X k st = do {
     st \<leftarrow> report_error K norm st;
     Xref \<leftarrow> load_rows K (\<lambda>j. track_row X (k + j)) [0..<NHORIZON] (w_Xref (sv_work (p_solver st)));
     st \<leftarrow> solve_step K F (st\<lparr>p_solver := (p_solver st)\<lparr>sv_work := (sv_work (p_solver st))\<lparr>w_Xref := Xref\<rparr>\<rparr>\<rparr>);
     plant_step K st }"

definition HOVER_STEPS :: nat where "HOVER_STEPS = 70"
definition TRACK_STEPS :: nat where "TRACK_STEPS = 10"
definition NTOTAL :: nat where "NTOTAL = 301"

definition hover_main ::
    "'f matlib \<Rightarrow> ('f, 'z) mat_float_scheme \<Rightarrow> ('f list \<Rightarrow> nat \<Rightarrow> nat \<Rightarrow> 'f option) \<Rightarrow> 'f problem_data \<Rightarrow> 'f plant \<Rightarrow>
      'f plant option" where
  "hover_main K F norm P st =
     Option.bind (hover_init K F P st) (steps_from (\<lambda>k. hover_step K F norm) [0..<HOVER_STEPS])"

definition track_main ::
    "'f matlib \<Rightarrow> ('f, 'z) mat_float_scheme \<Rightarrow> ('f list \<Rightarrow> nat \<Rightarrow> nat \<Rightarrow> 'f option) \<Rightarrow> 'f problem_data \<Rightarrow> 'f list \<Rightarrow>
      'f plant \<Rightarrow> 'f plant option" where
  "track_main K F norm P X st =
     Option.bind (track_init K F P X st) (steps_from (track_step K F norm X) [0..<TRACK_STEPS])"

section \<open>One step\<close>

text \<open>What a step needs: sizes, and settings under which the solver returns.\<close>

definition plant_ok :: "'f problem_data \<Rightarrow> 'f plant \<Rightarrow> bool" where
  "plant_ok P st \<longleftrightarrow> solver_shape (p_solver st) \<and> 0 < check_termination (sv_settings (p_solver st)) \<and>
     w_Adyn (sv_work (p_solver st)) = Adyn_data P \<and> w_Bdyn (sv_work (p_solver st)) = Bdyn_data P \<and>
     length (p_x0 st) = nst \<and> length (p_v1 st) = nst \<and> length (p_v2 st) = nst"

definition norm_ok :: "('f list \<Rightarrow> nat \<Rightarrow> nat \<Rightarrow> 'f option) \<Rightarrow> bool" where
  "norm_ok norm \<longleftrightarrow> (\<forall>v. length v = nst \<longrightarrow> (\<exists>e. norm v 1 nst = Some e))"

lemma length_transposed: "length (transposed a n m) = m * n"
  by (simp add: transposed_def)

lemma slice_drop: "slice n j (drop (k * n) M) = slice n (k + j) M"
  by (simp add: slice_def algebra_simps)

lemma concat_slices: "concat (map (\<lambda>j. slice n j M) [0..<k]) = take (k * n) M"
proof (induction k)
  case (Suc k)
  then show ?case using take_add[of "k * n" n M] by (simp add: slice_def add.commute)
qed simp

context tiny_kernels
begin

lemma load_rows_append:
  "load_rows K row (is @ js) M = Option.bind (load_rows K row is M) (load_rows K row js)"
  by (induction "is" arbitrary: M) (auto split: bind_splits)

lemma load_rows_eq:
  assumes "\<And>j. j < k \<Longrightarrow> row j = Some (r j) \<and> length (r j) = nst" "k * nst \<le> length M"
  shows "load_rows K row [0..<k] M = Some (concat (map r [0..<k]) @ drop (k * nst) M)"
  using assms
proof (induction k)
  case (Suc k)
  let ?M = "concat (map r [0..<k]) @ drop (k * nst) M"
  have len: "length (concat (map r [0..<j])) = j * nst" if "j \<le> Suc k" for j
    using that Suc.prems(1) by (induction j) auto
  have IH: "load_rows K row [0..<k] M = Some ?M" using Suc by simp
  have r: "row k = Some (r k)" "length (r k) = nst" using Suc.prems(1) by auto
  have "into_vec nst k (\<lambda>p. k_matsetv K p (r k) 1 nst) ?M = Some (put_slice nst k (r k) ?M)"
    using Suc.prems(2) r(2) len[of k] by (intro into_vec_put) (subst kernel_eqs, auto simp: vec_def)
  also have "put_slice nst k (r k) ?M = concat (map r [0..<Suc k]) @ drop (Suc k * nst) M"
    using len[of k] by (simp add: put_slice_def add.commute)
  finally have step: "into_vec nst k (\<lambda>p. k_matsetv K p (r k) 1 nst) ?M =
      Some (concat (map r [0..<Suc k]) @ drop (Suc k * nst) M)" .
  have "load_rows K row [0..<Suc k] M = load_rows K row [k] ?M"
    by (simp only: upt_Suc_append[OF le0] load_rows_append IH Option.bind_lunit)
  then show ?case by (simp only: load_rows.simps r(1) step Option.bind_lunit)
qed simp

text \<open>Solving and moving the plant: the plant lands on the second state of the plan.\<close>

lemma solve_and_move:
  assumes "plant_ok P st"
  shows "\<exists>st1 st2. solve_step K F st = Some st1 \<and> plant_step K st1 = Some st2 \<and> plant_ok P st2 \<and>
    p_errors st2 = p_errors st \<and> p_x0 st2 = slice nst 1 (w_x (sv_work (p_solver st2))) \<and>
    w_Xref (sv_work (p_solver st2)) = w_Xref (sv_work (p_solver st))"
proof -
  let ?s = "p_solver st"
  have s: "solver_shape ?s" "length (p_x0 st) = nst" "0 < check_termination (sv_settings ?s)"
    using assms by (simp_all add: plant_ok_def)
  note run = mpc_run_eq[OF s(1,2)]
  have C: "cache_shape (sv_cache ?s)" using s(1) by (simp add: solver_shape_def)
  obtain rc W' where W': "tiny_solve K F (sv_cache ?s) (sv_settings ?s)
      ((sv_work ?s)\<lparr>w_x := put_slice nst 0 (p_x0 st) (w_x (sv_work ?s)),
        w_y := replicate ((NHORIZON - 1) * NINPUTS) (f_zero F), w_g := replicate (NHORIZON * nst) (f_zero F)\<rparr>) = Some (rc, W')"
    "pass_done (sv_settings ?s) ((sv_work ?s)\<lparr>w_x := put_slice nst 0 (p_x0 st) (w_x (sv_work ?s)),
        w_y := replicate ((NHORIZON - 1) * NINPUTS) (f_zero F), w_g := replicate (NHORIZON * nst) (f_zero F)\<rparr>) W'"
    using tiny_solve_ok[OF C run(1) s(3)] by (elim exE conjE) (rule that)
  let ?st1 = "st\<lparr>p_solver := ?s\<lparr>sv_work := W'\<rparr>\<rparr>"
  have solve: "solve_step K F st = Some ?st1" by (simp add: solve_step_def run(4) W'(1) del: One_nat_def)
  have shape: "work_shape W'" and prob: "problem W' = problem (sv_work ?s)"
    and x: "slice nst 0 (w_x W') = p_x0 st" and dyn: "dynamics W' 0"
    using W'(2) run(2,3) by (simp_all add: pass_done_def tiny_dims)
  let ?v1 = "MV nst nst (w_Adyn W') (p_x0 st)" and ?v2 = "MV nst NINPUTS (w_Bdyn W') (slice NINPUTS 0 (w_u W'))"
  have 1: "k_matvec K (w_Adyn W') (p_x0 st) (p_v1 st) nst nst = Some ?v1"
    using shape s(2) assms by (subst matvec_eq) (auto simp: shape_defs plant_ok_def)
  have 2: "k_matvec K (w_Bdyn W') (vec NINPUTS 0 (w_u W')) (p_v2 st) nst NINPUTS = Some ?v2"
    using shape assms by (subst matvec_eq) (auto simp: shape_defs plant_ok_def vec_def slice_def)
  have 3: "k_matadd K ?v1 ?v2 (p_x0 st) 1 nst = Some (ADD ?v1 ?v2)"
    using s(2) by (subst kernel_eqs) auto
  let ?st2 = "?st1\<lparr>p_x0 := ADD ?v1 ?v2, p_v1 := ?v1, p_v2 := ?v2\<rparr>"
  have move: "plant_step K ?st1 = Some ?st2" by (simp add: plant_step_def 1 2 3 del: One_nat_def)
  have "ADD ?v1 ?v2 = slice nst 1 (w_x W')" using dyn x by (simp add: dynamics_def)
  moreover have "plant_ok P ?st2"
    using assms shape prob C by (auto simp: plant_ok_def solver_shape_def problem_def)
  moreover have "w_Xref W' = w_Xref (sv_work ?s)" using prob by (simp add: problem_def)
  ultimately show ?thesis using solve move by (intro exI[of _ ?st1] exI[of _ ?st2]) simp
qed

lemma report_ok:
  assumes "plant_ok P st" "norm_ok norm"
  shows "\<exists>st'. report_error K norm st = Some st' \<and> plant_ok P st' \<and> length (p_errors st') = Suc (length (p_errors st)) \<and>
    p_x0 st' = p_x0 st \<and> p_solver st' = p_solver st"
proof -
  let ?r = "vec nst 1 (w_Xref (sv_work (p_solver st)))"
  let ?d = "SUB (take nst (p_x0 st)) (take nst ?r)"
  have l: "length (p_x0 st) = nst" "length (p_v1 st) = nst" "length ?r = (NHORIZON - 1) * nst"
    using assms(1) by (auto simp: plant_ok_def solver_shape_def shape_defs vec_def)
  then have "k_matsub K (p_x0 st) ?r (p_v1 st) 1 nst = Some ?d" by (subst kernel_eqs) (auto simp: tiny_dims)
  moreover have "length ?d = nst" using l by (simp add: tiny_dims)
  moreover then obtain e where "norm ?d 1 nst = Some e" using assms(2) unfolding norm_ok_def by blast
  ultimately show ?thesis using assms(1) by (auto simp: report_error_def plant_ok_def)
qed

lemma hover_step_ok:
  assumes "plant_ok P st" "norm_ok norm"
  shows "\<exists>st'. hover_step K F norm st = Some st' \<and> plant_ok P st' \<and> length (p_errors st') = Suc (length (p_errors st)) \<and>
    p_x0 st' = slice nst 1 (w_x (sv_work (p_solver st'))) \<and>
    w_Xref (sv_work (p_solver st')) = w_Xref (sv_work (p_solver st))"
proof -
  obtain st1 st2 where "solve_step K F st = Some st1" "plant_step K st1 = Some st2" "plant_ok P st2"
    "p_errors st2 = p_errors st" "p_x0 st2 = slice nst 1 (w_x (sv_work (p_solver st2)))"
    "w_Xref (sv_work (p_solver st2)) = w_Xref (sv_work (p_solver st))"
    using solve_and_move[OF assms(1)] by blast
  moreover from this obtain st3 where "report_error K norm st2 = Some st3" "plant_ok P st3"
    "length (p_errors st3) = Suc (length (p_errors st2))" "p_x0 st3 = p_x0 st2" "p_solver st3 = p_solver st2"
    using report_ok[OF _ assms(2)] by blast
  ultimately show ?thesis by (simp add: hover_step_def)
qed

lemma track_step_ok:
  assumes "plant_ok P st" "norm_ok norm" "(k + NHORIZON) * nst \<le> length X"
  shows "\<exists>st'. track_step K F norm X k st = Some st' \<and> plant_ok P st' \<and> length (p_errors st') = Suc (length (p_errors st)) \<and>
    p_x0 st' = slice nst 1 (w_x (sv_work (p_solver st'))) \<and>
    w_Xref (sv_work (p_solver st')) = take (NHORIZON * nst) (drop (k * nst) X)"
proof -
  obtain st1 where 1: "report_error K norm st = Some st1" "plant_ok P st1"
    "length (p_errors st1) = Suc (length (p_errors st))" "p_x0 st1 = p_x0 st" "p_solver st1 = p_solver st"
    using report_ok[OF assms(1,2)] by blast
  let ?s = "p_solver st1"
  let ?rows = "take (NHORIZON * nst) (drop (k * nst) X)"
  have l: "length (w_Xref (sv_work ?s)) = NHORIZON * nst"
    using 1(2) by (simp add: plant_ok_def solver_shape_def work_shape_def)
  have row: "track_row X (k + j) = Some (slice nst (k + j) X) \<and> length (slice nst (k + j) X) = nst" if "j < NHORIZON" for j
  proof -
    have "Suc (k + j) * nst \<le> (k + NHORIZON) * nst" using that by (intro mult_right_mono) auto
    then have "Suc (k + j) * nst \<le> length X" using assms(3) by linarith
    then show ?thesis by (simp add: track_row_def slice_length)
  qed
  have "concat (map (\<lambda>j. slice nst (k + j) X) [0..<NHORIZON]) = ?rows"
    using concat_slices[of nst "drop (k * nst) X" NHORIZON] by (simp add: slice_drop)
  then have rows: "load_rows K (\<lambda>j. track_row X (k + j)) [0..<NHORIZON] (w_Xref (sv_work ?s)) = Some ?rows"
    using load_rows_eq[of NHORIZON "\<lambda>j. track_row X (k + j)" "\<lambda>j. slice nst (k + j) X", OF row] l by simp
  let ?st1 = "st1\<lparr>p_solver := ?s\<lparr>sv_work := (sv_work ?s)\<lparr>w_Xref := ?rows\<rparr>\<rparr>\<rparr>"
  have "length ?rows = NHORIZON * nst" using assms(3) by (simp add: algebra_simps)
  moreover have "work_shape (sv_work ?s)" using 1(2) by (simp add: plant_ok_def solver_shape_def)
  ultimately have "work_shape ((sv_work ?s)\<lparr>w_Xref := ?rows\<rparr>)" by (simp add: work_shape_def)
  then have "plant_ok P ?st1" using 1(2) by (simp add: plant_ok_def solver_shape_def)
  then obtain st2 st3 where "solve_step K F ?st1 = Some st2" "plant_step K st2 = Some st3" "plant_ok P st3"
    "p_errors st3 = p_errors ?st1" "p_x0 st3 = slice nst 1 (w_x (sv_work (p_solver st3)))"
    "w_Xref (sv_work (p_solver st3)) = w_Xref (sv_work (p_solver ?st1))"
    using solve_and_move by blast
  then show ?thesis using 1 rows by (simp add: track_step_def)
qed

text \<open>Initialisation.\<close>

lemma hover_cache_shape:
  assumes "cache_shape C" "data_shape P"
  shows "\<exists>C'. hover_cache K P C = Some C' \<and> cache_shape C'"
  using assms by (simp add: hover_cache_def cache_shape_def data_shape_def kernel_eqs length_transposed mult.commute)

lemma hover_model_shape:
  assumes "work_shape W" "data_shape P"
  shows "\<exists>W'. hover_model K P W = Some W' \<and> work_shape W' \<and> w_Adyn W' = Adyn_data P \<and> w_Bdyn W' = Bdyn_data P"
  using assms by (simp add: hover_model_def work_shape_def data_shape_def kernel_eqs length_transposed mult.commute)

lemma hover_init_ok:
  assumes "solver_shape (p_solver st)" "data_shape P" "length (p_x0 st) = nst" "length (p_v1 st) = nst" "length (p_v2 st) = nst"
  shows "\<exists>st'. hover_init K F P st = Some st' \<and> plant_ok P st' \<and> p_errors st' = p_errors st \<and>
    w_Xref (sv_work (p_solver st')) = concat (replicate NHORIZON (hover_row F))"
proof -
  let ?s = "tiny_init F (p_solver st)"
  have sh: "cache_shape (sv_cache ?s\<lparr>c_rho := rho_value P\<rparr>)" "work_shape (sv_work ?s)"
    using tiny_init_shape[OF assms(1)] by (simp_all add: cache_shape_def)
  obtain C where C: "hover_cache K P (sv_cache ?s\<lparr>c_rho := rho_value P\<rparr>) = Some C" "cache_shape C"
    using hover_cache_shape[OF sh(1) assms(2)] by blast
  obtain W where W: "hover_model K P (sv_work ?s) = Some W" "work_shape W" "w_Adyn W = Adyn_data P" "w_Bdyn W = Bdyn_data P"
    using hover_model_shape[OF sh(2) assms(2)] by blast
  obtain W' where W': "load_bounds K F W = Some W'" "work_shape W'" "w_Adyn W' = Adyn_data P" "w_Bdyn W' = Bdyn_data P"
    using load_bounds_eq[OF W(2)] W(2-4) by (auto simp: work_shape_def)
  have l: "length (w_Xref W') = NHORIZON * nst" using W'(2) by (simp add: work_shape_def)
  have rows: "load_rows K (\<lambda>j. Some (hover_row F)) [0..<NHORIZON] (w_Xref W') = Some (concat (replicate NHORIZON (hover_row F)))"
    using load_rows_eq[of NHORIZON "\<lambda>j. Some (hover_row F)" "\<lambda>j. hover_row F" "w_Xref W'"] l
    by (simp add: hover_row_def map_replicate_const tiny_dims)
  have x0: "k_matsetv K (p_x0 st) (hover_x0 F) 1 nst = Some (hover_x0 F)"
    using assms(3) by (subst kernel_eqs) (auto simp: hover_x0_def tiny_dims)
  have "length (concat (replicate NHORIZON (hover_row F))) = NHORIZON * nst"
    by (simp add: length_concat hover_row_def sum_list_replicate tiny_dims)
  then show ?thesis
    using C W(1) W' rows x0 assms(4,5)
    by (simp add: hover_init_def plant_ok_def solver_shape_def work_shape_def sim_settings_def hover_x0_def tiny_dims)
qed

lemma track_init_ok:
  assumes "solver_shape (p_solver st)" "data_shape P" "length (p_x0 st) = nst" "length (p_v1 st) = nst" "length (p_v2 st) = nst"
    and X: "NHORIZON * nst \<le> length X"
  shows "\<exists>st'. track_init K F P X st = Some st' \<and> plant_ok P st' \<and> p_errors st' = p_errors st"
proof -
  let ?s = "tiny_init F (p_solver st)"
  have sh: "cache_shape (sv_cache ?s\<lparr>c_rho := rho_value P\<rparr>)" "work_shape (sv_work ?s)"
    using tiny_init_shape[OF assms(1)] by (simp_all add: cache_shape_def)
  obtain C where C: "load_cache K P (sv_cache ?s\<lparr>c_rho := rho_value P\<rparr>) = Some C" "cache_shape C"
    using load_cache_eq[OF sh(1) assms(2)] assms(2) by (auto simp: cache_shape_def data_shape_def length_transposed mult.commute)
  obtain W where W: "load_model K P (sv_work ?s) = Some W" "work_shape W" "w_Adyn W = Adyn_data P" "w_Bdyn W = Bdyn_data P"
    using load_model_eq[OF sh(2) assms(2)] sh(2) assms(2)
    by (auto simp: work_shape_def data_shape_def length_transposed mult.commute)
  obtain W' where W': "load_bounds K F W = Some W'" "work_shape W'" "w_Adyn W' = Adyn_data P" "w_Bdyn W' = Bdyn_data P"
    using load_bounds_eq[OF W(2)] W(2-4) by (auto simp: work_shape_def)
  have row: "track_row X j = Some (slice nst j X) \<and> length (slice nst j X) = nst" if "j < NHORIZON" for j
  proof -
    have "Suc j * nst \<le> NHORIZON * nst" using that by (intro mult_right_mono) auto
    then have "Suc j * nst \<le> length X" using X by linarith
    then show ?thesis by (simp add: track_row_def slice_length)
  qed
  have l: "length (w_Xref W') = NHORIZON * nst" using W'(2) by (simp add: work_shape_def)
  have rows: "load_rows K (track_row X) [0..<NHORIZON] (w_Xref W') = Some (take (NHORIZON * nst) X)"
    using load_rows_eq[of NHORIZON "track_row X" "\<lambda>j. slice nst j X", OF row] l by (simp add: concat_slices)
  have first: "track_row X 0 = Some (slice nst 0 X)" "length (slice nst 0 X) = nst" using row[of 0] by (simp_all add: tiny_dims)
  have x0: "k_matsetv K (p_x0 st) (slice nst 0 X) 1 nst = Some (slice nst 0 X)"
    using assms(3) first(2) by (subst kernel_eqs) auto
  show ?thesis
    using C W(1) W' rows first x0 assms(4,5) X
    by (simp add: track_init_def plant_ok_def solver_shape_def work_shape_def sim_settings_def)
qed

end

section \<open>The programs\<close>

definition cpu_norm :: "('f, 'z) mat_float_scheme \<Rightarrow> 'f list \<Rightarrow> nat \<Rightarrow> nat \<Rightarrow> 'f option" where
  "cpu_norm F v n m = Some (matnorm_cpu F v n m)"

lemma cpu_norm_ok: "norm_ok (cpu_norm F)" by (simp add: norm_ok_def cpu_norm_def)

definition plant_shape :: "'f plant \<Rightarrow> bool" where
  "plant_shape st \<longleftrightarrow> solver_shape (p_solver st) \<and> length (p_x0 st) = nst \<and> length (p_v1 st) = nst \<and> length (p_v2 st) = nst"

text \<open>
  The hovering simulation returns and flies its plan: with a problem of the declared sizes every one of
  its steps reads and writes within its arrays, one error is printed a step, the reference stays the
  hovering point, and after every number of steps the simulated state is the second state of the plan the
  solver has just made.
\<close>
theorem hover_flies_its_plan:
  assumes "data_shape P" "plant_shape st" "p_errors st = []" "0 < n"
  shows "\<exists>st'. Option.bind (hover_init (cpu_kernels F) F P st)
      (steps_from (\<lambda>k. hover_step (cpu_kernels F) F (cpu_norm F)) [0..<n]) = Some st' \<and>
    length (p_errors st') = n \<and> p_x0 st' = slice nst 1 (w_x (sv_work (p_solver st'))) \<and>
    w_Xref (sv_work (p_solver st')) = concat (replicate NHORIZON (hover_row F))"
proof -
  let ?J = "\<lambda>k st. plant_ok P st \<and> length (p_errors st) = k \<and>
    (0 < k \<longrightarrow> p_x0 st = slice nst 1 (w_x (sv_work (p_solver st)))) \<and>
    w_Xref (sv_work (p_solver st)) = concat (replicate NHORIZON (hover_row F))"
  obtain st0 where 1: "hover_init (cpu_kernels F) F P st = Some st0" "?J 0 st0"
    using cpu_solver.hover_init_ok[of st P F] assms(1-3) by (auto simp: plant_shape_def)
  have "\<exists>st'. hover_step (cpu_kernels F) F (cpu_norm F) st = Some st' \<and> ?J (Suc k) st'" if "?J k st" for k st
    using cpu_solver.hover_step_ok[OF _ cpu_norm_ok, of P st F] that by auto
  then obtain st' where "steps_from (\<lambda>k. hover_step (cpu_kernels F) F (cpu_norm F)) [0..<n] st0 = Some st'" "?J n st'"
    using steps_from_inv[of ?J st0 n "\<lambda>k. hover_step (cpu_kernels F) F (cpu_norm F)", OF 1(2)] by blast
  then show ?thesis using 1(1) assms(4) by auto
qed

text \<open>
  The tracking simulation stays inside its trajectory: with the 301 rows of the header, every one of the
  ten steps reads its ten reference rows from the table, the plant follows the plan, and after step
  \<open>n\<close> the horizon is rows \<open>n - 1\<close> to \<open>n + 8\<close>.
\<close>
theorem tracking_stays_in_table:
  assumes "data_shape P" "plant_shape st" "p_errors st = []" "length X = NTOTAL * nst" "0 < n" "n \<le> TRACK_STEPS"
  shows "\<exists>st'. Option.bind (track_init (cpu_kernels F) F P X st)
      (steps_from (track_step (cpu_kernels F) F (cpu_norm F) X) [0..<n]) = Some st' \<and>
    length (p_errors st') = n \<and> p_x0 st' = slice nst 1 (w_x (sv_work (p_solver st'))) \<and>
    w_Xref (sv_work (p_solver st')) = take (NHORIZON * nst) (drop ((n - 1) * nst) X)"
proof -
  let ?J = "\<lambda>k st. plant_ok P st \<and> length (p_errors st) = k \<and>
    (0 < k \<longrightarrow> p_x0 st = slice nst 1 (w_x (sv_work (p_solver st))) \<and>
      w_Xref (sv_work (p_solver st)) = take (NHORIZON * nst) (drop ((k - 1) * nst) X))"
  obtain st0 where 1: "track_init (cpu_kernels F) F P X st = Some st0" "?J 0 st0"
    using cpu_solver.track_init_ok[of st P X F] assms(1-4) by (auto simp: plant_shape_def tiny_dims NTOTAL_def)
  have "\<exists>st'. track_step (cpu_kernels F) F (cpu_norm F) X k st = Some st' \<and> ?J (Suc k) st'" if "k < n" "?J k st" for k st
  proof -
    have "(k + NHORIZON) * nst \<le> length X" using that(1) assms(4,6) by (simp add: tiny_dims NTOTAL_def TRACK_STEPS_def)
    then show ?thesis using cpu_solver.track_step_ok[OF _ cpu_norm_ok, of P st k X F] that(2) by auto
  qed
  then obtain st' where "steps_from (track_step (cpu_kernels F) F (cpu_norm F) X) [0..<n] st0 = Some st'" "?J n st'"
    using steps_from_inv[of ?J st0 n "track_step (cpu_kernels F) F (cpu_norm F) X", OF 1(2)] by blast
  then show ?thesis using 1(1) assms(5) by auto
qed

definition sim_plant :: "int option plant" where
  "sim_plant = \<lparr>p_solver = sim_solver, p_x0 = replicate 12 (Some 1), p_v1 = replicate 12 (Some 2), p_v2 = replicate 12 (Some 3),
     p_errors = []\<rparr>"

lemma sim_plant_shape: "plant_shape sim_plant" "p_errors sim_plant = []"
  using sim_shapes(2) by (simp_all add: plant_shape_def sim_plant_def tiny_dims)

theorem hover_flies_its_plan_witness:
  "\<exists>st. hover_main (cpu_kernels sim_mat) sim_mat (cpu_norm sim_mat) sim_problem sim_plant = Some st \<and>
     length (p_errors st) = 70"
proof -
  have "0 < HOVER_STEPS" by (simp add: HOVER_STEPS_def)
  from hover_flies_its_plan[OF sim_shapes(1) sim_plant_shape this, of sim_mat] show ?thesis
    unfolding hover_main_def HOVER_STEPS_def by blast
qed

theorem tracking_stays_in_table_witness:
  "\<exists>st. track_main (cpu_kernels sim_mat) sim_mat (cpu_norm sim_mat) sim_problem (replicate 3612 (Some 1)) sim_plant = Some st \<and>
     length (p_errors st) = 10"
proof -
  have "length (replicate 3612 (Some (1::int))) = NTOTAL * nst" "0 < TRACK_STEPS"
    by (simp_all add: NTOTAL_def tiny_dims TRACK_STEPS_def)
  from tracking_stays_in_table[OF sim_shapes(1) sim_plant_shape this order_refl, of sim_mat] show ?thesis
    unfolding track_main_def TRACK_STEPS_def by blast
qed

end
