(* ===== verification/Matmul_Tiles.thy ===== *)
theory Matmul_Tiles
  imports Matlib_Rvv Arrays
begin

text \<open>
  Tiled matrix products: the kernel \<open>matmul_rvvt\<close> and the tiled \<open>matmul_rvv\<close> of the samples'
  \<open>data/matlib_rvv.h\<close>, which takes the second matrix by columns, and the kernel of
  \<open>samples/tiled_matmul_mt\<close> and \<open>samples/tiled_matmul_mt_pool\<close>, which takes it by rows. Then the programs
  that give each of four threads one tile: \<open>tiled_matmul_mt/src/main.cpp\<close> and
  \<open>tiled_eigen_mt/src/main.cpp\<close>. A thread runs from start to end in one step; the thread pool, whose
  threads take turns, has a theory of its own.
\<close>

section \<open>Kernels\<close>

text \<open>The size of a tile that starts at \<open>i\<close>: the last one may be short.\<close>

definition tile_dim :: "nat \<Rightarrow> nat \<Rightarrow> nat \<Rightarrow> nat" where
  "tile_dim i t n = (if i + t \<le> n then t else n mod t)"

text \<open>One element of the tile at \<open>(i, j)\<close>, whose block product is \<open>d\<close>.\<close>

definition tile_cell ::
    "('f, 'z) mat_float_scheme \<Rightarrow> nat \<Rightarrow> nat \<Rightarrow> nat \<Rightarrow> nat \<Rightarrow> (nat \<Rightarrow> nat \<Rightarrow> 'f option) \<Rightarrow> nat \<Rightarrow> nat \<Rightarrow> 'f list \<Rightarrow>
      'f list option" where
  "tile_cell F m i j k d I J c =
     Option.bind (d I J) (\<lambda>s. store_at c ((i + I) * m + (j + J))
       (if k = 0 then s else f_add F (c ! ((i + I) * m + (j + J))) s))"

definition tile_loop ::
    "('f, 'z) mat_float_scheme \<Rightarrow> nat \<Rightarrow> nat \<Rightarrow> nat \<Rightarrow> nat \<Rightarrow> nat \<Rightarrow> nat \<Rightarrow> (nat \<Rightarrow> nat \<Rightarrow> 'f option) \<Rightarrow> 'f list \<Rightarrow> 'f list option" where
  "tile_loop F m i j k N M d c =
     loop2 N M (\<lambda>I J r. Option.bind r (tile_cell F m i j k d I J)) (Some c)"

text \<open>The block products: columns of \<open>b\<close> by a strided load, or \<open>b\<close> already by columns.\<close>

definition row_block ::
    "'f rvv_api \<Rightarrow> ('f, 'z) mat_float_scheme \<Rightarrow> 'f list \<Rightarrow> 'f list \<Rightarrow> nat \<Rightarrow> nat \<Rightarrow> nat \<Rightarrow> nat \<Rightarrow> nat \<Rightarrow> nat \<Rightarrow>
      nat \<Rightarrow> nat \<Rightarrow> 'f option" where
  "row_block V F a b i j k m o_dim O_dim I J =
     dot_loads V F O_dim (\<lambda>l vl. mfl_vle (drop ((i + I) * o_dim + k + l) a) vl)
       (\<lambda>l vl. mfl_vlse (drop ((k + l) * m + (j + J)) b) m vl)"

definition column_block ::
    "'f rvv_api \<Rightarrow> ('f, 'z) mat_float_scheme \<Rightarrow> 'f list \<Rightarrow> 'f list \<Rightarrow> nat \<Rightarrow> nat \<Rightarrow> nat \<Rightarrow> nat \<Rightarrow> nat \<Rightarrow>
      nat \<Rightarrow> nat \<Rightarrow> 'f option" where
  "column_block V F a b i j k o_dim O_dim I J =
     dot_loads V F O_dim (\<lambda>l vl. mfl_vle (drop ((i + I) * o_dim + k + l) a) vl)
       (\<lambda>l vl. mfl_vle (drop ((j + J) * o_dim + k + l) b) vl)"

definition matmul_rvvt ::
    "'f rvv_api \<Rightarrow> ('f, 'z) mat_float_scheme \<Rightarrow> 'f list \<Rightarrow> 'f list \<Rightarrow> 'f list \<Rightarrow> nat \<Rightarrow> nat \<Rightarrow> nat \<Rightarrow> nat \<Rightarrow> nat \<Rightarrow> nat \<Rightarrow> nat \<Rightarrow>
      'f list option" where
  "matmul_rvvt V F a b c i j k n m o_dim t =
     tile_loop F m i j k (tile_dim i t n) (tile_dim j t m) (row_block V F a b i j k m o_dim (tile_dim k t o_dim)) c"

definition lib_matmul_rvvt ::
    "'f rvv_api \<Rightarrow> ('f, 'z) mat_float_scheme \<Rightarrow> 'f list \<Rightarrow> 'f list \<Rightarrow> 'f list \<Rightarrow> nat \<Rightarrow> nat \<Rightarrow> nat \<Rightarrow> nat \<Rightarrow> nat \<Rightarrow> nat \<Rightarrow> nat \<Rightarrow>
      'f list option" where
  "lib_matmul_rvvt V F a b c i j k n m o_dim t =
     tile_loop F m i j k (tile_dim i t n) (tile_dim j t m) (column_block V F a b i j k o_dim (tile_dim k t o_dim)) c"

text \<open>The tiled product; without a tile size it is the plain one.\<close>

definition lib_matmul_rvv ::
    "'f rvv_api \<Rightarrow> ('f, 'z) mat_float_scheme \<Rightarrow> 'f list \<Rightarrow> 'f list \<Rightarrow> 'f list \<Rightarrow> nat \<Rightarrow> nat \<Rightarrow> nat \<Rightarrow> nat option \<Rightarrow>
      'f list option" where
  "lib_matmul_rvv V F a b c n m o_dim tile = (case tile of
     None \<Rightarrow> matmul_rvv V F a b c n m o_dim
   | Some t \<Rightarrow>
       fold (\<lambda>i. fold (\<lambda>j. fold (\<lambda>k r. Option.bind r (\<lambda>c. lib_matmul_rvvt V F a b c i j k n m o_dim t))
         (starts t o_dim)) (starts t m)) (starts t n) (Some c))"

section \<open>The programs\<close>

definition N_CFG :: nat where "N_CFG = 32"
definition nHalf :: nat where "nHalf = N_CFG div 2"
definition NUM_THREADS :: nat where "NUM_THREADS = 4"

text \<open>Thread \<open>tid\<close> of \<open>tiled_matmul_mt\<close>: the block it multiplies is \<open>k % nHalf\<close>.\<close>

definition mt_tile_thread ::
    "'f rvv_api \<Rightarrow> ('f, 'z) mat_float_scheme \<Rightarrow> 'f list \<Rightarrow> 'f list \<Rightarrow> nat \<Rightarrow> 'f list \<Rightarrow> 'f list option" where
  "mt_tile_thread V F a b tid c =
     fold (\<lambda>k r. Option.bind r (\<lambda>c. matmul_rvvt V F a b c (tid div 2 * nHalf) (tid mod 2 * nHalf) (k mod nHalf)
       N_CFG N_CFG N_CFG nHalf)) (starts nHalf N_CFG) (Some c)"

text \<open>Thread \<open>tid\<close> of \<open>tiled_eigen_mt\<close>.\<close>

definition eigen_tile_thread ::
    "'f rvv_api \<Rightarrow> ('f, 'z) mat_float_scheme \<Rightarrow> 'f list \<Rightarrow> 'f list \<Rightarrow> nat \<Rightarrow> 'f list \<Rightarrow> 'f list option" where
  "eigen_tile_thread V F a b tid c =
     lib_matmul_rvvt V F a b c (tid div 2 * nHalf) (tid mod 2 * nHalf) 0 N_CFG N_CFG N_CFG nHalf"

text \<open>The threads in the order they are scheduled, and the check against the expected product.\<close>

fun run_tiles :: "(nat \<Rightarrow> 'f list \<Rightarrow> 'f list option) \<Rightarrow> nat list \<Rightarrow> 'f list \<Rightarrow> 'f list option" where
  "run_tiles thread [] c = Some c"
| "run_tiles thread (tid # ids) c = Option.bind (thread tid c) (run_tiles thread ids)"

definition within :: "('f, 'z) mat_float_scheme \<Rightarrow> 'f list \<Rightarrow> 'f list \<Rightarrow> nat \<Rightarrow> bool" where
  "within F c expected p =
     (let diff = f_sub F (c ! p) (expected ! p)
      in \<not> (f_less F diff (f_lit F (- 1) 1) \<or> f_less F (f_lit F 1 1) diff))"

definition mt_validate :: "('f, 'z) mat_float_scheme \<Rightarrow> 'f list \<Rightarrow> 'f list \<Rightarrow> bool" where
  "mt_validate F c expected \<longleftrightarrow> list_all (\<lambda>i. list_all (\<lambda>j. within F c expected (i * N_CFG + j)) [0..<N_CFG]) [0..<N_CFG]"

text \<open>
  The measured computation window of \<open>tiled_matmul_mt\<close>: the start and the end of the threads, and how the
  report picks one of each. \<open>timing_cycles_get\<close> is the clock driver's, a parameter.
\<close>

record thread_info =
  start_ct :: u64
  end_ct :: u64

definition mt_window :: "(u64 \<Rightarrow> u64 \<Rightarrow> u64) \<Rightarrow> (nat \<Rightarrow> thread_info) \<Rightarrow> u64 \<times> u64" where
  "mt_window cycles_get info =
     fold (\<lambda>i (earliest, latest).
       (if 0 < cycles_get (start_ct (info i)) earliest then start_ct (info i) else earliest,
        if 0 < cycles_get latest (end_ct (info i)) then end_ct (info i) else latest))
       [1..<NUM_THREADS] (start_ct (info 0), end_ct (info 0))"

definition eigen_main ::
    "'f rvv_api \<Rightarrow> ('f, 'z) mat_float_scheme \<Rightarrow> 'f list \<Rightarrow> 'f list \<Rightarrow> 'f list \<Rightarrow> nat list \<Rightarrow> 'f list \<Rightarrow> 'f list \<Rightarrow>
      (bool \<times> 'f list) option" where
  "eigen_main V F a b expected order c diff = do {
     c \<leftarrow> matset_rvv V c (f_zero F) N_CFG N_CFG;
     c \<leftarrow> run_tiles (eigen_tile_thread V F a b) order c;
     diff \<leftarrow> matsub_rvv V F c expected diff N_CFG N_CFG;
     err \<leftarrow> matnorm_rvv V F diff N_CFG N_CFG;
     Some (f_less F err (f_lit F 1 5), c) }"

section \<open>What a tile changes\<close>

lemma fold_cells:
  "distinct ps \<Longrightarrow> \<forall>p \<in> set ps. p < length c \<Longrightarrow>
   fold (\<lambda>p c. c[p := h p (c ! p)]) ps c = overlay c (set ps) (\<lambda>p. h p (c ! p))"
proof (induction ps arbitrary: c)
  case (Cons p ps)
  let ?c = "c[p := h p (c ! p)]"
  have "fold (\<lambda>p c. c[p := h p (c ! p)]) ps ?c = overlay ?c (set ps) (\<lambda>p. h p (?c ! p))"
    using Cons by simp
  also have "\<dots> = overlay c (set (p # ps)) (\<lambda>p. h p (c ! p))"
    using Cons.prems by (intro overlay_eqI) (auto simp: nth_overlay nth_list_update)
  finally show ?case by simp
qed (simp add: overlay_empty)

lemma loop2_product: "loop2 n m f s = fold (\<lambda>(i, j). f i j) (List.product [0..<n] [0..<m]) s"
proof -
  have "fold (\<lambda>(i, j). f i j) (List.product xs ys) s = fold (\<lambda>i. fold (f i) ys) xs s" for xs ys s
    by (induction xs arbitrary: s) (simp_all add: fold_map comp_def)
  then show ?thesis by (simp add: loop2_def)
qed

text \<open>The positions of a tile, and the loop over it.\<close>

definition tile_at :: "nat \<Rightarrow> nat \<Rightarrow> nat \<Rightarrow> nat \<Rightarrow> nat \<Rightarrow> nat set" where
  "tile_at m i j N M = {p. i \<le> p div m \<and> p div m < i + N \<and> j \<le> p mod m \<and> p mod m < j + M}"

lemma cell_pos: "q < m \<Longrightarrow> (r * m + q) div m = (r :: nat) \<and> (r * m + q) mod m = q" by simp

lemma tile_loop_overlay:
  assumes "i + N \<le> n" "j + M \<le> m" "n * m \<le> length c" "\<And>I J. I < N \<Longrightarrow> J < M \<Longrightarrow> d I J = Some (D (i + I) (j + J))"
  shows "tile_loop F m i j k N M d c = Some (overlay c (tile_at m i j N M)
    (\<lambda>p. if k = 0 then D (p div m) (p mod m) else f_add F (c ! p) (D (p div m) (p mod m))))"
proof -
  let ?h = "\<lambda>p x. if k = 0 then D (p div m) (p mod m) else f_add F x (D (p div m) (p mod m))"
  let ?pos = "\<lambda>(I, J). (i + I) * m + (j + J)"
  have bound: "(i + I) * m + (j + J) < length c" if "I < N" "J < M" for I J
  proof -
    have "j + J < m" "i + I < n" using that assms(1,2) by auto
    then show ?thesis using assms(3) transpose_pos[of "j + J" m "i + I" n] by (simp add: mult.commute add.commute)
  qed
  have steps: "fold (\<lambda>(I, J) r. Option.bind r (tile_cell F m i j k d I J)) xs (Some c') =
      Some (fold (\<lambda>p c. c[p := ?h p (c ! p)]) (map ?pos xs) c')"
    if "set xs \<subseteq> {0..<N} \<times> {0..<M}" "length c' = length c" for xs c'
    using that
  proof (induction xs arbitrary: c')
    case (Cons x xs)
    obtain I J where x: "x = (I, J)" "I < N" "J < M" using Cons.prems by (cases x) auto
    have "((i + I) * m + (j + J)) div m = i + I" "((i + I) * m + (j + J)) mod m = j + J"
      using x assms(2) cell_pos[of "j + J" m "i + I"] by auto
    then show ?case using Cons x assms(4)[OF x(2,3)] bound[OF x(2,3)]
      by (simp add: tile_cell_def del: div_mult_self1 div_mult_self2 div_mult_self3 div_mult_self4)
  qed simp
  have inj: "inj_on ?pos ({0..<N} \<times> {0..<M})"
  proof (rule inj_onI)
    fix x y assume xy: "x \<in> {0..<N} \<times> {0..<M}" "y \<in> {0..<N} \<times> {0..<M}" "?pos x = ?pos y"
    obtain I J I' J' where s: "x = (I, J)" "y = (I', J')" by (cases x, cases y) auto
    then have "j + J < m" "j + J' < m" using xy assms(2) by auto
    moreover have "(i + I) * m + (j + J) = (i + I') * m + (j + J')" using xy(3) unfolding s by simp
    ultimately have "i + I = i + I' \<and> j + J = j + J'" by (metis cell_pos)
    then show "x = y" unfolding s by simp
  qed
  have set: "?pos ` ({0..<N} \<times> {0..<M}) = tile_at m i j N M"
  proof (intro equalityI subsetI)
    fix p assume "p \<in> ?pos ` ({0..<N} \<times> {0..<M})"
    then obtain I J where "p = (i + I) * m + (j + J)" "I < N" "J < M" by auto
    then show "p \<in> tile_at m i j N M" using cell_pos[of "j + J" m "i + I"] assms(2) by (simp add: tile_at_def)
  next
    fix p assume "p \<in> tile_at m i j N M"
    then have "p = ?pos (p div m - i, p mod m - j)" "(p div m - i, p mod m - j) \<in> {0..<N} \<times> {0..<M}"
      by (auto simp: tile_at_def)
    then show "p \<in> ?pos ` ({0..<N} \<times> {0..<M})" by blast
  qed
  have "tile_loop F m i j k N M d c =
      Some (fold (\<lambda>p c. c[p := ?h p (c ! p)]) (map ?pos (List.product [0..<N] [0..<M])) c)"
    unfolding tile_loop_def loop2_product by (rule steps) simp_all
  also have "fold (\<lambda>p c. c[p := ?h p (c ! p)]) (map ?pos (List.product [0..<N] [0..<M])) c =
      overlay c (set (map ?pos (List.product [0..<N] [0..<M]))) (\<lambda>p. ?h p (c ! p))"
    using inj bound by (intro fold_cells) (auto simp: distinct_map distinct_product)
  finally show ?thesis using set by simp
qed

section \<open>Products\<close>

text \<open>Every tile ends where the next one starts, the last one at the end.\<close>

lemma tile_end: "0 < t \<Longrightarrow> x * t < n \<Longrightarrow> x * t + tile_dim (x * t) t n = min (Suc x * t) n"
proof (cases "x * t + t \<le> n")
  case False
  assume a: "0 < t" "x * t < n"
  have "n = (n - x * t) + x * t" using a by simp
  moreover have "n - x * t < t" using False a by linarith
  ultimately have "n mod t = n - x * t" by (metis mod_less mod_mult_self1)
  then show ?thesis using False a by (simp add: tile_dim_def min_def)
qed (simp add: tile_dim_def min_def)

lemma fold_overlays:
  assumes "\<And>x c. x \<in> set xs \<Longrightarrow> length c = L \<Longrightarrow> f x (Some c) = Some (overlay c (S x) g)"
  shows "length c = L \<Longrightarrow> fold f xs (Some c) = Some (overlay c (\<Union>x \<in> set xs. S x) g)"
  using assms
proof (induction xs arbitrary: c)
  case (Cons x xs)
  have "fold f (x # xs) (Some c) = fold f xs (Some (overlay c (S x) g))" using Cons.prems by simp
  also have "\<dots> = Some (overlay (overlay c (S x) g) (\<Union>x \<in> set xs. S x) g)" using Cons by simp
  finally show ?case by (simp add: overlay_union)
qed (simp add: overlay_empty)

text \<open>The tiles cover the product.\<close>

lemma tiles_cover:
  assumes "0 < t" "0 < m"
  shows "(\<Union>i \<in> set (starts t n). \<Union>j \<in> set (starts t m). tile_at m i j (tile_dim i t n) (tile_dim j t m)) = {0..<n * m}"
proof (intro equalityI subsetI)
  fix p assume "p \<in> (\<Union>i \<in> set (starts t n). \<Union>j \<in> set (starts t m). tile_at m i j (tile_dim i t n) (tile_dim j t m))"
  then obtain x where x: "x * t < n" "p div m < x * t + tile_dim (x * t) t n"
    by (auto simp: set_starts[OF assms(1)] tile_at_def)
  then have "p div m < n" unfolding tile_end[OF assms(1) x(1)] by simp
  then show "p \<in> {0..<n * m}" using assms(2) by (simp add: div_less_iff_less_mult)
next
  have start: "r div t * t < n \<and> r < r div t * t + tile_dim (r div t * t) t n" if "r < n" for r n
  proof -
    have le: "r div t * t \<le> r" by (rule div_times_less_eq_dividend)
    have lt: "r < Suc (r div t) * t" using assms(1) dividend_less_div_times[of t r] by simp
    have n: "r div t * t < n" using le that by linarith
    show ?thesis using n tile_end[OF assms(1) n] lt that by simp
  qed
  fix p assume "p \<in> {0..<n * m}"
  then have "p div m < n" "p mod m < m" using assms(2) by (simp_all add: less_mult_imp_div_less)
  then have "p \<in> tile_at m (p div m div t * t) (p mod m div t * t)
      (tile_dim (p div m div t * t) t n) (tile_dim (p mod m div t * t) t m)"
    "p div m div t * t \<in> set (starts t n)" "p mod m div t * t \<in> set (starts t m)"
    using start[of "p div m" n] start[of "p mod m" m] div_times_less_eq_dividend
    by (auto simp: set_starts[OF assms(1)] tile_at_def)
  then show "p \<in> (\<Union>i \<in> set (starts t n). \<Union>j \<in> set (starts t m). tile_at m i j (tile_dim i t n) (tile_dim j t m))"
    by blast
qed

definition entry ::
    "('f, 'z) mat_float_scheme \<Rightarrow> (nat \<Rightarrow> 'f list) \<Rightarrow> (nat \<Rightarrow> 'f list) \<Rightarrow> nat \<Rightarrow> nat \<Rightarrow> nat \<Rightarrow> 'f" where
  "entry F X Y m k p = dot_seq F k (X (p div m)) (Y (p mod m))"

lemma matmul_cpu_overlay:
  assumes "n * k \<le> length a" "m * k \<le> length b" "n * m \<le> length c" "0 < m"
  shows "matmul_cpu F a b c n m k = overlay c {0..<n * m} (entry F (\<lambda>r. drop (r * k) a) (\<lambda>q. drop (q * k) b) m k)"
proof -
  let ?g = "entry F (\<lambda>r. drop (r * k) a) (\<lambda>q. drop (q * k) b) m k"
  have cell: "fold (\<lambda>l acc. f_add F acc (f_mul F (a ! (i * k + l)) (b ! (j * k + l)))) [0..<k] (f_zero F) = ?g (i * m + j)"
    if "i < n" "j < m" for i j
  proof -
    have "Suc i * k \<le> n * k" "Suc j * k \<le> m * k" using that by (intro mult_le_mono1, simp)+
    then have "i * k \<le> length a" "j * k \<le> length b" using assms(1,2) by simp_all
    then show ?thesis using that(2) by (simp add: entry_def dot_seq_def)
  qed
  have "matmul_cpu F a b c n m k = loop2 n m (\<lambda>i j c. c[i * m + j := ?g (i * m + j)]) c"
    unfolding matmul_cpu_def loop2_def by (intro List.fold_cong refl ext) (use cell in auto)
  also have "\<dots> = map ?g [0..<n * m] @ drop (n * m) c" by (rule loop2_update[OF assms(3)])
  also have "\<dots> = overlay c {0..<n * m} ?g"
    using assms(3) by (intro overlay_eqI) (auto simp: nth_append)
  finally show ?thesis .
qed

context rvv_exact
begin

text \<open>The product of the first \<open>k\<close> elements of a row and a column goes on with the next block.\<close>

lemma dot_seq_split:
  assumes "k + l \<le> length x" "k + l \<le> length y"
  shows "dot_seq F (k + l) x y = f_add F (dot_seq F k x y) (dot_seq F l (drop k x) (drop k y))"
proof -
  have "map2 (f_mul F) (take (k + l) x) (take (k + l) y) =
      map2 (f_mul F) (take k x) (take k y) @ map2 (f_mul F) (take l (drop k x)) (take l (drop k y))"
    using assms by (simp add: take_add)
  then show ?thesis using assms by (simp add: dot_seq_sum lane_sum_append)
qed

text \<open>One block added to a tile, and all blocks of a tile.\<close>

lemma tile_block:
  assumes t: "0 < t" "x * t < od" and ij: "i + N \<le> n" "j + M \<le> m" "n * m \<le> length c"
    and X: "\<And>r. r < n \<Longrightarrow> od \<le> length (X r)" and Y: "\<And>q. q < m \<Longrightarrow> od \<le> length (Y q)"
    and d: "\<And>I J. I < N \<Longrightarrow> J < M \<Longrightarrow>
      d I J = Some (dot_seq F (tile_dim (x * t) t od) (drop (x * t) (X (i + I))) (drop (x * t) (Y (j + J))))"
    and c: "0 < x \<Longrightarrow> c = overlay c0 (tile_at m i j N M) (entry F X Y m (x * t))"
    and c0: "x = 0 \<Longrightarrow> c = c0" "length c0 = length c"
  shows "tile_loop F m i j (x * t) N M d c =
    Some (overlay c0 (tile_at m i j N M) (entry F X Y m (min (Suc x * t) od)))"
proof -
  let ?T = "tile_at m i j N M" and ?k = "x * t"
  let ?D = "\<lambda>r q. dot_seq F (tile_dim ?k t od) (drop ?k (X r)) (drop ?k (Y q))"
  have "tile_loop F m i j ?k N M d c =
      Some (overlay c ?T (\<lambda>p. if ?k = 0 then ?D (p div m) (p mod m) else f_add F (c ! p) (?D (p div m) (p mod m))))"
    by (rule tile_loop_overlay[OF ij]) (rule d)
  also have "overlay c ?T (\<lambda>p. if ?k = 0 then ?D (p div m) (p mod m) else f_add F (c ! p) (?D (p div m) (p mod m))) =
      overlay c ?T (entry F X Y m (min (Suc x * t) od))"
  proof (rule overlay_cong)
    fix p assume p: "p \<in> ?T" "p < length c"
    then have b: "p div m < n" "p mod m < m" using ij(1,2) by (auto simp: tile_at_def)
    have e: "?k + tile_dim ?k t od = min (Suc x * t) od" by (rule tile_end[OF t])
    then have "dot_seq F (min (Suc x * t) od) (X (p div m)) (Y (p mod m)) =
        f_add F (dot_seq F ?k (X (p div m)) (Y (p mod m))) (?D (p div m) (p mod m))"
      using dot_seq_split[of ?k "tile_dim ?k t od" "X (p div m)" "Y (p mod m)"] X[OF b(1)] Y[OF b(2)] by simp
    moreover have "dot_seq F 0 (X (p div m)) (Y (p mod m)) = f_zero F" by (simp add: dot_seq_def)
    moreover have "c ! p = dot_seq F ?k (X (p div m)) (Y (p mod m))" if "0 < x"
    proof -
      have "c ! p = overlay c0 ?T (entry F X Y m ?k) ! p" using c[OF that] by (rule arg_cong)
      then show ?thesis using p c0(2) by (simp add: nth_overlay entry_def)
    qed
    ultimately show "(if ?k = 0 then ?D (p div m) (p mod m) else f_add F (c ! p) (?D (p div m) (p mod m))) =
        entry F X Y m (min (Suc x * t) od) p"
      using t(1) by (cases "x = 0") (simp_all add: entry_def zero_add)
  qed
  also have "\<dots> = overlay c0 ?T (entry F X Y m (min (Suc x * t) od))"
    using c c0 by (cases "x = 0") (simp, metis overlay_overlay neq0_conv)
  finally show ?thesis .
qed

lemma tile_blocks:
  assumes t: "0 < t" "0 < od" and ij: "i + N \<le> n" "j + M \<le> m" "n * m \<le> length c"
    and X: "\<And>r. r < n \<Longrightarrow> od \<le> length (X r)" and Y: "\<And>q. q < m \<Longrightarrow> od \<le> length (Y q)"
    and d: "\<And>k I J. k < od \<Longrightarrow> k + tile_dim k t od \<le> od \<Longrightarrow> I < N \<Longrightarrow> J < M \<Longrightarrow>
      d k I J = Some (dot_seq F (tile_dim k t od) (drop k (X (i + I))) (drop k (Y (j + J))))"
  shows "fold (\<lambda>k r. Option.bind r (tile_loop F m i j k N M (d k))) (starts t od) (Some c) =
    Some (overlay c (tile_at m i j N M) (entry F X Y m od))"
proof -
  let ?T = "tile_at m i j N M"
  let ?f = "\<lambda>k r. Option.bind r (tile_loop F m i j k N M (d k))"
  have step: "fold ?f (map (\<lambda>x. x * t) [0..<x]) (Some c) =
      Some (if x = 0 then c else overlay c ?T (entry F X Y m (min (x * t) od)))" if "x \<le> (od + t - 1) div t" for x
    using that
  proof (induction x)
    case (Suc x)
    then have lt: "x * t < od" using starts_iff[OF t(1), of x od] by simp
    let ?c = "if x = 0 then c else overlay c ?T (entry F X Y m (x * t))"
    have "tile_loop F m i j (x * t) N M (d (x * t)) ?c = Some (overlay c ?T (entry F X Y m (min (Suc x * t) od)))"
    proof (rule tile_block[where X = X and Y = Y and ?c0.0 = c, OF t(1) lt ij(1,2)])
      show "d (x * t) I J = Some (dot_seq F (tile_dim (x * t) t od) (drop (x * t) (X (i + I))) (drop (x * t) (Y (j + J))))"
        if "I < N" "J < M" for I J using d[OF lt _ that] tile_end[OF t(1) lt] by simp
    qed (use ij(3) X Y in auto)
    then show ?case using Suc lt by (auto simp: min_def)
  qed simp
  have "0 < (od + t - 1) div t" using starts_iff[OF t(1), of 0 od] t(2) by simp
  moreover have "od \<le> (od + t - 1) div t * t"
    using starts_iff[OF t(1), of "(od + t - 1) div t" od] by simp
  ultimately show ?thesis using step[of "(od + t - 1) div t"] by (simp add: starts_def min_def)
qed

text \<open>The block products, where the matrices are large enough.\<close>

lemma column_block_exact:
  assumes "n * od \<le> length a" "m * od \<le> length b" "k + l \<le> od" "i + I < n" "j + J < m"
  shows "column_block V F a b i j k od l I J =
    Some (dot_seq F l (drop k (drop ((i + I) * od) a)) (drop k (drop ((j + J) * od) b)))"
proof -
  have "Suc (i + I) * od \<le> n * od" "Suc (j + J) * od \<le> m * od" using assms(4,5) by (intro mult_le_mono1, simp)+
  then have "(i + I) * od + od \<le> length a" "(j + J) * od + od \<le> length b" using assms(1,2) by simp_all
  then show ?thesis
    unfolding column_block_def using assms(3) by (intro dot_loads_exact) (auto simp: add.commute add.left_commute)
qed

lemma row_block_exact:
  assumes "n * od \<le> length a" "od * m \<le> length b" "k + l \<le> od" "i + I < n" "j + J < m"
  shows "row_block V F a b i j k m od l I J =
    Some (dot_seq F l (drop k (drop ((i + I) * od) a)) (drop k (map (\<lambda>s. b ! (s * m + (j + J))) [0..<od])))"
proof -
  have "Suc (i + I) * od \<le> n * od" using assms(4) by (intro mult_le_mono1) simp
  then have a: "(i + I) * od + od \<le> length a" using assms(1) by simp
  have "mfl_vlse (drop ((k + v) * m + (j + J)) b) m vl =
      Some (take vl (drop v (drop k (map (\<lambda>s. b ! (s * m + (j + J))) [0..<od]))))"
    if "0 < vl" "v + vl \<le> l" for v vl
    using column_lanes[OF assms(2,5), of vl "k + v"] that assms(3) by (simp add: add.commute)
  then show ?thesis
    unfolding row_block_def using assms(3) a
    by (intro dot_loads_exact) (auto simp: add.commute add.left_commute)
qed

lemma tiled_exact:
  assumes "0 < t" "0 < od" "0 < m" "n * od \<le> length a" "m * od \<le> length b" "n * m \<le> length c"
  shows "lib_matmul_rvv V F a b c n m od (Some t) = Some (matmul_cpu F a b c n m od)"
proof -
  let ?X = "\<lambda>r. drop (r * od) a" and ?Y = "\<lambda>q. drop (q * od) b"
  let ?g = "entry F ?X ?Y m od"
  let ?T = "\<lambda>i j. tile_at m i j (tile_dim i t n) (tile_dim j t m)"
  let ?k = "\<lambda>i j. fold (\<lambda>k r. Option.bind r (\<lambda>c. lib_matmul_rvvt V F a b c i j k n m od t)) (starts t od)"
  have len: "od \<le> length (?X r)" if "r < n" for r
  proof -
    have "Suc r * od \<le> n * od" using that by (intro mult_le_mono1) simp
    then show ?thesis using assms(4) by simp
  qed
  have len': "od \<le> length (?Y q)" if "q < m" for q
  proof -
    have "Suc q * od \<le> m * od" using that by (intro mult_le_mono1) simp
    then show ?thesis using assms(5) by simp
  qed
  have fits: "i + tile_dim i t n \<le> n" if "i \<in> set (starts t n)" for i n
    using that tile_end[OF assms(1)] by (auto simp: set_starts[OF assms(1)])
  have tile: "?k i j (Some c') = Some (overlay c' (?T i j) ?g)"
    if ij: "i \<in> set (starts t n)" "j \<in> set (starts t m)" and c': "length c' = length c" for i j c'
  proof -
    have "fold (\<lambda>k r. Option.bind r (tile_loop F m i j k (tile_dim i t n) (tile_dim j t m)
        (column_block V F a b i j k od (tile_dim k t od)))) (starts t od) (Some c') = Some (overlay c' (?T i j) ?g)"
    proof (rule tile_blocks[where n = n, OF assms(1,2) fits[OF ij(1)] fits[OF ij(2)] _ len len'])
      show "column_block V F a b i j k od (tile_dim k t od) I J =
          Some (dot_seq F (tile_dim k t od) (drop k (?X (i + I))) (drop k (?Y (j + J))))"
        if "k + tile_dim k t od \<le> od" "I < tile_dim i t n" "J < tile_dim j t m" for k I J
        using that fits[OF ij(1)] fits[OF ij(2)] by (intro column_block_exact[OF assms(4,5) that(1)]) auto
    qed (use assms(6) c' in auto)
    then show ?thesis by (simp add: lib_matmul_rvvt_def[abs_def])
  qed
  have row: "fold (\<lambda>j. ?k i j) (starts t m) (Some c') = Some (overlay c' (\<Union>j \<in> set (starts t m). ?T i j) ?g)"
    if "i \<in> set (starts t n)" "length c' = length c" for i c'
    by (rule fold_overlays[where L = "length c"]) (use that tile in auto)
  have "fold (\<lambda>i. fold (\<lambda>j. ?k i j) (starts t m)) (starts t n) (Some c) =
      Some (overlay c (\<Union>i \<in> set (starts t n). \<Union>j \<in> set (starts t m). ?T i j) ?g)"
    by (rule fold_overlays[where L = "length c"]) (use row in auto)
  then show ?thesis
    unfolding lib_matmul_rvv_def tiles_cover[OF assms(1,3)] matmul_cpu_overlay[OF assms(4-6,3)] by simp
qed

end

section \<open>Results\<close>

text \<open>
  C24: Tiling does not change the product. Where addition is exact, and on a vector unit that keeps its tail
  lanes, the tiled product is the product of the scalar kernel for every size of the matrices and every
  tile size, also one that does not divide them.
\<close>
theorem tiled_product_exact:
  assumes "rvv_exact V F" "0 < t" "0 < od" "0 < m" "n * od \<le> length a" "m * od \<le> length b" "n * m \<le> length c"
  shows "lib_matmul_rvv V F a b c n m od (Some t) = Some (matmul_cpu F a b c n m od) \<and>
    lib_matmul_rvv V F a b c n m od None = Some (matmul_cpu F a b c n m od)"
  using rvv_exact.tiled_exact[OF assms] rvv_exact.matmul_rvv_exact[OF assms(1,5-7)] by (simp add: lib_matmul_rvv_def)

theorem tiled_product_exact_witness:
  "lib_matmul_rvv (sim_rvv (\<lambda>x. x)) sim_mat (map Some [1000000, 2000000, 3000000, 4000000, 5000000, 6000000])
     (map Some [1, 10, 100, 2, 20, 200]) [None, None, None, None] 2 2 3 (Some 2) =
   Some [Some 321, Some 642, Some 654, Some 1308]"
proof -
  have cpu: "matmul_cpu sim_mat (map Some [1000000, 2000000, 3000000, 4000000, 5000000, 6000000])
     (map Some [1, 10, 100, 2, 20, 200]) [None, None, None, None] 2 2 3 = [Some 321, Some 642, Some 654, Some 1308]"
    by code_simp
  show ?thesis
    using tiled_product_exact[OF sim_unit_exact.rvv_exact_axioms, of 2 3 2 2 "map Some [1000000, 2000000, 3000000, 4000000, 5000000, 6000000]"
        "map Some [1, 10, 100, 2, 20, 200]" "[None, None, None, None]"] cpu by simp
qed

text \<open>The four tiles of the programs cover their matrix.\<close>

lemma program_dims: "N_CFG = 32" "nHalf = 16" "tile_dim 0 16 32 = 16" "tile_dim 16 16 32 = 16"
  by (simp_all add: N_CFG_def nHalf_def tile_dim_def)

lemma thread_tile:
  fixes tid :: nat
  assumes "tid < NUM_THREADS"
  shows "tid div 2 * nHalf + nHalf \<le> N_CFG \<and> tid mod 2 * nHalf + nHalf \<le> N_CFG \<and>
    tile_dim (tid div 2 * nHalf) nHalf N_CFG = nHalf \<and> tile_dim (tid mod 2 * nHalf) nHalf N_CFG = nHalf"
proof -
  have "tid div 2 \<le> 1" "tid mod 2 \<le> 1" using assms by (simp_all add: NUM_THREADS_def)
  then show ?thesis by (simp add: program_dims tile_dim_def)
qed

definition thread_cells :: "nat \<Rightarrow> nat set" where
  "thread_cells tid = tile_at N_CFG (tid div 2 * nHalf) (tid mod 2 * nHalf) nHalf nHalf"

lemma block_of: "i * 16 \<le> x \<and> x < i * 16 + 16 \<longleftrightarrow> x div 16 = (i :: nat)"
  by auto

lemma thread_cells_iff:
  "p \<in> thread_cells tid \<longleftrightarrow> p div 32 div 16 = tid div 2 \<and> p mod 32 div 16 = tid mod 2"
  using block_of[of "tid div 2" "p div 32"] block_of[of "tid mod 2" "p mod 32"]
  unfolding thread_cells_def tile_at_def program_dims mem_Collect_eq by blast

lemma threads_cover:
  assumes "set ids = {0..<NUM_THREADS}"
  shows "(\<Union>tid \<in> set ids. thread_cells tid) = {0..<N_CFG * N_CFG}"
proof -
  have half: "p div 32 div 16 < 2 \<longleftrightarrow> p < 1024" for p :: nat
    using div_mult2_eq[of p 32 16] by (simp add: div_less_iff_less_mult)
  have cell: "(\<exists>tid < 4. p div 32 div 16 = tid div 2 \<and> p mod 32 div 16 = tid mod 2) \<longleftrightarrow> p < 1024" for p :: nat
  proof
    assume "\<exists>tid < 4. p div 32 div 16 = tid div 2 \<and> p mod 32 div 16 = tid mod 2"
    then obtain tid :: nat where "tid < 4" "p div 32 div 16 = tid div 2" by blast
    then show "p < 1024" unfolding half[symmetric] by simp
  next
    assume "p < 1024"
    then obtain x y where xy: "x = p div 32 div 16" "y = p mod 32 div 16" "x < 2" "y < 2"
      using half[of p] by simp
    then have "x * 2 + y < 4" "(x * 2 + y) div 2 = x" "(x * 2 + y) mod 2 = y" by auto
    then show "\<exists>tid < 4. p div 32 div 16 = tid div 2 \<and> p mod 32 div 16 = tid mod 2" using xy(1,2) by metis
  qed
  have "(\<Union>tid \<in> set ids. thread_cells tid) = {p. \<exists>tid < 4. p div 32 div 16 = tid div 2 \<and> p mod 32 div 16 = tid mod 2}"
    unfolding assms NUM_THREADS_def by (auto simp: thread_cells_iff)
  also have "\<dots> = {0..<1024}" unfolding cell by auto
  finally show ?thesis by (simp add: N_CFG_def)
qed

lemma run_tiles_fold: "run_tiles thread ids c = fold (\<lambda>tid r. Option.bind r (thread tid)) ids (Some c)"
proof (induction ids arbitrary: c)
  case (Cons tid ids)
  have "fold (\<lambda>tid r. Option.bind r (thread tid)) xs None = None" for xs by (induction xs) auto
  then show ?case using Cons by (cases "thread tid c") auto
qed simp

lemma run_tiles_overlay:
  assumes "\<And>tid c. tid < NUM_THREADS \<Longrightarrow> length c = N_CFG * N_CFG \<Longrightarrow> thread tid c = Some (overlay c (thread_cells tid) g)"
    and "set ids = {0..<NUM_THREADS}" "length c = N_CFG * N_CFG"
  shows "run_tiles thread ids c = Some (map g [0..<N_CFG * N_CFG])"
proof -
  have "fold (\<lambda>tid r. Option.bind r (thread tid)) ids (Some c) = Some (overlay c (\<Union>tid \<in> set ids. thread_cells tid) g)"
    by (rule fold_overlays[where L = "N_CFG * N_CFG"]) (use assms in auto)
  also have "overlay c (\<Union>tid \<in> set ids. thread_cells tid) g = map g [0..<N_CFG * N_CFG]"
    using assms(3) unfolding threads_cover[OF assms(2)] by (simp add: overlay_def)
  finally show ?thesis by (simp add: run_tiles_fold)
qed

definition column_of :: "'f list \<Rightarrow> nat \<Rightarrow> 'f list" where
  "column_of b q = map (\<lambda>s. b ! (s * N_CFG + q)) [0..<N_CFG]"

lemma row_room: "r < N_CFG \<Longrightarrow> N_CFG \<le> N_CFG * N_CFG - r * N_CFG"
  by (simp add: program_dims)

context rvv_exact
begin

text \<open>Block \<open>0\<close> of a tile, by either kernel: whatever was in the tile, the first half of the products.\<close>

lemma mt_thread_half:
  assumes "length a = N_CFG * N_CFG" "length b = N_CFG * N_CFG" "length c = N_CFG * N_CFG" "tid < NUM_THREADS"
  shows "mt_tile_thread V F a b tid c =
    Some (overlay c (thread_cells tid) (entry F (\<lambda>r. drop (r * N_CFG) a) (column_of b) N_CFG nHalf))"
proof -
  let ?g = "entry F (\<lambda>r. drop (r * N_CFG) a) (column_of b) N_CFG nHalf"
  note t = thread_tile[OF assms(4)]
  have half: "matmul_rvvt V F a b c' (tid div 2 * nHalf) (tid mod 2 * nHalf) 0 N_CFG N_CFG N_CFG nHalf =
      Some (overlay c' (thread_cells tid) ?g)" if "length c' = N_CFG * N_CFG" for c'
  proof -
    have "tile_loop F N_CFG (tid div 2 * nHalf) (tid mod 2 * nHalf) (0 * nHalf) nHalf nHalf
        (row_block V F a b (tid div 2 * nHalf) (tid mod 2 * nHalf) 0 N_CFG N_CFG nHalf) c' =
      Some (overlay c' (tile_at N_CFG (tid div 2 * nHalf) (tid mod 2 * nHalf) nHalf nHalf)
        (entry F (\<lambda>r. drop (r * N_CFG) a) (column_of b) N_CFG (min (Suc 0 * nHalf) N_CFG)))"
    proof (rule tile_block[where n = N_CFG and X = "\<lambda>r. drop (r * N_CFG) a" and Y = "column_of b"])
      show "row_block V F a b (tid div 2 * nHalf) (tid mod 2 * nHalf) 0 N_CFG N_CFG nHalf I J =
          Some (dot_seq F (tile_dim (0 * nHalf) nHalf N_CFG) (drop (0 * nHalf) (drop ((tid div 2 * nHalf + I) * N_CFG) a))
            (drop (0 * nHalf) (column_of b (tid mod 2 * nHalf + J))))" if "I < nHalf" "J < nHalf" for I J
        using row_block_exact[of N_CFG N_CFG a N_CFG b 0 nHalf "tid div 2 * nHalf" I "tid mod 2 * nHalf" J]
          assms(1,2) t that program_dims by (simp add: column_of_def)
    qed (use t assms(1) that program_dims in \<open>auto simp: column_of_def row_room\<close>)
    then show ?thesis using t program_dims by (simp add: matmul_rvvt_def thread_cells_def)
  qed
  have "starts nHalf N_CFG = [0, nHalf]" by (simp add: starts_def program_dims upt_conv_Cons)
  then show ?thesis using half assms(3) by (simp add: mt_tile_thread_def overlay_overlay)
qed

lemma eigen_thread_half:
  assumes "length a = N_CFG * N_CFG" "length b = N_CFG * N_CFG" "length c = N_CFG * N_CFG" "tid < NUM_THREADS"
  shows "eigen_tile_thread V F a b tid c = Some (overlay c (thread_cells tid)
    (entry F (\<lambda>r. drop (r * N_CFG) a) (\<lambda>q. drop (q * N_CFG) b) N_CFG nHalf))"
proof -
  note t = thread_tile[OF assms(4)]
  let ?Y = "\<lambda>q. drop (q * N_CFG) b"
  have "tile_loop F N_CFG (tid div 2 * nHalf) (tid mod 2 * nHalf) (0 * nHalf) nHalf nHalf
      (column_block V F a b (tid div 2 * nHalf) (tid mod 2 * nHalf) 0 N_CFG nHalf) c =
    Some (overlay c (tile_at N_CFG (tid div 2 * nHalf) (tid mod 2 * nHalf) nHalf nHalf)
      (entry F (\<lambda>r. drop (r * N_CFG) a) ?Y N_CFG (min (Suc 0 * nHalf) N_CFG)))"
  proof (rule tile_block[where n = N_CFG and X = "\<lambda>r. drop (r * N_CFG) a" and Y = ?Y])
    show "column_block V F a b (tid div 2 * nHalf) (tid mod 2 * nHalf) 0 N_CFG nHalf I J =
        Some (dot_seq F (tile_dim (0 * nHalf) nHalf N_CFG) (drop (0 * nHalf) (drop ((tid div 2 * nHalf + I) * N_CFG) a))
          (drop (0 * nHalf) (?Y (tid mod 2 * nHalf + J))))" if "I < nHalf" "J < nHalf" for I J
      using column_block_exact[of N_CFG N_CFG a N_CFG b 0 nHalf "tid div 2 * nHalf" I "tid mod 2 * nHalf" J]
        assms(1,2) t that program_dims by simp
  qed (use t assms program_dims in \<open>auto simp: row_room\<close>)
  then show ?thesis using t program_dims by (simp add: eigen_tile_thread_def lib_matmul_rvvt_def thread_cells_def)
qed

end

text \<open>
  C40: Both programs compute half of the products. Each thread of \<open>tiled_eigen_mt\<close> multiplies the first
  block only, and each thread of \<open>tiled_matmul_mt\<close> takes \<open>k % nHalf\<close>, 0 in both its rounds, and
  overwrites its tile with the same first block. Where addition is exact and on a vector unit that keeps
  its tail lanes (the hypothesis \<open>rvv_exact\<close>: with rounding, or tail lanes overwritten, the sums are the
  unit's), for 32 x 32 matrices and the four threads in any order, each entry ends as the product of the
  first 16 of the 32 elements of its row and column, and no access leaves the matrices.
\<close>
theorem half_of_the_product:
  assumes "rvv_exact V F" "length a = N_CFG * N_CFG" "length b = N_CFG * N_CFG" "length c = N_CFG * N_CFG"
    and "set ids = {0..<NUM_THREADS}"
  shows "run_tiles (mt_tile_thread V F a b) ids c =
      Some (map (\<lambda>p. dot_seq F 16 (drop (p div 32 * 32) a) (map (\<lambda>s. b ! (s * 32 + p mod 32)) [0..<32])) [0..<1024]) \<and>
    run_tiles (eigen_tile_thread V F a b) ids c =
      Some (map (\<lambda>p. dot_seq F 16 (drop (p div 32 * 32) a) (drop (p mod 32 * 32) b)) [0..<1024])"
  using run_tiles_overlay[OF rvv_exact.mt_thread_half[OF assms(1-3)] assms(5,4)]
    run_tiles_overlay[OF rvv_exact.eigen_thread_half[OF assms(1-3)] assms(5,4)]
  by (simp add: entry_def column_of_def program_dims)

lemma dot_seq_constant:
  "k \<le> n \<Longrightarrow> k \<le> n' \<Longrightarrow> dot_seq F k (replicate n x) (replicate n' y) = dot_seq F k (replicate k x) (replicate k y)"
  unfolding dot_seq_def by (rule List.fold_cong) auto

theorem half_of_the_product_witness:
  "run_tiles (eigen_tile_thread (sim_rvv (\<lambda>x. x)) sim_mat (replicate 1024 (Some 1000000)) (replicate 1024 (Some 1000000)))
     [2, 0, 3, 1] (replicate 1024 (Some 0)) = Some (replicate 1024 (Some 16000000))"
proof -
  let ?a = "replicate 1024 (Some (1000000 :: int))"
  have "run_tiles (eigen_tile_thread (sim_rvv (\<lambda>x. x)) sim_mat ?a ?a) [2, 0, 3, 1] (replicate 1024 (Some 0)) =
    Some (map (\<lambda>p. dot_seq sim_mat 16 (drop (p div 32 * 32) ?a) (drop (p mod 32 * 32) ?a)) [0..<1024])"
    by (rule half_of_the_product[OF sim_unit_exact.rvv_exact_axioms, THEN conjunct2])
      (auto simp: program_dims NUM_THREADS_def)
  also have "map (\<lambda>p. dot_seq sim_mat 16 (drop (p div 32 * 32) ?a) (drop (p mod 32 * 32) ?a)) [0..<1024] =
      map (\<lambda>p. Some 16000000) [0..<1024]"
  proof (rule map_cong[OF refl])
    fix p :: nat assume "p \<in> set [0..<1024]"
    then have "p div 32 < 32" "p mod 32 < 32" by auto
    then have "16 \<le> 1024 - p div 32 * 32" "16 \<le> 1024 - p mod 32 * 32" by linarith+
    then have "dot_seq sim_mat 16 (drop (p div 32 * 32) ?a) (drop (p mod 32 * 32) ?a) =
        dot_seq sim_mat 16 (replicate 16 (Some 1000000)) (replicate 16 (Some 1000000))"
      unfolding drop_replicate by (rule dot_seq_constant)
    also have "\<dots> = Some 16000000" by code_simp
    finally show "dot_seq sim_mat 16 (drop (p div 32 * 32) ?a) (drop (p mod 32 * 32) ?a) = Some 16000000" .
  qed
  finally show ?thesis by (simp add: map_replicate_const)
qed

section \<open>The measured window\<close>

text \<open>
  The window is not from the first start to the last end. A cycle count is unsigned: with a clock whose
  difference wraps, every thread that started at another time counts as an earlier one and every end as a
  later one, so that the report uses the start and the end of the last thread, whatever the others did.
\<close>
theorem window_is_last_thread:
  assumes "\<And>s e. cycles_get s e = e - s"
  shows "mt_window cycles_get info = (start_ct (info 3), end_ct (info 3))"
proof -
  have p: "0 < (x :: u64) - y \<longleftrightarrow> x \<noteq> y" for x y by (simp add: word_neq_0_conv[symmetric])
  have "fold (\<lambda>i (earliest, latest).
       (if 0 < cycles_get (start_ct (info i)) earliest then start_ct (info i) else earliest,
        if 0 < cycles_get latest (end_ct (info i)) then end_ct (info i) else latest)) (is @ [k]) st =
     (start_ct (info k), end_ct (info k))" for "is" k st
    by (auto simp: assms p split: prod.splits)
  moreover have "[1..<NUM_THREADS] = [1, 2] @ [3]" by (simp add: NUM_THREADS_def upt_rec)
  ultimately show ?thesis unfolding mt_window_def by presburger
qed

text \<open>The first thread started before all others and ended after them: the report misses most of its time.\<close>

theorem window_is_last_thread_witness:
  "mt_window (\<lambda>s e. e - s) (\<lambda>i. if i = 0 then \<lparr>start_ct = 100, end_ct = 900\<rparr> else \<lparr>start_ct = 200, end_ct = 300\<rparr>) = (200, 300)"
  using window_is_last_thread[of "\<lambda>s e. e - s" "\<lambda>i. if i = 0 then \<lparr>start_ct = 100, end_ct = 900\<rparr> else \<lparr>start_ct = 200, end_ct = 300\<rparr>"]
  by simp

end
