(* ===== verification/Matmul_Pool.thy ===== *)
theory Matmul_Pool
  imports Matmul_Tiles
begin

text \<open>
  The thread pool of \<open>samples/tiled_matmul_mt_pool/src/main.cpp\<close> as a step relation: \<open>main\<close>, which runs
  \<open>execute_task\<close> twice, and four workers behind a start and a done semaphore each. Every element a
  worker writes is a step of its own. Time stamps and the empty critical section of the print mutex are
  left out. The tile size is \<open>nHalf\<close> in every call, so that no loop over a tile is empty.
\<close>

section \<open>Steps\<close>

text \<open>Where \<open>main\<close> stands in run \<open>r\<close>: filling in task \<open>i\<close>, starting it, or waiting for it.\<close>

datatype pool_main_pc = M_FILL nat nat | M_START nat nat | M_WAIT nat nat | M_DONE

text \<open>A worker: waiting to be started, at element \<open>(I, J)\<close> of block \<open>k\<close>, or about to report.\<close>

datatype pool_pc = P_TAKE | P_CELL nat nat nat | P_GIVE

text \<open>\<open>thread_tasks\<close>, without the pointers to the matrices, and the product \<open>cells\<close>.\<close>

record 'f pool =
  cells :: "'f list"
  task_i :: "nat \<Rightarrow> nat"
  task_j :: "nat \<Rightarrow> nat"
  task_tile :: "nat \<Rightarrow> nat"
  start_sem :: "nat \<Rightarrow> nat"
  done_sem :: "nat \<Rightarrow> nat"
  pool_main :: pool_main_pc
  pool_worker :: "nat \<Rightarrow> pool_pc"

definition RUNS :: nat where "RUNS = 2"

text \<open>\<open>k_sem_give\<close> on a semaphore of limit 1.\<close>

definition sem_give :: "nat \<Rightarrow> (nat \<Rightarrow> nat) \<Rightarrow> nat \<Rightarrow> nat" where
  "sem_give t sem = sem(t := min 1 (sem t + 1))"

definition execute_task :: "'f pool \<Rightarrow> 'f pool option" where
  "execute_task s = (case pool_main s of
     M_FILL r i \<Rightarrow> Some (s\<lparr>task_tile := (task_tile s)(i := nHalf), task_i := (task_i s)(i := i div 2 * nHalf),
        task_j := (task_j s)(i := i mod 2 * nHalf), pool_main := M_START r i\<rparr>)
   | M_START r i \<Rightarrow> Some (s\<lparr>start_sem := sem_give i (start_sem s),
        pool_main := if i + 1 < NUM_THREADS then M_FILL r (i + 1) else M_WAIT r 0\<rparr>)
   | M_WAIT r i \<Rightarrow>
       if 0 < done_sem s i
       then Some (s\<lparr>done_sem := (done_sem s)(i := done_sem s i - 1),
         pool_main := if i + 1 < NUM_THREADS then M_WAIT r (i + 1) else if r + 1 < RUNS then M_FILL (r + 1) 0 else M_DONE\<rparr>)
       else None
   | M_DONE \<Rightarrow> None)"

text \<open>The element after \<open>(I, J)\<close> of block \<open>k\<close>.\<close>

definition next_cell :: "nat \<Rightarrow> nat \<Rightarrow> nat \<Rightarrow> nat \<Rightarrow> nat \<Rightarrow> nat \<Rightarrow> pool_pc" where
  "next_cell N M t k I J =
     (if J + 1 < M then P_CELL k I (J + 1) else if I + 1 < N then P_CELL k (I + 1) 0
      else if k + t < N_CFG then P_CELL (k + t) 0 0 else P_GIVE)"

definition worker_thread ::
    "'f rvv_api \<Rightarrow> ('f, 'z) mat_float_scheme \<Rightarrow> 'f list \<Rightarrow> 'f list \<Rightarrow> nat \<Rightarrow> 'f pool \<Rightarrow> 'f pool option" where
  "worker_thread V F a b t s = (case pool_worker s t of
     P_TAKE \<Rightarrow>
       if 0 < start_sem s t
       then Some (s\<lparr>start_sem := (start_sem s)(t := start_sem s t - 1), pool_worker := (pool_worker s)(t := P_CELL 0 0 0)\<rparr>)
       else None
   | P_CELL k I J \<Rightarrow>
       (let i = task_i s t; j = task_j s t; tile = task_tile s t in
        map_option (\<lambda>c. s\<lparr>cells := c, pool_worker := (pool_worker s)(t :=
            next_cell (tile_dim i tile N_CFG) (tile_dim j tile N_CFG) tile k I J)\<rparr>)
          (tile_cell F N_CFG i j k (row_block V F a b i j k N_CFG N_CFG (tile_dim k tile N_CFG)) I J (cells s)))
   | P_GIVE \<Rightarrow> Some (s\<lparr>done_sem := sem_give t (done_sem s), pool_worker := (pool_worker s)(t := P_TAKE)\<rparr>))"

definition pool_boot :: "'f list \<Rightarrow> 'f pool" where
  "pool_boot c = \<lparr>cells = c, task_i = (\<lambda>t. 0), task_j = (\<lambda>t. 0), task_tile = (\<lambda>t. 0), start_sem = (\<lambda>t. 0),
     done_sem = (\<lambda>t. 0), pool_main = M_FILL 0 0, pool_worker = (\<lambda>t. P_TAKE)\<rparr>"

inductive pool_step ::
    "'f rvv_api \<Rightarrow> ('f, 'z) mat_float_scheme \<Rightarrow> 'f list \<Rightarrow> 'f list \<Rightarrow> 'f pool \<Rightarrow> 'f pool \<Rightarrow> bool"
  for V F a b where
  main_steps: "execute_task s = Some s' \<Longrightarrow> pool_step V F a b s s'"
| worker_steps: "t < NUM_THREADS \<Longrightarrow> worker_thread V F a b t s = Some s' \<Longrightarrow> pool_step V F a b s s'"

inductive_simps pool_step_iff: "pool_step V F a b s s'"

section \<open>Invariant\<close>

text \<open>What \<open>main\<close> expects of a worker: resting, or at work on the run.\<close>

fun expects :: "pool_main_pc \<Rightarrow> nat \<Rightarrow> bool" where
  "expects (M_FILL r i) t = (t < i)"
| "expects (M_START r i) t = (t < i)"
| "expects (M_WAIT r i) t = (i \<le> t)"
| "expects M_DONE t = False"

text \<open>The run's tile of \<open>t\<close> has been collected.\<close>

fun collected :: "pool_main_pc \<Rightarrow> nat \<Rightarrow> bool" where
  "collected (M_WAIT r i) t = (t < i)"
| "collected M_DONE t = True"
| "collected pc t = False"

lemma expects_not_collected: "expects pc t \<Longrightarrow> \<not> collected pc t"
  by (cases pc) auto

fun main_in_range :: "pool_main_pc \<Rightarrow> bool" where
  "main_in_range (M_FILL r i) = (r < RUNS \<and> i < NUM_THREADS)"
| "main_in_range (M_START r i) = (r < RUNS \<and> i < NUM_THREADS)"
| "main_in_range (M_WAIT r i) = (r < RUNS \<and> i < NUM_THREADS)"
| "main_in_range M_DONE = True"

definition filled :: "'f pool \<Rightarrow> nat \<Rightarrow> bool" where
  "filled s t \<longleftrightarrow> task_i s t = t div 2 * nHalf \<and> task_j s t = t mod 2 * nHalf \<and> task_tile s t = nHalf"

text \<open>The number of a position within its tile, row by row.\<close>

definition cell_index :: "nat \<Rightarrow> nat \<Rightarrow> nat" where
  "cell_index t p = (p div N_CFG - t div 2 * nHalf) * nHalf + (p mod N_CFG - t mod 2 * nHalf)"

text \<open>The tile of \<open>t\<close> with \<open>w\<close> elements of block \<open>k\<close> added; \<open>E k\<close> is the product of the first \<open>k\<close> elements.\<close>

definition tile_at_work :: "(nat \<Rightarrow> nat \<Rightarrow> 'f) \<Rightarrow> 'f list \<Rightarrow> nat \<Rightarrow> nat \<Rightarrow> nat \<Rightarrow> bool" where
  "tile_at_work E c t k w \<longleftrightarrow> (\<forall>p \<in> thread_cells t.
     (cell_index t p < w \<longrightarrow> c ! p = E (k + nHalf) p) \<and> (w \<le> cell_index t p \<longrightarrow> 0 < k \<longrightarrow> c ! p = E k p))"

definition tile_done :: "(nat \<Rightarrow> nat \<Rightarrow> 'f) \<Rightarrow> 'f list \<Rightarrow> nat \<Rightarrow> bool" where
  "tile_done E c t \<longleftrightarrow> (\<forall>p \<in> thread_cells t. c ! p = E N_CFG p)"

text \<open>Where a worker in a run can be, by its semaphores.\<close>

fun phase :: "(nat \<Rightarrow> nat \<Rightarrow> 'f) \<Rightarrow> 'f list \<Rightarrow> nat \<Rightarrow> pool_pc \<Rightarrow> nat \<Rightarrow> nat \<Rightarrow> bool" where
  "phase E c t P_TAKE st dn = (st = 1 \<and> dn = 0 \<or> st = 0 \<and> dn = 1 \<and> tile_done E c t)"
| "phase E c t (P_CELL k I J) st dn = (st = 0 \<and> dn = 0 \<and> k \<in> {0, nHalf} \<and> I < nHalf \<and> J < nHalf \<and>
     tile_at_work E c t k (I * nHalf + J))"
| "phase E c t P_GIVE st dn = (st = 0 \<and> dn = 0 \<and> tile_done E c t)"

definition at_work :: "(nat \<Rightarrow> nat \<Rightarrow> 'f) \<Rightarrow> 'f pool \<Rightarrow> nat \<Rightarrow> bool" where
  "at_work E s t \<longleftrightarrow> filled s t \<and> phase E (cells s) t (pool_worker s t) (start_sem s t) (done_sem s t)"

definition at_rest :: "'f pool \<Rightarrow> nat \<Rightarrow> bool" where
  "at_rest s t \<longleftrightarrow> pool_worker s t = P_TAKE \<and> start_sem s t = 0 \<and> done_sem s t = 0"

definition pool_inv :: "(nat \<Rightarrow> nat \<Rightarrow> 'f) \<Rightarrow> 'f pool \<Rightarrow> bool" where
  "pool_inv E s \<longleftrightarrow> length (cells s) = N_CFG * N_CFG \<and> main_in_range (pool_main s) \<and>
     (\<forall>t < NUM_THREADS. expects (pool_main s) t \<longrightarrow> at_work E s t) \<and>
     (\<forall>t < NUM_THREADS. \<not> expects (pool_main s) t \<longrightarrow> at_rest s t) \<and>
     (\<forall>t < NUM_THREADS. collected (pool_main s) t \<longrightarrow> tile_done E (cells s) t) \<and>
     (\<forall>r i. pool_main s = M_START r i \<longrightarrow> filled s i)"

lemma boot_inv_pool: "length c = N_CFG * N_CFG \<Longrightarrow> pool_inv E (pool_boot c)"
  by (simp add: pool_inv_def pool_boot_def at_rest_def RUNS_def NUM_THREADS_def)

lemma phase_done: "phase E c t pc st dn \<Longrightarrow> 0 < dn \<Longrightarrow> pc = P_TAKE \<and> st = 0 \<and> dn = 1 \<and> tile_done E c t"
  by (cases pc) auto

lemma main_inv_pool:
  assumes "execute_task s = Some s'" "pool_inv E s"
  shows "pool_inv E s'"
proof (cases "pool_main s")
  case (M_FILL r i)
  then show ?thesis using assms
    by (auto simp: execute_task_def pool_inv_def at_work_def at_rest_def filled_def)
next
  case (M_START r i)
  let ?pc = "if i + 1 < NUM_THREADS then M_FILL r (i + 1) else M_WAIT r 0"
  have s': "s' = s\<lparr>start_sem := sem_give i (start_sem s), pool_main := ?pc\<rparr>"
    using assms(1) M_START by (simp add: execute_task_def)
  have i: "r < RUNS" "i < NUM_THREADS" "filled s i" "at_rest s i" using assms(2) M_START by (auto simp: pool_inv_def)
  have other: "at_work E s' t = at_work E s t" "at_rest s' t = at_rest s t" if "t \<noteq> i" for t
    using that by (simp_all add: s' at_work_def at_rest_def filled_def sem_give_def)
  have me: "at_work E s' i" using i by (simp add: s' at_work_def at_rest_def filled_def sem_give_def)
  have "expects ?pc t \<longleftrightarrow> t = i \<or> t < i" if "t < NUM_THREADS" for t using that i(2) by auto
  then have "at_work E s' t" if "t < NUM_THREADS" "expects ?pc t" for t
    using that other[of t] me assms(2) M_START by (cases "t = i") (auto simp: pool_inv_def)
  moreover have "at_rest s' t" if "t < NUM_THREADS" "\<not> expects ?pc t" for t
    using that other[of t] assms(2) M_START \<open>\<And>t. t < NUM_THREADS \<Longrightarrow> expects ?pc t \<longleftrightarrow> t = i \<or> t < i\<close>[of t]
    by (auto simp: pool_inv_def)
  moreover have "\<not> collected ?pc t" for t by simp
  moreover have "main_in_range ?pc" using i(1) by (simp add: NUM_THREADS_def)
  ultimately show ?thesis using assms(2) unfolding pool_inv_def by (simp add: s')
next
  case (M_WAIT r i)
  let ?pc = "if i + 1 < NUM_THREADS then M_WAIT r (i + 1) else if r + 1 < RUNS then M_FILL (r + 1) 0 else M_DONE"
  have s': "s' = s\<lparr>done_sem := (done_sem s)(i := done_sem s i - 1), pool_main := ?pc\<rparr>" and d: "0 < done_sem s i"
    using assms(1) M_WAIT by (auto simp: execute_task_def split: if_splits)
  have i: "r < RUNS" "i < NUM_THREADS" "at_work E s i" using assms(2) M_WAIT by (auto simp: pool_inv_def)
  have ph: "pool_worker s i = P_TAKE" "start_sem s i = 0" "done_sem s i = 1" "tile_done E (cells s) i"
    using phase_done[OF _ d, of E "cells s" i "pool_worker s i" "start_sem s i"] i(3) by (auto simp: at_work_def)
  have other: "at_work E s' t = at_work E s t" "at_rest s' t = at_rest s t" if "t \<noteq> i" for t
    using that by (simp_all add: s' at_work_def at_rest_def filled_def)
  have me: "at_rest s' i" using ph by (simp add: s' at_rest_def)
  have ex: "expects ?pc t \<longleftrightarrow> i < t" "collected ?pc t \<Longrightarrow> t \<le> i" if "t < NUM_THREADS" for t
    using that i(2) by (auto split: if_splits)
  have "at_work E s' t" if "t < NUM_THREADS" "expects ?pc t" for t
    using that ex(1)[OF that(1)] other[of t] assms(2) M_WAIT by (auto simp: pool_inv_def)
  moreover have "at_rest s' t" if "t < NUM_THREADS" "\<not> expects ?pc t" for t
    using that ex(1)[OF that(1)] other[of t] me assms(2) M_WAIT by (cases "t = i") (auto simp: pool_inv_def)
  moreover have "tile_done E (cells s) t" if "t < NUM_THREADS" "collected ?pc t" for t
    using ex(2)[OF that] that(1) ph(4) assms(2) M_WAIT by (cases "t = i") (auto simp: pool_inv_def)
  moreover have "main_in_range ?pc" using i by (simp add: NUM_THREADS_def)
  ultimately show ?thesis using assms(2) unfolding pool_inv_def by (simp add: s')
next
  case M_DONE
  then show ?thesis using assms by (simp add: execute_task_def)
qed

text \<open>A worker leaves the others' tiles alone.\<close>

lemma thread_cells_disjoint: "p \<in> thread_cells t \<Longrightarrow> p \<in> thread_cells t' \<Longrightarrow> t = t'"
  unfolding thread_cells_iff by (metis div_mult_mod_eq)

lemma phase_cong:
  assumes "\<And>p. p \<in> thread_cells t \<Longrightarrow> c' ! p = c ! p"
  shows "phase E c' t pc st dn = phase E c t pc st dn" "tile_done E c' t = tile_done E c t"
  using assms by (cases pc; auto simp: tile_done_def tile_at_work_def)+

lemma worker_keeps_pool:
  assumes "worker_thread V F a b t s = Some s'"
  shows "pool_main s' = pool_main s" "task_i s' = task_i s" "task_j s' = task_j s" "task_tile s' = task_tile s"
    and "t' \<noteq> t \<Longrightarrow> pool_worker s' t' = pool_worker s t' \<and> start_sem s' t' = start_sem s t' \<and> done_sem s' t' = done_sem s t'"
  using assms by (auto simp: worker_thread_def sem_give_def Let_def split: pool_pc.splits if_splits)

text \<open>Positions of a tile by their number.\<close>

lemma cell_index_pos:
  assumes "I < nHalf" "J < nHalf" "t < NUM_THREADS" "p = (t div 2 * nHalf + I) * N_CFG + (t mod 2 * nHalf + J)"
  shows "p \<in> thread_cells t" "cell_index t p = I * nHalf + J" "p div N_CFG = t div 2 * nHalf + I"
    "p mod N_CFG = t mod 2 * nHalf + J" "p < N_CFG * N_CFG"
proof -
  have q: "t mod 2 * nHalf + J < N_CFG" "t div 2 * nHalf + I < N_CFG" using assms(1-3) thread_tile[OF assms(3)] by linarith+
  show d: "p div N_CFG = t div 2 * nHalf + I" and m: "p mod N_CFG = t mod 2 * nHalf + J"
    unfolding assms(4) using cell_pos[OF q(1)] by blast+
  show "p \<in> thread_cells t" unfolding thread_cells_def tile_at_def using assms(1,2) d m by simp
  show "cell_index t p = I * nHalf + J" by (simp add: cell_index_def d m)
  show "p < N_CFG * N_CFG" using transpose_pos[OF q] unfolding assms(4) by (simp add: mult.commute add.commute)
qed

lemma cell_of_index:
  assumes "p \<in> thread_cells t"
  obtains I J where "I < nHalf" "J < nHalf" "p = (t div 2 * nHalf + I) * N_CFG + (t mod 2 * nHalf + J)"
proof (rule that)
  show "p div N_CFG - t div 2 * nHalf < nHalf" "p mod N_CFG - t mod 2 * nHalf < nHalf"
    using assms by (auto simp: thread_cells_def tile_at_def)
  show "p = (t div 2 * nHalf + (p div N_CFG - t div 2 * nHalf)) * N_CFG + (t mod 2 * nHalf + (p mod N_CFG - t mod 2 * nHalf))"
    using assms by (simp add: thread_cells_def tile_at_def)
qed

lemma cell_index_bound:
  assumes "p \<in> thread_cells t" "t < NUM_THREADS"
  shows "cell_index t p < nHalf * nHalf"
proof -
  obtain I J where ij: "I < nHalf" "J < nHalf" "p = (t div 2 * nHalf + I) * N_CFG + (t mod 2 * nHalf + J)"
    by (rule cell_of_index[OF assms(1)])
  show ?thesis using transpose_pos[OF ij(2,1)] cell_index_pos(2)[OF ij(1,2) assms(2) ij(3)] by simp
qed

lemma cell_index_inj:
  assumes "p \<in> thread_cells t" "I < nHalf" "J < nHalf" "t < NUM_THREADS" "cell_index t p = I * nHalf + J"
  shows "p = (t div 2 * nHalf + I) * N_CFG + (t mod 2 * nHalf + J)"
proof -
  obtain I' J' where ij: "I' < nHalf" "J' < nHalf" "p = (t div 2 * nHalf + I') * N_CFG + (t mod 2 * nHalf + J')"
    by (rule cell_of_index[OF assms(1)])
  have "I' * nHalf + J' = I * nHalf + J" using cell_index_pos(2)[OF ij(1,2) assms(4) ij(3)] assms(5) by simp
  then have "I' = I \<and> J' = J" by (metis cell_pos assms(3) ij(2))
  then show ?thesis using ij(3) by simp
qed

lemma next_cell_work:
  assumes "k \<in> {0, nHalf}" "I < nHalf" "J < nHalf" "t < NUM_THREADS" "tile_at_work E c t k (I * nHalf + J + 1)"
  shows "phase E c t (next_cell nHalf nHalf nHalf k I J) 0 0"
proof -
  have all: "tile_at_work E c t k (nHalf * nHalf) \<Longrightarrow> p \<in> thread_cells t \<Longrightarrow> c ! p = E (k + nHalf) p" for p
    using cell_index_bound[OF _ assms(4)] by (simp add: tile_at_work_def)
  consider "J + 1 < nHalf" | "J + 1 = nHalf" "I + 1 < nHalf" | "J + 1 = nHalf" "I + 1 = nHalf" "k = 0"
    | "J + 1 = nHalf" "I + 1 = nHalf" "k = nHalf" using assms(1-3) by force
  then show ?thesis
  proof cases
    case 1
    then show ?thesis using assms by (simp add: next_cell_def add.assoc)
  next
    case 2
    then have e: "I * nHalf + J + 1 = (I + 1) * nHalf + 0" by simp
    have "tile_at_work E c t k ((I + 1) * nHalf + 0)" using assms(5) unfolding e .
    then show ?thesis using assms(1-4) 2 by (simp add: next_cell_def)
  next
    case 3
    have "I * nHalf + J + 1 = (I + 1) * nHalf" using 3(1) by simp
    then have e: "I * nHalf + J + 1 = nHalf * nHalf" unfolding 3(2) .
    have "tile_at_work E c t k (nHalf * nHalf)" using assms(5) unfolding e .
    then have "tile_at_work E c t nHalf 0" using all 3(3) by (simp add: tile_at_work_def)
    then show ?thesis using 3 by (simp add: next_cell_def program_dims)
  next
    case 4
    have "I * nHalf + J + 1 = (I + 1) * nHalf" using 4(1) by simp
    then have e: "I * nHalf + J + 1 = nHalf * nHalf" unfolding 4(2) .
    have "tile_at_work E c t k (nHalf * nHalf)" using assms(5) unfolding e .
    then have "tile_done E c t" using all 4(3) by (simp add: tile_done_def program_dims)
    then show ?thesis using 4 by (simp add: next_cell_def program_dims)
  qed
qed

context rvv_exact
begin

lemma cell_step:
  assumes len: "length a = N_CFG * N_CFG" "length b = N_CFG * N_CFG" "length c = N_CFG * N_CFG"
    and t: "t < NUM_THREADS" "k \<in> {0, nHalf}" "I < nHalf" "J < nHalf"
  defines "E \<equiv> entry F (\<lambda>r. drop (r * N_CFG) a) (column_of b) N_CFG"
  assumes w: "tile_at_work E c t k (I * nHalf + J)"
  shows "\<exists>c'. tile_cell F N_CFG (t div 2 * nHalf) (t mod 2 * nHalf) k
      (row_block V F a b (t div 2 * nHalf) (t mod 2 * nHalf) k N_CFG N_CFG (tile_dim k nHalf N_CFG)) I J c = Some c' \<and>
    length c' = length c \<and> (\<forall>p. p \<notin> thread_cells t \<longrightarrow> c' ! p = c ! p) \<and>
    tile_at_work E c' t k (I * nHalf + J + 1)"
proof -
  let ?i = "t div 2 * nHalf" and ?j = "t mod 2 * nHalf"
  define p where "p = (?i + I) * N_CFG + (?j + J)"
  note pos = cell_index_pos[OF t(3,4,1) p_def]
  have dim: "tile_dim k nHalf N_CFG = nHalf" "k + nHalf \<le> N_CFG" using t(2) by (auto simp: program_dims)
  have r: "?i + I < N_CFG" "?j + J < N_CFG" using thread_tile[OF t(1)] t(3,4) by linarith+
  let ?x = "drop ((?i + I) * N_CFG) a" and ?y = "column_of b (?j + J)"
  have block: "row_block V F a b ?i ?j k N_CFG N_CFG nHalf I J = Some (dot_seq F nHalf (drop k ?x) (drop k ?y))"
    unfolding column_of_def using row_block_exact[of N_CFG N_CFG a N_CFG b k nHalf ?i I ?j J] len(1,2) dim(2) r by simp
  have lens: "k + nHalf \<le> length ?x" "k + nHalf \<le> length ?y"
    using dim(2) len(1) row_room[OF r(1)] by (simp_all add: column_of_def)
  have split: "E (k + nHalf) p = f_add F (E k p) (dot_seq F nHalf (drop k ?x) (drop k ?y))"
    unfolding E_def entry_def pos(3,4) by (rule dot_seq_split[OF lens])
  have zero: "E 0 p = f_zero F" by (simp add: E_def entry_def dot_seq_def)
  let ?v = "if k = 0 then dot_seq F nHalf (drop k ?x) (drop k ?y) else f_add F (c ! p) (dot_seq F nHalf (drop k ?x) (drop k ?y))"
  have "0 < k \<Longrightarrow> c ! p = E k p" using w pos(1,2) by (simp add: tile_at_work_def)
  then have v: "?v = E (k + nHalf) p" using split zero by (cases "k = 0") (simp_all add: zero_add)
  have "tile_cell F N_CFG ?i ?j k (row_block V F a b ?i ?j k N_CFG N_CFG (tile_dim k nHalf N_CFG)) I J c = Some (c[p := E (k + nHalf) p])"
    unfolding tile_cell_def dim(1) block p_def[symmetric] v[symmetric] using pos(5) len(3) by simp
  moreover have "tile_at_work E (c[p := E (k + nHalf) p]) t k (I * nHalf + J + 1)"
    unfolding tile_at_work_def
  proof
    fix q assume q: "q \<in> thread_cells t"
    show "(cell_index t q < I * nHalf + J + 1 \<longrightarrow> c[p := E (k + nHalf) p] ! q = E (k + nHalf) q) \<and>
        (I * nHalf + J + 1 \<le> cell_index t q \<longrightarrow> 0 < k \<longrightarrow> c[p := E (k + nHalf) p] ! q = E k q)"
    proof (cases "q = p")
      case True
      then show ?thesis using pos(2,5) len(3) by simp
    next
      case False
      then have "cell_index t q \<noteq> I * nHalf + J" using cell_index_inj[OF q t(3,4,1)] p_def by blast
      then show ?thesis using False w q by (auto simp: tile_at_work_def less_Suc_eq)
    qed
  qed
  moreover have "c[p := E (k + nHalf) p] ! q = c ! q" if "q \<notin> thread_cells t" for q using that pos(1) by (metis nth_list_update_neq)
  ultimately show ?thesis by (intro exI[of _ "c[p := E (k + nHalf) p]"]) simp
qed

lemma worker_inv_pool:
  assumes len: "length a = N_CFG * N_CFG" "length b = N_CFG * N_CFG"
    and step: "worker_thread V F a b t s = Some s'" "t < NUM_THREADS"
  defines "E \<equiv> entry F (\<lambda>r. drop (r * N_CFG) a) (column_of b) N_CFG"
  assumes inv: "pool_inv E s"
  shows "pool_inv E s'"
proof -
  note keep = worker_keeps_pool[OF step(1)]
  have w: "at_work E s t"
    using inv step by (cases "expects (pool_main s) t") (auto simp: pool_inv_def at_rest_def worker_thread_def)
  then have fl: "filled s t" and ph: "phase E (cells s) t (pool_worker s t) (start_sem s t) (done_sem s t)"
    by (simp_all add: at_work_def)
  have ex: "expects (pool_main s) t"
    using inv step by (cases "expects (pool_main s) t") (auto simp: pool_inv_def at_rest_def worker_thread_def)
  have own: "length (cells s') = length (cells s) \<and> (\<forall>p. p \<notin> thread_cells t \<longrightarrow> cells s' ! p = cells s ! p) \<and>
      phase E (cells s') t (pool_worker s' t) (start_sem s' t) (done_sem s' t)"
  proof (cases "pool_worker s t")
    case P_TAKE
    then have "start_sem s t = 1" "done_sem s t = 0"
      "s' = s\<lparr>start_sem := (start_sem s)(t := start_sem s t - 1), pool_worker := (pool_worker s)(t := P_CELL 0 0 0)\<rparr>"
      using ph step(1) by (auto simp: worker_thread_def split: if_splits)
    then show ?thesis by (simp add: tile_at_work_def program_dims)
  next
    case (P_CELL k I J)
    have b: "start_sem s t = 0" "done_sem s t = 0" "k \<in> {0, nHalf}" "I < nHalf" "J < nHalf"
      "tile_at_work E (cells s) t k (I * nHalf + J)" using ph P_CELL by simp_all
    have l: "length (cells s) = N_CFG * N_CFG" using inv by (simp add: pool_inv_def)
    note d = thread_tile[OF step(2)]
    obtain c' where c': "tile_cell F N_CFG (t div 2 * nHalf) (t mod 2 * nHalf) k
        (row_block V F a b (t div 2 * nHalf) (t mod 2 * nHalf) k N_CFG N_CFG (tile_dim k nHalf N_CFG)) I J (cells s) = Some c'"
      "length c' = length (cells s)" "\<forall>p. p \<notin> thread_cells t \<longrightarrow> c' ! p = cells s ! p"
      "tile_at_work E c' t k (I * nHalf + J + 1)"
      using cell_step[OF len l step(2) b(3-5)] b(6) unfolding E_def by blast
    have "s' = s\<lparr>cells := c', pool_worker := (pool_worker s)(t := next_cell nHalf nHalf nHalf k I J)\<rparr>"
      using step(1) P_CELL fl d c'(1) by (simp add: worker_thread_def filled_def)
    then show ?thesis using next_cell_work[OF b(3-5) step(2) c'(4)] c'(2,3) b(1,2) by simp
  next
    case P_GIVE
    then show ?thesis using ph step(1) by (auto simp: worker_thread_def sem_give_def)
  qed
  have same: "cells s' ! p = cells s ! p" if "p \<in> thread_cells t'" "t' \<noteq> t" for p t'
    using own that thread_cells_disjoint by metis
  have others: "at_work E s' t' = at_work E s t'" "at_rest s' t' = at_rest s t'" "tile_done E (cells s') t' = tile_done E (cells s) t'"
    if "t' \<noteq> t" for t'
    using keep(2-4) keep(5)[OF that] phase_cong[of t' "cells s'" "cells s", OF same[OF _ that]]
    by (simp_all add: at_work_def at_rest_def filled_def)
  have me: "at_work E s' t" using own fl keep(2-4) by (simp add: at_work_def filled_def)
  have "at_work E s' u" if "u < NUM_THREADS" "expects (pool_main s) u" for u
    using inv that me others(1)[of u] by (cases "u = t") (auto simp: pool_inv_def)
  moreover have "at_rest s' u" if "u < NUM_THREADS" "\<not> expects (pool_main s) u" for u
    using inv that ex others(2)[of u] by (cases "u = t") (auto simp: pool_inv_def)
  moreover have "tile_done E (cells s') u" if "u < NUM_THREADS" "collected (pool_main s) u" for u
    using inv that expects_not_collected[OF ex] others(3)[of u] by (cases "u = t") (auto simp: pool_inv_def)
  moreover have "filled s' i" if "pool_main s = M_START r i" for r i
    using inv that keep(2-4) by (auto simp: pool_inv_def filled_def)
  ultimately show ?thesis using inv own keep(1) unfolding pool_inv_def by simp
qed

end

section \<open>Termination\<close>

fun pc_cost :: "pool_pc \<Rightarrow> nat" where
  "pc_cost P_TAKE = 0"
| "pc_cost (P_CELL k I J) = 2 + (2 * nHalf * nHalf - (k * nHalf + I * nHalf + J))"
| "pc_cost P_GIVE = 1"

definition pool_cost :: "'f pool \<Rightarrow> nat \<Rightarrow> nat" where
  "pool_cost s t = 515 * start_sem s t + pc_cost (pool_worker s t)"

fun main_cost :: "pool_main_pc \<Rightarrow> nat" where
  "main_cost (M_FILL r i) = 516 * (24 - (12 * r + 2 * i))"
| "main_cost (M_START r i) = 516 * (24 - (12 * r + 2 * i + 1))"
| "main_cost (M_WAIT r i) = 516 * (24 - (12 * r + 8 + i))"
| "main_cost M_DONE = 0"

definition pool_rank :: "'f pool \<Rightarrow> nat" where
  "pool_rank s = main_cost (pool_main s) + (\<Sum>t < NUM_THREADS. pool_cost s t)"

lemma next_cell_cost:
  assumes "k \<in> {0, nHalf}" "I < nHalf" "J < nHalf"
  shows "pc_cost (next_cell nHalf nHalf nHalf k I J) < pc_cost (P_CELL k I J)"
proof -
  have "I * 16 + J < 256" using transpose_pos[of J 16 I 16] assms by (simp add: program_dims)
  then show ?thesis using assms by (auto simp: next_cell_def program_dims)
qed

lemma main_lowers_rank:
  assumes "execute_task s = Some s'" "pool_inv E s"
  shows "pool_rank s' < pool_rank s"
proof (cases "pool_main s")
  case (M_FILL r i)
  then show ?thesis using assms
    by (auto simp: execute_task_def pool_inv_def pool_rank_def pool_cost_def RUNS_def NUM_THREADS_def)
next
  case (M_START r i)
  let ?pc = "if i + 1 < NUM_THREADS then M_FILL r (i + 1) else M_WAIT r 0"
  have s': "s' = s\<lparr>start_sem := sem_give i (start_sem s), pool_main := ?pc\<rparr>"
    using assms(1) M_START by (simp add: execute_task_def)
  have i: "r < 2" "i < 4" "start_sem s i = 0"
    using assms(2) M_START by (auto simp: pool_inv_def at_rest_def RUNS_def NUM_THREADS_def)
  have "pool_cost s' t = pool_cost s t + (if t = i then 515 else 0)" for t
    using i(3) by (simp add: s' pool_cost_def sem_give_def)
  then have "(\<Sum>t < NUM_THREADS. pool_cost s' t) = (\<Sum>t < NUM_THREADS. pool_cost s t) + 515"
    using i(2) by (simp add: sum.distrib NUM_THREADS_def)
  moreover have "main_cost ?pc + 515 < main_cost (pool_main s)" using i(1,2) M_START by (auto simp: NUM_THREADS_def)
  ultimately show ?thesis by (simp add: pool_rank_def s')
next
  case (M_WAIT r i)
  then show ?thesis using assms
    by (auto simp: execute_task_def pool_inv_def pool_rank_def pool_cost_def RUNS_def NUM_THREADS_def split: if_splits)
next
  case M_DONE
  then show ?thesis using assms by (simp add: execute_task_def)
qed

lemma worker_lowers_rank_pool:
  assumes "worker_thread V F a b t s = Some s'" "t < NUM_THREADS" "pool_inv E s"
  shows "pool_rank s' < pool_rank s"
proof -
  note keep = worker_keeps_pool[OF assms(1)]
  have w: "at_work E s t"
    using assms by (cases "expects (pool_main s) t") (auto simp: pool_inv_def at_rest_def worker_thread_def)
  have "pool_cost s' t < pool_cost s t"
  proof (cases "pool_worker s t")
    case (P_CELL k I J)
    then have b: "k \<in> {0, nHalf}" "I < nHalf" "J < nHalf" "filled s t" using w by (simp_all add: at_work_def)
    have "pool_worker s' t = next_cell nHalf nHalf nHalf k I J" "start_sem s' = start_sem s"
      using assms(1) P_CELL b(4) thread_tile[OF assms(2)] by (auto simp: worker_thread_def filled_def Let_def)
    then show ?thesis using next_cell_cost[OF b(1-3)] P_CELL by (simp add: pool_cost_def)
  qed (use assms(1) w in \<open>auto simp: worker_thread_def pool_cost_def at_work_def program_dims split: if_splits\<close>)
  moreover have "pool_cost s' u = pool_cost s u" if "u \<noteq> t" for u using keep(5)[OF that] by (simp add: pool_cost_def)
  ultimately have "(\<Sum>u < NUM_THREADS. pool_cost s' u) < (\<Sum>u < NUM_THREADS. pool_cost s u)"
    using assms(2) by (intro sum_strict_mono_ex1) (auto simp: le_less, metis)
  then show ?thesis using keep(1) by (simp add: pool_rank_def)
qed

lemma pool_step_rank:
  "pool_step V F a b s s' \<Longrightarrow> pool_inv E s \<Longrightarrow> pool_rank s' < pool_rank s"
  using main_lowers_rank worker_lowers_rank_pool by (auto simp: pool_step_iff)

text \<open>Whoever \<open>main\<close> waits for can go on.\<close>

context rvv_exact
begin

lemma stuck_pool_done:
  assumes len: "length a = N_CFG * N_CFG" "length b = N_CFG * N_CFG"
  defines "E \<equiv> entry F (\<lambda>r. drop (r * N_CFG) a) (column_of b) N_CFG"
  assumes inv: "pool_inv E s" and stuck: "\<nexists>s'. pool_step V F a b s s'"
  shows "pool_main s = M_DONE \<and> cells s = map (E N_CFG) [0..<N_CFG * N_CFG]"
proof -
  have none: "execute_task s = None" "t < NUM_THREADS \<Longrightarrow> worker_thread V F a b t s = None" for t
    using stuck unfolding pool_step_iff by (metis not_Some_eq)+
  have "pool_main s = M_DONE"
  proof (rule ccontr)
    assume "pool_main s \<noteq> M_DONE"
    then obtain r i where m: "pool_main s = M_WAIT r i" "\<not> 0 < done_sem s i"
      using none(1) by (cases "pool_main s") (auto simp: execute_task_def split: if_splits)
    then have i: "i < NUM_THREADS" "filled s i" "phase E (cells s) i (pool_worker s i) (start_sem s i) (done_sem s i)"
      using inv by (auto simp: pool_inv_def at_work_def)
    have l: "length (cells s) = N_CFG * N_CFG" using inv by (simp add: pool_inv_def)
    show False
    proof (cases "pool_worker s i")
      case (P_CELL k I J)
      then have b: "k \<in> {0, nHalf}" "I < nHalf" "J < nHalf" "tile_at_work E (cells s) i k (I * nHalf + J)" using i(3) by simp_all
      obtain c' where "tile_cell F N_CFG (i div 2 * nHalf) (i mod 2 * nHalf) k
          (row_block V F a b (i div 2 * nHalf) (i mod 2 * nHalf) k N_CFG N_CFG (tile_dim k nHalf N_CFG)) I J (cells s) = Some c'"
        using cell_step[OF len l i(1) b(1-3)] b(4) unfolding E_def by blast
      then show False using none(2)[OF i(1)] P_CELL i(2) by (simp add: worker_thread_def filled_def)
    qed (use none(2)[OF i(1)] i(3) m(2) in \<open>auto simp: worker_thread_def split: if_splits\<close>)
  qed
  moreover have "cells s = map (E N_CFG) [0..<N_CFG * N_CFG]"
  proof (rule nth_equalityI)
    show "length (cells s) = length (map (E N_CFG) [0..<N_CFG * N_CFG])" using inv by (simp add: pool_inv_def)
    fix p assume "p < length (cells s)"
    then have p: "p < N_CFG * N_CFG" using inv by (simp add: pool_inv_def)
    have "set [0..<NUM_THREADS] = {0..<NUM_THREADS}" by simp
    from threads_cover[OF this] have "p \<in> (\<Union>t \<in> set [0..<NUM_THREADS]. thread_cells t)" using p by simp
    then obtain t where t: "t < NUM_THREADS" "p \<in> thread_cells t" by auto
    then have "tile_done E (cells s) t" using inv calculation by (simp add: pool_inv_def)
    then show "cells s ! p = map (E N_CFG) [0..<N_CFG * N_CFG] ! p" using t(2) p by (simp add: tile_done_def)
  qed
  ultimately show ?thesis by blast
qed

end

section \<open>Results\<close>

text \<open>
  C18: The pool computes the product in every schedule. Where addition is exact, and on a vector unit that
  keeps its tail lanes, \<open>main\<close> and the four workers take at most 12384 steps whatever the scheduler
  picks, and when nobody can move \<open>main\<close> is through both runs and every entry is the whole product of
  its row and column, whatever the matrix held before: no deadlock, no lost element, none added twice.
\<close>
theorem pool_computes_product:
  assumes "rvv_exact V F" "length a = 1024" "length b = 1024" "length c = 1024"
    and "(pool_step V F a b ^^ n) (pool_boot c) s"
  shows "n \<le> 12384 \<and> ((\<nexists>s'. pool_step V F a b s s') \<longrightarrow> pool_main s = M_DONE \<and>
    cells s = map (\<lambda>p. dot_seq F 32 (drop (p div 32 * 32) a) (map (\<lambda>r. b ! (r * 32 + p mod 32)) [0..<32])) [0..<1024])"
proof -
  let ?E = "entry F (\<lambda>r. drop (r * N_CFG) a) (column_of b) N_CFG"
  have len: "length a = N_CFG * N_CFG" "length b = N_CFG * N_CFG" "length c = N_CFG * N_CFG"
    using assms(2-4) by (simp_all add: N_CFG_def)
  have "pool_inv ?E s \<and> pool_rank s + n \<le> pool_rank (pool_boot c)" using assms(5)
  proof (induction n arbitrary: s)
    case 0
    then show ?case using boot_inv_pool[OF len(3)] by simp
  next
    case (Suc n)
    then obtain t where t: "(pool_step V F a b ^^ n) (pool_boot c) t" "pool_step V F a b t s" by auto
    have inv: "pool_inv ?E t" using Suc.IH[OF t(1)] by blast
    then have "pool_inv ?E s"
      using t(2) main_inv_pool rvv_exact.worker_inv_pool[OF assms(1) len(1,2)] by (auto simp: pool_step_iff)
    then show ?case using Suc.IH[OF t(1)] pool_step_rank[OF t(2) inv] by simp
  qed
  moreover have "pool_rank (pool_boot c) = 12384"
    by (simp add: pool_rank_def pool_boot_def pool_cost_def)
  ultimately show ?thesis
    using rvv_exact.stuck_pool_done[OF assms(1) len(1,2), of s]
    by (simp add: entry_def[abs_def] column_of_def N_CFG_def)
qed

text \<open>A pool left alone gets there.\<close>

theorem pool_computes_product_witness:
  "\<exists>s. (pool_step (sim_rvv (\<lambda>x. x)) sim_mat (replicate 1024 (Some 1000000)) (replicate 1024 (Some 1000000)))\<^sup>*\<^sup>*
       (pool_boot (replicate 1024 None)) s \<and>
     pool_main s = M_DONE \<and> cells s = replicate 1024 (Some 32000000)"
proof -
  let ?a = "replicate 1024 (Some (1000000 :: int))" and ?c = "replicate 1024 (None :: int option)"
  let ?R = "pool_step (sim_rvv (\<lambda>x. x)) sim_mat ?a ?a"
  note total_steps = pool_computes_product[OF sim_unit_exact.rvv_exact_axioms, of ?a ?a ?c]
  define n where "n = (GREATEST n. \<exists>s. (?R ^^ n) (pool_boot ?c) s)"
  have bound: "\<forall>n. (\<exists>s. (?R ^^ n) (pool_boot ?c) s) \<longrightarrow> n \<le> 12384" using total_steps by auto
  have start: "\<exists>s. (?R ^^ 0) (pool_boot ?c) s" by simp
  obtain s where s: "(?R ^^ n) (pool_boot ?c) s"
    using GreatestI_nat[of "\<lambda>n. \<exists>s. (?R ^^ n) (pool_boot ?c) s", OF start] bound unfolding n_def by blast
  have "\<nexists>s'. ?R s s'"
  proof
    assume "\<exists>s'. ?R s s'"
    then have "\<exists>s'. (?R ^^ Suc n) (pool_boot ?c) s'" using s by auto
    then have "Suc n \<le> n"
      using Greatest_le_nat[of "\<lambda>n. \<exists>s. (?R ^^ n) (pool_boot ?c) s" "Suc n"] bound unfolding n_def by blast
    then show False by simp
  qed
  then have d: "pool_main s = M_DONE"
    "cells s = map (\<lambda>p. dot_seq sim_mat 32 (drop (p div 32 * 32) ?a) (map (\<lambda>r. ?a ! (r * 32 + p mod 32)) [0..<32])) [0..<1024]"
    using total_steps s by auto
  have "dot_seq sim_mat 32 (drop (p div 32 * 32) ?a) (map (\<lambda>r. ?a ! (r * 32 + p mod 32)) [0..<32]) = Some 32000000"
    if "p < 1024" for p
  proof -
    have "p div 32 < 32" using that by simp
    then have "p div 32 \<le> 31" by simp
    then have room: "32 \<le> 1024 - p div 32 * 32" by simp
    have "map (\<lambda>r. ?a ! (r * 32 + p mod 32)) [0..<32] = replicate 32 (Some 1000000)"
    proof (rule nth_equalityI)
      fix i assume "i < length (map (\<lambda>r. ?a ! (r * 32 + p mod 32)) [0..<32])"
      then have "i < 32" by simp
      moreover then have "i * 32 + p mod 32 < 1024" using transpose_pos[of "p mod 32" 32 i 32] by simp
      ultimately show "map (\<lambda>r. ?a ! (r * 32 + p mod 32)) [0..<32] ! i = replicate 32 (Some 1000000) ! i" by simp
    qed simp
    then have "dot_seq sim_mat 32 (drop (p div 32 * 32) ?a) (map (\<lambda>r. ?a ! (r * 32 + p mod 32)) [0..<32]) =
        dot_seq sim_mat 32 (replicate 32 (Some 1000000)) (replicate 32 (Some 1000000))"
      unfolding drop_replicate using dot_seq_constant[OF room order_refl] by simp
    also have "\<dots> = Some 32000000" by code_simp
    finally show ?thesis .
  qed
  then have "cells s = replicate 1024 (Some 32000000)" unfolding d(2) by (auto intro!: nth_equalityI)
  then show ?thesis using s d(1) relpowp_imp_rtranclp by fast
qed

end
