(* ===== verification/Gemmini_Conv.thy ===== *)
theory Gemmini_Conv
  imports Arrays "HOL-Library.Signed_Division"
begin

text \<open>
  The convolution benchmark \<open>gemmini_ubench/src/bench.c\<close>: a direct convolution, the reference, against
  three ways to compute it on the Gemmini accelerator: its own convolution (path A), and patches
  gathered in software and multiplied, in tiles of the array's height (path B) or all at once (path C).
  The accelerator's two operations are a parameter. Cycle counts, fences and flushes are left out.
  Byte arrays hold \<open>elem_t\<close>, 8 bits, accumulators \<open>acc_t\<close>, 32 bits, both signed.
\<close>

type_synonym i8 = "8 word"
type_synonym i32 = "32 word"

section \<open>Shapes and rescaling\<close>

record conv_shape =
  IC :: nat
  IH :: nat
  IW :: nat
  OC :: nat
  KH :: nat
  KW :: nat
  SH :: nat
  SW :: nat
  PH :: nat
  PW :: nat

definition out_dim :: "nat \<Rightarrow> nat \<Rightarrow> nat \<Rightarrow> nat \<Rightarrow> nat" where
  "out_dim i p k s = nat ((int i + 2 * int p - int k) sdiv int s + 1)"

definition OH :: "conv_shape \<Rightarrow> nat" where "OH S = out_dim (IH S) (PH S) (KH S) (SH S)"
definition OW :: "conv_shape \<Rightarrow> nat" where "OW S = out_dim (IW S) (PW S) (KW S) (SW S)"
definition K_inner :: "conv_shape \<Rightarrow> nat" where "K_inner S = IC S * KH S * KW S"
definition total_out :: "conv_shape \<Rightarrow> nat" where "total_out S = OH S * OW S"

definition R_MULT :: int where "R_MULT = 0x60000000"
definition R_SHIFT :: int where "R_SHIFT = 1"
definition R_OFF :: int where "R_OFF = 0"
definition R_MIN :: int where "R_MIN = - 128"
definition R_MAX :: int where "R_MAX = 127"

text \<open>A value stored to \<open>int32_t\<close>.\<close>

definition i32_of :: "int \<Rightarrow> int" where
  "i32_of x = sint (word_of_int x :: i32)"

text \<open>The two-stage rescaling of an accumulator; the products of \<open>int64_t\<close> do not overflow.\<close>

definition requantize :: "int \<Rightarrow> int \<Rightarrow> int \<Rightarrow> int \<Rightarrow> int \<Rightarrow> i32 \<Rightarrow> i8" where
  "requantize mult shift off amin amax a =
     (let s = i32_of ((sint a * mult + 2 ^ 30) div 2 ^ 31);
          s = (if 0 < shift then i32_of ((s + 2 ^ nat (shift - 1)) div 2 ^ nat shift)
               else if shift < 0 then i32_of (s * 2 ^ nat (- shift)) else s);
          s = i32_of (s + off);
          s = (if s < amin then amin else s);
          s = (if amax < s then amax else s)
      in word_of_int s)"

text \<open>Both stages as one factor, for the accelerator's own rescaling.\<close>

definition scale_q31 :: int where
  "scale_q31 = (if R_SHIFT = 0 then R_MULT else i32_of ((R_MULT + 2 ^ nat (R_SHIFT - 1)) div 2 ^ nat R_SHIFT))"

section \<open>The reference\<close>

definition golden_in :: "i8 list \<Rightarrow> conv_shape \<Rightarrow> nat \<Rightarrow> int \<Rightarrow> int \<Rightarrow> i8 option" where
  "golden_in input S ic ih iw =
     (if ih < 0 \<or> int (IH S) \<le> ih \<or> iw < 0 \<or> int (IW S) \<le> iw then Some 0
      else fetch ((ic * IH S + nat ih) * IW S + nat iw) input)"

definition golden_acc ::
    "i8 list \<Rightarrow> i8 list \<Rightarrow> i32 list option \<Rightarrow> conv_shape \<Rightarrow> nat \<Rightarrow> nat \<Rightarrow> nat \<Rightarrow> i32 option" where
  "golden_acc input weight bias S oc oh ow = do {
     acc \<leftarrow> (case bias of None \<Rightarrow> Some 0 | Some b \<Rightarrow> fetch oc b);
     for_range (IC S) (\<lambda>ic. for_range (KH S) (\<lambda>kh.
       let ih = int (oh * SH S) - int (PH S) + int kh in
       for_range (KW S) (\<lambda>kw acc.
         let iw = int (ow * SW S) - int (PW S) + int kw in do {
           in_v \<leftarrow> golden_in input S ic ih iw;
           w \<leftarrow> fetch (((kh * KW S + kw) * IC S + ic) * OC S + oc) weight;
           Some (acc + scast in_v * scast w) }))) acc }"

definition golden ::
    "i8 list \<Rightarrow> i8 list \<Rightarrow> i32 list option \<Rightarrow> i8 list \<Rightarrow> conv_shape \<Rightarrow> i8 list option" where
  "golden input weight bias out S =
     for_range (OC S) (\<lambda>oc. for_range (OH S) (\<lambda>oh. for_range (OW S) (\<lambda>ow out. do {
       acc \<leftarrow> golden_acc input weight bias S oc oh ow;
       store ((oc * OH S + oh) * OW S + ow) (requantize R_MULT R_SHIFT R_OFF R_MIN R_MAX acc) out }))) out"

section \<open>Rearrangement in software\<close>

definition transpose_nchw_nhwc :: "i8 list \<Rightarrow> nat \<Rightarrow> nat \<Rightarrow> nat \<Rightarrow> i8 list \<Rightarrow> i8 list option" where
  "transpose_nchw_nhwc input ic ih iw =
     for_range ic (\<lambda>c. for_range ih (\<lambda>h. for_range iw (\<lambda>w ws. do {
       x \<leftarrow> fetch (c * ih * iw + h * iw + w) input;
       store (h * iw * ic + c + w * ic) x ws })))"

text \<open>The columns of a patch that lie inside the image.\<close>

definition kw_lo :: "conv_shape \<Rightarrow> int \<Rightarrow> nat" where
  "kw_lo S iw0 = (let lo = (if 0 < - iw0 then - iw0 else 0) in nat (if int (KW S) < lo then int (KW S) else lo))"

definition kw_hi :: "conv_shape \<Rightarrow> int \<Rightarrow> nat" where
  "kw_hi S iw0 =
     (let hi = (if int (IW S) - iw0 < int (KW S) then int (IW S) - iw0 else int (KW S))
      in nat (if hi < int (kw_lo S iw0) then int (kw_lo S iw0) else hi))"

definition im2col_part :: "conv_shape \<Rightarrow> i8 list \<Rightarrow> nat \<Rightarrow> int \<Rightarrow> int \<Rightarrow> i8 list \<Rightarrow> i8 list option" where
  "im2col_part S ws base ih iw0 m =
     (if ih < 0 \<or> int (IH S) \<le> ih then store_range base (replicate (KW S * IC S) 0) m
      else let lo = kw_lo S iw0; hi = kw_hi S iw0 in do {
        m \<leftarrow> (if 0 < lo then store_range base (replicate (lo * IC S) 0) m else Some m);
        m \<leftarrow> (if lo < hi then do {
            src \<leftarrow> fetch_range ((nat ih * IW S + nat (iw0 + int lo)) * IC S) ((hi - lo) * IC S) ws;
            store_range (base + lo * IC S) src m }
          else Some m);
        (if hi < KW S then store_range (base + hi * IC S) (replicate ((KW S - hi) * IC S) 0) m else Some m) })"

text \<open>The patch of output \<open>out_idx\<close>, as a row that starts at \<open>row\<close>.\<close>

definition im2col_row :: "conv_shape \<Rightarrow> i8 list \<Rightarrow> nat \<Rightarrow> nat \<Rightarrow> i8 list \<Rightarrow> i8 list option" where
  "im2col_row S ws row out_idx =
     (let ow_idx = out_idx mod OW S; oh_idx = out_idx div OW S; iw0 = int (ow_idx * SW S) - int (PW S) in
      for_range (KH S) (\<lambda>kh.
        im2col_part S ws (row + kh * KW S * IC S) (int (oh_idx * SH S) - int (PH S) + int kh) iw0))"

definition requant_rows :: "i32 list \<Rightarrow> nat \<Rightarrow> nat \<Rightarrow> conv_shape \<Rightarrow> i8 list \<Rightarrow> i8 list option" where
  "requant_rows acc base_row rows S =
     for_range rows (\<lambda>i.
       let out_idx = base_row + i; ow_idx = out_idx mod OW S; oh_idx = out_idx div OW S in
       for_range (OC S) (\<lambda>oc out. do {
         a \<leftarrow> fetch (i * OC S + oc) acc;
         store (oh_idx * OW S + ow_idx + oc * OH S * OW S) (requantize R_MULT R_SHIFT R_OFF R_MIN R_MAX a) out }))"

definition max_abs_err :: "i8 list \<Rightarrow> i8 list \<Rightarrow> nat \<Rightarrow> int option" where
  "max_abs_err a b n = for_range n (\<lambda>i m. do {
     x \<leftarrow> fetch i a;
     y \<leftarrow> fetch i b;
     let d = sint x - sint y in let d = (if d < 0 then - d else d) in Some (if m < d then d else m) }) 0"

section \<open>The benchmark\<close>

text \<open>
  The accelerator: the height of its array, \<open>tiled_matmul_auto\<close> (rows, columns, inner dimension, both
  factors, a row to add, result) and \<open>tiled_conv_auto\<close> (image, channels, output, stride, padding and
  width of a square kernel, input, weights, bias, factor, result).
\<close>

record gemmini_api =
  DIM :: nat
  tiled_matmul :: "nat \<Rightarrow> nat \<Rightarrow> nat \<Rightarrow> i8 list \<Rightarrow> i8 list \<Rightarrow> i32 list \<Rightarrow> i32 list \<Rightarrow> i32 list"
  tiled_conv :: "nat \<Rightarrow> nat \<Rightarrow> nat \<Rightarrow> nat \<Rightarrow> nat \<Rightarrow> nat \<Rightarrow> nat \<Rightarrow> nat \<Rightarrow> nat \<Rightarrow>
    i8 list \<Rightarrow> i8 list \<Rightarrow> i32 list \<Rightarrow> int \<Rightarrow> i8 list \<Rightarrow> i8 list"

record ubench =
  in_nchw :: "i8 list"
  weight_hwio :: "i8 list"
  bias_buf :: "i32 list"
  ws_input :: "i8 list"
  ws_out_nhwc :: "i8 list"
  ws_im2col :: "i8 list"
  ws_acc :: "i32 list"
  out_gold :: "i8 list"
  out_a :: "i8 list"
  out_b :: "i8 list"
  out_c :: "i8 list"

definition B_I8 :: nat where "B_I8 = 160 * 1024"
definition B_IM :: nat where "B_IM = 192 * 1024"
definition B_ACC :: nat where "B_ACC = 128 * 1024"
definition B_BIAS :: nat where "B_BIAS = 1024"

definition shapes :: "conv_shape list" where
  "shapes = map (\<lambda>(ic, i, oc, k, s, p).
       \<lparr>IC = ic, IH = i, IW = i, OC = oc, KH = k, KW = k, SH = s, SW = s, PH = p, PW = p\<rparr>)
     [(3, 112, 32, 3, 2, 1), (32, 27, 32, 3, 2, 1), (32, 14, 32, 3, 1, 1), (32, 27, 32, 1, 2, 0),
      (32, 14, 64, 3, 2, 1), (64, 7, 64, 3, 1, 1), (32, 14, 64, 1, 2, 0), (64, 7, 128, 3, 2, 1),
      (128, 4, 128, 3, 1, 1), (64, 7, 128, 1, 2, 0), (16, 32, 64, 3, 1, 1)]"

text \<open>The generator of test data, and a buffer filled by it.\<close>

definition rnd8 :: "int \<Rightarrow> nat \<Rightarrow> u32 \<Rightarrow> i8 \<times> u32" where
  "rnd8 lo span rng =
     (let rng = rng * 1664525 + 1013904223 in (word_of_int (lo + int (unat (drop_bit 17 rng) mod span)), rng))"

definition fill_rnd :: "nat \<Rightarrow> int \<Rightarrow> nat \<Rightarrow> (i8 \<Rightarrow> 'a) \<Rightarrow> 'a list \<times> u32 \<Rightarrow> ('a list \<times> u32) option" where
  "fill_rnd n lo span conv =
     for_range n (\<lambda>i (buf, rng). case rnd8 lo span rng of (v, rng) \<Rightarrow> map_option (\<lambda>buf. (buf, rng)) (store i (conv v) buf))"

definition gen_data :: "conv_shape \<Rightarrow> ubench \<Rightarrow> ubench option" where
  "gen_data S u =
     (let rng = 0x1234567 XOR word_of_nat (IC S * 131 + OC S * 17 + IH S) in do {
       (input, rng) \<leftarrow> fill_rnd (IC S * IH S * IW S) (- 4) 8 (\<lambda>v. v) (in_nchw u, rng);
       (weight, rng) \<leftarrow> fill_rnd (K_inner S * OC S) (- 4) 8 (\<lambda>v. v) (weight_hwio u, rng);
       (bias, rng) \<leftarrow> fill_rnd (OC S) (- 16) 32 scast (bias_buf u, rng);
       Some (u\<lparr>in_nchw := input, weight_hwio := weight, bias_buf := bias\<rparr>) })"

definition run_golden :: "conv_shape \<Rightarrow> ubench \<Rightarrow> ubench option" where
  "run_golden S u =
     map_option (\<lambda>out. u\<lparr>out_gold := out\<rparr>) (golden (in_nchw u) (weight_hwio u) (Some (bias_buf u)) (out_gold u) S)"

definition path_a :: "gemmini_api \<Rightarrow> conv_shape \<Rightarrow> ubench \<Rightarrow> ubench option" where
  "path_a G S u = do {
     ws \<leftarrow> transpose_nchw_nhwc (in_nchw u) (IC S) (IH S) (IW S) (ws_input u);
     let nhwc = tiled_conv G (IH S) (IW S) (IC S) (OC S) (OH S) (OW S) (SH S) (PH S) (KH S)
       ws (weight_hwio u) (bias_buf u) scale_q31 (ws_out_nhwc u);
     out \<leftarrow> for_range (OC S) (\<lambda>oc. for_range (OH S * OW S) (\<lambda>p out. do {
       v \<leftarrow> fetch (p * OC S + oc) nhwc;
       store (oc * OH S * OW S + p) v out })) (out_a u);
     Some (u\<lparr>ws_input := ws, ws_out_nhwc := nhwc, out_a := out\<rparr>) }"

text \<open>One tile of path B, from output \<open>ti\<close> on; rows past the last output are zero.\<close>

definition tile_b :: "gemmini_api \<Rightarrow> conv_shape \<Rightarrow> nat \<Rightarrow> ubench \<Rightarrow> ubench option" where
  "tile_b G S ti u =
     (let rows = (if total_out S - ti < DIM G then total_out S - ti else DIM G) in do {
       m \<leftarrow> for_range (DIM G) (\<lambda>i.
         if rows \<le> i then store_range (i * K_inner S) (replicate (K_inner S) 0)
         else im2col_row S (ws_input u) (i * K_inner S) (ti + i)) (ws_im2col u);
       let acc = tiled_matmul G (DIM G) (OC S) (K_inner S) m (weight_hwio u) (bias_buf u) (ws_acc u);
       out \<leftarrow> requant_rows acc ti rows S (out_b u);
       Some (u\<lparr>ws_im2col := m, ws_acc := acc, out_b := out\<rparr>) })"

definition path_b :: "gemmini_api \<Rightarrow> conv_shape \<Rightarrow> ubench \<Rightarrow> ubench option" where
  "path_b G S u = do {
     ws \<leftarrow> transpose_nchw_nhwc (in_nchw u) (IC S) (IH S) (IW S) (ws_input u);
     steps_from (tile_b G S) (starts (DIM G) (total_out S)) (u\<lparr>ws_input := ws\<rparr>) }"

definition path_c :: "gemmini_api \<Rightarrow> conv_shape \<Rightarrow> ubench \<Rightarrow> ubench option" where
  "path_c G S u = do {
     ws \<leftarrow> transpose_nchw_nhwc (in_nchw u) (IC S) (IH S) (IW S) (ws_input u);
     m \<leftarrow> for_range (total_out S) (\<lambda>r. im2col_row S ws (r * K_inner S) r) (ws_im2col u);
     let acc = tiled_matmul G (total_out S) (OC S) (K_inner S) m (weight_hwio u) (bias_buf u) (ws_acc u);
     out \<leftarrow> requant_rows acc 0 (total_out S) S (out_c u);
     Some (u\<lparr>ws_input := ws, ws_im2col := m, ws_acc := acc, out_c := out\<rparr>) }"

text \<open>The errors of the three paths against the reference.\<close>

definition bench_run_shape :: "gemmini_api \<Rightarrow> conv_shape \<Rightarrow> ubench \<Rightarrow> ((int \<times> int \<times> int) \<times> ubench) option" where
  "bench_run_shape G S u = do {
     u \<leftarrow> gen_data S u;
     u \<leftarrow> run_golden S u;
     u \<leftarrow> path_a G S u;
     u \<leftarrow> path_b G S u;
     u \<leftarrow> path_c G S u;
     errA \<leftarrow> max_abs_err (out_a u) (out_gold u) (OC S * OH S * OW S);
     errB \<leftarrow> max_abs_err (out_b u) (out_gold u) (OC S * OH S * OW S);
     errC \<leftarrow> max_abs_err (out_c u) (out_gold u) (OC S * OH S * OW S);
     Some ((errA, errB, errC), u) }"

definition bench_all :: "gemmini_api \<Rightarrow> ubench \<Rightarrow> ((int \<times> int \<times> int) list \<times> ubench) option" where
  "bench_all G u =
     steps_from (\<lambda>i (errs, u). map_option (\<lambda>(e, u). (errs @ [e], u)) (bench_run_shape G (shapes ! i) u))
       [0..<length shapes] ([], u)"


section \<open>What the reference computes\<close>

text \<open>The pixel of a channel at a position, 0 outside the image, in both layouts.\<close>

definition nchw_pixel :: "i8 list \<Rightarrow> conv_shape \<Rightarrow> nat \<Rightarrow> int \<Rightarrow> int \<Rightarrow> int" where
  "nchw_pixel x S ic ih iw =
     (if ih < 0 \<or> int (IH S) \<le> ih \<or> iw < 0 \<or> int (IW S) \<le> iw then 0
      else sint (x ! ((ic * IH S + nat ih) * IW S + nat iw)))"

definition nhwc_pixel :: "i8 list \<Rightarrow> conv_shape \<Rightarrow> nat \<Rightarrow> int \<Rightarrow> int \<Rightarrow> int" where
  "nhwc_pixel y S ic ih iw =
     (if ih < 0 \<or> int (IH S) \<le> ih \<or> iw < 0 \<or> int (IW S) \<le> iw then 0
      else sint (y ! ((nat ih * IW S + nat iw) * IC S + ic)))"

text \<open>The exact accumulator of an output, and the result at a position of the output.\<close>

definition conv_sum ::
    "(nat \<Rightarrow> int \<Rightarrow> int \<Rightarrow> int) \<Rightarrow> i8 list \<Rightarrow> i32 list \<Rightarrow> conv_shape \<Rightarrow> nat \<Rightarrow> nat \<Rightarrow> nat \<Rightarrow> int" where
  "conv_sum px w b S oc oh ow = sint (b ! oc) +
     (\<Sum>kh < KH S. \<Sum>kw < KW S. \<Sum>ic < IC S.
        px ic (int (oh * SH S) - int (PH S) + int kh) (int (ow * SW S) - int (PW S) + int kw) *
        sint (w ! (((kh * KW S + kw) * IC S + ic) * OC S + oc)))"

definition conv_out :: "i8 list \<Rightarrow> i8 list \<Rightarrow> i32 list \<Rightarrow> conv_shape \<Rightarrow> nat \<Rightarrow> i8" where
  "conv_out x w b S p = requantize R_MULT R_SHIFT R_OFF R_MIN R_MAX (word_of_int
     (conv_sum (nchw_pixel x S) w b S (p div total_out S) (p mod total_out S div OW S) (p mod total_out S mod OW S)))"

definition shape_ok :: "conv_shape \<Rightarrow> bool" where
  "shape_ok S \<longleftrightarrow> 0 < IC S \<and> 0 < KW S \<and> 0 < OC S \<and> 0 < OH S \<and> 0 < OW S"

definition data_ok :: "conv_shape \<Rightarrow> i8 list \<Rightarrow> i8 list \<Rightarrow> i32 list \<Rightarrow> bool" where
  "data_ok S x w b \<longleftrightarrow> IC S * IH S * IW S \<le> length x \<and> K_inner S * OC S \<le> length w \<and> OC S \<le> length b"

lemma scast_product: "(scast (x :: i8) * scast (y :: i8) :: i32) = word_of_int (sint x * sint y)"
  by (simp only: scast_eq of_int_mult)

lemma golden_in_eq:
  assumes "ic < IC S" "IC S * IH S * IW S \<le> length x"
  shows "\<exists>v. golden_in x S ic ih iw = Some v \<and> sint v = nchw_pixel x S ic ih iw"
proof (cases "ih < 0 \<or> int (IH S) \<le> ih \<or> iw < 0 \<or> int (IW S) \<le> iw")
  case False
  then have "(ic * IH S + nat ih) * IW S + nat iw < IC S * IH S * IW S"
    using assms(1) by (intro index_less) auto
  then show ?thesis using False assms(2) by (auto simp: golden_in_def nchw_pixel_def)
qed (auto simp: golden_in_def nchw_pixel_def)

lemma weight_less:
  assumes "kh < KH S" "kw < KW S" "ic < IC S" "oc < OC S"
  shows "((kh * KW S + kw) * IC S + ic) * OC S + oc < K_inner S * OC S"
proof -
  have "((kh * KW S + kw) * IC S + ic) * OC S + oc < KH S * KW S * IC S * OC S"
    using assms by (intro index_less)
  then show ?thesis by (simp add: K_inner_def ac_simps)
qed

lemma golden_acc_eq:
  assumes "data_ok S x w b" "oc < OC S"
  shows "golden_acc x w (Some b) S oc oh ow = Some (word_of_int (conv_sum (nchw_pixel x S) w b S oc oh ow))"
proof -
  let ?px = "\<lambda>ic kh kw. nchw_pixel x S ic (int (oh * SH S) - int (PH S) + int kh) (int (ow * SW S) - int (PW S) + int kw)"
  let ?w = "\<lambda>ic kh kw. sint (w ! (((kh * KW S + kw) * IC S + ic) * OC S + oc))"
  have tap: "do {
      in_v \<leftarrow> golden_in x S ic (int (oh * SH S) - int (PH S) + int kh) (int (ow * SW S) - int (PW S) + int kw);
      wt \<leftarrow> fetch (((kh * KW S + kw) * IC S + ic) * OC S + oc) w;
      Some (acc + scast in_v * scast wt) } = Some (acc + word_of_int (?px ic kh kw * ?w ic kh kw))"
    if "ic < IC S" "kh < KH S" "kw < KW S" for ic kh kw and acc :: i32
  proof -
    note ex = golden_in_eq[OF that(1), of x]
    obtain v where "golden_in x S ic (int (oh * SH S) - int (PH S) + int kh) (int (ow * SW S) - int (PW S) + int kw) = Some v"
      "sint v = ?px ic kh kw"
      using ex assms(1) unfolding data_ok_def by blast
    moreover have "((kh * KW S + kw) * IC S + ic) * OC S + oc < length w"
      using weight_less[OF that(2,3,1) assms(2)] assms(1) by (simp add: data_ok_def)
    ultimately show ?thesis by (simp only: Option.bind_lunit fetch_Some scast_product)
  qed
  have "for_range (IC S) (\<lambda>ic. for_range (KH S) (\<lambda>kh. for_range (KW S) (\<lambda>kw acc. do {
      in_v \<leftarrow> golden_in x S ic (int (oh * SH S) - int (PH S) + int kh) (int (ow * SW S) - int (PW S) + int kw);
      wt \<leftarrow> fetch (((kh * KW S + kw) * IC S + ic) * OC S + oc) w;
      Some (acc + scast in_v * scast wt) }))) (b ! oc) =
    Some (b ! oc + (\<Sum>ic < IC S. \<Sum>kh < KH S. \<Sum>kw < KW S. word_of_int (?px ic kh kw * ?w ic kh kw)))"
    by (intro for_range_sum) (rule tap)
  also have "(\<Sum>ic < IC S. \<Sum>kh < KH S. \<Sum>kw < KW S. word_of_int (?px ic kh kw * ?w ic kh kw) :: i32) =
      (\<Sum>kh < KH S. \<Sum>ic < IC S. \<Sum>kw < KW S. word_of_int (?px ic kh kw * ?w ic kh kw))"
    by (rule sum.swap)
  also have "\<dots> = (\<Sum>kh < KH S. \<Sum>kw < KW S. \<Sum>ic < IC S. word_of_int (?px ic kh kw * ?w ic kh kw))"
    by (intro sum.cong refl sum.swap)
  finally show ?thesis
    using assms by (simp add: golden_acc_def conv_sum_def Let_def data_ok_def)
qed

text \<open>Every output is the rescaled accumulator.\<close>

lemma split_output:
  assumes "oc < OC S" "oh < OH S" "ow < OW S"
  shows "((oc * OH S + oh) * OW S + ow) div total_out S = oc"
    "((oc * OH S + oh) * OW S + ow) mod total_out S div OW S = oh"
    "((oc * OH S + oh) * OW S + ow) mod total_out S mod OW S = ow"
proof -
  have p: "(oc * OH S + oh) * OW S + ow = oc * total_out S + (oh * OW S + ow)"
    by (simp add: total_out_def algebra_simps)
  have "oh * OW S + ow < total_out S" using index_less[OF assms(2,3)] by (simp add: total_out_def)
  then show "((oc * OH S + oh) * OW S + ow) div total_out S = oc"
    "((oc * OH S + oh) * OW S + ow) mod total_out S div OW S = oh"
    "((oc * OH S + oh) * OW S + ow) mod total_out S mod OW S = ow"
    unfolding p using assms(3) by simp_all
qed

lemma golden_eq:
  assumes "data_ok S x w b" "OC S * total_out S \<le> length out"
  shows "golden x w (Some b) out S = Some (overlay out {0..<OC S * total_out S} (conv_out x w b S))"
proof -
  let ?g = "conv_out x w b S"
  let ?row = "\<lambda>oc oh. {(oc * OH S + oh) * OW S..<(oc * OH S + oh) * OW S + OW S}"
  have cell: "do {
      acc \<leftarrow> golden_acc x w (Some b) S oc oh ow;
      store ((oc * OH S + oh) * OW S + ow) (requantize R_MULT R_SHIFT R_OFF R_MIN R_MAX acc) c } =
    Some (overlay c {(oc * OH S + oh) * OW S + ow} ?g)"
    if "oc < OC S" "oh < OH S" "ow < OW S" "length c = length out" for oc oh ow c
  proof -
    have "(oc * OH S + oh) * OW S + ow < OC S * OH S * OW S" using that by (intro index_less)
    moreover have "OC S * OH S * OW S \<le> length out" using assms(2) by (simp add: total_out_def mult.assoc)
    moreover have "?g ((oc * OH S + oh) * OW S + ow) = requantize R_MULT R_SHIFT R_OFF R_MIN R_MAX
        (word_of_int (conv_sum (nchw_pixel x S) w b S oc oh ow))"
      by (simp only: conv_out_def split_output[OF that(1-3)])
    ultimately show ?thesis using golden_acc_eq[OF assms(1) that(1)] that(4)
      by (simp add: store_overlay[where g = ?g])
  qed
  have "golden x w (Some b) out S = Some (overlay out
      (\<Union>oc < OC S. \<Union>oh < OH S. \<Union>ow < OW S. {(oc * OH S + oh) * OW S + ow}) ?g)"
    unfolding golden_def by (intro for_range_overlay[where L = "length out"]) (simp_all add: cell)
  also have "(\<Union>oc < OC S. \<Union>oh < OH S. \<Union>ow < OW S. {(oc * OH S + oh) * OW S + ow}) =
      (\<Union>oc < OC S. \<Union>oh < OH S. ?row oc oh)" by (simp only: points_union)
  also have "\<dots> = (\<Union>oc < OC S. \<Union>oh < OH S.
      {oc * OH S * OW S + oh * OW S..<oc * OH S * OW S + oh * OW S + OW S})" by (simp add: add_mult_distrib)
  also have "\<dots> = (\<Union>oc < OC S. {oc * (OH S * OW S)..<oc * (OH S * OW S) + OH S * OW S})"
    by (simp only: block_union mult.assoc)
  also have "\<dots> = {0..<OC S * total_out S}"
    using block_union[of 0 "OH S * OW S" "OC S"] by (simp add: total_out_def)
  finally show ?thesis .
qed

section \<open>Rearrangement\<close>

lemma transpose_eq:
  assumes "ic * ih * iw \<le> length x" "ih * iw * ic \<le> length ws"
  shows "transpose_nchw_nhwc x ic ih iw ws =
    Some (overlay ws {0..<ih * iw * ic} (\<lambda>p. x ! ((p mod ic * ih + p div ic div iw) * iw + p div ic mod iw)))"
proof -
  let ?g = "\<lambda>p. x ! ((p mod ic * ih + p div ic div iw) * iw + p div ic mod iw)"
  have pos: "h * iw * ic + c + w * ic = (h * iw + w) * ic + c" for h c w by (simp add: algebra_simps)
  have src: "c * ih * iw + h * iw + w = (c * ih + h) * iw + w" for h c w by (simp add: algebra_simps)
  have cell: "do { v \<leftarrow> fetch (c * ih * iw + h * iw + w) x; store (h * iw * ic + c + w * ic) v m } =
      Some (overlay m {(h * iw + w) * ic + c} ?g)"
    if "c < ic" "h < ih" "w < iw" "length m = length ws" for c h w m
  proof -
    have "(h * iw + w) * ic + c < ih * iw * ic" "(c * ih + h) * iw + w < ic * ih * iw"
      using that by (intro index_less; simp)+
    then show ?thesis using that assms unfolding pos src by (simp add: store_overlay[where g = ?g])
  qed
  have "transpose_nchw_nhwc x ic ih iw ws = Some (overlay ws (\<Union>c < ic. \<Union>h < ih. \<Union>w < iw. {(h * iw + w) * ic + c}) ?g)"
    unfolding transpose_nchw_nhwc_def by (intro for_range_overlay[where L = "length ws"]) (simp_all add: cell)
  also have "(\<Union>c < ic. \<Union>h < ih. \<Union>w < iw. {(h * iw + w) * ic + c}) = {0..<ih * iw * ic}"
  proof (intro equalityI subsetI)
    fix p assume p: "p \<in> {0..<ih * iw * ic}"
    then have pos: "0 < ic" "0 < iw" by (auto intro: Nat.gr0I)
    have "p div ic < ih * iw" using p by (simp add: less_mult_imp_div_less)
    then have "p div ic div iw < ih" by (simp add: less_mult_imp_div_less)
    moreover have "p = (p div ic div iw * iw + p div ic mod iw) * ic + p mod ic" by simp
    ultimately show "p \<in> (\<Union>c < ic. \<Union>h < ih. \<Union>w < iw. {(h * iw + w) * ic + c})"
      using pos by (intro UN_I[of "p mod ic"] UN_I[of "p div ic div iw"] UN_I[of "p div ic mod iw"]) auto
  next
    fix p assume "p \<in> (\<Union>c < ic. \<Union>h < ih. \<Union>w < iw. {(h * iw + w) * ic + c})"
    then obtain c h w where "c < ic" "h < ih" "w < iw" "p = (h * iw + w) * ic + c" by blast
    then show "p \<in> {0..<ih * iw * ic}" using index_less[of "h * iw + w" "ih * iw" c ic] index_less[of h ih w iw] by simp
  qed
  finally show ?thesis .
qed

text \<open>The byte of a pixel in the rearranged image.\<close>

definition nhwc_byte :: "i8 list \<Rightarrow> conv_shape \<Rightarrow> int \<Rightarrow> int \<Rightarrow> nat \<Rightarrow> i8" where
  "nhwc_byte y S ih iw ic =
     (if ih < 0 \<or> int (IH S) \<le> ih \<or> iw < 0 \<or> int (IW S) \<le> iw then 0
      else y ! ((nat ih * IW S + nat iw) * IC S + ic))"

lemma nhwc_byte_pixel: "sint (nhwc_byte y S ih iw ic) = nhwc_pixel y S ic ih iw"
  by (simp add: nhwc_byte_def nhwc_pixel_def)

lemma rearranged_pixel:
  assumes "transpose_nchw_nhwc x (IC S) (IH S) (IW S) ws = Some y" "ic < IC S"
    and "IC S * IH S * IW S \<le> length x" "IC S * IH S * IW S \<le> length ws"
  shows "nhwc_pixel y S ic ih iw = nchw_pixel x S ic ih iw"
proof (cases "ih < 0 \<or> int (IH S) \<le> ih \<or> iw < 0 \<or> int (IW S) \<le> iw")
  case False
  then have r: "nat ih < IH S" "nat iw < IW S" by auto
  have len: "IH S * IW S * IC S \<le> length ws" using assms(4) by (simp add: ac_simps)
  have "(nat ih * IW S + nat iw) * IC S + ic < IH S * IW S * IC S" using r assms(2) by (intro index_less)
  then show ?thesis
    using assms(1,2) r transpose_eq[OF assms(3) len] len
    by (auto simp: nhwc_pixel_def nchw_pixel_def nth_overlay)
qed (auto simp: nhwc_pixel_def nchw_pixel_def)

lemma inside_columns:
  assumes "kw < KW S"
  shows "(0 \<le> iw0 + int kw \<and> iw0 + int kw < int (IW S)) \<longleftrightarrow> kw_lo S iw0 \<le> kw \<and> kw < kw_hi S iw0"
  using assms by (auto simp: kw_lo_def kw_hi_def Let_def)

lemma column_bounds: "kw_lo S iw0 \<le> kw_hi S iw0" "kw_hi S iw0 \<le> KW S"
  by (auto simp: kw_lo_def kw_hi_def Let_def)

lemma skip_store:
  assumes "b \<Longrightarrow> length ys = n \<and> p + n \<le> length c \<and> (\<forall>j < n. ys ! j = g (p + j))" "\<not> b \<Longrightarrow> n = 0"
  shows "(if b then store_range p ys c else Some c) = Some (overlay c {p..<p + n} g)"
  using assms store_range_overlay[of p ys c g] by (auto simp: overlay_empty)

lemma im2col_part_eq:
  assumes "0 < IC S" "base + KW S * IC S \<le> length m" "IH S * IW S * IC S \<le> length ws"
    and g: "\<And>kw ic. kw < KW S \<Longrightarrow> ic < IC S \<Longrightarrow> g (base + (kw * IC S + ic)) = nhwc_byte ws S ih (iw0 + int kw) ic"
  shows "im2col_part S ws base ih iw0 m = Some (overlay m {base..<base + KW S * IC S} g)"
proof -
  let ?C = "IC S"
  have g': "g (base + j) = nhwc_byte ws S ih (iw0 + int (j div ?C)) (j mod ?C)" if "j < KW S * ?C" for j
    using g[of "j div ?C" "j mod ?C"] that assms(1) by (simp add: less_mult_imp_div_less)
  show ?thesis
  proof (cases "ih < 0 \<or> int (IH S) \<le> ih")
    case True
    then have "g (base + j) = 0" if "j < KW S * ?C" for j using g'[OF that] by (auto simp: nhwc_byte_def)
    then show ?thesis using True assms(2) store_range_overlay[of base "replicate (KW S * ?C) 0" m g]
      by (simp add: im2col_part_def)
  next
    case False
    define lo where "lo = kw_lo S iw0"
    define hi where "hi = kw_hi S iw0"
    have b: "lo \<le> hi" "hi \<le> KW S" using column_bounds by (simp_all add: lo_def hi_def)
    then have bC: "lo * ?C \<le> hi * ?C" "hi * ?C \<le> KW S * ?C" by simp_all
    have parts: "lo * ?C + (hi - lo) * ?C = hi * ?C" "hi * ?C + (KW S - hi) * ?C = KW S * ?C"
      using b by (simp_all flip: add_mult_distrib)
    have room: "base + hi * ?C \<le> length m" using bC(2) assms(2) by (meson add_left_mono order_trans)
    have outside: "g (base + j) = 0" if "j < KW S * ?C" "j div ?C < lo \<or> hi \<le> j div ?C" for j
    proof -
      have "j div ?C < KW S" using that(1) by (simp add: less_mult_imp_div_less)
      then show ?thesis using that g'[OF that(1)] inside_columns[of "j div ?C" S iw0]
        by (auto simp: nhwc_byte_def lo_def hi_def)
    qed
    let ?start = "(nat ih * IW S + nat (iw0 + int lo)) * ?C"
    have inside: "0 \<le> iw0 + int kw \<and> iw0 + int kw < int (IW S)" if "lo \<le> kw" "kw < hi" for kw
      using inside_columns[of kw S iw0] that b by (simp add: lo_def hi_def)
    have src: "?start + (hi - lo) * ?C \<le> length ws"
      and bytes: "\<And>j. j < (hi - lo) * ?C \<Longrightarrow> ws ! (?start + j) = g (base + lo * ?C + j)" if lh: "lo < hi"
    proof -
      have last: "0 \<le> iw0 + int lo" "iw0 + int (hi - 1) < int (IW S)" using inside[of lo] inside[of "hi - 1"] lh by auto
      then have "nat (iw0 + int lo) + (hi - lo) \<le> IW S" using lh by auto
      moreover have row: "Suc (nat ih) * IW S \<le> IH S * IW S" using False by (intro mult_le_mono1) auto
      ultimately have "nat ih * IW S + nat (iw0 + int lo) + (hi - lo) \<le> IH S * IW S"
        using row by simp
      then have "(nat ih * IW S + nat (iw0 + int lo) + (hi - lo)) * ?C \<le> IH S * IW S * ?C" by (rule mult_le_mono1)
      then show "?start + (hi - lo) * ?C \<le> length ws" using assms(3) by (simp add: add_mult_distrib)
      show "ws ! (?start + j) = g (base + lo * ?C + j)" if j: "j < (hi - lo) * ?C" for j
      proof -
        have jd: "j div ?C < hi - lo" using j by (simp add: less_mult_imp_div_less)
        have "lo * ?C + j < hi * ?C" using j parts(1) by linarith
        then have 1: "lo * ?C + j < KW S * ?C" using bC(2) by (rule less_le_trans)
        have 2: "(lo * ?C + j) div ?C = lo + j div ?C" "(lo * ?C + j) mod ?C = j mod ?C" using assms(1) by simp_all
        have 3: "0 \<le> iw0 + int (lo + j div ?C)" "iw0 + int (lo + j div ?C) < int (IW S)"
          using inside[of "lo + j div ?C"] jd by auto
        have 4: "nat (iw0 + int (lo + j div ?C)) = nat (iw0 + int lo) + j div ?C" using last(1) by auto
        have 5: "(nat ih * IW S + (nat (iw0 + int lo) + j div ?C)) * ?C + j mod ?C = ?start + j"
          by (simp add: add_mult_distrib)
        show ?thesis using g'[OF 1] 2 3 4 5 False by (simp add: nhwc_byte_def add.assoc)
      qed
    qed
    let ?m1 = "overlay m {base..<base + lo * ?C} g"
    have 1: "(if 0 < lo then store_range base (replicate (lo * ?C) 0) m else Some m) = Some ?m1"
    proof (intro skip_store conjI allI impI)
      fix j assume j: "j < lo * ?C"
      then have "j < KW S * ?C" using bC by (meson less_le_trans)
      then have "g (base + j) = 0" using outside[of j] j by (simp add: less_mult_imp_div_less)
      then show "replicate (lo * ?C) 0 ! j = g (base + j)" using j by simp
    next
      show "base + lo * ?C \<le> length m" using bC assms(2) by (meson add_left_mono order_trans)
    qed simp_all
    let ?m2 = "overlay ?m1 {base + lo * ?C..<base + lo * ?C + (hi - lo) * ?C} g"
    have 2: "(if lo < hi then do {
        src \<leftarrow> fetch_range ?start ((hi - lo) * ?C) ws;
        store_range (base + lo * ?C) src ?m1 } else Some ?m1) = Some ?m2"
    proof -
      have "base + lo * ?C + (hi - lo) * ?C \<le> length ?m1" using room parts(1) by (simp add: add.assoc)
      moreover have len: "(hi - lo) * ?C \<le> length ws - ?start" if "lo < hi" using src[OF that] by linarith
      ultimately have "(if lo < hi then store_range (base + lo * ?C) (take ((hi - lo) * ?C) (drop ?start ws)) ?m1 else Some ?m1) = Some ?m2"
        using src bytes len by (intro skip_store) (auto simp: min_absorb2)
      then show ?thesis using src by (auto split: if_splits)
    qed
    have 3: "(if hi < KW S then store_range (base + hi * ?C) (replicate ((KW S - hi) * ?C) 0) ?m2 else Some ?m2) =
        Some (overlay ?m2 {base + hi * ?C..<base + hi * ?C + (KW S - hi) * ?C} g)"
    proof (intro skip_store conjI allI impI)
      fix j assume "j < (KW S - hi) * ?C"
      then have "hi * ?C + j < KW S * ?C" using parts(2) by linarith
      then show "replicate ((KW S - hi) * ?C) 0 ! j = g (base + hi * ?C + j)"
        using outside[of "hi * ?C + j"] assms(1) \<open>j < (KW S - hi) * ?C\<close> by (simp add: add.assoc)
    qed (use assms(2) parts(2) b in \<open>simp_all add: add.assoc\<close>)
    have "{base..<base + lo * ?C} \<union> {base + lo * ?C..<base + lo * ?C + (hi - lo) * ?C} \<union>
        {base + hi * ?C..<base + hi * ?C + (KW S - hi) * ?C} = {base..<base + KW S * ?C}"
      unfolding add.assoc parts
      by (simp only: ivl_disj_un_two(3)[OF le_add1 add_left_mono[OF bC(1)]]
          ivl_disj_un_two(3)[OF le_add1 add_left_mono[OF bC(2)]])
    then show ?thesis
      using False unfolding im2col_part_def Let_def lo_def[symmetric] hi_def[symmetric]
      by (simp only: if_False 1 2 3 Option.bind_lunit simp_thms) (simp only: overlay_union)
  qed
qed

text \<open>The patch of an output, and a row of the matrix of patches.\<close>

definition patch :: "conv_shape \<Rightarrow> i8 list \<Rightarrow> nat \<Rightarrow> nat \<Rightarrow> i8" where
  "patch S ws q j = nhwc_byte ws S (int (q div OW S * SH S) - int (PH S) + int (j div (KW S * IC S)))
     (int (q mod OW S * SW S) - int (PW S) + int (j div IC S mod KW S)) (j mod IC S)"

lemma patch_at:
  assumes "kw < KW S" "ic < IC S"
  shows "patch S ws q (kh * (KW S * IC S) + (kw * IC S + ic)) =
    nhwc_byte ws S (int (q div OW S * SH S) - int (PH S) + int kh) (int (q mod OW S * SW S) - int (PW S) + int kw) ic"
proof -
  have "kw * IC S + ic < KW S * IC S" using assms by (rule index_less)
  then have "(kh * (KW S * IC S) + (kw * IC S + ic)) div (KW S * IC S) = kh" by (rule index_div)
  moreover have eq: "kh * (KW S * IC S) + (kw * IC S + ic) = (kh * KW S + kw) * IC S + ic" by (simp add: algebra_simps)
  have "(kh * (KW S * IC S) + (kw * IC S + ic)) div IC S mod KW S = kw"
    "(kh * (KW S * IC S) + (kw * IC S + ic)) mod IC S = ic"
    unfolding eq using assms by simp_all
  ultimately show ?thesis by (simp only: patch_def)
qed

lemma im2col_row_eq:
  assumes "0 < IC S" "row + K_inner S \<le> length m" "IH S * IW S * IC S \<le> length ws"
    and g: "\<And>j. j < K_inner S \<Longrightarrow> g (row + j) = patch S ws q j"
  shows "im2col_row S ws row q m = Some (overlay m {row..<row + K_inner S} g)"
proof -
  let ?B = "KW S * IC S"
  have K: "K_inner S = KH S * ?B" by (simp add: K_inner_def ac_simps)
  have "im2col_part S ws (row + kh * KW S * IC S) (int (q div OW S * SH S) - int (PH S) + int kh)
      (int (q mod OW S * SW S) - int (PW S)) c = Some (overlay c {row + kh * ?B..<row + kh * ?B + ?B} g)"
    if "kh < KH S" "length c = length m" for kh c
  proof -
    have le: "kh * ?B + ?B \<le> K_inner S" using mult_le_mono1[of "Suc kh" "KH S" ?B] that(1) by (simp add: K)
    have "im2col_part S ws (row + kh * ?B) (int (q div OW S * SH S) - int (PH S) + int kh)
        (int (q mod OW S * SW S) - int (PW S)) c = Some (overlay c {row + kh * ?B..<row + kh * ?B + ?B} g)"
    proof (rule im2col_part_eq[OF assms(1) _ assms(3)])
      fix kw ic assume k: "kw < KW S" "ic < IC S"
      then have "kh * ?B + (kw * IC S + ic) < K_inner S" using index_less[OF k] le by linarith
      then show "g (row + kh * ?B + (kw * IC S + ic)) = nhwc_byte ws S
          (int (q div OW S * SH S) - int (PH S) + int kh) (int (q mod OW S * SW S) - int (PW S) + int kw) ic"
        using g[of "kh * ?B + (kw * IC S + ic)"] patch_at[OF k] by (simp add: add.assoc)
    qed (use le assms(2) that(2) in linarith)
    then show ?thesis by (simp add: mult.assoc)
  qed
  then have "im2col_row S ws row q m = Some (overlay m (\<Union>kh < KH S. {row + kh * ?B..<row + kh * ?B + ?B}) g)"
    unfolding im2col_row_def Let_def by (intro for_range_overlay[where L = "length m"]) simp_all
  then show ?thesis by (simp only: block_union K)
qed

end
