(* ===== verification/Gemmini_Paths.thy ===== *)
theory Gemmini_Paths
  imports Gemmini_Conv
begin

text \<open>
  The convolution benchmark compares its paths: the products of patches give the reference bit for bit
  on every shape of its table, and the accelerator's own convolution, which rescales in one step, stays
  within one of it. The accelerator is a locale; it is shown to hold of a simulated one.
\<close>

section \<open>Products of patches\<close>

text \<open>The exact entry of a product with a row added.\<close>

definition matmul_sum :: "i8 list \<Rightarrow> i8 list \<Rightarrow> i32 list \<Rightarrow> nat \<Rightarrow> nat \<Rightarrow> nat \<Rightarrow> nat \<Rightarrow> int" where
  "matmul_sum a b d n k i j = sint (d ! j) + (\<Sum>l < k. sint (a ! (i * k + l)) * sint (b ! (l * n + j)))"

definition fits32 :: "int \<Rightarrow> bool" where
  "fits32 x \<longleftrightarrow> - (2 ^ 31) \<le> x \<and> x < 2 ^ 31"

lemma patches_product:
  assumes "\<And>l. l < K_inner S \<Longrightarrow> a ! (i * K_inner S + l) = patch S ws q l"
  shows "matmul_sum a w b (OC S) (K_inner S) i oc =
    conv_sum (nhwc_pixel ws S) w b S oc (q div OW S) (q mod OW S)"
proof -
  let ?f = "\<lambda>l. sint (a ! (i * K_inner S + l)) * sint (w ! (l * OC S + oc))"
  have K: "K_inner S = KH S * (KW S * IC S)" by (simp add: K_inner_def ac_simps)
  have "?f (kh * (KW S * IC S) + (kw * IC S + ic)) =
      nhwc_pixel ws S ic (int (q div OW S * SH S) - int (PH S) + int kh) (int (q mod OW S * SW S) - int (PW S) + int kw) *
      sint (w ! (((kh * KW S + kw) * IC S + ic) * OC S + oc))"
    if "kh < KH S" "kw < KW S" "ic < IC S" for kh kw ic
  proof -
    have "kh * (KW S * IC S) + (kw * IC S + ic) < K_inner S"
      using that unfolding K by (intro index_less)
    then have a: "sint (a ! (i * K_inner S + (kh * (KW S * IC S) + (kw * IC S + ic)))) = nhwc_pixel ws S ic
        (int (q div OW S * SH S) - int (PH S) + int kh) (int (q mod OW S * SW S) - int (PW S) + int kw)"
      by (simp only: assms patch_at[OF that(2,3)] nhwc_byte_pixel)
    have l: "(kh * KW S + kw) * IC S + ic = kh * (KW S * IC S) + (kw * IC S + ic)" by (simp add: algebra_simps)
    show ?thesis by (simp only: a l)
  qed
  then have "(\<Sum>l < K_inner S. ?f l) = (\<Sum>kh < KH S. \<Sum>kw < KW S. \<Sum>ic < IC S.
      nhwc_pixel ws S ic (int (q div OW S * SH S) - int (PH S) + int kh) (int (q mod OW S * SW S) - int (PW S) + int kw) *
      sint (w ! (((kh * KW S + kw) * IC S + ic) * OC S + oc)))"
    unfolding K sum_blocks by (intro sum.cong refl) simp_all
  then show ?thesis by (simp add: matmul_sum_def conv_sum_def)
qed

lemma byte_bounds: "- 128 \<le> sint (x :: i8)" "sint (x :: i8) \<le> 127"
  using sint_ge[of x] sint_lt[of x] by simp_all

lemma pixel_abs: "\<bar>nchw_pixel x S ic ih iw\<bar> \<le> 128"
  using byte_bounds[of "x ! ((ic * IH S + nat ih) * IW S + nat iw)"] by (auto simp: nchw_pixel_def abs_le_iff)

text \<open>No accumulator overflows when the bias is a byte and a patch has at most \<open>2 ^ 16\<close> elements.\<close>

lemma conv_sum_abs:
  assumes "\<bar>sint (b ! oc)\<bar> \<le> 128"
  shows "\<bar>conv_sum (nchw_pixel x S) w b S oc oh ow\<bar> \<le> 128 + int (K_inner S) * 16384"
proof -
  have tap: "\<bar>nchw_pixel x S ic ih iw * sint (v :: i8)\<bar> \<le> 16384" for ic ih iw v
  proof -
    have "\<bar>sint v\<bar> \<le> 128" using byte_bounds[of v] by simp
    then have "\<bar>nchw_pixel x S ic ih iw\<bar> * \<bar>sint v\<bar> \<le> 128 * 128" using pixel_abs by (intro mult_mono) auto
    then show ?thesis by (simp add: abs_mult)
  qed
  have "\<bar>\<Sum>kh < KH S. \<Sum>kw < KW S. \<Sum>ic < IC S. nchw_pixel x S ic (f kh) (g kw) * sint (w ! h kh kw ic)\<bar> \<le>
      (\<Sum>kh < KH S. \<Sum>kw < KW S. \<Sum>ic < IC S. 16384)" for f g h
    by (intro order.trans[OF sum_abs] sum_mono) (rule tap)
  then show ?thesis using assms unfolding conv_sum_def
    by (intro order.trans[OF abs_triangle_ineq] add_mono) (auto simp: K_inner_def ac_simps)
qed

lemma requant_rows_eq:
  assumes "base + rows \<le> total_out S" "rows * OC S \<le> length acc" "OC S * total_out S \<le> length out" "0 < OW S"
    and g: "\<And>i oc. i < rows \<Longrightarrow> oc < OC S \<Longrightarrow>
      requantize R_MULT R_SHIFT R_OFF R_MIN R_MAX (acc ! (i * OC S + oc)) = g (oc * total_out S + (base + i))"
  shows "requant_rows acc base rows S out = Some (overlay out
    {p. p < OC S * total_out S \<and> base \<le> p mod total_out S \<and> p mod total_out S < base + rows} g)"
proof -
  let ?P = "total_out S"
  have pos: "(base + i) div OW S * OW S + (base + i) mod OW S + oc * OH S * OW S = oc * ?P + (base + i)" for i oc
    by (simp add: total_out_def algebra_simps)
  have cell: "do {
      a \<leftarrow> fetch (i * OC S + oc) acc;
      store ((base + i) div OW S * OW S + (base + i) mod OW S + oc * OH S * OW S)
        (requantize R_MULT R_SHIFT R_OFF R_MIN R_MAX a) c } = Some (overlay c {oc * ?P + (base + i)} g)"
    if "i < rows" "oc < OC S" "length c = length out" for i oc c
  proof -
    have "i * OC S + oc < rows * OC S" "oc * ?P + (base + i) < OC S * ?P"
      using that assms(1) by (intro index_less; simp)+
    then show ?thesis using that assms(2,3) g[OF that(1,2)] unfolding pos by (simp add: store_overlay[where g = g])
  qed
  have "requant_rows acc base rows S out =
      Some (overlay out (\<Union>i < rows. \<Union>oc < OC S. {oc * ?P + (base + i)}) g)"
    unfolding requant_rows_def Let_def by (intro for_range_overlay[where L = "length out"] cell) (assumption | rule refl | simp)+
  also have "(\<Union>i < rows. \<Union>oc < OC S. {oc * ?P + (base + i)}) =
      {p. p < OC S * ?P \<and> base \<le> p mod ?P \<and> p mod ?P < base + rows}"
  proof (intro equalityI subsetI)
    fix p assume "p \<in> (\<Union>i < rows. \<Union>oc < OC S. {oc * ?P + (base + i)})"
    then obtain i oc where "i < rows" "oc < OC S" "p = oc * ?P + (base + i)" by blast
    then show "p \<in> {p. p < OC S * ?P \<and> base \<le> p mod ?P \<and> p mod ?P < base + rows}"
      using index_less[of oc "OC S" "base + i" ?P] assms(1) by simp
  next
    fix p assume p: "p \<in> {p. p < OC S * ?P \<and> base \<le> p mod ?P \<and> p mod ?P < base + rows}"
    then have "p div ?P < OC S" "p = p div ?P * ?P + (base + (p mod ?P - base))" "p mod ?P - base < rows"
      by (auto simp: less_mult_imp_div_less)
    then show "p \<in> (\<Union>i < rows. \<Union>oc < OC S. {oc * ?P + (base + i)})"
      by (intro UN_I[of "p mod ?P - base"] UN_I[of "p div ?P"]) auto
  qed
  finally show ?thesis .
qed

lemma max_abs_err_bound:
  assumes "n \<le> length a" "n \<le> length b" "\<And>i. i < n \<Longrightarrow> \<bar>sint (a ! i) - sint (b ! i)\<bar> \<le> B" "0 \<le> B"
  shows "\<exists>e. max_abs_err a b n = Some e \<and> 0 \<le> e \<and> e \<le> B"
  unfolding max_abs_err_def
proof (rule steps_from_inv[where J = "\<lambda>k m. 0 \<le> m \<and> m \<le> B"])
  fix i and m :: int assume "i < n" "0 \<le> m \<and> m \<le> B"
  then show "\<exists>m'. do {
     x \<leftarrow> fetch i a;
     y \<leftarrow> fetch i b;
     let d = sint x - sint y in let d = (if d < 0 then - d else d) in Some (if m < d then d else m) } = Some m' \<and>
      0 \<le> m' \<and> m' \<le> B"
    using assms(1,2) assms(3)[of i] by (auto simp: Let_def)
qed (use assms(4) in simp)

text \<open>Two stages of rounding stay next to any rounding to nearest of the whole factor.\<close>

lemma sint_of_i32: "- 2147483648 \<le> x \<Longrightarrow> x < 2147483648 \<Longrightarrow> sint (word_of_int x :: i32) = x"
  unfolding sint_sbintrunc' by (intro signed_take_bit_int_eq_self) simp_all

lemma sint_of_i8: "- 128 \<le> x \<Longrightarrow> x \<le> 127 \<Longrightarrow> sint (word_of_int x :: i8) = x"
  unfolding sint_sbintrunc' by (intro signed_take_bit_int_eq_self) simp_all

lemma div_bounds: "0 < m \<Longrightarrow> y div m * m \<le> y \<and> y < y div m * m + (m :: int)"
  using div_mult_mod_eq[of y m] pos_mod_bound[of m y] pos_mod_sign[of m y] by linarith

lemma scale_q31_value: "scale_q31 = 805306368"
  unfolding scale_q31_def R_MULT_def R_SHIFT_def i32_of_def by (simp add: sint_of_i32 del: sint_sbintrunc)

lemma requantize_eq:
  assumes "fits32 s"
  shows "requantize R_MULT R_SHIFT R_OFF R_MIN R_MAX (word_of_int s) =
    word_of_int (max (- 128) (min 127 (((s * 1610612736 + 1073741824) div 2147483648 + 1) div 2)))"
proof -
  define s1 where "s1 = (s * 1610612736 + 1073741824) div 2147483648"
  define s2 where "s2 = (s1 + 1) div 2"
  have s: "- 2147483648 \<le> s" "s < 2147483648" using assms by (simp_all add: fits32_def)
  have s1: "- 2147483648 \<le> s1" "s1 < 2147483647" unfolding s1_def using s by linarith+
  have s2: "- 2147483648 \<le> s2" "s2 < 2147483648" unfolding s2_def using s1 by linarith+
  have i1: "i32_of ((sint (word_of_int s :: i32) * 1610612736 + 2 ^ 30) div 2 ^ 31) = s1"
    using sint_of_i32[OF s] sint_of_i32[of s1] s1 by (simp add: i32_of_def s1_def)
  have i2: "i32_of ((s1 + 2 ^ nat (1 - 1)) div 2 ^ nat 1) = s2" "i32_of (s2 + 0) = s2"
    using sint_of_i32[OF s2] by (simp_all add: i32_of_def s2_def)
  have "requantize R_MULT R_SHIFT R_OFF R_MIN R_MAX (word_of_int s) = word_of_int (max (- 128) (min 127 s2))"
    unfolding requantize_def Let_def R_MULT_def R_SHIFT_def R_OFF_def R_MIN_def R_MAX_def i1
    by (simp only: zero_less_one if_True i2) (simp add: max_def min_def)
  then show ?thesis by (simp only: s1_def s2_def)
qed

lemma clamp_near: "\<bar>h - k\<bar> \<le> 1 \<Longrightarrow> \<bar>max a (min b h) - max a (min b k)\<bar> \<le> (1 :: int)"
  by (auto simp: max_def min_def)

lemma two_stage_near:
  assumes "fits32 s" "\<bar>h * 2 ^ 31 - s * scale_q31\<bar> \<le> 2 ^ 30"
  shows "\<bar>sint (word_of_int (max (- 128) (min 127 h)) :: i8) -
    sint (requantize R_MULT R_SHIFT R_OFF R_MIN R_MAX (word_of_int s))\<bar> \<le> 1"
proof -
  let ?s2 = "((s * 1610612736 + 1073741824) div 2147483648 + 1) div 2"
  have "\<bar>h * 2147483648 - s * 805306368\<bar> \<le> 1073741824" using assms(2) by (simp add: scale_q31_value)
  then have near: "\<bar>h - ?s2\<bar> \<le> 1"
  proof -
    obtain q1 where 1: "q1 = (s * 1610612736 + 1073741824) div 2147483648" "q1 * 2147483648 \<le> s * 1610612736 + 1073741824"
      "s * 1610612736 + 1073741824 < q1 * 2147483648 + 2147483648"
      using div_bounds[of 2147483648 "s * 1610612736 + 1073741824"] by simp
    obtain q2 where 2: "q2 = (q1 + 1) div 2" "q2 * 2 \<le> q1 + 1" "q1 + 1 < q2 * 2 + 2"
      using div_bounds[of 2 "q1 + 1"] by simp
    show "\<bar>h - ?s2\<bar> \<le> 1"
      using 1(2,3) 2(2,3) \<open>\<bar>h * 2147483648 - s * 805306368\<bar> \<le> 1073741824\<close> unfolding 1(1)[symmetric] 2(1)[symmetric]
      unfolding abs_le_iff by linarith
  qed
  have clamp: "- 128 \<le> max (- 128) (min 127 x)" "max (- 128) (min 127 x) \<le> 127" for x :: int by simp_all
  show ?thesis unfolding requantize_eq[OF assms(1)] sint_of_i8[OF clamp] by (rule clamp_near[OF near])
qed

section \<open>The accelerator\<close>

text \<open>
  What is known of it: the array has at most 16 rows; the product is exact where it fits 32 bits; the
  convolution is rescaled to a nearest integer and saturated.
\<close>

locale gemmini =
  fixes G :: gemmini_api
  assumes dim: "0 < DIM G" "DIM G \<le> 16"
    and matmul_length: "length (tiled_matmul G m n k a b d c) = length c"
    and matmul_entry: "m * k \<le> length a \<Longrightarrow> k * n \<le> length b \<Longrightarrow> n \<le> length d \<Longrightarrow> m * n \<le> length c \<Longrightarrow>
      i < m \<Longrightarrow> j < n \<Longrightarrow> fits32 (matmul_sum a b d n k i j) \<Longrightarrow>
      tiled_matmul G m n k a b d c ! (i * n + j) = word_of_int (matmul_sum a b d n k i j)"
    and conv_length: "length (tiled_conv G ih iw ic n oh ow s p k x w bs f out) = length out"
    and conv_entry: "KH S = KW S \<Longrightarrow> SH S = SW S \<Longrightarrow> PH S = PW S \<Longrightarrow>
      IC S * IH S * IW S \<le> length x \<Longrightarrow> K_inner S * OC S \<le> length w \<Longrightarrow> OC S \<le> length bs \<Longrightarrow>
      OC S * total_out S \<le> length out \<Longrightarrow> q < total_out S \<Longrightarrow> j < OC S \<Longrightarrow>
      fits32 (conv_sum (nhwc_pixel x S) w bs S j (q div OW S) (q mod OW S)) \<Longrightarrow>
      \<exists>h. \<bar>h * 2 ^ 31 - conv_sum (nhwc_pixel x S) w bs S j (q div OW S) (q mod OW S) * f\<bar> \<le> 2 ^ 30 \<and>
        tiled_conv G (IH S) (IW S) (IC S) (OC S) (OH S) (OW S) (SH S) (PH S) (KH S) x w bs f out ! (q * OC S + j) =
          word_of_int (max (- 128) (min 127 h))"

text \<open>Buffers of the declared sizes, shapes that fit them, and a bias of bytes.\<close>

definition declared :: "ubench \<Rightarrow> bool" where
  "declared u \<longleftrightarrow> length (in_nchw u) = B_I8 \<and> length (weight_hwio u) = B_I8 \<and> length (bias_buf u) = B_BIAS \<and>
     length (ws_input u) = B_I8 \<and> length (ws_out_nhwc u) = B_ACC \<and> length (ws_im2col u) = B_IM \<and>
     length (ws_acc u) = B_ACC \<and> length (out_gold u) = B_ACC \<and> length (out_a u) = B_ACC \<and>
     length (out_b u) = B_ACC \<and> length (out_c u) = B_ACC"

definition shape_fits :: "conv_shape \<Rightarrow> bool" where
  "shape_fits S \<longleftrightarrow> KH S = KW S \<and> SH S = SW S \<and> PH S = PW S \<and> IC S * IH S * IW S \<le> B_I8 \<and>
     K_inner S * OC S \<le> B_I8 \<and> OC S \<le> B_BIAS \<and> OC S * total_out S \<le> B_ACC \<and> total_out S * K_inner S \<le> B_IM \<and>
     16 * K_inner S \<le> B_IM \<and> 16 * OC S \<le> B_ACC \<and> K_inner S \<le> 2 ^ 16"

definition bias_ok :: "conv_shape \<Rightarrow> i32 list \<Rightarrow> bool" where
  "bias_ok S b \<longleftrightarrow> (\<forall>oc < OC S. \<bar>sint (b ! oc)\<bar> \<le> 128)"

lemma table_fits: "S \<in> set shapes \<Longrightarrow> shape_ok S \<and> shape_fits S"
proof -
  have "list_all (\<lambda>S. shape_ok S \<and> shape_fits S) shapes"
    by (simp add: shapes_def shape_ok_def shape_fits_def OH_def OW_def out_dim_def total_out_def K_inner_def
        B_I8_def B_IM_def B_ACC_def B_BIAS_def signed_divide_int_def)
  then show "S \<in> set shapes \<Longrightarrow> shape_ok S \<and> shape_fits S" by (simp add: list_all_iff)
qed

lemma accumulators_fit:
  assumes "bias_ok S b" "shape_fits S" "oc < OC S"
  shows "fits32 (conv_sum (nchw_pixel x S) w b S oc oh ow)"
proof -
  have "\<bar>sint (b ! oc)\<bar> \<le> 128" using assms(1,3) by (simp add: bias_ok_def)
  note conv_sum_abs[OF this, of x S w oh ow]
  moreover have "int (K_inner S) * 16384 \<le> 2 ^ 16 * 16384" using assms(2) by (simp add: shape_fits_def)
  ultimately show ?thesis by (simp add: fits32_def abs_le_iff)
qed

lemma rearranged:
  assumes "shape_fits S" "length x = B_I8" "length ws0 = B_I8"
  shows "\<exists>ws. transpose_nchw_nhwc x (IC S) (IH S) (IW S) ws0 = Some ws \<and> length ws = B_I8 \<and>
    (\<forall>w b oc oh ow. conv_sum (nhwc_pixel ws S) w b S oc oh ow = conv_sum (nchw_pixel x S) w b S oc oh ow)"
proof -
  have len: "IC S * IH S * IW S \<le> length x" "IC S * IH S * IW S \<le> length ws0"
    using assms by (simp_all add: shape_fits_def)
  then have "IH S * IW S * IC S \<le> length ws0" by (simp add: ac_simps)
  note t = transpose_eq[OF len(1) this]
  then obtain ws where ws: "transpose_nchw_nhwc x (IC S) (IH S) (IW S) ws0 = Some ws" "length ws = B_I8"
    using assms(3) by simp
  note px = rearranged_pixel[OF ws(1) _ len]
  have "conv_sum (nhwc_pixel ws S) w b S oc oh ow = conv_sum (nchw_pixel x S) w b S oc oh ow" for w b oc oh ow
    unfolding conv_sum_def by (intro arg_cong2[where f = "(+)"] sum.cong refl) (simp add: px)
  then show ?thesis using ws by blast
qed

text \<open>The matrix of patches from output \<open>t\<close> on, with zero rows at the end.\<close>

lemma gather_eq:
  assumes "0 < IC S" "n * K_inner S \<le> length m" "IH S * IW S * IC S \<le> length ws"
  shows "for_range n (\<lambda>i. if rows \<le> i then store_range (i * K_inner S) (replicate (K_inner S) 0)
      else im2col_row S ws (i * K_inner S) (t + i)) m =
    Some (overlay m {0..<n * K_inner S}
      (\<lambda>p. if rows \<le> p div K_inner S then 0 else patch S ws (t + p div K_inner S) (p mod K_inner S)))"
proof -
  let ?K = "K_inner S"
  let ?g = "\<lambda>p. if rows \<le> p div ?K then 0 else patch S ws (t + p div ?K) (p mod ?K)"
  have row: "(if rows \<le> i then store_range (i * ?K) (replicate ?K 0) else im2col_row S ws (i * ?K) (t + i)) c =
      Some (overlay c {i * ?K..<i * ?K + ?K} ?g)" if "i < n" "length c = length m" for i c
  proof -
    have "i * ?K + ?K \<le> length c" using mult_le_mono1[of "Suc i" n ?K] that assms(2) by simp
    moreover have "?g (i * ?K + j) = (if rows \<le> i then 0 else patch S ws (t + i) j)" if "j < ?K" for j
      using that by (simp only: index_div index_mod)
    ultimately show ?thesis
      using store_range_overlay[of "i * ?K" "replicate ?K 0" c ?g] im2col_row_eq[OF assms(1) _ assms(3), of "i * ?K" c ?g "t + i"]
      by simp
  qed
  have "for_range n (\<lambda>i. if rows \<le> i then store_range (i * ?K) (replicate ?K 0) else im2col_row S ws (i * ?K) (t + i)) m =
      Some (overlay m (\<Union>i < n. {i * ?K..<i * ?K + ?K}) ?g)"
    by (intro for_range_overlay[where L = "length m"] row refl)
  then show ?thesis using block_union[of 0 ?K n] by simp
qed

context gemmini
begin

text \<open>The rescaled entries of a product of patches are the reference's.\<close>

lemma product_result:
  assumes "shape_fits S" "bias_ok S b" "length w = B_I8" "length b = B_BIAS" "length c = B_ACC"
    and sums: "\<And>w b oc oh ow. conv_sum (nhwc_pixel ws S) w b S oc oh ow = conv_sum (nchw_pixel x S) w b S oc oh ow"
    and "n * K_inner S \<le> length m" "n * OC S \<le> B_ACC" "rows \<le> n" "t + rows \<le> total_out S"
    and patches: "\<And>i l. i < rows \<Longrightarrow> l < K_inner S \<Longrightarrow> m ! (i * K_inner S + l) = patch S ws (t + i) l"
    and "i < rows" "oc < OC S"
  shows "requantize R_MULT R_SHIFT R_OFF R_MIN R_MAX (tiled_matmul G n (OC S) (K_inner S) m w b c ! (i * OC S + oc)) =
    conv_out x w b S (oc * total_out S + (t + i))"
proof -
  let ?e = "conv_sum (nchw_pixel x S) w b S oc ((t + i) div OW S) ((t + i) mod OW S)"
  have e: "matmul_sum m w b (OC S) (K_inner S) i oc = ?e"
    using patches_product[of S m i ws "t + i" w b oc] patches[OF assms(12)] by (simp add: sums)
  have "fits32 (matmul_sum m w b (OC S) (K_inner S) i oc)" unfolding e by (rule accumulators_fit[OF assms(2,1,13)])
  then have "tiled_matmul G n (OC S) (K_inner S) m w b c ! (i * OC S + oc) = word_of_int ?e"
    using assms(1,3-5,7-9,12,13) unfolding e[symmetric] by (intro matmul_entry) (auto simp: shape_fits_def)
  moreover have "t + i < total_out S" using assms(10,12) by simp
  then have "conv_out x w b S (oc * total_out S + (t + i)) =
      requantize R_MULT R_SHIFT R_OFF R_MIN R_MAX (word_of_int ?e)"
    by (simp only: conv_out_def index_div index_mod)
  ultimately show ?thesis by simp
qed

lemma path_c_eq:
  assumes "shape_ok S" "shape_fits S" "declared u" "bias_ok S (bias_buf u)"
  shows "\<exists>ws m acc. path_c G S u = Some (u\<lparr>ws_input := ws, ws_im2col := m, ws_acc := acc,
      out_c := overlay (out_c u) {0..<OC S * total_out S} (conv_out (in_nchw u) (weight_hwio u) (bias_buf u) S)\<rparr>) \<and>
    length ws = B_I8 \<and> length m = B_IM \<and> length acc = B_ACC"
proof -
  let ?P = "total_out S" and ?K = "K_inner S" and ?g = "conv_out (in_nchw u) (weight_hwio u) (bias_buf u) S"
  have len: "length (in_nchw u) = B_I8" "length (ws_input u) = B_I8" "length (ws_im2col u) = B_IM"
    "length (weight_hwio u) = B_I8" "length (bias_buf u) = B_BIAS" "length (ws_acc u) = B_ACC" "length (out_c u) = B_ACC"
    using assms(3) by (simp_all add: declared_def)
  obtain ws where ws: "transpose_nchw_nhwc (in_nchw u) (IC S) (IH S) (IW S) (ws_input u) = Some ws" "length ws = B_I8"
    "\<And>w b oc oh ow. conv_sum (nhwc_pixel ws S) w b S oc oh ow = conv_sum (nchw_pixel (in_nchw u) S) w b S oc oh ow"
    using rearranged[OF assms(2) len(1,2)] by blast
  define m where "m = overlay (ws_im2col u) {0..<?P * ?K}
    (\<lambda>p. if ?P \<le> p div ?K then 0 else patch S ws (0 + p div ?K) (p mod ?K))"
  have room: "?P * ?K \<le> length (ws_im2col u)" "IH S * IW S * IC S \<le> length ws"
    using assms(2) len(3) ws(2) by (simp_all add: shape_fits_def ac_simps)
  have "for_range ?P (\<lambda>r. im2col_row S ws (r * ?K) r) (ws_im2col u) =
      for_range ?P (\<lambda>i. if ?P \<le> i then store_range (i * ?K) (replicate ?K 0) else im2col_row S ws (i * ?K) (0 + i)) (ws_im2col u)"
    by (intro steps_from_cong) auto
  also have "\<dots> = Some m" unfolding m_def using assms(1) by (intro gather_eq room) (simp add: shape_ok_def)
  finally have gather: "for_range ?P (\<lambda>r. im2col_row S ws (r * ?K) r) (ws_im2col u) = Some m" .
  let ?acc = "tiled_matmul G ?P (OC S) ?K m (weight_hwio u) (bias_buf u) (ws_acc u)"
  have lenm: "length m = B_IM" by (simp add: m_def len(3))
  have patches: "m ! (i * ?K + l) = patch S ws (0 + i) l" if "i < ?P" "l < ?K" for i l
    using index_less[OF that] room(1) that unfolding m_def
    by (subst nth_overlay) (simp_all only: index_div index_mod, simp_all)
  have "requant_rows ?acc 0 ?P S (out_c u) = Some (overlay (out_c u)
      {p. p < OC S * ?P \<and> 0 \<le> p mod ?P \<and> p mod ?P < 0 + ?P} ?g)"
  proof (rule requant_rows_eq)
    fix i oc assume "i < ?P" "oc < OC S"
    then show "requantize R_MULT R_SHIFT R_OFF R_MIN R_MAX (?acc ! (i * OC S + oc)) = ?g (oc * ?P + (0 + i))"
      using assms(2,4) len ws(3) patches room(1) lenm
      by (intro product_result[where rows = ?P and ws = ws]) (simp_all add: shape_fits_def ac_simps)
  qed (use assms(1,2) len in \<open>simp_all add: shape_ok_def shape_fits_def matmul_length ac_simps\<close>)
  also have "{p. p < OC S * ?P \<and> 0 \<le> p mod ?P \<and> p mod ?P < 0 + ?P} = {0..<OC S * ?P}"
    using assms(1) by (auto simp: shape_ok_def total_out_def)
  finally show ?thesis using ws gather lenm
    by (intro exI[of _ ws] exI[of _ m] exI[of _ ?acc]) (simp add: path_c_def Let_def matmul_length len)
qed

text \<open>One tile of path B fills in its outputs, and the tiles together all of them.\<close>

lemma tile_b_eq:
  assumes "shape_ok S" "shape_fits S" "declared u" "bias_ok S (bias_buf u)" "ti < total_out S"
    and sums: "\<And>w b oc oh ow. conv_sum (nhwc_pixel (ws_input u) S) w b S oc oh ow =
      conv_sum (nchw_pixel (in_nchw u) S) w b S oc oh ow"
  shows "\<exists>m acc. tile_b G S ti u = Some (u\<lparr>ws_im2col := m, ws_acc := acc, out_b := overlay (out_b u)
      {p. p < OC S * total_out S \<and> ti \<le> p mod total_out S \<and> p mod total_out S < ti + DIM G}
      (conv_out (in_nchw u) (weight_hwio u) (bias_buf u) S)\<rparr>) \<and> length m = B_IM \<and> length acc = B_ACC"
proof -
  let ?P = "total_out S" and ?K = "K_inner S" and ?g = "conv_out (in_nchw u) (weight_hwio u) (bias_buf u) S"
  let ?ws = "ws_input u" and ?D = "DIM G"
  define rows where "rows = (if ?P - ti < ?D then ?P - ti else ?D)"
  have rows: "rows \<le> ?D" "ti + rows \<le> ?P" using assms(5) by (auto simp: rows_def)
  have len: "length (ws_im2col u) = B_IM" "length ?ws = B_I8" "length (weight_hwio u) = B_I8"
    "length (bias_buf u) = B_BIAS" "length (ws_acc u) = B_ACC" "length (out_b u) = B_ACC"
    using assms(3) by (simp_all add: declared_def)
  define m where "m = overlay (ws_im2col u) {0..<?D * ?K}
    (\<lambda>p. if rows \<le> p div ?K then 0 else patch S ?ws (ti + p div ?K) (p mod ?K))"
  have room: "?D * ?K \<le> length (ws_im2col u)" "?D * OC S \<le> B_ACC"
    using order_trans[OF mult_le_mono1[OF dim(2)]] assms(2) len(1) by (simp_all add: shape_fits_def)
  have image: "IH S * IW S * IC S \<le> length ?ws" using assms(2) len(2) by (simp add: shape_fits_def ac_simps)
  have gather: "for_range ?D (\<lambda>i. if rows \<le> i then store_range (i * ?K) (replicate ?K 0)
      else im2col_row S ?ws (i * ?K) (ti + i)) (ws_im2col u) = Some m"
    unfolding m_def using assms(1) by (intro gather_eq room image) (simp add: shape_ok_def)
  let ?acc = "tiled_matmul G ?D (OC S) ?K m (weight_hwio u) (bias_buf u) (ws_acc u)"
  have lenm: "length m = B_IM" by (simp add: m_def len(1))
  have patches: "m ! (i * ?K + l) = patch S ?ws (ti + i) l" if "i < rows" "l < ?K" for i l
  proof -
    have "i * ?K + l < ?D * ?K" using that rows by (intro index_less) auto
    then show ?thesis using room(1) that unfolding m_def
      by (subst nth_overlay) (simp_all only: index_div index_mod, simp_all)
  qed
  have "requant_rows ?acc ti rows S (out_b u) = Some (overlay (out_b u)
      {p. p < OC S * ?P \<and> ti \<le> p mod ?P \<and> p mod ?P < ti + rows} ?g)"
  proof (rule requant_rows_eq)
    fix i oc assume "i < rows" "oc < OC S"
    then show "requantize R_MULT R_SHIFT R_OFF R_MIN R_MAX (?acc ! (i * OC S + oc)) = ?g (oc * ?P + (ti + i))"
      using assms(2,4) len sums patches room lenm rows
      by (intro product_result[where rows = rows and ws = ?ws]) (simp_all add: shape_fits_def)
  next
    have "rows * OC S \<le> B_ACC" using mult_le_mono1[OF rows(1)] room(2) by (rule order_trans)
    then show "rows * OC S \<le> length ?acc" using len(5) by (simp add: matmul_length)
  qed (use assms(1,2) len rows in \<open>simp_all add: shape_ok_def shape_fits_def\<close>)
  also have "{p. p < OC S * ?P \<and> ti \<le> p mod ?P \<and> p mod ?P < ti + rows} =
      {p. p < OC S * ?P \<and> ti \<le> p mod ?P \<and> p mod ?P < ti + ?D}"
  proof -
    have "p mod ?P < ti + rows \<longleftrightarrow> p mod ?P < ti + ?D" for p
      using mod_less_divisor[of ?P p] assms(5) by (auto simp: rows_def simp del: mod_less_divisor)
    then show ?thesis by simp
  qed
  finally show ?thesis using gather lenm
    by (intro exI[of _ m] exI[of _ ?acc]) (simp add: tile_b_def Let_def matmul_length len rows_def[symmetric])
qed

lemma path_b_eq:
  assumes "shape_ok S" "shape_fits S" "declared u" "bias_ok S (bias_buf u)"
  shows "\<exists>ws m acc. path_b G S u = Some (u\<lparr>ws_input := ws, ws_im2col := m, ws_acc := acc,
      out_b := overlay (out_b u) {0..<OC S * total_out S} (conv_out (in_nchw u) (weight_hwio u) (bias_buf u) S)\<rparr>) \<and>
    length ws = B_I8 \<and> length m = B_IM \<and> length acc = B_ACC"
proof -
  let ?P = "total_out S" and ?D = "DIM G" and ?g = "conv_out (in_nchw u) (weight_hwio u) (bias_buf u) S"
  let ?N = "(?P + ?D - 1) div ?D"
  obtain ws where ws: "transpose_nchw_nhwc (in_nchw u) (IC S) (IH S) (IW S) (ws_input u) = Some ws" "length ws = B_I8"
    "\<And>w b oc oh ow. conv_sum (nhwc_pixel ws S) w b S oc oh ow = conv_sum (nchw_pixel (in_nchw u) S) w b S oc oh ow"
    using rearranged[OF assms(2), of "in_nchw u" "ws_input u"] assms(3) by (auto simp: declared_def)
  define upto where "upto = (\<lambda>k m acc. u\<lparr>ws_input := ws, ws_im2col := m, ws_acc := acc,
      out_b := overlay (out_b u) {p. p < OC S * ?P \<and> p mod ?P < k * ?D} ?g\<rparr>)"
  let ?J = "\<lambda>k v. \<exists>m acc. v = upto k m acc \<and> length m = B_IM \<and> length acc = B_ACC"
  have "\<exists>v. for_range ?N (\<lambda>x. tile_b G S (x * ?D)) (u\<lparr>ws_input := ws\<rparr>) = Some v \<and> ?J ?N v"
  proof (rule steps_from_inv[where J = ?J])
    show "?J 0 (u\<lparr>ws_input := ws\<rparr>)"
      using assms(3) by (intro exI[of _ "ws_im2col u"] exI[of _ "ws_acc u"]) (simp add: upto_def overlay_empty declared_def)
  next
    fix k v assume k: "k < ?N" and "?J k v"
    then obtain m acc where v: "v = upto k m acc" "length m = B_IM" "length acc = B_ACC" by blast
    have "k * ?D < ?P" using k starts_iff[OF dim(1)] by simp
    moreover have "declared v" "bias_ok S (bias_buf v)" using assms(3,4) v ws(2) by (simp_all add: upto_def declared_def)
    ultimately obtain m' acc' where t: "tile_b G S (k * ?D) v = Some (v\<lparr>ws_im2col := m', ws_acc := acc', out_b := overlay (out_b v)
        {p. p < OC S * ?P \<and> k * ?D \<le> p mod ?P \<and> p mod ?P < k * ?D + ?D} ?g\<rparr>)" "length m' = B_IM" "length acc' = B_ACC"
      using tile_b_eq[OF assms(1,2), of v "k * ?D"] ws(3) v(1) by (auto simp: upto_def)
    have "{p. p < OC S * ?P \<and> p mod ?P < k * ?D} \<union> {p. p < OC S * ?P \<and> k * ?D \<le> p mod ?P \<and> p mod ?P < k * ?D + ?D} =
        {p. p < OC S * ?P \<and> p mod ?P < Suc k * ?D}" by auto
    then have "v\<lparr>ws_im2col := m', ws_acc := acc', out_b := overlay (out_b v)
        {p. p < OC S * ?P \<and> k * ?D \<le> p mod ?P \<and> p mod ?P < k * ?D + ?D} ?g\<rparr> = upto (Suc k) m' acc'"
      by (simp add: v(1) upto_def overlay_union del: mult_Suc)
    then show "\<exists>v'. tile_b G S (k * ?D) v = Some v' \<and> ?J (Suc k) v'" using t by auto
  qed
  then obtain m acc where r: "for_range ?N (\<lambda>x. tile_b G S (x * ?D)) (u\<lparr>ws_input := ws\<rparr>) = Some (upto ?N m acc)"
    "length m = B_IM" "length acc = B_ACC" by blast
  have "0 < ?P" using assms(1) by (simp add: shape_ok_def total_out_def)
  moreover have "?P \<le> ?N * ?D" using starts_iff[OF dim(1), of ?N ?P] by simp
  ultimately have "{p. p < OC S * ?P \<and> p mod ?P < ?N * ?D} = {0..<OC S * ?P}"
    by (auto intro: less_le_trans[OF mod_less_divisor])
  then have "upto ?N m acc = u\<lparr>ws_input := ws, ws_im2col := m, ws_acc := acc, out_b := overlay (out_b u) {0..<OC S * ?P} ?g\<rparr>"
    by (simp add: upto_def)
  then show ?thesis using r ws by (auto simp: path_b_def starts_def steps_from_map)
qed

text \<open>Path A stays within one.\<close>

lemma path_a_near:
  assumes "shape_ok S" "shape_fits S" "declared u" "bias_ok S (bias_buf u)"
  shows "\<exists>ws nhwc out. path_a G S u = Some (u\<lparr>ws_input := ws, ws_out_nhwc := nhwc, out_a := out\<rparr>) \<and>
    length ws = B_I8 \<and> length nhwc = B_ACC \<and> length out = B_ACC \<and>
    (\<forall>p < OC S * total_out S.
      \<bar>sint (out ! p) - sint (conv_out (in_nchw u) (weight_hwio u) (bias_buf u) S p)\<bar> \<le> 1)"
proof -
  let ?P = "total_out S"
  have len: "length (weight_hwio u) = B_I8" "length (bias_buf u) = B_BIAS" "length (ws_out_nhwc u) = B_ACC"
    "length (out_a u) = B_ACC" using assms(3) by (simp_all add: declared_def)
  obtain ws where ws: "transpose_nchw_nhwc (in_nchw u) (IC S) (IH S) (IW S) (ws_input u) = Some ws" "length ws = B_I8"
    "\<And>w b oc oh ow. conv_sum (nhwc_pixel ws S) w b S oc oh ow = conv_sum (nchw_pixel (in_nchw u) S) w b S oc oh ow"
    using rearranged[OF assms(2), of "in_nchw u" "ws_input u"] assms(3) by (auto simp: declared_def)
  define r where "r = tiled_conv G (IH S) (IW S) (IC S) (OC S) (OH S) (OW S) (SH S) (PH S) (KH S)
    ws (weight_hwio u) (bias_buf u) scale_q31 (ws_out_nhwc u)"
  have lenr: "length r = B_ACC" by (simp add: r_def conv_length len)
  let ?h = "\<lambda>p. r ! (p mod ?P * OC S + p div ?P)"
  have cell: "do { v \<leftarrow> fetch (q * OC S + oc) r; store (oc * OH S * OW S + q) v out } = Some (overlay out {oc * ?P + q} ?h)"
    if "oc < OC S" "q < ?P" "length out = B_ACC" for oc q out
  proof -
    have "q * OC S + oc < ?P * OC S" "oc * ?P + q < OC S * ?P" using that by (intro index_less; simp)+
    then have "q * OC S + oc < length r" "oc * ?P + q < length out"
      using assms(2) lenr that(3) by (simp_all add: shape_fits_def ac_simps)
    moreover have "oc * OH S * OW S = oc * ?P" by (simp add: total_out_def mult.assoc)
    moreover have "r ! (q * OC S + oc) = ?h (oc * ?P + q)" using that(2) by (simp only: index_div index_mod)
    ultimately show ?thesis by (simp only: fetch_Some Option.bind_lunit store_overlay[where g = ?h])
  qed
  have "for_range (OC S) (\<lambda>oc. for_range ?P (\<lambda>q out. do {
      v \<leftarrow> fetch (q * OC S + oc) r; store (oc * OH S * OW S + q) v out })) (out_a u) =
    Some (overlay (out_a u) (\<Union>oc < OC S. \<Union>q < ?P. {oc * ?P + q}) ?h)"
    by (intro for_range_overlay[where L = B_ACC] cell len) assumption+
  also have "(\<Union>oc < OC S. \<Union>q < ?P. {oc * ?P + q}) = {0..<OC S * ?P}"
    unfolding points_union using block_union[of 0 ?P "OC S"] by simp
  finally have run: "path_a G S u = Some (u\<lparr>ws_input := ws, ws_out_nhwc := r, out_a := overlay (out_a u) {0..<OC S * ?P} ?h\<rparr>)"
    by (simp add: path_a_def ws(1) Let_def r_def[symmetric] total_out_def)
  have near: "\<bar>sint (?h p) - sint (conv_out (in_nchw u) (weight_hwio u) (bias_buf u) S p)\<bar> \<le> 1" if p: "p < OC S * ?P" for p
  proof -
    have "0 < ?P" using p by (cases "?P = 0") auto
    then have q: "p mod ?P < ?P" "p div ?P < OC S" using p by (simp_all add: less_mult_imp_div_less)
    let ?e = "conv_sum (nchw_pixel (in_nchw u) S) (weight_hwio u) (bias_buf u) S (p div ?P) (p mod ?P div OW S) (p mod ?P mod OW S)"
    have fits: "fits32 ?e" by (rule accumulators_fit[OF assms(4,2) q(2)])
    then obtain h where "\<bar>h * 2 ^ 31 - ?e * scale_q31\<bar> \<le> 2 ^ 30" "?h p = word_of_int (max (- 128) (min 127 h))"
      using conv_entry[of S ws "weight_hwio u" "bias_buf u" "ws_out_nhwc u" "p mod ?P" "p div ?P" scale_q31] q assms(2) len ws(2,3)
      unfolding r_def by (auto simp: shape_fits_def)
    then show ?thesis using two_stage_near[OF fits] by (simp add: conv_out_def)
  qed
  have "OC S * ?P \<le> length (out_a u)" using assms(2) len(4) by (simp add: shape_fits_def)
  then show ?thesis using run ws(2) lenr len(4) near
    by (intro exI[of _ ws] exI[of _ r] exI[of _ "overlay (out_a u) {0..<OC S * ?P} ?h"]) (simp add: nth_overlay)
qed

end

section \<open>The benchmark\<close>

lemma fill_rnd_eq:
  assumes "n \<le> length buf"
  shows "\<exists>buf' rng'. fill_rnd n lo span conv (buf, rng) = Some (buf', rng') \<and> length buf' = length buf \<and>
    (\<forall>i < n. \<exists>v. buf' ! i = conv v)"
proof -
  let ?J = "\<lambda>k (s :: 'a list \<times> u32). length (fst s) = length buf \<and> (\<forall>i < k. \<exists>v. fst s ! i = conv v)"
  have "\<exists>s. fill_rnd n lo span conv (buf, rng) = Some s \<and> ?J n s"
    unfolding fill_rnd_def
  proof (rule steps_from_inv[where J = ?J])
    fix k and s :: "'a list \<times> u32" assume "k < n" "?J k s"
    then show "\<exists>s'. (case s of (buf, rng) \<Rightarrow> case rnd8 lo span rng of (v, rng) \<Rightarrow>
        map_option (\<lambda>buf. (buf, rng)) (store k (conv v) buf)) = Some s' \<and> ?J (Suc k) s'"
      using assms by (cases s; cases "rnd8 lo span (snd s)") (auto simp: store_def nth_list_update less_Suc_eq)
  qed simp
  then show ?thesis by auto
qed

lemma gen_data_eq:
  assumes "shape_fits S" "declared u"
  shows "\<exists>x w b. gen_data S u = Some (u\<lparr>in_nchw := x, weight_hwio := w, bias_buf := b\<rparr>) \<and>
    length x = B_I8 \<and> length w = B_I8 \<and> length b = B_BIAS \<and> bias_ok S b"
proof -
  have room: "IC S * IH S * IW S \<le> length (in_nchw u)" "K_inner S * OC S \<le> length (weight_hwio u)" "OC S \<le> length (bias_buf u)"
    using assms by (simp_all add: shape_fits_def declared_def)
  obtain x r1 where x: "fill_rnd (IC S * IH S * IW S) (- 4) 8 (\<lambda>v. v)
      (in_nchw u, 0x1234567 XOR word_of_nat (IC S * 131 + OC S * 17 + IH S)) = Some (x, r1)" "length x = length (in_nchw u)"
    using fill_rnd_eq[OF room(1)] by blast
  obtain w r2 where w: "fill_rnd (K_inner S * OC S) (- 4) 8 (\<lambda>v. v) (weight_hwio u, r1) = Some (w, r2)"
    "length w = length (weight_hwio u)" using fill_rnd_eq[OF room(2)] by blast
  obtain b r3 where b: "fill_rnd (OC S) (- 16) 32 (scast :: i8 \<Rightarrow> i32) (bias_buf u, r2) = Some (b, r3)"
    "length b = length (bias_buf u)" "\<forall>i < OC S. \<exists>v :: i8. b ! i = scast v" using fill_rnd_eq[OF room(3)] by blast
  have "\<bar>sint (scast v :: i32)\<bar> \<le> 128" for v :: i8
    using byte_bounds[of v] sint_of_i32[of "sint v"] by (simp add: scast_eq del: of_int_sint)
  then have "bias_ok S b" using b(3) unfolding bias_ok_def by metis
  then show ?thesis using x w b(1,2) assms(2)
    by (intro exI[of _ x] exI[of _ w] exI[of _ b]) (simp add: gen_data_def Let_def declared_def)
qed

context gemmini
begin

lemma bench_run_shape_eq:
  assumes "S \<in> set shapes" "declared u"
  shows "\<exists>e u'. bench_run_shape G S u = Some ((e, 0, 0), u') \<and> 0 \<le> e \<and> e \<le> 1 \<and> declared u'"
proof -
  let ?P = "total_out S"
  have S: "shape_ok S" "shape_fits S" using table_fits[OF assms(1)] by simp_all
  obtain x w b where data: "gen_data S u = Some (u\<lparr>in_nchw := x, weight_hwio := w, bias_buf := b\<rparr>)"
    "length x = B_I8" "length w = B_I8" "length b = B_BIAS" "bias_ok S b" using gen_data_eq[OF S(2) assms(2)] by blast
  define g where "g = conv_out x w b S"
  define gold where "gold = overlay (out_gold u) {0..<OC S * ?P} g"
  have room: "OC S * ?P \<le> B_ACC" "length (out_gold u) = B_ACC" using S(2) assms(2) by (simp_all add: shape_fits_def declared_def)
  let ?u1 = "u\<lparr>in_nchw := x, weight_hwio := w, bias_buf := b\<rparr>"
  let ?u2 = "?u1\<lparr>out_gold := gold\<rparr>"
  have "data_ok S x w b" using S(2) data(2-4) by (simp add: data_ok_def shape_fits_def)
  then have gold: "run_golden S ?u1 = Some ?u2"
    using room by (simp add: run_golden_def golden_eq gold_def g_def)
  have "declared ?u2" using assms(2) data(2-4) by (simp add: declared_def gold_def)
  then obtain ws nhwc oa where a: "path_a G S ?u2 = Some (?u2\<lparr>ws_input := ws, ws_out_nhwc := nhwc, out_a := oa\<rparr>)"
    "length ws = B_I8" "length nhwc = B_ACC" "length oa = B_ACC" "\<And>p. p < OC S * ?P \<Longrightarrow> \<bar>sint (oa ! p) - sint (g p)\<bar> \<le> 1"
    using path_a_near[OF S, of ?u2] data(5) by (auto simp: g_def)
  let ?u3 = "?u2\<lparr>ws_input := ws, ws_out_nhwc := nhwc, out_a := oa\<rparr>"
  have "declared ?u3" using \<open>declared ?u2\<close> a(2-4) by (simp add: declared_def)
  then obtain ws4 m4 acc4 where b4: "path_b G S ?u3 = Some (?u3\<lparr>ws_input := ws4, ws_im2col := m4, ws_acc := acc4,
      out_b := overlay (out_b u) {0..<OC S * ?P} g\<rparr>)" "length ws4 = B_I8" "length m4 = B_IM" "length acc4 = B_ACC"
    using path_b_eq[OF S, of ?u3] data(5) by (auto simp: g_def)
  let ?u4 = "?u3\<lparr>ws_input := ws4, ws_im2col := m4, ws_acc := acc4, out_b := overlay (out_b u) {0..<OC S * ?P} g\<rparr>"
  have "declared ?u4" using \<open>declared ?u3\<close> b4(2-4) by (simp add: declared_def)
  then obtain ws5 m5 acc5 where c5: "path_c G S ?u4 = Some (?u4\<lparr>ws_input := ws5, ws_im2col := m5, ws_acc := acc5,
      out_c := overlay (out_c u) {0..<OC S * ?P} g\<rparr>)" "length ws5 = B_I8" "length m5 = B_IM" "length acc5 = B_ACC"
    using path_c_eq[OF S, of ?u4] data(5) by (auto simp: g_def)
  let ?u5 = "?u4\<lparr>ws_input := ws5, ws_im2col := m5, ws_acc := acc5, out_c := overlay (out_c u) {0..<OC S * ?P} g\<rparr>"
  have "declared ?u5" using \<open>declared ?u4\<close> c5(2-4) by (simp add: declared_def)
  have n: "OC S * OH S * OW S = OC S * ?P" by (simp add: total_out_def mult.assoc)
  have lens: "length (out_b u) = B_ACC" "length (out_c u) = B_ACC" using assms(2) by (simp_all add: declared_def)
  have entry: "overlay c {0..<OC S * ?P} g ! p = g p" if "length c = B_ACC" "p < OC S * ?P" for c p
    using that room(1) by (simp add: nth_overlay)
  obtain e where e: "max_abs_err oa gold (OC S * ?P) = Some e" "0 \<le> e" "e \<le> 1"
    using max_abs_err_bound[of "OC S * ?P" oa gold 1] room a(4,5) entry by (auto simp: gold_def)
  have same: "max_abs_err (overlay c {0..<OC S * ?P} g) gold (OC S * ?P) = Some 0" if "length c = B_ACC" for c
    using max_abs_err_bound[of "OC S * ?P" "overlay c {0..<OC S * ?P} g" gold 0] room that entry by (auto simp: gold_def)
  have "bench_run_shape G S u = Some ((e, 0, 0), ?u5)"
    unfolding bench_run_shape_def n using data(1) gold a(1) b4(1) c5(1) e(1) same lens by simp
  then show ?thesis using e(2,3) \<open>declared ?u5\<close> by blast
qed

end

section \<open>A simulated accelerator\<close>

definition to_nearest :: "int \<Rightarrow> int" where "to_nearest x = (x + 2 ^ 30) div 2 ^ 31"

definition sim_matmul :: "nat \<Rightarrow> nat \<Rightarrow> nat \<Rightarrow> i8 list \<Rightarrow> i8 list \<Rightarrow> i32 list \<Rightarrow> i32 list \<Rightarrow> i32 list" where
  "sim_matmul m n k a b d c = map (\<lambda>p. if p < m * n
     then word_of_int (matmul_sum a b d n k (p div n) (p mod n)) else c ! p) [0..<length c]"

definition sim_conv :: "conv_shape \<Rightarrow> i8 list \<Rightarrow> i8 list \<Rightarrow> i32 list \<Rightarrow> int \<Rightarrow> i8 list \<Rightarrow> i8 list" where
  "sim_conv S x w b f out = map (\<lambda>r. word_of_int (max (- 128) (min 127 (to_nearest
     (conv_sum (nhwc_pixel x S) w b S (r mod OC S) (r div OC S div OW S) (r div OC S mod OW S) * f))))) [0..<length out]"

definition sim_gemmini :: gemmini_api where
  "sim_gemmini = \<lparr>DIM = 16, tiled_matmul = sim_matmul,
     tiled_conv = (\<lambda>ih iw ic n oh ow s p k.
       sim_conv \<lparr>IC = ic, IH = ih, IW = iw, OC = n, KH = k, KW = k, SH = s, SW = s, PH = p, PW = p\<rparr>)\<rparr>"

lemma nearest: "\<bar>to_nearest x * 2 ^ 31 - x\<bar> \<le> 2 ^ 30"
proof -
  have p: "2 ^ 30 = (1073741824 :: int)" "2 ^ 31 = (2147483648 :: int)" by simp_all
  have "(0 :: int) < 2147483648" by simp
  from div_bounds[OF this, of "x + 1073741824"] show ?thesis unfolding to_nearest_def p abs_le_iff by linarith
qed

interpretation sim: gemmini sim_gemmini
proof
  show "0 < DIM sim_gemmini" "DIM sim_gemmini \<le> 16" by (simp_all add: sim_gemmini_def)
  show "length (tiled_matmul sim_gemmini m n k a b d c) = length c" for m n k a b d c by (simp add: sim_gemmini_def sim_matmul_def)
  show "length (tiled_conv sim_gemmini ih iw ic n oh ow s p k x w bs f out) = length out"
    for ih iw ic n oh ow s p k x w bs f out by (simp add: sim_gemmini_def sim_conv_def)
  show "tiled_matmul sim_gemmini m n k a b d c ! (i * n + j) = word_of_int (matmul_sum a b d n k i j)"
    if "m * n \<le> length c" "i < m" "j < n" for m n k a b d c i j
    using index_less[OF that(2,3)] that by (simp add: sim_gemmini_def sim_matmul_def)
  show "\<exists>h. \<bar>h * 2 ^ 31 - conv_sum (nhwc_pixel x S) w bs S j (q div OW S) (q mod OW S) * f\<bar> \<le> 2 ^ 30 \<and>
      tiled_conv sim_gemmini (IH S) (IW S) (IC S) (OC S) (OH S) (OW S) (SH S) (PH S) (KH S) x w bs f out ! (q * OC S + j) =
        word_of_int (max (- 128) (min 127 h))"
    if "KH S = KW S" "SH S = SW S" "PH S = PW S" "OC S * total_out S \<le> length out" "q < total_out S" "j < OC S"
    for S x w bs f out q j
  proof -
    have "q * OC S + j < length out" using index_less[OF that(5,6)] that(4) by (simp add: ac_simps)
    moreover have "\<lparr>IC = IC S, IH = IH S, IW = IW S, OC = OC S, KH = KH S, KW = KH S, SH = SH S, SW = SH S,
      PH = PH S, PW = PH S\<rparr> = S" using that(1-3) by simp
    ultimately show ?thesis
      using that(6) by (intro exI[of _ "to_nearest (conv_sum (nhwc_pixel x S) w bs S j (q div OW S) (q mod OW S) * f)"] conjI nearest)
        (simp add: sim_gemmini_def sim_conv_def)
  qed
qed

definition sim_bench :: ubench where
  "sim_bench = \<lparr>in_nchw = replicate B_I8 0, weight_hwio = replicate B_I8 0, bias_buf = replicate B_BIAS 0,
     ws_input = replicate B_I8 0, ws_out_nhwc = replicate B_ACC 0, ws_im2col = replicate B_IM 0, ws_acc = replicate B_ACC 0,
     out_gold = replicate B_ACC 0, out_a = replicate B_ACC 0, out_b = replicate B_ACC 0, out_c = replicate B_ACC 0\<rparr>"

lemma sim_bench_declared: "declared sim_bench" by (simp add: declared_def sim_bench_def)

section \<open>Results\<close>

text \<open>
  C26: The reference is a convolution that cannot overflow. On every shape of the table, for any bytes of image
  and weights and a bias of bytes, the exact accumulator of each output fits its 32 bits, and the output
  is three quarters of it, halved, rounded half up each time and saturated to a byte.
\<close>
theorem reference_is_convolution:
  assumes "S \<in> set shapes" "data_ok S x w b" "bias_ok S b" "OC S * total_out S \<le> length out"
    and "oc < OC S" "oh < OH S" "ow < OW S"
  defines "e \<equiv> conv_sum (nchw_pixel x S) w b S oc oh ow"
  shows "- (2 ^ 31) \<le> e \<and> e < 2 ^ 31 \<and> (\<exists>out'. golden x w (Some b) out S = Some out' \<and> length out' = length out \<and>
    out' ! ((oc * OH S + oh) * OW S + ow) =
      word_of_int (max (- 128) (min 127 (((e * 0x60000000 + 2 ^ 30) div 2 ^ 31 + 1) div 2))))"
proof -
  have S: "shape_fits S" using table_fits[OF assms(1)] by simp
  have fits: "fits32 e" unfolding e_def by (rule accumulators_fit[OF assms(3) S assms(5)])
  have "(oc * OH S + oh) * OW S + ow < OC S * OH S * OW S" using assms(5-7) by (intro index_less)
  then have "(oc * OH S + oh) * OW S + ow < OC S * total_out S" by (simp add: total_out_def mult.assoc)
  then have v: "overlay out {0..<OC S * total_out S} (conv_out x w b S) ! ((oc * OH S + oh) * OW S + ow) =
      requantize R_MULT R_SHIFT R_OFF R_MIN R_MAX (word_of_int e)"
    using assms(4) by (simp add: nth_overlay e_def conv_out_def split_output[OF assms(5-7)] del: of_int_add)
  have p: "2 ^ 30 = (1073741824 :: int)" "2 ^ 31 = (2147483648 :: int)" by simp_all
  show ?thesis
    using fits unfolding fits32_def p
    by (intro conjI exI[of _ "overlay out {0..<OC S * total_out S} (conv_out x w b S)"] golden_eq[OF assms(2,4)] length_overlay
        v[unfolded requantize_eq[OF fits]]) (elim conjE, assumption)+
qed

text \<open>
  C25: The paths over patches are exact and the accelerator's own convolution is within one. On every shape of the
  table, with an accelerator of at most 16 rows whose products are exact where they fit 32 bits and whose
  convolution rounds to a nearest integer in one step, the benchmark runs within its buffers and reports
  errors of 0 for both paths over patches, and 0 or 1 for the other.
\<close>
theorem patch_paths_exact:
  assumes "gemmini G" "declared u"
  shows "\<exists>errs u'. bench_all G u = Some (errs, u') \<and> length errs = 11 \<and> set errs \<subseteq> {(0, 0, 0), (1, 0, 0)}"
proof -
  let ?J = "\<lambda>k (s :: (int \<times> int \<times> int) list \<times> ubench). length (fst s) = k \<and> set (fst s) \<subseteq> {(0, 0, 0), (1, 0, 0)} \<and> declared (snd s)"
  have "\<exists>s. bench_all G u = Some s \<and> ?J (length shapes) s"
    unfolding bench_all_def
  proof (rule steps_from_inv[where J = ?J])
    fix k s assume k: "k < length shapes" "?J k s"
    then obtain errs v where s: "s = (errs, v)" "length errs = k" "set errs \<subseteq> {(0, 0, 0), (1, 0, 0)}" "declared v"
      by (cases s) auto
    obtain e v' where r: "bench_run_shape G (shapes ! k) v = Some ((e, 0, 0), v')" "0 \<le> e" "e \<le> 1" "declared v'"
      using gemmini.bench_run_shape_eq[OF assms(1) nth_mem[OF k(1)] s(4)] by blast
    then have "e = 0 \<or> e = 1" by auto
    then show "\<exists>s'. (case s of (errs, u) \<Rightarrow> map_option (\<lambda>(e, u). (errs @ [e], u)) (bench_run_shape G (shapes ! k) u)) = Some s' \<and>
        ?J (Suc k) s'" using s r by auto
  qed (use assms(2) in simp)
  then show ?thesis by (auto simp: shapes_def)
qed

theorem patch_paths_exact_witness:
  "\<exists>errs u'. bench_all sim_gemmini sim_bench = Some (errs, u') \<and> length errs = 11 \<and> set errs \<subseteq> {(0, 0, 0), (1, 0, 0)}"
  by (rule patch_paths_exact[OF sim.gemmini_axioms sim_bench_declared])

definition small_shape :: conv_shape where "small_shape = shapes ! 8"

lemma small_shape_dims:
  "small_shape \<in> set shapes" "OC small_shape = 128" "OH small_shape = 4" "OW small_shape = 4" "total_out small_shape = 16"
  "IC small_shape = 128" "IH small_shape = 4" "IW small_shape = 4" "K_inner small_shape = 1152"
  by (simp_all add: small_shape_def shapes_def total_out_def OH_def OW_def out_dim_def K_inner_def signed_divide_int_def)

definition small_image :: "i8 list" where "small_image = replicate 2048 3"
definition small_weights :: "i8 list" where "small_weights = replicate 147456 (- 2)"
definition small_bias :: "i32 list" where "small_bias = replicate 128 5"
definition small_out :: "i8 list" where "small_out = replicate 2048 0"

lemma small_data:
  "data_ok small_shape small_image small_weights small_bias" "bias_ok small_shape small_bias" "length small_out = 2048"
  by (simp_all only: data_ok_def bias_ok_def small_shape_dims small_image_def small_weights_def small_bias_def small_out_def
      length_replicate nth_replicate) simp_all

theorem reference_is_convolution_witness:
  "\<exists>out'. golden small_image small_weights (Some small_bias) small_out small_shape = Some out' \<and> length out' = 2048 \<and>
    out' ! 2047 = word_of_int (max (- 128) (min 127 (((conv_sum (nchw_pixel small_image small_shape) small_weights small_bias
      small_shape 127 3 3 * 0x60000000 + 2 ^ 30) div 2 ^ 31 + 1) div 2)))"
proof -
  have room: "OC small_shape * total_out small_shape \<le> length small_out" "127 < OC small_shape"
    "3 < OH small_shape" "3 < OW small_shape" by (simp_all add: small_shape_dims small_data)
  have "(127 * OH small_shape + 3) * OW small_shape + 3 = 2047" by (simp add: small_shape_dims)
  with reference_is_convolution[OF small_shape_dims(1) small_data(1,2) room] small_data(3) show ?thesis by metis
qed

end
