(* ===== verification/Drone_Fleet.thy ===== *)
theory Drone_Fleet
  imports Drone_Log Tinympc_Results
begin

text \<open>
  The four-drone server of \<open>samples/drone_control/src/main_mt_binary.cpp\<close> with its solver: the set-up of a
  worker, the body of its loop and where its thread runs. The threads come from \<open>Drone_Threads\<close>, the solver from
  the TinyMPC theories. The specification is one drone's controller on its own, which solves for one
  observation after the other; the server is shown to be four of them, whatever the schedule.
\<close>

section \<open>A worker's solver\<close>

definition drone_setup ::
    "'f matlib \<Rightarrow> ('f, 'z) mat_float_scheme \<Rightarrow> 'f problem_data \<Rightarrow> 'f tiny_solver \<Rightarrow> 'f tiny_solver option" where
  "drone_setup K F P s = (let s = tiny_init F s in do {
     C \<leftarrow> load_cache K P (sv_cache s\<lparr>c_rho := rho_value P\<rparr>);
     W \<leftarrow> load_model K P (sv_work s);
     W \<leftarrow> load_bounds K F W;
     Xref \<leftarrow> load_reference K F [0..<NHORIZON] (w_Xref W);
     Some (s\<lparr>sv_cache := C, sv_work := W\<lparr>w_Xref := Xref\<rparr>\<rparr>) })"

text \<open>
  The body: the observation, whose bits are floats, goes into the first column, the duals are cleared, and the first
  four inputs of the plan are the answer. \<open>None\<close> is an access outside the solver's buffers.
\<close>

definition drone_solve ::
    "'f matlib \<Rightarrow> ('f, 'z) mat_float_scheme \<Rightarrow> (u32 \<Rightarrow> 'f) \<Rightarrow> (u32 list \<Rightarrow> 'f tiny_solver option \<Rightarrow> 'f list option \<times> 'f tiny_solver option)" where
  "drone_solve K F of_bits x m =
     (let r = do {
        s \<leftarrow> m;
        w_x \<leftarrow> into_vec nst 0 (\<lambda>p. k_matsetv K p (map of_bits x) 1 nst) (w_x (sv_work s));
        y \<leftarrow> k_matset K (w_y (sv_work s)) (f_zero F) (NHORIZON - 1) NINPUTS;
        g \<leftarrow> k_matset K (w_g (sv_work s)) (f_zero F) NHORIZON nst;
        (rc, W) \<leftarrow> tiny_solve K F (sv_cache s) (sv_settings s) ((sv_work s)\<lparr>w_x := w_x, w_y := y, w_g := g\<rparr>);
        Some (map (\<lambda>i. vec NINPUTS 0 (w_u W) ! i) [0..<N_ACTIONS], s\<lparr>sv_work := W\<rparr>) }
      in (map_option fst r, map_option snd r))"

text \<open>What the worker sends are the bits of the thrusts.\<close>

definition drone_thrusts ::
    "'f matlib \<Rightarrow> ('f, 'z) mat_float_scheme \<Rightarrow> (u32 \<Rightarrow> 'f) \<Rightarrow> ('f \<Rightarrow> u32) \<Rightarrow>
      u32 list \<Rightarrow> 'f tiny_solver option \<Rightarrow> u32 list \<times> 'f tiny_solver option" where
  "drone_thrusts K F of_bits to_bits x m =
     (case drone_solve K F of_bits x m of (u, m) \<Rightarrow> (case u of Some u \<Rightarrow> map to_bits u | None \<Rightarrow> [], m))"

text \<open>The server once its workers are set up.\<close>

definition fleet_boot ::
    "'f matlib \<Rightarrow> ('f, 'z) mat_float_scheme \<Rightarrow> 'f problem_data \<Rightarrow> u8 list \<Rightarrow> (nat \<Rightarrow> u32 list) \<Rightarrow> (nat \<Rightarrow> 'f tiny_solver) \<Rightarrow>
      'f tiny_solver option server" where
  "fleet_boot K F P bs cur mem = server_boot bs cur (\<lambda>i. drone_setup K F P (mem i))"

text \<open>The processor worker \<open>i\<close> is pinned to, of \<open>cpus\<close>.\<close>

definition pinned_cpu :: "nat \<Rightarrow> nat \<Rightarrow> nat" where
  "pinned_cpu cpus i = (i + 5) mod cpus"

section \<open>One drone's controller\<close>

text \<open>The controller over the solver, undefined behaviour and all.\<close>

fun fly :: "'f matlib \<Rightarrow> ('f, 'z) mat_float_scheme \<Rightarrow> 'f tiny_solver \<Rightarrow> 'f list list \<Rightarrow> ('f list list \<times> 'f tiny_solver) option" where
  "fly K F s [] = Some ([], s)"
| "fly K F s (x # xs) = do {
     (u, s) \<leftarrow> mpc_control K F x s;
     (us, s) \<leftarrow> fly K F s xs;
     Some (u # us, s) }"

section \<open>With the solver\<close>

lemma drone_setup_mpc: "drone_setup K F P s = mpc_init K F P s"
  by (simp add: drone_setup_def mpc_init_def)

lemma drone_solve_control:
  "drone_solve K F of_bits x (Some s) =
     (let r = mpc_control K F (map of_bits x) s in (map_option fst r, map_option snd r))"
proof -
  have "N_ACTIONS = NACTIONS" by (simp add: N_ACTIONS_def NACTIONS_def)
  then show ?thesis
    by (simp add: drone_solve_def mpc_control_def mpc_run_def Let_def bind_assoc case_prod_beta' split: bind_splits)
qed

lemma controller_flies:
  assumes "\<And>s x. R s \<Longrightarrow> length x = nst \<Longrightarrow> \<exists>u s'. mpc_control K F x s = Some (u, s') \<and> R s'"
  shows "R s \<Longrightarrow> list_all (\<lambda>x. length x = N_STATES) xs \<Longrightarrow>
    \<exists>us s'. fly K F s (map (map of_bits) xs) = Some (us, s') \<and> R s' \<and>
      controller (drone_thrusts K F of_bits to_bits) (Some s) xs = (map (map to_bits) us, Some s')"
proof (induction xs arbitrary: s)
  case (Cons x xs)
  have "N_STATES = nst" by (simp add: N_STATES_def tiny_dims)
  then obtain u s1 where 1: "mpc_control K F (map of_bits x) s = Some (u, s1)" "R s1"
    using assms[OF Cons.prems(1), of "map of_bits x"] Cons.prems(2) by auto
  obtain us s' where "fly K F s1 (map (map of_bits) xs) = Some (us, s')" "R s'"
    "controller (drone_thrusts K F of_bits to_bits) (Some s1) xs = (map (map to_bits) us, Some s')"
    using Cons.IH[OF 1(2)] Cons.prems(2) by auto
  moreover have "drone_thrusts K F of_bits to_bits x (Some s) = (map to_bits u, Some s1)"
    using 1(1) by (simp add: drone_thrusts_def drone_solve_control Let_def)
  ultimately show ?case using 1(1) by simp
qed simp

lemma logged_length:
  assumes "fleet_log solve m bs s rs part n xs ts ks" "r \<in> set rs"
  shows "length (snd r) = 25"
proof -
  have "snd r \<in> set (of_drone (fst r) rs)" using assms(2) by (rule of_drone_member)
  then have "snd r \<in> set (responses solve (m (fst r)) (fst r) (xs (fst r)) (ts (fst r)))"
    using assms(1) by (simp add: fleet_log_def drone_log_def)
  then show ?thesis by (auto simp: responses_def set_zip)
qed

lemma logged_sources:
  assumes "fleet_log solve m bs s rs part n xs ts ks"
  defines "q i \<equiv> take (N_STATES * length (xs i)) (ks i)"
  shows "(\<forall>x \<in> set (xs i). length x = N_STATES) \<and> sorted (q i) \<and> (\<forall>k \<in> set (q i). k + length (incoming s) \<le> length bs) \<and>
    concat (xs i) = map (\<lambda>l. obs (snd (main_feed (take (q i ! l) bs) (M_SYNC 0, boot_tasks))) i ! (l mod N_STATES))
      [0..<N_STATES * length (xs i)]"
proof -
  let ?n = "N_STATES * length (xs i)"
  have d: "drone_log solve (m i) bs i rs part n s (xs i) (ts i) (ks i)" and r: "main_read bs s n"
    using assms(1) by (simp_all add: fleet_log_def)
  then have xs: "list_all (\<lambda>x. length x = N_STATES) (xs i)" and
    at: "copied_at bs i (ks i) (concat (xs i) @ take (copying (worker_pc s i)) (current s i))"
    by (simp_all add: drone_log_def)
  have c: "length (concat (xs i)) = ?n" by (rule concat_length[OF xs])
  then have n: "?n \<le> length (ks i)"
    using arg_cong[OF at[unfolded copied_at_def, THEN conjunct2], of length] by simp
  have "concat (xs i) = take ?n (map (\<lambda>l. stored_at bs (ks i ! l) i ! (l mod N_STATES)) [0..<length (ks i)])"
    using arg_cong[OF at[unfolded copied_at_def, THEN conjunct2], of "take ?n"] c by simp
  then have "concat (xs i) = map (\<lambda>l. stored_at bs (q i ! l) i ! (l mod N_STATES)) [0..<?n]"
    using n by (simp add: take_map q_def)
  moreover have "k + length (incoming s) \<le> length bs" if "k \<in> set (q i)" for k
    using d r in_set_takeD[OF that[unfolded q_def]] by (auto simp: drone_log_def main_read_def)
  ultimately show ?thesis using xs at by (auto simp: list_all_iff stored_at_def copied_at_def q_def)
qed

section \<open>Results\<close>

text \<open>
  C22: The server is four controllers. On every vector unit with the stated laws and a commutative multiplication, in every
  schedule, the line carries whole responses and part of one more only while a worker holds it;
  those of drone \<open>i\<close>, in order, are the thrusts its controller alone computes from its set-up on for the observations
  \<open>xs i\<close>, the last of which its worker keeps until it copies the next; at most one is not out yet. Each float of \<open>xs i\<close> is
  the one drone \<open>i\<close>'s own observation held when \<open>main\<close> had read so many bytes of the line as \<open>ks i\<close> says, and these
  numbers never decrease: a copy can be torn between two of its packets, and never holds another drone's data or goes
  back. The solvers' results exist, which with the vector kernels means no access outside their buffers.
\<close>
theorem fleet_is_four_controllers:
  assumes "rvv_laws V" "\<And>x y. f_mul F x y = f_mul F y x" "data_shape P" "\<And>i. solver_shape (mem i)" "\<And>i. length (cur i) = N_STATES"
    and "server_reachable (drone_thrusts (rvv_kernels V F) F of_bits to_bits) (fleet_boot (rvv_kernels V F) F P bs cur mem) s"
  shows "\<exists>rs part xs ts ks.
    uart_out s = concat (map snd rs) @ part \<and> (uart_mutex s = None \<longrightarrow> part = []) \<and>
    (\<forall>r \<in> set rs. fst r < NUM_DRONES \<and> length (snd r) = 25) \<and>
    (\<forall>i. \<exists>s0 us m rest.
      drone_setup (rvv_kernels V F) F P (mem i) = Some s0 \<and>
      fly (rvv_kernels V F) F s0 (map (map of_bits) (xs i)) = Some (us, m) \<and> solver s i = Some m \<and> mpc_ready F P m \<and>
      map2 (\<lambda>u. response i (map to_bits u)) us (ts i) = of_drone i rs @ rest \<and> length (ts i) = length us \<and>
      length rest \<le> 1 \<and> (worker_pc s i = W_POLL \<longrightarrow> rest = []) \<and>
      (keeps_copy (worker_pc s i) \<longrightarrow> xs i \<noteq> [] \<longrightarrow> last (xs i) = current s i)) \<and>
    (\<forall>i. (\<forall>x \<in> set (xs i). length x = N_STATES) \<and> sorted (ks i) \<and> (\<forall>k \<in> set (ks i). k + length (incoming s) \<le> length bs) \<and>
      concat (xs i) = map (\<lambda>l. obs (snd (main_feed (take (ks i ! l) bs) (M_SYNC 0, boot_tasks))) i ! (l mod N_STATES))
        [0..<N_STATES * length (xs i)])"
proof -
  let ?K = "rvv_kernels V F"
  let ?solve = "drone_thrusts ?K F of_bits to_bits"
  note K = rvv_tiny_kernels[OF assms(1,2)]
  obtain rs part n xs ts ks where log: "fleet_log ?solve (\<lambda>i. drone_setup ?K F P (mem i)) bs s rs part n xs ts ks"
    using reachable_log[OF assms(6)[unfolded fleet_boot_def] assms(5)] by blast
  have ready: "\<exists>u s'. mpc_control ?K F x s = Some (u, s') \<and> mpc_ready F P s'" if "mpc_ready F P s" "length x = nst" for s x
    using tiny_kernels.mpc_run_ready[OF K that] by (auto simp: mpc_control_def)
  have "\<exists>s0 us m rest. drone_setup ?K F P (mem i) = Some s0 \<and>
      fly ?K F s0 (map (map of_bits) (xs i)) = Some (us, m) \<and> solver s i = Some m \<and> mpc_ready F P m \<and>
      map2 (\<lambda>u. response i (map to_bits u)) us (ts i) = of_drone i rs @ rest \<and> length (ts i) = length us \<and>
      length rest \<le> 1 \<and> (worker_pc s i = W_POLL \<longrightarrow> rest = []) \<and>
      (keeps_copy (worker_pc s i) \<longrightarrow> xs i \<noteq> [] \<longrightarrow> last (xs i) = current s i)" for i
  proof -
    have d: "drone_log ?solve (drone_setup ?K F P (mem i)) bs i rs part n s (xs i) (ts i) (ks i)" using log by (simp add: fleet_log_def)
    obtain s0 where s0: "drone_setup ?K F P (mem i) = Some s0" "mpc_ready F P s0"
      using tiny_kernels.mpc_init_ready[OF K assms(4,3)] by (auto simp: drone_setup_mpc)
    obtain us m where us: "fly ?K F s0 (map (map of_bits) (xs i)) = Some (us, m)" "mpc_ready F P m"
      "controller ?solve (Some s0) (xs i) = (map (map to_bits) us, Some m)"
      using controller_flies[where R = "mpc_ready F P" and xs = "xs i" and of_bits = of_bits and to_bits = to_bits, OF ready s0(2)] d
      by (auto simp: drone_log_def)
    have "length us = length (xs i)" using length_controller[of ?solve "Some s0" "xs i"] us(3) by simp
    moreover have "responses ?solve (Some s0) i (xs i) (ts i) = map2 (\<lambda>u. response i (map to_bits u)) us (ts i)"
      using us(3) by (simp add: responses_def zip_map1 case_prod_beta')
    moreover have "length (unsent part (worker_pc s i)) \<le> 1" by (cases "worker_pc s i") simp_all
    ultimately show ?thesis
      using d s0(1) us(1,2,3) by (intro exI[of _ s0] exI[of _ us] exI[of _ m] exI[of _ "unsent part (worker_pc s i)"])
        (auto simp: drone_log_def)
  qed
  moreover have "(\<forall>x \<in> set (xs i). length x = N_STATES) \<and> sorted (take (N_STATES * length (xs i)) (ks i)) \<and>
      (\<forall>k \<in> set (take (N_STATES * length (xs i)) (ks i)). k + length (incoming s) \<le> length bs) \<and>
      concat (xs i) = map (\<lambda>l. obs (snd (main_feed (take (take (N_STATES * length (xs i)) (ks i) ! l) bs) (M_SYNC 0, boot_tasks))) i !
        (l mod N_STATES)) [0..<N_STATES * length (xs i)]" for i
    using logged_sources[OF log] .
  ultimately show ?thesis
    using log logged_length[OF log] by (intro exI[of _ rs] exI[of _ part] exI[of _ xs] exI[of _ ts] exI[of _ "\<lambda>i. take (N_STATES * length (xs i)) (ks i)"])
      (auto simp: fleet_log_def list_all_iff)
qed

text \<open>
  The pinning wants nine processors: one worker is pinned to processor 0 unless there are nine or more,
  and then no two workers share one.
\<close>
lemma pinned_apart:
  assumes "0 < cpus"
  shows "(\<forall>i < NUM_DRONES. pinned_cpu cpus i \<noteq> 0) \<longleftrightarrow> 9 \<le> cpus"
    and "9 \<le> cpus \<Longrightarrow> inj_on (pinned_cpu cpus) {..<NUM_DRONES}"
proof -
  have "9 \<le> cpus" if "\<forall>i < NUM_DRONES. pinned_cpu cpus i \<noteq> 0"
  proof (rule ccontr)
    assume "\<not> 9 \<le> cpus"
    then have "cpus \<in> {1, 2, 3, 4, 5, 6, 7, 8}" using assms by auto
    moreover have "pinned_cpu cpus 0 \<noteq> 0" "pinned_cpu cpus 1 \<noteq> 0" "pinned_cpu cpus 2 \<noteq> 0" "pinned_cpu cpus 3 \<noteq> 0"
      using that by (simp_all add: NUM_DRONES_def)
    ultimately show False by (auto simp: pinned_cpu_def)
  qed
  then show "(\<forall>i < NUM_DRONES. pinned_cpu cpus i \<noteq> 0) \<longleftrightarrow> 9 \<le> cpus" by (auto simp: pinned_cpu_def NUM_DRONES_def)
  show "9 \<le> cpus \<Longrightarrow> inj_on (pinned_cpu cpus) {..<NUM_DRONES}" by (auto simp: pinned_cpu_def NUM_DRONES_def inj_on_def)
qed

section \<open>A concrete server\<close>

text \<open>One packet for drone 0: worker 0 has copied it and solves next, whatever the solver.\<close>

lemma packet_copied:
  "map_option (\<lambda>s. (worker_pc s 0, current s 0))
     (server_run solve (replicate 54 None @ replicate 14 (Some 0)) (server_boot (packet 1) (\<lambda>i. replicate 12 0) m)) =
   Some (W_SOLVE, replicate 12 1)"
  by code_simp

theorem fleet_is_four_controllers_witness:
  "\<exists>(s :: int option tiny_solver option server) u t. length (current s 0) = 12 \<and> worker_pc s 0 = W_LOCK (response 0 u t) \<and>
     (\<exists>m. solver s 0 = Some m \<and> mpc_ready sim_mat sim_problem m)"
proof -
  let ?K = "rvv_kernels (sim_rvv (\<lambda>x. None)) sim_mat"
  let ?solve = "drone_thrusts ?K sim_mat (\<lambda>x. Some (sint x)) (\<lambda>x. case x of Some i \<Rightarrow> word_of_int i | None \<Rightarrow> 0)"
  let ?boot = "fleet_boot ?K sim_mat sim_problem (packet 1) (\<lambda>i. replicate 12 0) (\<lambda>i. sim_solver)"
  obtain s where s: "server_run ?solve (replicate 54 None @ replicate 14 (Some 0)) ?boot = Some s"
    "worker_pc s 0 = W_SOLVE" "current s 0 = replicate 12 1"
    using packet_copied unfolding fleet_boot_def map_option_eq_Some by blast
  obtain u m where u: "?solve (current s 0) (solver s 0) = (u, m)" by (metis prod.exhaust)
  define s' where "s' = s\<lparr>solver := (solver s)(0 := m), worker_pc := (worker_pc s)(0 := W_LOCK (response 0 u 0))\<rparr>"
  have "drone_worker ?solve 0 0 s = Some s'" using s(2) u by (simp add: drone_worker_def s'_def)
  then have r: "server_reachable ?solve ?boot s'"
    using worker_runs[OF server_run_reachable[OF s(1) server_start], of 0] by (simp add: NUM_DRONES_def)
  have "length (replicate 12 (0 :: u32)) = N_STATES" by (simp add: N_STATES_def)
  then have "\<exists>m. solver s' 0 = Some m \<and> mpc_ready sim_mat sim_problem m"
    using fleet_is_four_controllers[OF sim_unit.rvv_laws_axioms sim_mul_comm sim_shapes _ r] by blast
  then show ?thesis using s(3) by (intro exI[of _ s'] exI[of _ u] exI[of _ 0]) (simp add: s'_def)
qed

end
