(* ===== verification/Text_Io.thy ===== *)
theory Text_Io
  imports Prelude "HOL-Library.Monad_Syntax" "HOL-Library.Sublist"
begin

text \<open>
  Text lines of the servers \<open>main.cpp\<close> and \<open>main_mt.cpp\<close> of \<open>samples/drone_control/src\<close>: what they use of
  \<open>sscanf\<close> and \<open>snprintf\<close>, the command line they accept, and the line as a host writes it. The
  conversions between decimals and floats, and the forms of a float that are not decimal, are a parameter.
\<close>

section \<open>Characters\<close>

definition ascii :: "string \<Rightarrow> u8 list" where
  "ascii s = map (\<lambda>c. word_of_nat (of_char c)) s"

definition is_space :: "u8 \<Rightarrow> bool" where "is_space c \<longleftrightarrow> c = 32 \<or> 9 \<le> c \<and> c \<le> 13"

text \<open>A number in decimal.\<close>

fun nat_text :: "nat \<Rightarrow> u8 list" where
  "nat_text n = (if n < 10 then [] else nat_text (n div 10)) @ [word_of_nat (48 + n mod 10)]"

declare nat_text.simps [simp del]

definition int_text :: "int \<Rightarrow> u8 list" where
  "int_text i = (if i < 0 then [45] else []) @ nat_text (nat \<bar>i\<bar>)"

section \<open>Reading\<close>

text \<open>
  \<open>of_decimal\<close> is a sign, an integer and a power of ten; \<open>scan_other\<close> reads infinities, NaNs and
  hexadecimal forms after the sign; \<open>decimals4\<close> is a sign and the value in ten-thousandths, as
  \<open>%0.4f\<close> rounds it, or the text of a value that is not finite.
\<close>

record 'f text_float =
  of_decimal :: "bool \<Rightarrow> nat \<Rightarrow> int \<Rightarrow> 'f"
  scan_other :: "bool \<Rightarrow> u8 list \<Rightarrow> ('f \<times> u8 list) option"
  decimals4 :: "'f \<Rightarrow> (bool \<times> nat) + u8 list"

definition scan_sign :: "u8 list \<Rightarrow> bool \<times> u8 list" where
  "scan_sign s = (case s of
     [] \<Rightarrow> (False, [])
   | c # r \<Rightarrow> if c = 45 then (True, r) else if c = 43 then (False, r) else (False, s))"

definition scan_signed :: "u8 list \<Rightarrow> (int \<times> u8 list) option" where
  "scan_signed s = (case scan_sign s of (neg, s) \<Rightarrow>
     let ds = takeWhile is_digit s in
     if ds = [] then None else Some (if neg then - int (decimal ds) else int (decimal ds), dropWhile is_digit s))"

text \<open>\<open>%d\<close>.\<close>

definition scan_int :: "u8 list \<Rightarrow> (int \<times> u8 list) option" where
  "scan_int s = scan_signed (dropWhile is_space s)"

text \<open>\<open>%f\<close>: an exponent that is begun must have digits.\<close>

definition scan_exponent :: "u8 list \<Rightarrow> (int \<times> u8 list) option" where
  "scan_exponent s = (case s of
     [] \<Rightarrow> Some (0, [])
   | c # r \<Rightarrow> if c = 101 \<or> c = 69 then scan_signed r else Some (0, s))"

definition scan_fraction :: "u8 list \<Rightarrow> u8 list \<times> u8 list" where
  "scan_fraction s = (case s of
     [] \<Rightarrow> ([], [])
   | c # r \<Rightarrow> if c = 46 then (takeWhile is_digit r, dropWhile is_digit r) else ([], s))"

definition other_form :: "u8 list \<Rightarrow> bool" where
  "other_form s \<longleftrightarrow> s \<noteq> [] \<and> (hd s \<in> {73, 78, 105, 110} \<or> take 2 s \<in> {[48, 88], [48, 120]})"

definition scan_float :: "'f text_float \<Rightarrow> u8 list \<Rightarrow> ('f \<times> u8 list) option" where
  "scan_float T s = (case scan_sign (dropWhile is_space s) of (neg, s) \<Rightarrow>
     if other_form s then scan_other T neg s
     else let ip = takeWhile is_digit s in
       case scan_fraction (dropWhile is_digit s) of (fs, s) \<Rightarrow>
         if ip @ fs = [] then None
         else do {
           (e, s) \<leftarrow> scan_exponent s;
           Some (of_decimal T neg (decimal (ip @ fs)) (e - int (length fs)), s) })"

fun scan_floats :: "'f text_float \<Rightarrow> nat \<Rightarrow> u8 list \<Rightarrow> 'f list option" where
  "scan_floats T 0 s = Some []"
| "scan_floats T (Suc n) s = do {
     (x, s) \<leftarrow> scan_float T s;
     xs \<leftarrow> scan_floats T n s;
     Some (x # xs) }"

text \<open>
  The call of \<open>sscanf\<close>: all 13 conversions, or not; a drone number that does not fit an \<open>int\<close> has
  no defined result.
\<close>

definition NUM_STATE_VARS :: nat where "NUM_STATE_VARS = 12"

datatype 'f scanned = No_Match | Out_Of_Range | Fields int "'f list"

definition fits_int :: "int \<Rightarrow> bool" where "fits_int i \<longleftrightarrow> - (2 ^ 31) \<le> i \<and> i < 2 ^ 31"

definition scan_command :: "'f text_float \<Rightarrow> u8 list \<Rightarrow> 'f scanned" where
  "scan_command T s = (case scan_int s of
     None \<Rightarrow> No_Match
   | Some (i, s) \<Rightarrow>
       if \<not> fits_int i then Out_Of_Range
       else case scan_floats T NUM_STATE_VARS s of None \<Rightarrow> No_Match | Some xs \<Rightarrow> Fields i xs)"

section \<open>Writing\<close>

definition float_text :: "'f text_float \<Rightarrow> 'f \<Rightarrow> u8 list" where
  "float_text T x = (case decimals4 T x of
     Inl (neg, n) \<Rightarrow> (if neg then [45] else []) @ nat_text (n div 10000) @
       46 # map (\<lambda>k. word_of_nat (48 + n div 10 ^ k mod 10)) [3, 2, 1, 0]
   | Inr t \<Rightarrow> t)"

text \<open>\<open>snprintf\<close> into a buffer of \<open>n\<close> bytes, the last one for the NUL.\<close>

definition snprintf :: "nat \<Rightarrow> u8 list \<Rightarrow> u8 list" where
  "snprintf n t = take (n - 1) t"

section \<open>Lines\<close>

definition BUFFER_SIZE :: nat where "BUFFER_SIZE = 256"

text \<open>\<open>recv_str\<close>, one byte: the buffer so far, or the finished line.\<close>

definition recv_byte :: "u8 \<Rightarrow> u8 list \<Rightarrow> u8 list + u8 list" where
  "recv_byte c buf =
     (if c = 13 \<or> c = 10 then Inr buf
      else if length buf + 1 < BUFFER_SIZE - 1 then Inl (buf @ [c]) else Inr (buf @ [c]))"

definition invalid_text :: "u8 list" where
  "invalid_text = ascii ''Invalid input. Expected ID + 12 floats.'' @ [10]"

text \<open>What a host sends: a drone and decimals (sign, integer part, digits of the fraction).\<close>

type_synonym host_number = "bool \<times> nat \<times> u8 list"

definition decimal_ok :: "host_number \<Rightarrow> bool" where "decimal_ok d = list_all is_digit (snd (snd d))"

definition decimal_text :: "host_number \<Rightarrow> u8 list" where
  "decimal_text d = (case d of (neg, n, fs) \<Rightarrow> (if neg then [45] else []) @ nat_text n @ 46 # fs)"

definition decimal_value :: "'f text_float \<Rightarrow> host_number \<Rightarrow> 'f" where
  "decimal_value T d = (case d of (neg, n, fs) \<Rightarrow> of_decimal T neg (decimal (nat_text n @ fs)) (- int (length fs)))"

definition command_text :: "int \<Rightarrow> host_number list \<Rightarrow> u8 list" where
  "command_text i ds = int_text i @ concat (map (\<lambda>d. 32 # decimal_text d) ds)"

section \<open>Facts\<close>

lemma digit_of_nat:
  assumes "n < 10"
  shows "is_digit (word_of_nat (48 + n))" and "unat (word_of_nat (48 + n) - 0x30 :: u8) = n"
proof -
  have "unat (word_of_nat (48 + n) :: u8) = 48 + n" using assms by (simp add: unat_of_nat del: of_nat_add of_nat_numeral)
  then show "is_digit (word_of_nat (48 + n))"
    using assms by (simp add: is_digit_def word_le_nat_alt del: of_nat_add of_nat_numeral)
  have "word_of_nat (48 + n) - 0x30 = (word_of_nat n :: u8)" by simp
  then show "unat (word_of_nat (48 + n) - 0x30 :: u8) = n" using assms by (simp add: unat_of_nat del: of_nat_add)
qed

lemma nat_text_digits: "list_all is_digit (nat_text n)" "nat_text n \<noteq> []"
proof (induction n rule: nat_text.induct)
  case (1 n)
  { case 1
    show ?case using "1.IH"(1) digit_of_nat[of "n mod 10"] by (subst nat_text.simps) simp }
  { case 2
    show ?case by (subst nat_text.simps) simp }
qed

lemma decimal_nat_text: "decimal (nat_text n) = n"
proof (induction n rule: nat_text.induct)
  case (1 n)
  have "decimal (ds @ [word_of_nat (48 + n mod 10)]) = 10 * decimal ds + n mod 10" for ds
    using digit_of_nat[of "n mod 10"] by (simp add: decimal_def del: of_nat_add of_nat_numeral)
  then show ?case using 1 by (subst nat_text.simps) (simp add: decimal_def del: of_nat_add of_nat_numeral)
qed

lemma digit_no_sign: "is_digit c \<Longrightarrow> c \<noteq> 45 \<and> c \<noteq> 43 \<and> \<not> is_space c \<and> c \<noteq> 0 \<and> c \<noteq> 10 \<and> c \<noteq> 13"
  by (auto simp: is_digit_def is_space_def word_le_nat_alt)

text \<open>Digits end where the text goes on with something else.\<close>

definition ends_digits :: "u8 list \<Rightarrow> bool" where "ends_digits r \<longleftrightarrow> r = [] \<or> \<not> is_digit (hd r)"

lemma digits_span:
  assumes "list_all is_digit ds" "ends_digits r"
  shows "takeWhile is_digit (ds @ r) = ds" "dropWhile is_digit (ds @ r) = r"
  using assms by (cases r; simp add: ends_digits_def list_all_iff takeWhile_append dropWhile_append)+

lemma scan_digits_sign:
  assumes "list_all is_digit ds" "ds \<noteq> []"
  shows "dropWhile is_space ((if neg then [45] else []) @ ds @ r) = (if neg then [45] else []) @ ds @ r"
    and "scan_sign ((if neg then [45] else []) @ ds @ r) = (neg, ds @ r)"
  using assms digit_no_sign[of "hd ds"] by (cases ds; simp add: scan_sign_def is_space_def; auto)+

lemma scan_int_text:
  assumes "ends_digits r"
  shows "scan_int (int_text i @ r) = Some (i, r)"
proof -
  let ?ds = "nat_text (nat \<bar>i\<bar>)"
  note d = nat_text_digits[of "nat \<bar>i\<bar>"]
  show ?thesis
    using scan_digits_sign[OF d, of "i < 0" r] digits_span[OF d(1) assms] d(2)
    by (auto simp: scan_int_def scan_signed_def int_text_def decimal_nat_text Let_def)
qed

lemma scan_decimal_text:
  assumes "decimal_ok d" "r = [] \<or> is_space (hd r)"
  shows "scan_float T (decimal_text d @ r) = Some (decimal_value T d, r)"
proof -
  obtain neg n fs where d: "d = (neg, n, fs)" by (cases d)
  note nd = nat_text_digits[of n]
  have r: "ends_digits r" "scan_exponent r = Some (0, r)"
    using assms(2) digit_no_sign by (cases r; auto simp: ends_digits_def scan_exponent_def is_space_def)+
  have dot: "ends_digits (46 # fs @ r)" by (simp add: ends_digits_def is_digit_def)
  have no: "\<not> other_form (nat_text n @ 46 # fs @ r)"
  proof -
    obtain c cs where c: "nat_text n = c # cs" using nd(2) by (meson neq_Nil_conv)
    moreover have "is_digit c" "\<forall>x \<in> set cs. is_digit x" using nd(1) c by (auto simp: list_all_iff)
    ultimately show ?thesis by (cases cs) (auto simp: other_form_def is_digit_def)
  qed
  show ?thesis
    using scan_digits_sign[OF nd, of neg "46 # fs @ r"] digits_span[OF nd(1) dot] no
      digits_span[OF _ r(1), of fs] nd(2) assms(1) r(2)
    by (simp add: scan_float_def decimal_text_def decimal_value_def d scan_fraction_def decimal_ok_def)
qed

lemma scan_floats_texts:
  assumes "list_all decimal_ok ds"
  shows "scan_floats T (length ds) (concat (map (\<lambda>d. 32 # decimal_text d) ds)) = Some (map (decimal_value T) ds)"
  using assms
proof (induction ds)
  case (Cons d ds)
  let ?r = "concat (map (\<lambda>d. 32 # decimal_text d) ds)"
  have "?r = [] \<or> is_space (hd ?r)" by (cases ds) (simp_all add: is_space_def)
  moreover have "scan_float T (32 # s) = scan_float T s" for s by (simp add: scan_float_def is_space_def)
  ultimately show ?case using scan_decimal_text[of d ?r T] Cons by simp
qed simp

text \<open>A host's line is read back.\<close>

lemma scan_command_text:
  assumes "fits_int i" "length ds = NUM_STATE_VARS" "list_all decimal_ok ds"
  shows "scan_command T (command_text i ds) = Fields i (map (decimal_value T) ds)"
proof -
  have "ends_digits (concat (map (\<lambda>d. 32 # decimal_text d) ds))"
    by (cases ds) (simp_all add: ends_digits_def is_digit_def)
  then show ?thesis
    using assms scan_floats_texts[OF assms(3), of T]
    by (simp add: scan_command_def command_text_def scan_int_text)
qed

text \<open>It has no byte that would end it.\<close>

definition plain :: "u8 list \<Rightarrow> bool" where "plain t \<longleftrightarrow> 0 \<notin> set t \<and> 10 \<notin> set t \<and> 13 \<notin> set t"

lemma digits_plain: "list_all is_digit ds \<Longrightarrow> plain ds"
  using digit_no_sign by (auto simp: plain_def list_all_iff)

lemma command_plain:
  assumes "list_all decimal_ok ds"
  shows "plain (command_text i ds)"
proof -
  have d: "plain (decimal_text d)" if "decimal_ok d" for d
    using that digits_plain[OF nat_text_digits(1)] digits_plain[of "snd (snd d)"]
    by (cases d) (auto simp: decimal_text_def decimal_ok_def plain_def)
  have "plain (concat (map (\<lambda>d. 32 # decimal_text d) ds))"
    using assms d by (induction ds) (auto simp: plain_def)
  then show ?thesis
    using digits_plain[OF nat_text_digits(1)] by (auto simp: command_text_def int_text_def plain_def)
qed

end
