(* ===== verification/Drone_Text.thy ===== *)
theory Drone_Text
  imports Text_Io Closed_Loop
begin

text \<open>
  The text server \<open>samples/drone_control/src/main.cpp\<close>: it reads lines with a drone number and twelve
  floats, solves for them and answers with four controls. The whole program, one byte of the line at a
  time; polling again while there is no byte is not a step. The set-up is that of the hovering program,
  with the reference at the origin; the drone number is read and not used. \<open>None\<close> is undefined
  behaviour: an access outside a buffer, or a drone number that does not fit an \<open>int\<close>.
\<close>

section \<open>The program\<close>

record 'f text_server =
  t_buf :: "u8 list"
  t_x0 :: "'f list"
  t_solver :: "'f tiny_solver"
  t_out :: "u8 list"

definition text_x0 :: "('f, 'z) mat_float_scheme \<Rightarrow> 'f list" where
  "text_x0 F = map (\<lambda>v. f_lit F v 3) [- 36, 37, 225, - 193, - 192, - 2, 962, - 409, - 378, 75, - 663, 672]"

text \<open>Both text servers set their solver up so; the second one does it for each drone.\<close>

definition text_init ::
    "'f matlib \<Rightarrow> ('f, 'z) mat_float_scheme \<Rightarrow> 'f problem_data \<Rightarrow> 'f tiny_solver \<Rightarrow> 'f tiny_solver option" where
  "text_init K F P s = (let s = tiny_init F s in do {
     C \<leftarrow> hover_cache K P (sv_cache s\<lparr>c_rho := rho_value P\<rparr>);
     W \<leftarrow> hover_model K P (sv_work s);
     W \<leftarrow> load_bounds K F W;
     Xref \<leftarrow> load_reference K F [0..<NHORIZON] (w_Xref W);
     Some (s\<lparr>sv_cache := C, sv_work := W\<lparr>w_Xref := Xref\<rparr>\<rparr>) })"

definition controls :: "'f tiny_solver \<Rightarrow> 'f list" where
  "controls s = map (\<lambda>j. vec NINPUTS 0 (w_u (sv_work s)) ! j) [0..<4]"

definition controls_text :: "'f text_float \<Rightarrow> 'f list \<Rightarrow> u8 list" where
  "controls_text T u = snprintf 128 (ascii ''u = ['' @ float_text T (u ! 0) @ concat (map (\<lambda>j. 32 # float_text T (u ! j)) [1..<4]) @
     ascii '']'' @ [10])"

text \<open>The body of the loop on a line that has been received.\<close>

definition serve_line ::
    "'f text_float \<Rightarrow> 'f matlib \<Rightarrow> ('f, 'z) mat_float_scheme \<Rightarrow> u8 list \<Rightarrow> 'f text_server \<Rightarrow> 'f text_server option" where
  "serve_line T K F line st =
     (case scan_command T (cstr (line @ [0])) of
        No_Match \<Rightarrow> Some (st\<lparr>t_out := t_out st @ invalid_text\<rparr>)
      | Out_Of_Range \<Rightarrow> None
      | Fields i parsed \<Rightarrow> do {
          x0 \<leftarrow> k_matsetv K (t_x0 st) parsed 1 nst;
          (rc, s) \<leftarrow> mpc_run K F x0 (t_solver st);
          Some (st\<lparr>t_x0 := x0, t_solver := s, t_out := t_out st @ controls_text T (controls s)\<rparr>) })"

definition text_byte ::
    "'f text_float \<Rightarrow> 'f matlib \<Rightarrow> ('f, 'z) mat_float_scheme \<Rightarrow> u8 \<Rightarrow> 'f text_server \<Rightarrow> 'f text_server option" where
  "text_byte T K F c st =
     (case recv_byte c (t_buf st) of
        Inl buf \<Rightarrow> Some (st\<lparr>t_buf := buf\<rparr>)
      | Inr line \<Rightarrow> serve_line T K F line (st\<lparr>t_buf := []\<rparr>))"

fun text_bytes ::
    "'f text_float \<Rightarrow> 'f matlib \<Rightarrow> ('f, 'z) mat_float_scheme \<Rightarrow> u8 list \<Rightarrow> 'f text_server \<Rightarrow> 'f text_server option" where
  "text_bytes T K F [] st = Some st"
| "text_bytes T K F (c # cs) st = Option.bind (text_byte T K F c st) (text_bytes T K F cs)"

text \<open>
  \<open>main\<close> up to its loop and on the bytes received: -1 without a line. \<open>st\<close> is the memory at the
  start.
\<close>

definition text_greeting :: "u8 list" where
  "text_greeting = ascii ''Testing drone control via UART'' @ [10]"

definition text_main ::
    "'f text_float \<Rightarrow> 'f matlib \<Rightarrow> ('f, 'z) mat_float_scheme \<Rightarrow> 'f problem_data \<Rightarrow> bool \<Rightarrow> u8 list \<Rightarrow> 'f text_server \<Rightarrow>
      (int + 'f text_server) option" where
  "text_main T K F P ready bytes st =
     (if \<not> ready then Some (Inl (- 1))
      else do {
        s \<leftarrow> text_init K F P (t_solver st);
        x0 \<leftarrow> k_matsetv K (t_x0 st) (text_x0 F) 1 nst;
        st \<leftarrow> text_bytes T K F bytes (st\<lparr>t_buf := [], t_x0 := x0, t_solver := s, t_out := t_out st @ text_greeting\<rparr>);
        Some (Inr st) })"

section \<open>What it should do\<close>

text \<open>
  The lines a host sends, whatever ends each of them, and the answers: a command is solved, anything
  that is not one leaves the solver alone.
\<close>

datatype host_line = Command int "host_number list" | Garbage "u8 list"

fun line_text :: "host_line \<Rightarrow> u8 list" where
  "line_text (Command i ds) = command_text i ds"
| "line_text (Garbage t) = t"

fun line_ok :: "'f text_float \<Rightarrow> host_line \<Rightarrow> bool" where
  "line_ok T (Command i ds) \<longleftrightarrow> fits_int i \<and> length ds = NUM_STATE_VARS \<and> list_all decimal_ok ds \<and>
     length (command_text i ds) < BUFFER_SIZE - 1"
| "line_ok T (Garbage t) \<longleftrightarrow> plain t \<and> scan_command T t = No_Match \<and> length t < BUFFER_SIZE - 1"

fun answers ::
    "'f text_float \<Rightarrow> 'f matlib \<Rightarrow> ('f, 'z) mat_float_scheme \<Rightarrow> host_line list \<Rightarrow> 'f tiny_solver \<Rightarrow> u8 list list option" where
  "answers T K F [] s = Some []"
| "answers T K F (Command i ds # ls) s = do {
     (rc, s) \<leftarrow> mpc_run K F (map (decimal_value T) ds) s;
     as \<leftarrow> answers T K F ls s;
     Some (controls_text T (controls s) # as) }"
| "answers T K F (Garbage t # ls) s = map_option ((#) invalid_text) (answers T K F ls s)"

section \<open>Lines\<close>

lemma text_bytes_append:
  "text_bytes T K F (as @ bs) st = Option.bind (text_bytes T K F as st) (text_bytes T K F bs)"
  by (induction as arbitrary: st) (auto split: bind_splits)

lemma text_bytes_plain:
  assumes "plain t" "length (t_buf st) + length t < BUFFER_SIZE - 1"
  shows "text_bytes T K F t st = Some (st\<lparr>t_buf := t_buf st @ t\<rparr>)"
  using assms
proof (induction t arbitrary: st)
  case (Cons c t)
  then have "text_byte T K F c st = Some (st\<lparr>t_buf := t_buf st @ [c]\<rparr>)"
    by (auto simp: text_byte_def recv_byte_def plain_def)
  then show ?case using Cons by (simp add: plain_def)
qed simp

lemma cstr_plain: "plain t \<Longrightarrow> cstr (t @ [0]) = t"
  using cstr_append_nul[of t "[]"] by (simp add: plain_def)

lemma line_plain: "line_ok T l \<Longrightarrow> plain (line_text l)" "line_ok T l \<Longrightarrow> length (line_text l) < BUFFER_SIZE - 1"
  by (cases l; simp add: command_plain)+

text \<open>A line ends with a carriage return or a line feed.\<close>

lemma text_line:
  assumes "line_ok T l" "t_buf st = []" "e = 10 \<or> e = 13"
  shows "text_bytes T K F (line_text l @ [e]) st = serve_line T K F (line_text l) st"
proof -
  have "text_bytes T K F (line_text l) st = Some (st\<lparr>t_buf := line_text l\<rparr>)"
    using text_bytes_plain[OF line_plain(1)[OF assms(1)], of st T K F] line_plain(2)[OF assms(1)] assms(2) by simp
  moreover have "st\<lparr>t_buf := []\<rparr> = st" using assms(2) by simp
  ultimately show ?thesis
    using assms(3) by (cases "serve_line T K F (line_text l) st") (auto simp: text_bytes_append text_byte_def recv_byte_def)
qed

text \<open>A line feed after a carriage return is one more line, an empty one, and not a command.\<close>

lemma empty_line_ok: "line_ok T (Garbage [])"
  by (simp add: plain_def scan_command_def scan_int_def scan_signed_def scan_sign_def BUFFER_SIZE_def)

text \<open>255 bytes without an end are a line: what follows them is another one.\<close>

lemma long_line_is_cut:
  assumes "plain t" "length t = BUFFER_SIZE - 1" "t_buf st = []"
  shows "text_bytes T K F t st = serve_line T K F t st"
proof -
  obtain s c where t: "t = s @ [c]" using assms(2) by (cases t rule: rev_cases) (auto simp: BUFFER_SIZE_def)
  have "text_bytes T K F s st = Some (st\<lparr>t_buf := s\<rparr>)"
    using text_bytes_plain[of s st T K F] assms t by (simp add: plain_def)
  moreover have "serve_line T K F t (st\<lparr>t_buf := []\<rparr>) = serve_line T K F t st" using assms(3) by (cases st) simp
  ultimately show ?thesis
    using assms(1,2) t by (cases "serve_line T K F t st") (auto simp: text_bytes_append text_byte_def recv_byte_def plain_def)
qed

definition solver_ok :: "'f tiny_solver \<Rightarrow> bool" where
  "solver_ok s \<longleftrightarrow> solver_shape s \<and> check_termination (sv_settings s) = 1"

context tiny_kernels
begin

lemma text_x0_set: "length a = nst \<Longrightarrow> k_matsetv K a (text_x0 F) 1 nst = Some (text_x0 F)"
  by (subst kernel_eqs) (auto simp: text_x0_def tiny_dims)

lemma text_init_ok:
  assumes "solver_shape s" "data_shape P"
  shows "\<exists>s'. text_init K F P s = Some s' \<and> solver_ok s'"
proof -
  let ?s = "tiny_init F s"
  have sh: "cache_shape (sv_cache ?s\<lparr>c_rho := rho_value P\<rparr>)" "work_shape (sv_work ?s)"
    using tiny_init_shape[OF assms(1)] by (simp_all add: cache_shape_def)
  obtain C where C: "hover_cache K P (sv_cache ?s\<lparr>c_rho := rho_value P\<rparr>) = Some C" "cache_shape C"
    using hover_cache_shape[OF sh(1) assms(2)] by blast
  obtain W where W: "hover_model K P (sv_work ?s) = Some W" "work_shape W"
    using hover_model_shape[OF sh(2) assms(2)] by blast
  obtain W' where W': "load_bounds K F W = Some W'" "work_shape W'"
    using load_bounds_eq[OF W(2)] W(2) by (auto simp: work_shape_def)
  have "load_reference K F [0..<NHORIZON] (w_Xref W') = Some (replicate (NHORIZON * nst) (f_zero F))"
    using load_reference_eq[of NHORIZON "w_Xref W'"] W'(2) by (simp add: work_shape_def)
  then show ?thesis
    using C W(1) W' by (simp add: text_init_def solver_ok_def solver_shape_def work_shape_def tiny_init_settings)
qed

lemma run_keeps_ok:
  assumes "solver_ok s" "length x = nst"
  shows "\<exists>rc s'. mpc_run K F x s = Some (rc, s') \<and> solver_ok s'"
proof -
  let ?W = "(sv_work s)\<lparr>w_x := put_slice nst 0 x (w_x (sv_work s)),
    w_y := replicate ((NHORIZON - 1) * NINPUTS) (f_zero F), w_g := replicate (NHORIZON * nst) (f_zero F)\<rparr>"
  have s: "solver_shape s" "0 < check_termination (sv_settings s)" using assms(1) by (simp_all add: solver_ok_def)
  note run = mpc_run_eq[OF s(1) assms(2)]
  have C: "cache_shape (sv_cache s)" using s(1) by (simp add: solver_shape_def)
  obtain rc W' where W': "tiny_solve K F (sv_cache s) (sv_settings s) ?W = Some (rc, W')" "pass_done (sv_settings s) ?W W'"
    using tiny_solve_ok[OF C run(1) s(2)] by (elim exE conjE) (rule that)
  have "work_shape W'" using W'(2) run(2,3) by (simp add: pass_done_def)
  then have "solver_ok (s\<lparr>sv_work := W'\<rparr>)" using assms(1) by (simp add: solver_ok_def solver_shape_def)
  then show ?thesis using run(4) W'(1) by simp
qed

lemma lines_answered:
  assumes "list_all (line_ok T) ls" "list_all (\<lambda>e. e = 10 \<or> e = 13) es" "length es = length ls"
    and "solver_ok (t_solver st)" "length (t_x0 st) = nst" "t_buf st = []"
  shows "\<exists>as st'. answers T K F ls (t_solver st) = Some as \<and> length as = length ls \<and>
    text_bytes T K F (concat (map2 (\<lambda>l e. line_text l @ [e]) ls es)) st = Some st' \<and>
    t_out st' = t_out st @ concat as \<and> t_buf st' = []"
  using assms
proof (induction ls arbitrary: es st)
  case (Cons l ls)
  obtain e es' where es: "es = e # es'" using Cons.prems(3) by (cases es) auto
  have line: "text_bytes T K F (line_text l @ [e]) st = serve_line T K F (line_text l) st"
    using text_line[of T l st e K F] Cons.prems es by auto
  show ?case
  proof (cases l)
    case (Garbage t)
    then have "serve_line T K F (line_text l) st = Some (st\<lparr>t_out := t_out st @ invalid_text\<rparr>)"
      using Cons.prems(1) by (simp add: serve_line_def cstr_plain)
    then show ?thesis
      using Cons.IH[of es' "st\<lparr>t_out := t_out st @ invalid_text\<rparr>"] Cons.prems es line Garbage
      by (auto simp: text_bytes_append simp flip: append_assoc)
  next
    case (Command i ds)
    then have ok: "fits_int i" "length ds = NUM_STATE_VARS" "list_all decimal_ok ds" using Cons.prems(1) by simp_all
    let ?x = "map (decimal_value T) ds"
    have x: "length ?x = nst" using ok(2) by (simp add: NUM_STATE_VARS_def tiny_dims)
    have "k_matsetv K (t_x0 st) ?x 1 nst = Some ?x" using Cons.prems(5) x by (subst kernel_eqs) auto
    moreover obtain rc s' where run: "mpc_run K F ?x (t_solver st) = Some (rc, s')" "solver_ok s'"
      using run_keeps_ok[OF Cons.prems(4) x] by blast
    ultimately have served: "serve_line T K F (line_text l) st =
        Some (st\<lparr>t_x0 := ?x, t_solver := s', t_out := t_out st @ controls_text T (controls s')\<rparr>)"
      using Command cstr_plain[OF command_plain[OF ok(3), of i]] scan_command_text[OF ok, of T]
      by (simp add: serve_line_def del: One_nat_def)
    show ?thesis
      using Cons.IH[of es' "st\<lparr>t_x0 := ?x, t_solver := s', t_out := t_out st @ controls_text T (controls s')\<rparr>"]
        Cons.prems es line served Command run x
      by (auto simp: text_bytes_append simp flip: append_assoc)
  qed
qed simp

end

section \<open>Results\<close>

text \<open>
  C19: Every line is answered, in order. With the vector kernels, on every vector unit with the stated laws and a commutative
  multiplication, whatever the buffers of the solver hold at the start, a host that sends
  commands written as decimals, for a drone number that fits an int, and lines that are no commands, each below 255 bytes
  and ended by a carriage return or a line feed, gets the greeting and then one answer a line: the controls solved for
  exactly the numbers it wrote, or the error message. The run is defined, which for these kernels says that every load and
  store of theirs was within its buffer: the model of each gives no result otherwise.
\<close>
theorem text_lines_answered:
  assumes "rvv_laws V" "\<And>x y. f_mul F x y = f_mul F y x" "solver_shape (t_solver st)" "data_shape P" "length (t_x0 st) = nst"
    and "list_all (line_ok T) ls" "list_all (\<lambda>e. e = 10 \<or> e = 13) es" "length es = length ls"
  shows "\<exists>s as st'. text_init (rvv_kernels V F) F P (t_solver st) = Some s \<and>
    answers T (rvv_kernels V F) F ls s = Some as \<and> length as = length ls \<and>
    text_main T (rvv_kernels V F) F P True (concat (map2 (\<lambda>l e. line_text l @ [e]) ls es)) st = Some (Inr st') \<and>
    t_out st' = t_out st @ text_greeting @ concat as"
proof -
  note K = rvv_tiny_kernels[OF assms(1,2)]
  let ?K = "rvv_kernels V F"
  obtain s where s: "text_init ?K F P (t_solver st) = Some s" "solver_ok s"
    using tiny_kernels.text_init_ok[OF K assms(3,4)] by blast
  have x0: "k_matsetv ?K (t_x0 st) (text_x0 F) 1 nst = Some (text_x0 F)"
    by (rule tiny_kernels.text_x0_set[OF K assms(5)])
  let ?st = "st\<lparr>t_buf := [], t_x0 := text_x0 F, t_solver := s, t_out := t_out st @ text_greeting\<rparr>"
  have "length (text_x0 F) = nst" by (simp add: text_x0_def tiny_dims)
  then obtain as st' where "answers T ?K F ls s = Some as" "length as = length ls"
    "text_bytes T ?K F (concat (map2 (\<lambda>l e. line_text l @ [e]) ls es)) ?st = Some st'"
    "t_out st' = t_out ?st @ concat as"
    using tiny_kernels.lines_answered[OF K assms(6-8), of ?st] s(2) by auto
  then show ?thesis using s(1) x0 by (simp add: text_main_def)
qed

section \<open>A concrete host\<close>

text \<open>Fixed-point numbers in thousandths, as in the solver's own simulation.\<close>

definition sim_text :: "int option text_float" where
  "sim_text = \<lparr>of_decimal = (\<lambda>neg m e. if e = - 3 then Some (if neg then - int m else int m) else None),
     scan_other = (\<lambda>neg s. None),
     decimals4 = (\<lambda>x. case x of None \<Rightarrow> Inr (ascii ''nan'') | Some i \<Rightarrow> Inl (i < 0, nat \<bar>i\<bar> * 10))\<rparr>"

definition sim_server :: "int option text_server" where
  "sim_server = \<lparr>t_buf = [], t_x0 = replicate 12 (Some 5), t_solver = sim_solver, t_out = []\<rparr>"

text \<open>A command whose line ends with carriage return and line feed, and a line without numbers.\<close>

definition sim_lines :: "host_line list" where
  "sim_lines = [Command 2 (replicate 12 (True, 0, [51, 49, 50])), Garbage [], Garbage (ascii ''help'')]"

lemma sim_lines_ok: "list_all (line_ok sim_text) sim_lines" by code_simp

theorem text_lines_answered_witness:
  "\<exists>u st'. text_main sim_text (rvv_kernels (sim_rvv (\<lambda>x. None)) sim_mat) sim_mat sim_problem True
      (concat (map2 (\<lambda>l e. line_text l @ [e]) sim_lines [13, 10, 10])) sim_server = Some (Inr st') \<and>
    t_out st' = text_greeting @ controls_text sim_text u @ invalid_text @ invalid_text"
proof -
  have "length (t_x0 sim_server) = nst" "t_solver sim_server = sim_solver" "t_out sim_server = []"
    by (simp_all add: sim_server_def tiny_dims)
  then show ?thesis
    using text_lines_answered[OF sim_unit.rvv_laws_axioms[of "\<lambda>x. None"] sim_mul_comm _ sim_shapes(1) _ sim_lines_ok,
        of sim_server "[13, 10, 10]"] sim_shapes(2)
    by (auto simp: sim_lines_def bind_eq_Some_conv)
qed

end
