(* ===== verification/Drone_Text_Threads.thy ===== *)
theory Drone_Text_Threads
  imports Text_Io Drone_Control
begin

text \<open>
  The threaded text server \<open>samples/drone_control/src/main_mt.cpp\<close> as a step relation: \<open>main\<close> reads command
  lines, stores the observation of a drone and gives its semaphore; three workers take theirs, copy the
  observation, solve and answer. \<open>main\<close> and the workers share the serial line under a mutex; every byte
  sent and every float stored or copied is a step of its own. A worker sets its solver up with
  \<open>text_init\<close> and starts in its loop; the solver is a parameter. The unused \<open>done_sem\<close> and \<open>action\<close>, and the
  debug text that is formatted and not sent, are left out.
\<close>

section \<open>Data\<close>

definition NUM_DRONES :: nat where "NUM_DRONES = 3"

datatype thread = Main | Worker nat

text \<open>
  Where \<open>main\<close> stands: reading a line, waiting for the mutex, sending what is left of a message, storing
  float \<open>k\<close> of an observation, giving the semaphore, or in undefined behaviour: past the end of an array,
  or with a drone number that does not fit.
\<close>

datatype 'f text_pc =
    T_READ "u8 list" | T_LOCK "u8 list" | T_SEND "u8 list" | T_STORE nat "'f list" nat | T_GIVE nat | T_UNDEFINED

datatype text_worker_pc = X_TAKE | X_COPY nat | X_SOLVE | X_LOCK "u8 list" | X_SEND "u8 list"

text \<open>\<open>state0\<close> is the first column of each solver's states; \<open>posted\<close> counts semaphore gives and is not in the program.\<close>

record ('f, 'm) text_threads =
  incoming :: "u8 list"
  main_pc :: "'f text_pc"
  obs :: "nat \<Rightarrow> 'f list"
  start_sem :: "nat \<Rightarrow> nat"
  worker_pc :: "nat \<Rightarrow> text_worker_pc"
  state0 :: "nat \<Rightarrow> 'f list"
  solver :: "nat \<Rightarrow> 'm"
  uart_mutex :: "thread option"
  uart_out :: "u8 list"
  posted :: "nat \<Rightarrow> nat"

definition mt_greeting :: "u8 list" where
  "mt_greeting = ascii ''Ready To Receive UART Commands'' @ [10]"

definition reply_text :: "'f text_float \<Rightarrow> nat \<Rightarrow> 'f list \<Rightarrow> u8 list" where
  "reply_text T i u = snprintf 128 (ascii ''u = ['' @ int_text (int i) @
     concat (map (\<lambda>j. 32 # float_text T (u ! j)) [0..<4]) @ ascii '']'' @ [10])"

section \<open>Steps\<close>

text \<open>What \<open>main\<close> does about a line.\<close>

definition after_line :: "'f text_float \<Rightarrow> u8 list \<Rightarrow> 'f text_pc" where
  "after_line T line =
     (case scan_command T (cstr (line @ [0])) of
        No_Match \<Rightarrow> T_LOCK invalid_text
      | Out_Of_Range \<Rightarrow> T_UNDEFINED
      | Fields i parsed \<Rightarrow>
          if int NUM_DRONES \<le> i then T_LOCK invalid_text
          else if i < 0 then T_UNDEFINED else T_STORE (nat i) parsed 0)"

definition text_main_step :: "'f text_float \<Rightarrow> ('f, 'm) text_threads \<Rightarrow> ('f, 'm) text_threads option" where
  "text_main_step T s =
     (case main_pc s of
        T_READ buf \<Rightarrow>
          (case incoming s of
             [] \<Rightarrow> None
           | c # cs \<Rightarrow> Some (s\<lparr>incoming := cs,
               main_pc := (case recv_byte c buf of Inl buf \<Rightarrow> T_READ buf | Inr line \<Rightarrow> after_line T line)\<rparr>))
      | T_LOCK r \<Rightarrow> if uart_mutex s = None then Some (s\<lparr>uart_mutex := Some Main, main_pc := T_SEND r\<rparr>) else None
      | T_SEND [] \<Rightarrow> Some (s\<lparr>uart_mutex := None, main_pc := T_READ []\<rparr>)
      | T_SEND (b # bs) \<Rightarrow> Some (s\<lparr>uart_out := uart_out s @ [b], main_pc := T_SEND bs\<rparr>)
      | T_STORE i parsed k \<Rightarrow>
          if k < NUM_STATE_VARS
          then Some (s\<lparr>obs := (obs s)(i := (obs s i)[k := parsed ! k]), main_pc := T_STORE i parsed (k + 1)\<rparr>)
          else Some (s\<lparr>main_pc := T_GIVE i\<rparr>)
      | T_GIVE i \<Rightarrow>
          Some (s\<lparr>start_sem := (start_sem s)(i := min 1 (start_sem s i + 1)), main_pc := T_READ [],
            posted := (posted s)(i := posted s i + 1)\<rparr>)
      | T_UNDEFINED \<Rightarrow> None)"

definition drone_worker ::
    "'f text_float \<Rightarrow> ('f list \<Rightarrow> 'm \<Rightarrow> 'f list \<times> 'm) \<Rightarrow> nat \<Rightarrow> ('f, 'm) text_threads \<Rightarrow> ('f, 'm) text_threads option" where
  "drone_worker T solve i s =
     (case worker_pc s i of
        X_TAKE \<Rightarrow>
          if 0 < start_sem s i
          then Some (s\<lparr>start_sem := (start_sem s)(i := start_sem s i - 1), worker_pc := (worker_pc s)(i := X_COPY 0)\<rparr>)
          else None
      | X_COPY k \<Rightarrow>
          if k < NUM_STATE_VARS
          then Some (s\<lparr>state0 := (state0 s)(i := (state0 s i)[k := obs s i ! k]), worker_pc := (worker_pc s)(i := X_COPY (k + 1))\<rparr>)
          else Some (s\<lparr>worker_pc := (worker_pc s)(i := X_SOLVE)\<rparr>)
      | X_SOLVE \<Rightarrow>
          (case solve (state0 s i) (solver s i) of (u, m) \<Rightarrow>
             Some (s\<lparr>solver := (solver s)(i := m), worker_pc := (worker_pc s)(i := X_LOCK (reply_text T i u))\<rparr>))
      | X_LOCK r \<Rightarrow>
          if uart_mutex s = None
          then Some (s\<lparr>uart_mutex := Some (Worker i), worker_pc := (worker_pc s)(i := X_SEND r)\<rparr>) else None
      | X_SEND [] \<Rightarrow> Some (s\<lparr>uart_mutex := None, worker_pc := (worker_pc s)(i := X_TAKE)\<rparr>)
      | X_SEND (b # bs) \<Rightarrow> Some (s\<lparr>uart_out := uart_out s @ [b], worker_pc := (worker_pc s)(i := X_SEND bs)\<rparr>))"

text \<open>After \<open>spawn_drone_workers\<close>: \<open>main\<close> is about to greet. \<open>x\<close> and \<open>m\<close> are the solvers' memory.\<close>

definition text_boot :: "u8 list \<Rightarrow> 'f \<Rightarrow> (nat \<Rightarrow> 'f list) \<Rightarrow> (nat \<Rightarrow> 'm) \<Rightarrow> ('f, 'm) text_threads" where
  "text_boot bytes zero x m =
     \<lparr>incoming = bytes, main_pc = T_LOCK mt_greeting, obs = (\<lambda>i. replicate NUM_STATE_VARS zero), start_sem = (\<lambda>i. 0),
      worker_pc = (\<lambda>i. X_TAKE), state0 = x, solver = m, uart_mutex = None, uart_out = [], posted = (\<lambda>i. 0)\<rparr>"

definition thread_step ::
    "'f text_float \<Rightarrow> ('f list \<Rightarrow> 'm \<Rightarrow> 'f list \<times> 'm) \<Rightarrow> thread \<Rightarrow> ('f, 'm) text_threads \<Rightarrow> ('f, 'm) text_threads option" where
  "thread_step T solve t s =
     (case t of Main \<Rightarrow> text_main_step T s | Worker i \<Rightarrow> if i < NUM_DRONES then drone_worker T solve i s else None)"

inductive text_reachable ::
    "'f text_float \<Rightarrow> ('f list \<Rightarrow> 'm \<Rightarrow> 'f list \<times> 'm) \<Rightarrow> ('f, 'm) text_threads \<Rightarrow> ('f, 'm) text_threads \<Rightarrow> bool"
  for T solve s0 where
  text_start: "text_reachable T solve s0 s0"
| text_next: "text_reachable T solve s0 s \<Longrightarrow> thread_step T solve t s = Some s' \<Longrightarrow> text_reachable T solve s0 s'"

fun text_run ::
    "'f text_float \<Rightarrow> ('f list \<Rightarrow> 'm \<Rightarrow> 'f list \<times> 'm) \<Rightarrow> thread list \<Rightarrow> ('f, 'm) text_threads \<Rightarrow> ('f, 'm) text_threads option" where
  "text_run T solve [] s = Some s"
| "text_run T solve (t # ts) s = Option.bind (thread_step T solve t s) (text_run T solve ts)"

lemma text_run_reachable:
  "text_run T solve ts s = Some s' \<Longrightarrow> text_reachable T solve s0 s \<Longrightarrow> text_reachable T solve s0 s'"
  by (induction ts arbitrary: s) (auto simp: bind_eq_Some_conv intro: text_next)

section \<open>The shared line\<close>

text \<open>What a thread that holds the mutex has left to send; the messages there are.\<close>

definition sending :: "('f, 'm) text_threads \<Rightarrow> thread \<Rightarrow> u8 list option" where
  "sending s t = (case t of
     Main \<Rightarrow> (case main_pc s of T_SEND r \<Rightarrow> Some r | _ \<Rightarrow> None)
   | Worker i \<Rightarrow> (case worker_pc s i of X_SEND r \<Rightarrow> Some r | _ \<Rightarrow> None))"

definition whole_message :: "'f text_float \<Rightarrow> ('f list \<Rightarrow> 'm \<Rightarrow> 'f list \<times> 'm) \<Rightarrow> u8 list \<Rightarrow> bool" where
  "whole_message T solve r \<longleftrightarrow> r = mt_greeting \<or> r = invalid_text \<or>
     (\<exists>i < NUM_DRONES. \<exists>x m. r = reply_text T i (fst (solve x m)))"

definition line_inv :: "'f text_float \<Rightarrow> ('f list \<Rightarrow> 'm \<Rightarrow> 'f list \<times> 'm) \<Rightarrow> ('f, 'm) text_threads \<Rightarrow> bool" where
  "line_inv T solve s \<longleftrightarrow>
     (\<forall>t. sending s t \<noteq> None \<longleftrightarrow> uart_mutex s = Some t) \<and>
     (\<exists>ms part. uart_out s = concat ms @ part \<and> list_all (whole_message T solve) ms \<and>
        (case uart_mutex s of None \<Rightarrow> part = [] | Some t \<Rightarrow> whole_message T solve (part @ the (sending s t))))"

text \<open>The messages that wait for the line.\<close>

definition waiting_ok :: "'f text_float \<Rightarrow> ('f list \<Rightarrow> 'm \<Rightarrow> 'f list \<times> 'm) \<Rightarrow> ('f, 'm) text_threads \<Rightarrow> bool" where
  "waiting_ok T solve s \<longleftrightarrow> (\<forall>r. main_pc s = T_LOCK r \<longrightarrow> whole_message T solve r) \<and>
     (\<forall>i < NUM_DRONES. \<forall>r. worker_pc s i = X_LOCK r \<longrightarrow> whole_message T solve r)"

inductive line_step ::
    "(u8 list \<Rightarrow> bool) \<Rightarrow> (thread \<Rightarrow> u8 list option) \<times> thread option \<times> u8 list \<Rightarrow>
      (thread \<Rightarrow> u8 list option) \<times> thread option \<times> u8 list \<Rightarrow> bool"
  for whole where
  line_other: "line_step whole (S, m, out) (S, m, out)"
| line_lock: "whole r \<Longrightarrow> line_step whole (S, None, out) (S(t := Some r), Some t, out)"
| line_send: "S t = Some (b # bs) \<Longrightarrow> line_step whole (S, m, out) (S(t := Some bs), m, out @ [b])"
| line_unlock: "S t = Some [] \<Longrightarrow> line_step whole (S, m, out) (S(t := None), None, out)"

lemma line_same: "S t = None \<Longrightarrow> line_step whole (S, m, out) (S(t := None), m, out)"
  using line_other[of whole S m out] by (simp add: fun_upd_idem)

definition the_line :: "('f, 'm) text_threads \<Rightarrow> (thread \<Rightarrow> u8 list option) \<times> thread option \<times> u8 list" where
  "the_line s = (sending s, uart_mutex s, uart_out s)"

lemma after_line_waits:
  "after_line T line = T_LOCK r \<Longrightarrow> whole_message T solve r" "after_line T line \<noteq> T_SEND r"
  by (auto simp: after_line_def whole_message_def split: scanned.splits if_splits)

lemma main_line:
  assumes "text_main_step T s = Some s'" "waiting_ok T solve s"
  shows "line_step (whole_message T solve) (the_line s) (the_line s')"
proof -
  have other: "sending s' (Worker i) = sending s (Worker i)" for i
    using assms(1) by (auto simp: text_main_step_def sending_def split: text_pc.splits list.splits if_splits)
  have upd: "sending s' = (sending s)(Main := sending s' Main)"
    using other by (auto simp: fun_eq_iff) (metis thread.exhaust)
  show ?thesis
  proof (cases "main_pc s")
    case (T_LOCK r)
    then show ?thesis using assms line_lock[of "whole_message T solve" r "sending s" "uart_out s" Main] upd
      by (auto simp: text_main_step_def the_line_def waiting_ok_def sending_def split: if_splits)
  next
    case (T_SEND r)
    have S: "sending s Main = Some r" by (simp add: sending_def T_SEND)
    show ?thesis
    proof (cases r)
      case Nil
      then show ?thesis using assms(1) T_SEND S upd line_unlock[of "sending s" Main "whole_message T solve" "uart_mutex s" "uart_out s"]
        by (auto simp: text_main_step_def the_line_def sending_def)
    next
      case (Cons b bs)
      then show ?thesis using assms(1) T_SEND S upd line_send[of "sending s" Main b bs "whole_message T solve" "uart_mutex s" "uart_out s"]
        by (auto simp: text_main_step_def the_line_def sending_def)
    qed
  next
    case (T_READ buf)
    then have "sending s' Main = None" "sending s Main = None"
      using assms(1)
      by (auto simp: text_main_step_def sending_def after_line_waits(2) split: list.splits sum.splits text_pc.splits)
    then have "sending s' = sending s" using upd by (metis fun_upd_triv)
    then show ?thesis using assms(1) T_READ by (auto simp: text_main_step_def the_line_def line_other split: list.splits)
  next
    case (T_STORE i xs k)
    then have "sending s' = sending s" using assms(1) by (auto simp: text_main_step_def sending_def fun_eq_iff split: if_splits thread.splits)
    then show ?thesis using assms(1) T_STORE by (auto simp: text_main_step_def the_line_def line_other split: if_splits)
  next
    case (T_GIVE i)
    then have "sending s' = sending s" using assms(1) by (auto simp: text_main_step_def sending_def fun_eq_iff split: thread.splits)
    then show ?thesis using assms(1) T_GIVE by (auto simp: text_main_step_def the_line_def line_other)
  qed (use assms(1) in \<open>simp add: text_main_step_def\<close>)
qed

lemma text_worker_line:
  assumes "drone_worker T solve i s = Some s'" "waiting_ok T solve s" "i < NUM_DRONES"
  shows "line_step (whole_message T solve) (the_line s) (the_line s')"
proof -
  have other: "t \<noteq> Worker i \<Longrightarrow> sending s' t = sending s t" for t
    using assms(1) by (cases t; auto simp: drone_worker_def sending_def split: text_worker_pc.splits list.splits if_splits prod.splits)
  then have upd: "sending s' = (sending s)(Worker i := sending s' (Worker i))" by (auto simp: fun_eq_iff)
  show ?thesis
  proof (cases "worker_pc s i")
    case (X_LOCK r)
    then show ?thesis using assms line_lock[of "whole_message T solve" r "sending s" "uart_out s" "Worker i"] upd
      by (auto simp: drone_worker_def the_line_def waiting_ok_def sending_def split: if_splits)
  next
    case (X_SEND r)
    have S: "sending s (Worker i) = Some r" by (simp add: sending_def X_SEND)
    show ?thesis
    proof (cases r)
      case Nil
      then show ?thesis using assms(1) X_SEND S upd line_unlock[of "sending s" "Worker i" "whole_message T solve" "uart_mutex s" "uart_out s"]
        by (auto simp: drone_worker_def the_line_def sending_def)
    next
      case (Cons b bs)
      then show ?thesis using assms(1) X_SEND S upd line_send[of "sending s" "Worker i" b bs "whole_message T solve" "uart_mutex s" "uart_out s"]
        by (auto simp: drone_worker_def the_line_def sending_def)
    qed
  qed (use assms(1) upd in \<open>auto simp: drone_worker_def the_line_def sending_def intro!: line_same
      split: if_splits prod.splits\<close>)
qed

lemma line_step_inv:
  assumes "line_step (whole_message T solve) (the_line s) (the_line s')" "line_inv T solve s"
  shows "line_inv T solve s'"
proof -
  obtain ms part where l: "uart_out s = concat ms @ part" "list_all (whole_message T solve) ms"
    "case uart_mutex s of None \<Rightarrow> part = [] | Some t \<Rightarrow> whole_message T solve (part @ the (sending s t))"
    and h: "\<And>t. sending s t \<noteq> None \<longleftrightarrow> uart_mutex s = Some t"
    using assms(2) unfolding line_inv_def by blast
  show ?thesis
    using assms(1) unfolding the_line_def
  proof cases
    case line_other
    then have "line_inv T solve s' \<longleftrightarrow> line_inv T solve s" by (simp add: line_inv_def cong: option.case_cong)
    then show ?thesis using assms(2) by simp
  next
    case (line_lock r t)
    then have "sending s' k \<noteq> None \<longleftrightarrow> uart_mutex s' = Some k" for k using h[of k] by auto
    then show ?thesis unfolding line_inv_def
      using line_lock l by (intro conjI exI[of _ ms] exI[of _ "[]"]) auto
  next
    case (line_send t b bs)
    then have t: "uart_mutex s = Some t" using h[of t] by auto
    then have "sending s' k \<noteq> None \<longleftrightarrow> uart_mutex s' = Some k" for k using h[of k] line_send by auto
    then show ?thesis unfolding line_inv_def
      using line_send l t by (intro conjI exI[of _ ms] exI[of _ "part @ [b]"]) auto
  next
    case (line_unlock t)
    then have t: "uart_mutex s = Some t" using h[of t] by auto
    then have "sending s' k \<noteq> None \<longleftrightarrow> uart_mutex s' = Some k" for k using h[of k] line_unlock by auto
    then show ?thesis unfolding line_inv_def
      using line_unlock l t by (intro conjI exI[of _ "ms @ [part]"] exI[of _ "[]"]) auto
  qed
qed

section \<open>Invariant\<close>

text \<open>\<open>main\<close> is storing an observation of drone \<open>i\<close> or about to give its semaphore.\<close>

fun storing :: "nat \<Rightarrow> 'f text_pc \<Rightarrow> bool" where
  "storing i (T_STORE j xs k) = (j = i)"
| "storing i (T_GIVE j) = (j = i)"
| "storing i pc = False"

fun main_ok :: "'f text_pc \<Rightarrow> bool" where
  "main_ok (T_STORE i xs k) = (i < NUM_DRONES \<and> k \<le> NUM_STATE_VARS)"
| "main_ok (T_GIVE i) = (i < NUM_DRONES)"
| "main_ok pc = True"

fun copied :: "text_worker_pc \<Rightarrow> nat" where
  "copied (X_COPY k) = k"
| "copied pc = NUM_STATE_VARS"

definition fresh :: "('f, 'm) text_threads \<Rightarrow> nat \<Rightarrow> bool" where
  "fresh s i \<longleftrightarrow> take (copied (worker_pc s i)) (state0 s i) = take (copied (worker_pc s i)) (obs s i)"

definition drone_ok :: "('f, 'm) text_threads \<Rightarrow> nat \<Rightarrow> bool" where
  "drone_ok s i \<longleftrightarrow> length (obs s i) = NUM_STATE_VARS \<and> length (state0 s i) = NUM_STATE_VARS \<and>
     copied (worker_pc s i) \<le> NUM_STATE_VARS \<and> start_sem s i \<le> 1 \<and>
     (0 < posted s i \<longrightarrow> \<not> storing i (main_pc s) \<longrightarrow> 0 < start_sem s i \<or> fresh s i)"

definition text_inv :: "'f text_float \<Rightarrow> ('f list \<Rightarrow> 'm \<Rightarrow> 'f list \<times> 'm) \<Rightarrow> ('f, 'm) text_threads \<Rightarrow> bool" where
  "text_inv T solve s \<longleftrightarrow> (\<forall>i. drone_ok s i) \<and> (\<forall>i \<ge> NUM_DRONES. worker_pc s i = X_TAKE) \<and> main_ok (main_pc s) \<and> waiting_ok T solve s \<and> line_inv T solve s"

lemma text_boot_inv:
  assumes "\<And>i. length (x i) = NUM_STATE_VARS"
  shows "text_inv T solve (text_boot bytes zero x m)"
proof -
  have "line_inv T solve (text_boot bytes zero x m)"
    by (auto simp: line_inv_def text_boot_def sending_def intro!: exI[of _ "[]"] split: thread.splits)
  then show ?thesis using assms by (auto simp: text_inv_def drone_ok_def waiting_ok_def text_boot_def whole_message_def)
qed

lemma after_line_ok:
  "main_ok (after_line T line)" "storing i (after_line T line) \<or> \<not> storing i (T_READ buf)"
  by (auto simp: after_line_def split: scanned.splits)

lemma main_keeps_drones:
  assumes "text_main_step T s = Some s'" "\<forall>i. drone_ok s i" "main_ok (main_pc s)"
  shows "drone_ok s' i" "main_ok (main_pc s')"
proof -
  show "main_ok (main_pc s')"
    using assms(1,3) by (auto simp: text_main_step_def after_line_ok(1) split: text_pc.splits list.splits if_splits sum.splits)
  have i: "drone_ok s i" using assms(2) by simp
  show "drone_ok s' i"
  proof (cases "main_pc s")
    case (T_STORE j xs k)
    then show ?thesis using assms(1) i by (cases "j = i") (auto simp: text_main_step_def drone_ok_def fresh_def split: if_splits)
  next
    case (T_GIVE j)
    then show ?thesis using assms(1) i by (cases "j = i") (auto simp: text_main_step_def drone_ok_def fresh_def)
  qed (use assms(1) i in \<open>auto simp: text_main_step_def drone_ok_def fresh_def split: list.splits if_splits\<close>)
qed

lemma main_keeps_workers: "text_main_step T s = Some s' \<Longrightarrow> worker_pc s' = worker_pc s"
  by (auto simp: text_main_step_def split: text_pc.splits list.splits if_splits)

lemma main_waits:
  assumes "text_main_step T s = Some s'" "waiting_ok T solve s"
  shows "waiting_ok T solve s'"
  using assms after_line_waits(1)[of T _ _ solve]
  by (fastforce simp: text_main_step_def waiting_ok_def split: text_pc.splits list.splits if_splits sum.splits)

lemma text_worker_others:
  assumes "drone_worker T solve i s = Some s'"
  shows "obs s' = obs s" "main_pc s' = main_pc s" "posted s' = posted s" "incoming s' = incoming s"
    and "k \<noteq> i \<Longrightarrow> worker_pc s' k = worker_pc s k \<and> state0 s' k = state0 s k \<and> start_sem s' k = start_sem s k"
  using assms by (auto simp: drone_worker_def split: text_worker_pc.splits if_splits list.splits prod.splits)

lemma worker_keeps_drones:
  assumes "drone_worker T solve i s = Some s'" "\<forall>k. drone_ok s k"
  shows "drone_ok s' k"
proof (cases "k = i")
  case False
  then show ?thesis using assms(2) text_worker_others[OF assms(1)] by (simp add: drone_ok_def fresh_def)
next
  case True
  have i: "drone_ok s i" using assms(2) by simp
  show ?thesis unfolding True
  proof (cases "worker_pc s i")
    case (X_COPY j)
    then show "drone_ok s' i" using assms(1) i
      by (auto simp: drone_worker_def drone_ok_def fresh_def take_Suc_conv_app_nth split: if_splits)
  next
    case (X_SEND r)
    then show "drone_ok s' i" using assms(1) i by (cases r) (auto simp: drone_worker_def drone_ok_def fresh_def)
  qed (use assms(1) i in \<open>auto simp: drone_worker_def drone_ok_def fresh_def split: if_splits prod.splits\<close>)
qed

lemma worker_waits:
  assumes "drone_worker T solve i s = Some s'" "waiting_ok T solve s" "i < NUM_DRONES"
  shows "waiting_ok T solve s'"
proof -
  have "whole_message T solve r" if "worker_pc s' i = X_LOCK r" for r
    using assms that unfolding drone_worker_def whole_message_def
    by (auto split: text_worker_pc.splits if_splits list.splits prod.splits) (metis fst_conv)+
  then show ?thesis
    using assms(2) text_worker_others(2,5)[OF assms(1)] unfolding waiting_ok_def by metis
qed

lemma text_step_inv:
  assumes "thread_step T solve t s = Some s'" "text_inv T solve s"
  shows "text_inv T solve s'"
proof (cases t)
  case Main
  then have "text_main_step T s = Some s'" using assms(1) by (simp add: thread_step_def)
  then show ?thesis
    using assms(2) main_keeps_drones main_keeps_workers main_waits line_step_inv[OF main_line] unfolding text_inv_def by metis
next
  case (Worker i)
  then have "drone_worker T solve i s = Some s'" "i < NUM_DRONES" using assms(1) by (auto simp: thread_step_def split: if_splits)
  then show ?thesis
    using assms(2) worker_keeps_drones worker_waits line_step_inv[OF text_worker_line] text_worker_others(2,5)
    unfolding text_inv_def by (metis not_less)
qed

lemma text_reachable_inv:
  assumes "text_reachable T solve (text_boot bytes zero x m) s" "\<forall>i. length (x i) = NUM_STATE_VARS"
  shows "text_inv T solve s"
  using assms(1)
proof induction
  case text_start
  show ?case by (rule text_boot_inv[OF assms(2)[rule_format]])
next
  case (text_next s t s')
  then show ?case using text_step_inv by blast
qed

section \<open>What the host sees\<close>

text \<open>
  Messages never interleave: in every schedule the line carries whole messages, the greeting, the error or a
  drone's answer, and then the beginning of one more while somebody holds the mutex.
\<close>
theorem text_messages_whole:
  assumes "text_reachable T solve (text_boot bytes zero x m) s" "\<forall>i. length (x i) = NUM_STATE_VARS"
  shows "\<exists>ms part r. uart_out s = concat ms @ part \<and> list_all (whole_message T solve) ms \<and>
    (uart_mutex s = None \<longrightarrow> part = []) \<and> (part \<noteq> [] \<longrightarrow> whole_message T solve r \<and> prefix part r)"
proof -
  have "line_inv T solve s" using text_reachable_inv[OF assms] by (simp add: text_inv_def)
  then obtain ms part where l: "uart_out s = concat ms @ part" "list_all (whole_message T solve) ms"
    "case uart_mutex s of None \<Rightarrow> part = [] | Some t \<Rightarrow> whole_message T solve (part @ the (sending s t))"
    unfolding line_inv_def by blast
  then show ?thesis
    by (cases "uart_mutex s") (fastforce intro: exI[of _ ms] exI[of _ part])+
qed

text \<open>Steps that read nothing from the host, and a measure that each of them lowers.\<close>

definition quiet_step ::
    "'f text_float \<Rightarrow> ('f list \<Rightarrow> 'm \<Rightarrow> 'f list \<times> 'm) \<Rightarrow> ('f, 'm) text_threads \<Rightarrow> ('f, 'm) text_threads \<Rightarrow> bool" where
  "quiet_step T solve s s' \<longleftrightarrow> (\<exists>t. thread_step T solve t s = Some s') \<and> incoming s' = incoming s"

fun main_rank :: "'f text_pc \<Rightarrow> nat" where
  "main_rank (T_LOCK r) = 2 + length r"
| "main_rank (T_SEND r) = 1 + length r"
| "main_rank (T_STORE i xs k) = 146 + (12 - k)"
| "main_rank (T_GIVE i) = 145"
| "main_rank pc = 0"

fun worker_rank :: "text_worker_pc \<Rightarrow> nat" where
  "worker_rank X_TAKE = 0"
| "worker_rank (X_COPY k) = 131 + (12 - k)"
| "worker_rank X_SOLVE = 130"
| "worker_rank (X_LOCK r) = 2 + length r"
| "worker_rank (X_SEND r) = 1 + length r"

definition drone_rank :: "('f, 'm) text_threads \<Rightarrow> nat \<Rightarrow> nat" where
  "drone_rank s i = (if 0 < start_sem s i then 144 else 0) + worker_rank (worker_pc s i)"

definition text_rank :: "('f, 'm) text_threads \<Rightarrow> nat" where
  "text_rank s = main_rank (main_pc s) + (\<Sum>i < NUM_DRONES. drone_rank s i)"

lemma snprintf_length: "length (snprintf n t) \<le> n - 1"
  by (simp add: snprintf_def)

lemma reply_length: "length (reply_text T i u) < 128"
  using snprintf_length[of 128] unfolding reply_text_def by (simp only: less_Suc_eq_le numeral_eq_Suc) simp

lemma message_length: "whole_message T solve r \<Longrightarrow> length r \<le> 127"
proof -
  have "length (reply_text T i u) \<le> 127" for i u using reply_length[of T i u] by linarith
  then show "whole_message T solve r \<Longrightarrow> length r \<le> 127"
    by (auto simp: whole_message_def mt_greeting_def invalid_text_def ascii_def)
qed

lemma sum_change_one:
  fixes f g :: "nat \<Rightarrow> nat"
  assumes "i < n" "\<And>k. k \<noteq> i \<Longrightarrow> f k = g k"
  shows "(\<Sum>k < n. f k) + g i = (\<Sum>k < n. g k) + f i"
proof -
  have "(\<Sum>k < n. f k) = f i + (\<Sum>k \<in> {..<n} - {i}. f k)" "(\<Sum>k < n. g k) = g i + (\<Sum>k \<in> {..<n} - {i}. g k)"
    using assms(1) by (simp_all add: sum.remove)
  moreover have "(\<Sum>k \<in> {..<n} - {i}. f k) = (\<Sum>k \<in> {..<n} - {i}. g k)" using assms(2) by (intro sum.cong) auto
  ultimately show ?thesis by simp
qed

lemma text_main_lowers_rank:
  assumes "text_main_step T s = Some s'" "incoming s' = incoming s" "text_inv T solve s"
  shows "text_rank s' < text_rank s"
proof (cases "main_pc s")
  case (T_GIVE i)
  then have i: "i < NUM_DRONES" using assms(3) by (auto simp: text_inv_def)
  have s': "main_pc s' = T_READ []" "worker_pc s' = worker_pc s" "\<And>k. k \<noteq> i \<Longrightarrow> start_sem s' k = start_sem s k"
    using assms(1) T_GIVE by (auto simp: text_main_step_def)
  have "(\<Sum>k < NUM_DRONES. drone_rank s' k) + drone_rank s i = (\<Sum>k < NUM_DRONES. drone_rank s k) + drone_rank s' i"
    using s' by (intro sum_change_one[OF i]) (simp add: drone_rank_def)
  moreover have "drone_rank s' i \<le> drone_rank s i + 144" using s'(2) by (simp add: drone_rank_def)
  ultimately show ?thesis using s'(1) T_GIVE by (simp add: text_rank_def)
next
  case (T_SEND r)
  then show ?thesis using assms(1) by (cases r) (auto simp: text_main_step_def text_rank_def drone_rank_def)
qed (use assms(1,2) in \<open>auto simp: text_main_step_def text_rank_def drone_rank_def NUM_STATE_VARS_def split: list.splits if_splits\<close>)

lemma text_worker_lowers_rank:
  assumes "drone_worker T solve i s = Some s'" "i < NUM_DRONES" "text_inv T solve s"
  shows "text_rank s' < text_rank s"
proof -
  have "start_sem s i \<le> 1" using assms(3) by (auto simp: text_inv_def drone_ok_def)
  then have "drone_rank s' i < drone_rank s i"
    using assms(1) reply_length[of T i]
    by (auto simp: drone_worker_def drone_rank_def NUM_STATE_VARS_def
        split: text_worker_pc.splits if_splits list.splits prod.splits)
  moreover have "drone_rank s' k = drone_rank s k" if "k \<noteq> i" for k
    using text_worker_others(5)[OF assms(1) that] by (simp add: drone_rank_def)
  then have "(\<Sum>k < NUM_DRONES. drone_rank s' k) + drone_rank s i = (\<Sum>k < NUM_DRONES. drone_rank s k) + drone_rank s' i"
    by (intro sum_change_one[OF assms(2)])
  ultimately show ?thesis using text_worker_others(2)[OF assms(1)] by (simp add: text_rank_def)
qed

lemma text_rank_bound:
  assumes "text_inv T solve s"
  shows "text_rank s \<le> 1019"
proof -
  have sent: "length r \<le> 127" if "sending s t = Some r" for t r
  proof -
    have h: "uart_mutex s = Some t" using assms that by (auto simp: text_inv_def line_inv_def)
    moreover have "line_inv T solve s" using assms by (simp add: text_inv_def)
    ultimately obtain part where "whole_message T solve (part @ the (sending s t))" unfolding line_inv_def by auto
    then have "whole_message T solve (part @ r)" using that by simp
    from message_length[OF this] show ?thesis by simp
  qed
  have "drone_rank s i \<le> 287" if "i < NUM_DRONES" for i
  proof -
    have "worker_rank (worker_pc s i) \<le> 143"
    proof (cases "worker_pc s i")
      case (X_LOCK r)
      then have "whole_message T solve r" using assms that by (auto simp: text_inv_def waiting_ok_def)
      from message_length[OF this] show ?thesis using X_LOCK by simp
    next
      case (X_SEND r)
      then show ?thesis using sent[of "Worker i" r] by (simp add: sending_def)
    qed simp_all
    then show ?thesis by (simp add: drone_rank_def)
  qed
  then have "(\<Sum>i < NUM_DRONES. drone_rank s i) \<le> of_nat (card {..<NUM_DRONES}) * 287" by (intro sum_bounded_above) auto
  moreover have "main_rank (main_pc s) \<le> 158"
  proof (cases "main_pc s")
    case (T_LOCK r)
    then have "whole_message T solve r" using assms by (auto simp: text_inv_def waiting_ok_def)
    from message_length[OF this] show ?thesis using T_LOCK by simp
  next
    case (T_SEND r)
    then show ?thesis using sent[of Main r] by (simp add: sending_def)
  qed simp_all
  ultimately show ?thesis by (simp add: text_rank_def NUM_DRONES_def)
qed

lemma main_can_move:
  assumes "\<And>buf. main_pc s \<noteq> T_READ buf" "main_pc s \<noteq> T_UNDEFINED" "\<And>r. main_pc s = T_LOCK r \<Longrightarrow> uart_mutex s = None"
  shows "\<exists>s'. text_main_step T s = Some s' \<and> incoming s' = incoming s"
proof (cases "main_pc s")
  case (T_SEND r)
  then show ?thesis by (cases r) (simp_all add: text_main_step_def)
qed (use assms in \<open>auto simp: text_main_step_def\<close>)

lemma nobody_steps:
  assumes "text_inv T solve s" "\<nexists>s'. quiet_step T solve s s'"
  shows "uart_mutex s = None" "main_pc s = T_UNDEFINED \<or> (\<exists>buf. main_pc s = T_READ buf)"
    "i < NUM_DRONES \<Longrightarrow> worker_pc s i = X_TAKE \<and> start_sem s i = 0"
proof -
  have workers: "drone_worker T solve i s = None" if "i < NUM_DRONES" for i
  proof (rule ccontr)
    assume "drone_worker T solve i s \<noteq> None"
    then obtain s' where "drone_worker T solve i s = Some s'" by blast
    moreover from this have "incoming s' = incoming s" by (rule text_worker_others(4))
    moreover have "thread_step T solve (Worker i) s = drone_worker T solve i s" using that by (simp add: thread_step_def)
    ultimately show False using assms(2) unfolding quiet_step_def by metis
  qed
  have main: "\<not> (text_main_step T s = Some s' \<and> incoming s' = incoming s)" for s'
  proof -
    have "thread_step T solve Main s = text_main_step T s" by (simp add: thread_step_def)
    then show ?thesis using assms(2) unfolding quiet_step_def by metis
  qed
  have held: "sending s t = None" for t
  proof (cases t)
    case Main
    have "main_pc s \<noteq> T_SEND r" for r using main_can_move[of s T] main by auto
    then show ?thesis using Main by (auto simp: sending_def split: text_pc.splits)
  next
    case (Worker i)
    show ?thesis
    proof (cases "i < NUM_DRONES")
      case True
      then show ?thesis using workers[OF True] Worker
        by (auto simp: sending_def drone_worker_def split: text_worker_pc.splits list.splits)
    next
      case False
      then show ?thesis using assms(1) Worker by (auto simp: sending_def text_inv_def drone_ok_def not_less)
    qed
  qed
  show m: "uart_mutex s = None"
    using held assms(1) unfolding text_inv_def line_inv_def by (metis not_Some_eq)
  show "main_pc s = T_UNDEFINED \<or> (\<exists>buf. main_pc s = T_READ buf)"
    using main_can_move[of s T] main m by auto
  show "worker_pc s i = X_TAKE \<and> start_sem s i = 0" if "i < NUM_DRONES"
    using workers[OF that] m
    by (auto simp: drone_worker_def split: text_worker_pc.splits if_splits list.splits prod.splits)
qed

section \<open>Who sent what\<close>

text \<open>What a thread has not sent yet of its messages: \<open>part\<close> is what the holder of the line has sent.\<close>

fun to_send :: "u8 list \<Rightarrow> text_worker_pc \<Rightarrow> u8 list list" where
  "to_send part (X_LOCK r) = [r]"
| "to_send part (X_SEND r) = [part @ r]"
| "to_send part pc = []"

fun main_to_send :: "u8 list \<Rightarrow> 'f text_pc \<Rightarrow> u8 list list" where
  "main_to_send part (T_LOCK r) = [r]"
| "main_to_send part (T_SEND r) = [part @ r]"
| "main_to_send part pc = []"

fun has_solved :: "text_worker_pc \<Rightarrow> bool" where
  "has_solved (X_COPY k) = False"
| "has_solved X_SOLVE = False"
| "has_solved pc = True"

text \<open>Worker \<open>i\<close> has solved for \<open>xs\<close>, one after the other, and answered each, but for what it has still to send.\<close>

definition worker_log ::
    "'f text_float \<Rightarrow> ('f list \<Rightarrow> 'm \<Rightarrow> 'f list \<times> 'm) \<Rightarrow> 'm \<Rightarrow> nat \<Rightarrow> (thread \<times> u8 list) list \<Rightarrow> u8 list \<Rightarrow>
      ('f, 'm) text_threads \<Rightarrow> 'f list list \<Rightarrow> bool" where
  "worker_log T solve m i rs part s xs \<longleftrightarrow>
     solver s i = snd (controller solve m xs) \<and>
     map (reply_text T i) (fst (controller solve m xs)) = of_drone (Worker i) rs @ to_send part (worker_pc s i) \<and>
     (has_solved (worker_pc s i) \<longrightarrow> xs \<noteq> [] \<longrightarrow> last xs = state0 s i) \<and>
     (has_solved (worker_pc s i) \<longrightarrow> 0 < posted s i \<longrightarrow> xs \<noteq> [] \<or> 0 < start_sem s i)"

definition text_log ::
    "'f text_float \<Rightarrow> ('f list \<Rightarrow> 'm \<Rightarrow> 'f list \<times> 'm) \<Rightarrow> (nat \<Rightarrow> 'm) \<Rightarrow> (thread \<times> u8 list) list \<Rightarrow> u8 list \<Rightarrow>
      ('f, 'm) text_threads \<Rightarrow> (nat \<Rightarrow> 'f list list) \<Rightarrow> bool" where
  "text_log T solve m rs part s xs \<longleftrightarrow>
     uart_out s = concat (map snd rs) @ part \<and> (uart_mutex s = None \<longrightarrow> part = []) \<and>
     (\<exists>k. of_drone Main rs @ main_to_send part (main_pc s) = mt_greeting # replicate k invalid_text) \<and>
     (\<forall>i. worker_log T solve (m i) i rs part s (xs i))"

lemma text_boot_log: "text_log T solve m [] [] (text_boot bytes zero x m) (\<lambda>i. [])"
  by (simp add: text_log_def worker_log_def text_boot_def)

lemma worker_log_other:
  assumes "worker_log T solve m k rs part s xs" "worker_pc s' k = worker_pc s k" "solver s' k = solver s k" "state0 s' k = state0 s k"
    and "0 < start_sem s k \<longrightarrow> 0 < start_sem s' k" "posted s' k = posted s k \<or> 0 < start_sem s' k"
    and "of_drone (Worker k) rs' = of_drone (Worker k) rs" "\<forall>r. worker_pc s k = X_SEND r \<longrightarrow> part' = part"
  shows "worker_log T solve m k rs' part' s' xs"
  using assms by (cases "worker_pc s k") (auto simp: worker_log_def)

text \<open>What \<open>main\<close> has said and has to say.\<close>

lemma main_kinds:
  assumes "text_main_step T s = Some s'"
  obtains (locks) r where "main_pc s = T_LOCK r" "main_pc s' = T_SEND r" "uart_mutex s = None" "uart_out s' = uart_out s"
  | (ends) "main_pc s = T_SEND []" "main_pc s' = T_READ []" "uart_mutex s' = None" "uart_out s' = uart_out s"
  | (sends) b r where "main_pc s = T_SEND (b # r)" "main_pc s' = T_SEND r" "uart_out s' = uart_out s @ [b]" "uart_mutex s' = uart_mutex s"
  | (silent) "\<And>part. main_to_send part (main_pc s) = []"
      "(\<forall>part. main_to_send part (main_pc s') = []) \<or> (\<forall>part. main_to_send part (main_pc s') = [invalid_text])"
      "uart_out s' = uart_out s" "uart_mutex s' = uart_mutex s"
proof (cases "main_pc s")
  case (T_READ buf)
  have "(\<forall>part. main_to_send part (after_line T line) = []) \<or> (\<forall>part. main_to_send part (after_line T line) = [invalid_text])" for line
    by (auto simp: after_line_def split: scanned.splits)
  moreover have "(\<exists>b. main_pc s' = T_READ b) \<or> (\<exists>l. main_pc s' = after_line T l)" "uart_out s' = uart_out s" "uart_mutex s' = uart_mutex s"
    using assms T_READ by (auto simp: text_main_step_def split: list.splits sum.splits)
  moreover from calculation(1,2) have "(\<forall>part. main_to_send part (main_pc s') = []) \<or>
      (\<forall>part. main_to_send part (main_pc s') = [invalid_text])" by (metis main_to_send.simps(3))
  ultimately show ?thesis using T_READ by (intro that(4)) simp_all
next
  case (T_SEND r)
  then show ?thesis using assms that(2,3) by (cases r) (auto simp: text_main_step_def)
qed (use assms that(1,4) in \<open>auto simp: text_main_step_def split: if_splits\<close>)

lemma main_keeps_logged:
  assumes "text_main_step T s = Some s'"
  shows "worker_pc s' = worker_pc s" "solver s' = solver s" "state0 s' = state0 s"
    "0 < start_sem s k \<longrightarrow> 0 < start_sem s' k" "posted s' k = posted s k \<or> 0 < start_sem s' k"
  using assms by (auto simp: text_main_step_def split: text_pc.splits list.splits if_splits)

lemma main_step_text_log:
  assumes "text_main_step T s = Some s'" "text_inv T solve s" "text_log T solve m rs part s xs"
  shows "\<exists>rs part. text_log T solve m rs part s' xs"
proof -
  note same = main_keeps_logged[OF assms(1)]
  have log: "uart_out s = concat (map snd rs) @ part" "uart_mutex s = None \<longrightarrow> part = []"
    "\<And>i. worker_log T solve (m i) i rs part s (xs i)" using assms(3) by (simp_all add: text_log_def)
  obtain k where k: "of_drone Main rs @ main_to_send part (main_pc s) = mt_greeting # replicate k invalid_text"
    using assms(3) by (auto simp: text_log_def)
  have holds: "sending s t \<noteq> None \<longleftrightarrow> uart_mutex s = Some t" for t using assms(2) by (simp add: text_inv_def line_inv_def)
  have workers: "worker_log T solve (m i) i rs' part' s' (xs i)"
    if "of_drone (Worker i) rs' = of_drone (Worker i) rs" "uart_mutex s = Some Main \<or> part' = part" for i rs' part'
  proof (rule worker_log_other[OF log(3) _ _ _ same(4,5) that(1)])
    show "\<forall>r. worker_pc s i = X_SEND r \<longrightarrow> part' = part" using that(2) holds[of "Worker i"] by (auto simp: sending_def)
  qed (simp_all add: same)
  show ?thesis
    using assms(1)
  proof (cases rule: main_kinds)
    case (locks r)
    then show ?thesis using log k workers[of _ rs part] by (intro exI[of _ rs] exI[of _ part]) (auto simp: text_log_def)
  next
    case ends
    then have "uart_mutex s = Some Main" using holds[of Main] by (simp add: sending_def)
    then show ?thesis using ends log k workers[of _ "rs @ [(Main, part)]" "[]"]
      by (intro exI[of _ "rs @ [(Main, part)]"] exI[of _ "[]"]) (auto simp: text_log_def)
  next
    case (sends b r)
    then have "uart_mutex s = Some Main" using holds[of Main] by (simp add: sending_def)
    then show ?thesis using sends log k workers[of _ rs "part @ [b]"]
      by (intro exI[of _ rs] exI[of _ "part @ [b]"]) (auto simp: text_log_def)
  next
    case silent
    have "\<exists>k. of_drone Main rs @ main_to_send part (main_pc s') = mt_greeting # replicate k invalid_text"
      using silent(2)
    proof (elim disjE)
      assume "\<forall>part. main_to_send part (main_pc s') = [invalid_text]"
      then show ?thesis using k silent(1) by (intro exI[of _ "Suc k"]) (simp add: replicate_append_same[symmetric])
    qed (use k silent(1) in auto)
    then show ?thesis using silent(3,4) log workers[of _ rs part] by (intro exI[of _ rs] exI[of _ part]) (auto simp: text_log_def)
  qed
qed

lemma text_worker_kinds:
  assumes "drone_worker T solve i s = Some s'"
  obtains
    (copies) "worker_pc s i = X_TAKE \<or> (\<exists>k. worker_pc s i = X_COPY k)" "\<And>part. to_send part (worker_pc s' i) = []" "\<not> has_solved (worker_pc s' i)"
      "solver s' = solver s" "uart_out s' = uart_out s" "uart_mutex s' = uart_mutex s"
  | (solves) u m where "worker_pc s i = X_SOLVE" "solve (state0 s i) (solver s i) = (u, m)"
      "worker_pc s' i = X_LOCK (reply_text T i u)" "state0 s' = state0 s" "solver s' = (solver s)(i := m)" "uart_out s' = uart_out s" "uart_mutex s' = uart_mutex s"
  | (locks) r where "worker_pc s i = X_LOCK r" "uart_mutex s = None" "worker_pc s' i = X_SEND r" "state0 s' = state0 s" "solver s' = solver s"
      "uart_out s' = uart_out s" "start_sem s' = start_sem s"
  | (ends) "worker_pc s i = X_SEND []" "worker_pc s' i = X_TAKE" "state0 s' = state0 s" "solver s' = solver s" "uart_out s' = uart_out s"
      "uart_mutex s' = None" "start_sem s' = start_sem s"
  | (sends) b r where "worker_pc s i = X_SEND (b # r)" "worker_pc s' i = X_SEND r" "state0 s' = state0 s" "solver s' = solver s"
      "uart_out s' = uart_out s @ [b]" "uart_mutex s' = uart_mutex s" "start_sem s' = start_sem s"
  using assms by (auto simp: drone_worker_def split: text_worker_pc.splits if_splits list.splits prod.splits)

lemma worker_step_text_log:
  assumes "drone_worker T solve i s = Some s'" "text_inv T solve s" "text_log T solve m rs part s xs"
  shows "\<exists>rs part xs. text_log T solve m rs part s' xs"
proof -
  note o = text_worker_others[OF assms(1)]
  have log: "uart_out s = concat (map snd rs) @ part" "uart_mutex s = None \<longrightarrow> part = []"
    "\<And>i. worker_log T solve (m i) i rs part s (xs i)" using assms(3) by (simp_all add: text_log_def)
  obtain k where k: "of_drone Main rs @ main_to_send part (main_pc s) = mt_greeting # replicate k invalid_text"
    using assms(3) by (auto simp: text_log_def)
  have holds: "sending s t \<noteq> None \<longleftrightarrow> uart_mutex s = Some t" for t using assms(2) by (simp add: text_inv_def line_inv_def)
  have other: "worker_log T solve (m j) j rs' part' s' (xs j)"
    if "j \<noteq> i" "solver s' j = solver s j" "of_drone (Worker j) rs' = of_drone (Worker j) rs" "uart_mutex s = Some (Worker i) \<or> part' = part" for j rs' part'
  proof (rule worker_log_other[OF log(3) _ that(2) _ _ _ that(3)])
    show "\<forall>r. worker_pc s j = X_SEND r \<longrightarrow> part' = part" using that(1,4) holds[of "Worker j"] by (auto simp: sending_def)
  qed (use o(3) o(5)[OF that(1)] in simp_all)
  have main: "\<exists>k. of_drone Main rs' @ main_to_send part' (main_pc s') = mt_greeting # replicate k invalid_text"
    if "of_drone Main rs' = of_drone Main rs" "uart_mutex s = Some (Worker i) \<or> part' = part" for rs' part'
    using k that o(2) holds[of Main] by (cases "main_pc s") (auto simp: sending_def)
  have own: "worker_log T solve (m i) i rs part s (xs i)" by (rule log(3))
  show ?thesis
    using assms(1)
  proof (cases rule: text_worker_kinds)
    case copies
    then have "worker_log T solve (m i) i rs part s' (xs i)" using own by (auto simp: worker_log_def)
    then have "worker_log T solve (m j) j rs part s' (xs j)" for j using other[of j rs part] copies(4) by (cases "j = i") auto
    then show ?thesis using copies log main[of rs part] by (intro exI[of _ rs] exI[of _ part] exI[of _ xs]) (simp add: text_log_def)
  next
    case (solves u m')
    obtain us where c: "controller solve (m i) (xs i) = (us, solver s i)"
      using own by (cases "controller solve (m i) (xs i)") (simp add: worker_log_def)
    let ?xs = "xs(i := xs i @ [state0 s i])"
    have "worker_log T solve (m i) i rs part s' (?xs i)" using own solves c by (simp add: worker_log_def controller_snoc)
    then have "worker_log T solve (m j) j rs part s' (?xs j)" for j using other[of j rs part] solves(5) by (cases "j = i") auto
    then show ?thesis using solves log main[of rs part] by (intro exI[of _ rs] exI[of _ part] exI[of _ ?xs]) (simp add: text_log_def)
  next
    case (locks r)
    then have "worker_log T solve (m i) i rs part s' (xs i)" using own log(2) o(3) by (simp add: worker_log_def)
    then have "worker_log T solve (m j) j rs part s' (xs j)" for j using other[of j rs part] locks(5) by (cases "j = i") auto
    then show ?thesis using locks log main[of rs part] by (intro exI[of _ rs] exI[of _ part] exI[of _ xs]) (simp add: text_log_def)
  next
    case ends
    then have mine: "uart_mutex s = Some (Worker i)" using holds[of "Worker i"] by (simp add: sending_def)
    let ?rs = "rs @ [(Worker i, part)]"
    have "worker_log T solve (m i) i ?rs [] s' (xs i)" using own ends o(3) by (simp add: worker_log_def)
    then have "worker_log T solve (m j) j ?rs [] s' (xs j)" for j using other[of j ?rs "[]"] ends(4) mine by (cases "j = i") auto
    then show ?thesis using ends log main[of ?rs "[]"] mine by (intro exI[of _ ?rs] exI[of _ "[]"] exI[of _ xs]) (simp add: text_log_def)
  next
    case (sends b r)
    then have mine: "uart_mutex s = Some (Worker i)" using holds[of "Worker i"] by (simp add: sending_def)
    have "worker_log T solve (m i) i rs (part @ [b]) s' (xs i)" using own sends o(3) by (simp add: worker_log_def)
    then have "worker_log T solve (m j) j rs (part @ [b]) s' (xs j)" for j using other[of j rs "part @ [b]"] sends(4) mine by (cases "j = i") auto
    then show ?thesis using sends log main[of rs "part @ [b]"] mine by (intro exI[of _ rs] exI[of _ "part @ [b]"] exI[of _ xs]) (simp add: text_log_def)
  qed
qed

lemma text_reachable_log:
  assumes "text_reachable T solve (text_boot bytes zero x m) s" "\<forall>i. length (x i) = NUM_STATE_VARS"
  shows "\<exists>rs part xs. text_log T solve m rs part s xs"
  using assms(1)
proof induction
  case text_start
  show ?case using text_boot_log[of T solve m bytes zero x] by blast
next
  case (text_next s t s')
  then obtain rs part xs where log: "text_log T solve m rs part s xs" by blast
  have inv: "text_inv T solve s" using text_reachable_inv[OF text_next(1) assms(2)] .
  show ?case
  proof (cases t)
    case Main
    then have "text_main_step T s = Some s'" using text_next(2) by (simp add: thread_step_def)
    then show ?thesis using main_step_text_log[OF _ inv log] by blast
  next
    case (Worker i)
    then have "drone_worker T solve i s = Some s'" using text_next(2) by (simp add: thread_step_def split: if_splits)
    then show ?thesis using worker_step_text_log[OF _ inv log] by blast
  qed
qed

lemma quiet_steps_end:
  assumes "text_reachable T solve (text_boot bytes zero x m) s" "\<forall>i. length (x i) = NUM_STATE_VARS"
    and "(quiet_step T solve ^^ n) s s'"
  shows "text_reachable T solve (text_boot bytes zero x m) s'" "n \<le> 1019"
proof -
  have inv: "text_inv T solve s" by (rule text_reachable_inv[OF assms(1,2)])
  have run: "text_reachable T solve (text_boot bytes zero x m) s' \<and> text_inv T solve s' \<and> text_rank s' + n \<le> text_rank s"
    using assms(3)
  proof (induction n arbitrary: s')
    case (Suc n)
    then obtain u where u: "(quiet_step T solve ^^ n) s u" "quiet_step T solve u s'" by auto
    then obtain t where t: "thread_step T solve t u = Some s'" "incoming s' = incoming u" by (auto simp: quiet_step_def)
    have IH: "text_reachable T solve (text_boot bytes zero x m) u" "text_inv T solve u" "text_rank u + n \<le> text_rank s"
      using Suc.IH[OF u(1)] by simp_all
    have "text_rank s' < text_rank u"
      using t IH(2) text_main_lowers_rank text_worker_lowers_rank by (cases t) (auto simp: thread_step_def split: if_splits)
    then show ?case using text_step_inv[OF t(1) IH(2)] IH(3) text_next[OF IH(1) t(1)] by simp
  qed (use inv assms(1) in simp)
  then show "text_reachable T solve (text_boot bytes zero x m) s'" by simp
  show "n \<le> 1019" using text_rank_bound[OF inv] run by simp
qed

text \<open>
  C20: A host that stops sending is answered. From any reachable state the server takes at most 1019 steps
  without a byte from the host, whatever the scheduler picks. When nothing can move, the line is free, and all that was
  ever sent on it are whole messages: from \<open>main\<close> the greeting and then errors only; from drone \<open>i\<close>, in order, one
  reply for each observation \<open>xs i\<close>, with the thrusts its solver, started as at boot, computes for them one
  after the other. Each worker waits on its semaphore; if an observation of a drone was stored, the last one it
  answered is the latest; and \<open>main\<close> reads, unless a command took it out of its arrays. The solver is any
  function of observation and memory.
\<close>
theorem text_server_settles:
  assumes "text_reachable T solve (text_boot bytes zero x m) s" "\<forall>i. length (x i) = NUM_STATE_VARS"
    and "(quiet_step T solve ^^ n) s s'"
  shows "n \<le> 1019 \<and> ((\<nexists>s''. quiet_step T solve s' s'') \<longrightarrow>
    uart_mutex s' = None \<and> (main_pc s' = T_UNDEFINED \<or> (\<exists>buf. main_pc s' = T_READ buf)) \<and>
    (\<exists>rs xs k. uart_out s' = concat (map snd rs) \<and> of_drone Main rs = mt_greeting # replicate k invalid_text \<and>
       (\<forall>i < NUM_DRONES. worker_pc s' i = X_TAKE \<and> start_sem s' i = 0 \<and>
          of_drone (Worker i) rs = map (reply_text T i) (fst (controller solve (m i) (xs i))) \<and>
          (0 < posted s' i \<longrightarrow> xs i \<noteq> [] \<and> last (xs i) = obs s' i))))"
proof -
  note r = quiet_steps_end[OF assms]
  have inv: "text_inv T solve s'" by (rule text_reachable_inv[OF r(1) assms(2)])
  obtain rs part xs where log: "text_log T solve m rs part s' xs" using text_reachable_log[OF r(1) assms(2)] by blast
  have "uart_mutex s' = None \<and> (main_pc s' = T_UNDEFINED \<or> (\<exists>buf. main_pc s' = T_READ buf)) \<and>
    (\<exists>rs xs k. uart_out s' = concat (map snd rs) \<and> of_drone Main rs = mt_greeting # replicate k invalid_text \<and>
       (\<forall>i < NUM_DRONES. worker_pc s' i = X_TAKE \<and> start_sem s' i = 0 \<and>
          of_drone (Worker i) rs = map (reply_text T i) (fst (controller solve (m i) (xs i))) \<and>
          (0 < posted s' i \<longrightarrow> xs i \<noteq> [] \<and> last (xs i) = obs s' i)))"
    if "\<nexists>s''. quiet_step T solve s' s''"
  proof -
    note q = nobody_steps[OF inv that]
    have w: "worker_log T solve (m i) i rs part s' (xs i)" for i using log by (simp add: text_log_def)
    have "xs i \<noteq> [] \<and> last (xs i) = obs s' i" if "i < NUM_DRONES" "0 < posted s' i" for i
    proof -
      have "drone_ok s' i" "\<not> storing i (main_pc s')" using inv q(2) by (auto simp: text_inv_def)
      then have "state0 s' i = obs s' i" using q(3)[OF that(1)] that(2) by (auto simp: drone_ok_def fresh_def)
      then show ?thesis using w[of i] q(3)[OF that(1)] that(2) by (simp add: worker_log_def)
    qed
    moreover have "main_to_send part (main_pc s') = []" using q(2) by auto
    then have "\<exists>k. of_drone Main rs = mt_greeting # replicate k invalid_text" using log by (simp add: text_log_def)
    then obtain k where "of_drone Main rs = mt_greeting # replicate k invalid_text" by blast
    moreover have "uart_out s' = concat (map snd rs)" using log q(1) by (simp add: text_log_def)
    ultimately show ?thesis
      using q w by (intro conjI exI[of _ rs] exI[of _ xs] exI[of _ k]) (auto simp: worker_log_def)
  qed
  then show ?thesis using r(2) by blast
qed

text \<open>A command for a negative drone passes the guard and takes \<open>main\<close> out of its arrays.\<close>

lemma negative_drone_escapes:
  assumes "i < 0" "fits_int i" "length ds = NUM_STATE_VARS" "list_all decimal_ok ds"
  shows "after_line T (command_text i ds) = T_UNDEFINED"
proof -
  have "cstr (command_text i ds @ [0]) = command_text i ds"
    using command_plain[OF assms(4), of i] by (simp add: plain_def)
  then show ?thesis using scan_command_text[OF assms(2-4), of T] assms(1) by (simp add: after_line_def NUM_DRONES_def)
qed

section \<open>A concrete run\<close>

text \<open>Twelve ones for drone 0, in whole numbers that are printed as such, and the steps that answer them.\<close>

definition whole_text :: "int text_float" where
  "whole_text = \<lparr>of_decimal = (\<lambda>neg m e. if neg then - int m else int m), scan_other = (\<lambda>neg s. None),
     decimals4 = (\<lambda>x. Inr (int_text x))\<rparr>"

definition echo :: "int list \<Rightarrow> unit \<Rightarrow> int list \<times> unit" where "echo x m = (take 4 x, m)"

definition ones_line :: "u8 list" where
  "ones_line = command_text 0 (replicate 12 (False, 1, [])) @ [10]"

definition ones_boot :: "(int, unit) text_threads" where
  "ones_boot = text_boot ones_line 0 (\<lambda>i. replicate 12 7) (\<lambda>i. ())"

lemma ones_run:
  "map_option (\<lambda>s. (incoming s, main_pc s, map (worker_pc s) [0..<3], map (start_sem s) [0..<3], uart_mutex s,
       state0 s 0, posted s 0, uart_out s))
     (text_run whole_text echo (replicate 85 Main @ replicate 33 (Worker 0)) ones_boot) =
   Some ([], T_READ [], [X_TAKE, X_TAKE, X_TAKE], [0, 0, 0], None, replicate 12 1, 1,
     mt_greeting @ reply_text whole_text 0 [1, 1, 1, 1])"
  by code_simp

lemma text_run_append:
  "text_run T solve (ts @ us) s = Option.bind (text_run T solve ts s) (text_run T solve us)"
proof (induction ts arbitrary: s)
  case (Cons t ts)
  then have "text_run T solve (ts @ us) = (\<lambda>s. Option.bind (text_run T solve ts s) (text_run T solve us))" by blast
  then show ?case by simp
qed simp

lemma workers_run_quietly:
  "text_run T solve (map Worker ws) s = Some s' \<Longrightarrow> (quiet_step T solve ^^ length ws) s s'"
proof (induction ws arbitrary: s)
  case (Cons i ws)
  then obtain u where u: "thread_step T solve (Worker i) s = Some u" "text_run T solve (map Worker ws) u = Some s'"
    by (auto simp: bind_eq_Some_conv)
  then have "incoming u = incoming s" using text_worker_others(4) by (auto simp: thread_step_def split: if_splits)
  then have "quiet_step T solve s u" using u(1) unfolding quiet_step_def by blast
  then show ?case using Cons.IH[OF u(2)] by (simp only: list.size add_Suc_right add_0_right) (meson relpowp_Suc_I2)
qed simp

lemma ones_states:
  obtains s t where "text_reachable whole_text echo (text_boot ones_line 0 (\<lambda>i. replicate 12 7) (\<lambda>i. ())) s"
    "(quiet_step whole_text echo ^^ 33) s t" "incoming t = []" "main_pc t = T_READ []"
    "\<And>i. i < 3 \<Longrightarrow> worker_pc t i = X_TAKE \<and> start_sem t i = 0" "state0 t 0 = replicate 12 1" "posted t 0 = 1"
    "uart_mutex t = None" "uart_out t = mt_greeting @ reply_text whole_text 0 [1, 1, 1, 1]"
    "text_reachable whole_text echo (text_boot ones_line 0 (\<lambda>i. replicate 12 7) (\<lambda>i. ())) t"
proof -
  obtain t where t: "text_run whole_text echo (replicate 85 Main @ replicate 33 (Worker 0)) ones_boot = Some t"
    "incoming t = []" "main_pc t = T_READ []" "map (worker_pc t) [0..<3] = [X_TAKE, X_TAKE, X_TAKE]"
    "map (start_sem t) [0..<3] = [0, 0, 0]" "uart_mutex t = None" "state0 t 0 = replicate 12 1" "posted t 0 = 1"
    "uart_out t = mt_greeting @ reply_text whole_text 0 [1, 1, 1, 1]"
    using ones_run by (auto simp del: replicate.simps upt.simps)
  obtain s where s: "text_run whole_text echo (replicate 85 Main) ones_boot = Some s"
    "text_run whole_text echo (map Worker (replicate 33 0)) s = Some t"
    using t(1) unfolding text_run_append map_replicate by (auto simp: bind_eq_Some_conv)
  have "worker_pc t i = X_TAKE \<and> start_sem t i = 0" if "i < 3" for i
    using t(4,5) that by (auto simp: upt_rec less_Suc_eq numeral_3_eq_3)
  then show ?thesis
    using that[OF text_run_reachable[OF s(1)] _ t(2,3) _ t(7,8,6,9) text_run_reachable[OF t(1)]]
      workers_run_quietly[OF s(2)] text_start[of whole_text echo ones_boot] unfolding ones_boot_def by simp
qed

theorem text_messages_whole_witness:
  "\<exists>(s :: (int, unit) text_threads) ms. uart_out s = concat ms \<and> list_all (whole_message whole_text echo) ms \<and>
     uart_out s = mt_greeting @ reply_text whole_text 0 [1, 1, 1, 1]"
proof -
  obtain t where t: "text_reachable whole_text echo (text_boot ones_line 0 (\<lambda>i. replicate 12 7) (\<lambda>i. ())) t"
    "uart_mutex t = None" "uart_out t = mt_greeting @ reply_text whole_text 0 [1, 1, 1, 1]"
    by (rule ones_states)
  have len: "\<forall>i :: nat. length (replicate 12 (7 :: int)) = NUM_STATE_VARS" by (simp add: NUM_STATE_VARS_def)
  obtain ms part where "uart_out t = concat ms @ part" "list_all (whole_message whole_text echo) ms" "part = []"
    using text_messages_whole[OF t(1) len] t(2) by auto
  then show ?thesis using t(3) by (intro exI[of _ t] exI[of _ ms]) simp
qed

theorem text_server_settles_witness:
  "(33 :: nat) \<le> 1019 \<and> (\<exists>(s :: (int, unit) text_threads) rs xs. uart_out s = concat (map snd rs) \<and>
     of_drone (Worker 0) rs = map (reply_text whole_text 0) (fst (controller echo () xs)) \<and> xs \<noteq> [] \<and> last xs = replicate 12 1)"
proof -
  obtain s t where s: "text_reachable whole_text echo (text_boot ones_line 0 (\<lambda>i. replicate 12 7) (\<lambda>i. ())) s"
    and run: "(quiet_step whole_text echo ^^ 33) s t" and t: "incoming t = []" "main_pc t = T_READ []"
    "\<And>i. i < 3 \<Longrightarrow> worker_pc t i = X_TAKE \<and> start_sem t i = 0" "state0 t 0 = replicate 12 1" "posted t 0 = 1"
    "text_reachable whole_text echo (text_boot ones_line 0 (\<lambda>i. replicate 12 7) (\<lambda>i. ())) t"
    by (rule ones_states) blast
  have len: "\<forall>i :: nat. length (replicate 12 (7 :: int)) = NUM_STATE_VARS" by (simp add: NUM_STATE_VARS_def)
  have still: "\<nexists>u. quiet_step whole_text echo t u"
    using t(1-3) by (auto simp: quiet_step_def thread_step_def text_main_step_def drone_worker_def NUM_DRONES_def split: thread.splits if_splits)
  have "drone_ok t 0" using text_reachable_inv[OF t(6) len] by (simp add: text_inv_def)
  then have o: "obs t 0 = replicate 12 1" using t(2-5) by (simp add: drone_ok_def fresh_def NUM_STATE_VARS_def del: replicate.simps)
  obtain rs xs where out: "uart_out t = concat (map snd rs)" and
    d: "\<forall>i < NUM_DRONES. of_drone (Worker i) rs = map (reply_text whole_text i) (fst (controller echo () (xs i))) \<and>
      (0 < posted t i \<longrightarrow> xs i \<noteq> [] \<and> last (xs i) = obs t i)"
    using text_server_settles[OF s len run] still by blast
  from d have "of_drone (Worker 0) rs = map (reply_text whole_text 0) (fst (controller echo () (xs 0))) \<and> xs 0 \<noteq> [] \<and> last (xs 0) = obs t 0"
    using t(5) by (simp add: NUM_DRONES_def)
  then show ?thesis using out o by (intro conjI exI[of _ t] exI[of _ rs] exI[of _ "xs 0"]) simp_all
qed

end
