(* ===== verification/Micro_Ros.thy ===== *)
theory Micro_Ros
  imports Prelude "HOL-Library.Monad_Syntax"
begin

text \<open>
  The micro-ROS programs around the broker and the console transport: the two-node ping-pong
  \<open>samples/micro_ros_local/src/main.c\<close> and the two counters \<open>samples/micro_ros_multinode/src/main.c\<close>. The rclc
  library is a parameter: its calls succeed or not, and a spin of its executor says which callbacks are due.
\<close>

type_synonym i32 = "32 word"

section \<open>The library\<close>

datatype ros_call =
    Options_Init | Get_Rmw_Options | Set_Transport int | Support_Init | Node_Init string
  | Publisher_Init string | Subscription_Init string | Timer_Init nat | Executor_Init nat
  | Add_Timer nat | Add_Subscription string
  | Subscription_Fini string | Publisher_Fini string | Node_Fini string | Support_Fini

datatype ros_event = Timer nat | Message i32

record 'w ros_api =
  ros_call :: "ros_call \<Rightarrow> 'w \<Rightarrow> bool \<times> 'w"
  ping_agent :: "'w \<Rightarrow> bool \<times> 'w"
  spin_some :: "'w \<Rightarrow> ros_event list \<times> 'w"
  publish :: "string \<Rightarrow> i32 \<Rightarrow> 'w \<Rightarrow> bool \<times> 'w"
  uptime_get :: "'w \<Rightarrow> int \<times> 'w"
  msleep :: "int \<Rightarrow> 'w \<Rightarrow> 'w"

text \<open>Calls in order up to the first that fails; calls whose result is not looked at.\<close>

fun checked_calls :: "('w, 'z) ros_api_scheme \<Rightarrow> ros_call list \<Rightarrow> 'w \<Rightarrow> bool \<times> 'w" where
  "checked_calls A [] w = (True, w)"
| "checked_calls A (c # cs) w = (case ros_call A c w of (ok, w) \<Rightarrow> if ok then checked_calls A cs w else (False, w))"

fun plain_calls :: "('w, 'z) ros_api_scheme \<Rightarrow> ros_call list \<Rightarrow> 'w \<Rightarrow> 'w" where
  "plain_calls A [] w = w"
| "plain_calls A (c # cs) w = plain_calls A cs (snd (ros_call A c w))"

text \<open>The executor's loop of both programs, which ends with the clock.\<close>

partial_function (option) spin_until ::
    "('w, 'z) ros_api_scheme \<Rightarrow> (ros_event \<Rightarrow> 'c \<times> 'w \<Rightarrow> 'c \<times> 'w) \<Rightarrow> int \<Rightarrow> 'c \<times> 'w \<Rightarrow> ('c \<times> 'w) option" where
  "spin_until A step deadline cw =
     (case cw of (c, w) \<Rightarrow> case uptime_get A w of (t, w) \<Rightarrow>
        if t < deadline
        then (case spin_some A w of (es, w) \<Rightarrow> case fold step es (c, w) of (c, w) \<Rightarrow>
          spin_until A step deadline (c, msleep A 10 w))
        else Some (c, w))"

section \<open>Ping-pong\<close>

datatype msg_handler = Node_A_On_Pong | Node_B_On_Ping
datatype tick_handler = Node_A_Tick

record node_ctx =
  session_idx :: int
  cpu :: nat
  node_name :: string
  pub_topic :: string
  sub_topic :: string
  sub_msg :: i32
  pub_msg :: i32
  on_msg :: "msg_handler option"
  timer_period_ms :: nat
  on_tick :: "tick_handler option"

definition ctx_a :: node_ctx where
  "ctx_a = \<lparr>session_idx = 0, cpu = 0, node_name = ''node_a'', pub_topic = ''/ping'', sub_topic = ''/pong'',
     sub_msg = 0, pub_msg = 0, on_msg = Some Node_A_On_Pong, timer_period_ms = 1000, on_tick = Some Node_A_Tick\<rparr>"

definition ctx_b :: node_ctx where
  "ctx_b = \<lparr>session_idx = 1, cpu = 1, node_name = ''node_b'', pub_topic = ''/pong'', sub_topic = ''/ping'',
     sub_msg = 0, pub_msg = 0, on_msg = Some Node_B_On_Ping, timer_period_ms = 0, on_tick = None\<rparr>"

text \<open>The callbacks. A failed publication is not noticed.\<close>

definition node_a_tick :: "('w, 'z) ros_api_scheme \<Rightarrow> node_ctx \<times> 'w \<Rightarrow> node_ctx \<times> 'w" where
  "node_a_tick A cw = (case cw of (c, w) \<Rightarrow>
     case publish A (pub_topic c) (pub_msg c) w of (_, w) \<Rightarrow> (c\<lparr>pub_msg := pub_msg c + 1\<rparr>, w))"

definition node_a_on_pong :: "i32 \<Rightarrow> node_ctx \<times> 'w \<Rightarrow> node_ctx \<times> 'w" where
  "node_a_on_pong v cw = cw"

definition node_b_on_ping :: "('w, 'z) ros_api_scheme \<Rightarrow> i32 \<Rightarrow> node_ctx \<times> 'w \<Rightarrow> node_ctx \<times> 'w" where
  "node_b_on_ping A v cw = (case cw of (c, w) \<Rightarrow>
     let c = c\<lparr>pub_msg := v + 1\<rparr> in case publish A (pub_topic c) (pub_msg c) w of (_, w) \<Rightarrow> (c, w))"

text \<open>The trampolines; the executor leaves a message in the subscription's buffer first.\<close>

definition sub_trampoline :: "('w, 'z) ros_api_scheme \<Rightarrow> i32 \<Rightarrow> node_ctx \<times> 'w \<Rightarrow> node_ctx \<times> 'w" where
  "sub_trampoline A v cw = (case cw of (c, w) \<Rightarrow> let c = c\<lparr>sub_msg := v\<rparr> in
     (case on_msg c of
        None \<Rightarrow> (c, w)
      | Some Node_A_On_Pong \<Rightarrow> node_a_on_pong v (c, w)
      | Some Node_B_On_Ping \<Rightarrow> node_b_on_ping A v (c, w)))"

definition timer_trampoline_a :: "('w, 'z) ros_api_scheme \<Rightarrow> node_ctx \<times> 'w \<Rightarrow> node_ctx \<times> 'w" where
  "timer_trampoline_a A cw = (case on_tick (fst cw) of None \<Rightarrow> cw | Some Node_A_Tick \<Rightarrow> node_a_tick A cw)"

fun node_event :: "('w, 'z) ros_api_scheme \<Rightarrow> ros_event \<Rightarrow> node_ctx \<times> 'w \<Rightarrow> node_ctx \<times> 'w" where
  "node_event A (Timer k) cw = timer_trampoline_a A cw"
| "node_event A (Message v) cw = sub_trampoline A v cw"

text \<open>The calls of a node's thread: what has to succeed before and after the messages are cleared, the rest.\<close>

definition node_open :: "node_ctx \<Rightarrow> ros_call list" where
  "node_open c = [Options_Init, Get_Rmw_Options, Set_Transport (session_idx c), Support_Init, Node_Init (node_name c),
     Publisher_Init (pub_topic c), Subscription_Init (sub_topic c)]"

definition have_timer :: "node_ctx \<Rightarrow> bool" where "have_timer c \<longleftrightarrow> 0 < timer_period_ms c"

definition node_executor :: "node_ctx \<Rightarrow> ros_call list" where
  "node_executor c = (if have_timer c then [Timer_Init (timer_period_ms c)] else []) @
     [Executor_Init ((if have_timer c then 1 else 0) + 1)]"

definition node_handles :: "node_ctx \<Rightarrow> ros_call list" where
  "node_handles c = (if have_timer c then [Add_Timer 0] else []) @ [Add_Subscription (sub_topic c)]"

definition node_close :: "node_ctx \<Rightarrow> ros_call list" where
  "node_close c = [Subscription_Fini (sub_topic c), Publisher_Fini (pub_topic c), Node_Fini (node_name c), Support_Fini]"

definition node_thread_fn :: "('w, 'z) ros_api_scheme \<Rightarrow> node_ctx \<Rightarrow> 'w \<Rightarrow> (node_ctx \<times> 'w) option" where
  "node_thread_fn A c w =
     (case checked_calls A (node_open c) w of (ok, w) \<Rightarrow>
      if \<not> ok then Some (c, w)
      else let c = c\<lparr>sub_msg := 0, pub_msg := 0\<rparr> in
      case checked_calls A (node_executor c) w of (ok, w) \<Rightarrow>
      if \<not> ok then Some (c, w)
      else case uptime_get A (plain_calls A (node_handles c) w) of (t, w) \<Rightarrow>
        map_option (\<lambda>(c, w). (c, plain_calls A (node_close c) w)) (spin_until A (node_event A) (t + 8000) (c, w)))"

section \<open>Two counters\<close>

record counters =
  msg_a :: i32
  msg_b :: i32

definition topic_a :: string where "topic_a = ''/node_a/counter''"
definition topic_b :: string where "topic_b = ''/node_b/counter''"

definition timer_a_cb :: "('w, 'z) ros_api_scheme \<Rightarrow> counters \<times> 'w \<Rightarrow> counters \<times> 'w" where
  "timer_a_cb A cw = (case cw of (c, w) \<Rightarrow> case publish A topic_a (msg_a c) w of (_, w) \<Rightarrow> (c\<lparr>msg_a := msg_a c + 1\<rparr>, w))"

definition timer_b_cb :: "('w, 'z) ros_api_scheme \<Rightarrow> counters \<times> 'w \<Rightarrow> counters \<times> 'w" where
  "timer_b_cb A cw = (case cw of (c, w) \<Rightarrow> case publish A topic_b (msg_b c) w of (_, w) \<Rightarrow> (c\<lparr>msg_b := msg_b c + 10\<rparr>, w))"

text \<open>The executor has the two timers, in this order, and no subscription.\<close>

fun counter_event :: "('w, 'z) ros_api_scheme \<Rightarrow> ros_event \<Rightarrow> counters \<times> 'w \<Rightarrow> counters \<times> 'w" where
  "counter_event A (Timer k) cw = (if k = 0 then timer_a_cb A cw else if k = 1 then timer_b_cb A cw else cw)"
| "counter_event A (Message v) cw = cw"

partial_function (option) wait_agent :: "('w, 'z) ros_api_scheme \<Rightarrow> 'w \<Rightarrow> 'w option" where
  "wait_agent A w = (case ping_agent A w of (ok, w) \<Rightarrow> if ok then Some w else wait_agent A (msleep A 200 w))"

definition uros_open :: "ros_call list" where
  "uros_open = [Support_Init, Node_Init ''node_a'', Node_Init ''node_b'', Publisher_Init topic_a, Publisher_Init topic_b]"

definition uros_timers :: "ros_call list" where
  "uros_timers = [Timer_Init 1000, Timer_Init 500, Executor_Init 2, Add_Timer 0, Add_Timer 1]"

definition uros_close :: "ros_call list" where
  "uros_close = [Publisher_Fini topic_a, Publisher_Fini topic_b, Node_Fini ''node_a'', Node_Fini ''node_b'', Support_Fini]"

definition uros_main :: "('w, 'z) ros_api_scheme \<Rightarrow> counters \<times> 'w \<Rightarrow> (counters \<times> 'w) option" where
  "uros_main A cw = (case cw of (c, w) \<Rightarrow> do {
     w \<leftarrow> wait_agent A (plain_calls A [Set_Transport 0] w);
     case checked_calls A uros_open w of (ok, w) \<Rightarrow>
     if \<not> ok then Some (c, w)
     else let c = \<lparr>msg_a = 0, msg_b = 0\<rparr> in
     case checked_calls A uros_timers w of (ok, w) \<Rightarrow>
     if \<not> ok then Some (c, w)
     else case uptime_get A w of (t, w) \<Rightarrow>
       map_option (\<lambda>(c, w). (c, plain_calls A uros_close w)) (spin_until A (counter_event A) (t + 30000) (c, w)) })"

section \<open>What the library promises\<close>

text \<open>
  The clock does not run backwards and a sleep takes its time. Every call is recorded in \<open>calls\<close> and every
  value handed to a publisher in \<open>sent\<close>, whether the library could send it or not.
\<close>

locale ros_library =
  fixes A :: "('w, 'z) ros_api_scheme" and now :: "'w \<Rightarrow> int" and calls :: "'w \<Rightarrow> ros_call list"
    and sent :: "'w \<Rightarrow> (string \<times> i32) list"
  assumes call: "ros_call A c w = (ok, w') \<Longrightarrow> now w \<le> now w' \<and> calls w' = calls w @ [c] \<and> sent w' = sent w"
    and ping: "ping_agent A w = (ok, w') \<Longrightarrow> now w \<le> now w' \<and> calls w' = calls w \<and> sent w' = sent w"
    and spin: "spin_some A w = (es, w') \<Longrightarrow> now w \<le> now w' \<and> calls w' = calls w \<and> sent w' = sent w"
    and published: "publish A t v w = (ok, w') \<Longrightarrow> now w \<le> now w' \<and> calls w' = calls w \<and> sent w' = sent w @ [(t, v)]"
    and uptime: "uptime_get A w = (n, w') \<Longrightarrow> n = now w \<and> now w \<le> now w' \<and> calls w' = calls w \<and> sent w' = sent w"
    and sleep: "now w + n \<le> now (msleep A n w) \<and> calls (msleep A n w) = calls w \<and> sent (msleep A n w) = sent w"
begin

lemma plain_calls_log: "now w \<le> now (plain_calls A cs w) \<and> calls (plain_calls A cs w) = calls w @ cs \<and> sent (plain_calls A cs w) = sent w"
proof (induction cs arbitrary: w)
  case (Cons c cs)
  obtain ok w' where "ros_call A c w = (ok, w')" by (metis prod.exhaust)
  then show ?case using Cons.IH[of w'] call[of c w ok w'] by simp
qed simp

text \<open>Checked calls make a prefix of the list, all of it when they succeed.\<close>

lemma checked_calls_log:
  assumes "checked_calls A cs w = (ok, w')"
  shows "\<exists>n. calls w' = calls w @ take n cs \<and> n \<le> length cs \<and> (ok \<longrightarrow> n = length cs)" and "sent w' = sent w"
    and "now w \<le> now w'"
  using assms
proof (induction cs arbitrary: w)
  case (Cons c cs)
  { case 1
    obtain ok1 w1 where c: "ros_call A c w = (ok1, w1)" by (metis prod.exhaust)
    show ?case
    proof (cases ok1)
      case True
      then obtain n where "calls w' = calls w1 @ take n cs" "n \<le> length cs" "ok \<longrightarrow> n = length cs"
        using 1 c Cons.IH(1)[of w1] by auto
      then show ?thesis using call[OF c] by (intro exI[of _ "Suc n"]) simp
    next
      case False
      then show ?thesis using 1 c call[OF c] by (intro exI[of _ "Suc 0"]) simp
    qed }
  { case 2
    obtain ok1 w1 where c: "ros_call A c w = (ok1, w1)" by (metis prod.exhaust)
    then show ?case using 2 call[OF c] Cons.IH(2)[of w1] by (cases ok1) auto }
  { case 3
    obtain ok1 w1 where c: "ros_call A c w = (ok1, w1)" by (metis prod.exhaust)
    then show ?case using 3 call[OF c] Cons.IH(3)[of w1] by (cases ok1) auto }
qed auto

text \<open>The executor's loop returns, and keeps what each callback keeps.\<close>

lemma spin_returns:
  assumes "J cw"
    and step: "\<And>e c w. J (c, w) \<Longrightarrow> J (step e (c, w)) \<and> now w \<le> now (snd (step e (c, w)))"
    and keep: "\<And>c w w'. J (c, w) \<Longrightarrow> calls w' = calls w \<Longrightarrow> sent w' = sent w \<Longrightarrow> J (c, w')"
  shows "\<exists>cw'. spin_until A step deadline cw = Some cw' \<and> J cw'"
proof -
  have events: "J (fold step es cw) \<and> now (snd cw) \<le> now (snd (fold step es cw))" if "J cw" for es cw
    using that
  proof (induction es arbitrary: cw)
    case (Cons e es)
    obtain c w where cw: "cw = (c, w)" by (cases cw)
    have "J (step e cw)" "now (snd cw) \<le> now (snd (step e cw))" using step[of c w e] Cons.prems cw by simp_all
    then show ?case using Cons.IH[of "step e cw"] by simp
  qed simp
  show ?thesis
    using assms(1)
  proof (induction "nat (deadline - now (snd cw))" arbitrary: cw rule: less_induct)
    case less
    obtain c w where cw: "cw = (c, w)" by (cases cw)
    obtain t w1 where u: "uptime_get A w = (t, w1)" by (metis prod.exhaust)
    note l = uptime[OF u]
    have J1: "J (c, w1)" using keep[of c w w1] less.prems l cw by simp
    show ?case
    proof (cases "t < deadline")
      case False
      then show ?thesis using J1 u cw by (subst spin_until.simps) simp
    next
      case True
      obtain es w2 where s: "spin_some A w1 = (es, w2)" by (metis prod.exhaust)
      have J2: "J (c, w2)" using keep[of c w1 w2] J1 spin[OF s] by simp
      obtain c3 w3 where f: "fold step es (c, w2) = (c3, w3)" by (metis prod.exhaust)
      have J3: "J (c3, w3)" "now w2 \<le> now w3" using events[OF J2, of es] f by simp_all
      let ?w4 = "msleep A 10 w3"
      have J4: "J (c3, ?w4)" using keep[of c3 w3 ?w4] J3(1) sleep[of w3 10] by simp
      have "now w < now ?w4" using l spin[OF s] J3(2) sleep[of w3 10] by simp
      then have "nat (deadline - now (snd (c3, ?w4))) < nat (deadline - now (snd cw))" using True l cw by simp
      then obtain cw' where "spin_until A step deadline (c3, ?w4) = Some cw'" "J cw'" using less.hyps[OF _ J4] by blast
      then show ?thesis using u True s f cw by (subst spin_until.simps) simp
    qed
  qed
qed

end

end
