(* ===== verification/Ping_Pong.thy ===== *)
theory Ping_Pong
  imports Micro_Ros
begin

text \<open>
  What the micro-ROS programs do over any library with a clock: the threads of the nodes return and publish only once they
  are set up, and the counters count. Which messages reach the other node, and in which order, is the library's.
\<close>

section \<open>Node threads\<close>

text \<open>What a node has published: node A its counter from 0 on; node B one more than some values.\<close>

definition node_sent :: "node_ctx \<Rightarrow> (string \<times> i32) list \<Rightarrow> bool" where
  "node_sent c l \<longleftrightarrow> (\<exists>vs. l = map (Pair (pub_topic c)) vs \<and> (on_msg c \<noteq> Some Node_B_On_Ping \<longrightarrow>
     vs = map word_of_nat [0..<length vs] \<and> pub_msg c = word_of_nat (length vs)))"

text \<open>The fields the callbacks leave alone.\<close>

definition same_node :: "node_ctx \<Rightarrow> node_ctx \<Rightarrow> bool" where
  "same_node c d \<longleftrightarrow> d\<lparr>sub_msg := sub_msg c, pub_msg := pub_msg c\<rparr> = c"

text \<open>A node ticks or answers, not both.\<close>

definition one_role :: "node_ctx \<Rightarrow> bool" where "one_role c \<longleftrightarrow> on_tick c = None \<or> on_msg c \<noteq> Some Node_B_On_Ping"

lemma node_event_cases:
  assumes "node_event A e (c, w) = (c', w')"
  obtains ok where "on_tick c = Some Node_A_Tick" "c' = c\<lparr>pub_msg := pub_msg c + 1\<rparr>"
      "publish A (pub_topic c) (pub_msg c) w = (ok, w')"
  | "\<exists>v. c' = c\<lparr>sub_msg := v\<rparr>" "w' = w"
  | ok v where "on_msg c = Some Node_B_On_Ping" "c' = c\<lparr>sub_msg := v, pub_msg := v + 1\<rparr>"
      "publish A (pub_topic c) (v + 1) w = (ok, w')"
  | "c' = c" "w' = w"
proof (cases e)
  case (Timer k)
  show ?thesis
  proof (cases "on_tick c")
    case None
    then show ?thesis using assms Timer that(4) by (simp add: timer_trampoline_a_def)
  next
    case (Some h)
    then show ?thesis using assms Timer that(1) by (cases h) (auto simp: timer_trampoline_a_def node_a_tick_def split: prod.splits)
  qed
next
  case (Message v)
  then show ?thesis using assms that(2,3)
    by (auto simp: sub_trampoline_def node_a_on_pong_def node_b_on_ping_def Let_def split: option.splits msg_handler.splits prod.splits)
qed

context ros_library
begin

lemma node_event_keeps:
  assumes "same_node d c" "one_role c" "node_sent c l" "sent w = s @ l" "calls w = cs"
  shows "\<exists>l'. same_node d (fst (node_event A e (c, w))) \<and> one_role (fst (node_event A e (c, w))) \<and>
    node_sent (fst (node_event A e (c, w))) l' \<and> sent (snd (node_event A e (c, w))) = s @ l' \<and>
    calls (snd (node_event A e (c, w))) = cs \<and> now w \<le> now (snd (node_event A e (c, w)))"
proof -
  obtain c' w' where e: "node_event A e (c, w) = (c', w')" by (metis prod.exhaust)
  obtain vs where vs: "l = map (Pair (pub_topic c)) vs" "on_msg c \<noteq> Some Node_B_On_Ping \<longrightarrow>
      vs = map word_of_nat [0..<length vs] \<and> pub_msg c = word_of_nat (length vs)"
    using assms(3) by (auto simp: node_sent_def)
  show ?thesis
    using e
  proof (cases rule: node_event_cases)
    case (1 ok)
    have a: "on_msg c \<noteq> Some Node_B_On_Ping" using assms(2) 1(1) by (auto simp: one_role_def)
    have "node_sent c' (l @ [(pub_topic c, pub_msg c)])"
      unfolding node_sent_def using vs a 1(2) by (intro exI[of _ "vs @ [pub_msg c]"]) simp
    moreover have "same_node d c'" using assms(1) 1(2) by (auto simp: same_node_def)
    ultimately show ?thesis using published[OF 1(3)] assms e 1(2) by (auto simp: one_role_def)
  next
    case 2
    then have "node_sent c' l" "same_node d c'" using assms(1,3) by (auto simp: node_sent_def same_node_def)
    then show ?thesis using 2 assms e by (auto simp: one_role_def)
  next
    case (3 ok v)
    have "node_sent c' (l @ [(pub_topic c, v + 1)])"
      unfolding node_sent_def using vs(1) 3(1,2) by (intro exI[of _ "vs @ [v + 1]"]) simp
    moreover have "same_node d c'" using assms(1) 3(2) by (auto simp: same_node_def)
    ultimately show ?thesis using published[OF 3(3)] assms e 3(1,2) by (auto simp: one_role_def)
  next
    case 4
    then show ?thesis using assms e by auto
  qed
qed

lemma node_spins:
  assumes "one_role c" "pub_msg c = 0"
  shows "\<exists>c' w' l. spin_until A (node_event A) deadline (c, w) = Some (c', w') \<and> same_node c c' \<and> node_sent c' l \<and>
    sent w' = sent w @ l \<and> calls w' = calls w"
proof -
  let ?J = "\<lambda>(c', w'). \<exists>l. same_node c c' \<and> one_role c' \<and> node_sent c' l \<and> sent w' = sent w @ l \<and> calls w' = calls w"
  have "\<exists>cw'. spin_until A (node_event A) deadline (c, w) = Some cw' \<and> ?J cw'"
  proof (rule spin_returns)
    have "same_node c c" by (simp add: same_node_def)
    moreover have "node_sent c []" using assms(2) by (simp add: node_sent_def)
    ultimately show "?J (c, w)" using assms(1) by auto
  next
    fix e d u assume "?J (d, u)"
    then obtain l where l: "same_node c d" "one_role d" "node_sent d l" "sent u = sent w @ l" "calls u = calls w" by auto
    show "?J (node_event A e (d, u)) \<and> now u \<le> now (snd (node_event A e (d, u)))"
      using node_event_keeps[OF l, of e] by (auto split: prod.splits)
  qed auto
  then show ?thesis by auto
qed

lemma node_thread_log:
  assumes "one_role c"
  shows "\<exists>c' w'. node_thread_fn A c w = Some (c', w') \<and>
    ((\<exists>n. calls w' = calls w @ take n (node_open c @ node_executor c)) \<and> sent w' = sent w \<or>
     calls w' = calls w @ node_open c @ node_executor c @ node_handles c @ node_close c \<and>
     same_node c c' \<and> (\<exists>l. node_sent c' l \<and> sent w' = sent w @ l))"
proof -
  obtain ok1 w1 where 1: "checked_calls A (node_open c) w = (ok1, w1)" by (metis prod.exhaust)
  note l1 = checked_calls_log[OF 1]
  show ?thesis
  proof (cases ok1)
    case False
    obtain n where "calls w1 = calls w @ take n (node_open c)" "n \<le> length (node_open c)" using l1(1) by blast
    then have "calls w1 = calls w @ take n (node_open c @ node_executor c)" by simp
    then show ?thesis using 1 False l1(2) by (auto simp: node_thread_fn_def)
  next
    case True
    then have c1: "calls w1 = calls w @ node_open c" using l1(1) by auto
    let ?c = "c\<lparr>sub_msg := 0, pub_msg := 0\<rparr>"
    have same: "node_executor ?c = node_executor c" "node_handles ?c = node_handles c"
      by (simp_all add: node_executor_def node_handles_def have_timer_def)
    obtain ok2 w2 where 2: "checked_calls A (node_executor c) w1 = (ok2, w2)" by (metis prod.exhaust)
    note l2 = checked_calls_log[OF 2]
    show ?thesis
    proof (cases ok2)
      case False
      obtain n where "calls w2 = calls w1 @ take n (node_executor c)" using l2(1) by blast
      then have "calls w2 = calls w @ take (length (node_open c) + n) (node_open c @ node_executor c)" using c1 by simp
      moreover have "node_thread_fn A c w = Some (?c, w2)" using 1 2 True False same by (simp add: node_thread_fn_def Let_def)
      ultimately show ?thesis using l1(2) l2(2) by (intro exI[of _ ?c] exI[of _ w2] conjI disjI1) (auto simp del: take_append)
    next
      case True2: True
      then have c2: "calls w2 = calls w @ node_open c @ node_executor c" using l2(1) c1 by auto
      obtain t w3 where 3: "uptime_get A (plain_calls A (node_handles c) w2) = (t, w3)" by (metis prod.exhaust)
      have c3: "calls w3 = calls w2 @ node_handles c" "sent w3 = sent w2"
        using uptime[OF 3] plain_calls_log[of w2 "node_handles c"] by simp_all
      obtain c' w' l where s: "spin_until A (node_event A) (t + 8000) (?c, w3) = Some (c', w')" "same_node ?c c'"
        "node_sent c' l" "sent w' = sent w3 @ l" "calls w' = calls w3"
        using node_spins[of ?c "t + 8000" w3] assms by (auto simp: one_role_def)
      have eq: "node_close c' = node_close c" "same_node c c'"
        using s(2) by (cases c; cases c'; simp add: same_node_def node_close_def)+
      show ?thesis
        using 1 2 3 True True2 s eq c2 c3 l1(2) l2(2) same plain_calls_log[of w' "node_close c"]
        by (auto simp: node_thread_fn_def Let_def)
    qed
  qed
qed

lemma counter_event_keeps:
  assumes "sent w = s @ l" "\<forall>x \<in> set l. fst x \<in> {topic_a, topic_b}"
    and "map snd (filter (\<lambda>x. fst x = topic_a) l) = map word_of_nat [0..<n]" "msg_a c = word_of_nat n"
    and "map snd (filter (\<lambda>x. fst x = topic_b) l) = map (\<lambda>k. 10 * word_of_nat k) [0..<m]" "msg_b c = 10 * word_of_nat m"
    and "counter_event A e (c, w) = (c', w')"
  shows "now w \<le> now w' \<and> calls w' = calls w \<and> (\<exists>l' n' m'. sent w' = s @ l' \<and> (\<forall>x \<in> set l'. fst x \<in> {topic_a, topic_b}) \<and>
    map snd (filter (\<lambda>x. fst x = topic_a) l') = map word_of_nat [0..<n'] \<and> msg_a c' = word_of_nat n' \<and>
    map snd (filter (\<lambda>x. fst x = topic_b) l') = map (\<lambda>k. 10 * word_of_nat k) [0..<m'] \<and> msg_b c' = 10 * word_of_nat m')"
proof -
  have ab: "topic_a \<noteq> topic_b" by (simp add: topic_a_def topic_b_def)
  consider k where "e = Timer k" "k = 0" | k where "e = Timer k" "k = 1" | "counter_event A e (c, w) = (c, w)"
    by (metis counter_event.simps ros_event.exhaust)
  then show ?thesis
  proof cases
    case 1
    then obtain ok where p: "publish A topic_a (msg_a c) w = (ok, w')" "c' = c\<lparr>msg_a := msg_a c + 1\<rparr>"
      using assms(7) by (auto simp: timer_a_cb_def split: prod.splits)
    show ?thesis using published[OF p(1)] p(2) assms(1-6) ab
      by (intro conjI exI[of _ "l @ [(topic_a, msg_a c)]"] exI[of _ "Suc n"] exI[of _ m]) auto
  next
    case 2
    then obtain ok where p: "publish A topic_b (msg_b c) w = (ok, w')" "c' = c\<lparr>msg_b := msg_b c + 10\<rparr>"
      using assms(7) by (auto simp: timer_b_cb_def split: prod.splits)
    show ?thesis using published[OF p(1)] p(2) assms(1-6) ab
      by (intro conjI exI[of _ "l @ [(topic_b, msg_b c)]"] exI[of _ n] exI[of _ "Suc m"]) (auto simp: algebra_simps)
  next
    case 3
    then show ?thesis using assms by auto
  qed
qed

lemma counters_spin:
  shows "\<exists>c' w' l n m. spin_until A (counter_event A) deadline (\<lparr>msg_a = 0, msg_b = 0\<rparr>, w) = Some (c', w') \<and>
    calls w' = calls w \<and> sent w' = sent w @ l \<and> (\<forall>x \<in> set l. fst x \<in> {topic_a, topic_b}) \<and>
    map snd (filter (\<lambda>x. fst x = topic_a) l) = map word_of_nat [0..<n] \<and>
    map snd (filter (\<lambda>x. fst x = topic_b) l) = map (\<lambda>k. 10 * word_of_nat k) [0..<m]"
proof -
  let ?J = "\<lambda>(c' :: counters, w'). calls w' = calls w \<and> (\<exists>l n m. sent w' = sent w @ l \<and> (\<forall>x \<in> set l. fst x \<in> {topic_a, topic_b}) \<and>
    map snd (filter (\<lambda>x. fst x = topic_a) l) = map word_of_nat [0..<n] \<and> msg_a c' = word_of_nat n \<and>
    map snd (filter (\<lambda>x. fst x = topic_b) l) = map (\<lambda>k. 10 * word_of_nat k) [0..<m] \<and> msg_b c' = 10 * word_of_nat m)"
  have "\<exists>cw'. spin_until A (counter_event A) deadline (\<lparr>msg_a = 0, msg_b = 0\<rparr>, w) = Some cw' \<and> ?J cw'"
  proof (rule spin_returns)
    show "?J (\<lparr>msg_a = 0, msg_b = 0\<rparr>, w)" by (auto intro!: exI[of _ "[]"] exI[of _ 0])
  next
    fix e and c :: counters and u assume J: "?J (c, u)"
    obtain c' u' where e: "counter_event A e (c, u) = (c', u')" by (metis prod.exhaust)
    obtain l n m where k: "sent u = sent w @ l" "\<forall>x \<in> set l. fst x \<in> {topic_a, topic_b}"
      "map snd (filter (\<lambda>x. fst x = topic_a) l) = map word_of_nat [0..<n]" "msg_a c = word_of_nat n"
      "map snd (filter (\<lambda>x. fst x = topic_b) l) = map (\<lambda>k. 10 * word_of_nat k) [0..<m]" "msg_b c = 10 * word_of_nat m"
      and c: "calls u = calls w"
      using J by auto
    show "?J (counter_event A e (c, u)) \<and> now u \<le> now (snd (counter_event A e (c, u)))"
      using counter_event_keeps[OF k e] c e by simp
  qed (auto; metis)
  then show ?thesis by auto
qed

lemma counters_log:
  assumes "wait_agent A (plain_calls A [Set_Transport 0] w) = Some w0" "calls w0 = calls w @ [Set_Transport 0]" "sent w0 = sent w"
  shows "\<exists>c' w'. uros_main A (c, w) = Some (c', w') \<and>
    ((\<exists>n. calls w' = calls w @ Set_Transport 0 # take n (uros_open @ uros_timers)) \<and> sent w' = sent w \<or>
     calls w' = calls w @ Set_Transport 0 # uros_open @ uros_timers @ uros_close \<and>
     (\<exists>l n m. sent w' = sent w @ l \<and> (\<forall>x \<in> set l. fst x \<in> {topic_a, topic_b}) \<and>
        map snd (filter (\<lambda>x. fst x = topic_a) l) = map word_of_nat [0..<n] \<and>
        map snd (filter (\<lambda>x. fst x = topic_b) l) = map (\<lambda>k. 10 * word_of_nat k) [0..<m]))"
proof -
  obtain ok1 w1 where 1: "checked_calls A uros_open w0 = (ok1, w1)" by (metis prod.exhaust)
  note l1 = checked_calls_log[OF 1]
  show ?thesis
  proof (cases ok1)
    case False
    obtain n where "calls w1 = calls w0 @ take n uros_open" "n \<le> length uros_open" using l1(1) by blast
    then have "calls w1 = calls w @ Set_Transport 0 # take n (uros_open @ uros_timers)" using assms(2) by simp
    moreover have "uros_main A (c, w) = Some (c, w1)" using assms(1) 1 False by (simp add: uros_main_def)
    ultimately show ?thesis using l1(2) assms(3)
      by (intro exI[of _ c] exI[of _ w1] conjI disjI1) (auto simp del: take_append)
  next
    case True
    then have c1: "calls w1 = calls w0 @ uros_open" using l1(1) by auto
    let ?c = "\<lparr>msg_a = 0, msg_b = 0\<rparr>"
    obtain ok2 w2 where 2: "checked_calls A uros_timers w1 = (ok2, w2)" by (metis prod.exhaust)
    note l2 = checked_calls_log[OF 2]
    show ?thesis
    proof (cases ok2)
      case False
      obtain n where "calls w2 = calls w1 @ take n uros_timers" using l2(1) by blast
      then have "calls w2 = calls w @ Set_Transport 0 # take (length uros_open + n) (uros_open @ uros_timers)"
        using c1 assms(2) by simp
      moreover have "uros_main A (c, w) = Some (?c, w2)" using assms(1) 1 2 True False by (simp add: uros_main_def Let_def)
      ultimately show ?thesis using l1(2) l2(2) assms(3)
        by (intro exI[of _ ?c] exI[of _ w2] conjI disjI1) (auto simp del: take_append)
    next
      case True2: True
      then have c2: "calls w2 = calls w @ Set_Transport 0 # uros_open @ uros_timers" using l2(1) c1 assms(2) by auto
      obtain t w3 where 3: "uptime_get A w2 = (t, w3)" by (metis prod.exhaust)
      obtain c' w' l n m where s: "spin_until A (counter_event A) (t + 30000) (?c, w3) = Some (c', w')"
        "calls w' = calls w3" "sent w' = sent w3 @ l" "\<forall>x \<in> set l. fst x \<in> {topic_a, topic_b}"
        "map snd (filter (\<lambda>x. fst x = topic_a) l) = map word_of_nat [0..<n]"
        "map snd (filter (\<lambda>x. fst x = topic_b) l) = map (\<lambda>k. 10 * word_of_nat k) [0..<m]"
        using counters_spin[of "t + 30000" w3] by blast
      have "uros_main A (c, w) = Some (c', plain_calls A uros_close w')"
        using assms(1) 1 2 3 True True2 s(1) by (simp add: uros_main_def Let_def)
      moreover have "calls (plain_calls A uros_close w') = calls w @ Set_Transport 0 # uros_open @ uros_timers @ uros_close"
        "sent (plain_calls A uros_close w') = sent w @ l"
        using plain_calls_log[of w' uros_close] s(2,3) uptime[OF 3] c2 l1(2) l2(2) assms(3) by simp_all
      ultimately show ?thesis using s(4-6) by blast
    qed
  qed
qed

text \<open>Waiting for the agent ends if some ping of those to come is answered.\<close>

lemma wait_agent_log:
  assumes "wait_agent A w = Some w'"
  shows "calls w' = calls w \<and> sent w' = sent w"
proof -
  let ?P = "\<lambda>B w w'. B = A \<longrightarrow> calls w' = calls w \<and> sent w' = sent w"
  have "?P A w w'"
  proof (rule wait_agent.raw_induct[where P = ?P, OF _ assms], intro impI)
    fix f B u y
    assume IH: "\<And>B u y. f B u = Some y \<Longrightarrow> ?P B u y"
      and body: "(case ping_agent B u of (ok, u) \<Rightarrow> if ok then Some u else f B (msleep B 200 u)) = Some y" and B: "B = A"
    obtain ok v where p: "ping_agent A u = (ok, v)" by (metis prod.exhaust)
    show "calls y = calls u \<and> sent y = sent u"
      using IH[of A "msleep A 200 v" y] body B p ping[OF p] sleep[of v 200] by (auto split: if_splits)
  qed
  then show ?thesis by simp
qed

end

section \<open>Results\<close>


text \<open>
  The counters count. When the agent answers, the program returns for every library with a clock; either a
  call of its set-up fails, and nothing was published, or it makes all its calls, and whatever callbacks the
  executor found due, the topic of node A was given 0, 1, 2 and so on and that of node B 0, 10, 20.
\<close>
theorem counters_count:
  assumes "ros_library A now calls sent" "wait_agent A (plain_calls A [Set_Transport 0] w) \<noteq> None"
  shows "\<exists>c' w'. uros_main A (c, w) = Some (c', w') \<and>
    ((\<exists>n. calls w' = calls w @ Set_Transport 0 # take n (uros_open @ uros_timers)) \<and> sent w' = sent w \<or>
     calls w' = calls w @ Set_Transport 0 # uros_open @ uros_timers @ uros_close \<and>
     (\<exists>l n m. sent w' = sent w @ l \<and> (\<forall>x \<in> set l. fst x \<in> {topic_a, topic_b}) \<and>
        map snd (filter (\<lambda>x. fst x = topic_a) l) = map word_of_nat [0..<n] \<and>
        map snd (filter (\<lambda>x. fst x = topic_b) l) = map (\<lambda>k. 10 * word_of_nat k) [0..<m]))"
proof -
  obtain w0 where w0: "wait_agent A (plain_calls A [Set_Transport 0] w) = Some w0" using assms(2) by blast
  have "calls w0 = calls w @ [Set_Transport 0]" "sent w0 = sent w"
    using ros_library.wait_agent_log[OF assms(1) w0] ros_library.plain_calls_log[OF assms(1), of w "[Set_Transport 0]"] by simp_all
  then show ?thesis by (rule ros_library.counters_log[OF assms(1) w0])
qed

section \<open>A simulated library\<close>

text \<open>A clock, two logs, the calls that fail, and the callbacks every spin finds due.\<close>

record ros_world =
  clock :: int
  made :: "ros_call list"
  given :: "(string \<times> i32) list"
  broken :: "ros_call list"
  due :: "ros_event list"

definition sim_ros :: "ros_world ros_api" where
  "sim_ros = \<lparr>ros_call = (\<lambda>c w. (c \<notin> set (broken w), w\<lparr>made := made w @ [c]\<rparr>)),
     ping_agent = (\<lambda>w. (1000 \<le> clock w, w)), spin_some = (\<lambda>w. (due w, w\<lparr>clock := clock w + 100\<rparr>)),
     publish = (\<lambda>t v w. (True, w\<lparr>given := given w @ [(t, v)]\<rparr>)),
     uptime_get = (\<lambda>w. (clock w, w)), msleep = (\<lambda>n w. w\<lparr>clock := clock w + n\<rparr>)\<rparr>"

interpretation sim_ros: ros_library sim_ros clock made given
  by unfold_locales (auto simp: sim_ros_def)

definition sim_start :: "ros_call list \<Rightarrow> ros_world" where
  "sim_start bad = \<lparr>clock = 900, made = [], given = [], broken = bad, due = [Timer 0, Message 5, Timer 1]\<rparr>"


theorem counters_count_witness:
  "\<exists>c w. uros_main sim_ros (\<lparr>msg_a = 4, msg_b = 4\<rparr>, sim_start []) = Some (c, w) \<and> list_all (\<lambda>x. fst x \<in> {topic_a, topic_b}) (given w)"
proof -
  have "wait_agent sim_ros (plain_calls sim_ros [Set_Transport 0] (sim_start [])) \<noteq> None"
    by (subst wait_agent.simps, subst wait_agent.simps) (simp add: sim_ros_def sim_start_def)
  moreover have "given (sim_start []) = []" by (simp add: sim_start_def)
  ultimately show ?thesis
    using counters_count[OF sim_ros.ros_library_axioms, of "sim_start []" "\<lparr>msg_a = 4, msg_b = 4\<rparr>"]
    by (fastforce simp: list_all_iff)
qed

end
