(* ===== verification/Foc.thy ===== *)
theory Foc
  imports Complex_Main
begin

text \<open>
  The motor-control workload of \<open>samples/tacit/src/main.c\<close>, in real numbers: the inverse Park transform, the
  inverse Clarke transform with the common-mode voltage of space-vector modulation, and the program's loop
  over the trace encoder, which is a parameter, as are the library's sine and cosine and \<open>sqrtf(3)\<close>.
\<close>

section \<open>The program\<close>

definition FOC_invParkTransform :: "real \<Rightarrow> real \<Rightarrow> real \<Rightarrow> real \<Rightarrow> real \<times> real" where
  "FOC_invParkTransform v_q v_d sin_theta cos_theta =
     (- (sin_theta * v_q) + cos_theta * v_d, cos_theta * v_q + sin_theta * v_d)"

definition FOC_invClarkSVPWM :: "real \<Rightarrow> real \<Rightarrow> real \<Rightarrow> real \<times> real \<times> real" where
  "FOC_invClarkSVPWM sqrt3 v_alpha v_beta =
     (let v_a_phase = v_alpha;
          v_b_phase = - (1 / 2) * v_alpha + sqrt3 / 2 * v_beta;
          v_c_phase = - (1 / 2) * v_alpha - sqrt3 / 2 * v_beta;
          v_neutral = 1 / 2 * (max (max v_a_phase v_b_phase) v_c_phase + min (min v_a_phase v_b_phase) v_c_phase)
      in (v_a_phase - v_neutral, v_b_phase - v_neutral, v_c_phase - v_neutral))"

text \<open>\<open>FOC_update\<close> takes the angle to be \<open>vq\<close>.\<close>

definition FOC_update :: "(real \<Rightarrow> real) \<Rightarrow> (real \<Rightarrow> real) \<Rightarrow> real \<Rightarrow> real \<Rightarrow> real \<Rightarrow> real \<times> real \<times> real" where
  "FOC_update sine cosine sqrt3 vq vd =
     (case FOC_invParkTransform vq vd (sine vq) (cosine vq) of (v_alpha, v_beta) \<Rightarrow> FOC_invClarkSVPWM sqrt3 v_alpha v_beta)"

record 'w encoder_api =
  encoder_start :: "'w \<Rightarrow> 'w"
  encoder_stop :: "'w \<Rightarrow> 'w"

definition NUM_ITERS :: nat where "NUM_ITERS = 60"

text \<open>The updates of \<open>main\<close>, each made twice, between the encoder's start and stop.\<close>

definition foc_main ::
    "'w encoder_api \<Rightarrow> (real \<Rightarrow> real) \<Rightarrow> (real \<Rightarrow> real) \<Rightarrow> real \<Rightarrow> real \<Rightarrow> 'w \<Rightarrow> (real \<times> real \<times> real) list \<times> 'w" where
  "foc_main E sine cosine sqrt3 m_pi w =
     (let w = encoder_start E w;
          vs = concat (map (\<lambda>i. replicate 2 (FOC_update sine cosine sqrt3 (2 * m_pi * real i / real NUM_ITERS) 0)) [0..<NUM_ITERS])
      in (vs, encoder_stop E w))"

section \<open>Facts\<close>

text \<open>Half of the largest and the smallest of three is in their middle.\<close>

lemma middle:
  fixes lo hi x :: real
  assumes "lo \<le> x" "x \<le> hi"
  shows "\<bar>x - 1 / 2 * (hi + lo)\<bar> \<le> (hi - lo) / 2"
  using assms by (auto simp: abs_if field_simps)

lemma max_min_shift:
  fixes x y z m :: real
  shows "max (max (x - m) (y - m)) (z - m) = max (max x y) z - m" "min (min (x - m) (y - m)) (z - m) = min (min x y) z - m"
  by (simp_all add: max_def min_def)

text \<open>No two phases are further apart than \<open>sqrt 3\<close> times the length of the vector.\<close>

lemma phase_spread:
  fixes a b :: real
  shows "\<bar>a - (- (1 / 2) * a + sqrt 3 / 2 * b)\<bar> \<le> sqrt 3 * sqrt (a\<^sup>2 + b\<^sup>2)"
    and "\<bar>a - (- (1 / 2) * a - sqrt 3 / 2 * b)\<bar> \<le> sqrt 3 * sqrt (a\<^sup>2 + b\<^sup>2)"
    and "\<bar>(- (1 / 2) * a + sqrt 3 / 2 * b) - (- (1 / 2) * a - sqrt 3 / 2 * b)\<bar> \<le> sqrt 3 * sqrt (a\<^sup>2 + b\<^sup>2)"
proof -
  have s: "sqrt 3 * sqrt 3 = (3 :: real)" by simp
  have le: "\<bar>x\<bar> \<le> sqrt 3 * sqrt (a\<^sup>2 + b\<^sup>2)" if "x\<^sup>2 \<le> 3 * (a\<^sup>2 + b\<^sup>2)" for x
    using that by (metis real_sqrt_abs real_sqrt_le_mono real_sqrt_mult)
  have sq: "(3 / 2 * a - sqrt 3 / 2 * c)\<^sup>2 \<le> 3 * (a\<^sup>2 + c\<^sup>2)" for c
  proof -
    have "3 * (a\<^sup>2 + c\<^sup>2) - (3 / 2 * a - sqrt 3 / 2 * c)\<^sup>2 = (sqrt 3 / 2 * a + 3 / 2 * c)\<^sup>2"
      using s by (simp add: power2_eq_square algebra_simps)
    then show ?thesis by (metis diff_ge_0_iff_ge zero_le_power2)
  qed
  have "a - (- (1 / 2) * a + sqrt 3 / 2 * b) = 3 / 2 * a - sqrt 3 / 2 * b" by simp
  then show "\<bar>a - (- (1 / 2) * a + sqrt 3 / 2 * b)\<bar> \<le> sqrt 3 * sqrt (a\<^sup>2 + b\<^sup>2)" using le sq by metis
  have "a - (- (1 / 2) * a - sqrt 3 / 2 * b) = 3 / 2 * a - sqrt 3 / 2 * (- b)" by simp
  then show "\<bar>a - (- (1 / 2) * a - sqrt 3 / 2 * b)\<bar> \<le> sqrt 3 * sqrt (a\<^sup>2 + b\<^sup>2)" using le sq by (metis power2_minus)
  have "(- (1 / 2) * a + sqrt 3 / 2 * b) - (- (1 / 2) * a - sqrt 3 / 2 * b) = sqrt 3 * b" by simp
  moreover have "(sqrt 3 * b)\<^sup>2 \<le> 3 * (a\<^sup>2 + b\<^sup>2)" by (simp add: power_mult_distrib)
  ultimately show "\<bar>(- (1 / 2) * a + sqrt 3 / 2 * b) - (- (1 / 2) * a - sqrt 3 / 2 * b)\<bar> \<le> sqrt 3 * sqrt (a\<^sup>2 + b\<^sup>2)"
    using le by metis
qed

lemma spread3:
  fixes x y z d :: real
  assumes "\<bar>x - y\<bar> \<le> d" "\<bar>x - z\<bar> \<le> d" "\<bar>y - z\<bar> \<le> d"
  shows "max (max x y) z - min (min x y) z \<le> d"
  using assms by (auto simp: max_def min_def)

section \<open>Result\<close>

text \<open>
  The modulator uses the supply well and loses nothing. For any voltages, the three outputs are centred, the
  largest being minus the smallest; none exceeds \<open>sqrt 3 / 2\<close> times the length of the voltage vector, where
  plain sinusoids reach all of it; and their differences are those of the phases, so that the forward
  Clarke transform gives back the vector, whose length is that of \<open>(vq, vd)\<close>.
\<close>
theorem svpwm_centred_and_exact:
  assumes "FOC_update sin cos (sqrt 3) vq vd = (a, b, c)"
  shows "max (max a b) c + min (min a b) c = 0 \<and>
    \<bar>a\<bar> \<le> sqrt 3 / 2 * sqrt (vq\<^sup>2 + vd\<^sup>2) \<and> \<bar>b\<bar> \<le> sqrt 3 / 2 * sqrt (vq\<^sup>2 + vd\<^sup>2) \<and> \<bar>c\<bar> \<le> sqrt 3 / 2 * sqrt (vq\<^sup>2 + vd\<^sup>2) \<and>
    FOC_invParkTransform vq vd (sin vq) (cos vq) = (2 / 3 * (a - b / 2 - c / 2), (b - c) / sqrt 3) \<and>
    (2 / 3 * (a - b / 2 - c / 2))\<^sup>2 + ((b - c) / sqrt 3)\<^sup>2 = vq\<^sup>2 + vd\<^sup>2"
proof -
  obtain al be where park: "FOC_invParkTransform vq vd (sin vq) (cos vq) = (al, be)" by (metis prod.exhaust)
  define x y z where p: "x = al" "y = - (1 / 2) * al + sqrt 3 / 2 * be" "z = - (1 / 2) * al - sqrt 3 / 2 * be"
  define m where "m = 1 / 2 * (max (max x y) z + min (min x y) z)"
  have abc: "a = x - m" "b = y - m" "c = z - m"
    using assms park by (simp_all add: FOC_update_def FOC_invClarkSVPWM_def p m_def Let_def)
  have "(sin vq)\<^sup>2 + (cos vq)\<^sup>2 = 1" by simp
  moreover have "al = - (sin vq * vq) + cos vq * vd" "be = cos vq * vq + sin vq * vd"
    using park by (simp_all add: FOC_invParkTransform_def)
  ultimately have len: "al\<^sup>2 + be\<^sup>2 = vq\<^sup>2 + vd\<^sup>2" by algebra
  have centred: "max (max a b) c + min (min a b) c = 0" unfolding abc max_min_shift by (simp add: m_def)
  let ?D = "max (max x y) z - min (min x y) z"
  have D: "?D / 2 \<le> sqrt 3 / 2 * sqrt (vq\<^sup>2 + vd\<^sup>2)"
    using spread3[OF phase_spread[of al be]] len by (simp add: p)
  have "\<bar>x - m\<bar> \<le> ?D / 2" "\<bar>y - m\<bar> \<le> ?D / 2" "\<bar>z - m\<bar> \<le> ?D / 2"
    unfolding m_def by (intro middle; simp)+
  then have bound: "\<bar>a\<bar> \<le> sqrt 3 / 2 * sqrt (vq\<^sup>2 + vd\<^sup>2) \<and> \<bar>b\<bar> \<le> sqrt 3 / 2 * sqrt (vq\<^sup>2 + vd\<^sup>2) \<and> \<bar>c\<bar> \<le> sqrt 3 / 2 * sqrt (vq\<^sup>2 + vd\<^sup>2)"
    using D unfolding abc by linarith
  have inv: "2 / 3 * (a - b / 2 - c / 2) = al" "(b - c) / sqrt 3 = be" unfolding abc p by (simp_all add: field_simps)
  then show ?thesis using centred bound park len by simp
qed

theorem svpwm_centred_and_exact_witness:
  "FOC_update sin cos (sqrt 3) 0 2 = (3 / 2, - (3 / 2), - (3 / 2)) \<and>
   max (max (3 / 2) (- (3 / 2))) (- (3 / 2)) + min (min (3 / 2) (- (3 / 2))) (- (3 / 2)) = (0 :: real)"
proof -
  have "FOC_update sin cos (sqrt 3) 0 2 = (3 / 2, - (3 / 2), - (3 / 2))"
    by (simp add: FOC_update_def FOC_invParkTransform_def FOC_invClarkSVPWM_def Let_def)
  then show ?thesis using svpwm_centred_and_exact[of 0 2 "3 / 2" "- (3 / 2)" "- (3 / 2)"] by blast
qed

end
