(* ===== verification/Sensor_Programs.thy ===== *)
theory Sensor_Programs
  imports Pmw3901
begin

text \<open>
  The programs that print what a sensor delivers: the optical-flow test
  \<open>samples/riskybird/pmw3901_test/src/main.c\<close> over the driver modelled before, the inertial sensor's test
  \<open>samples/bmi088_test\<close> and \<open>riskybird/bmi088_test\<close>, the range sensor's \<open>riskybird/tof_sensor\<close> and the probe of
  four multizone sensors \<open>samples/rose_multisensor_probe\<close>. A program's output is the list of what each pass of
  its loop prints; their loops do not end, or after \<open>ITERS\<close> passes. Zephyr's sensor calls are a parameter.
\<close>

section \<open>Optical flow\<close>

text \<open>One pass: the burst and the count, each as far as the driver delivered it.\<close>

record pmw_report =
  burst_read :: "motionBurst option"
  count_read :: "(u16 \<times> u16) option"

definition pmw_test_pass :: "'w pmw_api \<Rightarrow> 'w \<Rightarrow> pmw_report \<times> 'w" where
  "pmw_test_pass P w =
     (case pmw3901_read_motion_burst P w of (ret, m, w) \<Rightarrow>
      let b = (if ret \<noteq> 0 then None else Some m) in
      case pmw3901_read_motion_count P w of (ret, dx, dy, w) \<Rightarrow>
        (\<lparr>burst_read = b, count_read = (if ret = 0 then Some (dx, dy) else None)\<rparr>, pmw_msleep P 100 w))"

fun pmw_test_loop :: "'w pmw_api \<Rightarrow> nat \<Rightarrow> 'w \<Rightarrow> pmw_report list \<times> 'w" where
  "pmw_test_loop P 0 w = ([], w)"
| "pmw_test_loop P (Suc n) w =
     (case pmw_test_pass P w of (r, w) \<Rightarrow> case pmw_test_loop P n w of (rs, w) \<Rightarrow> (r # rs, w))"

text \<open>
  \<open>main\<close>, cut off after \<open>n\<close> passes: the exit status, or what was printed. \<open>nodes\<close>: the SPI and GPIO
  controllers are in the devicetree.
\<close>

definition pmw3901_init_config :: "bool \<Rightarrow> int" where
  "pmw3901_init_config nodes = (if nodes then 0 else - ENODEV)"

definition pmw_test_main :: "'w pmw_api \<Rightarrow> bool \<Rightarrow> nat \<Rightarrow> 'w \<Rightarrow> (int + pmw_report list) \<times> 'w" where
  "pmw_test_main P nodes n w =
     (if pmw3901_init_config nodes \<noteq> 0 then (Inl 1, w)
      else if \<not> spi_is_ready P w then (Inl 1, w)
      else if \<not> pin_is_ready P CS_GPIO w then (Inl 1, w)
      else case pmw3901_init P w of (ret, _, w) \<Rightarrow>
        if ret \<noteq> 0 then (Inl 1, w) else case pmw_test_loop P n w of (rs, w) \<Rightarrow> (Inr rs, w))"

section \<open>Zephyr sensors\<close>

datatype sensor_chan = ACCEL_XYZ | GYRO_XYZ | DIE_TEMP | DISTANCE

record ('d, 'v, 'w) sensor_api =
  sensor_ready :: "'d \<Rightarrow> 'w \<Rightarrow> bool"
  sample_fetch :: "'d \<Rightarrow> 'w \<Rightarrow> int \<times> 'w"
  channel_get :: "'d \<Rightarrow> sensor_chan \<Rightarrow> 'w \<Rightarrow> int \<times> 'v \<times> 'w"
  sensor_msleep :: "int \<Rightarrow> 'w \<Rightarrow> 'w"

text \<open>A reading, when the call succeeds.\<close>

definition get_value :: "('d, 'v, 'w) sensor_api \<Rightarrow> 'd \<Rightarrow> sensor_chan \<Rightarrow> 'w \<Rightarrow> 'v option \<times> 'w" where
  "get_value S d ch w = (case channel_get S d ch w of (ret, v, w) \<Rightarrow> (if ret < 0 then None else Some v, w))"

definition fetch_value :: "('d, 'v, 'w) sensor_api \<Rightarrow> 'd \<Rightarrow> sensor_chan \<Rightarrow> 'w \<Rightarrow> 'v option \<times> 'w" where
  "fetch_value S d ch w = (case sample_fetch S d w of (ret, w) \<Rightarrow> if ret < 0 then (None, w) else get_value S d ch w)"

text \<open>The inertial sensor's test: acceleration, rate and temperature; \<open>pause\<close> is 1000 or 10 ms.\<close>

datatype bmi_dev = Bmi_Accel | Bmi_Gyro

definition bmi_pass :: "int \<Rightarrow> (bmi_dev, 'v, 'w) sensor_api \<Rightarrow> 'w \<Rightarrow> ('v option \<times> 'v option \<times> 'v option) \<times> 'w" where
  "bmi_pass pause S w =
     (case fetch_value S Bmi_Accel ACCEL_XYZ w of (accel, w) \<Rightarrow>
      case fetch_value S Bmi_Gyro GYRO_XYZ w of (gyro, w) \<Rightarrow>
      case get_value S Bmi_Accel DIE_TEMP w of (temp, w) \<Rightarrow> ((accel, gyro, temp), sensor_msleep S pause w))"

fun bmi_loop :: "int \<Rightarrow> (bmi_dev, 'v, 'w) sensor_api \<Rightarrow> nat \<Rightarrow> 'w \<Rightarrow> ('v option \<times> 'v option \<times> 'v option) list \<times> 'w" where
  "bmi_loop pause S 0 w = ([], w)"
| "bmi_loop pause S (Suc n) w =
     (case bmi_pass pause S w of (r, w) \<Rightarrow> case bmi_loop pause S n w of (rs, w) \<Rightarrow> (r # rs, w))"

definition bmi_main ::
    "int \<Rightarrow> (bmi_dev, 'v, 'w) sensor_api \<Rightarrow> nat \<Rightarrow> 'w \<Rightarrow> (int + ('v option \<times> 'v option \<times> 'v option) list) \<times> 'w" where
  "bmi_main pause S n w =
     (if \<not> sensor_ready S Bmi_Accel w \<or> \<not> sensor_ready S Bmi_Gyro w then (Inl 1, w)
      else case bmi_loop pause S n w of (rs, w) \<Rightarrow> (Inr rs, w))"

text \<open>The range sensor's test, one pass.\<close>

definition tof_pass :: "(unit, 'v, 'w) sensor_api \<Rightarrow> 'w \<Rightarrow> 'v option \<times> 'w" where
  "tof_pass S w = (case fetch_value S () DISTANCE w of (v, w) \<Rightarrow> (v, sensor_msleep S 1000 w))"

fun tof_loop :: "(unit, 'v, 'w) sensor_api \<Rightarrow> nat \<Rightarrow> 'w \<Rightarrow> 'v option list \<times> 'w" where
  "tof_loop S 0 w = ([], w)"
| "tof_loop S (Suc n) w = (case tof_pass S w of (r, w) \<Rightarrow> case tof_loop S n w of (rs, w) \<Rightarrow> (r # rs, w))"

text \<open>Before it, an empty write to address 0x29 on the bus, if that is ready: its status is only printed.\<close>

definition tof_main ::
    "('w \<Rightarrow> bool) \<Rightarrow> ('w \<Rightarrow> int \<times> 'w) \<Rightarrow> (unit, 'v, 'w) sensor_api \<Rightarrow> nat \<Rightarrow> 'w \<Rightarrow>
      int option \<times> (int + 'v option list) \<times> 'w" where
  "tof_main bus_ready bus_probe S n w =
     (case (if \<not> bus_ready w then (None, w) else case bus_probe w of (ret, w) \<Rightarrow> (Some ret, w)) of (ack, w) \<Rightarrow>
      if \<not> sensor_ready S () w then (ack, Inl 0, w)
      else case tof_loop S n w of (rs, w) \<Rightarrow> (ack, Inr rs, w))"

text \<open>
  The probe: all four requests of a pass are issued before the first answer is read. \<open>None\<close> is the
  \<open>-1.0f\<close> of a read that failed; the other part says which sensors had a new grid. Every twentieth pass is printed, as
  millimetres.
\<close>

definition ITERS :: nat where "ITERS = 400"

datatype zone_dev = Tof_Front | Tof_Right | Tof_Back | Tof_Left

definition zone_devs :: "zone_dev list" where "zone_devs = [Tof_Front, Tof_Right, Tof_Back, Tof_Left]"

fun probe_fetch :: "('d, 'v, 'w) sensor_api \<Rightarrow> 'd list \<Rightarrow> 'w \<Rightarrow> bool list \<times> 'w" where
  "probe_fetch S [] w = ([], w)"
| "probe_fetch S (d # ds) w =
     (case sample_fetch S d w of (ret, w) \<Rightarrow> case probe_fetch S ds w of (fs, w) \<Rightarrow> ((ret = 0) # fs, w))"

fun read_min :: "('d, 'v, 'w) sensor_api \<Rightarrow> 'd list \<Rightarrow> 'w \<Rightarrow> 'v option list \<times> 'w" where
  "read_min S [] w = ([], w)"
| "read_min S (d # ds) w =
     (case get_value S d DISTANCE w of (v, w) \<Rightarrow> case read_min S ds w of (vs, w) \<Rightarrow> (v # vs, w))"

definition probe_pass :: "(zone_dev, 'v, 'w) sensor_api \<Rightarrow> 'w \<Rightarrow> (bool list \<times> 'v option list) \<times> 'w" where
  "probe_pass S w =
     (case probe_fetch S zone_devs w of (fresh, w) \<Rightarrow> case read_min S zone_devs w of (d, w) \<Rightarrow> ((fresh, d), w))"

fun probe_loop :: "(zone_dev, 'v, 'w) sensor_api \<Rightarrow> nat \<Rightarrow> 'w \<Rightarrow> (bool list \<times> 'v option list) list \<times> 'w" where
  "probe_loop S 0 w = ([], w)"
| "probe_loop S (Suc n) w =
     (case probe_pass S w of (r, w) \<Rightarrow> case probe_loop S n w of (rs, w) \<Rightarrow> (r # rs, w))"

definition probe_main :: "(zone_dev, 'v, 'w) sensor_api \<Rightarrow> 'w \<Rightarrow> (int + (bool list \<times> 'v option list) list) \<times> 'w" where
  "probe_main S w =
     (if \<exists>d \<in> set zone_devs. \<not> sensor_ready S d w then (Inl (- 1), w)
      else case probe_loop S ITERS w of (rs, w) \<Rightarrow> (Inr rs, w))"

section \<open>What is printed\<close>

text \<open>The flow sensor's interface also for bursts: reading one writes no register.\<close>

locale pmw_reader = pmw_chip +
  assumes read_keeps: "writes (snd (spi_read P rx w)) = writes w"
    and select_keeps: "\<not> bit a 7 \<Longrightarrow> writes (spi_write P [a] w) = writes w"
begin

lemma reads_keep_writes: "writes (snd (pmw3901_register_read P r w)) = writes w" if "\<not> bit r 7"
  using register_read[OF that, of w] by (metis prod.collapse)

lemma count_keeps_writes: "writes (snd (snd (snd (pmw3901_read_motion_count P w)))) = writes w"
proof -
  obtain a w1 where 1: "pmw3901_register_read P 0x02 w = (a, w1)" by (metis prod.exhaust)
  obtain b w2 where 2: "pmw3901_register_read P 0x04 w1 = (b, w2)" by (metis prod.exhaust)
  obtain c w3 where 3: "pmw3901_register_read P 0x03 w2 = (c, w3)" by (metis prod.exhaust)
  obtain d w4 where 4: "pmw3901_register_read P 0x06 w3 = (d, w4)" by (metis prod.exhaust)
  obtain e w5 where 5: "pmw3901_register_read P 0x05 w4 = (e, w5)" by (metis prod.exhaust)
  have low: "\<not> bit (2 :: u8) 7" "\<not> bit (3 :: u8) 7" "\<not> bit (4 :: u8) 7" "\<not> bit (5 :: u8) 7" "\<not> bit (6 :: u8) 7"
    by (simp_all add: bit_simps)
  show ?thesis
    using reads_keep_writes[OF low(1), of w] reads_keep_writes[OF low(3), of w1] reads_keep_writes[OF low(2), of w2]
      reads_keep_writes[OF low(5), of w3] reads_keep_writes[OF low(4), of w4] 1 2 3 4 5
    by (simp add: pmw3901_read_motion_count_def)
qed

lemma burst_keeps_writes: "writes (snd (snd (pmw3901_read_motion_burst P w))) = writes w"
proof -
  have low: "\<not> bit (0x16 :: u8) 7" by (simp add: bit_simps)
  show ?thesis
    using read_keeps select_keeps[OF low]
    by (simp add: pmw3901_read_motion_burst_def cs_assert_def cs_deassert_def Let_def keeps split: prod.splits)
      (metis snd_conv keeps)
qed

lemma test_pass:
  assumes "pmw_test_pass P w = (r, w')"
  shows "writes w' = writes w \<and> burst_read r \<noteq> None \<and> count_read r \<noteq> None"
proof -
  obtain rb m w1 where b: "pmw3901_read_motion_burst P w = (rb, m, w1)" by (metis prod.exhaust)
  obtain rc dx dy w2 where c: "pmw3901_read_motion_count P w1 = (rc, dx, dy, w2)" by (metis prod.exhaust)
  have "rb = 0" "rc = 0"
    using b c by (auto simp: pmw3901_read_motion_burst_def pmw3901_read_motion_count_def Let_def split: prod.splits)
  then show ?thesis
    using assms b c burst_keeps_writes[of w] count_keeps_writes[of w1] by (auto simp: pmw_test_pass_def keeps)
qed

lemma test_loop:
  "pmw_test_loop P n w = (rs, w') \<Longrightarrow>
   writes w' = writes w \<and> length rs = n \<and> list_all (\<lambda>r. burst_read r \<noteq> None \<and> count_read r \<noteq> None) rs"
proof (induction n arbitrary: w rs w')
  case (Suc n)
  obtain r w1 where "pmw_test_pass P w = (r, w1)" by (metis prod.exhaust)
  then show ?case using Suc test_pass by (auto split: prod.splits)
qed simp

end

text \<open>
  The flow test configures the sensor once. Either it gives up with status 1 and the sensor has taken no
  write, or the sensor has taken the whole configuration, every pass prints a burst and a count, and
  however long the program prints, it writes no register again.
\<close>
theorem flow_test_configures_once:
  assumes "pmw_reader P cs sel writes val" "pmw_test_main P nodes n w = (out, w')"
  shows "out = Inl 1 \<and> writes w' = writes w \<or>
    (\<exists>rs. out = Inr rs \<and> length rs = n \<and> list_all (\<lambda>r. burst_read r \<noteq> None \<and> count_read r \<noteq> None) rs \<and>
       writes w' = writes w @ (0x3A, 0x5A) # init_table_1 @ init_table_2)"
proof -
  obtain ret t w1 where i: "pmw3901_init P w = (ret, t, w1)" by (metis prod.exhaust)
  have chip: "pmw_chip P cs sel writes val" using assms(1) by (simp add: pmw_reader_def)
  note init = pmw_chip.init_writes[OF chip i]
  show ?thesis
  proof (cases "nodes \<and> spi_is_ready P w \<and> pin_is_ready P CS_GPIO w \<and> ret = 0")
    case True
    obtain rs w2 where l: "pmw_test_loop P n w1 = (rs, w2)" by (metis prod.exhaust)
    then show ?thesis
      using True assms(2) i init pmw_reader.test_loop[OF assms(1) l]
      by (auto simp: pmw_test_main_def pmw3901_init_config_def ENODEV_def)
  next
    case False
    then show ?thesis
      using assms(2) i init
      by (auto simp: pmw_test_main_def pmw3901_init_config_def ENODEV_def split: if_splits prod.splits)
  qed
qed

text \<open>
  What Zephyr promises of a sensor: a fetch that fails leaves the sensor's sample as it was and no fetch
  touches another sensor; reading a channel changes no sample and gives the sample's value.
\<close>

locale sensor_driver =
  fixes S :: "('d, 'v, 'w) sensor_api" and held :: "'w \<Rightarrow> 'd \<Rightarrow> 's" and channel :: "'s \<Rightarrow> sensor_chan \<Rightarrow> 'v"
  assumes fetch_other: "sample_fetch S d w = (r, w') \<Longrightarrow> d' \<noteq> d \<or> r \<noteq> 0 \<Longrightarrow> held w' d' = held w d'"
    and get: "channel_get S d ch w = (r, v, w') \<Longrightarrow> held w' = held w \<and> (0 \<le> r \<longrightarrow> v = channel (held w d) ch)"
    and sleeps: "held (sensor_msleep S n w) = held w"
begin

lemma get_value_held:
  assumes "get_value S d ch w = (v, w')"
  shows "held w' = held w \<and> v \<in> {None, Some (channel (held w d) ch)}"
proof -
  obtain r x u where "channel_get S d ch w = (r, x, u)" by (metis prod.exhaust)
  then show ?thesis using assms get[of d ch w r x u] by (auto simp: get_value_def split: if_splits)
qed

lemma fetch_value_other:
  assumes "fetch_value S d ch w = (v, w')" "d' \<noteq> d"
  shows "held w' d' = held w d'"
proof -
  obtain r u where f: "sample_fetch S d w = (r, u)" by (metis prod.exhaust)
  have "held u d' = held w d'" using fetch_other[OF f] assms(2) by simp
  moreover have "held w' = held u" using assms(1) f get_value_held[of d ch u v w'] by (auto simp: fetch_value_def split: if_splits)
  ultimately show ?thesis by simp
qed

lemma probe_fetch_held:
  assumes "probe_fetch S ds w = (fs, w')" "distinct ds"
  shows "length fs = length ds \<and> (\<forall>d. d \<notin> set ds \<longrightarrow> held w' d = held w d) \<and>
    (\<forall>i < length ds. \<not> fs ! i \<longrightarrow> held w' (ds ! i) = held w (ds ! i))"
  using assms
proof (induction ds arbitrary: w fs w')
  case (Cons d ds)
  obtain r u where f: "sample_fetch S d w = (r, u)" by (metis prod.exhaust)
  obtain gs v where g: "probe_fetch S ds u = (gs, v)" by (metis prod.exhaust)
  have e: "fs = (r = 0) # gs" "w' = v" using Cons.prems(1) f g by simp_all
  have IH: "length gs = length ds" "\<forall>x. x \<notin> set ds \<longrightarrow> held v x = held u x"
    "\<forall>i < length ds. \<not> gs ! i \<longrightarrow> held v (ds ! i) = held u (ds ! i)"
    using Cons.IH[OF g] Cons.prems(2) by simp_all
  have u: "\<And>x. x \<noteq> d \<or> r \<noteq> 0 \<Longrightarrow> held u x = held w x" using fetch_other[OF f] by blast
  have "\<not> fs ! i \<longrightarrow> held w' ((d # ds) ! i) = held w ((d # ds) ! i)" if "i < length (d # ds)" for i
  proof (cases i)
    case 0
    then show ?thesis using e IH(2) u Cons.prems(2) by simp
  next
    case (Suc k)
    then have "ds ! k \<noteq> d" using that Cons.prems(2) by auto
    then show ?thesis using Suc that e IH(3) u by simp
  qed
  then show ?case using e IH(1,2) u by simp
qed simp

lemma read_min_held:
  "read_min S ds w = (vs, w') \<Longrightarrow>
   held w' = held w \<and> length vs = length ds \<and> (\<forall>i < length ds. vs ! i \<in> {None, Some (channel (held w (ds ! i)) DISTANCE)})"
proof (induction ds arbitrary: w vs w')
  case (Cons d ds)
  obtain x u where g: "get_value S d DISTANCE w = (x, u)" by (metis prod.exhaust)
  obtain xs u' where r: "read_min S ds u = (xs, u')" by (metis prod.exhaust)
  note IH = Cons.IH[OF r] and h = get_value_held[OF g]
  have "vs = x # xs" "w' = u'" using Cons.prems g r by simp_all
  then show ?case using IH h by (auto simp: nth_Cons split: nat.splits)
qed simp

end

text \<open>
  The temperature printed may be an old one. It is read without asking whether the fetch before it
  succeeded: when the acceleration could not be fetched, none is printed, and the temperature, if any, is that
  of the sample held since before the pass.
\<close>
theorem stale_temperature_printed:
  assumes "sensor_driver S held channel" "fst (sample_fetch S Bmi_Accel w) < 0"
    and "bmi_pass pause S w = ((accel, gyro, temp), w')"
  shows "accel = None \<and> temp \<in> {None, Some (channel (held w Bmi_Accel) DIE_TEMP)}"
proof -
  obtain r w1 where f: "sample_fetch S Bmi_Accel w = (r, w1)" "r < 0" using assms(2) by (metis fst_conv prod.exhaust)
  obtain g w2 where g: "fetch_value S Bmi_Gyro GYRO_XYZ w1 = (g, w2)" by (metis prod.exhaust)
  obtain t w3 where t: "get_value S Bmi_Accel DIE_TEMP w2 = (t, w3)" by (metis prod.exhaust)
  have "held w1 Bmi_Accel = held w Bmi_Accel" using sensor_driver.fetch_other[OF assms(1) f(1)] f(2) by simp
  then have "held w2 Bmi_Accel = held w Bmi_Accel" using sensor_driver.fetch_value_other[OF assms(1) g, of Bmi_Accel] by simp
  then show ?thesis
    using sensor_driver.get_value_held[OF assms(1) t] assms(3) f g t by (auto simp: bmi_pass_def fetch_value_def)
qed

text \<open>
  A sensor that has no new grid reports its last one: whatever the other three deliver, a direction that is
  not fresh shows the nearest wall of the grid held since before the pass, or -1 if it cannot be read.
\<close>
theorem probe_reuses_last_grid:
  assumes "sensor_driver S held channel" "probe_pass S w = ((fresh, d), w')" "i < 4" "\<not> fresh ! i"
  shows "d ! i \<in> {None, Some (channel (held w (zone_devs ! i)) DISTANCE)}"
proof -
  obtain w1 where f: "probe_fetch S zone_devs w = (fresh, w1)" and r: "read_min S zone_devs w1 = (d, w')"
    using assms(2) by (auto simp: probe_pass_def split: prod.splits)
  have "distinct zone_devs" "length zone_devs = 4" by (simp_all add: zone_devs_def)
  then show ?thesis
    using sensor_driver.probe_fetch_held[OF assms(1) f] sensor_driver.read_min_held[OF assms(1) r] assms(3,4) by auto
qed

section \<open>Concrete sensors\<close>

interpretation sim_reader: pmw_reader sim_pmw cs_line addressed taken reg_values
  by unfold_locales (auto simp: sim_pmw_def sim_spi_write_def)

theorem flow_test_configures_once_witness:
  "\<exists>out w. pmw_test_main sim_pmw True 3 pmw_bench = (out, w) \<and>
     (out = Inl 1 \<or> taken w = taken pmw_bench @ (0x3A, 0x5A) # init_table_1 @ init_table_2)"
proof -
  obtain out w where r: "pmw_test_main sim_pmw True 3 pmw_bench = (out, w)" by (metis prod.exhaust)
  from flow_test_configures_once[OF sim_reader.pmw_reader_axioms r] r show ?thesis by blast
qed

text \<open>A sample is a number, the status of the next fetches is given.\<close>

record 'd sensor_world =
  sample :: "'d \<Rightarrow> int"
  next_status :: "'d \<Rightarrow> int"

definition sim_sensor :: "('d, int, 'd sensor_world) sensor_api" where
  "sim_sensor = \<lparr>sensor_ready = (\<lambda>d w. True),
     sample_fetch = (\<lambda>d w. if next_status w d = 0 then (0, w\<lparr>sample := (sample w)(d := sample w d + 1)\<rparr>) else (next_status w d, w)),
     channel_get = (\<lambda>d c w. (0, sample w d, w)), sensor_msleep = (\<lambda>n w. w)\<rparr>"

interpretation sim_sensor: sensor_driver sim_sensor sample "\<lambda>s c. s"
  by unfold_locales (auto simp: sim_sensor_def split: if_splits)

theorem stale_temperature_printed_witness:
  "fst (bmi_pass 10 sim_sensor \<lparr>sample = (\<lambda>d. 7), next_status = (\<lambda>d. if d = Bmi_Accel then - 5 else 0)\<rparr>) = (None, Some 8, Some 7)"
proof -
  let ?w = "\<lparr>sample = (\<lambda>d. 7), next_status = (\<lambda>d. if d = Bmi_Accel then - 5 else 0)\<rparr>"
  obtain a g t w' where p: "bmi_pass 10 sim_sensor ?w = ((a, g, t), w')" by (metis prod.exhaust)
  have v: "g = Some 8" "t \<noteq> None" using p by (auto simp: bmi_pass_def fetch_value_def get_value_def sim_sensor_def)
  have "fst (sample_fetch sim_sensor Bmi_Accel ?w) < 0" by (simp add: sim_sensor_def)
  from stale_temperature_printed[OF sim_sensor.sensor_driver_axioms this p] show ?thesis using p v by auto
qed

theorem probe_reuses_last_grid_witness:
  "snd (fst (probe_pass sim_sensor \<lparr>sample = (\<lambda>d. 7), next_status = (\<lambda>d. if d = Tof_Back then - 11 else 0)\<rparr>)) ! 2 = Some 7"
proof -
  let ?w = "\<lparr>sample = (\<lambda>d. 7), next_status = (\<lambda>d. if d = Tof_Back then - 11 else 0)\<rparr>"
  obtain f d w' where p: "probe_pass sim_sensor ?w = ((f, d), w')" by (metis prod.exhaust)
  have v: "\<not> f ! 2" "d ! 2 \<noteq> None" using p by (auto simp: probe_pass_def zone_devs_def get_value_def sim_sensor_def)
  from probe_reuses_last_grid[OF sim_sensor.sensor_driver_axioms p _ v(1)] show ?thesis using p v by simp
qed

end
