(* ===== verification/Et_Runner.thy ===== *)
theory Et_Runner
  imports Prelude "HOL-Library.Monad_Syntax"
begin

text \<open>
  The ExecuTorch runner \<open>samples/executorch/executor_runner/riscv_executor_runner.cpp\<close>: the allocator that
  counts what it hands out, the inputs it prepares, the run of one model and the batch of models. Memory is a
  function of 64-bit addresses. ExecuTorch is a parameter: its bump allocator, the program and method objects. An error of
  it is a number. The trace encoder, the cycle counts and the diagnostic builds are left out.
\<close>

section \<open>Memory\<close>

type_synonym memory = "u64 \<Rightarrow> u8"

definition store_bytes :: "u64 \<Rightarrow> u8 list \<Rightarrow> memory \<Rightarrow> memory" where
  "store_bytes p bs mem = (\<lambda>q. if unat (q - p) < length bs then bs ! unat (q - p) else mem q)"

definition load_bytes :: "u64 \<Rightarrow> nat \<Rightarrow> memory \<Rightarrow> u8 list" where
  "load_bytes p n mem = map (\<lambda>j. mem (p + word_of_nat j)) [0..<n]"

definition le64 :: "u64 \<Rightarrow> u8 list" where
  "le64 x = map (\<lambda>j. ucast (drop_bit (8 * j) x)) [0..<8]"

lemma length_load [simp]: "length (load_bytes p n mem) = n"
  by (simp add: load_bytes_def)

lemma unat_nat64: "n < 2 ^ 64 \<Longrightarrow> unat (word_of_nat n :: u64) = n"
  by (simp add: unsigned_of_nat take_bit_nat_eq_self)

lemma load_store:
  assumes "length bs \<le> 2 ^ 64"
  shows "load_bytes p (length bs) (store_bytes p bs mem) = bs"
proof (rule nth_equalityI)
  fix i assume "i < length (load_bytes p (length bs) (store_bytes p bs mem))"
  then show "load_bytes p (length bs) (store_bytes p bs mem) ! i = bs ! i"
    using assms unat_nat64[of i] by (simp add: load_bytes_def store_bytes_def)
qed simp

lemma load_elsewhere:
  "(\<And>j. j < n \<Longrightarrow> length bs \<le> unat (p + word_of_nat j - q)) \<Longrightarrow> load_bytes p n (store_bytes q bs m) = load_bytes p n m"
  by (fastforce simp: load_bytes_def store_bytes_def)

lemma store_append:
  assumes "length as + length bs \<le> 2 ^ 64"
  shows "store_bytes (p + word_of_nat (length as)) bs (store_bytes p as mem) = store_bytes p (as @ bs) mem"
proof (cases "bs = []")
  case True
  then show ?thesis by (simp add: store_bytes_def)
next
  case False
  then have n: "unat (word_of_nat (length as) :: u64) = length as" using assms by (intro unat_nat64) (cases bs; simp)
  show ?thesis
  proof
    fix q
    have e: "q - (p + word_of_nat (length as)) = (q - p) - word_of_nat (length as)" by simp
    have d: "unat (q - (p + word_of_nat (length as))) =
        (if length as \<le> unat (q - p) then unat (q - p) - length as else unat (q - p) + 2 ^ 64 - length as)"
      using unat_sub_if'[of "q - p" "word_of_nat (length as)"] unfolding e n by simp
    show "store_bytes (p + word_of_nat (length as)) bs (store_bytes p as mem) q = store_bytes p (as @ bs) mem q"
      unfolding store_bytes_def d using assms by (auto simp: nth_append)
  qed
qed

section \<open>The interface of ExecuTorch\<close>

datatype et_error = MemoryAllocationFailed | Et_Error nat

datatype scalar_type = S_Int | S_Float | S_Other

record tensor_info =
  nbytes :: u64
  scalar :: scalar_type
  numel :: nat

text \<open>
  \<open>'a\<close> is the state of a \<open>MemoryAllocator\<close>, \<open>'m\<close> a loaded method. A null pointer is \<open>None\<close>. \<open>set_input\<close> may copy the
  buffer into memory of the method or keep its address; \<open>buffer_cleanup\<close> is the destructor of \<open>BufferCleanup\<close>, which frees
  the table and so many of its buffers.
\<close>

record ('a, 'm) et_api =
  ma_allocate :: "u64 \<Rightarrow> u64 \<Rightarrow> 'a \<Rightarrow> u64 option \<times> 'a"
  ma_size :: "'a \<Rightarrow> u64"
  kDefaultAlignment :: u64
  num_inputs :: "'m \<Rightarrow> nat"
  input_is_tensor :: "'m \<Rightarrow> nat \<Rightarrow> et_error + bool"
  input_tensor_meta :: "'m \<Rightarrow> nat \<Rightarrow> et_error + tensor_info"
  set_input :: "tensor_info \<Rightarrow> u64 \<Rightarrow> memory \<Rightarrow> nat \<Rightarrow> 'm \<Rightarrow> et_error option \<times> memory \<times> 'm"
  buffer_cleanup :: "u64 \<Rightarrow> nat \<Rightarrow> memory \<Rightarrow> memory"

section \<open>The allocator\<close>

record 'a riscv_allocator =
  base :: 'a
  used :: u64

definition allocate ::
    "('a, 'm, 'z) et_api_scheme \<Rightarrow> u64 \<Rightarrow> u64 \<Rightarrow> 'a riscv_allocator \<Rightarrow> u64 option \<times> 'a riscv_allocator" where
  "allocate E sz alignment a =
     (case ma_allocate E sz alignment (base a) of (ret, b) \<Rightarrow>
      let a = a\<lparr>base := b\<rparr> in
      if ret = None then (None, a)
      else if sz AND (alignment - 1) = 0 then (ret, a\<lparr>used := used a + sz\<rparr>)
      else (ret, a\<lparr>used := (used a OR (alignment - 1)) + 1 + sz\<rparr>))"

definition used_size :: "'a riscv_allocator \<Rightarrow> u64" where "used_size a = used a"

definition free_size :: "('a, 'm, 'z) et_api_scheme \<Rightarrow> 'a riscv_allocator \<Rightarrow> u64" where
  "free_size E a = ma_size E (base a) - used a"

section \<open>Inputs\<close>

text \<open>\<open>logged\<close> are the messages that the function logs as errors.\<close>

datatype et_message = Size_Mismatch nat u64 | Input_Failed nat et_error

record ('a, 'm) et_state =
  mem :: memory
  alloc :: "'a riscv_allocator"
  meth :: 'm
  logged :: "et_message list"

definition one_bytes :: "scalar_type \<Rightarrow> u8 list" where
  "one_bytes st = (case st of S_Int \<Rightarrow> [1, 0, 0, 0] | S_Float \<Rightarrow> [0, 0, 0x80, 0x3F] | S_Other \<Rightarrow> [])"

fun fill_ones :: "u64 \<Rightarrow> scalar_type \<Rightarrow> nat \<Rightarrow> memory \<Rightarrow> memory" where
  "fill_ones p st 0 m = m"
| "fill_ones p st (Suc j) m = store_bytes (p + 4 * word_of_nat j) (one_bytes st) (fill_ones p st j m)"

text \<open>What is put into the buffer of input \<open>i\<close>: the bytes given for it if the size is right, ones if none are given at all.\<close>

definition fill_input :: "u8 list list \<Rightarrow> tensor_info \<Rightarrow> u64 \<Rightarrow> nat \<Rightarrow> memory \<Rightarrow> memory" where
  "fill_input bufs info p i m =
     (let m = (if i < length bufs \<and> length (bufs ! i) = unat (nbytes info) then store_bytes p (bufs ! i) m else m)
      in if bufs = [] then fill_ones p (scalar info) (numel info) m else m)"

text \<open>
  One input: \<open>tbl\<close> is the table of pointers, \<open>k\<close> of which are set. The size mismatch is logged and leaves an error code
  that the result of \<open>set_input\<close> overwrites.
\<close>

definition mismatch :: "u8 list list \<Rightarrow> tensor_info \<Rightarrow> nat \<Rightarrow> et_message list" where
  "mismatch bufs info i =
     (if i < length bufs \<and> length (bufs ! i) \<noteq> unat (nbytes info) then [Size_Mismatch (length (bufs ! i)) (nbytes info)] else [])"

definition prepare_input ::
    "('a, 'm, 'z) et_api_scheme \<Rightarrow> u8 list list \<Rightarrow> u64 \<Rightarrow> nat \<Rightarrow> nat \<Rightarrow> ('a, 'm) et_state \<Rightarrow>
      (et_error + nat) \<times> ('a, 'm) et_state" where
  "prepare_input E bufs tbl i k s =
     (case input_is_tensor E (meth s) i of
        Inl e \<Rightarrow> (Inl e, s)
      | Inr False \<Rightarrow> (Inr k, s)
      | Inr True \<Rightarrow> (case input_tensor_meta E (meth s) i of
          Inl e \<Rightarrow> (Inl e, s)
        | Inr info \<Rightarrow> (case allocate E (nbytes info) (kDefaultAlignment E) (alloc s) of
            (None, a) \<Rightarrow> (Inl MemoryAllocationFailed, s\<lparr>alloc := a\<rparr>)
          | (Some p, a) \<Rightarrow>
              let m = fill_input bufs info p i (store_bytes (tbl + 8 * word_of_nat k) (le64 p) (mem s)) in
              (case set_input E info p m i (meth s) of (err, m, mt) \<Rightarrow>
                let s = s\<lparr>mem := m, alloc := a, meth := mt, logged := logged s @ mismatch bufs info i\<rparr> in
                case err of
                  Some e \<Rightarrow> (Inl e, s\<lparr>mem := buffer_cleanup E tbl (k + 1) m, logged := logged s @ [Input_Failed i e]\<rparr>)
                | None \<Rightarrow> (Inr (k + 1), s)))))"

fun prepare_inputs ::
    "('a, 'm, 'z) et_api_scheme \<Rightarrow> u8 list list \<Rightarrow> u64 \<Rightarrow> nat list \<Rightarrow> nat \<Rightarrow> ('a, 'm) et_state \<Rightarrow>
      (et_error + nat) \<times> ('a, 'm) et_state" where
  "prepare_inputs E bufs tbl [] k s = (Inr k, s)"
| "prepare_inputs E bufs tbl (i # is) k s =
     (case prepare_input E bufs tbl i k s of
        (Inl e, s) \<Rightarrow> (Inl e, s)
      | (Inr k, s) \<Rightarrow> prepare_inputs E bufs tbl is k s)"

text \<open>The whole function: the table's address and how many pointers it holds.\<close>

definition prepare_input_tensors ::
    "('a, 'm, 'z) et_api_scheme \<Rightarrow> u8 list list \<Rightarrow> ('a, 'm) et_state \<Rightarrow>
      (et_error + u64 \<times> nat) \<times> ('a, 'm) et_state" where
  "prepare_input_tensors E bufs s =
     (case allocate E (word_of_nat (num_inputs E (meth s)) * 8) (kDefaultAlignment E) (alloc s) of
        (None, a) \<Rightarrow> (Inl MemoryAllocationFailed, s\<lparr>alloc := a\<rparr>)
      | (Some tbl, a) \<Rightarrow>
          (case prepare_inputs E bufs tbl [0..<num_inputs E (meth s)] 0 (s\<lparr>alloc := a\<rparr>) of
             (Inl e, s) \<Rightarrow> (Inl e, s)
           | (Inr k, s) \<Rightarrow> (Inr (tbl, k), s)))"

section \<open>A run\<close>

text \<open>Outputs as the checksum sees them: 32-bit integers, or anything else read as floats and widened to doubles.\<close>

datatype 'd model_output = Ints "u32 list" | Floats "'d list"
datatype 'd checksum = Int_Sum u64 | Float_Sum 'd

text \<open>
  The program and method objects. An absent result is one whose use aborts the runner; loading a
  method and executing it may take memory from the method allocator.
\<close>

record ('a, 'm, 'p, 'd) et_program_api = "('a, 'm) et_api" +
  new_allocator :: 'a
  program_load :: "u8 list \<Rightarrow> 'p option"
  get_method_name :: "'p \<Rightarrow> string option"
  planned_sizes :: "'p \<Rightarrow> string \<Rightarrow> u64 list option"
  load_method :: "'p \<Rightarrow> string \<Rightarrow> (u64 option \<times> u64) list \<Rightarrow> memory \<Rightarrow> 'a riscv_allocator \<Rightarrow>
    'm option \<times> memory \<times> 'a riscv_allocator"
  execute :: "('a, 'm) et_state \<Rightarrow> et_error option \<times> ('a, 'm) et_state"
  get_outputs :: "('a, 'm) et_state \<Rightarrow> et_error option \<times> 'd model_output list"
  d_zero :: 'd
  d_add :: "'d \<Rightarrow> 'd \<Rightarrow> 'd"

definition MB_EXEC_ITERS :: nat where "MB_EXEC_ITERS = 5"

text \<open>The planned buffers, whether or not there was room for them.\<close>

fun planned_buffers ::
    "('a, 'm, 'z) et_api_scheme \<Rightarrow> u64 list \<Rightarrow> 'a riscv_allocator \<Rightarrow> (u64 option \<times> u64) list \<times> 'a riscv_allocator" where
  "planned_buffers E [] a = ([], a)"
| "planned_buffers E (sz # szs) a =
     (case allocate E sz (kDefaultAlignment E) a of (p, a) \<Rightarrow>
      case planned_buffers E szs a of (spans, a) \<Rightarrow> ((p, sz) # spans, a))"

text \<open>
  The executions: from the second on, the inputs are prepared again before each, and the result of that is
  not looked at. The status is that of the last.
\<close>

fun exec_loop ::
    "('a, 'm, 'p, 'd, 'z) et_program_api_scheme \<Rightarrow> u8 list list \<Rightarrow> nat list \<Rightarrow> et_error option \<Rightarrow> ('a, 'm) et_state \<Rightarrow>
      et_error option \<times> ('a, 'm) et_state" where
  "exec_loop E bufs [] status s = (status, s)"
| "exec_loop E bufs (it # its) status s =
     (let s = (if 0 < it then snd (prepare_input_tensors E bufs s) else s) in
      case execute E s of (status, s) \<Rightarrow> exec_loop E bufs its status s)"

definition output_checksum :: "('a, 'm, 'p, 'd, 'z) et_program_api_scheme \<Rightarrow> 'd model_output \<Rightarrow> 'd checksum" where
  "output_checksum E out =
     (case out of
        Ints xs \<Rightarrow> Int_Sum (foldl (\<lambda>sum x. sum + scast x) 0 xs)
      | Floats xs \<Rightarrow> Float_Sum (foldl (d_add E) (d_zero E) xs))"

text \<open>The whole run: the checksums printed and the memory left, \<open>None\<close> if it aborts.\<close>

definition run_one_pte ::
    "('a, 'm, 'p, 'd, 'z) et_program_api_scheme \<Rightarrow> u8 list \<Rightarrow> u8 list list \<Rightarrow> memory \<Rightarrow> ('d checksum list \<times> memory) option" where
  "run_one_pte E pte bufs m = do {
     program \<leftarrow> program_load E pte;
     name \<leftarrow> get_method_name E program;
     sizes \<leftarrow> planned_sizes E program name;
     (let (spans, a) = planned_buffers E sizes \<lparr>base = new_allocator E, used = 0\<rparr>;
          (loaded, m, a) = load_method E program name spans m a
      in do {
        mt \<leftarrow> loaded;
        (let s = snd (prepare_input_tensors E bufs \<lparr>mem = m, alloc = a, meth = mt, logged = []\<rparr>);
             s = snd (exec_loop E bufs [0..<MB_EXEC_ITERS] None s);
             (err, outs) = get_outputs E s
         in if err = None then Some (map (output_checksum E) outs, mem s) else None) }) }"

text \<open>The batch: models with their inputs, of which at most eight are used, share the memory.\<close>

fun mb_et_region ::
    "('a, 'm, 'p, 'd, 'z) et_program_api_scheme \<Rightarrow> (u8 list \<times> u8 list list) list \<Rightarrow> memory \<Rightarrow>
      ('d checksum list list \<times> memory) option" where
  "mb_et_region E [] m = Some ([], m)"
| "mb_et_region E ((pte, inputs) # models) m = do {
     (sums, m) \<leftarrow> run_one_pte E pte (take 8 inputs) m;
     (rest, m) \<leftarrow> mb_et_region E models m;
     Some (sums # rest, m) }"

section \<open>What the allocator reports\<close>

definition align_up :: "nat \<Rightarrow> nat \<Rightarrow> nat" where
  "align_up n x = (x + n - 1) div n * n"

text \<open>
  ExecuTorch's allocator hands out the next aligned part of its buffer: \<open>gone\<close> is where the free part
  starts. The runner's pools are aligned to 16 bytes.
\<close>

locale bump_allocator =
  fixes E :: "('a, 'm, 'z) et_api_scheme" and gone :: "'a \<Rightarrow> nat"
  assumes takes: "k \<le> 4 \<Longrightarrow> ma_allocate E sz (2 ^ k) b = (Some p, b') \<Longrightarrow> gone b' = align_up (2 ^ k) (gone b) + unat sz"
    and refuses: "ma_allocate E sz al b = (None, b') \<Longrightarrow> gone b' = gone b"
    and keeps_size: "ma_allocate E sz al b = (ret, b') \<Longrightarrow> ma_size E b' = ma_size E b"

fun allocate_all ::
    "('a, 'm, 'z) et_api_scheme \<Rightarrow> u64 \<Rightarrow> u64 list \<Rightarrow> 'a riscv_allocator \<Rightarrow> 'a riscv_allocator" where
  "allocate_all E al [] a = a"
| "allocate_all E al (sz # szs) a = allocate_all E al szs (snd (allocate E sz al a))"

lemma or_mask_nat: "(m :: nat) OR mask k = m div 2 ^ k * 2 ^ k + (2 ^ k - 1)"
proof -
  have "m OR mask k = push_bit k (drop_bit k m) OR mask k"
    by (rule bit_eqI) (auto simp: bit_simps)
  also have "\<dots> = push_bit k (drop_bit k m) + mask k"
    by (rule disjunctive_add [symmetric]) (auto simp: bit_simps)
  finally show ?thesis by (simp add: push_bit_eq_mult drop_bit_eq_div mask_eq_exp_minus_1)
qed

lemma power_mask: "(2 :: u64) ^ k - 1 = mask k"
  by (simp add: mask_eq_exp_minus_1)

lemma unat_or_mask: "unat ((x :: u64) OR (2 ^ k - 1)) = unat x div 2 ^ k * 2 ^ k + (2 ^ k - 1)" if "k \<le> 4"
proof -
  have "k \<in> {0, 1, 2, 3, 4}" using that by auto
  then have "unat (mask k :: u64) = mask k" by (auto simp: mask_eq_exp_minus_1)
  then show ?thesis unfolding power_mask by (simp add: unsigned_or_eq or_mask_nat)
qed

lemma aligned_size: "(sz :: u64) AND (2 ^ k - 1) = 0 \<longleftrightarrow> 2 ^ k dvd unat sz"
proof -
  have "sz AND (2 ^ k - 1) = take_bit k sz" unfolding power_mask by (simp add: take_bit_eq_mask)
  also have "\<dots> = 0 \<longleftrightarrow> take_bit k (unat sz) = 0"
    by (metis unat_eq_0 unsigned_take_bit_eq unsigned_0)
  finally show ?thesis by (simp add: take_bit_eq_mod dvd_eq_mod_eq_0)
qed

lemma align_up_facts:
  assumes "0 < n"
  shows "x \<le> align_up n x" "align_up n x < x + n" "n dvd align_up n x" "n dvd x \<Longrightarrow> align_up n x = x"
proof -
  show "x \<le> align_up n x" "align_up n x < x + n"
    using assms div_mult_mod_eq[of "x + n - 1" n] mod_less_divisor[OF assms, of "x + n - 1"] unfolding align_up_def by linarith+
  show "n dvd align_up n x" by (simp add: align_up_def)
  assume "n dvd x"
  then obtain q where q: "x = n * q" by blast
  have "(n * q + n - 1) div n = q" using assms by (intro div_nat_eqI) (auto simp: algebra_simps)
  then show "align_up n x = x" by (simp add: align_up_def q)
qed

context bump_allocator
begin

lemma allocate_step:
  assumes "k \<le> 4" "align_up (2 ^ k) (gone (base a)) \<le> unat (used a)" "unat (used a) + unat sz + 2 ^ k < 2 ^ 64"
    and "allocate E sz (2 ^ k) a = (ret, a')"
  shows "align_up (2 ^ k) (gone (base a')) \<le> unat (used a') \<and> unat (used a') \<le> unat (used a) + unat sz + 2 ^ k"
proof -
  let ?n = "2 ^ k :: nat" and ?t = "align_up (2 ^ k) (gone (base a))"
  obtain b where b: "ma_allocate E sz (2 ^ k) (base a) = (ret, b)" "base a' = b"
    using assms(4) by (auto simp: allocate_def Let_def split: prod.splits if_splits)
  have n: "0 < ?n" "?n \<le> 16" using assms(1) power_increasing[of k 4 "2 :: nat"] by auto
  note al = align_up_facts[OF n(1)]
  show ?thesis
  proof (cases ret)
    case None
    then have "used a' = used a" using assms(4) b by (auto simp: allocate_def Let_def)
    then show ?thesis using assms(2) b None refuses[of sz "2 ^ k" "base a" b] by simp
  next
    case (Some p)
    have gone: "gone (base a') = ?t + unat sz" using takes[OF assms(1)] b Some by simp
    show ?thesis
    proof (cases "?n dvd unat sz")
      case True
      then have "used a' = used a + sz" using assms(4) b Some aligned_size[of sz k] by (auto simp: allocate_def Let_def)
      then have u: "unat (used a') = unat (used a) + unat sz" using assms(3) by (simp add: unat_add_lem[THEN iffD1])
      have "align_up ?n (?t + unat sz) = ?t + unat sz" using True al(3,4) by simp
      then show ?thesis using u gone assms(2) by simp
    next
      case False
      then have used: "used a' = (used a OR (2 ^ k - 1)) + 1 + sz"
        using assms(4) b Some aligned_size[of sz k] by (auto simp: allocate_def Let_def)
      have o: "unat (used a OR (2 ^ k - 1)) + 1 = unat (used a) div ?n * ?n + ?n" using unat_or_mask[OF assms(1), of "used a"] n(1) by simp
      have le: "unat (used a) div ?n * ?n \<le> unat (used a)" by simp
      have add: "unat (x + y) = unat x + unat y" if "unat x + unat y < 2 ^ 64" for x y :: u64
        using that unat_add_lem[of x y] by simp
      have "unat (used a OR (2 ^ k - 1)) + unat (1 :: u64) < 2 ^ 64" using o le assms(3) unfolding unsigned_1 by linarith
      from add[OF this] have one: "unat ((used a OR (2 ^ k - 1)) + 1) = unat (used a) div ?n * ?n + ?n" using o by simp
      then have "unat ((used a OR (2 ^ k - 1)) + 1) + unat sz < 2 ^ 64" using le assms(3) by linarith
      from add[OF this] have u: "unat (used a') = unat (used a) div ?n * ?n + ?n + unat sz" unfolding used using one by simp
      have t: "?t \<le> unat (used a) div ?n * ?n"
      proof -
        obtain q where q: "?t = ?n * q" using al(3) by blast
        then have "q \<le> unat (used a) div ?n" using assms(2) n(1) by (simp add: less_eq_div_iff_mult_less_eq mult.commute)
        then show ?thesis unfolding q by (simp add: mult.commute)
      qed
      show ?thesis unfolding u gone using t le al(2)[of "?t + unat sz"] by linarith
    qed
  qed
qed

lemma never_understates:
  "k \<le> 4 \<Longrightarrow> align_up (2 ^ k) (gone (base a)) \<le> unat (used a) \<Longrightarrow>
   unat (used a) + sum_list (map (\<lambda>sz. unat sz + 2 ^ k) szs) < 2 ^ 64 \<Longrightarrow>
   align_up (2 ^ k) (gone (base (allocate_all E (2 ^ k) szs a))) \<le> unat (used (allocate_all E (2 ^ k) szs a))"
proof (induction szs arbitrary: a)
  case (Cons sz szs)
  obtain ret a' where a: "allocate E sz (2 ^ k) a = (ret, a')" by (metis prod.exhaust)
  from allocate_step[OF Cons.prems(1,2) _ a] Cons.prems(3) show ?case using Cons.IH[of a'] Cons.prems(1) a by simp
qed simp

end

text \<open>
  The allocator never reports less than it has handed out. However many allocations of one alignment of at
  most 16 bytes it makes, some of which may fail, the size it reports as used covers all that is gone of
  the buffer, padding included.
\<close>
theorem used_never_understates:
  assumes "bump_allocator E gone" "gone (base a) = 0" "used a = 0" "k \<le> 4"
    and "sum_list (map (\<lambda>sz. unat sz + 2 ^ k) szs) < 2 ^ 64"
  shows "gone (base (allocate_all E (2 ^ k) szs a)) \<le> unat (used_size (allocate_all E (2 ^ k) szs a))"
proof -
  have "align_up (2 ^ k) (gone (base a)) \<le> unat (used a)" using assms(2,3) by (simp add: align_up_def)
  then have "align_up (2 ^ k) (gone (base (allocate_all E (2 ^ k) szs a))) \<le> unat (used (allocate_all E (2 ^ k) szs a))"
    using bump_allocator.never_understates[OF assms(1,4)] assms(3,5) by simp
  then show ?thesis using align_up_facts(1)[of "2 ^ k"] le_trans unfolding used_size_def by (metis zero_less_numeral zero_less_power)
qed

text \<open>
  It is not in sync with the allocator either, and what it reports as free can exceed the buffer: after two
  allocations of fewer than 16 bytes, \<open>16 + s\<close> bytes are gone and \<open>32 + s\<close> are reported as used; where the
  buffer is smaller than that, the free size wraps around.
\<close>
theorem free_size_wraps:
  assumes "bump_allocator E gone" "gone (base a) = 0" "used a = 0" "0 < unat sz" "unat sz < 16"
    and "allocate E sz 16 a = (Some p, a')" "allocate E sz 16 a' = (Some p', a'')" "unat (ma_size E (base a)) < 32 + unat sz"
  shows "gone (base a'') = 16 + unat sz \<and> unat (used_size a'') = 32 + unat sz \<and> ma_size E (base a) < free_size E a''"
proof -
  have two: "(2 :: u64) ^ 4 = 16" "(2 :: nat) ^ 4 = 16" by simp_all
  note al = aligned_size[of sz 4, unfolded two] and om = unat_or_mask[of 4, unfolded two]
  have nd: "\<not> sz AND 15 = 0" using al assms(4,5) by (auto dest: dvd_imp_le)
  obtain b where b: "ma_allocate E sz 16 (base a) = (Some p, b)" "a' = a\<lparr>base := b, used := (0 OR 15) + 1 + sz\<rparr>"
    using assms(3,6) nd by (auto simp: allocate_def Let_def split: prod.splits if_splits)
  obtain c where c: "ma_allocate E sz 16 b = (Some p', c)" "a'' = a\<lparr>base := c, used := (used a' OR 15) + 1 + sz\<rparr>"
    using assms(7) nd b(2) by (auto simp: allocate_def Let_def split: prod.splits if_splits)
  have "gone b = unat sz" using bump_allocator.takes[OF assms(1), of 4 sz "base a" p b] b(1) assms(2) by (simp add: align_up_def)
  moreover have "gone c = align_up 16 (gone b) + unat sz"
    using bump_allocator.takes[OF assms(1), of 4 sz b p' c] c(1) by simp
  moreover have "align_up 16 (unat sz) = 16" using assms(4,5) unfolding align_up_def by (simp add: div_nat_eqI)
  ultimately have gone: "gone (base a'') = 16 + unat sz" using c(2) by simp
  have u1: "unat (used a') = 16 + unat sz" using b(2) assms(5) by (simp add: unat_add_lem[THEN iffD1])
  have "unat (used a' OR 15) = 31" using om[of "used a'"] u1 assms(5) by simp
  then have u2: "unat (used a'') = 32 + unat sz" using c(2) assms(5) by (simp add: unat_add_lem[THEN iffD1])
  have size: "ma_size E c = ma_size E (base a)"
    using bump_allocator.keeps_size[OF assms(1)] b(1) c(1) by metis
  have "unat (free_size E a'') = unat (ma_size E (base a)) + 2 ^ 64 - (32 + unat sz)"
    using assms(8) u2 c(2) size unfolding free_size_def by (simp add: unat_sub_if')
  then have "ma_size E (base a) < free_size E a''" using assms(5) unfolding word_less_nat_alt by simp
  then show ?thesis using gone u2 by (simp add: used_size_def)
qed

section \<open>What the model is given\<close>

text \<open>
  A method whose state records the inputs that were set, as the bytes their buffers held at the time of the call, and that
  says the same of its inputs afterwards. Whether it copies the bytes or keeps the buffer is left open.
\<close>

locale method_log =
  fixes E :: "('a, 'm, 'z) et_api_scheme" and seen :: "'m \<Rightarrow> (nat \<times> u8 list) list"
  assumes set_logs: "set_input E info p m i mt = (None, m', mt') \<Longrightarrow> seen mt' = seen mt @ [(i, load_bytes p (unat (nbytes info)) m)]"
    and set_refused: "set_input E info p m i mt = (Some e, m', mt') \<Longrightarrow> seen mt' = seen mt"
    and keeps_meta: "set_input E info p m i mt = (r, m', mt') \<Longrightarrow>
      input_is_tensor E mt' = input_is_tensor E mt \<and> input_tensor_meta E mt' = input_tensor_meta E mt"

definition given_input :: "u8 list list \<Rightarrow> tensor_info \<Rightarrow> nat \<Rightarrow> u8 list" where
  "given_input bufs info i = (if bufs = [] then concat (replicate (numel info) (one_bytes (scalar info))) else bufs ! i)"

text \<open>
  The inputs given fit the tensor: one of the right size; or none at all, and it holds integers or floats, of four
  bytes each, which are all the types the program has a one for.
\<close>

definition fits :: "u8 list list \<Rightarrow> tensor_info \<Rightarrow> nat \<Rightarrow> bool" where
  "fits bufs info i \<longleftrightarrow>
     (if bufs = [] then scalar info \<noteq> S_Other \<and> unat (nbytes info) = 4 * numel info
      else i < length bufs \<and> length (bufs ! i) = unat (nbytes info))"

definition tensor_inputs :: "('a, 'm, 'z) et_api_scheme \<Rightarrow> 'm \<Rightarrow> u8 list list \<Rightarrow> nat list \<Rightarrow> (nat \<times> u8 list) list" where
  "tensor_inputs E mt bufs is =
     concat (map (\<lambda>i. case (input_is_tensor E mt i, input_tensor_meta E mt i) of
       (Inr True, Inr info) \<Rightarrow> [(i, given_input bufs info i)] | _ \<Rightarrow> []) is)"

lemma fill_ones_store:
  assumes "st \<noteq> S_Other" "4 * n \<le> 2 ^ 64"
  shows "fill_ones p st n m = store_bytes p (concat (replicate n (one_bytes st))) m"
  using assms(2)
proof (induction n)
  case (Suc n)
  have l: "length (one_bytes st) = 4" using assms(1) by (cases st) (simp_all add: one_bytes_def)
  then have c: "length (concat (replicate n (one_bytes st))) = 4 * n" by (simp add: length_concat sum_list_replicate)
  have w: "p + 4 * word_of_nat n = p + word_of_nat (length (concat (replicate n (one_bytes st))))" unfolding c by simp
  have "concat (replicate (Suc n) (one_bytes st)) = concat (replicate n (one_bytes st)) @ one_bytes st"
    by (metis concat.simps(1) concat.simps(2) concat_append append_Nil2 replicate_Suc replicate_append_same)
  moreover have "length (concat (replicate n (one_bytes st))) + length (one_bytes st) \<le> 2 ^ 64" using c l Suc.prems by simp
  ultimately show ?case using store_append Suc w by simp
qed (simp add: store_bytes_def)

lemma fill_given:
  assumes "fits bufs info i"
  shows "load_bytes p (unat (nbytes info)) (fill_input bufs info p i m) = given_input bufs info i"
proof -
  have "unat (nbytes info) < 2 ^ LENGTH(64)" by (rule unsigned_less)
  then have n: "unat (nbytes info) \<le> 2 ^ 64" by simp
  show ?thesis
  proof (cases "bufs = []")
    case True
    let ?ones = "concat (replicate (numel info) (one_bytes (scalar info)))"
    have "length (one_bytes (scalar info)) = 4" using assms True by (cases "scalar info") (auto simp: fits_def one_bytes_def)
    then have l: "length ?ones = unat (nbytes info)" using assms True by (simp add: fits_def length_concat sum_list_replicate)
    have "fill_input bufs info p i m = store_bytes p ?ones m"
      using fill_ones_store[of "scalar info" "numel info" p m] assms True n by (simp add: fits_def fill_input_def)
    then show ?thesis using load_store[of ?ones p m] l n True by (simp add: given_input_def)
  next
    case False
    then have l: "i < length bufs" "length (bufs ! i) = unat (nbytes info)" using assms by (simp_all add: fits_def)
    then have "fill_input bufs info p i m = store_bytes p (bufs ! i) m" using False by (simp add: fill_input_def)
    then show ?thesis using load_store[of "bufs ! i" p m] l n False by (simp add: given_input_def)
  qed
qed

context method_log
begin

lemma prepare_logs:
  assumes "prepare_input E bufs tbl i k s = (r, s')"
    and "\<And>info. input_tensor_meta E (meth s) i = Inr info \<Longrightarrow> fits bufs info i"
  shows "input_is_tensor E (meth s') = input_is_tensor E (meth s) \<and> input_tensor_meta E (meth s') = input_tensor_meta E (meth s) \<and>
    seen (meth s') = seen (meth s) @ (case r of Inr k \<Rightarrow> tensor_inputs E (meth s) bufs [i] | Inl e \<Rightarrow> [])"
proof (cases "input_is_tensor E (meth s) i")
  case (Inr t)
  show ?thesis
  proof (cases "input_tensor_meta E (meth s) i")
    case info: (Inr info)
    show ?thesis
    proof (cases t)
      case True
      obtain q a where a: "allocate E (nbytes info) (kDefaultAlignment E) (alloc s) = (q, a)" by (metis prod.exhaust)
      show ?thesis
      proof (cases q)
        case (Some p)
        let ?m = "fill_input bufs info p i (store_bytes (tbl + 8 * word_of_nat k) (le64 p) (mem s))"
        obtain err m' mt where e: "set_input E info p ?m i (meth s) = (err, m', mt)" by (metis prod.exhaust)
        have s': "meth s' = mt" "r = (case err of Some e \<Rightarrow> Inl e | None \<Rightarrow> Inr (k + 1))"
          using assms(1) Inr True info a Some e by (auto simp: prepare_input_def Let_def split: option.splits)
        note ls = set_logs[of info p ?m i "meth s" m' mt] set_refused[of info p ?m i "meth s" _ m' mt] keeps_meta[OF e]
        show ?thesis
        proof (cases err)
          case None
          have "tensor_inputs E (meth s) bufs [i] = [(i, given_input bufs info i)]" using Inr True info by (simp add: tensor_inputs_def)
          then show ?thesis using ls s' e None fill_given[OF assms(2)[OF info]] by simp
        qed (use ls s' e in simp)
      qed (use assms(1) Inr True info a in \<open>auto simp: prepare_input_def\<close>)
    qed (use assms(1) Inr info in \<open>auto simp: prepare_input_def tensor_inputs_def\<close>)
  qed (use assms(1) Inr in \<open>auto simp: prepare_input_def tensor_inputs_def split: bool.splits\<close>)
qed (use assms(1) in \<open>auto simp: prepare_input_def\<close>)

lemma inputs_log:
  assumes "\<And>i info. i \<in> set is \<Longrightarrow> input_tensor_meta E (meth s) i = Inr info \<Longrightarrow> fits bufs info i"
    and "prepare_inputs E bufs tbl is k s = (r, s')"
  shows "\<exists>n \<le> length is. seen (meth s') = seen (meth s) @ tensor_inputs E (meth s) bufs (take n is) \<and>
    (\<forall>k. r = Inr k \<longrightarrow> n = length is)"
  using assms
proof (induction "is" arbitrary: k s)
  case (Cons i "is")
  obtain r1 s1 where 1: "prepare_input E bufs tbl i k s = (r1, s1)" by (metis prod.exhaust)
  have l: "input_is_tensor E (meth s1) = input_is_tensor E (meth s) \<and> input_tensor_meta E (meth s1) = input_tensor_meta E (meth s) \<and>
    seen (meth s1) = seen (meth s) @ (case r1 of Inr k \<Rightarrow> tensor_inputs E (meth s) bufs [i] | Inl e \<Rightarrow> [])"
    by (rule prepare_logs[OF 1]) (use Cons.prems(1) in auto)
  show ?case
  proof (cases r1)
    case (Inl e)
    then have "s' = s1" "r = Inl e" using Cons.prems(2) 1 by simp_all
    then show ?thesis using l Inl by (intro exI[of _ 0]) (simp add: tensor_inputs_def)
  next
    case (Inr k1)
    have same: "tensor_inputs E (meth s1) bufs js = tensor_inputs E (meth s) bufs js" for js
      using l by (simp add: tensor_inputs_def)
    have rest: "prepare_inputs E bufs tbl is k1 s1 = (r, s')" using Cons.prems(2) 1 Inr by simp
    obtain n where n: "n \<le> length is" "seen (meth s') = seen (meth s1) @ tensor_inputs E (meth s) bufs (take n is)"
      "\<forall>k. r = Inr k \<longrightarrow> n = length is"
      using Cons.IH[OF _ rest] Cons.prems(1) l unfolding same by (metis list.set_intros(2))
    have "tensor_inputs E (meth s) bufs [i] @ tensor_inputs E (meth s) bufs (take n is) =
        tensor_inputs E (meth s) bufs (take (Suc n) (i # is))" by (simp add: tensor_inputs_def)
    then show ?thesis using n l Inr by (intro exI[of _ "Suc n"]) simp
  qed
qed (simp add: tensor_inputs_def)

end

text \<open>
  C38: A model whose inputs fit is given exactly these. Let every tensor of the method be given bytes of its size, or let no
  inputs be given at all and every tensor hold integers or floats of four bytes each. Then, whatever the memory held, the
  inputs set are, in order, the bytes given for each tensor, or ones where none are given: this is what its buffer holds
  when \<open>set_input\<close> is called. The function may stop at an error of the allocator or of the method, but reports success only
  when all are set. Assumed of the method: it records what is set and keeps the signature of its inputs.
\<close>
theorem inputs_bound:
  assumes "method_log E seen" "prepare_input_tensors E bufs s = (r, s')"
    and "\<And>i info. i < num_inputs E (meth s) \<Longrightarrow> input_tensor_meta E (meth s) i = Inr info \<Longrightarrow> fits bufs info i"
  shows "\<exists>n \<le> num_inputs E (meth s).
    seen (meth s') = seen (meth s) @ tensor_inputs E (meth s) bufs [0..<n] \<and>
    (\<forall>x. r = Inr x \<longrightarrow> n = num_inputs E (meth s))"
proof -
  obtain t a where a: "allocate E (word_of_nat (num_inputs E (meth s)) * 8) (kDefaultAlignment E) (alloc s) = (t, a)"
    by (metis prod.exhaust)
  show ?thesis
  proof (cases t)
    case None
    then show ?thesis using assms(2) a by (intro exI[of _ 0]) (auto simp: prepare_input_tensors_def tensor_inputs_def)
  next
    case (Some tbl)
    obtain r1 where p: "prepare_inputs E bufs tbl [0..<num_inputs E (meth s)] 0 (s\<lparr>alloc := a\<rparr>) = (r1, s')"
      and r: "r = (case r1 of Inl e \<Rightarrow> Inl e | Inr k \<Rightarrow> Inr (tbl, k))"
      using assms(2) a Some by (auto simp: prepare_input_tensors_def split: prod.splits sum.splits)
    have "\<exists>n \<le> length [0..<num_inputs E (meth s)].
        seen (meth s') = seen (meth (s\<lparr>alloc := a\<rparr>)) @ tensor_inputs E (meth (s\<lparr>alloc := a\<rparr>)) bufs (take n [0..<num_inputs E (meth s)]) \<and>
        (\<forall>k. r1 = Inr k \<longrightarrow> n = length [0..<num_inputs E (meth s)])"
      by (rule method_log.inputs_log[OF assms(1) _ p]) (use assms(3) in simp)
    then obtain n where n: "n \<le> num_inputs E (meth s)"
      "seen (meth s') = seen (meth s) @ tensor_inputs E (meth s) bufs (take n [0..<num_inputs E (meth s)])"
      "\<forall>k. r1 = Inr k \<longrightarrow> n = num_inputs E (meth s)" by (auto simp del: take_upt)
    then have "take n [0..<num_inputs E (meth s)] = [0..<n]" by simp
    then show ?thesis using n r by (intro exI[of _ n]) (auto split: sum.splits)
  qed
qed

text \<open>
  A method that accepts or refuses a buffer by its address and its tensor, not by the bytes in it: \<open>shape\<close> is the part of its
  state that decides, and setting an input does not change that part.
\<close>

locale blind_method =
  fixes E :: "('a, 'm, 'z) et_api_scheme" and shape :: "'m \<Rightarrow> 's" and verdict :: "'s \<Rightarrow> tensor_info \<Rightarrow> u64 \<Rightarrow> nat \<Rightarrow> et_error option"
  assumes sets: "set_input E info p m i mt = (err, m', mt') \<Longrightarrow> err = verdict (shape mt) info p i \<and> shape mt' = shape mt"
    and shaped: "shape mt = shape mt' \<Longrightarrow> num_inputs E mt = num_inputs E mt' \<and>
      input_is_tensor E mt = input_is_tensor E mt' \<and> input_tensor_meta E mt = input_tensor_meta E mt'"

definition mismatches :: "('a, 'm, 'z) et_api_scheme \<Rightarrow> 'm \<Rightarrow> u8 list list \<Rightarrow> nat list \<Rightarrow> et_message list" where
  "mismatches E mt bufs is =
     concat (map (\<lambda>i. case (input_is_tensor E mt i, input_tensor_meta E mt i) of
       (Inr True, Inr info) \<Rightarrow> mismatch bufs info i | _ \<Rightarrow> []) is)"

text \<open>Two runs on different inputs go the same way.\<close>

definition same_way :: "('m \<Rightarrow> 's) \<Rightarrow> ('a, 'm) et_state \<Rightarrow> ('a, 'm) et_state \<Rightarrow> bool" where
  "same_way shape s t \<longleftrightarrow> alloc s = alloc t \<and> shape (meth s) = shape (meth t)"

context blind_method
begin

lemma prepare_same_way:
  assumes "same_way shape s t" "prepare_input E bufs tbl i k s = (r, s')" "prepare_input E bufs' tbl i k t = (r', t')"
  shows "r = r' \<and> same_way shape s' t'"
proof -
  note sh = shaped[of "meth s" "meth t"]
  show ?thesis
    using assms sh
    by (auto simp: prepare_input_def same_way_def Let_def split: sum.splits bool.splits prod.splits option.splits dest!: sets)
      (metis option.inject)
qed

lemma inputs_same_way:
  "same_way shape s t \<Longrightarrow> fst (prepare_inputs E bufs tbl is k s) = fst (prepare_inputs E bufs' tbl is k t)"
proof (induction "is" arbitrary: k s t)
  case (Cons i "is")
  obtain r s' r' t' where 1: "prepare_input E bufs tbl i k s = (r, s')" "prepare_input E bufs' tbl i k t = (r', t')"
    by (metis prod.exhaust)
  then show ?case using prepare_same_way[OF Cons.prems 1] Cons.IH[of s' t'] by (simp split: sum.splits)
qed simp

lemma prepare_reports:
  assumes "prepare_input E bufs tbl i k s = (Inr k', s')"
  shows "logged s' = logged s @ mismatches E (meth s) bufs [i] \<and> shape (meth s') = shape (meth s)"
  using assms
  by (auto simp: prepare_input_def mismatches_def Let_def split: sum.splits bool.splits prod.splits option.splits dest!: sets)

lemma inputs_report:
  "prepare_inputs E bufs tbl is k s = (Inr k', s') \<Longrightarrow> logged s' = logged s @ mismatches E (meth s) bufs is"
proof (induction "is" arbitrary: k s)
  case (Cons i "is")
  obtain r s1 where 1: "prepare_input E bufs tbl i k s = (r, s1)" by (metis prod.exhaust)
  then obtain k1 where k1: "r = Inr k1" "prepare_inputs E bufs tbl is k1 s1 = (Inr k', s')" using Cons.prems by (cases r) auto
  note l = prepare_reports[OF 1[unfolded k1(1)]]
  then have "mismatches E (meth s1) bufs is = mismatches E (meth s) bufs is"
    using shaped[of "meth s1" "meth s"] by (simp add: mismatches_def)
  then show ?case using Cons.IH[OF k1(2)] l by (simp add: mismatches_def)
qed (simp add: mismatches_def)

end

text \<open>
  C39: An input of the wrong size is logged and nothing else. For a method whose \<open>set_input\<close> decides by the tensor and the
  buffer's address and not by the bytes in it, what the function returns does not depend on the inputs given: it is the same
  for any two lists of buffers, of whatever number and sizes, so that it never fails because of a disagreement; and when it
  succeeds, it has logged exactly one error message, with both sizes, for each tensor whose buffer has another size, and
  none for a tensor it has no buffer for.
\<close>
theorem wrong_input_only_logged:
  assumes "blind_method E shape verdict"
  shows "fst (prepare_input_tensors E bufs s) = fst (prepare_input_tensors E bufs' s) \<and>
    (prepare_input_tensors E bufs s = (Inr x, s') \<longrightarrow>
      logged s' = logged s @ mismatches E (meth s) bufs [0..<num_inputs E (meth s)])"
proof -
  obtain q a where a: "allocate E (word_of_nat (num_inputs E (meth s)) * 8) (kDefaultAlignment E) (alloc s) = (q, a)"
    by (metis prod.exhaust)
  have "same_way shape (s\<lparr>alloc := a\<rparr>) (s\<lparr>alloc := a\<rparr>)" by (simp add: same_way_def)
  note same = blind_method.inputs_same_way[OF assms this, of bufs _ "[0..<num_inputs E (meth s)]" 0 bufs']
  have "fst (prepare_input_tensors E bufs s) = fst (prepare_input_tensors E bufs' s)"
  proof (cases q)
    case (Some tbl)
    obtain r u r' u' where "prepare_inputs E bufs tbl [0..<num_inputs E (meth s)] 0 (s\<lparr>alloc := a\<rparr>) = (r, u)"
      "prepare_inputs E bufs' tbl [0..<num_inputs E (meth s)] 0 (s\<lparr>alloc := a\<rparr>) = (r', u')" by (metis prod.exhaust)
    then show ?thesis using a Some same[of tbl] by (auto simp: prepare_input_tensors_def split: sum.splits)
  qed (use a in \<open>simp add: prepare_input_tensors_def\<close>)
  moreover have "logged s' = logged s @ mismatches E (meth s) bufs [0..<num_inputs E (meth s)]"
    if ok: "prepare_input_tensors E bufs s = (Inr x, s')"
  proof -
    obtain tbl k where "q = Some tbl" "prepare_inputs E bufs tbl [0..<num_inputs E (meth s)] 0 (s\<lparr>alloc := a\<rparr>) = (Inr k, s')"
      using ok a by (auto simp: prepare_input_tensors_def split: option.splits prod.splits sum.splits)
    then show ?thesis using blind_method.inputs_report[OF assms, of bufs tbl _ 0 "s\<lparr>alloc := a\<rparr>" k s'] by simp
  qed
  ultimately show ?thesis by blast
qed

text \<open>
  An exhausted pool is not noticed either: when there is no room for the table of pointers, the next execution runs on the
  memory and the method as they are.
\<close>
lemma exhausted_pool_runs_on:
  assumes "allocate E (word_of_nat (num_inputs E (meth s)) * 8) (kDefaultAlignment E) (alloc s) = (None, a)" "0 < it"
  shows "exec_loop E bufs [it] status s = execute E (s\<lparr>alloc := a\<rparr>)"
  using assms by (simp add: prepare_input_tensors_def Let_def split: prod.splits)

text \<open>
  The checksum of integers is their sum: at its width it does not overflow for any tensor of less than
  \<open>2 ^ 31\<close> elements, which is what the program's \<open>int\<close> can count.
\<close>
theorem int_checksum_exact:
  assumes "length xs < 2 ^ 31" "output_checksum E (Ints xs) = Int_Sum c"
  shows "sint c = sum_list (map sint xs)"
proof -
  have step: "sint (foldl (\<lambda>sum x. sum + scast x) (0 :: u64) xs) = sum_list (map sint xs) \<and>
      \<bar>sum_list (map sint xs)\<bar> \<le> int (length xs) * 2 ^ 31" if "length xs < 2 ^ 31" for xs :: "u32 list"
    using that
  proof (induction xs rule: rev_induct)
    case (snoc x xs)
    let ?c = "foldl (\<lambda>sum x. sum + scast x) (0 :: u64) xs"
    have IH: "sint ?c = sum_list (map sint xs)" "\<bar>sum_list (map sint xs)\<bar> \<le> int (length xs) * 2 ^ 31" using snoc by simp_all
    have x: "- (2 ^ 31) \<le> sint x" "sint x < 2 ^ 31" using sint_greater_eq[of x] sint_less[of x] by simp_all
    have "int (length xs) * 2 ^ 31 \<le> 2 ^ 31 * 2 ^ 31" using snoc.prems by (intro mult_right_mono) simp_all
    then have b: "\<bar>sum_list (map sint xs) + sint x\<bar> \<le> 2 ^ 62 + 2 ^ 31" using IH(2) x by simp
    have "sint (scast x :: u64) = sint x" by (simp add: sint_up_scast is_up)
    then have "sint (?c + scast x) = signed_take_bit 63 (sum_list (map sint xs) + sint x)"
      unfolding sint_word_ariths(1) IH(1) by simp
    also have "\<dots> = sum_list (map sint xs) + sint x" using b by (intro signed_take_bit_int_eq_self) simp_all
    finally show ?case using IH(2) x by (simp add: algebra_simps)
  qed simp
  then show ?thesis using assms by (auto simp: output_checksum_def)
qed

section \<open>A concrete runtime\<close>

text \<open>
  A bump allocator over \<open>n\<close> bytes and a method with two tensors, of two integers and of one float, and an
  input between them that is no tensor; the method's state are the inputs it was given.
\<close>

definition sim_et :: "nat \<Rightarrow> (nat, (nat \<times> u8 list) list, unit, int) et_program_api" where
  "sim_et n = \<lparr>ma_allocate = (\<lambda>sz al b. let st = align_up (unat al) b in
       if st + unat sz \<le> n then (Some (0x1000 + word_of_nat st), st + unat sz) else (None, b)),
     ma_size = (\<lambda>b. word_of_nat n), kDefaultAlignment = 16, num_inputs = (\<lambda>m. 3),
     input_is_tensor = (\<lambda>m i. Inr (i \<noteq> 1)),
     input_tensor_meta = (\<lambda>m i. Inr (if i = 0 then \<lparr>nbytes = 8, scalar = S_Int, numel = 2\<rparr> else \<lparr>nbytes = 4, scalar = S_Float, numel = 1\<rparr>)),
     set_input = (\<lambda>info p m i mt. (None, m, mt @ [(i, load_bytes p (unat (nbytes info)) m)])), buffer_cleanup = (\<lambda>tbl k m. m),
     new_allocator = 0, program_load = (\<lambda>pte. Some ()), get_method_name = (\<lambda>p. Some ''forward''),
     planned_sizes = (\<lambda>p nm. Some [64]), load_method = (\<lambda>p nm spans m a. (Some [], m, a)),
     execute = (\<lambda>s. (None, s)), get_outputs = (\<lambda>s. (None, [Ints (map (\<lambda>b. ucast b) (concat (map snd (meth s))))])),
     d_zero = 0, d_add = (+)\<rparr>"

lemma unat_small_power: "k \<le> 4 \<Longrightarrow> unat ((2 :: u64) ^ k) = 2 ^ k"
proof -
  assume "k \<le> 4"
  then have "k \<in> {0, 1, 2, 3, 4}" by auto
  then show ?thesis by auto
qed

interpretation sim_bump: bump_allocator "sim_et n" id
  by unfold_locales (auto simp: sim_et_def Let_def unat_small_power split: if_splits)

interpretation sim_log: method_log "sim_et n" id
  by unfold_locales (auto simp: sim_et_def)

interpretation sim_blind: blind_method "sim_et n" "\<lambda>mt. ()" "\<lambda>sh info p i. None"
  by unfold_locales (auto simp: sim_et_def)

definition sim_pool :: "nat riscv_allocator" where "sim_pool = \<lparr>base = 0, used = 0\<rparr>"

theorem used_never_understates_witness:
  "base (allocate_all (sim_et 100) 16 [5, 16, 3, 200] sim_pool) \<le> unat (used_size (allocate_all (sim_et 100) 16 [5, 16, 3, 200] sim_pool))"
  using used_never_understates[OF sim_bump.bump_allocator_axioms, of sim_pool 4 "[5, 16, 3, 200]" 100]
  by (simp add: sim_pool_def)

theorem free_size_wraps_witness:
  "(24 :: u64) < free_size (sim_et 24) (snd (allocate (sim_et 24) 5 16 (snd (allocate (sim_et 24) 5 16 sim_pool))))"
proof -
  obtain p a where a: "allocate (sim_et 24) 5 16 sim_pool = (Some p, a)"
    by (simp add: allocate_def sim_et_def sim_pool_def align_up_def)
  moreover from this obtain p' a' where "allocate (sim_et 24) 5 16 a = (Some p', a')"
    by (auto simp: allocate_def sim_et_def sim_pool_def align_up_def)
  ultimately show ?thesis
    using free_size_wraps[OF sim_bump.bump_allocator_axioms, of sim_pool 5 24 p a p' a']
    by (simp add: sim_pool_def) (simp add: sim_et_def)
qed

definition sim_et_state :: "(nat, (nat \<times> u8 list) list) et_state" where
  "sim_et_state = \<lparr>mem = (\<lambda>p. 0xAA), alloc = sim_pool, meth = [], logged = []\<rparr>"

lemma sim_prepared: "fst (prepare_input_tensors (sim_et 100) [] sim_et_state) = Inr (0x1000, 2)"
  by (simp add: prepare_input_tensors_def prepare_input_def allocate_def sim_et_def sim_et_state_def sim_pool_def
      align_up_def upt_rec Let_def)

theorem inputs_bound_witness:
  "meth (snd (prepare_input_tensors (sim_et 100) [] sim_et_state)) = [(0, [1, 0, 0, 0, 1, 0, 0, 0]), (2, [0, 0, 0x80, 0x3F])]"
proof -
  have fits: "fits [] info i" if "input_tensor_meta (sim_et 100) (meth sim_et_state) i = Inr info" for i info
    using that by (auto simp: sim_et_def fits_def split: if_splits)
  obtain s' where s': "prepare_input_tensors (sim_et 100) [] sim_et_state = (Inr (0x1000, 2), s')"
    using sim_prepared by (metis prod.collapse)
  have "num_inputs (sim_et 100) (meth sim_et_state) = 3" by (simp add: sim_et_def)
  then have "meth s' = tensor_inputs (sim_et 100) [] [] [0..<3]"
    using inputs_bound[OF sim_log.method_log_axioms s' fits] by (auto simp: sim_et_state_def)
  also have "\<dots> = [(0, [1, 0, 0, 0, 1, 0, 0, 0]), (2, [0, 0, 0x80, 0x3F])]" by code_simp
  finally show ?thesis using s' by simp
qed

theorem wrong_input_only_logged_witness:
  "\<exists>x s'. prepare_input_tensors (sim_et 100) [[7]] sim_et_state = (Inr x, s') \<and> logged s' = [Size_Mismatch 1 8]"
proof -
  note w = wrong_input_only_logged[OF sim_blind.blind_method_axioms, where bufs = "[[7]]" and s = sim_et_state]
  have "fst (prepare_input_tensors (sim_et 100) [[7]] sim_et_state) = Inr (0x1000, 2)"
    using w[of 100 "[]"] sim_prepared by simp
  then obtain s' where s': "prepare_input_tensors (sim_et 100) [[7]] sim_et_state = (Inr (0x1000, 2), s')" by (metis prod.collapse)
  have "mismatches (sim_et 100) [] [[7]] [0..<3] = [Size_Mismatch 1 8]" by code_simp
  then have "logged s' = [Size_Mismatch 1 8]" using w[of 100 _ "(0x1000, 2)" s'] s' by (simp add: sim_et_state_def sim_et_def)
  then show ?thesis using s' by blast
qed

theorem int_checksum_exact_witness:
  "\<exists>c. output_checksum (sim_et 100) (Ints [-1, 5]) = Int_Sum c \<and> sint c = 4"
proof -
  obtain c where c: "output_checksum (sim_et 100) (Ints [-1, 5]) = Int_Sum c" by (simp add: output_checksum_def)
  show ?thesis using int_checksum_exact[OF _ c] c by simp
qed

end
