(* ===== verification/Iree_Embedding.thy ===== *)
theory Iree_Embedding
  imports Prelude
begin

text \<open>
  The IREE sample \<open>samples/iree/simple_embedding/src/simple_embedding.c\<close>: \<open>Run\<close> with every call it makes, what it
  owns after each, and the check of the product. IREE's calls and \<open>malloc\<close> are a parameter: a call has a
  status, and changes the world. Debug output and the trace encoder, which is off, are left out.
\<close>

section \<open>The program\<close>

datatype iree_status = IREE_OK | IREE_UNKNOWN | IREE_NOT_FOUND | IREE_RESOURCE_EXHAUSTED | IREE_OTHER nat

text \<open>What the program owns, and its calls; \<open>C_Upload\<close> has the elements of the tensor.\<close>

datatype iree_obj = O_Instance | O_Device | O_Hal_Module | O_Bytecode_Module | O_Context | O_Int8_4 | O_Int8_2 | O_Int32_Zero
  | O_Arg nat | O_Inputs | O_Outputs | O_Results

datatype iree_call = C_Instance_Create | C_Register_Types | C_Device_Create | C_Hal_Module_Create | C_Bytecode_Module_Create
  | C_Context_Create | C_Resolve string | C_Upload nat "int list" | C_Inputs_Create | C_Push nat | C_Outputs_Create
  | C_Invoke | C_Transfer

record 'w iree_api =
  iree_call :: "iree_call \<Rightarrow> 'w \<Rightarrow> iree_status \<times> 'w"
  malloc :: "iree_obj \<Rightarrow> 'w \<Rightarrow> bool \<times> 'w"
  output_view :: "'w \<Rightarrow> bool"
  transferred :: "'w \<Rightarrow> nat \<Rightarrow> int"

record 'w embedding =
  live :: "iree_obj list"
  iree_world :: 'w

text \<open>\<open>IREE_RETURN_IF_ERROR\<close> on each call of a list; a call that succeeds gives the objects beside it.\<close>

fun attempts :: "'w iree_api \<Rightarrow> (iree_call \<times> iree_obj list) list \<Rightarrow> 'w embedding \<Rightarrow> iree_status \<times> 'w embedding" where
  "attempts A [] s = (IREE_OK, s)"
| "attempts A ((c, objs) # cs) s =
     (case iree_call A c (iree_world s) of (r, w) \<Rightarrow>
      if r \<noteq> IREE_OK then (r, s\<lparr>iree_world := w\<rparr>)
      else attempts A cs (s\<lparr>live := objs @ live s, iree_world := w\<rparr>))"

text \<open>All of the allocations are made before they are looked at.\<close>

fun mallocs :: "'w iree_api \<Rightarrow> iree_obj list \<Rightarrow> 'w embedding \<Rightarrow> bool \<times> 'w embedding" where
  "mallocs A [] s = (True, s)"
| "mallocs A (b # bs) s =
     (case malloc A b (iree_world s) of (ok, w) \<Rightarrow>
      case mallocs A bs (s\<lparr>live := (if ok then [b] else []) @ live s, iree_world := w\<rparr>) of (oks, s) \<Rightarrow> (ok \<and> oks, s))"

definition release :: "iree_obj list \<Rightarrow> 'w embedding \<Rightarrow> 'w embedding" where
  "release objs s = s\<lparr>live := filter (\<lambda>b. b \<notin> set objs) (live s)\<rparr>"

text \<open>An argument is moved into the list.\<close>

fun pushes :: "'w iree_api \<Rightarrow> nat list \<Rightarrow> 'w embedding \<Rightarrow> iree_status \<times> 'w embedding" where
  "pushes A [] s = (IREE_OK, s)"
| "pushes A (i # is) s =
     (case attempts A [(C_Push i, [])] s of (r, s) \<Rightarrow> if r \<noteq> IREE_OK then (r, s) else pushes A is (release [O_Arg i] s))"

definition kDim :: nat where "kDim = 128"
definition kCount :: nat where "kCount = kDim * kDim"
definition kMainFunctionName :: string where "kMainFunctionName = ''module.vanilla_matmul_large''"

definition set_up_calls :: "(iree_call \<times> iree_obj list) list" where
  "set_up_calls = [(C_Instance_Create, [O_Instance]), (C_Register_Types, []), (C_Device_Create, [O_Device]),
     (C_Hal_Module_Create, [O_Hal_Module]), (C_Bytecode_Module_Create, [O_Bytecode_Module]), (C_Context_Create, [O_Context])]"

definition upload_calls :: "(iree_call \<times> iree_obj list) list" where
  "upload_calls = [(C_Upload 0 (replicate kCount 4), [O_Arg 0]), (C_Upload 1 (replicate kCount 2), [O_Arg 1]),
     (C_Upload 2 (replicate kCount 0), [O_Arg 2]), (C_Inputs_Create, [O_Inputs])]"

definition mismatches :: "(nat \<Rightarrow> int) \<Rightarrow> nat" where
  "mismatches results = length (filter (\<lambda>i. results i \<noteq> 1024) [0..<kCount])"

definition iree_run :: "'w iree_api \<Rightarrow> 'w embedding \<Rightarrow> iree_status \<times> 'w embedding" where
  "iree_run A s =
     (case attempts A set_up_calls s of (r, s) \<Rightarrow> if r \<noteq> IREE_OK then (r, s) else
      case attempts A [(C_Resolve kMainFunctionName, [])] (release [O_Hal_Module, O_Bytecode_Module] s) of (r, s) \<Rightarrow>
      if r \<noteq> IREE_OK then (r, s) else
      case mallocs A [O_Int8_4, O_Int8_2, O_Int32_Zero] s of (ok, s) \<Rightarrow>
      if \<not> ok then (IREE_RESOURCE_EXHAUSTED, s) else
      case attempts A upload_calls s of (r, s) \<Rightarrow> if r \<noteq> IREE_OK then (r, s) else
      case pushes A [0, 1, 2] s of (r, s) \<Rightarrow> if r \<noteq> IREE_OK then (r, s) else
      case attempts A [(C_Outputs_Create, [O_Outputs]), (C_Invoke, [])] s of (r, s) \<Rightarrow> if r \<noteq> IREE_OK then (r, s) else
      if \<not> output_view A (iree_world s) then (IREE_NOT_FOUND, s) else
      case mallocs A [O_Results] s of (ok, s) \<Rightarrow> if \<not> ok then (IREE_RESOURCE_EXHAUSTED, s) else
      case attempts A [(C_Transfer, [])] s of (r, s) \<Rightarrow> if r \<noteq> IREE_OK then (r, s) else
      if 0 < mismatches (transferred A (iree_world s)) then (IREE_UNKNOWN, s) else
      (IREE_OK, release [O_Int8_4, O_Int8_2, O_Int32_Zero, O_Results, O_Inputs, O_Outputs, O_Device, O_Context, O_Instance] s))"

definition iree_main :: "'w iree_api \<Rightarrow> 'w \<Rightarrow> int \<times> 'w embedding" where
  "iree_main A w = (case iree_run A \<lparr>live = [], iree_world = w\<rparr> of (r, s) \<Rightarrow> (if r \<noteq> IREE_OK then 1 else 0, s))"

section \<open>What it owns\<close>

lemma attempts_live:
  "attempts A cs s = (r, s') \<Longrightarrow>
   set (live s) \<subseteq> set (live s') \<and> (r = IREE_OK \<longrightarrow> set (live s') = set (concat (map snd cs)) \<union> set (live s))"
  by (induction cs arbitrary: s) (fastforce split: prod.splits if_splits)+

lemma mallocs_live:
  "mallocs A bs s = (ok, s') \<Longrightarrow> set (live s) \<subseteq> set (live s') \<and> (ok \<longrightarrow> set (live s') = set bs \<union> set (live s))"
  by (induction bs arbitrary: s ok) (fastforce split: prod.splits if_splits)+

lemma release_live [simp]: "set (live (release objs s)) = set (live s) - set objs"
  by (auto simp: release_def)

lemma pushes_live:
  "pushes A is s = (r, s') \<Longrightarrow> set (live s) - O_Arg ` set is \<subseteq> set (live s') \<and>
   (r = IREE_OK \<longrightarrow> set (live s') = set (live s) - O_Arg ` set is)"
proof (induction "is" arbitrary: s)
  case (Cons i "is")
  obtain r1 s1 where 1: "attempts A [(C_Push i, [])] s = (r1, s1)" by (metis prod.exhaust)
  have l: "set (live s) \<subseteq> set (live s1)" "r1 = IREE_OK \<Longrightarrow> set (live s1) = set (live s)" using attempts_live[OF 1] by auto
  show ?case
  proof (cases "r1 = IREE_OK")
    case True
    then have "pushes A is (release [O_Arg i] s1) = (r, s')" using Cons.prems 1 by simp
    from Cons.IH[OF this] show ?thesis using l(2)[OF True] by auto
  next
    case False
    then show ?thesis using Cons.prems 1 l(1) by (auto simp del: attempts.simps)
  qed
qed simp

text \<open>A stage of \<open>Run\<close> that fails ends it.\<close>

lemma stage:
  assumes "(case x of (r, s) \<Rightarrow> if r \<noteq> IREE_OK then (r, s) else f s) = (r', s')"
  obtains "r' \<noteq> IREE_OK" "x = (r', s')" | s1 where "x = (IREE_OK, s1)" "f s1 = (r', s')"
  using assms by (cases x) (auto split: if_splits)

lemma alloc_stage:
  assumes "(case x of (ok, s) \<Rightarrow> if \<not> ok then (IREE_RESOURCE_EXHAUSTED, s) else f s) = (r', s')"
  obtains "r' \<noteq> IREE_OK" "x = (False, s')" | s1 where "x = (True, s1)" "f s1 = (r', s')"
  using assms by (cases x) (auto split: if_splits)

text \<open>From the first call on: the instance is there at every failure, and the rest is exact at success.\<close>

lemma pushed_live:
  assumes "(case pushes A [0, 1, 2] s4 of (r, s) \<Rightarrow> if r \<noteq> IREE_OK then (r, s) else
      case attempts A [(C_Outputs_Create, [O_Outputs]), (C_Invoke, [])] s of (r, s) \<Rightarrow> if r \<noteq> IREE_OK then (r, s) else
      if \<not> output_view A (iree_world s) then (IREE_NOT_FOUND, s) else
      case mallocs A [O_Results] s of (ok, s) \<Rightarrow> if \<not> ok then (IREE_RESOURCE_EXHAUSTED, s) else
      case attempts A [(C_Transfer, [])] s of (r, s) \<Rightarrow> if r \<noteq> IREE_OK then (r, s) else
      if 0 < mismatches (transferred A (iree_world s)) then (IREE_UNKNOWN, s) else
      (IREE_OK, release [O_Int8_4, O_Int8_2, O_Int32_Zero, O_Results, O_Inputs, O_Outputs, O_Device, O_Context, O_Instance] s)) = (r, s')"
    and "set (live s3) = {O_Instance, O_Device, O_Context, O_Int8_4, O_Int8_2, O_Int32_Zero}"
    and "set (live s4) = set (live s3) \<union> {O_Arg 0, O_Arg 1, O_Arg 2, O_Inputs}"
  shows "if r = IREE_OK then live s' = [] \<and> mismatches (transferred A (iree_world s')) = 0 else b \<longrightarrow> O_Instance \<in> set (live s')"
  using assms(1)
proof (cases rule: stage)
  case 1
  then show ?thesis using pushes_live[OF 1(2)] assms(2,3) by auto
next
  case (2 s5)
  have l5: "set (live s5) = {O_Instance, O_Device, O_Context, O_Int8_4, O_Int8_2, O_Int32_Zero, O_Inputs}"
    using pushes_live[OF 2(1)] assms(2,3) by auto
  from 2(2) show ?thesis
  proof (cases rule: stage)
    case 1
    then show ?thesis using attempts_live[OF 1(2)] l5 by auto
  next
    case (2 s6)
    have l6: "set (live s6) = insert O_Outputs (set (live s5))" using attempts_live[OF 2(1)] by auto
    show ?thesis
    proof (cases "output_view A (iree_world s6)")
      case False
      then show ?thesis using 2(2) l5 l6 by auto
    next
      case True
      have rest: "(case mallocs A [O_Results] s6 of (ok, s) \<Rightarrow> if \<not> ok then (IREE_RESOURCE_EXHAUSTED, s) else
          case attempts A [(C_Transfer, [])] s of (r, s) \<Rightarrow> if r \<noteq> IREE_OK then (r, s) else
          if 0 < mismatches (transferred A (iree_world s)) then (IREE_UNKNOWN, s) else
          (IREE_OK, release [O_Int8_4, O_Int8_2, O_Int32_Zero, O_Results, O_Inputs, O_Outputs, O_Device, O_Context, O_Instance] s)) = (r, s')"
        using 2(2) True by simp
      then show ?thesis
      proof (cases rule: alloc_stage)
        case 1
        then show ?thesis using mallocs_live[OF 1(2)] l5 l6 by auto
      next
        case (2 s7)
        have l7: "set (live s7) = insert O_Results (set (live s6))" using mallocs_live[OF 2(1)] by auto
        from 2(2) show ?thesis
        proof (cases rule: stage)
          case 1
          then show ?thesis using attempts_live[OF 1(2)] l5 l6 l7 by auto
        next
          case (2 s8)
          have l8: "set (live s8) = set (live s7)" using attempts_live[OF 2(1)] by auto
          let ?left = "release [O_Int8_4, O_Int8_2, O_Int32_Zero, O_Results, O_Inputs, O_Outputs, O_Device, O_Context, O_Instance] s8"
          have "set (live ?left) = {}" unfolding release_live l8 l7 l6 l5 by auto
          then have e: "live ?left = []" unfolding set_empty .
          have i: "O_Instance \<in> set (live s8)" unfolding l8 l7 l6 l5 by simp
          show ?thesis
          proof (cases "0 < mismatches (transferred A (iree_world s8))")
            case True
            then show ?thesis using 2(2) i by auto
          next
            case False
            then have "r = IREE_OK" "s' = ?left" using 2(2) by simp_all
            moreover have "iree_world ?left = iree_world s8" by (simp add: release_def)
            ultimately show ?thesis using e False by simp
          qed
        qed
      qed
    qed
  qed
qed

lemma run_live:
  assumes "iree_run A s = (r, s')" "live s = []"
  shows "if r = IREE_OK then live s' = [] \<and> mismatches (transferred A (iree_world s')) = 0
    else fst (iree_call A C_Instance_Create (iree_world s)) = IREE_OK \<longrightarrow> O_Instance \<in> set (live s')"
  using assms(1) unfolding iree_run_def
proof (cases rule: stage)
  case 1
  obtain q w where "iree_call A C_Instance_Create (iree_world s) = (q, w)" by (metis prod.exhaust)
  then show ?thesis using 1 attempts_live[of A "tl set_up_calls" "s\<lparr>live := [O_Instance], iree_world := w\<rparr>" r s'] assms(2)
    by (cases "q = IREE_OK") (auto simp: set_up_calls_def)
next
  case (2 s1)
  have l1: "set (live s1) = {O_Instance, O_Device, O_Hal_Module, O_Bytecode_Module, O_Context}"
    using attempts_live[OF 2(1)] assms(2) by (auto simp: set_up_calls_def)
  from 2(2) show ?thesis
  proof (cases rule: stage)
    case 1
    then show ?thesis using attempts_live[OF 1(2)] l1 by auto
  next
    case (2 s2)
    have l2: "set (live s2) = {O_Instance, O_Device, O_Context}" using attempts_live[OF 2(1)] l1 by auto
    from 2(2) show ?thesis
    proof (cases rule: alloc_stage)
      case 1
      then show ?thesis using mallocs_live[OF 1(2)] l2 by auto
    next
      case (2 s3)
      have l3: "set (live s3) = {O_Instance, O_Device, O_Context, O_Int8_4, O_Int8_2, O_Int32_Zero}"
        using mallocs_live[OF 2(1)] l2 by auto
      from 2(2) show ?thesis
      proof (cases rule: stage)
        case 1
        then show ?thesis using attempts_live[OF 1(2)] l3 by auto
      next
        case (2 s4)
        have l4: "set (live s4) = set (live s3) \<union> {O_Arg 0, O_Arg 1, O_Arg 2, O_Inputs}"
          using attempts_live[OF 2(1)] by (auto simp: upload_calls_def)
        from 2(2) show ?thesis by (rule pushed_live[OF _ l3 l4])
      qed
    qed
  qed
qed

text \<open>
  The program owns nothing in the end when it succeeds, and success means that all 16384 elements are 1024.
  When it fails after its first call, it leaves at least the instance behind: no early return releases anything.
\<close>
theorem success_is_checked_and_clean:
  assumes "iree_main A w = (rc, s)"
  shows "rc \<in> {0, 1} \<and>
    (rc = 0 \<longrightarrow> live s = [] \<and> (\<forall>i < kCount. transferred A (iree_world s) i = 1024)) \<and>
    (rc = 1 \<longrightarrow> fst (iree_call A C_Instance_Create w) = IREE_OK \<longrightarrow> O_Instance \<in> set (live s))"
proof -
  obtain r where r: "iree_run A \<lparr>live = [], iree_world = w\<rparr> = (r, s)" "rc = (if r \<noteq> IREE_OK then 1 else 0)"
    using assms by (auto simp: iree_main_def split: prod.splits)
  have "\<forall>i < kCount. f i = 1024" if "mismatches f = 0" for f using that by (simp add: mismatches_def filter_empty_conv)
  then show ?thesis using run_live[OF r(1)] r(2) by (auto split: if_splits)
qed

section \<open>On a device that multiplies\<close>

text \<open>Every call succeeds, the tensors stay as they were uploaded, and the result is the accumulator plus their product.\<close>

locale matmul_device =
  fixes A :: "'w iree_api" and tensor :: "'w \<Rightarrow> nat \<Rightarrow> int list"
  assumes call_ok: "fst (iree_call A c w) = IREE_OK"
    and upload: "tensor (snd (iree_call A (C_Upload k xs) w)) = (tensor w)(k := xs)"
    and call_keeps: "(\<And>k xs. c \<noteq> C_Upload k xs) \<Longrightarrow> tensor (snd (iree_call A c w)) = tensor w"
    and malloc_ok: "fst (malloc A b w)" "tensor (snd (malloc A b w)) = tensor w"
    and view_ok: "output_view A w"
    and product: "i < kCount \<Longrightarrow> transferred A w i =
      tensor w 2 ! i + (\<Sum>k < kDim. tensor w 0 ! (i div kDim * kDim + k) * tensor w 1 ! (k * kDim + i mod kDim))"
begin

lemma attempts_ok:
  assumes "list_all (\<lambda>(c, _). \<forall>k xs. c \<noteq> C_Upload k xs) cs"
  shows "\<exists>s'. attempts A cs s = (IREE_OK, s') \<and> tensor (iree_world s') = tensor (iree_world s)"
  using assms
proof (induction cs arbitrary: s)
  case (Cons c cs)
  obtain q objs where c: "c = (q, objs)" by (metis prod.exhaust)
  obtain w where w: "iree_call A q (iree_world s) = (IREE_OK, w)" using call_ok by (metis prod.collapse)
  then have "tensor w = tensor (iree_world s)" using call_keeps[of q "iree_world s"] Cons.prems c by simp
  then show ?case using Cons.IH[of "s\<lparr>live := objs @ live s, iree_world := w\<rparr>"] Cons.prems c w by simp
qed simp

lemma mallocs_ok: "\<exists>s'. mallocs A bs s = (True, s') \<and> tensor (iree_world s') = tensor (iree_world s)"
proof (induction bs arbitrary: s)
  case (Cons b bs)
  obtain w where w: "malloc A b (iree_world s) = (True, w)" "tensor w = tensor (iree_world s)"
    using malloc_ok[of b "iree_world s"] by (metis prod.collapse)
  then show ?case using Cons.IH[of "s\<lparr>live := [b] @ live s, iree_world := w\<rparr>"] by auto
qed simp

lemma release_world [simp]: "iree_world (release objs s) = iree_world s"
  by (simp add: release_def)

lemma pushes_ok: "\<exists>s'. pushes A is s = (IREE_OK, s') \<and> tensor (iree_world s') = tensor (iree_world s)"
proof (induction "is" arbitrary: s)
  case (Cons i "is")
  obtain s1 where "attempts A [(C_Push i, [])] s = (IREE_OK, s1)" "tensor (iree_world s1) = tensor (iree_world s)"
    using attempts_ok[of "[(C_Push i, [])]" s] by auto
  then show ?case using Cons.IH[of "release [O_Arg i] s1"] by (simp del: attempts.simps)
qed simp

lemma uploads_ok:
  "\<exists>s'. attempts A upload_calls s = (IREE_OK, s') \<and> tensor (iree_world s') 0 = replicate kCount 4 \<and>
    tensor (iree_world s') 1 = replicate kCount 2 \<and> tensor (iree_world s') 2 = replicate kCount 0"
proof -
  have step: "\<exists>w'. iree_call A (C_Upload k xs) w = (IREE_OK, w') \<and> tensor w' = (tensor w)(k := xs)" for k xs w
    using call_ok upload by (metis prod.collapse)
  obtain w0 where 0: "iree_call A (C_Upload 0 (replicate kCount 4)) (iree_world s) = (IREE_OK, w0)"
    "tensor w0 = (tensor (iree_world s))(0 := replicate kCount 4)" using step by blast
  obtain w1 where 1: "iree_call A (C_Upload 1 (replicate kCount 2)) w0 = (IREE_OK, w1)"
    "tensor w1 = (tensor w0)(1 := replicate kCount 2)" using step by blast
  obtain w2 where 2: "iree_call A (C_Upload 2 (replicate kCount 0)) w1 = (IREE_OK, w2)"
    "tensor w2 = (tensor w1)(2 := replicate kCount 0)" using step by blast
  obtain w3 where 3: "iree_call A C_Inputs_Create w2 = (IREE_OK, w3)" "tensor w3 = tensor w2"
    using call_ok[of C_Inputs_Create w2] call_keeps[of C_Inputs_Create w2] by (cases "iree_call A C_Inputs_Create w2") simp
  show ?thesis using 0 1 2 3 by (simp add: upload_calls_def del: One_nat_def)
qed

lemma product_1024:
  assumes "tensor w 0 = replicate kCount 4" "tensor w 1 = replicate kCount 2" "tensor w 2 = replicate kCount 0" "i < kCount"
  shows "transferred A w i = 1024"
proof -
  have d: "0 < kDim" by (simp add: kDim_def)
  have "i div kDim * kDim + k < kCount" "k * kDim + i mod kDim < kCount" if "k < kDim" for k
  proof -
    have "i div kDim < kDim" using assms(4) by (simp add: kCount_def less_mult_imp_div_less)
    then have "(i div kDim + 1) * kDim \<le> kDim * kDim" by (intro mult_right_mono) simp_all
    then show "i div kDim * kDim + k < kCount" using that by (simp add: kCount_def algebra_simps)
    have "(k + 1) * kDim \<le> kDim * kDim" using that by (intro mult_right_mono) simp_all
    then show "k * kDim + i mod kDim < kCount" using mod_less_divisor[OF d, of i] by (simp add: kCount_def algebra_simps)
  qed
  then have "(\<Sum>k < kDim. tensor w 0 ! (i div kDim * kDim + k) * tensor w 1 ! (k * kDim + i mod kDim)) = (\<Sum>k < kDim. 8)"
    using assms(1,2) by (intro sum.cong) simp_all
  then show ?thesis using product[OF assms(4)] assms(3,4) by (simp add: kDim_def)
qed

lemma run_succeeds: "\<exists>s'. iree_run A s = (IREE_OK, s')"
proof -
  obtain s1 where 1: "attempts A set_up_calls s = (IREE_OK, s1)" using attempts_ok[of set_up_calls s] by (auto simp: set_up_calls_def)
  obtain s2 where 2: "attempts A [(C_Resolve kMainFunctionName, [])] (release [O_Hal_Module, O_Bytecode_Module] s1) = (IREE_OK, s2)"
    using attempts_ok[of "[(C_Resolve kMainFunctionName, [])]"] by fastforce
  obtain s3 where 3: "mallocs A [O_Int8_4, O_Int8_2, O_Int32_Zero] s2 = (True, s3)" using mallocs_ok by blast
  obtain s4 where 4: "attempts A upload_calls s3 = (IREE_OK, s4)" "tensor (iree_world s4) 0 = replicate kCount 4"
    "tensor (iree_world s4) 1 = replicate kCount 2" "tensor (iree_world s4) 2 = replicate kCount 0" using uploads_ok by blast
  obtain s5 where 5: "pushes A [0, 1, 2] s4 = (IREE_OK, s5)" "tensor (iree_world s5) = tensor (iree_world s4)" using pushes_ok by blast
  obtain s6 where 6: "attempts A [(C_Outputs_Create, [O_Outputs]), (C_Invoke, [])] s5 = (IREE_OK, s6)"
    "tensor (iree_world s6) = tensor (iree_world s5)"
    using attempts_ok[of "[(C_Outputs_Create, [O_Outputs]), (C_Invoke, [])]" s5] by auto
  obtain s7 where 7: "mallocs A [O_Results] s6 = (True, s7)" "tensor (iree_world s7) = tensor (iree_world s6)" using mallocs_ok by blast
  obtain s8 where 8: "attempts A [(C_Transfer, [])] s7 = (IREE_OK, s8)" "tensor (iree_world s8) = tensor (iree_world s7)"
    using attempts_ok[of "[(C_Transfer, [])]" s7] by auto
  have "mismatches (transferred A (iree_world s8)) = 0"
    using product_1024[of "iree_world s8"] 4 5 6 7 8 by (simp add: mismatches_def filter_empty_conv)
  then show ?thesis
    unfolding iree_run_def 1 2 3 4(1) 5(1) 6(1) 7(1) 8(1) prod.case using view_ok by simp
qed

end

text \<open>On a device that multiplies, whatever it held, the program succeeds: the expected 1024 is the product's.\<close>
theorem multiplying_device_passes:
  assumes "matmul_device A tensor"
  shows "fst (iree_main A w) = 0"
proof -
  obtain s where "iree_run A \<lparr>live = [], iree_world = w\<rparr> = (IREE_OK, s)" using matmul_device.run_succeeds[OF assms] by blast
  then show ?thesis by (simp add: iree_main_def)
qed

text \<open>Such a device; and one whose calls fail from the upload on.\<close>

definition sim_iree :: "bool \<Rightarrow> (nat \<Rightarrow> int list) iree_api" where
  "sim_iree good = \<lparr>iree_call = (\<lambda>c w. case c of
       C_Upload k xs \<Rightarrow> (if good then IREE_OK else IREE_OTHER 5, w(k := xs)) | _ \<Rightarrow> (IREE_OK, w)),
     malloc = (\<lambda>b w. (True, w)), output_view = (\<lambda>w. True),
     transferred = (\<lambda>w i. w 2 ! i + (\<Sum>k < kDim. w 0 ! (i div kDim * kDim + k) * w 1 ! (k * kDim + i mod kDim)))\<rparr>"

interpretation sim_iree: matmul_device "sim_iree True" "\<lambda>w. w"
  by unfold_locales (auto simp: sim_iree_def split: iree_call.splits)

theorem multiplying_device_passes_witness: "fst (iree_main (sim_iree True) (\<lambda>k. [])) = 0"
  by (rule multiplying_device_passes[OF sim_iree.matmul_device_axioms])

theorem success_is_checked_and_clean_witness:
  "fst (iree_main (sim_iree False) (\<lambda>k. [])) = 1 \<and> O_Instance \<in> set (live (snd (iree_main (sim_iree False) (\<lambda>k. []))))"
proof -
  obtain rc s where m: "iree_main (sim_iree False) (\<lambda>k. []) = (rc, s)" by (metis prod.exhaust)
  have "rc = 1" using m
    by (simp add: iree_main_def iree_run_def set_up_calls_def upload_calls_def sim_iree_def release_def)
  moreover have "fst (iree_call (sim_iree False) C_Instance_Create (\<lambda>k. [])) = IREE_OK" by (simp add: sim_iree_def)
  ultimately show ?thesis using success_is_checked_and_clean[OF m] m by simp
qed

end
