(* ===== verification/Spec2Isabelle.thy ===== *)
theory Spec2Isabelle
  imports Topic_Log Broker_Run Broker_Protocol Broker_Fanout Broker_Sessions
    Ads7128 Vl53l5_Bringup Pmw3901 Sensor_Bringup Motors Rose_Pipeline Nav_Threads
    Tinympc_Results Tinympc_Flight Attitude Fused_Flight Bridge_Programs Drone_Log Closed_Loop Matmul_Pool
    Gemmini_Paths Drone_Fleet Drone_Text Drone_Text_Threads Ping_Pong Foc Sensor_Programs Et_Runner Iree_Embedding
begin

text \<open>
  Verification of the embedded software of the repository: a micro-ROS broker with its transports,
  the board bring-up programs of the RiskyBird drone, the flight and navigation controllers that run
  against the RoSE co-simulation, the state estimators and the model-predictive solver they call, the
  servers that solve for four drones over a serial line, the micro-ROS programs, the multi-threaded matrix
  products, and the runners of neural networks.

  The parts and their theories

  \<^item> Console transport, \<open>samples/micro_ros_multinode/src/transport_htif.c\<close>: \<open>Crc16\<close>,
    \<open>Transport_Htif\<close>. The static variables of the file are the record \<open>htif_state\<close>, the parser
    states its enumeration, \<open>feed_parser\<close> one byte of input. The read call is a loop that may not
    end (\<open>partial_function (option)\<close>); that it ends is a theorem about every clock that advances and every poll
    that returns.
  \<^item> Topic log, \<open>lib/microros_local/src/broker.c\<close> 240-319: \<open>Topic_Log\<close>.
  \<^item> Loopback queues, \<open>lib/microros_local/src/transport_loopback.c\<close>: \<open>Transport_Loopback\<close>.
  \<^item> Broker, \<open>lib/microros_local/src/broker.c\<close>: \<open>Broker_Tables\<close> (entities), \<open>Broker_Replies\<close> (state
    and replies), \<open>Broker\<close> (handlers, submessage loop, thread round). Over these:
    \<open>Broker_Wire\<close> (what the replies are as bytes, and their refinement of an abstract post),
    \<open>Broker_Safety\<close> and \<open>Broker_Run\<close> (invariant, reachable states, rounds that return),
    \<open>Broker_Parse\<close>, \<open>Broker_Protocol\<close> (CREATE, DELETE, CREATE_CLIENT from the wire),
    \<open>Broker_Fanout\<close> (WRITE_DATA refines a one-fold specification) and \<open>Broker_Sessions\<close> (isolation).
  \<^item> I/O expander and its test, \<open>samples/riskybird/ads7128_test\<close>, and the power-up hook of the
    flight controller: \<open>Ads7128\<close>.
  \<^item> Four range sensors behind the expander, \<open>samples/riskybird/vl35l5cx_test\<close>: \<open>Vl53l5_Bringup\<close>.
  \<^item> Optical flow driver, \<open>samples/riskybird/pmw3901_test\<close>: \<open>Pmw3901\<close>.
  \<^item> Bring-up program, bus scanners, expander hook: \<open>Sensor_Bringup\<close>.
  \<^item> Motor programs, \<open>riskybird/motor_1\<close> to \<open>motor_4\<close>, \<open>samples/riskybird/actuator_bringup\<close>: \<open>Motors\<close>.
  \<^item> Flight controller, \<open>samples/rose_flight_controller/src/main.cpp\<close>: \<open>Rose_Flight\<close> (blocks and
    single loop), \<open>Rose_Pipeline\<close> (its threads, the keep-alive among them, as a step relation of whole blocks).
  \<^item> Navigation controller, \<open>samples/rose_nav_controller/src/main.cpp\<close>: \<open>Rose_Nav\<close> (blocks and
    single loop), \<open>Nav_Threads\<close> (timer, control task and vision task as a step relation).
  \<^item> Matrix kernels, \<open>samples/tinympc_fp16_bench/tinympc/external/matlib/include\<close>: \<open>Matlib_Cpu\<close>
    (\<open>matlib_cpu.h\<close>) and \<open>Matlib_Rvv\<close> (\<open>matlib_rvv.h\<close>, \<open>matlib_rva.h\<close>, \<open>matlib_lmul.h\<close>), lists of
    floats at their index; the vector unit is a parameter with its strip lengths.
  \<^item> TinyMPC, \<open>external/admm\<close> beside it: \<open>Tinympc_Types\<close> (\<open>types_rvv.hpp\<close>), \<open>Tinympc\<close> (every step of
    \<open>admm_rvv.hpp\<close>, \<open>tiny_solve\<close>, \<open>tiny_init\<close>), \<open>Tinympc_Steps\<close> and \<open>Tinympc_Solve\<close> (what each step
    computes, once for any kernel library), \<open>Tinympc_Order\<close> (what an ordered float adds),
    \<open>Tinympc_Pair\<close> (two libraries compared), \<open>Tinympc_Problem\<close> (\<open>mpc_init\<close> and \<open>load_problem\<close> of the
    controllers and of the bench), \<open>Tinympc_Ready\<close> and \<open>Tinympc_Results\<close>. The sources are the bench's copy: the
    controllers build theirs from a submodule that is empty here.
  \<^item> Estimators, \<open>samples/rose_flight_controller/src\<close>: \<open>Est_Mahony\<close> (attitude), \<open>Est_Kalman\<close> (one
    axis), \<open>Est_Filters\<close> (both estimators, the factory). \<open>Tinympc_Flight\<close> puts solver and estimator
    into the flight controller's loop.
  \<^item> Attitude sample, \<open>samples/flight_controller/src\<close>: \<open>Attitude\<close>.
  \<^item> Fused-vision controllers: \<open>Rose_Bridge\<close> (the calls of the bridge driver that
    \<open>samples/rose_fused_nav\<close> and \<open>samples/rose_fused_mpc\<close> share: captures, range cross, low-dimensional
    inputs), \<open>Fused_Mpc\<close> (\<open>rose_fused_mpc/src/main.cpp\<close>: network inputs and outputs, command shaping,
    setpoint, single loop, threaded period), \<open>Fused_Flight\<close> (what the vehicle is told to do).
  \<^item> Bridge programs: \<open>Bridge_Programs\<close> holds \<open>rose_fused_nav/src/main.cpp\<close>, the controller of
    \<open>samples/rose/drone_control\<close> and the transport tests of \<open>samples/rose\<close> with \<open>common/rose_check.h\<close>.
  \<^item> Four-drone server, \<open>samples/drone_control/src/main_mt_binary.cpp\<close> and \<open>main_test_binary.cpp\<close>:
    \<open>Drone_Uart\<close> (the bytes, one at a time) and \<open>Drone_Threads\<close> (\<open>main\<close> and the workers as a step
    relation; the flags, the line and its mutex are shared). \<open>Drone_Log\<close> relates the line to what each drone
    solved for and to the bytes that came from, \<open>Drone_Fleet\<close> adds the workers' set-up and solve
    and composes the threads with the TinyMPC solver. \<open>Drone_Control\<close> is the one drone they are compared with.
  \<^item> Text servers, \<open>main.cpp\<close> and \<open>main_mt.cpp\<close> beside them: \<open>Text_Io\<close> (lines, the numbers of \<open>sscanf\<close>, the
    answers), \<open>Drone_Text\<close> (the single server, with its solver) and \<open>Drone_Text_Threads\<close> (the threaded one).
  \<^item> Micro-ROS programs, \<open>samples/micro_ros_local\<close> and \<open>samples/micro_ros_multinode\<close>, \<open>src/main.c\<close>:
    \<open>Micro_Ros\<close> (set-up, timers, subscriptions, executors) and \<open>Ping_Pong\<close> (what each thread calls and publishes).
  \<^item> Closed-loop simulations, \<open>main_hover.cpp\<close> and \<open>main_tracking.cpp\<close> beside them: \<open>Closed_Loop\<close>.
  \<^item> Matrix products by tiles, \<open>samples/tiled_matmul_mt\<close>, \<open>tiled_eigen_mt\<close>: \<open>Matmul_Tiles\<close>; the pool of
    \<open>samples/tiled_matmul_mt_pool\<close> as a step relation of single elements: \<open>Matmul_Pool\<close>.
  \<^item> Motor-control workload, \<open>samples/tacit/src/main.c\<close>: \<open>Foc\<close>.
  \<^item> Sensor tests (\<open>pmw3901_test\<close>, \<open>bmi088_test\<close>, \<open>tof_sensor\<close>, \<open>rose_multisensor_probe\<close>): \<open>Sensor_Programs\<close>.
  \<^item> Network runners: \<open>Et_Runner\<close> (\<open>samples/executorch/executor_runner/riscv_executor_runner.cpp\<close>: the
    counting allocator, the inputs, a run, the batch) and \<open>Iree_Embedding\<close>
    (\<open>samples/iree/simple_embedding/src/simple_embedding.c\<close>: \<open>Run\<close> with all it owns).
  \<^item> Convolution benchmark, \<open>gemmini_ubench/src/bench.c\<close>: \<open>Gemmini_Conv\<close> (the reference, patches,
    rescaling, the three paths and the table of shapes) and \<open>Gemmini_Paths\<close> (their errors). The
    accelerator is \<open>gemmini_api\<close> with the locale \<open>gemmini\<close>; every buffer access is checked.

  \<open>Prelude\<close>, \<open>Zephyr_API\<close> and \<open>Arrays\<close> (accesses, counting loops and what they change) are shared.

  Interfaces

  What is not under \<open>src/\<close> is a parameter: a record of operations on a world type \<open>'w\<close>, with what
  the code relies on stated as a locale and shown to hold of a concrete simulated device:
  \<open>uart_api\<close> (locales \<open>uart_input\<close>; \<open>uart_clock\<close>, where an empty poll returns; \<open>uart_paced\<close>, where calls take
  a bounded time), \<open>msgq_api\<close> (kernel queues, one thread at a time), \<open>ucdr_api\<close>
  (Micro-CDR), \<open>i2c_api\<close> (\<open>ads7128_bus\<close>, where a failed write may have taken effect, and \<open>ads7128_chip\<close>), \<open>pwm_api\<close>, \<open>pmw_api\<close> (SPI and pins), \<open>tof_api\<close>, \<open>range_api\<close>, \<open>rose_api\<close>
  and \<open>nav_api\<close> (sensors, bridge, estimator, solver, network) and \<open>float_api\<close> (the 32-bit floats,
  as an ordered structure with rounding left open). The vector unit is \<open>rvv_laws\<close>, \<open>rvv_order\<close> where
  comparisons matter and \<open>rvv_exact\<close> where sums are exact; a kernel library is \<open>matlib_laws\<close>, what
  the solver needs of one is \<open>tiny_kernels\<close>, extended by \<open>tiny_order\<close> and paired by \<open>tiny_pair\<close>; \<open>nan_order\<close> adds what
  values that are no numbers do.
  Each is interpreted on the scalar and on the vector kernels of the code. The bridge is \<open>bridge_api\<close>,
  with \<open>row_channel\<close> (words arrive in order) and \<open>bridge_log\<close> (requests, the camera's among them, and words sent).
  Zephyr's sensor calls are \<open>sensor_api\<close> (\<open>sensor_driver\<close>), the ROS client library \<open>ros_api\<close> (\<open>ros_library\<close>), the
  conversions between decimals and floats \<open>text_float\<close>, the trace encoder \<open>encoder_api\<close>, ExecuTorch \<open>et_api\<close>
  (\<open>bump_allocator\<close>, \<open>method_log\<close>, \<open>blind_method\<close>) and IREE \<open>iree_api\<close> (\<open>matmul_device\<close>).

  What the lemmas show

  Round trips of the framing and of the queues; that the parser cannot overrun its buffers and
  detects a changed byte; invariants of the broker's tables in every reachable state, isolation of
  its sessions, the exact bytes of its replies and the refinement of its fan-out; what driver calls
  do to a device's registers on every pattern of bus failures; that no two range sensors sharing an
  address are ever enabled together; that the threaded controllers compute what their loops compute, and their
  hand-offs never block, on every schedule of their blocks, as long as the driver calls return; that the vector kernels compute what the scalar kernels compute,
  so that the solver does over either, and never access memory outside their buffers; that tiles, patches and threads do not change a product, in
  any schedule of the pool; that the four-drone server finds every header, never mixes two responses,
  answers every observation it copied once the host stops sending, and is, with the
  solver in it, four controllers on their own, each on its own drone's data; that the text servers answer every line, in order and whole;
  that the nodes' counters count without a gap; that a network is given exactly the inputs that fit it, and
  what the runners report when they do not or a call fails; that the modulator's output is centred; that the
  simulated plant follows the plan and the trajectory is read within its table; that whatever the bridge
  fails at, each iteration asks for its inputs once and sends one whole action or none; that every buffer of the solver keeps its shape, the planned
  trajectory obeys the model and a solved plan is near its box; that the attitude stays a unit
  quaternion, the covariance updates are those of a Kalman filter and no correction overshoots. Some
  theorems state what the code does where a comment or the intent says otherwise; these are listed as
  findings of the manifest.

  Bounds and fuel

  The submessage loop has fuel \<open>message_fuel\<close> = 16384: every round that goes on consumes four bytes,
  and a message has at most 512; for a message of \<open>n\<close> bytes \<open>n div 4 + 1\<close> is enough. Schedules of threads are of any length. The workers of the four-drone
  server take at most 332 steps without a byte from the host, the pool's threads at most 12384 in all:
  both are measures that every step lowers. The text server settles within
  1019 steps, and its lines are below 255 bytes. The simulations make 70 and 10 steps, as the code does, over
  a trajectory of 301 rows. Machine integers keep their width; the C \<open>int\<close> of status values is \<open>int\<close>.

  Not modelled

  Diagnostic output (\<open>printk\<close>, \<open>printf\<close>, \<open>LOG_ERR\<close>) is left out except for the bytes of the topic log,
  which are the console's, and the runner's error messages. Rounding is left out of the theorems about real numbers (estimators, setpoints);
  those about the solver and its kernels hold of any float arithmetic with the laws they name, and the
  products by tiles of one where addition is exact. The checksum trace and the half-precision path of the
  solver are left out. The threads of the flight controller run in whole blocks: what
  happens inside the drivers, where a comment of \<open>main.cpp\<close> places an intermittent deadlock, is not modelled. In the
  ExecuTorch runner the log keeps the messages of inputs that failed; the clamp of the thread pool, the pinned thread and the diagnostic builds are left out.
  Programs that only call a library not under \<open>src/\<close> (\<open>micro_ros_pub\<close>, XNNPACK, muRISCV-NN, Eigen), those that only
  measure or print (\<open>timer\<close>, \<open>hello_pthread\<close>, \<open>hello_world\<close>), the two that probe the vector unit in assembly
  or intrinsics (\<open>test_mt_rvv\<close>, \<open>vfp16_probe\<close>) and the generated models are left out.
\<close>

end
